(* ===== verification/Indy_Prelude.thy ===== *)
theory Indy_Prelude
  imports Main "HOL-Library.Word"
begin

text \<open>
  Shared vocabulary of the development.

  \<^item> Byte vectors: Rust's \<open>Vec<u8>\<close> and \<open>&[u8]\<close> are \<open>bytes\<close>, lists of 8-bit words. A Rust
    \<open>String\<close> is a HOL \<open>string\<close>: the characters of HOL are bytes, so a \<open>string\<close> is the UTF-8
    text of the Rust value and \<open>length\<close> is \<open>String::len\<close>.
  \<^item> Results: \<open>IndyResult<T>\<close> is \<open>'a outcome\<close>. \<open>Err\<close> carries the \<open>IndyErrorKind\<close> of the
    \<open>IndyError\<close> (the kind decides the \<open>ErrorCode\<close> an API caller sees; the message text is
    dropped). \<open>Panic\<close> is a Rust panic: a failed \<open>assert!\<close>, an index out of range, an
    \<open>unwrap\<close> of \<open>None\<close>. The question mark operator of Rust is \<open>and_then\<close>.
  \<^item> Machine arithmetic: a \<open>usize\<close> or \<open>u64\<close> is a \<open>nat\<close>; where the source subtracts without a
    check the model calls \<open>usize_sub\<close>, which spells out what Rust does below zero in a build
    with and without overflow checks.
  \<^item> Containers: a \<open>HashSet\<close> is a list without repetition (\<open>List.insert\<close> adds), a \<open>HashMap\<close> is
    an association list with distinct keys; its iteration order is the list's order, and
    since the list is arbitrary nothing depends on a particular order.
\<close>

section \<open>Types\<close>

type_synonym bytes = "8 word list"

datatype IndyErrorKind =
    InvalidState | InvalidStructure | InvalidParam nat | IOError
  | MasterSecretDuplicateName | ProofRejected | RevocationRegistryFull | InvalidUserRevocId
  | CredentialRevoked | CredDefAlreadyExists
  | NoConsensus | InvalidTransaction | LedgerItemNotFound
  | PoolNotCreated | InvalidPoolHandle | PoolTerminated | PoolTimeout
  | PoolConfigAlreadyExists | PoolIncompatibleProtocolVersion
  | UnknownCrypto
  | InvalidWalletHandle | UnknownWalletStorageType | WalletStorageTypeAlreadyRegistered
  | WalletAlreadyExists | WalletNotFound | WalletAlreadyOpened | WalletAccessFailed
  | WalletEncodingError | WalletStorageError | WalletEncryptionError
  | WalletItemNotFound | WalletItemAlreadyExists | WalletQueryError
  | DIDAlreadyExists
  | UnknownPaymentMethodType | IncompatiblePaymentMethods | PaymentInsufficientFunds
  | PaymentSourceDoesNotExist | PaymentOperationNotSupported | PaymentExtraFunds
  | TransactionNotAllowed

datatype 'a outcome = Ok 'a | Err IndyErrorKind | Panic

section \<open>The error monad\<close>

primrec and_then :: "'a outcome \<Rightarrow> ('a \<Rightarrow> 'b outcome) \<Rightarrow> 'b outcome" where
  "and_then (Ok x) f = f x"
| "and_then (Err e) f = Err e"
| "and_then Panic f = Panic"

definition map_ok :: "('a \<Rightarrow> 'b) \<Rightarrow> 'a outcome \<Rightarrow> 'b outcome" where
  "map_ok f r = and_then r (\<lambda>x. Ok (f x))"

primrec is_ok :: "'a outcome \<Rightarrow> bool" where
  "is_ok (Ok x) = True"
| "is_ok (Err e) = False"
| "is_ok Panic = False"

definition ok_or :: "IndyErrorKind \<Rightarrow> 'a option \<Rightarrow> 'a outcome" where
  "ok_or e v = (case v of None \<Rightarrow> Err e | Some x \<Rightarrow> Ok x)"

fun map_outcome_list :: "('a \<Rightarrow> 'b outcome) \<Rightarrow> 'a list \<Rightarrow> 'b list outcome" where
  "map_outcome_list f [] = Ok []"
| "map_outcome_list f (x # xs) =
     and_then (f x) (\<lambda>y. and_then (map_outcome_list f xs) (\<lambda>ys. Ok (y # ys)))"

text \<open>
  A computation that may not end: \<open>None\<close> is a recursion deeper than the fuel it was given.
\<close>

type_synonym 'a run = "'a outcome option"

definition run_then :: "'a run \<Rightarrow> ('a \<Rightarrow> 'b run) \<Rightarrow> 'b run" where
  "run_then m f =
     (case m of
        None \<Rightarrow> None
      | Some (Ok x) \<Rightarrow> f x
      | Some (Err e) \<Rightarrow> Some (Err e)
      | Some Panic \<Rightarrow> Some Panic)"

section \<open>Unsigned arithmetic\<close>

text \<open>
  \<open>usize_sub checks a b\<close> is \<open>a - b\<close> on a 64-bit \<open>usize\<close>: with overflow checks (the debug
  profile) an underflow panics, without them (the release profile) it wraps modulo \<open>2^64\<close>.
\<close>

definition usize_sub :: "bool \<Rightarrow> nat \<Rightarrow> nat \<Rightarrow> nat outcome" where
  "usize_sub checks a b =
     (if b \<le> a then Ok (a - b) else if checks then Panic else Ok (a + 2 ^ 64 - b))"

text \<open>\<open>usize_add checks a b\<close> is \<open>a + b\<close> in the same way.\<close>

definition usize_add :: "bool \<Rightarrow> nat \<Rightarrow> nat \<Rightarrow> nat outcome" where
  "usize_add checks a b =
     (if a + b < 2 ^ 64 then Ok (a + b) else if checks then Panic else Ok ((a + b) mod 2 ^ 64))"

section \<open>Bytes and text\<close>

definition str_bytes :: "string \<Rightarrow> bytes" where
  "str_bytes s = map of_char s"

fun starts_with :: "'a list \<Rightarrow> 'a list \<Rightarrow> bool" where
  "starts_with xs [] = True"
| "starts_with [] (y # ys) = False"
| "starts_with (x # xs) (y # ys) = (x = y \<and> starts_with xs ys)"

section \<open>Association lists as hash maps\<close>

fun hm_get :: "('k \<times> 'v) list \<Rightarrow> 'k \<Rightarrow> 'v option" where
  "hm_get [] k = None"
| "hm_get ((k', v) # m) k = (if k' = k then Some v else hm_get m k)"

fun hm_insert :: "('k \<times> 'v) list \<Rightarrow> 'k \<Rightarrow> 'v \<Rightarrow> ('k \<times> 'v) list" where
  "hm_insert [] k v = [(k, v)]"
| "hm_insert ((k', v') # m) k v =
     (if k' = k then (k, v) # m else (k', v') # hm_insert m k v)"

fun hm_remove :: "('k \<times> 'v) list \<Rightarrow> 'k \<Rightarrow> ('k \<times> 'v) list" where
  "hm_remove [] k = []"
| "hm_remove ((k', v') # m) k = (if k' = k then m else (k', v') # hm_remove m k)"

definition hm_values :: "('k \<times> 'v) list \<Rightarrow> 'v list" where
  "hm_values m = map snd m"

definition hm_wf :: "('k \<times> 'v) list \<Rightarrow> bool" where
  "hm_wf m \<longleftrightarrow> distinct (map fst m)"

section \<open>Collections and rules\<close>

named_theorems outcome_simps \<open>rewrite rules of the error monad\<close>
named_theorems hm_simps \<open>rewrite rules of the hash map operations\<close>

lemma and_then_cong [fundef_cong]:
  "m = m' \<Longrightarrow> (\<And>x. m' = Ok x \<Longrightarrow> f x = g x) \<Longrightarrow> and_then m f = and_then m' g"
  by (cases m') auto

lemma and_then_Ok_iff [simp]:
  "and_then m f = Ok y \<longleftrightarrow> (\<exists>x. m = Ok x \<and> f x = Ok y)"
  by (cases m) auto

lemma and_then_assoc [outcome_simps]:
  "and_then (and_then m f) g = and_then m (\<lambda>x. and_then (f x) g)"
  by (cases m) auto

lemma and_then_Ok_right [simp]: "and_then m Ok = m"
  by (cases m) auto

lemma map_ok_simps [simp]:
  "map_ok f (Ok x) = Ok (f x)" "map_ok f (Err e) = Err e" "map_ok f Panic = Panic"
  by (simp_all add: map_ok_def)

lemma map_ok_Ok_iff [simp]: "map_ok f m = Ok y \<longleftrightarrow> (\<exists>x. m = Ok x \<and> y = f x)"
  by (cases m) auto

lemma run_then_simps [simp]:
  "run_then None f = None" "run_then (Some (Ok x)) f = f x"
  "run_then (Some (Err e)) f = Some (Err e)" "run_then (Some Panic) f = Some Panic"
  by (simp_all add: run_then_def)

lemma run_then_cong [fundef_cong]:
  "m = m' \<Longrightarrow> (\<And>x. m' = Some (Ok x) \<Longrightarrow> f x = g x) \<Longrightarrow> run_then m f = run_then m' g"
  by (auto simp: run_then_def split: option.split outcome.split)

lemma run_then_Ok_iff [simp]:
  "run_then m f = Some (Ok y) \<longleftrightarrow> (\<exists>x. m = Some (Ok x) \<and> f x = Some (Ok y))"
  by (auto simp: run_then_def split: option.split outcome.split)

lemma run_then_None_iff: "run_then m f = None \<longleftrightarrow> m = None \<or> (\<exists>x. m = Some (Ok x) \<and> f x = None)"
  by (auto simp: run_then_def split: option.split outcome.split)

lemma is_ok_iff: "is_ok m \<longleftrightarrow> (\<exists>x. m = Ok x)"
  by (cases m) auto

lemma ok_or_simps [simp]: "ok_or e None = Err e" "ok_or e (Some x) = Ok x"
  by (simp_all add: ok_or_def)

lemma ok_or_Ok_iff [simp]: "ok_or e v = Ok x \<longleftrightarrow> v = Some x"
  by (cases v) auto

lemma map_outcome_list_cong [fundef_cong]:
  "xs = ys \<Longrightarrow> (\<And>x. x \<in> set ys \<Longrightarrow> f x = g x) \<Longrightarrow>
     map_outcome_list f xs = map_outcome_list g ys"
  by (induction ys arbitrary: xs) auto

lemma map_outcome_list_Ok_iff:
  "map_outcome_list f xs = Ok ys \<longleftrightarrow> list_all2 (\<lambda>x y. f x = Ok y) xs ys"
  by (induction xs arbitrary: ys) (auto simp: list_all2_Cons1)

lemma map_outcome_list_total:
  "(\<And>x. x \<in> set xs \<Longrightarrow> f x = Ok (g x)) \<Longrightarrow> map_outcome_list f xs = Ok (map g xs)"
  by (induction xs) auto

lemma starts_with_iff: "starts_with xs ys \<longleftrightarrow> (\<exists>zs. xs = ys @ zs)"
  by (induction xs ys rule: starts_with.induct) auto

lemma starts_with_append [simp]: "starts_with (ys @ zs) ys"
  by (simp add: starts_with_iff)

lemma length_str_bytes [simp]: "length (str_bytes s) = length s"
  by (simp add: str_bytes_def)

lemma hm_get_insert [hm_simps]:
  "hm_get (hm_insert m k v) k' = (if k' = k then Some v else hm_get m k')"
  by (induction m k v rule: hm_insert.induct) auto

lemma hm_get_remove [hm_simps]:
  "hm_wf m \<Longrightarrow> hm_get (hm_remove m k) k' = (if k' = k then None else hm_get m k')"
proof (induction m k rule: hm_remove.induct)
  case (2 k0 v0 m k)
  have "hm_get m k0 = None" if "k0 \<notin> set (map fst m)" for k0 :: 'a and m :: "('a \<times> 'b) list"
    using that by (induction m) auto
  with 2 show ?case by (auto simp: hm_wf_def)
qed simp

lemma fst_hm_insert [hm_simps]:
  "fst ` set (hm_insert m k v) = insert k (fst ` set m)"
  by (induction m k v rule: hm_insert.induct) auto

lemma hm_wf_insert [intro]: "hm_wf m \<Longrightarrow> hm_wf (hm_insert m k v)"
proof (induction m k v rule: hm_insert.induct)
  case (2 k0 v0 m k v)
  then show ?case by (auto simp: hm_wf_def hm_simps image_iff)
qed (simp add: hm_wf_def)

lemma hm_get_Some_in: "hm_get m k = Some v \<Longrightarrow> (k, v) \<in> set m"
  by (induction m k rule: hm_get.induct) (auto split: if_splits)

lemma hm_get_None_iff [hm_simps]: "hm_get m k = None \<longleftrightarrow> k \<notin> fst ` set m"
  by (induction m k rule: hm_get.induct) auto

lemma hm_get_member: "hm_wf m \<Longrightarrow> (k, v) \<in> set m \<Longrightarrow> hm_get m k = Some v"
  by (induction m k rule: hm_get.induct) (auto simp: hm_wf_def image_iff)

lemma fold_hm_insert:
  "hm_get (fold (\<lambda>(n, v) m. hm_insert m n v) tags acc) k =
     (case map_of (rev tags) k of None \<Rightarrow> hm_get acc k | Some v \<Rightarrow> Some v)"
  by (induction tags arbitrary: acc) (auto simp: hm_simps map_add_def split: option.split)

lemma length_hm_insert [hm_simps]:
  "length (hm_insert m k v) = (if k \<in> fst ` set m then length m else Suc (length m))"
  by (induction m k v rule: hm_insert.induct) auto

lemma length_list_insert:
  "length (List.insert x xs) = (if x \<in> set xs then length xs else Suc (length xs))"
  by (auto simp: List.insert_def)

text \<open>The little-endian digits of a number.\<close>

lemma le_digits:
  "foldr (\<lambda>i acc. n div 256 ^ i mod 256 + 256 * acc) [j..<j + k] 0 = n div 256 ^ j mod (256 :: nat) ^ k"
proof (induction k arbitrary: j)
  case (Suc k)
  have "[j..<j + Suc k] = j # [Suc j..<Suc j + k]" by (simp add: upt_conv_Cons)
  then have "foldr (\<lambda>i acc. n div 256 ^ i mod 256 + 256 * acc) [j..<j + Suc k] 0 =
      n div 256 ^ j mod 256 + 256 * (n div 256 ^ Suc j mod 256 ^ k)"
    by (simp only: foldr.simps o_apply Suc.IH)
  also have "n div 256 ^ Suc j = n div 256 ^ j div 256" by (metis div_mult2_eq power_Suc2)
  also have "n div 256 ^ j mod 256 + 256 * (n div 256 ^ j div 256 mod 256 ^ k) =
      n div 256 ^ j mod (256 * 256 ^ k)"
    by (simp add: mod_mult2_eq)
  finally show ?case by simp
qed simp

end
