(* ===== verification/Crypto_Hash.thy ===== *)
theory Crypto_Hash
  imports Indy_Prelude
begin

text \<open>
  The hashing layer of libindy (\<open>libindy/indy-utils/src/crypto/hash/openssl.rs\<close>): the
  domain-separated leaf and node hashes of the ledger's Merkle trees over SHA-256.

  SHA-256 itself is openssl's, not code of the repository, so it is a parameter
  \<open>sha :: bytes \<Rightarrow> bytes\<close> of every definition that hashes. openssl's error result (a digest
  context that cannot be created) is not modelled: \<open>sha\<close> is total. What the proofs need of
  it is either nothing or the documented digest size (\<open>sha256_sized\<close>). Security statements
  are reductions: they conclude with \<open>collision sha\<close>, an explicit pair of colliding inputs.
\<close>

section \<open>The hash functions\<close>

definition HASHBYTES :: nat where
  "HASHBYTES = 32"

definition EMPTY_HASH_BYTES :: bytes where
  "EMPTY_HASH_BYTES =
     [227, 176, 196, 66, 152, 252, 28, 20, 154, 251, 244, 200, 153, 111, 185, 36,
      39, 174, 65, 228, 100, 155, 147, 76, 164, 149, 153, 27, 120, 82, 184, 85]"

definition hash_leaf :: "(bytes \<Rightarrow> bytes) \<Rightarrow> bytes \<Rightarrow> bytes" where
  "hash_leaf sha leaf = sha ([0x00] @ leaf)"

definition hash_nodes :: "(bytes \<Rightarrow> bytes) \<Rightarrow> bytes \<Rightarrow> bytes \<Rightarrow> bytes" where
  "hash_nodes sha left right = sha ([0x01] @ left @ right)"

section \<open>What is assumed of SHA-256\<close>

text \<open>The digest size SHA-256 documents.\<close>

definition sha256_sized :: "(bytes \<Rightarrow> bytes) \<Rightarrow> bool" where
  "sha256_sized sha \<longleftrightarrow> (\<forall>x. length (sha x) = HASHBYTES)"

text \<open>Two different inputs with one digest: what an attacker has to produce.\<close>

definition collision :: "(bytes \<Rightarrow> bytes) \<Rightarrow> bool" where
  "collision sha \<longleftrightarrow> (\<exists>x y. x \<noteq> y \<and> sha x = sha y)"

section \<open>Injectivity up to a collision\<close>

lemma collisionI: "sha x = sha y \<Longrightarrow> x \<noteq> y \<Longrightarrow> collision sha"
  by (auto simp: collision_def)

lemma length_hash_leaf [simp]: "sha256_sized sha \<Longrightarrow> length (hash_leaf sha v) = HASHBYTES"
  by (simp add: sha256_sized_def hash_leaf_def)

lemma length_hash_nodes [simp]: "sha256_sized sha \<Longrightarrow> length (hash_nodes sha l r) = HASHBYTES"
  by (simp add: sha256_sized_def hash_nodes_def)

lemma hash_leaf_inj:
  assumes "hash_leaf sha v = hash_leaf sha w"
  shows "v = w \<or> collision sha"
  using assms collisionI [of sha "[0x00] @ v" "[0x00] @ w"] by (auto simp: hash_leaf_def)

lemma hash_nodes_inj:
  assumes "hash_nodes sha a b = hash_nodes sha c d" and "length a = length c \<or> length b = length d"
  shows "(a = c \<and> b = d) \<or> collision sha"
proof (cases "a = c \<and> b = d")
  case False
  with assms(2) have "a @ b \<noteq> c @ d" by (auto simp: append_eq_append_conv)
  with assms(1) show ?thesis
    using collisionI [of sha "[0x01] @ a @ b" "[0x01] @ c @ d"] by (simp add: hash_nodes_def)
qed simp

lemma hash_leaf_neq_nodes: "hash_leaf sha v = hash_nodes sha l r \<Longrightarrow> collision sha"
  using collisionI [of sha "[0x00] @ v" "[0x01] @ l @ r"] by (simp add: hash_leaf_def hash_nodes_def)

end
