(* ===== verification/Ledger_Log.thy ===== *)
theory Ledger_Log
  imports Indy_Prelude
begin

text \<open>
  The interface between a ledger store and the code that replays transactions into it: an
  append-only log with a digest. The Merkle tree provides it (\<open>Merkle_Tree\<close>); the genesis and
  cache readers and the catch-up reply handler rely on it (\<open>Pool_Ledger\<close>).
\<close>

fun log_extend :: "('s \<Rightarrow> 'v \<Rightarrow> 's outcome) \<Rightarrow> 's \<Rightarrow> 'v list \<Rightarrow> 's outcome" where
  "log_extend app s [] = Ok s"
| "log_extend app s (v # vs) = and_then (app s v) (\<lambda>s'. log_extend app s' vs)"

lemma log_extend_append:
  "log_extend app s (vs @ ws) = and_then (log_extend app s vs) (\<lambda>s'. log_extend app s' ws)"
  by (induction vs arbitrary: s) (simp_all add: outcome_simps)

locale append_log =
  fixes app :: "'s \<Rightarrow> 'v \<Rightarrow> 's outcome"
    and contents :: "'s \<Rightarrow> 'v list"
    and digest :: "'s \<Rightarrow> 'd"
    and invar :: "'s \<Rightarrow> bool"
  assumes app_ok:
      "invar s \<Longrightarrow> \<exists>s'. app s v = Ok s' \<and> invar s' \<and> contents s' = contents s @ [v]"
    and digest_determined:
      "invar s \<Longrightarrow> invar t \<Longrightarrow> contents s = contents t \<Longrightarrow> digest s = digest t"
begin

text \<open>Replaying a list of entries never fails and adds exactly these entries.\<close>

lemma extend_ok:
  "invar s \<Longrightarrow> \<exists>s'. log_extend app s vs = Ok s' \<and> invar s' \<and> contents s' = contents s @ vs"
proof (induction vs arbitrary: s)
  case (Cons v vs)
  obtain s1 where s1: "app s v = Ok s1" "invar s1" "contents s1 = contents s @ [v]"
    using app_ok [OF Cons.prems] by blast
  from Cons.IH [OF s1(2)] s1 show ?case by auto
qed simp

lemma extend_Ok_contents:
  "invar s \<Longrightarrow> log_extend app s vs = Ok s' \<Longrightarrow> invar s' \<and> contents s' = contents s @ vs"
  using extend_ok [of s vs] by auto

text \<open>Two replicas that end with the same entries end with the same digest.\<close>

lemma extend_digest:
  assumes "invar s" "invar t" "contents s @ vs = contents t @ ws"
    and "log_extend app s vs = Ok s'" "log_extend app t ws = Ok t'"
  shows "digest s' = digest t'"
proof (rule digest_determined)
  show "invar s'" "invar t'" "contents s' = contents t'"
    using extend_Ok_contents assms by metis+
qed

end

end
