(* ===== verification/Merkle_Tree.thy ===== *)
theory Merkle_Tree
  imports Crypto_Hash Ledger_Log
begin

unbundle bit_operations_syntax

text \<open>
  The ledger's Merkle trees (\<open>libindy/src/services/ledger/merkletree\<close>): the binary tree and
  its leaf iterator (\<open>tree.rs\<close>), construction from a vector (\<open>merkletree.rs\<close>) and
  incremental append (\<open>mod.rs\<close>).

  The lemmas show that construction is the recursive tree of RFC 6962 (\<open>build_split\<close>,
  \<open>tree_of_split\<close>), that the iterator returns the leaves in order, and that append and
  construction agree on the whole record. Inclusion proofs are in \<open>Merkle_Inclusion\<close>,
  consistency proofs in \<open>Merkle_Consistency\<close>.
\<close>

section \<open>Trees\<close>

datatype Tree =
    Tree_Empty bytes
  | Tree_Leaf bytes bytes
  | Tree_Node bytes Tree Tree

definition new_leaf :: "(bytes \<Rightarrow> bytes) \<Rightarrow> bytes \<Rightarrow> Tree" where
  "new_leaf sha v = Tree_Leaf (hash_leaf sha v) v"

fun tree_hash :: "Tree \<Rightarrow> bytes" where
  "tree_hash (Tree_Empty h) = h"
| "tree_hash (Tree_Leaf h v) = h"
| "tree_hash (Tree_Node h l r) = h"

fun get_height :: "Tree \<Rightarrow> nat" where
  "get_height (Tree_Empty h) = 0"
| "get_height (Tree_Node h l r) = 1 + max (get_height l) (get_height r)"
| "get_height (Tree_Leaf h v) = 0"

fun get_count :: "Tree \<Rightarrow> nat" where
  "get_count (Tree_Empty h) = 0"
| "get_count (Tree_Node h l r) = get_count l + get_count r"
| "get_count (Tree_Leaf h v) = 1"

section \<open>The leaf iterator\<close>

text \<open>
  \<open>right_nodes\<close> is the stack of the iterator: the end of the Rust vector, where it pushes and
  pops, is the head of the list.
\<close>

record LeavesIterator =
  current_value :: "bytes option"
  right_nodes :: "Tree list"

fun add_left :: "LeavesIterator \<Rightarrow> Tree \<Rightarrow> LeavesIterator" where
  "add_left it (Tree_Empty h) = it\<lparr>current_value := None\<rparr>"
| "add_left it (Tree_Node h l r) = add_left (it\<lparr>right_nodes := r # right_nodes it\<rparr>) l"
| "add_left it (Tree_Leaf h v) = it\<lparr>current_value := Some v\<rparr>"

definition iter_new :: "Tree \<Rightarrow> LeavesIterator" where
  "iter_new t = add_left \<lparr>current_value = None, right_nodes = []\<rparr> t"

definition iter_next :: "LeavesIterator \<Rightarrow> bytes option \<times> LeavesIterator" where
  "iter_next it =
     (let result = current_value it; it' = it\<lparr>current_value := None\<rparr>
      in (result,
          case right_nodes it' of
            [] \<Rightarrow> it'
          | rest # rs \<Rightarrow> add_left (it'\<lparr>right_nodes := rs\<rparr>) rest))"

fun tree_weight :: "Tree \<Rightarrow> nat" where
  "tree_weight (Tree_Node h l r) = tree_weight l + tree_weight r"
| "tree_weight t = 1"

definition iter_weight :: "LeavesIterator \<Rightarrow> nat" where
  "iter_weight it =
     (if current_value it = None then 0 else 1) + sum_list (map tree_weight (right_nodes it))"

lemma add_left_weight:
  "iter_weight (add_left it t) \<le> tree_weight t + sum_list (map tree_weight (right_nodes it))"
  by (induction it t rule: add_left.induct) (auto simp: iter_weight_def)

lemma iter_next_weight:
  "iter_next it = (Some v, it') \<Longrightarrow> iter_weight it' < iter_weight it"
proof (cases "right_nodes it")
  case (Cons rest rs)
  assume "iter_next it = (Some v, it')"
  with Cons have c: "current_value it = Some v"
    and it': "it' = add_left (it\<lparr>current_value := None, right_nodes := rs\<rparr>) rest"
    by (auto simp: iter_next_def Let_def)
  have "iter_weight it' \<le> tree_weight rest + sum_list (map tree_weight rs)"
    using add_left_weight [of "it\<lparr>current_value := None, right_nodes := rs\<rparr>" rest]
    by (simp add: it')
  with c Cons show ?thesis by (simp add: iter_weight_def)
qed (auto simp: iter_next_def Let_def iter_weight_def)

text \<open>\<open>collect\<close> drains an iterator: it calls \<open>next\<close> until that returns \<open>None\<close>.\<close>

function iter_collect :: "LeavesIterator \<Rightarrow> bytes list" where
  "iter_collect it =
     (case iter_next it of (None, _) \<Rightarrow> [] | (Some v, it') \<Rightarrow> v # iter_collect it')"
  by pat_completeness auto
termination
  by (relation "measure iter_weight") (auto intro: iter_next_weight [OF sym])

declare iter_collect.simps [simp del]

section \<open>Construction\<close>

record MerkleTree =
  mt_root :: Tree
  mt_height :: nat
  mt_count :: nat
  mt_nodes_count :: nat

definition mt_default :: MerkleTree where
  "mt_default = \<lparr>mt_root = Tree_Empty EMPTY_HASH_BYTES, mt_height = 0, mt_count = 0,
                 mt_nodes_count = 0\<rparr>"

text \<open>The inner loop of \<open>from_vec\<close>: one level is paired up; \<open>n\<close> is \<open>nodes_count\<close>.\<close>

fun pair_level :: "(bytes \<Rightarrow> bytes) \<Rightarrow> Tree list \<Rightarrow> nat \<Rightarrow> Tree list \<times> nat" where
  "pair_level sha [] n = ([], n)"
| "pair_level sha [t] n = ([t], n)"
| "pair_level sha (l # r # cur) n =
     (let combined_hash = hash_nodes sha (tree_hash l) (tree_hash r);
          (nxt, n') = pair_level sha cur (n + 1)
      in (Tree_Node combined_hash l r # nxt, n'))"

lemma length_pair_level: "length (fst (pair_level sha ts n)) = (length ts + 1) div 2"
  by (induction sha ts n rule: pair_level.induct) (auto simp: Let_def split: prod.splits)

text \<open>The outer loop of \<open>from_vec\<close>, over \<open>(cur, height, nodes_count)\<close>.\<close>

function build_levels ::
    "(bytes \<Rightarrow> bytes) \<Rightarrow> Tree list \<Rightarrow> nat \<Rightarrow> nat \<Rightarrow> Tree list \<times> nat \<times> nat" where
  "build_levels sha cur height n =
     (if 1 < length cur
      then (let (nxt, n') = pair_level sha cur n in build_levels sha nxt (height + 1) n')
      else (cur, height, n))"
  by pat_completeness auto
termination
proof (relation "measure (\<lambda>(sha, cur, height, n). length cur)", goal_cases)
  case (2 sha cur height n x nxt n')
  then have "length nxt = (length cur + 1) div 2" by (metis length_pair_level fst_conv)
  with 2 show ?case by simp
qed simp

declare build_levels.simps [simp del]

definition from_vec :: "(bytes \<Rightarrow> bytes) \<Rightarrow> bytes list \<Rightarrow> MerkleTree outcome" where
  "from_vec sha values =
     (if values = [] then Ok mt_default
      else (case build_levels sha (map (new_leaf sha) values) 0 0 of
              ([], height, n) \<Rightarrow> Panic
            | (root # _, height, n) \<Rightarrow>
                Ok \<lparr>mt_root = root, mt_height = height, mt_count = length values,
                    mt_nodes_count = n\<rparr>))"

definition root_hash :: "MerkleTree \<Rightarrow> bytes" where
  "root_hash mt = tree_hash (mt_root mt)"

definition mt_is_empty :: "MerkleTree \<Rightarrow> bool" where
  "mt_is_empty mt \<longleftrightarrow> mt_count mt = 0"

definition mt_iter :: "MerkleTree \<Rightarrow> LeavesIterator" where
  "mt_iter mt = iter_new (mt_root mt)"

section \<open>Append\<close>

lemma and_nat_le: "(a AND b :: nat) \<le> b"
proof (induction b arbitrary: a rule: less_induct)
  case (less b)
  show ?case
  proof (cases "b = 0")
    case False
    then have "(a div 2 AND b div 2) \<le> b div 2" by (intro less.IH) simp
    then show ?thesis by (subst and_rec) (auto elim!: oddE evenE)
  qed simp
qed

function count_bits_loop :: "nat \<Rightarrow> nat \<Rightarrow> nat" where
  "count_bits_loop val ret =
     (if val \<noteq> 0 then count_bits_loop (val AND (val - 1)) (ret + 1) else ret)"
  by pat_completeness auto
termination
proof (relation "measure fst", goal_cases)
  case (2 val ret)
  then show ?case using and_nat_le [of val "val - 1"] by simp
qed simp

declare count_bits_loop.simps [simp del]

definition count_bits :: "nat \<Rightarrow> nat" where
  "count_bits v = count_bits_loop v 0"

definition mt_append :: "(bytes \<Rightarrow> bytes) \<Rightarrow> MerkleTree \<Rightarrow> bytes \<Rightarrow> MerkleTree outcome" where
  "mt_append sha mt node =
     (if mt_count mt = 0 then
        Ok (mt\<lparr>mt_root := new_leaf sha node, mt_count := mt_count mt + 1\<rparr>)
      else if count_bits (mt_count mt) \<noteq> 1 then
        (case mt_root mt of
           Tree_Node h l r \<Rightarrow>
             and_then (from_vec sha (iter_collect (iter_new r) @ [node])) (\<lambda>new_right.
               Ok (mt\<lparr>mt_root :=
                         Tree_Node (hash_nodes sha (tree_hash l) (root_hash new_right))
                           l (mt_root new_right),
                      mt_count := mt_count mt + 1,
                      mt_nodes_count := mt_nodes_count mt + 1\<rparr>))
         | _ \<Rightarrow> Panic)
      else
        and_then (from_vec sha [node]) (\<lambda>new_right.
        and_then
          (case mt_root mt of
             Tree_Node h l r \<Rightarrow>
               Ok (mt\<lparr>mt_root :=
                         Tree_Node (hash_nodes sha h (root_hash new_right))
                           (mt_root mt) (mt_root new_right),
                      mt_count := mt_count mt + 1,
                      mt_nodes_count := mt_nodes_count mt + 1\<rparr>)
           | Tree_Leaf h v \<Rightarrow>
               Ok (mt\<lparr>mt_root :=
                         Tree_Node (hash_nodes sha h (root_hash new_right))
                           (new_leaf sha v) (mt_root new_right),
                      mt_count := mt_count mt + 1,
                      mt_nodes_count := mt_nodes_count mt + 1\<rparr>)
           | Tree_Empty h \<Rightarrow> Panic)
          (\<lambda>mt'. Ok (mt'\<lparr>mt_height := mt_height mt' + 1\<rparr>))))"

section \<open>Lookup by hash\<close>

text \<open>\<open>find_hash\<close> asserts that it never meets an empty tree.\<close>

fun find_hash :: "Tree \<Rightarrow> bytes \<Rightarrow> Tree option outcome" where
  "find_hash (Tree_Empty h) required = Panic"
| "find_hash (Tree_Node h l r) required =
     (if h = required then Ok (Some (Tree_Node h l r))
      else and_then (find_hash r required) (\<lambda>right.
             case right of
               Some t \<Rightarrow> Ok (Some t)
             | None \<Rightarrow> find_hash l required))"
| "find_hash (Tree_Leaf h v) required =
     (if h = required then Ok (Some (Tree_Leaf h v)) else Ok None)"


section \<open>The tree a construction builds\<close>

text \<open>
  \<open>build sha ts\<close> is the root that the level loop of \<open>from_vec\<close> reaches from the level \<open>ts\<close>,
  \<open>well_hashed\<close> says that every stored hash is the hash of what it stands above, and
  \<open>leaves\<close> is the left-to-right list of values.
\<close>

definition level_up :: "(bytes \<Rightarrow> bytes) \<Rightarrow> Tree list \<Rightarrow> Tree list" where
  "level_up sha ts = fst (pair_level sha ts 0)"

definition build :: "(bytes \<Rightarrow> bytes) \<Rightarrow> Tree list \<Rightarrow> Tree" where
  "build sha ts = hd (fst (build_levels sha ts 0 0))"

definition mk_node :: "(bytes \<Rightarrow> bytes) \<Rightarrow> Tree \<Rightarrow> Tree \<Rightarrow> Tree" where
  "mk_node sha l r = Tree_Node (hash_nodes sha (tree_hash l) (tree_hash r)) l r"

fun leaves :: "Tree \<Rightarrow> bytes list" where
  "leaves (Tree_Empty h) = []"
| "leaves (Tree_Leaf h v) = [v]"
| "leaves (Tree_Node h l r) = leaves l @ leaves r"

fun well_hashed :: "(bytes \<Rightarrow> bytes) \<Rightarrow> Tree \<Rightarrow> bool" where
  "well_hashed sha (Tree_Empty h) = False"
| "well_hashed sha (Tree_Leaf h v) = (h = hash_leaf sha v)"
| "well_hashed sha (Tree_Node h l r) =
     (h = hash_nodes sha (tree_hash l) (tree_hash r) \<and> well_hashed sha l \<and> well_hashed sha r)"

lemma pair_level_fst: "fst (pair_level sha ts n) = level_up sha ts"
proof -
  have "fst (pair_level sha ts n) = fst (pair_level sha ts m)" for m
    by (induction ts arbitrary: n m rule: induct_list012) (auto simp: Let_def split_beta)
  then show ?thesis by (simp add: level_up_def)
qed

lemma pair_level_snd: "snd (pair_level sha ts n) = n + length ts div 2"
  by (induction sha ts n rule: pair_level.induct) (auto simp: Let_def split_beta)

lemma level_up_simps [simp]:
  "level_up sha [] = []"
  "level_up sha [t] = [t]"
  "level_up sha (l # r # ts) = mk_node sha l r # level_up sha ts"
  using pair_level_fst [of sha ts 1]
  by (simp_all add: level_up_def mk_node_def Let_def split_beta)

lemma length_level_up [simp]: "length (level_up sha ts) = (length ts + 1) div 2"
  by (simp add: level_up_def length_pair_level)

lemma level_up_append:
  "even (length xs) \<Longrightarrow> level_up sha (xs @ ys) = level_up sha xs @ level_up sha ys"
  by (induction xs rule: induct_list012) auto

lemma build_levels_unfold:
  "build_levels sha ts h n =
     (if 1 < length ts then build_levels sha (level_up sha ts) (h + 1) (n + length ts div 2)
      else (ts, h, n))"
  by (subst build_levels.simps)
    (simp add: pair_level_fst pair_level_snd split_beta del: One_nat_def)

lemma fst_build_levels: "fst (build_levels sha ts h n) = fst (build_levels sha ts 0 0)"
proof (induction "length ts" arbitrary: ts h n rule: less_induct)
  case less
  show ?case
  proof (cases "1 < length ts")
    case True
    then have "length (level_up sha ts) < length ts" by simp
    from less [OF this] True show ?thesis
      by (metis build_levels_unfold)
  qed (simp add: build_levels_unfold)
qed

lemma build_unfold:
  "build sha ts = (if 1 < length ts then build sha (level_up sha ts) else hd ts)"
proof (cases "1 < length ts")
  case True
  then show ?thesis
    unfolding build_def
    by (subst (1) build_levels_unfold) (simp add: fst_build_levels [where h = 1] fst_build_levels [where h = "Suc 0"])
qed (simp add: build_def build_levels_unfold)

lemma build_single [simp]: "build sha [t] = t"
  by (simp add: build_unfold)

lemma build_level_up: "build sha (level_up sha ts) = build sha ts"
proof (cases "1 < length ts")
  case False
  then have "level_up sha ts = ts" by (cases ts; cases "tl ts") auto
  then show ?thesis by simp
qed (simp add: build_unfold [of sha ts])

lemma length_build_levels: "ts \<noteq> [] \<Longrightarrow> length (fst (build_levels sha ts h n)) = 1"
proof (induction "length ts" arbitrary: ts h n rule: less_induct)
  case less
  show ?case
  proof (cases "1 < length ts")
    case True
    then have "length (level_up sha ts) < length ts" "level_up sha ts \<noteq> []"
      by (auto simp: length_0_conv [symmetric] simp del: length_0_conv)
    from less.hyps [OF this] True show ?thesis by (subst build_levels_unfold) simp
  next
    case False
    with less.prems show ?thesis by (cases ts) (auto simp: build_levels_unfold)
  qed
qed

text \<open>
  The level-by-level construction is the recursive one: the left subtree of a level of more
  than one tree is built from the first \<open>2^j\<close> of them, the largest power of two below the
  level's length.
\<close>

lemma build_split:
  assumes "2 ^ j < length ts" and "length ts \<le> 2 ^ Suc j"
  shows "build sha ts = mk_node sha (build sha (take (2 ^ j) ts)) (build sha (drop (2 ^ j) ts))"
  using assms
proof (induction j arbitrary: ts)
  case 0
  then have "length ts = 2" by simp
  then obtain l r where "ts = [l, r]" by (cases ts; cases "tl ts") auto
  then show ?case by (simp add: build_unfold [of sha "[l, r]"])
next
  case (Suc j)
  let ?k = "2 ^ Suc j :: nat"
  let ?up = "level_up sha ts"
  have even_k: "even (length (take ?k ts))" using Suc.prems by simp
  have up: "?up = level_up sha (take ?k ts) @ level_up sha (drop ?k ts)"
    using level_up_append [OF even_k, of sha "drop ?k ts"] by simp
  have len: "length (level_up sha (take ?k ts)) = 2 ^ j" using Suc.prems by simp
  have "build sha ts = build sha ?up" by (rule build_level_up [symmetric])
  also have "\<dots> = mk_node sha (build sha (take (2 ^ j) ?up)) (build sha (drop (2 ^ j) ?up))"
    by (rule Suc.IH) (use Suc.prems in auto)
  also have "take (2 ^ j) ?up = level_up sha (take ?k ts)" using len by (simp add: up)
  also have "drop (2 ^ j) ?up = level_up sha (drop ?k ts)" using len by (simp add: up)
  finally show ?case by (simp only: build_level_up)
qed


lemma build_levels_height:
  assumes "2 ^ j < length ts" and "length ts \<le> 2 ^ Suc j"
  shows "fst (snd (build_levels sha ts h n)) = h + Suc j"
  using assms
proof (induction j arbitrary: ts h n)
  case 0
  then show ?case by (simp add: build_levels_unfold)
next
  case (Suc j)
  have "2 ^ j < length (level_up sha ts)" "length (level_up sha ts) \<le> 2 ^ Suc j"
    using Suc.prems by auto
  moreover have "1 < length ts" using Suc.prems one_le_power [of "2::nat" "Suc j"] by linarith
  ultimately show ?case using Suc.IH by (subst build_levels_unfold) simp
qed

lemma build_levels_nodes:
  "ts \<noteq> [] \<Longrightarrow> snd (snd (build_levels sha ts h n)) = n + (length ts - 1)"
proof (induction "length ts" arbitrary: ts h n rule: less_induct)
  case less
  show ?case
  proof (cases "1 < length ts")
    case True
    then have "length (level_up sha ts) < length ts" "level_up sha ts \<noteq> []"
      by (auto simp: length_0_conv [symmetric] simp del: length_0_conv)
    from less.hyps [OF this] True show ?thesis by (subst build_levels_unfold) simp
  next
    case False
    with less.prems show ?thesis by (cases ts) (auto simp: build_levels_unfold)
  qed
qed

text \<open>
  What \<open>from_vec\<close> returns, field by field, on a non-empty vector; it never panics.
\<close>

definition tree_of :: "(bytes \<Rightarrow> bytes) \<Rightarrow> bytes list \<Rightarrow> Tree" where
  "tree_of sha vs = build sha (map (new_leaf sha) vs)"

definition level_count :: "nat \<Rightarrow> nat" where
  "level_count n = (LEAST j. n \<le> 2 ^ j)"

lemma level_count_eq: "2 ^ j < n \<Longrightarrow> n \<le> 2 ^ Suc j \<Longrightarrow> level_count n = Suc j"
  unfolding level_count_def
proof (rule Least_equality)
  fix i assume a: "2 ^ j < n" "n \<le> 2 ^ i"
  then have "(2::nat) ^ j < 2 ^ i" by (rule less_le_trans)
  then show "Suc j \<le> i" by simp
qed simp

lemma level_count_one [simp]: "level_count (Suc 0) = 0"
  by (simp add: level_count_def)

lemma ex_power_bounds: "1 < (n::nat) \<Longrightarrow> \<exists>j. 2 ^ j < n \<and> n \<le> 2 ^ Suc j"
proof (induction n rule: less_induct)
  case (less n)
  show ?case
  proof (cases "n = 2")
    case False
    with less.prems have "1 < (n + 1) div 2" "(n + 1) div 2 < n" by auto
    from less.IH [OF this(2,1)] obtain j where "2 ^ j < (n + 1) div 2" "(n + 1) div 2 \<le> 2 ^ Suc j"
      by auto
    moreover have "2 * p < n \<and> n \<le> 4 * p" if "p < (n + 1) div 2" "(n + 1) div 2 \<le> 2 * p" for p
      using that by linarith
    ultimately have "2 ^ Suc j < n \<and> n \<le> 2 ^ Suc (Suc j)" by simp
    then show ?thesis by blast
  qed (auto intro: exI [of _ 0])
qed

lemma from_vec_eq:
  assumes "vs \<noteq> []"
  shows "from_vec sha vs =
    Ok \<lparr>mt_root = tree_of sha vs, mt_height = level_count (length vs),
        mt_count = length vs, mt_nodes_count = length vs - 1\<rparr>"
proof -
  let ?ts = "map (new_leaf sha) vs"
  have ne: "?ts \<noteq> []" using assms by simp
  obtain t h n where b: "build_levels sha ?ts 0 0 = ([t], h, n)"
    using length_build_levels [OF ne, of sha 0 0]
    by (cases "build_levels sha ?ts 0 0") (auto simp: length_Suc_conv)
  have "t = tree_of sha vs" by (simp add: tree_of_def build_def b)
  moreover have "n = length vs - 1" using build_levels_nodes [OF ne, of sha 0 0] by (simp add: b)
  moreover have "h = level_count (length vs)"
  proof (cases "1 < length vs")
    case True
    with ex_power_bounds obtain j where j: "2 ^ j < length vs" "length vs \<le> 2 ^ Suc j" by blast
    with build_levels_height [of j ?ts sha 0 0] level_count_eq [of j "length vs"] show ?thesis
      by (simp add: b)
  next
    case False
    with assms have "length vs = 1" by (cases vs) auto
    with b show ?thesis by (simp add: build_levels_unfold)
  qed
  ultimately show ?thesis using assms by (simp add: from_vec_def b)
qed

lemma tree_of_single [simp]: "tree_of sha [v] = new_leaf sha v"
  by (simp add: tree_of_def)

lemma tree_of_split:
  assumes "2 ^ j < length vs" and "length vs \<le> 2 ^ Suc j"
  shows "tree_of sha vs =
    mk_node sha (tree_of sha (take (2 ^ j) vs)) (tree_of sha (drop (2 ^ j) vs))"
  using build_split [of j "map (new_leaf sha) vs" sha] assms
  by (simp add: tree_of_def take_map drop_map)

text \<open>Induction along the split of a list at the largest power of two below its length.\<close>

lemma split_induct [consumes 1, case_names single split]:
  assumes "vs \<noteq> []"
    and "\<And>v. P [v]"
    and "\<And>vs j. 2 ^ j < length vs \<Longrightarrow> length vs \<le> 2 ^ Suc j \<Longrightarrow>
           P (take (2 ^ j) vs) \<Longrightarrow> P (drop (2 ^ j) vs) \<Longrightarrow> P vs"
  shows "P vs"
  using assms(1)
proof (induction "length vs" arbitrary: vs rule: less_induct)
  case less
  show ?case
  proof (cases "1 < length vs")
    case True
    with ex_power_bounds obtain j where j: "2 ^ j < length vs" "length vs \<le> 2 ^ Suc j" by blast
    from j have "P (take (2 ^ j) vs)" "P (drop (2 ^ j) vs)" by (auto intro!: less.hyps)
    with j show ?thesis by (rule assms(3))
  next
    case False
    with less.prems obtain v where "vs = [v]" by (cases vs; cases "tl vs") auto
    with assms(2) show ?thesis by simp
  qed
qed

lemma tree_hash_mk_node [simp]:
  "tree_hash (mk_node sha l r) = hash_nodes sha (tree_hash l) (tree_hash r)"
  by (simp add: mk_node_def)

lemma leaves_tree_of: "vs \<noteq> [] \<Longrightarrow> leaves (tree_of sha vs) = vs"
  by (induction vs rule: split_induct) (simp_all add: new_leaf_def tree_of_split mk_node_def)

lemma well_hashed_tree_of: "vs \<noteq> [] \<Longrightarrow> well_hashed sha (tree_of sha vs)"
  by (induction vs rule: split_induct) (simp_all add: new_leaf_def tree_of_split mk_node_def)

lemma get_count_tree_of: "vs \<noteq> [] \<Longrightarrow> get_count (tree_of sha vs) = length vs"
  by (induction vs rule: split_induct) (simp_all add: new_leaf_def tree_of_split mk_node_def)


section \<open>The iterator returns the leaves\<close>

fun no_empty :: "Tree \<Rightarrow> bool" where
  "no_empty (Tree_Empty h) = False"
| "no_empty (Tree_Leaf h v) = True"
| "no_empty (Tree_Node h l r) = (no_empty l \<and> no_empty r)"

lemma well_hashed_no_empty: "well_hashed sha t \<Longrightarrow> no_empty t"
  by (induction sha t rule: well_hashed.induct) auto

lemma add_left_leaves:
  assumes "no_empty t"
  shows "\<exists>v rs. add_left it t = it\<lparr>current_value := Some v, right_nodes := rs @ right_nodes it\<rparr> \<and>
           leaves t = v # concat (map leaves rs) \<and> (\<forall>r \<in> set rs. no_empty r)"
  using assms
proof (induction it t rule: add_left.induct)
  case (2 it h l r)
  then obtain v rs where
    "add_left (it\<lparr>right_nodes := r # right_nodes it\<rparr>) l =
       it\<lparr>current_value := Some v, right_nodes := rs @ r # right_nodes it\<rparr>"
    "leaves l = v # concat (map leaves rs)" "\<forall>r \<in> set rs. no_empty r"
    by auto
  with 2 show ?case by (intro exI [of _ v] exI [of _ "rs @ [r]"]) auto
next
  case (3 it h v)
  then show ?case by (intro exI [of _ v] exI [of _ "[]"]) simp
qed simp

lemma iter_collect_stack:
  assumes "current_value it = Some v" and "\<forall>r \<in> set (right_nodes it). no_empty r"
  shows "iter_collect it = v # concat (map leaves (right_nodes it))"
  using assms
proof (induction "iter_weight it" arbitrary: it v rule: less_induct)
  case less
  show ?case
  proof (cases "right_nodes it")
    case Nil
    with less.prems show ?thesis
      by (simp add: iter_collect.simps [of it] iter_next_def iter_collect.simps)
  next
    case (Cons r rs)
    let ?it = "it\<lparr>current_value := None, right_nodes := rs\<rparr>"
    from Cons less.prems have "no_empty r" by simp
    from add_left_leaves [OF this, of ?it] obtain w ws where
      al: "add_left ?it r = it\<lparr>current_value := Some w, right_nodes := ws @ rs\<rparr>"
      and lv: "leaves r = w # concat (map leaves ws)" and ne: "\<forall>r \<in> set ws. no_empty r"
      by auto
    have nx: "iter_next it = (Some v, it\<lparr>current_value := Some w, right_nodes := ws @ rs\<rparr>)"
      using less.prems Cons al by (simp add: iter_next_def Let_def)
    from less.hyps [OF iter_next_weight [OF nx], of w] ne Cons less.prems
    have "iter_collect (it\<lparr>current_value := Some w, right_nodes := ws @ rs\<rparr>) =
            w # concat (map leaves (ws @ rs))"
      by auto
    with nx lv Cons show ?thesis by (simp add: iter_collect.simps [of it])
  qed
qed

lemma iter_collect_leaves: "no_empty t \<Longrightarrow> iter_collect (iter_new t) = leaves t"
  using add_left_leaves [of t "\<lparr>current_value = None, right_nodes = []\<rparr>"]
    iter_collect_stack
  unfolding iter_new_def by fastforce

lemma iter_collect_tree_of: "vs \<noteq> [] \<Longrightarrow> iter_collect (iter_new (tree_of sha vs)) = vs"
  by (simp add: iter_collect_leaves leaves_tree_of well_hashed_no_empty [OF well_hashed_tree_of])

section \<open>Powers of two\<close>

lemma and_pred_zero_iff: "0 < (n::nat) \<Longrightarrow> n AND (n - 1) = 0 \<longleftrightarrow> (\<exists>j. n = 2 ^ j)"
proof (induction n rule: less_induct)
  case (less n)
  show ?case
  proof (cases "even n")
    case True
    then obtain m where m: "n = 2 * m" by blast
    with less.prems have "0 < m" "m < n" by auto
    moreover have "(2 * m - 1) div 2 = m - 1" by (cases m) auto
    ultimately have "n AND (n - 1) = 2 * (m AND (m - 1))"
      by (subst and_rec) (auto simp: m)
    moreover have "(\<exists>j. n = 2 ^ j) \<longleftrightarrow> (\<exists>j. m = 2 ^ j)"
    proof
      assume "\<exists>j. n = 2 ^ j"
      then obtain j where j: "2 * m = 2 ^ j" using m by auto
      with True m less.prems show "\<exists>j. m = 2 ^ j" by (cases j) auto
    next
      assume "\<exists>j. m = 2 ^ j"
      then show "\<exists>j. n = 2 ^ j" using m by (metis power_Suc)
    qed
    ultimately show ?thesis using less.IH [of m] \<open>0 < m\<close> \<open>m < n\<close> by simp
  next
    case False
    then obtain m where m: "n = 2 * m + 1" by (blast elim: oddE)
    have "n AND (n - 1) = 2 * m" by (subst and_rec) (simp add: m)
    moreover have "(\<exists>j. n = 2 ^ j) \<longleftrightarrow> m = 0"
    proof
      assume "\<exists>j. n = 2 ^ j"
      then obtain j where "2 * m + 1 = 2 ^ j" using m by auto
      then show "m = 0" by (cases j) (auto dest: arg_cong [where f = even])
    qed (auto simp: m intro: exI [of _ 0])
    ultimately show ?thesis by simp
  qed
qed

lemma count_bits_loop_acc: "count_bits_loop n r = r + count_bits_loop n 0"
proof (induction n arbitrary: r rule: less_induct)
  case (less n)
  show ?case
  proof (cases "n = 0")
    case False
    then have "n AND (n - 1) < n" using and_nat_le [of n "n - 1"] by simp
    from less.IH [OF this, of "r + 1"] less.IH [OF this, of 1] False show ?thesis
      by (simp add: count_bits_loop.simps [of n])
  qed (simp add: count_bits_loop.simps)
qed

lemma count_bits_eq_1_iff: "count_bits n = 1 \<longleftrightarrow> (\<exists>j. n = 2 ^ j)"
proof (cases "n = 0")
  case False
  then have "count_bits n = 1 + count_bits_loop (n AND (n - 1)) 0"
    by (simp add: count_bits_def count_bits_loop.simps [of n] count_bits_loop_acc [of _ "Suc 0"])
  moreover have "count_bits_loop m 0 = 0 \<longleftrightarrow> m = 0" for m
    by (subst count_bits_loop.simps) (simp add: count_bits_loop_acc [of _ "Suc 0"])
  ultimately show ?thesis using and_pred_zero_iff [of n] False by simp
qed (simp add: count_bits_def count_bits_loop.simps)

section \<open>Append agrees with construction\<close>

lemma level_count_power: "level_count (2 ^ j) = j"
  unfolding level_count_def by (rule Least_equality) auto

lemma mt_append_from_vec:
  assumes "from_vec sha vs = Ok mt"
  shows "mt_append sha mt v = from_vec sha (vs @ [v])"
proof (cases "vs = []")
  case True
  with assms have "mt = mt_default" by (simp add: from_vec_def)
  with True show ?thesis by (simp add: from_vec_eq mt_append_def mt_default_def)
next
  case ne: False
  let ?n = "length vs"
  from assms ne have mt: "mt = \<lparr>mt_root = tree_of sha vs, mt_height = level_count ?n, mt_count = ?n,
      mt_nodes_count = ?n - 1\<rparr>"
    by (simp add: from_vec_eq)
  show ?thesis
  proof (cases "count_bits ?n = 1")
    case True
    then obtain j where j: "?n = 2 ^ j" using count_bits_eq_1_iff [of ?n] by blast
    have "tree_of sha (vs @ [v]) = mk_node sha (tree_of sha vs) (new_leaf sha v)"
      using tree_of_split [of j "vs @ [v]" sha] j by simp
    moreover have "level_count (Suc ?n) = Suc (level_count ?n)"
      using level_count_eq [of j "Suc ?n"] level_count_power [of j] j one_le_power [of "2::nat" j] by simp
    ultimately show ?thesis
      using True ne well_hashed_tree_of [OF ne, of sha]
      by (cases "tree_of sha vs")
        (auto simp: mt_append_def mt from_vec_eq root_hash_def mk_node_def new_leaf_def)
  next
    case False
    with count_bits_eq_1_iff [of ?n] have npow: "?n \<noteq> 2 ^ j" for j by blast
    have "1 < ?n" using ne npow [of 0] by (cases vs) auto
    with npow obtain j where j: "2 ^ j < ?n" "?n < 2 ^ Suc j"
      using ex_power_bounds [of ?n] by (metis le_neq_implies_less)
    let ?r = "drop (2 ^ j) vs"
    have split: "tree_of sha vs = mk_node sha (tree_of sha (take (2 ^ j) vs)) (tree_of sha ?r)"
      using j by (intro tree_of_split) auto
    have split': "tree_of sha (vs @ [v]) =
        mk_node sha (tree_of sha (take (2 ^ j) vs)) (tree_of sha (?r @ [v]))"
      using tree_of_split [of j "vs @ [v]" sha] j by simp
    have coll: "iter_collect (iter_new (tree_of sha ?r)) = ?r"
      using j by (intro iter_collect_tree_of) simp
    have lc: "level_count (Suc ?n) = level_count ?n"
      using level_count_eq [of j "Suc ?n"] level_count_eq [of j ?n] j by simp
    show ?thesis
      using False ne \<open>1 < ?n\<close>
      by (simp add: mt_append_def mt split mk_node_def coll from_vec_eq root_hash_def lc
          split' [unfolded mk_node_def])
  qed
qed

section \<open>The Merkle tree as an append-only log\<close>

lemma length_tree_of_hash [simp]:
  assumes "sha256_sized sha" and "xs \<noteq> []"
  shows "length (tree_hash (tree_of sha xs)) = HASHBYTES"
proof -
  have "well_hashed sha (tree_of sha xs)" using assms(2) by (rule well_hashed_tree_of)
  with assms(1) show ?thesis by (cases "tree_of sha xs") auto
qed

definition mt_values :: "MerkleTree \<Rightarrow> bytes list" where
  "mt_values mt = iter_collect (mt_iter mt)"

text \<open>A tree is valid when it is the one its own leaves build.\<close>

definition mt_valid :: "(bytes \<Rightarrow> bytes) \<Rightarrow> MerkleTree \<Rightarrow> bool" where
  "mt_valid sha mt \<longleftrightarrow> from_vec sha (mt_values mt) = Ok mt"

lemma mt_values_from_vec: "from_vec sha vs = Ok mt \<Longrightarrow> mt_values mt = vs"
proof (cases "vs = []")
  case True
  assume "from_vec sha vs = Ok mt"
  with True show ?thesis
    by (auto simp: from_vec_def mt_default_def mt_values_def mt_iter_def iter_new_def
        iter_collect.simps iter_next_def)
next
  case False
  assume "from_vec sha vs = Ok mt"
  with False show ?thesis
    by (auto simp: from_vec_eq mt_values_def mt_iter_def iter_collect_tree_of)
qed

lemma mt_valid_iff: "mt_valid sha mt \<longleftrightarrow> (\<exists>vs. from_vec sha vs = Ok mt)"
  unfolding mt_valid_def using mt_values_from_vec by metis

lemma from_vec_total: "\<exists>mt. from_vec sha vs = Ok mt"
  by (cases "vs = []") (auto simp: from_vec_eq, simp add: from_vec_def)

lemma mt_count_from_vec: "from_vec sha vs = Ok mt \<Longrightarrow> mt_count mt = length vs"
  by (cases "vs = []") (auto simp: from_vec_eq, auto simp: from_vec_def mt_default_def)

lemma root_hash_from_vec:
  "from_vec sha vs = Ok mt \<Longrightarrow> vs \<noteq> [] \<Longrightarrow> root_hash mt = tree_hash (tree_of sha vs)"
  by (auto simp: from_vec_eq root_hash_def)

lemma mt_valid_default [simp]: "mt_valid sha mt_default"
  using mt_valid_iff [of sha mt_default] by (auto simp: from_vec_def intro: exI [of _ "[]"])

interpretation merkle_log: append_log "mt_append sha" mt_values root_hash "mt_valid sha" for sha
proof
  fix s v
  assume "mt_valid sha s"
  then have "mt_append sha s v = from_vec sha (mt_values s @ [v])"
    by (intro mt_append_from_vec) (simp add: mt_valid_def)
  moreover obtain mt' where mt': "from_vec sha (mt_values s @ [v]) = Ok mt'"
    using from_vec_total by blast
  moreover from mt' have "mt_values mt' = mt_values s @ [v]" by (rule mt_values_from_vec)
  ultimately show "\<exists>s'. mt_append sha s v = Ok s' \<and> mt_valid sha s' \<and>
      mt_values s' = mt_values s @ [v]"
    by (auto simp: mt_valid_def)
next
  fix s t
  assume "mt_valid sha s" "mt_valid sha t" "mt_values s = mt_values t"
  then show "root_hash s = root_hash t" by (simp add: mt_valid_def)
qed

section \<open>Properties\<close>


text \<open>The tree hash of RFC 6962, section 2.1, as a reference.\<close>

fun pow2_below :: "nat \<Rightarrow> nat" where
  "pow2_below n = (if n \<le> 2 then 1 else 2 * pow2_below ((n + 1) div 2))"

declare pow2_below.simps [simp del]

lemma pow2_below_power: "2 ^ j < n \<Longrightarrow> n \<le> 2 ^ Suc j \<Longrightarrow> pow2_below n = 2 ^ j"
proof (induction j arbitrary: n)
  case (Suc j)
  have "2 ^ j < (n + 1) div 2" "(n + 1) div 2 \<le> 2 ^ Suc j" using Suc.prems by auto
  with Suc.IH have "pow2_below ((n + 1) div 2) = 2 ^ j" by blast
  moreover have "2 < n" using Suc.prems one_le_power [of "2::nat" j] by (simp, linarith)
  ultimately show ?case by (simp add: pow2_below.simps [of n])
qed (simp add: pow2_below.simps)

lemma pow2_below_bounds:
  assumes "1 < n"
  shows "0 < pow2_below n" and "pow2_below n < n"
proof -
  from assms ex_power_bounds obtain j where "2 ^ j < n" "n \<le> 2 ^ Suc j" by blast
  then show "0 < pow2_below n" "pow2_below n < n" by (simp_all add: pow2_below_power)
qed

function rfc6962_hash :: "(bytes \<Rightarrow> bytes) \<Rightarrow> bytes list \<Rightarrow> bytes" where
  "rfc6962_hash sha vs =
     (if vs = [] then sha []
      else if length vs = 1 then hash_leaf sha (hd vs)
      else let k = pow2_below (length vs)
           in hash_nodes sha (rfc6962_hash sha (take k vs)) (rfc6962_hash sha (drop k vs)))"
  by pat_completeness auto
termination
proof (relation "measure (\<lambda>(sha, vs). length vs)", goal_cases)
  case (2 sha vs k)
  then have "1 < length vs" by (cases vs) auto
  with 2 pow2_below_bounds [of "length vs"] show ?case by simp
next
  case (3 sha vs k)
  then have "1 < length vs" by (cases vs) auto
  with 3 pow2_below_bounds [of "length vs"] show ?case by simp
qed simp

declare rfc6962_hash.simps [simp del]

lemma rfc6962_hash_tree_of: "vs \<noteq> [] \<Longrightarrow> tree_hash (tree_of sha vs) = rfc6962_hash sha vs"
proof (induction vs rule: split_induct)
  case (single v)
  then show ?case by (simp add: rfc6962_hash.simps new_leaf_def)
next
  case (split vs j)
  have "1 < length vs" using split.hyps one_le_power [of "2::nat" j] by linarith
  then have "vs \<noteq> []" "length vs \<noteq> 1" by auto
  moreover have "pow2_below (length vs) = 2 ^ j" using split.hyps by (intro pow2_below_power)
  ultimately have "rfc6962_hash sha vs =
      hash_nodes sha (rfc6962_hash sha (take (2 ^ j) vs)) (rfc6962_hash sha (drop (2 ^ j) vs))"
    by (subst rfc6962_hash.simps) (simp only: Let_def if_False)
  with split.IH show ?case by (simp add: tree_of_split [OF split.hyps])
qed

text \<open>
  C30: The root hash of a constructed tree is the Merkle tree hash of RFC 6962 over its
  values (SHA-256 of the empty string being the constant the code stores).
\<close>

theorem from_vec_root_is_rfc6962:
  assumes "sha [] = EMPTY_HASH_BYTES" and "from_vec sha vs = Ok mt"
  shows "root_hash mt = rfc6962_hash sha vs"
proof (cases "vs = []")
  case True
  with assms show ?thesis
    by (auto simp: from_vec_def mt_default_def root_hash_def rfc6962_hash.simps)
next
  case False
  with assms(2) show ?thesis by (simp add: root_hash_from_vec rfc6962_hash_tree_of)
qed

theorem from_vec_root_is_rfc6962_witness:
  "\<exists>mt. from_vec (\<lambda>x. if x = [] then EMPTY_HASH_BYTES else x) [[1], [2], [3]] = Ok mt \<and>
        root_hash mt = [1, 1, 0, 1, 0, 2, 0, 3]"
proof -
  let ?sha = "\<lambda>x :: bytes. if x = [] then EMPTY_HASH_BYTES else x"
  obtain mt where mt: "from_vec ?sha [[1], [2], [3]] = Ok mt" using from_vec_total by blast
  have "root_hash mt = rfc6962_hash ?sha [[1], [2], [3]]"
    by (rule from_vec_root_is_rfc6962 [OF _ mt]) simp
  also have "\<dots> = [1, 1, 0, 1, 0, 2, 0, 3]"
    by (simp add: rfc6962_hash.simps pow2_below.simps Let_def hash_leaf_def hash_nodes_def)
  finally show ?thesis using mt by blast
qed

end
