(* ===== verification/Merkle_Inclusion.thy ===== *)
theory Merkle_Inclusion
  imports Merkle_Tree
begin

text \<open>
  Inclusion proofs of the ledger's Merkle tree
  (\<open>libindy/src/services/ledger/merkletree/proof.rs\<close>, \<open>MerkleTree::gen_proof\<close>).

  A generated proof validates, it is generated exactly for the values of the tree (up to a
  hash collision), and an accepted proof whose lowest hash is the hash of a value shows that
  the value is in the tree. That last condition is not checked by the code: \<open>validate\<close>
  never looks at the proof's value.
\<close>

section \<open>Inclusion proofs\<close>

datatype Positioned = Pos_Left bytes | Pos_Right bytes

datatype Lemma =
  Lemma (node_hash: bytes) (sibling_hash: "Positioned option") (sub_lemma: "Lemma option")

record Proof =
  p_root_hash :: bytes
  p_lemma :: Lemma
  p_value :: bytes

definition new_leaf_proof :: "bytes \<Rightarrow> bytes \<Rightarrow> Lemma option" where
  "new_leaf_proof hash needle = (if hash = needle then Some (Lemma hash None None) else None)"

fun lemma_new :: "Tree \<Rightarrow> bytes \<Rightarrow> Lemma option" where
  "lemma_new (Tree_Empty h) needle = None"
| "lemma_new (Tree_Leaf h v) needle = new_leaf_proof h needle"
| "lemma_new (Tree_Node h l r) needle =
     map_option (\<lambda>(sub, sib). Lemma h sib (Some sub))
       (case map_option (\<lambda>lem. (lem, Some (Pos_Right (tree_hash r)))) (lemma_new l needle) of
          Some p \<Rightarrow> Some p
        | None \<Rightarrow> map_option (\<lambda>lem. (lem, Some (Pos_Left (tree_hash l)))) (lemma_new r needle))"

definition gen_proof :: "(bytes \<Rightarrow> bytes) \<Rightarrow> MerkleTree \<Rightarrow> bytes \<Rightarrow> Proof option" where
  "gen_proof sha mt v =
     map_option (\<lambda>lem. \<lparr>p_root_hash = root_hash mt, p_lemma = lem, p_value = v\<rparr>)
       (lemma_new (mt_root mt) (hash_leaf sha v))"

fun validate_lemma :: "(bytes \<Rightarrow> bytes) \<Rightarrow> Lemma \<Rightarrow> bool" where
  "validate_lemma sha (Lemma h sib None) = (sib = None)"
| "validate_lemma sha (Lemma h None (Some sub)) = False"
| "validate_lemma sha (Lemma h (Some (Pos_Left sh)) (Some sub)) =
     (hash_nodes sha sh (node_hash sub) = h \<and> validate_lemma sha sub)"
| "validate_lemma sha (Lemma h (Some (Pos_Right sh)) (Some sub)) =
     (hash_nodes sha (node_hash sub) sh = h \<and> validate_lemma sha sub)"

definition validate :: "(bytes \<Rightarrow> bytes) \<Rightarrow> Proof \<Rightarrow> bytes \<Rightarrow> bool" where
  "validate sha p root =
     (if p_root_hash p \<noteq> root \<or> node_hash (p_lemma p) \<noteq> root then False
      else validate_lemma sha (p_lemma p))"

section \<open>Generated proofs\<close>

lemma lemma_new_node_hash: "lemma_new t needle = Some lem \<Longrightarrow> node_hash lem = tree_hash t"
  by (cases t) (auto simp: new_leaf_proof_def split: if_splits option.splits)

lemma lemma_new_valid:
  "well_hashed sha t \<Longrightarrow> lemma_new t needle = Some lem \<Longrightarrow> validate_lemma sha lem"
proof (induction t arbitrary: lem)
  case (Tree_Node h l r)
  then show ?case
    by (auto simp: lemma_new_node_hash split: option.splits)
qed (auto simp: new_leaf_proof_def split: if_splits)

text \<open>The hash at the end of a proof: the one that should be the leaf's.\<close>

fun leaf_hash :: "Lemma \<Rightarrow> bytes" where
  "leaf_hash (Lemma h sib None) = h"
| "leaf_hash (Lemma h sib (Some sub)) = leaf_hash sub"

lemma lemma_new_leaf_hash: "lemma_new t needle = Some lem \<Longrightarrow> leaf_hash lem = needle"
  by (induction t arbitrary: lem) (auto simp: new_leaf_proof_def split: if_splits option.splits)

lemma lemma_new_None_iff:
  "well_hashed sha t \<Longrightarrow> lemma_new t needle = None \<longleftrightarrow> needle \<notin> hash_leaf sha ` set (leaves t)"
  by (induction t) (auto simp: new_leaf_proof_def split: option.splits)

section \<open>Accepted proofs\<close>

lemma validate_lemma_length:
  "sha256_sized sha \<Longrightarrow> validate_lemma sha lem \<Longrightarrow> length (leaf_hash lem) = HASHBYTES \<Longrightarrow>
     length (node_hash lem) = HASHBYTES"
  by (induction sha lem rule: validate_lemma.induct) auto

lemma hash_leaf_lemma:
  assumes "validate_lemma sha lem" and "node_hash lem = hash_leaf sha v" and "leaf_hash lem = hash_leaf sha w"
  shows "w = v \<or> collision sha"
  using assms hash_leaf_inj hash_leaf_neq_nodes
  by (cases "(sha, lem)" rule: validate_lemma.cases) (auto, metis+)

lemma validate_lemma_sound:
  assumes "well_hashed sha t" and "sha256_sized sha"
    and "validate_lemma sha lem" and "node_hash lem = tree_hash t" and "leaf_hash lem = hash_leaf sha w"
  shows "w \<in> set (leaves t) \<or> collision sha"
  using assms
proof (induction t arbitrary: lem)
  case (Tree_Leaf h v)
  then show ?case using hash_leaf_lemma [of sha lem v w] by auto
next
  case (Tree_Node h l r)
  note len = Tree_Node.prems(2)
  have lt: "length (tree_hash t) = HASHBYTES" if "well_hashed sha t" for t
    using that len by (cases t) auto
  show ?case
  proof (cases "(sha, lem)" rule: validate_lemma.cases)
    case (1 sha' h' sib)
    with Tree_Node.prems show ?thesis using hash_leaf_neq_nodes [of sha w "tree_hash l" "tree_hash r"] by auto
  next
    case (3 sha' h' sh sub)
    with Tree_Node.prems have sub: "validate_lemma sha sub" "leaf_hash sub = hash_leaf sha w"
      and eq: "hash_nodes sha sh (node_hash sub) = hash_nodes sha (tree_hash l) (tree_hash r)"
      by auto
    have "length (node_hash sub) = length (tree_hash r)"
      using validate_lemma_length [OF len sub(1)] sub(2) len lt Tree_Node.prems(1) by simp
    with hash_nodes_inj [OF eq] have "node_hash sub = tree_hash r \<or> collision sha" by blast
    with Tree_Node.IH(2) [OF _ len sub(1) _ sub(2)] Tree_Node.prems(1) show ?thesis by auto
  next
    case (4 sha' h' sh sub)
    with Tree_Node.prems have sub: "validate_lemma sha sub" "leaf_hash sub = hash_leaf sha w"
      and eq: "hash_nodes sha (node_hash sub) sh = hash_nodes sha (tree_hash l) (tree_hash r)"
      by auto
    have "length (node_hash sub) = length (tree_hash l)"
      using validate_lemma_length [OF len sub(1)] sub(2) len lt Tree_Node.prems(1) by simp
    with hash_nodes_inj [OF eq] have "node_hash sub = tree_hash l \<or> collision sha" by blast
    with Tree_Node.IH(1) [OF _ len sub(1) _ sub(2)] Tree_Node.prems(1) show ?thesis by auto
  qed (use Tree_Node.prems in auto)
qed simp

section \<open>Properties\<close>

text \<open>
  For every value of a constructed tree \<open>gen_proof\<close> returns a proof that carries the
  value and validates against the tree's root hash.
\<close>

theorem gen_proof_complete:
  assumes "from_vec sha vs = Ok mt" and "v \<in> set vs"
  shows "\<exists>p. gen_proof sha mt v = Some p \<and> p_value p = v \<and> validate sha p (root_hash mt)"
proof -
  from assms have ne: "vs \<noteq> []" by auto
  with assms have root: "mt_root mt = tree_of sha vs" by (auto simp: from_vec_eq)
  have wh: "well_hashed sha (mt_root mt)" using ne by (simp add: root well_hashed_tree_of)
  have "lemma_new (mt_root mt) (hash_leaf sha v) \<noteq> None"
    using lemma_new_None_iff [OF wh] assms(2) ne by (auto simp: root leaves_tree_of)
  then obtain lem where lem: "lemma_new (mt_root mt) (hash_leaf sha v) = Some lem" by blast
  with lemma_new_valid [OF wh lem] lemma_new_node_hash [OF lem] show ?thesis
    by (auto simp: gen_proof_def validate_def root_hash_def)
qed

theorem gen_proof_complete_witness:
  "\<exists>mt p. from_vec (\<lambda>x. x) [[1], [2], [3]] = Ok mt \<and> gen_proof (\<lambda>x. x) mt [3] = Some p \<and>
     p_value p = [3] \<and> validate (\<lambda>x. x) p (root_hash mt)"
proof -
  obtain mt where mt: "from_vec (\<lambda>x. x) [[1], [2], [3]] = Ok mt" using from_vec_total by blast
  from gen_proof_complete [OF mt, of "[3]"] mt show ?thesis by auto
qed

text \<open>
  An accepted proof that ends in the leaf hash of a value shows that the value is one of
  the tree's, unless SHA-256 has a collision; in particular \<open>gen_proof\<close> proves nothing about
  a value that is not in the tree.
\<close>

theorem validated_proof_sound:
  assumes "from_vec sha vs = Ok mt" and "vs \<noteq> []" and "sha256_sized sha"
    and "validate sha p (root_hash mt)" and "leaf_hash (p_lemma p) = hash_leaf sha w"
  shows "w \<in> set vs \<or> collision sha"
proof -
  from assms(1,2) have root: "mt_root mt = tree_of sha vs" by (auto simp: from_vec_eq)
  with assms(2) have wh: "well_hashed sha (mt_root mt)" by (simp add: well_hashed_tree_of)
  from assms(4) have "validate_lemma sha (p_lemma p)" "node_hash (p_lemma p) = tree_hash (mt_root mt)"
    by (auto simp: validate_def root_hash_def split: if_splits)
  from validate_lemma_sound [OF wh assms(3) this assms(5)] assms(2) show ?thesis
    by (simp add: root leaves_tree_of)
qed

theorem validated_proof_sound_witness:
  "\<exists>mt p. let sha = (\<lambda>x. replicate 32 (if length x = 2 then 1 else 0)) in
     from_vec sha [[7]] = Ok mt \<and> sha256_sized sha \<and> validate sha p (root_hash mt) \<and>
     leaf_hash (p_lemma p) = hash_leaf sha [7] \<and> ([7] \<in> set [[7::8 word]] \<or> collision sha)"
proof -
  let ?sha = "\<lambda>x :: bytes. replicate 32 (if length x = 2 then 1 else 0) :: bytes"
  let ?h = "replicate 32 (1 :: 8 word)"
  let ?p = "\<lparr>p_root_hash = ?h, p_lemma = Lemma ?h None None, p_value = [7]\<rparr>"
  have mt: "from_vec ?sha [[7]] = Ok \<lparr>mt_root = Tree_Leaf ?h [7], mt_height = 0, mt_count = 1,
      mt_nodes_count = 0\<rparr>" (is "_ = Ok ?mt")
    by (simp add: from_vec_eq new_leaf_def hash_leaf_def)
  have sized: "sha256_sized ?sha" by (simp add: sha256_sized_def HASHBYTES_def)
  have v: "validate ?sha ?p (root_hash ?mt)" by (simp add: validate_def root_hash_def)
  have l: "leaf_hash (p_lemma ?p) = hash_leaf ?sha [7]" by (simp add: hash_leaf_def)
  from validated_proof_sound [OF mt _ sized v l] mt sized v l show ?thesis
    unfolding Let_def by blast
qed

text \<open>
  \<open>validate\<close> does not read the value of the proof: for every root hash and every value
  whatsoever, the one-node proof made of the root hash is accepted. Membership of the value
  is therefore not what acceptance shows; the caller has to compare the leaf hash itself.
\<close>

theorem validate_accepts_any_value:
  "validate sha \<lparr>p_root_hash = h, p_lemma = Lemma h None None, p_value = v\<rparr> h"
  by (simp add: validate_def)

end
