(* ===== verification/Json_Value.thy ===== *)
theory Json_Value
  imports Indy_Prelude
begin

text \<open>
  JSON values as \<open>serde_json::Value\<close> has them. The parser and the printer are serde's and
  stay parameters of the definitions that call them; this theory holds the data and the
  accessors the sources use (\<open>as_str\<close>, \<open>as_u64\<close>, \<open>as_array\<close>, \<open>as_object\<close> and indexing by key,
  which yields \<open>Null\<close> for a missing key).

  A number is an unsigned or a negative integer or a floating point number, as in
  \<open>serde_json::Number\<close>; of a floating point number only the text is kept, since no source
  computes with one. An object is an association list; serde's default map is ordered by key, so
  the parser yields it in key order and equal objects are equal lists.
\<close>

datatype Number = PosInt nat | NegInt int | Float string

datatype SJsonValue =
    Value_Null
  | Value_Bool bool
  | Value_Number Number
  | Value_String string
  | Value_Array "SJsonValue list"
  | Value_Object "(string \<times> SJsonValue) list"

fun as_str :: "SJsonValue \<Rightarrow> string option" where
  "as_str (Value_String s) = Some s"
| "as_str _ = None"

fun as_u64 :: "SJsonValue \<Rightarrow> nat option" where
  "as_u64 (Value_Number (PosInt n)) = Some n"
| "as_u64 _ = None"

fun as_array :: "SJsonValue \<Rightarrow> SJsonValue list option" where
  "as_array (Value_Array xs) = Some xs"
| "as_array _ = None"

fun as_object :: "SJsonValue \<Rightarrow> (string \<times> SJsonValue) list option" where
  "as_object (Value_Object m) = Some m"
| "as_object _ = None"

fun is_null :: "SJsonValue \<Rightarrow> bool" where
  "is_null Value_Null = True"
| "is_null _ = False"

text \<open>\<open>value["key"]\<close>.\<close>

definition json_index :: "SJsonValue \<Rightarrow> string \<Rightarrow> SJsonValue" where
  "json_index v k =
     (case v of
        Value_Object m \<Rightarrow> (case hm_get m k of Some w \<Rightarrow> w | None \<Rightarrow> Value_Null)
      | _ \<Rightarrow> Value_Null)"

lemma json_index_Null [simp]: "json_index Value_Null k = Value_Null"
  by (simp add: json_index_def)

lemma json_index_Object [simp]:
  "json_index (Value_Object m) k = (case hm_get m k of Some w \<Rightarrow> w | None \<Rightarrow> Value_Null)"
  by (simp add: json_index_def)

end
