(* ===== verification/Pool_Ledger.thy ===== *)
theory Pool_Ledger
  imports Merkle_Tree Json_Value
begin

text \<open>
  The pool ledger on disk and the node state read from it
  (\<open>libindy/src/services/pool/merkle_tree_factory.rs\<close> and the transaction types of
  \<open>types.rs\<close>).

  The directory of one pool is a record of two files: the genesis file \<open><pool>.txn\<close> (text)
  and the cache \<open>stored.btxn\<close> (binary); \<open>None\<close> is a file that does not exist. Failures of the
  operating system (a file that cannot be opened, read or written) are not modelled. JSON
  parsing, MessagePack and base58 are third-party code: parameters of the definitions.

  The theory shows that the cache is a faithful copy of the ledger: what is dumped is what is
  read back, appended entries included, and that the node state holds, field by field, the
  latest value that the transactions of a node carry.
\<close>

section \<open>Node transactions\<close>

record NodeData =
  nd_alias :: string
  client_ip :: "string option"
  client_port :: "nat option"
  node_ip :: "string option"
  node_port :: "nat option"
  services :: "string list option"
  blskey :: "string option"
  blskey_pop :: "string option"

record NodeTransactionV0 =
  v0_data :: NodeData
  v0_dest :: string
  v0_identifier :: string
  v0_txn_id :: "string option"
  v0_verkey :: "string option"
  v0_txn_type :: string

record TxnData =
  td_data :: NodeData
  td_dest :: string
  td_verkey :: "string option"

record TxnMetadata =
  tm_req_id :: "int option"
  tm_from :: string

record Txn =
  txn_type :: string
  protocol_version :: "int option"
  txn_data :: TxnData
  txn_meta :: TxnMetadata

record Metadata =
  creation_time :: "nat option"
  seq_no :: "int option"
  txn_id :: "string option"

record ReqSignatureValue =
  sig_from :: "string option"
  sig_value :: "string option"

record ReqSignature =
  sig_type :: "string option"
  sig_values :: "ReqSignatureValue list option"

record NodeTransactionV1 =
  txn :: Txn
  txn_metadata :: Metadata
  req_signature :: ReqSignature
  ver :: string

datatype NodeTransaction =
    NodeTransaction_V0 NodeTransactionV0
  | NodeTransaction_V1 NodeTransactionV1

definition node_txn_from_v0 :: "NodeTransactionV0 \<Rightarrow> NodeTransactionV1" where
  "node_txn_from_v0 t =
     \<lparr>txn =
        \<lparr>txn_type = v0_txn_type t,
         protocol_version = None,
         txn_data = \<lparr>td_data = v0_data t, td_dest = v0_dest t, td_verkey = v0_verkey t\<rparr>,
         txn_meta = \<lparr>tm_req_id = None, tm_from = v0_identifier t\<rparr>\<rparr>,
      txn_metadata = \<lparr>creation_time = None, seq_no = None, txn_id = v0_txn_id t\<rparr>,
      req_signature = \<lparr>sig_type = None, sig_values = None\<rparr>,
      ver = ''1''\<rparr>"

section \<open>Full verification keys\<close>

text \<open>
  \<open>build_full_verkey\<close> (\<open>libindy/src/utils/crypto/verkey_builder.rs\<close>): an abbreviated key, one
  that starts with a tilde, is completed with the DID; a crypto type after a colon is kept.
  Base58 is the parameter pair \<open>from_b58\<close>, \<open>to_b58\<close>; its error becomes \<open>InvalidStructure\<close>.
\<close>

fun split_on :: "char \<Rightarrow> string \<Rightarrow> string list" where
  "split_on c [] = [[]]"
| "split_on c (x # xs) =
     (if x = c then [] # split_on c xs
      else (case split_on c xs of [] \<Rightarrow> [[x]] | s # ss \<Rightarrow> (x # s) # ss))"

definition build_full_verkey ::
    "(string \<Rightarrow> bytes option) \<Rightarrow> (bytes \<Rightarrow> string) \<Rightarrow> string \<Rightarrow> string option \<Rightarrow> string outcome" where
  "build_full_verkey from_b58 to_b58 dest verkey =
     (case verkey of
        None \<Rightarrow> Ok dest
      | Some vk \<Rightarrow>
          let (vk, crypto_type) =
                (if CHR '':'' \<in> set vk
                 then (split_on (CHR '':'') vk ! 0, Some (split_on (CHR '':'') vk ! 1))
                 else (vk, None))
          in and_then
               (if starts_with vk ''~'' then
                  and_then (ok_or InvalidStructure (from_b58 dest)) (\<lambda>result.
                  and_then (ok_or InvalidStructure (from_b58 (tl vk))) (\<lambda>end.
                    Ok (to_b58 (result @ end))))
                else Ok vk)
               (\<lambda>vk. Ok (case crypto_type of Some c \<Rightarrow> vk @ '':'' @ c | None \<Rightarrow> vk)))"

section \<open>Merging node transactions\<close>

text \<open>\<open>if let Some(x) = other.f { self.f = Some(x) }\<close>.\<close>

definition or_keep :: "'a option \<Rightarrow> 'a option \<Rightarrow> 'a option" where
  "or_keep new old = (case new of Some x \<Rightarrow> Some x | None \<Rightarrow> old)"

definition update_node_data :: "NodeData \<Rightarrow> NodeData \<Rightarrow> NodeData" where
  "update_node_data self other =
     self\<lparr>client_ip := or_keep (client_ip other) (client_ip self),
          client_port := or_keep (client_port other) (client_port self),
          node_ip := or_keep (node_ip other) (node_ip self),
          node_port := or_keep (node_port other) (node_port self),
          blskey := or_keep (blskey other) (blskey self),
          blskey_pop := or_keep (blskey_pop other) (blskey_pop self),
          services := or_keep (services other) (services self)\<rparr>"

abbreviation node_data :: "NodeTransactionV1 \<Rightarrow> NodeData" where
  "node_data t \<equiv> td_data (txn_data (txn t))"

abbreviation node_dest :: "NodeTransactionV1 \<Rightarrow> string" where
  "node_dest t \<equiv> td_dest (txn_data (txn t))"

definition update ::
    "(string \<Rightarrow> bytes option) \<Rightarrow> (bytes \<Rightarrow> string) \<Rightarrow> NodeTransactionV1 \<Rightarrow> NodeTransactionV1 \<Rightarrow>
     NodeTransactionV1 outcome" where
  "update from_b58 to_b58 self other =
     (if node_dest self \<noteq> node_dest other then Panic
      else if nd_alias (node_data self) \<noteq> nd_alias (node_data other) then Panic
      else
        let td = (txn_data (txn self))\<lparr>td_data := update_node_data (node_data self) (node_data other)\<rparr>
        in and_then
             (if td_verkey (txn_data (txn other)) \<noteq> None
              then map_ok Some
                     (build_full_verkey from_b58 to_b58 (node_dest self)
                        (td_verkey (txn_data (txn other))))
              else Ok (td_verkey td))
             (\<lambda>vk. Ok (self\<lparr>txn := (txn self)\<lparr>txn_data := td\<lparr>td_verkey := vk\<rparr>\<rparr>\<rparr>)))"

text \<open>
  The loop of \<open>build_node_state\<close> over the tree's leaves; \<open>decode\<close> is the MessagePack decoder
  and \<open>protocol\<close> the global protocol version.
\<close>

fun build_node_state_loop ::
    "(string \<Rightarrow> bytes option) \<Rightarrow> (bytes \<Rightarrow> string) \<Rightarrow> (bytes \<Rightarrow> NodeTransaction option) \<Rightarrow> nat \<Rightarrow>
     (string \<times> NodeTransactionV1) list \<Rightarrow> bytes list \<Rightarrow> (string \<times> NodeTransactionV1) list outcome"
where
  "build_node_state_loop from_b58 to_b58 decode protocol gen_tnxs [] = Ok gen_tnxs"
| "build_node_state_loop from_b58 to_b58 decode protocol gen_tnxs (gen_txn # rest) =
     and_then (ok_or InvalidState (decode gen_txn)) (\<lambda>t.
     and_then
       (case t of
          NodeTransaction_V0 v0 \<Rightarrow>
            (if protocol \<noteq> 1 then Err PoolIncompatibleProtocolVersion else Ok (node_txn_from_v0 v0))
        | NodeTransaction_V1 v1 \<Rightarrow>
            (if protocol \<noteq> 2 then Err PoolIncompatibleProtocolVersion else Ok v1)) (\<lambda>t1.
     and_then
       (case hm_get gen_tnxs (node_dest t1) of
          Some old \<Rightarrow>
            map_ok (hm_insert gen_tnxs (node_dest t1)) (update from_b58 to_b58 old t1)
        | None \<Rightarrow> Ok (hm_insert gen_tnxs (node_dest t1) t1)) (\<lambda>gen_tnxs'.
     build_node_state_loop from_b58 to_b58 decode protocol gen_tnxs' rest)))"

definition build_node_state ::
    "(string \<Rightarrow> bytes option) \<Rightarrow> (bytes \<Rightarrow> string) \<Rightarrow> (bytes \<Rightarrow> NodeTransaction option) \<Rightarrow> nat \<Rightarrow>
     MerkleTree \<Rightarrow> (string \<times> NodeTransactionV1) list outcome" where
  "build_node_state from_b58 to_b58 decode protocol mt =
     build_node_state_loop from_b58 to_b58 decode protocol [] (iter_collect (mt_iter mt))"

section \<open>Files of a pool\<close>

record PoolFiles =
  stored_btxn :: "bytes option"
  genesis_txn :: "string option"

text \<open>\<open>BufRead::lines\<close>: the text between line feeds, without a trailing carriage return; the
  empty text after the last line feed is not a line.\<close>

definition strip_cr :: "string \<Rightarrow> string" where
  "strip_cr l = (if l \<noteq> [] \<and> last l = CHR 0x0D then butlast l else l)"

fun buf_lines_aux :: "string list \<Rightarrow> string list" where
  "buf_lines_aux [] = []"
| "buf_lines_aux [l] = (if l = [] then [] else [l])"
| "buf_lines_aux (l # l' # ls) = strip_cr l # buf_lines_aux (l' # ls)"

definition buf_lines :: "string \<Rightarrow> string list" where
  "buf_lines s = buf_lines_aux (split_on (CHR 0x0A) s)"

text \<open>\<open>str::trim\<close> on the ASCII whitespace characters.\<close>

definition is_ws :: "char \<Rightarrow> bool" where
  "is_ws c \<longleftrightarrow> c \<in> {CHR 0x20, CHR 0x09, CHR 0x0A, CHR 0x0B, CHR 0x0C, CHR 0x0D}"

definition trim :: "string \<Rightarrow> string" where
  "trim s = rev (dropWhile is_ws (rev (dropWhile is_ws s)))"

definition parse_txn_from_json ::
    "(string \<Rightarrow> SJsonValue option) \<Rightarrow> (SJsonValue \<Rightarrow> bytes option) \<Rightarrow> string \<Rightarrow> bytes outcome" where
  "parse_txn_from_json from_str to_vec_named t =
     (let t = trim t in
      if t = [] then Ok []
      else and_then (ok_or InvalidStructure (from_str t)) (\<lambda>v.
             ok_or InvalidState (to_vec_named v)))"

fun from_genesis_loop ::
    "(bytes \<Rightarrow> bytes) \<Rightarrow> (string \<Rightarrow> SJsonValue option) \<Rightarrow> (SJsonValue \<Rightarrow> bytes option) \<Rightarrow>
     MerkleTree \<Rightarrow> string list \<Rightarrow> MerkleTree outcome" where
  "from_genesis_loop sha from_str to_vec_named mt [] = Ok mt"
| "from_genesis_loop sha from_str to_vec_named mt (line # rest) =
     (if trim line = [] then from_genesis_loop sha from_str to_vec_named mt rest
      else and_then (parse_txn_from_json from_str to_vec_named line) (\<lambda>t.
           and_then (mt_append sha mt t) (\<lambda>mt'.
             from_genesis_loop sha from_str to_vec_named mt' rest)))"

definition from_genesis ::
    "(bytes \<Rightarrow> bytes) \<Rightarrow> (string \<Rightarrow> SJsonValue option) \<Rightarrow> (SJsonValue \<Rightarrow> bytes option) \<Rightarrow>
     string \<Rightarrow> MerkleTree outcome" where
  "from_genesis sha from_str to_vec_named file =
     and_then (from_vec sha []) (\<lambda>mt. from_genesis_loop sha from_str to_vec_named mt (buf_lines file))"

text \<open>Little-endian 64-bit lengths.\<close>

definition write_u64 :: "nat \<Rightarrow> bytes" where
  "write_u64 n = map (\<lambda>i. of_nat (n div 256 ^ i)) [0..<8]"

definition read_u64 :: "bytes \<Rightarrow> nat" where
  "read_u64 bs = foldr (\<lambda>b acc. unat b + 256 * acc) bs 0"

text \<open>
  The loop of \<open>_from_cache\<close>: fewer than eight bytes left end it, whatever they are; a record
  longer than the rest of the file is \<open>InvalidState\<close>; a length above \<open>isize::MAX\<close> makes the
  allocation of the buffer panic.
\<close>

function from_cache_loop :: "(bytes \<Rightarrow> bytes) \<Rightarrow> MerkleTree \<Rightarrow> bytes \<Rightarrow> MerkleTree outcome" where
  "from_cache_loop sha mt f =
     (if length f < 8 then Ok mt
      else
        let n = read_u64 (take 8 f); rest = drop 8 f in
        if 2 ^ 63 \<le> n then Panic
        else if length rest < n then Err InvalidState
        else and_then (mt_append sha mt (take n rest)) (\<lambda>mt'.
               from_cache_loop sha mt' (drop n rest)))"
  by pat_completeness auto
termination
  by (relation "measure (\<lambda>(sha, mt, f). length f)") auto

declare from_cache_loop.simps [simp del]

definition from_cache :: "(bytes \<Rightarrow> bytes) \<Rightarrow> bytes \<Rightarrow> MerkleTree outcome" where
  "from_cache sha file = and_then (from_vec sha []) (\<lambda>mt. from_cache_loop sha mt file)"

definition create ::
    "(bytes \<Rightarrow> bytes) \<Rightarrow> (string \<Rightarrow> SJsonValue option) \<Rightarrow> (SJsonValue \<Rightarrow> bytes option) \<Rightarrow>
     PoolFiles \<Rightarrow> MerkleTree outcome" where
  "create sha from_str to_vec_named fs =
     (case stored_btxn fs of
        None \<Rightarrow>
          (case genesis_txn fs of
             None \<Rightarrow> Err PoolNotCreated
           | Some g \<Rightarrow> from_genesis sha from_str to_vec_named g)
      | Some b \<Rightarrow> from_cache sha b)"

definition drop_cache :: "PoolFiles \<Rightarrow> unit outcome \<times> PoolFiles" where
  "drop_cache fs =
     (case stored_btxn fs of
        Some _ \<Rightarrow> (Ok (), fs\<lparr>stored_btxn := None\<rparr>)
      | None \<Rightarrow> (Err InvalidState, fs))"

text \<open>The bytes that \<open>_dump_vec_to_file\<close> adds to a file.\<close>

definition dump_vec :: "bytes list \<Rightarrow> bytes" where
  "dump_vec v = concat (map (\<lambda>line. write_u64 (length line) @ line) v)"

definition genesis_to_binary ::
    "(string \<Rightarrow> SJsonValue option) \<Rightarrow> (SJsonValue \<Rightarrow> bytes option) \<Rightarrow> string \<Rightarrow> bytes list outcome" where
  "genesis_to_binary from_str to_vec_named file =
     map_outcome_list (parse_txn_from_json from_str to_vec_named) (buf_lines file)"

text \<open>\<open>File::create\<close> truncates the cache before the genesis file is read, so a genesis file
  that does not parse leaves an empty cache behind.\<close>

definition dump_genesis_to_stored ::
    "(string \<Rightarrow> SJsonValue option) \<Rightarrow> (SJsonValue \<Rightarrow> bytes option) \<Rightarrow>
     PoolFiles \<Rightarrow> unit outcome \<times> PoolFiles" where
  "dump_genesis_to_stored from_str to_vec_named fs =
     (case genesis_txn fs of
        None \<Rightarrow> (Err PoolNotCreated, fs)
      | Some g \<Rightarrow>
          let fs = fs\<lparr>stored_btxn := Some []\<rparr> in
          (case genesis_to_binary from_str to_vec_named g of
             Ok genesis_vec \<Rightarrow> (Ok (), fs\<lparr>stored_btxn := Some (dump_vec genesis_vec)\<rparr>)
           | Err e \<Rightarrow> (Err e, fs)
           | Panic \<Rightarrow> (Panic, fs)))"

definition dump_new_txns ::
    "(string \<Rightarrow> SJsonValue option) \<Rightarrow> (SJsonValue \<Rightarrow> bytes option) \<Rightarrow>
     PoolFiles \<Rightarrow> bytes list \<Rightarrow> unit outcome \<times> PoolFiles" where
  "dump_new_txns from_str to_vec_named fs txns =
     (let (r, fs) =
        (if stored_btxn fs = None then dump_genesis_to_stored from_str to_vec_named fs
         else (Ok (), fs))
      in (case r of
            Ok _ \<Rightarrow>
              (case stored_btxn fs of
                 None \<Rightarrow> (Err IOError, fs)
               | Some b \<Rightarrow> (Ok (), fs\<lparr>stored_btxn := Some (b @ dump_vec txns)\<rparr>))
          | Err e \<Rightarrow> (Err e, fs)
          | Panic \<Rightarrow> (Panic, fs)))"

section \<open>The cache format\<close>

lemma read_write_u64:
  assumes "n < 2 ^ 64"
  shows "read_u64 (write_u64 n) = n"
proof -
  have "unat (of_nat m :: 8 word) = m mod 256" for m by (simp add: unat_of_nat)
  then have "read_u64 (write_u64 n) =
      foldr (\<lambda>i acc. n div 256 ^ i mod 256 + 256 * acc) [0..<0 + 8] 0"
    by (simp add: read_u64_def write_u64_def foldr_map o_def)
  also have "\<dots> = n" using assms by (subst le_digits) simp
  finally show ?thesis .
qed

lemma length_write_u64 [simp]: "length (write_u64 n) = 8"
  by (simp add: write_u64_def)

lemma dump_vec_simps [simp]:
  "dump_vec [] = []"
  "dump_vec (line # v) = write_u64 (length line) @ line @ dump_vec v"
  "dump_vec (v @ w) = dump_vec v @ dump_vec w"
  by (simp_all add: dump_vec_def)

text \<open>The size every record of a cache has to have for the reader to accept it.\<close>

definition fits :: "bytes list \<Rightarrow> bool" where
  "fits vs \<longleftrightarrow> (\<forall>v \<in> set vs. length v < 2 ^ 63)"

lemma fits_simps [simp]:
  "fits []" "fits (v # vs) \<longleftrightarrow> length v < 2 ^ 63 \<and> fits vs" "fits (vs @ ws) \<longleftrightarrow> fits vs \<and> fits ws"
  by (auto simp: fits_def)

lemma from_cache_loop_dump:
  "fits vs \<Longrightarrow> from_cache_loop sha mt (dump_vec vs) = log_extend (mt_append sha) mt vs"
proof (induction vs arbitrary: mt)
  case Nil
  then show ?case by (simp add: from_cache_loop.simps)
next
  case (Cons v vs)
  then have "read_u64 (write_u64 (length v)) = length v" by (intro read_write_u64) simp
  with Cons show ?case
    by (subst from_cache_loop.simps) (simp add: Let_def not_le)
qed

lemma from_vec_Nil: "from_vec sha [] = Ok mt_default"
  by (simp add: from_vec_def)

lemma from_cache_dump:
  "fits vs \<Longrightarrow> from_cache sha (dump_vec vs) = log_extend (mt_append sha) mt_default vs"
  by (simp add: from_cache_def from_vec_Nil from_cache_loop_dump)

text \<open>Reading the genesis file is replaying its lines that are not blank.\<close>

definition blank :: "string \<Rightarrow> bool" where
  "blank line \<longleftrightarrow> trim line = []"

lemma from_genesis_loop_Ok:
  "map_outcome_list (parse_txn_from_json from_str to_vec_named) (filter (\<lambda>l. \<not> blank l) lines) = Ok vs \<Longrightarrow>
     from_genesis_loop sha from_str to_vec_named mt lines = log_extend (mt_append sha) mt vs"
proof (induction lines arbitrary: mt vs)
  case (Cons line lines)
  then show ?case
    by (auto simp: blank_def parse_txn_from_json_def Let_def outcome_simps split: if_splits)
qed simp

lemma parse_blank: "blank line \<Longrightarrow> parse_txn_from_json from_str to_vec_named line = Ok []"
  by (simp add: blank_def parse_txn_from_json_def)

lemma map_outcome_list_filter_blank:
  assumes "map_outcome_list (parse_txn_from_json from_str to_vec_named) lines = Ok all"
  obtains vs where
    "map_outcome_list (parse_txn_from_json from_str to_vec_named) (filter (\<lambda>l. \<not> blank l) lines) = Ok vs"
    and "length all = length vs + length (filter blank lines)"
    and "filter blank lines = [] \<Longrightarrow> all = vs"
    and "fits all \<Longrightarrow> fits vs"
  using assms
proof (induction lines arbitrary: all thesis)
  case (Cons line lines)
  from Cons.prems(2) obtain v rest where v: "parse_txn_from_json from_str to_vec_named line = Ok v"
    and rest: "map_outcome_list (parse_txn_from_json from_str to_vec_named) lines = Ok rest"
    and all: "all = v # rest"
    by auto
  from Cons.IH [OF _ rest] obtain vs where vs:
    "map_outcome_list (parse_txn_from_json from_str to_vec_named) (filter (\<lambda>l. \<not> blank l) lines) = Ok vs"
    "length rest = length vs + length (filter blank lines)"
    "filter blank lines = [] \<Longrightarrow> rest = vs" "fits rest \<Longrightarrow> fits vs"
    by blast
  show ?case
  proof (cases "blank line")
    case True
    with vs all show ?thesis by (intro Cons.prems(1) [of vs]) auto
  next
    case False
    with vs all v show ?thesis by (intro Cons.prems(1) [of "v # vs"]) auto
  qed
qed simp

lemma replay_default:
  assumes "log_extend (mt_append sha) mt_default vs = Ok mt"
  shows "mt_valid sha mt" and "mt_values mt = vs"
proof -
  have "mt_values mt_default = []" by (rule mt_values_from_vec [OF from_vec_Nil])
  with merkle_log.extend_Ok_contents [OF mt_valid_default assms]
  show "mt_valid sha mt" "mt_values mt = vs" by simp_all
qed

lemma replay_default_total:
  "\<exists>mt. log_extend (mt_append sha) mt_default vs = Ok mt \<and> mt_valid sha mt \<and> mt_values mt = vs"
  using merkle_log.extend_ok [OF mt_valid_default, of sha vs] replay_default by blast

section \<open>Node state\<close>

lemma or_keep_simps [simp]: "or_keep (Some x) y = Some x" "or_keep None y = y" "or_keep x None = x"
  by (simp_all add: or_keep_def split: option.split)

definition latest :: "('a \<Rightarrow> 'b option) \<Rightarrow> 'a list \<Rightarrow> 'b option" where
  "latest f ts = fold (\<lambda>t acc. or_keep (f t) acc) ts None"

lemma latest_append: "latest f (ts @ [t]) = or_keep (f t) (latest f ts)"
  by (simp add: latest_def)

text \<open>A leaf as \<open>build_node_state\<close> reads it.\<close>

definition read_leaf ::
    "(bytes \<Rightarrow> NodeTransaction option) \<Rightarrow> nat \<Rightarrow> bytes \<Rightarrow> NodeTransactionV1 outcome" where
  "read_leaf decode protocol b =
     and_then (ok_or InvalidState (decode b)) (\<lambda>t.
       case t of
         NodeTransaction_V0 v0 \<Rightarrow>
           (if protocol \<noteq> 1 then Err PoolIncompatibleProtocolVersion else Ok (node_txn_from_v0 v0))
       | NodeTransaction_V1 v1 \<Rightarrow>
           (if protocol \<noteq> 2 then Err PoolIncompatibleProtocolVersion else Ok v1))"

definition merges_as :: "(NodeData \<Rightarrow> 'a option) \<Rightarrow> bool" where
  "merges_as f \<longleftrightarrow> (\<forall>a b. f (update_node_data a b) = or_keep (f b) (f a))"

lemma merges_as_fields:
  "merges_as client_ip" "merges_as client_port" "merges_as node_ip" "merges_as node_port"
  "merges_as blskey" "merges_as blskey_pop" "merges_as services"
  by (simp_all add: merges_as_def update_node_data_def)

lemma update_Ok:
  assumes "update from_b58 to_b58 old t = Ok t'"
  shows "node_data t' = update_node_data (node_data old) (node_data t)"
    and "node_dest t' = node_dest old" and "nd_alias (node_data t') = nd_alias (node_data t)"
  using assms by (auto simp: update_def Let_def update_node_data_def split: if_splits)

text \<open>The state after the transactions \<open>ts\<close>, as far as one field is concerned.\<close>

definition shows_at ::
    "(NodeData \<Rightarrow> 'a option) \<Rightarrow> NodeTransactionV1 list \<Rightarrow> NodeTransactionV1 option \<Rightarrow> bool" where
  "shows_at f ts entry \<longleftrightarrow>
     (case entry of
        None \<Rightarrow> ts = []
      | Some t \<Rightarrow> ts \<noteq> [] \<and> f (node_data t) = latest (f \<circ> node_data) ts)"

definition state_shows ::
    "(NodeData \<Rightarrow> 'a option) \<Rightarrow> NodeTransactionV1 list \<Rightarrow> (string \<times> NodeTransactionV1) list \<Rightarrow> bool" where
  "state_shows f ts st \<longleftrightarrow> (\<forall>d. shows_at f (filter (\<lambda>t. node_dest t = d) ts) (hm_get st d))"

lemma shows_at_step:
  assumes "shows_at f ts entry" and "merges_as f"
    and "(case entry of Some old \<Rightarrow> update from_b58 to_b58 old t | None \<Rightarrow> Ok t) = Ok t'"
  shows "shows_at f (ts @ [t]) (Some t')"
proof (cases entry)
  case None
  with assms show ?thesis by (simp add: shows_at_def latest_def)
next
  case (Some old)
  with assms(3) have "update from_b58 to_b58 old t = Ok t'" by simp
  then have "f (node_data t') = or_keep (f (node_data t)) (f (node_data old))"
    using assms(2) update_Ok(1) by (metis merges_as_def)
  with assms(1) Some show ?thesis by (simp add: shows_at_def latest_append)
qed

lemma state_shows_step:
  assumes "state_shows f ts st" and "merges_as f"
    and "(case hm_get st (node_dest t) of
            Some old \<Rightarrow> map_ok (hm_insert st (node_dest t)) (update from_b58 to_b58 old t)
          | None \<Rightarrow> Ok (hm_insert st (node_dest t) t)) = Ok st'"
  shows "state_shows f (ts @ [t]) st'"
proof -
  obtain t' where t': "st' = hm_insert st (node_dest t) t'"
    "(case hm_get st (node_dest t) of Some old \<Rightarrow> update from_b58 to_b58 old t | None \<Rightarrow> Ok t) = Ok t'"
    using assms(3) by (auto split: option.splits)
  have "shows_at f (filter (\<lambda>t. node_dest t = node_dest t0) ts) (hm_get st (node_dest t0))" for t0
    using assms(1) by (simp add: state_shows_def)
  from shows_at_step [OF this [of t] assms(2) t'(2)] assms(1) t'(1) show ?thesis
    by (simp add: state_shows_def hm_get_insert)
qed

lemma build_node_state_loop_shows:
  assumes "merges_as f" and "state_shows f ts st"
    and "build_node_state_loop from_b58 to_b58 decode protocol st bs = Ok st'"
  shows "\<exists>ts'. map_outcome_list (read_leaf decode protocol) bs = Ok ts' \<and>
    state_shows f (ts @ ts') st'"
  using assms(2,3)
proof (induction bs arbitrary: ts st)
  case (Cons b bs)
  from Cons.prems(2) obtain t1 st1 where t1: "read_leaf decode protocol b = Ok t1"
    and step: "(case hm_get st (node_dest t1) of
            Some old \<Rightarrow> map_ok (hm_insert st (node_dest t1)) (update from_b58 to_b58 old t1)
          | None \<Rightarrow> Ok (hm_insert st (node_dest t1) t1)) = Ok st1"
    and rest: "build_node_state_loop from_b58 to_b58 decode protocol st1 bs = Ok st'"
    by (auto simp: read_leaf_def)
  from Cons.IH [OF state_shows_step [OF Cons.prems(1) assms(1) step] rest] t1 show ?case by auto
qed simp

lemma build_node_state_shows:
  assumes "merges_as f" and "build_node_state from_b58 to_b58 decode protocol mt = Ok st"
  shows "\<exists>ts. map_outcome_list (read_leaf decode protocol) (iter_collect (mt_iter mt)) = Ok ts \<and>
    state_shows f ts st"
proof -
  have "state_shows f [] []" by (simp add: state_shows_def shows_at_def)
  from build_node_state_loop_shows [OF assms(1) this assms(2) [unfolded build_node_state_def]]
  show ?thesis by simp
qed

section \<open>Properties\<close>

text \<open>Files as the library writes them: a cache, when there is one, holds dumped records, and
  the genesis file parses.\<close>

definition wf_pool ::
    "(string \<Rightarrow> SJsonValue option) \<Rightarrow> (SJsonValue \<Rightarrow> bytes option) \<Rightarrow> PoolFiles \<Rightarrow> bool" where
  "wf_pool from_str to_vec_named fs \<longleftrightarrow>
     (case stored_btxn fs of
        Some b \<Rightarrow> \<exists>vs. fits vs \<and> b = dump_vec vs
      | None \<Rightarrow> \<exists>g vs. genesis_txn fs = Some g \<and> fits vs \<and>
          genesis_to_binary from_str to_vec_named g = Ok vs)"

text \<open>
  The blank lines that a dump still has to copy from the genesis file; none once the cache
  exists.
\<close>

definition pending_blanks :: "PoolFiles \<Rightarrow> string list" where
  "pending_blanks fs =
     (case (stored_btxn fs, genesis_txn fs) of
        (None, Some g) \<Rightarrow> filter blank (buf_lines g)
      | _ \<Rightarrow> [])"

lemma wf_pool_create_dump:
  assumes "wf_pool from_str to_vec_named fs" and "fits txns"
  obtains vs ws fs' where "dump_new_txns from_str to_vec_named fs txns = (Ok (), fs')"
    and "wf_pool from_str to_vec_named fs'"
    and "create sha from_str to_vec_named fs = log_extend (mt_append sha) mt_default vs"
    and "create sha from_str to_vec_named fs' = log_extend (mt_append sha) mt_default (ws @ txns)"
    and "length ws = length vs + length (pending_blanks fs)"
    and "pending_blanks fs = [] \<Longrightarrow> ws = vs" and "pending_blanks fs' = []"
proof (cases "stored_btxn fs")
  case (Some b)
  with assms(1) obtain vs where vs: "fits vs" "b = dump_vec vs" by (auto simp: wf_pool_def)
  show thesis
  proof (rule that [of "fs\<lparr>stored_btxn := Some (dump_vec (vs @ txns))\<rparr>" vs vs])
    show "wf_pool from_str to_vec_named (fs\<lparr>stored_btxn := Some (dump_vec (vs @ txns))\<rparr>)"
      using vs(1) assms(2)
      by (auto simp: wf_pool_def simp del: dump_vec_simps intro!: exI [of _ "vs @ txns"])
    show "create sha from_str to_vec_named (fs\<lparr>stored_btxn := Some (dump_vec (vs @ txns))\<rparr>) =
        log_extend (mt_append sha) mt_default (vs @ txns)"
      using vs(1) assms(2) by (simp add: create_def from_cache_dump del: dump_vec_simps)
  qed (use Some vs in \<open>simp_all add: dump_new_txns_def create_def from_cache_dump pending_blanks_def\<close>)
next
  case None
  with assms(1) obtain g all where g: "genesis_txn fs = Some g" "fits all"
    "genesis_to_binary from_str to_vec_named g = Ok all"
    by (auto simp: wf_pool_def)
  let ?fs = "fs\<lparr>stored_btxn := Some (dump_vec (all @ txns))\<rparr>"
  obtain vs where vs: "map_outcome_list (parse_txn_from_json from_str to_vec_named)
      (filter (\<lambda>l. \<not> blank l) (buf_lines g)) = Ok vs"
    "length all = length vs + length (filter blank (buf_lines g))"
    "filter blank (buf_lines g) = [] \<Longrightarrow> all = vs"
    using map_outcome_list_filter_blank [OF g(3) [unfolded genesis_to_binary_def]] by metis
  show thesis
  proof (rule that [of ?fs vs all])
    show "dump_new_txns from_str to_vec_named fs txns = (Ok (), ?fs)"
      using None g by (simp add: dump_new_txns_def dump_genesis_to_stored_def)
    show "wf_pool from_str to_vec_named ?fs"
      using g(2) assms(2)
      by (auto simp: wf_pool_def simp del: dump_vec_simps intro!: exI [of _ "all @ txns"])
    show "create sha from_str to_vec_named ?fs = log_extend (mt_append sha) mt_default (all @ txns)"
      using g(2) assms(2) by (simp add: create_def from_cache_dump del: dump_vec_simps)
    show "create sha from_str to_vec_named fs = log_extend (mt_append sha) mt_default vs"
      using None g(1) from_genesis_loop_Ok [OF vs(1)]
      by (simp add: create_def from_genesis_def from_vec_Nil)
  qed (use None g vs in \<open>simp_all add: pending_blanks_def\<close>)
qed

text \<open>
  The cache is a faithful copy of the ledger. Dumping new transactions succeeds and keeps
  the files well formed, and the tree read back afterwards holds the ledger that was read
  before, followed by the new transactions, provided that no blank line of the genesis file
  is pending.
\<close>

theorem dump_then_create:
  assumes "wf_pool from_str to_vec_named fs" and "fits txns" and "pending_blanks fs = []"
  shows "\<exists>mt mt' fs'. create sha from_str to_vec_named fs = Ok mt \<and>
    dump_new_txns from_str to_vec_named fs txns = (Ok (), fs') \<and>
    wf_pool from_str to_vec_named fs' \<and> pending_blanks fs' = [] \<and>
    create sha from_str to_vec_named fs' = Ok mt' \<and>
    mt_values mt' = mt_values mt @ txns \<and> log_extend (mt_append sha) mt txns = Ok mt'"
proof -
  obtain vs fs' where fs': "dump_new_txns from_str to_vec_named fs txns = (Ok (), fs')"
    "wf_pool from_str to_vec_named fs'" "pending_blanks fs' = []"
    and c: "create sha from_str to_vec_named fs = log_extend (mt_append sha) mt_default vs"
    "create sha from_str to_vec_named fs' = log_extend (mt_append sha) mt_default (vs @ txns)"
    using wf_pool_create_dump [OF assms(1,2), of sha] assms(3) by metis
  obtain mt where mt: "log_extend (mt_append sha) mt_default vs = Ok mt" "mt_values mt = vs"
    using replay_default_total by blast
  obtain mt' where mt': "log_extend (mt_append sha) mt_default (vs @ txns) = Ok mt'"
    "mt_values mt' = vs @ txns"
    using replay_default_total by blast
  have "log_extend (mt_append sha) mt txns = Ok mt'" using mt' mt by (simp add: log_extend_append)
  with fs' c mt mt' show ?thesis by auto
qed

theorem dump_then_create_witness:
  "\<exists>fs mt mt' fs'. genesis_txn fs = Some ''{}'' \<and> stored_btxn fs = None \<and>
    create (\<lambda>x. x) (\<lambda>_. Some Value_Null) (\<lambda>_. Some [1]) fs = Ok mt \<and>
    dump_new_txns (\<lambda>_. Some Value_Null) (\<lambda>_. Some [1]) fs [[2], [3]] = (Ok (), fs') \<and>
    create (\<lambda>x. x) (\<lambda>_. Some Value_Null) (\<lambda>_. Some [1]) fs' = Ok mt' \<and>
    mt_values mt' = mt_values mt @ [[2], [3]]"
proof -
  let ?from = "\<lambda>_ :: string. Some Value_Null" and ?to = "\<lambda>_ :: SJsonValue. Some [1 :: 8 word]"
  let ?fs = "\<lparr>stored_btxn = None, genesis_txn = Some ''{}''\<rparr>"
  have g: "genesis_to_binary ?from ?to ''{}'' = Ok [[1]]" and nb: "pending_blanks ?fs = []"
    by (simp_all add: genesis_to_binary_def buf_lines_def parse_txn_from_json_def trim_def is_ws_def
        pending_blanks_def blank_def)
  have "wf_pool ?from ?to ?fs" using g by (auto simp: wf_pool_def intro!: exI [of _ "[[1]]"])
  from dump_then_create [OF this _ nb, of "[[2], [3]]" "\<lambda>x. x"]
  obtain mt mt' fs' where "create (\<lambda>x. x) ?from ?to ?fs = Ok mt"
    "dump_new_txns ?from ?to ?fs [[2], [3]] = (Ok (), fs')"
    "create (\<lambda>x. x) ?from ?to fs' = Ok mt'" "mt_values mt' = mt_values mt @ [[2], [3]]"
    by auto
  then show ?thesis by (intro exI [of _ ?fs] exI [of _ mt] exI [of _ mt'] exI [of _ fs']) simp
qed

text \<open>
  Every blank line of the genesis file becomes an extra, empty transaction of the cached
  ledger: reading the genesis file skips blank lines, copying it to the cache does not, so
  the ledger read after the first dump is longer than the ledger before by the number of
  blank lines.
\<close>

theorem blank_genesis_lines_cached:
  assumes "wf_pool from_str to_vec_named fs" and "fits txns"
  shows "\<exists>mt mt' fs'. create sha from_str to_vec_named fs = Ok mt \<and>
    dump_new_txns from_str to_vec_named fs txns = (Ok (), fs') \<and>
    create sha from_str to_vec_named fs' = Ok mt' \<and>
    length (mt_values mt') = length (mt_values mt) + length (pending_blanks fs) + length txns"
proof -
  obtain vs ws fs' where fs': "dump_new_txns from_str to_vec_named fs txns = (Ok (), fs')"
    and c: "create sha from_str to_vec_named fs = log_extend (mt_append sha) mt_default vs"
    "create sha from_str to_vec_named fs' = log_extend (mt_append sha) mt_default (ws @ txns)"
    and len: "length ws = length vs + length (pending_blanks fs)"
    using wf_pool_create_dump [OF assms(1,2), of sha] by metis
  obtain mt where mt: "log_extend (mt_append sha) mt_default vs = Ok mt" "mt_values mt = vs"
    using replay_default_total by blast
  obtain mt' where mt': "log_extend (mt_append sha) mt_default (ws @ txns) = Ok mt'"
    "mt_values mt' = ws @ txns"
    using replay_default_total by blast
  from fs' c mt mt' len show ?thesis by auto
qed

theorem blank_genesis_lines_cached_witness:
  "\<exists>fs mt mt' fs'. genesis_txn fs = Some (''{}'' @ [CHR 0x0A, CHR 0x0A] @ ''{}'') \<and>
    stored_btxn fs = None \<and>
    create (\<lambda>x. x) (\<lambda>_. Some Value_Null) (\<lambda>_. Some [1]) fs = Ok mt \<and>
    dump_new_txns (\<lambda>_. Some Value_Null) (\<lambda>_. Some [1]) fs [[2]] = (Ok (), fs') \<and>
    create (\<lambda>x. x) (\<lambda>_. Some Value_Null) (\<lambda>_. Some [1]) fs' = Ok mt' \<and>
    length (mt_values mt') = length (mt_values mt) + 1 + 1"
proof -
  let ?from = "\<lambda>_ :: string. Some Value_Null" and ?to = "\<lambda>_ :: SJsonValue. Some [1 :: 8 word]"
  let ?g = "''{}'' @ [CHR 0x0A, CHR 0x0A] @ ''{}''"
  let ?fs = "\<lparr>stored_btxn = None, genesis_txn = Some ?g\<rparr>"
  have g: "genesis_to_binary ?from ?to ?g = Ok [[1], [], [1]]"
    and nb: "length (pending_blanks ?fs) = 1"
    by (simp_all add: genesis_to_binary_def buf_lines_def parse_txn_from_json_def trim_def is_ws_def
        pending_blanks_def blank_def strip_cr_def)
  have "wf_pool ?from ?to ?fs" using g by (auto simp: wf_pool_def intro!: exI [of _ "[[1], [], [1]]"])
  from blank_genesis_lines_cached [OF this, of "[[2]]" "\<lambda>x. x"] nb
  obtain mt mt' fs' where "create (\<lambda>x. x) ?from ?to ?fs = Ok mt"
    "dump_new_txns ?from ?to ?fs [[2]] = (Ok (), fs')"
    "create (\<lambda>x. x) ?from ?to fs' = Ok mt'" "length (mt_values mt') = length (mt_values mt) + 1 + 1"
    by auto
  then show ?thesis by (intro exI [of _ ?fs] exI [of _ mt] exI [of _ mt'] exI [of _ fs']) simp
qed

text \<open>
  The node state shows, for every node and each of the seven mergeable fields, the latest
  value that the ledger's transactions for that node carry, and it has exactly the nodes that
  the transactions name.
\<close>

theorem node_state_latest_wins:
  assumes "build_node_state from_b58 to_b58 decode protocol mt = Ok st"
  shows "\<exists>ts. map_outcome_list (read_leaf decode protocol) (iter_collect (mt_iter mt)) = Ok ts \<and>
    state_shows client_ip ts st \<and> state_shows client_port ts st \<and> state_shows node_ip ts st \<and>
    state_shows node_port ts st \<and> state_shows blskey ts st \<and> state_shows blskey_pop ts st \<and>
    state_shows services ts st"
proof -
  obtain ts where ts: "map_outcome_list (read_leaf decode protocol) (iter_collect (mt_iter mt)) = Ok ts"
    using build_node_state_shows [OF merges_as_fields(1) assms] by blast
  have "state_shows f ts st" if "merges_as f" for f :: "NodeData \<Rightarrow> nat option"
    using build_node_state_shows [OF that assms] ts by auto
  moreover have "state_shows f ts st" if "merges_as f" for f :: "NodeData \<Rightarrow> string option"
    using build_node_state_shows [OF that assms] ts by auto
  moreover have "state_shows f ts st" if "merges_as f" for f :: "NodeData \<Rightarrow> string list option"
    using build_node_state_shows [OF that assms] ts by auto
  ultimately show ?thesis using ts merges_as_fields by blast
qed

theorem node_state_latest_wins_witness:
  "\<exists>mt t1 st ts. client_ip (node_data t1) = Some ''10.0.0.1'' \<and>
     build_node_state (\<lambda>_. None) (\<lambda>_. []) (\<lambda>_. Some (NodeTransaction_V1 t1)) 2 mt = Ok st \<and>
     map_outcome_list (read_leaf (\<lambda>_. Some (NodeTransaction_V1 t1)) 2) (iter_collect (mt_iter mt)) =
       Ok ts \<and> state_shows client_ip ts st"
proof -
  define nd where "nd = \<lparr>nd_alias = ''Node1'', client_ip = Some ''10.0.0.1'', client_port = Some 9702,
    node_ip = None, node_port = None, services = None, blskey = None, blskey_pop = None\<rparr>"
  define t1 where "t1 =
    \<lparr>txn = \<lparr>txn_type = ''0'', protocol_version = None,
       txn_data = \<lparr>td_data = nd, td_dest = ''Gw6p'', td_verkey = None\<rparr>,
       txn_meta = \<lparr>tm_req_id = None, tm_from = ''V4SG''\<rparr>\<rparr>,
     txn_metadata = \<lparr>creation_time = None, seq_no = None, txn_id = None\<rparr>,
     req_signature = \<lparr>sig_type = None, sig_values = None\<rparr>, ver = ''1''\<rparr>"
  let ?dec = "\<lambda>_ :: bytes. Some (NodeTransaction_V1 t1)"
  obtain mt where mt: "from_vec (\<lambda>x. x) [[1], [2]] = Ok mt" using from_vec_total by blast
  have vs: "iter_collect (mt_iter mt) = [[1], [2]]"
    using mt_values_from_vec [OF mt] by (simp add: mt_values_def)
  obtain st where st: "build_node_state (\<lambda>_. None) (\<lambda>_. []) ?dec 2 mt = Ok st"
    by (simp add: build_node_state_def vs update_def Let_def t1_def)
  have "client_ip (node_data t1) = Some ''10.0.0.1''" by (simp add: t1_def nd_def)
  with node_state_latest_wins [OF st] st show ?thesis by blast
qed

end
