(* ===== verification/Merkle_Consistency.thy ===== *)
theory Merkle_Consistency
  imports Merkle_Tree
begin

text \<open>
  Consistency proofs of the ledger's Merkle tree (\<open>MerkleTree::consistency_proof\<close> in
  \<open>libindy/src/services/ledger/merkletree/mod.rs\<close>): the check a catch-up relies on.

  Acceptance is sound and complete: an accepted proof shows that the local ledger is a prefix
  of the ledger with the new root (unless SHA-256 has a collision), and every genuine
  extension has an accepted proof.
\<close>

section \<open>The check\<close>

text \<open>The three loops of the function; \<open>None\<close> is the early return \<open>Ok(false)\<close> when the proof
  iterator is exhausted.\<close>

fun strip_odd :: "nat \<Rightarrow> nat \<Rightarrow> nat \<times> nat" where
  "strip_odd old_node new_node =
     (if old_node mod 2 \<noteq> 0 then strip_odd (old_node div 2) (new_node div 2)
      else (old_node, new_node))"

fun climb_old ::
    "(bytes \<Rightarrow> bytes) \<Rightarrow> nat \<Rightarrow> nat \<Rightarrow> bytes list \<Rightarrow> bytes \<Rightarrow> bytes \<Rightarrow>
     (nat \<times> bytes list \<times> bytes \<times> bytes) option" where
  "climb_old sha old_node new_node proofs old_hash new_hash =
     (if old_node \<noteq> 0 then
        if old_node mod 2 \<noteq> 0 then
          (case proofs of
             [] \<Rightarrow> None
           | next_proof # rest \<Rightarrow>
               climb_old sha (old_node div 2) (new_node div 2) rest
                 (hash_nodes sha next_proof old_hash) (hash_nodes sha next_proof new_hash))
        else if old_node < new_node then
          (case proofs of
             [] \<Rightarrow> None
           | next_proof # rest \<Rightarrow>
               climb_old sha (old_node div 2) (new_node div 2) rest
                 old_hash (hash_nodes sha new_hash next_proof))
        else climb_old sha (old_node div 2) (new_node div 2) proofs old_hash new_hash
      else Some (new_node, proofs, old_hash, new_hash))"

fun climb_new :: "(bytes \<Rightarrow> bytes) \<Rightarrow> nat \<Rightarrow> bytes list \<Rightarrow> bytes \<Rightarrow> bytes option" where
  "climb_new sha new_node proofs new_hash =
     (if new_node \<noteq> 0 then
        (case proofs of
           [] \<Rightarrow> None
         | n # rest \<Rightarrow> climb_new sha (new_node div 2) rest (hash_nodes sha new_hash n))
      else Some new_hash)"

declare strip_odd.simps [simp del] climb_old.simps [simp del] climb_new.simps [simp del]

definition consistency_proof ::
    "(bytes \<Rightarrow> bytes) \<Rightarrow> MerkleTree \<Rightarrow> bytes \<Rightarrow> nat \<Rightarrow> bytes list \<Rightarrow> bool outcome" where
  "consistency_proof sha mt new_root_hash new_size proof =
     (if mt_count mt = 0 then Ok True
      else if mt_count mt = new_size \<and> root_hash mt = new_root_hash then Ok True
      else if mt_count mt > new_size then Panic
      else
        let (old_node, new_node) = strip_odd (mt_count mt - 1) (new_size - 1) in
        case (if old_node \<noteq> 0
              then (case proof of [] \<Rightarrow> None | p # rest \<Rightarrow> Some (p, rest))
              else Some (root_hash mt, proof)) of
          None \<Rightarrow> Ok False
        | Some (start, proofs) \<Rightarrow>
            (case climb_old sha old_node new_node proofs start start of
               None \<Rightarrow> Ok False
             | Some (new_node', proofs', old_hash, new_hash) \<Rightarrow>
                 (case climb_new sha new_node' proofs' new_hash of
                    None \<Rightarrow> Ok False
                  | Some new_hash' \<Rightarrow>
                      if new_hash' \<noteq> new_root_hash then Ok False
                      else if old_hash \<noteq> root_hash mt then Ok False
                      else Ok True)))"

section \<open>Blocks of a ledger\<close>

text \<open>
  \<open>blk xs s i\<close> holds the entries below node \<open>i\<close> of level \<open>s\<close>, and \<open>bh\<close> is the hash of the
  subtree over them: what the proof's hashes have to be.
\<close>

definition blk :: "bytes list \<Rightarrow> nat \<Rightarrow> nat \<Rightarrow> bytes list" where
  "blk xs s i = take (2 ^ s) (drop (i * 2 ^ s) xs)"

definition bh :: "(bytes \<Rightarrow> bytes) \<Rightarrow> bytes list \<Rightarrow> nat \<Rightarrow> nat \<Rightarrow> bytes" where
  "bh sha xs s i = tree_hash (tree_of sha (blk xs s i))"

lemma length_bh [simp]:
  "sha256_sized sha \<Longrightarrow> i * 2 ^ s < length xs \<Longrightarrow> length (bh sha xs s i) = HASHBYTES"
  by (simp add: bh_def blk_def)

lemma blk_promote:
  assumes "even i" and "length xs \<le> (i + 1) * 2 ^ s"
  shows "blk xs (Suc s) (i div 2) = blk xs s i"
proof -
  from assms(1) obtain k where "i = 2 * k" by (blast elim: evenE)
  with assms(2) show ?thesis by (simp add: blk_def ac_simps)
qed

lemma bh_join_even:
  assumes "even i" and "(i + 1) * 2 ^ s < length xs"
  shows "bh sha xs (Suc s) (i div 2) = hash_nodes sha (bh sha xs s i) (bh sha xs s (i + 1))"
proof -
  let ?b = "blk xs (Suc s) (i div 2)"
  have len: "2 ^ s < length ?b" "length ?b \<le> 2 ^ Suc s"
    and take: "take (2 ^ s) ?b = blk xs s i" and drop: "drop (2 ^ s) ?b = blk xs s (i + 1)"
    using assms by (auto elim!: evenE simp: blk_def drop_take ac_simps)
  from tree_of_split [OF len, of sha] show ?thesis
    by (simp add: bh_def mk_node_def take drop)
qed

lemma bh_join_odd:
  assumes "odd i" and "i * 2 ^ s < length xs"
  shows "bh sha xs (Suc s) (i div 2) = hash_nodes sha (bh sha xs s (i - 1)) (bh sha xs s i)"
proof -
  from assms(1) obtain k where "i = 2 * k + 1" by (blast elim: oddE)
  with assms bh_join_even [of "i - 1" s xs sha] show ?thesis by simp
qed

text \<open>Ledgers of one size with one root hash are equal, or SHA-256 has a collision.\<close>

lemma tree_of_hash_inj:
  assumes "xs \<noteq> []" and "sha256_sized sha" and "length ys = length xs"
    and "tree_hash (tree_of sha xs) = tree_hash (tree_of sha ys)" and "\<not> collision sha"
  shows "xs = ys"
  using assms(1,3,4)
proof (induction xs arbitrary: ys rule: split_induct)
  case (single v)
  then obtain w where "ys = [w]" by (auto simp: length_Suc_conv)
  with single hash_leaf_inj [of sha v w] assms(5) show ?case by (simp add: new_leaf_def)
next
  case (split xs j)
  let ?k = "2 ^ j :: nat"
  note sx = tree_of_split [OF split.hyps(1,2), of sha]
  have sy: "tree_of sha ys = mk_node sha (tree_of sha (take ?k ys)) (tree_of sha (drop ?k ys))"
    using split by (intro tree_of_split) auto
  have "take ?k xs \<noteq> []" "drop ?k xs \<noteq> []" "take ?k ys \<noteq> []" using split by auto
  then have "length (tree_hash (tree_of sha (take ?k xs))) =
      length (tree_hash (tree_of sha (take ?k ys)))"
    using assms(2) by simp
  with split.prems sx sy hash_nodes_inj assms(5)
  have "tree_hash (tree_of sha (take ?k xs)) = tree_hash (tree_of sha (take ?k ys))"
    and "tree_hash (tree_of sha (drop ?k xs)) = tree_hash (tree_of sha (drop ?k ys))"
    by fastforce+
  with split.IH split.prems(1) have "take ?k xs = take ?k ys" "drop ?k xs = drop ?k ys" by auto
  then show ?case by (metis append_take_drop_id)
qed

lemma bh_inj:
  assumes "sha256_sized sha" and "\<not> collision sha" and "i * 2 ^ s < length xs"
    and "length (blk ys s i) = length (blk xs s i)" and "bh sha xs s i = bh sha ys s i"
  shows "blk xs s i = blk ys s i"
  using assms by (intro tree_of_hash_inj [of _ sha]) (auto simp: bh_def blk_def)

section \<open>Node positions\<close>

text \<open>\<open>last_node n s\<close> is the index of the last node of level \<open>s\<close> in a ledger of size \<open>n\<close>.\<close>

definition last_node :: "nat \<Rightarrow> nat \<Rightarrow> nat" where
  "last_node n s = (n - 1) div 2 ^ s"

lemma last_node_Suc: "last_node n s div 2 = last_node n (Suc s)"
  by (simp add: last_node_def div_mult2_eq [symmetric] mult.commute)

lemma last_node_bounds:
  assumes "0 < n"
  shows "last_node n s * 2 ^ s < n" and "n \<le> (last_node n s + 1) * 2 ^ s"
proof -
  have "last_node n s * 2 ^ s \<le> n - 1" by (simp add: last_node_def)
  with assms show "last_node n s * 2 ^ s < n" by linarith
  have "n - 1 < (last_node n s + 1) * 2 ^ s"
    using dividend_less_div_times [of "2 ^ s" "n - 1"] by (simp add: last_node_def)
  with assms show "n \<le> (last_node n s + 1) * 2 ^ s" by linarith
qed

lemma last_node_mono: "m \<le> n \<Longrightarrow> last_node m s \<le> last_node n s"
  by (simp add: last_node_def div_le_mono)

lemma next_block_exists:
  assumes "0 < n" and "i < last_node n s"
  shows "(i + 1) * 2 ^ s < n"
proof -
  have "(i + 1) * 2 ^ s \<le> last_node n s * 2 ^ s" using assms(2) by (intro mult_right_mono) auto
  with last_node_bounds(1) [OF assms(1), of s] show ?thesis by linarith
qed

text \<open>The first loop stops at a level where the local ledger's last block is full.\<close>

lemma strip_odd_last_node:
  assumes "strip_odd (last_node m s) (last_node n s) = (old, new)"
    and "m = (last_node m s + 1) * 2 ^ s"
  shows "\<exists>t. old = last_node m t \<and> new = last_node n t \<and> even old \<and> m = (old + 1) * 2 ^ t"
  using assms
proof (induction "last_node m s" arbitrary: s rule: less_induct)
  case less
  show ?case
  proof (cases "odd (last_node m s)")
    case True
    then have step: "last_node m s + 1 = 2 * (last_node m (Suc s) + 1)"
      by (simp add: last_node_Suc [symmetric])
    then have "m = (last_node m (Suc s) + 1) * 2 ^ Suc s"
      using less.prems(2) by (simp only: step power_Suc mult_ac)
    moreover have "strip_odd (last_node m (Suc s)) (last_node n (Suc s)) = (old, new)"
      using True less.prems(1)
      by (simp add: strip_odd.simps [of "last_node m s"] last_node_Suc odd_iff_mod_2_eq_one)
    moreover have "last_node m (Suc s) < last_node m s" using step by simp
    ultimately show ?thesis by (intro less.hyps)
  next
    case False
    with less.prems have "old = last_node m s" "new = last_node n s"
      by (auto simp: strip_odd.simps [of "last_node m s"] even_iff_mod_2_eq_zero)
    with False less.prems(2) show ?thesis by blast
  qed
qed

section \<open>Soundness\<close>

lemma take_Suc_blk: "take ((i + 1) * 2 ^ s) xs = take (i * 2 ^ s) xs @ blk xs s i"
proof -
  have "(i + 1) * 2 ^ s = i * 2 ^ s + 2 ^ s" by simp
  then show ?thesis by (simp only: blk_def take_add)
qed

lemma take_blk_extend:
  assumes "take (i * 2 ^ s) xs = take (i * 2 ^ s) ys" and "blk xs s i = blk ys s i"
  shows "take ((i + 1) * 2 ^ s) xs = take ((i + 1) * 2 ^ s) ys"
  using assms by (simp only: take_Suc_blk)

lemma length_blk_full: "(i + 1) * 2 ^ s \<le> length xs \<Longrightarrow> length (blk xs s i) = 2 ^ s"
  by (simp add: blk_def)

lemma bh_whole: "length xs \<le> 2 ^ s \<Longrightarrow> bh sha xs s 0 = tree_hash (tree_of sha xs)"
  by (simp add: bh_def blk_def)

lemma climb_new_sound:
  assumes "sha256_sized sha" and "\<not> collision sha" and "xs \<noteq> []"
    and "climb_new sha (last_node (length xs) s) proofs nh = Some (tree_hash (tree_of sha xs))"
    and "length nh = HASHBYTES"
  shows "nh = bh sha xs s 0"
  using assms(4,5)
proof (induction proofs arbitrary: s nh)
  case Nil
  with assms(3) last_node_bounds(2) [of "length xs" s] show ?case
    by (simp add: climb_new.simps [of _ "last_node (length xs) s"] bh_whole split: if_splits)
next
  case (Cons p rest)
  have pos: "0 < length xs" using assms(3) by simp
  show ?case
  proof (cases "last_node (length xs) s = 0")
    case True
    with Cons.prems last_node_bounds(2) [OF pos, of s] show ?thesis
      by (simp add: climb_new.simps [of _ 0] bh_whole)
  next
    case False
    then have "climb_new sha (last_node (length xs) (Suc s)) rest (hash_nodes sha nh p) =
        Some (tree_hash (tree_of sha xs))"
      using Cons.prems(1)
      by (simp add: climb_new.simps [of _ "last_node (length xs) s"] last_node_Suc)
    from Cons.IH [OF this] have "hash_nodes sha nh p = bh sha xs (Suc s) 0"
      using assms(1) by simp
    moreover have "bh sha xs (Suc s) 0 = hash_nodes sha (bh sha xs s 0) (bh sha xs s 1)"
      using bh_join_even [of 0 s xs sha] next_block_exists [OF pos, of 0 s] False by simp
    moreover have "length nh = length (bh sha xs s 0)"
      using assms(1,3) Cons.prems(2) by simp
    ultimately show ?thesis using hash_nodes_inj assms(2) by metis
  qed
qed

text \<open>
  What the hashes at level \<open>s\<close> have to be, given that both loops end in the two root hashes:
  the node hash carried for the new tree (once it is a digest) is that of the new ledger's
  block, the one carried for the old tree that of the local ledger's last block, and the
  ledgers agree before that block.
\<close>

definition blocks_agree ::
    "(bytes \<Rightarrow> bytes) \<Rightarrow> bytes list \<Rightarrow> bytes list \<Rightarrow> nat \<Rightarrow> nat \<Rightarrow> bytes \<Rightarrow> bytes \<Rightarrow> bool" where
  "blocks_agree sha vs ws s i oh nh \<longleftrightarrow>
     (length nh = HASHBYTES \<longrightarrow> oh = bh sha vs s i \<and> nh = bh sha ws s i) \<and>
     (oh = nh \<longrightarrow> bh sha vs s i = bh sha ws s i) \<and>
     take (i * 2 ^ s) vs = take (i * 2 ^ s) ws"

lemma blocks_agree_base:
  assumes "sha256_sized sha" and "vs \<noteq> []" and "oh = bh sha vs s 0"
    and "length nh = HASHBYTES \<Longrightarrow> nh = bh sha ws s 0"
  shows "blocks_agree sha vs ws s 0 oh nh"
  using assms by (auto simp: blocks_agree_def)

lemma blocks_agree_even:
  assumes "sha256_sized sha" and "\<not> collision sha" and "even i" and "i * 2 ^ s < length vs"
    and "length vs \<le> (i + 1) * 2 ^ s" and "(i + 1) * 2 ^ s < length ws"
    and "blocks_agree sha vs ws (Suc s) (i div 2) oh (hash_nodes sha nh p)"
  shows "blocks_agree sha vs ws s i oh nh"
proof -
  have i: "i div 2 * 2 ^ Suc s = i * 2 ^ s" using assms(3) by (auto elim!: evenE)
  have oh: "oh = bh sha vs s i"
    and nh: "hash_nodes sha nh p = hash_nodes sha (bh sha ws s i) (bh sha ws s (i + 1))"
    and take: "take (i * 2 ^ s) vs = take (i * 2 ^ s) ws"
    using assms(1,7) blk_promote [OF assms(3,5)] bh_join_even [OF assms(3,6), of sha]
    by (auto simp: blocks_agree_def bh_def i simp del: power_Suc)
  have "length (bh sha ws s i) = HASHBYTES" using assms(1,6) by simp
  with nh hash_nodes_inj assms(2)
  have "length nh = HASHBYTES \<Longrightarrow> nh = bh sha ws s i" by metis
  moreover have "length oh = HASHBYTES" using oh assms(1,4) by simp
  ultimately show ?thesis using oh take by (auto simp: blocks_agree_def)
qed

lemma blocks_agree_same:
  assumes "even i" and "length vs \<le> (i + 1) * 2 ^ s" and "length ws \<le> (i + 1) * 2 ^ s"
    and "blocks_agree sha vs ws (Suc s) (i div 2) oh nh"
  shows "blocks_agree sha vs ws s i oh nh"
proof -
  have i: "i div 2 * 2 ^ Suc s = i * 2 ^ s" using assms(1) by (auto elim!: evenE)
  show ?thesis using assms(4) blk_promote [OF assms(1,2)] blk_promote [OF assms(1,3)]
    by (simp add: blocks_agree_def bh_def i del: power_Suc)
qed

lemma blocks_agree_odd:
  assumes "sha256_sized sha" and "\<not> collision sha" and "odd i" and "i * 2 ^ s < length vs"
    and "i * 2 ^ s < length ws" and "oh = nh \<or> length nh = HASHBYTES"
    and "blocks_agree sha vs ws (Suc s) (i div 2) (hash_nodes sha p oh) (hash_nodes sha p nh)"
  shows "blocks_agree sha vs ws s i oh nh"
proof -
  obtain k where k: "i = 2 * k + 1" using assms(3) by (blast elim: oddE)
  have full: "(i - 1 + 1) * 2 ^ s \<le> length vs" "(i - 1 + 1) * 2 ^ s \<le> length ws"
    using assms(4,5) k by auto
  have len: "length (bh sha xs s j) = HASHBYTES" if "j \<le> i" "i * 2 ^ s < length xs" for j xs
  proof -
    have "j * 2 ^ s \<le> i * 2 ^ s" using that(1) by simp
    then have "j * 2 ^ s < length xs" using that(2) by linarith
    then show ?thesis using assms(1) by simp
  qed
  have oh: "hash_nodes sha p oh = hash_nodes sha (bh sha vs s (i - 1)) (bh sha vs s i)"
    and nh: "hash_nodes sha p nh = hash_nodes sha (bh sha ws s (i - 1)) (bh sha ws s i)"
    and take: "take ((i - 1) * 2 ^ s) vs = take ((i - 1) * 2 ^ s) ws"
    using assms(1,7) bh_join_odd [OF assms(3,4), of sha] bh_join_odd [OF assms(3,5), of sha]
    by (auto simp: blocks_agree_def k ac_simps)
  have dig: "p = bh sha ws s (i - 1) \<and> nh = bh sha ws s i \<and>
      p = bh sha vs s (i - 1) \<and> oh = bh sha vs s i" if "length nh = HASHBYTES"
    using hash_nodes_inj [OF nh] hash_nodes_inj [OF oh] that assms(2,4,5) len by simp
  have eq: "bh sha vs s (i - 1) = bh sha ws s (i - 1) \<and> bh sha vs s i = bh sha ws s i"
    if "oh = nh"
    using hash_nodes_inj [of sha "bh sha vs s (i - 1)" "bh sha vs s i" "bh sha ws s (i - 1)"
      "bh sha ws s i"] oh nh that assms(2,4,5) len by simp
  have "bh sha vs s (i - 1) = bh sha ws s (i - 1)" using dig eq assms(6) by auto
  then have "blk vs s (i - 1) = blk ws s (i - 1)"
    using assms(1,2) full k assms(4) length_blk_full [OF full(1)] length_blk_full [OF full(2)]
    by (intro bh_inj) auto
  from take_blk_extend [OF take this] k have "take (i * 2 ^ s) vs = take (i * 2 ^ s) ws" by simp
  with dig eq show ?thesis by (auto simp: blocks_agree_def)
qed

lemma climb_old_sound:
  assumes "sha256_sized sha" and "\<not> collision sha" and "vs \<noteq> []" and "length vs \<le> length ws"
    and "climb_old sha (last_node (length vs) s) (last_node (length ws) s) proofs oh nh =
      Some (new', proofs', oh', nh')"
    and "oh' = tree_hash (tree_of sha vs)"
    and "climb_new sha new' proofs' nh' = Some (tree_hash (tree_of sha ws))"
    and "oh = nh \<or> length nh = HASHBYTES"
  shows "blocks_agree sha vs ws s (last_node (length vs) s) oh nh"
  using assms(5,8)
proof (induction "last_node (length vs) s" arbitrary: s proofs oh nh rule: less_induct)
  case less
  let ?i = "last_node (length vs) s" and ?n = "last_node (length ws) s"
  have pos: "0 < length vs" "0 < length ws" using assms(3,4) by auto
  note unf = climb_old.simps [of sha ?i ?n proofs oh nh]
  note bv = last_node_bounds [OF pos(1), of s] and bw = last_node_bounds [OF pos(2), of s]
  have in_ws: "?i * 2 ^ s < length ws" using bv(1) assms(4) by linarith
  have le: "?i \<le> ?n" using assms(4) by (rule last_node_mono)
  have IH: "blocks_agree sha vs ws (Suc s) (?i div 2) oh1 nh1"
    if "?i \<noteq> 0" "oh1 = nh1 \<or> length nh1 = HASHBYTES"
      "climb_old sha (?i div 2) (?n div 2) ps oh1 nh1 = Some (new', proofs', oh', nh')"
    for ps oh1 nh1
    using less.hyps [of "Suc s" ps oh1 nh1] that by (simp add: last_node_Suc [symmetric])
  consider (base) "?i = 0" | (odd) "odd ?i" | (right) "?i \<noteq> 0" "even ?i" "?i < ?n"
    | (same) "?i \<noteq> 0" "even ?i" "?i = ?n" using le by linarith
  then show ?case
  proof cases
    case base
    with less.prems(1) unf have fin: "new' = ?n" "proofs' = proofs" "oh' = oh" "nh' = nh" by auto
    have "oh = bh sha vs s 0" using base bv(2) assms(6) fin by (simp add: bh_whole)
    moreover have "nh = bh sha ws s 0" if "length nh = HASHBYTES"
      using climb_new_sound [of sha ws s proofs nh] assms(1,2,7) pos(2) fin that by auto
    ultimately show ?thesis using blocks_agree_base [of sha vs oh s nh ws] assms(1,3) base by simp
  next
    case odd
    then have ne: "?i \<noteq> 0" by presburger
    obtain p ps where "climb_old sha (?i div 2) (?n div 2) ps (hash_nodes sha p oh)
        (hash_nodes sha p nh) = Some (new', proofs', oh', nh')"
      using less.prems(1) odd unf by (auto split: list.splits if_splits)
    from IH [OF ne _ this] assms(1)
      blocks_agree_odd [OF assms(1,2) odd bv(1) in_ws less.prems(2), of p]
    show ?thesis by simp
  next
    case right
    obtain p ps where "climb_old sha (?i div 2) (?n div 2) ps oh (hash_nodes sha nh p) =
        Some (new', proofs', oh', nh')"
      using less.prems(1) right unf by (auto split: list.splits if_splits)
    from IH [OF right(1) _ this] assms(1)
      blocks_agree_even [OF assms(1,2) right(2) bv next_block_exists [OF pos(2) right(3)]]
    show ?thesis by simp
  next
    case same
    have "climb_old sha (?i div 2) (?n div 2) proofs oh nh = Some (new', proofs', oh', nh')"
      using less.prems(1) same unf by simp
    from IH [OF same(1) less.prems(2) this] blocks_agree_same [OF same(2) bv(2)] bw(2) same(3)
    show ?thesis by simp
  qed
qed

text \<open>Both loops from the level where the local ledger ends with a full block.\<close>

lemma climb_sound:
  assumes "sha256_sized sha" and "\<not> collision sha" and "vs \<noteq> []" and "length vs \<le> length ws"
    and "strip_odd (length vs - 1) (length ws - 1) = (old, new)"
    and "climb_old sha old new proofs h h = Some (new', proofs', tree_hash (tree_of sha vs), nh')"
    and "climb_new sha new' proofs' nh' = Some (tree_hash (tree_of sha ws))"
  shows "vs = take (length vs) ws"
proof -
  have l0: "last_node n 0 = n - 1" for n by (simp add: last_node_def)
  obtain t where t: "old = last_node (length vs) t" "new = last_node (length ws) t"
    "length vs = (old + 1) * 2 ^ t"
    using strip_odd_last_node [of "length vs" 0 "length ws" old new] assms(3,5)
    unfolding l0 by (auto simp del: mult_Suc)
  have agree: "blocks_agree sha vs ws t old h h"
    using climb_old_sound [OF assms(1-4) _ refl assms(7), of t proofs h h] assms(6)
    by (simp add: t(1,2))
  have len: "length (blk vs t old) = 2 ^ t" "length (blk ws t old) = 2 ^ t"
    using t(3) assms(4) by (simp_all add: length_blk_full)
  have "old * 2 ^ t < length vs" using t(3) by simp
  with agree len assms(1,2) have "blk vs t old = blk ws t old"
    by (intro bh_inj) (auto simp: blocks_agree_def)
  with agree have "take ((old + 1) * 2 ^ t) vs = take ((old + 1) * 2 ^ t) ws"
    by (intro take_blk_extend) (simp_all add: blocks_agree_def)
  then have "take (length vs) vs = take (length vs) ws" by (simp only: t(3) [symmetric])
  then show ?thesis by simp
qed

lemma consistency_proof_sound_aux:
  assumes "from_vec sha vs = Ok mt" and "from_vec sha ws = Ok mt'" and "sha256_sized sha"
    and "\<not> collision sha"
    and "consistency_proof sha mt (root_hash mt') (length ws) proof = Ok True"
  shows "vs = take (length vs) ws"
proof (cases "vs = []")
  case False
  then have mt: "mt_count mt = length vs" "root_hash mt = tree_hash (tree_of sha vs)"
    using assms(1) by (auto simp: from_vec_eq root_hash_def)
  have le: "length vs \<le> length ws"
    using assms(5) False mt(1) by (auto simp: consistency_proof_def split: if_splits)
  with False have "ws \<noteq> []" by auto
  then have mt': "root_hash mt' = tree_hash (tree_of sha ws)"
    using assms(2) by (auto simp: from_vec_eq root_hash_def)
  show ?thesis
  proof (cases "length vs = length ws \<and> root_hash mt = root_hash mt'")
    case True
    with tree_of_hash_inj [OF False assms(3) _ _ assms(4), of ws] mt mt' show ?thesis by simp
  next
    case ne: False
    obtain old new where so: "strip_odd (length vs - 1) (length ws - 1) = (old, new)"
      by (cases "strip_odd (length vs - 1) (length ws - 1)")
    obtain h proofs new' proofs' nh' where
      "climb_old sha old new proofs h h = Some (new', proofs', tree_hash (tree_of sha vs), nh')"
      and "climb_new sha new' proofs' nh' = Some (tree_hash (tree_of sha ws))"
      using assms(5) False ne le mt mt' so
      by (auto simp: consistency_proof_def split: if_splits option.splits list.splits)
    with climb_sound [OF assms(3,4) False le so] show ?thesis by blast
  qed
qed simp

section \<open>Completeness\<close>

text \<open>
  The proof an honest node sends: at each level the sibling the client's loops ask for,
  taken from the new ledger. The recursion follows the index of the level's last node.
\<close>

fun honest_new :: "(bytes \<Rightarrow> bytes) \<Rightarrow> bytes list \<Rightarrow> nat \<Rightarrow> nat \<Rightarrow> bytes list" where
  "honest_new sha ws s new =
     (if new = 0 then [] else bh sha ws s 1 # honest_new sha ws (Suc s) (new div 2))"

fun honest_old :: "(bytes \<Rightarrow> bytes) \<Rightarrow> bytes list \<Rightarrow> nat \<Rightarrow> nat \<Rightarrow> nat \<Rightarrow> bytes list" where
  "honest_old sha ws s old new =
     (if old = 0 then honest_new sha ws s new
      else if odd old then bh sha ws s (old - 1) # honest_old sha ws (Suc s) (old div 2) (new div 2)
      else if old < new
        then bh sha ws s (old + 1) # honest_old sha ws (Suc s) (old div 2) (new div 2)
      else honest_old sha ws (Suc s) (old div 2) (new div 2))"

declare honest_new.simps [simp del] honest_old.simps [simp del]

lemma climb_new_honest:
  assumes "xs \<noteq> []"
  shows "climb_new sha (last_node (length xs) s) (honest_new sha xs s (last_node (length xs) s))
     (bh sha xs s 0) = Some (tree_hash (tree_of sha xs))"
proof (induction "last_node (length xs) s" arbitrary: s rule: less_induct)
  case less
  have pos: "0 < length xs" using assms by simp
  show ?case
  proof (cases "last_node (length xs) s = 0")
    case True
    with last_node_bounds(2) [OF pos, of s] show ?thesis
      by (simp add: climb_new.simps [of _ 0] bh_whole)
  next
    case False
    moreover have "bh sha xs (Suc s) 0 = hash_nodes sha (bh sha xs s 0) (bh sha xs s 1)"
      using bh_join_even [of 0 s xs sha] next_block_exists [OF pos, of 0 s] False by simp
    ultimately show ?thesis using less.hyps [of "Suc s"]
      by (simp add: climb_new.simps [of _ "last_node (length xs) s"]
          honest_new.simps [of _ _ _ "last_node (length xs) s"] last_node_Suc [symmetric])
  qed
qed

lemma bh_prefix_eq:
  assumes "vs = take (length vs) ws" and "(i + 1) * 2 ^ s \<le> length vs"
  shows "bh sha ws s i = bh sha vs s i"
proof -
  have "blk vs s i = take (2 ^ s) (drop (i * 2 ^ s) (take (length vs) ws))"
    using assms(1) by (simp add: blk_def)
  also have "\<dots> = blk ws s i" using assms(2) by (simp add: blk_def drop_take)
  finally show ?thesis by (simp add: bh_def)
qed

lemma climb_old_honest:
  assumes "vs \<noteq> []" and "vs = take (length vs) ws"
  shows "\<exists>new' proofs' nh'.
    climb_old sha (last_node (length vs) s) (last_node (length ws) s)
      (honest_old sha ws s (last_node (length vs) s) (last_node (length ws) s))
      (bh sha vs s (last_node (length vs) s)) (bh sha ws s (last_node (length vs) s)) =
      Some (new', proofs', tree_hash (tree_of sha vs), nh') \<and>
    climb_new sha new' proofs' nh' = Some (tree_hash (tree_of sha ws))"
proof (induction "last_node (length vs) s" arbitrary: s rule: less_induct)
  case less
  let ?i = "last_node (length vs) s" and ?n = "last_node (length ws) s"
  have le: "length vs \<le> length ws" using assms(2) by (metis length_take min.cobounded2 nat_le_linear take_all)
  have pos: "0 < length vs" "0 < length ws" using assms(1) le by auto
  note unf = climb_old.simps [of sha ?i ?n] honest_old.simps [of sha ws s ?i ?n]
  note bv = last_node_bounds [OF pos(1), of s] and bw = last_node_bounds [OF pos(2), of s]
  have in_ws: "?i * 2 ^ s < length ws" using bv(1) le by linarith
  have n: "?i \<le> ?n" using le by (rule last_node_mono)
  have IH: ?case if "?i \<noteq> 0" and eq: "climb_old sha ?i ?n (honest_old sha ws s ?i ?n)
      (bh sha vs s ?i) (bh sha ws s ?i) = climb_old sha (?i div 2) (?n div 2)
        (honest_old sha ws (Suc s) (?i div 2) (?n div 2))
        (bh sha vs (Suc s) (?i div 2)) (bh sha ws (Suc s) (?i div 2))"
    unfolding eq using less.hyps [of "Suc s"] that(1) by (simp add: last_node_Suc [symmetric])
  consider (base) "?i = 0" | (odd) "odd ?i" | (right) "?i \<noteq> 0" "even ?i" "?i < ?n"
    | (same) "?i \<noteq> 0" "even ?i" "?i = ?n" using n by linarith
  then show ?case
  proof cases
    case base
    with bv(2) climb_new_honest [of ws sha s] pos(2) unf show ?thesis by (simp add: bh_whole)
  next
    case odd
    then have ne: "?i \<noteq> 0" by presburger
    then have "bh sha ws s (?i - 1) = bh sha vs s (?i - 1)"
      using bv(1) by (intro bh_prefix_eq [OF assms(2)]) simp
    with odd ne bh_join_odd [OF odd bv(1), of sha] bh_join_odd [OF odd in_ws, of sha] show ?thesis
      by (intro IH) (simp_all add: unf flip: odd_iff_mod_2_eq_one even_iff_mod_2_eq_zero)
  next
    case right
    with bh_join_even [OF right(2) next_block_exists [OF pos(2) right(3)], of sha]
      blk_promote [OF right(2) bv(2)] show ?thesis
      by (intro IH) (simp_all add: unf bh_def)
  next
    case same
    then have "blk ws (Suc s) (?i div 2) = blk ws s ?i"
      using bw(2) by (intro blk_promote) auto
    moreover note blk_promote [OF same(2) bv(2)]
    moreover have "\<not> ?i < ?n" using same(3) by simp
    ultimately show ?thesis using same(1,2)
      by (intro IH) (simp_all add: unf bh_def flip: even_iff_mod_2_eq_zero)
  qed
qed

section \<open>Properties\<close>



lemma consistency_proof_exists:
  assumes "from_vec sha vs = Ok mt" and "from_vec sha (vs @ new_txns) = Ok mt'"
  shows "\<exists>proof. consistency_proof sha mt (root_hash mt') (length (vs @ new_txns)) proof = Ok True"
proof (cases "vs = []")
  case True
  with assms(1) show ?thesis by (auto simp: from_vec_def mt_default_def consistency_proof_def)
next
  case False
  let ?ws = "vs @ new_txns"
  have mt: "mt_count mt = length vs" "root_hash mt = tree_hash (tree_of sha vs)"
    and mt': "root_hash mt' = tree_hash (tree_of sha ?ws)"
    using assms False by (auto simp: from_vec_eq root_hash_def)
  have l0: "last_node n 0 = n - 1" for n by (simp add: last_node_def)
  obtain old new where so: "strip_odd (length vs - 1) (length ?ws - 1) = (old, new)"
    by (cases "strip_odd (length vs - 1) (length ?ws - 1)")
  then obtain t where t: "old = last_node (length vs) t" "new = last_node (length ?ws) t"
    and full: "length vs = (old + 1) * 2 ^ t"
    using strip_odd_last_node [of "length vs" 0 "length ?ws" old new] False
    unfolding l0 by (auto simp del: mult_Suc)
  have start: "bh sha ?ws t old = bh sha vs t old"
    using full by (intro bh_prefix_eq) auto
  obtain new' proofs' nh' where
    "climb_old sha old new (honest_old sha ?ws t old new) (bh sha vs t old) (bh sha vs t old) =
      Some (new', proofs', tree_hash (tree_of sha vs), nh')"
    "climb_new sha new' proofs' nh' = Some (tree_hash (tree_of sha ?ws))"
    using climb_old_honest [of vs ?ws sha t] False start by (auto simp: t(1,2))
  moreover have "bh sha vs t old = root_hash mt" if "old = 0"
    using that full mt(2) by (simp add: bh_whole)
  ultimately have "consistency_proof sha mt (root_hash mt') (length ?ws)
      ((if old = 0 then [] else [bh sha vs t old]) @ honest_old sha ?ws t old new) = Ok True"
    using so False mt mt' by (cases "old = 0") (simp_all add: consistency_proof_def)
  then show ?thesis by blast
qed

text \<open>
  Completeness. For every genuine extension \<open>ws\<close> of the local ledger there is a proof
  that the check accepts, for every hash function.
\<close>

theorem consistency_proof_complete:
  assumes "from_vec sha vs = Ok mt" and "from_vec sha (vs @ new_txns) = Ok mt'"
  shows "\<exists>proof. consistency_proof sha mt (root_hash mt') (length (vs @ new_txns)) proof = Ok True"
  using assms by (rule consistency_proof_exists)

theorem consistency_proof_complete_witness:
  "\<exists>mt mt' proof. from_vec (\<lambda>x. x) [[1], [2]] = Ok mt \<and>
     from_vec (\<lambda>x. x) ([[1], [2]] @ [[4]]) = Ok mt' \<and>
     consistency_proof (\<lambda>x. x) mt (root_hash mt') (length ([[1], [2]] @ [[4 :: 8 word]])) proof = Ok True"
proof -
  obtain mt mt' where mt: "from_vec (\<lambda>x. x) [[1], [2]] = Ok mt"
    and mt': "from_vec (\<lambda>x. x) ([[1], [2]] @ [[4]]) = Ok mt'"
    using from_vec_total by blast
  from consistency_proof_complete [OF mt mt'] mt mt' show ?thesis by blast
qed

text \<open>
  The check never fails with an error and always returns; it panics (the \<open>assert!(false)\<close>
  of the source) exactly when the local tree is not empty and larger than the claimed size.
\<close>

theorem consistency_proof_panics_iff:
  "(consistency_proof sha mt new_root_hash new_size proof = Panic \<longleftrightarrow>
     mt_count mt \<noteq> 0 \<and> new_size < mt_count mt) \<and>
   (\<forall>e. consistency_proof sha mt new_root_hash new_size proof \<noteq> Err e)"
  by (auto simp: consistency_proof_def Let_def split: option.splits prod.splits)

end
