(* ===== verification/Rust_Std.thy ===== *)
theory Rust_Std
  imports Indy_Prelude
begin

text \<open>
  The parts of Rust's standard library that the sources call: UTF-8 validation, decimal
  printing and parsing of \<open>u64\<close>, \<open>next_power_of_two\<close> and \<open>binary_search_by_key\<close>.
\<close>

section \<open>UTF-8\<close>

definition utf8_cont :: "nat \<Rightarrow> bool" where
  "utf8_cont b \<longleftrightarrow> 0x80 \<le> b \<and> b \<le> 0xBF"

fun utf8_valid :: "nat list \<Rightarrow> bool" where
  "utf8_valid [] = True"
| "utf8_valid (a # rest) =
     (if a < 0x80 then utf8_valid rest
      else (case rest of
              [] \<Rightarrow> False
            | b # rest1 \<Rightarrow>
                if 0xC2 \<le> a \<and> a \<le> 0xDF then utf8_cont b \<and> utf8_valid rest1
                else (case rest1 of
                        [] \<Rightarrow> False
                      | c # rest2 \<Rightarrow>
                          if 0xE0 \<le> a \<and> a \<le> 0xEF then
                            (if a = 0xE0 then 0xA0 \<le> b \<and> b \<le> 0xBF
                             else if a = 0xED then 0x80 \<le> b \<and> b \<le> 0x9F
                             else utf8_cont b) \<and> utf8_cont c \<and> utf8_valid rest2
                          else (case rest2 of
                                  [] \<Rightarrow> False
                                | d # rest3 \<Rightarrow>
                                    0xF0 \<le> a \<and> a \<le> 0xF4 \<and>
                                    (if a = 0xF0 then 0x90 \<le> b \<and> b \<le> 0xBF
                                     else if a = 0xF4 then 0x80 \<le> b \<and> b \<le> 0x8F
                                     else utf8_cont b) \<and>
                                    utf8_cont c \<and> utf8_cont d \<and> utf8_valid rest3))))"

definition from_utf8 :: "bytes \<Rightarrow> string option" where
  "from_utf8 bs = (if utf8_valid (map unat bs) then Some (map (\<lambda>b. char_of (unat b)) bs) else None)"

lemma unat_of_char [simp]: "unat (of_char c :: 8 word) = of_char c"
proof -
  have "(of_char c :: 8 word) = of_nat (of_char c)" by (simp only: of_nat_of_char)
  then show ?thesis by (simp only: unat_of_nat) simp
qed

lemma from_utf8_ascii:
  assumes "list_all (\<lambda>c. of_char c < (128 :: nat)) s"
  shows "from_utf8 (str_bytes s) = Some s"
proof -
  have "list_all (\<lambda>b. b < 128) bs \<Longrightarrow> utf8_valid bs" for bs by (induction bs) auto
  with assms show ?thesis
    by (auto simp: from_utf8_def str_bytes_def list_all_iff intro!: map_idI)
qed

section \<open>Decimal numbers\<close>

fun show_nat :: "nat \<Rightarrow> string" where
  "show_nat n =
     (if n < 10 then [char_of (48 + n)] else show_nat (n div 10) @ [char_of (48 + n mod 10)])"

declare show_nat.simps [simp del]

definition digit_of :: "char \<Rightarrow> nat option" where
  "digit_of c = (let n = of_char c :: nat in if 48 \<le> n \<and> n \<le> 57 then Some (n - 48) else None)"

fun read_digits :: "nat \<Rightarrow> string \<Rightarrow> nat option" where
  "read_digits acc [] = Some acc"
| "read_digits acc (c # cs) =
     (case digit_of c of None \<Rightarrow> None | Some d \<Rightarrow> read_digits (10 * acc + d) cs)"

text \<open>\<open>str::parse::<u64>\<close>: an optional plus sign, at least one digit, no overflow.\<close>

definition parse_u64 :: "string \<Rightarrow> nat option" where
  "parse_u64 s =
     (let digits = (case s of c # cs \<Rightarrow> if c = CHR ''+'' then cs else s | [] \<Rightarrow> [])
      in if digits = [] then None
         else (case read_digits 0 digits of
                 Some n \<Rightarrow> if n < 2 ^ 64 then Some n else None
               | None \<Rightarrow> None))"

lemma digit_of_digit [simp]: "d < 10 \<Longrightarrow> digit_of (char_of (48 + d)) = Some d"
  by (simp add: digit_of_def of_char_of Let_def)

lemma read_digits_append:
  "read_digits acc (s @ t) = Option.bind (read_digits acc s) (\<lambda>a. read_digits a t)"
  by (induction acc s rule: read_digits.induct) (auto split: option.split)

lemma read_show: "read_digits 0 (show_nat n) = Some n"
proof (induction n rule: show_nat.induct)
  case (1 n)
  then show ?case
    by (cases "n < 10") (simp_all add: show_nat.simps [of n] read_digits_append)
qed

lemma show_nat_hd: "\<exists>(d :: nat) cs. show_nat n = char_of (48 + d) # cs \<and> d < 10"
proof (induction n rule: show_nat.induct)
  case (1 n)
  then show ?case
  proof (cases "n < 10")
    case True
    then show ?thesis by (subst show_nat.simps) (auto intro!: exI [of _ n])
  next
    case False
    with 1 obtain d :: nat and cs where "show_nat (n div 10) = char_of (48 + d) # cs" "d < 10" by blast
    with False show ?thesis by (subst show_nat.simps) (auto intro!: exI [of _ d])
  qed
qed

lemma parse_show_u64:
  assumes "n < 2 ^ 64"
  shows "parse_u64 (show_nat n) = Some n"
proof -
  obtain d :: nat and cs where d: "show_nat n = char_of (48 + d) # cs" "d < 10" using show_nat_hd by blast
  have "char_of (48 + d) \<noteq> CHR ''+''"
  proof
    assume "char_of (48 + d) = CHR ''+''"
    then have "of_char (char_of (48 + d) :: char) = (of_char CHR ''+'' :: nat)" by simp
    with d(2) show False by (simp add: of_char_of)
  qed
  with d(1) read_show [of n] assms show ?thesis by (simp add: parse_u64_def)
qed

section \<open>Powers of two\<close>

text \<open>The least power of two that is at least \<open>n\<close>; the second argument is the candidate.\<close>

function pow2_from :: "nat \<Rightarrow> nat \<Rightarrow> nat" where
  "pow2_from n p = (if n \<le> p \<or> p = 0 then p else pow2_from n (2 * p))"
  by pat_completeness auto
termination
  by (relation "measure (\<lambda>(n, p). n - p)") auto

declare pow2_from.simps [simp del]

text \<open>\<open>u64::next_power_of_two\<close>: above \<open>2^63\<close> it panics with overflow checks and is 0 without.\<close>

definition next_power_of_two :: "bool \<Rightarrow> nat \<Rightarrow> nat outcome" where
  "next_power_of_two checks n =
     (if n \<le> 2 ^ 63 then Ok (pow2_from n 1) else if checks then Panic else Ok 0)"

lemma pow2_from_power: "2 ^ j < n \<Longrightarrow> n \<le> 2 ^ Suc j \<Longrightarrow> i \<le> Suc j \<Longrightarrow> pow2_from n (2 ^ i) = 2 ^ Suc j"
proof (induction "Suc j - i" arbitrary: i)
  case 0
  then show ?case by (simp add: pow2_from.simps [of n] le_antisym)
next
  case (Suc k)
  then have "i \<le> j" by simp
  then have "(2 :: nat) ^ i \<le> 2 ^ j" by simp
  with Suc.prems(1) have "\<not> n \<le> 2 ^ i" by linarith
  moreover have "pow2_from n (2 ^ Suc i) = 2 ^ Suc j" using Suc by (intro Suc.hyps) auto
  ultimately show ?case by (simp add: pow2_from.simps [of n "2 ^ i"])
qed

lemma next_power_of_two_half:
  "2 ^ j < n \<Longrightarrow> n \<le> 2 ^ Suc j \<Longrightarrow> n \<le> 2 ^ 63 \<Longrightarrow> next_power_of_two checks n = Ok (2 ^ Suc j)"
  using pow2_from_power [of j n 0] by (simp add: next_power_of_two_def)

section \<open>Binary search\<close>

text \<open>
  \<open>slice::binary_search_by_key\<close> on the list of keys, with the halving loop of the standard
  library: \<open>Inl i\<close> is \<open>Ok(i)\<close>, \<open>Inr i\<close> is \<open>Err(i)\<close>.
\<close>

function bsearch_loop :: "nat list \<Rightarrow> nat \<Rightarrow> nat \<Rightarrow> nat \<Rightarrow> nat" where
  "bsearch_loop keys k base sz =
     (if sz \<le> 1 then base
      else let half = sz div 2; mid = base + half
           in bsearch_loop keys k (if k < keys ! mid then base else mid) (sz - half))"
  by pat_completeness auto
termination
  by (relation "measure (\<lambda>(keys, k, base, sz). sz)") auto

declare bsearch_loop.simps [simp del]

definition binary_search :: "nat list \<Rightarrow> nat \<Rightarrow> nat + nat" where
  "binary_search keys k =
     (if keys = [] then Inr 0
      else let base = bsearch_loop keys k 0 (length keys)
           in if keys ! base = k then Inl base
              else Inr (base + (if keys ! base < k then 1 else 0)))"

lemma bsearch_loop_inv:
  assumes "sorted keys" and "base + sz \<le> length keys" and "0 < sz"
    and "\<forall>i < base. keys ! i \<le> k" and "base = 0 \<or> keys ! base \<le> k"
    and "\<forall>i < length keys. base + sz \<le> i \<longrightarrow> k < keys ! i"
  shows "let b = bsearch_loop keys k base sz in
     b < length keys \<and> (\<forall>i < b. keys ! i \<le> k) \<and> (b = 0 \<or> keys ! b \<le> k) \<and>
     (\<forall>i < length keys. b < i \<longrightarrow> k < keys ! i)"
  using assms
proof (induction keys k base sz rule: bsearch_loop.induct)
  case (1 keys k base sz)
  show ?case
  proof (cases "sz \<le> 1")
    case True
    with "1.prems" show ?thesis by (auto simp: bsearch_loop.simps [of keys k base sz])
  next
    case False
    let ?mid = "base + sz div 2"
    have mid: "?mid < length keys" using "1.prems"(2) False by linarith
    have le: "keys ! i \<le> keys ! j" if "i \<le> j" "j < length keys" for i j
      using "1.prems"(1) that by (simp add: sorted_nth_mono)
    have lo: "\<forall>i < (if k < keys ! ?mid then base else ?mid). keys ! i \<le> k"
    proof (intro allI impI)
      fix i assume "i < (if k < keys ! ?mid then base else ?mid)"
      then show "keys ! i \<le> k"
        using "1.prems"(4) le [of i ?mid] mid by (auto split: if_splits intro: order_trans)
    qed
    have hi: "\<forall>i < length keys. (if k < keys ! ?mid then base else ?mid) + (sz - sz div 2) \<le> i \<longrightarrow>
        k < keys ! i"
    proof (intro allI impI)
      fix i assume i: "i < length keys" "(if k < keys ! ?mid then base else ?mid) + (sz - sz div 2) \<le> i"
      show "k < keys ! i"
      proof (cases "k < keys ! ?mid")
        case True
        with i have "base + (sz - sz div 2) \<le> i" by simp
        then have "?mid \<le> i" by presburger
        with le [of ?mid i] i True show ?thesis by simp
      next
        case False
        with i have "base + sz \<le> i" by simp
        with "1.prems"(6) i show ?thesis by blast
      qed
    qed
    have "(if k < keys ! ?mid then base else ?mid) + (sz - sz div 2) \<le> length keys"
      "0 < sz - sz div 2"
      using "1.prems"(2) False by auto
    moreover have "(if k < keys ! ?mid then base else ?mid) = 0 \<or>
        keys ! (if k < keys ! ?mid then base else ?mid) \<le> k"
      using "1.prems"(5) by auto
    ultimately show ?thesis using "1.IH" [OF False refl refl "1.prems"(1) _ _ lo _ hi] False
      by (simp add: bsearch_loop.simps [of keys k base sz] Let_def)
  qed
qed


lemma filter_split_nth:
  assumes "n \<le> length xs" and "\<forall>i < n. P (xs ! i)" and "\<forall>i < length xs. n \<le> i \<longrightarrow> \<not> P (xs ! i)"
  shows "filter P xs = take n xs" and "filter (\<lambda>x. \<not> P x) xs = drop n xs"
proof -
  have t: "\<forall>x \<in> set (take n xs). P x" using assms(1,2) by (auto simp: in_set_conv_nth)
  have d: "\<forall>x \<in> set (drop n xs). \<not> P x" using assms(1,3) by (auto simp: in_set_conv_nth)
  have "filter P (take n xs @ drop n xs) = take n xs"
    "filter (\<lambda>x. \<not> P x) (take n xs @ drop n xs) = drop n xs"
    unfolding filter_append using t d by (auto simp: filter_id_conv filter_empty_conv)
  then show "filter P xs = take n xs" "filter (\<lambda>x. \<not> P x) xs = drop n xs" by simp_all
qed

text \<open>On strictly ascending keys the search finds a key that is there and otherwise the place
  where it would be: the index splits the list into the smaller keys and the others.\<close>

lemma binary_search_split:
  assumes "sorted_wrt (<) keys" and "binary_search keys k = r"
    and "n = (case r of Inl i \<Rightarrow> i | Inr i \<Rightarrow> i)"
  shows "n \<le> length keys" and "\<forall>i < n. keys ! i < k"
    and "\<forall>i < length keys. n \<le> i \<longrightarrow> \<not> keys ! i < k" and "(\<exists>i. r = Inl i) \<longleftrightarrow> k \<in> set keys"
proof -
  have lt: "keys ! i < keys ! j" if "i < j" "j < length keys" for i j
    using assms(1) that by (simp add: sorted_wrt_nth_less)
  have "n \<le> length keys \<and> (\<forall>i < n. keys ! i < k) \<and>
      (\<forall>i < length keys. n \<le> i \<longrightarrow> \<not> keys ! i < k) \<and> ((\<exists>i. r = Inl i) \<longleftrightarrow> k \<in> set keys)"
  proof (cases "keys = []")
    case True
    with assms(2,3) show ?thesis by (auto simp: binary_search_def)
  next
    case False
    define b where "b = bsearch_loop keys k 0 (length keys)"
    have "sorted keys" using assms(1) by (rule strict_sorted_imp_sorted)
    with bsearch_loop_inv [of keys 0 "length keys" k] False
    have b: "b < length keys" "\<forall>i < b. keys ! i \<le> k" "b = 0 \<or> keys ! b \<le> k"
      "\<forall>i < length keys. b < i \<longrightarrow> k < keys ! i"
      by (auto simp: b_def Let_def)
    have below: "keys ! i < k" if "i < b" for i
      using lt [OF that b(1)] b(3) that by auto
    consider (eq) "keys ! b = k" | (less) "keys ! b < k" | (gt) "k < keys ! b" by linarith
    then show ?thesis
    proof cases
      case eq
      then have "r = Inl b" "n = b" using assms(2,3) False by (auto simp: binary_search_def b_def Let_def)
      moreover have "\<not> keys ! i < k" if "i < length keys" "b \<le> i" for i
        using b(4) that eq by (cases "b = i") auto
      moreover have "k \<in> set keys" using eq b(1) by (metis nth_mem)
      ultimately show ?thesis using below b(1) by auto
    next
      case less
      then have r: "r = Inr (b + 1)" "n = b + 1"
        using assms(2,3) False by (auto simp: binary_search_def b_def Let_def)
      have lo: "keys ! i < k" if "i \<le> b" for i
        using lt [of i b] b(1) less that by (cases "i = b") (auto intro: less_trans)
      have hi: "k < keys ! i" if "i < length keys" "b < i" for i using b(4) that by blast
      have "k \<notin> set keys"
        using lo hi by (metis in_set_conv_nth less_irrefl not_less)
      with r lo hi b(1) show ?thesis by (auto simp: not_less less_imp_le)
    next
      case gt
      then have r: "r = Inr b" "n = b"
        using assms(2,3) False by (auto simp: binary_search_def b_def Let_def)
      have hi: "k < keys ! i" if "i < length keys" "b \<le> i" for i
        using b(4) that gt by (cases "b = i") auto
      have "k \<notin> set keys" using below gt hi
        by (metis in_set_conv_nth less_imp_le less_irrefl not_less)
      with r below gt hi b(1) show ?thesis by (auto simp: not_less less_imp_le)
    qed
  qed
  then show "n \<le> length keys" "\<forall>i < n. keys ! i < k"
    "\<forall>i < length keys. n \<le> i \<longrightarrow> \<not> keys ! i < k" "(\<exists>i. r = Inl i) \<longleftrightarrow> k \<in> set keys"
    by blast+
qed

end
