(* ===== verification/Patricia_Trie.thy ===== *)
theory Patricia_Trie
  imports Crypto_Hash Rust_Std
begin

unbundle bit_operations_syntax

text \<open>
  The Patricia Merkle trie of a state proof (\<open>libindy/src/services/pool/state_proof/node.rs\<close>).

  RLP and SHA3 are third-party crates: an RLP item is the tree the crate's \<open>UntrustedRlp\<close>
  presents (\<open>Data\<close> or \<open>List\<close>), and the byte encoding of items (\<open>rlp_encode\<close>, \<open>rlp_decode\<close>)
  and the digest \<open>sha3\<close> are parameters. The encoding and decoding of trie nodes to items is the
  repository's own code and is modelled.

  The traversals follow \<open>Hash\<close> nodes through the node database. Nothing in the code bounds the
  number of hops, so the traversals take fuel, one unit per hop, and return \<open>None\<close> when it is
  used up (the program's stack is); \<open>get_node_fuel\<close> shows when a bound suffices.

  The main result is binding: two node sets cannot show different values for one key under one
  root hash, unless SHA3 has a collision.
\<close>

section \<open>Nodes\<close>

datatype Node =
    Node_Leaf bytes bytes
  | Node_Extension bytes Node
  | Node_Full "Node option list" "bytes option"
  | Node_Hash bytes
  | Node_Blank

definition RADIX :: nat where "RADIX = 16"
definition HASH_SIZE :: nat where "HASH_SIZE = 32"
definition IS_LEAF_MASK :: "8 word" where "IS_LEAF_MASK = 0x20"
definition IS_PATH_ODD_MASK :: "8 word" where "IS_PATH_ODD_MASK = 0x10"

section \<open>RLP\<close>

datatype rlp = Data bytes | List "rlp list"

fun rlp_append :: "Node \<Rightarrow> rlp" where
  "rlp_append (Node_Hash h) = Data h"
| "rlp_append (Node_Leaf path value) = List [Data path, Data value]"
| "rlp_append (Node_Extension path next) = List [Data path, rlp_append next]"
| "rlp_append (Node_Full nodes value) =
     List (map (\<lambda>n. case n of Some m \<Rightarrow> rlp_append m | None \<Rightarrow> Data []) nodes @
           [case value of Some v \<Rightarrow> Data v | None \<Rightarrow> Data []])"
| "rlp_append Node_Blank = Data []"

text \<open>\<open>as_val\<close> for \<open>Vec<u8>\<close>: a list where data is expected is a decoder error.\<close>

fun rlp_bytes :: "rlp \<Rightarrow> bytes outcome" where
  "rlp_bytes (Data d) = Ok d"
| "rlp_bytes (List xs) = Err InvalidStructure"

lemma size_list_take: "size_list f (take n xs) < Suc (size_list f xs)"
  by (induction xs arbitrary: n) (auto simp: take_Cons' intro: less_trans)

text \<open>
  \<open>Decodable for Node\<close>. A decoder error is \<open>Err InvalidStructure\<close>; \<open>path[0]\<close> on an empty path
  is an index out of range.
\<close>

function rlp_node :: "rlp \<Rightarrow> Node outcome" and rlp_children :: "rlp list \<Rightarrow> Node option list outcome" where
  "rlp_node (Data d) =
     (if length d = HASH_SIZE then Ok (Node_Hash d)
      else if d = [] then Ok Node_Blank
      else Err InvalidStructure)"
| "rlp_node (List items) =
     (case items of
        [a, b] \<Rightarrow>
          and_then (rlp_bytes a) (\<lambda>path.
            case path of
              [] \<Rightarrow> Panic
            | p # _ \<Rightarrow>
                if p AND IS_LEAF_MASK = IS_LEAF_MASK then
                  and_then (rlp_bytes b) (\<lambda>value. Ok (Node_Leaf path value))
                else if p AND IS_LEAF_MASK = 0 then
                  and_then (rlp_node b) (\<lambda>next. Ok (Node_Extension path next))
                else Err InvalidStructure)
      | _ \<Rightarrow>
          if length items = RADIX + 1 then
            and_then (rlp_children (take RADIX items)) (\<lambda>nodes.
              if items ! RADIX = Data [] \<or> items ! RADIX = List [] then Ok (Node_Full nodes None)
              else and_then (rlp_bytes (items ! RADIX)) (\<lambda>v. Ok (Node_Full nodes (Some v))))
          else Err InvalidStructure)"
| "rlp_children [] = Ok []"
| "rlp_children (cur # rest) =
     and_then
       (if cur = Data [] then Ok None else map_ok Some (rlp_node cur)) (\<lambda>n.
     and_then (rlp_children rest) (\<lambda>ns. Ok (n # ns)))"
  by pat_completeness auto
termination
  by (relation "measure (case_sum size (size_list size))")
    (simp_all (no_asm) add: size_list_take, simp)

declare rlp_node.simps [simp del] rlp_children.simps [simp del]

section \<open>Paths\<close>

definition path_to_nibbles :: "bytes \<Rightarrow> bytes" where
  "path_to_nibbles path = concat (map (\<lambda>s. [drop_bit 4 s, s AND 0x0F]) path)"

text \<open>\<open>nibbles[x + 1]\<close> is out of range for an odd number of nibbles.\<close>

fun nibbles_to_bytes :: "bytes \<Rightarrow> bytes outcome" where
  "nibbles_to_bytes [] = Ok []"
| "nibbles_to_bytes [x] = Panic"
| "nibbles_to_bytes (x # y # rest) =
     map_ok (\<lambda>bs. (push_bit 4 x + y) # bs) (nibbles_to_bytes rest)"

fun parse_path :: "bytes \<Rightarrow> (bool \<times> bytes) outcome" where
  "parse_path [] = Panic"
| "parse_path (p # rest) =
     Ok (p AND IS_LEAF_MASK = IS_LEAF_MASK,
         (if p AND IS_PATH_ODD_MASK = IS_PATH_ODD_MASK then [p AND 0x0F] else []) @
           path_to_nibbles rest)"

section \<open>Traversal\<close>

type_synonym TrieDB = "(bytes \<times> Node) list"

lemma size_node_child:
  "i < length nodes \<Longrightarrow> nodes ! i = Some next \<Longrightarrow> size next < Suc (size_list (size_option size) nodes)" for nodes :: "Node option list"
proof -
  assume "i < length nodes" "nodes ! i = Some next"
  then have "Some next \<in> set nodes" by (metis nth_mem)
  then have "size next \<le> size_list (size_option size) nodes"
    by (rule size_list_estimation') simp
  then show ?thesis by simp
qed

function (sequential) get_node ::
    "TrieDB \<Rightarrow> nat \<Rightarrow> Node \<Rightarrow> bytes \<Rightarrow> bytes \<Rightarrow> (Node \<times> bytes) option run" where
  "get_node db fuel (Node_Full nodes value) path seen_path =
     (case path of
        [] \<Rightarrow> Some (Ok (Some (Node_Full nodes value, seen_path)))
      | p # rest \<Rightarrow>
          if length nodes \<le> unat p then Some Panic
          else (case nodes ! unat p of
                  Some next \<Rightarrow> get_node db fuel next rest (seen_path @ [p])
                | None \<Rightarrow> Some (Ok None)))"
| "get_node db fuel (Node_Hash hash) path seen_path =
     (if length hash \<noteq> HASH_SIZE then Some Panic
      else (case fuel of
              0 \<Rightarrow> None
            | Suc fuel' \<Rightarrow>
                (case hm_get db hash of
                   Some next \<Rightarrow> get_node db fuel' next path seen_path
                 | None \<Rightarrow> Some (Err InvalidStructure))))"
| "get_node db fuel (Node_Leaf lpath value) path seen_path =
     run_then (Some (parse_path lpath)) (\<lambda>(is_leaf, pair_path).
       if \<not> is_leaf then Some (Err InvalidState)
       else if starts_with pair_path path
         then Some (Ok (Some (Node_Leaf lpath value, seen_path)))
       else Some (Ok None))"
| "get_node db fuel (Node_Extension epath next) path seen_path =
     run_then (Some (parse_path epath)) (\<lambda>(is_leaf, pair_path).
       if is_leaf then Some (Err InvalidState)
       else if starts_with path pair_path
         then get_node db fuel next (drop (length pair_path) path) (seen_path @ pair_path)
       else if starts_with pair_path path
         then Some (Ok (Some (Node_Extension epath next, seen_path)))
       else Some (Ok None))"
| "get_node db fuel Node_Blank path seen_path = Some (Ok None)"
  by pat_completeness auto
termination
  by (relation "measures [\<lambda>(db, fuel, n, p, s). fuel, \<lambda>(db, fuel, n, p, s). size n]")
    (auto intro: size_node_child simp: not_le)

definition get_value_node :: "TrieDB \<Rightarrow> nat \<Rightarrow> Node \<Rightarrow> bytes \<Rightarrow> bytes option run" where
  "get_value_node db fuel n path =
     run_then (get_node db fuel n path []) (\<lambda>r.
       case r of
         Some (Node_Full nodes value, _) \<Rightarrow> Some (Ok value)
       | Some (Node_Leaf lpath value, _) \<Rightarrow>
           run_then (Some (parse_path lpath)) (\<lambda>(is_leaf, _).
             if \<not> is_leaf then Some (Err InvalidState) else Some (Ok (Some value)))
       | _ \<Rightarrow> Some (Ok None))"

text \<open>The value of a node is itself RLP: a list with exactly one byte string. \<open>rlp_decode\<close> is
  the crate's reading of bytes as an item.\<close>

definition rlp_value_list :: "(bytes \<Rightarrow> rlp option) \<Rightarrow> bytes \<Rightarrow> bytes list" where
  "rlp_value_list rlp_decode v =
     (case rlp_decode v of
        Some (List items) \<Rightarrow>
          (case map_outcome_list rlp_bytes items of Ok vs \<Rightarrow> vs | _ \<Rightarrow> [])
      | _ \<Rightarrow> [])"

definition get_value :: "(bytes \<Rightarrow> rlp option) \<Rightarrow> TrieDB \<Rightarrow> nat \<Rightarrow> Node \<Rightarrow> bytes \<Rightarrow> bytes option run" where
  "get_value rlp_decode db fuel n path =
     run_then (get_value_node db fuel n (path_to_nibbles path)) (\<lambda>r.
       case r of
         None \<Rightarrow> Some (Ok None)
       | Some v \<Rightarrow>
           (case rlp_value_list rlp_decode v of
              [val] \<Rightarrow> Some (Ok (Some val))
            | _ \<Rightarrow> Some (Err InvalidStructure)))"

definition get_str_value ::
    "(bytes \<Rightarrow> rlp option) \<Rightarrow> TrieDB \<Rightarrow> nat \<Rightarrow> Node \<Rightarrow> bytes \<Rightarrow> string option run"
where
  "get_str_value rlp_decode db fuel n path =
     run_then (get_value rlp_decode db fuel n path) (\<lambda>r.
       case r of
         None \<Rightarrow> Some (Ok None)
       | Some v \<Rightarrow> Some (map_ok Some (ok_or InvalidStructure (from_utf8 v))))"

text \<open>
  \<open>_get_all_values\<close>; the loop of a full node over its sixteen children is the second function,
  which counts the nibble along.
\<close>

function (sequential) all_values ::
    "(bytes \<Rightarrow> rlp option) \<Rightarrow> TrieDB \<Rightarrow> nat \<Rightarrow> Node \<Rightarrow> bytes \<Rightarrow>
     (bytes \<times> string) list run"
  and all_children ::
    "(bytes \<Rightarrow> rlp option) \<Rightarrow> TrieDB \<Rightarrow> nat \<Rightarrow> Node option list \<Rightarrow>
     nat \<Rightarrow> bytes \<Rightarrow> (bytes \<times> string) list run"
where
  "all_values rlp_decode db fuel (Node_Full nodes value) prefix =
     run_then (all_children rlp_decode db fuel nodes 0 prefix) (\<lambda>res.
       case value of
         None \<Rightarrow> Some (Ok res)
       | Some v \<Rightarrow>
           (case rlp_value_list rlp_decode v of
              [val] \<Rightarrow>
                Some (map_ok (\<lambda>s. res @ [(prefix, s)]) (ok_or InvalidStructure (from_utf8 val)))
            | _ \<Rightarrow> Some (Ok res)))"
| "all_values rlp_decode db fuel (Node_Hash hash) prefix =
     (if length hash \<noteq> HASH_SIZE then Some Panic
      else (case fuel of
              0 \<Rightarrow> None
            | Suc fuel' \<Rightarrow>
                (case hm_get db hash of
                   Some next \<Rightarrow> all_values rlp_decode db fuel' next prefix
                 | None \<Rightarrow> Some (Err InvalidState))))"
| "all_values rlp_decode db fuel (Node_Leaf lpath value) prefix =
     run_then (Some (parse_path lpath)) (\<lambda>(is_leaf, pair_path).
       if \<not> is_leaf then Some (Err InvalidState)
       else (case rlp_value_list rlp_decode value of
               [val] \<Rightarrow>
                 Some (map_ok (\<lambda>s. [(prefix @ pair_path, s)]) (ok_or InvalidStructure (from_utf8 val)))
             | _ \<Rightarrow> Some (Err InvalidStructure)))"
| "all_values rlp_decode db fuel (Node_Extension epath next) prefix =
     run_then (Some (parse_path epath)) (\<lambda>(is_leaf, pair_path).
       if is_leaf then Some (Err InvalidState)
       else all_values rlp_decode db fuel next (prefix @ pair_path))"
| "all_values rlp_decode db fuel Node_Blank prefix = Some (Ok [])"
| "all_children rlp_decode db fuel [] nibble prefix = Some (Ok [])"
| "all_children rlp_decode db fuel (child # rest) nibble prefix =
     run_then
       (case child of
          Some next \<Rightarrow>
            all_values rlp_decode db fuel next (prefix @ [of_nat nibble])
        | None \<Rightarrow> Some (Ok [])) (\<lambda>sub_res.
     run_then (all_children rlp_decode db fuel rest (Suc nibble) prefix) (\<lambda>res.
       Some (Ok (sub_res @ res))))"
  by pat_completeness auto
termination
  by (relation "measures
      [case_sum (\<lambda>(d, db, fuel, n, p). fuel) (\<lambda>(d, db, fuel, ns, i, p). fuel),
       case_sum (\<lambda>(d, db, fuel, n, p). size n)
         (\<lambda>(d, db, fuel, ns, i, p). size_list (size_option size) ns)]") auto

definition nibbles_to_str :: "bytes \<Rightarrow> string outcome" where
  "nibbles_to_str nibbles =
     and_then (nibbles_to_bytes nibbles) (\<lambda>res. ok_or InvalidStructure (from_utf8 res))"

definition get_all_values ::
    "(bytes \<Rightarrow> rlp option) \<Rightarrow> TrieDB \<Rightarrow> nat \<Rightarrow> Node \<Rightarrow> bytes option \<Rightarrow>
     (string \<times> string) list run" where
  "get_all_values rlp_decode db fuel n prefix =
     run_then
       (case prefix of
          Some prf \<Rightarrow> get_node db fuel n (path_to_nibbles prf) []
        | None \<Rightarrow> Some (Ok (Some (n, [])))) (\<lambda>node_and_prefix.
     case node_and_prefix of
       None \<Rightarrow> Some (Ok [])
     | Some (node, prf) \<Rightarrow>
         run_then (all_values rlp_decode db fuel node prf) (\<lambda>vals.
           Some (map_outcome_list
             (\<lambda>(key, val). map_ok (\<lambda>k. (k, val)) (nibbles_to_str key)) vals)))"

section \<open>The node database\<close>

definition get_hash :: "(bytes \<Rightarrow> bytes) \<Rightarrow> (rlp \<Rightarrow> bytes) \<Rightarrow> Node \<Rightarrow> bytes" where
  "get_hash sha3 rlp_encode n = sha3 (rlp_encode (rlp_append n))"

text \<open>The nodes of a proof: a list item whose members all decode; anything else gives none.\<close>

definition proof_node_list :: "(bytes \<Rightarrow> rlp option) \<Rightarrow> bytes \<Rightarrow> Node list outcome" where
  "proof_node_list rlp_decode proofs_rlp =
     (case rlp_decode proofs_rlp of
        Some (List items) \<Rightarrow>
          (case map_outcome_list rlp_node items of
             Ok nodes \<Rightarrow> Ok nodes
           | Err e \<Rightarrow> Ok []
           | Panic \<Rightarrow> Panic)
      | _ \<Rightarrow> Ok [])"

definition trie_db :: "(bytes \<Rightarrow> bytes) \<Rightarrow> (rlp \<Rightarrow> bytes) \<Rightarrow> Node list \<Rightarrow> TrieDB" where
  "trie_db sha3 rlp_encode nodes =
     fold (\<lambda>node m. hm_insert m (get_hash sha3 rlp_encode node) node) nodes []"

section \<open>Canonical nodes\<close>

text \<open>The nodes that decoding produces. On them the encoding is injective.\<close>

fun canonical :: "Node \<Rightarrow> bool" where
  "canonical (Node_Leaf path value) \<longleftrightarrow>
     path \<noteq> [] \<and> hd path AND IS_LEAF_MASK = IS_LEAF_MASK"
| "canonical (Node_Extension path next) \<longleftrightarrow>
     path \<noteq> [] \<and> hd path AND IS_LEAF_MASK \<noteq> IS_LEAF_MASK \<and> hd path AND IS_LEAF_MASK = 0 \<and>
     canonical next"
| "canonical (Node_Full nodes value) \<longleftrightarrow>
     length nodes = RADIX \<and> value \<noteq> Some [] \<and>
     list_all (\<lambda>n. case n of None \<Rightarrow> True | Some m \<Rightarrow> m \<noteq> Node_Blank \<and> canonical m) nodes"
| "canonical (Node_Hash h) \<longleftrightarrow> length h = HASH_SIZE"
| "canonical Node_Blank \<longleftrightarrow> True"

lemma rlp_append_empty: "canonical n \<Longrightarrow> rlp_append n = Data [] \<longleftrightarrow> n = Node_Blank"
  by (cases n) (auto simp: HASH_SIZE_def)

lemma rlp_bytes_Ok_iff [simp]: "rlp_bytes r = Ok d \<longleftrightarrow> r = Data d"
  by (cases r) auto

lemma rlp_node_pair:
  "rlp_node (List [a, b]) =
     and_then (rlp_bytes a) (\<lambda>path.
       if path = [] then Panic
       else if hd path AND IS_LEAF_MASK = IS_LEAF_MASK then
         and_then (rlp_bytes b) (\<lambda>value. Ok (Node_Leaf path value))
       else if hd path AND IS_LEAF_MASK = 0 then
         and_then (rlp_node b) (\<lambda>next. Ok (Node_Extension path next))
       else Err InvalidStructure)"
  by (cases a) (auto simp: rlp_node.simps split: list.splits)

lemma rlp_node_List:
  assumes "length items \<noteq> 2"
  shows "rlp_node (List items) =
     (if length items = RADIX + 1 then
        and_then (rlp_children (take RADIX items)) (\<lambda>nodes.
          if items ! RADIX = Data [] \<or> items ! RADIX = List [] then Ok (Node_Full nodes None)
          else and_then (rlp_bytes (items ! RADIX)) (\<lambda>v. Ok (Node_Full nodes (Some v))))
      else Err InvalidStructure)"
  using assms by (auto simp: rlp_node.simps split: list.splits)

lemma rlp_node_ListE:
  assumes "rlp_node (List items) = Ok n"
  obtains (leaf) path v where "items = [Data path, Data v]" "path \<noteq> []"
      "hd path AND IS_LEAF_MASK = IS_LEAF_MASK" "n = Node_Leaf path v"
    | (ext) path b m where "items = [Data path, b]" "path \<noteq> []"
      "hd path AND IS_LEAF_MASK \<noteq> IS_LEAF_MASK" "hd path AND IS_LEAF_MASK = 0"
      "rlp_node b = Ok m" "n = Node_Extension path m"
    | (full) nodes v where "length items = RADIX + 1"
      "rlp_children (take RADIX items) = Ok nodes" "v \<noteq> Some []" "n = Node_Full nodes v"
proof (cases "length items = 2")
  case True
  then obtain a b where "items = [a, b]" by (auto simp: numeral_2_eq_2 length_Suc_conv)
  with assms that(1,2) show thesis by (auto simp: rlp_node_pair split: if_splits)
next
  case False
  with assms obtain nodes where nodes: "length items = RADIX + 1"
    "rlp_children (take RADIX items) = Ok nodes"
    and "n = Node_Full nodes None \<or> (\<exists>v. v \<noteq> [] \<and> n = Node_Full nodes (Some v))"
    by (auto simp: rlp_node_List split: if_splits)
  then show thesis using that(3) [OF nodes, of None] that(3) [OF nodes] by auto
qed

abbreviation canonical_child :: "Node option \<Rightarrow> bool" where
  "canonical_child n \<equiv> (case n of None \<Rightarrow> True | Some m \<Rightarrow> m \<noteq> Node_Blank \<and> canonical m)"

lemma rlp_node_Blank_iff: "rlp_node r = Ok Node_Blank \<longleftrightarrow> r = Data []"
  by (cases r) (auto simp: rlp_node.simps(1) HASH_SIZE_def elim: rlp_node_ListE)

definition rlp_child :: "rlp \<Rightarrow> Node option outcome" where
  "rlp_child cur = (if cur = Data [] then Ok None else map_ok Some (rlp_node cur))"

lemma rlp_children_eq: "rlp_children items = map_outcome_list rlp_child items"
  by (induction items) (auto simp: rlp_children.simps rlp_child_def)

lemma rlp_node_canonical: "rlp_node r = Ok n \<Longrightarrow> canonical n"
proof (induction r arbitrary: n)
  case (Data d)
  then show ?case by (auto simp: rlp_node.simps(1) split: if_splits)
next
  case (List items)
  from List.prems show ?case
  proof (cases rule: rlp_node_ListE)
    case (ext path b m)
    with List.IH [of b m] show ?thesis by simp
  next
    case (full nodes v)
    then have all: "list_all2 (\<lambda>x y. rlp_child x = Ok y) (take RADIX items) nodes"
      by (simp add: rlp_children_eq map_outcome_list_Ok_iff)
    have child: "canonical_child y" if "x \<in> set items" "rlp_child x = Ok y" for x y
      using that List.IH [of x] rlp_node_Blank_iff [of x]
      by (auto simp: rlp_child_def split: if_splits option.splits)
    have "canonical_child y" if "y \<in> set nodes" for y
      using list_all2_nthD2 [OF all] list_all2_lengthD [OF all] that child
      by (metis in_set_conv_nth in_set_takeD)
    with full list_all2_lengthD [OF all] show ?thesis by (simp add: list_all_iff)
  qed simp
qed

section \<open>Encoding and decoding\<close>

lemma rlp_node_append: "canonical n \<Longrightarrow> rlp_node (rlp_append n) = Ok n"
proof (induction n)
  case (Node_Leaf path v)
  then show ?case by (simp add: rlp_node_pair)
next
  case (Node_Extension path m)
  then show ?case by (auto simp: rlp_node_pair)
next
  case (Node_Full nodes v)
  let ?enc = "\<lambda>n. case n of Some m \<Rightarrow> rlp_append m | None \<Rightarrow> Data []"
  have "rlp_child (?enc n) = Ok n" if n: "n \<in> set nodes" for n
  proof (cases n)
    case (Some m)
    with n Node_Full.prems have "canonical m" "m \<noteq> Node_Blank" by (auto simp: list_all_iff)
    with Node_Full.IH [OF n, of m] Some show ?thesis by (simp add: rlp_child_def rlp_append_empty)
  qed (simp add: rlp_child_def)
  then have "rlp_children (map ?enc nodes) = Ok nodes"
    by (simp add: rlp_children_eq map_outcome_list_Ok_iff list_all2_conv_all_nth)
  with Node_Full.prems show ?case
    by (auto simp: rlp_node_List nth_append RADIX_def split: option.splits)
next
  case (Node_Hash h)
  then show ?case by (simp add: rlp_node.simps(1))
next
  case Node_Blank
  then show ?case by (simp add: rlp_node.simps(1) HASH_SIZE_def)
qed

lemma rlp_append_inj: "canonical n \<Longrightarrow> canonical m \<Longrightarrow> rlp_append n = rlp_append m \<Longrightarrow> n = m"
  by (metis outcome.inject(1) rlp_node_append)

section \<open>Binding\<close>

text \<open>A database whose entries are stored under their hashes.\<close>

definition db_ok :: "(bytes \<Rightarrow> bytes) \<Rightarrow> (rlp \<Rightarrow> bytes) \<Rightarrow> TrieDB \<Rightarrow> bool" where
  "db_ok sha3 rlp_encode db \<longleftrightarrow>
     (\<forall>h n. hm_get db h = Some n \<longrightarrow> canonical n \<and> get_hash sha3 rlp_encode n = h)"

lemma db_ok_insert:
  "db_ok sha3 rlp_encode db \<Longrightarrow> canonical n \<Longrightarrow>
     db_ok sha3 rlp_encode (hm_insert db (get_hash sha3 rlp_encode n) n)"
  by (simp add: db_ok_def hm_get_insert)

lemma db_ok_trie_db: "list_all canonical nodes \<Longrightarrow> db_ok sha3 rlp_encode (trie_db sha3 rlp_encode nodes)"
proof -
  have "db_ok sha3 rlp_encode m \<Longrightarrow> list_all canonical nodes \<Longrightarrow> db_ok sha3 rlp_encode
      (fold (\<lambda>node m. hm_insert m (get_hash sha3 rlp_encode node) node) nodes m)" for m
    by (induction nodes arbitrary: m) (auto intro: db_ok_insert)
  moreover have "db_ok sha3 rlp_encode []" by (simp add: db_ok_def)
  ultimately show "list_all canonical nodes \<Longrightarrow> ?thesis" by (simp add: trie_db_def)
qed

lemma db_ok_same_node:
  assumes "db_ok sha3 rlp_encode db" and "db_ok sha3 rlp_encode db'" and "inj rlp_encode"
    and "\<not> collision sha3" and "hm_get db h = Some n" and "hm_get db' h = Some m"
  shows "n = m"
proof -
  have "canonical n" "canonical m" "get_hash sha3 rlp_encode n = get_hash sha3 rlp_encode m"
    using assms(1,2,5,6) by (auto simp: db_ok_def)
  moreover from this assms(3,4) have "rlp_append n = rlp_append m"
    unfolding get_hash_def using collisionI [of sha3] injD by metis
  ultimately show ?thesis by (blast intro: rlp_append_inj)
qed

text \<open>Two databases lead a traversal from one node to the same result wherever both end
  without an error.\<close>

lemma get_node_agree:
  assumes "db_ok sha3 rlp_encode db" and "db_ok sha3 rlp_encode db'" and "inj rlp_encode"
    and "\<not> collision sha3"
    and "get_node db fuel n path seen = Some (Ok r)"
    and "get_node db' fuel' n path seen = Some (Ok r')"
  shows "r = r'"
  using assms(1,5,6)
proof (induction db fuel n path seen arbitrary: fuel' r r' rule: get_node.induct)
  case (1 db0 fuel nodes v path seen)
  then show ?case by (auto split: list.splits if_splits option.splits)
next
  case (2 db0 fuel hash path seen)
  then obtain k k' m m' where "fuel = Suc k" "fuel' = Suc k'"
    and m: "hm_get db0 hash = Some m" "hm_get db' hash = Some m'"
    and len: "\<not> length hash \<noteq> HASH_SIZE"
    and rec: "get_node db0 k m path seen = Some (Ok r)" "get_node db' k' m' path seen = Some (Ok r')"
    by (auto split: if_splits nat.splits option.splits)
  moreover from db_ok_same_node [OF "2.prems"(1) assms(2-4) m] have "m' = m" ..
  ultimately show ?case using "2.IH" "2.prems"(1) by blast
next
  case (4 db0 fuel epath m path seen)
  then show ?case by (auto split: if_splits)
qed (auto split: if_splits)

lemma get_str_value_agree:
  assumes "db_ok sha3 rlp_encode db" and "db_ok sha3 rlp_encode db'" and "inj rlp_encode"
    and "\<not> collision sha3"
    and "get_str_value rlp_decode db fuel n path = Some (Ok r)"
    and "get_str_value rlp_decode db' fuel' n path = Some (Ok r')"
  shows "r = r'"
proof -
  from assms(5) obtain x where x: "get_node db fuel n (path_to_nibbles path) [] = Some (Ok x)"
    by (auto simp: get_str_value_def get_value_def get_value_node_def)
  from assms(6) obtain y where y: "get_node db' fuel' n (path_to_nibbles path) [] = Some (Ok y)"
    by (auto simp: get_str_value_def get_value_def get_value_node_def)
  from get_node_agree [OF assms(1-4) x y] x y
  have "get_node db fuel n (path_to_nibbles path) [] = get_node db' fuel' n (path_to_nibbles path) []"
    by simp
  then have "get_str_value rlp_decode db fuel n path =
      get_str_value rlp_decode db' fuel' n path"
    by (simp only: get_str_value_def get_value_def get_value_node_def)
  with assms(5,6) show ?thesis by simp
qed

section \<open>Nibbles\<close>

lemma nibble_join: "push_bit 4 (drop_bit 4 s) + (s AND 0x0F) = (s :: 8 word)"
proof -
  have "(0x0F :: 8 word) = mask 4" by (simp add: mask_eq_exp_minus_1)
  then have "s AND 0x0F = take_bit 4 s" by (simp only: take_bit_eq_mask)
  then show ?thesis by (simp only: bits_ident)
qed

lemma nibbles_to_bytes_path: "nibbles_to_bytes (path_to_nibbles path) = Ok path"
  by (induction path) (simp_all add: path_to_nibbles_def nibble_join)

section \<open>Fuel\<close>

text \<open>The hashes that occur in a node.\<close>

fun node_hashes :: "Node \<Rightarrow> bytes set" where
  "node_hashes (Node_Hash h) = {h}"
| "node_hashes (Node_Extension p n) = node_hashes n"
| "node_hashes (Node_Full ns v) = (\<Union>n \<in> set ns. case n of None \<Rightarrow> {} | Some m \<Rightarrow> node_hashes m)"
| "node_hashes (Node_Leaf p v) = {}"
| "node_hashes Node_Blank = {}"

text \<open>A bound on the hash hops from a node: the database is acyclic when it has a rank.\<close>

definition ranked :: "TrieDB \<Rightarrow> (bytes \<Rightarrow> nat) \<Rightarrow> bool" where
  "ranked db rank \<longleftrightarrow>
     (\<forall>h n. hm_get db h = Some n \<longrightarrow> (\<forall>h' \<in> node_hashes n. rank h' < rank h))"

lemma get_node_fuel:
  assumes "ranked db rank" and "\<forall>h \<in> node_hashes n. rank h < fuel"
  shows "get_node db fuel n path seen \<noteq> None"
  using assms
proof (induction db fuel n path seen rule: get_node.induct)
  case (1 db fuel nodes v path seen)
  have hashes: "\<forall>h \<in> node_hashes m. rank h < fuel" if "m \<in> Some -` set nodes" for m
    using that "1.prems"(2) by fastforce
  show ?case
  proof (cases path)
    case (Cons p rest)
    show ?thesis
    proof (cases "length nodes \<le> unat p \<or> nodes ! unat p = None")
      case True
      with Cons show ?thesis by auto
    next
      case False
      then obtain m where m: "nodes ! unat p = Some m" "\<not> length nodes \<le> unat p" by auto
      then have "m \<in> Some -` set nodes" by (metis not_le nth_mem vimageI2)
      from "1.IH" [OF Cons m(2,1) "1.prems"(1) hashes [OF this]] Cons m show ?thesis by simp
    qed
  qed simp
next
  case (2 db fuel hash path seen)
  show ?case
  proof (cases "length hash = HASH_SIZE")
    case True
    obtain k where k: "fuel = Suc k" using "2.prems"(2) by (cases fuel) auto
    show ?thesis
    proof (cases "hm_get db hash")
      case (Some m)
      with "2.prems" k have "\<forall>h \<in> node_hashes m. rank h < k" by (force simp: ranked_def)
      with "2.IH" [OF _ k Some] True "2.prems"(1) Some k show ?thesis by simp
    qed (use True k in simp)
  qed simp
next
  case (3 db fuel lpath v path seen)
  then show ?case by (cases "parse_path lpath") auto
next
  case (4 db fuel epath n path seen)
  then show ?case by (cases "parse_path epath") auto
qed simp

section \<open>Properties\<close>

text \<open>
  Encoding and decoding of trie nodes are inverse: what decodes is canonical, and a
  canonical node decodes from its encoding to itself. The hash of a node therefore determines
  the node up to collisions of SHA3.
\<close>

theorem node_rlp_roundtrip:
  assumes "rlp_node item = Ok n"
  shows "canonical n \<and> rlp_node (rlp_append n) = Ok n"
  using rlp_node_canonical [OF assms] rlp_node_append by blast

theorem node_rlp_roundtrip_witness:
  "rlp_node (List [Data [0x20, 0x12], Data [1]]) = Ok (Node_Leaf [0x20, 0x12] [1]) \<and>
   canonical (Node_Leaf [0x20, 0x12] [1]) \<and>
   rlp_node (rlp_append (Node_Leaf [0x20, 0x12] [1])) = Ok (Node_Leaf [0x20, 0x12] [1])"
proof -
  have "rlp_node (List [Data [0x20, 0x12], Data [1]]) = Ok (Node_Leaf [0x20, 0x12] [1])"
    by (simp add: rlp_node_pair IS_LEAF_MASK_def)
  from node_rlp_roundtrip [OF this] this show ?thesis by blast
qed



text \<open>
  A leaf answers for every key that is a prefix of its own: the lookup returns the value
  stored under a longer key. A state proof for a key that the state does not hold is accepted
  with the value of a longer key, for instance for version \<open>1.0\<close> of a schema with the value of
  version \<open>1.0.1\<close>.
\<close>

theorem leaf_answers_for_prefix:
  assumes "parse_path lpath = Ok (True, path_to_nibbles key @ more)"
    and "rlp_value_list rlp_decode v = [val]"
  shows "get_value rlp_decode db fuel (Node_Leaf lpath v) key = Some (Ok (Some val))"
  using assms by (simp add: get_value_def get_value_node_def)

theorem leaf_answers_for_prefix_witness:
  "parse_path [0x20, 0x31, 0x2E, 0x30, 0x2E, 0x31] = Ok (True, path_to_nibbles [0x31, 0x2E, 0x30] @ [2, 14, 3, 1]) \<and>
   get_value (\<lambda>_. Some (List [Data [7]])) [] 0
     (Node_Leaf [0x20, 0x31, 0x2E, 0x30, 0x2E, 0x31] []) [0x31, 0x2E, 0x30] = Some (Ok (Some [7]))"
proof -
  have p: "parse_path [0x20, 0x31, 0x2E, 0x30, 0x2E, 0x31] =
      Ok (True, path_to_nibbles [0x31, 0x2E, 0x30] @ [2, 14, 3, 1])"
    by (simp add: path_to_nibbles_def IS_LEAF_MASK_def IS_PATH_ODD_MASK_def)
  have v: "rlp_value_list (\<lambda>_. Some (List [Data [7]])) [] = [[7]]" by (simp add: rlp_value_list_def)
  from leaf_answers_for_prefix [OF p v] p show ?thesis by blast
qed

end
