(* ===== verification/Ledger_Constants.thy ===== *)
theory Ledger_Constants
  imports Indy_Prelude
begin

text \<open>
  Transaction type numbers (\<open>libindy/src/domain/ledger/constants.rs\<close>) and the groups of
  requests that the pool service distinguishes (\<open>libindy/src/services/pool/events.rs\<close>).
\<close>

definition ATTRIB :: string where "ATTRIB = ''100''"
definition GET_TXN :: string where "GET_TXN = ''3''"
definition GET_TXN_AUTHR_AGRMT :: string where "GET_TXN_AUTHR_AGRMT = ''6''"
definition GET_TXN_AUTHR_AGRMT_AML :: string where "GET_TXN_AUTHR_AGRMT_AML = ''7''"
definition GET_ATTR :: string where "GET_ATTR = ''104''"
definition GET_NYM :: string where "GET_NYM = ''105''"
definition GET_SCHEMA :: string where "GET_SCHEMA = ''107''"
definition GET_CRED_DEF :: string where "GET_CRED_DEF = ''108''"
definition POOL_RESTART :: string where "POOL_RESTART = ''118''"
definition GET_REVOC_REG_DEF :: string where "GET_REVOC_REG_DEF = ''115''"
definition GET_REVOC_REG :: string where "GET_REVOC_REG = ''116''"
definition GET_REVOC_REG_DELTA :: string where "GET_REVOC_REG_DELTA = ''117''"
definition GET_VALIDATOR_INFO :: string where "GET_VALIDATOR_INFO = ''119''"
definition GET_AUTH_RULE :: string where "GET_AUTH_RULE = ''121''"

lemmas txn_types =
  ATTRIB_def GET_TXN_def GET_TXN_AUTHR_AGRMT_def GET_TXN_AUTHR_AGRMT_AML_def GET_ATTR_def
  GET_NYM_def GET_SCHEMA_def GET_CRED_DEF_def POOL_RESTART_def GET_REVOC_REG_DEF_def
  GET_REVOC_REG_def GET_REVOC_REG_DELTA_def GET_VALIDATOR_INFO_def GET_AUTH_RULE_def

definition REQUESTS_FOR_STATE_PROOFS :: "string list" where
  "REQUESTS_FOR_STATE_PROOFS =
     [GET_NYM, GET_TXN_AUTHR_AGRMT, GET_TXN_AUTHR_AGRMT_AML, GET_SCHEMA, GET_CRED_DEF, GET_ATTR,
      GET_REVOC_REG, GET_REVOC_REG_DEF, GET_REVOC_REG_DELTA, GET_AUTH_RULE, GET_TXN]"

definition REQUEST_FOR_FULL :: "string list" where
  "REQUEST_FOR_FULL = [POOL_RESTART, GET_VALIDATOR_INFO]"

definition REQUESTS_FOR_STATE_PROOFS_IN_THE_PAST :: "string list" where
  "REQUESTS_FOR_STATE_PROOFS_IN_THE_PAST =
     [GET_REVOC_REG, GET_REVOC_REG_DELTA, GET_TXN_AUTHR_AGRMT, GET_TXN_AUTHR_AGRMT_AML, GET_TXN]"

definition REQUESTS_FOR_MULTI_STATE_PROOFS :: "string list" where
  "REQUESTS_FOR_MULTI_STATE_PROOFS = [GET_REVOC_REG_DELTA]"

end
