(* ===== verification/State_Proof.thy ===== *)
theory State_Proof
  imports Patricia_Trie Merkle_Tree Json_Value Ledger_Constants
begin

text \<open>
  State proofs of ledger replies (\<open>libindy/src/services/pool/state_proof/mod.rs\<close>, the proof
  types of \<open>types.rs\<close>): the key a request asks for, the proofs a reply carries, and their
  verification: BLS multi-signature, Patricia trie lookups, numbered ranges and audit paths.

  Third-party code is the record \<open>SPEnv\<close>: SHA-256 and SHA3, RLP, base58, base64, hex, JSON text,
  MessagePack, the BLS library of ursa, and the state proof parsers that plugins register. BLS
  keys and signatures are opaque byte strings. The process-wide protocol version is a field.

  \<open>_calculate_turns\<close> loops for ever on a ledger of size 0; the model returns \<open>None\<close> there.
  The trie traversals take the fuel \<open>fuel\<close>.
\<close>

section \<open>Data\<close>

record NumericalSuffixAscendingNoGapsData =
  nsd_from :: "nat option"
  nsd_next :: "nat option"
  nsd_prefix :: string

datatype KeyValueSimpleDataVerificationType =
    VT_Simple
  | VT_NumericalSuffixAscendingNoGaps NumericalSuffixAscendingNoGapsData
  | VT_MerkleTree nat

record KeyValueSimpleData =
  kvs :: "(string \<times> string option) list"
  verification_type :: KeyValueSimpleDataVerificationType

record KeyValuesSubTrieData =
  sub_trie_prefix :: "string option"
  sub_kvs :: "(string \<times> string option) list"

datatype KeyValuesInSP = KV_Simple KeyValueSimpleData | KV_SubTrie KeyValuesSubTrieData

record ParsedSP =
  sp_proof_nodes :: string
  sp_root_hash :: string
  kvs_to_verify :: KeyValuesInSP
  multi_signature :: SJsonValue

text \<open>\<open>Nodes\<close>: a BLS key, if it is known, for every node of the pool.\<close>

type_synonym Nodes = "(string \<times> bytes option) list"

record SPEnv =
  env_sha256 :: "bytes \<Rightarrow> bytes"
  env_sha3 :: "bytes \<Rightarrow> bytes"
  env_rlp_decode :: "bytes \<Rightarrow> rlp option"
  env_rlp_encode :: "rlp \<Rightarrow> bytes"
  env_from_b58 :: "string \<Rightarrow> bytes option"
  env_from_b64 :: "string \<Rightarrow> bytes option"
  env_to_b64 :: "bytes \<Rightarrow> string"
  env_hex :: "bytes \<Rightarrow> string"
  env_from_str :: "string \<Rightarrow> SJsonValue option"
  env_to_string :: "SJsonValue \<Rightarrow> string"
  env_rmp :: "SJsonValue \<Rightarrow> bytes option"
  env_rmp_named :: "SJsonValue \<Rightarrow> bytes option"
  env_multisig :: "bytes \<Rightarrow> bytes option"
  env_verify_multi_sig :: "bytes \<Rightarrow> bytes \<Rightarrow> bytes list \<Rightarrow> bool option"
  env_sp_parser :: "string \<Rightarrow> (string \<Rightarrow> ParsedSP list option) option"
  env_protocol_version :: nat

definition is_node_1_3 :: "('a) SPEnv_scheme \<Rightarrow> bool" where
  "is_node_1_3 env \<longleftrightarrow> env_protocol_version env = 1"

section \<open>The key of a request\<close>

definition opt_or :: "'a option \<Rightarrow> 'a option \<Rightarrow> 'a option" where
  "opt_or a b = (case a of Some x \<Rightarrow> Some x | None \<Rightarrow> b)"

definition unwrap_or :: "'a option \<Rightarrow> 'a \<Rightarrow> 'a" where
  "unwrap_or a d = (case a of Some x \<Rightarrow> x | None \<Rightarrow> d)"

text \<open>The marker character of a state key: a control character for nodes of version 1.3.\<close>

definition marker :: "'a SPEnv_scheme \<Rightarrow> char \<Rightarrow> char \<Rightarrow> string" where
  "marker env old new = (if is_node_1_3 env then [old] else [new])"

definition sp_key_suffix :: "'a SPEnv_scheme \<Rightarrow> string \<Rightarrow> SJsonValue \<Rightarrow> string option" where
  "sp_key_suffix env xtype op =
     (if xtype = GET_ATTR then
        (case opt_or (as_str (json_index op ''raw''))
                (opt_or (as_str (json_index op ''enc'')) (as_str (json_index op ''hash''))) of
           Some attr_name \<Rightarrow>
             Some ('':'' @ marker env (CHR 0x01) (CHR ''1'') @ '':'' @
                   env_hex env (env_sha256 env (str_bytes attr_name)))
         | None \<Rightarrow> None)
      else if xtype = GET_CRED_DEF then
        (case (as_str (json_index op ''signature_type''), as_u64 (json_index op ''ref'')) of
           (Some sign_type, Some sch_seq_no) \<Rightarrow>
             let tag = (if is_node_1_3 env then None else as_str (json_index op ''tag''));
                 tag = (case tag of Some t \<Rightarrow> '':'' @ t | None \<Rightarrow> [])
             in Some ('':'' @ marker env (CHR 0x03) (CHR ''3'') @ '':'' @ sign_type @ '':'' @
                      show_nat sch_seq_no @ tag)
         | _ \<Rightarrow> None)
      else if xtype = GET_NYM \<or> xtype = GET_REVOC_REG_DEF then Some []
      else if xtype = GET_SCHEMA then
        (case (as_str (json_index (json_index op ''data'') ''name''),
               as_str (json_index (json_index op ''data'') ''version'')) of
           (Some name, Some ver) \<Rightarrow>
             Some ('':'' @ marker env (CHR 0x02) (CHR ''2'') @ '':'' @ name @ '':'' @ ver)
         | _ \<Rightarrow> None)
      else if xtype = GET_REVOC_REG then
        (case as_str (json_index op ''revocRegDefId'') of
           Some revoc_reg_def_id \<Rightarrow>
             Some (marker env (CHR 0x06) (CHR ''6'') @ '':'' @ revoc_reg_def_id)
         | None \<Rightarrow> None)
      else if xtype = GET_AUTH_RULE then
        (case (as_str (json_index op ''auth_type''), as_str (json_index op ''auth_action''),
               as_str (json_index op ''field'')) of
           (Some auth_type, Some auth_action, Some fld) \<Rightarrow>
             let new_value = as_str (json_index op ''new_value'');
                 old_value = as_str (json_index op ''old_value'');
                 default_old_value = (if auth_action = ''ADD'' then ''*'' else [])
             in Some (''1:'' @ auth_type @ ''--'' @ auth_action @ ''--'' @ fld @ ''--'' @
                      unwrap_or old_value default_old_value @ ''--'' @ unwrap_or new_value [])
         | _ \<Rightarrow> None)
      else if xtype = GET_REVOC_REG_DELTA then
        (case as_str (json_index op ''revocRegDefId'') of
           Some revoc_reg_def_id \<Rightarrow>
             Some ((if is_null (json_index op ''from'') then marker env (CHR 0x05) (CHR ''5'')
                    else marker env (CHR 0x06) (CHR ''6'')) @ '':'' @ revoc_reg_def_id)
         | None \<Rightarrow> None)
      else if xtype = GET_TXN_AUTHR_AGRMT then
        (case (as_str (json_index op ''version''), as_str (json_index op ''digest''),
               as_u64 (json_index op ''timestamp'')) of
           (None, None, _) \<Rightarrow> Some ''2:latest''
         | (None, Some digest, None) \<Rightarrow> Some (''2:d:'' @ digest)
         | (Some version, None, None) \<Rightarrow> Some (''2:v:'' @ version)
         | _ \<Rightarrow> None)
      else if xtype = GET_TXN_AUTHR_AGRMT_AML then
        (case as_str (json_index op ''version'') of
           Some version \<Rightarrow> Some (''3:v:'' @ version)
         | None \<Rightarrow> Some ''3:latest'')
      else if xtype = GET_TXN then map_option show_nat (as_u64 (json_index op ''data''))
      else None)"

definition sp_key_prefix :: "'a SPEnv_scheme \<Rightarrow> string \<Rightarrow> SJsonValue \<Rightarrow> bytes option" where
  "sp_key_prefix env xtype op =
     (let dest = opt_or (as_str (json_index op ''dest'')) (as_str (json_index op ''origin'')) in
      if xtype = GET_NYM then map_option (\<lambda>d. env_sha256 env (str_bytes d)) dest
      else if xtype \<in> {GET_REVOC_REG, GET_REVOC_REG_DELTA, GET_TXN_AUTHR_AGRMT,
                        GET_TXN_AUTHR_AGRMT_AML, GET_AUTH_RULE} then Some []
      else if xtype = GET_REVOC_REG_DEF then map_option str_bytes (as_str (json_index op ''id''))
      else if xtype = GET_TXN then Some []
      else map_option str_bytes dest)"

definition parse_key_from_request_for_builtin_sp ::
    "'a SPEnv_scheme \<Rightarrow> SJsonValue \<Rightarrow> bytes option" where
  "parse_key_from_request_for_builtin_sp env msg =
     (let op = json_index msg ''operation'' in
      case as_str (json_index op ''type'') of
        None \<Rightarrow> None
      | Some xtype \<Rightarrow>
          (case sp_key_suffix env xtype op of
             None \<Rightarrow> None
           | Some key_suffix \<Rightarrow>
               (case sp_key_prefix env xtype op of
                  None \<Rightarrow> None
                | Some key_prefix \<Rightarrow> Some (key_prefix @ str_bytes key_suffix))))"

section \<open>The proofs of a reply\<close>

text \<open>\<open>value["key"] = x\<close> on an object; the code only assigns to objects.\<close>

definition json_set :: "SJsonValue \<Rightarrow> string \<Rightarrow> SJsonValue \<Rightarrow> SJsonValue" where
  "json_set v k x =
     (case v of
        Value_Object m \<Rightarrow> Value_Object (hm_insert m k x)
      | Value_Null \<Rightarrow> Value_Object [(k, x)]
      | _ \<Rightarrow> v)"

definition is_full_taa_state_value_expected :: "bytes \<Rightarrow> bool" where
  "is_full_taa_state_value_expected expected_state_key \<longleftrightarrow>
     starts_with expected_state_key (str_bytes ''2:d:'')"

definition if_rev_delta_multi_state_proof_expected :: "bytes \<Rightarrow> bool" where
  "if_rev_delta_multi_state_proof_expected sp_key \<longleftrightarrow>
     starts_with sp_key (str_bytes (CHR 0x06 # '':'')) \<or> starts_with sp_key (str_bytes ''6:'')"

definition calculate_taa_digest :: "'a SPEnv_scheme \<Rightarrow> string \<Rightarrow> string \<Rightarrow> bytes" where
  "calculate_taa_digest env text version = env_sha256 env (str_bytes (version @ text))"

text \<open>The value of a \<open>GET_TXN\<close> reply: the stored transaction, with the hash in place of the raw
  or encrypted data of an \<open>ATTRIB\<close> transaction.\<close>

definition copy_field :: "SJsonValue \<Rightarrow> string \<Rightarrow> SJsonValue \<Rightarrow> SJsonValue" where
  "copy_field src k v =
     (if is_null (json_index src k) then v else json_set v k (json_index src k))"

definition hash_attr :: "'a SPEnv_scheme \<Rightarrow> string \<Rightarrow> string \<Rightarrow> SJsonValue \<Rightarrow> SJsonValue" where
  "hash_attr env k s v =
     (let t = json_index v ''txn'';
          digest = Value_String (if s = [] then [] else env_hex env (env_sha256 env (str_bytes s)))
      in json_set v ''txn'' (json_set t ''data'' (json_set (json_index t ''data'') k digest)))"

definition get_txn_value :: "'a SPEnv_scheme \<Rightarrow> SJsonValue \<Rightarrow> SJsonValue option" where
  "get_txn_value env parsed_data =
     (if is_null (json_index parsed_data ''txn'') \<and> is_null (json_index parsed_data ''txnMetadata'') \<and>
         is_null (json_index parsed_data ''ver'') \<and> is_null (json_index parsed_data ''reqSignature'')
      then None
      else
        let v = copy_field parsed_data ''reqSignature'' (copy_field parsed_data ''ver''
                  (copy_field parsed_data ''txnMetadata'' (copy_field parsed_data ''txn''
                    (Value_Object []))));
            data = json_index (json_index v ''txn'') ''data''
        in Some
             (if as_str (json_index (json_index v ''txn'') ''type'') = Some ATTRIB then
                (case as_str (json_index data ''raw'') of
                   Some raw \<Rightarrow> hash_attr env ''raw'' raw v
                 | None \<Rightarrow>
                     (case as_str (json_index data ''enc'') of
                        Some enc \<Rightarrow> hash_attr env ''enc'' enc v
                      | None \<Rightarrow> v))
              else v))"

text \<open>
  \<open>_parse_reply_for_proof_value\<close>; \<open>Inl\<close> is its error (a text that is only logged), \<open>Inr None\<close>
  says that the state holds no value.
\<close>

definition parse_reply_for_proof_value ::
    "'a SPEnv_scheme \<Rightarrow> SJsonValue \<Rightarrow> string option \<Rightarrow> SJsonValue \<Rightarrow> string \<Rightarrow> bytes \<Rightarrow>
     unit + string option" where
  "parse_reply_for_proof_value env msg data parsed_data xtype sp_key =
     (case data of
        None \<Rightarrow> Inr None
      | Some data \<Rightarrow>
          let seq_no = json_index msg ''seqNo''; time = json_index msg ''txnTime'';
              v0 = (if xtype = GET_NYM then
                      json_set (json_set (Value_Object []) ''seqNo'' seq_no) ''txnTime'' time
                    else if xtype = GET_AUTH_RULE then Value_Object []
                    else if xtype \<noteq> GET_TXN_AUTHR_AGRMT \<or> is_full_taa_state_value_expected sp_key then
                      json_set (json_set (Value_Object []) ''lsn'' seq_no) ''lut'' time
                    else Value_Object []);
              res =
                (if xtype = GET_TXN then Inr (get_txn_value env parsed_data)
                 else if xtype = GET_NYM then
                   Inr (Some (json_set (json_set (json_set v0
                     ''identifier'' (json_index parsed_data ''identifier''))
                     ''role'' (json_index parsed_data ''role''))
                     ''verkey'' (json_index parsed_data ''verkey'')))
                 else if xtype = GET_ATTR then
                   Inr (Some (json_set v0 ''val''
                     (Value_String (env_hex env (env_sha256 env (str_bytes data))))))
                 else if xtype \<in> {GET_CRED_DEF, GET_REVOC_REG_DEF, GET_REVOC_REG,
                                   GET_TXN_AUTHR_AGRMT_AML} then
                   Inr (Some (json_set v0 ''val'' parsed_data))
                 else if xtype = GET_AUTH_RULE then
                   Inr (case as_array parsed_data of
                          Some (auth_rule # _) \<Rightarrow> Some (json_index auth_rule ''constraint'')
                        | _ \<Rightarrow> None)
                 else if xtype = GET_SCHEMA then
                   (case as_object parsed_data of
                      Some m \<Rightarrow>
                        let m = hm_remove (hm_remove m ''name'') ''version''
                        in Inr (if m = [] then None else Some (json_set v0 ''val'' (Value_Object m)))
                    | None \<Rightarrow> Inl ())
                 else if xtype = GET_REVOC_REG_DELTA then
                   let accum_to = json_index (json_index parsed_data ''value'') ''accum_to''
                   in Inr (if is_null accum_to then None else Some (json_set v0 ''val'' accum_to))
                 else if xtype = GET_TXN_AUTHR_AGRMT then
                   (if is_full_taa_state_value_expected sp_key
                    then Inr (Some (json_set v0 ''val'' parsed_data))
                    else Inr (Some (Value_String (env_hex env
                      (calculate_taa_digest env (unwrap_or (as_str (json_index parsed_data ''text'')) [])
                         (unwrap_or (as_str (json_index parsed_data ''version'')) []))))))
                 else Inl ())
          in (case res of
                Inl e \<Rightarrow> Inl e
              | Inr None \<Rightarrow> Inr None
              | Inr (Some v) \<Rightarrow>
                  Inr (Some (case as_str v of Some s \<Rightarrow> s | None \<Rightarrow> env_to_string env v))))"

definition parse_reply_for_sp ::
    "'a SPEnv_scheme \<Rightarrow> SJsonValue \<Rightarrow> string option \<Rightarrow> SJsonValue \<Rightarrow> string \<Rightarrow> bytes \<Rightarrow>
     unit + ParsedSP" where
  "parse_reply_for_sp env msg data parsed_data xtype sp_key =
     (let parts =
        (if xtype \<noteq> GET_TXN then
           (case (as_str (json_index (json_index msg ''state_proof'') ''proof_nodes''),
                  as_str (json_index (json_index msg ''state_proof'') ''root_hash'')) of
              (Some proof, Some rh) \<Rightarrow> Some (proof, rh, VT_Simple)
            | _ \<Rightarrow> None)
         else
           (case (as_array (json_index parsed_data ''auditPath''),
                  as_str (json_index parsed_data ''rootHash''),
                  as_u64 (json_index parsed_data ''ledgerSize'')) of
              (Some path, Some rh, Some len) \<Rightarrow>
                Some (env_to_b64 env (str_bytes (env_to_string env (Value_Array path))), rh,
                      VT_MerkleTree len)
            | _ \<Rightarrow> None))
      in case parts of
           None \<Rightarrow> Inl ()
         | Some (proof, rh, ver_type) \<Rightarrow>
             (case parse_reply_for_proof_value env msg data parsed_data xtype sp_key of
                Inl e \<Rightarrow> Inl e
              | Inr v \<Rightarrow>
                  Inr \<lparr>sp_proof_nodes = proof, sp_root_hash = rh,
                       kvs_to_verify = KV_Simple
                         \<lparr>kvs = [(env_to_b64 env sp_key, v)], verification_type = ver_type\<rparr>,
                       multi_signature =
                         json_index (json_index msg ''state_proof'') ''multi_signature''\<rparr>))"

definition parse_reply_for_multi_sp ::
    "'a SPEnv_scheme \<Rightarrow> SJsonValue \<Rightarrow> string \<Rightarrow> bytes \<Rightarrow> unit + ParsedSP option" where
  "parse_reply_for_multi_sp env parsed_data xtype sp_key =
     (if xtype = GET_REVOC_REG_DELTA then
        if if_rev_delta_multi_state_proof_expected sp_key then
          let sp_from = json_index parsed_data ''stateProofFrom'';
              accum_from = json_index (json_index parsed_data ''value'') ''accum_from''
          in (case (as_str (json_index sp_from ''proof_nodes''), as_str (json_index sp_from ''root_hash'')) of
                (Some proof, Some rh) \<Rightarrow>
                  Inr (Some
                    \<lparr>sp_proof_nodes = proof, sp_root_hash = rh,
                     kvs_to_verify = KV_Simple
                       \<lparr>kvs = [(env_to_b64 env sp_key,
                          if is_null accum_from then None
                          else Some (env_to_string env (Value_Object
                            [(''lsn'', json_index accum_from ''seqNo''),
                             (''lut'', json_index accum_from ''txnTime''),
                             (''val'', accum_from)])))],
                        verification_type = VT_Simple\<rparr>,
                     multi_signature = json_index sp_from ''multi_signature''\<rparr>)
              | _ \<Rightarrow> Inl ())
        else Inr None
      else Inl ())"

text \<open>\<open>_parse_reply_for_builtin_sp\<close>: the outer option is the panic of its \<open>assert!\<close>.\<close>

definition parse_reply_for_builtin_sp ::
    "'a SPEnv_scheme \<Rightarrow> SJsonValue \<Rightarrow> string \<Rightarrow> bytes \<Rightarrow> ParsedSP list option outcome" where
  "parse_reply_for_builtin_sp env msg xtype key =
     (if xtype \<notin> set REQUESTS_FOR_STATE_PROOFS then Panic
      else
        let data =
          (case json_index msg ''data'' of
             Value_Null \<Rightarrow> Some (None, Value_Null)
           | Value_String s \<Rightarrow> map_option (\<lambda>parsed. (Some s, parsed)) (env_from_str env s)
           | Value_Object m \<Rightarrow> Some (Some (env_to_string env (Value_Object m)), Value_Object m)
           | Value_Array xs \<Rightarrow> Some (Some (env_to_string env (Value_Array xs)), Value_Array xs)
           | _ \<Rightarrow> None)
        in Ok (case data of
                 None \<Rightarrow> None
               | Some (data, parsed_data) \<Rightarrow>
                   (case parse_reply_for_sp env msg data parsed_data xtype key of
                      Inl _ \<Rightarrow> None
                    | Inr sp \<Rightarrow>
                        if xtype \<in> set REQUESTS_FOR_MULTI_STATE_PROOFS then
                          (case parse_reply_for_multi_sp env parsed_data xtype key of
                             Inl _ \<Rightarrow> None
                           | Inr None \<Rightarrow> Some [sp]
                           | Inr (Some sp2) \<Rightarrow> Some [sp, sp2])
                        else Some [sp])))"

text \<open>A message with a zero byte cannot be passed to a plugin as a C string.\<close>

definition parse_generic_reply_for_proof_checking ::
    "'a SPEnv_scheme \<Rightarrow> SJsonValue \<Rightarrow> string \<Rightarrow> bytes option \<Rightarrow> ParsedSP list option outcome" where
  "parse_generic_reply_for_proof_checking env msg raw_msg sp_key =
     (case as_str (json_index msg ''type'') of
        None \<Rightarrow> Ok None
      | Some xtype \<Rightarrow>
          if xtype \<in> set REQUESTS_FOR_STATE_PROOFS then
            (case sp_key of
               Some key \<Rightarrow> parse_reply_for_builtin_sp env msg xtype key
             | None \<Rightarrow> Ok None)
          else
            (case env_sp_parser env xtype of
               Some parser \<Rightarrow> Ok (if CHR 0x00 \<in> set raw_msg then None else parser raw_msg)
             | None \<Rightarrow> Ok None))"

section \<open>Verification\<close>

definition parse_reply_for_proof_signature_checking ::
    "'a SPEnv_scheme \<Rightarrow> SJsonValue \<Rightarrow> (string \<times> string list \<times> bytes) option" where
  "parse_reply_for_proof_signature_checking env sig =
     (case (as_str (json_index sig ''signature''), as_array (json_index sig ''participants''),
            env_rmp_named env (json_index sig ''value'')) of
        (Some signature, Some participants, Some v) \<Rightarrow>
          let participants_unwrap = List.map_filter as_str participants
          in if length participants = length participants_unwrap
             then Some (signature, participants_unwrap, v) else None
      | _ \<Rightarrow> None)"

text \<open>The loop over the pool's nodes that collects the keys of the participants.\<close>

fun collect_ver_keys :: "Nodes \<Rightarrow> string list \<Rightarrow> bytes list outcome" where
  "collect_ver_keys [] participants = Ok []"
| "collect_ver_keys ((name, verkey) # nodes) participants =
     (if name \<in> set participants then
        (case verkey of
           Some blskey \<Rightarrow> map_ok ((#) blskey) (collect_ver_keys nodes participants)
         | None \<Rightarrow> Err InvalidState)
      else collect_ver_keys nodes participants)"

definition verify_proof_signature ::
    "'a SPEnv_scheme \<Rightarrow> bool \<Rightarrow> string \<Rightarrow> string list \<Rightarrow> bytes \<Rightarrow> Nodes \<Rightarrow> nat \<Rightarrow> bool outcome" where
  "verify_proof_signature env checks signature participants v nodes f =
     and_then (collect_ver_keys nodes participants) (\<lambda>ver_keys.
     and_then (usize_sub checks (length nodes) f) (\<lambda>quorum.
       if length ver_keys < quorum then Ok False
       else (case env_from_b58 env signature of
               None \<Rightarrow> Ok False
             | Some sig \<Rightarrow>
                 (case env_multisig env sig of
                    None \<Rightarrow> Ok False
                  | Some ms \<Rightarrow> Ok (unwrap_or (env_verify_multi_sig env ms v ver_keys) False)))))"

text \<open>The trie lookup of one key; the outer \<open>run\<close> carries panics and exhausted fuel.\<close>

definition verify_proof ::
    "'a SPEnv_scheme \<Rightarrow> nat \<Rightarrow> bytes \<Rightarrow> bytes \<Rightarrow> bytes \<Rightarrow> string option \<Rightarrow> bool run" where
  "verify_proof env fuel proofs_rlp rh key expected_value =
     run_then (Some (proof_node_list (env_rlp_decode env) proofs_rlp)) (\<lambda>nodes.
       let db = trie_db (env_sha3 env) (env_rlp_encode env) nodes in
       case hm_get db rh of
         None \<Rightarrow> Some (Ok False)
       | Some root \<Rightarrow>
           (case get_str_value (env_rlp_decode env) db fuel root key of
              None \<Rightarrow> None
            | Some (Ok v) \<Rightarrow> Some (Ok (v = expected_value))
            | Some (Err e) \<Rightarrow> Some (Ok False)
            | Some Panic \<Rightarrow> Some Panic))"

text \<open>\<open>key.replacen(prefix, "", 1)\<close> on a key that starts with the prefix drops the prefix.\<close>

definition numbered ::
    "string \<Rightarrow> (string \<times> string) list \<Rightarrow> (nat \<times> string \<times> string option) option list" where
  "numbered prefix vals =
     map (\<lambda>(key, v). map_option (\<lambda>no. (no, key, Some v)) (parse_u64 (drop (length prefix) key)))
       (filter (\<lambda>(key, v). starts_with key prefix) vals)"

definition select_range ::
    "(nat \<times> string \<times> string option) list \<Rightarrow> nat option \<Rightarrow> nat option \<Rightarrow>
     (nat \<times> string \<times> string option) list option" where
  "select_range vals_for_sort from nxt =
     (let vals_with_from =
        (case from of
           Some from_seqno \<Rightarrow>
             drop (case binary_search (map fst vals_for_sort) from_seqno of Inl i \<Rightarrow> i | Inr i \<Rightarrow> i)
               vals_for_sort
         | None \<Rightarrow> vals_for_sort)
      in case nxt of
           Some next_seqno \<Rightarrow>
             (case binary_search (map fst vals_with_from) next_seqno of
                Inl i \<Rightarrow> Some (take i vals_with_from)
              | Inr _ \<Rightarrow> None)
         | None \<Rightarrow> Some vals_with_from)"

definition verify_proof_range ::
    "'a SPEnv_scheme \<Rightarrow> nat \<Rightarrow> bytes \<Rightarrow> bytes \<Rightarrow> string \<Rightarrow> nat option \<Rightarrow> nat option \<Rightarrow>
     (string \<times> string option) list \<Rightarrow> bool run" where
  "verify_proof_range env fuel proofs_rlp rh prefix from nxt kv =
     run_then (Some (proof_node_list (env_rlp_decode env) proofs_rlp)) (\<lambda>nodes.
       let db = trie_db (env_sha3 env) (env_rlp_encode env) nodes in
       case hm_get db rh of
         None \<Rightarrow> Some (Ok False)
       | Some root \<Rightarrow>
           (case get_all_values (env_rlp_decode env) db fuel root (Some (str_bytes prefix)) of
              None \<Rightarrow> None
            | Some (Err e) \<Rightarrow> Some (Ok False)
            | Some Panic \<Rightarrow> Some Panic
            | Some (Ok vals) \<Rightarrow>
                let check = numbered prefix vals in
                if None \<in> set check then Some (Ok False)
                else (case select_range (sort_key fst (map the check)) from nxt of
                        None \<Rightarrow> Some (Ok False)
                      | Some part \<Rightarrow> Some (Ok (map snd part = kv)))))"

text \<open>
  \<open>_calculate_turns\<close>: the loop pushes and the result is reversed, so the model conses. With
  length 0 the middle is 0 and nothing changes any more.
\<close>

partial_function (option) calculate_turns_loop ::
    "bool \<Rightarrow> nat \<Rightarrow> nat \<Rightarrow> bool list \<Rightarrow> bool list run" where
  "calculate_turns_loop checks len idx result =
     (if len = 1 then Some (Ok result)
      else (case next_power_of_two checks len of
              Ok p \<Rightarrow>
                if idx < p div 2
                then calculate_turns_loop checks (p div 2) idx (True # result)
                else calculate_turns_loop checks (len - p div 2) (idx - p div 2) (False # result)
            | Err e \<Rightarrow> Some (Err e)
            | Panic \<Rightarrow> Some Panic))"

definition calculate_turns :: "bool \<Rightarrow> nat \<Rightarrow> nat \<Rightarrow> bool list run" where
  "calculate_turns checks len idx = calculate_turns_loop checks len idx []"

text \<open>The hashing loop of \<open>_verify_merkle_tree\<close>; \<open>None\<close> is a hash that is not base58.\<close>

fun climb_path :: "'a SPEnv_scheme \<Rightarrow> bytes \<Rightarrow> (string \<times> bool) list \<Rightarrow> bytes option" where
  "climb_path env hash [] = Some hash"
| "climb_path env hash ((next_hash, turn_right) # rest) =
     (case env_from_b58 env next_hash of
        None \<Rightarrow> None
      | Some nh \<Rightarrow>
          climb_path env
            (if turn_right then hash_nodes (env_sha256 env) hash nh
             else hash_nodes (env_sha256 env) nh hash) rest)"

text \<open>A JSON array of strings, as \<open>from_str::<Vec<String>>\<close> reads it.\<close>

definition parse_string_vec :: "(string \<Rightarrow> SJsonValue option) \<Rightarrow> string \<Rightarrow> string list option" where
  "parse_string_vec from_str s =
     (case from_str s of
        Some (Value_Array xs) \<Rightarrow>
          (if list_all (\<lambda>x. as_str x \<noteq> None) xs then Some (map (the \<circ> as_str) xs) else None)
      | _ \<Rightarrow> None)"

definition verify_merkle_tree ::
    "'a SPEnv_scheme \<Rightarrow> bool \<Rightarrow> bytes \<Rightarrow> bytes \<Rightarrow> (string \<times> string option) list \<Rightarrow> nat \<Rightarrow> bool run" where
  "verify_merkle_tree env checks proof_nodes rh kv len =
     (case Option.bind (from_utf8 proof_nodes) (parse_string_vec (env_from_str env)) of
        None \<Rightarrow> Some (Ok False)
      | Some hashes \<Rightarrow>
          (case kv of
             [] \<Rightarrow> Some Panic
           | (key, v) # _ \<Rightarrow>
               (case Option.bind (Option.bind (env_from_b64 env key) from_utf8) parse_u64 of
                  None \<Rightarrow> Some (Ok False)
                | Some seq_no \<Rightarrow>
                    run_then (Some (usize_sub checks seq_no 1)) (\<lambda>idx.
                    run_then (calculate_turns checks len idx) (\<lambda>turns.
                      if length hashes \<noteq> length turns then Some (Ok False)
                      else (case Option.bind (Option.bind v (env_from_str env)) (env_rmp env) of
                              None \<Rightarrow> Some (Ok False)
                            | Some leaf \<Rightarrow>
                                (case climb_path env (hash_leaf (env_sha256 env) leaf)
                                        (zip hashes turns) of
                                   None \<Rightarrow> Some (Ok False)
                                 | Some h \<Rightarrow> Some (Ok (h = rh)))))))))"

fun verify_simple ::
    "'a SPEnv_scheme \<Rightarrow> nat \<Rightarrow> bytes \<Rightarrow> bytes \<Rightarrow> (string \<times> string option) list \<Rightarrow> bool run" where
  "verify_simple env fuel proof_nodes rh [] = Some (Ok True)"
| "verify_simple env fuel proof_nodes rh ((k, v) # kv) =
     (case env_from_b64 env k of
        None \<Rightarrow> Some (Ok False)
      | Some key \<Rightarrow>
          run_then (verify_proof env fuel proof_nodes rh key v) (\<lambda>ok.
            if \<not> ok then Some (Ok False) else verify_simple env fuel proof_nodes rh kv))"

text \<open>One member of the list that \<open>verify_parsed_sp\<close> goes through.\<close>

definition verify_one_sp ::
    "'a SPEnv_scheme \<Rightarrow> bool \<Rightarrow> nat \<Rightarrow> Nodes \<Rightarrow> nat \<Rightarrow> ParsedSP \<Rightarrow> bool run" where
  "verify_one_sp env checks fuel nodes f sp =
     (let sig_value = json_index (multi_signature sp) ''value'' in
      if as_str (json_index sig_value ''state_root_hash'') \<noteq> Some (sp_root_hash sp) \<and>
         as_str (json_index sig_value ''txn_root_hash'') \<noteq> Some (sp_root_hash sp) then Some (Ok False)
      else
        (case parse_reply_for_proof_signature_checking env (multi_signature sp) of
           None \<Rightarrow> Some (Ok False)
         | Some (signature, participants, v) \<Rightarrow>
             (case verify_proof_signature env checks signature participants v nodes f of
                Panic \<Rightarrow> Some Panic
              | Err e \<Rightarrow> Some (Ok False)
              | Ok False \<Rightarrow> Some (Ok False)
              | Ok True \<Rightarrow>
                  (case (env_from_b64 env (sp_proof_nodes sp), env_from_b58 env (sp_root_hash sp)) of
                     (Some proof_nodes, Some rh) \<Rightarrow>
                       (case kvs_to_verify sp of
                          KV_Simple kvd \<Rightarrow>
                            (case verification_type kvd of
                               VT_Simple \<Rightarrow> verify_simple env fuel proof_nodes rh (kvs kvd)
                             | VT_NumericalSuffixAscendingNoGaps data \<Rightarrow>
                                 verify_proof_range env fuel proof_nodes rh (nsd_prefix data)
                                   (nsd_from data) (nsd_next data) (kvs kvd)
                             | VT_MerkleTree len \<Rightarrow>
                                 verify_merkle_tree env checks proof_nodes rh (kvs kvd) len)
                        | KV_SubTrie _ \<Rightarrow> Some (Ok False))
                   | _ \<Rightarrow> Some (Ok False)))))"

fun verify_parsed_sp ::
    "'a SPEnv_scheme \<Rightarrow> bool \<Rightarrow> nat \<Rightarrow> Nodes \<Rightarrow> nat \<Rightarrow> ParsedSP list \<Rightarrow> bool run" where
  "verify_parsed_sp env checks fuel nodes f [] = Some (Ok True)"
| "verify_parsed_sp env checks fuel nodes f (sp # sps) =
     run_then (verify_one_sp env checks fuel nodes f sp) (\<lambda>ok.
       if \<not> ok then Some (Ok False) else verify_parsed_sp env checks fuel nodes f sps)"

section \<open>Trie proofs\<close>

lemma proof_node_list_canonical:
  assumes "proof_node_list rlp_decode p = Ok nodes"
  shows "list_all canonical nodes"
proof -
  have "canonical n" if "list_all2 (\<lambda>r n. rlp_node r = Ok n) items nodes" "n \<in> set nodes" for items n
  proof -
    from that obtain i where "i < length nodes" "n = nodes ! i" by (auto simp: in_set_conv_nth)
    with list_all2_nthD2 [OF that(1)] have "rlp_node (items ! i) = Ok n" by simp
    then show ?thesis by (rule rlp_node_canonical)
  qed
  with assms show ?thesis
    by (auto simp: proof_node_list_def list_all_iff map_outcome_list_Ok_iff
        split: option.splits rlp.splits outcome.splits)
qed

lemma verify_proof_accepted:
  assumes "verify_proof env fuel p rh key v = Some (Ok True)"
  obtains db root where "db_ok (env_sha3 env) (env_rlp_encode env) db" and "hm_get db rh = Some root"
    and "get_str_value (env_rlp_decode env) db fuel root key = Some (Ok v)"
proof -
  from assms obtain nodes where nodes: "proof_node_list (env_rlp_decode env) p = Ok nodes"
    by (auto simp: verify_proof_def)
  let ?db = "trie_db (env_sha3 env) (env_rlp_encode env) nodes"
  from assms nodes obtain root where "hm_get ?db rh = Some root"
    "get_str_value (env_rlp_decode env) ?db fuel root key = Some (Ok v)"
    by (auto simp: verify_proof_def Let_def split: option.splits outcome.splits)
  with that [of ?db root] db_ok_trie_db [OF proof_node_list_canonical [OF nodes]] show thesis
    by blast
qed

section \<open>Signatures\<close>

lemma collect_ver_keys_Ok:
  assumes "collect_ver_keys nodes participants = Ok keys"
  shows "map (\<lambda>(name, vk). vk) (filter (\<lambda>(name, vk). name \<in> set participants) nodes) = map Some keys"
  using assms
  by (induction nodes participants arbitrary: keys rule: collect_ver_keys.induct)
    (auto split: if_splits option.splits)

lemma quorum_of_keys:
  assumes "hm_wf nodes" and "collect_ver_keys nodes participants = Ok keys"
  shows "length keys = card (fst ` set nodes \<inter> set participants)"
proof -
  let ?ps = "filter (\<lambda>(name, vk). name \<in> set participants) nodes"
  have "length keys = length ?ps"
    using collect_ver_keys_Ok [OF assms(2)] by (metis length_map)
  also have "\<dots> = length (map fst ?ps)" by simp
  also have "\<dots> = card (set (map fst ?ps))"
    using assms(1) by (intro distinct_card [symmetric]) (auto simp: hm_wf_def distinct_map_filter)
  also have "set (map fst ?ps) = fst ` set nodes \<inter> set participants" by force
  finally show ?thesis .
qed

lemma verify_proof_signature_True:
  assumes "verify_proof_signature env checks signature participants v nodes f = Ok True"
    and "hm_wf nodes" and "f \<le> length nodes"
  obtains keys ms where "collect_ver_keys nodes participants = Ok keys"
    and "length nodes - f \<le> card (fst ` set nodes \<inter> set participants)"
    and "env_verify_multi_sig env ms v keys = Some True"
proof -
  from assms(1,3) obtain keys sig ms where k: "collect_ver_keys nodes participants = Ok keys"
    "\<not> length keys < length nodes - f" "env_multisig env sig = Some ms"
    "env_verify_multi_sig env ms v keys = Some True"
    by (auto simp: verify_proof_signature_def usize_sub_def unwrap_or_def
        split: if_splits option.splits)
  with quorum_of_keys [OF assms(2) k(1)] that show thesis by auto
qed

text \<open>What acceptance of one proof says about its signature.\<close>

definition quorum_signed :: "'a SPEnv_scheme \<Rightarrow> Nodes \<Rightarrow> nat \<Rightarrow> ParsedSP \<Rightarrow> bool" where
  "quorum_signed env nodes f sp \<longleftrightarrow>
     (\<exists>participants keys ms v.
        (let signed = json_index (multi_signature sp) ''value'' in
           (as_str (json_index signed ''state_root_hash'') = Some (sp_root_hash sp) \<or>
            as_str (json_index signed ''txn_root_hash'') = Some (sp_root_hash sp)) \<and>
           env_rmp_named env signed = Some v) \<and>
        collect_ver_keys nodes participants = Ok keys \<and>
        length nodes - f \<le> card (fst ` set nodes \<inter> set participants) \<and>
        env_verify_multi_sig env ms v keys = Some True)"

lemma verify_one_sp_signed:
  assumes "verify_one_sp env checks fuel nodes f sp = Some (Ok True)"
    and "hm_wf nodes" and "f \<le> length nodes"
  shows "quorum_signed env nodes f sp"
proof -
  let ?signed = "json_index (multi_signature sp) ''value''"
  from assms(1) obtain signature participants v where
    root: "as_str (json_index ?signed ''state_root_hash'') = Some (sp_root_hash sp) \<or>
      as_str (json_index ?signed ''txn_root_hash'') = Some (sp_root_hash sp)"
    and p: "parse_reply_for_proof_signature_checking env (multi_signature sp) =
      Some (signature, participants, v)"
    and s: "verify_proof_signature env checks signature participants v nodes f = Ok True"
    by (auto simp: verify_one_sp_def Let_def split: if_splits option.splits outcome.splits bool.splits)
  from p have "env_rmp_named env ?signed = Some v"
    by (auto simp: parse_reply_for_proof_signature_checking_def Let_def
        split: option.splits prod.splits if_splits)
  moreover obtain keys ms where "collect_ver_keys nodes participants = Ok keys"
    "length nodes - f \<le> card (fst ` set nodes \<inter> set participants)"
    "env_verify_multi_sig env ms v keys = Some True"
    using verify_proof_signature_True [OF s assms(2,3)] .
  ultimately show ?thesis using root unfolding quorum_signed_def Let_def by blast
qed

lemma verify_parsed_sp_all:
  "verify_parsed_sp env checks fuel nodes f sps = Some (Ok True) \<longleftrightarrow>
     (\<forall>sp \<in> set sps. verify_one_sp env checks fuel nodes f sp = Some (Ok True))"
  by (induction sps) auto

section \<open>Audit paths\<close>

text \<open>The turns from a leaf to the root, by recursion over the ledger's size.\<close>

function turns :: "nat \<Rightarrow> nat \<Rightarrow> bool list" where
  "turns n idx =
     (if n \<le> 1 then []
      else let m = pow2_below n in
           if idx < m then turns m idx @ [True] else turns (n - m) (idx - m) @ [False])"
  by pat_completeness auto
termination
proof (relation "measure fst", goal_cases)
  case (2 n idx m)
  then show ?case using pow2_below_bounds [of n] by simp
next
  case (3 n idx m)
  then show ?case using pow2_below_bounds [of n] by simp
qed simp

declare turns.simps [simp del]

lemma turns_step:
  assumes "2 ^ j < n" and "n \<le> 2 ^ Suc j"
  shows "turns n idx =
    (if idx < 2 ^ j then turns (2 ^ j) idx @ [True] else turns (n - 2 ^ j) (idx - 2 ^ j) @ [False])"
proof -
  have "1 < n" using assms(1) one_le_power [of "2 :: nat" j] by linarith
  with pow2_below_power [OF assms] show ?thesis by (subst turns.simps) (simp add: Let_def)
qed

lemma calculate_turns_loop_eq:
  "0 < n \<Longrightarrow> n \<le> 2 ^ 63 \<Longrightarrow> calculate_turns_loop checks n idx result = Some (Ok (turns n idx @ result))"
proof (induction n arbitrary: idx result rule: less_induct)
  case (less n)
  show ?case
  proof (cases "n = 1")
    case True
    then show ?thesis by (simp add: calculate_turns_loop.simps turns.simps)
  next
    case False
    with less.prems have "1 < n" by simp
    with ex_power_bounds obtain j where j: "2 ^ j < n" "n \<le> 2 ^ Suc j" by blast
    have "next_power_of_two checks n = Ok (2 ^ Suc j)"
      using next_power_of_two_half [OF j less.prems(2)] .
    then have "calculate_turns_loop checks n idx result =
        (if idx < 2 ^ j then calculate_turns_loop checks (2 ^ j) idx (True # result)
         else calculate_turns_loop checks (n - 2 ^ j) (idx - 2 ^ j) (False # result))"
      using False by (subst calculate_turns_loop.simps) simp
    with less.IH [of "2 ^ j"] less.IH [of "n - 2 ^ j"] j less.prems(2) show ?thesis
      by (simp add: turns_step [OF j])
  qed
qed

lemma calculate_turns_loop_nonzero:
  "calculate_turns_loop checks len idx result = Some r \<Longrightarrow> len \<noteq> 0"
proof (erule calculate_turns_loop.raw_induct [rotated], goal_cases)
  case (1 loop checks len idx result r)
  show ?case
  proof
    assume "len = 0"
    with 1(2) have "loop checks 0 idx (False # result) = Some r"
      by (simp add: next_power_of_two_def pow2_from.simps)
    with 1(1) show False by blast
  qed
qed

lemma climb_path_append:
  "climb_path env h (ps @ qs) = Option.bind (climb_path env h ps) (\<lambda>h'. climb_path env h' qs)"
  by (induction env h ps rule: climb_path.induct) (auto split: option.splits)

lemma climb_path_length:
  "sha256_sized (env_sha256 env) \<Longrightarrow> length h = HASHBYTES \<Longrightarrow> climb_path env h ps = Some h' \<Longrightarrow>
     length h' = HASHBYTES"
  by (induction env h ps rule: climb_path.induct) (auto split: option.splits if_splits)

lemma climb_path_sound:
  assumes "sha256_sized (env_sha256 env)" and "\<not> collision (env_sha256 env)" and "vs \<noteq> []"
    and "climb_path env (hash_leaf (env_sha256 env) leaf) (zip hashes (turns (length vs) idx)) =
      Some (tree_hash (tree_of (env_sha256 env) vs))"
    and "length hashes = length (turns (length vs) idx)"
  shows "leaf = vs ! min idx (length vs - 1)"
  using assms(3-5)
proof (induction vs arbitrary: hashes idx rule: split_induct)
  case (single v)
  then show ?case
    using hash_leaf_inj [of "env_sha256 env" leaf v] assms(2) by (simp add: turns.simps new_leaf_def)
next
  case (split vs j)
  let ?sha = "env_sha256 env" and ?h = "hash_leaf (env_sha256 env) leaf" and ?k = "2 ^ j :: nat"
  let ?sub = "if idx < ?k then turns ?k idx else turns (length vs - ?k) (idx - ?k)"
  note st = turns_step [OF split.hyps, of idx]
  from split.prems(2) st obtain hs nh where hs: "hashes = hs @ [nh]" "length hs = length ?sub"
    by (cases hashes rule: rev_cases) (auto split: if_splits)
  from split.prems(1) hs st obtain h1 n1 where h1: "climb_path env ?h (zip hs ?sub) = Some h1"
    and n1: "env_from_b58 env nh = Some n1"
    and root: "(if idx < ?k then hash_nodes ?sha h1 n1 else hash_nodes ?sha n1 h1) =
      tree_hash (tree_of ?sha vs)"
    by (auto simp: climb_path_append split: if_splits option.splits bind_splits)
  have l1: "length h1 = HASHBYTES" using climb_path_length [OF assms(1) _ h1] assms(1) by simp
  have ne: "take ?k vs \<noteq> []" "drop ?k vs \<noteq> []" using split.hyps by auto
  have lens: "length (tree_hash (tree_of ?sha (take ?k vs))) = HASHBYTES"
    "length (tree_hash (tree_of ?sha (drop ?k vs))) = HASHBYTES"
    using ne assms(1) by simp_all
  note sp = tree_of_split [OF split.hyps, of ?sha]
  show ?case
  proof (cases "idx < ?k")
    case True
    with root sp have "h1 = tree_hash (tree_of ?sha (take ?k vs))"
      using hash_nodes_inj [of ?sha h1 n1] assms(2) l1 lens by fastforce
    moreover have "length (take ?k vs) = ?k" using split.hyps by simp
    ultimately have "leaf = take ?k vs ! min idx (?k - 1)"
      using split.IH(1) [of hs idx] h1 hs(2) True by simp
    moreover have "min idx (?k - 1) = idx" "min idx (length vs - 1) = idx"
      using True split.hyps(1) by auto
    ultimately show ?thesis using True by simp
  next
    case False
    with root sp have "h1 = tree_hash (tree_of ?sha (drop ?k vs))"
      using hash_nodes_inj [of ?sha n1 h1] assms(2) l1 lens by fastforce
    then have "leaf = drop ?k vs ! min (idx - ?k) (length vs - ?k - 1)"
      using split.IH(2) [of hs "idx - ?k"] h1 hs(2) False by simp
    moreover have "?k + min (idx - ?k) (length vs - ?k - 1) = min idx (length vs - 1)"
      using False split.hyps(1) by auto
    ultimately show ?thesis using split.hyps(1) by simp
  qed
qed

section \<open>Ranges\<close>

lemma sorted_strict:
  fixes keys :: "nat list"
  shows "sorted keys \<Longrightarrow> distinct keys \<Longrightarrow> sorted_wrt (<) keys"
  by (simp add: strict_sorted_iff)

lemma select_range_spec:
  assumes "sorted_wrt (<) (map fst es)" and "select_range es from nxt = Some part"
  shows "part = filter (\<lambda>e. (case from of Some a \<Rightarrow> a \<le> fst e | None \<Rightarrow> True) \<and>
      (case nxt of Some b \<Rightarrow> fst e < b | None \<Rightarrow> True)) es"
    and "\<And>b. nxt = Some b \<Longrightarrow> b \<in> fst ` set es"
proof -
  define ge where "ge = (\<lambda>e :: nat \<times> string \<times> string option. case from of Some a \<Rightarrow> a \<le> fst e | None \<Rightarrow> True)"
  define ws where "ws = (case from of
      Some a \<Rightarrow> drop (case binary_search (map fst es) a of Inl i \<Rightarrow> i | Inr i \<Rightarrow> i) es | None \<Rightarrow> es)"
  have ws: "ws = filter ge es"
  proof (cases "from")
    case (Some a)
    note bs = binary_search_split [OF assms(1) refl refl, of a]
    have "filter (\<lambda>e. \<not> fst e < a) es = drop (case binary_search (map fst es) a of Inl i \<Rightarrow> i | Inr i \<Rightarrow> i) es"
      using bs(1-3) by (intro filter_split_nth(2)) auto
    with Some show ?thesis by (simp add: ws_def ge_def not_less)
  qed (simp add: ws_def ge_def)
  have sub: "sorted_wrt (<) (map fst ws)"
    using assms(1) unfolding ws by (simp add: sorted_wrt_map sorted_wrt_filter)
  have "part = filter (\<lambda>e. case nxt of Some b \<Rightarrow> fst e < b | None \<Rightarrow> True) ws \<and>
      (\<forall>b. nxt = Some b \<longrightarrow> b \<in> fst ` set ws)"
  proof (cases nxt)
    case (Some b)
    with assms(2) obtain i where i: "binary_search (map fst ws) b = Inl i" "part = take i ws"
      by (auto simp: select_range_def Let_def ws_def split: sum.splits)
    note bs = binary_search_split [OF sub i(1) refl]
    have "filter (\<lambda>e. fst e < b) ws = take i ws" using bs(1-3) by (intro filter_split_nth(1)) auto
    moreover have "b \<in> fst ` set ws" using bs(4) by simp
    ultimately show ?thesis using Some i(2) by simp
  qed (use assms(2) in \<open>simp add: select_range_def Let_def ws_def\<close>)
  then show "part = filter (\<lambda>e. (case from of Some a \<Rightarrow> a \<le> fst e | None \<Rightarrow> True) \<and>
      (case nxt of Some b \<Rightarrow> fst e < b | None \<Rightarrow> True)) es"
    and "\<And>b. nxt = Some b \<Longrightarrow> b \<in> fst ` set es"
    unfolding ws by (auto simp: ge_def conj_commute)
qed

section \<open>A sample environment\<close>

text \<open>Simple stand-ins for the third-party code, for the witnesses below. The item encoding is
  prefix free, so it is injective.\<close>

definition enc_len :: "nat \<Rightarrow> bytes" where
  "enc_len n = replicate n 1 @ [0]"

fun sample_rlp_encode :: "rlp \<Rightarrow> bytes" where
  "sample_rlp_encode (Data d) = 0 # enc_len (length d) @ d"
| "sample_rlp_encode (List xs) = 1 # enc_len (length xs) @ concat (map sample_rlp_encode xs)"

definition sample_leaf :: Node where
  "sample_leaf = Node_Leaf [0x20, 0x31] [9]"

definition sample_env :: SPEnv where
  "sample_env =
     \<lparr>env_sha256 = \<lambda>x. replicate 32 (of_nat (length x)),
      env_sha3 = \<lambda>x. x,
      env_rlp_decode =
        \<lambda>bs. if bs = [9] then Some (List [Data (str_bytes ''a'')])
             else if bs = [8] then Some (List [List [Data [], Data []]])
             else Some (List [rlp_append sample_leaf]),
      env_rlp_encode = sample_rlp_encode,
      env_from_b58 = \<lambda>s. Some (str_bytes s),
      env_from_b64 = \<lambda>s. Some (str_bytes s),
      env_to_b64 = \<lambda>bs. map (\<lambda>b. char_of (unat b)) bs,
      env_hex = \<lambda>bs. map (\<lambda>b. char_of (unat b)) bs,
      env_from_str =
        \<lambda>s. if s = ''[]'' then Some (Value_Array [])
            else if s = ''[h]'' then Some (Value_Array [Value_String ''h''])
            else Some (Value_String s),
      env_to_string = \<lambda>_. [],
      env_rmp = \<lambda>_. Some [7],
      env_rmp_named = \<lambda>_. Some [5],
      env_multisig = Some,
      env_verify_multi_sig = \<lambda>_ _ _. Some True,
      env_sp_parser = \<lambda>_. None,
      env_protocol_version = 2\<rparr>"

lemma enc_len_inj: "enc_len m @ x = enc_len n @ y \<Longrightarrow> m = n \<and> x = y"
proof (induction m arbitrary: n)
  case 0
  then show ?case by (cases n) (auto simp: enc_len_def)
next
  case (Suc m)
  then show ?case by (cases n) (auto simp: enc_len_def)
qed

lemma sample_rlp_encode_prefix_free:
  "sample_rlp_encode r @ x = sample_rlp_encode r' @ y \<Longrightarrow> r = r' \<and> x = y"
proof (induction r arbitrary: r' x y)
  case (Data d)
  then show ?case by (cases r') (auto dest!: enc_len_inj)
next
  case (List xs)
  have concat: "length xs' = length ys \<Longrightarrow> set xs' \<subseteq> set xs \<Longrightarrow>
      concat (map sample_rlp_encode xs') @ x = concat (map sample_rlp_encode ys) @ y \<Longrightarrow>
      xs' = ys \<and> x = y" for xs' ys
  proof (induction xs' arbitrary: ys)
    case (Cons a xs')
    then obtain b ys' where ys: "ys = b # ys'" by (cases ys) auto
    from Cons.prems ys have "sample_rlp_encode a @ concat (map sample_rlp_encode xs') @ x =
        sample_rlp_encode b @ concat (map sample_rlp_encode ys') @ y" by simp
    with List.IH [of a] Cons.prems(2) have "a = b" "concat (map sample_rlp_encode xs') @ x =
        concat (map sample_rlp_encode ys') @ y" by auto
    with Cons.IH [of ys'] Cons.prems ys show ?case by auto
  qed simp
  from List.prems show ?case
  proof (cases r')
    case (List ys)
    with \<open>sample_rlp_encode (rlp.List xs) @ x = sample_rlp_encode r' @ y\<close>
    have "length xs = length ys \<and> concat (map sample_rlp_encode xs) @ x =
        concat (map sample_rlp_encode ys) @ y"
      by (auto dest!: enc_len_inj)
    with concat [of xs ys] List show ?thesis by simp
  qed simp
qed

lemma inj_sample_rlp_encode: "inj sample_rlp_encode"
  using sample_rlp_encode_prefix_free [of _ "[]" _ "[]"] by (auto intro: injI)

section \<open>Properties\<close>

text \<open>
  C11: The root hash of a state trie binds every key to one value: two proofs, whatever node
  sets they carry, cannot be accepted for different values of one key under one root hash,
  unless SHA3 has a collision. Assumed is that RLP encodes different items differently.
\<close>

theorem state_proof_binding:
  assumes "verify_proof env fuel p1 rh key v1 = Some (Ok True)"
    and "verify_proof env fuel' p2 rh key v2 = Some (Ok True)"
    and "inj (env_rlp_encode env)"
  shows "v1 = v2 \<or> collision (env_sha3 env)"
proof (rule disjCI)
  assume nc: "\<not> collision (env_sha3 env)"
  obtain db root where db: "db_ok (env_sha3 env) (env_rlp_encode env) db" "hm_get db rh = Some root"
    "get_str_value (env_rlp_decode env) db fuel root key = Some (Ok v1)"
    using verify_proof_accepted [OF assms(1)] .
  obtain db' root' where db': "db_ok (env_sha3 env) (env_rlp_encode env) db'"
    "hm_get db' rh = Some root'" "get_str_value (env_rlp_decode env) db' fuel' root' key = Some (Ok v2)"
    using verify_proof_accepted [OF assms(2)] .
  have "root' = root" using db_ok_same_node [OF db(1) db'(1) assms(3) nc db(2) db'(2)] ..
  with get_str_value_agree [OF db(1) db'(1) assms(3) nc db(3)] db'(3) show "v1 = v2" by simp
qed

theorem state_proof_binding_witness:
  "verify_proof sample_env 1 [1] (sample_rlp_encode (rlp_append sample_leaf)) (str_bytes ''1'') (Some ''a'') = Some (Ok True) \<and>
   verify_proof sample_env 1 [2] (sample_rlp_encode (rlp_append sample_leaf)) (str_bytes ''1'') (Some ''a'') = Some (Ok True) \<and>
   inj (env_rlp_encode sample_env) \<and> (Some ''a'' = Some ''a'' \<or> collision (env_sha3 sample_env))"
proof -
  have v: "verify_proof sample_env 1 p (sample_rlp_encode (rlp_append sample_leaf)) (str_bytes ''1'') (Some ''a'') =
      Some (Ok True)" if "p \<in> {[1], [2]}" for p
    using that by (auto simp: verify_proof_def sample_env_def sample_leaf_def proof_node_list_def
        rlp_node_pair IS_LEAF_MASK_def IS_PATH_ODD_MASK_def trie_db_def get_hash_def Let_def
        get_str_value_def get_value_def get_value_node_def path_to_nibbles_def rlp_value_list_def
        from_utf8_ascii rlp_node.simps(1) str_bytes_def [of "''1''"])
  have i: "inj (env_rlp_encode sample_env)" by (simp add: sample_env_def inj_sample_rlp_encode)
  from state_proof_binding [OF v v i, of "[1]" "[2]"] v i show ?thesis by auto
qed





text \<open>
  The size of the ledger that a reply claims is not covered by the check: for every hash
  function, the third entry of a ledger of three is accepted as the entry with sequence number
  2 when the reply claims that the ledger has two entries.
\<close>

theorem audit_path_size_not_bound:
  assumes "from_utf8 proof_nodes = Some nodes_text"
    and "env_from_str env nodes_text = Some (Value_Array [Value_String h])"
    and "env_from_b58 env h =
      Some (hash_nodes (env_sha256 env) (hash_leaf (env_sha256 env) a) (hash_leaf (env_sha256 env) b))"
    and "Option.bind (Option.bind (env_from_b64 env key) from_utf8) parse_u64 = Some 2"
    and "Option.bind (env_from_str env v) (env_rmp env) = Some c"
  shows "verify_merkle_tree env checks proof_nodes (rfc6962_hash (env_sha256 env) [a, b, c])
    [(key, Some v)] 2 = Some (Ok True)"
proof -
  have "turns 2 1 = [False]" by (simp add: turns.simps pow2_below.simps)
  then have t: "calculate_turns checks 2 1 = Some (Ok [False])"
    using calculate_turns_loop_eq [of 2 checks 1 "[]"] by (simp add: calculate_turns_def)
  have "rfc6962_hash (env_sha256 env) [a, b, c] = hash_nodes (env_sha256 env)
      (hash_nodes (env_sha256 env) (hash_leaf (env_sha256 env) a) (hash_leaf (env_sha256 env) b))
      (hash_leaf (env_sha256 env) c)"
    by (simp add: rfc6962_hash.simps pow2_below.simps Let_def)
  with assms t show ?thesis
    by (simp add: verify_merkle_tree_def usize_sub_def parse_string_vec_def)
qed

theorem audit_path_size_not_bound_witness:
  "let env = sample_env\<lparr>env_from_b58 := \<lambda>_. Some (hash_nodes (env_sha256 sample_env)
         (hash_leaf (env_sha256 sample_env) [1]) (hash_leaf (env_sha256 sample_env) [2]))\<rparr>
   in verify_merkle_tree env True (str_bytes ''[h]'') (rfc6962_hash (env_sha256 env) [[1], [2], [7]])
        [(''2'', Some ''x'')] 2 = Some (Ok True)"
proof -
  let ?env = "sample_env\<lparr>env_from_b58 := \<lambda>_. Some (hash_nodes (env_sha256 sample_env)
         (hash_leaf (env_sha256 sample_env) [1]) (hash_leaf (env_sha256 sample_env) [2]))\<rparr>"
  have u: "from_utf8 (str_bytes ''[h]'') = Some ''[h]''" "from_utf8 (str_bytes ''2'') = Some ''2''"
    by (simp_all add: from_utf8_ascii)
  have n: "parse_u64 ''2'' = Some 2" by (simp add: parse_u64_def digit_of_def)
  have j: "env_from_str ?env ''[h]'' = Some (Value_Array [Value_String ''h''])"
    "Option.bind (Option.bind (env_from_b64 ?env ''2'') from_utf8) parse_u64 = Some 2"
    "Option.bind (env_from_str ?env ''x'') (env_rmp ?env) = Some [7]"
    by (simp_all add: sample_env_def u n)
  have b: "env_from_b58 ?env ''h'' = Some (hash_nodes (env_sha256 ?env)
      (hash_leaf (env_sha256 ?env) [1]) (hash_leaf (env_sha256 ?env) [2]))"
    by simp
  from audit_path_size_not_bound [OF u(1) j(1) b j(2,3), of True] show ?thesis
    unfolding Let_def .
qed

text \<open>
  A reply that claims an empty ledger makes the computation of the turns run for ever,
  for every index; for every size from 1 to \<open>2^63\<close> it returns, with one turn per level.
\<close>

theorem calculate_turns_termination:
  "calculate_turns checks 0 idx = None \<and>
   (0 < len \<and> len \<le> 2 ^ 63 \<longrightarrow> calculate_turns checks len idx = Some (Ok (turns len idx)))"
proof -
  have "calculate_turns checks 0 idx = None"
    using calculate_turns_loop_nonzero [of checks 0 idx "[]"] unfolding calculate_turns_def
    by (cases "calculate_turns_loop checks 0 idx []") auto
  then show ?thesis using calculate_turns_loop_eq [of len] by (simp add: calculate_turns_def)
qed

theorem calculate_turns_termination_witness:
  "calculate_turns True 5 2 = Some (Ok [True, False, True]) \<and> calculate_turns True 0 2 = None"
proof -
  have "turns 5 2 = [True, False, True]" by (simp add: turns.simps pow2_below.simps)
  with calculate_turns_termination [of True 2 5] show ?thesis by simp
qed

text \<open>
  An accepted range reply holds exactly the entries of the trie whose numbers lie in the
  requested half-open interval, in ascending order, and the number announced as the next one
  is in the trie, provided that no number occurs twice.
\<close>

theorem proof_range_exact:
  assumes "verify_proof_range env fuel proofs_rlp rh prefix from nxt kv = Some (Ok True)"
  shows "\<exists>nodes root vals. proof_node_list (env_rlp_decode env) proofs_rlp = Ok nodes \<and>
    (let db = trie_db (env_sha3 env) (env_rlp_encode env) nodes;
         es = sort_key fst (map the (numbered prefix vals))
     in hm_get db rh = Some root \<and>
        get_all_values (env_rlp_decode env) db fuel root (Some (str_bytes prefix)) = Some (Ok vals) \<and>
        (distinct (map fst es) \<longrightarrow>
          kv = map snd (filter (\<lambda>e. (case from of Some a \<Rightarrow> a \<le> fst e | None \<Rightarrow> True) \<and>
                                    (case nxt of Some b \<Rightarrow> fst e < b | None \<Rightarrow> True)) es) \<and>
          (\<forall>b. nxt = Some b \<longrightarrow> b \<in> fst ` set es)))"
proof -
  from assms obtain nodes where nodes: "proof_node_list (env_rlp_decode env) proofs_rlp = Ok nodes"
    by (auto simp: verify_proof_range_def)
  let ?db = "trie_db (env_sha3 env) (env_rlp_encode env) nodes"
  from assms nodes obtain root vals part where r: "hm_get ?db rh = Some root"
    "get_all_values (env_rlp_decode env) ?db fuel root (Some (str_bytes prefix)) = Some (Ok vals)"
    and part: "select_range (sort_key fst (map the (numbered prefix vals))) from nxt = Some part"
    "map snd part = kv"
    by (auto simp: verify_proof_range_def Let_def split: option.splits outcome.splits if_splits)
  have "kv = map snd (filter (\<lambda>e. (case from of Some a \<Rightarrow> a \<le> fst e | None \<Rightarrow> True) \<and>
          (case nxt of Some b \<Rightarrow> fst e < b | None \<Rightarrow> True)) (sort_key fst (map the (numbered prefix vals)))) \<and>
        (\<forall>b. nxt = Some b \<longrightarrow> b \<in> fst ` set (sort_key fst (map the (numbered prefix vals))))"
    if "distinct (map fst (sort_key fst (map the (numbered prefix vals))))"
    using select_range_spec [OF sorted_strict [OF _ that] part(1)] part(2) by auto
  with nodes r show ?thesis unfolding Let_def by blast
qed

theorem proof_range_exact_witness:
  "verify_proof_range sample_env 1 [1] (sample_rlp_encode (rlp_append sample_leaf)) [] None None
     [(''1'', Some ''a'')] = Some (Ok True) \<and>
   (\<exists>nodes. proof_node_list (env_rlp_decode sample_env) [1] = Ok nodes)"
proof -
  have n: "parse_u64 ''1'' = Some 1" by (simp add: parse_u64_def digit_of_def)
  have u: "from_utf8 (str_bytes ''a'') = Some ''a''" "from_utf8 [0x31] = Some ''1''"
    using from_utf8_ascii [of "''1''"] by (simp_all add: from_utf8_ascii str_bytes_def [of "''1''"])
  have v: "verify_proof_range sample_env 1 [1] (sample_rlp_encode (rlp_append sample_leaf)) [] None None
     [(''1'', Some ''a'')] = Some (Ok True)"
    by (simp add: verify_proof_range_def sample_env_def sample_leaf_def proof_node_list_def
        rlp_node_pair IS_LEAF_MASK_def IS_PATH_ODD_MASK_def trie_db_def get_hash_def Let_def
        get_all_values_def path_to_nibbles_def rlp_value_list_def nibbles_to_str_def numbered_def
        select_range_def str_bytes_def [of "[]"] n u)
  from proof_range_exact [OF v] v show ?thesis by blast
qed

text \<open>
  A proof with a node whose path is empty makes the decoder read beyond the end of the
  path: the check panics instead of refusing the proof.
\<close>

theorem empty_path_panics:
  assumes "env_rlp_decode env proofs_rlp = Some (List (List [Data [], item] # items))"
  shows "verify_proof env fuel proofs_rlp rh key v = Some Panic"
  using assms by (simp add: verify_proof_def proof_node_list_def rlp_node_pair)

theorem empty_path_panics_witness:
  "verify_proof sample_env 1 [8] [1] [2] (Some ''a'') = Some Panic"
proof -
  have "env_rlp_decode sample_env [8] = Some (List (List [Data [], Data []] # []))"
    by (simp add: sample_env_def)
  from empty_path_panics [OF this] show ?thesis .
qed

end
