(* ===== verification/Catchup.thy ===== *)
theory Catchup
  imports Pool_Ledger Merkle_Consistency State_Proof
begin

text \<open>
  Catch-up of the pool ledger (\<open>libindy/src/services/pool/catchup.rs\<close>; the catch-up reply of
  \<open>request_handler.rs\<close> and \<open>CatchupRep::min_tx\<close> of \<open>types.rs\<close>): the vote of the nodes on the
  target, its comparison with the local tree, and the replay of the transactions a node sends.

  The pool's files are threaded through the operations that drop, rebuild or extend the cache.
  \<open>checks\<close> says whether the build checks unsigned subtraction, as in \<open>usize_sub\<close>.
\<close>

section \<open>Requests and replies\<close>

record CatchupReq =
  cr_ledgerId :: nat
  cr_seqNoStart :: nat
  cr_seqNoEnd :: nat
  cr_catchupTill :: nat

record CatchupRep =
  rep_ledgerId :: nat
  rep_consProof :: "string list"
  rep_txns :: "(string \<times> SJsonValue) list"

record LedgerStatus =
  ls_txnSeqNo :: nat
  ls_merkleRoot :: string
  ls_ledgerId :: nat
  ls_ppSeqNo :: "nat option"
  ls_viewNo :: "nat option"
  ls_protocolVersion :: "nat option"

record ConsistencyProof =
  cp_seqNoEnd :: nat
  cp_seqNoStart :: nat
  cp_ledgerId :: nat
  cp_hashes :: "string list"
  cp_oldMerkleRoot :: string
  cp_newMerkleRoot :: string

text \<open>The pool's third-party code and process-wide values, besides those of state proofs.\<close>

record PoolEnv = SPEnv +
  env_to_b58 :: "bytes \<Rightarrow> string"
  env_catchup_req_json :: "CatchupReq \<Rightarrow> string"
  env_ledger_status_json :: "LedgerStatus \<Rightarrow> string"
  env_node_txn_decode :: "bytes \<Rightarrow> NodeTransaction option"
  env_freshness_threshold :: nat
  env_cur_time :: nat

datatype CatchupProgress =
    ShouldBeStarted bytes nat MerkleTree
  | NotNeeded MerkleTree
  | Restart MerkleTree
  | InProgress

definition build_catchup_req ::
    "'a PoolEnv_scheme \<Rightarrow> MerkleTree \<Rightarrow> nat \<Rightarrow> (string \<times> string) option outcome" where
  "build_catchup_req env merkle target_mt_size =
     (if target_mt_size \<le> mt_count merkle then Ok None
      else
        let seq_no_start = mt_count merkle + 1; seq_no_end = target_mt_size;
            cr = \<lparr>cr_ledgerId = 0, cr_seqNoStart = seq_no_start, cr_seqNoEnd = seq_no_end,
                  cr_catchupTill = target_mt_size\<rparr>
        in Ok (Some (show_nat seq_no_start @ show_nat seq_no_end, env_catchup_req_json env cr)))"

section \<open>The vote on the target\<close>

type_synonym vote = "string \<times> nat \<times> string list option"

definition check_cons_proofs ::
    "'a PoolEnv_scheme \<Rightarrow> MerkleTree \<Rightarrow> string list \<Rightarrow> bytes \<Rightarrow> nat \<Rightarrow> unit outcome" where
  "check_cons_proofs env mt cons_proofs target_mt_root target_mt_size =
     and_then
       (map_outcome_list (\<lambda>p. ok_or InvalidStructure (env_from_b58 env p)) cons_proofs) (\<lambda>bytes_proofs.
     and_then (consistency_proof (env_sha256 env) mt target_mt_root target_mt_size bytes_proofs)
       (\<lambda>ok. if \<not> ok then Err InvalidState else Ok ()))"

definition try_to_catch_up :: "'a PoolEnv_scheme \<Rightarrow> vote \<Rightarrow> MerkleTree \<Rightarrow> CatchupProgress outcome" where
  "try_to_catch_up env ledger_status merkle_tree =
     (let (target_mt_root, target_mt_size, hashes) = ledger_status;
          cur_mt_size = mt_count merkle_tree;
          cur_mt_hash = env_to_b58 env (root_hash merkle_tree)
      in if target_mt_size = cur_mt_size then
           (if cur_mt_hash = target_mt_root then Ok (NotNeeded merkle_tree) else Err InvalidState)
         else if cur_mt_size < target_mt_size then
           and_then (ok_or InvalidStructure (env_from_b58 env target_mt_root)) (\<lambda>root.
           and_then
             (case hashes of
                None \<Rightarrow> Ok ()
              | Some hs \<Rightarrow> check_cons_proofs env merkle_tree hs root target_mt_size) (\<lambda>_.
           Ok (ShouldBeStarted root target_mt_size merkle_tree)))
         else Err InvalidState)"

abbreviation pool_create :: "'a PoolEnv_scheme \<Rightarrow> PoolFiles \<Rightarrow> MerkleTree outcome" where
  "pool_create env \<equiv> create (env_sha256 env) (env_from_str env) (env_rmp_named env)"

definition try_to_restart_catch_up ::
    "'a PoolEnv_scheme \<Rightarrow> PoolFiles \<Rightarrow> IndyErrorKind \<Rightarrow> CatchupProgress outcome \<times> PoolFiles" where
  "try_to_restart_catch_up env fs err =
     (case drop_cache fs of
        (Ok _, fs') \<Rightarrow> (map_ok Restart (pool_create env fs'), fs')
      | (_, fs') \<Rightarrow> (Err err, fs'))"

definition if_consensus_reachable ::
    "'a PoolEnv_scheme \<Rightarrow> bool \<Rightarrow> PoolFiles \<Rightarrow> (vote \<times> string list) list \<Rightarrow> nat \<Rightarrow> nat \<Rightarrow> nat \<Rightarrow>
     CatchupProgress outcome \<times> PoolFiles" where
  "if_consensus_reachable env checks fs nodes_votes node_cnt votes_cnt f =
     (let reps_cnt = sum_list (map length (hm_values nodes_votes)) in
      case and_then (usize_sub checks node_cnt reps_cnt) (\<lambda>left.
           and_then (usize_add checks votes_cnt left) (\<lambda>positive_votes_cnt.
           map_ok (\<lambda>quorum. positive_votes_cnt < quorum) (usize_sub checks node_cnt f))) of
        Ok True \<Rightarrow> try_to_restart_catch_up env fs PoolTimeout
      | Ok False \<Rightarrow> (Ok InProgress, fs)
      | Err e \<Rightarrow> (Err e, fs)
      | Panic \<Rightarrow> (Panic, fs))"

text \<open>\<open>max_by_key\<close> keeps the last of several maxima.\<close>

fun max_by_cnt :: "(vote \<times> nat) list \<Rightarrow> (vote \<times> nat) option" where
  "max_by_cnt [] = None"
| "max_by_cnt (e # es) =
     (case max_by_cnt es of
        None \<Rightarrow> Some e
      | Some m \<Rightarrow> if snd e \<le> snd m then Some m else Some e)"

definition check_nodes_responses_on_status ::
    "'a PoolEnv_scheme \<Rightarrow> bool \<Rightarrow> PoolFiles \<Rightarrow> (vote \<times> string list) list \<Rightarrow> MerkleTree \<Rightarrow> nat \<Rightarrow> nat \<Rightarrow>
     CatchupProgress outcome \<times> PoolFiles" where
  "check_nodes_responses_on_status env checks fs nodes_votes merkle_tree node_cnt f =
     (let counted = map (\<lambda>(key, val). (key, length val)) nodes_votes;
          votes = filter (\<lambda>((root, _, _), _). root \<noteq> ''timeout'') counted;
          timeout_votes = filter (\<lambda>((root, _, _), _). root = ''timeout'') counted
      in case max_by_cnt votes of
           Some (vote, votes_cnt) \<Rightarrow>
             if votes_cnt = f + 1 then
               (case try_to_catch_up env vote merkle_tree of
                  Err err \<Rightarrow>
                    (case drop_cache fs of
                       (Ok _, fs') \<Rightarrow>
                         (and_then (pool_create env fs') (\<lambda>mt. try_to_catch_up env vote mt), fs')
                     | (_, fs') \<Rightarrow> (Err err, fs'))
                | r \<Rightarrow> (r, fs))
             else if_consensus_reachable env checks fs nodes_votes node_cnt votes_cnt f
         | None \<Rightarrow>
             (if timeout_votes = [] then (Ok InProgress, fs)
              else
                let votes_cnt = snd (last timeout_votes) in
                case usize_sub checks node_cnt f of
                  Ok quorum \<Rightarrow>
                    (if votes_cnt = quorum then try_to_restart_catch_up env fs PoolTimeout
                     else if_consensus_reachable env checks fs nodes_votes node_cnt votes_cnt f)
                | Err e \<Rightarrow> (Err e, fs)
                | Panic \<Rightarrow> (Panic, fs)))"

section \<open>Replies with transactions\<close>

fun min_tx_loop :: "(string \<times> SJsonValue) list \<Rightarrow> nat option \<Rightarrow> nat option outcome" where
  "min_tx_loop [] m = Ok m"
| "min_tx_loop ((k, _) # txns) m =
     and_then (ok_or InvalidStructure (parse_u64 k)) (\<lambda>val.
       min_tx_loop txns
         (case m of None \<Rightarrow> Some val | Some m0 \<Rightarrow> if val < m0 then Some val else Some m0))"

definition min_tx :: "CatchupRep \<Rightarrow> nat outcome" where
  "min_tx rep = and_then (min_tx_loop (rep_txns rep) None) (ok_or InvalidStructure)"

lemma length_hm_remove: "hm_get m k = Some v \<Longrightarrow> Suc (length (hm_remove m k)) = length m"
  by (induction m k rule: hm_remove.induct) (auto split: if_splits)

text \<open>
  The loop of \<open>_process_catchup_reply\<close>: the \<open>unwrap\<close> of the removed entry panics when the key is
  not written as the number prints.
\<close>

function replay_txns ::
    "'a PoolEnv_scheme \<Rightarrow> CatchupRep \<Rightarrow> MerkleTree \<Rightarrow> bytes list \<Rightarrow> (MerkleTree \<times> bytes list) outcome" where
  "replay_txns env rep merkle txns_to_drop =
     (if rep_txns rep = [] then Ok (merkle, txns_to_drop)
      else
        and_then (min_tx rep) (\<lambda>key.
          case hm_get (rep_txns rep) (show_nat key) of
            None \<Rightarrow> Panic
          | Some t \<Rightarrow>
              and_then (ok_or InvalidStructure (env_rmp_named env t)) (\<lambda>b.
              and_then (mt_append (env_sha256 env) merkle b) (\<lambda>merkle'.
                replay_txns env (rep\<lparr>rep_txns := hm_remove (rep_txns rep) (show_nat key)\<rparr>)
                  merkle' (txns_to_drop @ [b])))))"
  by pat_completeness auto
termination
  by (relation "measure (\<lambda>(env, rep, mt, ts). length (rep_txns rep))") (auto dest!: length_hm_remove)

declare replay_txns.simps [simp del]

definition process_catchup_reply ::
    "'a PoolEnv_scheme \<Rightarrow> PoolFiles \<Rightarrow> CatchupRep \<Rightarrow> MerkleTree \<Rightarrow> bytes \<Rightarrow> nat \<Rightarrow>
     MerkleTree outcome \<times> PoolFiles" where
  "process_catchup_reply env fs rep merkle target_mt_root target_mt_size =
     (case and_then (replay_txns env rep merkle []) (\<lambda>(merkle', txns_to_drop).
             map_ok (\<lambda>_. (merkle', txns_to_drop))
               (check_cons_proofs env merkle' (rep_consProof rep) target_mt_root target_mt_size)) of
        Ok (merkle', txns_to_drop) \<Rightarrow>
          (case dump_new_txns (env_from_str env) (env_rmp_named env) fs txns_to_drop of
             (Ok _, fs') \<Rightarrow> (Ok merkle', fs')
           | (Err e, fs') \<Rightarrow> (Err e, fs')
           | (Panic, fs') \<Rightarrow> (Panic, fs'))
      | Err e \<Rightarrow> (Err e, fs)
      | Panic \<Rightarrow> (Panic, fs))"

section \<open>Lemmas\<close>

lemma max_by_cnt_in: "max_by_cnt es = Some e \<Longrightarrow> e \<in> set es"
  by (induction es arbitrary: e) (auto split: option.splits if_splits)

lemma max_by_cnt_None: "max_by_cnt es = None \<longleftrightarrow> es = []"
  by (cases es) (auto split: option.splits if_splits)

lemma max_by_cnt_max: "max_by_cnt es = Some m \<Longrightarrow> e \<in> set es \<Longrightarrow> snd e \<le> snd m"
  by (induction es arbitrary: m) (fastforce simp: max_by_cnt_None split: option.splits if_splits)+

lemma check_cons_proofs_Ok:
  assumes "check_cons_proofs env mt hs root n = Ok ()"
  obtains pf where "consistency_proof (env_sha256 env) mt root n pf = Ok True"
  using assms by (auto simp: check_cons_proofs_def split: if_splits)

lemma replay_txns_Ok:
  assumes "replay_txns env rep merkle ts = Ok (merkle', ts')" and "mt_valid (env_sha256 env) merkle"
  shows "\<exists>txns. ts' = ts @ txns \<and> length txns = length (rep_txns rep) \<and>
    mt_valid (env_sha256 env) merkle' \<and> mt_values merkle' = mt_values merkle @ txns \<and>
    log_extend (mt_append (env_sha256 env)) merkle txns = Ok merkle' \<and>
    (\<forall>b \<in> set txns. \<exists>t. env_rmp_named env t = Some b)"
  using assms
proof (induction env rep merkle ts rule: replay_txns.induct)
  case (1 env rep merkle ts)
  show ?case
  proof (cases "rep_txns rep = []")
    case True
    with "1.prems" show ?thesis by (simp add: replay_txns.simps)
  next
    case False
    with "1.prems"(1) obtain key t b m where key: "min_tx rep = Ok key"
      and t: "hm_get (rep_txns rep) (show_nat key) = Some t"
      and b: "env_rmp_named env t = Some b" and m: "mt_append (env_sha256 env) merkle b = Ok m"
      and rec: "replay_txns env (rep\<lparr>rep_txns := hm_remove (rep_txns rep) (show_nat key)\<rparr>) m (ts @ [b]) =
        Ok (merkle', ts')"
      by (subst (asm) replay_txns.simps) (auto split: option.splits)
    have mv: "mt_valid (env_sha256 env) m" "mt_values m = mt_values merkle @ [b]"
      using merkle_log.app_ok [OF "1.prems"(2), of b] m by auto
    have len: "length (hm_remove (rep_txns rep) (show_nat key)) + 1 = length (rep_txns rep)"
      using length_hm_remove [OF t] by simp
    from "1.IH" [OF False key t _ m rec mv(1)] b obtain txns where "ts' = (ts @ [b]) @ txns"
      "length txns = length (hm_remove (rep_txns rep) (show_nat key))"
      "mt_valid (env_sha256 env) merkle'" "mt_values merkle' = mt_values m @ txns"
      "log_extend (mt_append (env_sha256 env)) m txns = Ok merkle'"
      "\<forall>b \<in> set txns. \<exists>t. env_rmp_named env t = Some b"
      by auto
    with b mv len m show ?thesis by (intro exI [of _ "b # txns"]) auto
  qed
qed

lemma process_catchup_reply_Ok:
  assumes "process_catchup_reply env fs rep merkle root n = (Ok merkle', fs')"
    and "mt_valid (env_sha256 env) merkle"
  obtains txns pf where "length txns = length (rep_txns rep)"
    and "mt_valid (env_sha256 env) merkle'" and "mt_values merkle' = mt_values merkle @ txns"
    and "log_extend (mt_append (env_sha256 env)) merkle txns = Ok merkle'"
    and "consistency_proof (env_sha256 env) merkle' root n pf = Ok True"
    and "dump_new_txns (env_from_str env) (env_rmp_named env) fs txns = (Ok (), fs')"
    and "\<forall>b \<in> set txns. \<exists>t. env_rmp_named env t = Some b"
proof -
  from assms(1) obtain txns where r: "replay_txns env rep merkle [] = Ok (merkle', txns)"
    and c: "check_cons_proofs env merkle' (rep_consProof rep) root n = Ok ()"
    and d: "dump_new_txns (env_from_str env) (env_rmp_named env) fs txns = (Ok (), fs')"
    by (auto simp: process_catchup_reply_def split: outcome.splits prod.splits)
  from replay_txns_Ok [OF r assms(2)] check_cons_proofs_Ok [OF c] d that show thesis by force
qed

lemma try_to_catch_up_started:
  assumes "try_to_catch_up env vote mt = Ok (ShouldBeStarted root n mt')"
  shows "mt' = mt" and "env_from_b58 env (fst vote) = Some root" and "n = fst (snd vote)"
    and "mt_count mt < n"
    and "\<And>hs. snd (snd vote) = Some hs \<Longrightarrow> check_cons_proofs env mt hs root n = Ok ()"
  using assms by (auto simp: try_to_catch_up_def Let_def split: if_splits option.splits prod.splits)

text \<open>A target was agreed on: \<open>f + 1\<close> nodes voted for it.\<close>

lemma started_needs_votes:
  assumes "check_nodes_responses_on_status env checks fs votes mt node_cnt f =
      (Ok (ShouldBeStarted root n mt'), fs')"
  obtains vote voters where "(vote, voters) \<in> set votes" and "length voters = f + 1"
    and "fst vote \<noteq> ''timeout''" and "try_to_catch_up env vote mt' = Ok (ShouldBeStarted root n mt')"
proof -
  let ?vs = "filter (\<lambda>((root, _, _), _). root \<noteq> ''timeout'') (map (\<lambda>(key, val). (key, length val)) votes)"
  have "\<not> (\<exists>cnt. if_consensus_reachable env checks fs votes node_cnt cnt f =
      (Ok (ShouldBeStarted root n mt'), fs'))"
    by (auto simp: if_consensus_reachable_def try_to_restart_catch_up_def Let_def
        split: outcome.splits bool.splits prod.splits)
  moreover have "\<not> (\<exists>e. try_to_restart_catch_up env fs e = (Ok (ShouldBeStarted root n mt'), fs'))"
    by (auto simp: try_to_restart_catch_up_def split: outcome.splits prod.splits)
  ultimately obtain vote mt0 where m: "max_by_cnt ?vs = Some (vote, f + 1)"
    and t: "try_to_catch_up env vote mt0 = Ok (ShouldBeStarted root n mt')"
    using assms
    by (auto simp: check_nodes_responses_on_status_def Let_def
        split: option.splits if_splits outcome.splits prod.splits)
  from max_by_cnt_in [OF m] obtain voters where "(vote, voters) \<in> set votes" "length voters = f + 1"
    "fst vote \<noteq> ''timeout''"
    by (auto split: prod.splits)
  with that t try_to_catch_up_started(1) [OF t] show thesis by blast
qed

section \<open>A sample environment\<close>

definition sample_pool_env :: PoolEnv where
  "sample_pool_env = SPEnv.extend sample_env
     (PoolEnv.fields (\<lambda>bs. map (\<lambda>b. char_of (unat b)) bs) (\<lambda>_. []) (\<lambda>_. []) (\<lambda>_. None) 600 1000)"

lemma sample_pool_env_simps [simp]:
  "env_sha256 sample_pool_env = (\<lambda>x. replicate 32 (of_nat (length x)))"
  "env_rmp_named sample_pool_env = (\<lambda>_. Some [5])"
  "env_from_b58 sample_pool_env = (\<lambda>s. Some (str_bytes s))"
  "env_to_b58 sample_pool_env = (\<lambda>bs. map (\<lambda>b. char_of (unat b)) bs)"
  by (simp_all add: sample_pool_env_def sample_env_def SPEnv.defs PoolEnv.defs)

lemma sized_sample: "sha256_sized (env_sha256 sample_pool_env)"
  by (simp add: sha256_sized_def HASHBYTES_def)

definition sample_rep :: CatchupRep where
  "sample_rep = \<lparr>rep_ledgerId = 0, rep_consProof = [], rep_txns = [(''1'', Value_Null)]\<rparr>"

definition sample_files :: PoolFiles where
  "sample_files = \<lparr>stored_btxn = Some [], genesis_txn = None\<rparr>"

definition sample_tree :: MerkleTree where
  "sample_tree = mt_default\<lparr>mt_root := new_leaf (env_sha256 sample_pool_env) [5], mt_count := 1\<rparr>"

lemma sample_tree_from_vec: "from_vec (env_sha256 sample_pool_env) [[5]] = Ok sample_tree"
  by (simp add: from_vec_def build_levels.simps sample_tree_def mt_default_def)

lemma show_1 [simp]: "show_nat 1 = ''1''" "show_nat (Suc 0) = ''1''"
  by (code_simp, code_simp)

lemma parse_1 [simp]: "parse_u64 ''1'' = Some 1" "parse_u64 ''01'' = Some 1"
  by (simp_all add: parse_u64_def digit_of_def)

lemma sample_replay: "replay_txns sample_pool_env sample_rep mt_default [] = Ok (sample_tree, [[5]])"
  by (simp add: replay_txns.simps sample_rep_def min_tx_def mt_append_def sample_tree_def mt_default_def)

lemma sample_process:
  "process_catchup_reply sample_pool_env sample_files sample_rep mt_default (root_hash sample_tree) 1 =
     (Ok sample_tree, sample_files\<lparr>stored_btxn := Some (dump_vec [[5]])\<rparr>)"
proof -
  have "consistency_proof sha sample_tree (root_hash sample_tree) 1 [] = Ok True" for sha
    by (simp add: consistency_proof_def sample_tree_def)
  then have "check_cons_proofs sample_pool_env sample_tree [] (root_hash sample_tree) 1 = Ok ()"
    by (simp add: check_cons_proofs_def)
  moreover have "rep_consProof sample_rep = []" by (simp add: sample_rep_def)
  ultimately show ?thesis
    by (simp add: process_catchup_reply_def sample_replay sample_files_def dump_new_txns_def)
qed

section \<open>Properties\<close>



text \<open>
  The cache agrees with the tree after a catch-up: when the local tree was the one read
  from the pool's files, the tree read from the files after an accepted reply is the new tree.
\<close>

theorem catchup_reply_cached:
  assumes "process_catchup_reply env fs rep merkle root n = (Ok merkle', fs')"
    and "pool_create env fs = Ok merkle" and "mt_valid (env_sha256 env) merkle"
    and "wf_pool (env_from_str env) (env_rmp_named env) fs" and "pending_blanks fs = []"
    and "\<And>t b. env_rmp_named env t = Some b \<Longrightarrow> length b < 2 ^ 63"
  shows "pool_create env fs' = Ok merkle' \<and> wf_pool (env_from_str env) (env_rmp_named env) fs'"
proof -
  obtain txns pf where t: "log_extend (mt_append (env_sha256 env)) merkle txns = Ok merkle'"
    "dump_new_txns (env_from_str env) (env_rmp_named env) fs txns = (Ok (), fs')"
    "\<forall>b \<in> set txns. \<exists>t. env_rmp_named env t = Some b"
    using process_catchup_reply_Ok [OF assms(1,3)] by metis
  have "fits txns" using t(3) assms(6) by (auto simp: fits_def)
  obtain vs where vs: "wf_pool (env_from_str env) (env_rmp_named env) fs'"
    "pool_create env fs = log_extend (mt_append (env_sha256 env)) mt_default vs"
    "pool_create env fs' = log_extend (mt_append (env_sha256 env)) mt_default (vs @ txns)"
    using wf_pool_create_dump [OF assms(4) \<open>fits txns\<close>, of "env_sha256 env"] t(2) assms(5)
    by (metis prod.inject)
  with assms(2) t(1) show ?thesis by (simp add: log_extend_append)
qed

theorem catchup_reply_cached_witness:
  "pool_create sample_pool_env sample_files = Ok mt_default \<and>
   process_catchup_reply sample_pool_env sample_files sample_rep mt_default (root_hash sample_tree) 1 =
     (Ok sample_tree, sample_files\<lparr>stored_btxn := Some (dump_vec [[5]])\<rparr>) \<and>
   pool_create sample_pool_env (sample_files\<lparr>stored_btxn := Some (dump_vec [[5]])\<rparr>) = Ok sample_tree"
proof -
  have c: "pool_create sample_pool_env sample_files = Ok mt_default"
    by (simp add: create_def sample_files_def from_cache_def from_vec_Nil from_cache_loop.simps)
  have w: "wf_pool (env_from_str sample_pool_env) (env_rmp_named sample_pool_env) sample_files"
    by (auto simp: wf_pool_def sample_files_def intro!: exI [of _ "[]"])
  have p: "pending_blanks sample_files = []" by (simp add: pending_blanks_def sample_files_def)
  have b: "env_rmp_named sample_pool_env t = Some b \<Longrightarrow> length b < 2 ^ 63" for t b by auto
  from catchup_reply_cached [OF sample_process c _ w p b] c sample_process show ?thesis by simp
qed

text \<open>
  A catch-up is started only towards a target for which \<open>f + 1\<close> nodes voted, that is larger
  than the local tree, and whose consistency proof, when the vote carries one, was accepted.
\<close>

theorem catchup_started_by_quorum:
  assumes "check_nodes_responses_on_status env checks fs votes mt node_cnt f =
      (Ok (ShouldBeStarted root n mt'), fs')"
  shows "\<exists>voted hashes voters. ((voted, n, hashes), voters) \<in> set votes \<and> length voters = f + 1 \<and>
    voted \<noteq> ''timeout'' \<and> env_from_b58 env voted = Some root \<and> mt_count mt' < n \<and>
    (\<forall>hs. hashes = Some hs \<longrightarrow> check_cons_proofs env mt' hs root n = Ok ())"
proof -
  obtain vote voters where v: "(vote, voters) \<in> set votes" "length voters = f + 1"
    "fst vote \<noteq> ''timeout''" and t: "try_to_catch_up env vote mt' = Ok (ShouldBeStarted root n mt')"
    using started_needs_votes [OF assms] .
  obtain voted m hashes where "vote = (voted, m, hashes)" by (cases vote)
  with v try_to_catch_up_started [OF t] show ?thesis by auto
qed

theorem catchup_started_by_quorum_witness:
  "\<exists>mt. check_nodes_responses_on_status sample_pool_env True sample_files
       [((''r'', 1, None), [''n1'', ''n2''])] mt_default 4 1 =
       (Ok (ShouldBeStarted (str_bytes ''r'') 1 mt), sample_files) \<and>
     mt_count mt < 1"
proof -
  have c: "check_nodes_responses_on_status sample_pool_env True sample_files
       [((''r'', 1, None), [''n1'', ''n2''])] mt_default 4 1 =
       (Ok (ShouldBeStarted (str_bytes ''r'') 1 mt_default), sample_files)"
    by (simp add: check_nodes_responses_on_status_def try_to_catch_up_def mt_default_def)
  from catchup_started_by_quorum [OF c] c show ?thesis by blast
qed

text \<open>
  Nothing stops one node from voting for several targets, and each vote is counted: once
  the votes outnumber the nodes, the test whether consensus is reachable underflows and
  panics in a build with overflow checks.
\<close>

theorem repeated_votes_underflow:
  assumes "node_cnt < sum_list (map length (hm_values votes))"
  shows "if_consensus_reachable env True fs votes node_cnt votes_cnt f = (Panic, fs)"
  using assms by (simp add: if_consensus_reachable_def usize_sub_def)

theorem repeated_votes_underflow_witness:
  "if_consensus_reachable sample_pool_env True sample_files
     [((''a'', 1, None), [''n1'']), ((''b'', 1, None), [''n1''])] 1 1 0 = (Panic, sample_files)"
proof -
  have "1 < sum_list (map length (hm_values [((''a'', 1 :: nat, None :: string list option), [''n1'']),
      ((''b'', 1, None), [''n1''])]))"
    by (simp add: hm_values_def)
  from repeated_votes_underflow [OF this] show ?thesis .
qed

text \<open>
  A reply that carries more transactions than were asked for is not refused: the check of
  its consistency proof panics, because the tree has grown beyond the target.
\<close>

theorem oversized_catchup_reply_panics:
  assumes "replay_txns env rep merkle [] = Ok (merkle', txns)" and "n < mt_count merkle'"
    and "\<forall>p \<in> set (rep_consProof rep). env_from_b58 env p \<noteq> None"
  shows "process_catchup_reply env fs rep merkle root n = (Panic, fs)"
proof -
  have "map_outcome_list (\<lambda>p. ok_or InvalidStructure (env_from_b58 env p)) (rep_consProof rep) =
      Ok (map (the \<circ> env_from_b58 env) (rep_consProof rep))"
    using assms(3) by (intro map_outcome_list_total) auto
  with assms(1,2) show ?thesis
    by (simp add: process_catchup_reply_def check_cons_proofs_def consistency_proof_def)
qed

theorem oversized_catchup_reply_panics_witness:
  "replay_txns sample_pool_env sample_rep mt_default [] = Ok (sample_tree, [[5]]) \<and>
   process_catchup_reply sample_pool_env sample_files sample_rep mt_default [1] 0 = (Panic, sample_files)"
proof -
  have "0 < mt_count sample_tree" by (simp add: sample_tree_def)
  from oversized_catchup_reply_panics [OF sample_replay this, of sample_files "[1]"] sample_replay
  show ?thesis by (simp add: sample_rep_def)
qed

text \<open>
  A reply whose smallest transaction number is not written in its shortest form, such as
  \<open>01\<close>, makes the replay panic.
\<close>

theorem padded_key_panics:
  assumes "min_tx rep = Ok key" and "hm_get (rep_txns rep) (show_nat key) = None"
  shows "process_catchup_reply env fs rep merkle root n = (Panic, fs)"
proof -
  have "rep_txns rep \<noteq> []" using assms(1) by (auto simp: min_tx_def)
  with assms show ?thesis by (simp add: process_catchup_reply_def replay_txns.simps)
qed

theorem padded_key_panics_witness:
  "process_catchup_reply sample_pool_env sample_files (sample_rep\<lparr>rep_txns := [(''01'', Value_Null)]\<rparr>)
     mt_default [1] 1 = (Panic, sample_files)"
proof -
  have "min_tx (sample_rep\<lparr>rep_txns := [(''01'', Value_Null)]\<rparr>) = Ok 1" by (simp add: min_tx_def)
  from padded_key_panics [OF this] show ?thesis by simp
qed

end
