(* ===== verification/Pool_Events.thy ===== *)
theory Pool_Events
  imports Catchup
begin

text \<open>
  The events of the pool service (\<open>libindy/src/services/pool/events.rs\<close>, message types of
  \<open>types.rs\<close>, response metadata of \<open>mod.rs\<close> and \<open>domain/ledger/response.rs\<close>): what the pool
  thread receives, what it tells the networker, and how an event of the pool becomes an event
  of a request.

  Of replies and responses only the request id is kept, with the message version as the
  constructor. The JSON text of a message is read by serde, which is the parameter
  \<open>env_message\<close>. A command handle is an \<open>int\<close>.
\<close>

section \<open>Messages\<close>

datatype Reply = ReplyV0 nat | ReplyV1 nat

fun reply_req_id :: "Reply \<Rightarrow> nat" where
  "reply_req_id (ReplyV0 n) = n"
| "reply_req_id (ReplyV1 n) = n"

datatype Response = ResponseV0 nat | ResponseV1 nat

fun response_req_id :: "Response \<Rightarrow> nat" where
  "response_req_id (ResponseV0 n) = n"
| "response_req_id (ResponseV1 n) = n"

datatype Message =
    Message_ConsistencyProof ConsistencyProof
  | Message_LedgerStatus LedgerStatus
  | Message_CatchupReq CatchupReq
  | Message_CatchupRep CatchupRep
  | Message_ReqACK Response
  | Message_ReqNACK Response
  | Message_Reply Reply
  | Message_Reject Response
  | Message_PoolLedgerTxns
  | Message_Ping
  | Message_Pong

record RequestEnv = PoolEnv +
  env_message :: "string \<Rightarrow> Message option"

definition from_raw_str :: "'a RequestEnv_scheme \<Rightarrow> string \<Rightarrow> Message outcome" where
  "from_raw_str env s =
     (if s = ''po'' then Ok Message_Pong
      else if s = ''pi'' then Ok Message_Ping
      else ok_or InvalidStructure (env_message env s))"

section \<open>Events\<close>

record RemoteNode =
  rn_name :: string
  rn_public_key :: bytes
  rn_zaddr :: string
  rn_is_blacklisted :: bool

datatype NetworkerEvent =
    NE_SendOneRequest string string int
  | NE_SendAllRequest string string int "string list option"
  | NE_Resend string int
  | NE_NodesStateUpdated "RemoteNode list"
  | NE_ExtendTimeout string string int
  | NE_CleanTimeout string "string option"
  | NE_Timeout

datatype PoolEvent =
    PE_CheckCache int
  | PE_NodeReply string string
  | PE_Close int
  | PE_Refresh int
  | PE_CatchupTargetFound bytes nat MerkleTree
  | PE_CatchupRestart MerkleTree
  | PE_CatchupTargetNotFound IndyErrorKind
  | PE_PoolOutdated
  | PE_Synced MerkleTree
  | PE_NodesBlacklisted
  | PE_SendRequest int string "int option" "string option"
  | PE_Timeout string string

datatype RequestEvent =
    RE_LedgerStatus LedgerStatus "string option" "MerkleTree option"
  | RE_CatchupReq MerkleTree nat bytes
  | RE_Timeout string string
  | RE_CatchupRep CatchupRep string
  | RE_CustomSingleRequest string string "bytes option" "nat option \<times> nat option"
  | RE_CustomConsensusRequest string string
  | RE_CustomFullRequest string string "int option" "string option"
  | RE_ConsistencyProof ConsistencyProof string
  | RE_Reply Reply string string string
  | RE_ReqACK Response string string string
  | RE_ReqNACK Response string string string
  | RE_Reject Response string string string
  | RE_PoolLedgerTxns
  | RE_Ping
  | RE_Pong
  | RE_Terminate

fun get_req_id :: "RequestEvent \<Rightarrow> string" where
  "get_req_id (RE_CustomSingleRequest _ rid _ _) = rid"
| "get_req_id (RE_CustomConsensusRequest _ rid) = rid"
| "get_req_id (RE_CustomFullRequest _ rid _ _) = rid"
| "get_req_id (RE_Reply _ _ _ rid) = rid"
| "get_req_id (RE_ReqACK _ _ _ rid) = rid"
| "get_req_id (RE_ReqNACK _ _ _ rid) = rid"
| "get_req_id (RE_Reject _ _ _ rid) = rid"
| "get_req_id _ = []"

section \<open>From pool events to request events\<close>

definition parse_timestamp_from_req_for_builtin_sp ::
    "SJsonValue \<Rightarrow> string \<Rightarrow> nat option \<times> nat option" where
  "parse_timestamp_from_req_for_builtin_sp req op =
     (if op \<notin> set REQUESTS_FOR_STATE_PROOFS_IN_THE_PAST then (None, None)
      else if op = GET_TXN then (None, Some 0)
      else if op \<in> {GET_REVOC_REG, GET_TXN_AUTHR_AGRMT, GET_TXN_AUTHR_AGRMT_AML} then
        (None, as_u64 (json_index (json_index req ''operation'') ''timestamp''))
      else if op = GET_REVOC_REG_DELTA then
        (as_u64 (json_index (json_index req ''operation'') ''from''),
         as_u64 (json_index (json_index req ''operation'') ''to''))
      else (None, None))"

definition parse_req_id_and_op ::
    "'a RequestEnv_scheme \<Rightarrow> string \<Rightarrow> (SJsonValue \<times> string \<times> string) outcome" where
  "parse_req_id_and_op env msg =
     and_then (ok_or InvalidStructure (env_from_str env msg)) (\<lambda>req.
     and_then (ok_or InvalidStructure (as_u64 (json_index req ''reqId''))) (\<lambda>req_id.
     and_then (ok_or InvalidStructure
         (as_str (json_index (json_index req ''operation'') ''type''))) (\<lambda>op.
       Ok (req, show_nat req_id, op))))"

fun pool_to_request_event :: "'a RequestEnv_scheme \<Rightarrow> PoolEvent \<Rightarrow> RequestEvent option" where
  "pool_to_request_event env (PE_NodeReply msg node_alias) =
     (case from_raw_str env msg of
        Ok parsed \<Rightarrow>
          Some (case parsed of
                  Message_CatchupReq _ \<Rightarrow> RE_CatchupReq mt_default 0 []
                | Message_CatchupRep rep \<Rightarrow> RE_CatchupRep rep node_alias
                | Message_LedgerStatus ls \<Rightarrow> RE_LedgerStatus ls (Some node_alias) None
                | Message_ConsistencyProof cp \<Rightarrow> RE_ConsistencyProof cp node_alias
                | Message_Reply rep \<Rightarrow> RE_Reply rep msg node_alias (show_nat (reply_req_id rep))
                | Message_ReqACK rep \<Rightarrow> RE_ReqACK rep msg node_alias (show_nat (response_req_id rep))
                | Message_ReqNACK rep \<Rightarrow> RE_ReqNACK rep msg node_alias (show_nat (response_req_id rep))
                | Message_Reject rep \<Rightarrow> RE_Reject rep msg node_alias (show_nat (response_req_id rep))
                | Message_PoolLedgerTxns \<Rightarrow> RE_PoolLedgerTxns
                | Message_Ping \<Rightarrow> RE_Ping
                | Message_Pong \<Rightarrow> RE_Pong)
      | _ \<Rightarrow> None)"
| "pool_to_request_event env (PE_SendRequest cmd_id msg timeout nodes) =
     (case parse_req_id_and_op env msg of
        Ok (req, req_id, op) \<Rightarrow>
          (if op \<in> set REQUEST_FOR_FULL then Some (RE_CustomFullRequest msg req_id timeout nodes)
           else if timeout \<noteq> None \<or> nodes \<noteq> None then None
           else if op \<in> set REQUESTS_FOR_STATE_PROOFS then
             Some (RE_CustomSingleRequest msg req_id
               (parse_key_from_request_for_builtin_sp env req)
               (parse_timestamp_from_req_for_builtin_sp req op))
           else if env_sp_parser env op \<noteq> None then
             Some (RE_CustomSingleRequest msg req_id None (None, None))
           else Some (RE_CustomConsensusRequest msg req_id))
      | _ \<Rightarrow> None)"
| "pool_to_request_event env (PE_Timeout req_id node_alias) = Some (RE_Timeout req_id node_alias)"
| "pool_to_request_event env _ = None"

section \<open>Response metadata\<close>

text \<open>
  The envelope of a response as serde reads it: \<open>op\<close> selects the variant; a reply is read as
  version 0, which has \<open>result\<close>, or else as version 1, whose \<open>data.result\<close> is a list.
\<close>

datatype ResponseMessage =
    RM_ReqNACK
  | RM_Reject
  | RM_ReplyV0 SJsonValue
  | RM_ReplyV1 "SJsonValue list"

definition has_key :: "SJsonValue \<Rightarrow> string \<Rightarrow> bool" where
  "has_key v k = (case v of Value_Object m \<Rightarrow> hm_get m k \<noteq> None | _ \<Rightarrow> False)"

definition is_response :: "SJsonValue \<Rightarrow> bool" where
  "is_response v \<longleftrightarrow> as_u64 (json_index v ''reqId'') \<noteq> None \<and> as_str (json_index v ''reason'') \<noteq> None"

definition response_message :: "SJsonValue \<Rightarrow> ResponseMessage option" where
  "response_message v =
     (case as_str (json_index v ''op'') of
        None \<Rightarrow> None
      | Some op \<Rightarrow>
          if op = ''REQNACK'' then (if is_response v then Some RM_ReqNACK else None)
          else if op = ''REJECT'' then (if is_response v then Some RM_Reject else None)
          else if op = ''REPLY'' then
            (if has_key v ''result'' then Some (RM_ReplyV0 (json_index v ''result''))
             else (case as_array (json_index (json_index v ''data'') ''result'') of
                     Some xs \<Rightarrow>
                       if list_all (\<lambda>x. has_key x ''result'') xs
                       then Some (RM_ReplyV1 (map (\<lambda>x. json_index x ''result'') xs)) else None
                   | None \<Rightarrow> None))
          else None)"

record ResponseMetadata =
  md_seq_no :: "nat option"
  md_txn_time :: "nat option"
  md_last_txn_time :: "nat option"
  md_last_seq_no :: "nat option"

definition parse_transaction_metadata_v0 :: "SJsonValue \<Rightarrow> ResponseMetadata" where
  "parse_transaction_metadata_v0 m =
     \<lparr>md_seq_no = as_u64 (json_index m ''seqNo''),
      md_txn_time = as_u64 (json_index m ''txnTime''),
      md_last_txn_time = as_u64 (json_index (json_index (json_index
        (json_index m ''state_proof'') ''multi_signature'') ''value'') ''timestamp''),
      md_last_seq_no = None\<rparr>"

definition parse_transaction_metadata_v1 :: "SJsonValue \<Rightarrow> ResponseMetadata" where
  "parse_transaction_metadata_v1 m =
     \<lparr>md_seq_no = as_u64 (json_index (json_index m ''txnMetadata'') ''seqNo''),
      md_txn_time = as_u64 (json_index (json_index m ''txnMetadata'') ''txnTime''),
      md_last_txn_time = as_u64 (json_index (json_index (json_index
        (json_index m ''multiSignature'') ''signedState'') ''stateMetadata'') ''timestamp''),
      md_last_seq_no = None\<rparr>"

text \<open>\<open>reply.data.result.remove(0)\<close> panics on an empty list.\<close>

definition parse_response_metadata :: "'a RequestEnv_scheme \<Rightarrow> string \<Rightarrow> ResponseMetadata outcome" where
  "parse_response_metadata env response =
     and_then (ok_or InvalidTransaction (Option.bind (env_from_str env response) response_message))
       (\<lambda>message.
     and_then
       (case message of
          RM_ReqNACK \<Rightarrow> Err InvalidTransaction
        | RM_Reject \<Rightarrow> Err InvalidTransaction
        | RM_ReplyV0 r \<Rightarrow> Ok r
        | RM_ReplyV1 rs \<Rightarrow> (case rs of [] \<Rightarrow> Panic | r # _ \<Rightarrow> Ok r)) (\<lambda>result.
     case as_str (json_index result ''ver'') of
       None \<Rightarrow> Ok (parse_transaction_metadata_v0 result)
     | Some vs \<Rightarrow>
         if vs = ''1'' then Ok (parse_transaction_metadata_v1 result) else Err InvalidTransaction))"

definition get_last_signed_time :: "'a RequestEnv_scheme \<Rightarrow> string \<Rightarrow> nat option outcome" where
  "get_last_signed_time env response =
     (case parse_response_metadata env response of
        Ok resp \<Rightarrow> Ok (md_last_txn_time resp)
      | Err _ \<Rightarrow> Ok None
      | Panic \<Rightarrow> Panic)"

end
