(* ===== verification/Request_Handler.thy ===== *)
theory Request_Handler
  imports Pool_Events
begin

text \<open>
  The state machine of one ledger request (\<open>libindy/src/services/pool/request_handler.rs\<close>).

  A handler receives request events and produces at most one event for the pool; everything
  else it does is an effect: an event for the networker (\<open>Net\<close>) or an acknowledgement of a
  command (\<open>SubmitAck\<close>, sent to the command executor's queue). Effects are returned in the order
  in which they happen. The pool's files are threaded through the catch-up states.

  A set of node names is a list without repetition; the set of \<open>NodeResponse\<close>s, whose equality
  looks at the node only, keeps the first response of a node, as \<open>HashSet::insert\<close> does.
  \<open>checks\<close> is the overflow check setting of the build, \<open>fuel\<close> bounds the hash hops of state
  proofs.
\<close>

section \<open>States\<close>

datatype Effect =
    Net NetworkerEvent
  | SubmitAck int "IndyErrorKind + string"

record NodeResponse =
  nr_raw_msg :: string
  nr_node_alias :: string
  nr_timestamp :: nat

record ConsensusState =
  cs_denied_nodes :: "string list"
  cs_replies :: "(SJsonValue \<times> string list) list"
  cs_timeout_nodes :: "string list"

record CatchupConsensusState =
  cc_replies :: "(vote \<times> string list) list"
  cc_merkle_tree :: MerkleTree

record CatchupSingleState =
  ct_target_mt_root :: bytes
  ct_target_mt_size :: nat
  ct_merkle_tree :: MerkleTree
  ct_req_id :: string

record SingleState =
  ss_denied_nodes :: "string list"
  ss_replies :: "(SJsonValue \<times> NodeResponse list) list"
  ss_timeout_nodes :: "string list"
  ss_sp_key :: "bytes option"
  ss_timestamps :: "nat option \<times> nat option"

text \<open>The accumulated reply is a JSON object; the record holds its members.\<close>

record FullState =
  fl_accum_reply :: "(string \<times> SJsonValue) list option"
  fl_nodes_to_send :: "string list option"

datatype RequestState =
    RS_Start
  | RS_Single SingleState
  | RS_Consensus ConsensusState
  | RS_CatchupSingle CatchupSingleState
  | RS_CatchupConsensus CatchupConsensusState
  | RS_Full FullState
  | RS_Finish

record RequestSM =
  sm_f :: nat
  sm_cmd_ids :: "int list"
  sm_nodes :: Nodes
  sm_timeout :: int
  sm_extended_timeout :: int
  sm_number_read_nodes :: nat
  sm_state :: RequestState

definition request_sm_new ::
    "nat \<Rightarrow> int list \<Rightarrow> Nodes \<Rightarrow> int \<Rightarrow> int \<Rightarrow> nat \<Rightarrow> RequestSM" where
  "request_sm_new f cmd_ids nodes timeout extended_timeout number_read_nodes =
     \<lparr>sm_f = f, sm_cmd_ids = cmd_ids, sm_nodes = nodes, sm_timeout = timeout,
      sm_extended_timeout = extended_timeout, sm_number_read_nodes = number_read_nodes,
      sm_state = RS_Start\<rparr>"

section \<open>Acknowledgements\<close>

definition send_replies :: "int list \<Rightarrow> IndyErrorKind + string \<Rightarrow> Effect list" where
  "send_replies cmd_ids msg = map (\<lambda>i. SubmitAck i msg) cmd_ids"

definition send_ok_replies :: "int list \<Rightarrow> string \<Rightarrow> Effect list" where
  "send_ok_replies cmd_ids msg = send_replies cmd_ids (Inr msg)"

definition finish_request :: "int list \<Rightarrow> Effect list" where
  "finish_request cmd_ids = send_replies cmd_ids (Inl PoolTerminated)"

section \<open>Replies\<close>

definition json_remove :: "SJsonValue \<Rightarrow> string \<Rightarrow> SJsonValue" where
  "json_remove v k = (case v of Value_Object m \<Rightarrow> Value_Object (hm_remove m k) | _ \<Rightarrow> v)"

definition get_msg_result_without_state_proof ::
    "'a RequestEnv_scheme \<Rightarrow> string \<Rightarrow> (SJsonValue \<times> SJsonValue) outcome" where
  "get_msg_result_without_state_proof env msg =
     and_then (ok_or InvalidStructure (env_from_str env msg)) (\<lambda>v.
       let msg_result = json_index v ''result'';
           without = json_remove msg_result ''state_proof''
       in Ok (msg_result,
              if as_object (json_index without ''data'') \<noteq> None
              then json_set without ''data'' (json_remove (json_index without ''data'') ''stateProofFrom'')
              else without))"

definition extract_left_last_write_time :: "SJsonValue \<Rightarrow> nat option" where
  "extract_left_last_write_time msg_result =
     (if as_str (json_index msg_result ''type'') = Some GET_REVOC_REG_DELTA then
        as_u64 (json_index (json_index (json_index (json_index (json_index msg_result
          ''data'') ''stateProofFrom'') ''multi_signature'') ''value'') ''timestamp'')
      else None)"

text \<open>\<open>t <= _get_freshness_threshold() + written\<close> on \<open>u64\<close>.\<close>

definition fresh_at :: "'a RequestEnv_scheme \<Rightarrow> bool \<Rightarrow> nat \<Rightarrow> nat \<Rightarrow> bool outcome" where
  "fresh_at env checks t written =
     map_ok (\<lambda>limit. t \<le> limit) (usize_add checks (env_freshness_threshold env) written)"

definition and_also :: "bool outcome \<Rightarrow> bool outcome \<Rightarrow> bool outcome" where
  "and_also a b = and_then a (\<lambda>x. if x then b else Ok False)"

definition check_freshness ::
    "'a RequestEnv_scheme \<Rightarrow> bool \<Rightarrow> SJsonValue \<Rightarrow> nat option \<times> nat option \<Rightarrow> nat \<Rightarrow> bool outcome" where
  "check_freshness env checks msg_result requested_timestamps last_write_time =
     (let left_last_write_time = unwrap_or (extract_left_last_write_time msg_result) 0
      in case requested_timestamps of
           (Some from, Some to) \<Rightarrow>
             and_also (fresh_at env checks from left_last_write_time)
               (fresh_at env checks to last_write_time)
         | (None, Some to) \<Rightarrow> fresh_at env checks to last_write_time
         | (Some from, None) \<Rightarrow>
             and_also (fresh_at env checks from left_last_write_time)
               (fresh_at env checks (env_cur_time env) last_write_time)
         | (None, None) \<Rightarrow> fresh_at env checks (env_cur_time env) last_write_time)"

definition check_state_proof ::
    "'a RequestEnv_scheme \<Rightarrow> bool \<Rightarrow> nat \<Rightarrow> SJsonValue \<Rightarrow> nat \<Rightarrow> Nodes \<Rightarrow> string \<Rightarrow> bytes option \<Rightarrow>
     nat option \<times> nat option \<Rightarrow> nat \<Rightarrow> bool run" where
  "check_state_proof env checks fuel msg_result f bls_keys raw_msg sp_key requested_timestamps
       last_write_time =
     run_then (Some (parse_generic_reply_for_proof_checking env msg_result raw_msg sp_key)) (\<lambda>parsed.
     run_then
       (case parsed of
          Some parsed_sps \<Rightarrow> verify_parsed_sp env checks fuel bls_keys f parsed_sps
        | None \<Rightarrow> Some (Ok False)) (\<lambda>proof_checking_res.
     Some (if proof_checking_res
           then check_freshness env checks msg_result requested_timestamps last_write_time
           else Ok False)))"

section \<open>The start state\<close>

text \<open>\<open>number_read_nodes - 1\<close> on a \<open>u8\<close>.\<close>

definition u8_pred :: "bool \<Rightarrow> nat \<Rightarrow> nat outcome" where
  "u8_pred checks n = (if n \<noteq> 0 then Ok (n - 1) else if checks then Panic else Ok 255)"

definition handle_start ::
    "'a RequestEnv_scheme \<Rightarrow> bool \<Rightarrow> RequestSM \<Rightarrow> RequestEvent \<Rightarrow>
     (RequestState \<times> PoolEvent option \<times> Effect list) outcome" where
  "handle_start env checks sm re =
     (case re of
        RE_LedgerStatus ls _ (Some merkle) \<Rightarrow>
          Ok (RS_CatchupConsensus \<lparr>cc_replies = [], cc_merkle_tree = merkle\<rparr>, None,
              [Net (NE_SendAllRequest (env_ledger_status_json env ls) (ls_merkleRoot ls)
                      (sm_extended_timeout sm) None)])
      | RE_CatchupReq merkle target_mt_size target_mt_root \<Rightarrow>
          (case build_catchup_req env merkle target_mt_size of
             Ok (Some (req_id, req_json)) \<Rightarrow>
               Ok (RS_CatchupSingle
                     \<lparr>ct_target_mt_root = target_mt_root, ct_target_mt_size = target_mt_size,
                      ct_merkle_tree = merkle, ct_req_id = req_id\<rparr>, None,
                   [Net (NE_SendOneRequest req_json req_id (sm_timeout sm))])
           | Ok None \<Rightarrow> Ok (RS_Finish, Some (PE_Synced merkle), [])
           | Err e \<Rightarrow> Ok (RS_Finish, None, send_replies (sm_cmd_ids sm) (Inl e))
           | Panic \<Rightarrow> Panic)
      | RE_CustomSingleRequest msg req_id sp_key timestamps \<Rightarrow>
          and_then (u8_pred checks (sm_number_read_nodes sm)) (\<lambda>n.
            Ok (RS_Single
                  \<lparr>ss_denied_nodes = [], ss_replies = [], ss_timeout_nodes = [],
                   ss_sp_key = sp_key, ss_timestamps = timestamps\<rparr>, None,
                Net (NE_SendOneRequest msg req_id (sm_timeout sm)) #
                replicate n (Net (NE_Resend req_id (sm_timeout sm)))))
      | RE_CustomFullRequest msg req_id local_timeout nodes_to_send \<Rightarrow>
          let timeout = unwrap_or local_timeout (sm_extended_timeout sm) in
          (case nodes_to_send of
             Some text \<Rightarrow>
               (case parse_string_vec (env_from_str env) text of
                  Some nodes_to_send \<Rightarrow>
                    if nodes_to_send \<noteq> [] \<and>
                       list_all (\<lambda>node. hm_get (sm_nodes sm) node \<noteq> None) nodes_to_send
                    then Ok (RS_Full \<lparr>fl_accum_reply = None, fl_nodes_to_send = Some nodes_to_send\<rparr>,
                             None,
                             [Net (NE_SendAllRequest msg req_id timeout (Some nodes_to_send))])
                    else Ok (RS_Finish, None, send_replies (sm_cmd_ids sm) (Inl InvalidStructure))
                | None \<Rightarrow> Ok (RS_Finish, None, send_replies (sm_cmd_ids sm) (Inl InvalidStructure)))
           | None \<Rightarrow>
               Ok (RS_Full \<lparr>fl_accum_reply = None, fl_nodes_to_send = None\<rparr>, None,
                   [Net (NE_SendAllRequest msg req_id timeout None)]))
      | RE_CustomConsensusRequest msg req_id \<Rightarrow>
          Ok (RS_Consensus \<lparr>cs_denied_nodes = [], cs_replies = [], cs_timeout_nodes = []\<rparr>, None,
              [Net (NE_SendAllRequest msg req_id (sm_timeout sm) None)])
      | _ \<Rightarrow> Ok (RS_Start, None, []))"

section \<open>Consensus of all nodes\<close>

definition cs_is_consensus_reachable ::
    "bool \<Rightarrow> ConsensusState \<Rightarrow> nat \<Rightarrow> nat \<Rightarrow> bool outcome" where
  "cs_is_consensus_reachable checks st f total_nodes_cnt =
     (let lens = map length (hm_values (cs_replies st));
          rep_no = sum_list lens;
          max_no = (if lens = [] then 0 else Max (set lens))
      in and_then (usize_add checks max_no total_nodes_cnt) (\<lambda>a.
         and_then (usize_sub checks a rep_no) (\<lambda>b.
         and_then (usize_sub checks b (length (cs_timeout_nodes st))) (\<lambda>c.
         and_then (usize_sub checks c (length (cs_denied_nodes st))) (\<lambda>d.
           Ok (f < d))))))"

text \<open>\<open>entry(key).or_insert_with(HashSet::new)\<close> followed by \<open>insert\<close>.\<close>

definition add_vote :: "('k \<times> 'v list) list \<Rightarrow> 'k \<Rightarrow> 'v \<Rightarrow> ('k \<times> 'v list) list" where
  "add_vote m k v = hm_insert m k (List.insert v (unwrap_or (hm_get m k) []))"

text \<open>The reachability test that ends a consensus request or keeps it waiting.\<close>

definition cs_continue ::
    "bool \<Rightarrow> RequestSM \<Rightarrow> ConsensusState \<Rightarrow> string \<Rightarrow> string \<Rightarrow> (RequestState \<times> Effect list) outcome" where
  "cs_continue checks sm st req_id node_alias =
     map_ok (\<lambda>reachable.
       if reachable then (RS_Consensus st, [Net (NE_CleanTimeout req_id (Some node_alias))])
       else (RS_Finish, send_replies (sm_cmd_ids sm) (Inl PoolTimeout) @
                        [Net (NE_CleanTimeout req_id None)]))
       (cs_is_consensus_reachable checks st (sm_f sm) (length (sm_nodes sm)))"

definition cs_on_reply ::
    "'a RequestEnv_scheme \<Rightarrow> bool \<Rightarrow> RequestSM \<Rightarrow> ConsensusState \<Rightarrow> string \<Rightarrow> string \<Rightarrow> string \<Rightarrow>
     (RequestState \<times> Effect list) outcome" where
  "cs_on_reply env checks sm st raw_msg node_alias req_id =
     (case get_msg_result_without_state_proof env raw_msg of
        Ok (_, result_without_proof) \<Rightarrow>
          let st' = st\<lparr>cs_replies := add_vote (cs_replies st) result_without_proof node_alias\<rparr>;
              cnt = length (unwrap_or (hm_get (cs_replies st') result_without_proof) [])
          in if sm_f sm < cnt then
               Ok (RS_Finish, send_ok_replies (sm_cmd_ids sm) raw_msg @
                              [Net (NE_CleanTimeout req_id None)])
             else cs_continue checks sm st' req_id node_alias
      | Err _ \<Rightarrow>
          let st' = st\<lparr>cs_denied_nodes := List.insert node_alias (cs_denied_nodes st)\<rparr>
          in if length (cs_denied_nodes st') + length (cs_replies st') = length (sm_nodes sm)
             then Ok (RS_Finish, send_replies (sm_cmd_ids sm) (Inl PoolTimeout))
             else Ok (RS_Consensus st', [])
      | Panic \<Rightarrow> Panic)"

definition handle_consensus ::
    "'a RequestEnv_scheme \<Rightarrow> bool \<Rightarrow> RequestSM \<Rightarrow> ConsensusState \<Rightarrow> RequestEvent \<Rightarrow>
     (RequestState \<times> Effect list) outcome" where
  "handle_consensus env checks sm st re =
     (case re of
        RE_Reply _ raw_msg node_alias req_id \<Rightarrow> cs_on_reply env checks sm st raw_msg node_alias req_id
      | RE_ReqNACK _ raw_msg node_alias req_id \<Rightarrow> cs_on_reply env checks sm st raw_msg node_alias req_id
      | RE_Reject _ raw_msg node_alias req_id \<Rightarrow> cs_on_reply env checks sm st raw_msg node_alias req_id
      | RE_ReqACK _ _ node_alias req_id \<Rightarrow>
          Ok (RS_Consensus st, [Net (NE_ExtendTimeout req_id node_alias (sm_extended_timeout sm))])
      | RE_Timeout req_id node_alias \<Rightarrow>
          cs_continue checks sm
            (st\<lparr>cs_timeout_nodes := List.insert node_alias (cs_timeout_nodes st)\<rparr>) req_id node_alias
      | RE_Terminate \<Rightarrow> Ok (RS_Finish, finish_request (sm_cmd_ids sm))
      | _ \<Rightarrow> Ok (RS_Consensus st, []))"

section \<open>A single node, or a state proof\<close>

definition insert_response :: "NodeResponse list \<Rightarrow> NodeResponse \<Rightarrow> NodeResponse list" where
  "insert_response rs r = (if nr_node_alias r \<in> nr_node_alias ` set rs then rs else rs @ [r])"

text \<open>\<open>max_by_key(|resp| resp.timestamp)\<close>.\<close>

fun max_by_timestamp :: "NodeResponse list \<Rightarrow> NodeResponse option" where
  "max_by_timestamp [] = None"
| "max_by_timestamp (r # rs) =
     (case max_by_timestamp rs of
        None \<Rightarrow> Some r
      | Some m \<Rightarrow> if nr_timestamp r \<le> nr_timestamp m then Some m else Some r)"

definition ss_is_consensus_reachable :: "SingleState \<Rightarrow> nat \<Rightarrow> bool" where
  "ss_is_consensus_reachable st total_nodes_cnt \<longleftrightarrow>
     length (ss_timeout_nodes st) + length (ss_denied_nodes st) +
       sum_list (map length (hm_values (ss_replies st))) < total_nodes_cnt"

definition try_to_continue ::
    "RequestSM \<Rightarrow> SingleState \<Rightarrow> string \<Rightarrow> string \<Rightarrow> RequestState \<times> Effect list" where
  "try_to_continue sm st req_id node_alias =
     (if ss_is_consensus_reachable st (length (sm_nodes sm)) then
        (RS_Single st,
         [Net (NE_Resend req_id (sm_timeout sm)), Net (NE_Resend req_id (sm_timeout sm)),
          Net (NE_CleanTimeout req_id (Some node_alias))])
      else
        (RS_Finish, send_replies (sm_cmd_ids sm) (Inl PoolTimeout) @ [Net (NE_CleanTimeout req_id None)]))"

definition ss_on_reply ::
    "'a RequestEnv_scheme \<Rightarrow> bool \<Rightarrow> nat \<Rightarrow> RequestSM \<Rightarrow> SingleState \<Rightarrow> string \<Rightarrow> string \<Rightarrow> string \<Rightarrow>
     (RequestState \<times> Effect list) run" where
  "ss_on_reply env checks fuel sm st0 raw_msg node_alias req_id =
     (let st = st0\<lparr>ss_timeout_nodes := remove1 node_alias (ss_timeout_nodes st0)\<rparr> in
      case get_msg_result_without_state_proof env raw_msg of
        Ok (result, result_without_proof) \<Rightarrow>
          run_then (Some (get_last_signed_time env raw_msg)) (\<lambda>signed_time.
            let last_write_time = unwrap_or signed_time 0;
                responses = insert_response (unwrap_or (hm_get (ss_replies st) result_without_proof) [])
                  \<lparr>nr_raw_msg = raw_msg, nr_node_alias = node_alias, nr_timestamp = last_write_time\<rparr>;
                st' = st\<lparr>ss_replies := hm_insert (ss_replies st) result_without_proof responses\<rparr>;
                cnt = length responses;
                soonest = unwrap_or (map_option nr_raw_msg (max_by_timestamp responses)) raw_msg
            in run_then
                 (if sm_f sm < cnt then Some (Ok True)
                  else check_state_proof env checks fuel result (sm_f sm) (sm_nodes sm) raw_msg
                         (ss_sp_key st) (ss_timestamps st) last_write_time) (\<lambda>accepted.
               Some (Ok
                 (if accepted then
                    (RS_Finish, Net (NE_CleanTimeout req_id None) #
                       send_ok_replies (sm_cmd_ids sm) (if sm_f sm < cnt then soonest else raw_msg))
                  else try_to_continue sm st' req_id node_alias))))
      | Err _ \<Rightarrow>
          Some (Ok (try_to_continue sm
            (st\<lparr>ss_denied_nodes := List.insert node_alias (ss_denied_nodes st)\<rparr>) req_id node_alias))
      | Panic \<Rightarrow> Some Panic)"

definition handle_single ::
    "'a RequestEnv_scheme \<Rightarrow> bool \<Rightarrow> nat \<Rightarrow> RequestSM \<Rightarrow> SingleState \<Rightarrow> RequestEvent \<Rightarrow>
     (RequestState \<times> Effect list) run" where
  "handle_single env checks fuel sm st re =
     (case re of
        RE_Reply _ raw_msg node_alias req_id \<Rightarrow> ss_on_reply env checks fuel sm st raw_msg node_alias req_id
      | RE_ReqNACK _ raw_msg node_alias req_id \<Rightarrow> ss_on_reply env checks fuel sm st raw_msg node_alias req_id
      | RE_Reject _ raw_msg node_alias req_id \<Rightarrow> ss_on_reply env checks fuel sm st raw_msg node_alias req_id
      | RE_ReqACK _ _ node_alias req_id \<Rightarrow>
          Some (Ok (RS_Single st,
            [Net (NE_ExtendTimeout req_id node_alias (sm_extended_timeout sm))]))
      | RE_Timeout req_id node_alias \<Rightarrow>
          Some (Ok (try_to_continue sm
            (st\<lparr>ss_timeout_nodes := List.insert node_alias (ss_timeout_nodes st)\<rparr>) req_id node_alias))
      | RE_Terminate \<Rightarrow> Some (Ok (RS_Finish, finish_request (sm_cmd_ids sm)))
      | _ \<Rightarrow> Some (Ok (RS_Single st, [])))"

section \<open>Catch-up\<close>

definition process_catchup_target ::
    "'a RequestEnv_scheme \<Rightarrow> bool \<Rightarrow> PoolFiles \<Rightarrow> RequestSM \<Rightarrow> vote \<Rightarrow> string \<Rightarrow> CatchupConsensusState \<Rightarrow>
     (bool \<times> PoolEvent option) outcome \<times> CatchupConsensusState \<times> PoolFiles" where
  "process_catchup_target env checks fs sm key node_alias st =
     (let st' = st\<lparr>cc_replies := add_vote (cc_replies st) key node_alias\<rparr>;
          (r, fs') = check_nodes_responses_on_status env checks fs (cc_replies st')
                       (cc_merkle_tree st') (length (sm_nodes sm)) (sm_f sm)
      in (case r of
            Ok InProgress \<Rightarrow> Ok (False, None)
          | Ok (NotNeeded merkle_tree) \<Rightarrow> Ok (True, Some (PE_Synced merkle_tree))
          | Ok (Restart merkle_tree) \<Rightarrow> Ok (False, Some (PE_CatchupRestart merkle_tree))
          | Ok (ShouldBeStarted target_mt_root target_mt_size merkle_tree) \<Rightarrow>
              Ok (True, Some (PE_CatchupTargetFound target_mt_root target_mt_size merkle_tree))
          | Err err \<Rightarrow> Ok (True, Some (PE_CatchupTargetNotFound err))
          | Panic \<Rightarrow> Panic, st', fs'))"

type_synonym step_result = "(RequestState \<times> PoolEvent option \<times> Effect list \<times> PoolFiles) run"

definition catchup_target_handle_consensus_state ::
    "'a RequestEnv_scheme \<Rightarrow> bool \<Rightarrow> PoolFiles \<Rightarrow> RequestSM \<Rightarrow> CatchupConsensusState \<Rightarrow> vote \<Rightarrow> string \<Rightarrow>
     string \<Rightarrow> step_result" where
  "catchup_target_handle_consensus_state env checks fs sm st key node_alias req_id =
     (case process_catchup_target env checks fs sm key node_alias st of
        (Ok (True, result), _, fs') \<Rightarrow>
          Some (Ok (RS_Finish, result, [Net (NE_CleanTimeout req_id None)], fs'))
      | (Ok (False, Some (PE_CatchupRestart merkle_tree)), st', fs') \<Rightarrow>
          Some (Ok (RS_CatchupConsensus st', Some (PE_CatchupRestart merkle_tree),
                    [Net (NE_CleanTimeout req_id None)], fs'))
      | (Ok (False, result), st', fs') \<Rightarrow>
          Some (Ok (RS_CatchupConsensus st', result,
                    [Net (NE_CleanTimeout req_id (Some node_alias))], fs'))
      | (Err e, _, _) \<Rightarrow> Some (Err e)
      | (Panic, _, _) \<Rightarrow> Some Panic)"

definition handle_catchup_consensus ::
    "'a RequestEnv_scheme \<Rightarrow> bool \<Rightarrow> PoolFiles \<Rightarrow> RequestSM \<Rightarrow> CatchupConsensusState \<Rightarrow> RequestEvent \<Rightarrow>
     step_result" where
  "handle_catchup_consensus env checks fs sm st re =
     (case re of
        RE_LedgerStatus ls (Some node_alias) _ \<Rightarrow>
          catchup_target_handle_consensus_state env checks fs sm st
            (ls_merkleRoot ls, ls_txnSeqNo ls, None) node_alias (ls_merkleRoot ls)
      | RE_ConsistencyProof cp node_alias \<Rightarrow>
          catchup_target_handle_consensus_state env checks fs sm st
            (cp_newMerkleRoot cp, cp_seqNoEnd cp, Some (cp_hashes cp)) node_alias (cp_oldMerkleRoot cp)
      | RE_Timeout req_id node_alias \<Rightarrow>
          catchup_target_handle_consensus_state env checks fs sm st
            (''timeout'', 0, None) node_alias req_id
      | RE_Terminate \<Rightarrow> Some (Ok (RS_Finish, None, finish_request (sm_cmd_ids sm), fs))
      | _ \<Rightarrow> Some (Ok (RS_CatchupConsensus st, None, [], fs)))"

definition handle_catchup_single ::
    "'a RequestEnv_scheme \<Rightarrow> PoolFiles \<Rightarrow> RequestSM \<Rightarrow> CatchupSingleState \<Rightarrow> RequestEvent \<Rightarrow>
     step_result" where
  "handle_catchup_single env fs sm st re =
     (case re of
        RE_CatchupRep cr node_alias \<Rightarrow>
          (case process_catchup_reply env fs cr (ct_merkle_tree st) (ct_target_mt_root st)
                  (ct_target_mt_size st) of
             (Ok merkle, fs') \<Rightarrow>
               Some (Ok (RS_Finish, Some (PE_Synced merkle),
                         [Net (NE_CleanTimeout (ct_req_id st) None)], fs'))
           | (Err _, fs') \<Rightarrow>
               Some (Ok (RS_CatchupSingle st, None,
                         [Net (NE_Resend (ct_req_id st) (sm_timeout sm)),
                          Net (NE_CleanTimeout (ct_req_id st) (Some node_alias))], fs'))
           | (Panic, _) \<Rightarrow> Some Panic)
      | RE_Timeout req_id node_alias \<Rightarrow>
          Some (Ok (RS_CatchupSingle st, None,
                    [Net (NE_Resend (ct_req_id st) (sm_timeout sm)),
                     Net (NE_CleanTimeout req_id (Some node_alias))], fs))
      | RE_Terminate \<Rightarrow> Some (Ok (RS_Finish, None, finish_request (sm_cmd_ids sm), fs))
      | _ \<Rightarrow> Some (Ok (RS_CatchupSingle st, None, [], fs)))"

section \<open>Replies of all nodes\<close>

definition full_request_handle_consensus_state ::
    "'a RequestEnv_scheme \<Rightarrow> RequestSM \<Rightarrow> FullState \<Rightarrow> string \<Rightarrow> string \<Rightarrow> string \<Rightarrow>
     RequestState \<times> Effect list" where
  "full_request_handle_consensus_state env sm st req_id node_alias node_result =
     (let accum_reply =
            (case fl_accum_reply st of
               None \<Rightarrow> [(node_alias, Value_String node_result)]
             | Some m \<Rightarrow> hm_insert m node_alias (Value_String node_result));
          st' = st\<lparr>fl_accum_reply := Some accum_reply\<rparr>;
          required_reply_cnt =
            (case fl_nodes_to_send st of Some ns \<Rightarrow> length ns | None \<Rightarrow> length (sm_nodes sm));
          reply_cnt = length accum_reply
      in if reply_cnt = required_reply_cnt then
           (RS_Finish, Net (NE_CleanTimeout req_id None) #
              send_ok_replies (sm_cmd_ids sm) (env_to_string env (Value_Object accum_reply)))
         else (RS_Full st', [Net (NE_CleanTimeout req_id (Some node_alias))]))"

definition handle_full ::
    "'a RequestEnv_scheme \<Rightarrow> RequestSM \<Rightarrow> FullState \<Rightarrow> RequestEvent \<Rightarrow> RequestState \<times> Effect list" where
  "handle_full env sm st re =
     (case re of
        RE_Reply _ raw_msg node_alias req_id \<Rightarrow>
          full_request_handle_consensus_state env sm st req_id node_alias raw_msg
      | RE_ReqNACK _ raw_msg node_alias req_id \<Rightarrow>
          full_request_handle_consensus_state env sm st req_id node_alias raw_msg
      | RE_Reject _ raw_msg node_alias req_id \<Rightarrow>
          full_request_handle_consensus_state env sm st req_id node_alias raw_msg
      | RE_Timeout req_id node_alias \<Rightarrow>
          full_request_handle_consensus_state env sm st req_id node_alias ''timeout''
      | RE_Terminate \<Rightarrow> (RS_Finish, finish_request (sm_cmd_ids sm))
      | _ \<Rightarrow> (RS_Full st, []))"

section \<open>The request handler\<close>

text \<open>\<open>RequestSM::handle_event\<close>: the new state, an event for the pool, the effects, the files.\<close>

definition handle_event ::
    "'a RequestEnv_scheme \<Rightarrow> bool \<Rightarrow> nat \<Rightarrow> PoolFiles \<Rightarrow> RequestSM \<Rightarrow> RequestEvent \<Rightarrow> step_result" where
  "handle_event env checks fuel fs sm re =
     (case sm_state sm of
        RS_Start \<Rightarrow> Some (map_ok (\<lambda>(s, e, fx). (s, e, fx, fs)) (handle_start env checks sm re))
      | RS_Consensus st \<Rightarrow>
          Some (map_ok (\<lambda>(s, fx). (s, None, fx, fs)) (handle_consensus env checks sm st re))
      | RS_Single st \<Rightarrow>
          map_option (map_ok (\<lambda>(s, fx). (s, None, fx, fs))) (handle_single env checks fuel sm st re)
      | RS_CatchupConsensus st \<Rightarrow> handle_catchup_consensus env checks fs sm st re
      | RS_CatchupSingle st \<Rightarrow> handle_catchup_single env fs sm st re
      | RS_Full st \<Rightarrow> (case handle_full env sm st re of (s, fx) \<Rightarrow> Some (Ok (s, None, fx, fs)))
      | RS_Finish \<Rightarrow> Some (Ok (RS_Finish, None, [], fs)))"

fun sm_is_terminal :: "RequestState \<Rightarrow> bool" where
  "sm_is_terminal RS_Finish = True"
| "sm_is_terminal _ = False"

text \<open>\<open>RequestHandlerImpl\<close>: the machine is always present after \<open>new\<close>.\<close>

record RequestHandlerImpl =
  request_wrapper :: "RequestSM option"

definition rh_new ::
    "nat \<Rightarrow> int list \<Rightarrow> Nodes \<Rightarrow> int \<Rightarrow> int \<Rightarrow> nat \<Rightarrow> RequestHandlerImpl" where
  "rh_new f cmd_ids nodes timeout extended_timeout number_read_nodes =
     \<lparr>request_wrapper =
        Some (request_sm_new f cmd_ids nodes timeout extended_timeout number_read_nodes)\<rparr>"

definition rh_process_event ::
    "'a RequestEnv_scheme \<Rightarrow> bool \<Rightarrow> nat \<Rightarrow> PoolFiles \<Rightarrow> RequestHandlerImpl \<Rightarrow> RequestEvent option \<Rightarrow>
     (RequestHandlerImpl \<times> PoolEvent option \<times> Effect list \<times> PoolFiles) run" where
  "rh_process_event env checks fuel fs h ore =
     (case ore of
        None \<Rightarrow> Some (Ok (h, None, [], fs))
      | Some re \<Rightarrow>
          (case request_wrapper h of
             None \<Rightarrow> Some (Ok (\<lparr>request_wrapper = None\<rparr>, None, [], fs))
           | Some w \<Rightarrow>
               run_then (handle_event env checks fuel fs w re) (\<lambda>(s, e, fx, fs').
                 Some (Ok (\<lparr>request_wrapper = Some (w\<lparr>sm_state := s\<rparr>)\<rparr>, e, fx, fs')))))"

definition rh_is_terminal :: "RequestHandlerImpl \<Rightarrow> bool" where
  "rh_is_terminal h = (case request_wrapper h of None \<Rightarrow> True | Some w \<Rightarrow> sm_is_terminal (sm_state w))"

text \<open>\<open>_parse_nack\<close>, which the handlers no longer call.\<close>

definition parse_nack :: "string list \<Rightarrow> nat \<Rightarrow> string \<Rightarrow> int list \<Rightarrow> string \<Rightarrow> bool \<times> string list \<times> Effect list" where
  "parse_nack denied_nodes f raw_msg cmd_ids node_alias =
     (if length denied_nodes = f then (True, denied_nodes, send_ok_replies cmd_ids raw_msg)
      else (False, List.insert node_alias denied_nodes, []))"

end
