(* ===== verification/Request_Protocol.thy ===== *)
theory Request_Protocol
  imports Request_Handler
begin

text \<open>
  What a client of the pool can rely on when it submits a request: runs of a request handler
  over arbitrary sequences of events, the acknowledgements they send, and the votes behind an
  accepted reply.

  A vote of a node is counted once per answer; the interface \<open>ballot_box\<close> states what the
  handlers need of their tables of replies, and both tables (node names, and node responses
  with their timestamps) provide it.
\<close>

section \<open>Runs\<close>

fun run_events ::
    "'a RequestEnv_scheme \<Rightarrow> bool \<Rightarrow> nat \<Rightarrow> PoolFiles \<Rightarrow> RequestSM \<Rightarrow> RequestEvent list \<Rightarrow>
     (RequestSM \<times> PoolEvent option list \<times> Effect list \<times> PoolFiles) run" where
  "run_events env checks fuel fs sm [] = Some (Ok (sm, [], [], fs))"
| "run_events env checks fuel fs sm (re # res) =
     run_then (handle_event env checks fuel fs sm re) (\<lambda>(s, e, fx, fs1).
     run_then (run_events env checks fuel fs1 (sm\<lparr>sm_state := s\<rparr>) res) (\<lambda>(sm', es, fx', fs').
       Some (Ok (sm', e # es, fx @ fx', fs'))))"

fun acks :: "Effect list \<Rightarrow> (int \<times> (IndyErrorKind + string)) list" where
  "acks [] = []"
| "acks (SubmitAck i m # fx) = (i, m) # acks fx"
| "acks (Net _ # fx) = acks fx"

text \<open>An answer of a node to a client request: the message and the node.\<close>

fun answer :: "RequestEvent \<Rightarrow> (string \<times> string) option" where
  "answer (RE_Reply _ raw_msg node_alias _) = Some (raw_msg, node_alias)"
| "answer (RE_ReqNACK _ raw_msg node_alias _) = Some (raw_msg, node_alias)"
| "answer (RE_Reject _ raw_msg node_alias _) = Some (raw_msg, node_alias)"
| "answer _ = None"

definition result_key :: "'a RequestEnv_scheme \<Rightarrow> string \<Rightarrow> SJsonValue option" where
  "result_key env raw_msg =
     (case get_msg_result_without_state_proof env raw_msg of Ok (_, k) \<Rightarrow> Some k | _ \<Rightarrow> None)"

text \<open>The nodes that gave a result, over a sequence of events.\<close>

definition supporters :: "'a RequestEnv_scheme \<Rightarrow> RequestEvent list \<Rightarrow> SJsonValue \<Rightarrow> string set" where
  "supporters env res k =
     {n. \<exists>re \<in> set res. \<exists>raw_msg. answer re = Some (raw_msg, n) \<and> result_key env raw_msg = Some k}"

fun is_custom_request :: "RequestEvent \<Rightarrow> bool" where
  "is_custom_request (RE_CustomSingleRequest _ _ _ _) = True"
| "is_custom_request (RE_CustomConsensusRequest _ _) = True"
| "is_custom_request (RE_CustomFullRequest _ _ _ _) = True"
| "is_custom_request _ = False"

lemma acks_append [simp]: "acks (fx @ fx') = acks fx @ acks fx'"
  by (induction fx rule: acks.induct) auto

lemma acks_send_replies [simp]: "acks (send_replies ids m) = map (\<lambda>i. (i, m)) ids"
  by (induction ids) (auto simp: send_replies_def)

lemma acks_ok_replies [simp]: "acks (send_ok_replies ids m) = map (\<lambda>i. (i, Inr m)) ids"
  by (simp add: send_ok_replies_def)

lemma acks_finish [simp]: "acks (finish_request ids) = map (\<lambda>i. (i, Inl PoolTerminated)) ids"
  by (simp add: finish_request_def)

lemma run_events_Finish:
  "sm_state sm = RS_Finish \<Longrightarrow>
     run_events env checks fuel fs sm res = Some (Ok (sm, map (\<lambda>_. None) res, [], fs))"
proof (induction res)
  case (Cons re res)
  have e: "sm\<lparr>sm_state := RS_Finish\<rparr> = sm" using Cons.prems by (cases sm) simp
  have "run_events env checks fuel fs (sm\<lparr>sm_state := RS_Finish\<rparr>) res =
      Some (Ok (sm, map (\<lambda>_. None) res, [], fs))"
    using Cons by (subst e) simp
  with Cons.prems show ?case by (simp add: handle_event_def)
qed simp

lemma run_events_ConsE:
  assumes "run_events env checks fuel fs sm (re # res) = Some (Ok (sm', es, fx, fs'))"
  obtains s e fx1 fs1 es2 fx2 where "handle_event env checks fuel fs sm re = Some (Ok (s, e, fx1, fs1))"
    and "run_events env checks fuel fs1 (sm\<lparr>sm_state := s\<rparr>) res = Some (Ok (sm', es2, fx2, fs'))"
    and "es = e # es2" and "fx = fx1 @ fx2"
  using assms by auto

text \<open>The acknowledgements of one step of a client request, by the handler of each state.\<close>

fun client_state :: "RequestState \<Rightarrow> bool" where
  "client_state (RS_Single _) = True"
| "client_state (RS_Consensus _) = True"
| "client_state (RS_Full _) = True"
| "client_state _ = False"

definition acked_step :: "int list \<Rightarrow> RequestState \<Rightarrow> Effect list \<Rightarrow> bool" where
  "acked_step ids s fx \<longleftrightarrow> (s = RS_Finish \<and> (\<exists>m. acks fx = map (\<lambda>i. (i, m)) ids)) \<or>
     (client_state s \<and> acks fx = [])"

lemma acked_step_handle_consensus:
  "handle_consensus env checks sm st re = Ok (s, fx) \<Longrightarrow> acked_step (sm_cmd_ids sm) s fx"
  by (auto simp: handle_consensus_def cs_on_reply_def cs_continue_def acked_step_def Let_def
      split: RequestEvent.splits outcome.splits if_splits prod.splits)

lemma acked_step_try_to_continue:
  "try_to_continue sm st req_id node_alias = (s, fx) \<Longrightarrow> acked_step (sm_cmd_ids sm) s fx"
  by (auto simp: try_to_continue_def acked_step_def split: if_splits)

lemma acked_step_ok_replies [simp]:
  "acked_step ids RS_Finish (Net e # send_ok_replies ids m)" "acked_step ids RS_Finish (finish_request ids)"
  "acked_step ids RS_Finish (send_replies ids r)"
  by (auto simp: acked_step_def)

lemma acked_step_ss_on_reply:
  assumes "ss_on_reply env checks fuel sm st raw node_alias req_id = Some (Ok (s, fx))"
  shows "acked_step (sm_cmd_ids sm) s fx"
  using assms acked_step_try_to_continue [of sm _ req_id node_alias s fx]
  by (auto simp: ss_on_reply_def Let_def split: outcome.splits if_splits prod.splits)

lemma acked_step_handle_single:
  "handle_single env checks fuel sm st re = Some (Ok (s, fx)) \<Longrightarrow> acked_step (sm_cmd_ids sm) s fx"
  by (cases re) (auto simp: handle_single_def acked_step_ss_on_reply acked_step_try_to_continue
      acked_step_def [of _ "RS_Single _"])

lemma acked_step_handle_full:
  "handle_full env sm st re = (s, fx) \<Longrightarrow> acked_step (sm_cmd_ids sm) s fx"
  by (auto simp: handle_full_def full_request_handle_consensus_state_def acked_step_def Let_def
      split: RequestEvent.splits if_splits)

lemma acked_step_custom_request:
  assumes "sm_state sm = RS_Start" and "is_custom_request re"
    and "handle_event env checks fuel fs sm re = Some (Ok (s, e, fx, fs'))"
  shows "acked_step (sm_cmd_ids sm) s fx"
proof -
  have r: "acks (replicate n (Net x)) = []" for n x by (induction n) auto
  from assms show ?thesis
    by (auto simp: handle_event_def handle_start_def acked_step_def Let_def r
        split: RequestEvent.splits option.splits if_splits)
qed

lemma acked_step_client:
  assumes "client_state (sm_state sm)"
    and "handle_event env checks fuel fs sm re = Some (Ok (s, e, fx, fs'))"
  shows "acked_step (sm_cmd_ids sm) s fx"
  using assms acked_step_handle_consensus acked_step_handle_single acked_step_handle_full
  by (cases "sm_state sm") (fastforce simp: handle_event_def split: prod.splits)+

lemma acked_run_client:
  assumes "client_state (sm_state sm)"
    and "run_events env checks fuel fs sm res = Some (Ok (sm', es, fx, fs'))"
  shows "acked_step (sm_cmd_ids sm) (sm_state sm') fx"
  using assms
proof (induction res arbitrary: sm fs es fx)
  case Nil
  then show ?case by (simp add: acked_step_def)
next
  case (Cons re res)
  from Cons.prems(2) obtain s e fx1 fs1 es2 fx2
    where h: "handle_event env checks fuel fs sm re = Some (Ok (s, e, fx1, fs1))"
      and r: "run_events env checks fuel fs1 (sm\<lparr>sm_state := s\<rparr>) res = Some (Ok (sm', es2, fx2, fs'))"
      and fx: "fx = fx1 @ fx2"
    by (rule run_events_ConsE)
  have a: "acked_step (sm_cmd_ids sm) s fx1" using acked_step_client [OF Cons.prems(1) h] .
  show ?case
  proof (cases "client_state s")
    case True
    with Cons.IH [OF _ r] have "acked_step (sm_cmd_ids sm) (sm_state sm') fx2" by simp
    with True a fx show ?thesis by (auto simp: acked_step_def)
  next
    case False
    with a have "s = RS_Finish" by (simp add: acked_step_def)
    with r run_events_Finish [of "sm\<lparr>sm_state := s\<rparr>" env checks fuel fs1 res] a fx
    show ?thesis by auto
  qed
qed

section \<open>Votes\<close>

locale ballot_box =
  fixes cast :: "'m \<Rightarrow> 'k \<Rightarrow> 'v \<Rightarrow> 'm" and voters :: "'m \<Rightarrow> 'k \<Rightarrow> string list"
    and voter :: "'v \<Rightarrow> string" and empty_box :: 'm
  assumes voters_empty: "voters empty_box k = []"
    and voters_cast_same: "set (voters (cast m k v) k) = insert (voter v) (set (voters m k))"
    and voters_cast_other: "k' \<noteq> k \<Longrightarrow> voters (cast m k v) k' = voters m k'"
    and voters_distinct: "distinct (voters m k) \<Longrightarrow> distinct (voters (cast m k v) k)"
begin

lemma set_voters_fold:
  "set (voters (fold (\<lambda>(k, v) m. cast m k v) bs m) k) =
     set (voters m k) \<union> voter ` {v. (k, v) \<in> set bs}"
proof (induction bs arbitrary: m)
  case (Cons b bs)
  then show ?case
    by (cases b, cases "fst b = k") (auto simp: voters_cast_same voters_cast_other)
qed simp

lemma distinct_voters_fold:
  "(\<And>k. distinct (voters m k)) \<Longrightarrow> distinct (voters (fold (\<lambda>(k, v) m. cast m k v) bs m) k)"
proof (induction bs arbitrary: m)
  case (Cons b bs)
  obtain kb vb where b: "b = (kb, vb)" by (cases b)
  have "distinct (voters (cast m kb vb) k')" for k'
    using Cons.prems voters_distinct [of m kb vb] by (cases "k' = kb") (auto simp: voters_cast_other)
  with Cons.IH [of "cast m kb vb"] b show ?case by simp
qed simp

lemma length_voters_fold:
  "length (voters (fold (\<lambda>(k, v) m. cast m k v) bs empty_box) k) = card (voter ` {v. (k, v) \<in> set bs})"
proof -
  have "distinct (voters (fold (\<lambda>(k, v) m. cast m k v) bs empty_box) k)"
    by (rule distinct_voters_fold) (simp add: voters_empty)
  from distinct_card [OF this] show ?thesis by (simp add: set_voters_fold voters_empty)
qed

end

interpretation name_votes: ballot_box add_vote "\<lambda>m k. unwrap_or (hm_get m k) []" "\<lambda>n. n" "[]"
  by unfold_locales (auto simp: add_vote_def hm_simps unwrap_or_def split: option.splits)

definition cast_response ::
    "('k \<times> NodeResponse list) list \<Rightarrow> 'k \<Rightarrow> NodeResponse \<Rightarrow> ('k \<times> NodeResponse list) list" where
  "cast_response m k r = hm_insert m k (insert_response (unwrap_or (hm_get m k) []) r)"

interpretation response_votes: ballot_box cast_response
    "\<lambda>m k. map nr_node_alias (unwrap_or (hm_get m k) [])" nr_node_alias "[]"
  by unfold_locales (auto simp: cast_response_def insert_response_def hm_simps unwrap_or_def
      split: option.splits)

section \<open>The votes of a run\<close>

definition ballot :: "'a RequestEnv_scheme \<Rightarrow> RequestEvent \<Rightarrow> (SJsonValue \<times> string) list" where
  "ballot env re =
     (case answer re of
        Some (raw_msg, n) \<Rightarrow> (case result_key env raw_msg of Some k \<Rightarrow> [(k, n)] | None \<Rightarrow> [])
      | None \<Rightarrow> [])"

abbreviation count_votes :: "(SJsonValue \<times> string) list \<Rightarrow> (SJsonValue \<times> string list) list \<Rightarrow>
    (SJsonValue \<times> string list) list" where
  "count_votes \<equiv> fold (\<lambda>(k, n) m. add_vote m k n)"

lemma in_ballot:
  "(k, n) \<in> set (ballot env re) \<longleftrightarrow>
     (\<exists>raw_msg. answer re = Some (raw_msg, n) \<and> result_key env raw_msg = Some k)"
  by (cases "answer re") (auto simp: ballot_def split: option.splits)

lemma supporters_ballots: "supporters env res k = {n. (k, n) \<in> set (concat (map (ballot env) res))}"
  by (simp add: supporters_def in_ballot)

lemma finite_supporters [simp]: "finite (supporters env res k)"
proof (rule finite_subset)
  show "supporters env res k \<subseteq> snd ` set (concat (map (ballot env) res))"
    by (force simp: supporters_ballots)
qed simp

lemma supporters_append: "supporters env (res @ res') k = supporters env res k \<union> supporters env res' k"
  by (auto simp: supporters_def)

lemma consensus_step:
  assumes "handle_consensus env checks sm st re = Ok (s, fx)"
  shows "s = RS_Consensus st' \<Longrightarrow> cs_replies st' = count_votes (ballot env re) (cs_replies st)"
    and "(i, Inr reply) \<in> set (acks fx) \<Longrightarrow>
      \<exists>k n. answer re = Some (reply, n) \<and> result_key env reply = Some k \<and>
        sm_f sm < length (unwrap_or (hm_get (count_votes (ballot env re) (cs_replies st)) k) [])"
  using assms
  by (auto simp: handle_consensus_def cs_on_reply_def cs_continue_def ballot_def result_key_def Let_def
      split: RequestEvent.splits outcome.splits if_splits prod.splits)

lemma consensus_run:
  assumes "run_events env checks fuel fs sm res = Some (Ok (sm', es, fx, fs'))"
    and "sm_state sm = RS_Consensus st"
    and "cs_replies st = count_votes (concat (map (ballot env) hist)) []"
    and "(i, Inr reply) \<in> set (acks fx)"
  shows "\<exists>k n re. re \<in> set res \<and> answer re = Some (reply, n) \<and> result_key env reply = Some k \<and>
    sm_f sm < card (supporters env (hist @ res) k)"
  using assms
proof (induction res arbitrary: sm fs es fx st hist)
  case (Cons re res)
  from Cons.prems(1) obtain s e fx1 fs1 es2 fx2
    where h: "handle_event env checks fuel fs sm re = Some (Ok (s, e, fx1, fs1))"
      and r: "run_events env checks fuel fs1 (sm\<lparr>sm_state := s\<rparr>) res = Some (Ok (sm', es2, fx2, fs'))"
      and fx: "fx = fx1 @ fx2"
    by (rule run_events_ConsE)
  have c: "handle_consensus env checks sm st re = Ok (s, fx1)"
    using h Cons.prems(2) by (auto simp: handle_event_def)
  let ?votes = "count_votes (concat (map (ballot env) (hist @ [re]))) []"
  have votes: "count_votes (ballot env re) (cs_replies st) = ?votes" using Cons.prems(3) by simp
  consider "(i, Inr reply) \<in> set (acks fx1)" | "(i, Inr reply) \<in> set (acks fx2)"
    using Cons.prems(4) fx by auto
  then show ?case
  proof cases
    case 1
    from consensus_step(2) [OF c 1] votes obtain k n where k: "answer re = Some (reply, n)"
      "result_key env reply = Some k" "sm_f sm < length (unwrap_or (hm_get ?votes k) [])"
      by auto
    have "length (unwrap_or (hm_get ?votes k) []) = card (supporters env (hist @ [re]) k)"
      by (simp only: name_votes.length_voters_fold supporters_ballots image_ident)
    also have "\<dots> \<le> card (supporters env (hist @ re # res) k)"
      using supporters_append [of env "hist @ [re]" res k] by (intro card_mono) auto
    finally show ?thesis using k by fastforce
  next
    case 2
    then have "s \<noteq> RS_Finish"
      using r run_events_Finish [of "sm\<lparr>sm_state := s\<rparr>" env checks fuel fs1 res] by auto
    with acked_step_handle_consensus [OF c] have "client_state s" by (simp add: acked_step_def)
    with c obtain st' where s: "s = RS_Consensus st'"
      by (auto simp: handle_consensus_def cs_on_reply_def cs_continue_def Let_def
          split: RequestEvent.splits outcome.splits if_splits prod.splits)
    from Cons.IH [OF r, of st' "hist @ [re]"] consensus_step(1) [OF c s] votes s 2 show ?thesis by force
  qed
qed simp

section \<open>Single requests\<close>

definition response_ballot :: "'a RequestEnv_scheme \<Rightarrow> RequestEvent \<Rightarrow> (SJsonValue \<times> NodeResponse) list" where
  "response_ballot env re =
     (case answer re of
        Some (raw_msg, n) \<Rightarrow>
          (case (result_key env raw_msg, get_last_signed_time env raw_msg) of
             (Some k, Ok t) \<Rightarrow> [(k, \<lparr>nr_raw_msg = raw_msg, nr_node_alias = n, nr_timestamp = unwrap_or t 0\<rparr>)]
           | _ \<Rightarrow> [])
      | None \<Rightarrow> [])"

abbreviation count_responses :: "(SJsonValue \<times> NodeResponse) list \<Rightarrow>
    (SJsonValue \<times> NodeResponse list) list \<Rightarrow> (SJsonValue \<times> NodeResponse list) list" where
  "count_responses \<equiv> fold (\<lambda>(k, r) m. cast_response m k r)"

text \<open>A message that the single-node handler accepts on its own: a fresh, verified state proof.\<close>

definition proved_reply ::
    "'a RequestEnv_scheme \<Rightarrow> bool \<Rightarrow> nat \<Rightarrow> RequestSM \<Rightarrow> SingleState \<Rightarrow> string \<Rightarrow> bool" where
  "proved_reply env checks fuel sm st reply \<longleftrightarrow>
     (\<exists>result k t. get_msg_result_without_state_proof env reply = Ok (result, k) \<and>
        get_last_signed_time env reply = Ok t \<and>
        check_state_proof env checks fuel result (sm_f sm) (sm_nodes sm) reply
          (ss_sp_key st) (ss_timestamps st) (unwrap_or t 0) = Some (Ok True))"

lemma max_by_timestamp_None [simp]: "max_by_timestamp rs = None \<longleftrightarrow> rs = []"
  by (cases rs) (auto split: option.splits if_splits)

lemma max_by_timestamp_spec:
  "max_by_timestamp rs = Some m \<Longrightarrow> m \<in> set rs \<and> (\<forall>r \<in> set rs. nr_timestamp r \<le> nr_timestamp m)"
  by (induction rs arbitrary: m) (auto split: option.splits if_splits dest: order_trans less_imp_le)

lemma try_to_continue_no_ok: "try_to_continue sm st req_id n = (s, fx) \<Longrightarrow> (i, Inr reply) \<notin> set (acks fx)"
  by (auto simp: try_to_continue_def split: if_splits)

lemma try_to_continue_state: "try_to_continue sm st req_id n = (RS_Single st', fx) \<Longrightarrow> st' = st"
  by (auto simp: try_to_continue_def split: if_splits)

lemma ss_on_reply_state:
  assumes "ss_on_reply env checks fuel sm st raw_msg n req_id = Some (Ok (RS_Single st', fx))"
    and "answer re = Some (raw_msg, n)"
  shows "ss_replies st' = count_responses (response_ballot env re) (ss_replies st) \<and>
      ss_sp_key st' = ss_sp_key st \<and> ss_timestamps st' = ss_timestamps st"
  using assms
  by (auto simp: ss_on_reply_def Let_def response_ballot_def result_key_def cast_response_def
      split: outcome.splits if_splits prod.splits dest!: try_to_continue_state)

lemma insert_response_not_Nil [simp]: "insert_response rs r \<noteq> []"
  by (auto simp: insert_response_def)

lemma ss_on_reply_ok:
  assumes "ss_on_reply env checks fuel sm st raw_msg n req_id = Some (Ok (s, fx))"
    and "answer re = Some (raw_msg, n)" and "(i, Inr reply) \<in> set (acks fx)"
  shows "(reply = raw_msg \<and> proved_reply env checks fuel sm st reply) \<or>
      (\<exists>k rs r. result_key env raw_msg = Some k \<and>
        hm_get (count_responses (response_ballot env re) (ss_replies st)) k = Some rs \<and>
        sm_f sm < length rs \<and> max_by_timestamp rs = Some r \<and> reply = nr_raw_msg r)"
proof (cases "get_msg_result_without_state_proof env raw_msg")
  case (Ok rk)
  obtain result k where rk: "rk = (result, k)" by (cases rk)
  obtain t where t: "get_last_signed_time env raw_msg = Ok t"
    using assms(1) Ok rk by (auto simp: ss_on_reply_def Let_def)
  let ?rs = "insert_response (unwrap_or (hm_get (ss_replies st) k) [])
    \<lparr>nr_raw_msg = raw_msg, nr_node_alias = n, nr_timestamp = unwrap_or t 0\<rparr>"
  have "hm_get (count_responses (response_ballot env re) (ss_replies st)) k = Some ?rs"
    using assms(2) Ok rk t by (simp add: response_ballot_def result_key_def cast_response_def hm_simps)
  moreover obtain r where "max_by_timestamp ?rs = Some r" by (metis insert_response_not_Nil max_by_timestamp_None option.exhaust)
  moreover have "result_key env raw_msg = Some k" using Ok rk by (simp add: result_key_def)
  ultimately show ?thesis
    using assms(1,3) Ok rk t try_to_continue_no_ok
    by (fastforce simp: ss_on_reply_def Let_def proved_reply_def unwrap_or_def [of "Some _"] split: if_splits)
qed (use assms try_to_continue_no_ok in \<open>auto simp: ss_on_reply_def\<close>)

lemma handle_single_state:
  assumes "handle_single env checks fuel sm st re = Some (Ok (RS_Single st', fx))"
  shows "ss_replies st' = count_responses (response_ballot env re) (ss_replies st) \<and>
      ss_sp_key st' = ss_sp_key st \<and> ss_timestamps st' = ss_timestamps st"
proof (cases "answer re")
  case None
  then have "response_ballot env re = []" by (simp add: response_ballot_def)
  with None assms show ?thesis
    by (auto simp: handle_single_def split: RequestEvent.splits dest!: try_to_continue_state)
next
  case (Some rn)
  obtain raw_msg n where rn: "rn = (raw_msg, n)" by (cases rn)
  with Some assms have "\<exists>req_id. ss_on_reply env checks fuel sm st raw_msg n req_id =
      Some (Ok (RS_Single st', fx))"
    by (cases re) (auto simp: handle_single_def)
  with ss_on_reply_state Some rn show ?thesis by blast
qed

lemma handle_single_ok:
  assumes "handle_single env checks fuel sm st re = Some (Ok (s, fx))"
    and "(i, Inr reply) \<in> set (acks fx)"
  shows "\<exists>raw_msg n req_id. answer re = Some (raw_msg, n) \<and>
        ss_on_reply env checks fuel sm st raw_msg n req_id = Some (Ok (s, fx))"
  using assms
  by (cases re) (auto simp: handle_single_def dest!: try_to_continue_no_ok [of sm _ _ _ s fx i reply])

lemma responses_cast:
  "r \<in> set (unwrap_or (hm_get (count_responses bs m) k) []) \<Longrightarrow>
     (k, r) \<in> set bs \<or> r \<in> set (unwrap_or (hm_get m k) [])"
proof (induction bs arbitrary: m)
  case (Cons b bs)
  obtain kb rb where b: "b = (kb, rb)" by (cases b)
  from Cons.IH [of "cast_response m kb rb"] Cons.prems b show ?case
    by (auto simp: cast_response_def insert_response_def hm_simps unwrap_or_def split: if_splits)
qed simp

lemma in_response_ballot:
  "(k, r) \<in> set (response_ballot env re) \<Longrightarrow>
     answer re = Some (nr_raw_msg r, nr_node_alias r) \<and> result_key env (nr_raw_msg r) = Some k"
  by (auto simp: response_ballot_def split: option.splits outcome.splits)

text \<open>A quorum of stored responses: \<open>f + 1\<close> nodes gave the result of the accepted message.\<close>

lemma response_quorum:
  assumes "hm_get (count_responses (concat (map (response_ballot env) res)) []) k = Some rs"
    and "f < length rs" and "max_by_timestamp rs = Some r"
  shows "\<exists>re \<in> set res. answer re = Some (nr_raw_msg r, nr_node_alias r)"
    and "result_key env (nr_raw_msg r) = Some k" and "f < card (supporters env res k)"
proof -
  let ?bs = "concat (map (response_ballot env) res)"
  have "r \<in> set rs" using max_by_timestamp_spec [OF assms(3)] by simp
  with responses_cast [of r ?bs "[]" k] assms(1) have "(k, r) \<in> set ?bs" by (simp add: unwrap_or_def)
  then show "\<exists>re \<in> set res. answer re = Some (nr_raw_msg r, nr_node_alias r)"
    and "result_key env (nr_raw_msg r) = Some k"
    by (auto dest: in_response_ballot)
  have "length rs = card (nr_node_alias ` {r. (k, r) \<in> set ?bs})"
    using response_votes.length_voters_fold [of ?bs k] assms(1) by (simp add: unwrap_or_def)
  also have "\<dots> \<le> card (supporters env res k)"
  proof (rule card_mono)
    show "nr_node_alias ` {r. (k, r) \<in> set ?bs} \<subseteq> supporters env res k"
      by (auto simp: supporters_def dest!: in_response_ballot)
  qed simp
  finally show "f < card (supporters env res k)" using assms(2) by simp
qed

lemma single_run:
  assumes "run_events env checks fuel fs sm res = Some (Ok (sm', es, fx, fs'))"
    and "sm_state sm = RS_Single st"
    and "ss_replies st = count_responses (concat (map (response_ballot env) hist)) []"
    and "(i, Inr reply) \<in> set (acks fx)"
  shows "(\<exists>re n. re \<in> set (hist @ res) \<and> answer re = Some (reply, n)) \<and>
    (proved_reply env checks fuel sm st reply \<or>
     (\<exists>k. result_key env reply = Some k \<and> sm_f sm < card (supporters env (hist @ res) k)))"
  using assms
proof (induction res arbitrary: sm fs es fx st hist)
  case (Cons re res)
  from Cons.prems(1) obtain s e fx1 fs1 es2 fx2
    where h: "handle_event env checks fuel fs sm re = Some (Ok (s, e, fx1, fs1))"
      and r: "run_events env checks fuel fs1 (sm\<lparr>sm_state := s\<rparr>) res = Some (Ok (sm', es2, fx2, fs'))"
      and fx: "fx = fx1 @ fx2"
    by (rule run_events_ConsE)
  have c: "handle_single env checks fuel sm st re = Some (Ok (s, fx1))"
    using h Cons.prems(2) by (auto simp: handle_event_def)
  let ?bs = "count_responses (concat (map (response_ballot env) (hist @ [re]))) []"
  have bs: "count_responses (response_ballot env re) (ss_replies st) = ?bs" using Cons.prems(3) by simp
  consider "(i, Inr reply) \<in> set (acks fx1)" | "(i, Inr reply) \<in> set (acks fx2)"
    using Cons.prems(4) fx by auto
  then show ?case
  proof cases
    case 1
    from handle_single_ok [OF c 1] obtain raw_msg n req_id where a: "answer re = Some (raw_msg, n)"
      and o: "ss_on_reply env checks fuel sm st raw_msg n req_id = Some (Ok (s, fx1))"
      by blast
    show ?thesis
    proof (cases "reply = raw_msg \<and> proved_reply env checks fuel sm st reply")
      case False
      with ss_on_reply_ok [OF o a 1] bs obtain k rs r' where q: "hm_get ?bs k = Some rs"
        "sm_f sm < length rs" "max_by_timestamp rs = Some r'" "reply = nr_raw_msg r'"
        by auto
      have "card (supporters env (hist @ [re]) k) \<le> card (supporters env (hist @ re # res) k)"
        using supporters_append [of env "hist @ [re]" res k] by (intro card_mono) auto
      with response_quorum [OF q(1,2,3)] q(4) show ?thesis by fastforce
    qed (use a in auto)
  next
    case 2
    then have "s \<noteq> RS_Finish"
      using r run_events_Finish [of "sm\<lparr>sm_state := s\<rparr>" env checks fuel fs1 res] by auto
    with acked_step_handle_single [OF c] have "client_state s" by (simp add: acked_step_def)
    with c obtain st' where s: "s = RS_Single st'"
      by (auto simp: handle_single_def ss_on_reply_def try_to_continue_def Let_def
          split: RequestEvent.splits outcome.splits if_splits prod.splits)
    from handle_single_state [OF c [unfolded s]] have k: "ss_replies st' = ?bs" "ss_sp_key st' = ss_sp_key st"
      "ss_timestamps st' = ss_timestamps st"
      using bs by auto
    from Cons.IH [OF r, of st' "hist @ [re]"] k s 2 show ?thesis by (simp add: proved_reply_def)
  qed
qed simp

section \<open>Progress of consensus requests\<close>

text \<open>The events that take a node out of the nodes still to be heard.\<close>

fun counts :: "RequestEvent \<Rightarrow> bool" where
  "counts (RE_Timeout _ _) = True"
| "counts re = (answer re \<noteq> None)"

abbreviation named :: "(SJsonValue \<times> string list) list \<Rightarrow> SJsonValue \<Rightarrow> string list" where
  "named m k \<equiv> unwrap_or (hm_get m k) []"

abbreviation votes_cast :: "ConsensusState \<Rightarrow> nat" where
  "votes_cast st \<equiv> sum_list (map length (hm_values (cs_replies st)))"

definition live_inv ::
    "'a RequestEnv_scheme \<Rightarrow> nat \<Rightarrow> nat \<Rightarrow> SJsonValue \<Rightarrow> ConsensusState \<Rightarrow> RequestEvent list \<Rightarrow> bool" where
  "live_inv env n f k st res \<longleftrightarrow>
     votes_cast st + length (cs_timeout_nodes st) + length (cs_denied_nodes st) +
       length (filter counts res) \<le> n \<and>
     (\<forall>k'. length (named (cs_replies st) k') \<le> f) \<and>
     (\<forall>e \<in> set (cs_replies st). snd e \<noteq> []) \<and>
     f < card (set (named (cs_replies st) k) \<union> supporters env res k)"

lemma sum_hm_insert:
  "sum_list (map length (hm_values (hm_insert m k v))) + length (unwrap_or (hm_get m k) []) =
     sum_list (map length (hm_values m)) + length v"
  by (induction m k v rule: hm_insert.induct) (auto simp: hm_values_def unwrap_or_def)

lemma sum_add_vote:
  "sum_list (map length (hm_values (add_vote m k n))) \<le> Suc (sum_list (map length (hm_values m)))"
  using sum_hm_insert [of m k "List.insert n (unwrap_or (hm_get m k) [])"]
  by (auto simp: add_vote_def length_list_insert split: if_splits)

lemma hm_insert_values: "e \<in> set (hm_insert m k v) \<Longrightarrow> e = (k, v) \<or> e \<in> set m"
  by (induction m k v rule: hm_insert.induct) (auto split: if_splits)

lemma supporters_Nil [simp]: "supporters env [] k = {}"
  by (simp add: supporters_def)

lemma supporters_Cons: "supporters env (re # res) k = {n. (k, n) \<in> set (ballot env re)} \<union> supporters env res k"
  by (auto simp: supporters_ballots)

lemma ballot_cases: "ballot env re = [] \<or> (\<exists>k n. ballot env re = [(k, n)] \<and> counts re)"
  by (cases re) (auto simp: ballot_def split: option.splits)

lemma card_supporters: "card (supporters env res k) \<le> length (filter counts res)"
proof (induction res)
  case (Cons re res)
  have "card (supporters env (re # res) k) \<le> card {n. (k, n) \<in> set (ballot env re)} + card (supporters env res k)"
    by (simp add: supporters_Cons card_Un_le)
  moreover have "card {n. (k, n) \<in> set (ballot env re)} \<le> (if counts re then 1 else 0)"
    using ballot_cases [of env re] card_mono [of "{_}" "{n. (k, n) \<in> set (ballot env re)}"] by fastforce
  ultimately show ?case using Cons by (simp split: if_splits)
qed simp

lemma named_le_max:
  assumes "lens = map length (hm_values m)"
  shows "length (named m k) \<le> (if lens = [] then 0 else Max (set lens))"
proof (cases "hm_get m k")
  case (Some ns)
  from hm_get_Some_in [OF this] have "length ns \<in> set lens" by (force simp: assms hm_values_def)
  with Some show ?thesis by (auto simp: unwrap_or_def)
qed (simp add: unwrap_or_def)

lemma max_le_sum: "lens \<noteq> [] \<Longrightarrow> Max (set lens) \<le> sum_list (lens :: nat list)"
  by (simp add: member_le_sum_list)

text \<open>The reachability test without underflow.\<close>

definition top_votes :: "ConsensusState \<Rightarrow> nat" where
  "top_votes st = (let lens = map length (hm_values (cs_replies st)) in if lens = [] then 0 else Max (set lens))"

lemma reachable_eq:
  assumes "top_votes st + n < 2 ^ 64"
    and "votes_cast st + length (cs_timeout_nodes st) + length (cs_denied_nodes st) \<le> top_votes st + n"
  shows "cs_is_consensus_reachable checks st f n =
    Ok (f + votes_cast st + length (cs_timeout_nodes st) + length (cs_denied_nodes st) < top_votes st + n)"
proof -
  have "and_then (usize_add checks m n) (\<lambda>a. and_then (usize_sub checks a r) (\<lambda>b.
      and_then (usize_sub checks b t) (\<lambda>c. and_then (usize_sub checks c d) (\<lambda>e. Ok (f < e))))) =
      Ok (f + r + t + d < m + n)" if "m + n < 2 ^ 64" "r + t + d \<le> m + n" for m r t d
    using that by (simp add: usize_add_def usize_sub_def, arith)
  from this [OF assms] show ?thesis
    by (simp add: cs_is_consensus_reachable_def top_votes_def Let_def del: map_map)
qed

lemma top_votes_le: "top_votes st \<le> votes_cast st"
  using max_le_sum [of "map length (hm_values (cs_replies st))"] by (simp add: top_votes_def)

lemma live_reachable:
  assumes "live_inv env n f k st res" and "n < 2 ^ 63"
  shows "cs_is_consensus_reachable checks st f n = Ok True"
proof -
  note i = assms(1) [unfolded live_inv_def]
  have "f < card (set (named (cs_replies st) k)) + card (supporters env res k)"
    using i card_Un_le order_less_le_trans by blast
  also have "\<dots> \<le> top_votes st + length (filter counts res)"
    using card_supporters [of env res k] named_le_max [OF refl, of "cs_replies st" k]
      card_length [of "named (cs_replies st) k"] by (simp add: top_votes_def Let_def)
  finally have "f < top_votes st + length (filter counts res)" .
  with i assms(2) top_votes_le [of st] show ?thesis by (subst reachable_eq) auto
qed

lemma live_inv_vote:
  assumes "live_inv env n f k st (re # res)" and "ballot env re = [(k0, n0)]"
    and "length (named (add_vote (cs_replies st) k0 n0) k0) \<le> f"
  shows "live_inv env n f k (st\<lparr>cs_replies := add_vote (cs_replies st) k0 n0\<rparr>) res"
proof -
  note i = assms(1) [unfolded live_inv_def]
  have "counts re" using assms(2) ballot_cases [of env re] by auto
  moreover have "\<forall>k'. length (named (add_vote (cs_replies st) k0 n0) k') \<le> f"
  proof
    show "length (named (add_vote (cs_replies st) k0 n0) k') \<le> f" for k'
      using assms(3) i by (cases "k' = k0") (simp_all add: name_votes.voters_cast_other)
  qed
  moreover have "\<forall>e \<in> set (add_vote (cs_replies st) k0 n0). snd e \<noteq> []"
  proof
    fix e assume "e \<in> set (add_vote (cs_replies st) k0 n0)"
    then have "e = (k0, List.insert n0 (named (cs_replies st) k0)) \<or> e \<in> set (cs_replies st)"
      unfolding add_vote_def by (rule hm_insert_values)
    then show "snd e \<noteq> []" using i by (auto simp: List.insert_def split: if_splits)
  qed
  moreover have "set (named (add_vote (cs_replies st) k0 n0) k) \<union> supporters env res k =
      set (named (cs_replies st) k) \<union> supporters env (re # res) k"
    using assms(2) name_votes.voters_cast_same [of "cs_replies st" k0 n0]
      name_votes.voters_cast_other [of k k0 "cs_replies st" n0]
    by (cases "k = k0") (auto simp: supporters_Cons)
  ultimately show ?thesis
    using i sum_add_vote [of "cs_replies st" k0 n0] by (simp add: live_inv_def)
qed

lemma live_inv_silent:
  assumes "live_inv env n f k st (re # res)" and "ballot env re = []"
    and "cs_replies st' = cs_replies st"
    and "length (cs_timeout_nodes st') + length (cs_denied_nodes st') \<le>
      length (cs_timeout_nodes st) + length (cs_denied_nodes st) + (if counts re then 1 else 0)"
  shows "live_inv env n f k st' res"
  using assms by (auto simp: live_inv_def supporters_Cons split: if_splits)

text \<open>While support is on its way, malformed answers do not exhaust the pool.\<close>

lemma live_not_denied:
  assumes "live_inv env n f k st res"
  shows "length (cs_denied_nodes st) + length (cs_replies st) \<noteq> n"
proof
  assume eq: "length (cs_denied_nodes st) + length (cs_replies st) = n"
  note i = assms(1) [unfolded live_inv_def]
  have "length m \<le> sum_list (map length (hm_values m))" if "\<forall>e \<in> set m. snd e \<noteq> []"
    for m :: "(SJsonValue \<times> string list) list"
    using that
  proof (induction m)
    case (Cons e m)
    then have "1 \<le> length (snd e)" by (cases "snd e") auto
    moreover have "length m \<le> sum_list (map length (hm_values m))" using Cons by simp
    ultimately show ?case unfolding hm_values_def list.map sum_list.Cons list.size by linarith
  qed simp
  then have "length (cs_replies st) \<le> votes_cast st" using i by blast
  with eq i have "length (filter counts res) \<le> 0" by linarith
  with card_supporters [of env res k] have "supporters env res k = {}" by simp
  with i card_length [of "named (cs_replies st) k"] show False
    by (metis Un_empty_right not_less order_trans)
qed

lemma live_step:
  assumes "live_inv env (length (sm_nodes sm)) (sm_f sm) k st (re # res)"
    and "length (sm_nodes sm) < 2 ^ 63" and "re \<noteq> RE_Terminate"
  obtains s fx where "handle_consensus env checks sm st re = Ok (s, fx)"
    and "(s = RS_Finish \<and> (\<exists>reply. acks fx = map (\<lambda>i. (i, Inr reply)) (sm_cmd_ids sm))) \<or>
      (acks fx = [] \<and>
       (\<exists>st'. s = RS_Consensus st' \<and> live_inv env (length (sm_nodes sm)) (sm_f sm) k st' res))"
proof -
  have cont: "\<exists>fx. cs_continue checks sm st' req_id n = Ok (RS_Consensus st', fx) \<and> acks fx = []"
    if "live_inv env (length (sm_nodes sm)) (sm_f sm) k st' res" for st' req_id n
    using live_reachable [OF that assms(2), of checks] by (simp add: cs_continue_def)
  consider (ans) raw_msg n where "answer re = Some (raw_msg, n)"
    | (time) req_id n where "re = RE_Timeout req_id n"
    | (other) "answer re = None" "\<not> counts re"
    by (cases re) auto
  then show thesis
  proof cases
    case ans
    obtain req_id where h: "handle_consensus env checks sm st re = cs_on_reply env checks sm st raw_msg n req_id"
      and cn: "counts re"
      using ans by (cases re) (auto simp: handle_consensus_def)
    show ?thesis
    proof (cases "result_key env raw_msg")
      case (Some k0)
      then obtain r0 where g: "get_msg_result_without_state_proof env raw_msg = Ok (r0, k0)"
        by (auto simp: result_key_def split: outcome.splits)
      have b: "ballot env re = [(k0, n)]" using ans Some by (simp add: ballot_def)
      show ?thesis
      proof (cases "sm_f sm < length (named (add_vote (cs_replies st) k0 n) k0)")
        case True
        with h g that show ?thesis by (auto simp: cs_on_reply_def Let_def)
      next
        case False
        with live_inv_vote [OF assms(1) b] cont h g that show ?thesis
          by (fastforce simp: cs_on_reply_def Let_def)
      qed
    next
      case None
      then have b: "ballot env re = []" using ans by (simp add: ballot_def)
      let ?st = "st\<lparr>cs_denied_nodes := List.insert n (cs_denied_nodes st)\<rparr>"
      have l: "live_inv env (length (sm_nodes sm)) (sm_f sm) k ?st res"
        using live_inv_silent [OF assms(1) b, of ?st] cn by (simp add: length_list_insert)
      have "get_msg_result_without_state_proof env raw_msg = Err InvalidStructure"
        using None by (auto simp: result_key_def get_msg_result_without_state_proof_def Let_def
            ok_or_def split: option.splits)
      with live_not_denied [OF l] l h that show ?thesis by (auto simp: cs_on_reply_def Let_def)
    qed
  next
    case time
    let ?st = "st\<lparr>cs_timeout_nodes := List.insert n (cs_timeout_nodes st)\<rparr>"
    have "live_inv env (length (sm_nodes sm)) (sm_f sm) k ?st res"
      using live_inv_silent [OF assms(1), of ?st] time by (simp add: ballot_def length_list_insert)
    with cont [OF this] that time show ?thesis by (fastforce simp: handle_consensus_def)
  next
    case other
    then have "live_inv env (length (sm_nodes sm)) (sm_f sm) k st res"
      using live_inv_silent [OF assms(1), of st] by (simp add: ballot_def)
    with other that assms(3) show ?thesis by (cases re) (auto simp: handle_consensus_def)
  qed
qed

lemma live_run:
  assumes "live_inv env (length (sm_nodes sm)) (sm_f sm) k st res" and "sm_state sm = RS_Consensus st"
    and "length (sm_nodes sm) < 2 ^ 63" and "RE_Terminate \<notin> set res"
  shows "\<exists>sm' es fx reply. run_events env checks fuel fs sm res = Some (Ok (sm', es, fx, fs)) \<and>
    sm_state sm' = RS_Finish \<and> acks fx = map (\<lambda>i. (i, Inr reply)) (sm_cmd_ids sm)"
  using assms
proof (induction res arbitrary: sm st)
  case Nil
  then show ?case
    using card_length [of "named (cs_replies st) k"] by (auto simp: live_inv_def dest!: spec [of _ k])
next
  case (Cons re res)
  have "re \<noteq> RE_Terminate" using Cons.prems(4) by auto
  from live_step [OF Cons.prems(1,3) this, of checks] obtain s fx1
    where h: "handle_consensus env checks sm st re = Ok (s, fx1)"
    and alt: "(s = RS_Finish \<and> (\<exists>reply. acks fx1 = map (\<lambda>i. (i, Inr reply)) (sm_cmd_ids sm))) \<or>
      (acks fx1 = [] \<and>
       (\<exists>st'. s = RS_Consensus st' \<and> live_inv env (length (sm_nodes sm)) (sm_f sm) k st' res))"
    by metis
  have e: "handle_event env checks fuel fs sm re = Some (Ok (s, None, fx1, fs))"
    using h Cons.prems(2) by (simp add: handle_event_def)
  show ?case
  proof (cases "s = RS_Finish")
    case True
    with alt e run_events_Finish [of "sm\<lparr>sm_state := s\<rparr>" env checks fuel fs res] show ?thesis by auto
  next
    case False
    with alt obtain st' where s: "s = RS_Consensus st'" "acks fx1 = []"
      "live_inv env (length (sm_nodes sm)) (sm_f sm) k st' res"
      by auto
    with Cons.IH [of "sm\<lparr>sm_state := s\<rparr>" st'] Cons.prems(3,4) e show ?thesis by fastforce
  qed
qed

section \<open>One node that gives many results\<close>

lemma hm_insert_new: "k \<notin> fst ` set m \<Longrightarrow> hm_insert m k v = m @ [(k, v)]"
  by (induction m k v rule: hm_insert.induct) auto

lemma hm_get_snoc: "k \<notin> fst ` set m \<Longrightarrow> hm_get (m @ [(k, v)]) k = Some v"
  by (induction m) auto

definition lone_votes :: "string \<Rightarrow> SJsonValue list \<Rightarrow> ConsensusState" where
  "lone_votes n ks = \<lparr>cs_denied_nodes = [], cs_replies = map (\<lambda>k. (k, [n])) ks, cs_timeout_nodes = []\<rparr>"

lemma lone_votes_add:
  assumes "k \<notin> set ks"
  shows "add_vote (cs_replies (lone_votes n ks)) k n = cs_replies (lone_votes n (ks @ [k]))"
proof -
  have "hm_get (map (\<lambda>k. (k, [n])) ks) k = None" using assms by (auto simp: hm_simps)
  with assms show ?thesis
    by (auto simp: add_vote_def lone_votes_def unwrap_or_def hm_insert_new image_iff)
qed

lemma lone_votes_counts:
  "votes_cast (lone_votes n ks) = length ks" "ks \<noteq> [] \<Longrightarrow> top_votes (lone_votes n ks) = 1"
  by (induction ks) (auto simp: lone_votes_def hm_values_def top_votes_def image_constant_conv)

lemma lone_votes_step:
  assumes "k \<notin> set ks" and "1 \<le> sm_f sm" and "length ks < length (sm_nodes sm)"
    and "length (sm_nodes sm) < 2 ^ 63" and "get_msg_result_without_state_proof env raw_msg = Ok (r, k)"
  shows "cs_on_reply env checks sm (lone_votes n ks) raw_msg n req_id =
    Ok (if length ks + sm_f sm < length (sm_nodes sm)
        then (RS_Consensus (lone_votes n (ks @ [k])), [Net (NE_CleanTimeout req_id (Some n))])
        else (RS_Finish, send_replies (sm_cmd_ids sm) (Inl PoolTimeout) @ [Net (NE_CleanTimeout req_id None)]))"
proof -
  let ?st = "lone_votes n (ks @ [k])"
  have st: "(lone_votes n ks)\<lparr>cs_replies := add_vote (cs_replies (lone_votes n ks)) k n\<rparr> = ?st"
    using lone_votes_add [OF assms(1)] by (simp add: lone_votes_def)
  have "hm_get (cs_replies ?st) k = Some [n]"
    using assms(1) by (auto simp: lone_votes_def image_iff intro!: hm_get_snoc)
  moreover have "cs_is_consensus_reachable checks ?st (sm_f sm) (length (sm_nodes sm)) =
      Ok (length ks + sm_f sm < length (sm_nodes sm))"
    using assms(3,4) by (subst reachable_eq) (auto simp: lone_votes_counts, simp_all add: lone_votes_def)
  ultimately show ?thesis
    using assms(2,5) st lone_votes_add [OF assms(1), of n]
    by (simp add: cs_on_reply_def Let_def cs_continue_def unwrap_or_def)
qed

lemma lone_votes_run:
  assumes "sm_state sm = RS_Consensus (lone_votes n ks)" and "1 \<le> sm_f sm" and "sm_f sm \<le> length (sm_nodes sm)"
    and "length (sm_nodes sm) < 2 ^ 63" and "length ks + length raws = length (sm_nodes sm) + 1 - sm_f sm"
    and "raws \<noteq> []" and "map (result_key env) raws = map Some ks'" and "distinct (ks @ ks')"
  shows "\<exists>sm' es fx. run_events env checks fuel fs sm (map (\<lambda>raw. RE_Reply rep raw n req_id) raws) =
    Some (Ok (sm', es, fx, fs)) \<and> sm_state sm' = RS_Finish \<and>
    acks fx = map (\<lambda>i. (i, Inl PoolTimeout)) (sm_cmd_ids sm)"
  using assms
proof (induction raws arbitrary: sm ks ks')
  case (Cons raw raws)
  from Cons.prems(7) obtain k ks2 where ks': "ks' = k # ks2" "result_key env raw = Some k"
    "map (result_key env) raws = map Some ks2"
    by (cases ks') auto
  then obtain r where g: "get_msg_result_without_state_proof env raw = Ok (r, k)"
    by (auto simp: result_key_def split: outcome.splits)
  have len: "length ks < length (sm_nodes sm)" "k \<notin> set ks"
    using Cons.prems(2,3,5,8) ks'(1) by auto
  note step = lone_votes_step [OF len(2) Cons.prems(2) len(1) Cons.prems(4) g, of checks n req_id]
  show ?case
  proof (cases "length ks + sm_f sm < length (sm_nodes sm)")
    case True
    let ?sm = "sm\<lparr>sm_state := RS_Consensus (lone_votes n (ks @ [k]))\<rparr>"
    have "raws \<noteq> []" using True Cons.prems(3,5) by auto
    with Cons.IH [of ?sm "ks @ [k]" ks2] Cons.prems ks' obtain sm' es fx where
      "run_events env checks fuel fs ?sm (map (\<lambda>raw. RE_Reply rep raw n req_id) raws) = Some (Ok (sm', es, fx, fs))"
      "sm_state sm' = RS_Finish" "acks fx = map (\<lambda>i. (i, Inl PoolTimeout)) (sm_cmd_ids sm)"
      by auto
    with step True Cons.prems(1) show ?thesis by (simp add: handle_event_def handle_consensus_def)
  next
    case False
    with step Cons.prems(1)
      run_events_Finish [of "sm\<lparr>sm_state := RS_Finish\<rparr>" env checks fuel fs "map (\<lambda>raw. RE_Reply rep raw n req_id) raws"]
    show ?thesis by (simp add: handle_event_def handle_consensus_def)
  qed
qed simp

section \<open>Full requests\<close>

text \<open>What an event contributes to the accumulated reply.\<close>

fun full_answer :: "RequestEvent \<Rightarrow> (string \<times> string) option" where
  "full_answer (RE_Timeout _ n) = Some (n, ''timeout'')"
| "full_answer re = map_option (\<lambda>(raw_msg, n). (n, raw_msg)) (answer re)"

definition required_replies :: "RequestSM \<Rightarrow> FullState \<Rightarrow> nat" where
  "required_replies sm st =
     (case fl_nodes_to_send st of Some ns \<Rightarrow> length ns | None \<Rightarrow> length (sm_nodes sm))"

definition accumulated :: "FullState \<Rightarrow> (string \<times> SJsonValue) list" where
  "accumulated st = (case fl_accum_reply st of None \<Rightarrow> [] | Some m \<Rightarrow> m)"

lemma handle_full_answer:
  assumes "full_answer re = Some (n, raw_msg)"
  shows "\<exists>req_id. handle_full env sm st re = (let m = hm_insert (accumulated st) n (Value_String raw_msg) in
    if length m = required_replies sm st
    then (RS_Finish, Net (NE_CleanTimeout req_id None) #
           send_ok_replies (sm_cmd_ids sm) (env_to_string env (Value_Object m)))
    else (RS_Full (st\<lparr>fl_accum_reply := Some m\<rparr>), [Net (NE_CleanTimeout req_id (Some n))]))"
  using assms
  by (cases re) (auto simp: handle_full_def full_request_handle_consensus_state_def required_replies_def
      accumulated_def Let_def split: option.splits)

lemma handle_full_other:
  "full_answer re = None \<Longrightarrow> re \<noteq> RE_Terminate \<Longrightarrow> handle_full env sm st re = (RS_Full st, [])"
  by (cases re) (auto simp: handle_full_def)

lemma full_run_complete:
  assumes "sm_state sm = RS_Full st" and "map full_answer res = map Some ans"
    and "distinct (map fst (accumulated st) @ map fst ans)" and "ans \<noteq> []"
    and "length (accumulated st) + length ans = required_replies sm st"
  shows "\<exists>sm' es fx. run_events env checks fuel fs sm res = Some (Ok (sm', es, fx, fs)) \<and>
    sm_state sm' = RS_Finish \<and>
    acks fx = map (\<lambda>i. (i, Inr (env_to_string env (Value_Object
      (accumulated st @ map (\<lambda>(n, raw_msg). (n, Value_String raw_msg)) ans))))) (sm_cmd_ids sm)"
  using assms
proof (induction res arbitrary: sm st ans)
  case (Cons re res)
  then obtain n raw_msg ans' where ans: "ans = (n, raw_msg) # ans'" "full_answer re = Some (n, raw_msg)"
    "map full_answer res = map Some ans'"
    by (cases ans) auto
  let ?m = "accumulated st @ [(n, Value_String raw_msg)]"
  have m: "hm_insert (accumulated st) n (Value_String raw_msg) = ?m"
    using Cons.prems(3) ans(1) by (intro hm_insert_new) auto
  from handle_full_answer [OF ans(2), of env sm st] m obtain req_id
    where h: "handle_full env sm st re = (if length ?m = required_replies sm st
      then (RS_Finish, Net (NE_CleanTimeout req_id None) #
             send_ok_replies (sm_cmd_ids sm) (env_to_string env (Value_Object ?m)))
      else (RS_Full (st\<lparr>fl_accum_reply := Some ?m\<rparr>), [Net (NE_CleanTimeout req_id (Some n))]))"
    by (auto simp: Let_def)
  show ?case
  proof (cases "ans' = []")
    case True
    with Cons.prems(1,5) ans h run_events_Finish [of "sm\<lparr>sm_state := RS_Finish\<rparr>" env checks fuel fs res]
    show ?thesis by (simp add: handle_event_def)
  next
    case False
    let ?st = "st\<lparr>fl_accum_reply := Some ?m\<rparr>"
    have a: "accumulated ?st = ?m" "required_replies (sm\<lparr>sm_state := RS_Full ?st\<rparr>) ?st = required_replies sm st"
      by (simp_all add: accumulated_def required_replies_def split: option.split)
    from Cons.IH [of "sm\<lparr>sm_state := RS_Full ?st\<rparr>" ?st ans'] a False ans Cons.prems(3,5)
    obtain sm' es fx where "run_events env checks fuel fs (sm\<lparr>sm_state := RS_Full ?st\<rparr>) res = Some (Ok (sm', es, fx, fs))"
      "sm_state sm' = RS_Finish"
      "acks fx = map (\<lambda>i. (i, Inr (env_to_string env (Value_Object
        (?m @ map (\<lambda>(n, raw_msg). (n, Value_String raw_msg)) ans'))))) (sm_cmd_ids sm)"
      by auto
    moreover have "length ?m \<noteq> required_replies sm st"
      using Cons.prems(5) ans(1) False by (cases ans') auto
    ultimately show ?thesis using Cons.prems(1) ans(1) h by (simp add: handle_event_def)
  qed
qed simp

lemma full_run_stuck:
  assumes "sm_state sm = RS_Full st" and "fl_nodes_to_send st = Some ns" and "\<not> distinct ns"
    and "fst ` set (accumulated st) \<subseteq> set ns" and "hm_wf (accumulated st)" and "RE_Terminate \<notin> set res"
    and "\<forall>re \<in> set res. \<forall>n raw_msg. full_answer re = Some (n, raw_msg) \<longrightarrow> n \<in> set ns"
  shows "\<exists>sm' es fx st'. run_events env checks fuel fs sm res = Some (Ok (sm', es, fx, fs)) \<and>
    sm_state sm' = RS_Full st' \<and> acks fx = []"
  using assms
proof (induction res arbitrary: sm st)
  case (Cons re res)
  show ?case
  proof (cases "full_answer re")
    case None
    with Cons.prems have "handle_full env sm st re = (RS_Full st, [])" by (intro handle_full_other) auto
    with Cons.IH [of "sm\<lparr>sm_state := RS_Full st\<rparr>" st] Cons.prems show ?thesis
      by (fastforce simp: handle_event_def)
  next
    case (Some nr)
    obtain n raw_msg where nr: "nr = (n, raw_msg)" by (cases nr)
    let ?m = "hm_insert (accumulated st) n (Value_String raw_msg)"
    let ?st = "st\<lparr>fl_accum_reply := Some ?m\<rparr>"
    have wf: "hm_wf ?m" "fst ` set ?m \<subseteq> set ns"
      using Cons.prems Some nr by (auto simp: hm_simps)
    have "length ?m = card (fst ` set ?m)"
      using wf(1) distinct_card [of "map fst ?m"] by (simp add: hm_wf_def)
    also have "\<dots> \<le> card (set ns)" using wf(2) by (simp add: card_mono)
    also have "\<dots> < length ns" using Cons.prems(3) card_distinct card_length le_neq_implies_less by blast
    finally have "length ?m \<noteq> required_replies sm st" using Cons.prems(2) by (simp add: required_replies_def)
    with handle_full_answer [of re n raw_msg env sm st] Some nr obtain req_id where
      h: "handle_full env sm st re = (RS_Full ?st, [Net (NE_CleanTimeout req_id (Some n))])"
      by (auto simp: Let_def)
    have "accumulated ?st = ?m" "fl_nodes_to_send ?st = Some ns"
      using Cons.prems(2) by (simp_all add: accumulated_def)
    with Cons.IH [of "sm\<lparr>sm_state := RS_Full ?st\<rparr>" ?st] Cons.prems(3,6,7) wf obtain sm' es fx st'
      where "run_events env checks fuel fs (sm\<lparr>sm_state := RS_Full ?st\<rparr>) res = Some (Ok (sm', es, fx, fs))"
        "sm_state sm' = RS_Full st'" "acks fx = []"
      by auto
    with Cons.prems(1) h show ?thesis by (simp add: handle_event_def)
  qed
qed simp

section \<open>Proved replies\<close>

text \<open>A reply whose state proofs carry the signatures of a quorum and are fresh enough.\<close>

definition signed_reply ::
    "'a RequestEnv_scheme \<Rightarrow> bool \<Rightarrow> nat \<Rightarrow> Nodes \<Rightarrow> bytes option \<Rightarrow> nat option \<times> nat option \<Rightarrow> string \<Rightarrow> bool" where
  "signed_reply env checks f nodes sp_key timestamps reply \<longleftrightarrow>
     (\<exists>result k t sps. get_msg_result_without_state_proof env reply = Ok (result, k) \<and>
        get_last_signed_time env reply = Ok t \<and>
        parse_generic_reply_for_proof_checking env result reply sp_key = Ok (Some sps) \<and>
        (\<forall>sp \<in> set sps. quorum_signed env nodes f sp) \<and>
        check_freshness env checks result timestamps (unwrap_or t 0) = Ok True)"

lemma proved_reply_signed:
  assumes "proved_reply env checks fuel sm st reply" and "hm_wf (sm_nodes sm)"
    and "sm_f sm \<le> length (sm_nodes sm)"
  shows "signed_reply env checks (sm_f sm) (sm_nodes sm) (ss_sp_key st) (ss_timestamps st) reply"
proof -
  obtain result k t where r: "get_msg_result_without_state_proof env reply = Ok (result, k)"
    "get_last_signed_time env reply = Ok t"
    "check_state_proof env checks fuel result (sm_f sm) (sm_nodes sm) reply (ss_sp_key st)
      (ss_timestamps st) (unwrap_or t 0) = Some (Ok True)"
    using assms(1) by (auto simp: proved_reply_def)
  then obtain sps where p: "parse_generic_reply_for_proof_checking env result reply (ss_sp_key st) = Ok (Some sps)"
    and v: "verify_parsed_sp env checks fuel (sm_nodes sm) (sm_f sm) sps = Some (Ok True)"
    and c: "check_freshness env checks result (ss_timestamps st) (unwrap_or t 0) = Ok True"
    by (auto simp: check_state_proof_def split: option.splits if_splits)
  have "quorum_signed env (sm_nodes sm) (sm_f sm) sp" if "sp \<in> set sps" for sp
    using v that assms(2,3) verify_one_sp_signed [of env checks fuel "sm_nodes sm" "sm_f sm" sp]
    by (simp add: verify_parsed_sp_all)
  with r p c show ?thesis by (auto simp: signed_reply_def)
qed

section \<open>A sample environment\<close>

text \<open>Every message is read as an object whose result is the text of the message.\<close>

definition sample_request_env :: RequestEnv where
  "sample_request_env = PoolEnv.extend
     (sample_pool_env\<lparr>env_from_str := \<lambda>s. Some (Value_Object [(''result'', Value_String s)])\<rparr>)
     (RequestEnv.fields (\<lambda>_. None))"

lemma sample_request_env_simps [simp]:
  "env_from_str sample_request_env = (\<lambda>s. Some (Value_Object [(''result'', Value_String s)]))"
  "env_to_string sample_request_env = env_to_string sample_env"
  by (simp_all add: sample_request_env_def sample_pool_env_def SPEnv.defs PoolEnv.defs RequestEnv.defs)

lemma sample_result [simp]:
  "get_msg_result_without_state_proof sample_request_env s = Ok (Value_String s, Value_String s)"
  "result_key sample_request_env s = Some (Value_String s)"
  "get_last_signed_time sample_request_env s = Ok None"
  by (simp_all add: result_key_def get_msg_result_without_state_proof_def json_remove_def json_index_def
      Let_def get_last_signed_time_def parse_response_metadata_def response_message_def)

definition sample_nodes :: Nodes where
  "sample_nodes = [(''n1'', None), (''n2'', None), (''n3'', None), (''n4'', None)]"

abbreviation sample_sm :: RequestSM where
  "sample_sm \<equiv> request_sm_new 1 [7] sample_nodes 10 20 2"

abbreviation sample_reply :: "string \<Rightarrow> string \<Rightarrow> RequestEvent" where
  "sample_reply raw_msg n \<equiv> RE_Reply (ReplyV0 1) raw_msg n ''1''"

lemmas sample_run_simps = handle_event_def handle_start_def handle_consensus_def handle_single_def
  handle_full_def cs_on_reply_def cs_continue_def ss_on_reply_def request_sm_new_def sample_nodes_def
  add_vote_def insert_response_def unwrap_or_def cs_is_consensus_reachable_def hm_values_def
  usize_add_def usize_sub_def u8_pred_def Let_def

section \<open>Properties\<close>

text \<open>
  C25: A client request is acknowledged exactly once: over any sequence of events, a single, a
  consensus or a full request has acknowledged each of its commands once, all with the same
  answer, if it has reached the final state, and none of them otherwise.
\<close>

theorem request_acked_once:
  assumes "run_events env checks fuel fs (request_sm_new f cmd_ids nodes timeout extended_timeout read_nodes)
      (re # res) = Some (Ok (sm', es, fx, fs'))"
    and "is_custom_request re"
  shows "(sm_state sm' = RS_Finish \<longrightarrow> (\<exists>m. acks fx = map (\<lambda>i. (i, m)) cmd_ids)) \<and>
    (sm_state sm' \<noteq> RS_Finish \<longrightarrow> acks fx = [])"
proof -
  let ?sm = "request_sm_new f cmd_ids nodes timeout extended_timeout read_nodes"
  obtain s e fx1 fs1 es2 fx2 where h: "handle_event env checks fuel fs ?sm re = Some (Ok (s, e, fx1, fs1))"
    and r: "run_events env checks fuel fs1 (?sm\<lparr>sm_state := s\<rparr>) res = Some (Ok (sm', es2, fx2, fs'))"
    and fx: "fx = fx1 @ fx2"
    using assms(1) by (rule run_events_ConsE)
  have a: "acked_step cmd_ids s fx1"
    using acked_step_custom_request [OF _ assms(2) h] by (simp add: request_sm_new_def)
  have "acked_step cmd_ids (sm_state sm') fx"
  proof (cases "s = RS_Finish")
    case True
    with r run_events_Finish [of "?sm\<lparr>sm_state := s\<rparr>" env checks fuel fs1 res] a fx show ?thesis by auto
  next
    case False
    with a have "client_state s" "acks fx1 = []" by (auto simp: acked_step_def)
    with acked_run_client [OF _ r] fx show ?thesis by (simp add: acked_step_def request_sm_new_def)
  qed
  then show ?thesis by (auto simp: acked_step_def)
qed

theorem request_acked_once_witness:
  "\<exists>sm' es fx fs'. run_events sample_request_env True 0 sample_files sample_sm
     [RE_CustomConsensusRequest ''m'' ''1'', sample_reply ''a'' ''n1'', sample_reply ''a'' ''n2''] =
     Some (Ok (sm', es, fx, fs')) \<and> sm_state sm' = RS_Finish \<and> (\<exists>m. acks fx = [(7, m)])"
proof -
  let ?res = "[sample_reply ''a'' ''n1'', sample_reply ''a'' ''n2'']"
  have "\<exists>sm' es fx fs'. run_events sample_request_env True 0 sample_files sample_sm
     (RE_CustomConsensusRequest ''m'' ''1'' # ?res) = Some (Ok (sm', es, fx, fs')) \<and> sm_state sm' = RS_Finish"
    by (simp add: sample_run_simps)
  then show ?thesis using request_acked_once [of sample_request_env True 0 sample_files 1 "[7]" sample_nodes
      10 20 2 "RE_CustomConsensusRequest ''m'' ''1''" ?res]
    by fastforce
qed

text \<open>
  C4: A consensus request reports success only with the answer of a node of which more than
  \<open>f\<close> different nodes gave the same result, whatever else arrives and in whatever order.
\<close>

theorem consensus_reply_quorum:
  assumes "run_events env checks fuel fs (request_sm_new f cmd_ids nodes timeout extended_timeout read_nodes)
      (RE_CustomConsensusRequest msg req_id # res) = Some (Ok (sm', es, fx, fs'))"
    and "(i, Inr reply) \<in> set (acks fx)"
  shows "\<exists>k n re. re \<in> set res \<and> answer re = Some (reply, n) \<and> result_key env reply = Some k \<and>
    f < card (supporters env res k)"
proof -
  let ?sm = "request_sm_new f cmd_ids nodes timeout extended_timeout read_nodes"
  let ?st = "\<lparr>cs_denied_nodes = [], cs_replies = [], cs_timeout_nodes = []\<rparr> :: ConsensusState"
  obtain es2 fx2 where r: "run_events env checks fuel fs (?sm\<lparr>sm_state := RS_Consensus ?st\<rparr>) res =
      Some (Ok (sm', es2, fx2, fs'))" and "(i, Inr reply) \<in> set (acks fx2)"
    using assms by (fastforce simp: handle_event_def handle_start_def request_sm_new_def)
  with consensus_run [OF r, of ?st "[]"] show ?thesis by (simp add: request_sm_new_def)
qed

theorem consensus_reply_quorum_witness:
  "1 < card (supporters sample_request_env [sample_reply ''a'' ''n1'', sample_reply ''a'' ''n2'']
     (Value_String ''a''))"
proof -
  let ?res = "[sample_reply ''a'' ''n1'', sample_reply ''a'' ''n2'']"
  have "\<exists>sm' es fx fs'. run_events sample_request_env True 0 sample_files sample_sm
     (RE_CustomConsensusRequest ''m'' ''1'' # ?res) = Some (Ok (sm', es, fx, fs')) \<and>
     (7, Inr ''a'') \<in> set (acks fx)"
    by (simp add: sample_run_simps)
  then show ?thesis using consensus_reply_quorum [of sample_request_env True 0 sample_files 1 "[7]"
      sample_nodes 10 20 2 "''m''" "''1''" ?res _ _ _ _ 7 "''a''"]
    by fastforce
qed



text \<open>
  C28: Progress of consensus requests: when at most one answer or timeout per node arrives, and
  more than \<open>f\<close> different nodes are among them with one result, the request ends and reports
  success, in every order of arrival and with any malformed answers among them.
\<close>

theorem consensus_request_completes:
  assumes "length (filter counts res) \<le> length nodes" and "length nodes < 2 ^ 63"
    and "f < card (supporters env res k)" and "RE_Terminate \<notin> set res"
  shows "\<exists>sm' es fx reply.
    run_events env checks fuel fs (request_sm_new f cmd_ids nodes timeout extended_timeout read_nodes)
      (RE_CustomConsensusRequest msg req_id # res) = Some (Ok (sm', es, fx, fs)) \<and>
    sm_state sm' = RS_Finish \<and> acks fx = map (\<lambda>i. (i, Inr reply)) cmd_ids"
proof -
  let ?sm = "request_sm_new f cmd_ids nodes timeout extended_timeout read_nodes"
  let ?st = "\<lparr>cs_denied_nodes = [], cs_replies = [], cs_timeout_nodes = []\<rparr> :: ConsensusState"
  have "live_inv env (length nodes) f k ?st res"
    using assms(1,3) by (simp add: live_inv_def hm_values_def unwrap_or_def)
  with live_run [of env "?sm\<lparr>sm_state := RS_Consensus ?st\<rparr>" k ?st res checks fuel fs] assms(2,4)
  show ?thesis by (fastforce simp: handle_event_def handle_start_def request_sm_new_def)
qed

theorem consensus_request_completes_witness:
  "\<exists>sm' es fx reply.
    run_events sample_request_env True 0 sample_files sample_sm
      [RE_CustomConsensusRequest ''m'' ''1'', sample_reply ''b'' ''n3'', RE_Timeout ''1'' ''n4'',
       sample_reply ''a'' ''n1'', sample_reply ''a'' ''n2''] = Some (Ok (sm', es, fx, sample_files)) \<and>
    sm_state sm' = RS_Finish \<and> acks fx = [(7, Inr reply)]"
proof -
  let ?res = "[sample_reply ''b'' ''n3'', RE_Timeout ''1'' ''n4'', sample_reply ''a'' ''n1'', sample_reply ''a'' ''n2'']"
  have "supporters sample_request_env ?res (Value_String ''a'') = {''n1'', ''n2''}"
    by (auto simp: supporters_def)
  then show ?thesis
    using consensus_request_completes [of ?res sample_nodes 1 sample_request_env "Value_String ''a''"
        True 0 sample_files "[7]" 10 20 2 "''m''" "''1''"]
    by (simp add: sample_nodes_def)
qed

text \<open>
  Answers are not limited to one per node, and one node can end a consensus request for the
  whole pool: \<open>n + 1 - f\<close> answers with pairwise different results from the same node make the
  handler report a timeout before any other node was heard.
\<close>

theorem one_node_ends_consensus:
  assumes "1 \<le> f" and "f \<le> length nodes" and "length nodes < 2 ^ 63"
    and "length raws = length nodes + 1 - f" and "map (result_key env) raws = map Some ks" and "distinct ks"
  shows "\<exists>sm' es fx.
    run_events env checks fuel fs (request_sm_new f cmd_ids nodes timeout extended_timeout read_nodes)
      (RE_CustomConsensusRequest msg req_id # map (\<lambda>raw. RE_Reply rep raw n req_id) raws) =
      Some (Ok (sm', es, fx, fs)) \<and>
    sm_state sm' = RS_Finish \<and> acks fx = map (\<lambda>i. (i, Inl PoolTimeout)) cmd_ids"
proof -
  let ?sm = "(request_sm_new f cmd_ids nodes timeout extended_timeout read_nodes)
    \<lparr>sm_state := RS_Consensus (lone_votes n [])\<rparr>"
  have "raws \<noteq> []" using assms(2,4) by auto
  with lone_votes_run [of ?sm n "[]" raws env ks checks fuel fs rep req_id] assms show ?thesis
    by (fastforce simp: handle_event_def handle_start_def request_sm_new_def lone_votes_def)
qed

theorem one_node_ends_consensus_witness:
  "\<exists>sm' es fx.
    run_events sample_request_env True 0 sample_files sample_sm
      (RE_CustomConsensusRequest ''m'' ''1'' #
       map (\<lambda>raw. sample_reply raw ''n1'') [''a'', ''b'', ''c'', ''d'']) =
      Some (Ok (sm', es, fx, sample_files)) \<and>
    sm_state sm' = RS_Finish \<and> acks fx = [(7, Inl PoolTimeout)]"
  using one_node_ends_consensus [of 1 sample_nodes "[''a'', ''b'', ''c'', ''d'']" sample_request_env
      "map Value_String [''a'', ''b'', ''c'', ''d'']" True 0 sample_files "[7]" 10 20 2 "''m''" "''1''"
      "ReplyV0 1" "''n1''"]
  by (simp add: sample_nodes_def)

text \<open>
  A full request ends as soon as every node it was sent to has answered or timed out, in any
  order, and its answer holds what each of them said.
\<close>

theorem full_request_completes:
  assumes "nodes_to_send = None \<Longrightarrow> length ans = length nodes"
    and "\<And>nodes_text. nodes_to_send = Some nodes_text \<Longrightarrow>
      \<exists>ns. parse_string_vec (env_from_str env) nodes_text = Some ns \<and> length ans = length ns \<and>
        set ns \<subseteq> fst ` set nodes"
    and "map full_answer res = map Some ans" and "distinct (map fst ans)" and "ans \<noteq> []"
  shows "\<exists>sm' es fx.
    run_events env checks fuel fs (request_sm_new f cmd_ids nodes timeout extended_timeout read_nodes)
      (RE_CustomFullRequest msg req_id local_timeout nodes_to_send # res) = Some (Ok (sm', es, fx, fs)) \<and>
    sm_state sm' = RS_Finish \<and>
    acks fx = map (\<lambda>i. (i, Inr (env_to_string env (Value_Object
      (map (\<lambda>(n, raw_msg). (n, Value_String raw_msg)) ans))))) cmd_ids"
proof -
  let ?sm = "request_sm_new f cmd_ids nodes timeout extended_timeout read_nodes"
  define sent where "sent = Option.bind nodes_to_send (parse_string_vec (env_from_str env))"
  let ?st = "\<lparr>fl_accum_reply = None, fl_nodes_to_send = sent\<rparr>"
  have a: "accumulated ?st = []" by (simp add: accumulated_def)
  have req: "length ans = required_replies (?sm\<lparr>sm_state := RS_Full ?st\<rparr>) ?st"
    using assms(1,2) by (cases nodes_to_send) (auto simp: sent_def required_replies_def request_sm_new_def)
  have "\<exists>fx. handle_event env checks fuel fs ?sm (RE_CustomFullRequest msg req_id local_timeout nodes_to_send) =
      Some (Ok (RS_Full ?st, None, fx, fs)) \<and> acks fx = []"
  proof (cases nodes_to_send)
    case (Some nodes_text)
    from assms(2) [OF this] obtain ns where ns: "parse_string_vec (env_from_str env) nodes_text = Some ns"
      "length ans = length ns" "set ns \<subseteq> fst ` set nodes" by blast
    then have "ns \<noteq> []" "list_all (\<lambda>node. hm_get nodes node \<noteq> None) ns"
      using assms(5) by (auto simp: list_all_iff hm_simps)
    with Some ns show ?thesis
      by (simp add: handle_event_def handle_start_def request_sm_new_def sent_def Let_def)
  qed (simp add: handle_event_def handle_start_def request_sm_new_def sent_def Let_def)
  with full_run_complete [of "?sm\<lparr>sm_state := RS_Full ?st\<rparr>" ?st res ans env checks fuel fs] a req assms(3-5)
  show ?thesis by (fastforce simp: request_sm_new_def)
qed

theorem full_request_completes_witness:
  "\<exists>sm' es fx m.
    run_events sample_request_env True 0 sample_files sample_sm
      [RE_CustomFullRequest ''m'' ''1'' None None, sample_reply ''a'' ''n2'', RE_Timeout ''1'' ''n1'',
       sample_reply ''b'' ''n4'', sample_reply ''c'' ''n3''] = Some (Ok (sm', es, fx, sample_files)) \<and>
    sm_state sm' = RS_Finish \<and> acks fx = [(7, Inr m)]"
  using full_request_completes [of None "[(''n2'', ''a''), (''n1'', ''timeout''), (''n4'', ''b''), (''n3'', ''c'')]"
      sample_nodes sample_request_env "[sample_reply ''a'' ''n2'', RE_Timeout ''1'' ''n1'',
       sample_reply ''b'' ''n4'', sample_reply ''c'' ''n3'']" True 0 sample_files 1 "[7]" 10 20 2 "''m''" "''1''" None]
  by (fastforce simp: sample_nodes_def)

text \<open>
  The list of nodes of a full request is not checked for repetitions, and with one the
  request never ends: the answers of all its nodes are fewer than the entries of the list, so
  no sequence of answers and timeouts of these nodes acknowledges the command.
\<close>

theorem repeated_node_never_completes:
  assumes "parse_string_vec (env_from_str env) nodes_text = Some ns" and "set ns \<subseteq> fst ` set nodes"
    and "\<not> distinct ns" and "RE_Terminate \<notin> set res"
    and "\<forall>re \<in> set res. \<forall>n raw_msg. full_answer re = Some (n, raw_msg) \<longrightarrow> n \<in> set ns"
  shows "\<exists>sm' es fx st.
    run_events env checks fuel fs (request_sm_new f cmd_ids nodes timeout extended_timeout read_nodes)
      (RE_CustomFullRequest msg req_id local_timeout (Some nodes_text) # res) = Some (Ok (sm', es, fx, fs)) \<and>
    sm_state sm' = RS_Full st \<and> acks fx = []"
proof -
  let ?sm = "request_sm_new f cmd_ids nodes timeout extended_timeout read_nodes"
  let ?st = "\<lparr>fl_accum_reply = None, fl_nodes_to_send = Some ns\<rparr>"
  have "ns \<noteq> []" "list_all (\<lambda>node. hm_get nodes node \<noteq> None) ns"
    using assms(2,3) by (auto simp: list_all_iff hm_simps)
  with full_run_stuck [of "?sm\<lparr>sm_state := RS_Full ?st\<rparr>" ?st ns res env checks fuel fs] assms show ?thesis
    by (fastforce simp: accumulated_def hm_wf_def handle_event_def handle_start_def request_sm_new_def Let_def)
qed

theorem repeated_node_never_completes_witness:
  "\<exists>env :: RequestEnv. \<exists>sm' es fx st.
    run_events env True 0 sample_files sample_sm
      [RE_CustomFullRequest ''m'' ''1'' None (Some ''[n1,n1]''), sample_reply ''a'' ''n1'',
       RE_Timeout ''1'' ''n1''] = Some (Ok (sm', es, fx, sample_files)) \<and>
    sm_state sm' = RS_Full st \<and> acks fx = []"
proof -
  let ?env = "sample_request_env\<lparr>env_from_str := \<lambda>_. Some (Value_Array [Value_String ''n1'', Value_String ''n1''])\<rparr>"
  have "parse_string_vec (env_from_str ?env) ''[n1,n1]'' = Some [''n1'', ''n1'']"
    by (simp add: parse_string_vec_def)
  from repeated_node_never_completes [OF this, of sample_nodes "[sample_reply ''a'' ''n1'', RE_Timeout ''1'' ''n1'']"
      True 0 sample_files 1 "[7]" 10 20 2 "''m''" "''1''" None]
  show ?thesis by (fastforce simp: sample_nodes_def)
qed

end
