(* ===== verification/Pool_SM.thy ===== *)
theory Pool_SM
  imports Request_Protocol
begin

text \<open>
  The state machine of an open pool (\<open>libindy/src/services/pool/pool.rs\<close>): catch-up of the pool
  ledger when the pool is opened or refreshed, dispatch of client requests to request handlers
  while it is active, and the acknowledgements of the commands that open, refresh and close it.

  As in the source the machine works with any request handler: \<open>RequestHandlerOps\<close> holds the
  operations of the trait \<open>RequestHandler\<close>. The networker is not part of the state; what it is
  told is an effect, in order. A handler acts on the pool's files, which are threaded through.
\<close>

section \<open>Interfaces\<close>

record PoolThreadEnv = RequestEnv +
  env_curve25519 :: "bytes \<Rightarrow> bytes option"
  env_bls_ver_key :: "bytes \<Rightarrow> bytes option"

record 'h RequestHandlerOps =
  op_new :: "nat \<Rightarrow> int list \<Rightarrow> Nodes \<Rightarrow> int \<Rightarrow> int \<Rightarrow> nat \<Rightarrow> 'h"
  op_process_event :: "PoolFiles \<Rightarrow> 'h \<Rightarrow> RequestEvent option \<Rightarrow>
    ('h \<times> PoolEvent option \<times> Effect list \<times> PoolFiles) run"
  op_is_terminal :: "'h \<Rightarrow> bool"

datatype PoolEffect =
    RequestEffect Effect
  | OpenAck int int "IndyErrorKind + unit"
  | RefreshAck int "IndyErrorKind + unit"
  | CloseAck int

abbreviation pnet :: "NetworkerEvent \<Rightarrow> PoolEffect" where
  "pnet e \<equiv> RequestEffect (Net e)"

section \<open>States\<close>

record 'h GettingCatchupTargetState =
  gc_request_handler :: 'h
  gc_cmd_id :: int
  gc_refresh :: bool

record 'h ActiveState =
  ac_request_handlers :: "(string \<times> 'h) list"
  ac_nodes :: Nodes

record 'h SyncCatchupState =
  sc_request_handler :: 'h
  sc_cmd_id :: int
  sc_refresh :: bool

datatype 'h PoolState =
    PS_Initialization
  | PS_GettingCatchupTarget "'h GettingCatchupTargetState"
  | PS_Active "'h ActiveState"
  | PS_SyncCatchup "'h SyncCatchupState"
  | PS_Terminated
  | PS_Closed

record 'h PoolSM =
  pool_id :: int
  pool_timeout :: int
  pool_extended_timeout :: int
  pool_number_read_nodes :: nat
  pool_state :: "'h PoolState"

definition pool_sm_new :: "int \<Rightarrow> int \<Rightarrow> int \<Rightarrow> nat \<Rightarrow> 'h PoolSM" where
  "pool_sm_new i timeout extended_timeout number_read_nodes =
     \<lparr>pool_id = i, pool_timeout = timeout, pool_extended_timeout = extended_timeout,
      pool_number_read_nodes = number_read_nodes, pool_state = PS_Initialization\<rparr>"

fun pool_is_terminal :: "'h PoolState \<Rightarrow> bool" where
  "pool_is_terminal PS_Closed = True"
| "pool_is_terminal _ = False"

section \<open>Nodes\<close>

definition get_f :: "nat \<Rightarrow> nat" where
  "get_f cnt = (if cnt < 4 then 0 else (cnt - 1) div 3)"

definition ledger_status :: "'a PoolThreadEnv_scheme \<Rightarrow> MerkleTree \<Rightarrow> LedgerStatus" where
  "ledger_status env merkle =
     \<lparr>ls_txnSeqNo = mt_count merkle, ls_merkleRoot = env_to_b58 env (root_hash merkle),
      ls_ledgerId = 0, ls_ppSeqNo = None, ls_viewNo = None,
      ls_protocolVersion =
        (if env_protocol_version env > 1 then Some (env_protocol_version env) else None)\<rparr>"

definition node_and_remote ::
    "'a PoolThreadEnv_scheme \<Rightarrow> NodeTransactionV1 \<Rightarrow> ((string \<times> bytes option) \<times> RemoteNode) outcome" where
  "node_and_remote env t =
     (let data = txn_data (txn t); node_data = td_data data; node_alias = nd_alias node_data in
      and_then (ok_or InvalidStructure (env_from_b58 env (td_dest data))) (\<lambda>vk.
      and_then (ok_or InvalidStructure (env_curve25519 env vk)) (\<lambda>node_verkey.
      if (case services node_data of None \<Rightarrow> True | Some ss \<Rightarrow> ''VALIDATOR'' \<notin> set ss) then Err InvalidState
      else
        (case (client_ip node_data, client_port node_data) of
           (Some ip, Some port) \<Rightarrow>
             and_then
               (case blskey node_data of
                  None \<Rightarrow> Ok None
                | Some key \<Rightarrow>
                    and_then (ok_or InvalidStructure (env_from_b58 env key)) (\<lambda>k.
                      map_ok Some (ok_or InvalidStructure (env_bls_ver_key env k)))) (\<lambda>verkey.
               Ok ((node_alias, verkey),
                   \<lparr>rn_name = node_alias, rn_public_key = node_verkey,
                    rn_zaddr = ''tcp://'' @ ip @ '':'' @ show_nat port, rn_is_blacklisted = False\<rparr>))
         | _ \<Rightarrow> Err InvalidState))))"

fun collect_nodes ::
    "'a PoolThreadEnv_scheme \<Rightarrow> (string \<times> NodeTransactionV1) list \<Rightarrow> Nodes \<Rightarrow> RemoteNode list \<Rightarrow>
     Nodes \<times> RemoteNode list" where
  "collect_nodes env [] nodes remotes = (nodes, remotes)"
| "collect_nodes env ((_, t) # txns) nodes remotes =
     (case node_and_remote env t of
        Ok ((node_alias, verkey), remote) \<Rightarrow>
          collect_nodes env txns (hm_insert nodes node_alias verkey) (remotes @ [remote])
      | _ \<Rightarrow> collect_nodes env txns nodes remotes)"

definition get_nodes_and_remotes ::
    "'a PoolThreadEnv_scheme \<Rightarrow> MerkleTree \<Rightarrow> (Nodes \<times> RemoteNode list) outcome" where
  "get_nodes_and_remotes env merkle =
     map_ok (\<lambda>txns. collect_nodes env txns [] [])
       (build_node_state (env_from_b58 env) (env_to_b58 env) (env_node_txn_decode env)
          (env_protocol_version env) merkle)"

section \<open>Acknowledgements\<close>

definition send_open_refresh_ack :: "int \<Rightarrow> int \<Rightarrow> bool \<Rightarrow> IndyErrorKind + unit \<Rightarrow> PoolEffect" where
  "send_open_refresh_ack cmd_id i is_refresh res =
     (if is_refresh then RefreshAck cmd_id res else OpenAck cmd_id i res)"

section \<open>The handler of the catch-up\<close>

text \<open>
  The tree and the node list of a new catch-up: the cache is dropped once when the node list
  cannot be built from it.
\<close>

definition open_ledger ::
    "'a PoolThreadEnv_scheme \<Rightarrow> PoolFiles \<Rightarrow> (MerkleTree \<times> Nodes \<times> RemoteNode list) outcome \<times> PoolFiles" where
  "open_ledger env fs =
     (case pool_create env fs of
        Ok merkle \<Rightarrow>
          (case get_nodes_and_remotes env merkle of
             Ok nr \<Rightarrow> (Ok (merkle, nr), fs)
           | Err err \<Rightarrow>
               (case drop_cache fs of
                  (Ok _, fs') \<Rightarrow>
                    (and_then (pool_create env fs') (\<lambda>merkle'.
                       map_ok (Pair merkle') (get_nodes_and_remotes env merkle')), fs')
                | (_, fs') \<Rightarrow> (Err err, fs'))
           | Panic \<Rightarrow> (Panic, fs))
      | Err e \<Rightarrow> (Err e, fs)
      | Panic \<Rightarrow> (Panic, fs))"

definition get_request_handler_with_ledger_status_sent ::
    "'h RequestHandlerOps \<Rightarrow> 'a PoolThreadEnv_scheme \<Rightarrow> PoolFiles \<Rightarrow> 'h PoolSM \<Rightarrow>
     ((IndyErrorKind + 'h) \<times> PoolEffect list \<times> PoolFiles) run" where
  "get_request_handler_with_ledger_status_sent ops env fs sm =
     (case open_ledger env fs of
        (Ok (merkle, nodes, remotes), fs1) \<Rightarrow>
          run_then (op_process_event ops fs1
              (op_new ops (get_f (length nodes)) [] nodes (pool_timeout sm) (pool_extended_timeout sm)
                 (pool_number_read_nodes sm))
              (Some (RE_LedgerStatus (ledger_status env merkle) None (Some merkle)))) (\<lambda>(h, _, fx, fs2).
            Some (Ok (Inr h, pnet (NE_NodesStateUpdated remotes) # map RequestEffect fx, fs2)))
      | (Err e, fs1) \<Rightarrow> Some (Ok (Inl e, [], fs1))
      | (Panic, _) \<Rightarrow> Some Panic)"

section \<open>Transitions\<close>

type_synonym 'h pool_step = "('h PoolState \<times> PoolEffect list \<times> PoolFiles) run"

definition handle_initialization ::
    "'h RequestHandlerOps \<Rightarrow> 'a PoolThreadEnv_scheme \<Rightarrow> PoolFiles \<Rightarrow> 'h PoolSM \<Rightarrow> PoolEvent \<Rightarrow> 'h pool_step" where
  "handle_initialization ops env fs sm pe =
     (case pe of
        PE_CheckCache cmd_id \<Rightarrow>
          run_then (get_request_handler_with_ledger_status_sent ops env fs sm) (\<lambda>(r, fx, fs').
            Some (Ok (case r of
                Inr h \<Rightarrow>
                  (PS_GettingCatchupTarget
                     \<lparr>gc_request_handler = h, gc_cmd_id = cmd_id, gc_refresh = False\<rparr>, fx, fs')
              | Inl err \<Rightarrow> (PS_Terminated, fx @ [OpenAck cmd_id (pool_id sm) (Inl err)], fs'))))
      | PE_Close cmd_id \<Rightarrow> Some (Ok (PS_Closed, [CloseAck cmd_id], fs))
      | _ \<Rightarrow> Some (Ok (PS_Initialization, [], fs)))"

text \<open>A refresh, from an active or a terminated pool.\<close>

definition handle_refresh ::
    "'h RequestHandlerOps \<Rightarrow> 'a PoolThreadEnv_scheme \<Rightarrow> PoolFiles \<Rightarrow> 'h PoolSM \<Rightarrow> int \<Rightarrow> 'h pool_step" where
  "handle_refresh ops env fs sm cmd_id =
     run_then (get_request_handler_with_ledger_status_sent ops env fs sm) (\<lambda>(r, fx, fs').
       Some (Ok (case r of
           Inr h \<Rightarrow>
             (PS_GettingCatchupTarget
                \<lparr>gc_request_handler = h, gc_cmd_id = cmd_id, gc_refresh = True\<rparr>, fx, fs')
         | Inl _ \<Rightarrow> (PS_Terminated, fx, fs'))))"

text \<open>\<open>state.into()\<close> of a closing pool: a handler is terminated.\<close>

definition terminate_handler ::
    "'h RequestHandlerOps \<Rightarrow> PoolFiles \<Rightarrow> 'h \<Rightarrow> (Effect list \<times> PoolFiles) run" where
  "terminate_handler ops fs h =
     run_then (op_process_event ops fs h (Some RE_Terminate)) (\<lambda>(_, _, fx, fs'). Some (Ok (fx, fs')))"

fun terminate_all ::
    "'h RequestHandlerOps \<Rightarrow> PoolFiles \<Rightarrow> (string \<times> 'h) list \<Rightarrow> (Effect list \<times> PoolFiles) run" where
  "terminate_all ops fs [] = Some (Ok ([], fs))"
| "terminate_all ops fs ((_, h) # hs) =
     run_then (terminate_handler ops fs h) (\<lambda>(fx, fs1).
     run_then (terminate_all ops fs1 hs) (\<lambda>(fx', fs').
       Some (Ok (fx @ fx', fs'))))"

definition handle_getting_catchup_target ::
    "'h RequestHandlerOps \<Rightarrow> 'a PoolThreadEnv_scheme \<Rightarrow> PoolFiles \<Rightarrow> 'h PoolSM \<Rightarrow>
     'h GettingCatchupTargetState \<Rightarrow> PoolEvent \<Rightarrow> 'h pool_step" where
  "handle_getting_catchup_target ops env fs0 sm st0 pe0 =
     run_then (op_process_event ops fs0 (gc_request_handler st0) (pool_to_request_event env pe0))
       (\<lambda>(h, result, fx0, fs).
     let st = st0\<lparr>gc_request_handler := h\<rparr>; fx = map RequestEffect fx0;
         new_handler = (\<lambda>nodes. op_new ops (get_f (length nodes)) [] nodes (pool_timeout sm)
           (pool_extended_timeout sm) (pool_number_read_nodes sm)) in
     case unwrap_or result pe0 of
       PE_Close cmd_id \<Rightarrow>
         run_then (terminate_handler ops fs h) (\<lambda>(fx', fs').
           Some (Ok (PS_Closed, fx @ CloseAck cmd_id # map RequestEffect fx', fs')))
     | PE_CatchupTargetNotFound err \<Rightarrow>
         Some (Ok (PS_Terminated,
           fx @ [send_open_refresh_ack (gc_cmd_id st) (pool_id sm) (gc_refresh st) (Inl err)], fs))
     | PE_CatchupRestart merkle_tree \<Rightarrow>
         (case get_nodes_and_remotes env merkle_tree of
            Ok (nodes, remotes) \<Rightarrow>
              run_then (op_process_event ops fs (new_handler nodes)
                  (Some (RE_LedgerStatus (ledger_status env merkle_tree) None (Some merkle_tree))))
                (\<lambda>(h', _, fx', fs').
              Some (Ok (PS_GettingCatchupTarget (st\<lparr>gc_request_handler := h'\<rparr>),
                fx @ pnet (NE_NodesStateUpdated remotes) # map RequestEffect fx', fs')))
          | Err _ \<Rightarrow> Some (Ok (PS_Terminated, fx, fs))
          | Panic \<Rightarrow> Some Panic)
     | PE_CatchupTargetFound target_mt_root target_mt_size merkle_tree \<Rightarrow>
         (case get_nodes_and_remotes env merkle_tree of
            Ok (nodes, remotes) \<Rightarrow>
              run_then (op_process_event ops fs (new_handler nodes)
                  (Some (RE_CatchupReq merkle_tree target_mt_size target_mt_root)))
                (\<lambda>(h', _, fx', fs').
              Some (Ok (PS_SyncCatchup
                  \<lparr>sc_request_handler = h', sc_cmd_id = gc_cmd_id st, sc_refresh = gc_refresh st\<rparr>,
                fx @ pnet (NE_NodesStateUpdated remotes) # map RequestEffect fx', fs')))
          | Err _ \<Rightarrow> Some (Ok (PS_Terminated, fx, fs))
          | Panic \<Rightarrow> Some Panic)
     | PE_Synced merkle \<Rightarrow>
         (case get_nodes_and_remotes env merkle of
            Ok (nodes, remotes) \<Rightarrow>
              Some (Ok (PS_Active \<lparr>ac_request_handlers = [], ac_nodes = nodes\<rparr>,
                fx @ [pnet (NE_NodesStateUpdated remotes),
                      send_open_refresh_ack (gc_cmd_id st) (pool_id sm) (gc_refresh st) (Inr ())], fs))
          | Err _ \<Rightarrow> Some (Ok (PS_Terminated, fx, fs))
          | Panic \<Rightarrow> Some Panic)
     | _ \<Rightarrow> Some (Ok (PS_GettingCatchupTarget st, fx, fs)))"

definition handle_sync_catchup ::
    "'h RequestHandlerOps \<Rightarrow> 'a PoolThreadEnv_scheme \<Rightarrow> PoolFiles \<Rightarrow> 'h PoolSM \<Rightarrow> 'h SyncCatchupState \<Rightarrow>
     PoolEvent \<Rightarrow> 'h pool_step" where
  "handle_sync_catchup ops env fs0 sm st0 pe0 =
     run_then (op_process_event ops fs0 (sc_request_handler st0) (pool_to_request_event env pe0))
       (\<lambda>(h, result, fx0, fs).
     let st = st0\<lparr>sc_request_handler := h\<rparr>; fx = map RequestEffect fx0 in
     case unwrap_or result pe0 of
       PE_Close cmd_id \<Rightarrow>
         run_then (terminate_handler ops fs h) (\<lambda>(fx', fs').
           Some (Ok (PS_Closed, fx @ CloseAck cmd_id # map RequestEffect fx', fs')))
     | PE_NodesBlacklisted \<Rightarrow> Some (Ok (PS_Terminated, fx, fs))
     | PE_Synced merkle \<Rightarrow>
         (case get_nodes_and_remotes env merkle of
            Ok (nodes, remotes) \<Rightarrow>
              Some (Ok (PS_Active \<lparr>ac_request_handlers = [], ac_nodes = nodes\<rparr>,
                fx @ [pnet (NE_NodesStateUpdated remotes),
                      send_open_refresh_ack (sc_cmd_id st) (pool_id sm) (sc_refresh st) (Inr ())], fs))
          | Err _ \<Rightarrow> Some (Ok (PS_Terminated, fx, fs))
          | Panic \<Rightarrow> Some Panic)
     | _ \<Rightarrow> Some (Ok (PS_SyncCatchup st, fx, fs)))"

definition handle_terminated ::
    "'h RequestHandlerOps \<Rightarrow> 'a PoolThreadEnv_scheme \<Rightarrow> PoolFiles \<Rightarrow> 'h PoolSM \<Rightarrow> PoolEvent \<Rightarrow> 'h pool_step" where
  "handle_terminated ops env fs sm pe =
     (case pe of
        PE_Close cmd_id \<Rightarrow> Some (Ok (PS_Closed, [CloseAck cmd_id], fs))
      | PE_Refresh cmd_id \<Rightarrow> handle_refresh ops env fs sm cmd_id
      | PE_Timeout req_id node_alias \<Rightarrow>
          Some (Ok (PS_Terminated, if req_id = [] then [pnet NE_Timeout] else [], fs))
      | _ \<Rightarrow> Some (Ok (PS_Terminated, [], fs)))"

definition handle_active ::
    "'h RequestHandlerOps \<Rightarrow> 'a PoolThreadEnv_scheme \<Rightarrow> PoolFiles \<Rightarrow> 'h PoolSM \<Rightarrow> 'h ActiveState \<Rightarrow>
     PoolEvent \<Rightarrow> 'h pool_step" where
  "handle_active ops env fs sm st pe =
     (case pe of
        PE_PoolOutdated \<Rightarrow> Some (Ok (PS_Terminated, [], fs))
      | PE_Close cmd_id \<Rightarrow>
          run_then (terminate_all ops fs (ac_request_handlers st)) (\<lambda>(fx, fs').
            Some (Ok (PS_Closed, CloseAck cmd_id # map RequestEffect fx, fs')))
      | PE_Refresh cmd_id \<Rightarrow> handle_refresh ops env fs sm cmd_id
      | PE_SendRequest cmd_id _ _ _ \<Rightarrow>
          (case pool_to_request_event env pe of
             Some re \<Rightarrow>
               run_then (op_process_event ops fs
                   (op_new ops (get_f (length (ac_nodes st))) [cmd_id] (ac_nodes st) (pool_timeout sm)
                      (pool_extended_timeout sm) (pool_number_read_nodes sm)) (Some re))
                 (\<lambda>(h, _, fx, fs').
               Some (Ok (PS_Active (st\<lparr>ac_request_handlers :=
                   hm_insert (ac_request_handlers st) (get_req_id re) h\<rparr>), map RequestEffect fx, fs')))
           | None \<Rightarrow>
               Some (Ok (PS_Active st, [RequestEffect (SubmitAck cmd_id (Inl InvalidStructure))], fs)))
      | PE_NodeReply _ _ \<Rightarrow>
          (case pool_to_request_event env pe of
             Some re \<Rightarrow>
               (case hm_get (ac_request_handlers st) (get_req_id re) of
                  Some rh \<Rightarrow>
                    run_then (op_process_event ops fs rh (Some re)) (\<lambda>(rh', _, fx, fs').
                      Some (Ok (PS_Active (st\<lparr>ac_request_handlers :=
                          (if op_is_terminal ops rh'
                           then hm_remove (ac_request_handlers st) (get_req_id re)
                           else hm_insert (ac_request_handlers st) (get_req_id re) rh')\<rparr>),
                        map RequestEffect fx, fs')))
                | None \<Rightarrow> Some (Ok (PS_Active st, [], fs)))
           | None \<Rightarrow> Some (Ok (PS_Active st, [], fs)))
      | PE_Timeout req_id node_alias \<Rightarrow>
          (case hm_get (ac_request_handlers st) req_id of
             Some rh \<Rightarrow>
               run_then (op_process_event ops fs rh (pool_to_request_event env pe)) (\<lambda>(rh', _, fx, fs').
                 Some (Ok (PS_Active (st\<lparr>ac_request_handlers :=
                     hm_insert (ac_request_handlers st) req_id rh'\<rparr>), map RequestEffect fx, fs')))
           | None \<Rightarrow>
               Some (Ok (PS_Active st, if req_id = [] then [pnet NE_Timeout] else [], fs)))
      | _ \<Rightarrow> Some (Ok (PS_Active st, [], fs)))"

text \<open>\<open>PoolSM::handle_event\<close>.\<close>

definition pool_handle_event ::
    "'h RequestHandlerOps \<Rightarrow> 'a PoolThreadEnv_scheme \<Rightarrow> PoolFiles \<Rightarrow> 'h PoolSM \<Rightarrow> PoolEvent \<Rightarrow>
     ('h PoolSM \<times> PoolEffect list \<times> PoolFiles) run" where
  "pool_handle_event ops env fs sm pe =
     run_then
       (case pool_state sm of
          PS_Initialization \<Rightarrow> handle_initialization ops env fs sm pe
        | PS_GettingCatchupTarget st \<Rightarrow> handle_getting_catchup_target ops env fs sm st pe
        | PS_Terminated \<Rightarrow> handle_terminated ops env fs sm pe
        | PS_Closed \<Rightarrow> Some (Ok (PS_Closed, [], fs))
        | PS_Active st \<Rightarrow> handle_active ops env fs sm st pe
        | PS_SyncCatchup st \<Rightarrow> handle_sync_catchup ops env fs sm st pe) (\<lambda>(s, fx, fs').
       Some (Ok (sm\<lparr>pool_state := s\<rparr>, fx, fs')))"

text \<open>
  \<open>PoolThread::_loop\<close>: the queued events, in order; the result says whether the thread ends.
\<close>

fun pool_loop ::
    "'h RequestHandlerOps \<Rightarrow> 'a PoolThreadEnv_scheme \<Rightarrow> PoolFiles \<Rightarrow> 'h PoolSM \<Rightarrow> PoolEvent list \<Rightarrow>
     (bool \<times> 'h PoolSM \<times> PoolEffect list \<times> PoolFiles) run" where
  "pool_loop ops env fs sm [] = Some (Ok (pool_is_terminal (pool_state sm), sm, [], fs))"
| "pool_loop ops env fs sm (pe # pes) =
     run_then (pool_handle_event ops env fs sm pe) (\<lambda>(sm1, fx, fs1).
     run_then (pool_loop ops env fs1 sm1 pes) (\<lambda>(done, sm', fx', fs').
       Some (Ok (done, sm', fx @ fx', fs'))))"

text \<open>The request handler of the library, as an instance of the trait.\<close>

definition request_handler_impl ::
    "'a RequestEnv_scheme \<Rightarrow> bool \<Rightarrow> nat \<Rightarrow> RequestHandlerImpl RequestHandlerOps" where
  "request_handler_impl env checks fuel =
     \<lparr>op_new = rh_new, op_process_event = rh_process_event env checks fuel, op_is_terminal = rh_is_terminal\<rparr>"

end
