(* ===== verification/Pool_Protocol.thy ===== *)
theory Pool_Protocol
  imports Pool_SM "HOL-Library.Multiset"
begin

text \<open>
  What the pool promises to the commands it accepts. The locale \<open>request_handler\<close> is the part
  of the trait's contract that the pool relies on: a handler acknowledges only its own commands
  and at most once; \<open>client_handler\<close> adds that a handler of a client request loses no command
  and can be terminated. The pool's lemmas are proved from the contracts and hold for the
  handler of the library, which satisfies them.
\<close>

section \<open>Commands\<close>

fun submit_acks :: "PoolEffect list \<Rightarrow> (int \<times> (IndyErrorKind + string)) list" where
  "submit_acks [] = []"
| "submit_acks (RequestEffect e # fx) = acks [e] @ submit_acks fx"
| "submit_acks (_ # fx) = submit_acks fx"

fun submitted :: "PoolEvent list \<Rightarrow> int list" where
  "submitted [] = []"
| "submitted (PE_SendRequest cmd_id _ _ _ # pes) = cmd_id # submitted pes"
| "submitted (_ # pes) = submitted pes"

fun pool_pending :: "('h \<Rightarrow> int list) \<Rightarrow> 'h PoolState \<Rightarrow> int list" where
  "pool_pending pending (PS_Active st) = concat (map (pending \<circ> snd) (ac_request_handlers st))"
| "pool_pending pending _ = []"

text \<open>The handler of a catch-up has no commands to acknowledge.\<close>

fun catchup_unowned :: "('h \<Rightarrow> int list) \<Rightarrow> 'h PoolState \<Rightarrow> bool" where
  "catchup_unowned pending (PS_GettingCatchupTarget st) \<longleftrightarrow> pending (gc_request_handler st) = []"
| "catchup_unowned pending (PS_SyncCatchup st) \<longleftrightarrow> pending (sc_request_handler st) = []"
| "catchup_unowned pending _ \<longleftrightarrow> True"

fun handlers_of :: "'h PoolState \<Rightarrow> 'h set" where
  "handlers_of (PS_Active st) = snd ` set (ac_request_handlers st)"
| "handlers_of _ = {}"

lemma submit_acks_append [simp]: "submit_acks (fx @ fx') = submit_acks fx @ submit_acks fx'"
  by (induction fx rule: submit_acks.induct) auto

lemma submit_acks_requests [simp]: "submit_acks (map RequestEffect fx) = acks fx"
proof (induction fx)
  case (Cons e fx)
  then show ?case by (cases e) auto
qed simp

lemma submit_acks_open [simp]: "submit_acks [send_open_refresh_ack c i r x] = []"
  by (simp add: send_open_refresh_ack_def)

lemma submitted_Cons: "submitted (pe # pes) = submitted [pe] @ submitted pes"
  by (cases pe) auto

abbreviation pend :: "('h \<Rightarrow> int list) \<Rightarrow> (string \<times> 'h) list \<Rightarrow> int multiset" where
  "pend pending hs \<equiv> mset (concat (map (pending \<circ> snd) hs))"

lemma pend_insert:
  "pend pending (hm_insert hs k h) + (case hm_get hs k of Some old \<Rightarrow> mset (pending old) | None \<Rightarrow> {#}) =
     pend pending hs + mset (pending h)"
  by (induction hs k h rule: hm_insert.induct) (auto simp: union_ac)

lemma pend_remove:
  "hm_get hs k = Some h \<Longrightarrow> pend pending (hm_remove hs k) + mset (pending h) = pend pending hs"
  by (induction hs k rule: hm_remove.induct) (auto simp: union_ac split: if_splits)

lemma handlers_insert: "snd ` set (hm_insert hs k h) \<subseteq> insert h (snd ` set hs)"
  by (induction hs k h rule: hm_insert.induct) auto

lemma handlers_remove: "snd ` set (hm_remove hs k) \<subseteq> snd ` set hs"
  by (induction hs k rule: hm_remove.induct) auto

lemma mset_swap:
  assumes "P' + Old = P + New" and "A + New \<subseteq># Old + S"
  shows "A + P' \<subseteq># P + S"
proof (rule mset_subset_eqI)
  fix x
  have "count P' x + count Old x = count P x + count New x"
    using assms(1) by (metis count_union)
  moreover have "count A x + count New x \<le> count Old x + count S x"
    using mset_subset_eq_count [OF assms(2), of x] by simp
  ultimately show "count (A + P') x \<le> count (P + S) x" by simp
qed

lemma mset_chain:
  assumes "A1 + P1 \<subseteq># P0 + S1" and "A2 + P2 \<subseteq># P1 + S2"
  shows "A1 + A2 + P2 \<subseteq># P0 + (S1 + S2)"
proof (rule mset_subset_eqI)
  show "count (A1 + A2 + P2) x \<le> count (P0 + (S1 + S2)) x" for x
    using mset_subset_eq_count [OF assms(1), of x] mset_subset_eq_count [OF assms(2), of x] by simp
qed

lemma mset_swap_eq:
  assumes "P' + Old = P + New" and "A + New = Old + S"
  shows "A + P' = P + (S :: 'a multiset)"
proof (rule multiset_eqI)
  fix x
  have "count P' x + count Old x = count P x + count New x" "count A x + count New x = count Old x + count S x"
    using assms by (metis count_union)+
  then show "count (A + P') x = count (P + S) x" by simp
qed

lemma send_request_custom:
  "pool_to_request_event env (PE_SendRequest c msg t ns) = Some re \<Longrightarrow> is_custom_request re"
  by (auto split: outcome.splits prod.splits if_splits)

section \<open>New catch-ups\<close>

lemma handle_refresh_cases:
  assumes "handle_refresh ops env fs sm cmd_id = Some (Ok (s', fx, fs'))"
  shows "(\<exists>h. get_request_handler_with_ledger_status_sent ops env fs sm = Some (Ok (Inr h, fx, fs')) \<and>
      s' = PS_GettingCatchupTarget \<lparr>gc_request_handler = h, gc_cmd_id = cmd_id, gc_refresh = True\<rparr>) \<or>
    (\<exists>e. get_request_handler_with_ledger_status_sent ops env fs sm = Some (Ok (Inl e, fx, fs')) \<and>
      s' = PS_Terminated)"
proof -
  from assms obtain r fx0 fs0 where g: "get_request_handler_with_ledger_status_sent ops env fs sm = Some (Ok (r, fx0, fs0))"
    by (auto simp: handle_refresh_def)
  with assms show ?thesis by (cases r) (auto simp: handle_refresh_def)
qed

lemma check_cache_cases:
  assumes "handle_initialization ops env fs sm (PE_CheckCache cmd_id) = Some (Ok (s', fx, fs'))"
  shows "(\<exists>h. get_request_handler_with_ledger_status_sent ops env fs sm = Some (Ok (Inr h, fx, fs')) \<and>
      s' = PS_GettingCatchupTarget \<lparr>gc_request_handler = h, gc_cmd_id = cmd_id, gc_refresh = False\<rparr>) \<or>
    (\<exists>e fx0. get_request_handler_with_ledger_status_sent ops env fs sm = Some (Ok (Inl e, fx0, fs')) \<and>
      s' = PS_Terminated \<and> fx = fx0 @ [OpenAck cmd_id (pool_id sm) (Inl e)])"
proof -
  from assms obtain r fx0 fs0 where g: "get_request_handler_with_ledger_status_sent ops env fs sm = Some (Ok (r, fx0, fs0))"
    by (auto simp: handle_initialization_def)
  with assms show ?thesis by (cases r) (auto simp: handle_initialization_def)
qed

section \<open>Accounts\<close>

text \<open>What a transition does to the accounts: nothing is acknowledged twice or out of nothing.\<close>

definition accounted :: "('h \<Rightarrow> int list) \<Rightarrow> 'h PoolState \<Rightarrow> PoolEvent \<Rightarrow> 'h PoolState \<Rightarrow> PoolEffect list \<Rightarrow> bool" where
  "accounted pending s pe s' fx \<longleftrightarrow> catchup_unowned pending s' \<and>
     mset (map fst (submit_acks fx)) + mset (pool_pending pending s') \<subseteq>#
       mset (pool_pending pending s) + mset (submitted [pe])"

text \<open>The transitions that keep every command: all but a refresh, an outdated pool, and a request
  whose id is in use.\<close>

definition keeps_commands :: "'a PoolThreadEnv_scheme \<Rightarrow> 'h ActiveState \<Rightarrow> PoolEvent \<Rightarrow> bool" where
  "keeps_commands env st pe \<longleftrightarrow> pe \<noteq> PE_PoolOutdated \<and> (\<forall>c. pe \<noteq> PE_Refresh c) \<and>
     (\<forall>c msg t ns re. pe = PE_SendRequest c msg t ns \<longrightarrow> pool_to_request_event env pe = Some re \<longrightarrow>
        hm_get (ac_request_handlers st) (get_req_id re) = None)"

definition settled :: "('h \<Rightarrow> int list) \<Rightarrow> 'h PoolState \<Rightarrow> PoolEvent \<Rightarrow> 'h PoolState \<Rightarrow> PoolEffect list \<Rightarrow> bool" where
  "settled pending s pe s' fx \<longleftrightarrow> mset (map fst (submit_acks fx)) + mset (pool_pending pending s') =
     mset (pool_pending pending s) + mset (submitted [pe])"

section \<open>The contract of a request handler\<close>

locale request_handler =
  fixes ops :: "'h RequestHandlerOps" and pending :: "'h \<Rightarrow> int list"
  assumes pending_new: "pending (op_new ops f ids nodes timeout extended_timeout n) = ids"
    and process_pending: "op_process_event ops fs h ore = Some (Ok (h', e, fx, fs')) \<Longrightarrow>
      (pending h' = pending h \<and> acks fx = []) \<or>
      (pending h' = [] \<and> (acks fx = [] \<or> (\<exists>m. acks fx = map (\<lambda>i. (i, m)) (pending h))))"
begin

lemma process_accounts:
  "op_process_event ops fs h ore = Some (Ok (h', e, fx, fs')) \<Longrightarrow>
     mset (map fst (acks fx)) + mset (pending h') \<subseteq># mset (pending h)"
  by (auto dest!: process_pending simp: multiset.map_comp comp_def)

lemma process_unowned:
  "op_process_event ops fs h ore = Some (Ok (h', e, fx, fs')) \<Longrightarrow> pending h = [] \<Longrightarrow>
     pending h' = [] \<and> acks fx = []"
  by (auto dest!: process_pending)

lemma catchup_handler_acks:
  "get_request_handler_with_ledger_status_sent ops env fs sm = Some (Ok (r, fx, fs')) \<Longrightarrow> submit_acks fx = []"
  by (auto simp: get_request_handler_with_ledger_status_sent_def pending_new
      split: prod.splits outcome.splits dest!: process_unowned)

lemma catchup_handler_unowned:
  "get_request_handler_with_ledger_status_sent ops env fs sm = Some (Ok (Inr h, fx, fs')) \<Longrightarrow> pending h = []"
  by (auto simp: get_request_handler_with_ledger_status_sent_def pending_new
      split: prod.splits outcome.splits dest!: process_unowned)

lemma terminate_handler_accounts:
  "terminate_handler ops fs h = Some (Ok (fx, fs')) \<Longrightarrow> mset (map fst (acks fx)) \<subseteq># mset (pending h)"
  by (auto simp: terminate_handler_def dest!: process_accounts intro: subset_mset.order_trans mset_subset_eq_add_left)

lemma terminate_all_accounts:
  "terminate_all ops fs hs = Some (Ok (fx, fs')) \<Longrightarrow> mset (map fst (acks fx)) \<subseteq># pend pending hs"
proof (induction hs arbitrary: fs fx)
  case (Cons nh hs)
  obtain n h where nh: "nh = (n, h)" by (cases nh)
  from Cons.prems nh obtain fx1 fs1 fx2 where "terminate_handler ops fs h = Some (Ok (fx1, fs1))"
    "terminate_all ops fs1 hs = Some (Ok (fx2, fs'))" "fx = fx1 @ fx2"
    by auto
  with terminate_handler_accounts Cons.IH nh show ?case by (auto intro: subset_mset.add_mono)
qed simp

lemma accounted_refresh:
  assumes "handle_refresh ops env fs sm cmd_id = Some (Ok (s', fx, fs'))"
  shows "accounted pending s pe s' fx"
  using handle_refresh_cases [OF assms]
  by (auto simp: accounted_def dest: catchup_handler_acks catchup_handler_unowned)

lemma accounted_initialization:
  assumes "handle_initialization ops env fs sm pe = Some (Ok (s', fx, fs'))"
  shows "accounted pending s pe s' fx"
proof (cases "\<exists>cmd_id. pe = PE_CheckCache cmd_id")
  case True
  with assms obtain c where "handle_initialization ops env fs sm (PE_CheckCache c) = Some (Ok (s', fx, fs'))" by auto
  from check_cache_cases [OF this] show ?thesis
    by (auto simp: accounted_def dest: catchup_handler_acks catchup_handler_unowned)
qed (use assms in \<open>auto simp: handle_initialization_def accounted_def split: PoolEvent.splits\<close>)

lemma accounted_terminated:
  assumes "handle_terminated ops env fs sm pe = Some (Ok (s', fx, fs'))"
  shows "accounted pending s pe s' fx"
proof (cases "\<exists>cmd_id. pe = PE_Refresh cmd_id")
  case True
  with assms accounted_refresh show ?thesis by (auto simp: handle_terminated_def)
qed (use assms in \<open>auto simp: handle_terminated_def accounted_def split: PoolEvent.splits if_splits\<close>)

lemma accounted_silent:
  "submit_acks fx = [] \<Longrightarrow> pool_pending pending s' = [] \<Longrightarrow> catchup_unowned pending s' \<Longrightarrow> accounted pending s pe s' fx"
  by (simp add: accounted_def)

lemma terminate_unowned: "terminate_handler ops fs h = Some (Ok (fx, fs')) \<Longrightarrow> pending h = [] \<Longrightarrow> acks fx = []"
  by (auto dest: terminate_handler_accounts)

lemma accounted_getting_catchup_target:
  assumes "handle_getting_catchup_target ops env fs sm st pe = Some (Ok (s', fx, fs'))"
    and "pending (gc_request_handler st) = []"
  shows "accounted pending s pe s' fx"
proof -
  obtain h result fx0 fs1 where p: "op_process_event ops fs (gc_request_handler st) (pool_to_request_event env pe) =
      Some (Ok (h, result, fx0, fs1))"
    using assms(1) by (auto simp: handle_getting_catchup_target_def)
  have u: "pending h = []" "acks fx0 = []" using process_unowned [OF p assms(2)] by auto
  have n: "pending h' = []" "acks fx' = []"
    if "op_process_event ops fs1 (op_new ops f [] nodes t et k) ore = Some (Ok (h', e, fx', fs2))" for f nodes t et k ore h' e fx' fs2
    using process_unowned [OF that] by (auto simp: pending_new)
  show ?thesis
    by (rule accounted_silent; use assms(1) p u n terminate_unowned in
      \<open>auto simp: handle_getting_catchup_target_def Let_def
        split: PoolEvent.splits outcome.splits prod.splits\<close>)
qed

lemma accounted_sync_catchup:
  assumes "handle_sync_catchup ops env fs sm st pe = Some (Ok (s', fx, fs'))"
    and "pending (sc_request_handler st) = []"
  shows "accounted pending s pe s' fx"
proof -
  obtain h result fx0 fs1 where p: "op_process_event ops fs (sc_request_handler st) (pool_to_request_event env pe) =
      Some (Ok (h, result, fx0, fs1))"
    using assms(1) by (auto simp: handle_sync_catchup_def)
  have u: "pending h = []" "acks fx0 = []" using process_unowned [OF p assms(2)] by auto
  show ?thesis
    by (rule accounted_silent; use assms(1) p u terminate_unowned in
      \<open>auto simp: handle_sync_catchup_def Let_def split: PoolEvent.splits outcome.splits prod.splits\<close>)
qed

lemma accounted_active:
  assumes "handle_active ops env fs sm st pe = Some (Ok (s', fx, fs'))"
  shows "accounted pending (PS_Active st) pe s' fx"
proof -
  let ?hs = "ac_request_handlers st"
  consider (close) c where "pe = PE_Close c" | (refresh) c where "pe = PE_Refresh c"
    | (send) c msg t ns where "pe = PE_SendRequest c msg t ns"
    | (reply) msg n where "pe = PE_NodeReply msg n" | (time) rid n where "pe = PE_Timeout rid n"
    | (other) "fx = []" "fs' = fs" "s' = PS_Active st \<or> s' = PS_Terminated"
    using assms by (cases pe) (auto simp: handle_active_def)
  then show ?thesis
  proof cases
    case close
    then show ?thesis using assms terminate_all_accounts
      by (fastforce simp: handle_active_def accounted_def)
  next
    case refresh
    then show ?thesis using assms accounted_refresh by (simp add: handle_active_def)
  next
    case send
    show ?thesis
    proof (cases "pool_to_request_event env pe")
      case (Some re)
      then obtain h e fx0 where p: "op_process_event ops fs (op_new ops (get_f (length (ac_nodes st))) [c] (ac_nodes st)
          (pool_timeout sm) (pool_extended_timeout sm) (pool_number_read_nodes sm)) (Some re) = Some (Ok (h, e, fx0, fs'))"
        and s': "s' = PS_Active (st\<lparr>ac_request_handlers := hm_insert ?hs (get_req_id re) h\<rparr>)"
        and fx: "fx = map RequestEffect fx0"
        using assms send by (auto simp: handle_active_def)
      have "mset (map fst (acks fx0)) + mset (pending h) \<subseteq>#
          (case hm_get ?hs (get_req_id re) of Some old \<Rightarrow> mset (pending old) | None \<Rightarrow> {#}) + {#c#}"
        using process_accounts [OF p] by (auto simp: pending_new intro: subset_mset.order_trans mset_subset_eq_add_right split: option.splits)
      from mset_swap [OF pend_insert this] s' fx send show ?thesis by (simp add: accounted_def)
    qed (use assms send in \<open>auto simp: handle_active_def accounted_def\<close>)
  next
    case reply
    show ?thesis
    proof (cases "\<exists>re rh. pool_to_request_event env pe = Some re \<and> hm_get ?hs (get_req_id re) = Some rh")
      case True
      then obtain re rh where r: "pool_to_request_event env pe = Some re" "hm_get ?hs (get_req_id re) = Some rh"
        by auto
      then obtain rh' e fx0 where p: "op_process_event ops fs rh (Some re) = Some (Ok (rh', e, fx0, fs'))"
        and s': "s' = PS_Active (st\<lparr>ac_request_handlers := (if op_is_terminal ops rh'
          then hm_remove ?hs (get_req_id re) else hm_insert ?hs (get_req_id re) rh')\<rparr>)"
        and fx: "fx = map RequestEffect fx0"
        using assms reply by (auto simp: handle_active_def)
      note a = process_accounts [OF p]
      have "mset (map fst (acks fx0)) + {#} \<subseteq># mset (pending rh) + {#}"
        using subset_mset.order_trans [OF mset_subset_eq_add_left a] by simp
      from mset_swap [OF _ this, of "pend pending (hm_remove ?hs (get_req_id re))" "pend pending ?hs"]
        pend_remove [OF r(2), of pending] mset_swap [OF pend_insert [of pending ?hs "get_req_id re" rh'], of _ "{#}"] a r s' fx reply
      show ?thesis by (simp add: accounted_def)
    next
      case False
      with assms reply show ?thesis by (auto simp: handle_active_def accounted_def split: option.splits)
    qed
  next
    case time
    show ?thesis
    proof (cases "hm_get ?hs rid")
      case (Some rh)
      then obtain rh' e fx0 where p: "op_process_event ops fs rh (pool_to_request_event env pe) = Some (Ok (rh', e, fx0, fs'))"
        and s': "s' = PS_Active (st\<lparr>ac_request_handlers := hm_insert ?hs rid rh'\<rparr>)"
        and fx: "fx = map RequestEffect fx0"
        using assms time by (auto simp: handle_active_def)
      from mset_swap [OF pend_insert [of pending ?hs rid rh'], of _ "{#}"] process_accounts [OF p] Some s' fx time
      show ?thesis by (simp add: accounted_def)
    qed (use assms time in \<open>auto simp: handle_active_def accounted_def split: if_splits\<close>)
  next
    case other
    then show ?thesis by (auto simp: accounted_def)
  qed
qed

lemma accounted_step:
  assumes "pool_handle_event ops env fs sm pe = Some (Ok (sm', fx, fs'))"
    and "catchup_unowned pending (pool_state sm)"
  shows "accounted pending (pool_state sm) pe (pool_state sm') fx"
  using assms
  by (cases "pool_state sm") (auto simp: pool_handle_event_def intro: accounted_initialization
      accounted_getting_catchup_target accounted_active accounted_sync_catchup accounted_terminated accounted_silent)

lemma accounted_loop:
  assumes "pool_loop ops env fs sm pes = Some (Ok (fin, sm', fx, fs'))"
    and "catchup_unowned pending (pool_state sm)"
  shows "mset (map fst (submit_acks fx)) + mset (pool_pending pending (pool_state sm')) \<subseteq>#
      mset (pool_pending pending (pool_state sm)) + mset (submitted pes)"
  using assms
proof (induction pes arbitrary: fs sm fx)
  case (Cons pe pes)
  from Cons.prems(1) obtain sm1 fx1 fs1 fx2 where h: "pool_handle_event ops env fs sm pe = Some (Ok (sm1, fx1, fs1))"
    and l: "pool_loop ops env fs1 sm1 pes = Some (Ok (fin, sm', fx2, fs'))" and fx: "fx = fx1 @ fx2"
    by auto
  have a: "accounted pending (pool_state sm) pe (pool_state sm1) fx1" using accounted_step [OF h Cons.prems(2)] .
  then have "mset (map fst (submit_acks fx2)) + mset (pool_pending pending (pool_state sm')) \<subseteq>#
      mset (pool_pending pending (pool_state sm1)) + mset (submitted pes)"
    using Cons.IH [OF l] by (simp add: accounted_def)
  from mset_chain [OF _ this, of "mset (map fst (submit_acks fx1))"] a fx submitted_Cons [of pe pes]
  show ?case by (simp add: accounted_def)
qed simp

end

locale client_handler = request_handler +
  fixes started :: "'a \<Rightarrow> bool"
  assumes start_custom: "is_custom_request re \<Longrightarrow>
      op_process_event ops fs (op_new ops f ids nodes timeout extended_timeout n) (Some re) =
        Some (Ok (h, e, fx, fs')) \<Longrightarrow>
      started h \<and> mset (map fst (acks fx)) + mset (pending h) = mset ids"
    and process_started: "started h \<Longrightarrow> op_process_event ops fs h ore = Some (Ok (h', e, fx, fs')) \<Longrightarrow>
      started h' \<and> mset (map fst (acks fx)) + mset (pending h') = mset (pending h)"
    and terminal_settled: "started h \<Longrightarrow> op_is_terminal ops h \<Longrightarrow> pending h = []"
    and terminate_started: "started h \<Longrightarrow>
      \<exists>h' e fx. op_process_event ops fs h (Some RE_Terminate) = Some (Ok (h', e, fx, fs)) \<and>
        acks fx = map (\<lambda>i. (i, Inl PoolTerminated)) (pending h)"
begin

lemma terminate_all_started:
  assumes "\<forall>h \<in> snd ` set hs. started h"
  shows "\<exists>fx. terminate_all ops fs hs = Some (Ok (fx, fs)) \<and>
    acks fx = map (\<lambda>i. (i, Inl PoolTerminated)) (concat (map (pending \<circ> snd) hs))"
  using assms
proof (induction hs)
  case (Cons nh hs)
  obtain n h where nh: "nh = (n, h)" by (cases nh)
  from terminate_started [of h fs] Cons.prems nh obtain h' e fx1 where
    "op_process_event ops fs h (Some RE_Terminate) = Some (Ok (h', e, fx1, fs))"
    "acks fx1 = map (\<lambda>i. (i, Inl PoolTerminated)) (pending h)"
    by auto
  with Cons nh show ?case by (auto simp: terminate_handler_def)
qed simp

lemma close_active:
  assumes "pool_state sm = PS_Active st" and "\<forall>h \<in> handlers_of (PS_Active st). started h"
  shows "\<exists>fx. pool_handle_event ops env fs sm (PE_Close c) =
      Some (Ok (sm\<lparr>pool_state := PS_Closed\<rparr>, CloseAck c # fx, fs)) \<and>
    submit_acks fx = map (\<lambda>i. (i, Inl PoolTerminated)) (pool_pending pending (PS_Active st))"
proof -
  from terminate_all_started [of "ac_request_handlers st" fs] assms(2) obtain fx where
    "terminate_all ops fs (ac_request_handlers st) = Some (Ok (fx, fs))"
    "acks fx = map (\<lambda>i. (i, Inl PoolTerminated)) (concat (map (pending \<circ> snd) (ac_request_handlers st)))"
    by auto
  with assms(1) show ?thesis by (simp add: pool_handle_event_def handle_active_def)
qed

lemma settled_active:
  assumes "handle_active ops env fs sm st pe = Some (Ok (s', fx, fs'))" and "keeps_commands env st pe"
    and "\<forall>h \<in> handlers_of (PS_Active st). started h"
  shows "settled pending (PS_Active st) pe s' fx"
proof -
  let ?hs = "ac_request_handlers st"
  have started: "started h" if "hm_get ?hs k = Some h" for k h
    using assms(3) hm_get_Some_in [OF that] by force
  consider (close) c where "pe = PE_Close c"
    | (send) c msg t ns where "pe = PE_SendRequest c msg t ns"
    | (reply) msg n where "pe = PE_NodeReply msg n" | (time) rid n where "pe = PE_Timeout rid n"
    | (other) "fx = []" "s' = PS_Active st" "submitted [pe] = []"
    using assms(1,2) by (cases pe) (auto simp: handle_active_def keeps_commands_def)
  then show ?thesis
  proof cases
    case close
    with terminate_all_started [of ?hs fs] assms(1,3) show ?thesis
      by (auto simp: handle_active_def settled_def multiset.map_comp comp_def)
  next
    case send
    show ?thesis
    proof (cases "pool_to_request_event env pe")
      case (Some re)
      then obtain h e fx0 where p: "op_process_event ops fs (op_new ops (get_f (length (ac_nodes st))) [c] (ac_nodes st)
          (pool_timeout sm) (pool_extended_timeout sm) (pool_number_read_nodes sm)) (Some re) = Some (Ok (h, e, fx0, fs'))"
        and s': "s' = PS_Active (st\<lparr>ac_request_handlers := hm_insert ?hs (get_req_id re) h\<rparr>)"
        and fx: "fx = map RequestEffect fx0"
        using assms(1) send by (auto simp: handle_active_def)
      have new: "hm_get ?hs (get_req_id re) = None" using assms(2) send Some by (auto simp: keeps_commands_def)
      have "is_custom_request re" using Some send send_request_custom by blast
      from start_custom [OF this p] have "mset (map fst (acks fx0)) + mset (pending h) = {#c#}" by simp
      with pend_insert [of pending ?hs "get_req_id re" h] new s' fx send show ?thesis
        by (simp add: settled_def union_ac)
    qed (use assms(1) send in \<open>auto simp: handle_active_def settled_def\<close>)
  next
    case reply
    show ?thesis
    proof (cases "\<exists>re rh. pool_to_request_event env pe = Some re \<and> hm_get ?hs (get_req_id re) = Some rh")
      case True
      then obtain re rh where r: "pool_to_request_event env pe = Some re" "hm_get ?hs (get_req_id re) = Some rh"
        by auto
      then obtain rh' e fx0 where p: "op_process_event ops fs rh (Some re) = Some (Ok (rh', e, fx0, fs'))"
        and s': "s' = PS_Active (st\<lparr>ac_request_handlers := (if op_is_terminal ops rh'
          then hm_remove ?hs (get_req_id re) else hm_insert ?hs (get_req_id re) rh')\<rparr>)"
        and fx: "fx = map RequestEffect fx0"
        using assms(1) reply by (auto simp: handle_active_def)
      note a = process_started [OF started [OF r(2)] p]
      show ?thesis
      proof (cases "op_is_terminal ops rh'")
        case True
        with a terminal_settled [of rh'] have "mset (map fst (acks fx0)) + {#} = mset (pending rh) + {#}" by simp
        from mset_swap_eq [OF _ this, of "pend pending (hm_remove ?hs (get_req_id re))" "pend pending ?hs"]
          pend_remove [OF r(2), of pending] True s' fx reply
        show ?thesis by (simp add: settled_def)
      next
        case False
        with mset_swap_eq [OF pend_insert [of pending ?hs "get_req_id re" rh'], of _ "{#}"] a r(2) s' fx reply
        show ?thesis by (simp add: settled_def)
      qed
    next
      case False
      with assms(1) reply show ?thesis by (auto simp: handle_active_def settled_def split: option.splits)
    qed
  next
    case time
    show ?thesis
    proof (cases "hm_get ?hs rid")
      case (Some rh)
      then obtain rh' e fx0 where p: "op_process_event ops fs rh (pool_to_request_event env pe) = Some (Ok (rh', e, fx0, fs'))"
        and s': "s' = PS_Active (st\<lparr>ac_request_handlers := hm_insert ?hs rid rh'\<rparr>)"
        and fx: "fx = map RequestEffect fx0"
        using assms(1) time by (auto simp: handle_active_def)
      from mset_swap_eq [OF pend_insert [of pending ?hs rid rh'], of _ "{#}"]
        process_started [OF started [OF Some] p] Some s' fx time
      show ?thesis by (simp add: settled_def)
    qed (use assms(1) time in \<open>auto simp: handle_active_def settled_def split: if_splits\<close>)
  next
    case other
    then show ?thesis by (simp add: settled_def)
  qed
qed

lemma started_active:
  assumes "handle_active ops env fs sm st pe = Some (Ok (s', fx, fs'))"
    and "\<forall>h \<in> handlers_of (PS_Active st). started h" and "h \<in> handlers_of s'"
  shows "started h"
proof -
  let ?hs = "ac_request_handlers st"
  have old: "started h" if "hm_get ?hs k = Some h" for k h
    using assms(2) hm_get_Some_in [OF that] by force
  have ins: "started h" if "h \<in> snd ` set (hm_insert ?hs k h')" "started h'" for k h'
    using subsetD [OF handlers_insert that(1)] that(2) assms(2) by auto
  have rem: "started h" if "h \<in> snd ` set (hm_remove ?hs k)" for k
    using subsetD [OF handlers_remove that] assms(2) by auto
  show ?thesis
  proof (cases pe)
    case (PE_Refresh c)
    with assms(1,3) show ?thesis by (auto simp: handle_active_def dest!: handle_refresh_cases)
  next
    case (PE_SendRequest c msg t ns)
    show ?thesis
    proof (cases "pool_to_request_event env pe")
      case (Some re)
      then obtain h' e fx0 where p: "op_process_event ops fs (op_new ops (get_f (length (ac_nodes st))) [c] (ac_nodes st)
          (pool_timeout sm) (pool_extended_timeout sm) (pool_number_read_nodes sm)) (Some re) = Some (Ok (h', e, fx0, fs'))"
        and s': "s' = PS_Active (st\<lparr>ac_request_handlers := hm_insert ?hs (get_req_id re) h'\<rparr>)"
        using assms(1) PE_SendRequest by (auto simp: handle_active_def)
      have "is_custom_request re" using Some PE_SendRequest send_request_custom by blast
      with start_custom [OF _ p] ins assms(3) s' show ?thesis by simp
    qed (use assms PE_SendRequest in \<open>auto simp: handle_active_def\<close>)
  next
    case (PE_NodeReply msg n)
    with assms(1) consider "s' = PS_Active st" | re rh rh' e fx0 where "hm_get ?hs (get_req_id re) = Some rh"
      "op_process_event ops fs rh (Some re) = Some (Ok (rh', e, fx0, fs'))"
      "s' = PS_Active (st\<lparr>ac_request_handlers := (if op_is_terminal ops rh'
          then hm_remove ?hs (get_req_id re) else hm_insert ?hs (get_req_id re) rh')\<rparr>)"
      by (auto simp: handle_active_def split: option.splits)
    then show ?thesis
    proof cases
      case 2
      with process_started [OF old [OF 2(1)] 2(2)] ins rem assms(3) show ?thesis by (simp split: if_splits)
    qed (use assms(2,3) in auto)
  next
    case (PE_Timeout rid n)
    with assms(1) consider "s' = PS_Active st" | rh rh' e fx0 where "hm_get ?hs rid = Some rh"
      "op_process_event ops fs rh (pool_to_request_event env pe) = Some (Ok (rh', e, fx0, fs'))"
      "s' = PS_Active (st\<lparr>ac_request_handlers := hm_insert ?hs rid rh'\<rparr>)"
      by (auto simp: handle_active_def split: option.splits)
    then show ?thesis
    proof cases
      case 2
      with process_started [OF old [OF 2(1)] 2(2)] ins assms(3) show ?thesis by simp
    qed (use assms(2,3) in auto)
  qed (use assms in \<open>auto simp: handle_active_def\<close>)
qed

lemma handlers_of_refresh: "handle_refresh ops env fs sm c = Some (Ok (s', fx, fs')) \<Longrightarrow> handlers_of s' = {}"
  by (auto dest!: handle_refresh_cases)

lemma handlers_of_initialization:
  "handle_initialization ops env fs sm pe = Some (Ok (s', fx, fs')) \<Longrightarrow> handlers_of s' = {}"
proof (cases "\<exists>c. pe = PE_CheckCache c")
  case True
  assume "handle_initialization ops env fs sm pe = Some (Ok (s', fx, fs'))"
  with True show ?thesis by (auto dest!: check_cache_cases)
qed (auto simp: handle_initialization_def split: PoolEvent.splits)

lemma handlers_of_terminated:
  "handle_terminated ops env fs sm pe = Some (Ok (s', fx, fs')) \<Longrightarrow> handlers_of s' = {}"
  by (cases pe) (auto simp: handle_terminated_def handlers_of_refresh)

lemma handlers_of_getting_catchup_target:
  assumes "handle_getting_catchup_target ops env fs sm st pe = Some (Ok (s', fx, fs'))"
  shows "handlers_of s' = {}"
proof -
  obtain h result fx0 fs1 where "op_process_event ops fs (gc_request_handler st) (pool_to_request_event env pe) =
      Some (Ok (h, result, fx0, fs1))"
    using assms by (auto simp: handle_getting_catchup_target_def)
  with assms show ?thesis
    by (cases "unwrap_or result pe")
      (auto simp: handle_getting_catchup_target_def Let_def split: outcome.splits)
qed

lemma handlers_of_sync_catchup:
  assumes "handle_sync_catchup ops env fs sm st pe = Some (Ok (s', fx, fs'))"
  shows "handlers_of s' = {}"
proof -
  obtain h result fx0 fs1 where "op_process_event ops fs (sc_request_handler st) (pool_to_request_event env pe) =
      Some (Ok (h, result, fx0, fs1))"
    using assms by (auto simp: handle_sync_catchup_def)
  with assms show ?thesis
    by (cases "unwrap_or result pe") (auto simp: handle_sync_catchup_def Let_def split: outcome.splits)
qed

lemma started_step:
  assumes "pool_handle_event ops env fs sm pe = Some (Ok (sm', fx, fs'))"
    and "\<forall>h \<in> handlers_of (pool_state sm). started h"
  shows "\<forall>h \<in> handlers_of (pool_state sm'). started h"
proof (cases "pool_state sm")
  case (PS_Active st)
  with assms(1) obtain s' where "handle_active ops env fs sm st pe = Some (Ok (s', fx, fs'))"
    "sm' = sm\<lparr>pool_state := s'\<rparr>"
    by (auto simp: pool_handle_event_def)
  with started_active [of env fs sm st pe s' fx fs'] assms(2) PS_Active show ?thesis by simp
qed (use assms in \<open>auto simp: pool_handle_event_def handlers_of_initialization handlers_of_terminated
      handlers_of_getting_catchup_target handlers_of_sync_catchup\<close>)

lemma started_loop:
  assumes "pool_loop ops env fs sm pes = Some (Ok (fin, sm', fx, fs'))"
    and "\<forall>h \<in> handlers_of (pool_state sm). started h"
  shows "\<forall>h \<in> handlers_of (pool_state sm'). started h"
  using assms
proof (induction pes arbitrary: fs sm fx)
  case (Cons pe pes)
  from Cons.prems(1) obtain sm1 fx1 fs1 fx2 where h: "pool_handle_event ops env fs sm pe = Some (Ok (sm1, fx1, fs1))"
    and l: "pool_loop ops env fs1 sm1 pes = Some (Ok (fin, sm', fx2, fs'))"
    by auto
  from Cons.IH [OF l] started_step [OF h Cons.prems(2)] show ?case by blast
qed simp

end

section \<open>The handler of the library\<close>

definition rh_pending :: "RequestHandlerImpl \<Rightarrow> int list" where
  "rh_pending h =
     (case request_wrapper h of
        None \<Rightarrow> []
      | Some w \<Rightarrow> if sm_is_terminal (sm_state w) then [] else sm_cmd_ids w)"

definition rh_started :: "RequestHandlerImpl \<Rightarrow> bool" where
  "rh_started h \<longleftrightarrow> (\<exists>w. request_wrapper h = Some w \<and> (client_state (sm_state w) \<or> sm_state w = RS_Finish))"

lemma sm_is_terminal_iff [simp]: "sm_is_terminal s \<longleftrightarrow> s = RS_Finish"
  by (cases s) auto

lemma acks_start:
  assumes "handle_start env checks sm re = Ok (s, e, fx)"
  shows "acks fx = [] \<or> (s = RS_Finish \<and> (\<exists>m. acks fx = map (\<lambda>i. (i, m)) (sm_cmd_ids sm)))"
proof -
  have r: "acks (replicate n (Net x)) = []" for n x by (induction n) auto
  from assms show ?thesis
    by (auto simp: handle_start_def Let_def r split: RequestEvent.splits option.splits outcome.splits prod.splits if_splits)
qed

lemma acks_catchup:
  assumes "handle_event env checks fuel fs sm re = Some (Ok (s, e, fx, fs'))"
    and "\<not> client_state (sm_state sm)"
  shows "acks fx = [] \<or> (s = RS_Finish \<and> (\<exists>m. acks fx = map (\<lambda>i. (i, m)) (sm_cmd_ids sm)))"
proof (cases "sm_state sm")
  case (RS_CatchupConsensus st)
  with assms(1) show ?thesis
    by (cases re) (auto simp: handle_event_def handle_catchup_consensus_def
        catchup_target_handle_consensus_state_def
        split: option.splits outcome.splits prod.splits PoolEvent.splits bool.splits)
next
  case (RS_CatchupSingle st)
  with assms(1) show ?thesis
    by (cases re) (auto simp: handle_event_def handle_catchup_single_def split: outcome.splits prod.splits)
next
  case RS_Start
  with assms(1) have "handle_start env checks sm re = Ok (s, e, fx)" by (auto simp: handle_event_def)
  then show ?thesis by (rule acks_start)
qed (use assms in \<open>auto simp: handle_event_def\<close>)

lemma acks_step:
  assumes "handle_event env checks fuel fs sm re = Some (Ok (s, e, fx, fs'))"
  shows "acks fx = [] \<or> (s = RS_Finish \<and> (\<exists>m. acks fx = map (\<lambda>i. (i, m)) (sm_cmd_ids sm)))"
  using acks_catchup [OF assms] acked_step_client [OF _ assms] by (auto simp: acked_step_def)

lemma rh_process_pending:
  assumes "rh_process_event env checks fuel fs h ore = Some (Ok (h', e, fx, fs'))"
  shows "(rh_pending h' = rh_pending h \<and> acks fx = []) \<or>
    (rh_pending h' = [] \<and> (acks fx = [] \<or> (\<exists>m. acks fx = map (\<lambda>i. (i, m)) (rh_pending h))))"
proof (cases "\<exists>re w. ore = Some re \<and> request_wrapper h = Some w")
  case True
  then obtain re w where o: "ore = Some re" "request_wrapper h = Some w" by auto
  with assms obtain s where e: "handle_event env checks fuel fs w re = Some (Ok (s, e, fx, fs'))"
    and h': "h' = \<lparr>request_wrapper = Some (w\<lparr>sm_state := s\<rparr>)\<rparr>"
    by (auto simp: rh_process_event_def)
  have "s = RS_Finish \<and> acks fx = []" if "sm_state w = RS_Finish"
    using e that by (auto simp: handle_event_def)
  with acks_step [OF e] o h' show ?thesis by (auto simp: rh_pending_def)
qed (use assms in \<open>auto simp: rh_process_event_def rh_pending_def split: option.splits\<close>)

lemma rh_process_started:
  assumes "rh_process_event env checks fuel fs h ore = Some (Ok (h', e, fx, fs'))" and "rh_started h"
  shows "rh_started h' \<and> mset (map fst (acks fx)) + mset (rh_pending h') = mset (rh_pending h)"
proof (cases ore)
  case (Some re)
  from assms(2) obtain w where w: "request_wrapper h = Some w" "client_state (sm_state w) \<or> sm_state w = RS_Finish"
    by (auto simp: rh_started_def)
  with assms(1) Some obtain s where e: "handle_event env checks fuel fs w re = Some (Ok (s, e, fx, fs'))"
    and h': "h' = \<lparr>request_wrapper = Some (w\<lparr>sm_state := s\<rparr>)\<rparr>"
    by (auto simp: rh_process_event_def)
  show ?thesis
  proof (cases "sm_state w = RS_Finish")
    case True
    with e w h' show ?thesis by (auto simp: handle_event_def rh_started_def rh_pending_def)
  next
    case False
    with w acked_step_client [OF _ e] have "acked_step (sm_cmd_ids w) s fx" by simp
    with False w h' show ?thesis
      by (auto simp: acked_step_def rh_started_def rh_pending_def multiset.map_comp comp_def)
  qed
qed (use assms in \<open>auto simp: rh_process_event_def\<close>)

lemma rh_start_custom:
  assumes "is_custom_request re"
    and "rh_process_event env checks fuel fs (rh_new f ids nodes timeout extended_timeout n) (Some re) =
      Some (Ok (h, e, fx, fs'))"
  shows "rh_started h \<and> mset (map fst (acks fx)) + mset (rh_pending h) = mset ids"
proof -
  let ?w = "request_sm_new f ids nodes timeout extended_timeout n"
  from assms(2) obtain s where e: "handle_event env checks fuel fs ?w re = Some (Ok (s, e, fx, fs'))"
    and h: "h = \<lparr>request_wrapper = Some (?w\<lparr>sm_state := s\<rparr>)\<rparr>"
    by (auto simp: rh_process_event_def rh_new_def)
  have "sm_state ?w = RS_Start" "sm_cmd_ids ?w = ids" by (simp_all add: request_sm_new_def)
  with acked_step_custom_request [OF _ assms(1) e] h show ?thesis
    by (auto simp: acked_step_def rh_started_def rh_pending_def multiset.map_comp comp_def)
qed

lemma rh_terminate_started:
  assumes "rh_started h"
  shows "\<exists>h' e fx. rh_process_event env checks fuel fs h (Some RE_Terminate) = Some (Ok (h', e, fx, fs)) \<and>
    acks fx = map (\<lambda>i. (i, Inl PoolTerminated)) (rh_pending h)"
proof -
  from assms obtain w where w: "request_wrapper h = Some w" "client_state (sm_state w) \<or> sm_state w = RS_Finish"
    by (auto simp: rh_started_def)
  then show ?thesis
    by (cases "sm_state w") (auto simp: rh_process_event_def rh_pending_def handle_event_def handle_consensus_def
        handle_single_def handle_full_def)
qed

interpretation rh_impl: client_handler "request_handler_impl env checks fuel" rh_pending rh_started
  for env :: "'a RequestEnv_scheme" and checks fuel
proof
  show "rh_pending (op_new (request_handler_impl env checks fuel) f ids nodes t et n) = ids" for f ids nodes t et n
    by (simp add: request_handler_impl_def rh_new_def rh_pending_def request_sm_new_def)
  show "rh_started h \<Longrightarrow> op_is_terminal (request_handler_impl env checks fuel) h \<Longrightarrow> rh_pending h = []" for h
    by (auto simp: request_handler_impl_def rh_started_def rh_is_terminal_def rh_pending_def)
  note ops = request_handler_impl_def RequestHandlerOps.simps
  show "rh_started h \<and> mset (map fst (acks fx)) + mset (rh_pending h) = mset ids"
    if "is_custom_request re" "op_process_event (request_handler_impl env checks fuel) fs
      (op_new (request_handler_impl env checks fuel) f ids nodes t et n) (Some re) = Some (Ok (h, e, fx, fs'))"
    for re fs f ids nodes t et n h e fx fs'
    using that unfolding ops by (rule rh_start_custom)
  show "rh_started h' \<and> mset (map fst (acks fx)) + mset (rh_pending h') = mset (rh_pending h)"
    if "rh_started h" "op_process_event (request_handler_impl env checks fuel) fs h ore = Some (Ok (h', e, fx, fs'))"
    for fs h ore h' e fx fs'
    using that(2,1) unfolding ops by (rule rh_process_started)
qed (auto simp: request_handler_impl_def rh_terminate_started dest: rh_process_pending)

section \<open>A sample pool\<close>

text \<open>
  A pool whose ledger is empty: it has no nodes, and one ledger status with the root of the
  empty tree opens it. Every message is a ledger status, every text a consensus request with id 1.
\<close>

definition sample_status :: LedgerStatus where
  "sample_status = \<lparr>ls_txnSeqNo = 0,
     ls_merkleRoot = env_to_b58 sample_pool_env (root_hash mt_default), ls_ledgerId = 0,
     ls_ppSeqNo = None, ls_viewNo = None, ls_protocolVersion = None\<rparr>"

definition sample_thread_env :: PoolThreadEnv where
  "sample_thread_env = RequestEnv.extend
     (sample_request_env\<lparr>env_message := \<lambda>_. Some (Message_LedgerStatus sample_status),
        env_from_str := \<lambda>_. Some (Value_Object [(''reqId'', Value_Number (PosInt 1)),
          (''operation'', Value_Object [(''type'', Value_String ''1'')])])\<rparr>)
     (PoolThreadEnv.fields Some Some)"

abbreviation sample_ops :: "RequestHandlerImpl RequestHandlerOps" where
  "sample_ops \<equiv> request_handler_impl sample_thread_env True 0"

lemma sample_thread_env_simps [simp]:
  "env_message sample_thread_env = (\<lambda>_. Some (Message_LedgerStatus sample_status))"
  "env_from_str sample_thread_env = (\<lambda>_. Some (Value_Object [(''reqId'', Value_Number (PosInt 1)),
     (''operation'', Value_Object [(''type'', Value_String ''1'')])]))"
  "env_to_b58 sample_thread_env = env_to_b58 sample_pool_env"
  "env_sp_parser sample_thread_env = (\<lambda>_. None)"
  "env_ledger_status_json sample_thread_env = (\<lambda>_. [])"
  by (simp_all add: sample_thread_env_def sample_request_env_def sample_pool_env_def sample_env_def
      SPEnv.defs PoolEnv.defs RequestEnv.defs PoolThreadEnv.defs)

definition sample_handler :: RequestHandlerImpl where
  "sample_handler = \<lparr>request_wrapper = Some ((request_sm_new 0 [7] [] 10 20 2)
     \<lparr>sm_state := RS_Consensus \<lparr>cs_denied_nodes = [], cs_replies = [], cs_timeout_nodes = []\<rparr>\<rparr>)\<rparr>"

definition sample_active :: "RequestHandlerImpl PoolSM" where
  "sample_active = (pool_sm_new 5 10 20 2)\<lparr>pool_state :=
     PS_Active \<lparr>ac_request_handlers = [(''1'', sample_handler)], ac_nodes = []\<rparr>\<rparr>"

lemma default_tree: "map f (root_hash mt_default) \<noteq> ''timeout''" "mt_count mt_default = 0"
  by (simp_all add: mt_default_def root_hash_def EMPTY_HASH_BYTES_def)

lemma sample_nodes_and_remotes: "get_nodes_and_remotes sample_thread_env mt_default = Ok ([], [])"
proof -
  have "iter_collect (mt_iter mt_default) = []" 
    by (simp add: mt_default_def mt_iter_def iter_new_def iter_collect.simps iter_next_def)
  then show ?thesis by (simp add: get_nodes_and_remotes_def build_node_state_def)
qed

lemma sample_open_ledger: "open_ledger sample_thread_env sample_files = (Ok (mt_default, [], []), sample_files)"
  by (simp add: open_ledger_def sample_nodes_and_remotes create_def sample_files_def from_cache_def from_vec_Nil
      from_cache_loop.simps)

definition sample_catchup :: RequestHandlerImpl where
  "sample_catchup = \<lparr>request_wrapper = Some ((request_sm_new 0 [] [] 10 20 2)
     \<lparr>sm_state := RS_CatchupConsensus \<lparr>cc_replies = [], cc_merkle_tree = mt_default\<rparr>\<rparr>)\<rparr>"

lemma sample_check_cache:
  "\<exists>fx. pool_handle_event sample_ops sample_thread_env sample_files (pool_sm_new 5 10 20 2) (PE_CheckCache 3) =
     Some (Ok ((pool_sm_new 5 10 20 2)\<lparr>pool_state := PS_GettingCatchupTarget
       \<lparr>gc_request_handler = sample_catchup, gc_cmd_id = 3, gc_refresh = False\<rparr>\<rparr>, fx, sample_files))"
  by (simp add: pool_handle_event_def handle_initialization_def get_request_handler_with_ledger_status_sent_def
      sample_open_ledger request_handler_impl_def rh_new_def rh_process_event_def handle_event_def handle_start_def
      request_sm_new_def pool_sm_new_def get_f_def sample_catchup_def)

lemma sample_synced:
  "\<exists>fx. pool_handle_event sample_ops sample_thread_env sample_files
     ((pool_sm_new 5 10 20 2)\<lparr>pool_state := PS_GettingCatchupTarget
       \<lparr>gc_request_handler = sample_catchup, gc_cmd_id = 3, gc_refresh = False\<rparr>\<rparr>) (PE_NodeReply ''s'' ''n1'') =
     Some (Ok ((pool_sm_new 5 10 20 2)\<lparr>pool_state := PS_Active \<lparr>ac_request_handlers = [], ac_nodes = []\<rparr>\<rparr>,
       fx, sample_files))"
  by (simp add: pool_handle_event_def handle_getting_catchup_target_def request_handler_impl_def rh_process_event_def
      from_raw_str_def sample_catchup_def request_sm_new_def handle_event_def handle_catchup_consensus_def
      catchup_target_handle_consensus_state_def process_catchup_target_def add_vote_def
      check_nodes_responses_on_status_def try_to_catch_up_def sample_status_def unwrap_or_def
      sample_nodes_and_remotes pool_sm_new_def Let_def default_tree)

lemma sample_send:
  "\<exists>fx. pool_handle_event sample_ops sample_thread_env sample_files
     ((pool_sm_new 5 10 20 2)\<lparr>pool_state := PS_Active \<lparr>ac_request_handlers = [], ac_nodes = []\<rparr>\<rparr>)
     (PE_SendRequest 7 ''m'' None None) = Some (Ok (sample_active, fx, sample_files))"
  by (simp add: pool_handle_event_def handle_active_def request_handler_impl_def rh_new_def rh_process_event_def
      parse_req_id_and_op_def txn_types REQUEST_FOR_FULL_def REQUESTS_FOR_STATE_PROOFS_def handle_event_def
      handle_start_def request_sm_new_def pool_sm_new_def get_f_def sample_active_def sample_handler_def)

lemma sample_open:
  "\<exists>fx. pool_loop sample_ops sample_thread_env sample_files (pool_sm_new 5 10 20 2)
     [PE_CheckCache 3, PE_NodeReply ''s'' ''n1'', PE_SendRequest 7 ''m'' None None] =
     Some (Ok (False, sample_active, fx, sample_files))"
proof -
  have "pool_is_terminal (pool_state sample_active) = False" by (simp add: sample_active_def)
  with sample_check_cache sample_synced sample_send show ?thesis by fastforce
qed

section \<open>Properties\<close>

text \<open>
  C5: A pool acknowledges each submitted request at most once and nothing else: over any
  sequence of events of a new pool, the acknowledged commands together with those still pending
  in a handler are among the submitted ones, counted with multiplicity.
\<close>

theorem pool_acks_each_command_once:
  assumes "pool_loop (request_handler_impl env checks fuel) env fs
      (pool_sm_new i timeout extended_timeout read_nodes) pes = Some (Ok (fin, sm', fx, fs'))"
  shows "mset (map fst (submit_acks fx)) + mset (pool_pending rh_pending (pool_state sm')) \<subseteq>#
    mset (submitted pes)"
  using rh_impl.accounted_loop [OF assms] by (simp add: pool_sm_new_def)

theorem pool_acks_each_command_once_witness:
  "\<exists>fx. pool_loop sample_ops sample_thread_env sample_files (pool_sm_new 5 10 20 2)
     [PE_CheckCache 3, PE_NodeReply ''s'' ''n1'', PE_SendRequest 7 ''m'' None None] =
     Some (Ok (False, sample_active, fx, sample_files)) \<and>
   mset (map fst (submit_acks fx)) + mset (pool_pending rh_pending (pool_state sample_active)) \<subseteq># {#7#}"
proof -
  obtain fx where fx: "pool_loop sample_ops sample_thread_env sample_files (pool_sm_new 5 10 20 2)
     [PE_CheckCache 3, PE_NodeReply ''s'' ''n1'', PE_SendRequest 7 ''m'' None None] =
     Some (Ok (False, sample_active, fx, sample_files))"
    using sample_open by blast
  from pool_acks_each_command_once [OF fx] fx show ?thesis by auto
qed

text \<open>
  C27: An active pool loses no command: a transition other than a refresh, an outdated pool or a
  request whose id is already in use leaves every command, old or newly submitted, either
  acknowledged or pending, closing the pool included.
\<close>

theorem active_pool_keeps_commands:
  assumes "pool_loop (request_handler_impl env checks fuel) env fs
      (pool_sm_new i timeout extended_timeout read_nodes) pes = Some (Ok (fin, sm, fx, fs1))"
    and "pool_state sm = PS_Active st" and "keeps_commands env st pe"
    and "pool_handle_event (request_handler_impl env checks fuel) env fs1 sm pe = Some (Ok (sm', fx', fs'))"
  shows "mset (map fst (submit_acks fx')) + mset (pool_pending rh_pending (pool_state sm')) =
    mset (pool_pending rh_pending (PS_Active st)) + mset (submitted [pe])"
proof -
  have s: "\<forall>h \<in> handlers_of (PS_Active st). rh_started h"
    using rh_impl.started_loop [OF assms(1)] assms(2) by (simp add: pool_sm_new_def)
  from assms(2,4) obtain s' where "handle_active (request_handler_impl env checks fuel) env fs1 sm st pe =
      Some (Ok (s', fx', fs'))" "sm' = sm\<lparr>pool_state := s'\<rparr>"
    by (auto simp: pool_handle_event_def)
  with rh_impl.settled_active [OF _ assms(3) s] show ?thesis by (simp add: settled_def)
qed

lemma sample_active_state:
  "pool_state sample_active = PS_Active \<lparr>ac_request_handlers = [(''1'', sample_handler)], ac_nodes = []\<rparr>"
  by (simp add: sample_active_def)

lemma sample_active_pending:
  "pool_pending rh_pending (PS_Active \<lparr>ac_request_handlers = [(''1'', sample_handler)], ac_nodes = []\<rparr>) = [7]"
  by (simp add: rh_pending_def sample_handler_def request_sm_new_def)

theorem active_pool_keeps_commands_witness:
  "\<exists>sm' fx' fs'. pool_handle_event sample_ops sample_thread_env sample_files sample_active
     (PE_Close 9) = Some (Ok (sm', fx', fs')) \<and>
   mset (map fst (submit_acks fx')) + mset (pool_pending rh_pending (pool_state sm')) = {#7#}"
proof -
  obtain fx where l: "pool_loop sample_ops sample_thread_env sample_files (pool_sm_new 5 10 20 2)
     [PE_CheckCache 3, PE_NodeReply ''s'' ''n1'', PE_SendRequest 7 ''m'' None None] =
     Some (Ok (False, sample_active, fx, sample_files))"
    using sample_open by blast
  have k: "keeps_commands sample_thread_env st (PE_Close 9)" for st :: "RequestHandlerImpl ActiveState"
    by (simp add: keeps_commands_def)
  have "\<exists>sm' fx' fs'. pool_handle_event sample_ops sample_thread_env sample_files sample_active
     (PE_Close 9) = Some (Ok (sm', fx', fs'))"
    by (simp add: pool_handle_event_def sample_active_state handle_active_def terminate_handler_def
        request_handler_impl_def rh_process_event_def sample_handler_def request_sm_new_def handle_event_def
        handle_consensus_def)
  with active_pool_keeps_commands [OF l sample_active_state k] sample_active_pending show ?thesis by fastforce
qed

text \<open>
  Closing an active pool never fails and leaves no client waiting: every pending command is
  acknowledged with \<open>PoolTerminated\<close>, the close command is acknowledged, and the thread ends.
\<close>

theorem close_acks_pending:
  assumes "pool_loop (request_handler_impl env checks fuel) env fs
      (pool_sm_new i timeout extended_timeout read_nodes) pes = Some (Ok (fin, sm, fx, fs1))"
    and "pool_state sm = PS_Active st"
  shows "\<exists>sm' fx'. pool_loop (request_handler_impl env checks fuel) env fs1 sm [PE_Close c] =
      Some (Ok (True, sm', CloseAck c # fx', fs1)) \<and>
    submit_acks fx' = map (\<lambda>i. (i, Inl PoolTerminated)) (pool_pending rh_pending (PS_Active st))"
proof -
  have "\<forall>h \<in> handlers_of (PS_Active st). rh_started h"
    using rh_impl.started_loop [OF assms(1)] assms(2) by (simp add: pool_sm_new_def)
  from rh_impl.close_active [OF assms(2) this, of env checks fuel env fs1 c] show ?thesis by auto
qed

theorem close_acks_pending_witness:
  "\<exists>sm' fx'. pool_loop sample_ops sample_thread_env sample_files sample_active [PE_Close 9] =
      Some (Ok (True, sm', CloseAck 9 # fx', sample_files)) \<and>
    submit_acks fx' = [(7, Inl PoolTerminated)]"
proof -
  obtain fx where l: "pool_loop sample_ops sample_thread_env sample_files (pool_sm_new 5 10 20 2)
     [PE_CheckCache 3, PE_NodeReply ''s'' ''n1'', PE_SendRequest 7 ''m'' None None] =
     Some (Ok (False, sample_active, fx, sample_files))"
    using sample_open by blast
  from close_acks_pending [OF l sample_active_state, of 9] sample_active_pending show ?thesis by simp
qed

text \<open>
  A refresh of an active pool drops its request handlers: a command that was pending is
  never acknowledged, by the refresh or by any later event.
\<close>

theorem refresh_loses_pending:
  assumes "pool_state sm = PS_Active st" and "c \<in> set (pool_pending rh_pending (PS_Active st))"
    and "pool_loop (request_handler_impl env checks fuel) env fs sm (PE_Refresh r # pes) =
      Some (Ok (fin, sm', fx, fs'))"
    and "c \<notin> set (submitted pes)"
  shows "c \<notin> fst ` set (submit_acks fx)"
proof -
  let ?ops = "request_handler_impl env checks fuel"
  from assms(1,3) obtain s1 fx1 fs1 fx2 where h: "handle_refresh ?ops env fs sm r = Some (Ok (s1, fx1, fs1))"
    and l: "pool_loop ?ops env fs1 (sm\<lparr>pool_state := s1\<rparr>) pes = Some (Ok (fin, sm', fx2, fs'))"
    and fx: "fx = fx1 @ fx2"
    by (auto simp: pool_handle_event_def handle_active_def)
  from handle_refresh_cases [OF h] have s1: "pool_pending rh_pending s1 = []" "catchup_unowned rh_pending s1"
    "submit_acks fx1 = []"
    by (auto dest: rh_impl.catchup_handler_acks rh_impl.catchup_handler_unowned)
  have "mset (map fst (submit_acks fx2)) \<subseteq># mset (submitted pes)"
    using rh_impl.accounted_loop [OF l] s1 subset_mset.order_trans [OF mset_subset_eq_add_left] by simp
  from set_mset_mono [OF this] assms(4) s1(3) fx show ?thesis by auto
qed

theorem refresh_loses_pending_witness:
  "\<exists>sm' fx fs'. pool_loop sample_ops sample_thread_env sample_files sample_active [PE_Refresh 4, PE_Close 5] =
      Some (Ok (True, sm', fx, fs')) \<and> 7 \<notin> fst ` set (submit_acks fx)"
proof -
  have "\<exists>sm' fx fs'. pool_loop sample_ops sample_thread_env sample_files sample_active [PE_Refresh 4, PE_Close 5] =
      Some (Ok (True, sm', fx, fs'))"
    by (simp add: pool_handle_event_def sample_active_state handle_active_def handle_refresh_def
        get_request_handler_with_ledger_status_sent_def sample_open_ledger request_handler_impl_def rh_new_def
        rh_process_event_def handle_event_def handle_start_def request_sm_new_def
        handle_getting_catchup_target_def unwrap_or_def terminate_handler_def handle_catchup_consensus_def Let_def)
  then obtain sm' fx fs' where l: "pool_loop sample_ops sample_thread_env sample_files sample_active
      [PE_Refresh 4, PE_Close 5] = Some (Ok (True, sm', fx, fs'))"
    by blast
  have c: "7 \<in> set (pool_pending rh_pending (PS_Active \<lparr>ac_request_handlers = [(''1'', sample_handler)], ac_nodes = []\<rparr>))"
    unfolding sample_active_pending by simp
  have "7 \<notin> fst ` set (submit_acks fx)"
    by (rule refresh_loses_pending [OF sample_active_state c l]) simp
  with l show ?thesis by blast
qed

text \<open>
  Request ids are not checked for reuse: a second request with the id of a pending one
  replaces its handler, and the first command is never acknowledged.
\<close>

theorem reused_request_id_loses_command:
  assumes "pool_state sm = PS_Active st" and "hm_get (ac_request_handlers st) rid = Some h" and "c \<in> set (rh_pending h)"
    and "distinct (pool_pending rh_pending (PS_Active st))"
    and "pool_to_request_event env (PE_SendRequest c2 msg t ns) = Some re" and "get_req_id re = rid"
    and "pool_loop (request_handler_impl env checks fuel) env fs sm (PE_SendRequest c2 msg t ns # pes) =
      Some (Ok (fin, sm', fx, fs'))"
    and "c \<notin> set (submitted (PE_SendRequest c2 msg t ns # pes))"
  shows "c \<notin> fst ` set (submit_acks fx)"
proof -
  let ?ops = "request_handler_impl env checks fuel" and ?hs = "ac_request_handlers st"
  from assms(1,5,6,7) obtain h2 e fx1 fs1 fx2 where
    p: "op_process_event ?ops fs (op_new ?ops (get_f (length (ac_nodes st))) [c2] (ac_nodes st)
          (pool_timeout sm) (pool_extended_timeout sm) (pool_number_read_nodes sm)) (Some re) = Some (Ok (h2, e, fx1, fs1))"
    and l: "pool_loop ?ops env fs1 (sm\<lparr>pool_state := PS_Active (st\<lparr>ac_request_handlers := hm_insert ?hs rid h2\<rparr>)\<rparr>) pes =
      Some (Ok (fin, sm', fx2, fs'))"
    and fx: "fx = map RequestEffect fx1 @ fx2"
    by (auto simp: pool_handle_event_def handle_active_def simp del: pool_to_request_event.simps)
  have a: "mset (map fst (acks fx1)) + mset (rh_pending h2) \<subseteq># {#c2#}"
    using rh_impl.process_accounts [OF p] by (simp add: rh_impl.pending_new)
  have c2: "c \<noteq> c2" using assms(8) by auto
  have "count (pend rh_pending ?hs) c \<le> 1" using assms(4) by (simp add: distinct_count_atmost_1)
  moreover have "0 < count (mset (rh_pending h)) c" using assms(3) by simp
  moreover have "count (mset (rh_pending h2)) c = 0" "c \<notin> fst ` set (acks fx1)"
    using set_mset_mono [OF a] c2 by (auto simp: count_eq_zero_iff)
  moreover have "count (pend rh_pending (hm_insert ?hs rid h2)) c + count (mset (rh_pending h)) c =
      count (pend rh_pending ?hs) c + count (mset (rh_pending h2)) c"
    using pend_insert [of rh_pending ?hs rid h2] assms(2) by (metis count_union option.simps(5))
  ultimately have "count (pend rh_pending (hm_insert ?hs rid h2)) c = 0" by linarith
  then have n: "c \<notin># pend rh_pending (hm_insert ?hs rid h2)" unfolding count_eq_zero_iff .
  have "mset (map fst (submit_acks fx2)) \<subseteq># pend rh_pending (hm_insert ?hs rid h2) + mset (submitted pes)"
    using rh_impl.accounted_loop [OF l] subset_mset.order_trans [OF mset_subset_eq_add_left] by simp
  from set_mset_mono [OF this] n assms(8) fx \<open>c \<notin> fst ` set (acks fx1)\<close> show ?thesis by auto
qed

theorem reused_request_id_loses_command_witness:
  "\<exists>sm' fx fs'. pool_loop sample_ops sample_thread_env sample_files sample_active
      [PE_SendRequest 8 ''m'' None None, PE_Close 5] = Some (Ok (True, sm', fx, fs')) \<and>
    7 \<notin> fst ` set (submit_acks fx)"
proof -
  have "\<exists>sm' fx fs'. pool_loop sample_ops sample_thread_env sample_files sample_active
      [PE_SendRequest 8 ''m'' None None, PE_Close 5] = Some (Ok (True, sm', fx, fs'))"
    by (simp add: pool_handle_event_def sample_active_state handle_active_def request_handler_impl_def rh_new_def
        parse_req_id_and_op_def txn_types REQUEST_FOR_FULL_def REQUESTS_FOR_STATE_PROOFS_def
        rh_process_event_def handle_event_def handle_start_def request_sm_new_def
        terminate_handler_def handle_consensus_def)
  then obtain sm' fx fs' where l: "pool_loop sample_ops sample_thread_env sample_files sample_active
      [PE_SendRequest 8 ''m'' None None, PE_Close 5] = Some (Ok (True, sm', fx, fs'))"
    by blast
  have e: "pool_to_request_event sample_thread_env (PE_SendRequest 8 ''m'' None None) =
      Some (RE_CustomConsensusRequest ''m'' ''1'')"
    by (simp add: parse_req_id_and_op_def txn_types REQUEST_FOR_FULL_def REQUESTS_FOR_STATE_PROOFS_def)
  have c: "7 \<in> set (rh_pending sample_handler)"
    by (simp add: rh_pending_def sample_handler_def request_sm_new_def)
  have d: "distinct (pool_pending rh_pending (PS_Active \<lparr>ac_request_handlers = [(''1'', sample_handler)], ac_nodes = []\<rparr>))"
    unfolding sample_active_pending by simp
  have "7 \<notin> fst ` set (submit_acks fx)"
    by (rule reused_request_id_loses_command [OF sample_active_state _ c d e _ l, where rid = "''1''"]) simp_all
  with l show ?thesis by blast
qed

end
