(* ===== verification/Pool_Catchup.thy ===== *)
theory Pool_Catchup
  imports Pool_Protocol
begin

text \<open>
  The catch-up of a pool from end to end: the trees that the pool and its handlers hold are
  always trees of a transaction list, a target has the votes of \<open>f + 1\<close> different nodes, a pool
  that waits for transactions always waits for a target ahead of its tree, and the node list of
  an active pool comes from a ledger that agrees with the target.
\<close>

section \<open>Trees\<close>

abbreviation tree_ok :: "'a SPEnv_scheme \<Rightarrow> MerkleTree \<Rightarrow> bool" where
  "tree_ok env \<equiv> mt_valid (env_sha256 env)"

lemma mt_append_valid: "mt_valid sha mt \<Longrightarrow> mt_append sha mt v = Ok mt' \<Longrightarrow> mt_valid sha mt'"
  using merkle_log.app_ok [of sha mt v] by auto

lemma from_genesis_loop_valid:
  "from_genesis_loop sha from_str to_vec mt lines = Ok mt' \<Longrightarrow> mt_valid sha mt \<Longrightarrow> mt_valid sha mt'"
  by (induction lines arbitrary: mt) (auto split: if_splits dest: mt_append_valid)

lemma from_cache_loop_valid: "from_cache_loop sha mt f = Ok mt' \<Longrightarrow> mt_valid sha mt \<Longrightarrow> mt_valid sha mt'"
proof (induction sha mt f rule: from_cache_loop.induct)
  case (1 sha mt f)
  from "1.prems"(1) consider "mt' = mt"
    | m where "\<not> length f < 8" "\<not> 2 ^ 63 \<le> read_u64 (take 8 f)" "\<not> length (drop 8 f) < read_u64 (take 8 f)"
      "mt_append sha mt (take (read_u64 (take 8 f)) (drop 8 f)) = Ok m"
      "from_cache_loop sha m (drop (read_u64 (take 8 f)) (drop 8 f)) = Ok mt'"
    by (subst (asm) from_cache_loop.simps) (auto simp: Let_def split: if_splits)
  then show ?case
  proof cases
    case 2
    from "1.IH" [OF 2(1) refl refl 2(2,3,4,5)] mt_append_valid [OF "1.prems"(2) 2(4)] show ?thesis .
  qed (use "1.prems" in simp)
qed

lemma pool_create_valid: "pool_create env fs = Ok mt \<Longrightarrow> tree_ok env mt"
  by (auto simp: create_def from_genesis_def from_cache_def from_vec_Nil
      split: option.splits dest: from_genesis_loop_valid from_cache_loop_valid)

fun good_progress :: "'a SPEnv_scheme \<Rightarrow> CatchupProgress \<Rightarrow> bool" where
  "good_progress env (ShouldBeStarted _ n mt) \<longleftrightarrow> tree_ok env mt \<and> mt_count mt < n"
| "good_progress env (NotNeeded mt) \<longleftrightarrow> tree_ok env mt"
| "good_progress env (Restart mt) \<longleftrightarrow> tree_ok env mt"
| "good_progress env InProgress \<longleftrightarrow> True"

lemma try_to_catch_up_good: "try_to_catch_up env vote mt = Ok p \<Longrightarrow> tree_ok env mt \<Longrightarrow> good_progress env p"
  by (auto simp: try_to_catch_up_def Let_def split: if_splits option.splits prod.splits)

lemma try_to_restart_good: "try_to_restart_catch_up env fs e = (Ok p, fs') \<Longrightarrow> good_progress env p"
  by (auto simp: try_to_restart_catch_up_def pool_create_valid split: outcome.splits prod.splits)

lemma if_consensus_reachable_good:
  "if_consensus_reachable env checks fs votes n cnt f = (Ok p, fs') \<Longrightarrow> good_progress env p"
  by (auto simp: if_consensus_reachable_def Let_def split: outcome.splits bool.splits dest: try_to_restart_good)

lemma check_nodes_good:
  assumes "check_nodes_responses_on_status env checks fs votes mt n f = (Ok p, fs')" and "tree_ok env mt"
  shows "good_progress env p"
  using assms
  by (auto simp: check_nodes_responses_on_status_def Let_def
      split: option.splits if_splits outcome.splits prod.splits
      dest: if_consensus_reachable_good try_to_restart_good
      intro: try_to_catch_up_good pool_create_valid)

section \<open>Handlers of a catch-up\<close>

definition waiting_target :: "'a SPEnv_scheme \<Rightarrow> RequestHandlerImpl \<Rightarrow> bool" where
  "waiting_target env h \<longleftrightarrow> (\<exists>w cc. request_wrapper h = Some w \<and> sm_state w = RS_CatchupConsensus cc \<and>
     tree_ok env (cc_merkle_tree cc))"

definition waiting_reply :: "'a SPEnv_scheme \<Rightarrow> RequestHandlerImpl \<Rightarrow> bool" where
  "waiting_reply env h \<longleftrightarrow> (\<exists>w ct. request_wrapper h = Some w \<and> sm_state w = RS_CatchupSingle ct \<and>
     tree_ok env (ct_merkle_tree ct) \<and> mt_count (ct_merkle_tree ct) < ct_target_mt_size ct)"

fun good_event :: "'a SPEnv_scheme \<Rightarrow> PoolEvent \<Rightarrow> bool" where
  "good_event env (PE_CatchupTargetFound _ n mt) \<longleftrightarrow> tree_ok env mt \<and> mt_count mt < n"
| "good_event env (PE_CatchupRestart mt) \<longleftrightarrow> tree_ok env mt"
| "good_event env (PE_Synced mt) \<longleftrightarrow> tree_ok env mt"
| "good_event env (PE_CatchupTargetNotFound _) \<longleftrightarrow> True"
| "good_event env _ \<longleftrightarrow> False"

lemma process_target_good:
  assumes "process_catchup_target env checks fs sm key n cc = (Ok (fin, result), cc', fs')"
    and "tree_ok env (cc_merkle_tree cc)"
  shows "tree_ok env (cc_merkle_tree cc') \<and> (result = None \<longrightarrow> \<not> fin) \<and>
    (\<forall>e. result = Some e \<longrightarrow> good_event env e)"
proof -
  let ?cc = "cc\<lparr>cc_replies := add_vote (cc_replies cc) key n\<rparr>"
  obtain r fs1 where c: "check_nodes_responses_on_status env checks fs (cc_replies ?cc) (cc_merkle_tree ?cc)
      (length (sm_nodes sm)) (sm_f sm) = (r, fs1)"
    by (cases "check_nodes_responses_on_status env checks fs (cc_replies ?cc) (cc_merkle_tree ?cc)
      (length (sm_nodes sm)) (sm_f sm)")
  have "good_progress env p" if "r = Ok p" for p
    using check_nodes_good [of env checks fs "cc_replies ?cc" "cc_merkle_tree ?cc" _ _ p fs1] c that assms(2)
    by simp
  with assms c show ?thesis
    by (auto simp: process_catchup_target_def Let_def split: outcome.splits CatchupProgress.splits)
qed

lemma waiting_target_step:
  assumes "rh_process_event env checks fuel fs h ore = Some (Ok (h', e, fx, fs'))"
    and "waiting_target env h" and "ore \<noteq> Some RE_Terminate"
  shows "case e of None \<Rightarrow> waiting_target env h' | Some pe \<Rightarrow> good_event env pe"
proof (cases ore)
  case (Some re)
  from assms(2) obtain w cc where w: "request_wrapper h = Some w" "sm_state w = RS_CatchupConsensus cc"
    "tree_ok env (cc_merkle_tree cc)"
    by (auto simp: waiting_target_def)
  with assms(1) Some obtain s where h: "handle_catchup_consensus env checks fs w cc re = Some (Ok (s, e, fx, fs'))"
    and h': "h' = \<lparr>request_wrapper = Some (w\<lparr>sm_state := s\<rparr>)\<rparr>"
    by (auto simp: rh_process_event_def handle_event_def)
  consider "s = RS_CatchupConsensus cc" "e = None"
    | key n rid where "catchup_target_handle_consensus_state env checks fs w cc key n rid = Some (Ok (s, e, fx, fs'))"
    using h assms(3) Some by (cases re) (auto simp: handle_catchup_consensus_def split: option.splits)
  then show ?thesis
  proof cases
    case 1
    with w h' show ?thesis by (simp add: waiting_target_def)
  next
    case 2
    then obtain fin result cc' where p: "process_catchup_target env checks fs w key n cc = (Ok (fin, result), cc', fs')"
      "e = result" "s = (if fin then RS_Finish else RS_CatchupConsensus cc')"
      by (auto simp: catchup_target_handle_consensus_state_def
          split: prod.splits outcome.splits bool.splits option.splits PoolEvent.splits)
    with process_target_good [OF p(1) w(3)] h' show ?thesis
      by (auto simp: waiting_target_def split: option.splits)
  qed
qed (use assms in \<open>auto simp: rh_process_event_def\<close>)

lemma waiting_reply_step:
  assumes "rh_process_event env checks fuel fs h ore = Some (Ok (h', e, fx, fs'))"
    and "waiting_reply env h" and "ore \<noteq> Some RE_Terminate"
  shows "(e = None \<and> waiting_reply env h') \<or>
    (\<exists>w ct cr m. request_wrapper h = Some w \<and> sm_state w = RS_CatchupSingle ct \<and> e = Some (PE_Synced m) \<and>
      process_catchup_reply env fs cr (ct_merkle_tree ct) (ct_target_mt_root ct) (ct_target_mt_size ct) = (Ok m, fs'))"
proof (cases ore)
  case (Some re)
  from assms(2) obtain w ct where w: "request_wrapper h = Some w" "sm_state w = RS_CatchupSingle ct"
    "tree_ok env (ct_merkle_tree ct)" "mt_count (ct_merkle_tree ct) < ct_target_mt_size ct"
    by (auto simp: waiting_reply_def)
  with assms(1) Some obtain s where h: "handle_catchup_single env fs w ct re = Some (Ok (s, e, fx, fs'))"
    and h': "h' = \<lparr>request_wrapper = Some (w\<lparr>sm_state := s\<rparr>)\<rparr>"
    by (auto simp: rh_process_event_def handle_event_def)
  consider "s = RS_CatchupSingle ct" "e = None"
    | cr m where "e = Some (PE_Synced m)"
      "process_catchup_reply env fs cr (ct_merkle_tree ct) (ct_target_mt_root ct) (ct_target_mt_size ct) = (Ok m, fs')"
    using h assms(3) Some
    by (cases re) (auto simp: handle_catchup_single_def split: prod.splits outcome.splits)
  then show ?thesis using w h' by cases (auto simp: waiting_reply_def)
qed (use assms in \<open>auto simp: rh_process_event_def\<close>)

lemma new_target_handler:
  assumes "rh_process_event env checks fuel fs (rh_new f ids nodes timeout extended_timeout n)
      (Some (RE_LedgerStatus ls None (Some mt))) = Some (Ok (h', e, fx, fs'))"
    and "tree_ok env mt"
  shows "waiting_target env h'"
  using assms
  by (auto simp: rh_process_event_def rh_new_def request_sm_new_def handle_event_def handle_start_def waiting_target_def)

lemma new_reply_handler:
  assumes "rh_process_event env checks fuel fs (rh_new f ids nodes timeout extended_timeout n)
      (Some (RE_CatchupReq mt size_target root)) = Some (Ok (h', e, fx, fs'))"
    and "tree_ok env mt" and "mt_count mt < size_target"
  shows "waiting_reply env h'"
  using assms
  by (auto simp: rh_process_event_def rh_new_def request_sm_new_def handle_event_def handle_start_def
      build_catchup_req_def waiting_reply_def Let_def)

section \<open>The invariant of the pool\<close>

text \<open>The events that reach the pool from outside: answers of nodes, timeouts and commands.\<close>

fun external_event :: "PoolEvent \<Rightarrow> bool" where
  "external_event (PE_NodeReply _ _) = True"
| "external_event (PE_Timeout _ _) = True"
| "external_event (PE_CheckCache _) = True"
| "external_event (PE_Close _) = True"
| "external_event (PE_Refresh _) = True"
| "external_event (PE_SendRequest _ _ _ _) = True"
| "external_event _ = False"

fun catchup_inv :: "'a SPEnv_scheme \<Rightarrow> RequestHandlerImpl PoolState \<Rightarrow> bool" where
  "catchup_inv env (PS_GettingCatchupTarget st) \<longleftrightarrow> waiting_target env (gc_request_handler st)"
| "catchup_inv env (PS_SyncCatchup st) \<longleftrightarrow> waiting_reply env (sc_request_handler st)"
| "catchup_inv env _ \<longleftrightarrow> True"

lemma not_terminate: "pool_to_request_event env pe \<noteq> Some RE_Terminate"
  by (cases pe) (auto split: outcome.splits prod.splits if_splits Message.splits)

lemma open_ledger_valid: "open_ledger env fs = (Ok (mt, nr), fs') \<Longrightarrow> tree_ok env mt"
  by (auto simp: open_ledger_def split: outcome.splits prod.splits dest: pool_create_valid)

lemma catchup_handler_waits:
  assumes "get_request_handler_with_ledger_status_sent (request_handler_impl env checks fuel) env fs sm =
      Some (Ok (Inr h, fx, fs'))"
  shows "waiting_target env h"
proof -
  obtain mt nodes remotes fs1 where o: "open_ledger env fs = (Ok (mt, nodes, remotes), fs1)"
    using assms by (auto simp: get_request_handler_with_ledger_status_sent_def split: prod.splits outcome.splits)
  then obtain e fx1 where "rh_process_event env checks fuel fs1
      (rh_new (get_f (length nodes)) [] nodes (pool_timeout sm) (pool_extended_timeout sm) (pool_number_read_nodes sm))
      (Some (RE_LedgerStatus (ledger_status env mt) None (Some mt))) = Some (Ok (h, e, fx1, fs'))"
    using assms by (auto simp: get_request_handler_with_ledger_status_sent_def request_handler_impl_def)
  then show ?thesis using open_ledger_valid [OF o] by (rule new_target_handler)
qed

lemma catchup_inv_refresh:
  assumes "handle_refresh (request_handler_impl env checks fuel) env fs sm c = Some (Ok (s', fx, fs'))"
  shows "catchup_inv env s'"
  using handle_refresh_cases [OF assms] by (auto dest: catchup_handler_waits)

lemma catchup_inv_getting:
  assumes "handle_getting_catchup_target (request_handler_impl env checks fuel) env fs sm st pe = Some (Ok (s', fx, fs'))"
    and "waiting_target env (gc_request_handler st)" and "external_event pe"
  shows "catchup_inv env s'"
proof -
  obtain h result fx0 fs1 where p: "rh_process_event env checks fuel fs (gc_request_handler st)
      (pool_to_request_event env pe) = Some (Ok (h, result, fx0, fs1))"
    using assms(1) by (auto simp: handle_getting_catchup_target_def request_handler_impl_def)
  note w = waiting_target_step [OF p assms(2) not_terminate]
  show ?thesis
  proof (cases result)
    case None
    with w have "waiting_target env h" by simp
    with None assms(1,3) p show ?thesis
      by (cases pe) (auto simp: handle_getting_catchup_target_def request_handler_impl_def unwrap_or_def Let_def)
  next
    case (Some e)
    with w have g: "good_event env e" by simp
    show ?thesis
      using Some g assms(1) p
      by (cases e) (auto simp: handle_getting_catchup_target_def request_handler_impl_def unwrap_or_def Let_def
          split: outcome.splits prod.splits dest: new_target_handler new_reply_handler)
  qed
qed

lemma catchup_inv_sync:
  assumes "handle_sync_catchup (request_handler_impl env checks fuel) env fs sm st pe = Some (Ok (s', fx, fs'))"
    and "waiting_reply env (sc_request_handler st)" and "external_event pe"
  shows "catchup_inv env s'"
proof -
  obtain h result fx0 fs1 where p: "rh_process_event env checks fuel fs (sc_request_handler st)
      (pool_to_request_event env pe) = Some (Ok (h, result, fx0, fs1))"
    using assms(1) by (auto simp: handle_sync_catchup_def request_handler_impl_def)
  from waiting_reply_step [OF p assms(2) not_terminate] consider "result = None" "waiting_reply env h"
    | m where "result = Some (PE_Synced m)"
    by blast
  then show ?thesis
  proof cases
    case 1
    with assms(1,3) p show ?thesis
      by (cases pe) (auto simp: handle_sync_catchup_def request_handler_impl_def unwrap_or_def Let_def)
  next
    case 2
    with assms(1) p show ?thesis
      by (auto simp: handle_sync_catchup_def request_handler_impl_def unwrap_or_def Let_def
          split: outcome.splits prod.splits)
  qed
qed

lemma catchup_inv_active:
  assumes "handle_active (request_handler_impl env checks fuel) env fs sm st pe = Some (Ok (s', fx, fs'))"
  shows "catchup_inv env s'"
proof (cases "\<exists>c. pe = PE_Refresh c")
  case True
  with assms catchup_inv_refresh show ?thesis by (auto simp: handle_active_def)
next
  case False
  with assms show ?thesis by (cases pe) (auto simp: handle_active_def split: option.splits)
qed

lemma catchup_inv_step:
  assumes "pool_handle_event (request_handler_impl env checks fuel) env fs sm pe = Some (Ok (sm', fx, fs'))"
    and "catchup_inv env (pool_state sm)" and "external_event pe"
  shows "catchup_inv env (pool_state sm')"
proof (cases "pool_state sm")
  case PS_Initialization
  with assms(1) obtain s' where h: "handle_initialization (request_handler_impl env checks fuel) env fs sm pe = Some (Ok (s', fx, fs'))"
    and sm': "sm' = sm\<lparr>pool_state := s'\<rparr>"
    by (auto simp: pool_handle_event_def)
  show ?thesis
  proof (cases "\<exists>c. pe = PE_CheckCache c")
    case True
    with h sm' show ?thesis by (auto dest!: check_cache_cases dest: catchup_handler_waits)
  qed (use h sm' in \<open>cases pe; auto simp: handle_initialization_def\<close>)
next
  case PS_Terminated
  with assms show ?thesis
    by (cases pe) (auto simp: pool_handle_event_def handle_terminated_def dest: catchup_inv_refresh)
qed (use assms in \<open>auto simp: pool_handle_event_def dest: catchup_inv_getting catchup_inv_sync catchup_inv_active\<close>)

lemma catchup_inv_loop:
  assumes "pool_loop (request_handler_impl env checks fuel) env fs sm pes = Some (Ok (fin, sm', fx, fs'))"
    and "catchup_inv env (pool_state sm)" and "list_all external_event pes"
  shows "catchup_inv env (pool_state sm')"
  using assms
proof (induction pes arbitrary: fs sm fx)
  case (Cons pe pes)
  then obtain sm1 fx1 fs1 fx2 where h: "pool_handle_event (request_handler_impl env checks fuel) env fs sm pe = Some (Ok (sm1, fx1, fs1))"
    and l: "pool_loop (request_handler_impl env checks fuel) env fs1 sm1 pes = Some (Ok (fin, sm', fx2, fs'))"
    by auto
  have "catchup_inv env (pool_state sm1)" using catchup_inv_step [OF h] Cons.prems(2,3) by simp
  with Cons.IH [OF l] Cons.prems(3) show ?case by simp
qed simp

section \<open>Votes on the target\<close>

fun target_vote :: "RequestEvent \<Rightarrow> (vote \<times> string) option" where
  "target_vote (RE_LedgerStatus ls (Some n) _) = Some ((ls_merkleRoot ls, ls_txnSeqNo ls, None), n)"
| "target_vote (RE_ConsistencyProof cp n) = Some ((cp_newMerkleRoot cp, cp_seqNoEnd cp, Some (cp_hashes cp)), n)"
| "target_vote (RE_Timeout _ n) = Some ((''timeout'', 0, None), n)"
| "target_vote _ = None"

definition target_ballot :: "RequestEvent \<Rightarrow> (vote \<times> string) list" where
  "target_ballot re = (case target_vote re of Some v \<Rightarrow> [v] | None \<Rightarrow> [])"

definition target_voters :: "RequestEvent list \<Rightarrow> vote \<Rightarrow> string set" where
  "target_voters res key = {n. \<exists>re \<in> set res. target_vote re = Some (key, n)}"

abbreviation count_targets :: "(vote \<times> string) list \<Rightarrow> (vote \<times> string list) list" where
  "count_targets bs \<equiv> fold (\<lambda>(k, n) m. add_vote m k n) bs []"

lemma in_target_ballot: "(key, n) \<in> set (target_ballot re) \<longleftrightarrow> target_vote re = Some (key, n)"
  by (cases "target_vote re") (auto simp: target_ballot_def)

lemma target_voters_ballots: "target_voters res key = {n. (key, n) \<in> set (concat (map target_ballot res))}"
  by (simp add: target_voters_def in_target_ballot)

lemma hm_wf_fold: "hm_wf m \<Longrightarrow> hm_wf (fold (\<lambda>(k, n) m. add_vote m k n) bs m)"
  by (induction bs arbitrary: m) (auto simp: add_vote_def)

lemma count_targets_voters:
  assumes "(key, voters) \<in> set (count_targets (concat (map target_ballot res)))"
  shows "length voters = card (target_voters res key)"
proof -
  let ?m = "count_targets (concat (map target_ballot res))"
  have "hm_get ?m key = Some voters"
    using assms hm_wf_fold [of "[]"] by (intro hm_get_member) (simp add: hm_wf_def)
  with name_votes.length_voters_fold [of "concat (map target_ballot res)" key] show ?thesis
    by (simp add: target_voters_ballots unwrap_or_def)
qed

lemma catchup_consensus_step:
  assumes "handle_catchup_consensus env checks fs sm cc re = Some (Ok (s, e, fx, fs'))"
  shows "s = RS_CatchupConsensus cc' \<Longrightarrow>
      cc_replies cc' = fold (\<lambda>(k, n) m. add_vote m k n) (target_ballot re) (cc_replies cc)"
    and "e = Some (PE_CatchupTargetFound root k mt) \<Longrightarrow> \<exists>key voters.
      (key, voters) \<in> set (fold (\<lambda>(k, n) m. add_vote m k n) (target_ballot re) (cc_replies cc)) \<and>
      length voters = sm_f sm + 1 \<and> env_from_b58 env (fst key) = Some root \<and> fst (snd key) = k"
proof -
  consider (vote) key n rid where "target_vote re = Some (key, n)"
      "catchup_target_handle_consensus_state env checks fs sm cc key n rid = Some (Ok (s, e, fx, fs'))"
    | (other) "target_vote re = None" "s = RS_CatchupConsensus cc \<or> s = RS_Finish" "e = None"
    using assms by (cases re) (auto simp: handle_catchup_consensus_def split: option.splits)
  note split = this
  show "cc_replies cc' = fold (\<lambda>(k, n) m. add_vote m k n) (target_ballot re) (cc_replies cc)"
    if "s = RS_CatchupConsensus cc'"
    using that by (cases rule: split) (auto simp: target_ballot_def catchup_target_handle_consensus_state_def
        process_catchup_target_def Let_def split: prod.splits outcome.splits bool.splits option.splits
        PoolEvent.splits CatchupProgress.splits)
  show "\<exists>key voters. (key, voters) \<in> set (fold (\<lambda>(k, n) m. add_vote m k n) (target_ballot re) (cc_replies cc)) \<and>
      length voters = sm_f sm + 1 \<and> env_from_b58 env (fst key) = Some root \<and> fst (snd key) = k"
    if e: "e = Some (PE_CatchupTargetFound root k mt)"
  proof (cases rule: split)
    case vote
    let ?votes = "add_vote (cc_replies cc) key n"
    have "check_nodes_responses_on_status env checks fs ?votes (cc_merkle_tree cc) (length (sm_nodes sm)) (sm_f sm) =
        (Ok (ShouldBeStarted root k mt), fs')"
      using vote(2) e by (auto simp: catchup_target_handle_consensus_state_def process_catchup_target_def Let_def
          split: prod.splits outcome.splits bool.splits option.splits PoolEvent.splits CatchupProgress.splits)
    from started_needs_votes [OF this] obtain key' voters where "(key', voters) \<in> set ?votes"
      "length voters = sm_f sm + 1" "try_to_catch_up env key' mt = Ok (ShouldBeStarted root k mt)"
      by metis
    with try_to_catch_up_started(2,3) [OF this(3)] vote(1) show ?thesis
      by (intro exI [of _ key'] exI [of _ voters]) (simp add: target_ballot_def)
  qed (use e in simp)
qed

lemma catchup_consensus_run:
  assumes "run_events env checks fuel fs sm res = Some (Ok (sm', es, fx, fs'))"
    and "sm_state sm = RS_CatchupConsensus cc"
    and "cc_replies cc = count_targets (concat (map target_ballot hist))"
    and "Some (PE_CatchupTargetFound root k mt) \<in> set es"
  shows "\<exists>key. env_from_b58 env (fst key) = Some root \<and> fst (snd key) = k \<and>
    sm_f sm < card (target_voters (hist @ res) key)"
  using assms
proof (induction res arbitrary: sm fs es fx cc hist)
  case (Cons re res)
  from Cons.prems(1) obtain s e fx1 fs1 es2 fx2
    where h: "handle_event env checks fuel fs sm re = Some (Ok (s, e, fx1, fs1))"
      and r: "run_events env checks fuel fs1 (sm\<lparr>sm_state := s\<rparr>) res = Some (Ok (sm', es2, fx2, fs'))"
      and es: "es = e # es2"
    by (rule run_events_ConsE)
  have c: "handle_catchup_consensus env checks fs sm cc re = Some (Ok (s, e, fx1, fs1))"
    using h Cons.prems(2) by (simp add: handle_event_def)
  have votes: "fold (\<lambda>(k, n) m. add_vote m k n) (target_ballot re) (cc_replies cc) =
      count_targets (concat (map target_ballot (hist @ [re])))"
    using Cons.prems(3) by simp
  show ?case
  proof (cases "e = Some (PE_CatchupTargetFound root k mt)")
    case True
    from catchup_consensus_step(2) [OF c True] votes obtain key voters where
      v: "(key, voters) \<in> set (count_targets (concat (map target_ballot (hist @ [re]))))"
      "length voters = sm_f sm + 1" "env_from_b58 env (fst key) = Some root" "fst (snd key) = k"
      by auto
    have "card (target_voters (hist @ [re]) key) \<le> card (target_voters (hist @ re # res) key)"
    proof (rule card_mono)
      show "finite (target_voters (hist @ re # res) key)"
        by (rule finite_subset [of _ "snd ` set (concat (map target_ballot (hist @ re # res)))"])
          (force simp: target_voters_ballots)+
    qed (auto simp: target_voters_def)
    with count_targets_voters [OF v(1)] v(2) have "sm_f sm < card (target_voters (hist @ re # res) key)" by simp
    with v(3,4) show ?thesis by blast
  next
    case False
    with Cons.prems(4) es have e2: "Some (PE_CatchupTargetFound root k mt) \<in> set es2" by auto
    then have "s \<noteq> RS_Finish"
      using r run_events_Finish [of "sm\<lparr>sm_state := s\<rparr>" env checks fuel fs1 res] by auto
    with c obtain cc' where s: "s = RS_CatchupConsensus cc'"
      by (cases re) (auto simp: handle_catchup_consensus_def catchup_target_handle_consensus_state_def
          split: prod.splits outcome.splits bool.splits option.splits PoolEvent.splits)
    from Cons.IH [OF r, of cc' "hist @ [re]"] catchup_consensus_step(1) [OF c s] votes s e2 show ?thesis by simp
  qed
qed simp

section \<open>A sample catch-up\<close>

text \<open>A pool with an empty ledger that is told of a ledger of one transaction.\<close>

definition sample_target :: string where
  "sample_target = env_to_b58 sample_pool_env (root_hash sample_tree)"

definition sample_sync_env :: PoolThreadEnv where
  "sample_sync_env = sample_thread_env\<lparr>env_message := \<lambda>m. Some (if m = ''s''
     then Message_LedgerStatus (sample_status\<lparr>ls_merkleRoot := sample_target, ls_txnSeqNo := 1\<rparr>)
     else Message_CatchupRep \<lparr>rep_ledgerId = 0, rep_consProof = [], rep_txns = []\<rparr>)\<rparr>"

abbreviation sample_sync_ops :: "RequestHandlerImpl RequestHandlerOps" where
  "sample_sync_ops \<equiv> request_handler_impl sample_sync_env True 0"

lemma sample_sync_env_simps [simp]:
  "env_message sample_sync_env = (\<lambda>m. Some (if m = ''s''
     then Message_LedgerStatus (sample_status\<lparr>ls_merkleRoot := sample_target, ls_txnSeqNo := 1\<rparr>)
     else Message_CatchupRep \<lparr>rep_ledgerId = 0, rep_consProof = [], rep_txns = []\<rparr>))"
  "env_from_b58 sample_sync_env = (\<lambda>s. Some (str_bytes s))"
  "env_sha256 sample_sync_env = env_sha256 sample_pool_env"
  by (simp_all add: sample_sync_env_def sample_thread_env_def sample_request_env_def sample_pool_env_def
      sample_env_def SPEnv.defs PoolEnv.defs RequestEnv.defs PoolThreadEnv.defs)

lemma byte_of_char: "of_char (char_of (unat b)) = (b :: 8 word)"
proof -
  have "unat b mod 256 = unat b" using unsigned_less [of b, where ?'a = nat] by simp
  moreover have "of_char (char_of (unat b)) = (of_nat (of_char (char_of (unat b))) :: 8 word)"
    by (rule of_nat_of_char [symmetric])
  ultimately show ?thesis by simp
qed

lemma bytes_of_chars: "str_bytes (map (\<lambda>b. char_of (unat b)) bs) = bs"
  by (induction bs) (simp_all add: str_bytes_def byte_of_char)

lemma sample_target_bytes [simp]: "str_bytes sample_target = root_hash sample_tree" "sample_target \<noteq> ''timeout''"
proof -
  have "length (root_hash sample_tree) = 32"
    by (simp add: sample_tree_def root_hash_def new_leaf_def hash_leaf_def)
  then have "length sample_target \<noteq> length ''timeout''" by (simp add: sample_target_def)
  then show "sample_target \<noteq> ''timeout''" by (rule contrapos_nn) (rule arg_cong)
qed (simp add: sample_target_def bytes_of_chars)

definition sample_ct :: CatchupSingleState where
  "sample_ct = \<lparr>ct_target_mt_root = root_hash sample_tree, ct_target_mt_size = 1,
     ct_merkle_tree = mt_default, ct_req_id = ''11''\<rparr>"

definition sample_sync :: "RequestHandlerImpl SyncCatchupState" where
  "sample_sync = \<lparr>sc_request_handler = \<lparr>request_wrapper = Some ((request_sm_new 0 [] [] 10 20 2)
     \<lparr>sm_state := RS_CatchupSingle sample_ct\<rparr>)\<rparr>, sc_cmd_id = 3, sc_refresh = False\<rparr>"

lemma sample_sync_ledger:
  "get_nodes_and_remotes sample_sync_env mt_default = Ok ([], [])"
  "open_ledger sample_sync_env sample_files = (Ok (mt_default, [], []), sample_files)"
proof -
  have "iter_collect (mt_iter mt_default) = []"
    by (simp add: mt_default_def mt_iter_def iter_new_def iter_collect.simps iter_next_def)
  then show n: "get_nodes_and_remotes sample_sync_env mt_default = Ok ([], [])"
    by (simp add: get_nodes_and_remotes_def build_node_state_def)
  show "open_ledger sample_sync_env sample_files = (Ok (mt_default, [], []), sample_files)"
    by (simp add: open_ledger_def n create_def sample_files_def from_cache_def from_vec_Nil from_cache_loop.simps)
qed

lemma sample_sync_started:
  "\<exists>fx. pool_handle_event sample_sync_ops sample_sync_env sample_files (pool_sm_new 5 10 20 2) (PE_CheckCache 3) =
     Some (Ok ((pool_sm_new 5 10 20 2)\<lparr>pool_state := PS_GettingCatchupTarget
       \<lparr>gc_request_handler = sample_catchup, gc_cmd_id = 3, gc_refresh = False\<rparr>\<rparr>, fx, sample_files))"
  by (simp add: pool_handle_event_def handle_initialization_def get_request_handler_with_ledger_status_sent_def
      sample_sync_ledger request_handler_impl_def rh_new_def rh_process_event_def handle_event_def handle_start_def
      request_sm_new_def pool_sm_new_def get_f_def sample_catchup_def)

lemma sample_sync_target:
  "\<exists>fx. pool_handle_event sample_sync_ops sample_sync_env sample_files
     ((pool_sm_new 5 10 20 2)\<lparr>pool_state := PS_GettingCatchupTarget
       \<lparr>gc_request_handler = sample_catchup, gc_cmd_id = 3, gc_refresh = False\<rparr>\<rparr>) (PE_NodeReply ''s'' ''n1'') =
     Some (Ok ((pool_sm_new 5 10 20 2)\<lparr>pool_state := PS_SyncCatchup sample_sync\<rparr>, fx, sample_files))"
  by (simp add: pool_handle_event_def handle_getting_catchup_target_def request_handler_impl_def rh_process_event_def
      from_raw_str_def sample_catchup_def request_sm_new_def handle_event_def handle_catchup_consensus_def
      catchup_target_handle_consensus_state_def process_catchup_target_def add_vote_def
      check_nodes_responses_on_status_def try_to_catch_up_def sample_status_def unwrap_or_def
      sample_sync_ledger pool_sm_new_def Let_def default_tree rh_new_def handle_start_def build_catchup_req_def
      get_f_def sample_sync_def sample_ct_def)

lemma sample_sync_reply:
  "\<exists>fx. pool_handle_event sample_sync_ops sample_sync_env sample_files
     ((pool_sm_new 5 10 20 2)\<lparr>pool_state := PS_SyncCatchup sample_sync\<rparr>) (PE_NodeReply ''c'' ''n1'') =
     Some (Ok ((pool_sm_new 5 10 20 2)\<lparr>pool_state := PS_Active \<lparr>ac_request_handlers = [], ac_nodes = []\<rparr>\<rparr>,
       fx, sample_files))"
proof -
  have "check_cons_proofs sample_sync_env mt_default [] (root_hash sample_tree) (Suc 0) = Ok ()"
    by (simp add: check_cons_proofs_def consistency_proof_def default_tree)
  then show ?thesis
  by (simp add: pool_handle_event_def handle_sync_catchup_def request_handler_impl_def rh_process_event_def
      from_raw_str_def sample_sync_def sample_ct_def request_sm_new_def handle_event_def handle_catchup_single_def
      process_catchup_reply_def replay_txns.simps dump_new_txns_def dump_vec_def sample_files_def
      unwrap_or_def sample_sync_ledger pool_sm_new_def Let_def)
qed

lemma sample_sync_run:
  "\<exists>fx. pool_loop sample_sync_ops sample_sync_env sample_files (pool_sm_new 5 10 20 2)
     [PE_CheckCache 3, PE_NodeReply ''s'' ''n1''] =
     Some (Ok (False, (pool_sm_new 5 10 20 2)\<lparr>pool_state := PS_SyncCatchup sample_sync\<rparr>, fx, sample_files))"
  using sample_sync_started sample_sync_target by fastforce

section \<open>Properties\<close>

text \<open>
  C21: The target of a catch-up was reported by more than \<open>f\<close> different nodes: over any sequence
  of events, a handler that was started with a ledger status announces a target only when more
  than \<open>f\<close> nodes sent a ledger status or a consistency proof with this root and size.
\<close>

theorem catchup_target_quorum:
  assumes "run_events env checks fuel fs (request_sm_new f cmd_ids nodes timeout extended_timeout read_nodes)
      (RE_LedgerStatus ls sender (Some mt0) # res) = Some (Ok (sm', es, fx, fs'))"
    and "Some (PE_CatchupTargetFound root k mt) \<in> set es"
  shows "\<exists>key. env_from_b58 env (fst key) = Some root \<and> fst (snd key) = k \<and>
    f < card (target_voters res key)"
proof -
  let ?sm = "request_sm_new f cmd_ids nodes timeout extended_timeout read_nodes"
  let ?cc = "\<lparr>cc_replies = [], cc_merkle_tree = mt0\<rparr>"
  obtain es2 fx2 where r: "run_events env checks fuel fs (?sm\<lparr>sm_state := RS_CatchupConsensus ?cc\<rparr>) res =
      Some (Ok (sm', es2, fx2, fs'))" and "Some (PE_CatchupTargetFound root k mt) \<in> set es2"
    using assms by (fastforce simp: handle_event_def handle_start_def request_sm_new_def)
  with catchup_consensus_run [OF r, of ?cc "[]"] show ?thesis by (simp add: request_sm_new_def)
qed

theorem catchup_target_quorum_witness:
  "\<exists>sm' es fx fs' mt. run_events sample_request_env True 0 sample_files (request_sm_new 0 [] [] 10 20 2)
     [RE_LedgerStatus sample_status None (Some mt_default),
      RE_LedgerStatus (sample_status\<lparr>ls_merkleRoot := ''r'', ls_txnSeqNo := 1\<rparr>) (Some ''n1'') None] =
     Some (Ok (sm', es, fx, fs')) \<and> Some (PE_CatchupTargetFound (str_bytes ''r'') 1 mt) \<in> set es \<and>
   (\<exists>key. 0 < card (target_voters
      [RE_LedgerStatus (sample_status\<lparr>ls_merkleRoot := ''r'', ls_txnSeqNo := 1\<rparr>) (Some ''n1'') None] key))"
proof -
  have b: "env_from_b58 sample_request_env = (\<lambda>s. Some (str_bytes s))"
    by (simp add: sample_request_env_def sample_pool_env_def sample_env_def SPEnv.defs PoolEnv.defs RequestEnv.defs)
  have "\<exists>sm' es fx fs' mt. run_events sample_request_env True 0 sample_files (request_sm_new 0 [] [] 10 20 2)
     [RE_LedgerStatus sample_status None (Some mt_default),
      RE_LedgerStatus (sample_status\<lparr>ls_merkleRoot := ''r'', ls_txnSeqNo := 1\<rparr>) (Some ''n1'') None] =
     Some (Ok (sm', es, fx, fs')) \<and> Some (PE_CatchupTargetFound (str_bytes ''r'') 1 mt) \<in> set es"
    by (simp add: handle_event_def handle_start_def request_sm_new_def handle_catchup_consensus_def
        catchup_target_handle_consensus_state_def process_catchup_target_def add_vote_def unwrap_or_def
        check_nodes_responses_on_status_def try_to_catch_up_def default_tree b Let_def)
  then obtain sm' es fx fs' mt where r: "run_events sample_request_env True 0 sample_files
      (request_sm_new 0 [] [] 10 20 2) [RE_LedgerStatus sample_status None (Some mt_default),
      RE_LedgerStatus (sample_status\<lparr>ls_merkleRoot := ''r'', ls_txnSeqNo := 1\<rparr>) (Some ''n1'') None] =
     Some (Ok (sm', es, fx, fs'))" and e: "Some (PE_CatchupTargetFound (str_bytes ''r'') 1 mt) \<in> set es"
    by blast
  from catchup_target_quorum [OF r e] r e show ?thesis by blast
qed

text \<open>
  A pool never waits for transactions it already has: in every state reached by events from
  outside, the handler of a running catch-up has asked for a target that is larger
  than its tree, and its tree is the tree of a transaction list.
\<close>

theorem sync_catchup_waits:
  assumes "pool_loop (request_handler_impl env checks fuel) env fs
      (pool_sm_new i timeout extended_timeout read_nodes) pes = Some (Ok (fin, sm, fx, fs'))"
    and "list_all external_event pes" and "pool_state sm = PS_SyncCatchup st"
  shows "\<exists>w ct. request_wrapper (sc_request_handler st) = Some w \<and> sm_state w = RS_CatchupSingle ct \<and>
    tree_ok env (ct_merkle_tree ct) \<and> mt_count (ct_merkle_tree ct) < ct_target_mt_size ct"
proof -
  have "catchup_inv env (pool_state (pool_sm_new i timeout extended_timeout read_nodes))"
    by (simp add: pool_sm_new_def)
  from catchup_inv_loop [OF assms(1) this assms(2)] assms(3) show ?thesis by (simp add: waiting_reply_def)
qed

theorem sync_catchup_waits_witness:
  "\<exists>fx. pool_loop sample_sync_ops sample_sync_env sample_files (pool_sm_new 5 10 20 2)
     [PE_CheckCache 3, PE_NodeReply ''s'' ''n1''] =
     Some (Ok (False, (pool_sm_new 5 10 20 2)\<lparr>pool_state := PS_SyncCatchup sample_sync\<rparr>, fx, sample_files)) \<and>
   (\<exists>w ct. request_wrapper (sc_request_handler sample_sync) = Some w \<and> sm_state w = RS_CatchupSingle ct \<and>
    tree_ok sample_sync_env (ct_merkle_tree ct) \<and> mt_count (ct_merkle_tree ct) < ct_target_mt_size ct)"
proof -
  obtain fx where r: "pool_loop sample_sync_ops sample_sync_env sample_files (pool_sm_new 5 10 20 2)
      [PE_CheckCache 3, PE_NodeReply ''s'' ''n1''] =
      Some (Ok (False, (pool_sm_new 5 10 20 2)\<lparr>pool_state := PS_SyncCatchup sample_sync\<rparr>, fx, sample_files))"
    using sample_sync_run by blast
  have "\<exists>w ct. request_wrapper (sc_request_handler sample_sync) = Some w \<and> sm_state w = RS_CatchupSingle ct \<and>
      tree_ok sample_sync_env (ct_merkle_tree ct) \<and> mt_count (ct_merkle_tree ct) < ct_target_mt_size ct"
    by (rule sync_catchup_waits [OF r]) simp_all
  with r show ?thesis by blast
qed



text \<open>
  A catch-up reply need not contain any transaction: whatever the target, the reply without
  transactions and with a genuine consistency proof of the local tree is accepted, and the pool
  is told that it is synchronised although its ledger has not grown.
\<close>

theorem empty_catchup_reply_accepted:
  assumes "from_vec (env_sha256 env) vs = Ok merkle" and "from_vec (env_sha256 env) (vs @ new_txns) = Ok target"
    and "stored_btxn fs = Some cache" and "\<And>b. \<exists>text. env_from_b58 env text = Some b"
  shows "\<exists>rep. rep_txns rep = [] \<and>
    process_catchup_reply env fs rep merkle (root_hash target) (length (vs @ new_txns)) = (Ok merkle, fs)"
proof -
  obtain pf where pf: "consistency_proof (env_sha256 env) merkle (root_hash target) (length (vs @ new_txns)) pf = Ok True"
    using consistency_proof_exists [OF assms(1,2)] by blast
  define enc where "enc b = (SOME s. env_from_b58 env s = Some b)" for b
  have enc: "env_from_b58 env (enc b) = Some b" for b
    using assms(4) [of b] unfolding enc_def by (rule someI_ex)
  have "map_outcome_list (\<lambda>p. ok_or InvalidStructure (env_from_b58 env p)) (map enc pf) = Ok pf"
    by (induction pf) (simp_all add: enc)
  then have "check_cons_proofs env merkle (map enc pf) (root_hash target) (length (vs @ new_txns)) = Ok ()"
    using pf by (simp add: check_cons_proofs_def)
  moreover have "dump_new_txns (env_from_str env) (env_rmp_named env) fs [] = (Ok (), fs)"
    using assms(3) by (simp add: dump_new_txns_def dump_vec_def)
  ultimately have "process_catchup_reply env fs \<lparr>rep_ledgerId = 0, rep_consProof = map enc pf, rep_txns = []\<rparr> merkle
      (root_hash target) (length (vs @ new_txns)) = (Ok merkle, fs)"
    by (simp add: process_catchup_reply_def replay_txns.simps)
  then show ?thesis by (intro exI [of _ "\<lparr>rep_ledgerId = 0, rep_consProof = map enc pf, rep_txns = []\<rparr>"]) simp
qed

theorem empty_catchup_reply_accepted_witness:
  "\<exists>rep. rep_txns rep = [] \<and>
    process_catchup_reply sample_pool_env sample_files rep mt_default (root_hash sample_tree) 1 =
      (Ok mt_default, sample_files)"
proof -
  have "\<exists>txt. env_from_b58 sample_pool_env txt = Some b" for b
    by (rule exI [of _ "map (\<lambda>b. char_of (unat b)) b"]) (simp add: bytes_of_chars)
  moreover have "stored_btxn sample_files = Some []" by (simp add: sample_files_def)
  ultimately show ?thesis
    using empty_catchup_reply_accepted [of sample_pool_env "[]" mt_default "[[5]]" sample_tree sample_files "[]"]
      sample_tree_from_vec from_vec_Nil by simp
qed

end
