(* ===== verification/Wql.thy ===== *)
theory Wql
  imports Json_Value "HOL-Library.Char_ord" "HOL-Library.List_Lexorder"
begin

text \<open>
  The wallet query language (\<open>indy-utils/src/wql.rs\<close>): queries, their JSON form in both
  directions, the old restriction format, and \<open>optimise\<close>. A parse error is the message of the
  source, the left case of a sum.

  The meaning of a query is given by \<open>query_matches\<close>: the tags of a record are a map, an atom
  holds when the tag exists and its value compares as asked, and a conjunction or disjunction
  without operands restricts nothing, as the JSON object \<open>{}\<close> both are printed to. Values are
  compared byte by byte; the pattern relation of \<open>$like\<close> is a parameter.
\<close>

section \<open>Queries\<close>

datatype Query =
    Q_And "Query list"
  | Q_Or "Query list"
  | Q_Not Query
  | Q_Eq string string
  | Q_Neq string string
  | Q_Gt string string
  | Q_Gte string string
  | Q_Lt string string
  | Q_Lte string string
  | Q_Like string string
  | Q_In string "string list"

definition query_default :: Query where
  "query_default = Q_And []"

lemma map_filter_cong [fundef_cong]:
  "xs = ys \<Longrightarrow> (\<And>x. x \<in> set ys \<Longrightarrow> f x = g x) \<Longrightarrow> List.map_filter f xs = List.map_filter g ys"
  by (auto simp: List.map_filter_def intro!: map_cong filter_cong)

fun optimise :: "Query \<Rightarrow> Query option" where
  "optimise (Q_Not q) = (case q of Q_Not nested \<Rightarrow> Some nested | _ \<Rightarrow> Some (Q_Not q))"
| "optimise (Q_And []) = None"
| "optimise (Q_And [q]) = optimise q"
| "optimise (Q_And (q1 # q2 # qs)) =
     (case List.map_filter optimise (q1 # q2 # qs) of
        [] \<Rightarrow> None
      | [q] \<Rightarrow> Some q
      | suboperators \<Rightarrow> Some (Q_And suboperators))"
| "optimise (Q_Or []) = None"
| "optimise (Q_Or [q]) = optimise q"
| "optimise (Q_Or (q1 # q2 # qs)) =
     (case List.map_filter optimise (q1 # q2 # qs) of
        [] \<Rightarrow> None
      | [q] \<Rightarrow> Some q
      | suboperators \<Rightarrow> Some (Q_Or suboperators))"
| "optimise (Q_In key [target]) = Some (Q_Eq key target)"
| "optimise q = Some q"

section \<open>JSON\<close>

fun to_value :: "Query \<Rightarrow> SJsonValue" where
  "to_value (Q_Eq tag_name tag_value) = Value_Object [(tag_name, Value_String tag_value)]"
| "to_value (Q_Neq tag_name tag_value) = Value_Object [(tag_name, Value_Object [(''$neq'', Value_String tag_value)])]"
| "to_value (Q_Gt tag_name tag_value) = Value_Object [(tag_name, Value_Object [(''$gt'', Value_String tag_value)])]"
| "to_value (Q_Gte tag_name tag_value) = Value_Object [(tag_name, Value_Object [(''$gte'', Value_String tag_value)])]"
| "to_value (Q_Lt tag_name tag_value) = Value_Object [(tag_name, Value_Object [(''$lt'', Value_String tag_value)])]"
| "to_value (Q_Lte tag_name tag_value) = Value_Object [(tag_name, Value_Object [(''$lte'', Value_String tag_value)])]"
| "to_value (Q_Like tag_name tag_value) = Value_Object [(tag_name, Value_Object [(''$like'', Value_String tag_value)])]"
| "to_value (Q_In tag_name tag_values) =
     Value_Object [(tag_name, Value_Object [(''$in'', Value_Array (map Value_String tag_values))])]"
| "to_value (Q_And operators) =
     (if operators \<noteq> [] then Value_Object [(''$and'', Value_Array (map to_value operators))] else Value_Object [])"
| "to_value (Q_Or operators) =
     (if operators \<noteq> [] then Value_Object [(''$or'', Value_Array (map to_value operators))] else Value_Object [])"
| "to_value (Q_Not stmt) = Value_Object [(''$not'', to_value stmt)]"

text \<open>The question mark operator on \<open>Result<T, &'static str>\<close>.\<close>

fun try_ok :: "string + 'a \<Rightarrow> ('a \<Rightarrow> string + 'b) \<Rightarrow> string + 'b" where
  "try_ok (Inl e) f = Inl e"
| "try_ok (Inr x) f = f x"

lemma try_ok_cong [fundef_cong]:
  "m = m' \<Longrightarrow> (\<And>x. m' = Inr x \<Longrightarrow> f x = g x) \<Longrightarrow> try_ok m f = try_ok m' g"
  by (cases m') auto

fun in_values :: "SJsonValue list \<Rightarrow> string + string list" where
  "in_values [] = Inr []"
| "in_values (v # vs) =
     (case v of
        Value_String s \<Rightarrow> try_ok (in_values vs) (\<lambda>ss. Inr (s # ss))
      | _ \<Rightarrow> Inl ''$in must be used with array of strings'')"

definition parse_single_operator :: "string \<Rightarrow> string \<Rightarrow> SJsonValue \<Rightarrow> string + Query" where
  "parse_single_operator operator_name key v =
     (if operator_name = ''$neq'' then
        (case v of Value_String s \<Rightarrow> Inr (Q_Neq key s) | _ \<Rightarrow> Inl ''$neq must be used with string'')
      else if operator_name = ''$gt'' then
        (case v of Value_String s \<Rightarrow> Inr (Q_Gt key s) | _ \<Rightarrow> Inl ''$gt must be used with string'')
      else if operator_name = ''$gte'' then
        (case v of Value_String s \<Rightarrow> Inr (Q_Gte key s) | _ \<Rightarrow> Inl ''$gte must be used with string'')
      else if operator_name = ''$lt'' then
        (case v of Value_String s \<Rightarrow> Inr (Q_Lt key s) | _ \<Rightarrow> Inl ''$lt must be used with string'')
      else if operator_name = ''$lte'' then
        (case v of Value_String s \<Rightarrow> Inr (Q_Lte key s) | _ \<Rightarrow> Inl ''$lte must be used with string'')
      else if operator_name = ''$like'' then
        (case v of Value_String s \<Rightarrow> Inr (Q_Like key s) | _ \<Rightarrow> Inl ''$like must be used with string'')
      else if operator_name = ''$in'' then
        (case v of
           Value_Array values \<Rightarrow> try_ok (in_values values) (\<lambda>target_values. Inr (Q_In key target_values))
         | _ \<Rightarrow> Inl ''$in must be used with array of strings'')
      else Inl ''Unknown operator'')"

text \<open>The last step of \<open>parse_query\<close>: a single operator stands for itself.\<close>

fun query_of :: "Query list \<Rightarrow> Query" where
  "query_of [q] = q"
| "query_of qs = Q_And qs"

text \<open>
  \<open>parse_entries\<close> is the loop of \<open>parse_query\<close> over the entries of the object.
\<close>

function (sequential)
  parse_entries :: "(string \<times> SJsonValue) list \<Rightarrow> string + Query list" and
  parse_operator :: "string \<Rightarrow> SJsonValue \<Rightarrow> string + Query option" and
  parse_list_operators :: "SJsonValue list \<Rightarrow> string + Query list" where
  "parse_entries [] = Inr []"
| "parse_entries ((key, v) # m) =
     try_ok (parse_operator key v) (\<lambda>operator.
     try_ok (parse_entries m) (\<lambda>operators.
       Inr (case operator of Some q \<Rightarrow> q # operators | None \<Rightarrow> operators)))"
| "parse_operator key v =
     (if key = ''$and'' then
        (case v of
           Value_Array values \<Rightarrow>
             if values = [] then Inr None
             else try_ok (parse_list_operators values) (\<lambda>operators. Inr (Some (Q_And operators)))
         | _ \<Rightarrow> Inl ''$and must be array of JSON objects'')
      else if key = ''$or'' then
        (case v of
           Value_Array values \<Rightarrow>
             if values = [] then Inr None
             else try_ok (parse_list_operators values) (\<lambda>operators. Inr (Some (Q_Or operators)))
         | _ \<Rightarrow> Inl ''$or must be array of JSON objects'')
      else if key = ''$not'' then
        (case v of
           Value_Object m \<Rightarrow> try_ok (parse_entries m) (\<lambda>operators. Inr (Some (Q_Not (query_of operators))))
         | _ \<Rightarrow> Inl ''$not must be JSON object'')
      else
        (case v of
           Value_String s \<Rightarrow> Inr (Some (Q_Eq key s))
         | Value_Object m \<Rightarrow>
             (case m of
                [(operator_name, w)] \<Rightarrow> try_ok (parse_single_operator operator_name key w) (\<lambda>q. Inr (Some q))
              | _ \<Rightarrow> Inl ''value must be JSON object of length 1'')
         | _ \<Rightarrow> Inl ''Unsupported value''))"
| "parse_list_operators [] = Inr []"
| "parse_list_operators (v # vs) =
     (case v of
        Value_Object m \<Rightarrow>
          try_ok (parse_entries m) (\<lambda>operators.
          try_ok (parse_list_operators vs) (\<lambda>qs. Inr (query_of operators # qs)))
      | _ \<Rightarrow> Inl ''operator must be array of JSON objects'')"
  by pat_completeness auto
termination
  by (relation "measure (\<lambda>x. case x of
        Inl m \<Rightarrow> size_list (size_prod (\<lambda>_. 0) size) m
      | Inr (Inl (k, v)) \<Rightarrow> size v
      | Inr (Inr vs) \<Rightarrow> size_list size vs)") auto

definition parse_query :: "(string \<times> SJsonValue) list \<Rightarrow> string + Query" where
  "parse_query m = try_ok (parse_entries m) (\<lambda>operators. Inr (query_of operators))"

text \<open>The restrictions of the old format, an array of objects, without their null entries.\<close>

fun old_restrictions :: "SJsonValue list \<Rightarrow> string + SJsonValue list" where
  "old_restrictions [] = Inr []"
| "old_restrictions (sub_query # rest) =
     (case as_object sub_query of
        None \<Rightarrow> Inl ''Restriction is invalid''
      | Some m \<Rightarrow>
          let sub_query = filter (\<lambda>(_, v). \<not> is_null v) m in
          try_ok (old_restrictions rest) (\<lambda>res.
            Inr (if sub_query \<noteq> [] then Value_Object sub_query # res else res)))"

fun query_deserialize :: "SJsonValue \<Rightarrow> string + Query" where
  "query_deserialize (Value_Object m) = parse_query m"
| "query_deserialize (Value_Array array) =
     try_ok (old_restrictions array) (\<lambda>res. parse_query [(''$or'', Value_Array res)])"
| "query_deserialize _ = Inl ''Restriction must be either object or array''"

section \<open>The meaning of a query\<close>

type_synonym tag_map = "string \<Rightarrow> string option"

definition tag_holds :: "tag_map \<Rightarrow> string \<Rightarrow> (string \<Rightarrow> bool) \<Rightarrow> bool" where
  "tag_holds t n P = (case t n of None \<Rightarrow> False | Some w \<Rightarrow> P w)"

fun query_matches :: "(string \<Rightarrow> string \<Rightarrow> bool) \<Rightarrow> tag_map \<Rightarrow> Query \<Rightarrow> bool" where
  "query_matches like t (Q_And qs) \<longleftrightarrow> list_all (query_matches like t) qs"
| "query_matches like t (Q_Or qs) \<longleftrightarrow> qs = [] \<or> list_ex (query_matches like t) qs"
| "query_matches like t (Q_Not q) \<longleftrightarrow> \<not> query_matches like t q"
| "query_matches like t (Q_Eq n v) \<longleftrightarrow> t n = Some v"
| "query_matches like t (Q_Neq n v) \<longleftrightarrow> tag_holds t n (\<lambda>w. w \<noteq> v)"
| "query_matches like t (Q_Gt n v) \<longleftrightarrow> tag_holds t n (\<lambda>w. v < w)"
| "query_matches like t (Q_Gte n v) \<longleftrightarrow> tag_holds t n (\<lambda>w. v \<le> w)"
| "query_matches like t (Q_Lt n v) \<longleftrightarrow> tag_holds t n (\<lambda>w. w < v)"
| "query_matches like t (Q_Lte n v) \<longleftrightarrow> tag_holds t n (\<lambda>w. w \<le> v)"
| "query_matches like t (Q_Like n v) \<longleftrightarrow> tag_holds t n (\<lambda>w. like w v)"
| "query_matches like t (Q_In n vs) \<longleftrightarrow> tag_holds t n (\<lambda>w. w \<in> set vs)"

lemma tag_holds_iff: "tag_holds t n P \<longleftrightarrow> (\<exists>w. t n = Some w \<and> P w)"
  by (simp add: tag_holds_def split: option.split)

lemma query_matches_empty [simp]: "query_matches like t query_default"
  by (simp add: query_default_def)

section \<open>Parsing what was printed\<close>

text \<open>Tag names that are not taken for a connective.\<close>

definition plain_name :: "string \<Rightarrow> bool" where
  "plain_name n \<longleftrightarrow> n \<noteq> ''$and'' \<and> n \<noteq> ''$or'' \<and> n \<noteq> ''$not''"

fun names_ok :: "Query \<Rightarrow> bool" where
  "names_ok (Q_And qs) = list_all names_ok qs"
| "names_ok (Q_Or qs) = list_all names_ok qs"
| "names_ok (Q_Not q) = names_ok q"
| "names_ok (Q_Eq n v) = plain_name n"
| "names_ok (Q_Neq n v) = plain_name n"
| "names_ok (Q_Gt n v) = plain_name n"
| "names_ok (Q_Gte n v) = plain_name n"
| "names_ok (Q_Lt n v) = plain_name n"
| "names_ok (Q_Lte n v) = plain_name n"
| "names_ok (Q_Like n v) = plain_name n"
| "names_ok (Q_In n vs) = plain_name n"

text \<open>The two printings of \<open>{}\<close> are read as the empty conjunction.\<close>

fun canonical_query :: "Query \<Rightarrow> Query" where
  "canonical_query (Q_And qs) = Q_And (map canonical_query qs)"
| "canonical_query (Q_Or []) = Q_And []"
| "canonical_query (Q_Or (q # qs)) = Q_Or (map canonical_query (q # qs))"
| "canonical_query (Q_Not q) = Q_Not (canonical_query q)"
| "canonical_query q = q"

lemma in_values_strings: "in_values (map Value_String ss) = Inr ss"
  by (induction ss) simp_all

lemma parse_list_operators_map:
  "(\<And>q. q \<in> set qs \<Longrightarrow> \<exists>m. f q = Value_Object m \<and> parse_query m = Inr (g q)) \<Longrightarrow>
     parse_list_operators (map f qs) = Inr (map g qs)"
proof (induction qs)
  case (Cons q qs)
  obtain m where m: "f q = Value_Object m" "parse_query m = Inr (g q)" using Cons.prems by force
  then obtain ops where "parse_entries m = Inr ops" "query_of ops = g q"
    by (cases "parse_entries m") (auto simp: parse_query_def)
  with m Cons show ?case by simp
qed simp

lemma parse_to_value:
  "names_ok q \<Longrightarrow> \<exists>m. to_value q = Value_Object m \<and> parse_query m = Inr (canonical_query q)"
proof (induction q rule: canonical_query.induct)
  case (1 qs)
  then have "parse_list_operators (map to_value qs) = Inr (map canonical_query qs)"
    by (intro parse_list_operators_map) (auto simp: list_all_iff)
  then show ?case by (auto simp: parse_query_def)
next
  case (3 q qs)
  then have "parse_list_operators (map to_value (q # qs)) = Inr (map canonical_query (q # qs))"
    by (intro parse_list_operators_map) (auto simp: list_all_iff)
  then show ?case by (simp add: parse_query_def del: parse_list_operators.simps)
next
  case (4 q)
  then obtain m where "to_value q = Value_Object m" "parse_query m = Inr (canonical_query q)" by auto
  then show ?case by (cases "parse_entries m") (auto simp: parse_query_def)
qed (auto simp: parse_query_def plain_name_def parse_single_operator_def in_values_strings)

lemma matches_canonical: "query_matches like t (canonical_query q) = query_matches like t q"
  by (induction q rule: canonical_query.induct) (auto simp: list_all_iff list_ex_iff)

lemma canonical_id: "canonical_query (canonical_query q) = canonical_query q"
  by (induction q rule: canonical_query.induct) simp_all

section \<open>Optimisation\<close>

text \<open>
  \<open>optimise\<close> leaves out an operand that restricts nothing. In a disjunction this changes the
  meaning, so the disjunctions it works on must have no such operand besides others.
\<close>

fun or_operands_restrict :: "Query \<Rightarrow> bool" where
  "or_operands_restrict (Q_And qs) = list_all or_operands_restrict qs"
| "or_operands_restrict (Q_Or qs) =
     (list_all or_operands_restrict qs \<and> (length qs \<le> 1 \<or> list_all (\<lambda>q. optimise q \<noteq> None) qs))"
| "or_operands_restrict _ = True"

definition optimised :: "Query \<Rightarrow> Query" where
  "optimised q = (case optimise q of Some q' \<Rightarrow> q' | None \<Rightarrow> query_default)"

lemma map_filter_total:
  "list_all (\<lambda>q. f q \<noteq> None) qs \<Longrightarrow> List.map_filter f qs = map (\<lambda>q. the (f q)) qs"
  by (induction qs) (auto simp: List.map_filter_simps)

lemma matches_map_filter:
  "(\<And>q. q \<in> set qs \<Longrightarrow> query_matches like t (optimised q) = query_matches like t q) \<Longrightarrow>
     list_all (query_matches like t) (List.map_filter optimise qs) = list_all (query_matches like t) qs"
proof (induction qs)
  case (Cons q qs)
  from Cons.prems [of q] Cons show ?case
    by (cases "optimise q") (auto simp: List.map_filter_simps optimised_def)
qed (simp add: List.map_filter_simps)

lemma matches_map_the:
  assumes "\<And>q. q \<in> set qs \<Longrightarrow> query_matches like t (optimised q) = query_matches like t q"
    and "list_all (\<lambda>q. optimise q \<noteq> None) qs"
  shows "list_ex (query_matches like t) (List.map_filter optimise qs) = list_ex (query_matches like t) qs"
  using assms
proof (induction qs)
  case (Cons q qs)
  from Cons.prems(1) [of q] Cons.prems(2) obtain q' where "optimise q = Some q'"
    "query_matches like t q' = query_matches like t q"
    by (auto simp: optimised_def)
  with Cons show ?case by (simp add: List.map_filter_simps)
qed (simp add: List.map_filter_simps)

lemma query_matches_collapse_And:
  "query_matches like t (case (case qs of [] \<Rightarrow> None | [q] \<Rightarrow> Some q | ops \<Rightarrow> Some (Q_And ops)) of
       Some q' \<Rightarrow> q' | None \<Rightarrow> query_default) = list_all (query_matches like t) qs"
  by (auto split: list.split)

lemma query_matches_collapse_Or:
  "query_matches like t (case (case qs of [] \<Rightarrow> None | [q] \<Rightarrow> Some q | ops \<Rightarrow> Some (Q_Or ops)) of
       Some q' \<Rightarrow> q' | None \<Rightarrow> query_default) = (qs = [] \<or> list_ex (query_matches like t) qs)"
  by (auto split: list.split)

lemma optimised_matches:
  "or_operands_restrict q \<Longrightarrow> query_matches like t (optimised q) = query_matches like t q"
proof (induction q rule: optimise.induct)
  case (4 q1 q2 qs)
  then have "query_matches like t (optimised q) = query_matches like t q" if "q \<in> set (q1 # q2 # qs)" for q
    using that by (auto simp: list_all_iff)
  then have "list_all (query_matches like t) (List.map_filter optimise (q1 # q2 # qs)) =
      list_all (query_matches like t) (q1 # q2 # qs)"
    by (rule matches_map_filter)
  then show ?case by (simp only: optimised_def optimise.simps query_matches_collapse_And query_matches.simps)
next
  case (7 q1 q2 qs)
  let ?qs = "q1 # q2 # qs"
  from 7 have "query_matches like t (optimised q) = query_matches like t q" if "q \<in> set ?qs" for q
    using that by (auto simp: list_all_iff)
  moreover from 7 have some: "list_all (\<lambda>q. optimise q \<noteq> None) ?qs" by simp
  ultimately have "list_ex (query_matches like t) (List.map_filter optimise ?qs) = list_ex (query_matches like t) ?qs"
    by (rule matches_map_the)
  moreover have "List.map_filter optimise ?qs \<noteq> []" unfolding map_filter_total [OF some] by simp
  ultimately show ?case
    by (simp only: optimised_def optimise.simps query_matches_collapse_Or query_matches.simps list.distinct)
qed (auto simp: optimised_def tag_holds_iff split: Query.split)

section \<open>Properties\<close>

text \<open>
  A query that is printed and read back keeps its meaning: unless a tag name is one of the
  three connectives, \<open>deserialize\<close> accepts the JSON of \<open>to_value\<close> and yields the query itself
  up to empty disjunctions, which become empty conjunctions and match the same records.
\<close>

theorem wql_roundtrip:
  assumes "names_ok q"
  shows "query_deserialize (to_value q) = Inr (canonical_query q) \<and>
    query_matches like t (canonical_query q) = query_matches like t q \<and>
    canonical_query (canonical_query q) = canonical_query q"
  using parse_to_value [OF assms] by (auto simp: matches_canonical canonical_id)

theorem wql_roundtrip_witness:
  "query_deserialize (to_value (Q_Not (Q_Or [Q_Eq ''a'' ''1'', Q_Or [], Q_In ''b'' [''2'', ''3'']]))) =
     Inr (Q_Not (Q_Or [Q_Eq ''a'' ''1'', Q_And [], Q_In ''b'' [''2'', ''3'']]))"
  using wql_roundtrip [of "Q_Not (Q_Or [Q_Eq ''a'' ''1'', Q_Or [], Q_In ''b'' [''2'', ''3'']])"
      "\<lambda>_ _. False" "\<lambda>_. None"]
  by (simp add: plain_name_def)

text \<open>
  \<open>optimise\<close> keeps the meaning of a query in which no disjunction of several operands has
  an operand that restricts nothing; a query without restriction is replaced by the default
  query, which matches every record.
\<close>

theorem optimise_preserves_meaning:
  assumes "or_operands_restrict q"
  shows "query_matches like t (case optimise q of Some q' \<Rightarrow> q' | None \<Rightarrow> query_default) =
    query_matches like t q"
  using optimised_matches [OF assms] by (simp add: optimised_def)

theorem optimise_preserves_meaning_witness:
  "query_matches (\<lambda>_ _. False) [''a'' \<mapsto> ''1''] (Q_And [Q_Or [Q_Eq ''a'' ''1'', Q_In ''b'' [''2'']], Q_And []])"
  using optimise_preserves_meaning [of "Q_And [Q_Or [Q_Eq ''a'' ''1'', Q_In ''b'' [''2'']], Q_And []]"
      "\<lambda>_ _. False" "[''a'' \<mapsto> ''1'']"]
  by (simp add: List.map_filter_simps)

text \<open>
  \<open>optimise\<close> drops an operand that restricts nothing from a disjunction: the query
  \<open>{"$or": [{}, q]}\<close> matches every record, its optimised form is the one of \<open>q\<close> alone.
\<close>

theorem optimise_drops_disjunct:
  "query_matches like t (Q_Or [Q_And [], Q_Eq n v]) \<and>
   optimise (Q_Or [Q_And [], Q_Eq n v]) = Some (Q_Eq n v) \<and>
   (query_matches like t (Q_Eq n v) \<longleftrightarrow> t n = Some v)"
  by (simp add: List.map_filter_simps)

end
