(* ===== verification/Wallet_Crypto.thy ===== *)
theory Wallet_Crypto
  imports Rust_Std
begin

text \<open>
  The encryption of wallet records: \<open>indy-wallet/src/encryption.rs\<close>, the keys and the values of
  \<open>indy-wallet/src/wallet.rs\<close>, and the wrappers of \<open>indy-utils/src/crypto\<close> they call.

  The primitives of libsodium, the base58 codec and the MessagePack codec of the keys are the
  fields of \<open>CryptoEnv\<close>; \<open>crypto_ok\<close> collects what the code relies on. Keys, nonces and salts are
  byte strings; the fixed lengths of their Rust types are hypotheses where a theorem needs them.
  Random keys, nonces and salts are arguments of the operations that draw them.
\<close>

section \<open>Data\<close>

datatype KeyDerivationMethod = KDM_RAW | ARGON2I_MOD | ARGON2I_INT

record Keys =
  type_key :: bytes
  name_key :: bytes
  value_key :: bytes
  item_hmac_key :: bytes
  tag_name_key :: bytes
  tag_value_key :: bytes
  tags_hmac_key :: bytes

record EncryptedValue =
  ev_data :: bytes
  ev_key :: bytes

datatype Tag = Tag_Encrypted bytes bytes | Tag_PlainText bytes string

datatype StorageTagName = OfEncrypted bytes | OfPlain bytes

record StorageRecord =
  sr_id :: bytes
  sr_value :: "EncryptedValue option"
  sr_type :: "bytes option"
  sr_tags :: "Tag list option"

type_synonym Tags = "(string \<times> string) list"

record WalletRecord =
  wr_type :: "string option"
  wr_id :: string
  wr_value :: "string option"
  wr_tags :: "Tags option"

datatype KeyDerivationData =
    KDD_Raw string
  | KDD_Argon2iMod string bytes
  | KDD_Argon2iInt string bytes

datatype WalletMetadata = MetadataArgon bytes bytes | MetadataRaw bytes

fun get_keys :: "WalletMetadata \<Rightarrow> bytes" where
  "get_keys (MetadataArgon keys _) = keys"
| "get_keys (MetadataRaw keys) = keys"

record CryptoEnv =
  wc_hmac :: "bytes \<Rightarrow> bytes \<Rightarrow> bytes"
  wc_seal :: "bytes \<Rightarrow> bytes \<Rightarrow> bytes \<Rightarrow> bytes"
  wc_open :: "bytes \<Rightarrow> bytes \<Rightarrow> bytes \<Rightarrow> bytes option"
  wc_pwhash :: "string \<Rightarrow> bytes \<Rightarrow> KeyDerivationMethod \<Rightarrow> bytes option"
  wc_from_b58 :: "string \<Rightarrow> bytes option"
  wc_keys_to_vec :: "Keys \<Rightarrow> bytes option"
  wc_keys_from_slice :: "bytes \<Rightarrow> Keys option"

definition KEYBYTES :: nat where "KEYBYTES = 32"

definition NONCEBYTES :: nat where "NONCEBYTES = 12"

definition TAGBYTES :: nat where "TAGBYTES = 16"

definition SALTBYTES :: nat where "SALTBYTES = 32"

definition ENCRYPTED_KEY_LEN :: nat where
  "ENCRYPTED_KEY_LEN = TAGBYTES + NONCEBYTES + KEYBYTES"

section \<open>Wrappers of the primitives\<close>

definition from_slice :: "nat \<Rightarrow> bytes \<Rightarrow> bytes outcome" where
  "from_slice len bs = (if length bs = len then Ok bs else Err InvalidStructure)"

definition chacha_decrypt :: "CryptoEnv \<Rightarrow> bytes \<Rightarrow> bytes \<Rightarrow> bytes \<Rightarrow> bytes outcome" where
  "chacha_decrypt env data key nonce = ok_or InvalidStructure (wc_open env data key nonce)"

definition pwhash :: "CryptoEnv \<Rightarrow> string \<Rightarrow> bytes \<Rightarrow> KeyDerivationMethod \<Rightarrow> bytes outcome" where
  "pwhash env passwd salt key_derivation_method =
     (case key_derivation_method of
        KDM_RAW \<Rightarrow> Err InvalidStructure
      | _ \<Rightarrow> ok_or InvalidState (wc_pwhash env passwd salt key_derivation_method))"

section \<open>Master keys\<close>

definition from_passphrase_with_new_salt :: "bytes \<Rightarrow> string \<Rightarrow> KeyDerivationMethod \<Rightarrow> KeyDerivationData" where
  "from_passphrase_with_new_salt salt passphrase derivation_method =
     (case derivation_method of
        ARGON2I_INT \<Rightarrow> KDD_Argon2iInt passphrase salt
      | ARGON2I_MOD \<Rightarrow> KDD_Argon2iMod passphrase salt
      | KDM_RAW \<Rightarrow> KDD_Raw passphrase)"

definition master_key_salt_from_slice :: "bytes \<Rightarrow> bytes outcome" where
  "master_key_salt_from_slice bs = (if length bs = SALTBYTES then Ok bs else Err WalletAccessFailed)"

definition from_passphrase_and_metadata ::
    "string \<Rightarrow> WalletMetadata \<Rightarrow> KeyDerivationMethod \<Rightarrow> KeyDerivationData outcome" where
  "from_passphrase_and_metadata passphrase metadata derivation_method =
     (case (derivation_method, metadata) of
        (KDM_RAW, MetadataRaw _) \<Rightarrow> Ok (KDD_Raw passphrase)
      | (ARGON2I_INT, MetadataArgon _ salt) \<Rightarrow>
          and_then (master_key_salt_from_slice salt) (\<lambda>master_key_salt. Ok (KDD_Argon2iInt passphrase master_key_salt))
      | (ARGON2I_MOD, MetadataArgon _ salt) \<Rightarrow>
          and_then (master_key_salt_from_slice salt) (\<lambda>master_key_salt. Ok (KDD_Argon2iMod passphrase master_key_salt))
      | _ \<Rightarrow> Err WalletAccessFailed)"

definition raw_master_key :: "CryptoEnv \<Rightarrow> string \<Rightarrow> bytes outcome" where
  "raw_master_key env passphrase =
     and_then (ok_or InvalidStructure (wc_from_b58 env passphrase)) (\<lambda>bytes. from_slice KEYBYTES bytes)"

fun calc_master_key :: "CryptoEnv \<Rightarrow> KeyDerivationData \<Rightarrow> bytes outcome" where
  "calc_master_key env (KDD_Raw passphrase) = raw_master_key env passphrase"
| "calc_master_key env (KDD_Argon2iInt passphrase salt) = pwhash env passphrase salt ARGON2I_INT"
| "calc_master_key env (KDD_Argon2iMod passphrase salt) = pwhash env passphrase salt ARGON2I_MOD"

section \<open>Encryption of byte strings\<close>

definition encrypt_as_searchable :: "CryptoEnv \<Rightarrow> bytes \<Rightarrow> bytes \<Rightarrow> bytes \<Rightarrow> bytes" where
  "encrypt_as_searchable env data key hmac_key =
     (let tag = wc_hmac env data hmac_key; nonce = take NONCEBYTES tag; ct = wc_seal env data key nonce
      in nonce @ ct)"

definition encrypt_as_not_searchable :: "CryptoEnv \<Rightarrow> bytes \<Rightarrow> bytes \<Rightarrow> bytes \<Rightarrow> bytes" where
  "encrypt_as_not_searchable env nonce data key = nonce @ wc_seal env data key nonce"

definition decrypt_merged :: "CryptoEnv \<Rightarrow> bytes \<Rightarrow> bytes \<Rightarrow> bytes outcome" where
  "decrypt_merged env joined_data key =
     (if length joined_data < NONCEBYTES then Panic
      else
        let nonce = take NONCEBYTES joined_data; data = drop NONCEBYTES joined_data
        in chacha_decrypt env data key nonce)"

section \<open>Keys and values\<close>

text \<open>The keys are drawn in the order of the fields; \<open>gen_key\<close> numbers the draws.\<close>

definition keys_new :: "(nat \<Rightarrow> bytes) \<Rightarrow> Keys" where
  "keys_new gen_key =
     \<lparr>type_key = gen_key 0, name_key = gen_key 1, value_key = gen_key 2, item_hmac_key = gen_key 3,
      tag_name_key = gen_key 4, tag_value_key = gen_key 5, tags_hmac_key = gen_key 6\<rparr>"

definition serialize_encrypted :: "CryptoEnv \<Rightarrow> bytes \<Rightarrow> Keys \<Rightarrow> bytes \<Rightarrow> bytes outcome" where
  "serialize_encrypted env nonce keys master_key =
     and_then (ok_or InvalidState (wc_keys_to_vec env keys)) (\<lambda>serialized.
       Ok (encrypt_as_not_searchable env nonce serialized master_key))"

definition deserialize_encrypted :: "CryptoEnv \<Rightarrow> bytes \<Rightarrow> bytes \<Rightarrow> Keys outcome" where
  "deserialize_encrypted env bytes master_key =
     and_then (decrypt_merged env bytes master_key) (\<lambda>decrypted.
       ok_or InvalidState (wc_keys_from_slice env decrypted))"

definition ev_encrypt :: "CryptoEnv \<Rightarrow> bytes \<times> bytes \<times> bytes \<Rightarrow> string \<Rightarrow> bytes \<Rightarrow> EncryptedValue" where
  "ev_encrypt env = (\<lambda>(random_key, nonce1, nonce2) data key.
     \<lparr>ev_data = encrypt_as_not_searchable env nonce1 (str_bytes data) random_key,
      ev_key = encrypt_as_not_searchable env nonce2 random_key key\<rparr>)"

definition ev_decrypt :: "CryptoEnv \<Rightarrow> EncryptedValue \<Rightarrow> bytes \<Rightarrow> string outcome" where
  "ev_decrypt env ev key =
     and_then (decrypt_merged env (ev_key ev) key) (\<lambda>value_key_bytes.
     and_then (from_slice KEYBYTES value_key_bytes) (\<lambda>k.
     and_then (decrypt_merged env (ev_data ev) k) (\<lambda>bytes.
       ok_or InvalidState (from_utf8 bytes))))"

definition ev_to_bytes :: "EncryptedValue \<Rightarrow> bytes" where
  "ev_to_bytes ev = ev_key ev @ ev_data ev"

definition ev_from_bytes :: "bytes \<Rightarrow> EncryptedValue outcome" where
  "ev_from_bytes joined_data =
     (if length joined_data < ENCRYPTED_KEY_LEN then Err InvalidStructure
      else Ok \<lparr>ev_data = drop ENCRYPTED_KEY_LEN joined_data, ev_key = take ENCRYPTED_KEY_LEN joined_data\<rparr>)"

section \<open>Tags and records\<close>

definition encrypt_tag_name :: "CryptoEnv \<Rightarrow> string \<Rightarrow> bytes \<Rightarrow> bytes \<Rightarrow> StorageTagName" where
  "encrypt_tag_name env tag_name nk hk =
     (if starts_with tag_name ''~''
      then OfPlain (encrypt_as_searchable env (drop 1 (str_bytes tag_name)) nk hk)
      else OfEncrypted (encrypt_as_searchable env (str_bytes tag_name) nk hk))"

definition encrypt_tag_names :: "CryptoEnv \<Rightarrow> string list \<Rightarrow> bytes \<Rightarrow> bytes \<Rightarrow> StorageTagName list" where
  "encrypt_tag_names env tag_names nk hk =
     map (\<lambda>tag_name. encrypt_tag_name env tag_name nk hk) tag_names"

definition encrypt_tag :: "CryptoEnv \<Rightarrow> bytes \<Rightarrow> bytes \<Rightarrow> bytes \<Rightarrow> string \<times> string \<Rightarrow> Tag" where
  "encrypt_tag env nk vk hk = (\<lambda>(tag_name, tag_value).
     if starts_with tag_name ''~'' then
       Tag_PlainText (encrypt_as_searchable env (drop 1 (str_bytes tag_name)) nk hk) tag_value
     else
       Tag_Encrypted (encrypt_as_searchable env (str_bytes tag_name) nk hk)
         (encrypt_as_searchable env (str_bytes tag_value) vk hk))"

definition encrypt_tags :: "CryptoEnv \<Rightarrow> Tags \<Rightarrow> bytes \<Rightarrow> bytes \<Rightarrow> bytes \<Rightarrow> Tag list" where
  "encrypt_tags env tags nk vk hk = map (encrypt_tag env nk vk hk) tags"

text \<open>A failed decryption of the name of a plain tag is reported under another kind.\<close>

fun decrypt_tag :: "CryptoEnv \<Rightarrow> bytes \<Rightarrow> bytes \<Rightarrow> Tag \<Rightarrow> (string \<times> string) outcome" where
  "decrypt_tag env nk vk (Tag_PlainText ename v) =
     (case decrypt_merged env ename nk of
        Err _ \<Rightarrow> Err WalletEncryptionError
      | Panic \<Rightarrow> Panic
      | Ok tag_name_bytes \<Rightarrow>
          and_then (ok_or WalletEncryptionError (from_utf8 tag_name_bytes)) (\<lambda>name. Ok (''~'' @ name, v)))"
| "decrypt_tag env nk vk (Tag_Encrypted ename evalue) =
     and_then (decrypt_merged env ename nk) (\<lambda>name_bytes.
     and_then (ok_or WalletEncryptionError (from_utf8 name_bytes)) (\<lambda>name.
     and_then (decrypt_merged env evalue vk) (\<lambda>value_bytes.
     and_then (ok_or WalletEncryptionError (from_utf8 value_bytes)) (\<lambda>v. Ok (name, v)))))"

fun decrypt_tags_loop :: "CryptoEnv \<Rightarrow> bytes \<Rightarrow> bytes \<Rightarrow> Tag list \<Rightarrow> Tags \<Rightarrow> Tags outcome" where
  "decrypt_tags_loop env nk vk [] tags = Ok tags"
| "decrypt_tags_loop env nk vk (etag # etags) tags =
     and_then (decrypt_tag env nk vk etag) (\<lambda>(name, v).
       decrypt_tags_loop env nk vk etags (hm_insert tags name v))"

definition decrypt_tags :: "CryptoEnv \<Rightarrow> Tag list option \<Rightarrow> bytes \<Rightarrow> bytes \<Rightarrow> Tags option outcome" where
  "decrypt_tags env etags nk vk =
     (case etags of
        None \<Rightarrow> Ok None
      | Some etags \<Rightarrow> map_ok Some (decrypt_tags_loop env nk vk etags []))"

definition map_outcome_option :: "('a \<Rightarrow> 'b outcome) \<Rightarrow> 'a option \<Rightarrow> 'b option outcome" where
  "map_outcome_option f v = (case v of None \<Rightarrow> Ok None | Some x \<Rightarrow> map_ok Some (f x))"

definition decrypt_storage_record :: "CryptoEnv \<Rightarrow> StorageRecord \<Rightarrow> Keys \<Rightarrow> WalletRecord outcome" where
  "decrypt_storage_record env r keys =
     and_then (decrypt_merged env (sr_id r) (name_key keys)) (\<lambda>name_bytes.
     and_then (ok_or WalletEncryptionError (from_utf8 name_bytes)) (\<lambda>decrypted_name.
     and_then (map_outcome_option (\<lambda>v. ev_decrypt env v (value_key keys)) (sr_value r)) (\<lambda>decrypted_value.
     and_then (map_outcome_option (\<lambda>etype. and_then (decrypt_merged env etype (type_key keys)) (\<lambda>bytes.
         ok_or WalletEncryptionError (from_utf8 bytes))) (sr_type r)) (\<lambda>decrypted_type.
     and_then (decrypt_tags env (sr_tags r) (tag_name_key keys) (tag_value_key keys)) (\<lambda>decrypted_tags.
       Ok \<lparr>wr_type = decrypted_type, wr_id = decrypted_name, wr_value = decrypted_value,
           wr_tags = decrypted_tags\<rparr>)))))"

section \<open>What the code relies on\<close>

text \<open>
  The documented behaviour of the primitives: an authenticator has 32 bytes, opening a sealed
  message with the key and nonce of the sealing returns the message, a sealed message is 16 bytes
  longer than the message, and the MessagePack codec reads the keys it wrote.
\<close>

definition crypto_ok :: "CryptoEnv \<Rightarrow> bool" where
  "crypto_ok env \<longleftrightarrow>
     (\<forall>data key. length (wc_hmac env data key) = 32) \<and>
     (\<forall>data key nonce. wc_open env (wc_seal env data key nonce) key nonce = Some data) \<and>
     (\<forall>data key nonce. length (wc_seal env data key nonce) = length data + TAGBYTES) \<and>
     (\<forall>keys. \<exists>bytes. wc_keys_to_vec env keys = Some bytes \<and> wc_keys_from_slice env bytes = Some keys)"

lemma crypto_ok_hmac: "crypto_ok env \<Longrightarrow> length (wc_hmac env data key) = 32"
  by (simp add: crypto_ok_def)

lemma crypto_ok_open: "crypto_ok env \<Longrightarrow> wc_open env (wc_seal env data key nonce) key nonce = Some data"
  by (simp add: crypto_ok_def)

lemma crypto_ok_seal_length: "crypto_ok env \<Longrightarrow> length (wc_seal env data key nonce) = length data + TAGBYTES"
  by (simp add: crypto_ok_def)

text \<open>A Rust string holds valid UTF-8.\<close>

definition rust_str :: "string \<Rightarrow> bool" where
  "rust_str s \<longleftrightarrow> utf8_valid (map of_char s)"

lemma rust_str_from_utf8: "rust_str s \<Longrightarrow> from_utf8 (str_bytes s) = Some s"
  by (auto simp: rust_str_def from_utf8_def str_bytes_def comp_def)

lemma str_bytes_inject [simp]: "str_bytes s = str_bytes t \<longleftrightarrow> s = t"
proof
  assume "str_bytes s = str_bytes t"
  then have "map unat (str_bytes s) = map unat (str_bytes t)" by simp
  then have "map (char_of :: nat \<Rightarrow> char) (map unat (str_bytes s)) = map char_of (map unat (str_bytes t))" by simp
  then show "s = t" by (simp add: str_bytes_def comp_def)
qed simp

lemma rust_str_tilde [simp]: "rust_str (CHR ''~'' # s) = rust_str s"
  by (simp add: rust_str_def)

lemma str_bytes_Cons: "drop (Suc 0) (str_bytes (c # s)) = str_bytes s"
  by (simp add: str_bytes_def)

lemma starts_with_tilde: "starts_with s ''~'' \<longleftrightarrow> (\<exists>n. s = CHR ''~'' # n)"
  by (cases s) auto

section \<open>Round trips\<close>

lemma decrypt_searchable:
  assumes "crypto_ok env"
  shows "decrypt_merged env (encrypt_as_searchable env data key hk) key = Ok data"
proof -
  have "length (take NONCEBYTES (wc_hmac env data hk)) = NONCEBYTES"
    by (simp add: crypto_ok_hmac [OF assms] NONCEBYTES_def)
  then show ?thesis
    by (simp add: decrypt_merged_def encrypt_as_searchable_def chacha_decrypt_def crypto_ok_open [OF assms] Let_def)
qed

lemma encrypt_searchable_inject:
  assumes "crypto_ok env"
  shows "encrypt_as_searchable env a key hk = encrypt_as_searchable env b key hk \<longleftrightarrow> a = b"
  by (metis decrypt_searchable [OF assms] outcome.inject(1))

lemma decrypt_not_searchable:
  assumes "crypto_ok env" and "length nonce = NONCEBYTES"
  shows "decrypt_merged env (encrypt_as_not_searchable env nonce data key) key = Ok data"
  using assms by (simp add: decrypt_merged_def encrypt_as_not_searchable_def chacha_decrypt_def crypto_ok_open Let_def)

definition fresh_ok :: "bytes \<times> bytes \<times> bytes \<Rightarrow> bool" where
  "fresh_ok = (\<lambda>(random_key, nonce1, nonce2).
     length random_key = KEYBYTES \<and> length nonce1 = NONCEBYTES \<and> length nonce2 = NONCEBYTES)"

lemma ev_decrypt_encrypt:
  assumes "crypto_ok env" and "fresh_ok rnd" and "rust_str v"
  shows "ev_decrypt env (ev_encrypt env rnd v key) key = Ok v"
  using assms
  by (cases rnd) (simp add: ev_decrypt_def ev_encrypt_def fresh_ok_def decrypt_not_searchable from_slice_def
      rust_str_from_utf8)

lemma ev_key_length:
  "crypto_ok env \<Longrightarrow> fresh_ok rnd \<Longrightarrow> length (ev_key (ev_encrypt env rnd v key)) = ENCRYPTED_KEY_LEN"
  by (cases rnd) (simp add: ev_encrypt_def fresh_ok_def encrypt_as_not_searchable_def crypto_ok_seal_length
      ENCRYPTED_KEY_LEN_def)

lemma decrypt_encrypt_tag:
  assumes "crypto_ok env" and "rust_str n" and "rust_str v"
  shows "decrypt_tag env nk vk (encrypt_tag env nk vk hk (n, v)) = Ok (n, v)"
  using assms
  by (auto simp: encrypt_tag_def decrypt_searchable rust_str_from_utf8 starts_with_tilde str_bytes_Cons)

lemma hm_insert_snoc: "k \<notin> fst ` set m \<Longrightarrow> hm_insert m k v = m @ [(k, v)]"
  by (induction m k v rule: hm_insert.induct) auto

definition tags_ok :: "Tags \<Rightarrow> bool" where
  "tags_ok tags \<longleftrightarrow> hm_wf tags \<and> list_all (\<lambda>(n, v). rust_str n \<and> rust_str v) tags"

lemma decrypt_tags_loop_encrypt:
  assumes "crypto_ok env"
  shows "hm_wf (acc @ tags) \<Longrightarrow> list_all (\<lambda>(n, v). rust_str n \<and> rust_str v) tags \<Longrightarrow>
    decrypt_tags_loop env nk vk (map (encrypt_tag env nk vk hk) tags) acc = Ok (acc @ tags)"
proof (induction tags arbitrary: acc)
  case (Cons tag tags)
  obtain n v where tag: "tag = (n, v)" by (cases tag)
  with Cons.prems have "n \<notin> fst ` set acc" "rust_str n" "rust_str v" by (auto simp: hm_wf_def)
  with Cons tag show ?case by (simp add: decrypt_encrypt_tag [OF assms] hm_insert_snoc)
qed simp

lemma decrypt_encrypt_tags:
  assumes "crypto_ok env" and "tags_ok tags"
  shows "decrypt_tags env (Some (encrypt_tags env tags nk vk hk)) nk vk = Ok (Some tags)"
  using assms decrypt_tags_loop_encrypt [of env "[]" tags]
  by (simp add: decrypt_tags_def encrypt_tags_def tags_ok_def)

section \<open>A sample instance of the primitives\<close>

text \<open>
  Authenticators and ciphertexts of the right lengths; a field of the keys is written byte by
  byte, each byte after a 1, and closed by a 0.
\<close>

definition write_field :: "bytes \<Rightarrow> bytes" where
  "write_field bs = concat (map (\<lambda>b. [1, b]) bs) @ [0]"

fun read_fields :: "bytes \<Rightarrow> bytes \<Rightarrow> bytes list" where
  "read_fields acc [] = []"
| "read_fields acc [b] = (if b = 0 then [rev acc] else [])"
| "read_fields acc (b # c # bs) = (if b = 0 then rev acc # read_fields [] (c # bs) else read_fields (c # acc) bs)"

lemma read_fields_0: "read_fields acc (0 # rest) = rev acc # read_fields [] rest"
  by (cases rest) simp_all

lemma read_write_field: "read_fields acc (write_field bs @ rest) = (rev acc @ bs) # read_fields [] rest"
  by (induction bs arbitrary: acc) (simp_all add: write_field_def read_fields_0)

definition sample_keys_to_vec :: "Keys \<Rightarrow> bytes option" where
  "sample_keys_to_vec k = Some (write_field (type_key k) @ write_field (name_key k) @ write_field (value_key k) @
     write_field (item_hmac_key k) @ write_field (tag_name_key k) @ write_field (tag_value_key k) @
     write_field (tags_hmac_key k))"

definition sample_keys_from_slice :: "bytes \<Rightarrow> Keys option" where
  "sample_keys_from_slice bs =
     (case read_fields [] bs of
        [a, b, c, d, e, f, g] \<Rightarrow> Some (keys_new (\<lambda>i. [a, b, c, d, e, f, g] ! i))
      | _ \<Rightarrow> None)"

definition sample_crypto :: CryptoEnv where
  "sample_crypto =
     \<lparr>wc_hmac = \<lambda>data key. replicate 32 (of_nat (length data)), wc_seal = \<lambda>data key nonce. replicate 16 7 @ data,
      wc_open = \<lambda>data key nonce. if length data < 16 then None else Some (drop 16 data),
      wc_pwhash = \<lambda>passwd salt m. Some (replicate 32 9), wc_from_b58 = \<lambda>s. Some (str_bytes s),
      wc_keys_to_vec = sample_keys_to_vec, wc_keys_from_slice = sample_keys_from_slice\<rparr>"

lemma sample_keys_codec: "\<exists>bytes. sample_keys_to_vec keys = Some bytes \<and> sample_keys_from_slice bytes = Some keys"
proof -
  have end_field: "read_fields acc (write_field bs) = [rev acc @ bs]" for acc bs
    using read_write_field [of acc bs "[]"] by simp
  show ?thesis
    by (cases keys) (simp add: sample_keys_to_vec_def sample_keys_from_slice_def read_write_field end_field
        keys_new_def)
qed

lemma sample_crypto_ok: "crypto_ok sample_crypto"
  using sample_keys_codec by (simp add: crypto_ok_def sample_crypto_def TAGBYTES_def)

definition sample_wallet_keys :: Keys where
  "sample_wallet_keys = keys_new (\<lambda>_. replicate 32 3)"

section \<open>Properties\<close>

text \<open>
  What the wallet stores of a record decrypts to the record: name, type, value and tags
  encrypted as \<open>Wallet::add\<close> encrypts them are what \<open>decrypt_storage_record\<close> returns, for every
  choice of keys and of random values of the right length.
\<close>

theorem storage_record_roundtrip:
  assumes "crypto_ok env" and "fresh_ok rnd" and "rust_str name" and "rust_str type" and "rust_str v" and "tags_ok tags"
  shows "decrypt_storage_record env
      \<lparr>sr_id = encrypt_as_searchable env (str_bytes name) (name_key keys) (item_hmac_key keys),
       sr_value = Some (ev_encrypt env rnd v (value_key keys)),
       sr_type = Some (encrypt_as_searchable env (str_bytes type) (type_key keys) (item_hmac_key keys)),
       sr_tags = Some (encrypt_tags env tags (tag_name_key keys) (tag_value_key keys) (tags_hmac_key keys))\<rparr> keys =
    Ok \<lparr>wr_type = Some type, wr_id = name, wr_value = Some v, wr_tags = Some tags\<rparr>"
  using assms
  by (simp add: decrypt_storage_record_def decrypt_searchable rust_str_from_utf8 map_outcome_option_def
      ev_decrypt_encrypt decrypt_encrypt_tags)

theorem storage_record_roundtrip_witness:
  "decrypt_storage_record sample_crypto
      \<lparr>sr_id = encrypt_as_searchable sample_crypto (str_bytes ''n'') (replicate 32 3) (replicate 32 3),
       sr_value = Some (ev_encrypt sample_crypto (replicate 32 1, replicate 12 1, replicate 12 2) ''v'' (replicate 32 3)),
       sr_type = Some (encrypt_as_searchable sample_crypto (str_bytes ''t'') (replicate 32 3) (replicate 32 3)),
       sr_tags = Some (encrypt_tags sample_crypto [(''a'', ''1''), (''~b'', ''2'')]
         (replicate 32 3) (replicate 32 3) (replicate 32 3))\<rparr> sample_wallet_keys =
    Ok \<lparr>wr_type = Some ''t'', wr_id = ''n'', wr_value = Some ''v'', wr_tags = Some [(''a'', ''1''), (''~b'', ''2'')]\<rparr>"
  using storage_record_roundtrip [OF sample_crypto_ok, of "(replicate 32 1, replicate 12 1, replicate 12 2)"
      "''n''" "''t''" "''v''" "[(''a'', ''1''), (''~b'', ''2'')]" sample_wallet_keys]
  by (simp add: fresh_ok_def KEYBYTES_def NONCEBYTES_def rust_str_def tags_ok_def hm_wf_def sample_wallet_keys_def
      keys_new_def)

text \<open>
  The two parts of an encrypted value survive the byte form in which plugged storages keep
  them, and bytes too short for a value key are refused.
\<close>

theorem encrypted_value_bytes_roundtrip:
  assumes "length (ev_key ev) = ENCRYPTED_KEY_LEN"
  shows "ev_from_bytes (ev_to_bytes ev) = Ok ev"
  using assms by (simp add: ev_from_bytes_def ev_to_bytes_def)

theorem encrypted_value_bytes_roundtrip_witness:
  "ev_from_bytes (ev_to_bytes (ev_encrypt sample_crypto (replicate 32 1, replicate 12 1, replicate 12 2) ''v'' [])) =
     Ok (ev_encrypt sample_crypto (replicate 32 1, replicate 12 1, replicate 12 2) ''v'' [])"
  by (intro encrypted_value_bytes_roundtrip ev_key_length sample_crypto_ok)
    (simp add: fresh_ok_def KEYBYTES_def NONCEBYTES_def)

text \<open>
  \<open>decrypt_merged\<close> takes the nonce from the front of its input without checking the
  length: it panics exactly on inputs shorter than a nonce, so that a truncated entry of the
  storage ends the process instead of being reported.
\<close>

theorem short_ciphertext_panics: "decrypt_merged env joined_data key = Panic \<longleftrightarrow> length joined_data < NONCEBYTES"
  by (simp add: decrypt_merged_def chacha_decrypt_def ok_or_def split: option.split)

end
