(* ===== verification/Wallet_Query.thy ===== *)
theory Wallet_Query
  imports Wql Wallet_Crypto
begin

text \<open>
  From a query of a wallet's client to the statement its storage runs: the operators on encrypted
  tags (\<open>indy-wallet/src/language.rs\<close>), the encryption of a query (\<open>query_encryption.rs\<close>) and the
  translation to SQL of the default storage (\<open>storage/default/query.rs\<close>).

  The SQL text is related to its meaning by \<open>SqlCond\<close>, the conditions the translation can print,
  with the text \<open>cond_text\<close> of a condition and its value \<open>cond_eval\<close> on the tags of an item, where
  the placeholders take the bound arguments from left to right. Values compare as SQLite compares
  them: text before blobs, either byte by byte.
\<close>

section \<open>Operators\<close>

datatype TagName = EncryptedTagName bytes | PlainTagName bytes

datatype TargetValue = Unencrypted string | Encrypted bytes

datatype Operator =
    Op_And "Operator list"
  | Op_Or "Operator list"
  | Op_Not Operator
  | Op_Eq TagName TargetValue
  | Op_Neq TagName TargetValue
  | Op_Gt TagName TargetValue
  | Op_Gte TagName TargetValue
  | Op_Lt TagName TargetValue
  | Op_Lte TagName TargetValue
  | Op_Like TagName TargetValue
  | Op_In TagName "TargetValue list"

definition tag_name_from :: "string \<Rightarrow> TagName outcome" where
  "tag_name_from s =
     (if s = [] \<or> (starts_with s ''~'' \<and> length s = 1) then Err WalletQueryError
      else if starts_with s ''~'' then Ok (PlainTagName (drop 1 (str_bytes s)))
      else Ok (EncryptedTagName (str_bytes s)))"

definition target_value_from :: "string \<Rightarrow> TargetValue" where
  "target_value_from s = Unencrypted s"

fun tag_name_to_string :: "(bytes \<Rightarrow> string) \<Rightarrow> TagName \<Rightarrow> string" where
  "tag_name_to_string b64 (EncryptedTagName v) = [CHR 34] @ b64 v @ [CHR 34]"
| "tag_name_to_string b64 (PlainTagName v) = [CHR 34] @ ''~'' @ b64 v @ [CHR 34]"

fun target_value_to_string :: "(bytes \<Rightarrow> string) \<Rightarrow> TargetValue \<Rightarrow> string" where
  "target_value_to_string b64 (Unencrypted s) = [CHR 34] @ s @ [CHR 34]"
| "target_value_to_string b64 (Encrypted v) = [CHR 34] @ b64 v @ [CHR 34]"

text \<open>\<open>Vec<String>::join\<close>.\<close>

fun join :: "string \<Rightarrow> string list \<Rightarrow> string" where
  "join sep [] = []"
| "join sep [s] = s"
| "join sep (s # ss) = s @ sep @ join sep ss"

text \<open>A JSON key in quotes, followed by a colon.\<close>

definition json_key :: "string \<Rightarrow> string" where
  "json_key k = [CHR 34] @ k @ [CHR 34] @ '':''"

fun operator_to_string :: "(bytes \<Rightarrow> string) \<Rightarrow> Operator \<Rightarrow> string" where
  "operator_to_string b64 (Op_Eq n v) = ''{'' @ tag_name_to_string b64 n @ '':'' @ target_value_to_string b64 v @ ''}''"
| "operator_to_string b64 (Op_Neq n v) =
     ''{'' @ tag_name_to_string b64 n @ '':{'' @ json_key ''$neq'' @ target_value_to_string b64 v @ ''}}''"
| "operator_to_string b64 (Op_Gt n v) =
     ''{'' @ tag_name_to_string b64 n @ '':{'' @ json_key ''$gt'' @ target_value_to_string b64 v @ ''}}''"
| "operator_to_string b64 (Op_Gte n v) =
     ''{'' @ tag_name_to_string b64 n @ '':{'' @ json_key ''$gte'' @ target_value_to_string b64 v @ ''}}''"
| "operator_to_string b64 (Op_Lt n v) =
     ''{'' @ tag_name_to_string b64 n @ '':{'' @ json_key ''$lt'' @ target_value_to_string b64 v @ ''}}''"
| "operator_to_string b64 (Op_Lte n v) =
     ''{'' @ tag_name_to_string b64 n @ '':{'' @ json_key ''$lte'' @ target_value_to_string b64 v @ ''}}''"
| "operator_to_string b64 (Op_Like n v) =
     ''{'' @ tag_name_to_string b64 n @ '':{'' @ json_key ''$like'' @ target_value_to_string b64 v @ ''}}''"
| "operator_to_string b64 (Op_In n vs) =
     ''{'' @ tag_name_to_string b64 n @ '':{'' @ json_key ''$in'' @ ''['' @
       join '','' (map (target_value_to_string b64) vs) @ '']}}''"
| "operator_to_string b64 (Op_And ops) =
     (if ops \<noteq> [] then ''{'' @ json_key ''$and'' @ ''['' @ join '','' (map (operator_to_string b64) ops) @ '']}''
      else ''{}'')"
| "operator_to_string b64 (Op_Or ops) =
     (if ops \<noteq> [] then ''{'' @ json_key ''$or'' @ ''['' @ join '','' (map (operator_to_string b64) ops) @ '']}''
      else ''{}'')"
| "operator_to_string b64 (Op_Not op) = ''{'' @ json_key ''$not'' @ operator_to_string b64 op @ ''}''"

section \<open>Encryption of a query\<close>

definition encrypt_name_value :: "CryptoEnv \<Rightarrow> string \<Rightarrow> string \<Rightarrow> Keys \<Rightarrow> (TagName \<times> TargetValue) outcome" where
  "encrypt_name_value env name v keys =
     and_then (tag_name_from name) (\<lambda>tag_name.
       case (tag_name, target_value_from v) of
         (EncryptedTagName n, Unencrypted s) \<Rightarrow>
           Ok (EncryptedTagName (encrypt_as_searchable env n (tag_name_key keys) (tags_hmac_key keys)),
               Encrypted (encrypt_as_searchable env (str_bytes s) (tag_value_key keys) (tags_hmac_key keys)))
       | (PlainTagName n, Unencrypted s) \<Rightarrow>
           Ok (PlainTagName (encrypt_as_searchable env n (tag_name_key keys) (tags_hmac_key keys)), Unencrypted s)
       | _ \<Rightarrow> Err WalletQueryError)"

fun encrypt_query_name :: "CryptoEnv \<Rightarrow> Keys \<Rightarrow> TagName \<Rightarrow> TagName" where
  "encrypt_query_name env keys (EncryptedTagName n) =
     EncryptedTagName (encrypt_as_searchable env n (tag_name_key keys) (tags_hmac_key keys))"
| "encrypt_query_name env keys (PlainTagName n) =
     PlainTagName (encrypt_as_searchable env n (tag_name_key keys) (tags_hmac_key keys))"

fun transform :: "CryptoEnv \<Rightarrow> Query \<Rightarrow> Keys \<Rightarrow> Operator outcome" where
  "transform env (Q_Eq name v) keys =
     and_then (encrypt_name_value env name v keys) (\<lambda>(n, t). Ok (Op_Eq n t))"
| "transform env (Q_Neq name v) keys =
     and_then (encrypt_name_value env name v keys) (\<lambda>(n, t). Ok (Op_Neq n t))"
| "transform env (Q_Gt name v) keys =
     and_then (encrypt_name_value env name v keys) (\<lambda>(n, t). Ok (Op_Gt n t))"
| "transform env (Q_Gte name v) keys =
     and_then (encrypt_name_value env name v keys) (\<lambda>(n, t). Ok (Op_Gte n t))"
| "transform env (Q_Lt name v) keys =
     and_then (encrypt_name_value env name v keys) (\<lambda>(n, t). Ok (Op_Lt n t))"
| "transform env (Q_Lte name v) keys =
     and_then (encrypt_name_value env name v keys) (\<lambda>(n, t). Ok (Op_Lte n t))"
| "transform env (Q_Like name v) keys =
     and_then (encrypt_name_value env name v keys) (\<lambda>(n, t). Ok (Op_Like n t))"
| "transform env (Q_In name vs) keys =
     and_then (tag_name_from name) (\<lambda>ename.
     and_then (map_outcome_list (\<lambda>v. map_ok snd (encrypt_name_value env name v keys)) vs) (\<lambda>encrypted_values.
       Ok (Op_In (encrypt_query_name env keys ename) encrypted_values)))"
| "transform env (Q_And operators) keys =
     and_then (map_outcome_list (\<lambda>q. transform env q keys) operators) (\<lambda>ops. Ok (Op_And ops))"
| "transform env (Q_Or operators) keys =
     and_then (map_outcome_list (\<lambda>q. transform env q keys) operators) (\<lambda>ops. Ok (Op_Or ops))"
| "transform env (Q_Not q) keys = and_then (transform env q keys) (\<lambda>op. Ok (Op_Not op))"

definition encrypt_query :: "CryptoEnv \<Rightarrow> Query \<Rightarrow> Keys \<Rightarrow> Operator outcome" where
  "encrypt_query env query keys = transform env query keys"

section \<open>Translation to SQL\<close>

datatype SqlValue = Sql_Text string | Sql_Blob bytes

type_synonym sql_result = "(string \<times> SqlValue list) outcome"

definition eq_to_sql :: "TagName \<Rightarrow> TargetValue \<Rightarrow> SqlValue list \<Rightarrow> sql_result" where
  "eq_to_sql name v arguments =
     (case (name, v) of
        (PlainTagName n, Unencrypted s) \<Rightarrow>
          Ok (''(i.id in (SELECT item_id FROM tags_plaintext WHERE name = ? AND value = ?))'',
              arguments @ [Sql_Blob n, Sql_Text s])
      | (EncryptedTagName n, Encrypted e) \<Rightarrow>
          Ok (''(i.id in (SELECT item_id FROM tags_encrypted WHERE name = ? AND value = ?))'',
              arguments @ [Sql_Blob n, Sql_Blob e])
      | _ \<Rightarrow> Err WalletQueryError)"

definition neq_to_sql :: "TagName \<Rightarrow> TargetValue \<Rightarrow> SqlValue list \<Rightarrow> sql_result" where
  "neq_to_sql name v arguments =
     (case (name, v) of
        (PlainTagName n, Unencrypted s) \<Rightarrow>
          Ok (''(i.id in (SELECT item_id FROM tags_plaintext WHERE name = ? AND value != ?))'',
              arguments @ [Sql_Blob n, Sql_Text s])
      | (EncryptedTagName n, Encrypted e) \<Rightarrow>
          Ok (''(i.id in (SELECT item_id FROM tags_encrypted WHERE name = ? AND value != ?))'',
              arguments @ [Sql_Blob n, Sql_Blob e])
      | _ \<Rightarrow> Err WalletQueryError)"

definition gt_to_sql :: "TagName \<Rightarrow> TargetValue \<Rightarrow> SqlValue list \<Rightarrow> sql_result" where
  "gt_to_sql name v arguments =
     (case (name, v) of
        (PlainTagName n, Unencrypted s) \<Rightarrow>
          Ok (''(i.id in (SELECT item_id FROM tags_plaintext WHERE name = ? AND value > ?))'',
              arguments @ [Sql_Blob n, Sql_Text s])
      | _ \<Rightarrow> Err WalletQueryError)"

definition gte_to_sql :: "TagName \<Rightarrow> TargetValue \<Rightarrow> SqlValue list \<Rightarrow> sql_result" where
  "gte_to_sql name v arguments =
     (case (name, v) of
        (PlainTagName n, Unencrypted s) \<Rightarrow>
          Ok (''(i.id in (SELECT item_id FROM tags_plaintext WHERE name = ? AND value >= ?))'',
              arguments @ [Sql_Blob n, Sql_Text s])
      | _ \<Rightarrow> Err WalletQueryError)"

definition lt_to_sql :: "TagName \<Rightarrow> TargetValue \<Rightarrow> SqlValue list \<Rightarrow> sql_result" where
  "lt_to_sql name v arguments =
     (case (name, v) of
        (PlainTagName n, Unencrypted s) \<Rightarrow>
          Ok (''(i.id in (SELECT item_id FROM tags_plaintext WHERE name = ? AND value < ?))'',
              arguments @ [Sql_Blob n, Sql_Text s])
      | _ \<Rightarrow> Err WalletQueryError)"

definition lte_to_sql :: "TagName \<Rightarrow> TargetValue \<Rightarrow> SqlValue list \<Rightarrow> sql_result" where
  "lte_to_sql name v arguments =
     (case (name, v) of
        (PlainTagName n, Unencrypted s) \<Rightarrow>
          Ok (''(i.id in (SELECT item_id FROM tags_plaintext WHERE name = ? AND value <= ?))'',
              arguments @ [Sql_Blob n, Sql_Text s])
      | _ \<Rightarrow> Err WalletQueryError)"

definition like_to_sql :: "TagName \<Rightarrow> TargetValue \<Rightarrow> SqlValue list \<Rightarrow> sql_result" where
  "like_to_sql name v arguments =
     (case (name, v) of
        (PlainTagName n, Unencrypted s) \<Rightarrow>
          Ok (''(i.id in (SELECT item_id FROM tags_plaintext WHERE name = ? AND value LIKE ?))'',
              arguments @ [Sql_Blob n, Sql_Text s])
      | _ \<Rightarrow> Err WalletQueryError)"

text \<open>
  The loops over the values of \<open>$in\<close>. The one for plain tags writes a comma after every index
  below \<open>len - 1\<close>, the one for encrypted tags after every index up to \<open>len - 2\<close>, which it
  computes before the loop.
\<close>

fun in_plain_loop :: "nat \<Rightarrow> nat \<Rightarrow> TargetValue list \<Rightarrow> string \<Rightarrow> SqlValue list \<Rightarrow> sql_result" where
  "in_plain_loop index len [] in_string arguments = Ok (in_string, arguments)"
| "in_plain_loop index len (v # vs) in_string arguments =
     (case v of
        Unencrypted target \<Rightarrow>
          in_plain_loop (index + 1) len vs
            (in_string @ ''?'' @ (if index < len - 1 then '','' else [])) (arguments @ [Sql_Text target])
      | Encrypted _ \<Rightarrow> Err WalletQueryError)"

fun in_encrypted_loop :: "nat \<Rightarrow> nat \<Rightarrow> TargetValue list \<Rightarrow> string \<Rightarrow> SqlValue list \<Rightarrow> sql_result" where
  "in_encrypted_loop index index_before_last [] in_string arguments = Ok (in_string, arguments)"
| "in_encrypted_loop index index_before_last (v # vs) in_string arguments =
     (case v of
        Encrypted target \<Rightarrow>
          in_encrypted_loop (index + 1) index_before_last vs
            (in_string @ ''?'' @ (if index \<le> index_before_last then '','' else [])) (arguments @ [Sql_Blob target])
      | Unencrypted _ \<Rightarrow> Err WalletQueryError)"

definition in_to_sql :: "bool \<Rightarrow> TagName \<Rightarrow> TargetValue list \<Rightarrow> SqlValue list \<Rightarrow> sql_result" where
  "in_to_sql checks name vs arguments =
     (case name of
        PlainTagName n \<Rightarrow>
          and_then (in_plain_loop 0 (length vs) vs
              ''(i.id in (SELECT item_id FROM tags_plaintext WHERE name = ? AND value IN (''
              (arguments @ [Sql_Blob n])) (\<lambda>(in_string, args).
            Ok (in_string @ '')))'', args))
      | EncryptedTagName n \<Rightarrow>
          and_then (usize_sub checks (length vs) 2) (\<lambda>index_before_last.
          and_then (in_encrypted_loop 0 index_before_last vs
              ''(i.id in (SELECT item_id FROM tags_encrypted WHERE name = ? AND value IN (''
              (arguments @ [Sql_Blob n])) (\<lambda>(in_string, args).
            Ok (in_string @ '')))'', args))))"

fun operator_to_sql :: "bool \<Rightarrow> Operator \<Rightarrow> SqlValue list \<Rightarrow> sql_result" and
  join_loop :: "bool \<Rightarrow> string \<Rightarrow> Operator list \<Rightarrow> string \<Rightarrow> SqlValue list \<Rightarrow> sql_result" where
  "operator_to_sql checks (Op_Eq n v) arguments = eq_to_sql n v arguments"
| "operator_to_sql checks (Op_Neq n v) arguments = neq_to_sql n v arguments"
| "operator_to_sql checks (Op_Gt n v) arguments = gt_to_sql n v arguments"
| "operator_to_sql checks (Op_Gte n v) arguments = gte_to_sql n v arguments"
| "operator_to_sql checks (Op_Lt n v) arguments = lt_to_sql n v arguments"
| "operator_to_sql checks (Op_Lte n v) arguments = lte_to_sql n v arguments"
| "operator_to_sql checks (Op_Like n v) arguments = like_to_sql n v arguments"
| "operator_to_sql checks (Op_In n vs) arguments = in_to_sql checks n vs arguments"
| "operator_to_sql checks (Op_And ops) arguments =
     (if ops = [] then Ok ([], arguments)
      else and_then (join_loop checks '' AND '' ops ''('' arguments) (\<lambda>(s, args). Ok (s @ '')'', args)))"
| "operator_to_sql checks (Op_Or ops) arguments =
     (if ops = [] then Ok ([], arguments)
      else and_then (join_loop checks '' OR '' ops ''('' arguments) (\<lambda>(s, args). Ok (s @ '')'', args)))"
| "operator_to_sql checks (Op_Not op) arguments =
     and_then (operator_to_sql checks op arguments) (\<lambda>(s, args). Ok (''NOT ('' @ s @ '')'', args))"
| "join_loop checks join_str [] s arguments = Ok (s, arguments)"
| "join_loop checks join_str (op # ops) s arguments =
     and_then (operator_to_sql checks op arguments) (\<lambda>(operator_string, args).
       join_loop checks join_str ops (s @ operator_string @ (if ops \<noteq> [] then join_str else [])) args)"

definition wql_to_sql :: "bool \<Rightarrow> bytes \<Rightarrow> Operator \<Rightarrow> sql_result" where
  "wql_to_sql checks item_class op =
     and_then (operator_to_sql checks op [Sql_Blob item_class]) (\<lambda>(clause_string, arguments).
       Ok (''SELECT i.id, i.name, i.value, i.key, i.type FROM items as i WHERE i.type = ?'' @
           (if clause_string \<noteq> [] then '' AND '' @ clause_string else []), arguments))"

definition wql_to_sql_count :: "bool \<Rightarrow> bytes \<Rightarrow> Operator \<Rightarrow> sql_result" where
  "wql_to_sql_count checks item_class op =
     and_then (operator_to_sql checks op [Sql_Blob item_class]) (\<lambda>(clause_string, arguments).
       Ok (''SELECT count(*) FROM items as i WHERE i.type = ?'' @
           (if clause_string \<noteq> [] then '' AND '' @ clause_string else []), arguments))"

section \<open>The meaning of the SQL conditions\<close>

datatype SqlTable = Tags_Plaintext | Tags_Encrypted

datatype SqlRel = Rel_Eq | Rel_Neq | Rel_Gt | Rel_Gte | Rel_Lt | Rel_Lte | Rel_Like

datatype SqlCond =
    Cond_Tag SqlTable SqlRel
  | Cond_Tag_In SqlTable nat
  | Cond_And "SqlCond list"
  | Cond_Or "SqlCond list"
  | Cond_Not SqlCond

fun table_text :: "SqlTable \<Rightarrow> string" where
  "table_text Tags_Plaintext = ''tags_plaintext''"
| "table_text Tags_Encrypted = ''tags_encrypted''"

fun rel_text :: "SqlRel \<Rightarrow> string" where
  "rel_text Rel_Eq = ''=''"
| "rel_text Rel_Neq = ''!=''"
| "rel_text Rel_Gt = ''>''"
| "rel_text Rel_Gte = ''>=''"
| "rel_text Rel_Lt = ''<''"
| "rel_text Rel_Lte = ''<=''"
| "rel_text Rel_Like = ''LIKE''"

fun cond_text :: "SqlCond \<Rightarrow> string" where
  "cond_text (Cond_Tag tbl rel) =
     ''(i.id in (SELECT item_id FROM '' @ table_text tbl @ '' WHERE name = ? AND value '' @ rel_text rel @ '' ?))''"
| "cond_text (Cond_Tag_In tbl n) =
     ''(i.id in (SELECT item_id FROM '' @ table_text tbl @ '' WHERE name = ? AND value IN ('' @
       join '','' (replicate n ''?'') @ '')))''"
| "cond_text (Cond_And cs) = ''('' @ join '' AND '' (map cond_text cs) @ '')''"
| "cond_text (Cond_Or cs) = ''('' @ join '' OR '' (map cond_text cs) @ '')''"
| "cond_text (Cond_Not c) = ''NOT ('' @ cond_text c @ '')''"

text \<open>Comparison of two values; the pattern relation is asked for text only.\<close>

fun sql_less :: "SqlValue \<Rightarrow> SqlValue \<Rightarrow> bool" where
  "sql_less (Sql_Text a) (Sql_Text b) \<longleftrightarrow> a < b"
| "sql_less (Sql_Text a) (Sql_Blob b) \<longleftrightarrow> True"
| "sql_less (Sql_Blob a) (Sql_Text b) \<longleftrightarrow> False"
| "sql_less (Sql_Blob a) (Sql_Blob b) \<longleftrightarrow> a < b"

fun rel_holds :: "(string \<Rightarrow> string \<Rightarrow> bool) \<Rightarrow> SqlRel \<Rightarrow> SqlValue \<Rightarrow> SqlValue \<Rightarrow> bool" where
  "rel_holds like Rel_Eq a b \<longleftrightarrow> a = b"
| "rel_holds like Rel_Neq a b \<longleftrightarrow> a \<noteq> b"
| "rel_holds like Rel_Gt a b \<longleftrightarrow> sql_less b a"
| "rel_holds like Rel_Gte a b \<longleftrightarrow> sql_less b a \<or> a = b"
| "rel_holds like Rel_Lt a b \<longleftrightarrow> sql_less a b"
| "rel_holds like Rel_Lte a b \<longleftrightarrow> sql_less a b \<or> a = b"
| "rel_holds like Rel_Like (Sql_Text a) (Sql_Text b) \<longleftrightarrow> like a b"
| "rel_holds like Rel_Like _ _ \<longleftrightarrow> False"

text \<open>The rows of the two tag tables that belong to one item: name and value.\<close>

type_synonym tag_rows = "SqlTable \<Rightarrow> (bytes \<times> SqlValue) list"

definition tag_in :: "tag_rows \<Rightarrow> SqlTable \<Rightarrow> SqlValue \<Rightarrow> (SqlValue \<Rightarrow> bool) \<Rightarrow> bool" where
  "tag_in rows tbl n P \<longleftrightarrow> list_ex (\<lambda>(name, v). Sql_Blob name = n \<and> P v) (rows tbl)"

fun cond_eval :: "(string \<Rightarrow> string \<Rightarrow> bool) \<Rightarrow> tag_rows \<Rightarrow> SqlCond \<Rightarrow> SqlValue list \<Rightarrow> bool \<times> SqlValue list" and
  cond_evals :: "(string \<Rightarrow> string \<Rightarrow> bool) \<Rightarrow> tag_rows \<Rightarrow> SqlCond list \<Rightarrow> SqlValue list \<Rightarrow> bool list \<times> SqlValue list" where
  "cond_eval like rows (Cond_Tag tbl rel) args =
     (tag_in rows tbl (args ! 0) (\<lambda>v. rel_holds like rel v (args ! 1)), drop 2 args)"
| "cond_eval like rows (Cond_Tag_In tbl n) args =
     (tag_in rows tbl (args ! 0) (\<lambda>v. v \<in> set (take n (drop 1 args))), drop (n + 1) args)"
| "cond_eval like rows (Cond_And cs) args =
     (let (bs, rest) = cond_evals like rows cs args in (list_all id bs, rest))"
| "cond_eval like rows (Cond_Or cs) args =
     (let (bs, rest) = cond_evals like rows cs args in (list_ex id bs, rest))"
| "cond_eval like rows (Cond_Not c) args =
     (let (b, rest) = cond_eval like rows c args in (\<not> b, rest))"
| "cond_evals like rows [] args = ([], args)"
| "cond_evals like rows (c # cs) args =
     (let (b, rest) = cond_eval like rows c args; (bs, rest') = cond_evals like rows cs rest in (b # bs, rest'))"

fun placeholders :: "SqlCond \<Rightarrow> nat" where
  "placeholders (Cond_Tag _ _) = 2"
| "placeholders (Cond_Tag_In _ n) = n + 1"
| "placeholders (Cond_And cs) = sum_list (map placeholders cs)"
| "placeholders (Cond_Or cs) = sum_list (map placeholders cs)"
| "placeholders (Cond_Not c) = placeholders c"

section \<open>The meaning of an operator\<close>

fun name_table :: "TagName \<Rightarrow> SqlTable \<times> bytes" where
  "name_table (PlainTagName n) = (Tags_Plaintext, n)"
| "name_table (EncryptedTagName n) = (Tags_Encrypted, n)"

fun sql_value :: "TargetValue \<Rightarrow> SqlValue" where
  "sql_value (Unencrypted s) = Sql_Text s"
| "sql_value (Encrypted b) = Sql_Blob b"

definition op_tag :: "tag_rows \<Rightarrow> TagName \<Rightarrow> (SqlValue \<Rightarrow> bool) \<Rightarrow> bool" where
  "op_tag rows n P \<longleftrightarrow> tag_in rows (fst (name_table n)) (Sql_Blob (snd (name_table n))) P"

fun op_matches :: "(string \<Rightarrow> string \<Rightarrow> bool) \<Rightarrow> tag_rows \<Rightarrow> Operator \<Rightarrow> bool" where
  "op_matches like rows (Op_And ops) \<longleftrightarrow> list_all (op_matches like rows) ops"
| "op_matches like rows (Op_Or ops) \<longleftrightarrow> ops = [] \<or> list_ex (op_matches like rows) ops"
| "op_matches like rows (Op_Not op) \<longleftrightarrow> \<not> op_matches like rows op"
| "op_matches like rows (Op_Eq n v) \<longleftrightarrow> op_tag rows n (\<lambda>w. rel_holds like Rel_Eq w (sql_value v))"
| "op_matches like rows (Op_Neq n v) \<longleftrightarrow> op_tag rows n (\<lambda>w. rel_holds like Rel_Neq w (sql_value v))"
| "op_matches like rows (Op_Gt n v) \<longleftrightarrow> op_tag rows n (\<lambda>w. rel_holds like Rel_Gt w (sql_value v))"
| "op_matches like rows (Op_Gte n v) \<longleftrightarrow> op_tag rows n (\<lambda>w. rel_holds like Rel_Gte w (sql_value v))"
| "op_matches like rows (Op_Lt n v) \<longleftrightarrow> op_tag rows n (\<lambda>w. rel_holds like Rel_Lt w (sql_value v))"
| "op_matches like rows (Op_Lte n v) \<longleftrightarrow> op_tag rows n (\<lambda>w. rel_holds like Rel_Lte w (sql_value v))"
| "op_matches like rows (Op_Like n v) \<longleftrightarrow> op_tag rows n (\<lambda>w. rel_holds like Rel_Like w (sql_value v))"
| "op_matches like rows (Op_In n vs) \<longleftrightarrow> op_tag rows n (\<lambda>w. w \<in> set (map sql_value vs))"

text \<open>
  Operators whose translation is an SQL condition: no connective inside without operands, and
  \<open>$in\<close> on an encrypted tag does not have exactly one value.
\<close>

fun op_valid :: "Operator \<Rightarrow> bool" where
  "op_valid (Op_And ops) \<longleftrightarrow> ops \<noteq> [] \<and> list_all op_valid ops"
| "op_valid (Op_Or ops) \<longleftrightarrow> ops \<noteq> [] \<and> list_all op_valid ops"
| "op_valid (Op_Not op) \<longleftrightarrow> op_valid op"
| "op_valid (Op_In (EncryptedTagName _) vs) \<longleftrightarrow> length vs \<noteq> 1"
| "op_valid _ \<longleftrightarrow> True"

section \<open>The translation is correct\<close>

fun cond_nonempty :: "SqlCond \<Rightarrow> bool" where
  "cond_nonempty (Cond_And cs) \<longleftrightarrow> cs \<noteq> [] \<and> list_all cond_nonempty cs"
| "cond_nonempty (Cond_Or cs) \<longleftrightarrow> cs \<noteq> [] \<and> list_all cond_nonempty cs"
| "cond_nonempty (Cond_Not c) \<longleftrightarrow> cond_nonempty c"
| "cond_nonempty _ \<longleftrightarrow> True"

definition translates ::
    "(string \<Rightarrow> string \<Rightarrow> bool) \<Rightarrow> Operator \<Rightarrow> SqlCond \<Rightarrow> SqlValue list \<Rightarrow> bool" where
  "translates like op c new \<longleftrightarrow> cond_nonempty c \<and> length new = placeholders c \<and>
     (\<forall>rows rest. cond_eval like rows c (new @ rest) = (op_matches like rows op, rest))"

lemma atom_to_sql:
  assumes "eq_to_sql n v args = Ok (s, args') \<and> rel = Rel_Eq \<or> neq_to_sql n v args = Ok (s, args') \<and> rel = Rel_Neq \<or>
    gt_to_sql n v args = Ok (s, args') \<and> rel = Rel_Gt \<or> gte_to_sql n v args = Ok (s, args') \<and> rel = Rel_Gte \<or>
    lt_to_sql n v args = Ok (s, args') \<and> rel = Rel_Lt \<or> lte_to_sql n v args = Ok (s, args') \<and> rel = Rel_Lte \<or>
    like_to_sql n v args = Ok (s, args') \<and> rel = Rel_Like"
  shows "s = cond_text (Cond_Tag (fst (name_table n)) rel) \<and>
    args' = args @ [Sql_Blob (snd (name_table n)), sql_value v]"
  using assms
  by (auto simp: eq_to_sql_def neq_to_sql_def gt_to_sql_def gte_to_sql_def lt_to_sql_def lte_to_sql_def
      like_to_sql_def split: TagName.splits TargetValue.splits)

lemma atom_translates:
  assumes "s = cond_text (Cond_Tag (fst (name_table n)) rel) \<and>
      args' = args @ [Sql_Blob (snd (name_table n)), sql_value v]"
    and "\<And>rows. op_matches like rows op = op_tag rows n (\<lambda>w. rel_holds like rel w (sql_value v))"
  shows "\<exists>c new. s = cond_text c \<and> args' = args @ new \<and> translates like op c new"
  using assms
  by (intro exI [of _ "Cond_Tag (fst (name_table n)) rel"] exI [of _ "[Sql_Blob (snd (name_table n)), sql_value v]"])
    (simp add: translates_def op_tag_def)

lemma join_Cons: "join sep (x # xs) = x @ (if xs \<noteq> [] then sep @ join sep xs else [])"
  by (cases xs) simp_all

lemma in_plain_loop_Ok:
  assumes "in_plain_loop i len vs s args = Ok (s', args')" and "i + length vs = len"
  shows "s' = s @ join '','' (replicate (length vs) ''?'') \<and> args' = args @ map sql_value vs"
  using assms
  by (induction i len vs s args rule: in_plain_loop.induct) (auto simp: join_Cons split: TargetValue.splits if_splits)

lemma in_encrypted_loop_Ok:
  assumes "in_encrypted_loop i k vs s args = Ok (s', args')" and "vs = [] \<or> i + length vs = k + 2"
  shows "s' = s @ join '','' (replicate (length vs) ''?'') \<and> args' = args @ map sql_value vs"
  using assms
proof (induction i k vs s args rule: in_encrypted_loop.induct)
  case (2 i k v vs s args)
  then show ?case by (cases vs) (auto simp: join_Cons split: TargetValue.splits if_splits)
qed simp

lemma in_to_sql_translates:
  assumes "in_to_sql checks n vs args = Ok (s, args')" and "op_valid (Op_In n vs)"
  shows "s = cond_text (Cond_Tag_In (fst (name_table n)) (length vs)) \<and>
    args' = args @ Sql_Blob (snd (name_table n)) # map sql_value vs"
proof (cases n)
  case (EncryptedTagName b)
  with assms(1) obtain k s1 where k: "usize_sub checks (length vs) 2 = Ok k"
    and l: "in_encrypted_loop 0 k vs ''(i.id in (SELECT item_id FROM tags_encrypted WHERE name = ? AND value IN (''
      (args @ [Sql_Blob b]) = Ok (s1, args')" and s: "s = s1 @ '')))''"
    by (auto simp: in_to_sql_def)
  have "vs = [] \<or> length vs = k + 2"
  proof (cases "2 \<le> length vs")
    case True
    moreover from True k have "length vs - 2 = k" by (simp add: usize_sub_def)
    ultimately show ?thesis by arith
  next
    case False
    moreover from assms(2) EncryptedTagName have "length vs \<noteq> 1" by simp
    ultimately have "length vs = 0" by arith
    then show ?thesis by simp
  qed
  with in_encrypted_loop_Ok [OF l] s EncryptedTagName show ?thesis by simp
next
  case (PlainTagName b)
  with assms(1) obtain s1 where l: "in_plain_loop 0 (length vs) vs
      ''(i.id in (SELECT item_id FROM tags_plaintext WHERE name = ? AND value IN ('' (args @ [Sql_Blob b]) = Ok (s1, args')"
    and s: "s = s1 @ '')))''"
    by (auto simp: in_to_sql_def)
  from in_plain_loop_Ok [OF l] s PlainTagName show ?thesis by simp
qed

lemma operator_to_sql_translates:
  "operator_to_sql checks op args = Ok (s, args') \<Longrightarrow> op_valid op \<Longrightarrow>
     \<exists>c new. s = cond_text c \<and> args' = args @ new \<and> translates like op c new"
  "join_loop checks sep ops s0 args = Ok (s, args') \<Longrightarrow> list_all op_valid ops \<Longrightarrow>
     \<exists>cs new. s = s0 @ join sep (map cond_text cs) \<and> args' = args @ new \<and> (cs = [] \<longleftrightarrow> ops = []) \<and>
       list_all cond_nonempty cs \<and> length new = sum_list (map placeholders cs) \<and>
       (\<forall>rows rest. cond_evals like rows cs (new @ rest) = (map (op_matches like rows) ops, rest))"
proof (induction checks op args and checks sep ops s0 args arbitrary: s args' and s args'
    rule: operator_to_sql_join_loop.induct)
  case (1 checks n v args)
  then show ?case by (intro atom_translates [OF atom_to_sql [where rel = Rel_Eq]]) auto
next
  case (2 checks n v args)
  then show ?case by (intro atom_translates [OF atom_to_sql [where rel = Rel_Neq]]) auto
next
  case (3 checks n v args)
  then show ?case by (intro atom_translates [OF atom_to_sql [where rel = Rel_Gt]]) auto
next
  case (4 checks n v args)
  then show ?case by (intro atom_translates [OF atom_to_sql [where rel = Rel_Gte]]) auto
next
  case (5 checks n v args)
  then show ?case by (intro atom_translates [OF atom_to_sql [where rel = Rel_Lt]]) auto
next
  case (6 checks n v args)
  then show ?case by (intro atom_translates [OF atom_to_sql [where rel = Rel_Lte]]) auto
next
  case (7 checks n v args)
  then show ?case by (intro atom_translates [OF atom_to_sql [where rel = Rel_Like]]) auto
next
  case (9 checks ops args)
  then have ne: "ops \<noteq> []" by simp
  with 9 obtain s1 where j: "join_loop checks '' AND '' ops ''('' args = Ok (s1, args')" and s: "s = s1 @ '')''"
    by auto
  from "9.IH" [OF ne j] "9.prems"(2) ne obtain cs new where c: "s1 = ''('' @ join '' AND '' (map cond_text cs)"
    "args' = args @ new" "length new = sum_list (map placeholders cs)" "cs \<noteq> []" "list_all cond_nonempty cs"
    "\<forall>rows rest. cond_evals like rows cs (new @ rest) = (map (op_matches like rows) ops, rest)"
    by auto
  with s show ?case
    by (intro exI [of _ "Cond_And cs"] exI [of _ new]) (auto simp: translates_def list_all_iff list_ex_iff)
next
  case (10 checks ops args)
  then have ne: "ops \<noteq> []" by simp
  with 10 obtain s1 where j: "join_loop checks '' OR '' ops ''('' args = Ok (s1, args')" and s: "s = s1 @ '')''"
    by auto
  from "10.IH" [OF ne j] "10.prems"(2) ne obtain cs new where c: "s1 = ''('' @ join '' OR '' (map cond_text cs)"
    "args' = args @ new" "length new = sum_list (map placeholders cs)" "cs \<noteq> []" "list_all cond_nonempty cs"
    "\<forall>rows rest. cond_evals like rows cs (new @ rest) = (map (op_matches like rows) ops, rest)"
    by auto
  with s ne show ?case
    by (intro exI [of _ "Cond_Or cs"] exI [of _ new]) (auto simp: translates_def list_ex_iff)
next
  case (11 checks op args)
  then obtain s1 where "operator_to_sql checks op args = Ok (s1, args')" and s: "s = ''NOT ('' @ s1 @ '')''" by auto
  with 11 obtain c new where "s1 = cond_text c" "args' = args @ new" "translates like op c new" by force
  with s show ?case by (intro exI [of _ "Cond_Not c"] exI [of _ new]) (auto simp: translates_def)
next
  case (13 checks sep op ops s0 args)
  then obtain s1 args1 where o: "operator_to_sql checks op args = Ok (s1, args1)"
    and j: "join_loop checks sep ops (s0 @ s1 @ (if ops \<noteq> [] then sep else [])) args1 = Ok (s, args')"
    by auto
  from "13.IH"(1) [OF o] "13.prems"(2) obtain c new1 where c: "s1 = cond_text c" "args1 = args @ new1"
    "translates like op c new1"
    by auto
  from "13.IH"(2) [OF o refl j] "13.prems"(2) obtain cs new2 where
    "s = (s0 @ s1 @ (if ops \<noteq> [] then sep else [])) @ join sep (map cond_text cs)" "args' = args1 @ new2"
    "cs = [] \<longleftrightarrow> ops = []" "list_all cond_nonempty cs" "length new2 = sum_list (map placeholders cs)"
    "\<forall>rows rest. cond_evals like rows cs (new2 @ rest) = (map (op_matches like rows) ops, rest)"
    by auto
  with c show ?case
    by (intro exI [of _ "c # cs"] exI [of _ "new1 @ new2"]) (auto simp: translates_def join_Cons)
next
  case (8 checks n vs args)
  from in_to_sql_translates [of checks n vs args s args'] 8 show ?case
    by (intro exI [of _ "Cond_Tag_In (fst (name_table n)) (length vs)"]
        exI [of _ "Sql_Blob (snd (name_table n)) # map sql_value vs"])
      (simp add: translates_def op_tag_def)
qed simp

section \<open>Encrypted queries on encrypted tags\<close>

text \<open>The rows that the tags of an item take in the two tables.\<close>

fun tag_rows_of :: "Tag list \<Rightarrow> tag_rows" where
  "tag_rows_of tags Tags_Plaintext =
     concat (map (\<lambda>tag. case tag of Tag_PlainText n v \<Rightarrow> [(n, Sql_Text v)] | Tag_Encrypted _ _ \<Rightarrow> []) tags)"
| "tag_rows_of tags Tags_Encrypted =
     concat (map (\<lambda>tag. case tag of Tag_Encrypted n v \<Rightarrow> [(n, Sql_Blob v)] | Tag_PlainText _ _ \<Rightarrow> []) tags)"

abbreviation encrypted_tags :: "CryptoEnv \<Rightarrow> Keys \<Rightarrow> Tags \<Rightarrow> Tag list" where
  "encrypted_tags env keys tags \<equiv> encrypt_tags env tags (tag_name_key keys) (tag_value_key keys) (tags_hmac_key keys)"

text \<open>Order and patterns can be asked for tags whose values are stored in plain text.\<close>

fun comparable :: "Query \<Rightarrow> bool" where
  "comparable (Q_And qs) = list_all comparable qs"
| "comparable (Q_Or qs) = list_all comparable qs"
| "comparable (Q_Not q) = comparable q"
| "comparable (Q_Gt n v) = starts_with n ''~''"
| "comparable (Q_Gte n v) = starts_with n ''~''"
| "comparable (Q_Lt n v) = starts_with n ''~''"
| "comparable (Q_Lte n v) = starts_with n ''~''"
| "comparable (Q_Like n v) = starts_with n ''~''"
| "comparable _ = True"

definition stored_value :: "CryptoEnv \<Rightarrow> Keys \<Rightarrow> string \<Rightarrow> string \<Rightarrow> SqlValue" where
  "stored_value env keys n v =
     (if starts_with n ''~'' then Sql_Text v
      else Sql_Blob (encrypt_as_searchable env (str_bytes v) (tag_value_key keys) (tags_hmac_key keys)))"

lemma hm_get_iff_member: "hm_wf m \<Longrightarrow> hm_get m k = Some v \<longleftrightarrow> (k, v) \<in> set m"
  by (induction m k rule: hm_get.induct) (auto simp: hm_wf_def image_iff)

lemma plain_rows_iff:
  "(n, v) \<in> set (tag_rows_of (encrypt_tags env tags nk vk hk) Tags_Plaintext) \<longleftrightarrow>
     (\<exists>m w. (CHR ''~'' # m, w) \<in> set tags \<and> n = encrypt_as_searchable env (str_bytes m) nk hk \<and> v = Sql_Text w)"
  by (force simp: encrypt_tags_def encrypt_tag_def starts_with_tilde str_bytes_Cons split: if_splits)

lemma encrypted_rows_iff:
  "(n, v) \<in> set (tag_rows_of (encrypt_tags env tags nk vk hk) Tags_Encrypted) \<longleftrightarrow>
     (\<exists>m w. (m, w) \<in> set tags \<and> \<not> starts_with m ''~'' \<and> n = encrypt_as_searchable env (str_bytes m) nk hk \<and>
       v = Sql_Blob (encrypt_as_searchable env (str_bytes w) vk hk))"
  by (force simp: encrypt_tags_def encrypt_tag_def split: if_splits)

lemma op_tag_iff:
  "op_tag rows n P \<longleftrightarrow> (\<exists>v. (snd (name_table n), v) \<in> set (rows (fst (name_table n))) \<and> P v)"
  by (force simp: op_tag_def tag_in_def list_ex_iff)

lemma op_tag_encrypted:
  assumes "crypto_ok env" and "hm_wf tags" and "tag_name_from name = Ok tn"
  shows "op_tag (tag_rows_of (encrypted_tags env keys tags)) (encrypt_query_name env keys tn) P \<longleftrightarrow>
    (\<exists>v. hm_get tags name = Some v \<and> P (stored_value env keys name v))"
proof (cases "starts_with name ''~''")
  case True
  then obtain n where n: "name = CHR ''~'' # n" by (auto simp: starts_with_tilde)
  with assms(3) have tn: "tn = PlainTagName (str_bytes n)"
    by (auto simp: tag_name_from_def str_bytes_Cons split: if_splits)
  show ?thesis
    unfolding op_tag_iff tn n encrypt_query_name.simps name_table.simps fst_conv snd_conv plain_rows_iff
    by (auto simp: encrypt_searchable_inject [OF assms(1)] hm_get_iff_member [OF assms(2)] stored_value_def)
next
  case False
  with assms(3) have tn: "tn = EncryptedTagName (str_bytes name)" by (auto simp: tag_name_from_def split: if_splits)
  show ?thesis
    unfolding op_tag_iff tn encrypt_query_name.simps name_table.simps fst_conv snd_conv encrypted_rows_iff
    using False
    by (auto simp: encrypt_searchable_inject [OF assms(1)] hm_get_iff_member [OF assms(2)] stored_value_def)
qed

lemma encrypt_name_value_Ok:
  "encrypt_name_value env name v keys = Ok (n, t) \<longleftrightarrow>
     (\<exists>tn. tag_name_from name = Ok tn \<and> n = encrypt_query_name env keys tn \<and> sql_value t = stored_value env keys name v)"
proof -
  have "sql_value t = Sql_Text v \<longleftrightarrow> t = Unencrypted v" "sql_value t = Sql_Blob b \<longleftrightarrow> t = Encrypted b" for b
    by (cases t; auto)+
  then show ?thesis
    by (auto simp: encrypt_name_value_def target_value_from_def tag_name_from_def stored_value_def)
qed

lemma stored_value_inject:
  "crypto_ok env \<Longrightarrow> stored_value env keys n v = stored_value env keys n w \<longleftrightarrow> v = w"
  by (simp add: stored_value_def encrypt_searchable_inject)

lemma stored_value_plain: "starts_with n ''~'' \<Longrightarrow> stored_value env keys n v = Sql_Text v"
  by (simp add: stored_value_def)

lemma transform_in_Ok:
  assumes "transform env (Q_In name vs) keys = Ok op"
  obtains tn ts where "op = Op_In (encrypt_query_name env keys tn) ts" "tag_name_from name = Ok tn"
    "map sql_value ts = map (stored_value env keys name) vs"
proof -
  from assms obtain tn ts where o: "tag_name_from name = Ok tn" "op = Op_In (encrypt_query_name env keys tn) ts"
    and l: "list_all2 (\<lambda>v t. map_ok snd (encrypt_name_value env name v keys) = Ok t) vs ts"
    by (auto simp: map_outcome_list_Ok_iff)
  from l have "map sql_value ts = map (stored_value env keys name) vs"
    by (induction rule: list_all2_induct) (auto simp: encrypt_name_value_Ok)
  with o that show thesis by blast
qed

lemma map_outcome_list_matches:
  assumes "map_outcome_list f qs = Ok ops" and "\<And>q op. q \<in> set qs \<Longrightarrow> f q = Ok op \<Longrightarrow> P op = Q q"
  shows "list_all P ops = list_all Q qs \<and> list_ex P ops = list_ex Q qs \<and> (ops = [] \<longleftrightarrow> qs = [])"
  using assms
proof (induction qs arbitrary: ops)
  case (Cons q qs)
  then obtain op ops' where o: "ops = op # ops'" "f q = Ok op" "map_outcome_list f qs = Ok ops'" by auto
  with Cons.prems(2) have "P op = Q q" by simp
  with Cons.IH [OF o(3)] Cons.prems(2) o(1) show ?case by simp
qed simp

lemma transform_matches:
  assumes "crypto_ok env" and "hm_wf tags"
  shows "transform env q keys = Ok op \<Longrightarrow> comparable q \<Longrightarrow>
    op_matches like (tag_rows_of (encrypted_tags env keys tags)) op = query_matches like (hm_get tags) q"
  using assms
proof (induction env q keys arbitrary: op rule: transform.induct)
  case (8 env name vs keys)
  from 8(1) obtain tn ts where "op = Op_In (encrypt_query_name env keys tn) ts" "tag_name_from name = Ok tn"
    "map sql_value ts = map (stored_value env keys name) vs"
    by (rule transform_in_Ok)
  moreover from this(3) have "set (map sql_value ts) = stored_value env keys name ` set vs" by simp
  ultimately show ?case
    using 8 by (auto simp: op_tag_encrypted stored_value_inject image_iff tag_holds_iff simp del: set_map)
next
  case (9 env qs keys)
  then obtain ops where m: "map_outcome_list (\<lambda>q. transform env q keys) qs = Ok ops" and op: "op = Op_And ops" by auto
  have "list_all (op_matches like (tag_rows_of (encrypted_tags env keys tags))) ops =
      list_all (query_matches like (hm_get tags)) qs"
    using map_outcome_list_matches [OF m] 9 by (simp add: list_all_iff)
  with op show ?case by simp
next
  case (10 env qs keys)
  then obtain ops where m: "map_outcome_list (\<lambda>q. transform env q keys) qs = Ok ops" and op: "op = Op_Or ops" by auto
  have "list_ex (op_matches like (tag_rows_of (encrypted_tags env keys tags))) ops =
      list_ex (query_matches like (hm_get tags)) qs \<and> (ops = [] \<longleftrightarrow> qs = [])"
    using map_outcome_list_matches [OF m] 10 by (simp add: list_all_iff)
  with op show ?case by simp
qed (auto simp: encrypt_name_value_Ok op_tag_encrypted tag_holds_iff stored_value_inject stored_value_plain le_less)

section \<open>Queries the default storage can run\<close>

definition searchable_name :: "string \<Rightarrow> bool" where
  "searchable_name n \<longleftrightarrow> n \<noteq> [] \<and> n \<noteq> ''~''"

fun sql_query :: "Query \<Rightarrow> bool" where
  "sql_query (Q_And qs) \<longleftrightarrow> qs \<noteq> [] \<and> list_all sql_query qs"
| "sql_query (Q_Or qs) \<longleftrightarrow> qs \<noteq> [] \<and> list_all sql_query qs"
| "sql_query (Q_Not q) \<longleftrightarrow> sql_query q"
| "sql_query (Q_Eq n v) \<longleftrightarrow> searchable_name n"
| "sql_query (Q_Neq n v) \<longleftrightarrow> searchable_name n"
| "sql_query (Q_Gt n v) \<longleftrightarrow> searchable_name n \<and> starts_with n ''~''"
| "sql_query (Q_Gte n v) \<longleftrightarrow> searchable_name n \<and> starts_with n ''~''"
| "sql_query (Q_Lt n v) \<longleftrightarrow> searchable_name n \<and> starts_with n ''~''"
| "sql_query (Q_Lte n v) \<longleftrightarrow> searchable_name n \<and> starts_with n ''~''"
| "sql_query (Q_Like n v) \<longleftrightarrow> searchable_name n \<and> starts_with n ''~''"
| "sql_query (Q_In n vs) \<longleftrightarrow> searchable_name n \<and> (starts_with n ''~'' \<or> 2 \<le> length vs)"

lemma sql_query_comparable: "sql_query q \<Longrightarrow> comparable q"
  by (induction q rule: sql_query.induct) (auto simp: list_all_iff)

definition runs :: "bool \<Rightarrow> Operator \<Rightarrow> bool" where
  "runs checks op \<longleftrightarrow> op_valid op \<and> (\<forall>args. \<exists>s args'. operator_to_sql checks op args = Ok (s, args'))"

lemma runsD: "runs checks op \<Longrightarrow> \<exists>s args'. operator_to_sql checks op args = Ok (s, args')"
  by (simp add: runs_def)

lemma tag_name_from_searchable:
  "searchable_name n \<Longrightarrow> tag_name_from n =
     Ok (if starts_with n ''~'' then PlainTagName (drop 1 (str_bytes n)) else EncryptedTagName (str_bytes n))"
  by (cases n) (auto simp: searchable_name_def tag_name_from_def)

lemma join_loop_runs:
  "list_all (runs checks) ops \<Longrightarrow> \<exists>s' args'. join_loop checks sep ops s args = Ok (s', args')"
proof (induction ops arbitrary: s args)
  case (Cons op ops)
  then have "runs checks op" by simp
  then obtain s1 args1 where "operator_to_sql checks op args = Ok (s1, args1)" using runsD by blast
  with Cons show ?case by simp
qed simp

lemma runs_connective:
  assumes "ops \<noteq> []" and "list_all (runs checks) ops"
  shows "runs checks (Op_And ops)" and "runs checks (Op_Or ops)"
proof -
  have "list_all op_valid ops" using assms(2) by (auto simp: list_all_iff runs_def)
  moreover have "\<exists>s args'. operator_to_sql checks (Op_And ops) args = Ok (s, args')"
    "\<exists>s args'. operator_to_sql checks (Op_Or ops) args = Ok (s, args')" for args
    using assms(1) join_loop_runs [OF assms(2), of "'' AND ''" "''(''" args]
      join_loop_runs [OF assms(2), of "'' OR ''" "''(''" args]
    by auto
  ultimately show "runs checks (Op_And ops)" and "runs checks (Op_Or ops)" using assms(1) by (simp_all add: runs_def)
qed

lemma in_plain_loop_runs: "\<exists>args' s'. in_plain_loop i len (map Unencrypted vs) s args = Ok (s', args')"
  by (induction vs arbitrary: i s args) auto

lemma in_encrypted_loop_runs: "\<exists>args' s'. in_encrypted_loop i k (map Encrypted vs) s args = Ok (s', args')"
  by (induction vs arbitrary: i s args) auto

lemma in_values_encrypt:
  assumes "searchable_name n"
  shows "map_outcome_list (\<lambda>v. map_ok snd (encrypt_name_value env n v keys)) vs =
    Ok (if starts_with n ''~'' then map Unencrypted vs
        else map Encrypted (map (\<lambda>v. encrypt_as_searchable env (str_bytes v) (tag_value_key keys) (tags_hmac_key keys)) vs))"
  using assms
  by (induction vs) (simp_all add: encrypt_name_value_def tag_name_from_searchable target_value_from_def)

lemma in_runs:
  assumes "searchable_name n" and "starts_with n ''~'' \<or> 2 \<le> length vs"
  shows "\<exists>op. transform env (Q_In n vs) keys = Ok op \<and> runs checks op"
proof (cases "starts_with n ''~''")
  case True
  with assms(1) show ?thesis
    by (simp add: in_values_encrypt tag_name_from_searchable runs_def in_to_sql_def in_plain_loop_runs)
next
  case False
  then have "usize_sub checks (length vs) 2 = Ok (length vs - 2)" using assms(2) by (simp add: usize_sub_def)
  with False assms show ?thesis
    by (auto simp: in_values_encrypt tag_name_from_searchable runs_def in_to_sql_def in_encrypted_loop_runs
        simp del: map_map)
qed

lemma map_outcome_list_runs:
  assumes "\<And>q. q \<in> set qs \<Longrightarrow> \<exists>op. transform env q keys = Ok op \<and> runs checks op"
  obtains ops where "map_outcome_list (\<lambda>q. transform env q keys) qs = Ok ops" "list_all (runs checks) ops"
    "ops = [] \<longleftrightarrow> qs = []"
proof -
  from assms obtain g where g: "\<And>q. q \<in> set qs \<Longrightarrow> transform env q keys = Ok (g q) \<and> runs checks (g q)" by metis
  then have "map_outcome_list (\<lambda>q. transform env q keys) qs = Ok (map g qs)" by (intro map_outcome_list_total) simp
  moreover have "list_all (runs checks) (map g qs)" using g by (simp add: list_all_iff)
  ultimately show thesis using that by simp
qed

lemma transform_runs: "sql_query q \<Longrightarrow> \<exists>op. transform env q keys = Ok op \<and> runs checks op"
proof (induction q rule: sql_query.induct)
  case (1 qs)
  then obtain ops where "map_outcome_list (\<lambda>q. transform env q keys) qs = Ok ops" "list_all (runs checks) ops"
    "ops = [] \<longleftrightarrow> qs = []"
    by (metis list_all_iff map_outcome_list_runs sql_query.simps(1))
  with 1 show ?case using runs_connective(1) [of ops checks] by auto
next
  case (2 qs)
  then obtain ops where "map_outcome_list (\<lambda>q. transform env q keys) qs = Ok ops" "list_all (runs checks) ops"
    "ops = [] \<longleftrightarrow> qs = []"
    by (metis list_all_iff map_outcome_list_runs sql_query.simps(2))
  with 2 show ?case using runs_connective(2) [of ops checks] by auto
next
  case (3 q)
  then obtain op where "transform env q keys = Ok op" "runs checks op" by auto
  then show ?case by (fastforce simp: runs_def)
next
  case (11 n vs)
  then show ?case using in_runs by simp
qed (auto simp: encrypt_name_value_def tag_name_from_searchable target_value_from_def runs_def eq_to_sql_def
    neq_to_sql_def gt_to_sql_def gte_to_sql_def lt_to_sql_def lte_to_sql_def like_to_sql_def)

section \<open>Properties\<close>



text \<open>
  \<open>$in\<close> with one value on an encrypted tag cannot be run: the translation computes
  \<open>len - 2\<close>, which panics with overflow checks and otherwise leaves a comma behind the only
  placeholder. \<open>optimise\<close> turns such a condition into an equality, but not below \<open>$not\<close>.
\<close>

theorem single_encrypted_in_fails:
  "in_to_sql True (EncryptedTagName n) [Encrypted e] args = Panic \<and>
   in_to_sql False (EncryptedTagName n) [Encrypted e] args =
     Ok (''(i.id in (SELECT item_id FROM tags_encrypted WHERE name = ? AND value IN (?,)))'',
         args @ [Sql_Blob n, Sql_Blob e]) \<and>
   optimise (Q_Not (Q_In name [v])) = Some (Q_Not (Q_In name [v]))"
  by (simp add: in_to_sql_def usize_sub_def)

text \<open>
  A negation of the query without restriction is translated to \<open>NOT ()\<close>, which is not an
  SQL expression, although \<open>{"$not": {}}\<close> is a query the parser accepts.
\<close>

theorem negated_empty_query_fails:
  "query_deserialize (Value_Object [(''$not'', Value_Object [])]) = Inr (Q_Not (Q_And [])) \<and>
   optimise (Q_Not (Q_And [])) = Some (Q_Not (Q_And [])) \<and>
   transform env (Q_Not (Q_And [])) keys = Ok (Op_Not (Op_And [])) \<and>
   operator_to_sql checks (Op_Not (Op_And [])) args = Ok (''NOT ()'', args)"
  by (simp add: parse_query_def)

text \<open>
  The text of an operator that a plugged storage receives does not determine the operator:
  values of plain tags are printed without escaping, so that a value with quotes in it is printed
  like several values.
\<close>

theorem operator_text_ambiguous:
  "operator_to_string b64 (Op_In n [Unencrypted (s @ [CHR 34, CHR '','', CHR 34] @ t)]) =
   operator_to_string b64 (Op_In n [Unencrypted s, Unencrypted t])"
  by simp

end
