(* ===== verification/Wallet_Storage.thy ===== *)
theory Wallet_Storage
  imports Wallet_Query
begin

text \<open>
  The storage of a wallet: the interface \<open>WalletStorage\<close> (\<open>indy-wallet/src/storage/mod.rs\<close>) as a
  record of operations, and its contract as a locale. An operation that changes the storage returns
  its result and the storage after it. An iterator holds the records that are still to be fetched.
\<close>

section \<open>The interface\<close>

record RecordOptions =
  ro_retrieve_type :: bool
  ro_retrieve_value :: bool
  ro_retrieve_tags :: bool

record SearchOptions =
  so_retrieve_records :: bool
  so_retrieve_total_count :: bool
  so_retrieve_type :: bool
  so_retrieve_value :: bool
  so_retrieve_tags :: bool

definition record_options_default :: RecordOptions where
  "record_options_default = \<lparr>ro_retrieve_type = False, ro_retrieve_value = True, ro_retrieve_tags = False\<rparr>"

definition search_options_default :: SearchOptions where
  "search_options_default =
     \<lparr>so_retrieve_records = True, so_retrieve_total_count = False, so_retrieve_type = False,
      so_retrieve_value = True, so_retrieve_tags = False\<rparr>"

record StorageIterator =
  si_records :: "StorageRecord list"
  si_total_count :: "nat option"

record 's WalletStorage =
  st_get :: "'s \<Rightarrow> bytes \<Rightarrow> bytes \<Rightarrow> string \<Rightarrow> StorageRecord outcome"
  st_add :: "'s \<Rightarrow> bytes \<Rightarrow> bytes \<Rightarrow> EncryptedValue \<Rightarrow> Tag list \<Rightarrow> unit outcome \<times> 's"
  st_update :: "'s \<Rightarrow> bytes \<Rightarrow> bytes \<Rightarrow> EncryptedValue \<Rightarrow> unit outcome \<times> 's"
  st_add_tags :: "'s \<Rightarrow> bytes \<Rightarrow> bytes \<Rightarrow> Tag list \<Rightarrow> unit outcome \<times> 's"
  st_update_tags :: "'s \<Rightarrow> bytes \<Rightarrow> bytes \<Rightarrow> Tag list \<Rightarrow> unit outcome \<times> 's"
  st_delete_tags :: "'s \<Rightarrow> bytes \<Rightarrow> bytes \<Rightarrow> StorageTagName list \<Rightarrow> unit outcome \<times> 's"
  st_delete :: "'s \<Rightarrow> bytes \<Rightarrow> bytes \<Rightarrow> unit outcome \<times> 's"
  st_get_storage_metadata :: "'s \<Rightarrow> bytes outcome"
  st_set_storage_metadata :: "'s \<Rightarrow> bytes \<Rightarrow> unit outcome \<times> 's"
  st_get_all :: "'s \<Rightarrow> StorageIterator outcome"
  st_search :: "'s \<Rightarrow> bytes \<Rightarrow> Operator \<Rightarrow> string option \<Rightarrow> StorageIterator outcome"

text \<open>
  The parameters of the storage: serde's reading of the options, the pattern relation of SQL,
  overflow checks, and whether the connection enforces foreign keys.
\<close>

record StorageEnv =
  se_record_options :: "string \<Rightarrow> RecordOptions option"
  se_search_options :: "string \<Rightarrow> SearchOptions option"
  se_like :: "string \<Rightarrow> string \<Rightarrow> bool"
  se_checks :: bool
  se_foreign_keys :: bool

section \<open>The contract of a storage\<close>

text \<open>
  A storage maps type and id of an item to its encrypted value and the set of its tags. The tags of
  an item have different names.
\<close>

record StoredItem =
  item_value :: EncryptedValue
  item_tags :: "Tag set"

type_synonym content = "bytes \<Rightarrow> bytes \<Rightarrow> StoredItem option"

fun tag_key :: "Tag \<Rightarrow> StorageTagName" where
  "tag_key (Tag_Encrypted n _) = OfEncrypted n"
| "tag_key (Tag_PlainText n _) = OfPlain n"

definition record_options :: "StorageEnv \<Rightarrow> string \<Rightarrow> RecordOptions option" where
  "record_options env options = (if options = ''{}'' then Some record_options_default else se_record_options env options)"

definition search_options :: "StorageEnv \<Rightarrow> string option \<Rightarrow> SearchOptions option" where
  "search_options env options =
     (case options of None \<Rightarrow> Some search_options_default | Some s \<Rightarrow> se_search_options env s)"

definition stored_record :: "RecordOptions \<Rightarrow> bytes \<times> bytes \<times> StoredItem \<times> Tag list \<Rightarrow> StorageRecord" where
  "stored_record options = (\<lambda>(t, n, item, tags).
     \<lparr>sr_id = n,
      sr_value = (if ro_retrieve_value options then Some (item_value item) else None),
      sr_type = (if ro_retrieve_type options then Some t else None),
      sr_tags = (if ro_retrieve_tags options then Some tags else None)\<rparr>)"

definition fetch_options :: "SearchOptions \<Rightarrow> RecordOptions" where
  "fetch_options so =
     \<lparr>ro_retrieve_type = so_retrieve_type so, ro_retrieve_value = so_retrieve_value so,
      ro_retrieve_tags = so_retrieve_tags so\<rparr>"

definition all_options :: RecordOptions where
  "all_options = \<lparr>ro_retrieve_type = True, ro_retrieve_value = True, ro_retrieve_tags = True\<rparr>"

text \<open>A listing of the items with a property, each once, with its tags in some order.\<close>

definition lists_items ::
    "content \<Rightarrow> (bytes \<Rightarrow> Tag set \<Rightarrow> bool) \<Rightarrow> (bytes \<times> bytes \<times> StoredItem \<times> Tag list) list \<Rightarrow> bool" where
  "lists_items c P rs \<longleftrightarrow>
     distinct (map (\<lambda>(t, n, _). (t, n)) rs) \<and>
     (\<forall>(t, n, item, tags) \<in> set rs. set tags = item_tags item) \<and>
     (\<lambda>(t, n, item, _). (t, n, item)) ` set rs = {(t, n, item). c t n = Some item \<and> P t (item_tags item)}"

definition set_matches :: "(string \<Rightarrow> string \<Rightarrow> bool) \<Rightarrow> Tag set \<Rightarrow> Operator \<Rightarrow> bool" where
  "set_matches like tags op \<longleftrightarrow> (\<exists>ts. set ts = tags \<and> op_matches like (tag_rows_of ts) op)"

locale wallet_storage =
  fixes ops :: "'s WalletStorage"
    and senv :: StorageEnv
    and invar :: "'s \<Rightarrow> bool"
    and content :: "'s \<Rightarrow> content"
  assumes get_law: "invar s \<Longrightarrow> record_options senv options = Some ro \<Longrightarrow>
      case content s t n of
        None \<Rightarrow> st_get ops s t n options = Err WalletItemNotFound
      | Some item \<Rightarrow> \<exists>tags. set tags = item_tags item \<and>
          st_get ops s t n options = Ok (stored_record ro (t, n, item, tags))"
    and add_law: "invar s \<Longrightarrow> inj_on tag_key (set tags) \<Longrightarrow> distinct tags \<Longrightarrow> st_add ops s t n v tags = (r, s') \<Longrightarrow>
      invar s' \<and> (if content s t n = None
        then r = Ok () \<and> content s' = (content s)(t := (content s t)(n \<mapsto> \<lparr>item_value = v, item_tags = set tags\<rparr>))
        else r = Err WalletItemAlreadyExists \<and> content s' = content s)"
    and update_law: "invar s \<Longrightarrow> st_update ops s t n v = (r, s') \<Longrightarrow>
      invar s' \<and> (case content s t n of
        None \<Rightarrow> r = Err WalletItemNotFound \<and> content s' = content s
      | Some item \<Rightarrow> r = Ok () \<and> content s' = (content s)(t := (content s t)(n \<mapsto> item\<lparr>item_value := v\<rparr>)))"
    and add_tags_law: "invar s \<Longrightarrow> inj_on tag_key (set tags) \<Longrightarrow> st_add_tags ops s t n tags = (r, s') \<Longrightarrow>
      invar s' \<and> (case content s t n of
        None \<Rightarrow> r = Err WalletItemNotFound \<and> content s' = content s
      | Some item \<Rightarrow> r = Ok () \<and> content s' = (content s)(t := (content s t)(n \<mapsto>
          item\<lparr>item_tags := {x \<in> item_tags item. tag_key x \<notin> tag_key ` set tags} \<union> set tags\<rparr>)))"
    and update_tags_law: "invar s \<Longrightarrow> inj_on tag_key (set tags) \<Longrightarrow> distinct tags \<Longrightarrow>
      st_update_tags ops s t n tags = (r, s') \<Longrightarrow>
      invar s' \<and> (case content s t n of
        None \<Rightarrow> r = Err WalletItemNotFound \<and> content s' = content s
      | Some item \<Rightarrow> r = Ok () \<and> content s' = (content s)(t := (content s t)(n \<mapsto> item\<lparr>item_tags := set tags\<rparr>)))"
    and delete_tags_law: "invar s \<Longrightarrow> st_delete_tags ops s t n names = (r, s') \<Longrightarrow>
      invar s' \<and> (case content s t n of
        None \<Rightarrow> r = Err WalletItemNotFound \<and> content s' = content s
      | Some item \<Rightarrow> r = Ok () \<and> content s' = (content s)(t := (content s t)(n \<mapsto>
          item\<lparr>item_tags := {x \<in> item_tags item. tag_key x \<notin> set names}\<rparr>)))"
    and delete_law: "invar s \<Longrightarrow> se_foreign_keys senv \<Longrightarrow> st_delete ops s t n = (r, s') \<Longrightarrow>
      invar s' \<and> r = (if content s t n = None then Err WalletItemNotFound else Ok ()) \<and>
      content s' = (content s)(t := (content s t)(n := None))"
    and get_all_law: "invar s \<Longrightarrow> \<exists>rs. lists_items (content s) (\<lambda>_ _. True) rs \<and>
      st_get_all ops s = Ok \<lparr>si_records = map (stored_record all_options) rs, si_total_count = None\<rparr>"
    and search_law: "invar s \<Longrightarrow> runs (se_checks senv) op \<or> op = Op_And [] \<Longrightarrow> search_options senv sopts = Some so \<Longrightarrow>
      \<exists>rs. lists_items (content s) (\<lambda>t' tags. t' = t \<and> set_matches (se_like senv) tags op) rs \<and>
        st_search ops s t op sopts =
          Ok \<lparr>si_records = (if so_retrieve_records so then map (stored_record (fetch_options so)) rs else []),
              si_total_count = (if so_retrieve_total_count so then Some (length rs) else None)\<rparr>"
    and tags_law: "invar s \<Longrightarrow> content s t n = Some item \<Longrightarrow> inj_on tag_key (item_tags item) \<and> finite (item_tags item)"

end
