(* ===== verification/Sql_Engine.thy ===== *)
theory Sql_Engine
  imports Wallet_Query
begin

text \<open>
  The part of SQL that the default storage relies on: the tables of \<open>_CREATE_SCHEMA\<close>
  (\<open>storage/default/mod.rs\<close>), the statements that change them, and the evaluation of the search
  statement from its text. The search statement is the only one that is put together at run
  time, so it is the only one that is parsed: \<open>parse_cond\<close> reads the conditions of its \<open>WHERE\<close>
  clause and is shown to read back the text of every condition.

  Rows keep the order of their insertion. An \<open>INTEGER PRIMARY KEY\<close> column that is not given a
  value gets the largest one in use plus one, as SQLite documents. Whether a connection enforces
  foreign keys is a flag of the engine.
\<close>

section \<open>Tables\<close>

record ItemRow =
  it_id :: nat
  it_type :: bytes
  it_name :: bytes
  it_value :: bytes
  it_key :: bytes

record SqliteDb =
  db_metadata :: "bytes list"
  db_items :: "ItemRow list"
  db_tags_encrypted :: "(nat \<times> bytes \<times> bytes) list"
  db_tags_plaintext :: "(nat \<times> bytes \<times> string) list"

definition db_empty :: SqliteDb where
  "db_empty = \<lparr>db_metadata = [], db_items = [], db_tags_encrypted = [], db_tags_plaintext = []\<rparr>"

text \<open>The rows of the tag tables that belong to an item.\<close>

fun item_rows :: "SqliteDb \<Rightarrow> nat \<Rightarrow> tag_rows" where
  "item_rows db i Tags_Encrypted =
     map (\<lambda>(_, n, v). (n, Sql_Blob v)) (filter (\<lambda>(item_id, _). item_id = i) (db_tags_encrypted db))"
| "item_rows db i Tags_Plaintext =
     map (\<lambda>(_, n, v). (n, Sql_Text v)) (filter (\<lambda>(item_id, _). item_id = i) (db_tags_plaintext db))"

section \<open>Reading a condition\<close>

fun strip :: "string \<Rightarrow> string \<Rightarrow> string option" where
  "strip [] s = Some s"
| "strip (c # cs) (d # ds) = (if c = d then strip cs ds else None)"
| "strip (c # cs) [] = None"

lemma strip_append [simp]: "strip p (p @ s) = Some s"
  by (induction p) auto

lemma strip_Some: "strip p s = Some r \<longleftrightarrow> s = p @ r"
  by (induction p s rule: strip.induct) auto

definition parse_table :: "string \<Rightarrow> (SqlTable \<times> string) option" where
  "parse_table s =
     (case strip ''tags_plaintext'' s of
        Some r \<Rightarrow> Some (Tags_Plaintext, r)
      | None \<Rightarrow> (case strip ''tags_encrypted'' s of Some r \<Rightarrow> Some (Tags_Encrypted, r) | None \<Rightarrow> None))"

text \<open>A comparison with its placeholder; the longer of two symbols is tried first.\<close>

definition parse_rel :: "string \<Rightarrow> (SqlRel \<times> string) option" where
  "parse_rel s =
     (let try = (\<lambda>(rel, sym) k. case strip sym s of Some r \<Rightarrow> Some (rel, r) | None \<Rightarrow> k)
      in try (Rel_Eq, ''= ?'') (try (Rel_Neq, ''!= ?'') (try (Rel_Gte, ''>= ?'') (try (Rel_Gt, ''> ?'')
           (try (Rel_Lte, ''<= ?'') (try (Rel_Lt, ''< ?'') (try (Rel_Like, ''LIKE ?'') None)))))))"

fun parse_more_marks :: "string \<Rightarrow> nat \<times> string" where
  "parse_more_marks (CHR '','' # CHR ''?'' # s) = (let (n, r) = parse_more_marks s in (n + 1, r))"
| "parse_more_marks s = (0, s)"

definition parse_marks :: "string \<Rightarrow> nat \<times> string" where
  "parse_marks s =
     (case strip ''?'' s of
        None \<Rightarrow> (0, s)
      | Some r \<Rightarrow> (let (n, r') = parse_more_marks r in (n + 1, r')))"

definition parse_atom :: "string \<Rightarrow> (SqlCond \<times> string) option" where
  "parse_atom s =
     Option.bind (parse_table s) (\<lambda>(tbl, r).
     Option.bind (strip '' WHERE name = ? AND value '' r) (\<lambda>r1.
       case strip ''IN ('' r1 of
         Some r2 \<Rightarrow>
           (let (n, r3) = parse_marks r2
            in Option.bind (strip '')))'' r3) (\<lambda>r4. Some (Cond_Tag_In tbl n, r4)))
       | None \<Rightarrow>
           Option.bind (parse_rel r1) (\<lambda>(rel, r2).
           Option.bind (strip ''))'' r2) (\<lambda>r3. Some (Cond_Tag tbl rel, r3)))))"

fun parse_cond :: "nat \<Rightarrow> string \<Rightarrow> (SqlCond \<times> string) option" and
  parse_more :: "nat \<Rightarrow> string \<Rightarrow> string \<Rightarrow> (SqlCond list \<times> string) option" where
  "parse_cond 0 s = None"
| "parse_cond (Suc k) s =
     (case strip ''(i.id in (SELECT item_id FROM '' s of
        Some r \<Rightarrow> parse_atom r
      | None \<Rightarrow>
          (case strip ''NOT ('' s of
             Some r \<Rightarrow>
               Option.bind (parse_cond k r) (\<lambda>(c, r1).
               Option.bind (strip '')'' r1) (\<lambda>r2. Some (Cond_Not c, r2)))
           | None \<Rightarrow>
               Option.bind (strip ''('' s) (\<lambda>r.
               Option.bind (parse_cond k r) (\<lambda>(c, r1).
                 case strip '' OR '' r1 of
                   Some _ \<Rightarrow>
                     Option.bind (parse_more k '' OR '' r1) (\<lambda>(cs, r2).
                     Option.bind (strip '')'' r2) (\<lambda>r3. Some (Cond_Or (c # cs), r3)))
                 | None \<Rightarrow>
                     Option.bind (parse_more k '' AND '' r1) (\<lambda>(cs, r2).
                     Option.bind (strip '')'' r2) (\<lambda>r3. Some (Cond_And (c # cs), r3)))))))"
| "parse_more 0 sep s = None"
| "parse_more (Suc k) sep s =
     (case strip sep s of
        None \<Rightarrow> Some ([], s)
      | Some r \<Rightarrow>
          Option.bind (parse_cond k r) (\<lambda>(c, r1).
          Option.bind (parse_more k sep r1) (\<lambda>(cs, r2). Some (c # cs, r2))))"

section \<open>Reading back the text of a condition\<close>

text \<open>A disjunction of one operand has the text of a conjunction of one operand.\<close>

fun cond_norm :: "SqlCond \<Rightarrow> SqlCond" where
  "cond_norm (Cond_And cs) = Cond_And (map cond_norm cs)"
| "cond_norm (Cond_Or cs) = (case cs of [c] \<Rightarrow> Cond_And [cond_norm c] | _ \<Rightarrow> Cond_Or (map cond_norm cs))"
| "cond_norm (Cond_Not c) = Cond_Not (cond_norm c)"
| "cond_norm c = c"

fun cond_fuel :: "SqlCond \<Rightarrow> nat" where
  "cond_fuel (Cond_And cs) = Suc (sum_list (map (\<lambda>c. Suc (cond_fuel c)) cs))"
| "cond_fuel (Cond_Or cs) = Suc (sum_list (map (\<lambda>c. Suc (cond_fuel c)) cs))"
| "cond_fuel (Cond_Not c) = Suc (cond_fuel c)"
| "cond_fuel _ = 1"

definition more_text :: "string \<Rightarrow> SqlCond list \<Rightarrow> string" where
  "more_text sep cs = concat (map (\<lambda>c. sep @ cond_text c) cs)"

lemma join_more_text: "join sep (map cond_text (c # cs)) = cond_text c @ more_text sep cs"
  by (induction cs arbitrary: c) (simp_all add: more_text_def)

lemma parse_table_text [simp]: "parse_table (table_text tbl @ s) = Some (tbl, s)"
  by (cases tbl) (simp_all add: parse_table_def)

lemma parse_rel_text: "parse_rel (rel_text rel @ CHR '' '' # CHR ''?'' # s) = Some (rel, s)"
  by (cases rel) (simp_all add: parse_rel_def)

lemma parse_more_marks_text: "parse_more_marks (concat (replicate n '',?'') @ CHR '')'' # s) = (n, CHR '')'' # s)"
  by (induction n) simp_all

lemma join_marks: "join '','' (replicate (Suc n) ''?'') = CHR ''?'' # concat (replicate n '',?'')"
  by (induction n) simp_all

lemma parse_marks_text: "parse_marks (join '','' (replicate n ''?'') @ CHR '')'' # s) = (n, CHR '')'' # s)"
proof (cases n)
  case (Suc m)
  show ?thesis by (simp only: Suc join_marks) (simp add: parse_marks_def parse_more_marks_text)
qed (simp add: parse_marks_def)

lemma parse_atom_text:
  "parse_atom (table_text tbl @ '' WHERE name = ? AND value '' @ rel_text rel @ '' ?))'' @ s) = Some (Cond_Tag tbl rel, s)"
  "parse_atom (table_text tbl @ '' WHERE name = ? AND value IN ('' @ join '','' (replicate n ''?'') @ '')))'' @ s) =
     Some (Cond_Tag_In tbl n, s)"
proof -
  have "strip ''IN ('' (rel_text rel @ r) = None" for r by (cases rel) simp_all
  then show "parse_atom (table_text tbl @ '' WHERE name = ? AND value '' @ rel_text rel @ '' ?))'' @ s) =
      Some (Cond_Tag tbl rel, s)"
    by (simp add: parse_atom_def parse_rel_text)
  show "parse_atom (table_text tbl @ '' WHERE name = ? AND value IN ('' @ join '','' (replicate n ''?'') @ '')))'' @ s) =
      Some (Cond_Tag_In tbl n, s)"
    by (simp add: parse_atom_def parse_marks_text)
qed

text \<open>A condition starts with a parenthesis or with \<open>NOT\<close>.\<close>

lemma cond_text_start: "\<exists>r. cond_text c = CHR ''('' # r \<or> cond_text c = CHR ''N'' # r"
  by (cases c) simp_all

lemma strip_compound:
  "strip ''i.id in (SELECT item_id FROM '' (cond_text c @ s) = None"
  "strip ''NOT ('' (CHR ''('' # s) = None"
  using cond_text_start [of c] by auto

lemma parse_cond_text_aux:
  "(cond_nonempty c \<longrightarrow> cond_fuel c \<le> k \<longrightarrow> parse_cond k (cond_text c @ s) = Some (cond_norm c, s)) \<and>
   (list_all cond_nonempty cs \<longrightarrow> Suc (sum_list (map (\<lambda>c. Suc (cond_fuel c)) cs)) \<le> k \<longrightarrow>
     sep = '' AND '' \<or> sep = '' OR '' \<longrightarrow>
     parse_more k sep (more_text sep cs @ CHR '')'' # s) = Some (map cond_norm cs, CHR '')'' # s))"
proof (induction k arbitrary: c cs s sep)
  case 0
  then show ?case by (cases c) auto
next
  case (Suc k)
  have cond: "parse_cond k (cond_text c @ s) = Some (cond_norm c, s)" if "cond_nonempty c" "cond_fuel c \<le> k" for c s
    using Suc that by blast
  have more: "parse_more k sep (more_text sep cs @ CHR '')'' # s) = Some (map cond_norm cs, CHR '')'' # s)"
    if "list_all cond_nonempty cs" "Suc (sum_list (map (\<lambda>c. Suc (cond_fuel c)) cs)) \<le> k"
      "sep = '' AND '' \<or> sep = '' OR ''" for cs s sep
    using Suc that by blast
  show ?case
  proof (intro conjI impI)
    assume ne: "cond_nonempty c" and fuel: "cond_fuel c \<le> Suc k"
    show "parse_cond (Suc k) (cond_text c @ s) = Some (cond_norm c, s)"
    proof (cases c)
      case (Cond_Tag tbl rel)
      then show ?thesis using parse_atom_text(1) [of tbl rel s] by simp
    next
      case (Cond_Tag_In tbl n)
      then show ?thesis using parse_atom_text(2) [of tbl n s] by simp
    next
      case (Cond_Not c1)
      then show ?thesis using cond [of c1 "CHR '')'' # s"] ne fuel by simp
    next
      case (Cond_And ds)
      with ne obtain d ds' where ds: "ds = d # ds'" by (cases ds) auto
      have t: "cond_text c @ s = CHR ''('' # cond_text d @ more_text '' AND '' ds' @ CHR '')'' # s"
        by (simp only: Cond_And ds cond_text.simps join_more_text) simp
      have o: "strip '' OR '' (more_text '' AND '' ds' @ CHR '')'' # s) = None"
        by (cases ds') (simp_all add: more_text_def)
      from ne fuel Cond_And ds have "parse_cond k (cond_text d @ more_text '' AND '' ds' @ CHR '')'' # s) =
          Some (cond_norm d, more_text '' AND '' ds' @ CHR '')'' # s)"
        by (intro cond) auto
      moreover have "parse_more k '' AND '' (more_text '' AND '' ds' @ CHR '')'' # s) =
          Some (map cond_norm ds', CHR '')'' # s)"
        using ne fuel Cond_And ds by (intro more) auto
      ultimately show ?thesis unfolding t using o by (simp add: strip_compound Cond_And ds)
    next
      case (Cond_Or ds)
      with ne obtain d ds' where ds: "ds = d # ds'" by (cases ds) auto
      have t: "cond_text c @ s = CHR ''('' # cond_text d @ more_text '' OR '' ds' @ CHR '')'' # s"
        by (simp only: Cond_Or ds cond_text.simps join_more_text) simp
      from ne fuel Cond_Or ds have "parse_cond k (cond_text d @ more_text '' OR '' ds' @ CHR '')'' # s) =
          Some (cond_norm d, more_text '' OR '' ds' @ CHR '')'' # s)"
        by (intro cond) auto
      moreover have "parse_more k sep (more_text '' OR '' ds' @ CHR '')'' # s) =
          Some (map cond_norm ds', CHR '')'' # s)" if "sep = '' OR '' \<or> ds' = [] \<and> sep = '' AND ''" for sep
        using ne fuel Cond_Or ds that more [of ds' sep s] by (auto simp: more_text_def)
      moreover have "strip '' OR '' (more_text '' OR '' ds' @ CHR '')'' # s) = None \<longleftrightarrow> ds' = []"
        by (cases ds') (simp_all add: more_text_def)
      ultimately show ?thesis unfolding t
        by (cases ds') (auto simp: strip_compound Cond_Or ds split: option.split)
    qed
  next
    assume "list_all cond_nonempty cs" "Suc (sum_list (map (\<lambda>c. Suc (cond_fuel c)) cs)) \<le> Suc k"
      and sep: "sep = '' AND '' \<or> sep = '' OR ''"
    then show "parse_more (Suc k) sep (more_text sep cs @ CHR '')'' # s) = Some (map cond_norm cs, CHR '')'' # s)"
      using cond more by (cases cs) (auto simp: more_text_def)
  qed
qed

lemma length_join_ge:
  assumes "sep \<noteq> []" and "\<And>c. c \<in> set cs \<Longrightarrow> f c \<le> length (g c)"
  shows "sum_list (map (\<lambda>c. Suc (f c)) cs) \<le> Suc (length (join sep (map g cs)))"
  using assms(2)
proof (induction cs)
  case (Cons c cs)
  have "1 \<le> length sep" using assms(1) by (cases sep) auto
  moreover have "f c \<le> length (g c)" using Cons.prems by simp
  moreover have "sum_list (map (\<lambda>c. Suc (f c)) cs) \<le> Suc (length (join sep (map g cs)))" using Cons by simp
  ultimately show ?case by (cases cs) (simp_all add: join_Cons)
qed simp

lemma cond_fuel_text: "cond_fuel c \<le> length (cond_text c)"
proof (induction c rule: cond_fuel.induct)
  case (1 cs)
  then show ?case using length_join_ge [of "'' AND ''" cs cond_fuel cond_text] by simp
next
  case (2 cs)
  then show ?case using length_join_ge [of "'' OR ''" cs cond_fuel cond_text] by simp
qed simp_all

lemma parse_cond_text:
  assumes "cond_nonempty c"
  shows "parse_cond (length (cond_text c)) (cond_text c) = Some (cond_norm c, [])"
  using parse_cond_text_aux [of c "length (cond_text c)" "[]"] cond_fuel_text [of c] assms by simp

lemma cond_evals_norm:
  "(\<And>c args. c \<in> set cs \<Longrightarrow> cond_eval like rows (cond_norm c) args = cond_eval like rows c args) \<Longrightarrow>
     cond_evals like rows (map cond_norm cs) args = cond_evals like rows cs args"
  by (induction cs arbitrary: args) auto

lemma cond_eval_norm: "cond_eval like rows (cond_norm c) args = cond_eval like rows c args"
proof (induction c arbitrary: args rule: cond_norm.induct)
  case (2 cs)
  then show ?case
    using cond_evals_norm [of cs like rows args] by (auto split: list.split prod.splits)
qed (auto simp: cond_evals_norm)

lemma placeholders_norm: "placeholders (cond_norm c) = placeholders c"
proof (induction c)
  case (Cond_And cs)
  then show ?case by (simp add: comp_def cong: map_cong)
next
  case (Cond_Or cs)
  then show ?case by (cases cs rule: remdups_adj.cases) (simp_all add: comp_def cong: map_cong)
qed simp_all

section \<open>The search statement\<close>

definition SELECT_ITEMS :: string where
  "SELECT_ITEMS = ''SELECT i.id, i.name, i.value, i.key, i.type FROM items as i WHERE i.type = ?''"

definition SELECT_COUNT :: string where
  "SELECT_COUNT = ''SELECT count(*) FROM items as i WHERE i.type = ?''"

text \<open>
  The \<open>WHERE\<close> clause after \<open>i.type = ?\<close>: the condition, or none. A text that is not of this form
  or has another number of placeholders than arguments is an error.
\<close>

definition parse_clause :: "string \<Rightarrow> SqlCond option option" where
  "parse_clause s =
     (if s = [] then Some None
      else Option.bind (strip '' AND '' s) (\<lambda>r.
           Option.bind (parse_cond (length r) r) (\<lambda>(c, rest). if rest = [] then Some (Some c) else None)))"

fun clause_holds :: "(string \<Rightarrow> string \<Rightarrow> bool) \<Rightarrow> SqliteDb \<Rightarrow> SqlCond option \<Rightarrow> SqlValue list \<Rightarrow> ItemRow \<Rightarrow> bool" where
  "clause_holds like db None args row = True"
| "clause_holds like db (Some c) args row = fst (cond_eval like (item_rows db (it_id row)) c args)"

definition select_where ::
    "(string \<Rightarrow> string \<Rightarrow> bool) \<Rightarrow> SqliteDb \<Rightarrow> string \<Rightarrow> string \<Rightarrow> SqlValue list \<Rightarrow> ItemRow list outcome" where
  "select_where like db head sql args =
     (case Option.bind (strip head sql) parse_clause of
        None \<Rightarrow> Err InvalidState
      | Some clause \<Rightarrow>
          (case args of
             [] \<Rightarrow> Err InvalidState
           | t # rest \<Rightarrow>
               if length rest = (case clause of None \<Rightarrow> 0 | Some c \<Rightarrow> placeholders c)
               then Ok (filter (\<lambda>row. Sql_Blob (it_type row) = t \<and> clause_holds like db clause rest row) (db_items db))
               else Err InvalidState))"

lemma parse_clause_text: "cond_nonempty c \<Longrightarrow> parse_clause ('' AND '' @ cond_text c) = Some (Some (cond_norm c))"
  by (simp add: parse_clause_def parse_cond_text)

text \<open>What the storage finds when it runs the translation of an operator.\<close>

definition matching_rows :: "(string \<Rightarrow> string \<Rightarrow> bool) \<Rightarrow> SqliteDb \<Rightarrow> bytes \<Rightarrow> Operator \<Rightarrow> ItemRow list" where
  "matching_rows like db item_class op =
     filter (\<lambda>row. it_type row = item_class \<and> op_matches like (item_rows db (it_id row)) op) (db_items db)"

lemma select_translated:
  assumes "translates like op c new"
  shows "select_where like db head (head @ '' AND '' @ cond_text c) (Sql_Blob item_class # new) =
    Ok (matching_rows like db item_class op)"
proof -
  have "fst (cond_eval like rows (cond_norm c) new) = op_matches like rows op" for rows
    using assms unfolding translates_def cond_eval_norm by (metis append_Nil2 fst_conv)
  moreover have "cond_nonempty c" "length new = placeholders c" using assms by (simp_all add: translates_def)
  ultimately show ?thesis
    using parse_clause_text [of c]
    by (simp add: select_where_def placeholders_norm matching_rows_def del: strip.simps)
qed

lemma wql_to_sql_select:
  assumes "runs checks op \<or> op = Op_And []"
  shows "\<exists>sql args. wql_to_sql checks item_class op = Ok (sql, args) \<and>
      select_where like db SELECT_ITEMS sql args = Ok (matching_rows like db item_class op)"
    and "\<exists>sql args. wql_to_sql_count checks item_class op = Ok (sql, args) \<and>
      select_where like db SELECT_COUNT sql args = Ok (matching_rows like db item_class op)"
proof -
  have "(\<exists>sql args. wql_to_sql checks item_class op = Ok (sql, args) \<and>
      select_where like db SELECT_ITEMS sql args = Ok (matching_rows like db item_class op)) \<and>
    (\<exists>sql args. wql_to_sql_count checks item_class op = Ok (sql, args) \<and>
      select_where like db SELECT_COUNT sql args = Ok (matching_rows like db item_class op))"
  proof (cases "op = Op_And []")
    case True
    then show ?thesis
      by (simp add: wql_to_sql_def wql_to_sql_count_def select_where_def parse_clause_def matching_rows_def
          SELECT_ITEMS_def SELECT_COUNT_def)
  next
    case False
    with assms have r: "runs checks op" by simp
    then obtain s args where s: "operator_to_sql checks op [Sql_Blob item_class] = Ok (s, args)" using runsD by blast
    with r operator_to_sql_translates(1) [OF s, where like = like] obtain c new where
      c: "s = cond_text c" "args = Sql_Blob item_class # new" "translates like op c new"
      by (auto simp: runs_def)
    have "cond_text c \<noteq> []" by (cases c) simp_all
    with s c select_translated [OF c(3), of db SELECT_ITEMS item_class]
      select_translated [OF c(3), of db SELECT_COUNT item_class]
    show ?thesis
      by (simp add: wql_to_sql_def wql_to_sql_count_def SELECT_ITEMS_def SELECT_COUNT_def)
  qed
  then show "\<exists>sql args. wql_to_sql checks item_class op = Ok (sql, args) \<and>
      select_where like db SELECT_ITEMS sql args = Ok (matching_rows like db item_class op)"
    and "\<exists>sql args. wql_to_sql_count checks item_class op = Ok (sql, args) \<and>
      select_where like db SELECT_COUNT sql args = Ok (matching_rows like db item_class op)"
    by blast+
qed

end
