(* ===== verification/Sqlite_Storage.thy ===== *)
theory Sqlite_Storage
  imports Wallet_Storage Sql_Engine
begin

text \<open>
  The default storage on SQLite (\<open>indy-wallet/src/storage/default/mod.rs\<close>) and the proof that it
  meets the contract of a storage. A transaction that fails leaves the database as it was. Failures
  of the operating system and of the database file are not modelled, and of \<open>rusqlite::Error\<close> the
  cases are those the statements can raise: no row, a violated constraint, and a statement that
  cannot be run.
\<close>

section \<open>The default storage\<close>

definition is_item :: "bytes \<Rightarrow> bytes \<Rightarrow> ItemRow \<Rightarrow> bool" where
  "is_item t n row \<longleftrightarrow> it_type row = t \<and> it_name row = n"

text \<open>\<open>SELECT ... FROM items WHERE type = ?1 AND name = ?2\<close>, first row.\<close>

definition find_item :: "SqliteDb \<Rightarrow> bytes \<Rightarrow> bytes \<Rightarrow> ItemRow outcome" where
  "find_item db t n = ok_or WalletItemNotFound (List.find (is_item t n) (db_items db))"

definition encrypted_tags_of :: "SqliteDb \<Rightarrow> nat \<Rightarrow> Tag list" where
  "encrypted_tags_of db i =
     map (\<lambda>(_, n, v). Tag_Encrypted n v) (filter (\<lambda>(item_id, _). item_id = i) (db_tags_encrypted db))"

definition plain_tags_of :: "SqliteDb \<Rightarrow> nat \<Rightarrow> Tag list" where
  "plain_tags_of db i =
     map (\<lambda>(_, n, v). Tag_PlainText n v) (filter (\<lambda>(item_id, _). item_id = i) (db_tags_plaintext db))"

definition sqlite_get :: "StorageEnv \<Rightarrow> SqliteDb \<Rightarrow> bytes \<Rightarrow> bytes \<Rightarrow> string \<Rightarrow> StorageRecord outcome" where
  "sqlite_get env db t n options =
     and_then (if options = ''{}'' then Ok record_options_default
               else ok_or InvalidStructure (se_record_options env options)) (\<lambda>options.
     and_then (find_item db t n) (\<lambda>item.
       Ok \<lparr>sr_id = n,
           sr_value = (if ro_retrieve_value options then Some \<lparr>ev_data = it_value item, ev_key = it_key item\<rparr> else None),
           sr_type = (if ro_retrieve_type options then Some t else None),
           sr_tags = (if ro_retrieve_tags options
                      then Some (encrypted_tags_of db (it_id item) @ plain_tags_of db (it_id item)) else None)\<rparr>))"

text \<open>\<open>INSERT INTO items (type, name, value, key)\<close>, with the unique index on type and name.\<close>

definition next_item_id :: "SqliteDb \<Rightarrow> nat" where
  "next_item_id db = (if db_items db = [] then 1 else Max (set (map it_id (db_items db))) + 1)"

definition insert_item :: "SqliteDb \<Rightarrow> bytes \<Rightarrow> bytes \<Rightarrow> EncryptedValue \<Rightarrow> (nat \<times> SqliteDb) outcome" where
  "insert_item db t n v =
     (if list_ex (is_item t n) (db_items db) then Err WalletItemAlreadyExists
      else
        let i = next_item_id db
        in Ok (i, db\<lparr>db_items := db_items db @
              [\<lparr>it_id = i, it_type = t, it_name = n, it_value = ev_data v, it_key = ev_key v\<rparr>]\<rparr>))"

text \<open>\<open>INSERT INTO tags_... (item_id, name, value)\<close>, with the primary key on name and item.\<close>

definition has_tag :: "nat \<Rightarrow> bytes \<Rightarrow> nat \<times> bytes \<times> 'v \<Rightarrow> bool" where
  "has_tag i n = (\<lambda>(item_id, name, _). item_id = i \<and> name = n)"

fun insert_tag :: "SqliteDb \<Rightarrow> nat \<Rightarrow> Tag \<Rightarrow> SqliteDb outcome" where
  "insert_tag db i (Tag_Encrypted n v) =
     (if list_ex (has_tag i n) (db_tags_encrypted db) then Err WalletItemAlreadyExists
      else Ok (db\<lparr>db_tags_encrypted := db_tags_encrypted db @ [(i, n, v)]\<rparr>))"
| "insert_tag db i (Tag_PlainText n v) =
     (if list_ex (has_tag i n) (db_tags_plaintext db) then Err WalletItemAlreadyExists
      else Ok (db\<lparr>db_tags_plaintext := db_tags_plaintext db @ [(i, n, v)]\<rparr>))"

fun insert_tags :: "SqliteDb \<Rightarrow> nat \<Rightarrow> Tag list \<Rightarrow> SqliteDb outcome" where
  "insert_tags db i [] = Ok db"
| "insert_tags db i (tag # tags) = and_then (insert_tag db i tag) (\<lambda>db'. insert_tags db' i tags)"

text \<open>A transaction: the database is the new one if everything succeeded, else the old one.\<close>

definition transaction :: "'s \<Rightarrow> 's outcome \<Rightarrow> unit outcome \<times> 's" where
  "transaction db r = (case r of Ok db' \<Rightarrow> (Ok (), db') | Err e \<Rightarrow> (Err e, db) | Panic \<Rightarrow> (Panic, db))"

definition sqlite_add :: "SqliteDb \<Rightarrow> bytes \<Rightarrow> bytes \<Rightarrow> EncryptedValue \<Rightarrow> Tag list \<Rightarrow> unit outcome \<times> SqliteDb" where
  "sqlite_add db t n v tags =
     transaction db (and_then (insert_item db t n v) (\<lambda>(i, db'). insert_tags db' i tags))"

definition sqlite_update :: "SqliteDb \<Rightarrow> bytes \<Rightarrow> bytes \<Rightarrow> EncryptedValue \<Rightarrow> unit outcome \<times> SqliteDb" where
  "sqlite_update db t n v =
     (let db' = db\<lparr>db_items := map (\<lambda>row. if is_item t n row then row\<lparr>it_value := ev_data v, it_key := ev_key v\<rparr> else row)
                   (db_items db)\<rparr>;
          row_count = length (filter (is_item t n) (db_items db))
      in (if row_count = 1 then Ok () else if row_count = 0 then Err WalletItemNotFound else Err InvalidState, db'))"

text \<open>\<open>INSERT OR REPLACE INTO tags_...\<close>: the row with the same key is deleted first.\<close>

fun replace_tag :: "SqliteDb \<Rightarrow> nat \<Rightarrow> Tag \<Rightarrow> SqliteDb" where
  "replace_tag db i (Tag_Encrypted n v) =
     db\<lparr>db_tags_encrypted := filter (\<lambda>r. \<not> has_tag i n r) (db_tags_encrypted db) @ [(i, n, v)]\<rparr>"
| "replace_tag db i (Tag_PlainText n v) =
     db\<lparr>db_tags_plaintext := filter (\<lambda>r. \<not> has_tag i n r) (db_tags_plaintext db) @ [(i, n, v)]\<rparr>"

definition sqlite_add_tags :: "SqliteDb \<Rightarrow> bytes \<Rightarrow> bytes \<Rightarrow> Tag list \<Rightarrow> unit outcome \<times> SqliteDb" where
  "sqlite_add_tags db t n tags =
     transaction db (and_then (find_item db t n) (\<lambda>item. Ok (fold (\<lambda>tag db. replace_tag db (it_id item) tag) tags db)))"

definition delete_item_tags :: "SqliteDb \<Rightarrow> nat \<Rightarrow> SqliteDb" where
  "delete_item_tags db i =
     db\<lparr>db_tags_encrypted := filter (\<lambda>(item_id, _). item_id \<noteq> i) (db_tags_encrypted db),
        db_tags_plaintext := filter (\<lambda>(item_id, _). item_id \<noteq> i) (db_tags_plaintext db)\<rparr>"

definition sqlite_update_tags :: "SqliteDb \<Rightarrow> bytes \<Rightarrow> bytes \<Rightarrow> Tag list \<Rightarrow> unit outcome \<times> SqliteDb" where
  "sqlite_update_tags db t n tags =
     transaction db (and_then (find_item db t n) (\<lambda>item.
       insert_tags (delete_item_tags db (it_id item)) (it_id item) tags))"

fun delete_tag :: "SqliteDb \<Rightarrow> nat \<Rightarrow> StorageTagName \<Rightarrow> SqliteDb" where
  "delete_tag db i (OfEncrypted n) = db\<lparr>db_tags_encrypted := filter (\<lambda>r. \<not> has_tag i n r) (db_tags_encrypted db)\<rparr>"
| "delete_tag db i (OfPlain n) = db\<lparr>db_tags_plaintext := filter (\<lambda>r. \<not> has_tag i n r) (db_tags_plaintext db)\<rparr>"

definition sqlite_delete_tags :: "SqliteDb \<Rightarrow> bytes \<Rightarrow> bytes \<Rightarrow> StorageTagName list \<Rightarrow> unit outcome \<times> SqliteDb" where
  "sqlite_delete_tags db t n tag_names =
     transaction db (and_then (find_item db t n) (\<lambda>item.
       Ok (fold (\<lambda>tag_name db. delete_tag db (it_id item) tag_name) tag_names db)))"

text \<open>\<open>DELETE FROM items\<close>; the tags go with their item when foreign keys are enforced.\<close>

definition sqlite_delete :: "StorageEnv \<Rightarrow> SqliteDb \<Rightarrow> bytes \<Rightarrow> bytes \<Rightarrow> unit outcome \<times> SqliteDb" where
  "sqlite_delete env db t n =
     (let deleted = filter (is_item t n) (db_items db);
          db' = db\<lparr>db_items := filter (\<lambda>row. \<not> is_item t n row) (db_items db)\<rparr>;
          db'' = (if se_foreign_keys env then fold (\<lambda>row db. delete_item_tags db (it_id row)) deleted db' else db')
      in (if length deleted = 1 then Ok () else Err WalletItemNotFound, db''))"

definition sqlite_get_storage_metadata :: "SqliteDb \<Rightarrow> bytes outcome" where
  "sqlite_get_storage_metadata db = (case db_metadata db of [] \<Rightarrow> Err WalletItemNotFound | m # _ \<Rightarrow> Ok m)"

definition sqlite_set_storage_metadata :: "SqliteDb \<Rightarrow> bytes \<Rightarrow> unit outcome \<times> SqliteDb" where
  "sqlite_set_storage_metadata db metadata = (Ok (), db\<lparr>db_metadata := map (\<lambda>_. metadata) (db_metadata db)\<rparr>)"

text \<open>A row as \<open>SQLiteStorageIterator::next\<close> returns it; \<open>TagRetriever\<close> reads the plain tags first.\<close>

definition row_record :: "SqliteDb \<Rightarrow> RecordOptions \<Rightarrow> ItemRow \<Rightarrow> StorageRecord" where
  "row_record db options row =
     \<lparr>sr_id = it_name row,
      sr_value = (if ro_retrieve_value options then Some \<lparr>ev_data = it_value row, ev_key = it_key row\<rparr> else None),
      sr_type = (if ro_retrieve_type options then Some (it_type row) else None),
      sr_tags = (if ro_retrieve_tags options
                 then Some (plain_tags_of db (it_id row) @ encrypted_tags_of db (it_id row)) else None)\<rparr>"

definition sqlite_get_all :: "SqliteDb \<Rightarrow> StorageIterator outcome" where
  "sqlite_get_all db =
     (let options = \<lparr>ro_retrieve_type = True, ro_retrieve_value = True, ro_retrieve_tags = True\<rparr>
      in Ok \<lparr>si_records = map (row_record db options) (db_items db), si_total_count = None\<rparr>)"

definition sqlite_search ::
    "StorageEnv \<Rightarrow> SqliteDb \<Rightarrow> bytes \<Rightarrow> Operator \<Rightarrow> string option \<Rightarrow> StorageIterator outcome" where
  "sqlite_search env db t query options =
     and_then (case options of
                 None \<Rightarrow> Ok search_options_default
               | Some option_str \<Rightarrow> ok_or InvalidStructure (se_search_options env option_str)) (\<lambda>search_options.
     and_then (if so_retrieve_total_count search_options then
                 and_then (wql_to_sql_count (se_checks env) t query) (\<lambda>(sql, args).
                   map_ok (\<lambda>rows. Some (length rows)) (select_where (se_like env) db SELECT_COUNT sql args))
               else Ok None) (\<lambda>total_count.
       if so_retrieve_records search_options then
         let fetch_options =
           \<lparr>ro_retrieve_type = so_retrieve_type search_options, ro_retrieve_value = so_retrieve_value search_options,
            ro_retrieve_tags = so_retrieve_tags search_options\<rparr>
         in and_then (wql_to_sql (se_checks env) t query) (\<lambda>(sql, args).
            and_then (select_where (se_like env) db SELECT_ITEMS sql args) (\<lambda>rows.
              Ok \<lparr>si_records = map (row_record db fetch_options) rows, si_total_count = total_count\<rparr>))
       else Ok \<lparr>si_records = [], si_total_count = total_count\<rparr>))"

definition sqlite_storage :: "StorageEnv \<Rightarrow> SqliteDb WalletStorage" where
  "sqlite_storage env =
     \<lparr>st_get = sqlite_get env, st_add = sqlite_add, st_update = sqlite_update, st_add_tags = sqlite_add_tags,
      st_update_tags = sqlite_update_tags, st_delete_tags = sqlite_delete_tags, st_delete = sqlite_delete env,
      st_get_storage_metadata = sqlite_get_storage_metadata, st_set_storage_metadata = sqlite_set_storage_metadata,
      st_get_all = sqlite_get_all, st_search = sqlite_search env\<rparr>"

text \<open>
  The database files, by directory and wallet id. \<open>parse_config\<close> is serde's reading of the storage
  configuration, whose only field is an optional path, and \<open>home\<close> is the wallet directory of the
  environment. Two texts that name the same directory are not identified.
\<close>

type_synonym sqlite_files = "(string \<times> string) \<rightharpoonup> SqliteDb"

record SqliteTypeEnv =
  parse_config :: "string \<Rightarrow> string option option"
  home :: string

definition db_path :: "SqliteTypeEnv \<Rightarrow> string \<Rightarrow> string option option \<Rightarrow> string \<times> string" where
  "db_path tenv wid config = (case config of Some (Some path) \<Rightarrow> (path, wid) | _ \<Rightarrow> (home tenv, wid))"

definition storage_config :: "SqliteTypeEnv \<Rightarrow> string option \<Rightarrow> string option option outcome" where
  "storage_config tenv config =
     (case config of
        None \<Rightarrow> Ok None
      | Some s \<Rightarrow> (case parse_config tenv s of None \<Rightarrow> Err InvalidStructure | Some c \<Rightarrow> Ok (Some c)))"

definition sqlite_new :: "bytes \<Rightarrow> SqliteDb" where
  "sqlite_new metadata = db_empty\<lparr>db_metadata := [metadata]\<rparr>"

definition sqlite_create_storage ::
    "SqliteTypeEnv \<Rightarrow> sqlite_files \<Rightarrow> string \<Rightarrow> string option \<Rightarrow> bytes \<Rightarrow> unit outcome \<times> sqlite_files" where
  "sqlite_create_storage tenv files wid config metadata =
     transaction files (and_then (storage_config tenv config) (\<lambda>config.
       let db_path = db_path tenv wid config
       in if files db_path \<noteq> None then Err WalletAlreadyExists
          else Ok (files(db_path \<mapsto> sqlite_new metadata))))"

definition sqlite_delete_storage ::
    "SqliteTypeEnv \<Rightarrow> sqlite_files \<Rightarrow> string \<Rightarrow> string option \<Rightarrow> unit outcome \<times> sqlite_files" where
  "sqlite_delete_storage tenv files wid config =
     transaction files (and_then (storage_config tenv config) (\<lambda>config.
       let db_file_path = db_path tenv wid config
       in if files db_file_path = None then Err WalletNotFound
          else Ok (files(db_file_path := None))))"

text \<open>An open storage is a connection: operations on it read and write the file at its path.\<close>

definition sqlite_open_storage ::
    "SqliteTypeEnv \<Rightarrow> sqlite_files \<Rightarrow> string \<Rightarrow> string option \<Rightarrow> (string \<times> string) outcome" where
  "sqlite_open_storage tenv files wid config =
     and_then (storage_config tenv config) (\<lambda>config.
       let db_file_path = db_path tenv wid config
       in if files db_file_path = None then Err WalletNotFound else Ok db_file_path)"

section \<open>The tables as sets\<close>

definition all_tags :: "SqliteDb \<Rightarrow> (nat \<times> Tag) set" where
  "all_tags db = {(i, tag). case tag of
     Tag_Encrypted n v \<Rightarrow> (i, n, v) \<in> set (db_tags_encrypted db)
   | Tag_PlainText n v \<Rightarrow> (i, n, v) \<in> set (db_tags_plaintext db)}"

definition row_key :: "nat \<times> Tag \<Rightarrow> nat \<times> StorageTagName" where
  "row_key = (\<lambda>(i, tag). (i, tag_key tag))"

lemma row_key_pair: "row_key (i, tag) = (i, tag_key tag)"
  by (simp add: row_key_def)

definition tags_of :: "SqliteDb \<Rightarrow> nat \<Rightarrow> Tag set" where
  "tags_of db i = {tag. (i, tag) \<in> all_tags db}"

lemma in_all_tags [simp]:
  "(i, Tag_Encrypted n v) \<in> all_tags db \<longleftrightarrow> (i, n, v) \<in> set (db_tags_encrypted db)"
  "(i, Tag_PlainText n w) \<in> all_tags db \<longleftrightarrow> (i, n, w) \<in> set (db_tags_plaintext db)"
  by (simp_all add: all_tags_def)

lemma tag_set_eqI:
  assumes "\<And>i n v. (i, Tag_Encrypted n v) \<in> A \<longleftrightarrow> (i, Tag_Encrypted n v) \<in> B"
    and "\<And>i n w. (i, Tag_PlainText n w) \<in> A \<longleftrightarrow> (i, Tag_PlainText n w) \<in> B"
  shows "A = B"
proof (rule set_eqI)
  fix x :: "'a \<times> Tag"
  obtain i tag where "x = (i, tag)" by (cases x)
  with assms show "x \<in> A \<longleftrightarrow> x \<in> B" by (cases tag) auto
qed

lemma set_tags_of: "set (encrypted_tags_of db i) \<union> set (plain_tags_of db i) = tags_of db i"
proof (rule set_eqI)
  fix tag
  show "tag \<in> set (encrypted_tags_of db i) \<union> set (plain_tags_of db i) \<longleftrightarrow> tag \<in> tags_of db i"
    by (cases tag) (auto simp: encrypted_tags_of_def plain_tags_of_def tags_of_def image_iff Bex_def)
qed

lemma all_tags_cong [simp]:
  "all_tags (db\<lparr>db_items := items\<rparr>) = all_tags db" "all_tags (db\<lparr>db_metadata := m\<rparr>) = all_tags db"
  by (rule tag_set_eqI; simp)+

lemma row_key_image:
  "(i, OfEncrypted n) \<in> row_key ` all_tags db \<longleftrightarrow> (\<exists>v. (i, n, v) \<in> set (db_tags_encrypted db))"
  "(i, OfPlain n) \<in> row_key ` all_tags db \<longleftrightarrow> (\<exists>w. (i, n, w) \<in> set (db_tags_plaintext db))"
proof -
  have "tag_key tag = OfEncrypted n \<longleftrightarrow> (\<exists>v. tag = Tag_Encrypted n v)"
    "tag_key tag = OfPlain n \<longleftrightarrow> (\<exists>w. tag = Tag_PlainText n w)" for tag
    by (cases tag; auto)+
  then show "(i, OfEncrypted n) \<in> row_key ` all_tags db \<longleftrightarrow> (\<exists>v. (i, n, v) \<in> set (db_tags_encrypted db))"
    "(i, OfPlain n) \<in> row_key ` all_tags db \<longleftrightarrow> (\<exists>w. (i, n, w) \<in> set (db_tags_plaintext db))"
    by (auto simp: row_key_def image_iff Bex_def) (metis in_all_tags)+
qed

lemma list_ex_has_tag:
  "list_ex (has_tag i n) (db_tags_encrypted db) \<longleftrightarrow> (i, OfEncrypted n) \<in> row_key ` all_tags db"
  "list_ex (has_tag i n) (db_tags_plaintext db) \<longleftrightarrow> (i, OfPlain n) \<in> row_key ` all_tags db"
  by (auto simp: row_key_image list_ex_iff has_tag_def)

lemma insert_tag_Ok:
  assumes "(i, tag_key tag) \<notin> row_key ` all_tags db"
  obtains db' where "insert_tag db i tag = Ok db'" "all_tags db' = insert (i, tag) (all_tags db)"
    "db_items db' = db_items db" "db_metadata db' = db_metadata db"
proof (cases tag)
  case (Tag_Encrypted n v)
  let ?db = "db\<lparr>db_tags_encrypted := db_tags_encrypted db @ [(i, n, v)]\<rparr>"
  have "all_tags ?db = insert (i, tag) (all_tags db)" by (rule tag_set_eqI) (auto simp: Tag_Encrypted)
  with assms Tag_Encrypted that [of ?db] show thesis by (simp add: list_ex_has_tag)
next
  case (Tag_PlainText n v)
  let ?db = "db\<lparr>db_tags_plaintext := db_tags_plaintext db @ [(i, n, v)]\<rparr>"
  have "all_tags ?db = insert (i, tag) (all_tags db)" by (rule tag_set_eqI) (auto simp: Tag_PlainText)
  with assms Tag_PlainText that [of ?db] show thesis by (simp add: list_ex_has_tag)
qed

lemma insert_tags_Ok:
  assumes "\<And>tag. tag \<in> set tags \<Longrightarrow> (i, tag_key tag) \<notin> row_key ` all_tags db"
    and "inj_on tag_key (set tags)" and "distinct tags"
  shows "\<exists>db'. insert_tags db i tags = Ok db' \<and> all_tags db' = all_tags db \<union> Pair i ` set tags \<and>
    db_items db' = db_items db \<and> db_metadata db' = db_metadata db"
  using assms
proof (induction tags arbitrary: db)
  case (Cons tag tags)
  obtain db1 where db1: "insert_tag db i tag = Ok db1" "all_tags db1 = insert (i, tag) (all_tags db)"
    "db_items db1 = db_items db" "db_metadata db1 = db_metadata db"
    using insert_tag_Ok [OF Cons.prems(1) [of tag]] by auto
  have "(i, tag_key x) \<notin> row_key ` all_tags db1" if "x \<in> set tags" for x
    using Cons.prems that db1(2) by (auto simp: row_key_def inj_on_def)
  with Cons.IH [of db1] Cons.prems db1 show ?case by auto
qed simp

lemma all_tags_replace_tag:
  "all_tags (replace_tag db i tag) = {x \<in> all_tags db. row_key x \<noteq> (i, tag_key tag)} \<union> {(i, tag)}"
  by (rule tag_set_eqI; cases tag) (auto simp: row_key_def has_tag_def)

lemma all_tags_delete_tag:
  "all_tags (delete_tag db i n) = {x \<in> all_tags db. row_key x \<noteq> (i, n)}"
  by (rule tag_set_eqI; cases n) (auto simp: row_key_def has_tag_def)

lemma all_tags_delete_item_tags: "all_tags (delete_item_tags db i) = {x \<in> all_tags db. fst x \<noteq> i}"
  by (rule tag_set_eqI) (auto simp: delete_item_tags_def)

lemma items_tag_ops [simp]:
  "db_items (replace_tag db i tag) = db_items db" "db_items (delete_tag db i n) = db_items db"
  "db_items (delete_item_tags db i) = db_items db"
  by (cases tag; simp) (cases n; simp add: delete_item_tags_def)+

lemma fold_replace_tag:
  assumes "inj_on tag_key (set tags)"
  shows "all_tags (fold (\<lambda>tag db. replace_tag db i tag) tags db) =
      {x \<in> all_tags db. row_key x \<notin> Pair i ` tag_key ` set tags} \<union> Pair i ` set tags"
    and "db_items (fold (\<lambda>tag db. replace_tag db i tag) tags db) = db_items db"
proof -
  have "inj_on tag_key (set tags) \<Longrightarrow> all_tags (fold (\<lambda>tag db. replace_tag db i tag) tags db) =
      {x \<in> all_tags db. row_key x \<notin> Pair i ` tag_key ` set tags} \<union> Pair i ` set tags"
  proof (induction tags arbitrary: db)
    case (Cons tag tags)
    then show ?case by (auto simp: all_tags_replace_tag row_key_def inj_on_def image_iff)
  qed simp
  then show "all_tags (fold (\<lambda>tag db. replace_tag db i tag) tags db) =
      {x \<in> all_tags db. row_key x \<notin> Pair i ` tag_key ` set tags} \<union> Pair i ` set tags"
    using assms .
  show "db_items (fold (\<lambda>tag db. replace_tag db i tag) tags db) = db_items db"
    by (induction tags arbitrary: db) simp_all
qed

lemma fold_delete_tag:
  "all_tags (fold (\<lambda>n db. delete_tag db i n) names db) = {x \<in> all_tags db. row_key x \<notin> Pair i ` set names}"
  "db_items (fold (\<lambda>n db. delete_tag db i n) names db) = db_items db"
  by (induction names arbitrary: db) (auto simp: all_tags_delete_tag)

section \<open>The content of the database\<close>

definition sqlite_ok :: "SqliteDb \<Rightarrow> bool" where
  "sqlite_ok db \<longleftrightarrow> distinct (map it_id (db_items db)) \<and>
     distinct (map (\<lambda>row. (it_type row, it_name row)) (db_items db)) \<and>
     inj_on row_key (all_tags db) \<and> fst ` all_tags db \<subseteq> it_id ` set (db_items db)"

definition row_item :: "SqliteDb \<Rightarrow> ItemRow \<Rightarrow> StoredItem" where
  "row_item db row =
     \<lparr>item_value = \<lparr>ev_data = it_value row, ev_key = it_key row\<rparr>, item_tags = tags_of db (it_id row)\<rparr>"

definition sqlite_content :: "SqliteDb \<Rightarrow> content" where
  "sqlite_content db t n = map_option (row_item db) (List.find (is_item t n) (db_items db))"

lemma find_append: "List.find P (xs @ ys) = (case List.find P xs of None \<Rightarrow> List.find P ys | Some x \<Rightarrow> Some x)"
  by (induction xs) auto

lemma find_distinct:
  "distinct (map (\<lambda>row. (it_type row, it_name row)) rows) \<Longrightarrow>
     List.find (is_item t n) rows = Some row \<longleftrightarrow> row \<in> set rows \<and> it_type row = t \<and> it_name row = n"
  by (induction rows) (auto simp: is_item_def)

lemma find_None: "List.find (is_item t n) rows = None \<longleftrightarrow> (\<forall>row \<in> set rows. \<not> is_item t n row)"
  by (auto simp: find_None_iff)

lemma content_Some:
  "sqlite_ok db \<Longrightarrow> sqlite_content db t n = Some item \<longleftrightarrow>
     (\<exists>row \<in> set (db_items db). it_type row = t \<and> it_name row = n \<and> item = row_item db row)"
  by (auto simp: sqlite_content_def sqlite_ok_def find_distinct)

lemma content_None: "sqlite_content db t n = None \<longleftrightarrow> (\<forall>row \<in> set (db_items db). \<not> is_item t n row)"
  by (simp add: sqlite_content_def find_None)

lemma find_item_cases:
  assumes "sqlite_ok db"
  obtains (missing) "find_item db t n = Err WalletItemNotFound" "sqlite_content db t n = None"
    | (found) row where "find_item db t n = Ok row" "row \<in> set (db_items db)" "it_type row = t" "it_name row = n"
      "sqlite_content db t n = Some (row_item db row)"
  using assms
  by (cases "List.find (is_item t n) (db_items db)")
    (auto simp: find_item_def sqlite_content_def sqlite_ok_def find_distinct)

lemma same_id: "sqlite_ok db \<Longrightarrow> row \<in> set (db_items db) \<Longrightarrow> row' \<in> set (db_items db) \<Longrightarrow> it_id row = it_id row' \<Longrightarrow> row = row'"
  by (auto simp: sqlite_ok_def distinct_map inj_on_def)

lemma same_name:
  "sqlite_ok db \<Longrightarrow> row \<in> set (db_items db) \<Longrightarrow> row' \<in> set (db_items db) \<Longrightarrow> it_type row = it_type row' \<Longrightarrow>
     it_name row = it_name row' \<Longrightarrow> row = row'"
  by (auto simp: sqlite_ok_def distinct_map inj_on_def)

lemma content_tags_changed:
  assumes "sqlite_ok db" and "row \<in> set (db_items db)" and "db_items db' = db_items db"
    and "\<And>j. j \<noteq> it_id row \<Longrightarrow> tags_of db' j = tags_of db j" and "tags_of db' (it_id row) = tags"
  shows "sqlite_content db' = (sqlite_content db)(it_type row :=
    (sqlite_content db (it_type row))(it_name row \<mapsto> (row_item db row)\<lparr>item_tags := tags\<rparr>))"
proof (intro ext)
  fix t n
  show "sqlite_content db' t n = ((sqlite_content db)(it_type row :=
      (sqlite_content db (it_type row))(it_name row \<mapsto> (row_item db row)\<lparr>item_tags := tags\<rparr>))) t n"
  proof (cases "List.find (is_item t n) (db_items db)")
    case None
    with assms(2) have "\<not> is_item t n row" by (auto simp: find_None)
    with None assms(3) show ?thesis by (auto simp: sqlite_content_def is_item_def)
  next
    case (Some r)
    then have r: "r \<in> set (db_items db)" "it_type r = t" "it_name r = n"
      using assms(1) by (auto simp: sqlite_ok_def find_distinct)
    show ?thesis
    proof (cases "r = row")
      case True
      with Some r assms(3,5) show ?thesis by (simp add: sqlite_content_def row_item_def)
    next
      case False
      then have "it_id r \<noteq> it_id row" "\<not> (t = it_type row \<and> n = it_name row)"
        using same_id [OF assms(1)] same_name [OF assms(1)] r assms(2) by blast+
      with Some assms(3,4) show ?thesis by (auto simp: sqlite_content_def row_item_def)
    qed
  qed
qed

lemma sqlite_ok_tags_changed:
  assumes "sqlite_ok db" and "row \<in> set (db_items db)" and "db_items db' = db_items db"
    and "all_tags db' = {x \<in> all_tags db. P x} \<union> Pair (it_id row) ` tags"
    and "inj_on tag_key tags" and "\<And>tag. tag \<in> tags \<Longrightarrow> (it_id row, tag_key tag) \<notin> row_key ` {x \<in> all_tags db. P x}"
  shows "sqlite_ok db'"
proof -
  have "inj_on row_key {x \<in> all_tags db. P x}" using assms(1) by (auto simp: sqlite_ok_def intro: inj_on_subset)
  moreover have "inj_on row_key (Pair (it_id row) ` tags)" using assms(5) by (auto simp: inj_on_def row_key_def)
  moreover have "row_key ` {x \<in> all_tags db. P x} \<inter> row_key ` Pair (it_id row) ` tags = {}"
  proof (rule equals0I)
    fix k
    assume "k \<in> row_key ` {x \<in> all_tags db. P x} \<inter> row_key ` Pair (it_id row) ` tags"
    then have k: "k \<in> row_key ` {x \<in> all_tags db. P x}" and "k \<in> row_key ` Pair (it_id row) ` tags" by (rule IntD1, rule IntD2)
    then obtain tag where "tag \<in> tags" "k = (it_id row, tag_key tag)" by (auto simp: row_key_pair)
    with assms(6) k show False by simp
  qed
  ultimately have "inj_on row_key (all_tags db')" unfolding assms(4) inj_on_Un by blast
  moreover have "fst ` all_tags db' \<subseteq> it_id ` set (db_items db')"
    using assms(1,2) unfolding assms(3,4) sqlite_ok_def by auto
  ultimately show ?thesis using assms(1,3) by (simp add: sqlite_ok_def)
qed

section \<open>The default storage meets the contract\<close>

lemma sqlite_get_law:
  assumes "sqlite_ok db" and "record_options env options = Some ro"
  shows "case sqlite_content db t n of
      None \<Rightarrow> sqlite_get env db t n options = Err WalletItemNotFound
    | Some item \<Rightarrow> \<exists>tags. set tags = item_tags item \<and> sqlite_get env db t n options = Ok (stored_record ro (t, n, item, tags))"
proof -
  have o: "(if options = ''{}'' then Ok record_options_default else ok_or InvalidStructure (se_record_options env options)) = Ok ro"
    using assms(2) by (auto simp: record_options_def split: if_splits)
  from assms(1) show ?thesis
  proof (cases rule: find_item_cases [of db t n])
    case missing
    with o show ?thesis by (simp add: sqlite_get_def)
  next
    case (found row)
    let ?tags = "encrypted_tags_of db (it_id row) @ plain_tags_of db (it_id row)"
    have "set ?tags = item_tags (row_item db row)"
      using set_tags_of [of db "it_id row"] by (simp add: row_item_def)
    moreover have "sqlite_get env db t n options = Ok (stored_record ro (t, n, row_item db row, ?tags))"
      unfolding sqlite_get_def o using found(1) by (simp add: stored_record_def row_item_def)
    ultimately have "\<exists>tags. set tags = item_tags (row_item db row) \<and>
        sqlite_get env db t n options = Ok (stored_record ro (t, n, row_item db row, tags))"
      by (intro exI conjI)
    then show ?thesis unfolding found(5) option.case .
  qed
qed

lemma next_item_id_fresh: "next_item_id db \<notin> it_id ` set (db_items db)"
proof
  assume "next_item_id db \<in> it_id ` set (db_items db)"
  then have "db_items db \<noteq> []" "next_item_id db \<le> Max (set (map it_id (db_items db)))" by auto
  then show False by (simp add: next_item_id_def)
qed

lemma sqlite_add_law:
  assumes "sqlite_ok db" and "inj_on tag_key (set tags)" and "distinct tags" and "sqlite_add db t n v tags = (r, db')"
  shows "sqlite_ok db' \<and> (if sqlite_content db t n = None
    then r = Ok () \<and> sqlite_content db' =
      (sqlite_content db)(t := (sqlite_content db t)(n \<mapsto> \<lparr>item_value = v, item_tags = set tags\<rparr>))
    else r = Err WalletItemAlreadyExists \<and> sqlite_content db' = sqlite_content db)"
proof (cases "list_ex (is_item t n) (db_items db)")
  case True
  then have "sqlite_content db t n \<noteq> None" by (auto simp: content_None list_ex_iff)
  with True assms(1,4) show ?thesis by (auto simp: sqlite_add_def insert_item_def transaction_def)
next
  case False
  then have none: "sqlite_content db t n = None" by (auto simp: content_None list_ex_iff)
  let ?i = "next_item_id db"
  let ?row = "\<lparr>it_id = ?i, it_type = t, it_name = n, it_value = ev_data v, it_key = ev_key v\<rparr>"
  let ?db = "db\<lparr>db_items := db_items db @ [?row]\<rparr>"
  have fresh: "(?i, tag) \<notin> all_tags db" for tag
    using assms(1) next_item_id_fresh [of db] unfolding sqlite_ok_def by (metis fst_conv imageI subsetD)
  then have "(?i, tag_key tag) \<notin> row_key ` all_tags ?db" for tag by (auto simp: row_key_def)
  with insert_tags_Ok [of tags ?i ?db] assms(2,3) obtain db1 where
    db1: "insert_tags ?db ?i tags = Ok db1" "all_tags db1 = all_tags db \<union> Pair ?i ` set tags"
      "db_items db1 = db_items db @ [?row]"
    by auto
  have r: "r = Ok ()" "db' = db1"
    using False assms(4) db1(1) by (auto simp: sqlite_add_def insert_item_def transaction_def Let_def)
  have "inj_on row_key (all_tags db1)"
    unfolding db1(2) inj_on_Un image_image row_key_pair
    using assms(1,2) fresh by (auto simp: sqlite_ok_def inj_on_def row_key_def)
  moreover have "distinct (map (\<lambda>row. (it_type row, it_name row)) (db_items db1))"
    using assms(1) False db1(3) by (auto simp: sqlite_ok_def list_ex_iff is_item_def)
  ultimately have ok: "sqlite_ok db1"
    using assms(1) db1 next_item_id_fresh [of db] by (auto simp: sqlite_ok_def)
  have "sqlite_content db1 t' n' = ((sqlite_content db)(t := (sqlite_content db t)
      (n \<mapsto> \<lparr>item_value = v, item_tags = set tags\<rparr>))) t' n'" for t' n'
  proof (cases "t' = t \<and> n' = n")
    case True
    have "row_item db1 ?row = \<lparr>item_value = v, item_tags = set tags\<rparr>"
      using fresh by (auto simp: row_item_def tags_of_def db1(2))
    moreover have "sqlite_content db1 t n = Some (row_item db1 ?row)"
      using content_Some [OF ok] db1(3) by auto
    ultimately show ?thesis using True by simp
  next
    case other: False
    have "List.find (is_item t' n') (db_items db1) = List.find (is_item t' n') (db_items db)"
      using other unfolding db1(3) by (auto simp: find_append is_item_def split: option.split)
    moreover have "row_item db1 row = row_item db row" if "row \<in> set (db_items db)" for row
    proof -
      have "it_id row \<noteq> ?i" using that next_item_id_fresh [of db] by (metis imageI)
      then show ?thesis by (auto simp: row_item_def tags_of_def db1(2))
    qed
    then have "map_option (row_item db1) (List.find (is_item t' n') (db_items db)) =
        map_option (row_item db) (List.find (is_item t' n') (db_items db))"
      by (intro option.map_cong refl) (auto simp: elem_set find_Some_iff)
    ultimately show ?thesis using other by (auto simp: sqlite_content_def)
  qed
  then have "sqlite_content db1 = (sqlite_content db)(t := (sqlite_content db t)
      (n \<mapsto> \<lparr>item_value = v, item_tags = set tags\<rparr>))"
    by (intro ext)
  with ok r none show ?thesis by simp
qed

lemma tags_of_subset:
  assumes "all_tags db' = {x \<in> all_tags db. P x} \<union> Pair i ` tags" and "\<And>x. fst x \<noteq> i \<Longrightarrow> P x"
  shows "j \<noteq> i \<Longrightarrow> tags_of db' j = tags_of db j" and "tags_of db' i = {tag \<in> tags_of db i. P (i, tag)} \<union> tags"
  using assms by (auto simp: tags_of_def)

lemma tags_op_law:
  assumes "sqlite_ok db" and "row \<in> set (db_items db)" and "db_items db' = db_items db"
    and "all_tags db' = {x \<in> all_tags db. P x} \<union> Pair (it_id row) ` tags" and "\<And>x. fst x \<noteq> it_id row \<Longrightarrow> P x"
    and "inj_on tag_key tags" and "\<And>tag. tag \<in> tags \<Longrightarrow> (it_id row, tag_key tag) \<notin> row_key ` {x \<in> all_tags db. P x}"
  shows "sqlite_ok db' \<and> sqlite_content db' = (sqlite_content db)(it_type row :=
    (sqlite_content db (it_type row))(it_name row \<mapsto> (row_item db row)
      \<lparr>item_tags := {tag \<in> tags_of db (it_id row). P (it_id row, tag)} \<union> tags\<rparr>))"
proof
  show "sqlite_ok db'" using assms(1-4,6,7) by (rule sqlite_ok_tags_changed)
  show "sqlite_content db' = (sqlite_content db)(it_type row :=
    (sqlite_content db (it_type row))(it_name row \<mapsto> (row_item db row)
      \<lparr>item_tags := {tag \<in> tags_of db (it_id row). P (it_id row, tag)} \<union> tags\<rparr>))"
    using tags_of_subset [OF assms(4,5)] by (intro content_tags_changed [OF assms(1-3)]) auto
qed

lemma sqlite_add_tags_law:
  assumes "sqlite_ok db" and "inj_on tag_key (set tags)" and "sqlite_add_tags db t n tags = (r, db')"
  shows "sqlite_ok db' \<and> (case sqlite_content db t n of
      None \<Rightarrow> r = Err WalletItemNotFound \<and> sqlite_content db' = sqlite_content db
    | Some item \<Rightarrow> r = Ok () \<and> sqlite_content db' = (sqlite_content db)(t := (sqlite_content db t)(n \<mapsto>
        item\<lparr>item_tags := {x \<in> item_tags item. tag_key x \<notin> tag_key ` set tags} \<union> set tags\<rparr>)))"
  using assms(1)
proof (cases rule: find_item_cases [of db t n])
  case missing
  with assms(1,3) show ?thesis by (simp add: sqlite_add_tags_def transaction_def)
next
  case (found row)
  let ?db = "fold (\<lambda>tag db. replace_tag db (it_id row) tag) tags db"
  have "sqlite_ok ?db \<and> sqlite_content ?db = (sqlite_content db)(it_type row :=
    (sqlite_content db (it_type row))(it_name row \<mapsto> (row_item db row)\<lparr>item_tags :=
      {tag \<in> tags_of db (it_id row). row_key (it_id row, tag) \<notin> Pair (it_id row) ` tag_key ` set tags} \<union> set tags\<rparr>))"
    using fold_replace_tag [OF assms(2), of "it_id row" db] found(2) assms(1,2)
    by (intro tags_op_law) (auto simp: row_key_def, metis imageI)
  moreover have "{tag \<in> tags_of db (it_id row). row_key (it_id row, tag) \<notin> Pair (it_id row) ` tag_key ` set tags} =
      {x \<in> item_tags (row_item db row). tag_key x \<notin> tag_key ` set tags}"
    by (auto simp: row_item_def row_key_def)
  ultimately show ?thesis
    using found assms(3) by (auto simp: sqlite_add_tags_def transaction_def)
qed

lemma sqlite_update_tags_law:
  assumes "sqlite_ok db" and "inj_on tag_key (set tags)" and "distinct tags" and "sqlite_update_tags db t n tags = (r, db')"
  shows "sqlite_ok db' \<and> (case sqlite_content db t n of
      None \<Rightarrow> r = Err WalletItemNotFound \<and> sqlite_content db' = sqlite_content db
    | Some item \<Rightarrow> r = Ok () \<and> sqlite_content db' =
        (sqlite_content db)(t := (sqlite_content db t)(n \<mapsto> item\<lparr>item_tags := set tags\<rparr>)))"
  using assms(1)
proof (cases rule: find_item_cases [of db t n])
  case missing
  with assms(1,4) show ?thesis by (simp add: sqlite_update_tags_def transaction_def)
next
  case (found row)
  let ?db = "delete_item_tags db (it_id row)"
  have "(it_id row, tag_key tag) \<notin> row_key ` all_tags ?db" for tag
    by (auto simp: all_tags_delete_item_tags row_key_def)
  with insert_tags_Ok [of tags "it_id row" ?db] assms(2,3) obtain db1 where
    db1: "insert_tags ?db (it_id row) tags = Ok db1"
      "all_tags db1 = {x \<in> all_tags db. fst x \<noteq> it_id row} \<union> Pair (it_id row) ` set tags" "db_items db1 = db_items db"
    by (auto simp: all_tags_delete_item_tags)
  have "sqlite_ok db1 \<and> sqlite_content db1 = (sqlite_content db)(it_type row :=
    (sqlite_content db (it_type row))(it_name row \<mapsto> (row_item db row)\<lparr>item_tags :=
      {tag \<in> tags_of db (it_id row). fst (it_id row, tag) \<noteq> it_id row} \<union> set tags\<rparr>))"
    using db1 found(2) assms(1,2) by (intro tags_op_law) (auto simp: row_key_def)
  then show ?thesis
    using found assms(4) db1(1) by (auto simp: sqlite_update_tags_def transaction_def)
qed

lemma sqlite_delete_tags_law:
  assumes "sqlite_ok db" and "sqlite_delete_tags db t n names = (r, db')"
  shows "sqlite_ok db' \<and> (case sqlite_content db t n of
      None \<Rightarrow> r = Err WalletItemNotFound \<and> sqlite_content db' = sqlite_content db
    | Some item \<Rightarrow> r = Ok () \<and> sqlite_content db' = (sqlite_content db)(t := (sqlite_content db t)(n \<mapsto>
        item\<lparr>item_tags := {x \<in> item_tags item. tag_key x \<notin> set names}\<rparr>)))"
  using assms(1)
proof (cases rule: find_item_cases [of db t n])
  case missing
  with assms show ?thesis by (simp add: sqlite_delete_tags_def transaction_def)
next
  case (found row)
  let ?db = "fold (\<lambda>n db. delete_tag db (it_id row) n) names db"
  have "sqlite_ok ?db \<and> sqlite_content ?db = (sqlite_content db)(it_type row :=
    (sqlite_content db (it_type row))(it_name row \<mapsto> (row_item db row)\<lparr>item_tags :=
      {tag \<in> tags_of db (it_id row). row_key (it_id row, tag) \<notin> Pair (it_id row) ` set names} \<union> {}\<rparr>))"
    using fold_delete_tag [of "it_id row" names db] found(2) assms(1)
    by (intro tags_op_law) (auto simp: row_key_def)
  moreover have "{tag \<in> tags_of db (it_id row). row_key (it_id row, tag) \<notin> Pair (it_id row) ` set names} =
      {x \<in> item_tags (row_item db row). tag_key x \<notin> set names}"
    by (auto simp: row_item_def row_key_def)
  ultimately show ?thesis
    using found assms(2) by (auto simp: sqlite_delete_tags_def transaction_def)
qed

lemma row_count: "sqlite_ok db \<Longrightarrow> row \<in> set (db_items db) \<Longrightarrow> filter (is_item (it_type row) (it_name row)) (db_items db) = [row]"
proof -
  have "distinct (map (\<lambda>row. (it_type row, it_name row)) rows) \<Longrightarrow> row \<in> set rows \<Longrightarrow>
      filter (is_item (it_type row) (it_name row)) rows = [row]" for rows :: "ItemRow list"
  proof (induction rows)
    case (Cons r rows)
    show ?case
    proof (cases "r = row")
      case True
      then have "filter (is_item (it_type row) (it_name row)) rows = []"
        using Cons.prems(1) by (auto simp: filter_empty_conv is_item_def image_iff)
      moreover have "is_item (it_type row) (it_name row) row" by (simp add: is_item_def)
      ultimately show ?thesis using True by simp
    qed (use Cons in \<open>auto simp: is_item_def image_iff\<close>)
  qed simp
  then show "sqlite_ok db \<Longrightarrow> row \<in> set (db_items db) \<Longrightarrow> filter (is_item (it_type row) (it_name row)) (db_items db) = [row]"
    by (simp add: sqlite_ok_def)
qed

lemma sqlite_ok_items:
  assumes "sqlite_ok db" and "map it_id items = map it_id (db_items db)"
    and "map (\<lambda>row. (it_type row, it_name row)) items = map (\<lambda>row. (it_type row, it_name row)) (db_items db)"
  shows "sqlite_ok (db\<lparr>db_items := items\<rparr>)"
proof -
  have "it_id ` set items = it_id ` set (db_items db)" using assms(2) by (metis set_map)
  with assms show ?thesis by (simp add: sqlite_ok_def)
qed

lemma sqlite_update_law:
  assumes "sqlite_ok db" and "sqlite_update db t n v = (r, db')"
  shows "sqlite_ok db' \<and> (case sqlite_content db t n of
      None \<Rightarrow> r = Err WalletItemNotFound \<and> sqlite_content db' = sqlite_content db
    | Some item \<Rightarrow> r = Ok () \<and> sqlite_content db' =
        (sqlite_content db)(t := (sqlite_content db t)(n \<mapsto> item\<lparr>item_value := v\<rparr>)))"
proof -
  let ?f = "\<lambda>row. if is_item t n row then row\<lparr>it_value := ev_data v, it_key := ev_key v\<rparr> else row"
  have db': "db' = db\<lparr>db_items := map ?f (db_items db)\<rparr>" using assms(2) by (simp add: sqlite_update_def Let_def)
  have keys: "map it_id (map ?f (db_items db)) = map it_id (db_items db)"
    "map (\<lambda>row. (it_type row, it_name row)) (map ?f (db_items db)) = map (\<lambda>row. (it_type row, it_name row)) (db_items db)"
    by simp_all
  have ok: "sqlite_ok db'"
    using sqlite_ok_items [OF assms(1) keys] by (simp only: db')
  have find: "List.find (is_item t' n') (map ?f rows) = map_option ?f (List.find (is_item t' n') rows)" for t' n' rows
    by (induction rows) (auto simp: is_item_def)
  have "row_item db' row = row_item db row" for row by (simp add: db' tags_of_def row_item_def)
  then have content': "sqlite_content db' t' n' = map_option (\<lambda>row. row_item db (?f row)) (List.find (is_item t' n') (db_items db))"
    for t' n'
    unfolding sqlite_content_def by (simp add: db' find option.map_comp comp_def)
  have other: "sqlite_content db' t' n' = sqlite_content db t' n'" if "\<not> (t' = t \<and> n' = n)" for t' n'
  proof (cases "List.find (is_item t' n') (db_items db)")
    case (Some row)
    then have "is_item t' n' row" by (auto simp: find_Some_iff)
    with that have "?f row = row" by (auto simp: is_item_def)
    with Some show ?thesis by (simp add: content' sqlite_content_def [of db])
  qed (simp add: content' sqlite_content_def [of db])
  from assms(1) show ?thesis
  proof (cases rule: find_item_cases [of db t n])
    case missing
    then have "filter (is_item t n) (db_items db) = []" by (simp add: content_None filter_empty_conv)
    moreover have "sqlite_content db' = sqlite_content db"
    proof (intro ext)
      fix t' n'
      show "sqlite_content db' t' n' = sqlite_content db t' n'"
        using missing(2) other [of t' n'] content' [of t n]
        by (cases "t' = t \<and> n' = n") (auto simp: sqlite_content_def [of db])
    qed
    ultimately show ?thesis using missing ok assms(2) by (auto simp: sqlite_update_def Let_def)
  next
    case (found row)
    have "sqlite_content db' t n = Some ((row_item db row)\<lparr>item_value := v\<rparr>)"
      using found(2-4) assms(1)
      by (auto simp: content' row_item_def sqlite_ok_def find_distinct is_item_def)
    then have "sqlite_content db' = (sqlite_content db)(t := (sqlite_content db t)(n \<mapsto> (row_item db row)\<lparr>item_value := v\<rparr>))"
      using other by (intro ext) auto
    then show ?thesis using found ok row_count [OF assms(1) found(2)] assms(2) by (auto simp: sqlite_update_def Let_def)
  qed
qed

lemma find_in_set: "List.find P xs = Some x \<Longrightarrow> x \<in> set xs"
  by (auto simp: find_Some_iff)

lemma find_filter_other:
  "\<not> (t' = t \<and> n' = n) \<Longrightarrow>
     List.find (is_item t' n') (filter (\<lambda>row. \<not> is_item t n row) rows) = List.find (is_item t' n') rows"
  by (induction rows) (auto simp: is_item_def)

lemma sqlite_delete_law:
  assumes "sqlite_ok db" and "se_foreign_keys env" and "sqlite_delete env db t n = (r, db')"
  shows "sqlite_ok db' \<and> r = (if sqlite_content db t n = None then Err WalletItemNotFound else Ok ()) \<and>
    sqlite_content db' = (sqlite_content db)(t := (sqlite_content db t)(n := None))"
  using assms(1)
proof (cases rule: find_item_cases [of db t n])
  case missing
  then have none: "filter (is_item t n) (db_items db) = []" and all: "filter (\<lambda>row. \<not> is_item t n row) (db_items db) = db_items db"
    by (simp_all add: content_None filter_empty_conv)
  have "db' = db" "r = Err WalletItemNotFound"
    using assms(2,3) unfolding sqlite_delete_def by (simp_all add: Let_def none all)
  moreover have "sqlite_content db = (sqlite_content db)(t := (sqlite_content db t)(n := None))"
    using missing(2) by (intro ext) simp
  ultimately show ?thesis using assms(1) missing(2) by simp
next
  case (found row)
  let ?items = "filter (\<lambda>row. \<not> is_item t n row) (db_items db)"
  let ?db = "db\<lparr>db_items := ?items\<rparr>"
  have del: "filter (is_item t n) (db_items db) = [row]" using row_count [OF assms(1) found(2)] found(3,4) by simp
  have db': "db' = delete_item_tags ?db (it_id row)" and r: "r = Ok ()"
    using assms(2,3) unfolding sqlite_delete_def by (simp_all add: Let_def del)
  have items: "db_items db' = ?items" by (simp add: db')
  have tags: "all_tags db' = {x \<in> all_tags db. fst x \<noteq> it_id row}" by (simp add: db' all_tags_delete_item_tags)
  have keeps: "row' \<in> set ?items \<longleftrightarrow> row' \<in> set (db_items db) \<and> row' \<noteq> row" for row'
    using found(2-4) same_name [OF assms(1), of row' row] by (auto simp: is_item_def)
  have other: "row_item db' row' = row_item db row'" if "row' \<in> set ?items" for row'
  proof -
    have "it_id row' \<noteq> it_id row" using that keeps same_id [OF assms(1)] found(2) by blast
    then show ?thesis by (simp add: row_item_def tags_of_def tags)
  qed
  have ids: "it_id ` set ?items = it_id ` set (db_items db) - {it_id row}"
    using keeps same_id [OF assms(1)] found(2) by blast
  have "inj_on row_key (all_tags db')" "fst ` all_tags db' \<subseteq> it_id ` set ?items"
    using assms(1) unfolding tags ids sqlite_ok_def by (auto intro: inj_on_subset)
  then have ok: "sqlite_ok db'"
    using assms(1) by (simp add: sqlite_ok_def items distinct_map_filter)
  have "sqlite_content db' t' n' = (if t' = t \<and> n' = n then None else sqlite_content db t' n')" for t' n'
  proof (cases "t' = t \<and> n' = n")
    case True
    then show ?thesis using content_None [of db' t n] by (simp add: items)
  next
    case False
    then have "List.find (is_item t' n') ?items = List.find (is_item t' n') (db_items db)"
      by (rule find_filter_other)
    moreover have "map_option (row_item db') (List.find (is_item t' n') ?items) =
        map_option (row_item db) (List.find (is_item t' n') ?items)"
      by (intro option.map_cong refl other) (simp only: elem_set find_in_set)
    ultimately show ?thesis using False by (auto simp: sqlite_content_def items)
  qed
  then have "sqlite_content db' = (sqlite_content db)(t := (sqlite_content db t)(n := None))" by (intro ext) simp
  with ok r found(5) show ?thesis by simp
qed

lemma op_matches_cong:
  assumes "\<And>tbl. set (rows tbl) = set (rows' tbl)"
  shows "op_matches like rows op = op_matches like rows' op"
proof -
  have "op_tag rows n P = op_tag rows' n P" for n P
    using assms by (simp add: op_tag_def tag_in_def list_ex_iff)
  then show ?thesis
    by (induction op) (auto simp: list_all_iff list_ex_iff)
qed

lemma set_tag_rows_of:
  "(n, v) \<in> set (tag_rows_of ts Tags_Encrypted) \<longleftrightarrow> (\<exists>w. v = Sql_Blob w \<and> Tag_Encrypted n w \<in> set ts)"
  "(n, v) \<in> set (tag_rows_of ts Tags_Plaintext) \<longleftrightarrow> (\<exists>w. v = Sql_Text w \<and> Tag_PlainText n w \<in> set ts)"
  by (force split: Tag.splits)+

lemma tag_rows_of_cong: "set ts = set ts' \<Longrightarrow> set (tag_rows_of ts tbl) = set (tag_rows_of ts' tbl)"
  by (cases tbl; intro set_eqI) (auto simp only: set_tag_rows_of split_paired_all)

lemma set_matches_set: "set_matches like (set ts) op \<longleftrightarrow> op_matches like (tag_rows_of ts) op"
  unfolding set_matches_def using op_matches_cong tag_rows_of_cong by blast

lemma op_matches_item_rows: "op_matches like (item_rows db i) op \<longleftrightarrow> set_matches like (tags_of db i) op"
proof -
  let ?ts = "encrypted_tags_of db i @ plain_tags_of db i"
  have "set (item_rows db i tbl) = set (tag_rows_of ?ts tbl)" for tbl
  proof (rule set_eqI)
    fix x
    show "x \<in> set (item_rows db i tbl) \<longleftrightarrow> x \<in> set (tag_rows_of ?ts tbl)"
    proof (cases x)
      case (Pair n v)
      show ?thesis unfolding Pair
        by (cases tbl; simp only: set_tag_rows_of set_append) (auto simp: encrypted_tags_of_def plain_tags_of_def image_iff Bex_def)
    qed
  qed
  then have "op_matches like (item_rows db i) op \<longleftrightarrow> op_matches like (tag_rows_of ?ts) op" by (rule op_matches_cong)
  also have "\<dots> \<longleftrightarrow> set_matches like (tags_of db i) op" using set_tags_of [of db i] by (simp flip: set_matches_set)
  finally show ?thesis .
qed

text \<open>The listing of some rows.\<close>

definition row_entry :: "SqliteDb \<Rightarrow> ItemRow \<Rightarrow> bytes \<times> bytes \<times> StoredItem \<times> Tag list" where
  "row_entry db row = (it_type row, it_name row, row_item db row, plain_tags_of db (it_id row) @ encrypted_tags_of db (it_id row))"

lemma row_record_entry: "row_record db options row = stored_record options (row_entry db row)"
  by (simp add: row_record_def stored_record_def row_entry_def row_item_def)

lemma lists_rows:
  assumes "sqlite_ok db"
  shows "lists_items (sqlite_content db) P
    (map (row_entry db) (filter (\<lambda>row. P (it_type row) (tags_of db (it_id row))) (db_items db)))"
proof -
  have "distinct (map (\<lambda>row. (it_type row, it_name row)) (filter (\<lambda>row. P (it_type row) (tags_of db (it_id row))) (db_items db)))"
    using assms by (simp add: sqlite_ok_def distinct_map_filter)
  moreover have "set (plain_tags_of db i @ encrypted_tags_of db i) = tags_of db i" for i
    using set_tags_of [of db i] by auto
  ultimately show ?thesis
    using content_Some [OF assms]
    by (auto simp: lists_items_def row_entry_def row_item_def comp_def image_iff)
qed

lemma sqlite_get_all_law:
  assumes "sqlite_ok db"
  shows "\<exists>rs. lists_items (sqlite_content db) (\<lambda>_ _. True) rs \<and>
    sqlite_get_all db = Ok \<lparr>si_records = map (stored_record all_options) rs, si_total_count = None\<rparr>"
  using lists_rows [OF assms, of "\<lambda>_ _. True"]
  by (intro exI [of _ "map (row_entry db) (db_items db)"])
    (simp add: sqlite_get_all_def all_options_def row_record_entry [abs_def] comp_def)

lemma sqlite_search_law:
  assumes "sqlite_ok db" and "runs (se_checks env) op \<or> op = Op_And []" and "search_options env sopts = Some so"
  shows "\<exists>rs. lists_items (sqlite_content db) (\<lambda>t' tags. t' = t \<and> set_matches (se_like env) tags op) rs \<and>
    sqlite_search env db t op sopts =
      Ok \<lparr>si_records = (if so_retrieve_records so then map (stored_record (fetch_options so)) rs else []),
          si_total_count = (if so_retrieve_total_count so then Some (length rs) else None)\<rparr>"
proof -
  let ?rows = "matching_rows (se_like env) db t op"
  obtain sql args where sel: "wql_to_sql (se_checks env) t op = Ok (sql, args)"
      "select_where (se_like env) db SELECT_ITEMS sql args = Ok ?rows"
    using wql_to_sql_select(1) [OF assms(2)] by blast
  obtain sql' args' where cnt: "wql_to_sql_count (se_checks env) t op = Ok (sql', args')"
      "select_where (se_like env) db SELECT_COUNT sql' args' = Ok ?rows"
    using wql_to_sql_select(2) [OF assms(2)] by blast
  have so: "(case sopts of None \<Rightarrow> Ok search_options_default
      | Some option_str \<Rightarrow> ok_or InvalidStructure (se_search_options env option_str)) = Ok so"
    using assms(3) by (auto simp: search_options_def split: option.splits)
  have "lists_items (sqlite_content db) (\<lambda>t' tags. t' = t \<and> set_matches (se_like env) tags op) (map (row_entry db) ?rows)"
    using lists_rows [OF assms(1), of "\<lambda>t' tags. t' = t \<and> set_matches (se_like env) tags op"]
    by (simp add: matching_rows_def op_matches_item_rows)
  moreover have "sqlite_search env db t op sopts =
      Ok \<lparr>si_records = (if so_retrieve_records so then map (row_record db (fetch_options so)) ?rows else []),
          si_total_count = (if so_retrieve_total_count so then Some (length ?rows) else None)\<rparr>"
    unfolding sqlite_search_def so using sel cnt by (simp add: fetch_options_def Let_def)
  ultimately show ?thesis
    by (intro exI [of _ "map (row_entry db) ?rows"]) (simp add: row_record_entry [abs_def] comp_def)
qed

lemma sqlite_tags_law:
  assumes "sqlite_ok db" and "sqlite_content db t n = Some item"
  shows "inj_on tag_key (item_tags item) \<and> finite (item_tags item)"
proof -
  obtain row where "item = row_item db row" using content_Some [OF assms(1)] assms(2) by blast
  then have item: "item_tags item = tags_of db (it_id row)" by (simp add: row_item_def)
  have "inj_on row_key (all_tags db)" using assms(1) by (simp add: sqlite_ok_def)
  then have "inj_on tag_key (tags_of db (it_id row))" by (auto simp: inj_on_def tags_of_def row_key_def)
  then show ?thesis using set_tags_of [of db "it_id row"] item by (metis List.finite_set finite_Un)
qed

interpretation sqlite: wallet_storage "sqlite_storage env" env sqlite_ok sqlite_content for env
  by unfold_locales
    (simp_all only: sqlite_storage_def WalletStorage.simps, fact sqlite_get_law, fact sqlite_add_law, fact sqlite_update_law,
     fact sqlite_add_tags_law, fact sqlite_update_tags_law, fact sqlite_delete_tags_law, fact sqlite_delete_law,
     fact sqlite_get_all_law, fact sqlite_search_law, fact sqlite_tags_law)

section \<open>Connections without foreign keys\<close>

text \<open>
  \<open>open_storage\<close> does not switch foreign keys on, and SQLite leaves them
  off unless it was built otherwise. On such a connection the tags of a deleted item stay in the
  tables and the next item gets its number: a new item without tags has the tags of the deleted
  one, and adding an item with such a tag fails although no such item exists.
\<close>

theorem stale_tags_after_delete:
  assumes "\<not> se_foreign_keys env" and "sqlite_add db_empty t n v [Tag_Encrypted k x] = (r1, db1)"
    and "sqlite_delete env db1 t n = (r2, db2)" and "sqlite_add db2 t' n' v' [] = (r3, db3)"
    and "sqlite_add db2 t' n' v' [Tag_Encrypted k y] = (r4, db4)"
  shows "r1 = Ok () \<and> r2 = Ok () \<and> r3 = Ok () \<and>
    sqlite_content db3 t' n' = Some \<lparr>item_value = v', item_tags = {Tag_Encrypted k x}\<rparr> \<and>
    sqlite_content db2 t' n' = None \<and> r4 = Err WalletItemAlreadyExists"
proof -
  have tags: "tags_of \<lparr>db_metadata = [], db_items = rows, db_tags_encrypted = [(1, k, x)], db_tags_plaintext = []\<rparr> 1 =
      {Tag_Encrypted k x}" for rows
  proof (rule set_eqI)
    fix tag
    show "tag \<in> tags_of \<lparr>db_metadata = [], db_items = rows, db_tags_encrypted = [(1, k, x)], db_tags_plaintext = []\<rparr> 1 \<longleftrightarrow>
        tag \<in> {Tag_Encrypted k x}"
      by (cases tag) (auto simp: tags_of_def)
  qed
  have db1: "r1 = Ok ()" "db1 = \<lparr>db_metadata = [], db_items = [\<lparr>it_id = 1, it_type = t, it_name = n, it_value = ev_data v,
      it_key = ev_key v\<rparr>], db_tags_encrypted = [(1, k, x)], db_tags_plaintext = []\<rparr>"
    using assms(2)
    by (simp_all add: sqlite_add_def db_empty_def insert_item_def next_item_id_def transaction_def Let_def)
  have db2: "r2 = Ok ()" "db2 = \<lparr>db_metadata = [], db_items = [], db_tags_encrypted = [(1, k, x)], db_tags_plaintext = []\<rparr>"
    using assms(1,3) by (simp_all add: db1 sqlite_delete_def is_item_def Let_def)
  have "r3 = Ok ()" "db3 = \<lparr>db_metadata = [], db_items = [\<lparr>it_id = 1, it_type = t', it_name = n', it_value = ev_data v',
      it_key = ev_key v'\<rparr>], db_tags_encrypted = [(1, k, x)], db_tags_plaintext = []\<rparr>"
    using assms(4) by (simp_all add: db2 sqlite_add_def insert_item_def next_item_id_def transaction_def Let_def)
  moreover have "r4 = Err WalletItemAlreadyExists"
    using assms(5) by (simp add: db2 sqlite_add_def insert_item_def next_item_id_def transaction_def has_tag_def Let_def)
  ultimately show ?thesis
    using db1(1) db2 tags by (simp add: sqlite_content_def is_item_def row_item_def)
qed

definition sample_storage_env :: "bool \<Rightarrow> StorageEnv" where
  "sample_storage_env fk =
     \<lparr>se_record_options = (\<lambda>s. if s = ''all'' then Some all_options else None),
      se_search_options = (\<lambda>s. if s = ''all'' then Some \<lparr>so_retrieve_records = True, so_retrieve_total_count = True,
        so_retrieve_type = True, so_retrieve_value = True, so_retrieve_tags = True\<rparr> else None),
      se_like = (\<lambda>_ _. False), se_checks = False, se_foreign_keys = fk\<rparr>"

theorem stale_tags_after_delete_witness:
  "fst (let v = \<lparr>ev_data = [1], ev_key = [2]\<rparr>;
      db1 = snd (sqlite_add db_empty [3] [4] v [Tag_Encrypted [5] [6]]);
      db2 = snd (sqlite_delete (sample_storage_env False) db1 [3] [4])
    in sqlite_add db2 [7] [8] v [Tag_Encrypted [5] [9]]) = Err WalletItemAlreadyExists"
  using stale_tags_after_delete [OF _ surjective_pairing surjective_pairing surjective_pairing surjective_pairing,
      of "sample_storage_env False" "[3]" "[4]" "\<lparr>ev_data = [1], ev_key = [2]\<rparr>" "[5]" "[6]" "[7]" "[8]"
        "\<lparr>ev_data = [1], ev_key = [2]\<rparr>" "[9]"]
  by (simp add: sample_storage_env_def Let_def)

end
