(* ===== verification/Wallet.thy ===== *)
theory Wallet
  imports Sqlite_Storage
begin

text \<open>
  A wallet (\<open>indy-wallet/src/wallet.rs\<close>, \<open>iterator.rs\<close>): the operations that encrypt their
  arguments, call the storage and decrypt what it returns, over any storage. The client lemmas are
  proved in the contract of a storage: a wallet behaves like a map from type and id to a value and
  tags in plain text. The properties state this for the default storage.
\<close>

section \<open>The wallet\<close>

record 's Wallet =
  w_id :: string
  w_storage :: 's
  w_keys :: Keys

abbreviation encrypted_type :: "CryptoEnv \<Rightarrow> Keys \<Rightarrow> string \<Rightarrow> bytes" where
  "encrypted_type env keys t \<equiv> encrypt_as_searchable env (str_bytes t) (type_key keys) (item_hmac_key keys)"

abbreviation encrypted_name :: "CryptoEnv \<Rightarrow> Keys \<Rightarrow> string \<Rightarrow> bytes" where
  "encrypted_name env keys n \<equiv> encrypt_as_searchable env (str_bytes n) (name_key keys) (item_hmac_key keys)"

definition wallet_add ::
    "'s WalletStorage \<Rightarrow> CryptoEnv \<Rightarrow> bytes \<times> bytes \<times> bytes \<Rightarrow> 's Wallet \<Rightarrow> string \<Rightarrow> string \<Rightarrow> string \<Rightarrow> Tags \<Rightarrow>
     unit outcome \<times> 's Wallet" where
  "wallet_add ops env rnd w type name v tags =
     (let keys = w_keys w;
          etype = encrypt_as_searchable env (str_bytes type) (type_key keys) (item_hmac_key keys);
          ename = encrypt_as_searchable env (str_bytes name) (name_key keys) (item_hmac_key keys);
          evalue = ev_encrypt env rnd v (value_key keys);
          etags = encrypt_tags env tags (tag_name_key keys) (tag_value_key keys) (tags_hmac_key keys);
          (r, s) = st_add ops (w_storage w) etype ename evalue etags
      in (r, w\<lparr>w_storage := s\<rparr>))"

definition wallet_add_tags ::
    "'s WalletStorage \<Rightarrow> CryptoEnv \<Rightarrow> 's Wallet \<Rightarrow> string \<Rightarrow> string \<Rightarrow> Tags \<Rightarrow> unit outcome \<times> 's Wallet" where
  "wallet_add_tags ops env w type name tags =
     (let keys = w_keys w;
          etype = encrypt_as_searchable env (str_bytes type) (type_key keys) (item_hmac_key keys);
          ename = encrypt_as_searchable env (str_bytes name) (name_key keys) (item_hmac_key keys);
          etags = encrypt_tags env tags (tag_name_key keys) (tag_value_key keys) (tags_hmac_key keys);
          (r, s) = st_add_tags ops (w_storage w) etype ename etags
      in (r, w\<lparr>w_storage := s\<rparr>))"

definition wallet_update_tags ::
    "'s WalletStorage \<Rightarrow> CryptoEnv \<Rightarrow> 's Wallet \<Rightarrow> string \<Rightarrow> string \<Rightarrow> Tags \<Rightarrow> unit outcome \<times> 's Wallet" where
  "wallet_update_tags ops env w type name tags =
     (let keys = w_keys w;
          etype = encrypt_as_searchable env (str_bytes type) (type_key keys) (item_hmac_key keys);
          ename = encrypt_as_searchable env (str_bytes name) (name_key keys) (item_hmac_key keys);
          etags = encrypt_tags env tags (tag_name_key keys) (tag_value_key keys) (tags_hmac_key keys);
          (r, s) = st_update_tags ops (w_storage w) etype ename etags
      in (r, w\<lparr>w_storage := s\<rparr>))"

definition wallet_delete_tags ::
    "'s WalletStorage \<Rightarrow> CryptoEnv \<Rightarrow> 's Wallet \<Rightarrow> string \<Rightarrow> string \<Rightarrow> string list \<Rightarrow> unit outcome \<times> 's Wallet" where
  "wallet_delete_tags ops env w type name tag_names =
     (let keys = w_keys w;
          etype = encrypt_as_searchable env (str_bytes type) (type_key keys) (item_hmac_key keys);
          ename = encrypt_as_searchable env (str_bytes name) (name_key keys) (item_hmac_key keys);
          enames = encrypt_tag_names env tag_names (tag_name_key keys) (tags_hmac_key keys);
          (r, s) = st_delete_tags ops (w_storage w) etype ename enames
      in (r, w\<lparr>w_storage := s\<rparr>))"

definition wallet_update ::
    "'s WalletStorage \<Rightarrow> CryptoEnv \<Rightarrow> bytes \<times> bytes \<times> bytes \<Rightarrow> 's Wallet \<Rightarrow> string \<Rightarrow> string \<Rightarrow> string \<Rightarrow>
     unit outcome \<times> 's Wallet" where
  "wallet_update ops env rnd w type name new_value =
     (let keys = w_keys w;
          etype = encrypt_as_searchable env (str_bytes type) (type_key keys) (item_hmac_key keys);
          ename = encrypt_as_searchable env (str_bytes name) (name_key keys) (item_hmac_key keys);
          evalue = ev_encrypt env rnd new_value (value_key keys);
          (r, s) = st_update ops (w_storage w) etype ename evalue
      in (r, w\<lparr>w_storage := s\<rparr>))"

definition wallet_get ::
    "'s WalletStorage \<Rightarrow> CryptoEnv \<Rightarrow> 's Wallet \<Rightarrow> string \<Rightarrow> string \<Rightarrow> string \<Rightarrow> WalletRecord outcome" where
  "wallet_get ops env w type name options =
     (let keys = w_keys w;
          etype = encrypt_as_searchable env (str_bytes type) (type_key keys) (item_hmac_key keys);
          ename = encrypt_as_searchable env (str_bytes name) (name_key keys) (item_hmac_key keys)
      in and_then (st_get ops (w_storage w) etype ename options) (\<lambda>result.
         and_then (map_outcome_option (\<lambda>v. ev_decrypt env v (value_key keys)) (sr_value result)) (\<lambda>v.
         and_then (decrypt_tags env (sr_tags result) (tag_name_key keys) (tag_value_key keys)) (\<lambda>tags.
           Ok \<lparr>wr_type = map_option (\<lambda>_. type) (sr_type result), wr_id = name, wr_value = v, wr_tags = tags\<rparr>))))"

definition wallet_delete ::
    "'s WalletStorage \<Rightarrow> CryptoEnv \<Rightarrow> 's Wallet \<Rightarrow> string \<Rightarrow> string \<Rightarrow> unit outcome \<times> 's Wallet" where
  "wallet_delete ops env w type name =
     (let keys = w_keys w;
          etype = encrypt_as_searchable env (str_bytes type) (type_key keys) (item_hmac_key keys);
          ename = encrypt_as_searchable env (str_bytes name) (name_key keys) (item_hmac_key keys);
          (r, s) = st_delete ops (w_storage w) etype ename
      in (r, w\<lparr>w_storage := s\<rparr>))"

record WalletIterator =
  wi_storage_iterator :: StorageIterator
  wi_keys :: Keys

text \<open>\<open>from_str\<close> is serde's reading of JSON text.\<close>

definition wallet_search ::
    "'s WalletStorage \<Rightarrow> CryptoEnv \<Rightarrow> (string \<Rightarrow> SJsonValue option) \<Rightarrow> 's Wallet \<Rightarrow> string \<Rightarrow> string \<Rightarrow> string option \<Rightarrow>
     WalletIterator outcome" where
  "wallet_search ops env from_str w type query options =
     and_then (case from_str query of
                 None \<Rightarrow> Err WalletQueryError
               | Some j \<Rightarrow> (case query_deserialize j of Inl _ \<Rightarrow> Err WalletQueryError | Inr q \<Rightarrow> Ok q)) (\<lambda>q.
     let parsed_query = (case optimise q of Some q' \<Rightarrow> q' | None \<Rightarrow> query_default); keys = w_keys w
     in and_then (encrypt_query env parsed_query keys) (\<lambda>encrypted_query.
        let etype = encrypt_as_searchable env (str_bytes type) (type_key keys) (item_hmac_key keys)
        in and_then (st_search ops (w_storage w) etype encrypted_query options) (\<lambda>storage_iterator.
             Ok \<lparr>wi_storage_iterator = storage_iterator, wi_keys = keys\<rparr>)))"

definition wallet_get_all :: "'s WalletStorage \<Rightarrow> 's Wallet \<Rightarrow> WalletIterator outcome" where
  "wallet_get_all ops w =
     and_then (st_get_all ops (w_storage w)) (\<lambda>all_items. Ok \<lparr>wi_storage_iterator = all_items, wi_keys = w_keys w\<rparr>)"

definition iterator_next :: "CryptoEnv \<Rightarrow> WalletIterator \<Rightarrow> WalletRecord option outcome \<times> WalletIterator" where
  "iterator_next env it =
     (case si_records (wi_storage_iterator it) of
        [] \<Rightarrow> (Ok None, it)
      | r # rs \<Rightarrow>
          (map_ok Some (decrypt_storage_record env r (wi_keys it)),
           it\<lparr>wi_storage_iterator := (wi_storage_iterator it)\<lparr>si_records := rs\<rparr>\<rparr>))"

definition iterator_total_count :: "WalletIterator \<Rightarrow> nat option outcome" where
  "iterator_total_count it = Ok (si_total_count (wi_storage_iterator it))"

text \<open>Calls of \<open>next\<close> until it returns none: the loop of every caller. The measure is the records left.\<close>

function iterator_records :: "CryptoEnv \<Rightarrow> WalletIterator \<Rightarrow> WalletRecord list outcome" where
  "iterator_records env it =
     (case iterator_next env it of
        (Ok None, _) \<Rightarrow> Ok []
      | (Ok (Some r), it') \<Rightarrow> map_ok (\<lambda>rs. r # rs) (iterator_records env it')
      | (Err e, _) \<Rightarrow> Err e
      | (Panic, _) \<Rightarrow> Panic)"
  by pat_completeness auto

termination
  by (relation "measure (\<lambda>(_, it). length (si_records (wi_storage_iterator it)))")
    (auto simp: iterator_next_def split: list.splits)

declare iterator_records.simps [simp del]

lemma iterator_records_map:
  "iterator_records env it = map_outcome_list (\<lambda>r. decrypt_storage_record env r (wi_keys it)) (si_records (wi_storage_iterator it))"
proof (induction "si_records (wi_storage_iterator it)" arbitrary: it)
  case Nil
  then show ?case by (subst iterator_records.simps) (simp add: iterator_next_def flip: Nil)
next
  case (Cons r rs)
  let ?it = "it\<lparr>wi_storage_iterator := (wi_storage_iterator it)\<lparr>si_records := rs\<rparr>\<rparr>"
  have "iterator_records env ?it = map_outcome_list (\<lambda>r. decrypt_storage_record env r (wi_keys it)) rs"
    using Cons(1) [of ?it] by simp
  then show ?case
    unfolding Cons(2) [symmetric]
    by (subst iterator_records.simps, cases "decrypt_storage_record env r (wi_keys it)")
      (simp_all add: iterator_next_def map_ok_def flip: Cons(2))
qed

section \<open>The wallet as a map\<close>

text \<open>What a wallet stands for: type and id of a record to its value and its tags.\<close>

type_synonym plain_item = "string \<times> (string \<rightharpoonup> string)"

type_synonym plain_wallet = "string \<Rightarrow> string \<Rightarrow> plain_item option"

definition item_rel :: "CryptoEnv \<Rightarrow> Keys \<Rightarrow> StoredItem \<Rightarrow> plain_item \<Rightarrow> bool" where
  "item_rel env keys item = (\<lambda>(v, tm).
     (\<exists>rnd. fresh_ok rnd \<and> item_value item = ev_encrypt env rnd v (value_key keys)) \<and> rust_str v \<and>
     (\<exists>tags. tags_ok tags \<and> hm_get tags = tm \<and> item_tags item = set (encrypted_tags env keys tags)))"

definition content_rel :: "CryptoEnv \<Rightarrow> Keys \<Rightarrow> content \<Rightarrow> plain_wallet \<Rightarrow> bool" where
  "content_rel env keys c P \<longleftrightarrow>
     (\<forall>t n. rel_option (item_rel env keys) (c (encrypted_type env keys t) (encrypted_name env keys n)) (P t n)) \<and>
     (\<forall>et en. c et en \<noteq> None \<longrightarrow>
        (\<exists>t n. rust_str t \<and> rust_str n \<and> et = encrypted_type env keys t \<and> en = encrypted_name env keys n))"

text \<open>The commands that change a wallet, with the random values a call draws.\<close>

datatype WalletCommand =
    Cmd_Add "bytes \<times> bytes \<times> bytes" string string string Tags
  | Cmd_Update "bytes \<times> bytes \<times> bytes" string string string
  | Cmd_Add_Tags string string Tags
  | Cmd_Update_Tags string string Tags
  | Cmd_Delete_Tags string string "string list"
  | Cmd_Delete string string

fun wallet_step :: "'s WalletStorage \<Rightarrow> CryptoEnv \<Rightarrow> WalletCommand \<Rightarrow> 's Wallet \<Rightarrow> unit outcome \<times> 's Wallet" where
  "wallet_step ops env (Cmd_Add rnd t n v tags) w = wallet_add ops env rnd w t n v tags"
| "wallet_step ops env (Cmd_Update rnd t n v) w = wallet_update ops env rnd w t n v"
| "wallet_step ops env (Cmd_Add_Tags t n tags) w = wallet_add_tags ops env w t n tags"
| "wallet_step ops env (Cmd_Update_Tags t n tags) w = wallet_update_tags ops env w t n tags"
| "wallet_step ops env (Cmd_Delete_Tags t n names) w = wallet_delete_tags ops env w t n names"
| "wallet_step ops env (Cmd_Delete t n) w = wallet_delete ops env w t n"

definition change_item ::
    "plain_wallet \<Rightarrow> string \<Rightarrow> string \<Rightarrow> (plain_item \<Rightarrow> plain_item option) \<Rightarrow> unit outcome \<times> plain_wallet" where
  "change_item P t n f =
     (case P t n of
        None \<Rightarrow> (Err WalletItemNotFound, P)
      | Some item \<Rightarrow> (Ok (), P(t := (P t)(n := f item))))"

fun map_step :: "WalletCommand \<Rightarrow> plain_wallet \<Rightarrow> unit outcome \<times> plain_wallet" where
  "map_step (Cmd_Add _ t n v tags) P =
     (case P t n of
        None \<Rightarrow> (Ok (), P(t := (P t)(n \<mapsto> (v, hm_get tags))))
      | Some _ \<Rightarrow> (Err WalletItemAlreadyExists, P))"
| "map_step (Cmd_Update _ t n v) P = change_item P t n (\<lambda>(_, tm). Some (v, tm))"
| "map_step (Cmd_Add_Tags t n tags) P = change_item P t n (\<lambda>(v, tm). Some (v, tm ++ hm_get tags))"
| "map_step (Cmd_Update_Tags t n tags) P = change_item P t n (\<lambda>(v, tm). Some (v, hm_get tags))"
| "map_step (Cmd_Delete_Tags t n names) P = change_item P t n (\<lambda>(v, tm). Some (v, tm |` (- set names)))"
| "map_step (Cmd_Delete t n) P = change_item P t n (\<lambda>_. None)"

text \<open>What the types of Rust and libsodium say of the arguments.\<close>

fun command_ok :: "WalletCommand \<Rightarrow> bool" where
  "command_ok (Cmd_Add rnd t n v tags) \<longleftrightarrow> fresh_ok rnd \<and> rust_str t \<and> rust_str n \<and> rust_str v \<and> tags_ok tags"
| "command_ok (Cmd_Update rnd t n v) \<longleftrightarrow> fresh_ok rnd \<and> rust_str v"
| "command_ok (Cmd_Add_Tags t n tags) \<longleftrightarrow> tags_ok tags"
| "command_ok (Cmd_Update_Tags t n tags) \<longleftrightarrow> tags_ok tags"
| "command_ok (Cmd_Delete_Tags t n names) \<longleftrightarrow> True"
| "command_ok (Cmd_Delete t n) \<longleftrightarrow> True"

fun run_steps :: "('c \<Rightarrow> 'a \<Rightarrow> 'r \<times> 'a) \<Rightarrow> 'c list \<Rightarrow> 'a \<Rightarrow> 'r list \<times> 'a" where
  "run_steps step [] a = ([], a)"
| "run_steps step (c # cs) a = (let (r, a') = step c a; (rs, a'') = run_steps step cs a' in (r # rs, a''))"

section \<open>Encrypted names and tags\<close>

lemma tag_key_encrypt_tag: "tag_key (encrypt_tag env nk vk hk (n, v)) = encrypt_tag_name env n nk hk"
  by (simp add: encrypt_tag_def encrypt_tag_name_def)

lemma encrypt_tag_name_inject:
  assumes "crypto_ok env"
  shows "encrypt_tag_name env a nk hk = encrypt_tag_name env b nk hk \<longleftrightarrow> a = b"
  by (auto simp: encrypt_tag_name_def starts_with_tilde str_bytes_Cons encrypt_searchable_inject [OF assms] split: if_splits)

lemma encrypt_tag_inject:
  assumes "crypto_ok env" and "encrypt_tag env nk vk hk x = encrypt_tag env nk vk hk y"
  shows "x = y"
proof -
  obtain a v b w where xy: "x = (a, v)" "y = (b, w)" by (cases x; cases y)
  then have "a = b" using assms tag_key_encrypt_tag encrypt_tag_name_inject by metis
  with assms xy show ?thesis
    by (auto simp: encrypt_tag_def encrypt_searchable_inject [OF assms(1)] split: if_splits)
qed

lemma encrypted_tags_distinct:
  assumes "crypto_ok env" and "tags_ok tags"
  shows "inj_on tag_key (set (encrypted_tags env keys tags))" and "distinct (encrypted_tags env keys tags)"
proof -
  have d: "distinct (map fst tags)" using assms(2) by (simp add: tags_ok_def hm_wf_def)
  then show "distinct (encrypted_tags env keys tags)"
    using encrypt_tag_inject [OF assms(1)] by (auto simp: encrypt_tags_def distinct_map inj_on_def)
  show "inj_on tag_key (set (encrypted_tags env keys tags))"
    using d by (auto simp: encrypt_tags_def inj_on_def tag_key_encrypt_tag encrypt_tag_name_inject [OF assms(1)] distinct_map)
      (metis fst_conv snd_conv)
qed

lemma hm_get_filter: "hm_get (filter (\<lambda>(k, _). k \<in> A) tags) = hm_get tags |` A"
proof (rule ext)
  show "hm_get (filter (\<lambda>(k, _). k \<in> A) tags) k = (hm_get tags |` A) k" for k
    by (induction tags) (auto simp: restrict_map_def)
qed

lemma hm_get_append: "hm_get (xs @ ys) k = (case hm_get xs k of None \<Rightarrow> hm_get ys k | Some v \<Rightarrow> Some v)"
  by (induction xs k rule: hm_get.induct) auto

lemma tags_ok_filter: "tags_ok tags \<Longrightarrow> tags_ok (filter Q tags)"
  by (auto simp: tags_ok_def hm_wf_def distinct_map_filter list_all_iff)

lemma filter_encrypted_tags:
  assumes "\<And>k. Q (encrypt_tag_name env k (tag_name_key keys) (tags_hmac_key keys)) \<longleftrightarrow> k \<in> A"
  shows "{x \<in> set (encrypted_tags env keys tags). Q (tag_key x)} = set (encrypted_tags env keys (filter (\<lambda>(k, _). k \<in> A) tags))"
  by (auto simp: encrypt_tags_def tag_key_encrypt_tag assms)

text \<open>Tags read back from the storage in another order, with or without repetition.\<close>

lemma decrypt_tags_loop_fold:
  assumes "crypto_ok env" and "list_all (\<lambda>(n, v). rust_str n \<and> rust_str v) tags"
  shows "decrypt_tags_loop env nk vk (map (encrypt_tag env nk vk hk) tags) acc = Ok (fold (\<lambda>(n, v) m. hm_insert m n v) tags acc)"
  using assms(2) by (induction tags arbitrary: acc) (auto simp: decrypt_encrypt_tag [OF assms(1)])

lemma hm_wf_fold_insert: "hm_wf acc \<Longrightarrow> hm_wf (fold (\<lambda>(n, v) m. hm_insert m n v) tags acc)"
  by (induction tags arbitrary: acc) auto

lemma decrypt_tags_set:
  assumes "crypto_ok env" and "tags_ok tags" and "set etags = set (encrypted_tags env keys tags)"
  shows "\<exists>m. decrypt_tags env (Some etags) (tag_name_key keys) (tag_value_key keys) = Ok (Some m) \<and>
    hm_wf m \<and> hm_get m = hm_get tags"
proof -
  let ?enc = "encrypt_tag env (tag_name_key keys) (tag_value_key keys) (tags_hmac_key keys)"
  have "set etags = ?enc ` set tags" using assms(3) by (simp add: encrypt_tags_def)
  then have "\<forall>e \<in> set etags. \<exists>x. ?enc x = e" by auto
  then obtain xs where xs: "map ?enc xs = etags" by (metis ex_map_conv)
  have "inj ?enc" using encrypt_tag_inject [OF assms(1)] by (auto simp: inj_def)
  with xs \<open>set etags = ?enc ` set tags\<close> have sets: "set xs = set tags" by (metis inj_image_eq_iff set_map)
  have wf: "hm_wf tags" and rs: "list_all (\<lambda>(n, v). rust_str n \<and> rust_str v) tags" using assms(2) by (simp_all add: tags_ok_def)
  let ?m = "fold (\<lambda>(n, v) m. hm_insert m n v) xs []"
  have "decrypt_tags_loop env (tag_name_key keys) (tag_value_key keys) etags [] = Ok ?m"
    using decrypt_tags_loop_fold [OF assms(1), of xs] rs sets xs by (auto simp: list_all_iff)
  moreover have "hm_get ?m k = hm_get tags k" for k
  proof (cases "map_of (rev xs) k")
    case None
    then have "k \<notin> fst ` set tags" using sets by (simp add: map_of_eq_None_iff)
    then have "hm_get tags k = None" by (metis hm_get_None_iff)
    with None show ?thesis by (simp add: fold_hm_insert)
  next
    case (Some v)
    then have "(k, v) \<in> set tags" using sets by (metis map_of_SomeD set_rev)
    then have "hm_get tags k = Some v" using hm_get_iff_member [OF wf] by blast
    with Some show ?thesis by (simp add: fold_hm_insert)
  qed
  moreover have "hm_wf ?m" by (rule hm_wf_fold_insert) (simp add: hm_wf_def)
  ultimately show ?thesis by (intro exI [of _ ?m]) (simp add: decrypt_tags_def ext)
qed

section \<open>Steps of a wallet and steps of the map\<close>

lemma content_rel_None:
  "content_rel env keys c P \<Longrightarrow> P t n = None \<longleftrightarrow> c (encrypted_type env keys t) (encrypted_name env keys n) = None"
  unfolding content_rel_def by (metis option.rel_distinct(1,2) not_None_eq)

lemma content_rel_Some:
  assumes "content_rel env keys c P" and "P t n = Some x"
  obtains item where "c (encrypted_type env keys t) (encrypted_name env keys n) = Some item" "item_rel env keys item x"
  using assms unfolding content_rel_def by (metis option_rel_Some2)

text \<open>The same change on both sides.\<close>

lemma content_rel_upd:
  assumes "crypto_ok env" and "content_rel env keys c P" and "rel_option (item_rel env keys) item x"
    and "item \<noteq> None \<Longrightarrow> rust_str t \<and> rust_str n"
  shows "content_rel env keys
    (c(encrypted_type env keys t := (c (encrypted_type env keys t))(encrypted_name env keys n := item)))
    (P(t := (P t)(n := x)))"
  unfolding content_rel_def
proof (intro conjI allI impI)
  let ?c = "c(encrypted_type env keys t := (c (encrypted_type env keys t))(encrypted_name env keys n := item))"
  show "rel_option (item_rel env keys) (?c (encrypted_type env keys t') (encrypted_name env keys n')) ((P(t := (P t)(n := x))) t' n')"
    for t' n'
    using assms(2,3) by (simp add: content_rel_def encrypt_searchable_inject [OF assms(1)])
  fix et en
  assume c: "?c et en \<noteq> None"
  show "\<exists>t n. rust_str t \<and> rust_str n \<and> et = encrypted_type env keys t \<and> en = encrypted_name env keys n"
  proof (cases "et = encrypted_type env keys t \<and> en = encrypted_name env keys n")
    case True
    with c have "item \<noteq> None" by simp
    with assms(4) True show ?thesis by blast
  next
    case False
    with c have "c et en \<noteq> None" by (auto split: if_splits)
    with assms(2) show ?thesis unfolding content_rel_def by blast
  qed
qed

lemma content_rel_rust_str:
  assumes "crypto_ok env" and "content_rel env keys c P" and "P t n = Some x"
  shows "rust_str t \<and> rust_str n"
proof -
  obtain item where "c (encrypted_type env keys t) (encrypted_name env keys n) = Some item"
    using content_rel_Some [OF assms(2,3)] by blast
  then obtain t' n' where "rust_str t'" "rust_str n'" "encrypted_type env keys t = encrypted_type env keys t'"
    "encrypted_name env keys n = encrypted_name env keys n'"
    using assms(2) unfolding content_rel_def by (metis option.distinct(1))
  then show ?thesis by (simp add: encrypt_searchable_inject [OF assms(1)])
qed

text \<open>A step that changes an item, if it is there.\<close>

lemma content_rel_change:
  assumes "crypto_ok env" and "content_rel env keys c P"
    and "case c (encrypted_type env keys t) (encrypted_name env keys n) of
        None \<Rightarrow> r = Err WalletItemNotFound \<and> c' = c
      | Some item \<Rightarrow> r = Ok () \<and>
          c' = c(encrypted_type env keys t := (c (encrypted_type env keys t))(encrypted_name env keys n := g item))"
    and "\<And>item x. item_rel env keys item x \<Longrightarrow> rel_option (item_rel env keys) (g item) (f x)"
  shows "fst (change_item P t n f) = r \<and> content_rel env keys c' (snd (change_item P t n f))"
proof (cases "P t n")
  case None
  then have "c (encrypted_type env keys t) (encrypted_name env keys n) = None" using content_rel_None [OF assms(2)] by simp
  with assms(2,3) None show ?thesis by (simp add: change_item_def)
next
  case (Some x)
  then obtain item where item: "c (encrypted_type env keys t) (encrypted_name env keys n) = Some item" "item_rel env keys item x"
    using content_rel_Some [OF assms(2)] by blast
  have "content_rel env keys c' (P(t := (P t)(n := f x)))"
    using content_rel_upd [OF assms(1,2) assms(4) [OF item(2)] content_rel_rust_str [OF assms(1,2) Some]] assms(3) item(1) by simp
  with assms(3) item(1) Some show ?thesis by (simp add: change_item_def)
qed

lemma item_rel_update:
  "item_rel env keys item (v, tm) \<Longrightarrow> fresh_ok rnd \<Longrightarrow> rust_str w \<Longrightarrow>
     item_rel env keys (item\<lparr>item_value := ev_encrypt env rnd w (value_key keys)\<rparr>) (w, tm)"
  unfolding item_rel_def by (cases rnd; simp; blast)

lemma item_rel_tags:
  "item_rel env keys item (v, tm) \<Longrightarrow> tags_ok tags \<Longrightarrow> hm_get tags = tm' \<Longrightarrow> etags = set (encrypted_tags env keys tags) \<Longrightarrow>
     item_rel env keys (item\<lparr>item_tags := etags\<rparr>) (v, tm')"
  by (auto simp: item_rel_def)

lemma item_rel_add_tags:
  assumes "crypto_ok env" and "item_rel env keys item (v, tm)" and "tags_ok new"
  shows "item_rel env keys (item\<lparr>item_tags := {x \<in> item_tags item. tag_key x \<notin> tag_key ` set (encrypted_tags env keys new)} \<union>
    set (encrypted_tags env keys new)\<rparr>) (v, tm ++ hm_get new)"
proof -
  let ?name = "\<lambda>n. encrypt_tag_name env n (tag_name_key keys) (tags_hmac_key keys)"
  obtain tags where tags: "tags_ok tags" "hm_get tags = tm" "item_tags item = set (encrypted_tags env keys tags)"
    using assms(2) by (auto simp: item_rel_def)
  let ?old = "filter (\<lambda>(k, _). k \<in> - fst ` set new) tags"
  have "?name k \<notin> tag_key ` set (encrypted_tags env keys new) \<longleftrightarrow> k \<in> - fst ` set new" for k
    by (force simp: encrypt_tags_def tag_key_encrypt_tag encrypt_tag_name_inject [OF assms(1)] image_iff)
  then have "{x \<in> item_tags item. tag_key x \<notin> tag_key ` set (encrypted_tags env keys new)} = set (encrypted_tags env keys ?old)"
    unfolding tags(3) by (rule filter_encrypted_tags)
  moreover have "tags_ok (?old @ new)"
    using tags(1) assms(3) by (force simp: tags_ok_def hm_wf_def distinct_map_filter list_all_iff)
  moreover have "hm_get (?old @ new) = tm ++ hm_get new"
  proof (rule ext)
    fix k
    have "hm_get ?old k = (if hm_get new k = None then tm k else None)"
      unfolding hm_get_filter tags(2) by (simp add: restrict_map_def hm_get_None_iff)
    then show "hm_get (?old @ new) k = (tm ++ hm_get new) k"
      unfolding hm_get_append by (auto simp: map_add_def split: option.split)
  qed
  ultimately show ?thesis
    using assms(2) by (intro item_rel_tags [of _ _ _ _ _ "?old @ new"]) (auto simp: encrypt_tags_def)
qed

lemma item_rel_delete_tags:
  assumes "crypto_ok env" and "item_rel env keys item (v, tm)"
  shows "item_rel env keys (item\<lparr>item_tags := {x \<in> item_tags item. tag_key x \<notin>
    set (encrypt_tag_names env names (tag_name_key keys) (tags_hmac_key keys))}\<rparr>) (v, tm |` (- set names))"
proof -
  let ?name = "\<lambda>n. encrypt_tag_name env n (tag_name_key keys) (tags_hmac_key keys)"
  obtain tags where tags: "tags_ok tags" "hm_get tags = tm" "item_tags item = set (encrypted_tags env keys tags)"
    using assms(2) by (auto simp: item_rel_def)
  have "?name k \<notin> set (encrypt_tag_names env names (tag_name_key keys) (tags_hmac_key keys)) \<longleftrightarrow> k \<in> - set names" for k
    by (auto simp: encrypt_tag_names_def encrypt_tag_name_inject [OF assms(1)])
  then have "{x \<in> item_tags item. tag_key x \<notin> set (encrypt_tag_names env names (tag_name_key keys) (tags_hmac_key keys))} =
      set (encrypted_tags env keys (filter (\<lambda>(k, _). k \<in> - set names) tags))"
    unfolding tags(3) by (rule filter_encrypted_tags)
  moreover have "hm_get (filter (\<lambda>(k, _). k \<in> - set names) tags) = tm |` (- set names)"
    unfolding hm_get_filter tags(2) ..
  ultimately show ?thesis
    using assms(2) tags(1) by (intro item_rel_tags [OF _ tags_ok_filter])
qed

section \<open>Wallets over a storage that keeps its contract\<close>

text \<open>What a record returned by \<open>get\<close>, \<open>search\<close> and \<open>get_all\<close> shows of an item.\<close>

definition record_shows :: "RecordOptions \<Rightarrow> string \<times> string \<times> plain_item \<Rightarrow> WalletRecord \<Rightarrow> bool" where
  "record_shows ro = (\<lambda>(t, n, v, tm) r.
     wr_id r = n \<and> wr_type r = (if ro_retrieve_type ro then Some t else None) \<and>
     wr_value r = (if ro_retrieve_value ro then Some v else None) \<and>
     (case wr_tags r of None \<Rightarrow> \<not> ro_retrieve_tags ro | Some m \<Rightarrow> ro_retrieve_tags ro \<and> hm_wf m \<and> hm_get m = tm))"

definition wallet_rel ::
    "('s \<Rightarrow> bool) \<Rightarrow> ('s \<Rightarrow> content) \<Rightarrow> CryptoEnv \<Rightarrow> 's Wallet \<Rightarrow> plain_wallet \<Rightarrow> bool" where
  "wallet_rel ok con env w P \<longleftrightarrow> ok (w_storage w) \<and> content_rel env (w_keys w) (con (w_storage w)) P"

lemma decrypt_stored_record:
  assumes "crypto_ok env" and "item_rel env keys item (v, tm)" and "set tags = item_tags item" and "rust_str t" and "rust_str n"
  shows "\<exists>r. decrypt_storage_record env (stored_record ro (encrypted_type env keys t, encrypted_name env keys n, item, tags)) keys = Ok r \<and>
    record_shows ro (t, n, v, tm) r"
proof -
  obtain m where m: "decrypt_tags env (Some tags) (tag_name_key keys) (tag_value_key keys) = Ok (Some m)" "hm_wf m" "hm_get m = tm"
    using assms(2,3) decrypt_tags_set [OF assms(1)] by (auto simp: item_rel_def) metis
  have "ev_decrypt env (item_value item) (value_key keys) = Ok v"
    using assms(2) ev_decrypt_encrypt [OF assms(1)] by (auto simp: item_rel_def)
  with m assms(4,5) show ?thesis
    by (auto simp: decrypt_storage_record_def stored_record_def map_outcome_option_def record_shows_def decrypt_tags_def
        decrypt_searchable [OF assms(1)] rust_str_from_utf8)
qed

definition lists_plain :: "plain_wallet \<Rightarrow> (string \<Rightarrow> (string \<rightharpoonup> string) \<Rightarrow> bool) \<Rightarrow> (string \<times> string \<times> plain_item) list \<Rightarrow> bool" where
  "lists_plain P Q es \<longleftrightarrow>
     distinct (map (\<lambda>(t, n, _). (t, n)) es) \<and> set es = {(t, n, v, tm). P t n = Some (v, tm) \<and> Q t tm}"

lemma list_all2_exists: "(\<And>x. x \<in> set xs \<Longrightarrow> \<exists>y. R x y) \<Longrightarrow> \<exists>ys. list_all2 R xs ys"
proof (induction xs)
  case (Cons x xs)
  then obtain y ys where "R x y" "list_all2 R xs ys" by fastforce
  then have "list_all2 R (x # xs) (y # ys)" by simp
  then show ?case ..
qed auto

lemma list_all2_member:
  "list_all2 R xs ys \<Longrightarrow> x \<in> set xs \<Longrightarrow> \<exists>y \<in> set ys. R x y"
  "list_all2 R xs ys \<Longrightarrow> y \<in> set ys \<Longrightarrow> \<exists>x \<in> set xs. R x y"
  by (induction rule: list_all2_induct) auto

text \<open>A listing of the storage decrypts to a listing of the map.\<close>

lemma decrypt_listing:
  assumes "crypto_ok env" and "content_rel env keys c P" and "lists_items c Q' rs"
    and "\<And>t item v tm. item_rel env keys item (v, tm) \<Longrightarrow> Q' (encrypted_type env keys t) (item_tags item) \<longleftrightarrow> Q t tm"
  shows "\<exists>es recs. map_outcome_list (\<lambda>r. decrypt_storage_record env r keys) (map (stored_record ro) rs) = Ok recs \<and>
    lists_plain P Q es \<and> list_all2 (record_shows ro) es recs \<and> length es = length rs"
proof -
  define R where "R = (\<lambda>(et, en, item, tags) (t, n, x). et = encrypted_type env keys t \<and> en = encrypted_name env keys n \<and>
    P t n = Some x \<and> item_rel env keys item x \<and> rust_str t \<and> rust_str n \<and> set tags = item_tags item \<and> Q' et (item_tags item))"
  have rs: "c et en = Some item \<and> Q' et (item_tags item) \<and> set tags = item_tags item" if "(et, en, item, tags) \<in> set rs" for et en item tags
  proof -
    from that have "(et, en, item) \<in> (\<lambda>(t, n, item, _). (t, n, item)) ` set rs" by (auto simp: image_iff intro!: bexI [of _ "(et, en, item, tags)"])
    with assms(3) that show ?thesis unfolding lists_items_def by auto
  qed
  have "\<exists>e. R r e" if "r \<in> set rs" for r
  proof -
    obtain et en item tags where r: "r = (et, en, item, tags)" by (cases r)
    with rs that have c: "c et en = Some item" by blast
    then obtain t n where tn: "rust_str t" "rust_str n" "et = encrypted_type env keys t" "en = encrypted_name env keys n"
      using assms(2) unfolding content_rel_def by blast
    with c obtain x where "P t n = Some x" "item_rel env keys item x"
      using assms(2) unfolding content_rel_def by (metis option_rel_Some1)
    with r tn rs that have "R r (t, n, x)" by (auto simp: R_def)
    then show ?thesis ..
  qed
  then obtain es where es: "list_all2 R rs es" using list_all2_exists [of rs R] by blast
  have keys: "map (\<lambda>(t, n, _). (t, n)) rs =
      map (\<lambda>(t, n). (encrypted_type env keys t, encrypted_name env keys n)) (map (\<lambda>(t, n, _). (t, n)) es)"
    using es by (induction rule: list_all2_induct) (auto simp: R_def)
  have "distinct (map (\<lambda>(t, n, _). (t, n)) rs)" using assms(3) by (simp add: lists_items_def)
  then have "distinct (map (\<lambda>(t, n, _). (t, n)) es)" unfolding keys by (rule conjunct1 [OF iffD1 [OF distinct_map]])
  moreover have "set es = {(t, n, v, tm). P t n = Some (v, tm) \<and> Q t tm}"
  proof (intro set_eqI iffI)
    fix e assume "e \<in> set es"
    then obtain r where "r \<in> set rs" "R r e" using list_all2_member(2) [OF es] by blast
    then show "e \<in> {(t, n, v, tm). P t n = Some (v, tm) \<and> Q t tm}" using assms(4) by (fastforce simp: R_def)
  next
    fix e assume "e \<in> {(t, n, v, tm). P t n = Some (v, tm) \<and> Q t tm}"
    then obtain t n v tm where e: "e = (t, n, v, tm)" "P t n = Some (v, tm)" "Q t tm" by blast
    then obtain item where item: "c (encrypted_type env keys t) (encrypted_name env keys n) = Some item" "item_rel env keys item (v, tm)"
      using content_rel_Some [OF assms(2)] by blast
    with e(3) assms(4) have "Q' (encrypted_type env keys t) (item_tags item)" by blast
    with item(1) have "(encrypted_type env keys t, encrypted_name env keys n, item) \<in> (\<lambda>(t, n, item, _). (t, n, item)) ` set rs"
      using assms(3) by (simp add: lists_items_def)
    then obtain tags where "(encrypted_type env keys t, encrypted_name env keys n, item, tags) \<in> set rs" by auto
    then obtain e' where "e' \<in> set es" "R (encrypted_type env keys t, encrypted_name env keys n, item, tags) e'"
      using list_all2_member(1) [OF es] by blast
    moreover obtain t' n' x where "e' = (t', n', x)" by (cases e')
    ultimately show "e \<in> set es" using e by (simp add: R_def encrypt_searchable_inject [OF assms(1)])
  qed
  moreover have "\<exists>recs. map_outcome_list (\<lambda>r. decrypt_storage_record env r keys) (map (stored_record ro) rs) = Ok recs \<and>
      list_all2 (record_shows ro) es recs"
    using es
  proof (induction rule: list_all2_induct)
    case (Cons r rs e es)
    obtain et en item tags t n v tm where re: "r = (et, en, item, tags)" "e = (t, n, v, tm)" by (cases r; cases e)
    with Cons(1) decrypt_stored_record [OF assms(1), of keys item v tm tags t n ro] obtain x where
      "decrypt_storage_record env (stored_record ro r) keys = Ok x" "record_shows ro e x"
      by (auto simp: R_def)
    with Cons.IH show ?case by auto
  qed simp
  ultimately show ?thesis using list_all2_lengthD [OF es] by (auto simp: lists_plain_def)
qed

context wallet_storage
begin

lemma wallet_step_rel:
  assumes "crypto_ok env" and "se_foreign_keys senv" and "wallet_rel invar content env w P" and "command_ok cmd"
    and "wallet_step ops env cmd w = (r, w')"
  shows "fst (map_step cmd P) = r \<and> wallet_rel invar content env w' (snd (map_step cmd P)) \<and> w_keys w' = w_keys w"
proof -
  let ?c = "content (w_storage w)"
  have inv: "invar (w_storage w)" and rel: "content_rel env (w_keys w) ?c P" using assms(3) by (simp_all add: wallet_rel_def)
  have changed: "fst (change_item P t n f) = r \<and> wallet_rel invar content env w' (snd (change_item P t n f)) \<and> w_keys w' = w_keys w"
    if "w' = w\<lparr>w_storage := s'\<rparr>"
      and "invar s' \<and> (case ?c (encrypted_type env (w_keys w) t) (encrypted_name env (w_keys w) n) of
          None \<Rightarrow> r = Err WalletItemNotFound \<and> content s' = ?c
        | Some item \<Rightarrow> r = Ok () \<and> content s' = ?c(encrypted_type env (w_keys w) t :=
            (?c (encrypted_type env (w_keys w) t))(encrypted_name env (w_keys w) n := g item)))"
      and "\<And>item x. item_rel env (w_keys w) item x \<Longrightarrow> rel_option (item_rel env (w_keys w)) (g item) (f x)" for s' t n f g
    using content_rel_change [OF assms(1) rel, where t = t and n = n and r = r and c' = "content s'" and g = g and f = f] that by (simp add: wallet_rel_def)
  show ?thesis
  proof (cases cmd)
    case (Cmd_Add rnd t n v tags)
    obtain s' where s': "st_add ops (w_storage w) (encrypted_type env (w_keys w) t) (encrypted_name env (w_keys w) n)
        (ev_encrypt env rnd v (value_key (w_keys w))) (encrypted_tags env (w_keys w) tags) = (r, s')" "w' = w\<lparr>w_storage := s'\<rparr>"
      using assms(5) Cmd_Add by (auto simp: wallet_add_def Let_def split: prod.splits)
    have "tags_ok tags" using assms(4) Cmd_Add by simp
    note law = add_law [OF inv encrypted_tags_distinct [OF assms(1) this] s'(1)]
    have "item_rel env (w_keys w) \<lparr>item_value = ev_encrypt env rnd v (value_key (w_keys w)),
        item_tags = set (encrypted_tags env (w_keys w) tags)\<rparr> (v, hm_get tags)"
      using assms(4) Cmd_Add by (cases rnd) (auto simp: item_rel_def)
    then have "content_rel env (w_keys w) (?c(encrypted_type env (w_keys w) t := (?c (encrypted_type env (w_keys w) t))
        (encrypted_name env (w_keys w) n \<mapsto> \<lparr>item_value = ev_encrypt env rnd v (value_key (w_keys w)),
          item_tags = set (encrypted_tags env (w_keys w) tags)\<rparr>))) (P(t := (P t)(n \<mapsto> (v, hm_get tags))))"
      using assms(4) Cmd_Add by (intro content_rel_upd [OF assms(1) rel]) auto
    with law content_rel_None [OF rel, of t n] rel s'(2) Cmd_Add show ?thesis
      by (cases "P t n") (auto simp: wallet_rel_def split: if_splits)
  next
    case (Cmd_Update rnd t n v)
    obtain s' where s': "st_update ops (w_storage w) (encrypted_type env (w_keys w) t) (encrypted_name env (w_keys w) n)
        (ev_encrypt env rnd v (value_key (w_keys w))) = (r, s')" "w' = w\<lparr>w_storage := s'\<rparr>"
      using assms(5) Cmd_Update by (auto simp: wallet_update_def Let_def split: prod.splits)
    show ?thesis unfolding Cmd_Update map_step.simps
      by (rule changed [OF s'(2) update_law [OF inv s'(1)]]) (use assms(4) Cmd_Update in \<open>auto intro: item_rel_update\<close>)
  next
    case (Cmd_Add_Tags t n tags)
    obtain s' where s': "st_add_tags ops (w_storage w) (encrypted_type env (w_keys w) t) (encrypted_name env (w_keys w) n)
        (encrypted_tags env (w_keys w) tags) = (r, s')" "w' = w\<lparr>w_storage := s'\<rparr>"
      using assms(5) Cmd_Add_Tags by (auto simp: wallet_add_tags_def Let_def split: prod.splits)
    have t: "tags_ok tags" using assms(4) Cmd_Add_Tags by simp
    show ?thesis unfolding Cmd_Add_Tags map_step.simps
      by (rule changed [OF s'(2) add_tags_law [OF inv encrypted_tags_distinct(1) [OF assms(1) t] s'(1)]])
        (auto intro: item_rel_add_tags [OF assms(1) _ t])
  next
    case (Cmd_Update_Tags t n tags)
    obtain s' where s': "st_update_tags ops (w_storage w) (encrypted_type env (w_keys w) t) (encrypted_name env (w_keys w) n)
        (encrypted_tags env (w_keys w) tags) = (r, s')" "w' = w\<lparr>w_storage := s'\<rparr>"
      using assms(5) Cmd_Update_Tags by (auto simp: wallet_update_tags_def Let_def split: prod.splits)
    have t: "tags_ok tags" using assms(4) Cmd_Update_Tags by simp
    show ?thesis unfolding Cmd_Update_Tags map_step.simps
      by (rule changed [OF s'(2) update_tags_law [OF inv encrypted_tags_distinct [OF assms(1) t] s'(1)]])
        (auto intro: item_rel_tags [OF _ t])
  next
    case (Cmd_Delete_Tags t n names)
    obtain s' where s': "st_delete_tags ops (w_storage w) (encrypted_type env (w_keys w) t) (encrypted_name env (w_keys w) n)
        (encrypt_tag_names env names (tag_name_key (w_keys w)) (tags_hmac_key (w_keys w))) = (r, s')" "w' = w\<lparr>w_storage := s'\<rparr>"
      using assms(5) Cmd_Delete_Tags by (auto simp: wallet_delete_tags_def Let_def split: prod.splits)
    show ?thesis unfolding Cmd_Delete_Tags map_step.simps
      by (rule changed [OF s'(2) delete_tags_law [OF inv s'(1)]]) (auto intro: item_rel_delete_tags [OF assms(1)])
  next
    case (Cmd_Delete t n)
    obtain s' where s': "st_delete ops (w_storage w) (encrypted_type env (w_keys w) t) (encrypted_name env (w_keys w) n) =
        (r, s')" "w' = w\<lparr>w_storage := s'\<rparr>"
      using assms(5) Cmd_Delete by (auto simp: wallet_delete_def Let_def split: prod.splits)
    have law: "invar s' \<and> (case ?c (encrypted_type env (w_keys w) t) (encrypted_name env (w_keys w) n) of
          None \<Rightarrow> r = Err WalletItemNotFound \<and> content s' = ?c
        | Some item \<Rightarrow> r = Ok () \<and> content s' = ?c(encrypted_type env (w_keys w) t :=
            (?c (encrypted_type env (w_keys w) t))(encrypted_name env (w_keys w) n := None)))"
      using delete_law [OF inv assms(2) s'(1)] by (auto simp: fun_upd_idem split: option.split)
    show ?thesis unfolding Cmd_Delete map_step.simps by (rule changed [OF s'(2) law]) simp
  qed
qed

lemma wallet_run_rel:
  assumes "crypto_ok env" and "se_foreign_keys senv" and "wallet_rel invar content env w P" and "list_all command_ok cmds"
    and "run_steps (wallet_step ops env) cmds w = (rs, w')"
  shows "fst (run_steps map_step cmds P) = rs \<and> wallet_rel invar content env w' (snd (run_steps map_step cmds P)) \<and> w_keys w' = w_keys w"
  using assms(3-5)
proof (induction cmds arbitrary: w P rs)
  case (Cons cmd cmds)
  obtain r w1 rs1 where st: "wallet_step ops env cmd w = (r, w1)" "run_steps (wallet_step ops env) cmds w1 = (rs1, w')" "rs = r # rs1"
    using Cons.prems(3) by (auto simp: Let_def split: prod.splits)
  have "command_ok cmd" "list_all command_ok cmds" using Cons.prems(2) by simp_all
  then have one: "fst (map_step cmd P) = r" "wallet_rel invar content env w1 (snd (map_step cmd P))" "w_keys w1 = w_keys w"
    using wallet_step_rel [OF assms(1,2) Cons.prems(1) _ st(1)] by simp_all
  show ?case
    using Cons.IH [OF one(2) \<open>list_all command_ok cmds\<close> st(2)] one(1,3) st(3)
    by (cases "map_step cmd P") (auto simp: Let_def split: prod.splits)
qed simp

lemma wallet_get_shows:
  assumes "crypto_ok env" and "wallet_rel invar content env w P" and "record_options senv options = Some ro"
  shows "case P t n of
      None \<Rightarrow> wallet_get ops env w t n options = Err WalletItemNotFound
    | Some x \<Rightarrow> \<exists>r. wallet_get ops env w t n options = Ok r \<and> record_shows ro (t, n, x) r"
proof -
  let ?keys = "w_keys w"
  have inv: "invar (w_storage w)" and rel: "content_rel env ?keys (content (w_storage w)) P"
    using assms(2) by (simp_all add: wallet_rel_def)
  note law = get_law [OF inv assms(3), of "encrypted_type env ?keys t" "encrypted_name env ?keys n"]
  show ?thesis
  proof (cases "P t n")
    case None
    with law content_rel_None [OF rel, of t n] show ?thesis by (simp add: wallet_get_def Let_def)
  next
    case (Some x)
    obtain v tm where x: "x = (v, tm)" by (cases x)
    obtain item where item: "content (w_storage w) (encrypted_type env ?keys t) (encrypted_name env ?keys n) = Some item"
      "item_rel env ?keys item x"
      using content_rel_Some [OF rel Some] by blast
    then obtain tags where get: "set tags = item_tags item" "st_get ops (w_storage w) (encrypted_type env ?keys t)
        (encrypted_name env ?keys n) options = Ok (stored_record ro (encrypted_type env ?keys t, encrypted_name env ?keys n, item, tags))"
      using law by auto
    obtain m where m: "decrypt_tags env (Some tags) (tag_name_key ?keys) (tag_value_key ?keys) = Ok (Some m)" "hm_wf m" "hm_get m = tm"
      using item(2) x get(1) decrypt_tags_set [OF assms(1)] by (auto simp: item_rel_def) metis
    have "ev_decrypt env (item_value item) (value_key ?keys) = Ok v"
      using item(2) x ev_decrypt_encrypt [OF assms(1)] by (auto simp: item_rel_def)
    with m get(2) Some x show ?thesis
      by (auto simp: wallet_get_def Let_def stored_record_def map_outcome_option_def record_shows_def decrypt_tags_def)
  qed
qed

lemma wallet_search_lists:
  assumes "crypto_ok env" and "wallet_rel invar content env w P" and "from_str query = Some j" and "query_deserialize j = Inr q"
    and "or_operands_restrict q" and "optimise q = None \<or> sql_query (optimised q)"
    and "search_options senv sopts = Some so"
  shows "\<exists>it es. wallet_search ops env from_str w t query sopts = Ok it \<and>
    lists_plain P (\<lambda>t' tm. t' = t \<and> query_matches (se_like senv) tm q) es \<and>
    iterator_total_count it = Ok (if so_retrieve_total_count so then Some (length es) else None) \<and>
    (\<exists>recs. iterator_records env it = Ok recs \<and>
      (if so_retrieve_records so then list_all2 (record_shows (fetch_options so)) es recs else recs = []))"
proof -
  have inv: "invar (w_storage w)" and rel: "content_rel env (w_keys w) (content (w_storage w)) P"
    using assms(2) by (simp_all add: wallet_rel_def)
  obtain op where op: "encrypt_query env (optimised q) (w_keys w) = Ok op" "runs (se_checks senv) op \<or> op = Op_And []"
    "comparable (optimised q)"
  proof (cases "optimise q")
    case None
    then have "optimised q = Q_And []" by (simp add: optimised_def query_default_def)
    then show thesis using that [of "Op_And []"] by (simp add: encrypt_query_def)
  next
    case (Some q')
    with assms(6) transform_runs [of "optimised q" env "w_keys w" "se_checks senv"] that sql_query_comparable
    show thesis by (auto simp: encrypt_query_def)
  qed
  obtain rs where rs: "lists_items (content (w_storage w))
      (\<lambda>t' tags. t' = encrypted_type env (w_keys w) t \<and> set_matches (se_like senv) tags op) rs"
    "st_search ops (w_storage w) (encrypted_type env (w_keys w) t) op sopts =
      Ok \<lparr>si_records = (if so_retrieve_records so then map (stored_record (fetch_options so)) rs else []),
          si_total_count = (if so_retrieve_total_count so then Some (length rs) else None)\<rparr>"
    using search_law [OF inv op(2) assms(7)] by blast
  have "set_matches (se_like senv) (item_tags item) op \<longleftrightarrow> query_matches (se_like senv) tm q"
    if item: "item_rel env (w_keys w) item (v, tm)" for item v tm
  proof -
    obtain tags where "tags_ok tags" "hm_get tags = tm" "item_tags item = set (encrypted_tags env (w_keys w) tags)"
      using item unfolding item_rel_def by blast
    then show ?thesis
      using transform_matches [OF assms(1) _ _ op(3), of tags "w_keys w" op "se_like senv"] op(1) optimised_matches [OF assms(5)]
      by (simp add: set_matches_set tags_ok_def encrypt_query_def)
  qed
  then have Q: "(encrypted_type env (w_keys w) t' = encrypted_type env (w_keys w) t \<and> set_matches (se_like senv) (item_tags item) op) \<longleftrightarrow>
      t' = t \<and> query_matches (se_like senv) tm q" if "item_rel env (w_keys w) item (v, tm)" for t' item v tm
    using that by (simp add: encrypt_searchable_inject [OF assms(1)])
  obtain es recs where es: "map_outcome_list (\<lambda>r. decrypt_storage_record env r (w_keys w)) (map (stored_record (fetch_options so)) rs) = Ok recs"
    "lists_plain P (\<lambda>t' tm. t' = t \<and> query_matches (se_like senv) tm q) es" "list_all2 (record_shows (fetch_options so)) es recs"
    "length es = length rs"
    using decrypt_listing [OF assms(1) rel rs(1), where Q = "\<lambda>t' tm. t' = t \<and> query_matches (se_like senv) tm q" and
      ro = "fetch_options so"] Q by blast
  have it: "wallet_search ops env from_str w t query sopts =
      Ok \<lparr>wi_storage_iterator = \<lparr>si_records = (if so_retrieve_records so then map (stored_record (fetch_options so)) rs else []),
          si_total_count = (if so_retrieve_total_count so then Some (length rs) else None)\<rparr>, wi_keys = w_keys w\<rparr>"
    using assms(3,4) op(1) rs(2) by (simp add: wallet_search_def optimised_def Let_def)
  show ?thesis
    by (rule exI, rule exI [of _ es], intro conjI, rule it)
      (use es in \<open>auto simp: iterator_total_count_def iterator_records_map\<close>)
qed

lemma wallet_get_all_lists:
  assumes "crypto_ok env" and "wallet_rel invar content env w P"
  shows "\<exists>it es recs. wallet_get_all ops w = Ok it \<and> lists_plain P (\<lambda>_ _. True) es \<and>
    iterator_records env it = Ok recs \<and> list_all2 (record_shows all_options) es recs"
proof -
  have inv: "invar (w_storage w)" and rel: "content_rel env (w_keys w) (content (w_storage w)) P"
    using assms(2) by (simp_all add: wallet_rel_def)
  obtain rs where rs: "lists_items (content (w_storage w)) (\<lambda>_ _. True) rs"
    "st_get_all ops (w_storage w) = Ok \<lparr>si_records = map (stored_record all_options) rs, si_total_count = None\<rparr>"
    using get_all_law [OF inv] by blast
  with decrypt_listing [OF assms(1) rel rs(1), of "\<lambda>_ _. True" all_options] show ?thesis
    by (auto simp: wallet_get_all_def iterator_records_map)
qed

end

section \<open>Wallets over the default storage\<close>

definition new_wallet :: "string \<Rightarrow> Keys \<Rightarrow> bytes \<Rightarrow> SqliteDb Wallet" where
  "new_wallet wid keys metadata = \<lparr>w_id = wid, w_storage = sqlite_new metadata, w_keys = keys\<rparr>"

lemma new_wallet_rel: "wallet_rel sqlite_ok sqlite_content env (new_wallet wid keys metadata) (\<lambda>_ _. None)"
proof -
  have "all_tags (sqlite_new metadata) = {}" by (rule tag_set_eqI) (simp_all add: sqlite_new_def db_empty_def)
  then show ?thesis
    by (simp add: wallet_rel_def new_wallet_def content_rel_def sqlite_ok_def sqlite_content_def sqlite_new_def db_empty_def)
qed

lemma new_wallet_run:
  assumes "crypto_ok env" and "se_foreign_keys senv" and "list_all command_ok cmds"
    and "run_steps (wallet_step (sqlite_storage senv) env) cmds (new_wallet wid keys metadata) = (rs, w)"
    and "run_steps map_step cmds (\<lambda>_ _. None) = (rs', P)"
  shows "rs = rs'" and "wallet_rel sqlite_ok sqlite_content env w P"
  using sqlite.wallet_run_rel [OF assms(1,2) new_wallet_rel assms(3,4)] assms(5) by simp_all


definition sample_commands :: "WalletCommand list" where
  "sample_commands =
     [Cmd_Add (replicate 32 1, replicate 12 1, replicate 12 2) ''t'' ''n'' ''v'' [(''a'', ''1''), (''~b'', ''2'')],
      Cmd_Update (replicate 32 1, replicate 12 3, replicate 12 4) ''t'' ''n'' ''w'',
      Cmd_Delete_Tags ''t'' ''n'' [''a'']]"

lemma sample_commands_ok: "list_all command_ok sample_commands"
  by (simp add: sample_commands_def fresh_ok_def rust_str_def tags_ok_def hm_wf_def KEYBYTES_def NONCEBYTES_def)




text \<open>
  \<open>get_all\<close>, from which an export is written, returns every record of the wallet once, with its type,
  id, value and tags.
\<close>

theorem wallet_get_all_exact:
  assumes "crypto_ok env" and "se_foreign_keys senv" and "list_all command_ok cmds"
    and "run_steps (wallet_step (sqlite_storage senv) env) cmds (new_wallet wid keys metadata) = (rs, w)"
    and "run_steps map_step cmds (\<lambda>_ _. None) = (rs', P)"
  shows "\<exists>it es recs. wallet_get_all (sqlite_storage senv) w = Ok it \<and> lists_plain P (\<lambda>_ _. True) es \<and>
    iterator_records env it = Ok recs \<and> list_all2 (record_shows all_options) es recs"
  by (rule sqlite.wallet_get_all_lists [OF assms(1) new_wallet_run(2) [OF assms]])

theorem wallet_get_all_exact_witness:
  "\<exists>it es recs. wallet_get_all (sqlite_storage (sample_storage_env True))
      (snd (run_steps (wallet_step (sqlite_storage (sample_storage_env True)) sample_crypto) sample_commands
        (new_wallet ''w'' sample_wallet_keys []))) = Ok it \<and>
    lists_plain (snd (run_steps map_step sample_commands (\<lambda>_ _. None))) (\<lambda>_ _. True) es \<and>
    iterator_records sample_crypto it = Ok recs \<and> list_all2 (record_shows all_options) es recs"
  by (rule wallet_get_all_exact [OF sample_crypto_ok _ sample_commands_ok surjective_pairing surjective_pairing])
    (simp add: sample_storage_env_def)

end
