(* ===== verification/Chacha_Stream.thy ===== *)
theory Chacha_Stream
  imports Wallet_Crypto
begin

text \<open>
  The chunked encryption of export files (\<open>Writer\<close> and \<open>Reader\<close> of
  \<open>indy-utils/src/crypto/chacha20poly1305_ietf/sodium.rs\<close>). The inner writer is the list of bytes
  written to it, the inner reader the list of bytes still to be read from it. What is written in any
  portions and flushed is read back in any portions.
\<close>

section \<open>Nonces\<close>

text \<open>\<open>sodium_increment\<close>: a little-endian number is incremented, the last carry is lost.\<close>

fun increment_le :: "bytes \<Rightarrow> bytes" where
  "increment_le [] = []"
| "increment_le (b # bs) = (if b + 1 = 0 then 0 # increment_le bs else (b + 1) # bs)"

lemma length_increment_le [simp]: "length (increment_le bs) = length bs"
  by (induction bs) auto

section \<open>The writer\<close>

record Writer =
  wt_buffer :: bytes
  wt_chunk_size :: nat
  wt_key :: bytes
  wt_nonce :: bytes
  wt_inner :: bytes

definition writer_new :: "bytes \<Rightarrow> bytes \<Rightarrow> bytes \<Rightarrow> nat \<Rightarrow> Writer" where
  "writer_new inner key nonce chunk_size =
     \<lparr>wt_buffer = [], wt_chunk_size = chunk_size, wt_key = key, wt_nonce = nonce, wt_inner = inner\<rparr>"

text \<open>The loop of \<open>write\<close>. It does not end for a chunk size of 0.\<close>

partial_function (option) write_loop :: "CryptoEnv \<Rightarrow> Writer \<Rightarrow> nat \<Rightarrow> (nat \<times> Writer) option" where
  "write_loop env w chunk_start =
     (if chunk_start + wt_chunk_size w \<le> length (wt_buffer w) then
        let chunk = take (wt_chunk_size w) (drop chunk_start (wt_buffer w))
        in write_loop env
             (w\<lparr>wt_inner := wt_inner w @ wc_seal env chunk (wt_key w) (wt_nonce w), wt_nonce := increment_le (wt_nonce w)\<rparr>)
             (chunk_start + wt_chunk_size w)
      else Some (chunk_start, w))"

definition writer_write :: "CryptoEnv \<Rightarrow> Writer \<Rightarrow> bytes \<Rightarrow> Writer option" where
  "writer_write env w buf =
     map_option (\<lambda>(chunk_start, w'). w'\<lparr>wt_buffer := drop chunk_start (wt_buffer w')\<rparr>)
       (write_loop env (w\<lparr>wt_buffer := wt_buffer w @ buf\<rparr>) 0)"

definition writer_flush :: "CryptoEnv \<Rightarrow> Writer \<Rightarrow> Writer" where
  "writer_flush env w =
     (if wt_buffer w = [] then w
      else w\<lparr>wt_inner := wt_inner w @ wc_seal env (wt_buffer w) (wt_key w) (wt_nonce w),
             wt_nonce := increment_le (wt_nonce w)\<rparr>)"

section \<open>The reader\<close>

record Reader =
  rd_rest_buffer :: bytes
  rd_chunk_len :: nat
  rd_key :: bytes
  rd_nonce :: bytes
  rd_inner :: bytes

text \<open>The sum is one of \<open>usize\<close>, and a buffer of more than \<open>isize::MAX\<close> bytes makes its allocation panic.\<close>

definition reader_new :: "bool \<Rightarrow> bytes \<Rightarrow> bytes \<Rightarrow> bytes \<Rightarrow> nat \<Rightarrow> Reader outcome" where
  "reader_new checks inner key nonce chunk_size =
     and_then (usize_add checks chunk_size TAGBYTES) (\<lambda>len.
       if 2 ^ 63 \<le> len then Panic
       else Ok \<lparr>rd_rest_buffer = [], rd_chunk_len = len, rd_key = key, rd_nonce = nonce, rd_inner = inner\<rparr>)"

text \<open>\<open>_read_chunk\<close>: as many bytes as the buffer holds or the inner reader has left, at least one.\<close>

definition read_chunk :: "Reader \<Rightarrow> (bytes \<times> Reader) outcome" where
  "read_chunk r =
     (let chunk = take (rd_chunk_len r) (rd_inner r)
      in if chunk = [] then Err InvalidStructure
         else Ok (chunk, r\<lparr>rd_inner := drop (rd_chunk_len r) (rd_inner r)\<rparr>))"

text \<open>
  The loop of \<open>read\<close> that consumes chunks for the \<open>n\<close> bytes that are still missing. The I/O errors
  for a missing and for an invalid chunk become \<open>InvalidStructure\<close> at the only caller.
\<close>

function read_loop :: "CryptoEnv \<Rightarrow> Reader \<Rightarrow> nat \<Rightarrow> (bytes \<times> Reader) outcome" where
  "read_loop env r n =
     (if n = 0 then Ok ([], r)
      else and_then (read_chunk r) (\<lambda>(data, r1).
           and_then (chacha_decrypt env data (rd_key r1) (rd_nonce r1)) (\<lambda>chunk.
             let to_copy = min (length chunk) n;
                 r2 = r1\<lparr>rd_nonce := increment_le (rd_nonce r1),
                         rd_rest_buffer := (if to_copy = n \<and> to_copy < length chunk
                           then rd_rest_buffer r1 @ drop to_copy chunk else rd_rest_buffer r1)\<rparr>
             in map_ok (\<lambda>(bs, r3). (take to_copy chunk @ bs, r3)) (read_loop env r2 (n - to_copy)))))"
  by pat_completeness auto

termination
  by (relation "measure (\<lambda>(_, r, _). length (rd_inner r))") (auto simp: read_chunk_def Let_def split: if_splits)

declare read_loop.simps [simp del]

lemma read_loop_step:
  assumes "n \<noteq> 0" and "read_chunk r = Ok (data, r1)" and "chacha_decrypt env data (rd_key r1) (rd_nonce r1) = Ok chunk"
  shows "read_loop env r n = map_ok (\<lambda>(bs, r3). (take (min (length chunk) n) chunk @ bs, r3))
    (read_loop env (r1\<lparr>rd_nonce := increment_le (rd_nonce r1),
       rd_rest_buffer := (if min (length chunk) n = n \<and> min (length chunk) n < length chunk
         then rd_rest_buffer r1 @ drop (min (length chunk) n) chunk else rd_rest_buffer r1)\<rparr>)
      (n - min (length chunk) n))"
  using assms by (subst read_loop.simps) (simp add: Let_def)

definition reader_read :: "CryptoEnv \<Rightarrow> Reader \<Rightarrow> nat \<Rightarrow> (bytes \<times> Reader) outcome" where
  "reader_read env r n =
     (let to_copy = min (length (rd_rest_buffer r)) n
      in map_ok (\<lambda>(bs, r'). (take to_copy (rd_rest_buffer r) @ bs, r'))
           (read_loop env (r\<lparr>rd_rest_buffer := drop to_copy (rd_rest_buffer r)\<rparr>) (n - to_copy)))"

section \<open>The format\<close>

text \<open>A text in chunks of a size, each sealed under its own nonce; the last one may be shorter.\<close>

function sealed :: "CryptoEnv \<Rightarrow> bytes \<Rightarrow> nat \<Rightarrow> bytes \<Rightarrow> bytes \<Rightarrow> bytes" where
  "sealed env key cs nonce data =
     (if data = [] \<or> cs = 0 then []
      else wc_seal env (take cs data) key nonce @ sealed env key cs (increment_le nonce) (drop cs data))"
  by pat_completeness auto

termination by (relation "measure (\<lambda>(_, _, _, _, data). length data)") auto

declare sealed.simps [simp del]

lemma sealed_simps [simp]:
  "sealed env key cs nonce [] = []"
  "data \<noteq> [] \<Longrightarrow> 0 < cs \<Longrightarrow> sealed env key cs nonce data =
     wc_seal env (take cs data) key nonce @ sealed env key cs (increment_le nonce) (drop cs data)"
  by (subst sealed.simps; simp)+

text \<open>A writer that has been given \<open>data\<close> since it was at the nonce \<open>nonce\<close> with output \<open>out\<close>.\<close>

definition written :: "CryptoEnv \<Rightarrow> Writer \<Rightarrow> bytes \<Rightarrow> bytes \<Rightarrow> bytes \<Rightarrow> bool" where
  "written env w out nonce data \<longleftrightarrow> 0 < wt_chunk_size w \<and> length (wt_buffer w) < wt_chunk_size w \<and>
     (\<forall>more. wt_inner w @ sealed env (wt_key w) (wt_chunk_size w) (wt_nonce w) (wt_buffer w @ more) =
       out @ sealed env (wt_key w) (wt_chunk_size w) nonce (data @ more))"

lemma write_loop_written:
  assumes "0 < wt_chunk_size w" and "k \<le> length (wt_buffer w)"
  shows "\<exists>k' w'. write_loop env w k = Some (k', w') \<and> k' \<le> length (wt_buffer w) \<and>
    length (wt_buffer w) < k' + wt_chunk_size w \<and> wt_buffer w' = wt_buffer w \<and> wt_key w' = wt_key w \<and>
    wt_chunk_size w' = wt_chunk_size w \<and>
    (\<forall>more. wt_inner w' @ sealed env (wt_key w) (wt_chunk_size w) (wt_nonce w') (drop k' (wt_buffer w) @ more) =
      wt_inner w @ sealed env (wt_key w) (wt_chunk_size w) (wt_nonce w) (drop k (wt_buffer w) @ more))"
  using assms
proof (induction "length (wt_buffer w) - k" arbitrary: w k rule: less_induct)
  case less
  show ?case
  proof (cases "k + wt_chunk_size w \<le> length (wt_buffer w)")
    case True
    let ?chunk = "take (wt_chunk_size w) (drop k (wt_buffer w))"
    let ?w = "w\<lparr>wt_inner := wt_inner w @ wc_seal env ?chunk (wt_key w) (wt_nonce w), wt_nonce := increment_le (wt_nonce w)\<rparr>"
    have step: "write_loop env w k = write_loop env ?w (k + wt_chunk_size w)"
      by (subst write_loop.simps) (use True in \<open>simp add: Let_def\<close>)
    have "sealed env (wt_key w) (wt_chunk_size w) (wt_nonce w) (drop k (wt_buffer w) @ more) =
        wc_seal env ?chunk (wt_key w) (wt_nonce w) @
        sealed env (wt_key w) (wt_chunk_size w) (increment_le (wt_nonce w)) (drop (k + wt_chunk_size w) (wt_buffer w) @ more)" for more
    proof -
      have "drop k (wt_buffer w) @ more \<noteq> []" using True less.prems(1) by auto
      then show ?thesis using True less.prems(1) by (subst sealed_simps(2)) (auto simp: add.commute)
    qed
    with less.hyps [of ?w "k + wt_chunk_size w"] True less.prems show ?thesis unfolding step by auto
  next
    case False
    then have "write_loop env w k = Some (k, w)" by (subst write_loop.simps) simp
    with False less.prems show ?thesis by auto
  qed
qed

lemma writer_new_written: "0 < cs \<Longrightarrow> written env (writer_new inner key nonce cs) inner nonce []"
  by (simp add: written_def writer_new_def)

lemma writer_write_written:
  assumes "written env w out nonce data"
  obtains w' where "writer_write env w buf = Some w'" "written env w' out nonce (data @ buf)"
    "wt_key w' = wt_key w" "wt_chunk_size w' = wt_chunk_size w"
proof -
  let ?w = "w\<lparr>wt_buffer := wt_buffer w @ buf\<rparr>"
  have cs: "0 < wt_chunk_size ?w" using assms by (simp add: written_def)
  obtain k w1 where w1: "write_loop env ?w 0 = Some (k, w1)" "k \<le> length (wt_buffer ?w)"
    "length (wt_buffer ?w) < k + wt_chunk_size ?w" "wt_buffer w1 = wt_buffer ?w" "wt_key w1 = wt_key ?w"
    "wt_chunk_size w1 = wt_chunk_size ?w"
    "\<forall>more. wt_inner w1 @ sealed env (wt_key ?w) (wt_chunk_size ?w) (wt_nonce w1) (drop k (wt_buffer ?w) @ more) =
      wt_inner ?w @ sealed env (wt_key ?w) (wt_chunk_size ?w) (wt_nonce ?w) (drop 0 (wt_buffer ?w) @ more)"
    using write_loop_written [OF cs, of 0] by blast
  let ?w' = "w1\<lparr>wt_buffer := drop k (wt_buffer w1)\<rparr>"
  have "writer_write env w buf = Some ?w'" by (simp add: writer_write_def w1(1))
  moreover have "written env ?w' out nonce (data @ buf)"
    using assms w1 by (auto simp: written_def)
  ultimately show thesis using that w1(5,6) by simp
qed

lemma writer_flush_written:
  assumes "written env w out nonce data"
  shows "wt_inner (writer_flush env w) = out @ sealed env (wt_key w) (wt_chunk_size w) nonce data"
proof -
  have "wt_inner w @ sealed env (wt_key w) (wt_chunk_size w) (wt_nonce w) (wt_buffer w @ []) =
      out @ sealed env (wt_key w) (wt_chunk_size w) nonce (data @ [])"
    using assms unfolding written_def by blast
  moreover have "0 < wt_chunk_size w" "length (wt_buffer w) < wt_chunk_size w" using assms by (simp_all add: written_def)
  ultimately show ?thesis by (auto simp: writer_flush_def)
qed

text \<open>A reader that still has \<open>data\<close> to give.\<close>

definition holds :: "CryptoEnv \<Rightarrow> Reader \<Rightarrow> bytes \<Rightarrow> bool" where
  "holds env r data \<longleftrightarrow> (\<exists>cs later. 0 < cs \<and> rd_chunk_len r = cs + TAGBYTES \<and> data = rd_rest_buffer r @ later \<and>
     rd_inner r = sealed env (rd_key r) cs (rd_nonce r) later)"

lemma reader_new_holds:
  "0 < cs \<Longrightarrow> cs < 2 ^ 62 \<Longrightarrow> \<exists>r. reader_new checks (sealed env key cs nonce data) key nonce cs = Ok r \<and> holds env r data"
  by (auto simp: holds_def reader_new_def usize_add_def TAGBYTES_def)

lemma read_loop_sealed:
  assumes "crypto_ok env" and "0 < cs"
  shows "rd_chunk_len r = cs + TAGBYTES \<Longrightarrow> rd_inner r = sealed env (rd_key r) cs (rd_nonce r) later \<Longrightarrow>
    n = 0 \<or> rd_rest_buffer r = [] \<Longrightarrow>
    (if n \<le> length later then \<exists>r'. read_loop env r n = Ok (take n later, r') \<and> holds env r' (rd_rest_buffer r @ drop n later)
     else read_loop env r n = Err InvalidStructure)"
proof (induction "length later" arbitrary: r n later rule: less_induct)
  case less
  show ?case
  proof (cases "n = 0")
    case True
    then show ?thesis
      using less.prems assms(2) by (subst read_loop.simps) (auto simp: holds_def)
  next
    case pos: False
    show ?thesis
    proof (cases "later = []")
      case True
      then have "read_chunk r = Err InvalidStructure" using less.prems by (simp add: read_chunk_def)
      then show ?thesis using pos True by (subst read_loop.simps) simp
    next
      case False
      let ?seal = "wc_seal env (take cs later) (rd_key r) (rd_nonce r)"
      let ?rest = "sealed env (rd_key r) cs (increment_le (rd_nonce r)) (drop cs later)"
      have inner: "rd_inner r = ?seal @ ?rest" using less.prems(2) False assms(2) by simp
      have len: "length ?seal = length (take cs later) + TAGBYTES" by (rule crypto_ok_seal_length [OF assms(1)])
      have short: "length later < cs \<Longrightarrow> ?rest = []" by simp
      have chunk: "take (cs + TAGBYTES) (rd_inner r) = ?seal" "drop (cs + TAGBYTES) (rd_inner r) = ?rest"
        using len short by (cases "cs \<le> length later"; simp add: inner)+
      have "?seal \<noteq> []" using len by (auto simp: TAGBYTES_def)
      then have rc: "read_chunk r = Ok (?seal, r\<lparr>rd_inner := ?rest\<rparr>)"
        using chunk less.prems(1) by (simp add: read_chunk_def)
      have dec: "chacha_decrypt env ?seal (rd_key r) (rd_nonce r) = Ok (take cs later)"
        by (simp add: chacha_decrypt_def crypto_ok_open [OF assms(1)])
      have rest: "rd_rest_buffer r = []" using less.prems(3) pos by simp
      let ?c = "min (length (take cs later)) n"
      let ?r2 = "r\<lparr>rd_inner := ?rest, rd_nonce := increment_le (rd_nonce r),
        rd_rest_buffer := (if ?c = n \<and> ?c < length (take cs later) then drop ?c (take cs later) else [])\<rparr>"
      define r2 where "r2 = ?r2"
      have step: "read_loop env r n = map_ok (\<lambda>(bs, r3). (take ?c (take cs later) @ bs, r3)) (read_loop env r2 (n - ?c))"
        unfolding r2_def using read_loop_step [OF pos rc, of env "take cs later"] dec by (simp add: rest cong: if_cong)
      have r2: "rd_chunk_len r2 = cs + TAGBYTES" "rd_inner r2 = sealed env (rd_key r2) cs (rd_nonce r2) (drop cs later)"
        using less.prems(1) by (simp_all add: r2_def)
      show ?thesis
      proof (cases "n \<le> length (take cs later)")
        case True
        then have c: "?c = n" and n: "n \<le> length later" by simp_all
        have "drop n later = drop n (take cs later) @ drop cs later"
          using True drop_append [of n "take cs later" "drop cs later"] by simp
        moreover have "rd_rest_buffer r2 = drop n (take cs later)"
          using True unfolding r2_def c by (auto simp del: length_take drop_take)
        ultimately have "holds env r2 (drop n later)"
          unfolding holds_def using r2 assms(2) by auto
        moreover have "read_loop env r2 0 = Ok ([], r2)" by (subst read_loop.simps) simp
        moreover have "take n (take cs later) = take n later" using True by (simp add: min.absorb1)
        ultimately show ?thesis using n unfolding step c by (simp add: rest)
      next
        case False
        then have c: "?c = length (take cs later)" and rest2: "rd_rest_buffer r2 = []" by (auto simp: r2_def)
        have ih: "if n - ?c \<le> length (drop cs later)
            then \<exists>r'. read_loop env r2 (n - ?c) = Ok (take (n - ?c) (drop cs later), r') \<and>
              holds env r' (rd_rest_buffer r2 @ drop (n - ?c) (drop cs later))
            else read_loop env r2 (n - ?c) = Err InvalidStructure"
          by (rule less.hyps) (use \<open>later \<noteq> []\<close> assms(2) r2 rest2 in auto)
        show ?thesis
        proof (cases "length later < cs")
          case True
          then have "\<not> n - ?c \<le> length (drop cs later)" "\<not> n \<le> length later" using False c by auto
          then show ?thesis using ih unfolding step by simp
        next
          case long: False
          then have c': "?c = cs" and cs: "cs < n" using c False by auto
          have "take n later = take cs later @ take (n - cs) (drop cs later)"
            using cs take_add [of cs "n - cs" later] by simp
          moreover have d: "drop (n - cs) (drop cs later) = drop n later" using cs by simp
          moreover have e: "n - cs \<le> length (drop cs later) \<longleftrightarrow> n \<le> length later" using cs long by auto
          ultimately show ?thesis using ih rest2 unfolding step c' d e by (auto simp: rest)
        qed
      qed
    qed
  qed
qed

text \<open>\<open>read_exact\<close>: a reader with enough left returns the next bytes, another one fails.\<close>

lemma reader_read_holds:
  assumes "crypto_ok env" and "holds env r data"
  shows "if n \<le> length data then \<exists>r'. reader_read env r n = Ok (take n data, r') \<and> holds env r' (drop n data)
    else reader_read env r n = Err InvalidStructure"
proof -
  obtain cs later where h: "0 < cs" "rd_chunk_len r = cs + TAGBYTES" "data = rd_rest_buffer r @ later"
    "rd_inner r = sealed env (rd_key r) cs (rd_nonce r) later"
    using assms(2) by (auto simp: holds_def)
  let ?c = "min (length (rd_rest_buffer r)) n"
  let ?r = "r\<lparr>rd_rest_buffer := drop ?c (rd_rest_buffer r)\<rparr>"
  have "if n - ?c \<le> length later
      then \<exists>r'. read_loop env ?r (n - ?c) = Ok (take (n - ?c) later, r') \<and> holds env r' (rd_rest_buffer ?r @ drop (n - ?c) later)
      else read_loop env ?r (n - ?c) = Err InvalidStructure"
    by (rule read_loop_sealed [OF assms(1) h(1)]) (use h in auto)
  then show ?thesis by (auto simp: reader_read_def Let_def h(3) min_def split: if_splits)
qed

section \<open>Properties\<close>

fun write_portions :: "CryptoEnv \<Rightarrow> Writer \<Rightarrow> bytes list \<Rightarrow> Writer option" where
  "write_portions env w [] = Some w"
| "write_portions env w (b # bs) = Option.bind (writer_write env w b) (\<lambda>w'. write_portions env w' bs)"

fun read_portions :: "CryptoEnv \<Rightarrow> Reader \<Rightarrow> nat list \<Rightarrow> bytes list outcome" where
  "read_portions env r [] = Ok []"
| "read_portions env r (n # ns) = and_then (reader_read env r n) (\<lambda>(b, r'). map_ok (\<lambda>bs. b # bs) (read_portions env r' ns))"

fun cut :: "nat list \<Rightarrow> bytes \<Rightarrow> bytes list" where
  "cut [] data = []"
| "cut (n # ns) data = take n data # cut ns (drop n data)"

lemma write_portions_written:
  "written env w out nonce data \<Longrightarrow> \<exists>w'. write_portions env w bs = Some w' \<and> written env w' out nonce (data @ concat bs) \<and>
     wt_key w' = wt_key w \<and> wt_chunk_size w' = wt_chunk_size w"
proof (induction bs arbitrary: w data)
  case (Cons b bs)
  obtain w1 where w1: "writer_write env w b = Some w1" "written env w1 out nonce (data @ b)" "wt_key w1 = wt_key w"
    "wt_chunk_size w1 = wt_chunk_size w"
    using writer_write_written [OF Cons.prems] by metis
  from Cons.IH [OF w1(2)] w1 show ?case by auto
qed simp

lemma read_portions_holds:
  assumes "crypto_ok env"
  shows "holds env r data \<Longrightarrow>
    read_portions env r ns = (if sum_list ns \<le> length data then Ok (cut ns data) else Err InvalidStructure)"
proof (induction ns arbitrary: r data)
  case (Cons n ns)
  show ?case
  proof (cases "n \<le> length data")
    case True
    then obtain r' where "reader_read env r n = Ok (take n data, r')" "holds env r' (drop n data)"
      using reader_read_holds [OF assms Cons.prems, of n] by auto
    with Cons.IH [of r' "drop n data"] True show ?thesis by (auto simp: map_ok_def)
  next
    case False
    then have "reader_read env r n = Err InvalidStructure" using reader_read_holds [OF assms Cons.prems, of n] by simp
    with False show ?thesis by simp
  qed
qed simp

text \<open>
  What a writer is given in any portions and then flushes, a reader with the same key, start nonce and
  chunk size returns in any other portions; asked for more than was written it fails.
\<close>

theorem stream_roundtrip:
  assumes "crypto_ok env" and "0 < cs" and "cs < 2 ^ 62"
  shows "\<exists>w r. write_portions env (writer_new [] key nonce cs) bufs = Some w \<and>
    reader_new checks (wt_inner (writer_flush env w)) key nonce cs = Ok r \<and>
    read_portions env r ns =
      (if sum_list ns \<le> length (concat bufs) then Ok (cut ns (concat bufs)) else Err InvalidStructure)"
proof -
  obtain w where w: "write_portions env (writer_new [] key nonce cs) bufs = Some w" "written env w [] nonce (concat bufs)"
    "wt_key w = key" "wt_chunk_size w = cs"
    using write_portions_written [OF writer_new_written [OF assms(2)], of env "[]" key nonce bufs] by (auto simp: writer_new_def)
  obtain r where r: "reader_new checks (sealed env key cs nonce (concat bufs)) key nonce cs = Ok r" "holds env r (concat bufs)"
    using reader_new_holds [OF assms(2,3)] by blast
  show ?thesis
    using w r writer_flush_written [OF w(2)] read_portions_holds [OF assms(1) r(2)] by auto
qed

theorem stream_roundtrip_witness:
  "\<exists>w r. write_portions sample_crypto (writer_new [] (replicate 32 1) (replicate 12 255) 2) [[1], [2, 3, 4], [5]] = Some w \<and>
    reader_new True (wt_inner (writer_flush sample_crypto w)) (replicate 32 1) (replicate 12 255) 2 = Ok r \<and>
    read_portions sample_crypto r [3, 2] = Ok [[1, 2, 3], [4, 5]]"
  using stream_roundtrip [OF sample_crypto_ok, of 2 "replicate 32 1" "replicate 12 255" "[[1], [2, 3, 4], [5]]" True "[3, 2]"]
  by simp

end
