(* ===== verification/Export_Import.thy ===== *)
theory Export_Import
  imports Wallet Chacha_Stream Crypto_Hash
begin

text \<open>
  Export and import of a wallet (\<open>indy-wallet/src/export_import.rs\<close>). The file is a list of bytes. The
  MessagePack codecs of the header and of a record and the hash of the header are parameters. An
  export writes what it has written so far also when it fails, and an import that fails leaves the
  records it added.
\<close>

section \<open>The format\<close>

definition CHUNK_SIZE :: nat where "CHUNK_SIZE = 1024"

datatype EncryptionMethod =
    ChaCha20Poly1305IETF bytes bytes nat
  | ChaCha20Poly1305IETFInteractive bytes bytes nat
  | ChaCha20Poly1305IETFRaw bytes nat

record Header =
  hd_encryption_method :: EncryptionMethod
  hd_time :: nat
  hd_version :: nat

record ExportRecord =
  er_type :: string
  er_id :: string
  er_value :: string
  er_tags :: Tags

record ExportCodec =
  xc_header_to_vec :: "Header \<Rightarrow> bytes option"
  xc_header_from_slice :: "bytes \<Rightarrow> Header option"
  xc_record_to_vec :: "ExportRecord \<Rightarrow> bytes option"
  xc_record_from_slice :: "bytes \<Rightarrow> ExportRecord option"
  xc_hash :: "bytes \<Rightarrow> bytes"

text \<open>\<open>write_u32::<LittleEndian>(len as u32)\<close> and its reader; the cast keeps the low 32 bits.\<close>

definition write_u32 :: "nat \<Rightarrow> bytes" where
  "write_u32 n = map (\<lambda>i. of_nat (n div 256 ^ i)) [0..<4]"

definition read_u32 :: "bytes \<Rightarrow> nat" where
  "read_u32 bs = foldr (\<lambda>b acc. unat b + 256 * acc) bs 0"

lemma length_write_u32 [simp]: "length (write_u32 n) = 4"
  by (simp add: write_u32_def)

lemma read_write_u32: "read_u32 (write_u32 n) = n mod 2 ^ 32"
proof -
  have "unat (of_nat m :: 8 word) = m mod 256" for m by (simp add: unat_of_nat)
  then have "read_u32 (write_u32 n) = foldr (\<lambda>i acc. n div 256 ^ i mod 256 + 256 * acc) [0..<0 + 4] 0"
    by (simp add: read_u32_def write_u32_def foldr_map o_def)
  also have "\<dots> = n mod 2 ^ 32" by (subst le_digits) simp
  finally show ?thesis .
qed

section \<open>Export\<close>

definition export_record :: "ExportCodec \<Rightarrow> WalletRecord \<Rightarrow> bytes outcome" where
  "export_record codec r =
     and_then (ok_or InvalidState (wr_type r)) (\<lambda>t.
     and_then (ok_or InvalidState (wr_value r)) (\<lambda>v.
     and_then (ok_or InvalidState (wr_tags r)) (\<lambda>tags.
       ok_or InvalidState (xc_record_to_vec codec
         \<lparr>er_type = t, er_id = wr_id r, er_value = v, er_tags = tags\<rparr>))))"

function export_loop ::
    "CryptoEnv \<Rightarrow> ExportCodec \<Rightarrow> Writer \<Rightarrow> WalletIterator \<Rightarrow> (unit outcome \<times> Writer) option" where
  "export_loop env codec w it =
     (case iterator_next env it of
        (Err e, _) \<Rightarrow> Some (Err e, w)
      | (Panic, _) \<Rightarrow> Some (Panic, w)
      | (Ok None, _) \<Rightarrow> Some (Ok (), w)
      | (Ok (Some r), it') \<Rightarrow>
          (case export_record codec r of
             Err e \<Rightarrow> Some (Err e, w)
           | Panic \<Rightarrow> Some (Panic, w)
           | Ok bs \<Rightarrow>
               Option.bind (writer_write env w (write_u32 (length bs))) (\<lambda>w1.
               Option.bind (writer_write env w1 bs) (\<lambda>w2. export_loop env codec w2 it'))))"
  by pat_completeness auto

termination
  by (relation "measure (\<lambda>(_, _, _, it). length (si_records (wi_storage_iterator it)))")
    (auto simp: iterator_next_def split: list.splits)

declare export_loop.simps [simp del]

definition encryption_method :: "KeyDerivationData \<Rightarrow> bytes \<Rightarrow> nat \<Rightarrow> EncryptionMethod" where
  "encryption_method key_data nonce chunk_size =
     (case key_data of
        KDD_Argon2iMod _ salt \<Rightarrow> ChaCha20Poly1305IETF salt nonce chunk_size
      | KDD_Argon2iInt _ salt \<Rightarrow> ChaCha20Poly1305IETFInteractive salt nonce chunk_size
      | KDD_Raw _ \<Rightarrow> ChaCha20Poly1305IETFRaw nonce chunk_size)"

text \<open>The nonce and the time are drawn by the call; the result is that of the call and the bytes of the file.\<close>

definition export_continue ::
    "'s WalletStorage \<Rightarrow> CryptoEnv \<Rightarrow> ExportCodec \<Rightarrow> bytes \<Rightarrow> nat \<Rightarrow> 's Wallet \<Rightarrow> nat \<Rightarrow> bytes \<Rightarrow> KeyDerivationData \<Rightarrow>
     (unit outcome \<times> bytes) option" where
  "export_continue ops env codec nonce time w version key key_data =
     (let chunk_size = CHUNK_SIZE;
          header = \<lparr>hd_encryption_method = encryption_method key_data nonce chunk_size, hd_time = time, hd_version = version\<rparr>
      in case xc_header_to_vec codec header of
           None \<Rightarrow> Some (Err InvalidState, [])
         | Some header_bytes \<Rightarrow>
             let plain = write_u32 (length header_bytes) @ header_bytes
             in Option.bind (writer_write env (writer_new plain key nonce chunk_size) (xc_hash codec header_bytes)) (\<lambda>wt.
                case wallet_get_all ops w of
                  Err e \<Rightarrow> Some (Err e, wt_inner wt)
                | Panic \<Rightarrow> Some (Panic, wt_inner wt)
                | Ok records \<Rightarrow>
                    Option.bind (export_loop env codec wt records) (\<lambda>(res, wt1).
                      case res of
                        Ok _ \<Rightarrow>
                          Option.bind (writer_write env wt1 (write_u32 0)) (\<lambda>wt2.
                            Some (Ok (), wt_inner (writer_flush env wt2)))
                      | e \<Rightarrow> Some (e, wt_inner wt1))))"

section \<open>Import\<close>

definition read_exact :: "bytes \<Rightarrow> nat \<Rightarrow> (bytes \<times> bytes) outcome" where
  "read_exact file n = (if n \<le> length file then Ok (take n file, drop n file) else Err InvalidStructure)"

definition preparse_file_to_import ::
    "ExportCodec \<Rightarrow> bytes \<Rightarrow> string \<Rightarrow> (bytes \<times> KeyDerivationData \<times> bytes \<times> nat \<times> bytes) outcome" where
  "preparse_file_to_import codec file passphrase =
     and_then (read_exact file 4) (\<lambda>(len_bytes, rest).
     let header_len = read_u32 len_bytes
     in if header_len = 0 then Err InvalidStructure
        else and_then (read_exact rest header_len) (\<lambda>(header_bytes, reader).
             and_then (ok_or InvalidStructure (xc_header_from_slice codec header_bytes)) (\<lambda>header.
               if hd_version header \<noteq> 0 then Err InvalidStructure
               else map_ok (\<lambda>(key_data, nonce, chunk_size). (reader, key_data, nonce, chunk_size, header_bytes))
                 (case hd_encryption_method header of
                    ChaCha20Poly1305IETF salt nonce chunk_size \<Rightarrow>
                      and_then (from_slice SALTBYTES salt) (\<lambda>salt.
                      and_then (from_slice NONCEBYTES nonce) (\<lambda>nonce.
                        Ok (KDD_Argon2iMod passphrase salt, nonce, chunk_size)))
                  | ChaCha20Poly1305IETFInteractive salt nonce chunk_size \<Rightarrow>
                      and_then (from_slice SALTBYTES salt) (\<lambda>salt.
                      and_then (from_slice NONCEBYTES nonce) (\<lambda>nonce.
                        Ok (KDD_Argon2iInt passphrase salt, nonce, chunk_size)))
                  | ChaCha20Poly1305IETFRaw nonce chunk_size \<Rightarrow>
                      and_then (from_slice NONCEBYTES nonce) (\<lambda>nonce.
                        Ok (KDD_Raw passphrase, nonce, chunk_size))))))"

text \<open>\<open>rnds i\<close> are the random values that adding the record with number \<open>i\<close> draws.\<close>

partial_function (option) import_loop ::
    "'s WalletStorage \<Rightarrow> CryptoEnv \<Rightarrow> ExportCodec \<Rightarrow> (nat \<Rightarrow> bytes \<times> bytes \<times> bytes) \<Rightarrow> nat \<Rightarrow> Reader \<Rightarrow> 's Wallet \<Rightarrow>
     (unit outcome \<times> 's Wallet) option" where
  "import_loop ops env codec rnds i reader w =
     (case reader_read env reader 4 of
        Err e \<Rightarrow> Some (Err e, w)
      | Panic \<Rightarrow> Some (Panic, w)
      | Ok (len_bytes, reader1) \<Rightarrow>
          if read_u32 len_bytes = 0 then Some (Ok (), w)
          else
            (case reader_read env reader1 (read_u32 len_bytes) of
               Err e \<Rightarrow> Some (Err e, w)
             | Panic \<Rightarrow> Some (Panic, w)
             | Ok (record_bytes, reader2) \<Rightarrow>
                 (case xc_record_from_slice codec record_bytes of
                    None \<Rightarrow> Some (Err InvalidStructure, w)
                  | Some r \<Rightarrow>
                      (case wallet_add ops env (rnds i) w (er_type r) (er_id r) (er_value r) (er_tags r) of
                         (Ok _, w') \<Rightarrow> import_loop ops env codec rnds (Suc i) reader2 w'
                       | (Err e, w') \<Rightarrow> Some (Err e, w')
                       | (Panic, w') \<Rightarrow> Some (Panic, w')))))"

definition finish_import ::
    "'s WalletStorage \<Rightarrow> CryptoEnv \<Rightarrow> ExportCodec \<Rightarrow> bool \<Rightarrow> (nat \<Rightarrow> bytes \<times> bytes \<times> bytes) \<Rightarrow> 's Wallet \<Rightarrow> bytes \<Rightarrow> bytes \<Rightarrow>
     bytes \<Rightarrow> nat \<Rightarrow> bytes \<Rightarrow> (unit outcome \<times> 's Wallet) option" where
  "finish_import ops env codec checks rnds w file key nonce chunk_size header_bytes =
     (case reader_new checks file key nonce chunk_size of
        Err e \<Rightarrow> Some (Err e, w)
      | Panic \<Rightarrow> Some (Panic, w)
      | Ok reader \<Rightarrow>
          (case reader_read env reader HASHBYTES of
             Err e \<Rightarrow> Some (Err e, w)
           | Panic \<Rightarrow> Some (Panic, w)
           | Ok (header_hash, reader1) \<Rightarrow>
               if xc_hash codec header_bytes \<noteq> header_hash then Some (Err InvalidStructure, w)
               else import_loop ops env codec rnds 0 reader1 w))"

section \<open>What the codecs are relied on for\<close>

text \<open>
  The codecs write something for every header and record and read it back, the tags of a record in
  any order; the hash has its documented length.
\<close>

definition codec_ok :: "ExportCodec \<Rightarrow> bool" where
  "codec_ok codec \<longleftrightarrow>
     (\<forall>h. \<exists>bs. xc_header_to_vec codec h = Some bs \<and> bs \<noteq> [] \<and> xc_header_from_slice codec bs = Some h) \<and>
     (\<forall>r. hm_wf (er_tags r) \<longrightarrow> (\<exists>bs tags. xc_record_to_vec codec r = Some bs \<and> bs \<noteq> [] \<and>
        xc_record_from_slice codec bs = Some (r\<lparr>er_tags := tags\<rparr>) \<and> hm_wf tags \<and> hm_get tags = hm_get (er_tags r))) \<and>
     (\<forall>bs. length (xc_hash codec bs) = HASHBYTES)"

definition frame :: "bytes \<Rightarrow> bytes" where
  "frame bs = write_u32 (length bs) @ bs"

section \<open>The stream of an export\<close>

lemma iterator_recordsD:
  assumes "iterator_records env it = Ok recs"
  shows "(recs = [] \<and> (\<exists>it'. iterator_next env it = (Ok None, it'))) \<or>
    (\<exists>r rs it'. recs = r # rs \<and> iterator_next env it = (Ok (Some r), it') \<and> iterator_records env it' = Ok rs)"
  using assms by (subst (asm) iterator_records.simps) (auto split: prod.splits outcome.splits option.splits)

lemma export_loop_written:
  assumes "iterator_records env it = Ok recs" and "list_all2 (\<lambda>r bs. export_record codec r = Ok bs) recs bss"
    and "written env w out nonce data"
  shows "\<exists>w'. export_loop env codec w it = Some (Ok (), w') \<and> written env w' out nonce (data @ concat (map frame bss)) \<and>
    wt_key w' = wt_key w \<and> wt_chunk_size w' = wt_chunk_size w"
  using assms
proof (induction bss arbitrary: recs it w data)
  case Nil
  then have "\<exists>it'. iterator_next env it = (Ok None, it')" using iterator_recordsD by fastforce
  with Nil show ?case by (subst export_loop.simps) auto
next
  case (Cons bs bss)
  then obtain r rs where recs: "recs = r # rs" "export_record codec r = Ok bs" "list_all2 (\<lambda>r bs. export_record codec r = Ok bs) rs bss"
    by (auto simp: list_all2_Cons2)
  with iterator_recordsD [OF Cons.prems(1)] obtain it' where it': "iterator_next env it = (Ok (Some r), it')" "iterator_records env it' = Ok rs"
    by auto
  obtain w1 where w1: "writer_write env w (write_u32 (length bs)) = Some w1" "written env w1 out nonce (data @ write_u32 (length bs))"
    "wt_key w1 = wt_key w" "wt_chunk_size w1 = wt_chunk_size w"
    using writer_write_written [OF Cons.prems(3)] by metis
  obtain w2 where w2: "writer_write env w1 bs = Some w2" "written env w2 out nonce ((data @ write_u32 (length bs)) @ bs)"
    "wt_key w2 = wt_key w1" "wt_chunk_size w2 = wt_chunk_size w1"
    using writer_write_written [OF w1(2)] by metis
  have "export_loop env codec w it = export_loop env codec w2 it'"
    by (subst export_loop.simps) (simp add: it'(1) recs(2) w1(1) w2(1))
  with Cons.IH [OF it'(2) recs(3) w2(2)] w1 w2 show ?case by (simp add: frame_def)
qed

lemma export_continue_file:
  assumes "codec_ok codec" and "wallet_get_all ops w = Ok it" and "iterator_records env it = Ok recs"
    and "list_all2 (\<lambda>r bs. export_record codec r = Ok bs) recs bss"
    and "xc_header_to_vec codec \<lparr>hd_encryption_method = encryption_method key_data nonce CHUNK_SIZE, hd_time = time, hd_version = version\<rparr> =
      Some hb"
  shows "export_continue ops env codec nonce time w version key key_data =
    Some (Ok (), frame hb @ sealed env key CHUNK_SIZE nonce (xc_hash codec hb @ concat (map frame bss) @ write_u32 0))"
proof -
  let ?w = "writer_new (frame hb) key nonce CHUNK_SIZE"
  have w0: "written env ?w (frame hb) nonce []" by (rule writer_new_written) (simp add: CHUNK_SIZE_def)
  obtain w1 where w1: "writer_write env ?w (xc_hash codec hb) = Some w1" "written env w1 (frame hb) nonce ([] @ xc_hash codec hb)"
    "wt_key w1 = key" "wt_chunk_size w1 = CHUNK_SIZE"
    using writer_write_written [OF w0] by (metis Writer.select_convs(2,3) writer_new_def)
  obtain w2 where w2: "export_loop env codec w1 it = Some (Ok (), w2)"
    "written env w2 (frame hb) nonce (([] @ xc_hash codec hb) @ concat (map frame bss))" "wt_key w2 = key" "wt_chunk_size w2 = CHUNK_SIZE"
    using export_loop_written [OF assms(3,4) w1(2)] w1(3,4) by auto
  obtain w3 where w3: "writer_write env w2 (write_u32 0) = Some w3"
    "written env w3 (frame hb) nonce ((([] @ xc_hash codec hb) @ concat (map frame bss)) @ write_u32 0)"
    "wt_key w3 = key" "wt_chunk_size w3 = CHUNK_SIZE"
    using writer_write_written [OF w2(2)] w2(3,4) by metis
  show ?thesis
    using writer_flush_written [OF w3(2)] w3(3,4)
    by (simp add: export_continue_def Let_def assms(2,5) w1(1) w2(1) w3(1) flip: frame_def)
qed

section \<open>Reading it back\<close>

lemma preparse_file:
  assumes "codec_ok codec" and "xc_header_to_vec codec h = Some hb" and "length hb < 2 ^ 32"
  shows "preparse_file_to_import codec (frame hb @ rest) passphrase =
    (if hd_version h \<noteq> 0 then Err InvalidStructure
     else map_ok (\<lambda>(key_data, nonce, chunk_size). (rest, key_data, nonce, chunk_size, hb))
       (case hd_encryption_method h of
          ChaCha20Poly1305IETF salt nonce chunk_size \<Rightarrow>
            and_then (from_slice SALTBYTES salt) (\<lambda>salt.
            and_then (from_slice NONCEBYTES nonce) (\<lambda>nonce.
              Ok (KDD_Argon2iMod passphrase salt, nonce, chunk_size)))
        | ChaCha20Poly1305IETFInteractive salt nonce chunk_size \<Rightarrow>
            and_then (from_slice SALTBYTES salt) (\<lambda>salt.
            and_then (from_slice NONCEBYTES nonce) (\<lambda>nonce.
              Ok (KDD_Argon2iInt passphrase salt, nonce, chunk_size)))
        | ChaCha20Poly1305IETFRaw nonce chunk_size \<Rightarrow>
            and_then (from_slice NONCEBYTES nonce) (\<lambda>nonce. Ok (KDD_Raw passphrase, nonce, chunk_size))))"
proof -
  have "hb \<noteq> []" "xc_header_from_slice codec hb = Some h" using assms(1,2) unfolding codec_ok_def by (metis option.inject)+
  moreover have "read_u32 (write_u32 (length hb)) = length hb" using assms(3) by (simp add: read_write_u32)
  ultimately show ?thesis by (simp add: preparse_file_to_import_def read_exact_def frame_def Let_def)
qed

text \<open>The records of a stream are added one after the other.\<close>

fun add_all :: "ExportRecord list \<Rightarrow> plain_wallet \<Rightarrow> plain_wallet" where
  "add_all [] P = P"
| "add_all (r # rs) P = add_all rs (P(er_type r := (P (er_type r))(er_id r \<mapsto> (er_value r, hm_get (er_tags r)))))"

definition record_ok :: "ExportRecord \<Rightarrow> bool" where
  "record_ok r \<longleftrightarrow> rust_str (er_type r) \<and> rust_str (er_id r) \<and> rust_str (er_value r) \<and> tags_ok (er_tags r)"

definition shows_record :: "string \<times> string \<times> plain_item \<Rightarrow> ExportRecord \<Rightarrow> bool" where
  "shows_record = (\<lambda>(t, n, v, tm) r. er_type r = t \<and> er_id r = n \<and> er_value r = v \<and> hm_get (er_tags r) = tm)"

lemma add_all_entries:
  "list_all2 shows_record es rs \<Longrightarrow> distinct (map (\<lambda>(t, n, _). (t, n)) es) \<Longrightarrow>
     add_all rs P t n = (case map_of (map (\<lambda>(t, n, x). ((t, n), x)) es) (t, n) of None \<Rightarrow> P t n | Some x \<Rightarrow> Some x)"
proof (induction arbitrary: P rule: list_all2_induct)
  case (Cons e es r rs)
  obtain t' n' v tm where e: "e = (t', n', v, tm)" by (cases e)
  with Cons.prems have "map_of (map (\<lambda>(t, n, x). ((t, n), x)) es) (t', n') = None"
    by (auto simp: map_of_eq_None_iff image_iff split: prod.splits)
  with Cons e show ?case by (auto simp: shows_record_def split: option.split)
qed simp

lemma add_all_lists:
  assumes "list_all2 shows_record es rs" and "lists_plain P (\<lambda>_ _. True) es"
  shows "add_all rs (\<lambda>_ _. None) = P"
proof (intro ext)
  fix t n
  have d: "distinct (map (\<lambda>(t, n, _). (t, n)) es)" and es: "set es = {(t, n, v, tm). P t n = Some (v, tm)}"
    using assms(2) by (simp_all add: lists_plain_def)
  let ?m = "map_of (map (\<lambda>(t, n, x). ((t, n), x)) es)"
  have keys: "map fst (map (\<lambda>(t, n, x). ((t, n), x)) es) = map (\<lambda>(t, n, _). (t, n)) es" by (simp add: split_def)
  have "?m (t, n) = Some x \<longleftrightarrow> P t n = Some x" for x
  proof -
    have "?m (t, n) = Some x \<longleftrightarrow> ((t, n), x) \<in> set (map (\<lambda>(t, n, x). ((t, n), x)) es)"
      using d unfolding keys [symmetric] by (rule map_of_eq_Some_iff)
    also have "\<dots> \<longleftrightarrow> (t, n, x) \<in> set es" by force
    also have "\<dots> \<longleftrightarrow> P t n = Some x" unfolding es by (cases x) simp
    finally show ?thesis .
  qed
  then have "?m (t, n) = P t n" by (metis not_Some_eq)
  then show "add_all rs (\<lambda>_ _. None) t n = P t n"
    using add_all_entries [OF assms(1) d, of "\<lambda>_ _. None" t n] by (simp split: option.splits)
qed

text \<open>The length of every record fits into the 32 bits of its frame.\<close>

definition export_fits :: "ExportCodec \<Rightarrow> plain_wallet \<Rightarrow> bool" where
  "export_fits codec P \<longleftrightarrow> (\<forall>t n v tm tags bs. P t n = Some (v, tm) \<longrightarrow> hm_wf tags \<longrightarrow> hm_get tags = tm \<longrightarrow>
     xc_record_to_vec codec \<lparr>er_type = t, er_id = n, er_value = v, er_tags = tags\<rparr> = Some bs \<longrightarrow> length bs < 2 ^ 32)"

definition good_frame :: "ExportCodec \<Rightarrow> bytes \<Rightarrow> ExportRecord \<Rightarrow> bool" where
  "good_frame codec bs r \<longleftrightarrow> bs \<noteq> [] \<and> length bs < 2 ^ 32 \<and> xc_record_from_slice codec bs = Some r \<and> record_ok r"

lemma tags_ok_cong: "tags_ok tags \<Longrightarrow> hm_wf m \<Longrightarrow> hm_get m = hm_get tags \<Longrightarrow> tags_ok m"
proof -
  assume t: "tags_ok tags" and m: "hm_wf m" "hm_get m = hm_get tags"
  then have "set m = set tags"
    using hm_get_iff_member [of m] hm_get_iff_member [of tags] by (auto simp: tags_ok_def)
  with t m(1) show "tags_ok m" by (simp add: tags_ok_def list_all_iff)
qed

lemma export_record_shown:
  assumes "crypto_ok env" and "codec_ok codec" and "export_fits codec P" and "content_rel env keys c P"
    and "P t n = Some (v, tm)" and "record_shows all_options (t, n, v, tm) r"
  shows "\<exists>bs rc. export_record codec r = Ok bs \<and> good_frame codec bs rc \<and> shows_record (t, n, v, tm) rc"
proof -
  obtain m where m: "wr_type r = Some t" "wr_id r = n" "wr_value r = Some v" "wr_tags r = Some m" "hm_wf m" "hm_get m = tm"
    using assms(6) by (auto simp: record_shows_def all_options_def split: option.splits)
  let ?r = "\<lparr>er_type = t, er_id = n, er_value = v, er_tags = m\<rparr>"
  obtain bs tags where bs: "xc_record_to_vec codec ?r = Some bs" "bs \<noteq> []" "xc_record_from_slice codec bs = Some (?r\<lparr>er_tags := tags\<rparr>)"
    "hm_wf tags" "hm_get tags = tm"
    using assms(2) m(5,6) unfolding codec_ok_def by (metis ExportRecord.select_convs(4))
  have "length bs < 2 ^ 32" using assms(3,5) m(5,6) bs(1) unfolding export_fits_def by blast
  moreover obtain item where item: "item_rel env keys item (v, tm)" using content_rel_Some [OF assms(4,5)] by blast
  then have "record_ok (?r\<lparr>er_tags := tags\<rparr>)"
    using content_rel_rust_str [OF assms(1,4,5)] tags_ok_cong [OF _ bs(4)] bs(5) by (auto simp: item_rel_def record_ok_def)
  ultimately show ?thesis
    using m bs by (intro exI [of _ bs] exI [of _ "?r\<lparr>er_tags := tags\<rparr>"])
      (simp add: export_record_def good_frame_def shows_record_def)
qed

context wallet_storage
begin

lemma import_loop_adds:
  assumes "crypto_ok env" and "se_foreign_keys senv" and "\<And>i. fresh_ok (rnds i)"
    and "wallet_rel invar content env w P" and "holds env reader (concat (map frame bss) @ write_u32 0)"
    and "list_all2 (good_frame codec) bss rs"
    and "distinct (map (\<lambda>r. (er_type r, er_id r)) rs)" and "\<And>r. r \<in> set rs \<Longrightarrow> P (er_type r) (er_id r) = None"
  shows "\<exists>w'. import_loop ops env codec rnds i reader w = Some (Ok (), w') \<and> wallet_rel invar content env w' (add_all rs P) \<and>
    w_keys w' = w_keys w"
  using assms(4-8)
proof (induction rs arbitrary: bss reader w P i)
  case Nil
  then obtain r1 where "reader_read env reader 4 = Ok (write_u32 0, r1)"
    using reader_read_holds [OF assms(1) Nil.prems(2), of 4] by auto
  moreover have "read_u32 (write_u32 0) = 0" by (simp add: read_write_u32)
  ultimately show ?case using Nil by (subst import_loop.simps) simp
next
  case (Cons r rs)
  from Cons.prems(3) obtain bs bss' where "bss = bs # bss'" "good_frame codec bs r" "list_all2 (good_frame codec) bss' rs"
    unfolding list_all2_Cons2 by blast
  then have bss: "bss = bs # bss'" "bs \<noteq> []" "length bs < 2 ^ 32" "xc_record_from_slice codec bs = Some r" "record_ok r"
    "list_all2 (good_frame codec) bss' rs"
    by (simp_all add: good_frame_def)
  let ?rest = "concat (map frame bss') @ write_u32 0"
  obtain r1 where r1: "reader_read env reader 4 = Ok (write_u32 (length bs), r1)" "holds env r1 (bs @ ?rest)"
    using reader_read_holds [OF assms(1) Cons.prems(2), of 4] by (auto simp: bss(1) frame_def)
  obtain r2 where r2: "reader_read env r1 (length bs) = Ok (bs, r2)" "holds env r2 ?rest"
    using reader_read_holds [OF assms(1) r1(2), of "length bs"] by auto
  have len: "read_u32 (write_u32 (length bs)) = length bs" using bss(3) by (simp add: read_write_u32)
  obtain res w1 where add: "wallet_add ops env (rnds i) w (er_type r) (er_id r) (er_value r) (er_tags r) = (res, w1)"
    by (cases "wallet_add ops env (rnds i) w (er_type r) (er_id r) (er_value r) (er_tags r)")
  let ?P = "P(er_type r := (P (er_type r))(er_id r \<mapsto> (er_value r, hm_get (er_tags r))))"
  have none: "P (er_type r) (er_id r) = None" using Cons.prems(5) by simp
  have step: "res = Ok ()" "wallet_rel invar content env w1 ?P" "w_keys w1 = w_keys w"
    using wallet_step_rel [OF assms(1,2) Cons.prems(1), of "Cmd_Add (rnds i) (er_type r) (er_id r) (er_value r) (er_tags r)" res w1]
      bss(5) assms(3) add none by (simp_all add: record_ok_def)
  have loop: "import_loop ops env codec rnds i reader w = import_loop ops env codec rnds (Suc i) r2 w1"
    by (subst import_loop.simps) (simp add: r1(1) r2(1) len bss(2,4) add step(1))
  have none': "?P (er_type x) (er_id x) = None" if "x \<in> set rs" for x
    using Cons.prems(4) Cons.prems(5) [of x] that by (auto simp: image_iff)
  have "distinct (map (\<lambda>r. (er_type r, er_id r)) rs)" using Cons.prems(4) by simp
  from Cons.IH [OF step(2) r2(2) bss(6) this none', of "Suc i"] show ?case
    unfolding loop add_all.simps step(3) .
qed

lemma export_import:
  assumes "crypto_ok env" and "se_foreign_keys senv" and "codec_ok codec" and "export_fits codec P"
    and "wallet_rel invar content env w P" and "wallet_rel invar content env w0 (\<lambda>_ _. None)" and "\<And>i. fresh_ok (rnds i)"
    and "xc_header_to_vec codec \<lparr>hd_encryption_method = encryption_method key_data nonce CHUNK_SIZE, hd_time = time, hd_version = 0\<rparr> =
      Some hb" and "length hb < 2 ^ 32"
  shows "\<exists>file w'. export_continue ops env codec nonce time w 0 key key_data = Some (Ok (), frame hb @ file) \<and>
    finish_import ops env codec checks rnds w0 file key nonce CHUNK_SIZE hb = Some (Ok (), w') \<and> wallet_rel invar content env w' P"
proof -
  have rel: "content_rel env (w_keys w) (content (w_storage w)) P" using assms(5) by (simp add: wallet_rel_def)
  obtain it es recs where it: "wallet_get_all ops w = Ok it" "lists_plain P (\<lambda>_ _. True) es" "iterator_records env it = Ok recs"
    "list_all2 (record_shows all_options) es recs"
    using wallet_get_all_lists [OF assms(1,5)] by blast
  have "list_all (\<lambda>(t, n, v, tm). P t n = Some (v, tm)) es" using it(2) by (auto simp: lists_plain_def list_all_iff)
  with it(4) have "\<exists>bss rs. list_all2 (\<lambda>r bs. export_record codec r = Ok bs) recs bss \<and> list_all2 (good_frame codec) bss rs \<and>
      list_all2 shows_record es rs"
  proof (induction rule: list_all2_induct)
    case (Cons e es r recs)
    obtain t n v tm where e: "e = (t, n, v, tm)" by (cases e)
    obtain bs rc where "export_record codec r = Ok bs" "good_frame codec bs rc" "shows_record e rc"
      using export_record_shown [OF assms(1,3,4) rel, of t n v tm r] Cons e by auto
    moreover obtain bss rs where "list_all2 (\<lambda>r bs. export_record codec r = Ok bs) recs bss" "list_all2 (good_frame codec) bss rs"
      "list_all2 shows_record es rs"
      using Cons by auto
    ultimately show ?case by (intro exI [of _ "bs # bss"] exI [of _ "rc # rs"]) simp
  qed simp
  then obtain bss rs where bss: "list_all2 (\<lambda>r bs. export_record codec r = Ok bs) recs bss" "list_all2 (good_frame codec) bss rs"
    "list_all2 shows_record es rs"
    by blast
  let ?data = "xc_hash codec hb @ concat (map frame bss) @ write_u32 0"
  have export: "export_continue ops env codec nonce time w 0 key key_data = Some (Ok (), frame hb @ sealed env key CHUNK_SIZE nonce ?data)"
    by (rule export_continue_file [OF assms(3) it(1,3) bss(1) assms(8)])
  obtain r0 where r0: "reader_new checks (sealed env key CHUNK_SIZE nonce ?data) key nonce CHUNK_SIZE = Ok r0" "holds env r0 ?data"
    using reader_new_holds [of CHUNK_SIZE checks env key nonce ?data] by (auto simp: CHUNK_SIZE_def)
  have hash: "length (xc_hash codec hb) = HASHBYTES" using assms(3) by (simp add: codec_ok_def)
  obtain r1 where r1: "reader_read env r0 HASHBYTES = Ok (xc_hash codec hb, r1)" "holds env r1 (concat (map frame bss) @ write_u32 0)"
    using reader_read_holds [OF assms(1) r0(2), of HASHBYTES] hash by auto
  have keys: "map (\<lambda>r. (er_type r, er_id r)) rs = map (\<lambda>(t, n, _). (t, n)) es"
    using bss(3) by (induction rule: list_all2_induct) (auto simp: shows_record_def)
  have "distinct (map (\<lambda>r. (er_type r, er_id r)) rs)" unfolding keys using it(2) by (simp add: lists_plain_def)
  then obtain w' where "import_loop ops env codec rnds 0 r1 w0 = Some (Ok (), w')" "wallet_rel invar content env w' (add_all rs (\<lambda>_ _. None))"
    using import_loop_adds [where rnds = rnds and i = 0, OF assms(1,2,7,6) r1(2) bss(2)] by auto
  then show ?thesis
    using export add_all_lists [OF bss(3) it(2)] r0(1) r1(1) by (auto simp: finish_import_def)
qed

end

section \<open>A sample instance of the codecs\<close>

text \<open>A value is written as the fields of its parts, a number as a field of that length.\<close>

definition bytes_str :: "bytes \<Rightarrow> string" where
  "bytes_str bs = map (\<lambda>b. char_of (unat b)) bs"

lemma bytes_str_bytes [simp]: "bytes_str (str_bytes s) = s"
  by (simp add: bytes_str_def str_bytes_def comp_def)

definition write_fields :: "bytes list \<Rightarrow> bytes" where
  "write_fields fs = concat (map write_field fs)"

lemma read_write_fields: "read_fields [] (write_fields fs) = fs"
  by (induction fs) (simp_all add: write_fields_def read_write_field)

fun tag_fields :: "Tags \<Rightarrow> bytes list" where
  "tag_fields [] = []"
| "tag_fields ((n, v) # tags) = str_bytes n # str_bytes v # tag_fields tags"

fun fields_tags :: "bytes list \<Rightarrow> Tags" where
  "fields_tags (n # v # fs) = (bytes_str n, bytes_str v) # fields_tags fs"
| "fields_tags _ = []"

lemma fields_tags_fields [simp]: "fields_tags (tag_fields tags) = tags"
  by (induction tags rule: tag_fields.induct) simp_all

definition sample_record_to_vec :: "ExportRecord \<Rightarrow> bytes option" where
  "sample_record_to_vec r =
     Some (write_fields (str_bytes (er_type r) # str_bytes (er_id r) # str_bytes (er_value r) # tag_fields (er_tags r)))"

definition sample_record_from_slice :: "bytes \<Rightarrow> ExportRecord option" where
  "sample_record_from_slice bs =
     (case read_fields [] bs of
        t # n # v # fs \<Rightarrow> Some \<lparr>er_type = bytes_str t, er_id = bytes_str n, er_value = bytes_str v, er_tags = fields_tags fs\<rparr>
      | _ \<Rightarrow> None)"

fun method_fields :: "EncryptionMethod \<Rightarrow> bytes list" where
  "method_fields (ChaCha20Poly1305IETF salt nonce n) = [[0], salt, nonce, replicate n 0]"
| "method_fields (ChaCha20Poly1305IETFInteractive salt nonce n) = [[1], salt, nonce, replicate n 0]"
| "method_fields (ChaCha20Poly1305IETFRaw nonce n) = [[2], [], nonce, replicate n 0]"

definition sample_header_to_vec :: "Header \<Rightarrow> bytes option" where
  "sample_header_to_vec h =
     Some (write_fields (replicate (hd_time h) 0 # replicate (hd_version h) 0 # method_fields (hd_encryption_method h)))"

definition sample_header_from_slice :: "bytes \<Rightarrow> Header option" where
  "sample_header_from_slice bs =
     (case read_fields [] bs of
        [time, version, kind, salt, nonce, n] \<Rightarrow>
          Some \<lparr>hd_encryption_method =
                  (if kind = [0] then ChaCha20Poly1305IETF salt nonce (length n)
                   else if kind = [1] then ChaCha20Poly1305IETFInteractive salt nonce (length n)
                   else ChaCha20Poly1305IETFRaw nonce (length n)),
                hd_time = length time, hd_version = length version\<rparr>
      | _ \<Rightarrow> None)"

definition sample_codec :: ExportCodec where
  "sample_codec =
     \<lparr>xc_header_to_vec = sample_header_to_vec, xc_header_from_slice = sample_header_from_slice,
      xc_record_to_vec = sample_record_to_vec, xc_record_from_slice = sample_record_from_slice,
      xc_hash = \<lambda>_. replicate 32 5\<rparr>"

lemma write_fields_not_Nil: "write_fields (f # fs) \<noteq> []"
  by (simp add: write_fields_def write_field_def)

lemma sample_codec_ok: "codec_ok sample_codec"
proof -
  have "\<exists>bs. sample_header_to_vec h = Some bs \<and> bs \<noteq> [] \<and> sample_header_from_slice bs = Some h" for h
    by (cases h; cases "hd_encryption_method h")
      (auto simp: sample_header_to_vec_def sample_header_from_slice_def read_write_fields write_fields_not_Nil)
  moreover have "\<exists>bs tags. sample_record_to_vec r = Some bs \<and> bs \<noteq> [] \<and>
      sample_record_from_slice bs = Some (r\<lparr>er_tags := tags\<rparr>) \<and> hm_wf tags \<and> hm_get tags = hm_get (er_tags r)"
    if "hm_wf (er_tags r)" for r
    using that by (intro exI [of _ "the (sample_record_to_vec r)"] exI [of _ "er_tags r"], cases r)
      (simp add: sample_record_to_vec_def sample_record_from_slice_def read_write_fields write_fields_not_Nil)
  ultimately show ?thesis by (simp add: codec_ok_def sample_codec_def HASHBYTES_def)
qed

section \<open>Properties\<close>

fun kdd_passphrase :: "KeyDerivationData \<Rightarrow> string" where
  "kdd_passphrase (KDD_Raw p) = p"
| "kdd_passphrase (KDD_Argon2iMod p _) = p"
| "kdd_passphrase (KDD_Argon2iInt p _) = p"

fun salt_ok :: "KeyDerivationData \<Rightarrow> bool" where
  "salt_ok (KDD_Raw _) = True"
| "salt_ok (KDD_Argon2iMod _ salt) = (length salt = SALTBYTES)"
| "salt_ok (KDD_Argon2iInt _ salt) = (length salt = SALTBYTES)"

lemma preparse_export:
  assumes "codec_ok codec" and "length nonce = NONCEBYTES" and "salt_ok key_data"
    and "xc_header_to_vec codec \<lparr>hd_encryption_method = encryption_method key_data nonce CHUNK_SIZE, hd_time = time, hd_version = 0\<rparr> = Some hb"
    and "length hb < 2 ^ 32"
  shows "preparse_file_to_import codec (frame hb @ file) (kdd_passphrase key_data) = Ok (file, key_data, nonce, CHUNK_SIZE, hb)"
  unfolding preparse_file [OF assms(1,4,5)] using assms(2,3)
  by (cases key_data) (simp_all add: encryption_method_def from_slice_def)

text \<open>
  C9: An exported wallet can be imported. For every wallet built by any commands, the export succeeds; with
  the same passphrase the import reads the same key derivation data, nonce and chunk size from the file,
  and importing it into a new wallet with other keys ends with success and with a wallet in which every
  \<open>get\<close> shows what the exported wallet held. The lengths of header and records must fit into 32 bits.
\<close>

theorem export_import_roundtrip:
  assumes "crypto_ok env" and "se_foreign_keys senv" and "codec_ok codec" and "list_all command_ok cmds"
    and "run_steps (wallet_step (sqlite_storage senv) env) cmds (new_wallet wid keys metadata) = (rs, w)"
    and "run_steps map_step cmds (\<lambda>_ _. None) = (rs', P)"
    and "export_fits codec P" and "\<And>i. fresh_ok (rnds i)" and "length nonce = NONCEBYTES" and "salt_ok key_data"
    and "\<And>hb. xc_header_to_vec codec \<lparr>hd_encryption_method = encryption_method key_data nonce CHUNK_SIZE, hd_time = time,
      hd_version = 0\<rparr> = Some hb \<Longrightarrow> length hb < 2 ^ 32"
    and "record_options senv options = Some ro"
  shows "\<exists>bytes file hb w'.
    export_continue (sqlite_storage senv) env codec nonce time w 0 key key_data = Some (Ok (), bytes) \<and>
    preparse_file_to_import codec bytes (kdd_passphrase key_data) = Ok (file, key_data, nonce, CHUNK_SIZE, hb) \<and>
    finish_import (sqlite_storage senv) env codec checks rnds (new_wallet wid' keys' metadata') file key nonce CHUNK_SIZE hb =
      Some (Ok (), w') \<and>
    (\<forall>t n. case P t n of
        None \<Rightarrow> wallet_get (sqlite_storage senv) env w' t n options = Err WalletItemNotFound
      | Some x \<Rightarrow> \<exists>r. wallet_get (sqlite_storage senv) env w' t n options = Ok r \<and> record_shows ro (t, n, x) r)"
proof -
  obtain hb where hb: "xc_header_to_vec codec \<lparr>hd_encryption_method = encryption_method key_data nonce CHUNK_SIZE, hd_time = time,
      hd_version = 0\<rparr> = Some hb"
    using assms(3) unfolding codec_ok_def by blast
  note len = assms(11) [OF hb]
  obtain body w' where f: "export_continue (sqlite_storage senv) env codec nonce time w 0 key key_data = Some (Ok (), frame hb @ body)"
    "finish_import (sqlite_storage senv) env codec checks rnds (new_wallet wid' keys' metadata') body key nonce CHUNK_SIZE hb =
      Some (Ok (), w')" "wallet_rel sqlite_ok sqlite_content env w' P"
    using sqlite.export_import [where rnds = rnds, OF assms(1,2,3,7) new_wallet_run(2) [OF assms(1,2,4,5,6)] new_wallet_rel assms(8) hb len] by blast
  have pre: "preparse_file_to_import codec (frame hb @ body) (kdd_passphrase key_data) = Ok (body, key_data, nonce, CHUNK_SIZE, hb)"
    by (rule preparse_export [OF assms(3,9,10) hb len])
  show ?thesis
    by (intro exI conjI allI) (rule f(1), rule pre, rule f(2), rule sqlite.wallet_get_shows [OF assms(1) f(3) assms(12)])
qed

lemma sample_export_fits: "export_fits sample_codec (snd (run_steps map_step sample_commands (\<lambda>_ _. None)))"
proof -
  let ?P = "snd (run_steps map_step sample_commands (\<lambda>_ _. None))"
  have P: "?P t n = (if t = ''t'' \<and> n = ''n'' then Some (''w'', [''~b'' \<mapsto> ''2'']) else None)" for t n
    by (auto simp: sample_commands_def change_item_def restrict_map_def fun_eq_iff)
  have "length bs < 2 ^ 32" if m: "hm_wf tags" "hm_get tags = [''~b'' \<mapsto> ''2'']"
    and bs: "xc_record_to_vec sample_codec \<lparr>er_type = ''t'', er_id = ''n'', er_value = ''w'', er_tags = tags\<rparr> = Some bs" for tags bs
  proof -
    have "set tags = {(''~b'', ''2'')}"
    proof (rule set_eqI)
      fix x
      show "x \<in> set tags \<longleftrightarrow> x \<in> {(''~b'', ''2'')}"
        using hm_get_iff_member [OF m(1), of "fst x" "snd x"] unfolding m(2) by (cases x) (auto split: if_splits)
    qed
    moreover have "distinct tags" using m(1) by (simp add: hm_wf_def distinct_map)
    ultimately have "tags = [(''~b'', ''2'')]" by (cases tags; cases "tl tags") auto
    with bs show ?thesis by (auto simp: sample_codec_def sample_record_to_vec_def write_fields_def write_field_def str_bytes_def)
  qed
  then show ?thesis unfolding export_fits_def P by auto
qed

theorem export_import_roundtrip_witness:
  "\<exists>bytes rest hb w' r.
    export_continue (sqlite_storage (sample_storage_env True)) sample_crypto sample_codec (replicate 12 255) 7
      (snd (run_steps (wallet_step (sqlite_storage (sample_storage_env True)) sample_crypto) sample_commands
        (new_wallet ''w'' sample_wallet_keys []))) 0 (replicate 32 8) (KDD_Raw ''key'') = Some (Ok (), bytes) \<and>
    preparse_file_to_import sample_codec bytes ''key'' = Ok (rest, KDD_Raw ''key'', replicate 12 255, CHUNK_SIZE, hb) \<and>
    finish_import (sqlite_storage (sample_storage_env True)) sample_crypto sample_codec True
      (\<lambda>_. (replicate 32 1, replicate 12 1, replicate 12 2)) (new_wallet ''v'' sample_wallet_keys [1]) rest (replicate 32 8)
      (replicate 12 255) CHUNK_SIZE hb = Some (Ok (), w') \<and>
    wallet_get (sqlite_storage (sample_storage_env True)) sample_crypto w' ''t'' ''n'' ''all'' = Ok r \<and> wr_value r = Some ''w''"
proof -
  note rt = export_import_roundtrip [OF sample_crypto_ok _ sample_codec_ok sample_commands_ok surjective_pairing surjective_pairing
      sample_export_fits,
      where senv = "sample_storage_env True" and rnds = "\<lambda>_. (replicate 32 1, replicate 12 1, replicate 12 2)" and
        nonce = "replicate 12 255" and key_data = "KDD_Raw ''key''" and time = 7 and options = "''all''" and ro = all_options and
        checks = True and key = "replicate 32 8" and wid = "''w''" and keys = sample_wallet_keys and metadata = "[]" and
        wid' = "''v''" and keys' = sample_wallet_keys and metadata' = "[1]"]
  have len: "length (write_fields [replicate 7 0, [], [2], [], replicate 12 255, replicate 1024 (0 :: 8 word)]) < 2 ^ 32"
    by (simp add: write_fields_def write_field_def length_concat comp_def sum_list_replicate)
  have P: "snd (run_steps map_step sample_commands (\<lambda>_ _. None)) ''t'' ''n'' = Some (''w'', [''~b'' \<mapsto> ''2''])"
    by (auto simp: sample_commands_def change_item_def fun_eq_iff restrict_map_def)
  have hyps: "se_foreign_keys (sample_storage_env True)" "fresh_ok (replicate 32 1, replicate 12 1, replicate 12 2)"
    "length (replicate 12 (255 :: 8 word)) = NONCEBYTES" "salt_ok (KDD_Raw ''key'')"
    "record_options (sample_storage_env True) ''all'' = Some all_options"
    by (simp_all add: sample_storage_env_def fresh_ok_def KEYBYTES_def NONCEBYTES_def record_options_def)
  have hb: "length hb < 2 ^ 32" if "xc_header_to_vec sample_codec \<lparr>hd_encryption_method =
      encryption_method (KDD_Raw ''key'') (replicate 12 255) CHUNK_SIZE, hd_time = 7, hd_version = 0\<rparr> = Some hb" for hb
    using len that by (simp add: sample_codec_def sample_header_to_vec_def encryption_method_def CHUNK_SIZE_def)
  from rt [OF hyps(1-4) hb hyps(5)] obtain bytes rest hb' w' where x:
    "export_continue (sqlite_storage (sample_storage_env True)) sample_crypto sample_codec (replicate 12 255) 7
      (snd (run_steps (wallet_step (sqlite_storage (sample_storage_env True)) sample_crypto) sample_commands
        (new_wallet ''w'' sample_wallet_keys []))) 0 (replicate 32 8) (KDD_Raw ''key'') = Some (Ok (), bytes)"
    "preparse_file_to_import sample_codec bytes (kdd_passphrase (KDD_Raw ''key'')) =
      Ok (rest, KDD_Raw ''key'', replicate 12 255, CHUNK_SIZE, hb')"
    "finish_import (sqlite_storage (sample_storage_env True)) sample_crypto sample_codec True
      (\<lambda>_. (replicate 32 1, replicate 12 1, replicate 12 2)) (new_wallet ''v'' sample_wallet_keys [1]) rest (replicate 32 8)
      (replicate 12 255) CHUNK_SIZE hb' = Some (Ok (), w')"
    "\<forall>t n. case snd (run_steps map_step sample_commands (\<lambda>_ _. None)) t n of
        None \<Rightarrow> wallet_get (sqlite_storage (sample_storage_env True)) sample_crypto w' t n ''all'' = Err WalletItemNotFound
      | Some x \<Rightarrow> \<exists>r. wallet_get (sqlite_storage (sample_storage_env True)) sample_crypto w' t n ''all'' = Ok r \<and>
          record_shows all_options (t, n, x) r"
    by blast
  from x(4) [THEN spec, THEN spec, of "''t''" "''n''", unfolded P option.case] obtain r where
    "wallet_get (sqlite_storage (sample_storage_env True)) sample_crypto w' ''t'' ''n'' ''all'' = Ok r" "wr_value r = Some ''w''"
    by (auto simp: record_shows_def all_options_def)
  with x(1-3) show ?thesis unfolding kdd_passphrase.simps by blast
qed

text \<open>
  The chunk size is read from the unencrypted header before anything is authenticated. A file whose
  header states a chunk size above \<open>isize::MAX\<close> makes the import panic, whatever the rest of the file
  and the key are.
\<close>

theorem import_chunk_size_panics:
  assumes "2 ^ 63 \<le> cs + TAGBYTES" and "cs + TAGBYTES < 2 ^ 64"
  shows "finish_import ops env codec checks rnds w file key nonce cs hb = Some (Panic, w)"
  using assms by (simp add: finish_import_def reader_new_def usize_add_def)

theorem import_chunk_size_panics_witness:
  "finish_import (sqlite_storage (sample_storage_env True)) sample_crypto sample_codec False
    (\<lambda>_. ([], [], [])) (new_wallet ''w'' sample_wallet_keys []) [] [] [] (2 ^ 63) [] =
   Some (Panic, new_wallet ''w'' sample_wallet_keys [])"
  by (rule import_chunk_size_panics) (simp_all add: TAGBYTES_def)

end
