(* ===== verification/Wallet_Service.thy ===== *)
theory Wallet_Service
  imports Export_Import
begin

text \<open>
  The wallet service (\<open>WalletService\<close> of \<open>indy-wallet/src/lib.rs\<close>): registered storage types, open
  wallets and their ids, wallets whose opening or import waits for a derived key, and the record
  operations by wallet handle. The storages of all wallets live in one map from locations to contents;
  an open wallet holds the location. What an operation on an open wallet whose storage was deleted
  does is not determined by the code; it is modelled as an I/O error and nothing depends on it.
  \<open>_map_wallet_storage_error\<close> changes messages only and keeps the kind of an error.
\<close>

section \<open>State\<close>

record ('p, 's) StorageType =
  ty_create :: "('p \<rightharpoonup> 's) \<Rightarrow> string \<Rightarrow> string option \<Rightarrow> string option \<Rightarrow> bytes \<Rightarrow> unit outcome \<times> ('p \<rightharpoonup> 's)"
  ty_open :: "('p \<rightharpoonup> 's) \<Rightarrow> string \<Rightarrow> string option \<Rightarrow> string option \<Rightarrow> 'p outcome"
  ty_delete :: "('p \<rightharpoonup> 's) \<Rightarrow> string \<Rightarrow> string option \<Rightarrow> string option \<Rightarrow> unit outcome \<times> ('p \<rightharpoonup> 's)"
  ty_close :: "'p \<Rightarrow> unit outcome"
  ty_ops :: "'s WalletStorage"

definition sqlite_type :: "StorageEnv \<Rightarrow> SqliteTypeEnv \<Rightarrow> (string \<times> string, SqliteDb) StorageType" where
  "sqlite_type senv tenv =
     \<lparr>ty_create = \<lambda>files wid config _ metadata. sqlite_create_storage tenv files wid config metadata,
      ty_open = \<lambda>files wid config _. sqlite_open_storage tenv files wid config,
      ty_delete = \<lambda>files wid config _. sqlite_delete_storage tenv files wid config,
      ty_close = \<lambda>_. Ok (), ty_ops = sqlite_storage senv\<rparr>"

record Config =
  cf_id :: string
  cf_storage_type :: "string option"
  cf_storage_config :: "SJsonValue option"

record Credentials =
  cr_key :: string
  cr_rekey :: "string option"
  cr_storage_credentials :: "SJsonValue option"
  cr_key_derivation_method :: KeyDerivationMethod
  cr_rekey_derivation_method :: KeyDerivationMethod

record ExportConfig =
  ec_key :: string
  ec_path :: string
  ec_key_derivation_method :: KeyDerivationMethod

record ('p, 's) OpenWallet =
  ow_id :: string
  ow_path :: 'p
  ow_type :: "('p, 's) StorageType"
  ow_keys :: Keys

record ('p, 's) PendingOpen =
  po_id :: string
  po_path :: 'p
  po_type :: "('p, 's) StorageType"
  po_metadata :: WalletMetadata
  po_rekey_data :: "KeyDerivationData option"

record PendingImport =
  pi_reader :: bytes
  pi_nonce :: bytes
  pi_chunk_size :: nat
  pi_header_bytes :: bytes
  pi_key_data :: KeyDerivationData

text \<open>The service, with the storages, the export files and the process-wide counter of handles.\<close>

record ('p, 's) WalletService =
  ws_storage_types :: "(string \<times> ('p, 's) StorageType) list"
  ws_wallets :: "(int \<times> ('p, 's) OpenWallet) list"
  ws_wallet_ids :: "string set"
  ws_pending_for_open :: "(int \<times> ('p, 's) PendingOpen) list"
  ws_pending_for_import :: "(int \<times> PendingImport) list"
  ws_storages :: "'p \<rightharpoonup> 's"
  ws_exports :: "string \<rightharpoonup> bytes"
  ws_ids_counter :: nat

record ServiceEnv =
  sv_crypto :: CryptoEnv
  sv_codec :: ExportCodec
  sv_to_string :: "SJsonValue \<Rightarrow> string"
  sv_from_str :: "string \<Rightarrow> SJsonValue option"
  sv_metadata_to_vec :: "WalletMetadata \<Rightarrow> bytes option"
  sv_metadata_from_slice :: "bytes \<Rightarrow> WalletMetadata option"
  sv_checks :: bool

definition service_new :: "('p, 's) StorageType \<Rightarrow> ('p, 's) WalletService" where
  "service_new sqlite_ty =
     \<lparr>ws_storage_types = [(''default'', sqlite_ty)], ws_wallets = [], ws_wallet_ids = {}, ws_pending_for_open = [],
      ws_pending_for_import = [], ws_storages = Map.empty, ws_exports = Map.empty, ws_ids_counter = 1\<rparr>"

text \<open>
  \<open>get_next_id\<close>: a handle is the low 32 bits of the counter as a signed number. The counter of the code is
  a \<open>usize\<close> that wraps around; \<open>ws_ids_counter\<close> counts the calls without bound, which has the same
  low 32 bits.
\<close>

definition next_handle :: "('p, 's) WalletService \<Rightarrow> int \<times> ('p, 's) WalletService" where
  "next_handle svc =
     (sint (of_nat (ws_ids_counter svc + 1) :: 32 word), svc\<lparr>ws_ids_counter := ws_ids_counter svc + 1\<rparr>)"

section \<open>Storages and keys\<close>

definition register_wallet_storage ::
    "('p, 's) WalletService \<Rightarrow> string \<Rightarrow> ('p, 's) StorageType \<Rightarrow> unit outcome \<times> ('p, 's) WalletService" where
  "register_wallet_storage svc type plugged =
     (if hm_get (ws_storage_types svc) type \<noteq> None then (Err WalletStorageTypeAlreadyRegistered, svc)
      else (Ok (), svc\<lparr>ws_storage_types := hm_insert (ws_storage_types svc) type plugged\<rparr>))"

definition get_config_and_cred_for_storage ::
    "ServiceEnv \<Rightarrow> ('p, 's) WalletService \<Rightarrow> Config \<Rightarrow> Credentials \<Rightarrow>
     (('p, 's) StorageType \<times> string option \<times> string option) outcome" where
  "get_config_and_cred_for_storage env svc config credentials =
     (let storage_type = (case cf_storage_type config of Some t \<Rightarrow> t | None \<Rightarrow> ''default'')
      in and_then (ok_or UnknownWalletStorageType (hm_get (ws_storage_types svc) storage_type)) (\<lambda>ty.
           Ok (ty, map_option (sv_to_string env) (cf_storage_config config),
               map_option (sv_to_string env) (cr_storage_credentials credentials))))"

definition get_wallet_id :: "Config \<Rightarrow> string" where
  "get_wallet_id config =
     cf_id config @
     (case cf_storage_config config of
        None \<Rightarrow> []
      | Some sconfig \<Rightarrow> (case json_index sconfig ''path'' of Value_String path \<Rightarrow> path | _ \<Rightarrow> []))"

definition is_id_from_config_not_used :: "('p, 's) WalletService \<Rightarrow> Config \<Rightarrow> unit outcome" where
  "is_id_from_config_not_used svc config =
     (if get_wallet_id config \<in> ws_wallet_ids svc then Err WalletAlreadyOpened else Ok ())"

definition open_storage ::
    "ServiceEnv \<Rightarrow> ('p, 's) WalletService \<Rightarrow> Config \<Rightarrow> Credentials \<Rightarrow> ('p \<times> ('p, 's) StorageType) outcome" where
  "open_storage env svc config credentials =
     and_then (get_config_and_cred_for_storage env svc config credentials) (\<lambda>(ty, sconfig, screds).
     and_then (ty_open ty (ws_storages svc) (cf_id config) sconfig screds) (\<lambda>path.
       Ok (path, ty)))"

fun metadata_of :: "KeyDerivationData \<Rightarrow> bytes \<Rightarrow> WalletMetadata" where
  "metadata_of (KDD_Raw _) encrypted_keys = MetadataRaw encrypted_keys"
| "metadata_of (KDD_Argon2iInt _ salt) encrypted_keys = MetadataArgon encrypted_keys salt"
| "metadata_of (KDD_Argon2iMod _ salt) encrypted_keys = MetadataArgon encrypted_keys salt"

definition prepare_metadata :: "ServiceEnv \<Rightarrow> bytes \<Rightarrow> bytes \<Rightarrow> KeyDerivationData \<Rightarrow> Keys \<Rightarrow> bytes outcome" where
  "prepare_metadata env nonce master_key key_data keys =
     and_then (serialize_encrypted (sv_crypto env) nonce keys master_key) (\<lambda>encrypted_keys.
       ok_or InvalidState (sv_metadata_to_vec env (metadata_of key_data encrypted_keys)))"

definition restore_keys :: "ServiceEnv \<Rightarrow> WalletMetadata \<Rightarrow> bytes \<Rightarrow> Keys outcome" where
  "restore_keys env metadata master_key =
     (case deserialize_encrypted (sv_crypto env) (get_keys metadata) master_key of
        Err _ \<Rightarrow> Err WalletAccessFailed
      | r \<Rightarrow> r)"

text \<open>A read of the storage at a location.\<close>

definition stored_metadata :: "('p, 's) WalletService \<Rightarrow> ('p, 's) StorageType \<Rightarrow> 'p \<Rightarrow> bytes outcome" where
  "stored_metadata svc ty path =
     (case ws_storages svc path of None \<Rightarrow> Err IOError | Some s \<Rightarrow> st_get_storage_metadata (ty_ops ty) s)"

definition open_storage_and_fetch_metadata ::
    "ServiceEnv \<Rightarrow> ('p, 's) WalletService \<Rightarrow> Config \<Rightarrow> Credentials \<Rightarrow>
     (('p \<times> ('p, 's) StorageType) \<times> WalletMetadata \<times> KeyDerivationData) outcome" where
  "open_storage_and_fetch_metadata env svc config credentials =
     and_then (open_storage env svc config credentials) (\<lambda>(path, ty).
     and_then (stored_metadata svc ty path) (\<lambda>bytes.
     and_then (ok_or InvalidState (sv_metadata_from_slice env bytes)) (\<lambda>metadata.
     and_then (from_passphrase_and_metadata (cr_key credentials) metadata (cr_key_derivation_method credentials))
       (\<lambda>key_derivation_data. Ok ((path, ty), metadata, key_derivation_data)))))"

section \<open>Creating, deleting, opening and closing\<close>

text \<open>\<open>gen_key\<close> and \<open>nonce\<close> are the random values of the new keys and of their encryption.\<close>

definition create_wallet_keys ::
    "ServiceEnv \<Rightarrow> (nat \<Rightarrow> bytes) \<Rightarrow> bytes \<Rightarrow> ('p, 's) WalletService \<Rightarrow> Config \<Rightarrow> Credentials \<Rightarrow> KeyDerivationData \<Rightarrow> bytes \<Rightarrow>
     Keys outcome \<times> ('p, 's) WalletService" where
  "create_wallet_keys env gen_key nonce svc config credentials key_data master_key =
     (case get_config_and_cred_for_storage env svc config credentials of
        Err e \<Rightarrow> (Err e, svc)
      | Panic \<Rightarrow> (Panic, svc)
      | Ok (ty, sconfig, screds) \<Rightarrow>
          (let keys = keys_new gen_key
           in case prepare_metadata env nonce master_key key_data keys of
                Err e \<Rightarrow> (Err e, svc)
              | Panic \<Rightarrow> (Panic, svc)
              | Ok metadata \<Rightarrow>
                  (let (r, storages) = ty_create ty (ws_storages svc) (cf_id config) sconfig screds metadata
                   in (map_ok (\<lambda>_. keys) r, svc\<lparr>ws_storages := storages\<rparr>))))"

definition create_wallet ::
    "ServiceEnv \<Rightarrow> (nat \<Rightarrow> bytes) \<Rightarrow> bytes \<Rightarrow> ('p, 's) WalletService \<Rightarrow> Config \<Rightarrow> Credentials \<Rightarrow> KeyDerivationData \<Rightarrow> bytes \<Rightarrow>
     unit outcome \<times> ('p, 's) WalletService" where
  "create_wallet env gen_key nonce svc config credentials key_data master_key =
     (let (r, svc') = create_wallet_keys env gen_key nonce svc config credentials key_data master_key
      in (map_ok (\<lambda>_. ()) r, svc'))"

definition delete_wallet_prepare ::
    "ServiceEnv \<Rightarrow> ('p, 's) WalletService \<Rightarrow> Config \<Rightarrow> Credentials \<Rightarrow> (WalletMetadata \<times> KeyDerivationData) outcome" where
  "delete_wallet_prepare env svc config credentials =
     (if get_wallet_id config \<in> ws_wallet_ids svc then Err InvalidState
      else and_then (open_storage_and_fetch_metadata env svc config credentials) (\<lambda>(_, metadata, key_derivation_data).
             Ok (metadata, key_derivation_data)))"

definition delete_wallet_continue ::
    "ServiceEnv \<Rightarrow> ('p, 's) WalletService \<Rightarrow> Config \<Rightarrow> Credentials \<Rightarrow> WalletMetadata \<Rightarrow> bytes \<Rightarrow>
     unit outcome \<times> ('p, 's) WalletService" where
  "delete_wallet_continue env svc config credentials metadata master_key =
     (case and_then (restore_keys env metadata master_key) (\<lambda>_. get_config_and_cred_for_storage env svc config credentials) of
        Err e \<Rightarrow> (Err e, svc)
      | Panic \<Rightarrow> (Panic, svc)
      | Ok (ty, sconfig, screds) \<Rightarrow>
          (let (r, storages) = ty_delete ty (ws_storages svc) (cf_id config) sconfig screds
           in (r, svc\<lparr>ws_storages := storages\<rparr>)))"

text \<open>\<open>salt\<close> is the one drawn for the new key, if the wallet is to be rekeyed.\<close>

definition open_wallet_prepare ::
    "ServiceEnv \<Rightarrow> bytes \<Rightarrow> ('p, 's) WalletService \<Rightarrow> Config \<Rightarrow> Credentials \<Rightarrow>
     (int \<times> KeyDerivationData \<times> KeyDerivationData option) outcome \<times> ('p, 's) WalletService" where
  "open_wallet_prepare env salt svc config credentials =
     (case and_then (is_id_from_config_not_used svc config) (\<lambda>_. open_storage_and_fetch_metadata env svc config credentials) of
        Err e \<Rightarrow> (Err e, svc)
      | Panic \<Rightarrow> (Panic, svc)
      | Ok ((path, ty), metadata, key_derivation_data) \<Rightarrow>
          (let (wallet_handle, svc1) = next_handle svc;
               rekey_data = map_option (\<lambda>rekey. from_passphrase_with_new_salt salt rekey (cr_rekey_derivation_method credentials))
                 (cr_rekey credentials);
               pending = \<lparr>po_id = get_wallet_id config, po_path = path, po_type = ty, po_metadata = metadata, po_rekey_data = rekey_data\<rparr>
           in (Ok (wallet_handle, key_derivation_data, rekey_data),
               svc1\<lparr>ws_pending_for_open := hm_insert (ws_pending_for_open svc1) wallet_handle pending\<rparr>)))"

text \<open>The rotation of the master key: nothing is written unless there are a key and its derivation data.\<close>

definition rotate_master_key ::
    "ServiceEnv \<Rightarrow> bytes \<Rightarrow> ('p, 's) WalletService \<Rightarrow> ('p, 's) PendingOpen \<Rightarrow> bytes option \<Rightarrow> Keys \<Rightarrow>
     unit outcome \<times> ('p, 's) WalletService" where
  "rotate_master_key env nonce svc pending rekey keys =
     (case (rekey, po_rekey_data pending) of
        (Some rekey, Some rekey_data) \<Rightarrow>
          (case prepare_metadata env nonce rekey rekey_data keys of
             Err e \<Rightarrow> (Err e, svc)
           | Panic \<Rightarrow> (Panic, svc)
           | Ok metadata \<Rightarrow>
               (case ws_storages svc (po_path pending) of
                  None \<Rightarrow> (Err IOError, svc)
                | Some s \<Rightarrow>
                    (let (r, s') = st_set_storage_metadata (ty_ops (po_type pending)) s metadata
                     in (r, svc\<lparr>ws_storages := (ws_storages svc)(po_path pending \<mapsto> s')\<rparr>))))
      | _ \<Rightarrow> (Ok (), svc))"

definition open_wallet_continue ::
    "ServiceEnv \<Rightarrow> bytes \<Rightarrow> ('p, 's) WalletService \<Rightarrow> int \<Rightarrow> bytes \<Rightarrow> bytes option \<Rightarrow> int outcome \<times> ('p, 's) WalletService" where
  "open_wallet_continue env nonce svc wallet_handle master_key rekey =
     (case hm_get (ws_pending_for_open svc) wallet_handle of
        None \<Rightarrow> (Err InvalidState, svc)
      | Some pending \<Rightarrow>
          (let svc1 = svc\<lparr>ws_pending_for_open := hm_remove (ws_pending_for_open svc) wallet_handle\<rparr>
           in case restore_keys env (po_metadata pending) master_key of
                Err e \<Rightarrow> (Err e, svc1)
              | Panic \<Rightarrow> (Panic, svc1)
              | Ok keys \<Rightarrow>
                  (case rotate_master_key env nonce svc1 pending rekey keys of
                     (Err e, svc2) \<Rightarrow> (Err e, svc2)
                   | (Panic, svc2) \<Rightarrow> (Panic, svc2)
                   | (Ok _, svc2) \<Rightarrow>
                       (let wallet = \<lparr>ow_id = po_id pending, ow_path = po_path pending, ow_type = po_type pending, ow_keys = keys\<rparr>
                        in (Ok wallet_handle,
                            svc2\<lparr>ws_wallets := hm_insert (ws_wallets svc2) wallet_handle wallet,
                                 ws_wallet_ids := insert (po_id pending) (ws_wallet_ids svc2)\<rparr>)))))"

definition close_wallet :: "('p, 's) WalletService \<Rightarrow> int \<Rightarrow> unit outcome \<times> ('p, 's) WalletService" where
  "close_wallet svc handle =
     (case hm_get (ws_wallets svc) handle of
        Some wallet \<Rightarrow>
          (ty_close (ow_type wallet) (ow_path wallet), svc\<lparr>ws_wallets := hm_remove (ws_wallets svc) handle, ws_wallet_ids := ws_wallet_ids svc - {ow_id wallet}\<rparr>)
      | None \<Rightarrow> (Err InvalidWalletHandle, svc))"

section \<open>Records\<close>

text \<open>An operation on the wallet of a handle, with the wallet's storage as it is.\<close>

definition on_wallet ::
    "('p, 's) WalletService \<Rightarrow> int \<Rightarrow> ('s WalletStorage \<Rightarrow> 's Wallet \<Rightarrow> 'r outcome \<times> 's Wallet) \<Rightarrow>
     'r outcome \<times> ('p, 's) WalletService" where
  "on_wallet svc handle f =
     (case hm_get (ws_wallets svc) handle of
        None \<Rightarrow> (Err InvalidWalletHandle, svc)
      | Some ow \<Rightarrow>
          (case ws_storages svc (ow_path ow) of
             None \<Rightarrow> (Err IOError, svc)
           | Some s \<Rightarrow>
               (let (r, w) = f (ty_ops (ow_type ow)) \<lparr>w_id = ow_id ow, w_storage = s, w_keys = ow_keys ow\<rparr>
                in (r, svc\<lparr>ws_storages := (ws_storages svc)(ow_path ow \<mapsto> w_storage w)\<rparr>))))"

definition of_wallet ::
    "('p, 's) WalletService \<Rightarrow> int \<Rightarrow> ('s WalletStorage \<Rightarrow> 's Wallet \<Rightarrow> 'r outcome) \<Rightarrow> 'r outcome" where
  "of_wallet svc handle f = fst (on_wallet svc handle (\<lambda>ops w. (f ops w, w)))"

type_synonym random = "bytes \<times> bytes \<times> bytes"

definition add_record ::
    "ServiceEnv \<Rightarrow> random \<Rightarrow> ('p, 's) WalletService \<Rightarrow> int \<Rightarrow> string \<Rightarrow> string \<Rightarrow> string \<Rightarrow> Tags \<Rightarrow>
     unit outcome \<times> ('p, 's) WalletService" where
  "add_record env rnd svc handle type name v tags =
     on_wallet svc handle (\<lambda>ops w. wallet_add ops (sv_crypto env) rnd w type name v tags)"

definition update_record_value ::
    "ServiceEnv \<Rightarrow> random \<Rightarrow> ('p, 's) WalletService \<Rightarrow> int \<Rightarrow> string \<Rightarrow> string \<Rightarrow> string \<Rightarrow>
     unit outcome \<times> ('p, 's) WalletService" where
  "update_record_value env rnd svc handle type name v =
     on_wallet svc handle (\<lambda>ops w. wallet_update ops (sv_crypto env) rnd w type name v)"

definition add_record_tags ::
    "ServiceEnv \<Rightarrow> ('p, 's) WalletService \<Rightarrow> int \<Rightarrow> string \<Rightarrow> string \<Rightarrow> Tags \<Rightarrow> unit outcome \<times> ('p, 's) WalletService" where
  "add_record_tags env svc handle type name tags =
     on_wallet svc handle (\<lambda>ops w. wallet_add_tags ops (sv_crypto env) w type name tags)"

definition update_record_tags ::
    "ServiceEnv \<Rightarrow> ('p, 's) WalletService \<Rightarrow> int \<Rightarrow> string \<Rightarrow> string \<Rightarrow> Tags \<Rightarrow> unit outcome \<times> ('p, 's) WalletService" where
  "update_record_tags env svc handle type name tags =
     on_wallet svc handle (\<lambda>ops w. wallet_update_tags ops (sv_crypto env) w type name tags)"

definition delete_record_tags ::
    "ServiceEnv \<Rightarrow> ('p, 's) WalletService \<Rightarrow> int \<Rightarrow> string \<Rightarrow> string \<Rightarrow> string list \<Rightarrow> unit outcome \<times> ('p, 's) WalletService" where
  "delete_record_tags env svc handle type name tag_names =
     on_wallet svc handle (\<lambda>ops w. wallet_delete_tags ops (sv_crypto env) w type name tag_names)"

definition delete_record ::
    "ServiceEnv \<Rightarrow> ('p, 's) WalletService \<Rightarrow> int \<Rightarrow> string \<Rightarrow> string \<Rightarrow> unit outcome \<times> ('p, 's) WalletService" where
  "delete_record env svc handle type name =
     on_wallet svc handle (\<lambda>ops w. wallet_delete ops (sv_crypto env) w type name)"

definition get_record ::
    "ServiceEnv \<Rightarrow> ('p, 's) WalletService \<Rightarrow> int \<Rightarrow> string \<Rightarrow> string \<Rightarrow> string \<Rightarrow> WalletRecord outcome" where
  "get_record env svc handle type name options_json =
     of_wallet svc handle (\<lambda>ops w. wallet_get ops (sv_crypto env) w type name options_json)"

definition search_records ::
    "ServiceEnv \<Rightarrow> ('p, 's) WalletService \<Rightarrow> int \<Rightarrow> string \<Rightarrow> string \<Rightarrow> string \<Rightarrow> WalletIterator outcome" where
  "search_records env svc handle type query_json options_json =
     of_wallet svc handle (\<lambda>ops w. wallet_search ops (sv_crypto env) (sv_from_str env) w type query_json (Some options_json))"

definition check_handle :: "('p, 's) WalletService \<Rightarrow> int \<Rightarrow> unit outcome" where
  "check_handle svc handle = (if hm_get (ws_wallets svc) handle = None then Err InvalidWalletHandle else Ok ())"

section \<open>Objects of the library\<close>

text \<open>
  The operations for values of a Rust type \<open>T\<close> take the short name of the type and the JSON text of the
  object, which serde may fail to produce.
\<close>

definition add_prefix :: "string \<Rightarrow> string" where
  "add_prefix type = ''Indy::'' @ type"

definition RECORD_OPTIONS_ID :: string where
  "RECORD_OPTIONS_ID = ''{\"retrieveType\":false,\"retrieveValue\":false,\"retrieveTags\":false}''"

definition add_indy_record ::
    "ServiceEnv \<Rightarrow> random \<Rightarrow> ('p, 's) WalletService \<Rightarrow> int \<Rightarrow> string \<Rightarrow> string \<Rightarrow> string \<Rightarrow> Tags \<Rightarrow>
     unit outcome \<times> ('p, 's) WalletService" where
  "add_indy_record env rnd svc handle type name v tags = add_record env rnd svc handle (add_prefix type) name v tags"

definition delete_indy_record ::
    "ServiceEnv \<Rightarrow> ('p, 's) WalletService \<Rightarrow> int \<Rightarrow> string \<Rightarrow> string \<Rightarrow> unit outcome \<times> ('p, 's) WalletService" where
  "delete_indy_record env svc handle type name = delete_record env svc handle (add_prefix type) name"

definition get_indy_record ::
    "ServiceEnv \<Rightarrow> ('p, 's) WalletService \<Rightarrow> int \<Rightarrow> string \<Rightarrow> string \<Rightarrow> string \<Rightarrow> WalletRecord outcome" where
  "get_indy_record env svc handle type name options_json = get_record env svc handle (add_prefix type) name options_json"

definition search_indy_records ::
    "ServiceEnv \<Rightarrow> ('p, 's) WalletService \<Rightarrow> int \<Rightarrow> string \<Rightarrow> string \<Rightarrow> string \<Rightarrow> WalletIterator outcome" where
  "search_indy_records env svc handle type query_json options_json =
     search_records env svc handle (add_prefix type) query_json options_json"

definition add_indy_object ::
    "ServiceEnv \<Rightarrow> random \<Rightarrow> ('p, 's) WalletService \<Rightarrow> int \<Rightarrow> string \<Rightarrow> string \<Rightarrow> string option \<Rightarrow> Tags \<Rightarrow>
     string outcome \<times> ('p, 's) WalletService" where
  "add_indy_object env rnd svc handle type name obj tags =
     (case obj of
        None \<Rightarrow> (Err InvalidState, svc)
      | Some object_json \<Rightarrow>
          (let (r, svc') = add_indy_record env rnd svc handle type name object_json tags
           in (map_ok (\<lambda>_. object_json) r, svc')))"

definition update_indy_object ::
    "ServiceEnv \<Rightarrow> random \<Rightarrow> ('p, 's) WalletService \<Rightarrow> int \<Rightarrow> string \<Rightarrow> string \<Rightarrow> string option \<Rightarrow>
     string outcome \<times> ('p, 's) WalletService" where
  "update_indy_object env rnd svc handle type name obj =
     (case (hm_get (ws_wallets svc) handle, obj) of
        (None, _) \<Rightarrow> (Err InvalidWalletHandle, svc)
      | (Some _, None) \<Rightarrow> (Err InvalidState, svc)
      | (Some _, Some object_json) \<Rightarrow>
          (let (r, svc') = on_wallet svc handle (\<lambda>ops w. wallet_update ops (sv_crypto env) rnd w (add_prefix type) name object_json)
           in (map_ok (\<lambda>_. object_json) r, svc')))"

definition get_indy_record_value ::
    "ServiceEnv \<Rightarrow> ('p, 's) WalletService \<Rightarrow> int \<Rightarrow> string \<Rightarrow> string \<Rightarrow> string \<Rightarrow> string outcome" where
  "get_indy_record_value env svc handle type name options_json =
     and_then (get_record env svc handle (add_prefix type) name options_json) (\<lambda>record.
       ok_or InvalidState (wr_value record))"

definition get_indy_object ::
    "ServiceEnv \<Rightarrow> (string \<Rightarrow> 'o option) \<Rightarrow> ('p, 's) WalletService \<Rightarrow> int \<Rightarrow> string \<Rightarrow> string \<Rightarrow> string \<Rightarrow> 'o outcome" where
  "get_indy_object env from_str svc handle type name options_json =
     and_then (get_indy_record_value env svc handle type name options_json) (\<lambda>record_value.
       ok_or InvalidState (from_str record_value))"

definition get_indy_opt_object ::
    "ServiceEnv \<Rightarrow> (string \<Rightarrow> 'o option) \<Rightarrow> ('p, 's) WalletService \<Rightarrow> int \<Rightarrow> string \<Rightarrow> string \<Rightarrow> string \<Rightarrow> 'o option outcome" where
  "get_indy_opt_object env from_str svc handle type name options_json =
     (case get_indy_object env from_str svc handle type name options_json of
        Ok res \<Rightarrow> Ok (Some res)
      | Err e \<Rightarrow> if e = WalletItemNotFound then Ok None else Err e
      | Panic \<Rightarrow> Panic)"

definition record_exists :: "ServiceEnv \<Rightarrow> ('p, 's) WalletService \<Rightarrow> int \<Rightarrow> string \<Rightarrow> string \<Rightarrow> bool outcome" where
  "record_exists env svc handle type name =
     (case get_record env svc handle (add_prefix type) name RECORD_OPTIONS_ID of
        Ok _ \<Rightarrow> Ok True
      | Err e \<Rightarrow> if e = WalletItemNotFound then Ok False else Err e
      | Panic \<Rightarrow> Panic)"

definition upsert_indy_object ::
    "ServiceEnv \<Rightarrow> random \<Rightarrow> ('p, 's) WalletService \<Rightarrow> int \<Rightarrow> string \<Rightarrow> string \<Rightarrow> string option \<Rightarrow>
     string outcome \<times> ('p, 's) WalletService" where
  "upsert_indy_object env rnd svc handle type name obj =
     (case record_exists env svc handle type name of
        Err e \<Rightarrow> (Err e, svc)
      | Panic \<Rightarrow> (Panic, svc)
      | Ok True \<Rightarrow> update_indy_object env rnd svc handle type name obj
      | Ok False \<Rightarrow> add_indy_object env rnd svc handle type name obj [])"

section \<open>Export and import\<close>

definition export_wallet ::
    "ServiceEnv \<Rightarrow> bytes \<Rightarrow> nat \<Rightarrow> ('p, 's) WalletService \<Rightarrow> int \<Rightarrow> ExportConfig \<Rightarrow> nat \<Rightarrow> KeyDerivationData \<Rightarrow> bytes \<Rightarrow>
     (unit outcome \<times> ('p, 's) WalletService) option" where
  "export_wallet env nonce time svc handle export_config version key_data key =
     (if version \<noteq> 0 then Some (Err InvalidState, svc)
      else
        (case hm_get (ws_wallets svc) handle of
           None \<Rightarrow> Some (Err InvalidWalletHandle, svc)
         | Some ow \<Rightarrow>
             if ws_exports svc (ec_path export_config) \<noteq> None then Some (Err IOError, svc)
             else
               (case ws_storages svc (ow_path ow) of
                  None \<Rightarrow> Some (Err IOError, svc\<lparr>ws_exports := (ws_exports svc)(ec_path export_config \<mapsto> [])\<rparr>)
                | Some s \<Rightarrow>
                    map_option (\<lambda>(r, bytes). (r, svc\<lparr>ws_exports := (ws_exports svc)(ec_path export_config \<mapsto> bytes)\<rparr>))
                      (export_continue (ty_ops (ow_type ow)) (sv_crypto env) (sv_codec env) nonce time
                        \<lparr>w_id = ow_id ow, w_storage = s, w_keys = ow_keys ow\<rparr> version key key_data))))"

definition import_wallet_prepare ::
    "ServiceEnv \<Rightarrow> bytes \<Rightarrow> ('p, 's) WalletService \<Rightarrow> Credentials \<Rightarrow> ExportConfig \<Rightarrow>
     (int \<times> KeyDerivationData \<times> KeyDerivationData) outcome \<times> ('p, 's) WalletService" where
  "import_wallet_prepare env salt svc credentials export_config =
     (case and_then (ok_or IOError (ws_exports svc (ec_path export_config))) (\<lambda>bytes.
             preparse_file_to_import (sv_codec env) bytes (ec_key export_config)) of
        Err e \<Rightarrow> (Err e, svc)
      | Panic \<Rightarrow> (Panic, svc)
      | Ok (reader, import_key_derivation_data, nonce, chunk_size, header_bytes) \<Rightarrow>
          (let key_data = from_passphrase_with_new_salt salt (cr_key credentials) (cr_key_derivation_method credentials);
               (wallet_handle, svc1) = next_handle svc;
               pending = \<lparr>pi_reader = reader, pi_nonce = nonce, pi_chunk_size = chunk_size, pi_header_bytes = header_bytes,
                          pi_key_data = key_data\<rparr>
           in (Ok (wallet_handle, key_data, import_key_derivation_data),
               svc1\<lparr>ws_pending_for_import := hm_insert (ws_pending_for_import svc1) wallet_handle pending\<rparr>)))"

text \<open>The import into the storage that was just created; a failed one deletes it again.\<close>

definition keep_or_delete ::
    "ServiceEnv \<Rightarrow> Config \<Rightarrow> Credentials \<Rightarrow> bytes \<Rightarrow> bytes \<Rightarrow> unit outcome \<Rightarrow> ('p, 's) WalletService \<Rightarrow>
     unit outcome \<times> ('p, 's) WalletService" where
  "keep_or_delete env config credentials master_key metadata_bytes res svc =
     (case res of
        Err e \<Rightarrow>
          (case sv_metadata_from_slice env metadata_bytes of
             None \<Rightarrow> (Err InvalidState, svc)
           | Some metadata \<Rightarrow>
               (let (r, svc') = delete_wallet_continue env svc config credentials metadata master_key
                in (and_then r (\<lambda>_. Err e), svc')))
      | _ \<Rightarrow> (res, svc))"

definition import_records ::
    "ServiceEnv \<Rightarrow> (nat \<Rightarrow> random) \<Rightarrow> ('p, 's) WalletService \<Rightarrow> Config \<Rightarrow> Credentials \<Rightarrow> PendingImport \<Rightarrow> bytes \<Rightarrow> bytes \<Rightarrow>
     'p \<Rightarrow> ('p, 's) StorageType \<Rightarrow> 's \<Rightarrow> Keys \<Rightarrow> bytes \<Rightarrow> (unit outcome \<times> ('p, 's) WalletService) option" where
  "import_records env rnds svc config credentials pending import_key master_key path ty s keys metadata_bytes =
     map_option (\<lambda>(res, w).
         keep_or_delete env config credentials master_key metadata_bytes res
           (svc\<lparr>ws_storages := (ws_storages svc)(path \<mapsto> w_storage w)\<rparr>))
       (finish_import (ty_ops ty) (sv_crypto env) (sv_codec env) (sv_checks env) rnds
          \<lparr>w_id = get_wallet_id config, w_storage = s, w_keys = keys\<rparr> (pi_reader pending) import_key (pi_nonce pending)
          (pi_chunk_size pending) (pi_header_bytes pending))"

definition import_wallet_continue ::
    "ServiceEnv \<Rightarrow> (nat \<Rightarrow> bytes) \<Rightarrow> bytes \<Rightarrow> (nat \<Rightarrow> random) \<Rightarrow> ('p, 's) WalletService \<Rightarrow> int \<Rightarrow> Config \<Rightarrow> Credentials \<Rightarrow>
     bytes \<Rightarrow> bytes \<Rightarrow> (unit outcome \<times> ('p, 's) WalletService) option" where
  "import_wallet_continue env gen_key nonce rnds svc handle config credentials import_key master_key =
     (case hm_get (ws_pending_for_import svc) handle of
        None \<Rightarrow> Some (Panic, svc)
      | Some pending \<Rightarrow>
          (let svc0 = svc\<lparr>ws_pending_for_import := hm_remove (ws_pending_for_import svc) handle\<rparr>
           in case create_wallet_keys env gen_key nonce svc0 config credentials (pi_key_data pending) master_key of
                (Err e, svc1) \<Rightarrow> Some (Err e, svc1)
              | (Panic, svc1) \<Rightarrow> Some (Panic, svc1)
              | (Ok keys, svc1) \<Rightarrow>
                  (case and_then (is_id_from_config_not_used svc1 config) (\<lambda>_.
                        and_then (open_storage env svc1 config credentials) (\<lambda>(path, ty).
                        and_then (ok_or IOError (ws_storages svc1 path)) (\<lambda>s.
                        and_then (st_get_storage_metadata (ty_ops ty) s) (\<lambda>metadata. Ok (path, ty, s, metadata))))) of
                     Err e \<Rightarrow> Some (Err e, svc1)
                   | Panic \<Rightarrow> Some (Panic, svc1)
                   | Ok (path, ty, s, metadata) \<Rightarrow>
                       import_records env rnds svc1 config credentials pending import_key master_key path ty s keys metadata)))"

section \<open>Handles and locked ids\<close>

text \<open>Every change of the service, in any order; another component may draw an id at any time.\<close>

inductive service_step :: "ServiceEnv \<Rightarrow> ('p, 's) WalletService \<Rightarrow> ('p, 's) WalletService \<Rightarrow> bool" for env where
  step_id: "service_step env svc (snd (next_handle svc))"
| step_register: "service_step env svc (snd (register_wallet_storage svc type plugged))"
| step_create: "service_step env svc (snd (create_wallet env gen_key nonce svc config credentials key_data master_key))"
| step_delete: "service_step env svc (snd (delete_wallet_continue env svc config credentials metadata master_key))"
| step_open_prepare: "service_step env svc (snd (open_wallet_prepare env salt svc config credentials))"
| step_open_continue: "service_step env svc (snd (open_wallet_continue env nonce svc handle master_key rekey))"
| step_close: "service_step env svc (snd (close_wallet svc handle))"
| step_add: "service_step env svc (snd (add_record env rnd svc handle type name v tags))"
| step_update: "service_step env svc (snd (update_record_value env rnd svc handle type name v))"
| step_add_tags: "service_step env svc (snd (add_record_tags env svc handle type name tags))"
| step_update_tags: "service_step env svc (snd (update_record_tags env svc handle type name tags))"
| step_delete_tags: "service_step env svc (snd (delete_record_tags env svc handle type name tag_names))"
| step_delete_record: "service_step env svc (snd (delete_record env svc handle type name))"
| step_add_object: "service_step env svc (snd (add_indy_object env rnd svc handle type name obj tags))"
| step_update_object: "service_step env svc (snd (update_indy_object env rnd svc handle type name obj))"
| step_upsert_object: "service_step env svc (snd (upsert_indy_object env rnd svc handle type name obj))"
| step_export: "export_wallet env nonce time svc handle export_config version key_data key = Some (r, svc') \<Longrightarrow>
    service_step env svc svc'"
| step_import_prepare: "service_step env svc (snd (import_wallet_prepare env salt svc credentials export_config))"
| step_import_continue:
    "import_wallet_continue env gen_key nonce rnds svc handle config credentials import_key master_key = Some (r, svc') \<Longrightarrow>
    service_step env svc svc'"

definition handles :: "('p, 's) WalletService \<Rightarrow> int list" where
  "handles svc = map fst (ws_wallets svc) @ map fst (ws_pending_for_open svc) @ map fst (ws_pending_for_import svc)"

definition open_ids :: "('p, 's) WalletService \<Rightarrow> string list" where
  "open_ids svc = map (ow_id \<circ> snd) (ws_wallets svc)"

definition pending_ids :: "('p, 's) WalletService \<Rightarrow> string list" where
  "pending_ids svc = map (po_id \<circ> snd) (ws_pending_for_open svc)"

definition drawn :: "nat \<Rightarrow> int \<Rightarrow> bool" where
  "drawn n h \<longleftrightarrow> 2 \<le> h \<and> h \<le> int n"

lemma drawn_Suc: "drawn n h \<Longrightarrow> drawn (Suc n) h"
  by (simp add: drawn_def)

definition service_inv :: "('p, 's) WalletService \<Rightarrow> bool" where
  "service_inv svc \<longleftrightarrow>
     distinct (handles svc) \<and> (\<forall>h \<in> set (handles svc). drawn (ws_ids_counter svc) h) \<and>
     1 \<le> ws_ids_counter svc \<and> ws_wallet_ids svc \<subseteq> set (open_ids svc)"

text \<open>Steps that leave the handles and the locked ids alone.\<close>

definition same_handles :: "('p, 's) WalletService \<Rightarrow> ('p, 's) WalletService \<Rightarrow> bool" where
  "same_handles svc svc' \<longleftrightarrow>
     ws_wallets svc' = ws_wallets svc \<and> ws_wallet_ids svc' = ws_wallet_ids svc \<and>
     ws_pending_for_open svc' = ws_pending_for_open svc \<and> ws_pending_for_import svc' = ws_pending_for_import svc \<and>
     ws_ids_counter svc' = ws_ids_counter svc"

named_theorems frame

lemma same_handles_refl [frame]: "same_handles svc svc"
  by (simp add: same_handles_def)

lemma same_handles_trans: "same_handles svc svc' \<Longrightarrow> same_handles svc' svc'' \<Longrightarrow> same_handles svc svc''"
  by (simp add: same_handles_def)

lemma same_handles_upd [frame]:
  "same_handles svc (svc\<lparr>ws_storages := x\<rparr>)" "same_handles svc (svc\<lparr>ws_exports := y\<rparr>)"
  "same_handles svc (svc\<lparr>ws_storage_types := z\<rparr>)"
  by (simp_all add: same_handles_def)

lemma on_wallet_same [frame]: "same_handles svc (snd (on_wallet svc handle f))"
  by (simp add: on_wallet_def Let_def frame split: option.split prod.split)

lemma record_operations_same [frame]:
  "same_handles svc (snd (add_record env rnd svc handle type name v tags))"
  "same_handles svc (snd (update_record_value env rnd svc handle type name v))"
  "same_handles svc (snd (add_record_tags env svc handle type name tags))"
  "same_handles svc (snd (update_record_tags env svc handle type name tags))"
  "same_handles svc (snd (delete_record_tags env svc handle type name tag_names))"
  "same_handles svc (snd (delete_record env svc handle type name))"
  by (simp_all add: add_record_def update_record_value_def add_record_tags_def update_record_tags_def delete_record_tags_def
      delete_record_def frame)

lemma add_object_same [frame]: "same_handles svc (snd (add_indy_object env rnd svc handle type name obj tags))"
  by (simp add: add_indy_object_def add_indy_record_def frame split: option.split prod.split)
    (metis record_operations_same(1) snd_conv)

lemma update_object_same [frame]: "same_handles svc (snd (update_indy_object env rnd svc handle type name obj))"
  by (simp add: update_indy_object_def frame split: option.split prod.split)
    (metis on_wallet_same snd_conv)

lemma upsert_object_same [frame]: "same_handles svc (snd (upsert_indy_object env rnd svc handle type name obj))"
  by (simp add: upsert_indy_object_def frame split: outcome.split bool.split)

lemma storage_operations_same [frame]:
  "same_handles svc (snd (register_wallet_storage svc type plugged))"
  "same_handles svc (snd (create_wallet_keys env gen_key nonce svc config credentials key_data master_key))"
  "same_handles svc (snd (delete_wallet_continue env svc config credentials metadata master_key))"
  by (simp_all add: register_wallet_storage_def create_wallet_keys_def delete_wallet_continue_def Let_def frame split: outcome.split prod.split)

lemma create_wallet_same [frame]: "same_handles svc (snd (create_wallet env gen_key nonce svc config credentials key_data master_key))"
  by (simp add: create_wallet_def split: prod.split) (metis storage_operations_same(2) snd_conv)

lemma export_wallet_same:
  "export_wallet env nonce time svc handle export_config version key_data key = Some (r, svc') \<Longrightarrow> same_handles svc svc'"
  by (auto simp: export_wallet_def frame split: if_splits option.splits)

lemma keep_or_delete_same [frame]: "same_handles svc (snd (keep_or_delete env config credentials master_key metadata_bytes res svc))"
  by (simp add: keep_or_delete_def frame split: outcome.split option.split prod.split) (metis storage_operations_same(3) snd_conv)

lemma import_records_same:
  "import_records env rnds svc config credentials pending import_key master_key path ty s keys metadata_bytes = Some (r, svc') \<Longrightarrow>
   same_handles svc svc'"
  unfolding import_records_def
  by (auto split: prod.splits) (metis keep_or_delete_same same_handles_trans same_handles_upd(1) snd_conv)

lemma import_continue_same:
  assumes "import_wallet_continue env gen_key nonce rnds svc handle config credentials import_key master_key = Some (r, svc')"
  shows "svc' = svc \<and> hm_get (ws_pending_for_import svc) handle = None \<or>
    same_handles (svc\<lparr>ws_pending_for_import := hm_remove (ws_pending_for_import svc) handle\<rparr>) svc'"
proof (cases "hm_get (ws_pending_for_import svc) handle")
  case (Some pending)
  let ?svc = "svc\<lparr>ws_pending_for_import := hm_remove (ws_pending_for_import svc) handle\<rparr>"
  obtain r1 svc1 where c: "create_wallet_keys env gen_key nonce ?svc config credentials (pi_key_data pending) master_key = (r1, svc1)"
    by fastforce
  then have "same_handles ?svc svc1" using storage_operations_same(2) by (metis snd_conv)
  with assms Some c show ?thesis
    unfolding import_wallet_continue_def Let_def
    by (auto split: outcome.splits prod.splits dest!: import_records_same intro: same_handles_trans)
qed (use assms in \<open>simp add: import_wallet_continue_def\<close>)

lemma rotate_master_key_same [frame]: "same_handles svc (snd (rotate_master_key env nonce svc pending rekey keys))"
  by (simp add: rotate_master_key_def Let_def frame split: outcome.split prod.split option.split)

lemma same_handles_inv: "same_handles svc svc' \<Longrightarrow> service_inv svc' = service_inv svc"
  by (simp add: same_handles_def service_inv_def handles_def open_ids_def)

lemma set_hm_remove: "x \<in> set (hm_remove m k) \<Longrightarrow> x \<in> set m"
  by (induction m k rule: hm_remove.induct) (auto split: if_splits)

lemma distinct_hm_remove: "distinct (xs @ map f m @ ys) \<Longrightarrow> distinct (xs @ map f (hm_remove m k) @ ys)"
proof (induction m k arbitrary: xs rule: hm_remove.induct)
  case (2 k' v' m k)
  show ?case
  proof (cases "k' = k")
    case False
    have "distinct ((xs @ [f (k', v')]) @ map f (hm_remove m k) @ ys)" using 2 False by (intro "2.IH") simp_all
    with False show ?thesis by simp
  qed (use 2 in simp)
qed simp

lemma hm_remove_absent: "hm_get m k = Some v \<Longrightarrow> distinct (map fst m) \<Longrightarrow> set (hm_remove m k) = set m - {(k, v)}"
  by (induction m k rule: hm_remove.induct) (auto split: if_splits simp: rev_image_eqI)

lemma next_handle_small:
  assumes "ws_ids_counter svc + 1 < 2 ^ 31"
  shows "next_handle svc = (int (ws_ids_counter svc + 1), svc\<lparr>ws_ids_counter := ws_ids_counter svc + 1\<rparr>)"
proof -
  have "sint (of_nat n :: 32 word) = int n" if "n < 2 ^ 31" for n
    using that by (simp add: signed_of_nat signed_take_bit_int_eq_self)
  with assms show ?thesis unfolding next_handle_def by blast
qed

lemma rotate_master_key_storages: "\<exists>st. snd (rotate_master_key env nonce svc pending rekey keys) = svc\<lparr>ws_storages := st\<rparr>"
proof -
  have "\<exists>st. svc = svc\<lparr>ws_storages := st\<rparr>" by (rule exI [of _ "ws_storages svc"]) simp
  then show ?thesis by (auto simp: rotate_master_key_def Let_def split: outcome.split prod.split option.split)
qed

text \<open>What a step can do to the handles.\<close>

lemma open_continue_cases:
  obtains "snd (open_wallet_continue env nonce svc handle master_key rekey) = svc"
  | pending where "hm_get (ws_pending_for_open svc) handle = Some pending"
      "same_handles (svc\<lparr>ws_pending_for_open := hm_remove (ws_pending_for_open svc) handle\<rparr>)
        (snd (open_wallet_continue env nonce svc handle master_key rekey))"
  | pending keys storages where "hm_get (ws_pending_for_open svc) handle = Some pending"
      "snd (open_wallet_continue env nonce svc handle master_key rekey) =
        svc\<lparr>ws_pending_for_open := hm_remove (ws_pending_for_open svc) handle,
            ws_wallets := hm_insert (ws_wallets svc) handle
              \<lparr>ow_id = po_id pending, ow_path = po_path pending, ow_type = po_type pending, ow_keys = keys\<rparr>,
            ws_wallet_ids := insert (po_id pending) (ws_wallet_ids svc), ws_storages := storages\<rparr>"
proof (cases "hm_get (ws_pending_for_open svc) handle")
  case None
  then show ?thesis using that(1) by (simp add: open_wallet_continue_def)
next
  case (Some pending)
  let ?svc = "svc\<lparr>ws_pending_for_open := hm_remove (ws_pending_for_open svc) handle\<rparr>"
  show ?thesis
  proof (cases "restore_keys env (po_metadata pending) master_key")
    case (Ok keys)
    obtain r svc2 where rot: "rotate_master_key env nonce ?svc pending rekey keys = (r, svc2)" by fastforce
    then have same: "same_handles ?svc svc2" using rotate_master_key_same by (metis snd_conv)
    obtain st where st: "svc2 = ?svc\<lparr>ws_storages := st\<rparr>"
      using rotate_master_key_storages [of env nonce ?svc pending rekey keys] rot by auto
    show ?thesis
    proof (cases r)
      case (Ok u)
      show ?thesis
        by (rule that(3) [OF Some, where keys = keys and storages = st])
          (simp add: open_wallet_continue_def Let_def Some \<open>restore_keys _ _ _ = Ok keys\<close> rot Ok, simp add: st)
    qed (use that(2) [OF Some] Some Ok rot same in \<open>simp_all add: open_wallet_continue_def Let_def\<close>)
  qed (use that(2) [OF Some] Some in \<open>simp_all add: open_wallet_continue_def Let_def frame\<close>)
qed

text \<open>Every step is a change without effect on the handles, a new handle, a removal or a finished opening.\<close>

lemma service_step_cases:
  assumes "service_step env svc svc'"
  obtains (same) "same_handles svc svc'"
  | (new_id) "svc' = snd (next_handle svc)"
  | (prepared) svc1 pending where
      "po_id pending \<notin> ws_wallet_ids svc" "svc1 = snd (next_handle svc)"
      "svc' = svc1\<lparr>ws_pending_for_open := hm_insert (ws_pending_for_open svc) (fst (next_handle svc)) pending\<rparr>"
  | (opened) handle nonce master_key rekey where "svc' = snd (open_wallet_continue env nonce svc handle master_key rekey)"
  | (closed) handle wallet where "hm_get (ws_wallets svc) handle = Some wallet"
      "svc' = svc\<lparr>ws_wallets := hm_remove (ws_wallets svc) handle, ws_wallet_ids := ws_wallet_ids svc - {ow_id wallet}\<rparr>"
  | (import_prepared) pending svc1 where "svc1 = snd (next_handle svc)"
      "svc' = svc1\<lparr>ws_pending_for_import := hm_insert (ws_pending_for_import svc) (fst (next_handle svc)) pending\<rparr>"
  | (imported) handle where
      "same_handles (svc\<lparr>ws_pending_for_import := hm_remove (ws_pending_for_import svc) handle\<rparr>) svc'"
  using assms
proof cases
  case (step_open_prepare salt config credentials)
  show ?thesis
  proof (cases "and_then (is_id_from_config_not_used svc config) (\<lambda>_. open_storage_and_fetch_metadata env svc config credentials)")
    case (Ok x)
    obtain path ty metadata kdd where x: "x = ((path, ty), metadata, kdd)" by (cases x) auto
    let ?rekey = "map_option (\<lambda>rekey. from_passphrase_with_new_salt salt rekey (cr_rekey_derivation_method credentials)) (cr_rekey credentials)"
    let ?pending = "\<lparr>po_id = get_wallet_id config, po_path = path, po_type = ty, po_metadata = metadata, po_rekey_data = ?rekey\<rparr>"
    show ?thesis
      by (rule prepared [of ?pending "snd (next_handle svc)"])
        (use Ok x step_open_prepare in \<open>auto simp: open_wallet_prepare_def next_handle_def Let_def is_id_from_config_not_used_def split: if_splits\<close>)
  qed (use same step_open_prepare in \<open>simp_all add: open_wallet_prepare_def frame\<close>)
next
  case (step_close handle)
  show ?thesis
  proof (cases "hm_get (ws_wallets svc) handle")
    case (Some wallet)
    then show ?thesis using closed [OF Some] step_close by (simp add: close_wallet_def)
  qed (use same step_close in \<open>simp add: close_wallet_def frame\<close>)
next
  case (step_import_prepare salt credentials export_config)
  show ?thesis
  proof (cases "and_then (ok_or IOError (ws_exports svc (ec_path export_config))) (\<lambda>bytes.
             preparse_file_to_import (sv_codec env) bytes (ec_key export_config))")
    case (Ok x)
    obtain reader kdd nonce cs hb where x: "x = (reader, kdd, nonce, cs, hb)" by (cases x) auto
    let ?pending = "\<lparr>pi_reader = reader, pi_nonce = nonce, pi_chunk_size = cs, pi_header_bytes = hb,
                     pi_key_data = from_passphrase_with_new_salt salt (cr_key credentials) (cr_key_derivation_method credentials)\<rparr>"
    show ?thesis
      by (rule import_prepared [of "snd (next_handle svc)" ?pending])
        (use Ok x step_import_prepare in \<open>auto simp: import_wallet_prepare_def next_handle_def Let_def\<close>)
  qed (use same step_import_prepare in \<open>simp_all add: import_wallet_prepare_def frame\<close>)
next
  case (step_import_continue gen_key nonce rnds handle config credentials import_key master_key r)
  from import_continue_same [OF step_import_continue] show ?thesis using same imported by (auto simp: frame)
next
  case (step_export nonce time handle export_config version key_data key r)
  then show ?thesis using same export_wallet_same by blast
next
  case step_id
  then show ?thesis by (rule new_id)
next
  case step_open_continue
  then show ?thesis by (rule opened)
qed (use same in \<open>simp_all add: frame\<close>)

lemma open_continue_counter: "ws_ids_counter (snd (open_wallet_continue env nonce svc handle master_key rekey)) = ws_ids_counter svc"
  by (rule open_continue_cases [of env nonce svc handle master_key rekey]) (simp_all add: same_handles_def)

lemma service_step_counter: "service_step env svc svc' \<Longrightarrow> ws_ids_counter svc \<le> ws_ids_counter svc'"
  by (erule service_step_cases) (auto simp: same_handles_def next_handle_def open_continue_counter)

lemma service_inv_fresh:
  assumes "service_inv svc" and "ws_ids_counter svc + 1 < 2 ^ 31"
  shows "fst (next_handle svc) \<notin> set (handles svc)" "fst (next_handle svc) = int (ws_ids_counter svc + 1)"
  using assms by (auto simp: next_handle_small service_inv_def drawn_def)

lemma drawn_new: "1 \<le> n \<Longrightarrow> drawn (Suc n) (1 + int n)"
  by (simp add: drawn_def)

lemma service_inv_fewer:
  assumes "service_inv svc" and "distinct (handles svc')" and "set (handles svc') \<subseteq> set (handles svc)"
    and "ws_ids_counter svc' = ws_ids_counter svc" and "ws_wallets svc' = ws_wallets svc" and "ws_wallet_ids svc' = ws_wallet_ids svc"
  shows "service_inv svc'"
  using assms unfolding service_inv_def open_ids_def by auto

lemma service_inv_removed:
  assumes "service_inv svc"
  shows "service_inv (svc\<lparr>ws_pending_for_import := hm_remove (ws_pending_for_import svc) handle\<rparr>)"
    "service_inv (svc\<lparr>ws_pending_for_open := hm_remove (ws_pending_for_open svc) handle\<rparr>)"
proof -
  note dist = distinct_hm_remove [where f = fst and k = handle]
  have d: "distinct (handles svc)" using assms by (simp add: service_inv_def)
  show "service_inv (svc\<lparr>ws_pending_for_import := hm_remove (ws_pending_for_import svc) handle\<rparr>)"
    by (rule service_inv_fewer [OF assms])
      (use d dist [of "map fst (ws_wallets svc) @ map fst (ws_pending_for_open svc)" "ws_pending_for_import svc" "[]"]
        in \<open>auto simp: handles_def dest: set_hm_remove intro: rev_image_eqI\<close>)
  show "service_inv (svc\<lparr>ws_pending_for_open := hm_remove (ws_pending_for_open svc) handle\<rparr>)"
    by (rule service_inv_fewer [OF assms])
      (use d dist [of "map fst (ws_wallets svc)" "ws_pending_for_open svc" "map fst (ws_pending_for_import svc)"]
        in \<open>auto simp: handles_def dest: set_hm_remove intro: rev_image_eqI\<close>)
qed

lemma service_inv_step:
  assumes "service_step env svc svc'" and "service_inv svc" and "ws_ids_counter svc' < 2 ^ 31"
  shows "service_inv svc'"
  using assms(1)
proof (cases rule: service_step_cases)
  case same
  then show ?thesis using same_handles_inv assms(2) by blast
next
  case new_id
  then show ?thesis using assms(2) by (auto simp: next_handle_def service_inv_def handles_def open_ids_def intro: drawn_Suc)
next
  case (prepared svc1 pending)
  then have small: "ws_ids_counter svc + 1 < 2 ^ 31" using assms(3) by (simp add: next_handle_def)
  note fresh = service_inv_fresh [OF assms(2) small]
  then have new: "hm_insert (ws_pending_for_open svc) (fst (next_handle svc)) pending =
      ws_pending_for_open svc @ [(fst (next_handle svc), pending)]"
    by (intro hm_insert_snoc) (auto simp: handles_def)
  show ?thesis using assms(2) fresh unfolding prepared new
    by (auto simp: service_inv_def handles_def open_ids_def next_handle_small [OF small] intro: drawn_Suc drawn_new)
next
  case (import_prepared pending svc1)
  then have small: "ws_ids_counter svc + 1 < 2 ^ 31" using assms(3) by (simp add: next_handle_def)
  note fresh = service_inv_fresh [OF assms(2) small]
  then have new: "hm_insert (ws_pending_for_import svc) (fst (next_handle svc)) pending =
      ws_pending_for_import svc @ [(fst (next_handle svc), pending)]"
    by (intro hm_insert_snoc) (auto simp: handles_def)
  show ?thesis using assms(2) fresh unfolding import_prepared new
    by (auto simp: service_inv_def handles_def open_ids_def next_handle_small [OF small] intro: drawn_Suc drawn_new)
next
  case (closed handle wallet)
  have "set (hm_remove (ws_wallets svc) handle) = set (ws_wallets svc) - {(handle, wallet)}"
    using hm_remove_absent [OF closed(1)] assms(2) by (simp add: service_inv_def handles_def)
  then have "ws_wallet_ids svc - {ow_id wallet} \<subseteq> (ow_id \<circ> snd) ` set (hm_remove (ws_wallets svc) handle)"
    using assms(2) by (force simp: service_inv_def open_ids_def)
  moreover have "distinct (handles svc')"
    using assms(2) distinct_hm_remove [of "[]" fst "ws_wallets svc" "map fst (ws_pending_for_open svc) @ map fst (ws_pending_for_import svc)" handle]
    unfolding closed by (simp add: service_inv_def handles_def)
  moreover have "set (handles svc') \<subseteq> set (handles svc)"
    unfolding closed handles_def by (auto dest: set_hm_remove intro: rev_image_eqI)
  ultimately show ?thesis using assms(2) unfolding service_inv_def open_ids_def closed by auto
next
  case (imported handle)
  with service_inv_removed(1) [OF assms(2)] show ?thesis using same_handles_inv by blast
next
  case (opened handle nonce master_key rekey)
  note removed = service_inv_removed(2) [OF assms(2), of handle]
  show ?thesis
  proof (cases rule: open_continue_cases [of env nonce svc handle master_key rekey])
    case 1
    with opened assms(2) show ?thesis by simp
  next
    case (2 pending)
    with opened removed same_handles_inv show ?thesis by blast
  next
    case (3 pending keys storages)
    let ?w = "\<lparr>ow_id = po_id pending, ow_path = po_path pending, ow_type = po_type pending, ow_keys = keys\<rparr>"
    have at: "(handle, pending) \<in> set (ws_pending_for_open svc)" using 3 by (simp add: hm_get_Some_in)
    then have other: "handle \<notin> fst ` set (ws_wallets svc)" "handle \<notin> fst ` set (ws_pending_for_import svc)"
      using assms(2) by (auto simp: service_inv_def handles_def rev_image_eqI)
    then have new: "hm_insert (ws_wallets svc) handle ?w = ws_wallets svc @ [(handle, ?w)]"
      by (intro hm_insert_snoc)
    have "set (hm_remove (ws_pending_for_open svc) handle) = set (ws_pending_for_open svc) - {(handle, pending)}"
      using hm_remove_absent [OF 3(1)] assms(2) by (simp add: service_inv_def handles_def)
    then have gone: "handle \<notin> fst ` set (hm_remove (ws_pending_for_open svc) handle)"
      using assms(2) 3(1) by (auto simp: service_inv_def handles_def eq_key_imp_eq_value dest: hm_get_Some_in)
    have "handle \<in> set (handles svc)" using at by (auto simp: handles_def rev_image_eqI)
    then have "drawn (ws_ids_counter svc) handle" using assms(2) by (simp add: service_inv_def)
    then show ?thesis using removed gone other unfolding opened 3(2) new
      by (auto simp: service_inv_def handles_def open_ids_def)
  qed
qed

text \<open>The ids that are open or being opened are all different, and exactly the open ones are locked.\<close>

definition locked_exactly :: "('p, 's) WalletService \<Rightarrow> bool" where
  "locked_exactly svc \<longleftrightarrow> distinct (open_ids svc @ pending_ids svc) \<and> ws_wallet_ids svc = set (open_ids svc)"

lemma same_handles_locked: "same_handles svc svc' \<Longrightarrow> locked_exactly svc' = locked_exactly svc"
  by (simp add: same_handles_def locked_exactly_def open_ids_def pending_ids_def)

lemma locked_exactly_step:
  assumes "service_step env svc svc'" and "service_inv svc" and "service_inv svc'" and "locked_exactly svc" and "distinct (pending_ids svc')"
    and "ws_ids_counter svc' < 2 ^ 31"
  shows "locked_exactly svc'"
  using assms(1)
proof (cases rule: service_step_cases)
  case same
  then show ?thesis using same_handles_locked assms(4) by blast
next
  case new_id
  then show ?thesis using assms(4) by (simp add: next_handle_def locked_exactly_def open_ids_def pending_ids_def)
next
  case (prepared svc1 pending)
  then have small: "ws_ids_counter svc + 1 < 2 ^ 31" using assms(6) by (simp add: next_handle_def)
  have new: "hm_insert (ws_pending_for_open svc) (fst (next_handle svc)) pending =
      ws_pending_for_open svc @ [(fst (next_handle svc), pending)]"
    using service_inv_fresh [OF assms(2) small] by (intro hm_insert_snoc) (auto simp: handles_def)
  show ?thesis using assms(4,5) prepared(1) unfolding prepared(2-) new
    by (auto simp: locked_exactly_def next_handle_def open_ids_def pending_ids_def)
next
  case (import_prepared pending svc1)
  then show ?thesis using assms(4) by (simp add: next_handle_def locked_exactly_def open_ids_def pending_ids_def)
next
  case (closed handle wallet)
  have "set (hm_remove (ws_wallets svc) handle) = set (ws_wallets svc) - {(handle, wallet)}"
    using hm_remove_absent [OF closed(1)] assms(2) by (simp add: service_inv_def handles_def)
  moreover have "inj_on (ow_id \<circ> snd) (set (ws_wallets svc))"
    using assms(4) by (simp add: locked_exactly_def open_ids_def distinct_map)
  ultimately have "set (open_ids svc') = set (open_ids svc) - {ow_id wallet}"
    using inj_on_image_set_diff [of "ow_id \<circ> snd" "set (ws_wallets svc)" "set (ws_wallets svc)" "{(handle, wallet)}"]
      hm_get_Some_in [OF closed(1)] unfolding closed(2) open_ids_def by simp
  moreover have "distinct (open_ids svc' @ pending_ids svc')"
    using assms(4) distinct_hm_remove [of "[]" "ow_id \<circ> snd" "ws_wallets svc" "pending_ids svc" handle] unfolding closed(2)
    by (simp add: locked_exactly_def open_ids_def pending_ids_def)
  ultimately show ?thesis using assms(4) unfolding locked_exactly_def closed(2) by simp
next
  case (imported handle)
  then show ?thesis using assms(4) by (simp add: same_handles_def locked_exactly_def open_ids_def pending_ids_def)
next
  case (opened handle nonce master_key rekey)
  have removed: "locked_exactly (svc\<lparr>ws_pending_for_open := hm_remove (ws_pending_for_open svc) handle\<rparr>)"
    using assms(4) distinct_hm_remove [of "open_ids svc" "po_id \<circ> snd" "ws_pending_for_open svc" "[]" handle]
    by (simp add: locked_exactly_def open_ids_def pending_ids_def)
  show ?thesis
  proof (cases rule: open_continue_cases [of env nonce svc handle master_key rekey])
    case 1
    with opened assms(4) show ?thesis by simp
  next
    case (2 pending)
    with opened removed same_handles_locked show ?thesis by blast
  next
    case (3 pending keys storages)
    let ?w = "\<lparr>ow_id = po_id pending, ow_path = po_path pending, ow_type = po_type pending, ow_keys = keys\<rparr>"
    have at: "(handle, pending) \<in> set (ws_pending_for_open svc)" using 3 by (simp add: hm_get_Some_in)
    then have new: "hm_insert (ws_wallets svc) handle ?w = ws_wallets svc @ [(handle, ?w)]"
      using assms(2) by (intro hm_insert_snoc) (auto simp: service_inv_def handles_def rev_image_eqI)
    have gone: "set (hm_remove (ws_pending_for_open svc) handle) = set (ws_pending_for_open svc) - {(handle, pending)}"
      using hm_remove_absent [OF 3(1)] assms(2) by (simp add: service_inv_def handles_def)
    have "inj_on (po_id \<circ> snd) (set (ws_pending_for_open svc))"
      using assms(4) by (simp add: locked_exactly_def pending_ids_def distinct_map)
    then have "po_id pending \<notin> (po_id \<circ> snd) ` set (hm_remove (ws_pending_for_open svc) handle)"
      using inj_on_image_set_diff [of "po_id \<circ> snd" "set (ws_pending_for_open svc)" "set (ws_pending_for_open svc)" "{(handle, pending)}"] at
      unfolding gone by simp
    moreover have "(po_id \<circ> snd) (handle, pending) \<in> set (pending_ids svc)"
      using imageI [OF at, of "po_id \<circ> snd"] unfolding pending_ids_def by simp
    then have "po_id pending \<notin> (ow_id \<circ> snd) ` set (ws_wallets svc)"
      using assms(4) by (auto simp: locked_exactly_def open_ids_def)
    ultimately show ?thesis using removed unfolding opened 3(2) new
      by (simp add: locked_exactly_def open_ids_def pending_ids_def)
  qed
qed

lemma reachable_counter: "(service_step env)\<^sup>*\<^sup>* svc svc' \<Longrightarrow> ws_ids_counter svc \<le> ws_ids_counter svc'"
  by (induction rule: rtranclp_induct) (auto dest: service_step_counter)

lemma service_inv_new: "service_inv (service_new ty)" "locked_exactly (service_new ty)"
  by (simp_all add: service_inv_def service_new_def handles_def open_ids_def pending_ids_def locked_exactly_def)

lemma reachable_inv:
  "(service_step env)\<^sup>*\<^sup>* (service_new ty) svc \<Longrightarrow> ws_ids_counter svc < 2 ^ 31 \<Longrightarrow> service_inv svc"
proof (induction rule: rtranclp_induct)
  case (step svc svc')
  then show ?case using service_inv_step service_step_counter by (metis le_less_trans)
qed (rule service_inv_new)

section \<open>A sample service\<close>

definition sample_metadata_to_vec :: "WalletMetadata \<Rightarrow> bytes option" where
  "sample_metadata_to_vec m =
     Some (write_fields (case m of MetadataRaw keys \<Rightarrow> [keys] | MetadataArgon keys salt \<Rightarrow> [keys, salt]))"

definition sample_metadata_from_slice :: "bytes \<Rightarrow> WalletMetadata option" where
  "sample_metadata_from_slice bs =
     (case read_fields [] bs of [keys] \<Rightarrow> Some (MetadataRaw keys) | [keys, salt] \<Rightarrow> Some (MetadataArgon keys salt) | _ \<Rightarrow> None)"

definition sample_service_env :: ServiceEnv where
  "sample_service_env =
     \<lparr>sv_crypto = sample_crypto, sv_codec = sample_codec, sv_to_string = \<lambda>_. [], sv_from_str = \<lambda>_. None,
      sv_metadata_to_vec = sample_metadata_to_vec, sv_metadata_from_slice = sample_metadata_from_slice, sv_checks = True\<rparr>"

definition sample_type :: "(string \<times> string, SqliteDb) StorageType" where
  "sample_type = sqlite_type (sample_storage_env True) \<lparr>parse_config = \<lambda>s. Some (Some s), home = ''home''\<rparr>"

definition sample_config :: Config where
  "sample_config = \<lparr>cf_id = ''w'', cf_storage_type = None, cf_storage_config = None\<rparr>"

definition sample_credentials :: Credentials where
  "sample_credentials =
     \<lparr>cr_key = ''key'', cr_rekey = None, cr_storage_credentials = None, cr_key_derivation_method = ARGON2I_MOD,
      cr_rekey_derivation_method = ARGON2I_MOD\<rparr>"

abbreviation sample_key :: bytes where
  "sample_key \<equiv> replicate 32 9"

lemma sample_service_metadata:
  "\<exists>bytes. sv_metadata_to_vec sample_service_env m = Some bytes \<and> sv_metadata_from_slice sample_service_env bytes = Some m"
  by (cases m) (simp_all add: sample_service_env_def sample_metadata_to_vec_def sample_metadata_from_slice_def read_write_fields)

definition sample_created :: "(string \<times> string, SqliteDb) WalletService" where
  "sample_created = snd (create_wallet sample_service_env (\<lambda>_. replicate 32 3) (replicate 12 1) (service_new sample_type)
     sample_config sample_credentials (KDD_Argon2iMod ''key'' (replicate 32 4)) sample_key)"

definition sample_prepare :: "(string \<times> string, SqliteDb) WalletService \<Rightarrow> (string \<times> string, SqliteDb) WalletService" where
  "sample_prepare svc = snd (open_wallet_prepare sample_service_env [] svc sample_config sample_credentials)"

definition sample_continue :: "int \<Rightarrow> (string \<times> string, SqliteDb) WalletService \<Rightarrow> (string \<times> string, SqliteDb) WalletService" where
  "sample_continue h svc = snd (open_wallet_continue sample_service_env [] svc h sample_key None)"

lemma sample_steps:
  "service_step sample_service_env (service_new sample_type) sample_created"
  "service_step sample_service_env svc (sample_prepare svc)"
  "service_step sample_service_env svc (sample_continue h svc)"
  unfolding sample_created_def sample_prepare_def sample_continue_def
  by (rule step_create step_open_prepare step_open_continue)+

lemma three_steps: "r a b \<Longrightarrow> r b c \<Longrightarrow> r c d \<Longrightarrow> r\<^sup>*\<^sup>* a d"
  by (blast intro: rtranclp.rtrancl_into_rtrancl)

definition sample_opened :: "(string \<times> string, SqliteDb) WalletService" where
  "sample_opened = sample_continue 2 (sample_prepare sample_created)"

lemma sample_opened_state:
  "handles sample_opened = [2]" "ws_ids_counter sample_opened = 2" "open_ids sample_opened = [''w'']" "pending_ids sample_opened = []"
  by code_simp+

lemma sample_pending: "pending_ids sample_created = []" "pending_ids (sample_prepare sample_created) = [''w'']"
  by code_simp+

section \<open>Properties\<close>

text \<open>
  C26: Handles and locks stay in order. In every state the service can reach, with the two parts of openings
  and imports interleaved in any way, and before two thousand million ids were drawn, no two open wallets,
  openings or imports have the same handle, every handle is a positive number that was drawn, and an id is locked
  only while a wallet with that id is open.
\<close>

theorem service_invariant:
  assumes "(service_step env)\<^sup>*\<^sup>* (service_new ty) svc" and "ws_ids_counter svc < 2 ^ 31"
  shows "distinct (handles svc) \<and> (\<forall>h \<in> set (handles svc). 2 \<le> h \<and> h \<le> int (ws_ids_counter svc)) \<and>
    ws_wallet_ids svc \<subseteq> set (open_ids svc)"
  using reachable_inv [OF assms] by (simp add: service_inv_def drawn_def)

theorem service_invariant_witness: "ws_wallet_ids sample_opened \<subseteq> {''w''} \<and> distinct (handles sample_opened)"
proof -
  have "(service_step sample_service_env)\<^sup>*\<^sup>* (service_new sample_type) sample_opened"
    unfolding sample_opened_def 
    by (rule three_steps [of "service_step sample_service_env", OF sample_steps])
  from service_invariant [OF this] show ?thesis by (simp add: sample_opened_state)
qed

text \<open>
  An open wallet is locked. As long as no two openings of one id are pending at the same time, no two open
  wallets have the same id, and an open wallet can neither be opened again nor deleted.
\<close>

theorem open_wallet_locked:
  assumes "(\<lambda>a b. service_step env a b \<and> distinct (pending_ids b))\<^sup>*\<^sup>* (service_new ty) svc" and "ws_ids_counter svc < 2 ^ 31"
  shows "distinct (open_ids svc) \<and> (get_wallet_id config \<in> set (open_ids svc) \<longrightarrow>
    open_wallet_prepare env salt svc config credentials = (Err WalletAlreadyOpened, svc) \<and>
    delete_wallet_prepare env svc config credentials = Err InvalidState)"
proof -
  have "service_inv svc \<and> locked_exactly svc" using assms
  proof (induction rule: rtranclp_induct)
    case (step svc svc')
    then have "ws_ids_counter svc < 2 ^ 31" using service_step_counter by (metis le_less_trans)
    with step have "service_inv svc" "locked_exactly svc" "service_inv svc'" using service_inv_step by blast+
    with step show ?case using locked_exactly_step by blast
  qed (simp add: service_inv_new)
  then have "distinct (open_ids svc)" "ws_wallet_ids svc = set (open_ids svc)" by (simp_all add: locked_exactly_def)
  then show ?thesis by (simp add: open_wallet_prepare_def is_id_from_config_not_used_def delete_wallet_prepare_def)
qed

theorem open_wallet_locked_witness:
  "open_wallet_prepare sample_service_env [] sample_opened sample_config sample_credentials = (Err WalletAlreadyOpened, sample_opened)"
proof -
  have "(\<lambda>a b. service_step sample_service_env a b \<and> distinct (pending_ids b))\<^sup>*\<^sup>* (service_new sample_type) sample_opened"
    unfolding sample_opened_def
    by (rule three_steps [of _ _ sample_created "sample_prepare sample_created"])
      (simp_all add: sample_steps sample_pending, simp add: sample_opened_state sample_opened_def [symmetric])
  from open_wallet_locked [OF this, of sample_config "[]" sample_credentials] show ?thesis
    by (simp add: sample_opened_state) (simp add: get_wallet_id_def sample_config_def)
qed

text \<open>
  Two openings of one wallet that are prepared before either of them continues both succeed. The wallet is
  then open under two handles; closing one of them unlocks the id, and the wallet is deleted while the
  other handle is still open.
\<close>

theorem double_open_unlocks:
  "let twice = sample_continue 3 (sample_continue 2 (sample_prepare (sample_prepare sample_created)));
       closed = snd (close_wallet twice 2)
   in open_ids twice = [''w'', ''w''] \<and>
     (case delete_wallet_prepare sample_service_env closed sample_config sample_credentials of
        Ok (metadata, _) \<Rightarrow>
          (case delete_wallet_continue sample_service_env closed sample_config sample_credentials metadata sample_key of
             (r, deleted) \<Rightarrow> r = Ok () \<and> check_handle deleted 3 = Ok () \<and> ws_storages deleted (''home'', ''w'') = None)
      | _ \<Rightarrow> False)"
  by code_simp

text \<open>
  The id that locks a wallet is the id of the configuration followed by its path: two configurations of
  different wallets lock each other out.
\<close>

theorem wallet_id_ambiguous:
  "get_wallet_id \<lparr>cf_id = ''a'', cf_storage_type = None, cf_storage_config = Some (Value_Object [(''path'', Value_String ''b'')])\<rparr> =
   get_wallet_id \<lparr>cf_id = ''ab'', cf_storage_type = None, cf_storage_config = None\<rparr>"
  by (simp add: get_wallet_id_def json_index_def)

text \<open>An import whose id is locked fails after the new storage was created, and leaves it behind.\<close>

lemma import_leaves_storage:
  assumes "hm_get (ws_pending_for_import svc) handle = Some pending"
    and "create_wallet_keys env gen_key nonce (svc\<lparr>ws_pending_for_import := hm_remove (ws_pending_for_import svc) handle\<rparr>) config credentials
      (pi_key_data pending) master_key = (Ok keys, svc')"
    and "get_wallet_id config \<in> ws_wallet_ids svc"
  shows "import_wallet_continue env gen_key nonce rnds svc handle config credentials import_key master_key = Some (Err WalletAlreadyOpened, svc')"
proof -
  have "ws_wallet_ids svc' = ws_wallet_ids svc"
    using storage_operations_same(2) [of "svc\<lparr>ws_pending_for_import := hm_remove (ws_pending_for_import svc) handle\<rparr>"
        env gen_key nonce config credentials "pi_key_data pending" master_key] assms(2)
    by (simp add: same_handles_def)
  with assms show ?thesis by (simp add: import_wallet_continue_def is_id_from_config_not_used_def)
qed

end
