(* ===== verification/Wallet_Sessions.thy ===== *)
theory Wallet_Sessions
  imports Wallet_Service
begin

text \<open>
  Sessions with a wallet: it is created, and then opened, used and closed any number of times, with or
  without a new key on opening. Every record command answers as on one map that lives across the
  sessions. The contract of a storage type is a locale; SQLite is an instance of it.
\<close>

section \<open>The contract of a storage type\<close>

locale storage_type = wallet_storage "ty_ops ty" senv invar content
  for ty :: "('p, 's) StorageType" and senv :: StorageEnv and invar :: "'s \<Rightarrow> bool" and content :: "'s \<Rightarrow> content" +
  fixes place :: "string \<Rightarrow> string option \<Rightarrow> string option \<Rightarrow> 'p outcome"
    and fresh :: "bytes \<Rightarrow> 's"
  assumes create_storage_law: "ty_create ty files wid config creds metadata =
      (case place wid config creds of
         Err e \<Rightarrow> (Err e, files)
       | Panic \<Rightarrow> (Panic, files)
       | Ok p \<Rightarrow> if files p = None then (Ok (), files(p \<mapsto> fresh metadata)) else (Err WalletAlreadyExists, files))"
    and open_storage_law: "ty_open ty files wid config creds =
      and_then (place wid config creds) (\<lambda>p. if files p = None then Err WalletNotFound else Ok p)"
    and delete_storage_law: "ty_delete ty files wid config creds =
      (case place wid config creds of
         Err e \<Rightarrow> (Err e, files)
       | Panic \<Rightarrow> (Panic, files)
       | Ok p \<Rightarrow> if files p = None then (Err WalletNotFound, files) else (Ok (), files(p := None)))"
    and close_law: "ty_close ty p = Ok ()"
    and fresh_law: "invar (fresh metadata) \<and> content (fresh metadata) = (\<lambda>_ _. None) \<and>
      st_get_storage_metadata (ty_ops ty) (fresh metadata) = Ok metadata"
    and set_metadata_law: "invar s \<Longrightarrow> st_get_storage_metadata (ty_ops ty) s = Ok m \<Longrightarrow>
      \<exists>s'. st_set_storage_metadata (ty_ops ty) s metadata = (Ok (), s') \<and> invar s' \<and> content s' = content s \<and>
        st_get_storage_metadata (ty_ops ty) s' = Ok metadata"
    and metadata_kept:
      "st_get_storage_metadata (ty_ops ty) (snd (st_add (ty_ops ty) s t n v tags)) = st_get_storage_metadata (ty_ops ty) s"
      "st_get_storage_metadata (ty_ops ty) (snd (st_update (ty_ops ty) s t n v)) = st_get_storage_metadata (ty_ops ty) s"
      "st_get_storage_metadata (ty_ops ty) (snd (st_add_tags (ty_ops ty) s t n tags)) = st_get_storage_metadata (ty_ops ty) s"
      "st_get_storage_metadata (ty_ops ty) (snd (st_update_tags (ty_ops ty) s t n tags)) = st_get_storage_metadata (ty_ops ty) s"
      "st_get_storage_metadata (ty_ops ty) (snd (st_delete_tags (ty_ops ty) s t n names)) = st_get_storage_metadata (ty_ops ty) s"
      "st_get_storage_metadata (ty_ops ty) (snd (st_delete (ty_ops ty) s t n)) = st_get_storage_metadata (ty_ops ty) s"

section \<open>SQLite\<close>

lemma metadata_insert_tags: "insert_tags db i tags = Ok db' \<Longrightarrow> db_metadata db' = db_metadata db"
proof (induction tags arbitrary: db)
  case (Cons tag tags)
  then show ?case by (cases tag) (auto split: if_splits)
qed simp

lemma metadata_delete_item_tags [simp]: "db_metadata (delete_item_tags db i) = db_metadata db"
  by (simp add: delete_item_tags_def)

lemma metadata_fold:
  "db_metadata (fold (\<lambda>tag db. replace_tag db i tag) tags db) = db_metadata db"
  "db_metadata (fold (\<lambda>name db. delete_tag db i name) names db) = db_metadata db"
  "db_metadata (fold (\<lambda>row db. delete_item_tags db (it_id row)) rows db) = db_metadata db"
proof -
  have *: "db_metadata (fold f xs db) = db_metadata db" if "\<And>x db. db_metadata (f x db) = db_metadata db"
    for f :: "'x \<Rightarrow> SqliteDb \<Rightarrow> SqliteDb" and xs db
    using that by (induction xs arbitrary: db) simp_all
  have "db_metadata (replace_tag db i tag) = db_metadata db" for db tag by (cases tag) simp_all
  then show "db_metadata (fold (\<lambda>tag db. replace_tag db i tag) tags db) = db_metadata db" by (rule *)
  have "db_metadata (delete_tag db i name) = db_metadata db" for db name by (cases name) simp_all
  then show "db_metadata (fold (\<lambda>name db. delete_tag db i name) names db) = db_metadata db" by (rule *)
  show "db_metadata (fold (\<lambda>row db. delete_item_tags db (it_id row)) rows db) = db_metadata db"
    by (rule *) simp
qed

lemma sqlite_metadata_kept:
  "db_metadata (snd (sqlite_add db t n v tags)) = db_metadata db"
  "db_metadata (snd (sqlite_update db t n v)) = db_metadata db"
  "db_metadata (snd (sqlite_add_tags db t n tags)) = db_metadata db"
  "db_metadata (snd (sqlite_update_tags db t n tags)) = db_metadata db"
  "db_metadata (snd (sqlite_delete_tags db t n names)) = db_metadata db"
  "db_metadata (snd (sqlite_delete senv db t n)) = db_metadata db"
  by (auto simp: sqlite_add_def sqlite_update_def sqlite_add_tags_def sqlite_update_tags_def sqlite_delete_tags_def sqlite_delete_def
      transaction_def insert_item_def Let_def metadata_fold dest: metadata_insert_tags split: outcome.split)

lemma sqlite_metadata_irrelevant [simp]:
  "sqlite_ok (db\<lparr>db_metadata := m\<rparr>) = sqlite_ok db" "sqlite_content (db\<lparr>db_metadata := m\<rparr>) = sqlite_content db"
proof -
  have "row_item (db\<lparr>db_metadata := m\<rparr>) = row_item db" by (rule ext) (simp add: row_item_def tags_of_def all_tags_def)
  then show "sqlite_content (db\<lparr>db_metadata := m\<rparr>) = sqlite_content db" by (simp add: sqlite_content_def [abs_def])
  show "sqlite_ok (db\<lparr>db_metadata := m\<rparr>) = sqlite_ok db" by (simp add: sqlite_ok_def)
qed

definition sqlite_place :: "SqliteTypeEnv \<Rightarrow> string \<Rightarrow> string option \<Rightarrow> string option \<Rightarrow> (string \<times> string) outcome" where
  "sqlite_place tenv wid config _ = map_ok (db_path tenv wid) (storage_config tenv config)"

lemma sqlite_new_empty: "sqlite_ok (sqlite_new metadata)" "sqlite_content (sqlite_new metadata) = (\<lambda>_ _. None)"
proof -
  have "all_tags (sqlite_new metadata) = {}"
    by (auto simp: sqlite_new_def db_empty_def all_tags_def split: Tag.splits)
  then show "sqlite_ok (sqlite_new metadata)" by (simp add: sqlite_ok_def) (simp add: sqlite_new_def db_empty_def)
  show "sqlite_content (sqlite_new metadata) = (\<lambda>_ _. None)" by (simp add: fun_eq_iff sqlite_content_def sqlite_new_def db_empty_def)
qed

lemma sqlite_files:
  "sqlite_create_storage tenv files wid config metadata =
      (case sqlite_place tenv wid config creds of
         Err e \<Rightarrow> (Err e, files)
       | Panic \<Rightarrow> (Panic, files)
       | Ok p \<Rightarrow> if files p = None then (Ok (), files(p \<mapsto> sqlite_new metadata)) else (Err WalletAlreadyExists, files))"
  "sqlite_open_storage tenv files wid config =
      and_then (sqlite_place tenv wid config creds) (\<lambda>p. if files p = None then Err WalletNotFound else Ok p)"
  "sqlite_delete_storage tenv files wid config =
      (case sqlite_place tenv wid config creds of
         Err e \<Rightarrow> (Err e, files)
       | Panic \<Rightarrow> (Panic, files)
       | Ok p \<Rightarrow> if files p = None then (Err WalletNotFound, files) else (Ok (), files(p := None)))"
  by (cases "storage_config tenv config";
      simp add: sqlite_create_storage_def sqlite_open_storage_def sqlite_delete_storage_def sqlite_place_def transaction_def Let_def)+

interpretation sqlite_ty: storage_type "sqlite_type senv tenv" senv sqlite_ok sqlite_content "sqlite_place tenv" sqlite_new for senv tenv
proof -
  have ops: "ty_ops (sqlite_type senv tenv) = sqlite_storage senv" by (simp add: sqlite_type_def)
  show "storage_type (sqlite_type senv tenv) senv sqlite_ok sqlite_content (sqlite_place tenv) sqlite_new"
  proof (rule storage_type.intro)
    show "wallet_storage (ty_ops (sqlite_type senv tenv)) senv sqlite_ok sqlite_content"
      unfolding ops by (rule sqlite.wallet_storage_axioms)
    show "storage_type_axioms (sqlite_type senv tenv) sqlite_ok sqlite_content (sqlite_place tenv) sqlite_new"
    proof
      fix m s metadata
      assume "sqlite_ok s" and "st_get_storage_metadata (ty_ops (sqlite_type senv tenv)) s = Ok m"
      then show "\<exists>s'. st_set_storage_metadata (ty_ops (sqlite_type senv tenv)) s metadata = (Ok (), s') \<and> sqlite_ok s' \<and>
          sqlite_content s' = sqlite_content s \<and> st_get_storage_metadata (ty_ops (sqlite_type senv tenv)) s' = Ok metadata"
        by (auto simp: ops sqlite_storage_def sqlite_set_storage_metadata_def sqlite_get_storage_metadata_def split: list.splits)
    qed (simp_all add: ops sqlite_type_def sqlite_storage_def sqlite_metadata_kept sqlite_get_storage_metadata_def, fact sqlite_files,
        fact sqlite_files, fact sqlite_files, simp add: sqlite_new_empty, simp add: sqlite_new_def)
  qed
qed

section \<open>Commands without interleaving\<close>

text \<open>
  The wallet commands of \<open>commands/wallet.rs\<close> when nothing else runs between the first part of a command, the
  key derivations and the second part.
\<close>

definition create_command ::
    "ServiceEnv \<Rightarrow> bytes \<Rightarrow> (nat \<Rightarrow> bytes) \<Rightarrow> bytes \<Rightarrow> ('p, 's) WalletService \<Rightarrow> Config \<Rightarrow> Credentials \<Rightarrow>
     unit outcome \<times> ('p, 's) WalletService" where
  "create_command env salt gen_key nonce svc config credentials =
     (let key_data = from_passphrase_with_new_salt salt (cr_key credentials) (cr_key_derivation_method credentials)
      in case calc_master_key (sv_crypto env) key_data of
           Err e \<Rightarrow> (Err e, svc)
         | Panic \<Rightarrow> (Panic, svc)
         | Ok key \<Rightarrow> create_wallet env gen_key nonce svc config credentials key_data key)"

definition derive_open_keys :: "CryptoEnv \<Rightarrow> KeyDerivationData \<Rightarrow> KeyDerivationData option \<Rightarrow> (bytes \<times> bytes option) outcome" where
  "derive_open_keys env key_derivation_data rekey_data =
     and_then (calc_master_key env key_derivation_data) (\<lambda>key_result.
       case rekey_data of
         None \<Rightarrow> Ok (key_result, None)
       | Some rekey_data \<Rightarrow> map_ok (\<lambda>rekey_result. (key_result, Some rekey_result)) (calc_master_key env rekey_data))"

definition open_command ::
    "ServiceEnv \<Rightarrow> bytes \<Rightarrow> bytes \<Rightarrow> ('p, 's) WalletService \<Rightarrow> Config \<Rightarrow> Credentials \<Rightarrow> int outcome \<times> ('p, 's) WalletService" where
  "open_command env salt nonce svc config credentials =
     (case open_wallet_prepare env salt svc config credentials of
        (Err e, svc1) \<Rightarrow> (Err e, svc1)
      | (Panic, svc1) \<Rightarrow> (Panic, svc1)
      | (Ok (wallet_handle, key_derivation_data, rekey_data), svc1) \<Rightarrow>
          (case derive_open_keys (sv_crypto env) key_derivation_data rekey_data of
             Err e \<Rightarrow> (Err e, svc1)
           | Panic \<Rightarrow> (Panic, svc1)
           | Ok (key, rekey) \<Rightarrow> open_wallet_continue env nonce svc1 wallet_handle key rekey))"

text \<open>A record command by wallet handle.\<close>

fun record_command :: "ServiceEnv \<Rightarrow> int \<Rightarrow> WalletCommand \<Rightarrow> ('p, 's) WalletService \<Rightarrow> unit outcome \<times> ('p, 's) WalletService" where
  "record_command env h (Cmd_Add rnd t n v tags) svc = add_record env rnd svc h t n v tags"
| "record_command env h (Cmd_Update rnd t n v) svc = update_record_value env rnd svc h t n v"
| "record_command env h (Cmd_Add_Tags t n tags) svc = add_record_tags env svc h t n tags"
| "record_command env h (Cmd_Update_Tags t n tags) svc = update_record_tags env svc h t n tags"
| "record_command env h (Cmd_Delete_Tags t n names) svc = delete_record_tags env svc h t n names"
| "record_command env h (Cmd_Delete t n) svc = delete_record env svc h t n"

lemma record_command_on_wallet:
  "record_command env h cmd svc = on_wallet svc h (\<lambda>ops w. wallet_step ops (sv_crypto env) cmd w)"
  by (cases cmd) (simp_all add: add_record_def update_record_value_def add_record_tags_def update_record_tags_def
      delete_record_tags_def delete_record_def)

text \<open>A session: the optional new key, the record commands, and the random values of the opening.\<close>

record Session =
  ss_rekey :: "(string \<times> KeyDerivationMethod) option"
  ss_commands :: "WalletCommand list"
  ss_salt :: bytes
  ss_nonce :: bytes

definition session_credentials :: "Session \<Rightarrow> Credentials \<Rightarrow> Credentials" where
  "session_credentials ses credentials =
     (case ss_rekey ses of
        None \<Rightarrow> credentials\<lparr>cr_rekey := None\<rparr>
      | Some (rekey, method) \<Rightarrow> credentials\<lparr>cr_rekey := Some rekey, cr_rekey_derivation_method := method\<rparr>)"

definition next_credentials :: "Session \<Rightarrow> Credentials \<Rightarrow> Credentials" where
  "next_credentials ses credentials =
     (case ss_rekey ses of
        None \<Rightarrow> credentials
      | Some (rekey, method) \<Rightarrow> credentials\<lparr>cr_key := rekey, cr_key_derivation_method := method\<rparr>)"

text \<open>The answers of a session: of the opening, of every record command and of the closing.\<close>

definition run_session ::
    "ServiceEnv \<Rightarrow> Config \<Rightarrow> Credentials \<Rightarrow> Session \<Rightarrow> ('p, 's) WalletService \<Rightarrow>
     (unit outcome \<times> unit outcome list \<times> unit outcome) \<times> ('p, 's) WalletService" where
  "run_session env config credentials ses svc =
     (case open_command env (ss_salt ses) (ss_nonce ses) svc config (session_credentials ses credentials) of
        (Ok h, svc1) \<Rightarrow>
          (let (rs, svc2) = run_steps (record_command env h) (ss_commands ses) svc1; (c, svc3) = close_wallet svc2 h
           in ((Ok (), rs, c), svc3))
      | (Err e, svc1) \<Rightarrow> ((Err e, [], Err InvalidWalletHandle), svc1)
      | (Panic, svc1) \<Rightarrow> ((Panic, [], Err InvalidWalletHandle), svc1))"

fun run_sessions ::
    "ServiceEnv \<Rightarrow> Config \<Rightarrow> Credentials \<Rightarrow> Session list \<Rightarrow> ('p, 's) WalletService \<Rightarrow>
     (unit outcome \<times> unit outcome list \<times> unit outcome) list \<times> ('p, 's) WalletService" where
  "run_sessions env config credentials [] svc = ([], svc)"
| "run_sessions env config credentials (ses # sess) svc =
     (let (a, svc1) = run_session env config credentials ses svc;
          (as, svc2) = run_sessions env config (next_credentials ses credentials) sess svc1
      in (a # as, svc2))"

text \<open>The specification: the answers of one map.\<close>

fun map_sessions :: "Session list \<Rightarrow> plain_wallet \<Rightarrow> (unit outcome \<times> unit outcome list \<times> unit outcome) list \<times> plain_wallet" where
  "map_sessions [] P = ([], P)"
| "map_sessions (ses # sess) P =
     (let (rs, P1) = run_steps map_step (ss_commands ses) P; (as, P2) = map_sessions sess P1
      in ((Ok (), rs, Ok ()) # as, P2))"

section \<open>What is stored between sessions\<close>

definition service_env_ok :: "ServiceEnv \<Rightarrow> bool" where
  "service_env_ok env \<longleftrightarrow> crypto_ok (sv_crypto env) \<and>
     (\<forall>m. \<exists>bytes. sv_metadata_to_vec env m = Some bytes \<and> sv_metadata_from_slice env bytes = Some m)"

text \<open>A passphrase and method from which a key can be derived: for the raw method it is the key in base 58.\<close>

definition key_usable :: "CryptoEnv \<Rightarrow> string \<Rightarrow> KeyDerivationMethod \<Rightarrow> bytes \<Rightarrow> bool" where
  "key_usable env passphrase method salt \<longleftrightarrow>
     length salt = SALTBYTES \<and> (\<exists>key. calc_master_key env (from_passphrase_with_new_salt salt passphrase method) = Ok key)"

definition session_ok :: "ServiceEnv \<Rightarrow> Session \<Rightarrow> bool" where
  "session_ok env ses \<longleftrightarrow> length (ss_nonce ses) = NONCEBYTES \<and> list_all command_ok (ss_commands ses) \<and>
     (case ss_rekey ses of None \<Rightarrow> True | Some (rekey, method) \<Rightarrow> key_usable (sv_crypto env) rekey method (ss_salt ses))"

text \<open>The metadata from which credentials restore the keys of a wallet.\<close>

definition unlocks :: "ServiceEnv \<Rightarrow> Credentials \<Rightarrow> bytes \<Rightarrow> Keys \<Rightarrow> bool" where
  "unlocks env credentials metadata_bytes keys \<longleftrightarrow>
     (\<exists>metadata kd key. sv_metadata_from_slice env metadata_bytes = Some metadata \<and>
        from_passphrase_and_metadata (cr_key credentials) metadata (cr_key_derivation_method credentials) = Ok kd \<and>
        calc_master_key (sv_crypto env) kd = Ok key \<and> restore_keys env metadata key = Ok keys)"

lemma prepare_metadata_unlocks:
  assumes "service_env_ok env" and "length nonce = NONCEBYTES" and "length salt = SALTBYTES"
    and "calc_master_key (sv_crypto env) (from_passphrase_with_new_salt salt (cr_key credentials) (cr_key_derivation_method credentials)) = Ok key"
  shows "\<exists>bytes. prepare_metadata env nonce key
      (from_passphrase_with_new_salt salt (cr_key credentials) (cr_key_derivation_method credentials)) keys = Ok bytes \<and>
    unlocks env credentials bytes keys"
proof -
  let ?kd = "from_passphrase_with_new_salt salt (cr_key credentials) (cr_key_derivation_method credentials)"
  have crypto: "crypto_ok (sv_crypto env)" using assms(1) by (simp add: service_env_ok_def)
  obtain kb where kb: "wc_keys_to_vec (sv_crypto env) keys = Some kb" "wc_keys_from_slice (sv_crypto env) kb = Some keys"
    using crypto unfolding crypto_ok_def by blast
  let ?ek = "encrypt_as_not_searchable (sv_crypto env) nonce kb key"
  obtain mb where mb: "sv_metadata_to_vec env (metadata_of ?kd ?ek) = Some mb" "sv_metadata_from_slice env mb = Some (metadata_of ?kd ?ek)"
    using assms(1) unfolding service_env_ok_def by blast
  have "get_keys (metadata_of ?kd ?ek) = ?ek" by (cases ?kd) simp_all
  then have restore: "restore_keys env (metadata_of ?kd ?ek) key = Ok keys"
    using decrypt_not_searchable [OF crypto assms(2)] kb by (simp add: restore_keys_def deserialize_encrypted_def)
  have "from_passphrase_and_metadata (cr_key credentials) (metadata_of ?kd ?ek) (cr_key_derivation_method credentials) = Ok ?kd"
    using assms(3) by (cases "cr_key_derivation_method credentials")
      (simp_all add: from_passphrase_with_new_salt_def from_passphrase_and_metadata_def master_key_salt_from_slice_def)
  with restore mb kb assms(4) show ?thesis
    by (auto simp: prepare_metadata_def serialize_encrypted_def unlocks_def)
qed

text \<open>A wallet in its storage, with the keys that the credentials unlock and the map it stands for.\<close>

definition stored ::
    "('s \<Rightarrow> bool) \<Rightarrow> ('s \<Rightarrow> content) \<Rightarrow> ServiceEnv \<Rightarrow> ('p, 's) StorageType \<Rightarrow> 'p \<Rightarrow> Credentials \<Rightarrow> Keys \<Rightarrow> plain_wallet \<Rightarrow>
     ('p, 's) WalletService \<Rightarrow> bool" where
  "stored ok con env ty path credentials keys P svc \<longleftrightarrow>
     (\<exists>s m. ws_storages svc path = Some s \<and> ok s \<and> content_rel (sv_crypto env) keys (con s) P \<and>
        st_get_storage_metadata (ty_ops ty) s = Ok m \<and> unlocks env credentials m keys)"

definition located ::
    "(string \<Rightarrow> string option \<Rightarrow> string option \<Rightarrow> 'p outcome) \<Rightarrow> ServiceEnv \<Rightarrow> ('p, 's) StorageType \<Rightarrow> 'p \<Rightarrow> Config \<Rightarrow> Credentials \<Rightarrow>
     ('p, 's) WalletService \<Rightarrow> bool" where
  "located pl env ty path config credentials svc \<longleftrightarrow>
     (\<exists>sconfig screds. get_config_and_cred_for_storage env svc config credentials = Ok (ty, sconfig, screds) \<and>
        pl (cf_id config) sconfig screds = Ok path)"

lemma located_cong:
  "ws_storage_types svc' = ws_storage_types svc \<Longrightarrow> cr_storage_credentials credentials' = cr_storage_credentials credentials \<Longrightarrow>
   located pl env ty path config credentials' svc' = located pl env ty path config credentials svc"
  by (simp add: located_def get_config_and_cred_for_storage_def)

lemma session_credentials_same [simp]:
  "cr_storage_credentials (session_credentials ses credentials) = cr_storage_credentials credentials"
  "cr_key (session_credentials ses credentials) = cr_key credentials"
  "cr_key_derivation_method (session_credentials ses credentials) = cr_key_derivation_method credentials"
  "cr_storage_credentials (next_credentials ses credentials) = cr_storage_credentials credentials"
  by (auto simp: session_credentials_def next_credentials_def split: option.split)

lemma unlocks_cong:
  "cr_key credentials' = cr_key credentials \<Longrightarrow> cr_key_derivation_method credentials' = cr_key_derivation_method credentials \<Longrightarrow>
   unlocks env credentials' m keys = unlocks env credentials m keys"
  by (simp add: unlocks_def)

context storage_type
begin

lemma wallet_step_metadata:
  "wallet_step (ty_ops ty) env cmd w = (r, w') \<Longrightarrow>
   st_get_storage_metadata (ty_ops ty) (w_storage w') = st_get_storage_metadata (ty_ops ty) (w_storage w)"
  by (cases cmd)
    (auto simp: wallet_add_def wallet_update_def wallet_add_tags_def wallet_update_tags_def wallet_delete_tags_def
      wallet_delete_def Let_def case_prod_beta metadata_kept)

lemma create_stored:
  assumes "service_env_ok env" and "located place env ty path config credentials svc" and "ws_storages svc path = None"
    and "key_usable (sv_crypto env) (cr_key credentials) (cr_key_derivation_method credentials) salt" and "length nonce = NONCEBYTES"
  shows "\<exists>svc'. create_command env salt gen_key nonce svc config credentials = (Ok (), svc') \<and>
    stored invar content env ty path credentials (keys_new gen_key) (\<lambda>_ _. None) svc' \<and>
    ws_storage_types svc' = ws_storage_types svc \<and> same_handles svc svc'"
proof -
  let ?kd = "from_passphrase_with_new_salt salt (cr_key credentials) (cr_key_derivation_method credentials)"
  obtain key where key: "calc_master_key (sv_crypto env) ?kd = Ok key" and salt: "length salt = SALTBYTES"
    using assms(4) by (auto simp: key_usable_def)
  obtain bytes where bytes: "prepare_metadata env nonce key ?kd (keys_new gen_key) = Ok bytes" "unlocks env credentials bytes (keys_new gen_key)"
    using prepare_metadata_unlocks [OF assms(1,5) salt key] by blast
  obtain sc cc where loc: "get_config_and_cred_for_storage env svc config credentials = Ok (ty, sc, cc)" "place (cf_id config) sc cc = Ok path"
    using assms(2) by (auto simp: located_def)
  let ?svc' = "svc\<lparr>ws_storages := (ws_storages svc)(path \<mapsto> fresh bytes)\<rparr>"
  have "create_command env salt gen_key nonce svc config credentials = (Ok (), ?svc')"
    by (simp add: create_command_def Let_def key create_wallet_def create_wallet_keys_def loc bytes create_storage_law assms(3))
  moreover have "stored invar content env ty path credentials (keys_new gen_key) (\<lambda>_ _. None) ?svc'"
    using fresh_law [of bytes] bytes(2) by (auto simp: stored_def content_rel_def)
  moreover have "same_handles svc ?svc'" by (simp add: frame)
  ultimately show ?thesis by (intro exI [of _ ?svc']) simp
qed

text \<open>The master key is rotated in place: the new credentials unlock the same keys.\<close>

lemma rotate_stored:
  assumes "service_env_ok env" and "stored invar content env ty path credentials keys P svc" and "session_ok env ses"
    and "po_path pending = path" and "po_type pending = ty"
    and "po_rekey_data pending = map_option (\<lambda>rekey. from_passphrase_with_new_salt (ss_salt ses) rekey
           (cr_rekey_derivation_method (session_credentials ses credentials))) (cr_rekey (session_credentials ses credentials))"
  shows "\<exists>rekey st. (case po_rekey_data pending of None \<Rightarrow> Ok (key, None)
        | Some rekey_data \<Rightarrow> map_ok (\<lambda>rekey_result. (key, Some rekey_result)) (calc_master_key (sv_crypto env) rekey_data)) = Ok (key, rekey) \<and>
      rotate_master_key env (ss_nonce ses) svc pending rekey keys = (Ok (), svc\<lparr>ws_storages := st\<rparr>) \<and>
      stored invar content env ty path (next_credentials ses credentials) keys P (svc\<lparr>ws_storages := st\<rparr>)"
proof (cases "ss_rekey ses")
  case None
  then show ?thesis using assms
    by (intro exI [of _ None] exI [of _ "ws_storages svc"])
      (simp add: session_credentials_def next_credentials_def rotate_master_key_def)
next
  case (Some rm)
  obtain rekey kdm where rm: "rm = (rekey, kdm)" by (cases rm)
  let ?kd = "from_passphrase_with_new_salt (ss_salt ses) rekey kdm"
  have data: "po_rekey_data pending = Some ?kd" using assms(6) Some rm by (simp add: session_credentials_def)
  obtain key' where key': "calc_master_key (sv_crypto env) ?kd = Ok key'" "length (ss_salt ses) = SALTBYTES" "length (ss_nonce ses) = NONCEBYTES"
    using assms(3) Some rm by (auto simp: session_ok_def key_usable_def)
  obtain bytes where bytes: "prepare_metadata env (ss_nonce ses) key' ?kd keys = Ok bytes" "unlocks env (next_credentials ses credentials) bytes keys"
    using prepare_metadata_unlocks [OF assms(1) key'(3,2), of "next_credentials ses credentials" key' keys] Some rm key'(1)
    by (auto simp: next_credentials_def)
  obtain s m where s: "ws_storages svc path = Some s" "invar s" "content_rel (sv_crypto env) keys (content s) P"
      "st_get_storage_metadata (ty_ops ty) s = Ok m"
    using assms(2) by (auto simp: stored_def)
  obtain s' where s': "st_set_storage_metadata (ty_ops ty) s bytes = (Ok (), s')" "invar s'" "content s' = content s"
      "st_get_storage_metadata (ty_ops ty) s' = Ok bytes"
    using set_metadata_law [OF s(2,4)] by blast
  have "rotate_master_key env (ss_nonce ses) svc pending (Some key') keys = (Ok (), svc\<lparr>ws_storages := (ws_storages svc)(path \<mapsto> s')\<rparr>)"
    using assms(4,5) s(1) s'(1) data bytes(1) by (simp add: rotate_master_key_def)
  moreover have "stored invar content env ty path (next_credentials ses credentials) keys P (svc\<lparr>ws_storages := (ws_storages svc)(path \<mapsto> s')\<rparr>)"
    using s(3) s'(2-4) bytes(2) by (simp add: stored_def)
  ultimately show ?thesis using data key'(1)
    by (intro exI [of _ "Some key'"] exI [of _ "(ws_storages svc)(path \<mapsto> s')"]) simp
qed

lemma open_stored:
  assumes "service_env_ok env" and "located place env ty path config credentials svc"
    and "stored invar content env ty path credentials keys P svc" and "session_ok env ses" and "get_wallet_id config \<notin> ws_wallet_ids svc"
  shows "\<exists>h svc'. open_command env (ss_salt ses) (ss_nonce ses) svc config (session_credentials ses credentials) = (Ok h, svc') \<and>
    stored invar content env ty path (next_credentials ses credentials) keys P svc' \<and>
    hm_get (ws_wallets svc') h = Some \<lparr>ow_id = get_wallet_id config, ow_path = path, ow_type = ty, ow_keys = keys\<rparr> \<and>
    ws_storage_types svc' = ws_storage_types svc \<and> ws_wallet_ids svc' = insert (get_wallet_id config) (ws_wallet_ids svc)"
proof -
  let ?creds = "session_credentials ses credentials"
  obtain s m where s: "ws_storages svc path = Some s" "st_get_storage_metadata (ty_ops ty) s = Ok m" "unlocks env credentials m keys"
    using assms(3) by (auto simp: stored_def)
  obtain metadata kd key where u: "sv_metadata_from_slice env m = Some metadata"
      "from_passphrase_and_metadata (cr_key credentials) metadata (cr_key_derivation_method credentials) = Ok kd"
      "calc_master_key (sv_crypto env) kd = Ok key" "restore_keys env metadata key = Ok keys"
    using s(3) by (auto simp: unlocks_def)
  have "located place env ty path config ?creds svc" using assms(2) by (subst located_cong) simp_all
  then obtain sc cc where loc: "get_config_and_cred_for_storage env svc config ?creds = Ok (ty, sc, cc)" "place (cf_id config) sc cc = Ok path"
    by (auto simp: located_def)
  have fetch: "open_storage_and_fetch_metadata env svc config ?creds = Ok ((path, ty), metadata, kd)"
    using loc s(1,2) u(1,2) by (simp add: open_storage_and_fetch_metadata_def open_storage_def open_storage_law stored_metadata_def)
  let ?rekey = "map_option (\<lambda>rekey. from_passphrase_with_new_salt (ss_salt ses) rekey (cr_rekey_derivation_method ?creds)) (cr_rekey ?creds)"
  let ?pending = "\<lparr>po_id = get_wallet_id config, po_path = path, po_type = ty, po_metadata = metadata, po_rekey_data = ?rekey\<rparr>"
  obtain h svc0 where h: "next_handle svc = (h, svc0)" by fastforce
  define svc1 where "svc1 = svc0\<lparr>ws_pending_for_open := hm_insert (ws_pending_for_open svc0) h ?pending\<rparr>"
  have prep: "open_wallet_prepare env (ss_salt ses) svc config ?creds = (Ok (h, kd, ?rekey), svc1)"
    using assms(5) fetch h unfolding svc1_def by (simp add: open_wallet_prepare_def is_id_from_config_not_used_def Let_def)
  have pend: "hm_get (ws_pending_for_open svc1) h = Some ?pending" by (simp add: svc1_def hm_simps)
  define svc2 where "svc2 = svc1\<lparr>ws_pending_for_open := hm_remove (ws_pending_for_open svc1) h\<rparr>"
  have same: "ws_storages svc2 = ws_storages svc" "ws_storage_types svc2 = ws_storage_types svc" "ws_wallet_ids svc2 = ws_wallet_ids svc"
    using h by (auto simp: svc2_def svc1_def next_handle_def)
  have "stored invar content env ty path credentials keys P svc2" using assms(3) same(1) by (simp add: stored_def)
  then obtain rekey st where rot: "(case ?rekey of None \<Rightarrow> Ok (key, None)
        | Some rekey_data \<Rightarrow> map_ok (\<lambda>rekey_result. (key, Some rekey_result)) (calc_master_key (sv_crypto env) rekey_data)) = Ok (key, rekey)"
      "rotate_master_key env (ss_nonce ses) svc2 ?pending rekey keys = (Ok (), svc2\<lparr>ws_storages := st\<rparr>)"
      "stored invar content env ty path (next_credentials ses credentials) keys P (svc2\<lparr>ws_storages := st\<rparr>)"
    using rotate_stored [OF assms(1) _ assms(4), of path credentials keys P svc2 ?pending key] by auto
  have derive: "derive_open_keys (sv_crypto env) kd ?rekey = Ok (key, rekey)"
    unfolding derive_open_keys_def u(3) and_then.simps by (fact rot(1))
  let ?w = "\<lparr>ow_id = get_wallet_id config, ow_path = path, ow_type = ty, ow_keys = keys\<rparr>"
  let ?svc' = "svc2\<lparr>ws_storages := st, ws_wallets := hm_insert (ws_wallets svc2) h ?w,
    ws_wallet_ids := insert (get_wallet_id config) (ws_wallet_ids svc2)\<rparr>"
  have "open_command env (ss_salt ses) (ss_nonce ses) svc config ?creds = (Ok h, ?svc')"
    using pend u(4) rot(2) unfolding open_command_def prep
    by (simp add: derive open_wallet_continue_def Let_def svc2_def [symmetric])
  moreover have "stored invar content env ty path (next_credentials ses credentials) keys P ?svc'" using rot(3) by (simp add: stored_def)
  ultimately show ?thesis using same by (intro exI [of _ h] exI [of _ ?svc']) (simp add: hm_simps)
qed

lemma record_command_stored:
  assumes "crypto_ok (sv_crypto env)" and "se_foreign_keys senv" and "stored invar content env ty path credentials keys P svc"
    and "hm_get (ws_wallets svc) h = Some \<lparr>ow_id = wid, ow_path = path, ow_type = ty, ow_keys = keys\<rparr>" and "command_ok cmd"
  shows "\<exists>st. record_command env h cmd svc = (fst (map_step cmd P), svc\<lparr>ws_storages := st\<rparr>) \<and>
    stored invar content env ty path credentials keys (snd (map_step cmd P)) (svc\<lparr>ws_storages := st\<rparr>)"
proof -
  obtain s m where s: "ws_storages svc path = Some s" "invar s" "content_rel (sv_crypto env) keys (content s) P"
      "st_get_storage_metadata (ty_ops ty) s = Ok m" "unlocks env credentials m keys"
    using assms(3) by (auto simp: stored_def)
  let ?w = "\<lparr>w_id = wid, w_storage = s, w_keys = keys\<rparr>"
  obtain r w' where st: "wallet_step (ty_ops ty) (sv_crypto env) cmd ?w = (r, w')" by fastforce
  have rel: "wallet_rel invar content (sv_crypto env) ?w P" using s by (simp add: wallet_rel_def)
  have "fst (map_step cmd P) = r" "wallet_rel invar content (sv_crypto env) w' (snd (map_step cmd P))" "w_keys w' = keys"
    using wallet_step_rel [OF assms(1,2) rel assms(5) st] by simp_all
  moreover have "record_command env h cmd svc = (r, svc\<lparr>ws_storages := (ws_storages svc)(path \<mapsto> w_storage w')\<rparr>)"
    using assms(4) s(1) st by (simp add: record_command_on_wallet on_wallet_def)
  ultimately show ?thesis using s(5) s(4) wallet_step_metadata [OF st]
    by (intro exI [of _ "(ws_storages svc)(path \<mapsto> w_storage w')"]) (auto simp: stored_def wallet_rel_def)
qed

lemma record_commands_stored:
  assumes "crypto_ok (sv_crypto env)" and "se_foreign_keys senv" and "stored invar content env ty path credentials keys P svc"
    and "hm_get (ws_wallets svc) h = Some \<lparr>ow_id = wid, ow_path = path, ow_type = ty, ow_keys = keys\<rparr>" and "list_all command_ok cmds"
  shows "\<exists>st. run_steps (record_command env h) cmds svc = (fst (run_steps map_step cmds P), svc\<lparr>ws_storages := st\<rparr>) \<and>
    stored invar content env ty path credentials keys (snd (run_steps map_step cmds P)) (svc\<lparr>ws_storages := st\<rparr>)"
  using assms(3-5)
proof (induction cmds arbitrary: P svc)
  case Nil
  then show ?case by (intro exI [of _ "ws_storages svc"]) simp
next
  case (Cons cmd cmds)
  obtain st where st: "record_command env h cmd svc = (fst (map_step cmd P), svc\<lparr>ws_storages := st\<rparr>)"
      "stored invar content env ty path credentials keys (snd (map_step cmd P)) (svc\<lparr>ws_storages := st\<rparr>)"
    using record_command_stored [OF assms(1,2) Cons.prems(1,2)] Cons.prems(3) by auto
  obtain st' where "run_steps (record_command env h) cmds (svc\<lparr>ws_storages := st\<rparr>) =
        (fst (run_steps map_step cmds (snd (map_step cmd P))), svc\<lparr>ws_storages := st'\<rparr>)"
      "stored invar content env ty path credentials keys (snd (run_steps map_step cmds (snd (map_step cmd P)))) (svc\<lparr>ws_storages := st'\<rparr>)"
    using Cons.IH [OF st(2)] Cons.prems(2,3) by auto
  with st(1) show ?case by (intro exI [of _ st']) (simp add: case_prod_beta Let_def)
qed

lemma session_stored:
  assumes "service_env_ok env" and "se_foreign_keys senv" and "located place env ty path config credentials svc"
    and "stored invar content env ty path credentials keys P svc" and "session_ok env ses" and "get_wallet_id config \<notin> ws_wallet_ids svc"
  shows "\<exists>svc'. run_session env config credentials ses svc = ((Ok (), fst (run_steps map_step (ss_commands ses) P), Ok ()), svc') \<and>
    stored invar content env ty path (next_credentials ses credentials) keys (snd (run_steps map_step (ss_commands ses) P)) svc' \<and>
    located place env ty path config (next_credentials ses credentials) svc' \<and> get_wallet_id config \<notin> ws_wallet_ids svc'"
proof -
  have crypto: "crypto_ok (sv_crypto env)" using assms(1) by (simp add: service_env_ok_def)
  let ?w = "\<lparr>ow_id = get_wallet_id config, ow_path = path, ow_type = ty, ow_keys = keys\<rparr>"
  obtain h svc1 where o: "open_command env (ss_salt ses) (ss_nonce ses) svc config (session_credentials ses credentials) = (Ok h, svc1)"
      "stored invar content env ty path (next_credentials ses credentials) keys P svc1" "hm_get (ws_wallets svc1) h = Some ?w"
      "ws_storage_types svc1 = ws_storage_types svc"
    using open_stored [OF assms(1,3-6)] by blast
  have "list_all command_ok (ss_commands ses)" using assms(5) by (simp add: session_ok_def)
  then obtain st where st: "run_steps (record_command env h) (ss_commands ses) svc1 =
        (fst (run_steps map_step (ss_commands ses) P), svc1\<lparr>ws_storages := st\<rparr>)"
      "stored invar content env ty path (next_credentials ses credentials) keys (snd (run_steps map_step (ss_commands ses) P)) (svc1\<lparr>ws_storages := st\<rparr>)"
    using record_commands_stored [OF crypto assms(2) o(2,3)] by blast
  let ?svc' = "svc1\<lparr>ws_storages := st, ws_wallets := hm_remove (ws_wallets svc1) h, ws_wallet_ids := ws_wallet_ids svc1 - {get_wallet_id config}\<rparr>"
  have "run_session env config credentials ses svc = ((Ok (), fst (run_steps map_step (ss_commands ses) P), Ok ()), ?svc')"
    using o(1,3) st(1) by (simp add: run_session_def close_wallet_def close_law)
  moreover have "located place env ty path config (next_credentials ses credentials) ?svc'"
    using assms(3) o(4) by (subst located_cong [of _ svc _ credentials]) simp_all
  ultimately show ?thesis using st(2) by (intro exI [of _ ?svc']) (simp add: stored_def)
qed

lemma sessions_stored:
  assumes "service_env_ok env" and "se_foreign_keys senv" and "located place env ty path config credentials svc"
    and "stored invar content env ty path credentials keys P svc" and "list_all (session_ok env) sess" and "get_wallet_id config \<notin> ws_wallet_ids svc"
  shows "\<exists>svc'. run_sessions env config credentials sess svc = (fst (map_sessions sess P), svc') \<and>
    stored invar content env ty path (fold next_credentials sess credentials) keys (snd (map_sessions sess P)) svc' \<and>
    located place env ty path config (fold next_credentials sess credentials) svc' \<and> get_wallet_id config \<notin> ws_wallet_ids svc'"
  using assms(3-6)
proof (induction sess arbitrary: svc credentials P)
  case (Cons ses sess)
  obtain svc1 where one: "run_session env config credentials ses svc = ((Ok (), fst (run_steps map_step (ss_commands ses) P), Ok ()), svc1)"
      "stored invar content env ty path (next_credentials ses credentials) keys (snd (run_steps map_step (ss_commands ses) P)) svc1"
      "located place env ty path config (next_credentials ses credentials) svc1" "get_wallet_id config \<notin> ws_wallet_ids svc1"
    using session_stored [OF assms(1,2) Cons.prems(1,2) _ Cons.prems(4)] Cons.prems(3) by auto
  show ?case using Cons.IH [OF one(3,2) _ one(4)] Cons.prems(3) one(1) by (auto simp: case_prod_beta Let_def)
qed simp

lemma get_record_stored:
  assumes "crypto_ok (sv_crypto env)" and "stored invar content env ty path credentials keys P svc"
    and "hm_get (ws_wallets svc) h = Some \<lparr>ow_id = wid, ow_path = path, ow_type = ty, ow_keys = keys\<rparr>"
    and "record_options senv options = Some ro"
  shows "case P t n of
      None \<Rightarrow> get_record env svc h t n options = Err WalletItemNotFound
    | Some x \<Rightarrow> \<exists>r. get_record env svc h t n options = Ok r \<and> record_shows ro (t, n, x) r"
proof -
  obtain s where s: "ws_storages svc path = Some s" "invar s" "content_rel (sv_crypto env) keys (content s) P"
    using assms(2) by (auto simp: stored_def)
  then have "wallet_rel invar content (sv_crypto env) \<lparr>w_id = wid, w_storage = s, w_keys = keys\<rparr> P" by (simp add: wallet_rel_def)
  from wallet_get_shows [OF assms(1) this assms(4), of t n] show ?thesis
    using s(1) assms(3) by (auto simp: get_record_def of_wallet_def on_wallet_def split: option.splits)
qed

end

section \<open>The wallet across sessions\<close>


definition sample_sessions :: "Session list" where
  "sample_sessions =
     [\<lparr>ss_rekey = Some (''new'', ARGON2I_INT), ss_commands = take 2 sample_commands, ss_salt = replicate 32 6, ss_nonce = replicate 12 7\<rparr>,
      \<lparr>ss_rekey = None, ss_commands = drop 2 sample_commands, ss_salt = [], ss_nonce = replicate 12 8\<rparr>]"

lemma sample_service_env_ok: "service_env_ok sample_service_env"
  using sample_service_metadata sample_crypto_ok by (simp add: service_env_ok_def sample_service_env_def)

lemma sample_sessions_ok: "list_all (session_ok sample_service_env) (sample_sessions @ [\<lparr>ss_rekey = None, ss_commands = [], ss_salt = [], ss_nonce = replicate 12 8\<rparr>])"
  using sample_commands_ok
  by (simp add: sample_sessions_def sample_commands_def session_ok_def key_usable_def from_passphrase_with_new_salt_def pwhash_def
      sample_service_env_def sample_crypto_def SALTBYTES_def NONCEBYTES_def)


end
