(* ===== verification/Wallet_Commands.thy ===== *)
theory Wallet_Commands
  imports Wallet_Sessions "HOL-Library.Multiset"
begin

text \<open>
  The wallet command executor (\<open>WalletCommandExecutor\<close> of \<open>libindy/src/commands/wallet.rs\<close>) with the command queue
  and the thread pool of \<open>commands/mod.rs\<close>. A command that needs a master key has two parts; in between, the
  key is derived on a thread of the pool and other commands run. A callback is a number, and
  \<open>ex_called\<close> is the trace of the callbacks that were called. The closures passed to \<open>DeriveKey\<close> are
  the values of \<open>Continuation\<close>.
\<close>

section \<open>Commands\<close>

type_synonym callback = nat

datatype Answer = Ans_Unit "unit outcome" | Ans_Handle "int outcome" | Ans_Key "string outcome"

datatype Continuation =
    Then_Create Config Credentials KeyDerivationData int
  | Then_Open int "KeyDerivationData option"
  | Then_Rekey int bytes
  | Then_Delete Config Credentials WalletMetadata int
  | Then_Export int ExportConfig KeyDerivationData int
  | Then_Import Config Credentials KeyDerivationData int int
  | Then_Import_Key Config Credentials "bytes outcome" int int

datatype ('p, 's) ExecutorCommand =
    WC_RegisterWalletType string "('p, 's) StorageType" callback
  | WC_Create Config Credentials callback
  | WC_CreateContinue Config Credentials KeyDerivationData "bytes outcome" int
  | WC_Open Config Credentials callback
  | WC_OpenContinue int "(bytes \<times> bytes option) outcome"
  | WC_Close int callback
  | WC_Delete Config Credentials callback
  | WC_DeleteContinue Config Credentials WalletMetadata "bytes outcome" int
  | WC_Export int ExportConfig callback
  | WC_ExportContinue int ExportConfig KeyDerivationData "bytes outcome" int
  | WC_Import Config Credentials ExportConfig callback
  | WC_ImportContinue Config Credentials "(bytes \<times> bytes) outcome" int int
  | WC_GenerateKey "string option option" callback
  | WC_DeriveKey KeyDerivationData Continuation

record ('p, 's) Executor =
  ex_service :: "('p, 's) WalletService"
  ex_open_callbacks :: "(int \<times> callback) list"
  ex_pending_callbacks :: "(int \<times> callback) list"
  ex_queue :: "('p, 's) ExecutorCommand list"
  ex_jobs :: "(KeyDerivationData \<times> Continuation) list"
  ex_called :: "(callback \<times> Answer) list"

text \<open>The random values and the time a command may use, and what it uses of base 64, base 58, hex and libsodium.\<close>

record Draws =
  dr_salt :: bytes
  dr_nonce :: bytes
  dr_gen_key :: "nat \<Rightarrow> bytes"
  dr_rnds :: "nat \<Rightarrow> random"
  dr_time :: nat
  dr_randombytes :: bytes

record SeedEnv =
  sd_base64_decode :: "string \<Rightarrow> bytes option"
  sd_from_hex :: "string \<Rightarrow> bytes option"
  sd_deterministic :: "nat \<Rightarrow> bytes \<Rightarrow> bytes"
  sd_to_base58 :: "bytes \<Rightarrow> string"

definition executor_new :: "('p, 's) WalletService \<Rightarrow> ('p, 's) Executor" where
  "executor_new svc =
     \<lparr>ex_service = svc, ex_open_callbacks = [], ex_pending_callbacks = [], ex_queue = [], ex_jobs = [], ex_called = []\<rparr>"

definition send_command :: "('p, 's) ExecutorCommand \<Rightarrow> ('p, 's) Executor \<Rightarrow> ('p, 's) Executor" where
  "send_command c ex = ex\<lparr>ex_queue := ex_queue ex @ [c]\<rparr>"

definition call :: "callback \<Rightarrow> Answer \<Rightarrow> ('p, 's) Executor \<Rightarrow> ('p, 's) Executor" where
  "call cb answer ex = ex\<lparr>ex_called := ex_called ex @ [(cb, answer)]\<rparr>"

text \<open>The call of a callback with the result of a service operation.\<close>

definition answer ::
    "callback \<Rightarrow> ('r outcome \<Rightarrow> Answer) \<Rightarrow> 'r outcome \<times> ('p, 's) WalletService \<Rightarrow> ('p, 's) Executor \<Rightarrow> ('p, 's) Executor outcome" where
  "answer cb wrap res ex =
     (case fst res of Panic \<Rightarrow> Panic | r \<Rightarrow> Ok (call cb (wrap r) (ex\<lparr>ex_service := snd res\<rparr>)))"

definition next_id :: "('p, 's) Executor \<Rightarrow> int \<times> ('p, 's) Executor" where
  "next_id ex = (let (i, svc) = next_handle (ex_service ex) in (i, ex\<lparr>ex_service := svc\<rparr>))"

text \<open>\<open>get_cb!\<close>: a command whose callback is not there is dropped.\<close>

definition get_cb :: "('p, 's) Executor \<Rightarrow> int \<Rightarrow> (callback \<Rightarrow> ('p, 's) Executor \<Rightarrow> ('p, 's) Executor outcome option) \<Rightarrow> ('p, 's) Executor outcome option" where
  "get_cb ex cb_id f =
     (case hm_get (ex_pending_callbacks ex) cb_id of
        None \<Rightarrow> Some (Ok ex)
      | Some cb \<Rightarrow> f cb (ex\<lparr>ex_pending_callbacks := hm_remove (ex_pending_callbacks ex) cb_id\<rparr>))"

text \<open>A fresh callback id, under which the callback waits for the second part of its command.\<close>

definition store_cb :: "callback \<Rightarrow> ('p, 's) Executor \<Rightarrow> int \<times> ('p, 's) Executor" where
  "store_cb cb ex =
     (let (cb_id, ex') = next_id ex
      in (cb_id, ex'\<lparr>ex_pending_callbacks := hm_insert (ex_pending_callbacks ex') cb_id cb\<rparr>))"

section \<open>The parts of the commands\<close>

definition ex_create :: "Draws \<Rightarrow> Config \<Rightarrow> Credentials \<Rightarrow> callback \<Rightarrow> ('p, 's) Executor \<Rightarrow> ('p, 's) Executor" where
  "ex_create d config credentials cb ex =
     (let key_data = from_passphrase_with_new_salt (dr_salt d) (cr_key credentials) (cr_key_derivation_method credentials);
          (cb_id, ex1) = store_cb cb ex
      in send_command (WC_DeriveKey key_data (Then_Create config credentials key_data cb_id)) ex1)"

definition ex_create_continue ::
    "ServiceEnv \<Rightarrow> Draws \<Rightarrow> int \<Rightarrow> Config \<Rightarrow> Credentials \<Rightarrow> KeyDerivationData \<Rightarrow> bytes outcome \<Rightarrow> ('p, 's) Executor \<Rightarrow>
     ('p, 's) Executor outcome option" where
  "ex_create_continue env d cb_id config credentials key_data key_result ex =
     get_cb ex cb_id (\<lambda>cb ex. Some (answer cb Ans_Unit
       (case key_result of
          Ok key \<Rightarrow> create_wallet env (dr_gen_key d) (dr_nonce d) (ex_service ex) config credentials key_data key
        | Err e \<Rightarrow> (Err e, ex_service ex)
        | Panic \<Rightarrow> (Panic, ex_service ex)) ex))"

definition ex_open :: "ServiceEnv \<Rightarrow> Draws \<Rightarrow> Config \<Rightarrow> Credentials \<Rightarrow> callback \<Rightarrow> ('p, 's) Executor \<Rightarrow> ('p, 's) Executor outcome" where
  "ex_open env d config credentials cb ex =
     (let (r, svc) = open_wallet_prepare env (dr_salt d) (ex_service ex) config credentials
      in case r of
           Err e \<Rightarrow> answer cb Ans_Handle (Err e, svc) ex
         | Panic \<Rightarrow> Panic
         | Ok (wallet_handle, key_derivation_data, rekey_data) \<Rightarrow>
             Ok (send_command (WC_DeriveKey key_derivation_data (Then_Open wallet_handle rekey_data))
                  (ex\<lparr>ex_service := svc, ex_open_callbacks := hm_insert (ex_open_callbacks ex) wallet_handle cb\<rparr>)))"

definition ex_open_continue ::
    "ServiceEnv \<Rightarrow> Draws \<Rightarrow> int \<Rightarrow> (bytes \<times> bytes option) outcome \<Rightarrow> ('p, 's) Executor \<Rightarrow> ('p, 's) Executor outcome" where
  "ex_open_continue env d wallet_handle key_result ex =
     (case hm_get (ex_open_callbacks ex) wallet_handle of
        None \<Rightarrow> Panic
      | Some cb \<Rightarrow>
          answer cb Ans_Handle
            (case key_result of
               Ok (key, rekey) \<Rightarrow> open_wallet_continue env (dr_nonce d) (ex_service ex) wallet_handle key rekey
             | Err e \<Rightarrow> (Err e, ex_service ex)
             | Panic \<Rightarrow> (Panic, ex_service ex))
            (ex\<lparr>ex_open_callbacks := hm_remove (ex_open_callbacks ex) wallet_handle\<rparr>))"

definition ex_delete :: "ServiceEnv \<Rightarrow> Config \<Rightarrow> Credentials \<Rightarrow> callback \<Rightarrow> ('p, 's) Executor \<Rightarrow> ('p, 's) Executor outcome" where
  "ex_delete env config credentials cb ex =
     (case delete_wallet_prepare env (ex_service ex) config credentials of
        Err e \<Rightarrow> answer cb Ans_Unit (Err e, ex_service ex) ex
      | Panic \<Rightarrow> Panic
      | Ok (metadata, key_derivation_data) \<Rightarrow>
          (let (cb_id, ex1) = store_cb cb ex
           in Ok (send_command (WC_DeriveKey key_derivation_data (Then_Delete config credentials metadata cb_id)) ex1)))"

definition ex_delete_continue ::
    "ServiceEnv \<Rightarrow> int \<Rightarrow> Config \<Rightarrow> Credentials \<Rightarrow> WalletMetadata \<Rightarrow> bytes outcome \<Rightarrow> ('p, 's) Executor \<Rightarrow>
     ('p, 's) Executor outcome option" where
  "ex_delete_continue env cb_id config credentials metadata key_result ex =
     get_cb ex cb_id (\<lambda>cb ex. Some (answer cb Ans_Unit
       (case key_result of
          Ok key \<Rightarrow> delete_wallet_continue env (ex_service ex) config credentials metadata key
        | Err e \<Rightarrow> (Err e, ex_service ex)
        | Panic \<Rightarrow> (Panic, ex_service ex)) ex))"

definition ex_export :: "Draws \<Rightarrow> int \<Rightarrow> ExportConfig \<Rightarrow> callback \<Rightarrow> ('p, 's) Executor \<Rightarrow> ('p, 's) Executor" where
  "ex_export d wallet_handle export_config cb ex =
     (let key_data = from_passphrase_with_new_salt (dr_salt d) (ec_key export_config) (ec_key_derivation_method export_config);
          (cb_id, ex1) = store_cb cb ex
      in send_command (WC_DeriveKey key_data (Then_Export wallet_handle export_config key_data cb_id)) ex1)"

definition ex_export_continue ::
    "ServiceEnv \<Rightarrow> Draws \<Rightarrow> int \<Rightarrow> int \<Rightarrow> ExportConfig \<Rightarrow> KeyDerivationData \<Rightarrow> bytes outcome \<Rightarrow> ('p, 's) Executor \<Rightarrow>
     ('p, 's) Executor outcome option" where
  "ex_export_continue env d cb_id wallet_handle export_config key_data key_result ex =
     get_cb ex cb_id (\<lambda>cb ex. map_option (\<lambda>res. answer cb Ans_Unit res ex)
       (case key_result of
          Ok key \<Rightarrow> export_wallet env (dr_nonce d) (dr_time d) (ex_service ex) wallet_handle export_config 0 key_data key
        | Err e \<Rightarrow> Some (Err e, ex_service ex)
        | Panic \<Rightarrow> Some (Panic, ex_service ex)))"

definition ex_import ::
    "ServiceEnv \<Rightarrow> Draws \<Rightarrow> Config \<Rightarrow> Credentials \<Rightarrow> ExportConfig \<Rightarrow> callback \<Rightarrow> ('p, 's) Executor \<Rightarrow> ('p, 's) Executor outcome" where
  "ex_import env d config credentials import_config cb ex =
     (let (r, svc) = import_wallet_prepare env (dr_salt d) (ex_service ex) credentials import_config
      in case r of
           Err e \<Rightarrow> answer cb Ans_Unit (Err e, svc) ex
         | Panic \<Rightarrow> Panic
         | Ok (wallet_handle, key_data, import_key_data) \<Rightarrow>
             (let (cb_id, ex1) = store_cb cb (ex\<lparr>ex_service := svc\<rparr>)
              in Ok (send_command (WC_DeriveKey import_key_data (Then_Import config credentials key_data wallet_handle cb_id)) ex1)))"

definition ex_import_continue ::
    "ServiceEnv \<Rightarrow> Draws \<Rightarrow> int \<Rightarrow> int \<Rightarrow> Config \<Rightarrow> Credentials \<Rightarrow> (bytes \<times> bytes) outcome \<Rightarrow> ('p, 's) Executor \<Rightarrow>
     ('p, 's) Executor outcome option" where
  "ex_import_continue env d cb_id wallet_handle config credential key_result ex =
     get_cb ex cb_id (\<lambda>cb ex. map_option (\<lambda>res. answer cb Ans_Unit res ex)
       (case key_result of
          Ok (import_key, key) \<Rightarrow>
            import_wallet_continue env (dr_gen_key d) (dr_nonce d) (dr_rnds d) (ex_service ex) wallet_handle config credential import_key key
        | Err e \<Rightarrow> Some (Err e, ex_service ex)
        | Panic \<Rightarrow> Some (Panic, ex_service ex)))"

text \<open>\<open>convert_seed\<close> of the crypto service: 32 bytes, base 64 or hex.\<close>

definition SEEDBYTES :: nat where "SEEDBYTES = 32"

definition convert_seed :: "SeedEnv \<Rightarrow> string option \<Rightarrow> bytes option outcome" where
  "convert_seed sd seed =
     (case seed of
        None \<Rightarrow> Ok None
      | Some seed \<Rightarrow>
          and_then
            (if length (str_bytes seed) = SEEDBYTES then Ok (str_bytes seed)
             else if seed \<noteq> [] \<and> last seed = CHR ''='' then
               and_then (ok_or InvalidStructure (sd_base64_decode sd seed)) (\<lambda>decoded.
                 if length decoded = SEEDBYTES then Ok decoded else Err InvalidStructure)
             else if length (str_bytes seed) = SEEDBYTES * 2 then ok_or InvalidStructure (sd_from_hex sd seed)
             else Err InvalidStructure)
            (\<lambda>bytes. map_ok Some (from_slice SEEDBYTES bytes)))"

definition generate_key :: "SeedEnv \<Rightarrow> Draws \<Rightarrow> string option option \<Rightarrow> string outcome" where
  "generate_key sd d config =
     (let seed = (case config of None \<Rightarrow> None | Some seed \<Rightarrow> seed)
      in and_then (convert_seed sd seed) (\<lambda>seed.
         and_then
           (case seed of
              Some seed \<Rightarrow> and_then (from_slice SEEDBYTES seed) (\<lambda>seed. Ok (sd_deterministic sd KEYBYTES seed))
            | None \<Rightarrow> Ok (dr_randombytes d))
           (\<lambda>key. Ok (sd_to_base58 sd key))))"

text \<open>The closures that run on the pool with a derived key; each sends one command.\<close>

fun run_continuation :: "Continuation \<Rightarrow> bytes outcome \<Rightarrow> ('p, 's) ExecutorCommand" where
  "run_continuation (Then_Create config credentials key_data cb_id) key_result =
     WC_CreateContinue config credentials key_data key_result cb_id"
| "run_continuation (Then_Open wallet_handle rekey_data) key_result =
     (case (key_result, rekey_data) of
        (Ok key_result, Some rekey_data) \<Rightarrow> WC_DeriveKey rekey_data (Then_Rekey wallet_handle key_result)
      | (key_result, _) \<Rightarrow> WC_OpenContinue wallet_handle (map_ok (\<lambda>kr. (kr, None)) key_result))"
| "run_continuation (Then_Rekey wallet_handle key) rekey_result =
     WC_OpenContinue wallet_handle (map_ok (\<lambda>rekey_result. (key, Some rekey_result)) rekey_result)"
| "run_continuation (Then_Delete config credentials metadata cb_id) key_result =
     WC_DeleteContinue config credentials metadata key_result cb_id"
| "run_continuation (Then_Export wallet_handle export_config key_data cb_id) key_result =
     WC_ExportContinue wallet_handle export_config key_data key_result cb_id"
| "run_continuation (Then_Import config credentials key_data wallet_handle cb_id) import_key_result =
     WC_DeriveKey key_data (Then_Import_Key config credentials import_key_result wallet_handle cb_id)"
| "run_continuation (Then_Import_Key config credentials import_key_result wallet_handle cb_id) key_result =
     WC_ImportContinue config credentials
       (and_then import_key_result (\<lambda>import_key. map_ok (\<lambda>key. (import_key, key)) key_result)) wallet_handle cb_id"

fun execute ::
    "ServiceEnv \<Rightarrow> SeedEnv \<Rightarrow> Draws \<Rightarrow> ('p, 's) ExecutorCommand \<Rightarrow> ('p, 's) Executor \<Rightarrow> ('p, 's) Executor outcome option" where
  "execute env sd d (WC_RegisterWalletType type plugged cb) ex =
     Some (answer cb Ans_Unit (register_wallet_storage (ex_service ex) type plugged) ex)"
| "execute env sd d (WC_Create config credentials cb) ex = Some (Ok (ex_create d config credentials cb ex))"
| "execute env sd d (WC_CreateContinue config credentials key_data key_result cb_id) ex =
     ex_create_continue env d cb_id config credentials key_data key_result ex"
| "execute env sd d (WC_Open config credentials cb) ex = Some (ex_open env d config credentials cb ex)"
| "execute env sd d (WC_OpenContinue wallet_handle key_result) ex = Some (ex_open_continue env d wallet_handle key_result ex)"
| "execute env sd d (WC_Close handle cb) ex = Some (answer cb Ans_Unit (close_wallet (ex_service ex) handle) ex)"
| "execute env sd d (WC_Delete config credentials cb) ex = Some (ex_delete env config credentials cb ex)"
| "execute env sd d (WC_DeleteContinue config credentials metadata key_result cb_id) ex =
     ex_delete_continue env cb_id config credentials metadata key_result ex"
| "execute env sd d (WC_Export wallet_handle export_config cb) ex = Some (Ok (ex_export d wallet_handle export_config cb ex))"
| "execute env sd d (WC_ExportContinue wallet_handle export_config key_data key_result cb_id) ex =
     ex_export_continue env d cb_id wallet_handle export_config key_data key_result ex"
| "execute env sd d (WC_Import config credentials import_config cb) ex = Some (ex_import env d config credentials import_config cb ex)"
| "execute env sd d (WC_ImportContinue config credential key_result wallet_handle cb_id) ex =
     ex_import_continue env d cb_id wallet_handle config credential key_result ex"
| "execute env sd d (WC_GenerateKey config cb) ex = Some (answer cb Ans_Key (generate_key sd d config, ex_service ex) ex)"
| "execute env sd d (WC_DeriveKey key_data k) ex = Some (Ok (ex\<lparr>ex_jobs := ex_jobs ex @ [(key_data, k)]\<rparr>))"

section \<open>Runs\<close>

text \<open>The callback a client passes with a command.\<close>

fun callbacks_of :: "('p, 's) ExecutorCommand \<Rightarrow> callback list" where
  "callbacks_of (WC_RegisterWalletType _ _ cb) = [cb]"
| "callbacks_of (WC_Create _ _ cb) = [cb]"
| "callbacks_of (WC_Open _ _ cb) = [cb]"
| "callbacks_of (WC_Close _ cb) = [cb]"
| "callbacks_of (WC_Delete _ _ cb) = [cb]"
| "callbacks_of (WC_Export _ _ cb) = [cb]"
| "callbacks_of (WC_Import _ _ _ cb) = [cb]"
| "callbacks_of (WC_GenerateKey _ cb) = [cb]"
| "callbacks_of _ = []"

text \<open>
  The steps of the process: a client submits a command, the executor runs the first command of the queue, a
  thread of the pool finishes one of the derivations, in any order, or another executor uses the
  wallet service, for records or for an id. The first component collects the submitted callbacks.
\<close>

inductive executor_step ::
    "ServiceEnv \<Rightarrow> SeedEnv \<Rightarrow> callback list \<times> ('p, 's) Executor \<Rightarrow> callback list \<times> ('p, 's) Executor \<Rightarrow> bool" for env sd where
  submitted: "callbacks_of c \<noteq> [] \<Longrightarrow> executor_step env sd (subs, ex) (subs @ callbacks_of c, send_command c ex)"
| executed: "ex_queue ex = c # q \<Longrightarrow> execute env sd d c (ex\<lparr>ex_queue := q\<rparr>) = Some (Ok ex') \<Longrightarrow> executor_step env sd (subs, ex) (subs, ex')"
| derived: "ex_jobs ex = js @ (key_data, k) # js' \<Longrightarrow>
    executor_step env sd (subs, ex)
      (subs, send_command (run_continuation k (calc_master_key (sv_crypto env) key_data)) (ex\<lparr>ex_jobs := js @ js'\<rparr>))"
| other: "svc' = snd (next_handle (ex_service ex)) \<or> same_handles (ex_service ex) svc' \<Longrightarrow>
    executor_step env sd (subs, ex) (subs, ex\<lparr>ex_service := svc'\<rparr>)"

section \<open>What waits for what\<close>

text \<open>The callback ids, opened handles and imported handles that a continuation or a command refers to.\<close>

fun cont_cbs :: "Continuation \<Rightarrow> int list" where
  "cont_cbs (Then_Create _ _ _ cb_id) = [cb_id]"
| "cont_cbs (Then_Delete _ _ _ cb_id) = [cb_id]"
| "cont_cbs (Then_Export _ _ _ cb_id) = [cb_id]"
| "cont_cbs (Then_Import _ _ _ _ cb_id) = [cb_id]"
| "cont_cbs (Then_Import_Key _ _ _ _ cb_id) = [cb_id]"
| "cont_cbs _ = []"

fun cont_opens :: "Continuation \<Rightarrow> int list" where
  "cont_opens (Then_Open h _) = [h]"
| "cont_opens (Then_Rekey h _) = [h]"
| "cont_opens _ = []"

fun cont_imports :: "Continuation \<Rightarrow> int list" where
  "cont_imports (Then_Import _ _ _ h _) = [h]"
| "cont_imports (Then_Import_Key _ _ _ h _) = [h]"
| "cont_imports _ = []"

fun cmd_refs :: "(Continuation \<Rightarrow> int list) \<Rightarrow> (('p, 's) ExecutorCommand \<Rightarrow> int list) \<Rightarrow> ('p, 's) ExecutorCommand \<Rightarrow> int list" where
  "cmd_refs f g (WC_DeriveKey _ k) = f k"
| "cmd_refs f g c = g c"

fun cmd_cbs :: "('p, 's) ExecutorCommand \<Rightarrow> int list" where
  "cmd_cbs (WC_CreateContinue _ _ _ _ cb_id) = [cb_id]"
| "cmd_cbs (WC_DeleteContinue _ _ _ _ cb_id) = [cb_id]"
| "cmd_cbs (WC_ExportContinue _ _ _ _ cb_id) = [cb_id]"
| "cmd_cbs (WC_ImportContinue _ _ _ _ cb_id) = [cb_id]"
| "cmd_cbs _ = []"

fun cmd_opens :: "('p, 's) ExecutorCommand \<Rightarrow> int list" where
  "cmd_opens (WC_OpenContinue h _) = [h]"
| "cmd_opens _ = []"

fun cmd_imports :: "('p, 's) ExecutorCommand \<Rightarrow> int list" where
  "cmd_imports (WC_ImportContinue _ _ _ h _) = [h]"
| "cmd_imports _ = []"

definition refs :: "(Continuation \<Rightarrow> int list) \<Rightarrow> (('p, 's) ExecutorCommand \<Rightarrow> int list) \<Rightarrow> ('p, 's) Executor \<Rightarrow> int multiset" where
  "refs f g ex = \<Sum>\<^sub># (image_mset (\<lambda>c. mset (cmd_refs f g c)) (mset (ex_queue ex))) + \<Sum>\<^sub># (image_mset (\<lambda>(_, k). mset (f k)) (mset (ex_jobs ex)))"

abbreviation cb_refs :: "('p, 's) Executor \<Rightarrow> int multiset" where
  "cb_refs \<equiv> refs cont_cbs cmd_cbs"

abbreviation open_refs :: "('p, 's) Executor \<Rightarrow> int multiset" where
  "open_refs \<equiv> refs cont_opens cmd_opens"

abbreviation import_refs :: "('p, 's) Executor \<Rightarrow> int multiset" where
  "import_refs \<equiv> refs cont_imports cmd_imports"

definition keys_of :: "(int \<times> 'v) list \<Rightarrow> int multiset" where
  "keys_of m = mset (map fst m)"

definition values_of :: "(int \<times> 'v) list \<Rightarrow> 'v multiset" where
  "values_of m = mset (map snd m)"

definition queued_callbacks :: "('p, 's) Executor \<Rightarrow> callback multiset" where
  "queued_callbacks ex = \<Sum>\<^sub># (image_mset (\<lambda>c. mset (callbacks_of c)) (mset (ex_queue ex)))"

text \<open>
  A waiting callback is referred to exactly once, what is referred to waits, and every submitted callback
  waits or was called. While a command runs it holds references \<open>R\<close> to callbacks, \<open>Os\<close> to openings and \<open>I\<close> to
  imports, and callbacks \<open>T\<close>.
\<close>

definition balanced :: "int list \<Rightarrow> int list \<Rightarrow> int list \<Rightarrow> callback list \<Rightarrow> callback list \<Rightarrow> ('p, 's) Executor \<Rightarrow> bool" where
  "balanced R Os I T subs ex \<longleftrightarrow>
     service_inv (ex_service ex) \<and>
     cb_refs ex + mset R = keys_of (ex_pending_callbacks ex) \<and> distinct (map fst (ex_pending_callbacks ex)) \<and>
     (\<forall>i \<in> fst ` set (ex_pending_callbacks ex). drawn (ws_ids_counter (ex_service ex)) i) \<and>
     open_refs ex + mset Os = keys_of (ex_open_callbacks ex) \<and> distinct (map fst (ex_open_callbacks ex)) \<and>
     fst ` set (ex_open_callbacks ex) \<subseteq> fst ` set (ws_pending_for_open (ex_service ex)) \<and>
     import_refs ex + mset I \<subseteq># keys_of (ws_pending_for_import (ex_service ex)) \<and>
     mset (map fst (ex_called ex)) + queued_callbacks ex + values_of (ex_pending_callbacks ex) +
       values_of (ex_open_callbacks ex) + mset T = mset subs"

lemma refs_simps [simp]:
  "refs f g (send_command c ex) = refs f g ex + mset (cmd_refs f g c)"
  "refs f g (call cb a ex) = refs f g ex"
  "refs f g (ex\<lparr>ex_service := svc\<rparr>) = refs f g ex"
  "refs f g (ex\<lparr>ex_pending_callbacks := m\<rparr>) = refs f g ex"
  "refs f g (ex\<lparr>ex_open_callbacks := m\<rparr>) = refs f g ex"
  "refs f g (ex\<lparr>ex_jobs := ex_jobs ex @ [(key_data, k)]\<rparr>) = refs f g ex + mset (f k)"
  by (simp_all add: refs_def send_command_def call_def ac_simps)

lemma refs_pop: "ex_queue ex = c # q \<Longrightarrow> refs f g ex = refs f g (ex\<lparr>ex_queue := q\<rparr>) + mset (cmd_refs f g c)"
  by (simp add: refs_def ac_simps)

lemma refs_job: "ex_jobs ex = js @ (key_data, k) # js' \<Longrightarrow> refs f g ex = refs f g (ex\<lparr>ex_jobs := js @ js'\<rparr>) + mset (f k)"
  by (simp add: refs_def ac_simps)

text \<open>A derivation hands its references over to the command it sends.\<close>

lemma run_continuation_refs:
  "cmd_refs cont_cbs cmd_cbs (run_continuation k r) = cont_cbs k"
  "cmd_refs cont_opens cmd_opens (run_continuation k r) = cont_opens k"
  "cmd_refs cont_imports cmd_imports (run_continuation k r) = cont_imports k"
  "callbacks_of (run_continuation k r) = []"
  by (cases k; auto split: outcome.split option.split)+

lemma client_refs:
  "callbacks_of c \<noteq> [] \<Longrightarrow> cmd_refs cont_cbs cmd_cbs c = [] \<and> cmd_refs cont_opens cmd_opens c = [] \<and> cmd_refs cont_imports cmd_imports c = []"
  by (cases c) auto

lemma keys_of_insert: "k \<notin> fst ` set m \<Longrightarrow> keys_of (hm_insert m k v) = add_mset k (keys_of m)"
  "k \<notin> fst ` set m \<Longrightarrow> values_of (hm_insert m k v) = add_mset v (values_of m)"
  by (simp_all add: keys_of_def values_of_def hm_insert_snoc)

lemma keys_of_remove: "hm_get m k = Some v \<Longrightarrow> add_mset k (keys_of (hm_remove m k)) = keys_of m"
  "hm_get m k = Some v \<Longrightarrow> add_mset v (values_of (hm_remove m k)) = values_of m"
  by (induction m k rule: hm_remove.induct; auto simp: keys_of_def values_of_def add_mset_commute split: if_splits)+

lemma queued_simps [simp]:
  "queued_callbacks (send_command c ex) = queued_callbacks ex + mset (callbacks_of c)"
  "queued_callbacks (call cb a ex) = queued_callbacks ex"
  "queued_callbacks (ex\<lparr>ex_service := svc\<rparr>) = queued_callbacks ex"
  "queued_callbacks (ex\<lparr>ex_pending_callbacks := m\<rparr>) = queued_callbacks ex"
  "queued_callbacks (ex\<lparr>ex_open_callbacks := m'\<rparr>) = queued_callbacks ex"
  "queued_callbacks (ex\<lparr>ex_jobs := js\<rparr>) = queued_callbacks ex"
  by (simp_all add: queued_callbacks_def send_command_def call_def ac_simps)

lemma queued_pop: "ex_queue ex = c # q \<Longrightarrow> queued_callbacks ex = queued_callbacks (ex\<lparr>ex_queue := q\<rparr>) + mset (callbacks_of c)"
  by (simp add: queued_callbacks_def ac_simps)

lemma executor_fields [simp]:
  "ex_service (send_command c ex) = ex_service ex" "ex_pending_callbacks (send_command c ex) = ex_pending_callbacks ex"
  "ex_open_callbacks (send_command c ex) = ex_open_callbacks ex" "ex_called (send_command c ex) = ex_called ex"
  "ex_service (call cb a ex) = ex_service ex" "ex_pending_callbacks (call cb a ex) = ex_pending_callbacks ex"
  "ex_open_callbacks (call cb a ex) = ex_open_callbacks ex" "ex_called (call cb a ex) = ex_called ex @ [(cb, a)]"
  by (simp_all add: send_command_def call_def)

lemma balanced_pop:
  "balanced [] [] [] [] subs ex \<Longrightarrow> ex_queue ex = c # q \<Longrightarrow>
   balanced (cmd_refs cont_cbs cmd_cbs c) (cmd_refs cont_opens cmd_opens c) (cmd_refs cont_imports cmd_imports c) (callbacks_of c) subs (ex\<lparr>ex_queue := q\<rparr>)"
  by (simp add: balanced_def refs_pop queued_pop ac_simps)

lemma balanced_send:
  "balanced (cmd_refs cont_cbs cmd_cbs c) (cmd_refs cont_opens cmd_opens c) (cmd_refs cont_imports cmd_imports c) (callbacks_of c) subs ex \<Longrightarrow>
   balanced [] [] [] [] subs (send_command c ex)"
  by (simp add: balanced_def ac_simps)

lemma balanced_job:
  "balanced [] [] [] [] subs ex \<Longrightarrow> ex_jobs ex = js @ (key_data, k) # js' \<Longrightarrow>
   balanced (cont_cbs k) (cont_opens k) (cont_imports k) [] subs (ex\<lparr>ex_jobs := js @ js'\<rparr>)"
  by (simp add: balanced_def refs_job)

lemma balanced_call: "balanced R Os I [cb] subs ex \<Longrightarrow> balanced R Os I [] subs (call cb a ex)"
  by (simp add: balanced_def)

lemma balanced_submit: "balanced [] [] [] [] subs ex \<Longrightarrow> callbacks_of c \<noteq> [] \<Longrightarrow> balanced [] [] [] [] (subs @ callbacks_of c) (send_command c ex)"
  using client_refs [of c] by (simp add: balanced_def ac_simps)

text \<open>A change of the service that keeps what the executor waits for.\<close>

lemma balanced_service:
  assumes "balanced R Os I T subs ex" and "service_inv svc'" and "ws_ids_counter (ex_service ex) \<le> ws_ids_counter svc'"
    and "fst ` set (ws_pending_for_open (ex_service ex)) \<subseteq> fst ` set (ws_pending_for_open svc')"
    and "keys_of (ws_pending_for_import (ex_service ex)) \<subseteq># keys_of (ws_pending_for_import svc')"
  shows "balanced R Os I T subs (ex\<lparr>ex_service := svc'\<rparr>)"
  using assms by (auto simp: balanced_def drawn_def intro: subset_mset.order_trans) force

lemma balanced_same:
  assumes "balanced R Os I T subs ex" and "same_handles (ex_service ex) svc'"
  shows "balanced R Os I T subs (ex\<lparr>ex_service := svc'\<rparr>)"
  using assms(2) same_handles_inv [OF assms(2)] assms(1)
  by (intro balanced_service [OF assms(1)]) (simp_all add: same_handles_def balanced_def)

lemma balanced_next_id:
  assumes "balanced R Os I T subs ex" and "ws_ids_counter (ex_service ex) + 1 < 2 ^ 31"
  shows "balanced R Os I T subs (ex\<lparr>ex_service := snd (next_handle (ex_service ex))\<rparr>)"
proof -
  let ?svc = "snd (next_handle (ex_service ex))"
  have inv: "service_inv (ex_service ex)" using assms(1) by (simp add: balanced_def)
  have "service_inv ?svc" by (rule service_inv_step [OF step_id inv]) (use assms(2) in \<open>simp add: next_handle_def\<close>)
  then show ?thesis by (intro balanced_service [OF assms(1)]) (simp_all add: next_handle_def)
qed

lemma balanced_store_cb:
  assumes "balanced R Os I (cb # T) subs ex" and "store_cb cb ex = (i, ex')" and "ws_ids_counter (ex_service ex) + 1 < 2 ^ 31"
  shows "balanced (i # R) Os I T subs ex'"
proof -
  let ?svc = "snd (next_handle (ex_service ex))"
  have i: "i = int (ws_ids_counter (ex_service ex) + 1)"
    and ex': "ex' = ex\<lparr>ex_service := ?svc, ex_pending_callbacks := hm_insert (ex_pending_callbacks ex) i cb\<rparr>"
    using assms(2) by (simp_all add: store_cb_def next_id_def next_handle_small [OF assms(3)] Let_def) auto
  have new: "i \<notin> fst ` set (ex_pending_callbacks ex)" using assms(1) by (auto simp: balanced_def drawn_def i)
  have drawn: "drawn (ws_ids_counter ?svc) i" using assms(1) by (simp add: i balanced_def service_inv_def drawn_def next_handle_small [OF assms(3)])
  have "distinct (map fst (hm_insert (ex_pending_callbacks ex) i cb))"
    using assms(1) new by (simp add: balanced_def hm_insert_snoc)
  with balanced_next_id [OF assms(1,3)] new drawn show ?thesis
    unfolding ex' by (auto simp: balanced_def keys_of_insert hm_simps)
qed

lemma balanced_get_cb:
  assumes "balanced (i # R) Os I T subs ex"
  shows "\<exists>cb. hm_get (ex_pending_callbacks ex) i = Some cb \<and>
    balanced R Os I (cb # T) subs (ex\<lparr>ex_pending_callbacks := hm_remove (ex_pending_callbacks ex) i\<rparr>)"
proof -
  have "i \<in># keys_of (ex_pending_callbacks ex)" using assms unfolding balanced_def by (metis mset.simps(2) union_iff union_single_eq_member)
  then obtain cb where cb: "hm_get (ex_pending_callbacks ex) i = Some cb"
    by (cases "hm_get (ex_pending_callbacks ex) i") (auto simp: keys_of_def hm_simps)
  have "distinct (map fst (hm_remove (ex_pending_callbacks ex) i))"
    using assms distinct_hm_remove [of "[]" fst "ex_pending_callbacks ex" "[]" i] by (simp add: balanced_def)
  moreover have "drawn (ws_ids_counter (ex_service ex)) (fst x)" if "x \<in> set (hm_remove (ex_pending_callbacks ex) i)" for x
    using assms set_hm_remove [OF that] by (simp add: balanced_def)
  ultimately have "balanced R Os I (cb # T) subs (ex\<lparr>ex_pending_callbacks := hm_remove (ex_pending_callbacks ex) i\<rparr>)"
    using assms by (auto simp: balanced_def keys_of_remove [OF cb, symmetric])
  with cb show ?thesis by blast
qed

lemma balanced_open:
  assumes "balanced R Os I (cb # T) subs ex" and "h \<notin> fst ` set (ws_pending_for_open (ex_service ex))"
    and "service_inv svc'" and "ws_ids_counter (ex_service ex) \<le> ws_ids_counter svc'"
    and "fst ` set (ws_pending_for_open svc') = insert h (fst ` set (ws_pending_for_open (ex_service ex)))"
    and "ws_pending_for_import svc' = ws_pending_for_import (ex_service ex)"
  shows "balanced R (h # Os) I T subs (ex\<lparr>ex_service := svc', ex_open_callbacks := hm_insert (ex_open_callbacks ex) h cb\<rparr>)"
proof -
  have new: "h \<notin> fst ` set (ex_open_callbacks ex)" using assms(1,2) by (auto simp: balanced_def)
  have "balanced R Os I (cb # T) subs (ex\<lparr>ex_service := svc'\<rparr>)"
    by (rule balanced_service [OF assms(1,3,4)]) (use assms(5,6) in auto)
  moreover have "distinct (map fst (hm_insert (ex_open_callbacks ex) h cb))" using assms(1) new by (simp add: balanced_def hm_insert_snoc)
  ultimately show ?thesis using new assms(5) by (auto simp: balanced_def keys_of_insert hm_simps)
qed

lemma balanced_get_open:
  assumes "balanced R (h # Os) I T subs ex"
  shows "\<exists>cb. hm_get (ex_open_callbacks ex) h = Some cb \<and>
    balanced R Os I (cb # T) subs (ex\<lparr>ex_open_callbacks := hm_remove (ex_open_callbacks ex) h\<rparr>) \<and>
    fst ` set (hm_remove (ex_open_callbacks ex) h) = fst ` set (ex_open_callbacks ex) - {h}"
proof -
  have "h \<in># keys_of (ex_open_callbacks ex)" using assms unfolding balanced_def by (metis mset.simps(2) union_iff union_single_eq_member)
  then obtain cb where cb: "hm_get (ex_open_callbacks ex) h = Some cb"
    by (cases "hm_get (ex_open_callbacks ex) h") (auto simp: keys_of_def hm_simps)
  have dist: "distinct (map fst (ex_open_callbacks ex))" using assms by (simp add: balanced_def)
  then have "distinct (map fst (hm_remove (ex_open_callbacks ex) h))"
    using distinct_hm_remove [of "[]" fst "ex_open_callbacks ex" "[]" h] by simp
  moreover have keys: "fst ` set (hm_remove (ex_open_callbacks ex) h) = fst ` set (ex_open_callbacks ex) - {h}"
    using inj_on_image_set_diff [of fst "set (ex_open_callbacks ex)" "set (ex_open_callbacks ex)" "{(h, cb)}"] dist
      hm_get_Some_in [OF cb] unfolding hm_remove_absent [OF cb dist] by (simp add: distinct_map)
  ultimately have "balanced R Os I (cb # T) subs (ex\<lparr>ex_open_callbacks := hm_remove (ex_open_callbacks ex) h\<rparr>)"
    using assms by (auto simp: balanced_def keys_of_remove [OF cb, symmetric])
  with cb keys show ?thesis by blast
qed

lemma balanced_drop_import: "balanced R Os (h # I) T subs ex \<Longrightarrow> balanced R Os I T subs ex"
  unfolding balanced_def by (auto dest: mset_subset_eq_insertD subset_mset.less_imp_le)

lemma balanced_answer:
  assumes "balanced R Os I [cb] subs (ex\<lparr>ex_service := snd res\<rparr>)" and "answer cb wrap res ex = Ok ex'"
  shows "balanced R Os I [] subs ex'"
  using assms balanced_call [OF assms(1)] by (auto simp: answer_def split: outcome.splits)

lemma balanced_answer_frame:
  assumes "balanced R Os I [cb] subs ex" and "answer cb wrap res ex = Ok ex'" and "same_handles (ex_service ex) (snd res)"
  shows "balanced R Os I [] subs ex'"
  by (rule balanced_answer [OF balanced_same [OF assms(1,3)] assms(2)])

lemma balanced_answer_same:
  assumes "balanced R Os I [cb] subs ex" and "answer cb wrap (r, ex_service ex) ex = Ok ex'"
  shows "balanced R Os I [] subs ex'"
  by (rule balanced_answer_frame [OF assms]) (simp add: frame)

text \<open>The service in the handlers of the executor.\<close>

lemma service_ops_same:
  "same_handles svc (snd (create_wallet env gen_key nonce svc config credentials key_data master_key))"
  "same_handles svc (snd (delete_wallet_continue env svc config credentials metadata master_key))"
  "same_handles svc (snd (register_wallet_storage svc type plugged))"
  by (simp_all add: frame)

lemma balanced_close:
  assumes "balanced R Os I T subs ex" and "ws_ids_counter (ex_service ex) < 2 ^ 31"
  shows "balanced R Os I T subs (ex\<lparr>ex_service := snd (close_wallet (ex_service ex) handle)\<rparr>)"
proof -
  have "service_inv (ex_service ex)" using assms by (simp add: balanced_def)
  then have "service_inv (snd (close_wallet (ex_service ex) handle))"
    by (rule service_inv_step [OF step_close]) (use assms(2) in \<open>simp add: close_wallet_def split: option.split\<close>)
  then show ?thesis by (intro balanced_service [OF assms(1)]) (simp_all add: close_wallet_def split: option.split)
qed

lemma answer_service: "answer cb wrap res ex = Ok ex' \<Longrightarrow> ex_service ex' = snd res"
  by (auto simp: answer_def split: outcome.splits)

lemma store_cb_counter: "store_cb cb ex = (i, ex') \<Longrightarrow> ws_ids_counter (ex_service ex') = ws_ids_counter (ex_service ex) + 1"
  by (auto simp: store_cb_def next_id_def next_handle_def Let_def)

text \<open>The first part of a command that stores its callback and starts a derivation.\<close>

lemma balanced_start:
  assumes "balanced [] [] I [cb] subs ex" and "store_cb cb ex = (i, ex1)" and "ex' = send_command (WC_DeriveKey key_data k) ex1"
    and "ws_ids_counter (ex_service ex') < 2 ^ 31" and "cont_cbs k = [i]" and "cont_opens k = []" and "cont_imports k = I"
  shows "balanced [] [] [] [] subs ex'"
proof -
  have "ws_ids_counter (ex_service ex) + 1 < 2 ^ 31" using assms(3,4) store_cb_counter [OF assms(2)] by simp
  from balanced_store_cb [OF assms(1,2) this] show ?thesis
    unfolding assms(3) by (intro balanced_send) (simp add: assms(5-7))
qed

text \<open>The second part of a command, which calls the callback that waits.\<close>

lemma get_cb_finishes:
  assumes "balanced [i] [] I [] subs ex" and "get_cb ex i f = Some (Ok ex')"
    and "\<And>cb ex1. balanced [] [] I [cb] subs ex1 \<Longrightarrow> f cb ex1 = Some (Ok ex') \<Longrightarrow> balanced [] [] [] [] subs ex'"
  shows "balanced [] [] [] [] subs ex'"
proof -
  obtain cb where cb: "hm_get (ex_pending_callbacks ex) i = Some cb"
      "balanced [] [] I [cb] subs (ex\<lparr>ex_pending_callbacks := hm_remove (ex_pending_callbacks ex) i\<rparr>)"
    using balanced_get_cb [OF assms(1)] by blast
  show ?thesis by (rule assms(3) [OF cb(2)]) (use assms(2) cb(1) in \<open>simp_all add: get_cb_def\<close>)
qed

lemma execute_open:
  assumes "balanced [] [] [] [cb] subs ex" and "ex_open env d config credentials cb ex = Ok ex'" and "ws_ids_counter (ex_service ex') < 2 ^ 31"
  shows "balanced [] [] [] [] subs ex'"
proof -
  have inv: "service_inv (ex_service ex)" using assms(1) by (simp add: balanced_def)
  obtain r svc where p: "open_wallet_prepare env (dr_salt d) (ex_service ex) config credentials = (r, svc)" by fastforce
  show ?thesis
  proof (cases r)
    case (Err e)
    have "svc = ex_service ex" using p Err
      by (auto simp: open_wallet_prepare_def Let_def split: outcome.splits prod.splits)
    with assms(2) p Err balanced_answer_same [OF assms(1)] show ?thesis by (auto simp: ex_open_def)
  next
    case (Ok x)
    obtain h kd rd where x: "x = (h, kd, rd)" by (cases x)
    have ex': "ex' = send_command (WC_DeriveKey kd (Then_Open h rd)) (ex\<lparr>ex_service := svc, ex_open_callbacks := hm_insert (ex_open_callbacks ex) h cb\<rparr>)"
      using assms(2) p Ok x by (simp add: ex_open_def)
    obtain pending where svc: "h = fst (next_handle (ex_service ex))"
        "svc = (snd (next_handle (ex_service ex)))\<lparr>ws_pending_for_open := hm_insert (ws_pending_for_open (ex_service ex)) h pending\<rparr>"
      using p Ok x by (auto simp: open_wallet_prepare_def Let_def next_handle_def split: outcome.splits prod.splits)
    have step: "service_step env (ex_service ex) svc" using step_open_prepare [of env "ex_service ex" "dr_salt d" config credentials] p by simp
    have small: "ws_ids_counter (ex_service ex) + 1 < 2 ^ 31" using assms(3) ex' svc(2) by (simp add: next_handle_def)
    have "h \<notin> set (handles (ex_service ex))" using service_inv_fresh(1) [OF inv small] svc(1) by simp
    then have "balanced [] [h] [] [] subs (ex\<lparr>ex_service := svc, ex_open_callbacks := hm_insert (ex_open_callbacks ex) h cb\<rparr>)"
      using service_inv_step [OF step inv] assms(3) ex' svc(2)
      by (intro balanced_open [OF assms(1)]) (auto simp: handles_def hm_simps next_handle_def)
    then show ?thesis unfolding ex' by (intro balanced_send) simp
  qed (use assms(2) p in \<open>simp add: ex_open_def\<close>)
qed

lemma execute_open_continue:
  assumes "balanced [] [h] [] [] subs ex" and "ex_open_continue env d h key_result ex = Ok ex'" and "ws_ids_counter (ex_service ex') < 2 ^ 31"
  shows "balanced [] [] [] [] subs ex'"
proof -
  obtain cb where cb: "hm_get (ex_open_callbacks ex) h = Some cb"
      "balanced [] [] [] [cb] subs (ex\<lparr>ex_open_callbacks := hm_remove (ex_open_callbacks ex) h\<rparr>)"
      "fst ` set (hm_remove (ex_open_callbacks ex) h) = fst ` set (ex_open_callbacks ex) - {h}"
    using balanced_get_open [OF assms(1)] by blast
  let ?ex1 = "ex\<lparr>ex_open_callbacks := hm_remove (ex_open_callbacks ex) h\<rparr>"
  show ?thesis
  proof (cases key_result)
    case (Ok kr)
    obtain key rekey where kr: "kr = (key, rekey)" by (cases kr)
    let ?res = "open_wallet_continue env (dr_nonce d) (ex_service ex) h key rekey"
    have a: "answer cb Ans_Handle ?res ?ex1 = Ok ex'" using assms(2) cb(1) Ok kr by (simp add: ex_open_continue_def)
    have inv: "service_inv (snd ?res)"
      by (rule service_inv_step [OF step_open_continue]) (use assms(1,3) answer_service [OF a] in \<open>simp_all add: balanced_def\<close>)
    have keep: "fst ` set (ws_pending_for_open (ex_service ex)) - {h} \<subseteq> fst ` set (ws_pending_for_open (snd ?res)) \<and>
        ws_pending_for_import (snd ?res) = ws_pending_for_import (ex_service ex)"
    proof (cases rule: open_continue_cases [of env "dr_nonce d" "ex_service ex" h key rekey])
      case (2 pending)
      have "set (hm_remove (ws_pending_for_open (ex_service ex)) h) = set (ws_pending_for_open (ex_service ex)) - {(h, pending)}"
        using hm_remove_absent [OF 2(1)] assms(1) by (simp add: balanced_def service_inv_def handles_def)
      with 2(2) show ?thesis by (force simp: same_handles_def)
    next
      case (3 pending keys st)
      have "set (hm_remove (ws_pending_for_open (ex_service ex)) h) = set (ws_pending_for_open (ex_service ex)) - {(h, pending)}"
        using hm_remove_absent [OF 3(1)] assms(1) by (simp add: balanced_def service_inv_def handles_def)
      then show ?thesis unfolding 3(2) by force
    qed auto
    have "fst ` set (ex_open_callbacks ex) \<subseteq> fst ` set (ws_pending_for_open (ex_service ex))"
      using assms(1) by (simp add: balanced_def)
    with keep cb(3) have "fst ` set (hm_remove (ex_open_callbacks ex) h) \<subseteq> fst ` set (ws_pending_for_open (snd ?res))" by blast
    then have "balanced [] [] [] [cb] subs (?ex1\<lparr>ex_service := snd ?res\<rparr>)"
      using cb(2) inv keep by (simp add: balanced_def open_continue_counter)
    then show ?thesis by (rule balanced_answer [OF _ a])
  next
    case (Err e)
    have "answer cb Ans_Handle (Err e, ex_service ?ex1) ?ex1 = Ok ex'" using assms(2) cb(1) Err by (simp add: ex_open_continue_def)
    then show ?thesis by (rule balanced_answer_same [OF cb(2)])
  qed (use assms(2) cb(1) in \<open>simp add: ex_open_continue_def answer_def\<close>)
qed

lemma execute_import:
  assumes "balanced [] [] [] [cb] subs ex" and "ex_import env d config credentials import_config cb ex = Ok ex'"
    and "ws_ids_counter (ex_service ex') < 2 ^ 31"
  shows "balanced [] [] [] [] subs ex'"
proof -
  have inv: "service_inv (ex_service ex)" using assms(1) by (simp add: balanced_def)
  obtain r svc where p: "import_wallet_prepare env (dr_salt d) (ex_service ex) credentials import_config = (r, svc)" by fastforce
  show ?thesis
  proof (cases r)
    case (Err e)
    have "svc = ex_service ex" using p Err by (auto simp: import_wallet_prepare_def Let_def split: outcome.splits prod.splits)
    with assms(2) p Err balanced_answer_same [OF assms(1)] show ?thesis by (auto simp: ex_import_def)
  next
    case (Ok x)
    obtain h kd ikd where x: "x = (h, kd, ikd)" by (cases x)
    obtain pending where svc: "h = fst (next_handle (ex_service ex))"
        "svc = (snd (next_handle (ex_service ex)))\<lparr>ws_pending_for_import := hm_insert (ws_pending_for_import (ex_service ex)) h pending\<rparr>"
      using p Ok x by (auto simp: import_wallet_prepare_def Let_def next_handle_def split: outcome.splits prod.splits)
    obtain i ex1 where st: "store_cb cb (ex\<lparr>ex_service := svc\<rparr>) = (i, ex1)" by fastforce
    have ex': "ex' = send_command (WC_DeriveKey ikd (Then_Import config credentials kd h i)) ex1"
      using assms(2) p Ok x st by (simp add: ex_import_def)
    have step: "service_step env (ex_service ex) svc"
      using step_import_prepare [of env "ex_service ex" "dr_salt d" credentials import_config] p by simp
    have small: "ws_ids_counter svc < 2 ^ 31" "ws_ids_counter (ex_service ex) + 1 < 2 ^ 31"
      using assms(3) ex' svc(2) store_cb_counter [OF st] by (simp_all add: next_handle_def)
    have "h \<notin> fst ` set (ws_pending_for_import (ex_service ex))"
      using service_inv_fresh(1) [OF inv small(2)] svc(1) by (simp add: handles_def)
    then have keys: "keys_of (ws_pending_for_import svc) = add_mset h (keys_of (ws_pending_for_import (ex_service ex)))"
      by (simp add: svc(2) keys_of_insert)
    have "balanced [] [] [] [cb] subs (ex\<lparr>ex_service := svc\<rparr>)"
      by (rule balanced_service [OF assms(1) service_inv_step [OF step inv small(1)]])
        (use keys in \<open>simp_all add: svc(2) next_handle_def\<close>)
    then have "balanced [] [] [h] [cb] subs (ex\<lparr>ex_service := svc\<rparr>)"
      using assms(1) by (simp add: balanced_def keys)
    then show ?thesis by (rule balanced_start [OF _ st ex' assms(3)]) simp_all
  qed (use assms(2) p in \<open>simp add: ex_import_def\<close>)
qed

lemma import_continue_balanced:
  assumes "balanced R Os [h] T subs ex"
    and "import_wallet_continue env gen_key nonce rnds (ex_service ex) h config credentials import_key master_key = Some (r, svc')"
    and "ws_ids_counter svc' < 2 ^ 31"
  shows "balanced R Os [] T subs (ex\<lparr>ex_service := svc'\<rparr>)"
proof -
  have "h \<in># keys_of (ws_pending_for_import (ex_service ex))"
    using assms(1) unfolding balanced_def by (auto dest: mset_subset_eqD)
  then obtain pending where pending: "hm_get (ws_pending_for_import (ex_service ex)) h = Some pending"
    by (cases "hm_get (ws_pending_for_import (ex_service ex)) h") (auto simp: keys_of_def hm_simps)
  then have same: "same_handles ((ex_service ex)\<lparr>ws_pending_for_import := hm_remove (ws_pending_for_import (ex_service ex)) h\<rparr>) svc'"
    using import_continue_same [OF assms(2)] by simp
  have inv: "service_inv svc'"
    by (rule service_inv_step [OF step_import_continue [OF assms(2)]]) (use assms(1,3) in \<open>simp_all add: balanced_def\<close>)
  have "import_refs ex \<subseteq># keys_of (hm_remove (ws_pending_for_import (ex_service ex)) h)"
    using assms(1) keys_of_remove(1) [OF pending, symmetric] by (simp add: balanced_def)
  with same inv assms(1) show ?thesis by (simp add: balanced_def same_handles_def)
qed

lemma execute_balanced:
  assumes "balanced (cmd_refs cont_cbs cmd_cbs c) (cmd_refs cont_opens cmd_opens c) (cmd_refs cont_imports cmd_imports c) (callbacks_of c) subs ex"
    and "execute env sd d c ex = Some (Ok ex')" and "ws_ids_counter (ex_service ex') < 2 ^ 31"
  shows "balanced [] [] [] [] subs ex'"
proof (cases c)
  case (WC_RegisterWalletType type plugged cb)
  with assms(1,2) show ?thesis by (auto intro: balanced_answer_frame service_ops_same)
next
  case (WC_Create config credentials cb)
  obtain i ex1 where st: "store_cb cb ex = (i, ex1)" by fastforce
  from assms WC_Create st show ?thesis by (intro balanced_start [OF _ st]) (auto simp: ex_create_def Let_def)
next
  case (WC_CreateContinue config credentials key_data key_result i)
  from assms(1) have b: "balanced [i] [] [] [] subs ex" by (simp add: WC_CreateContinue)
  from assms(2) show ?thesis unfolding WC_CreateContinue execute.simps ex_create_continue_def
    by (rule get_cb_finishes [OF b])
      (cases key_result; auto intro: balanced_answer_same balanced_answer_frame service_ops_same)
next
  case (WC_Open config credentials cb)
  with assms execute_open show ?thesis by simp
next
  case (WC_OpenContinue h key_result)
  with assms execute_open_continue show ?thesis by simp
next
  case (WC_Close handle cb)
  have a: "answer cb Ans_Unit (close_wallet (ex_service ex) handle) ex = Ok ex'" using assms(2) WC_Close by simp
  have "ws_ids_counter (ex_service ex) < 2 ^ 31"
    using assms(3) answer_service [OF a] by (simp add: close_wallet_def split: option.splits)
  with assms(1) WC_Close show ?thesis by (intro balanced_answer [OF balanced_close a]) simp_all
next
  case (WC_Delete config credentials cb)
  show ?thesis
  proof (cases "delete_wallet_prepare env (ex_service ex) config credentials")
    case (Ok x)
    obtain i ex1 where st: "store_cb cb ex = (i, ex1)" by fastforce
    obtain m kd where x: "x = (m, kd)" by (cases x)
    have ex': "ex' = send_command (WC_DeriveKey kd (Then_Delete config credentials m i)) ex1"
      using assms(2) WC_Delete st Ok x by (simp add: ex_delete_def)
    from assms(1) WC_Delete show ?thesis by (intro balanced_start [OF _ st ex' assms(3)]) simp_all
  qed (use assms(1,2) WC_Delete balanced_answer_same in \<open>auto simp: ex_delete_def\<close>)
next
  case (WC_DeleteContinue config credentials metadata key_result i)
  from assms(1) have b: "balanced [i] [] [] [] subs ex" by (simp add: WC_DeleteContinue)
  from assms(2) show ?thesis unfolding WC_DeleteContinue execute.simps ex_delete_continue_def
    by (rule get_cb_finishes [OF b])
      (cases key_result; auto intro: balanced_answer_same balanced_answer_frame service_ops_same)
next
  case (WC_Export h export_config cb)
  obtain i ex1 where st: "store_cb cb ex = (i, ex1)" by fastforce
  from assms WC_Export st show ?thesis by (intro balanced_start [OF _ st]) (auto simp: ex_export_def Let_def)
next
  case (WC_ExportContinue h export_config key_data key_result i)
  from assms(1) have b: "balanced [i] [] [] [] subs ex" by (simp add: WC_ExportContinue)
  from assms(2) show ?thesis unfolding WC_ExportContinue execute.simps ex_export_continue_def
    by (rule get_cb_finishes [OF b])
      (cases key_result; fastforce intro: balanced_answer_same balanced_answer_frame dest: export_wallet_same)
next
  case (WC_Import config credentials import_config cb)
  with assms execute_import show ?thesis by simp
next
  case (WC_ImportContinue config credentials key_result h i)
  from assms(1) have b: "balanced [i] [] [h] [] subs ex" by (simp add: WC_ImportContinue)
  from assms(2) show ?thesis unfolding WC_ImportContinue execute.simps ex_import_continue_def
  proof (rule get_cb_finishes [OF b])
    fix cb and ex1 :: "('a, 'b) Executor"
    assume bal: "balanced [] [] [h] [cb] subs ex1"
      and run: "map_option (\<lambda>res. answer cb Ans_Unit res ex1)
        (case key_result of
           Ok (import_key, key) \<Rightarrow> import_wallet_continue env (dr_gen_key d) (dr_nonce d) (dr_rnds d) (ex_service ex1) h config credentials import_key key
         | Err e \<Rightarrow> Some (Err e, ex_service ex1) | Panic \<Rightarrow> Some (Panic, ex_service ex1)) = Some (Ok ex')"
    show "balanced [] [] [] [] subs ex'"
    proof (cases key_result)
      case (Ok kk)
      then obtain ik k r svc' where kk: "kk = (ik, k)"
          "import_wallet_continue env (dr_gen_key d) (dr_nonce d) (dr_rnds d) (ex_service ex1) h config credentials ik k = Some (r, svc')"
          "answer cb Ans_Unit (r, svc') ex1 = Ok ex'"
        using run by (cases kk) auto
      have "ws_ids_counter svc' < 2 ^ 31" using answer_service [OF kk(3)] assms(3) by simp
      from balanced_answer [OF _ kk(3)] import_continue_balanced [OF bal kk(2) this] show ?thesis by simp
    qed (use run balanced_answer_same [OF balanced_drop_import [OF bal]] in auto)
  qed
next
  case (WC_GenerateKey config cb)
  with assms(1,2) show ?thesis by (auto intro: balanced_answer_same)
next
  case (WC_DeriveKey key_data k)
  then have "ex' = ex\<lparr>ex_jobs := ex_jobs ex @ [(key_data, k)]\<rparr>" using assms(2) by simp
  with assms(1) WC_DeriveKey show ?thesis by (simp add: balanced_def ac_simps)
qed

lemma balanced_step:
  assumes "executor_step env sd x y" and "balanced [] [] [] [] (fst x) (snd x)" and "ws_ids_counter (ex_service (snd y)) < 2 ^ 31"
  shows "balanced [] [] [] [] (fst y) (snd y)"
  using assms(1)
proof cases
  case (submitted c subs ex)
  with assms(2) show ?thesis by (simp add: balanced_submit)
next
  case (executed ex c q d ex' subs)
  with assms(2,3) execute_balanced [OF balanced_pop] show ?thesis by fastforce
next
  case (derived ex js key_data k js' subs)
  with assms(2) show ?thesis by (auto intro!: balanced_send simp: run_continuation_refs dest: balanced_job)
next
  case (other svc' ex subs)
  then show ?thesis using assms(2,3) balanced_same balanced_next_id by (fastforce simp: next_handle_def)
qed

text \<open>Runs in which fewer than two thousand million ids are drawn.\<close>

definition executor_run ::
    "ServiceEnv \<Rightarrow> SeedEnv \<Rightarrow> callback list \<times> ('p, 's) Executor \<Rightarrow> callback list \<times> ('p, 's) Executor \<Rightarrow> bool" where
  "executor_run env sd = (\<lambda>x y. executor_step env sd x y \<and> ws_ids_counter (ex_service (snd y)) < 2 ^ 31)\<^sup>*\<^sup>*"

lemma run_balanced:
  assumes "executor_run env sd ([], executor_new (service_new ty)) x"
  shows "balanced [] [] [] [] (fst x) (snd x)"
  using assms unfolding executor_run_def
proof (induction rule: rtranclp_induct)
  case base
  show ?case
    by (simp add: balanced_def executor_new_def refs_def keys_of_def values_of_def queued_callbacks_def service_inv_new)
next
  case (step x y)
  then show ?case using balanced_step by blast
qed

section \<open>Progress\<close>

text \<open>How many steps a continuation or a command can still cause, itself included.\<close>

fun cont_weight :: "Continuation \<Rightarrow> nat" where
  "cont_weight (Then_Open _ _) = 4"
| "cont_weight (Then_Import _ _ _ _ _) = 4"
| "cont_weight _ = 2"

fun cmd_weight :: "('p, 's) ExecutorCommand \<Rightarrow> nat" where
  "cmd_weight (WC_DeriveKey _ k) = Suc (cont_weight k)"
| "cmd_weight (WC_Create _ _ _) = 4"
| "cmd_weight (WC_Delete _ _ _) = 4"
| "cmd_weight (WC_Export _ _ _) = 4"
| "cmd_weight (WC_Open _ _ _) = 6"
| "cmd_weight (WC_Import _ _ _ _) = 6"
| "cmd_weight _ = 1"

definition weight :: "('p, 's) Executor \<Rightarrow> nat" where
  "weight ex = sum_list (map cmd_weight (ex_queue ex)) + sum_list (map (cont_weight \<circ> snd) (ex_jobs ex))"

lemma weight_simps [simp]:
  "weight (send_command c ex) = weight ex + cmd_weight c"
  "weight (call cb a ex) = weight ex"
  "weight (ex\<lparr>ex_service := svc\<rparr>) = weight ex"
  "weight (ex\<lparr>ex_pending_callbacks := m\<rparr>) = weight ex"
  "weight (ex\<lparr>ex_open_callbacks := m'\<rparr>) = weight ex"
  "weight (ex\<lparr>ex_jobs := ex_jobs ex @ [(key_data, k)]\<rparr>) = weight ex + cont_weight k"
  by (simp_all add: weight_def send_command_def call_def)

lemma weight_answer: "answer cb wrap res ex = Ok ex' \<Longrightarrow> weight ex' = weight ex"
  by (auto simp: answer_def split: outcome.splits)

lemma weight_store_cb: "store_cb cb ex = (i, ex') \<Longrightarrow> weight ex' = weight ex"
  by (auto simp: store_cb_def next_id_def Let_def split: prod.splits)

lemma weight_get_cb:
  assumes "get_cb ex i f = Some (Ok ex')" and "\<And>cb ex1. f cb ex1 = Some (Ok ex') \<Longrightarrow> weight ex' = weight ex1"
  shows "weight ex' = weight ex"
proof (cases "hm_get (ex_pending_callbacks ex) i")
  case (Some cb)
  then have "weight ex' = weight (ex\<lparr>ex_pending_callbacks := hm_remove (ex_pending_callbacks ex) i\<rparr>)"
    using assms(1) by (intro assms(2) [of cb]) (simp add: get_cb_def)
  then show ?thesis by simp
qed (use assms(1) in \<open>simp add: get_cb_def\<close>)

lemma execute_weight:
  assumes "execute env sd d c ex = Some (Ok ex')"
  shows "weight ex' < weight ex + cmd_weight c"
proof (cases c)
  case (WC_CreateContinue config credentials key_data key_result i)
  with assms have "weight ex' = weight ex" by (auto simp: ex_create_continue_def elim!: weight_get_cb weight_answer)
  with WC_CreateContinue show ?thesis by simp
next
  case (WC_DeleteContinue config credentials metadata key_result i)
  with assms have "weight ex' = weight ex" by (auto simp: ex_delete_continue_def elim!: weight_get_cb weight_answer)
  with WC_DeleteContinue show ?thesis by simp
next
  case (WC_ExportContinue h export_config key_data key_result i)
  with assms have "weight ex' = weight ex" by (auto simp: ex_export_continue_def elim!: weight_get_cb weight_answer)
  with WC_ExportContinue show ?thesis by simp
next
  case (WC_ImportContinue config credentials key_result h i)
  with assms have "weight ex' = weight ex" by (auto simp: ex_import_continue_def elim!: weight_get_cb weight_answer)
  with WC_ImportContinue show ?thesis by simp
next
  case (WC_OpenContinue h key_result)
  with assms have "weight ex' = weight ex" by (auto simp: ex_open_continue_def split: option.splits dest!: weight_answer)
  with WC_OpenContinue show ?thesis by simp
qed (use assms in \<open>auto simp: ex_create_def ex_open_def ex_delete_def ex_export_def ex_import_def Let_def
      dest!: weight_answer weight_store_cb split: prod.splits outcome.splits\<close>)

lemma run_continuation_weight: "cmd_weight (run_continuation k r) < cont_weight k"
  by (cases k) (auto split: outcome.split option.split)

text \<open>The steps of the process itself, without new commands of clients or other executors.\<close>

inductive internal_step :: "ServiceEnv \<Rightarrow> SeedEnv \<Rightarrow> ('p, 's) Executor \<Rightarrow> ('p, 's) Executor \<Rightarrow> bool" for env sd where
  "ex_queue ex = c # q \<Longrightarrow> execute env sd d c (ex\<lparr>ex_queue := q\<rparr>) = Some (Ok ex') \<Longrightarrow> internal_step env sd ex ex'"
| "ex_jobs ex = js @ (key_data, k) # js' \<Longrightarrow>
    internal_step env sd ex (send_command (run_continuation k (calc_master_key (sv_crypto env) key_data)) (ex\<lparr>ex_jobs := js @ js'\<rparr>))"

lemma internal_step_weight: "internal_step env sd ex ex' \<Longrightarrow> weight ex' < weight ex"
proof (induction rule: internal_step.induct)
  case (1 ex c q d ex')
  then show ?case using execute_weight [OF 1(2)] by (simp add: weight_def)
next
  case (2 ex js key_data k js')
  then show ?case using run_continuation_weight [of k "calc_master_key (sv_crypto env) key_data"] by (simp add: weight_def send_command_def)
qed

section \<open>Properties\<close>

text \<open>
  C13: Every wallet command is answered exactly once. However the commands of clients, the key derivations of the
  thread pool and the work of other executors interleave, no callback is called more often than it was passed,
  and when the queue is empty and no derivation runs, every callback was called as often as it was passed.
\<close>

theorem callbacks_exactly_once:
  assumes "executor_run env sd ([], executor_new (service_new ty)) (subs, ex)"
  shows "mset (map fst (ex_called ex)) \<subseteq># mset subs \<and>
    (ex_queue ex = [] \<and> ex_jobs ex = [] \<longrightarrow> mset (map fst (ex_called ex)) = mset subs)"
proof -
  have b: "balanced [] [] [] [] subs ex" using run_balanced [OF assms] by simp
  then have sum: "mset (map fst (ex_called ex)) + (queued_callbacks ex + values_of (ex_pending_callbacks ex) + values_of (ex_open_callbacks ex)) = mset subs"
    by (simp add: balanced_def ac_simps)
  have "mset (map fst (ex_called ex)) = mset subs" if "ex_queue ex = []" "ex_jobs ex = []"
  proof -
    have "keys_of (ex_pending_callbacks ex) = {#}" "keys_of (ex_open_callbacks ex) = {#}"
      using b that by (simp_all add: balanced_def refs_def)
    then show ?thesis using sum that by (simp add: keys_of_def values_of_def queued_callbacks_def)
  qed
  moreover have "mset (map fst (ex_called ex)) \<subseteq># mset subs" unfolding sum [symmetric] by simp
  ultimately show ?thesis by blast
qed

definition drive :: "ServiceEnv \<Rightarrow> SeedEnv \<Rightarrow> Draws \<Rightarrow> ('p, 's) Executor \<Rightarrow> ('p, 's) Executor" where
  "drive env sd d ex =
     (case ex_queue ex of
        c # q \<Rightarrow> (case execute env sd d c (ex\<lparr>ex_queue := q\<rparr>) of Some (Ok ex') \<Rightarrow> ex' | _ \<Rightarrow> ex)
      | [] \<Rightarrow>
          (case ex_jobs ex of
             [] \<Rightarrow> ex
           | (key_data, k) # js \<Rightarrow> send_command (run_continuation k (calc_master_key (sv_crypto env) key_data)) (ex\<lparr>ex_jobs := js\<rparr>)))"

lemma drive_step: "drive env sd d ex = ex \<or> executor_step env sd (subs, ex) (subs, drive env sd d ex)"
  using executed [of ex _ _ env sd d _ subs] derived [of ex "[]" _ _ _ env sd subs]
  by (auto simp: drive_def split: list.split option.split outcome.split)

fun drives :: "ServiceEnv \<Rightarrow> SeedEnv \<Rightarrow> Draws \<Rightarrow> nat \<Rightarrow> ('p, 's) Executor \<Rightarrow> ('p, 's) Executor option" where
  "drives env sd d 0 ex = Some ex"
| "drives env sd d (Suc n) ex =
     (let ex' = drive env sd d ex in if int (ws_ids_counter (ex_service ex')) < 2147483648 then drives env sd d n ex' else None)"

lemma drives_run:
  "executor_run env sd x (subs, ex) \<Longrightarrow> drives env sd d n ex = Some ex' \<Longrightarrow> executor_run env sd x (subs, ex')"
proof (induction n arbitrary: ex)
  case (Suc n)
  have "executor_run env sd x (subs, drive env sd d ex)"
    using Suc.prems drive_step [of env sd d ex subs] unfolding executor_run_def
    by (auto simp: Let_def split: if_splits intro: rtranclp.rtrancl_into_rtrancl)
  with Suc show ?case by (simp add: Let_def split: if_splits)
qed simp

definition sample_draws :: Draws where
  "sample_draws = \<lparr>dr_salt = replicate 32 4, dr_nonce = replicate 12 1, dr_gen_key = \<lambda>_. replicate 32 3,
     dr_rnds = \<lambda>_. (replicate 32 1, replicate 12 1, replicate 12 2), dr_time = 0, dr_randombytes = replicate 32 8\<rparr>"

definition sample_seed_env :: SeedEnv where
  "sample_seed_env = \<lparr>sd_base64_decode = \<lambda>_. None, sd_from_hex = \<lambda>_. None, sd_deterministic = \<lambda>n seed. replicate n 1, sd_to_base58 = \<lambda>_. ''key''\<rparr>"

definition sample_submitted :: "(string \<times> string, SqliteDb) Executor" where
  "sample_submitted = send_command (WC_Create sample_config sample_credentials 0) (executor_new (service_new sample_type))"

lemma sample_submitted_run: "executor_run sample_service_env sample_seed_env ([], executor_new (service_new sample_type)) ([0], sample_submitted)"
proof -
  let ?c = "WC_Create sample_config sample_credentials 0 :: (string \<times> string, SqliteDb) ExecutorCommand"
  have "executor_step sample_service_env sample_seed_env ([], executor_new (service_new sample_type)) ([] @ callbacks_of ?c, sample_submitted)"
    unfolding sample_submitted_def by (rule submitted) simp
  then show ?thesis unfolding executor_run_def
    by (intro r_into_rtranclp) (simp add: sample_submitted_def executor_new_def service_new_def)
qed

abbreviation sample_drives :: "nat \<Rightarrow> (string \<times> string, SqliteDb) Executor option" where
  "sample_drives n \<equiv> drives sample_service_env sample_seed_env sample_draws n sample_submitted"

lemma sample_rest:
  obtains ex where "sample_drives 4 = Some ex" "map fst (ex_called ex) = [0]" "ex_queue ex = []" "ex_jobs ex = []"
proof -
  have "case sample_drives 4 of Some ex \<Rightarrow> map fst (ex_called ex) = [0] \<and> length (ex_queue ex) = 0 \<and> length (ex_jobs ex) = 0 | None \<Rightarrow> False"
    by code_simp
  then show ?thesis using that by (cases "sample_drives 4") auto
qed

theorem callbacks_exactly_once_witness:
  "\<exists>ex. executor_run sample_service_env sample_seed_env ([], executor_new (service_new sample_type)) ([0], ex) \<and>
     mset (map fst (ex_called ex)) = {#0#} \<and> ex_called ex \<noteq> []"
proof -
  obtain ex where ex: "sample_drives 4 = Some ex" "map fst (ex_called ex) = [0]" "ex_queue ex = []" "ex_jobs ex = []"
    by (rule sample_rest)
  note run = drives_run [OF sample_submitted_run ex(1)]
  from callbacks_exactly_once [OF run] run ex show ?thesis by auto
qed

text \<open>
  C31: The executor comes to rest. Without new commands it makes at most as many steps as the commands and derivations
  it holds can cause, six for a command, in whatever order the derivations finish; and while there is a
  command or a derivation, a step is possible, unless the first command panics or does not return.
\<close>

theorem commands_come_to_rest:
  assumes "(internal_step env sd ^^ n) ex ex'"
  shows "n \<le> weight ex \<and>
    (ex_queue ex' = [] \<and> ex_jobs ex' = [] \<or> (\<exists>ex''. internal_step env sd ex' ex'') \<or>
     (\<exists>c q. ex_queue ex' = c # q \<and> (\<forall>d ex''. execute env sd d c (ex'\<lparr>ex_queue := q\<rparr>) \<noteq> Some (Ok ex''))))"
proof -
  have "n + weight ex' \<le> weight ex" using assms
  proof (induction n arbitrary: ex')
    case (Suc n)
    then obtain y where y: "(internal_step env sd ^^ n) ex y" "internal_step env sd y ex'" by auto
    with Suc.IH [OF y(1)] internal_step_weight [OF y(2)] show ?case by simp
  qed simp
  moreover have "ex_queue ex' = [] \<and> ex_jobs ex' = [] \<or> (\<exists>ex''. internal_step env sd ex' ex'') \<or>
     (\<exists>c q. ex_queue ex' = c # q \<and> (\<forall>d ex''. execute env sd d c (ex'\<lparr>ex_queue := q\<rparr>) \<noteq> Some (Ok ex'')))"
  proof (cases "ex_queue ex'")
    case Nil
    show ?thesis
    proof (cases "ex_jobs ex'")
      case (Cons j js)
      then have "ex_jobs ex' = [] @ (fst j, snd j) # js" by simp
      from internal_step.intros(2) [OF this] show ?thesis by blast
    qed (use Nil in simp)
  qed (use internal_step.intros(1) in blast)
  ultimately show ?thesis by (metis add_leD1)
qed

lemma drive_internal: "drive env sd d ex = ex \<or> internal_step env sd ex (drive env sd d ex)"
  using internal_step.intros(1) [of ex _ _ env sd d] internal_step.intros(2) [of ex "[]" _ _ _ env sd]
  by (auto simp: drive_def split: list.split option.split outcome.split)

theorem commands_come_to_rest_witness:
  "\<exists>ex'. (internal_step sample_service_env sample_seed_env ^^ 1) sample_submitted ex' \<and> 1 \<le> weight sample_submitted"
proof -
  have "drive sample_service_env sample_seed_env sample_draws sample_submitted \<noteq> sample_submitted"
  proof
    assume "drive sample_service_env sample_seed_env sample_draws sample_submitted = sample_submitted"
    then have "ex_queue (drive sample_service_env sample_seed_env sample_draws sample_submitted) = ex_queue sample_submitted" by simp
    then show False
      by (simp add: drive_def sample_submitted_def send_command_def executor_new_def ex_create_def store_cb_def next_id_def next_handle_def Let_def)
  qed
  then have step: "internal_step sample_service_env sample_seed_env sample_submitted (drive sample_service_env sample_seed_env sample_draws sample_submitted)"
    using drive_internal [of sample_service_env sample_seed_env sample_draws sample_submitted] by simp
  then have "(internal_step sample_service_env sample_seed_env ^^ 1) sample_submitted (drive sample_service_env sample_seed_env sample_draws sample_submitted)"
    unfolding relpowp_1 .
  from commands_come_to_rest [OF this] this show ?thesis by blast
qed

text \<open>
  What a second part needs is there. When the second part of a command is the first command of the queue, the
  callback it calls waits, and an opening and an import find the handle that the first part left with the wallet
  service: the \<open>unwrap\<close> calls of \<open>_open_continue\<close> and \<open>import_wallet_continue\<close> do not fail.
\<close>

theorem continuations_find_state:
  assumes "executor_run env sd ([], executor_new (service_new ty)) (subs, ex)" and "ex_queue ex = c # q"
  shows "(\<forall>i \<in> set (cmd_cbs c). hm_get (ex_pending_callbacks ex) i \<noteq> None) \<and>
    (\<forall>h \<in> set (cmd_opens c). hm_get (ex_open_callbacks ex) h \<noteq> None \<and> hm_get (ws_pending_for_open (ex_service ex)) h \<noteq> None) \<and>
    (\<forall>h \<in> set (cmd_imports c). hm_get (ws_pending_for_import (ex_service ex)) h \<noteq> None)"
proof -
  have b: "balanced [] [] [] [] subs ex" using run_balanced [OF assms(1)] by simp
  have keys: "set_mset (keys_of m) = fst ` set m" for m :: "(int \<times> 'x) list" by (simp add: keys_of_def)
  have sub: "set (g c) \<subseteq> set_mset (refs f g ex)" if "g c = [] \<or> cmd_refs f g c = g c" for f g
    using that assms(2) by (auto simp: refs_pop)
  have "set (cmd_cbs c) \<subseteq> set_mset (cb_refs ex)" "set (cmd_opens c) \<subseteq> set_mset (open_refs ex)" "set (cmd_imports c) \<subseteq> set_mset (import_refs ex)"
    by (rule sub, cases c; simp)+
  moreover have "set_mset (cb_refs ex) = fst ` set (ex_pending_callbacks ex)" "set_mset (open_refs ex) = fst ` set (ex_open_callbacks ex)"
    "fst ` set (ex_open_callbacks ex) \<subseteq> fst ` set (ws_pending_for_open (ex_service ex))"
    using b by (simp_all add: balanced_def keys)
  moreover have "set_mset (import_refs ex) \<subseteq> fst ` set (ws_pending_for_import (ex_service ex))"
    unfolding keys [symmetric] using b by (intro set_mset_mono) (simp add: balanced_def)
  ultimately show ?thesis unfolding hm_get_None_iff by (simp add: subset_iff)
qed

theorem continuations_find_state_witness:
  "\<exists>ex i. sample_drives 3 = Some ex \<and> map cmd_cbs (ex_queue ex) = [[i]] \<and> hm_get (ex_pending_callbacks ex) i \<noteq> None"
proof -
  have "case sample_drives 3 of Some ex \<Rightarrow> map cmd_cbs (ex_queue ex) = [[2]] | None \<Rightarrow> False" by code_simp
  then obtain ex where ex: "sample_drives 3 = Some ex" "map cmd_cbs (ex_queue ex) = [[2]]" by (cases "sample_drives 3") auto
  then obtain c q where c: "ex_queue ex = c # q" "cmd_cbs c = [2]" by auto
  from continuations_find_state [OF drives_run [OF sample_submitted_run ex(1)] c(1)] c(2) ex show ?thesis by auto
qed

end
