(* ===== verification/Dids.thy ===== *)
theory Dids
  imports Pool_Ledger Wallet_Commands
begin

text \<open>
  Decentralised identifiers and verification keys as text: \<open>utils/qualifier.rs\<close>, \<open>domain/crypto/did.rs\<close>,
  \<open>domain/crypto/key.rs\<close> and \<open>utils/crypto/verkey_builder.rs\<close> of libindy. A newtype of a string is a
  string; base 58 is a parameter, with what is known of it in \<open>base58_ok\<close>.
\<close>

section \<open>Qualified identifiers\<close>

definition is_method_char :: "char \<Rightarrow> bool" where
  "is_method_char c \<longleftrightarrow> (let n = of_char c :: nat in 97 \<le> n \<and> n \<le> 122 \<or> 48 \<le> n \<and> n \<le> 57)"

text \<open>
  The captures of \<open>^[a-z0-9]+:([a-z0-9]+):(.*)$\<close>. The classes exclude the colon, so the first two
  colons delimit the groups; the dot matches everything but a newline.
\<close>

definition captures :: "string \<Rightarrow> (string \<times> string) option" where
  "captures entity =
     (let prefix = takeWhile is_method_char entity; rest = dropWhile is_method_char entity;
          name = takeWhile is_method_char (tl rest); rest' = dropWhile is_method_char (tl rest)
      in if prefix \<noteq> [] \<and> starts_with rest '':'' \<and> name \<noteq> [] \<and> starts_with rest' '':'' \<and> CHR 0x0A \<notin> set rest'
         then Some (name, tl rest') else None)"

definition qualify :: "string \<Rightarrow> string \<Rightarrow> string \<Rightarrow> string" where
  "qualify entity prefix method_name = prefix @ '':'' @ method_name @ '':'' @ entity"

definition to_unqualified :: "string \<Rightarrow> string" where
  "to_unqualified entity = (case captures entity of None \<Rightarrow> entity | Some (_, short) \<Rightarrow> short)"

definition method_of :: "string \<Rightarrow> string option" where
  "method_of entity = map_option fst (captures entity)"

definition matches_qualified :: "string \<Rightarrow> bool" where
  "matches_qualified entity \<longleftrightarrow> captures entity \<noteq> None"

text \<open>The macro \<open>qualifiable_type\<close>, for the prefix of the type.\<close>

definition set_method :: "string \<Rightarrow> string \<Rightarrow> string \<Rightarrow> string" where
  "set_method prefix entity method_name = qualify entity prefix method_name"

definition is_fully_qualified :: "string \<Rightarrow> string \<Rightarrow> bool" where
  "is_fully_qualified prefix entity \<longleftrightarrow> starts_with entity prefix \<and> matches_qualified entity"

section \<open>DIDs\<close>

type_synonym DidValue = string

definition DID_PREFIX :: string where "DID_PREFIX = ''did''"

text \<open>\<open>DidMethod::validate\<close> and \<open>DidValue::validate\<close>: \<open>None\<close> is the error with its message.\<close>

definition did_method_validate :: "string \<Rightarrow> unit option" where
  "did_method_validate name = (if name \<noteq> [] \<and> list_all is_method_char name then Some () else None)"

definition short_did_validate :: "(string \<Rightarrow> bytes option) \<Rightarrow> string \<Rightarrow> unit option" where
  "short_did_validate from_b58 did =
     Option.bind (from_b58 did) (\<lambda>bs. if length bs \<noteq> 16 \<and> length bs \<noteq> 32 then None else Some ())"

definition did_validate :: "(string \<Rightarrow> bytes option) \<Rightarrow> DidValue \<Rightarrow> unit option" where
  "did_validate from_b58 did =
     (if is_fully_qualified DID_PREFIX did then Some ()
      else Option.bind (from_b58 did) (\<lambda>bs. if length bs \<noteq> 16 \<and> length bs \<noteq> 32 then None else Some ()))"

definition did_new :: "string \<Rightarrow> string option \<Rightarrow> DidValue" where
  "did_new did method_name =
     (case method_name of Some m \<Rightarrow> set_method DID_PREFIX did m | None \<Rightarrow> did)"

definition did_to_short :: "DidValue \<Rightarrow> string" where
  "did_to_short did = to_unqualified did"

text \<open>\<open>ShortDidValue::qualify\<close>.\<close>

definition short_did_qualify :: "string \<Rightarrow> string option \<Rightarrow> DidValue" where
  "short_did_qualify did method_name =
     (case method_name of Some m \<Rightarrow> set_method DID_PREFIX did m | None \<Rightarrow> did)"

definition is_abbreviatable :: "DidValue \<Rightarrow> bool" where
  "is_abbreviatable did = (case method_of did of Some m \<Rightarrow> starts_with m ''sov'' | None \<Rightarrow> True)"

record MyDidInfo =
  mi_did :: "DidValue option"
  mi_seed :: "string option"
  mi_crypto_type :: "string option"
  mi_cid :: "bool option"
  mi_method_name :: "string option"

definition my_did_info_validate :: "(string \<Rightarrow> bytes option) \<Rightarrow> MyDidInfo \<Rightarrow> unit option" where
  "my_did_info_validate from_b58 info =
     Option.bind (case mi_did info of Some did \<Rightarrow> did_validate from_b58 did | None \<Rightarrow> Some ()) (\<lambda>_.
       case mi_method_name info of Some name \<Rightarrow> did_method_validate name | None \<Rightarrow> Some ())"

record TheirDidInfo =
  ti_did :: DidValue
  ti_verkey :: "string option"

definition their_did_info_validate :: "(string \<Rightarrow> bytes option) \<Rightarrow> TheirDidInfo \<Rightarrow> unit option" where
  "their_did_info_validate from_b58 info = did_validate from_b58 (ti_did info)"

text \<open>\<open>Did\<close>, \<open>TheirDid\<close> and \<open>TemporaryDid\<close> have the same two fields.\<close>

record Did =
  d_did :: DidValue
  d_verkey :: string

record DidWithMeta =
  dm_did :: DidValue
  dm_verkey :: string
  dm_temp_verkey :: "string option"
  dm_metadata :: "string option"

record Key =
  k_verkey :: string
  k_signkey :: string

record KeyInfo =
  ki_seed :: "string option"
  ki_crypto_type :: "string option"

section \<open>Verification keys\<close>

definition DEFAULT_CRYPTO_TYPE :: string where "DEFAULT_CRYPTO_TYPE = ''ed25519''"

definition split_verkey :: "string \<Rightarrow> string \<times> string" where
  "split_verkey verkey =
     (case dropWhile (\<lambda>c. c \<noteq> CHR '':'') verkey of
        [] \<Rightarrow> (verkey, DEFAULT_CRYPTO_TYPE)
      | _ # rest \<Rightarrow> (takeWhile (\<lambda>c. c \<noteq> CHR '':'') verkey, if rest \<noteq> [] then rest else DEFAULT_CRYPTO_TYPE))"

definition verkey_get_cryptoname :: "string \<Rightarrow> string" where
  "verkey_get_cryptoname verkey =
     (case dropWhile (\<lambda>c. c \<noteq> CHR '':'') verkey of
        [] \<Rightarrow> DEFAULT_CRYPTO_TYPE
      | _ # rest \<Rightarrow> if rest \<noteq> [] then rest else DEFAULT_CRYPTO_TYPE)"

lemma snd_split_verkey: "snd (split_verkey vk) = verkey_get_cryptoname vk"
  unfolding split_verkey_def verkey_get_cryptoname_def
  by (cases "dropWhile (\<lambda>c. c \<noteq> CHR '':'') vk") (simp_all only: list.case snd_conv)

lemma split_verkey_plain: "CHR '':'' \<notin> set vk \<Longrightarrow> split_verkey vk = (vk, DEFAULT_CRYPTO_TYPE)"
proof -
  assume "CHR '':'' \<notin> set vk"
  then have "dropWhile (\<lambda>c. c \<noteq> CHR '':'') vk = []" by auto
  then show ?thesis unfolding split_verkey_def by (simp only: list.case)
qed

lemma split_verkey_typed: "CHR '':'' \<notin> set vk \<Longrightarrow> name \<noteq> [] \<Longrightarrow> split_verkey (vk @ '':'' @ name) = (vk, name)"
proof -
  assume vk: "CHR '':'' \<notin> set vk" and name: "name \<noteq> []"
  from vk have "dropWhile (\<lambda>c. c \<noteq> CHR '':'') (vk @ '':'' @ name) = '':'' @ name"
    "takeWhile (\<lambda>c. c \<noteq> CHR '':'') (vk @ '':'' @ name) = vk"
    by (induction vk) auto
  with name show ?thesis by (simp add: split_verkey_def)
qed

section \<open>Base 58\<close>

text \<open>
  What is known of base 58: it writes every byte string, reads it back, writes a string it could read as it
  was, and its alphabet has no colon, no tilde, no newline and only ASCII characters.
\<close>

definition base58_ok :: "(string \<Rightarrow> bytes option) \<Rightarrow> (bytes \<Rightarrow> string) \<Rightarrow> bool" where
  "base58_ok from_b58 to_b58 \<longleftrightarrow>
     (\<forall>bs. from_b58 (to_b58 bs) = Some bs) \<and>
     (\<forall>s bs. from_b58 s = Some bs \<longrightarrow> to_b58 bs = s \<and>
        (\<forall>c \<in> set s. c \<noteq> CHR '':'' \<and> c \<noteq> CHR ''~'' \<and> c \<noteq> CHR 0x0A \<and> of_char c < (128 :: nat)))"

lemma base58_read: "base58_ok from_b58 to_b58 \<Longrightarrow> from_b58 (to_b58 bs) = Some bs"
  by (simp add: base58_ok_def)

lemma base58_write: "base58_ok from_b58 to_b58 \<Longrightarrow> from_b58 s = Some bs \<Longrightarrow> to_b58 bs = s"
  by (simp add: base58_ok_def)

lemma base58_chars:
  assumes "base58_ok from_b58 to_b58" and "from_b58 s = Some bs"
  shows "CHR '':'' \<notin> set s" "CHR ''~'' \<notin> set s" "CHR 0x0A \<notin> set s"
  using assms unfolding base58_ok_def by blast+

lemma utf8_valid_ascii: "list_all (\<lambda>b. b < 128) bs \<Longrightarrow> utf8_valid bs"
  by (induction bs) auto

lemma rust_str_ascii: "\<forall>c \<in> set s. of_char c < (128 :: nat) \<Longrightarrow> rust_str s"
  unfolding rust_str_def by (rule utf8_valid_ascii) (auto simp: list_all_iff)

lemma base58_text: "base58_ok from_b58 to_b58 \<Longrightarrow> from_b58 s = Some bs \<Longrightarrow> rust_str s"
  unfolding base58_ok_def by (intro rust_str_ascii) blast

section \<open>Round trips\<close>

lemma method_colon [simp]: "\<not> is_method_char CHR '':''"
  by (simp add: is_method_char_def)

lemma captures_qualify:
  assumes "prefix \<noteq> []" and "list_all is_method_char prefix" and "did_method_validate m = Some ()"
    and "CHR 0x0A \<notin> set entity"
  shows "captures (qualify entity prefix m) = Some (m, entity)"
proof -
  have m: "m \<noteq> []" "list_all is_method_char m" using assms(3) by (auto simp: did_method_validate_def split: if_splits)
  have span: "takeWhile is_method_char (w @ CHR '':'' # r) = w" "dropWhile is_method_char (w @ CHR '':'' # r) = CHR '':'' # r"
    if "list_all is_method_char w" for w r
    using that by (induction w) auto
  show ?thesis using assms m by (simp add: captures_def qualify_def span Let_def)
qed

lemma captures_no_colon: "CHR '':'' \<notin> set s \<Longrightarrow> captures s = None"
proof -
  assume s: "CHR '':'' \<notin> set s"
  have "\<not> starts_with (dropWhile is_method_char s) '':''"
  proof (cases "dropWhile is_method_char s")
    case (Cons c cs)
    then have "c \<in> set s" by (metis list.set_intros(1) set_dropWhileD)
    with s Cons show ?thesis by auto
  next
    case Nil
    then show ?thesis by (simp only: starts_with.simps) simp
  qed
  then show ?thesis by (simp add: captures_def Let_def)
qed

lemma did_prefix_ok: "DID_PREFIX \<noteq> []" "list_all is_method_char DID_PREFIX"
  by (simp_all add: DID_PREFIX_def is_method_char_def)

text \<open>
  Qualifying a short DID with a method keeps both: the method and the short DID are read back, the result counts
  as fully qualified, and a short DID is its own short form.
\<close>

lemma did_qualify_roundtrip:
  assumes "base58_ok from_b58 to_b58" and "from_b58 did = Some bs" and "did_method_validate m = Some ()"
  shows "did_to_short (did_new did (Some m)) = did \<and> method_of (did_new did (Some m)) = Some m \<and>
    is_fully_qualified DID_PREFIX (did_new did (Some m)) \<and> did_to_short did = did \<and> method_of did = None"
proof -
  have "captures (qualify did DID_PREFIX m) = Some (m, did)"
    using captures_qualify [OF did_prefix_ok assms(3)] base58_chars [OF assms(1,2)] by simp
  moreover have "starts_with (qualify did DID_PREFIX m) DID_PREFIX" by (simp add: qualify_def DID_PREFIX_def)
  moreover have "captures did = None" by (rule captures_no_colon) (use base58_chars [OF assms(1,2)] in simp)
  ultimately show ?thesis
    by (simp add: did_new_def set_method_def did_to_short_def to_unqualified_def method_of_def is_fully_qualified_def matches_qualified_def)
qed

end
