(* ===== verification/Crypto_Service.thy ===== *)
theory Crypto_Service
  imports Dids
begin

text \<open>
  The crypto service (\<open>services/crypto/mod.rs\<close> and \<open>ed25519.rs\<close>) with the wrappers of libsodium it calls
  (\<open>indy-utils/src/crypto\<close>). The functions of libsodium are the fields of \<open>SodiumEnv\<close>; random bytes
  (nonces, seeds, ephemeral keys) are arguments of the operations that draw them.
\<close>

section \<open>The wrappers of libsodium\<close>

record SodiumEnv =
  so_keypair :: "bytes \<Rightarrow> bytes \<times> bytes"
  so_sign :: "bytes \<Rightarrow> bytes \<Rightarrow> bytes"
  so_verify :: "bytes \<Rightarrow> bytes \<Rightarrow> bytes \<Rightarrow> bool"
  so_pk_curve :: "bytes \<Rightarrow> bytes option"
  so_sk_curve :: "bytes \<Rightarrow> bytes"
  so_box_seal :: "bytes \<Rightarrow> bytes \<Rightarrow> bytes \<Rightarrow> bytes \<Rightarrow> bytes"
  so_box_open :: "bytes \<Rightarrow> bytes \<Rightarrow> bytes \<Rightarrow> bytes \<Rightarrow> bytes option"
  so_sealedbox_seal :: "bytes \<Rightarrow> bytes \<Rightarrow> bytes \<Rightarrow> bytes"
  so_sealedbox_open :: "bytes \<Rightarrow> bytes \<Rightarrow> bytes \<Rightarrow> bytes option"
  so_seal_detached :: "bytes \<Rightarrow> bytes \<Rightarrow> bytes \<Rightarrow> bytes \<Rightarrow> bytes \<times> bytes"
  so_open_detached :: "bytes \<Rightarrow> bytes \<Rightarrow> bytes \<Rightarrow> bytes \<Rightarrow> bytes \<Rightarrow> bytes option"

definition SIG_PUBLICKEYBYTES :: nat where "SIG_PUBLICKEYBYTES = 32"

definition SIG_SECRETKEYBYTES :: nat where "SIG_SECRETKEYBYTES = 64"

definition SIGNATUREBYTES :: nat where "SIGNATUREBYTES = 64"

definition BOX_NONCEBYTES :: nat where "BOX_NONCEBYTES = 24"

definition BOX_KEYBYTES :: nat where "BOX_KEYBYTES = 32"

text \<open>\<open>random\<close> is the seed drawn whether or not it is needed; \<open>unwrap\<close> fails if it has a wrong length.\<close>

definition create_key_pair_for_signature :: "SodiumEnv \<Rightarrow> bytes \<Rightarrow> bytes option \<Rightarrow> (bytes \<times> bytes) outcome" where
  "create_key_pair_for_signature so random seed =
     (case from_slice SEEDBYTES random of
        Ok fresh_seed \<Rightarrow> Ok (so_keypair so (case seed of Some s \<Rightarrow> s | None \<Rightarrow> fresh_seed))
      | _ \<Rightarrow> Panic)"

text \<open>The code does not look at the return value of the conversion; a failed one leaves the zeroed buffer.\<close>

definition sk_to_curve25519 :: "SodiumEnv \<Rightarrow> bytes \<Rightarrow> bytes outcome" where
  "sk_to_curve25519 so sk = from_slice BOX_KEYBYTES (so_sk_curve so sk)"

definition vk_to_curve25519 :: "SodiumEnv \<Rightarrow> bytes \<Rightarrow> bytes outcome" where
  "vk_to_curve25519 so pk =
     from_slice BOX_KEYBYTES (case so_pk_curve so pk of Some c \<Rightarrow> c | None \<Rightarrow> replicate BOX_KEYBYTES 0)"

definition ed25519_box_encrypt :: "SodiumEnv \<Rightarrow> bytes \<Rightarrow> bytes \<Rightarrow> bytes \<Rightarrow> bytes \<Rightarrow> bytes outcome" where
  "ed25519_box_encrypt so sk pk doc nonce = Ok (so_box_seal so doc nonce pk sk)"

definition ed25519_box_decrypt :: "SodiumEnv \<Rightarrow> bytes \<Rightarrow> bytes \<Rightarrow> bytes \<Rightarrow> bytes \<Rightarrow> bytes outcome" where
  "ed25519_box_decrypt so sk pk doc nonce = ok_or InvalidStructure (so_box_open so doc nonce pk sk)"

definition sealedbox_encrypt :: "SodiumEnv \<Rightarrow> bytes \<Rightarrow> bytes \<Rightarrow> bytes \<Rightarrow> bytes outcome" where
  "sealedbox_encrypt so random pk doc = Ok (so_sealedbox_seal so random doc pk)"

definition sealedbox_decrypt :: "SodiumEnv \<Rightarrow> bytes \<Rightarrow> bytes \<Rightarrow> bytes \<Rightarrow> bytes outcome" where
  "sealedbox_decrypt so pk sk doc = ok_or InvalidStructure (so_sealedbox_open so doc pk sk)"

definition gen_nonce_and_encrypt_detached :: "SodiumEnv \<Rightarrow> bytes \<Rightarrow> bytes \<Rightarrow> bytes \<Rightarrow> bytes \<Rightarrow> bytes \<times> bytes \<times> bytes" where
  "gen_nonce_and_encrypt_detached so nonce data aad key =
     (let (plain, tag) = so_seal_detached so data aad nonce key in (plain, nonce, tag))"

definition decrypt_detached :: "SodiumEnv \<Rightarrow> bytes \<Rightarrow> bytes \<Rightarrow> bytes \<Rightarrow> bytes \<Rightarrow> bytes \<Rightarrow> bytes outcome" where
  "decrypt_detached so data key nonce tag ad = ok_or InvalidStructure (so_open_detached so data ad tag nonce key)"

section \<open>Crypto types\<close>

text \<open>The trait \<open>CryptoType\<close>; the nonce of \<open>gen_nonce\<close> is an argument of the callers.\<close>

record CryptoType =
  ct_crypto_box :: "bytes \<Rightarrow> bytes \<Rightarrow> bytes \<Rightarrow> bytes \<Rightarrow> bytes outcome"
  ct_crypto_box_open :: "bytes \<Rightarrow> bytes \<Rightarrow> bytes \<Rightarrow> bytes \<Rightarrow> bytes outcome"
  ct_create_key :: "bytes \<Rightarrow> bytes option \<Rightarrow> (bytes \<times> bytes) outcome"
  ct_validate_key :: "bytes \<Rightarrow> unit outcome"
  ct_sign :: "bytes \<Rightarrow> bytes \<Rightarrow> bytes outcome"
  ct_verify :: "bytes \<Rightarrow> bytes \<Rightarrow> bytes \<Rightarrow> bool outcome"
  ct_crypto_box_seal :: "bytes \<Rightarrow> bytes \<Rightarrow> bytes \<Rightarrow> bytes outcome"
  ct_crypto_box_seal_open :: "bytes \<Rightarrow> bytes \<Rightarrow> bytes \<Rightarrow> bytes outcome"

definition ed25519_type :: "SodiumEnv \<Rightarrow> CryptoType" where
  "ed25519_type so =
     \<lparr>ct_crypto_box = \<lambda>sk vk doc nonce.
        and_then (sk_to_curve25519 so sk) (\<lambda>csk. and_then (vk_to_curve25519 so vk) (\<lambda>cvk. ed25519_box_encrypt so csk cvk doc nonce)),
      ct_crypto_box_open = \<lambda>sk vk doc nonce.
        and_then (sk_to_curve25519 so sk) (\<lambda>csk. and_then (vk_to_curve25519 so vk) (\<lambda>cvk. ed25519_box_decrypt so csk cvk doc nonce)),
      ct_create_key = create_key_pair_for_signature so,
      ct_validate_key = \<lambda>_. Ok (),
      ct_sign = \<lambda>sk doc. Ok (so_sign so doc sk),
      ct_verify = \<lambda>vk doc signature. Ok (so_verify so signature doc vk),
      ct_crypto_box_seal = \<lambda>random vk doc. and_then (vk_to_curve25519 so vk) (\<lambda>cvk. sealedbox_encrypt so random cvk doc),
      ct_crypto_box_seal_open = \<lambda>vk sk doc.
        and_then (vk_to_curve25519 so vk) (\<lambda>cvk. and_then (sk_to_curve25519 so sk) (\<lambda>csk. sealedbox_decrypt so cvk csk doc))\<rparr>"

section \<open>The service\<close>

record CryptoService =
  cs_crypto_types :: "(string \<times> CryptoType) list"

definition crypto_service_new :: "SodiumEnv \<Rightarrow> CryptoService" where
  "crypto_service_new so = \<lparr>cs_crypto_types = [(DEFAULT_CRYPTO_TYPE, ed25519_type so)]\<rparr>"

text \<open>The text codecs: base 58, base 64 in both alphabets, and those that a seed may have.\<close>

record TextCodec =
  tx_from_b58 :: "string \<Rightarrow> bytes option"
  tx_to_b58 :: "bytes \<Rightarrow> string"
  tx_b64_encode :: "bytes \<Rightarrow> string"
  tx_b64_decode :: "string \<Rightarrow> bytes option"
  tx_b64url_encode :: "bytes \<Rightarrow> string"
  tx_b64url_decode :: "string \<Rightarrow> bytes option"
  tx_seed :: SeedEnv

definition base64_encode :: "TextCodec \<Rightarrow> bytes \<Rightarrow> string" where
  "base64_encode tx doc = tx_b64_encode tx doc"

definition base64_decode :: "TextCodec \<Rightarrow> string \<Rightarrow> bytes outcome" where
  "base64_decode tx doc = ok_or InvalidStructure (tx_b64_decode tx doc)"

definition encode_urlsafe :: "TextCodec \<Rightarrow> bytes \<Rightarrow> string" where
  "encode_urlsafe tx doc = tx_b64url_encode tx doc"

definition decode_urlsafe :: "TextCodec \<Rightarrow> string \<Rightarrow> bytes outcome" where
  "decode_urlsafe tx doc = ok_or InvalidStructure (tx_b64url_decode tx doc)"

text \<open>\<open>contains_key\<close>, the error, and \<open>get\<close> with \<open>unwrap\<close>, as every operation begins.\<close>

definition find_crypto_type :: "CryptoService \<Rightarrow> string \<Rightarrow> CryptoType outcome" where
  "find_crypto_type cs name = ok_or UnknownCrypto (hm_get (cs_crypto_types cs) name)"

definition decode_b58 :: "TextCodec \<Rightarrow> nat \<Rightarrow> string \<Rightarrow> bytes outcome" where
  "decode_b58 tx len s = and_then (ok_or InvalidStructure (tx_from_b58 tx s)) (\<lambda>bs. from_slice len bs)"

text \<open>The crypto type's name is kept in a verification key that is not of the default type.\<close>

definition named_verkey :: "string \<Rightarrow> string \<Rightarrow> string" where
  "named_verkey vk name = (if name \<noteq> DEFAULT_CRYPTO_TYPE then vk @ '':'' @ name else vk)"

definition create_key :: "CryptoService \<Rightarrow> TextCodec \<Rightarrow> bytes \<Rightarrow> KeyInfo \<Rightarrow> Key outcome" where
  "create_key cs tx random key_info =
     (let name = (case ki_crypto_type key_info of Some n \<Rightarrow> n | None \<Rightarrow> DEFAULT_CRYPTO_TYPE)
      in and_then (find_crypto_type cs name) (\<lambda>ct.
         and_then (convert_seed (tx_seed tx) (ki_seed key_info)) (\<lambda>seed.
         and_then (ct_create_key ct random seed) (\<lambda>(vk, sk).
           Ok \<lparr>k_verkey = named_verkey (tx_to_b58 tx vk) name, k_signkey = tx_to_b58 tx sk\<rparr>))))"

definition create_my_did :: "CryptoService \<Rightarrow> TextCodec \<Rightarrow> bytes \<Rightarrow> MyDidInfo \<Rightarrow> (Did \<times> Key) outcome" where
  "create_my_did cs tx random my_did_info =
     (let name = (case mi_crypto_type my_did_info of Some n \<Rightarrow> n | None \<Rightarrow> DEFAULT_CRYPTO_TYPE)
      in and_then (find_crypto_type cs name) (\<lambda>ct.
         and_then (convert_seed (tx_seed tx) (mi_seed my_did_info)) (\<lambda>seed.
         and_then (ct_create_key ct random seed) (\<lambda>(vk, sk).
         and_then
           (case mi_did my_did_info of
              Some did \<Rightarrow> Ok did
            | None \<Rightarrow>
                if mi_cid my_did_info = Some True then Ok (did_new (tx_to_b58 tx vk) (mi_method_name my_did_info))
                else if length vk < 16 then Panic
                else Ok (did_new (tx_to_b58 tx (take 16 vk)) (mi_method_name my_did_info)))
           (\<lambda>did.
             let verkey = named_verkey (tx_to_b58 tx vk) name
             in Ok (\<lparr>d_did = did, d_verkey = verkey\<rparr>, \<lparr>k_verkey = verkey, k_signkey = tx_to_b58 tx sk\<rparr>))))))"

definition validate_did :: "DidValue \<Rightarrow> unit outcome" where
  "validate_did did = Ok ()"

definition validate_key :: "CryptoService \<Rightarrow> TextCodec \<Rightarrow> string \<Rightarrow> unit outcome" where
  "validate_key cs tx vk =
     (let (vk, name) = split_verkey vk
      in and_then (find_crypto_type cs name) (\<lambda>ct.
         if starts_with vk ''~'' then map_ok (\<lambda>_. ()) (ok_or InvalidStructure (tx_from_b58 tx (tl vk)))
         else and_then (decode_b58 tx SIG_PUBLICKEYBYTES vk) (ct_validate_key ct)))"

definition create_their_did :: "CryptoService \<Rightarrow> TextCodec \<Rightarrow> TheirDidInfo \<Rightarrow> Did outcome" where
  "create_their_did cs tx info =
     and_then (validate_did (ti_did info)) (\<lambda>_.
     and_then (build_full_verkey (tx_from_b58 tx) (tx_to_b58 tx) (to_unqualified (ti_did info)) (ti_verkey info)) (\<lambda>verkey.
     and_then (validate_key cs tx verkey) (\<lambda>_.
       Ok \<lparr>d_did = ti_did info, d_verkey = verkey\<rparr>)))"

definition crypto_sign :: "CryptoService \<Rightarrow> TextCodec \<Rightarrow> Key \<Rightarrow> bytes \<Rightarrow> bytes outcome" where
  "crypto_sign cs tx my_key doc =
     and_then (find_crypto_type cs (verkey_get_cryptoname (k_verkey my_key))) (\<lambda>ct.
     and_then (decode_b58 tx SIG_SECRETKEYBYTES (k_signkey my_key)) (\<lambda>my_sk.
       ct_sign ct my_sk doc))"

definition crypto_verify :: "CryptoService \<Rightarrow> TextCodec \<Rightarrow> string \<Rightarrow> bytes \<Rightarrow> bytes \<Rightarrow> bool outcome" where
  "crypto_verify cs tx their_vk msg signature =
     (let (their_vk, name) = split_verkey their_vk
      in and_then (find_crypto_type cs name) (\<lambda>ct.
         and_then (decode_b58 tx SIG_PUBLICKEYBYTES their_vk) (\<lambda>their_vk.
         and_then (from_slice SIGNATUREBYTES signature) (\<lambda>signature.
           ct_verify ct their_vk msg signature))))"

definition crypto_box :: "CryptoService \<Rightarrow> TextCodec \<Rightarrow> bytes \<Rightarrow> Key \<Rightarrow> string \<Rightarrow> bytes \<Rightarrow> (bytes \<times> bytes) outcome" where
  "crypto_box cs tx nonce my_key their_vk doc =
     (let name = verkey_get_cryptoname (k_verkey my_key); (their_vk, their_name) = split_verkey their_vk
      in and_then (find_crypto_type cs name) (\<lambda>ct.
         if name \<noteq> their_name then Err UnknownCrypto
         else
           and_then (decode_b58 tx SIG_SECRETKEYBYTES (k_signkey my_key)) (\<lambda>my_sk.
           and_then (decode_b58 tx SIG_PUBLICKEYBYTES their_vk) (\<lambda>their_vk.
           and_then (ct_crypto_box ct my_sk their_vk doc nonce) (\<lambda>encrypted_doc.
             Ok (encrypted_doc, nonce))))))"

definition crypto_box_open :: "CryptoService \<Rightarrow> TextCodec \<Rightarrow> Key \<Rightarrow> string \<Rightarrow> bytes \<Rightarrow> bytes \<Rightarrow> bytes outcome" where
  "crypto_box_open cs tx my_key their_vk doc nonce =
     (let name = verkey_get_cryptoname (k_verkey my_key); (their_vk, their_name) = split_verkey their_vk
      in and_then (find_crypto_type cs name) (\<lambda>ct.
         if name \<noteq> their_name then Err UnknownCrypto
         else
           and_then (decode_b58 tx SIG_SECRETKEYBYTES (k_signkey my_key)) (\<lambda>my_sk.
           and_then (decode_b58 tx SIG_PUBLICKEYBYTES their_vk) (\<lambda>their_vk.
           and_then (from_slice BOX_NONCEBYTES nonce) (\<lambda>nonce.
             ct_crypto_box_open ct my_sk their_vk doc nonce)))))"

definition crypto_box_seal :: "CryptoService \<Rightarrow> TextCodec \<Rightarrow> bytes \<Rightarrow> string \<Rightarrow> bytes \<Rightarrow> bytes outcome" where
  "crypto_box_seal cs tx random their_vk doc =
     (let (their_vk, name) = split_verkey their_vk
      in and_then (find_crypto_type cs name) (\<lambda>ct.
         and_then (decode_b58 tx SIG_PUBLICKEYBYTES their_vk) (\<lambda>their_vk.
           ct_crypto_box_seal ct random their_vk doc)))"

definition crypto_box_seal_open :: "CryptoService \<Rightarrow> TextCodec \<Rightarrow> Key \<Rightarrow> bytes \<Rightarrow> bytes outcome" where
  "crypto_box_seal_open cs tx my_key doc =
     (let (my_vk, name) = split_verkey (k_verkey my_key)
      in and_then (find_crypto_type cs name) (\<lambda>ct.
         and_then (decode_b58 tx SIG_PUBLICKEYBYTES my_vk) (\<lambda>my_vk.
         and_then (decode_b58 tx SIG_SECRETKEYBYTES (k_signkey my_key)) (\<lambda>my_sk.
           ct_crypto_box_seal_open ct my_vk my_sk doc))))"

record ComboBox =
  cb_msg :: string
  cb_sender :: string
  cb_nonce :: string

definition create_combo_box :: "CryptoService \<Rightarrow> TextCodec \<Rightarrow> bytes \<Rightarrow> Key \<Rightarrow> string \<Rightarrow> bytes \<Rightarrow> ComboBox outcome" where
  "create_combo_box cs tx nonce my_key their_vk doc =
     and_then (crypto_box cs tx nonce my_key their_vk doc) (\<lambda>(msg, nonce).
       Ok \<lparr>cb_msg = base64_encode tx msg, cb_sender = k_verkey my_key, cb_nonce = base64_encode tx nonce\<rparr>)"

definition encrypt_plaintext :: "SodiumEnv \<Rightarrow> TextCodec \<Rightarrow> bytes \<Rightarrow> bytes \<Rightarrow> string \<Rightarrow> bytes \<Rightarrow> string \<times> string \<times> string" where
  "encrypt_plaintext so tx nonce plaintext aad cek =
     (let (ciphertext, iv, tag) = gen_nonce_and_encrypt_detached so nonce plaintext (str_bytes aad) cek
      in (encode_urlsafe tx ciphertext, encode_urlsafe tx iv, encode_urlsafe tx tag))"

definition decrypt_ciphertext :: "SodiumEnv \<Rightarrow> TextCodec \<Rightarrow> string \<Rightarrow> string \<Rightarrow> string \<Rightarrow> string \<Rightarrow> bytes \<Rightarrow> string outcome" where
  "decrypt_ciphertext so tx ciphertext aad iv tag cek =
     and_then (decode_urlsafe tx ciphertext) (\<lambda>ciphertext.
     and_then (decode_urlsafe tx iv) (\<lambda>nonce.
     and_then (from_slice NONCEBYTES nonce) (\<lambda>nonce.
     and_then (decode_urlsafe tx tag) (\<lambda>tag.
     and_then (from_slice TAGBYTES tag) (\<lambda>tag.
     and_then
       (case decrypt_detached so ciphertext cek nonce tag (str_bytes aad) of Err _ \<Rightarrow> Err UnknownCrypto | r \<Rightarrow> r)
       (\<lambda>plaintext. ok_or InvalidStructure (from_utf8 plaintext)))))))"

section \<open>What libsodium and the codecs promise\<close>

text \<open>
  A generated key pair has keys of the documented lengths, its public key can be converted, and signatures, boxes
  (also with the roles of the keys exchanged), sealed boxes and the authenticated cipher are undone by their
  inverses; lengths of tags are fixed.
\<close>

definition sodium_ok :: "SodiumEnv \<Rightarrow> bool" where
  "sodium_ok so \<longleftrightarrow>
     (\<forall>seed pk sk. length seed = SEEDBYTES \<longrightarrow> so_keypair so seed = (pk, sk) \<longrightarrow>
        length pk = SIG_PUBLICKEYBYTES \<and> length sk = SIG_SECRETKEYBYTES \<and>
        (\<exists>c. so_pk_curve so pk = Some c \<and> length c = BOX_KEYBYTES) \<and> length (so_sk_curve so sk) = BOX_KEYBYTES \<and>
        (\<forall>doc. length (so_sign so doc sk) = SIGNATUREBYTES \<and> so_verify so (so_sign so doc sk) doc pk) \<and>
        (\<forall>doc random c. so_pk_curve so pk = Some c \<longrightarrow>
           so_sealedbox_open so (so_sealedbox_seal so random doc c) c (so_sk_curve so sk) = Some doc)) \<and>
     (\<forall>seed pk sk c seed' pk' sk' c' doc nonce. length seed = SEEDBYTES \<longrightarrow> so_keypair so seed = (pk, sk) \<longrightarrow>
        length seed' = SEEDBYTES \<longrightarrow> so_keypair so seed' = (pk', sk') \<longrightarrow> so_pk_curve so pk = Some c \<longrightarrow> so_pk_curve so pk' = Some c' \<longrightarrow>
        length nonce = BOX_NONCEBYTES \<longrightarrow>
        so_box_open so (so_box_seal so doc nonce c' (so_sk_curve so sk)) nonce c (so_sk_curve so sk') = Some doc) \<and>
     (\<forall>plain aad nonce key cipher tag. length nonce = NONCEBYTES \<longrightarrow> length key = KEYBYTES \<longrightarrow>
        so_seal_detached so plain aad nonce key = (cipher, tag) \<longrightarrow>
        length tag = TAGBYTES \<and> so_open_detached so cipher aad tag nonce key = Some plain)"

definition codec_ok :: "TextCodec \<Rightarrow> bool" where
  "codec_ok tx \<longleftrightarrow> base58_ok (tx_from_b58 tx) (tx_to_b58 tx) \<and>
     (\<forall>bs. tx_b64_decode tx (tx_b64_encode tx bs) = Some bs) \<and>
     (\<forall>bs. tx_b64url_decode tx (tx_b64url_encode tx bs) = Some bs) \<and>
     (\<forall>bs. \<forall>c \<in> set (tx_b64url_encode tx bs). of_char c < (128 :: nat))"

definition ed25519_pair :: "SodiumEnv \<Rightarrow> bytes \<Rightarrow> bytes \<Rightarrow> bool" where
  "ed25519_pair so vk sk \<longleftrightarrow> sodium_ok so \<and> (\<exists>seed. length seed = SEEDBYTES \<and> so_keypair so seed = (vk, sk))"

section \<open>The contract of a crypto type\<close>

locale crypto_type =
  fixes ct :: CryptoType
    and key_pair :: "bytes \<Rightarrow> bytes \<Rightarrow> bool"
  assumes pair_lengths: "key_pair vk sk \<Longrightarrow> length vk = SIG_PUBLICKEYBYTES \<and> length sk = SIG_SECRETKEYBYTES"
    and validate_law: "key_pair vk sk \<Longrightarrow> ct_validate_key ct vk = Ok ()"
    and sign_law: "key_pair vk sk \<Longrightarrow> \<exists>signature. ct_sign ct sk doc = Ok signature \<and> length signature = SIGNATUREBYTES \<and>
      ct_verify ct vk doc signature = Ok True"
    and box_law: "key_pair vk sk \<Longrightarrow> key_pair vk' sk' \<Longrightarrow> length nonce = BOX_NONCEBYTES \<Longrightarrow>
      \<exists>c. ct_crypto_box ct sk vk' doc nonce = Ok c \<and> ct_crypto_box_open ct sk' vk c nonce = Ok doc"
    and seal_law: "key_pair vk sk \<Longrightarrow> \<exists>c. ct_crypto_box_seal ct random vk doc = Ok c \<and> ct_crypto_box_seal_open ct vk sk c = Ok doc"

interpretation ed25519: crypto_type "ed25519_type so" "ed25519_pair so" for so
proof
  fix vk sk vk' sk' doc nonce random :: bytes
  assume pair: "ed25519_pair so vk sk"
  then obtain seed where seed: "sodium_ok so" "length seed = SEEDBYTES" "so_keypair so seed = (vk, sk)" by (auto simp: ed25519_pair_def)
  note laws = seed(1) [unfolded sodium_ok_def, THEN conjunct1, rule_format, OF seed(2,3)]
  obtain c where c: "so_pk_curve so vk = Some c" "length c = BOX_KEYBYTES" using laws by blast
  have conv: "sk_to_curve25519 so sk = Ok (so_sk_curve so sk)" "vk_to_curve25519 so vk = Ok c"
    using laws c by (simp_all add: sk_to_curve25519_def vk_to_curve25519_def from_slice_def)
  show "length vk = SIG_PUBLICKEYBYTES \<and> length sk = SIG_SECRETKEYBYTES" using laws by blast
  show "ct_validate_key (ed25519_type so) vk = Ok ()" by (simp add: ed25519_type_def)
  show "\<exists>signature. ct_sign (ed25519_type so) sk doc = Ok signature \<and> length signature = SIGNATUREBYTES \<and>
      ct_verify (ed25519_type so) vk doc signature = Ok True"
    using laws by (simp add: ed25519_type_def)
  show "\<exists>c. ct_crypto_box_seal (ed25519_type so) random vk doc = Ok c \<and> ct_crypto_box_seal_open (ed25519_type so) vk sk c = Ok doc"
    using laws c by (simp add: ed25519_type_def conv sealedbox_encrypt_def sealedbox_decrypt_def ok_or_def)
  assume "ed25519_pair so vk' sk'" and nonce: "length nonce = BOX_NONCEBYTES"
  then obtain seed' where seed': "length seed' = SEEDBYTES" "so_keypair so seed' = (vk', sk')" by (auto simp: ed25519_pair_def)
  note laws' = seed(1) [unfolded sodium_ok_def, THEN conjunct1, rule_format, OF seed']
  obtain c' where c': "so_pk_curve so vk' = Some c'" "length c' = BOX_KEYBYTES" using laws' by blast
  have "sk_to_curve25519 so sk' = Ok (so_sk_curve so sk')" "vk_to_curve25519 so vk' = Ok c'"
    using laws' c' by (simp_all add: sk_to_curve25519_def vk_to_curve25519_def from_slice_def)
  then show "\<exists>c. ct_crypto_box (ed25519_type so) sk vk' doc nonce = Ok c \<and> ct_crypto_box_open (ed25519_type so) sk' vk c nonce = Ok doc"
    using seed(1) [unfolded sodium_ok_def, THEN conjunct2, THEN conjunct1, rule_format, OF seed(2,3) seed' c(1) c'(1) nonce]
    by (simp add: ed25519_type_def conv ed25519_box_encrypt_def ed25519_box_decrypt_def ok_or_def)
qed

text \<open>A key of the wallet whose two parts are a key pair of a registered crypto type.\<close>

definition key_ok :: "CryptoService \<Rightarrow> TextCodec \<Rightarrow> (bytes \<Rightarrow> bytes \<Rightarrow> bool) \<Rightarrow> CryptoType \<Rightarrow> string \<Rightarrow> Key \<Rightarrow> bool" where
  "key_ok cs tx key_pair ct name key \<longleftrightarrow> hm_get (cs_crypto_types cs) name = Some ct \<and> name \<noteq> [] \<and> codec_ok tx \<and>
     (\<exists>vk sk. key_pair vk sk \<and> k_verkey key = named_verkey (tx_to_b58 tx vk) name \<and> k_signkey key = tx_to_b58 tx sk)"

lemma split_named_verkey:
  assumes "codec_ok tx" and "name \<noteq> []"
  shows "split_verkey (named_verkey (tx_to_b58 tx vk) name) = (tx_to_b58 tx vk, name)"
    "verkey_get_cryptoname (named_verkey (tx_to_b58 tx vk) name) = name"
proof -
  have "base58_ok (tx_from_b58 tx) (tx_to_b58 tx)" using assms(1) by (simp add: codec_ok_def)
  from base58_chars [OF this base58_read [OF this]] show *: "split_verkey (named_verkey (tx_to_b58 tx vk) name) = (tx_to_b58 tx vk, name)"
    using split_verkey_plain split_verkey_typed [OF _ assms(2)] by (simp add: named_verkey_def)
  show "verkey_get_cryptoname (named_verkey (tx_to_b58 tx vk) name) = name" unfolding snd_split_verkey [symmetric] * by simp
qed

lemma decode_b58_encode: "codec_ok tx \<Longrightarrow> length bs = len \<Longrightarrow> decode_b58 tx len (tx_to_b58 tx bs) = Ok bs"
  by (simp add: codec_ok_def decode_b58_def base58_read ok_or_def from_slice_def)

context crypto_type
begin

lemma service_keys:
  assumes "key_ok cs tx key_pair ct name key"
  obtains vk sk where "key_pair vk sk" "split_verkey (k_verkey key) = (tx_to_b58 tx vk, name)" "verkey_get_cryptoname (k_verkey key) = name"
    "decode_b58 tx SIG_PUBLICKEYBYTES (tx_to_b58 tx vk) = Ok vk" "decode_b58 tx SIG_SECRETKEYBYTES (k_signkey key) = Ok sk"
    "find_crypto_type cs name = Ok ct" "tx_from_b58 tx (tx_to_b58 tx vk) = Some vk" "\<not> starts_with (tx_to_b58 tx vk) ''~''"
proof -
  obtain vk sk where k: "key_pair vk sk" "k_verkey key = named_verkey (tx_to_b58 tx vk) name" "k_signkey key = tx_to_b58 tx sk"
    and tx: "codec_ok tx" "name \<noteq> []" "hm_get (cs_crypto_types cs) name = Some ct"
    using assms by (auto simp: key_ok_def)
  have b58: "base58_ok (tx_from_b58 tx) (tx_to_b58 tx)" using tx(1) by (simp add: codec_ok_def)
  then have "\<not> starts_with (tx_to_b58 tx vk) ''~''"
    using base58_chars(2) [OF b58 base58_read [OF b58, of vk]] by (cases "tx_to_b58 tx vk") auto
  with k tx b58 show ?thesis
    using that [of vk sk] pair_lengths [OF k(1)]
    by (simp add: split_named_verkey decode_b58_encode find_crypto_type_def ok_or_def base58_read)
qed

lemma validate_key_ok: "key_ok cs tx key_pair ct name key \<Longrightarrow> validate_key cs tx (k_verkey key) = Ok ()"
  by (erule service_keys) (simp add: validate_key_def validate_law)

lemma sign_verify:
  assumes "key_ok cs tx key_pair ct name key"
  shows "\<exists>signature. crypto_sign cs tx key msg = Ok signature \<and> crypto_verify cs tx (k_verkey key) msg signature = Ok True"
proof -
  obtain vk sk where k: "key_pair vk sk" "split_verkey (k_verkey key) = (tx_to_b58 tx vk, name)" "verkey_get_cryptoname (k_verkey key) = name"
    "decode_b58 tx SIG_PUBLICKEYBYTES (tx_to_b58 tx vk) = Ok vk" "decode_b58 tx SIG_SECRETKEYBYTES (k_signkey key) = Ok sk"
    "find_crypto_type cs name = Ok ct"
    by (rule service_keys [OF assms])
  obtain signature where "ct_sign ct sk msg = Ok signature" "length signature = SIGNATUREBYTES" "ct_verify ct vk msg signature = Ok True"
    using sign_law [OF k(1)] by blast
  with k show ?thesis by (auto simp: crypto_sign_def crypto_verify_def from_slice_def)
qed

lemma box_open:
  assumes "key_ok cs tx key_pair ct name mine" and "key_ok cs tx key_pair ct name theirs" and "length nonce = BOX_NONCEBYTES"
  shows "\<exists>c. crypto_box cs tx nonce mine (k_verkey theirs) doc = Ok (c, nonce) \<and>
    crypto_box_open cs tx theirs (k_verkey mine) c nonce = Ok doc"
proof -
  obtain vk sk where k: "key_pair vk sk" "split_verkey (k_verkey mine) = (tx_to_b58 tx vk, name)" "verkey_get_cryptoname (k_verkey mine) = name"
    "decode_b58 tx SIG_PUBLICKEYBYTES (tx_to_b58 tx vk) = Ok vk" "decode_b58 tx SIG_SECRETKEYBYTES (k_signkey mine) = Ok sk"
    "find_crypto_type cs name = Ok ct"
    by (rule service_keys [OF assms(1)])
  obtain vk' sk' where k': "key_pair vk' sk'" "split_verkey (k_verkey theirs) = (tx_to_b58 tx vk', name)" "verkey_get_cryptoname (k_verkey theirs) = name"
    "decode_b58 tx SIG_PUBLICKEYBYTES (tx_to_b58 tx vk') = Ok vk'" "decode_b58 tx SIG_SECRETKEYBYTES (k_signkey theirs) = Ok sk'"
    by (rule service_keys [OF assms(2)])
  obtain c where "ct_crypto_box ct sk vk' doc nonce = Ok c" "ct_crypto_box_open ct sk' vk c nonce = Ok doc"
    using box_law [OF k(1) k'(1) assms(3)] by blast
  with k k' assms(3) show ?thesis by (auto simp: crypto_box_def crypto_box_open_def from_slice_def)
qed

lemma seal_open:
  assumes "key_ok cs tx key_pair ct name key"
  shows "\<exists>c. crypto_box_seal cs tx random (k_verkey key) doc = Ok c \<and> crypto_box_seal_open cs tx key c = Ok doc"
proof -
  obtain vk sk where k: "key_pair vk sk" "split_verkey (k_verkey key) = (tx_to_b58 tx vk, name)"
    "decode_b58 tx SIG_PUBLICKEYBYTES (tx_to_b58 tx vk) = Ok vk" "decode_b58 tx SIG_SECRETKEYBYTES (k_signkey key) = Ok sk"
    "find_crypto_type cs name = Ok ct"
    by (rule service_keys [OF assms])
  obtain c where "ct_crypto_box_seal ct random vk doc = Ok c" "ct_crypto_box_seal_open ct vk sk c = Ok doc"
    using seal_law [OF k(1)] by blast
  with k show ?thesis by (auto simp: crypto_box_seal_def crypto_box_seal_open_def)
qed

end

section \<open>Created keys\<close>

lemma and_then_Panic_iff: "and_then m f = Panic \<longleftrightarrow> m = Panic \<or> (\<exists>x. m = Ok x \<and> f x = Panic)"
  by (cases m) auto

lemma convert_seed_length: "convert_seed sd seed = Ok (Some s) \<Longrightarrow> length s = SEEDBYTES"
  by (auto simp: convert_seed_def from_slice_def split: option.splits if_splits)

lemma convert_seed_no_panic: "convert_seed sd seed \<noteq> Panic"
  by (auto simp: convert_seed_def from_slice_def ok_or_def map_ok_def and_then_Panic_iff split: option.splits if_splits)

lemma default_type_name [simp]: "DEFAULT_CRYPTO_TYPE \<noteq> []"
  by (simp add: DEFAULT_CRYPTO_TYPE_def)

lemma created_pair:
  assumes "sodium_ok so" and "length random = SEEDBYTES" and "convert_seed sd seed = Ok s"
  obtains vk sk where "create_key_pair_for_signature so random s = Ok (vk, sk)" "ed25519_pair so vk sk"
proof -
  let ?seed = "case s of Some s \<Rightarrow> s | None \<Rightarrow> random"
  have "length ?seed = SEEDBYTES" using assms(2,3) convert_seed_length by (auto split: option.split)
  moreover obtain vk sk where "so_keypair so ?seed = (vk, sk)" by fastforce
  ultimately show ?thesis using assms(1,2)
    by (intro that [of vk sk]) (auto simp: create_key_pair_for_signature_def from_slice_def ed25519_pair_def)
qed

text \<open>The keys the service makes with the default type.\<close>

abbreviation service_key :: "SodiumEnv \<Rightarrow> TextCodec \<Rightarrow> Key \<Rightarrow> bool" where
  "service_key so tx key \<equiv> key_ok (crypto_service_new so) tx (ed25519_pair so) (ed25519_type so) DEFAULT_CRYPTO_TYPE key"

lemma create_key_ok:
  assumes "sodium_ok so" and "codec_ok tx" and "length random = SEEDBYTES"
    and "ki_crypto_type info = None \<or> ki_crypto_type info = Some DEFAULT_CRYPTO_TYPE"
    and "convert_seed (tx_seed tx) (ki_seed info) = Ok s"
  obtains key where "create_key (crypto_service_new so) tx random info = Ok key" "service_key so tx key"
proof -
  obtain vk sk where "create_key_pair_for_signature so random s = Ok (vk, sk)" "ed25519_pair so vk sk"
    by (rule created_pair [OF assms(1,3,5)])
  with assms show ?thesis
    by (intro that [of "\<lparr>k_verkey = named_verkey (tx_to_b58 tx vk) DEFAULT_CRYPTO_TYPE, k_signkey = tx_to_b58 tx sk\<rparr>"])
      (auto simp: create_key_def find_crypto_type_def crypto_service_new_def ok_or_def ed25519_type_def key_ok_def)
qed

lemma find_unknown: "name \<noteq> DEFAULT_CRYPTO_TYPE \<Longrightarrow> find_crypto_type (crypto_service_new so) name = Err UnknownCrypto"
  by (simp add: find_crypto_type_def crypto_service_new_def ok_or_def)

lemma find_default: "find_crypto_type (crypto_service_new so) DEFAULT_CRYPTO_TYPE = Ok (ed25519_type so)"
  by (simp add: find_crypto_type_def crypto_service_new_def ok_or_def)

lemma did_new_validates:
  assumes "base58_ok from_b58 to_b58" and "length bs = 16 \<or> length bs = 32"
    and "\<And>name. m = Some name \<Longrightarrow> did_method_validate name = Some ()"
  shows "did_validate from_b58 (did_new (to_b58 bs) m) = Some () \<and> from_b58 (did_to_short (did_new (to_b58 bs) m)) = Some bs"
proof (cases m)
  case None
  have "captures (to_b58 bs) = None" by (rule captures_no_colon) (use base58_chars [OF assms(1) base58_read [OF assms(1)]] in simp)
  with None assms(1,2) show ?thesis
    by (auto simp: did_new_def did_validate_def did_to_short_def to_unqualified_def base58_read)
next
  case (Some name)
  with did_qualify_roundtrip [OF assms(1) base58_read [OF assms(1)] assms(3) [OF Some]] show ?thesis
    by (simp add: did_validate_def base58_read [OF assms(1)])
qed

text \<open>
  C35: A DID that the service makes is well formed. For a valid description with the default crypto type and a usable seed,
  \<open>create_my_did\<close> returns a DID that validates (the given one, or one that stands for the first 16 bytes of the key,
  or the whole key for a CID), with a verification key that validates and under which every message signed with the
  returned signing key verifies. An unknown crypto type and an unusable seed give an error, never a panic.
\<close>

theorem my_did_well_formed:
  assumes "sodium_ok so" and "codec_ok tx" and "length random = SEEDBYTES"
    and "my_did_info_validate (tx_from_b58 tx) info = Some ()"
  shows "case create_my_did (crypto_service_new so) tx random info of
      Ok (did, key) \<Rightarrow> d_verkey did = k_verkey key \<and> did_validate (tx_from_b58 tx) (d_did did) = Some () \<and>
        validate_key (crypto_service_new so) tx (d_verkey did) = Ok () \<and>
        (\<forall>msg. \<exists>signature. crypto_sign (crypto_service_new so) tx key msg = Ok signature \<and>
           crypto_verify (crypto_service_new so) tx (d_verkey did) msg signature = Ok True) \<and>
        (\<exists>vk. tx_from_b58 tx (d_verkey did) = Some vk \<and> length vk = 32 \<and>
           (case mi_did info of
              Some given \<Rightarrow> d_did did = given
            | None \<Rightarrow> tx_from_b58 tx (did_to_short (d_did did)) = Some (if mi_cid info = Some True then vk else take 16 vk)))
    | Err e \<Rightarrow>
        (if mi_crypto_type info = None \<or> mi_crypto_type info = Some DEFAULT_CRYPTO_TYPE
         then convert_seed (tx_seed tx) (mi_seed info) = Err e else e = UnknownCrypto)
    | Panic \<Rightarrow> False"
proof (cases "mi_crypto_type info = None \<or> mi_crypto_type info = Some DEFAULT_CRYPTO_TYPE")
  case False
  then obtain name where "mi_crypto_type info = Some name" "name \<noteq> DEFAULT_CRYPTO_TYPE" by auto
  then show ?thesis by (simp add: create_my_did_def find_unknown)
next
  case True
  then have name: "(case mi_crypto_type info of Some n \<Rightarrow> n | None \<Rightarrow> DEFAULT_CRYPTO_TYPE) = DEFAULT_CRYPTO_TYPE" by auto
  show ?thesis
  proof (cases "convert_seed (tx_seed tx) (mi_seed info)")
    case (Ok s)
    obtain vk sk where pair: "create_key_pair_for_signature so random s = Ok (vk, sk)" "ed25519_pair so vk sk"
      by (rule created_pair [OF assms(1,3) Ok])
    let ?key = "\<lparr>k_verkey = tx_to_b58 tx vk, k_signkey = tx_to_b58 tx sk\<rparr>"
    let ?did = "case mi_did info of Some did \<Rightarrow> did
      | None \<Rightarrow> did_new (tx_to_b58 tx (if mi_cid info = Some True then vk else take 16 vk)) (mi_method_name info)"
    have key: "service_key so tx ?key"
      using pair(2) assms(2) by (auto simp: key_ok_def crypto_service_new_def named_verkey_def)
    have len: "length vk = 32" using ed25519.pair_lengths [OF pair(2)] by (simp add: SIG_PUBLICKEYBYTES_def)
    have b58: "base58_ok (tx_from_b58 tx) (tx_to_b58 tx)" using assms(2) by (simp add: codec_ok_def)
    have "create_my_did (crypto_service_new so) tx random info = Ok (\<lparr>d_did = ?did, d_verkey = tx_to_b58 tx vk\<rparr>, ?key)"
      using pair(1) len Ok unfolding create_my_did_def name Let_def find_default
      by (simp add: ed25519_type_def named_verkey_def split: option.split)
    moreover have "did_validate (tx_from_b58 tx) ?did = Some () \<and>
        (mi_did info = None \<longrightarrow> tx_from_b58 tx (did_to_short ?did) = Some (if mi_cid info = Some True then vk else take 16 vk))"
    proof (cases "mi_did info")
      case None
      have "length (if mi_cid info = Some True then vk else take 16 vk) = 16 \<or> length (if mi_cid info = Some True then vk else take 16 vk) = 32"
        using len by simp
      from did_new_validates [OF b58 this, of "mi_method_name info"] None assms(4) show ?thesis
        by (auto simp: my_did_info_validate_def split: option.splits)
    next
      case (Some did)
      with assms(4) show ?thesis by (auto simp: my_did_info_validate_def Option.bind_eq_Some_conv)
    qed
    ultimately show ?thesis
      using ed25519.validate_key_ok [OF key] ed25519.sign_verify [OF key] len base58_read [OF b58] by (auto split: option.split)
  qed (use True in \<open>simp_all add: create_my_did_def name find_default convert_seed_no_panic\<close>)
qed

text \<open>
  Two verification keys that libsodium cannot convert to encryption keys are treated alike: the same bytes are
  encrypted for both, to the all-zero public key, and no error is reported.
\<close>

lemma unconvertible_keys_collide:
  assumes "so_pk_curve so vk = None" and "so_pk_curve so vk' = None"
  shows "ct_crypto_box_seal (ed25519_type so) random vk doc = Ok (so_sealedbox_seal so random doc (replicate BOX_KEYBYTES 0)) \<and>
    ct_crypto_box_seal (ed25519_type so) random vk' doc = ct_crypto_box_seal (ed25519_type so) random vk doc"
  using assms by (simp add: ed25519_type_def vk_to_curve25519_def from_slice_def sealedbox_encrypt_def)

section \<open>A sample instance\<close>

text \<open>A codec of two letters per byte, and primitives that show what they were given.\<close>

definition sample_char :: "nat \<Rightarrow> char" where
  "sample_char n = char_of (97 + n)"

definition sample_digit :: "char \<Rightarrow> nat option" where
  "sample_digit c = (let n = of_char c :: nat in if 97 \<le> n \<and> n < 113 then Some (n - 97) else None)"

fun sample_encode :: "bytes \<Rightarrow> string" where
  "sample_encode [] = []"
| "sample_encode (b # bs) = sample_char (unat b div 16) # sample_char (unat b mod 16) # sample_encode bs"

fun sample_decode :: "string \<Rightarrow> bytes option" where
  "sample_decode [] = Some []"
| "sample_decode [c] = None"
| "sample_decode (c # d # cs) =
     (case (sample_digit c, sample_digit d, sample_decode cs) of
        (Some m, Some n, Some bs) \<Rightarrow> Some (of_nat (16 * m + n) # bs)
      | _ \<Rightarrow> None)"

lemma sample_digit_char: "n < 16 \<Longrightarrow> sample_digit (sample_char n) = Some n"
  by (simp add: sample_digit_def sample_char_def Let_def)

lemma sample_char_digit: "sample_digit c = Some n \<Longrightarrow> sample_char n = c \<and> n < 16"
  by (auto simp: sample_digit_def sample_char_def Let_def split: if_splits)

lemma sample_decode_encode: "sample_decode (sample_encode bs) = Some bs"
proof (induction bs)
  case (Cons b bs)
  have "unat b < 256" using unsigned_less [of b] by simp
  then have "unat b div 16 < 16" by simp
  with Cons show ?case by (simp add: sample_digit_char)
qed simp

lemma sample_encode_decode: "sample_decode s = Some bs \<Longrightarrow> sample_encode bs = s"
proof (induction s arbitrary: bs rule: sample_decode.induct)
  case (3 c d cs)
  then obtain m n bs' where mn: "sample_digit c = Some m" "sample_digit d = Some n" "sample_decode cs = Some bs'"
    "bs = of_nat (16 * m + n) # bs'" by (auto split: option.splits)
  moreover have "unat (of_nat (16 * m + n) :: 8 word) = 16 * m + n"
    using sample_char_digit [OF mn(1)] sample_char_digit [OF mn(2)] unfolding unat_of_nat by simp
  ultimately show ?case using sample_char_digit [OF mn(1)] sample_char_digit [OF mn(2)] "3.IH" by auto
qed simp_all

lemma sample_encode_chars: "c \<in> set (sample_encode bs) \<Longrightarrow> 97 \<le> (of_char c :: nat) \<and> (of_char c :: nat) < 113"
proof (induction bs)
  case (Cons b bs)
  have "unat b < 256" using unsigned_less [of b] by simp
  then have "unat b div 16 < 16" by simp
  with Cons show ?case by (auto simp: sample_char_def)
qed simp

definition sample_tx :: TextCodec where
  "sample_tx = \<lparr>tx_from_b58 = sample_decode, tx_to_b58 = sample_encode, tx_b64_encode = sample_encode, tx_b64_decode = sample_decode,
     tx_b64url_encode = sample_encode, tx_b64url_decode = sample_decode, tx_seed = sample_seed_env\<rparr>"

lemma sample_tx_ok: "codec_ok sample_tx"
proof -
  have chars: "c \<noteq> CHR '':'' \<and> c \<noteq> CHR ''~'' \<and> c \<noteq> CHR 0x0A \<and> of_char c < (128 :: nat)"
    if "sample_decode s = Some bs" "c \<in> set s" for s bs c
    using sample_encode_chars [of c bs] sample_encode_decode [OF that(1)] that(2) by auto
  have "base58_ok sample_decode sample_encode"
    unfolding base58_ok_def using chars sample_encode_decode sample_decode_encode by blast
  moreover have "of_char c < (128 :: nat)" if "c \<in> set (sample_encode bs)" for c bs
    using sample_encode_chars [OF that] by simp
  ultimately show ?thesis by (simp add: codec_ok_def sample_tx_def sample_decode_encode)
qed

definition sample_sodium :: SodiumEnv where
  "sample_sodium = \<lparr>so_keypair = \<lambda>seed. (seed, seed @ seed), so_sign = \<lambda>doc sk. sk, so_verify = \<lambda>signature doc pk. take 32 signature = pk,
     so_pk_curve = Some, so_sk_curve = take 32,
     so_box_seal = \<lambda>doc nonce pk sk. map2 (+) pk sk @ doc,
     so_box_open = \<lambda>c nonce pk sk. if take 32 c = map2 (+) pk sk then Some (drop 32 c) else None,
     so_sealedbox_seal = \<lambda>random doc pk. pk @ doc,
     so_sealedbox_open = \<lambda>c pk sk. if take 32 c = pk then Some (drop 32 c) else None,
     so_seal_detached = \<lambda>plain aad nonce key. (plain, take 16 key),
     so_open_detached = \<lambda>cipher aad tag nonce key. if tag = take 16 key then Some cipher else None\<rparr>"

lemma map2_add_commute: "length xs = length ys \<Longrightarrow> map2 (+) xs ys = map2 (+) ys (xs :: 8 word list)"
  by (induction xs ys rule: list_induct2) (simp_all add: add.commute)

lemma sample_sodium_ok: "sodium_ok sample_sodium"
proof -
  have "map2 (+) (seed :: bytes) (take 32 seed') = map2 (+) seed' (take 32 seed)"
    if "length seed = 32" "length seed' = 32" for seed seed'
    using that map2_add_commute [of seed seed'] by simp
  then show ?thesis
    by (auto simp: sodium_ok_def sample_sodium_def SEEDBYTES_def SIG_PUBLICKEYBYTES_def SIG_SECRETKEYBYTES_def BOX_KEYBYTES_def
        SIGNATUREBYTES_def TAGBYTES_def KEYBYTES_def)
qed

theorem my_did_well_formed_witness:
  "case create_my_did (crypto_service_new sample_sodium) sample_tx (replicate 32 7)
      \<lparr>mi_did = None, mi_seed = None, mi_crypto_type = None, mi_cid = None, mi_method_name = Some ''sov''\<rparr> of
     Ok (did, key) \<Rightarrow> did_validate sample_decode (d_did did) = Some () \<and>
       sample_decode (did_to_short (d_did did)) = Some (replicate 16 7)
   | _ \<Rightarrow> False"
proof -
  let ?info = "\<lparr>mi_did = None, mi_seed = None, mi_crypto_type = None, mi_cid = None, mi_method_name = Some ''sov''\<rparr>"
  have valid: "my_did_info_validate (tx_from_b58 sample_tx) ?info = Some ()"
    by (simp add: my_did_info_validate_def did_method_validate_def is_method_char_def)
  have "tx_from_b58 sample_tx = sample_decode" by (simp add: sample_tx_def)
  moreover have "case create_my_did (crypto_service_new sample_sodium) sample_tx (replicate 32 7) ?info of
      Ok (did, key) \<Rightarrow> sample_decode (d_verkey did) = Some (replicate 32 7) | _ \<Rightarrow> False"
    by (simp add: create_my_did_def Let_def find_default ed25519_type_def create_key_pair_for_signature_def convert_seed_def from_slice_def
        SEEDBYTES_def sample_tx_def sample_sodium_def named_verkey_def sample_decode_encode)
  ultimately show ?thesis
    using my_did_well_formed [OF sample_sodium_ok sample_tx_ok _ valid, of "replicate 32 7"]
    by (auto simp: SEEDBYTES_def split: outcome.splits prod.splits)
qed

end
