(* ===== verification/Wallet_Objects.thy ===== *)
theory Wallet_Objects
  imports Wallet_Sessions
begin

text \<open>
  What the other components may rely on when they keep objects in an open wallet: every object
  operation of the wallet service (\<open>indy-wallet/src/lib.rs\<close>) answers and acts as on the map that the wallet
  stands for. The rules hold for every storage type of the contract \<open>storage_type\<close>.
\<close>

section \<open>Options\<close>

definition RECORD_OPTIONS_ID_VALUE :: string where
  "RECORD_OPTIONS_ID_VALUE = ''{\"retrieveType\":false,\"retrieveValue\":true,\"retrieveTags\":false}''"

definition SEARCH_OPTIONS_ID_VALUE :: string where
  "SEARCH_OPTIONS_ID_VALUE =
     ''{\"retrieveRecords\":true,\"retrieveTotalCount\":true,\"retrieveType\":true,\"retrieveValue\":true,\"retrieveTags\":false}''"

text \<open>How serde reads these texts, with the defaults of the fields that are missing, and the empty query.\<close>

definition objects_ok :: "ServiceEnv \<Rightarrow> StorageEnv \<Rightarrow> bool" where
  "objects_ok env senv \<longleftrightarrow> crypto_ok (sv_crypto env) \<and> se_foreign_keys senv \<and>
     se_record_options senv RECORD_OPTIONS_ID = Some \<lparr>ro_retrieve_type = False, ro_retrieve_value = False, ro_retrieve_tags = False\<rparr> \<and>
     se_record_options senv RECORD_OPTIONS_ID_VALUE = Some \<lparr>ro_retrieve_type = False, ro_retrieve_value = True, ro_retrieve_tags = False\<rparr> \<and>
     se_search_options senv SEARCH_OPTIONS_ID_VALUE =
       Some \<lparr>so_retrieve_records = True, so_retrieve_total_count = True, so_retrieve_type = True, so_retrieve_value = True, so_retrieve_tags = False\<rparr> \<and>
     se_search_options senv RECORD_OPTIONS_ID_VALUE =
       Some \<lparr>so_retrieve_records = True, so_retrieve_total_count = False, so_retrieve_type = False, so_retrieve_value = True, so_retrieve_tags = False\<rparr> \<and>
     sv_from_str env ''{}'' = Some (Value_Object [])"

section \<open>An open wallet\<close>

definition wallet_open ::
    "('s \<Rightarrow> bool) \<Rightarrow> ('s \<Rightarrow> content) \<Rightarrow> ServiceEnv \<Rightarrow> ('p, 's) StorageType \<Rightarrow> int \<Rightarrow> plain_wallet \<Rightarrow> ('p, 's) WalletService \<Rightarrow> bool" where
  "wallet_open ok con env ty h P svc \<longleftrightarrow>
     (\<exists>ow s. hm_get (ws_wallets svc) h = Some ow \<and> ow_type ow = ty \<and> ws_storages svc (ow_path ow) = Some s \<and> ok s \<and>
        content_rel (sv_crypto env) (ow_keys ow) (con s) P)"

text \<open>Values of the records of an object type by name.\<close>

definition objects :: "plain_wallet \<Rightarrow> string \<Rightarrow> string \<rightharpoonup> string" where
  "objects P type name = map_option fst (P (add_prefix type) name)"

definition put_object :: "plain_wallet \<Rightarrow> string \<Rightarrow> string \<Rightarrow> string \<Rightarrow> plain_wallet" where
  "put_object P type name v =
     P(add_prefix type := (P (add_prefix type))(name \<mapsto>
       (v, case P (add_prefix type) name of None \<Rightarrow> Map.empty | Some (_, tm) \<Rightarrow> tm)))"

definition remove_object :: "plain_wallet \<Rightarrow> string \<Rightarrow> string \<Rightarrow> plain_wallet" where
  "remove_object P type name = P(add_prefix type := (P (add_prefix type))(name := None))"

lemma add_prefix_inject [simp]: "add_prefix a = add_prefix b \<longleftrightarrow> a = b"
  by (simp add: add_prefix_def)

lemma objects_put [simp]:
  "objects (put_object P t n v) t' n' = (if t' = t \<and> n' = n then Some v else objects P t' n')"
  by (simp add: objects_def put_object_def)

lemma objects_remove [simp]:
  "objects (remove_object P t n) t' n' = (if t' = t \<and> n' = n then None else objects P t' n')"
  by (simp add: objects_def remove_object_def)

lemma rust_str_prefix: "rust_str (add_prefix t) = rust_str t"
  by (simp add: rust_str_def add_prefix_def)

lemma tags_ok_Nil [simp]: "tags_ok []"
  by (simp add: tags_ok_def hm_wf_def)

text \<open>The arguments of Rust's types: valid text, and random values of the right length.\<close>

definition object_ok :: "random \<Rightarrow> string \<Rightarrow> string \<Rightarrow> string \<Rightarrow> bool" where
  "object_ok rnd type name v \<longleftrightarrow> fresh_ok rnd \<and> rust_str type \<and> rust_str name \<and> rust_str v"

context storage_type
begin

abbreviation holds where "holds env h P svc \<equiv> wallet_open invar content env ty h P svc"

lemma record_command_open:
  assumes "objects_ok env senv" and "holds env h P svc" and "command_ok cmd"
  obtains st where "record_command env h cmd svc = (fst (map_step cmd P), svc\<lparr>ws_storages := st\<rparr>)"
    and "holds env h (snd (map_step cmd P)) (svc\<lparr>ws_storages := st\<rparr>)"
proof -
  obtain ow s where ow: "hm_get (ws_wallets svc) h = Some ow" "ow_type ow = ty" "ws_storages svc (ow_path ow) = Some s" "invar s"
      "content_rel (sv_crypto env) (ow_keys ow) (content s) P"
    using assms(2) by (auto simp: wallet_open_def)
  let ?w = "\<lparr>w_id = ow_id ow, w_storage = s, w_keys = ow_keys ow\<rparr>"
  obtain r w' where st: "wallet_step (ty_ops ty) (sv_crypto env) cmd ?w = (r, w')" by fastforce
  have "crypto_ok (sv_crypto env)" "se_foreign_keys senv" using assms(1) by (simp_all add: objects_ok_def)
  moreover have "wallet_rel invar content (sv_crypto env) ?w P" using ow by (simp add: wallet_rel_def)
  ultimately have "fst (map_step cmd P) = r" "wallet_rel invar content (sv_crypto env) w' (snd (map_step cmd P))" "w_keys w' = ow_keys ow"
    using wallet_step_rel [OF _ _ _ assms(3) st, of P] by simp_all
  with ow st show ?thesis
    by (intro that [of "(ws_storages svc)(ow_path ow \<mapsto> w_storage w')"])
      (auto simp: record_command_on_wallet on_wallet_def wallet_open_def wallet_rel_def)
qed

lemma get_record_open:
  assumes "objects_ok env senv" and "holds env h P svc" and "record_options senv options = Some ro"
  shows "case P t n of
      None \<Rightarrow> get_record env svc h t n options = Err WalletItemNotFound
    | Some x \<Rightarrow> \<exists>r. get_record env svc h t n options = Ok r \<and> record_shows ro (t, n, x) r"
proof -
  obtain ow s where ow: "hm_get (ws_wallets svc) h = Some ow" "ow_type ow = ty" "ws_storages svc (ow_path ow) = Some s" "invar s"
      "content_rel (sv_crypto env) (ow_keys ow) (content s) P"
    using assms(2) by (auto simp: wallet_open_def)
  then have "wallet_rel invar content (sv_crypto env) \<lparr>w_id = ow_id ow, w_storage = s, w_keys = ow_keys ow\<rparr> P"
    by (simp add: wallet_rel_def)
  from wallet_get_shows [OF _ this assms(3), of t n] show ?thesis
    using ow assms(1) by (auto simp: objects_ok_def get_record_def of_wallet_def on_wallet_def split: option.splits)
qed

lemma get_indy_record_value_shown:
  assumes "objects_ok env senv" and "holds env h P svc" and "record_options senv options = Some ro" and "ro_retrieve_value ro"
  shows "get_indy_record_value env svc h t n options = ok_or WalletItemNotFound (objects P t n)"
proof (cases "P (add_prefix t) n")
  case None
  with get_record_open [OF assms(1-3), of "add_prefix t" n] show ?thesis
    by (simp add: objects_def get_indy_record_value_def ok_or_def)
next
  case (Some x)
  with get_record_open [OF assms(1-3), of "add_prefix t" n] obtain r where
    "get_record env svc h (add_prefix t) n options = Ok r" "record_shows ro (add_prefix t, n, x) r" by auto
  then have "wr_value r = Some (fst x)" using assms(4) by (cases x) (simp add: record_shows_def)
  with \<open>get_record env svc h (add_prefix t) n options = Ok r\<close> Some show ?thesis
    by (simp add: objects_def get_indy_record_value_def ok_or_def)
qed

lemma get_indy_object_open:
  assumes "objects_ok env senv" and "holds env h P svc"
  shows "get_indy_object env from_str svc h t n RECORD_OPTIONS_ID_VALUE =
    (case objects P t n of None \<Rightarrow> Err WalletItemNotFound | Some v \<Rightarrow> ok_or InvalidState (from_str v))"
proof -
  have "record_options senv RECORD_OPTIONS_ID_VALUE = Some \<lparr>ro_retrieve_type = False, ro_retrieve_value = True, ro_retrieve_tags = False\<rparr>"
    using assms(1) by (simp add: objects_ok_def record_options_def RECORD_OPTIONS_ID_VALUE_def)
  from get_indy_record_value_shown [OF assms this] show ?thesis
    by (simp add: get_indy_object_def ok_or_def split: option.splits)
qed

lemma get_indy_opt_object_open:
  assumes "objects_ok env senv" and "holds env h P svc"
  shows "get_indy_opt_object env from_str svc h t n RECORD_OPTIONS_ID_VALUE =
    (case objects P t n of None \<Rightarrow> Ok None | Some v \<Rightarrow> map_ok Some (ok_or InvalidState (from_str v)))"
  by (auto simp: get_indy_opt_object_def get_indy_object_open [OF assms] ok_or_def split: option.splits)

lemma get_indy_record_value_open:
  assumes "objects_ok env senv" and "holds env h P svc"
  shows "get_indy_record_value env svc h t n ''{}'' = ok_or WalletItemNotFound (objects P t n)"
  by (rule get_indy_record_value_shown [OF assms, of _ record_options_default])
    (simp_all add: record_options_def record_options_default_def)

lemma get_indy_record_open:
  assumes "objects_ok env senv" and "holds env h P svc"
  shows "map_ok (\<lambda>_. ()) (get_indy_record env svc h t n RECORD_OPTIONS_ID) = (if objects P t n = None then Err WalletItemNotFound else Ok ())"
proof -
  have "record_options senv RECORD_OPTIONS_ID = Some \<lparr>ro_retrieve_type = False, ro_retrieve_value = False, ro_retrieve_tags = False\<rparr>"
    using assms(1) by (simp add: objects_ok_def record_options_def RECORD_OPTIONS_ID_def)
  from get_record_open [OF assms this, of "add_prefix t" n] show ?thesis
    by (auto simp: objects_def get_indy_record_def split: option.splits)
qed

lemma record_exists_open:
  assumes "objects_ok env senv" and "holds env h P svc"
  shows "record_exists env svc h t n = Ok (objects P t n \<noteq> None)"
  using get_indy_record_open [OF assms, of t n]
  by (cases "get_record env svc h (add_prefix t) n RECORD_OPTIONS_ID") (auto simp: record_exists_def get_indy_record_def split: if_splits)

lemma add_indy_object_open:
  assumes "objects_ok env senv" and "holds env h P svc" and "object_ok rnd t n v"
  obtains st where "add_indy_object env rnd svc h t n (Some v) [] =
      (if objects P t n = None then Ok v else Err WalletItemAlreadyExists, svc\<lparr>ws_storages := st\<rparr>)"
    and "holds env h (if objects P t n = None then put_object P t n v else P) (svc\<lparr>ws_storages := st\<rparr>)"
proof -
  have "command_ok (Cmd_Add rnd (add_prefix t) n v [])" using assms(3) by (simp add: object_ok_def rust_str_prefix)
  from record_command_open [OF assms(1,2) this] obtain st where
    st: "add_record env rnd svc h (add_prefix t) n v [] = (fst (map_step (Cmd_Add rnd (add_prefix t) n v []) P), svc\<lparr>ws_storages := st\<rparr>)"
      "holds env h (snd (map_step (Cmd_Add rnd (add_prefix t) n v []) P)) (svc\<lparr>ws_storages := st\<rparr>)"
    by auto
  moreover have "hm_get [] = (Map.empty :: string \<rightharpoonup> string)" by (rule ext) simp
  ultimately show ?thesis
    by (intro that [of st]) (auto simp: objects_def put_object_def add_indy_object_def add_indy_record_def split: option.splits)
qed

lemma update_indy_object_open:
  assumes "objects_ok env senv" and "holds env h P svc" and "object_ok rnd t n v"
  obtains st where "update_indy_object env rnd svc h t n (Some v) =
      (if objects P t n = None then Err WalletItemNotFound else Ok v, svc\<lparr>ws_storages := st\<rparr>)"
    and "holds env h (if objects P t n = None then P else put_object P t n v) (svc\<lparr>ws_storages := st\<rparr>)"
proof -
  have "command_ok (Cmd_Update rnd (add_prefix t) n v)" using assms(3) by (simp add: object_ok_def)
  from record_command_open [OF assms(1,2) this] obtain st where
    st: "on_wallet svc h (\<lambda>ops w. wallet_update ops (sv_crypto env) rnd w (add_prefix t) n v) =
        (fst (map_step (Cmd_Update rnd (add_prefix t) n v) P), svc\<lparr>ws_storages := st\<rparr>)"
      "holds env h (snd (map_step (Cmd_Update rnd (add_prefix t) n v) P)) (svc\<lparr>ws_storages := st\<rparr>)"
    by (auto simp: update_record_value_def)
  moreover obtain ow where "hm_get (ws_wallets svc) h = Some ow" using assms(2) by (auto simp: wallet_open_def)
  ultimately show ?thesis
    by (intro that [of st]) (auto simp: objects_def put_object_def update_indy_object_def change_item_def split: option.splits)
qed

lemma upsert_indy_object_open:
  assumes "objects_ok env senv" and "holds env h P svc" and "object_ok rnd t n v"
  obtains st where "upsert_indy_object env rnd svc h t n (Some v) = (Ok v, svc\<lparr>ws_storages := st\<rparr>)"
    and "holds env h (put_object P t n v) (svc\<lparr>ws_storages := st\<rparr>)"
proof (cases "objects P t n")
  case None
  obtain st where "add_indy_object env rnd svc h t n (Some v) [] = (Ok v, svc\<lparr>ws_storages := st\<rparr>)"
      "holds env h (put_object P t n v) (svc\<lparr>ws_storages := st\<rparr>)"
    using add_indy_object_open [OF assms] None by auto
  with None show ?thesis by (intro that [of st]) (simp_all add: upsert_indy_object_def record_exists_open [OF assms(1,2)])
next
  case (Some x)
  obtain st where "update_indy_object env rnd svc h t n (Some v) = (Ok v, svc\<lparr>ws_storages := st\<rparr>)"
      "holds env h (put_object P t n v) (svc\<lparr>ws_storages := st\<rparr>)"
    using update_indy_object_open [OF assms] Some by auto
  with Some show ?thesis by (intro that [of st]) (simp_all add: upsert_indy_object_def record_exists_open [OF assms(1,2)])
qed

lemma delete_indy_record_open:
  assumes "objects_ok env senv" and "holds env h P svc"
  obtains st where "delete_indy_record env svc h t n =
      (if objects P t n = None then Err WalletItemNotFound else Ok (), svc\<lparr>ws_storages := st\<rparr>)"
    and "holds env h (remove_object P t n) (svc\<lparr>ws_storages := st\<rparr>)"
proof -
  have "command_ok (Cmd_Delete (add_prefix t) n)" by simp
  from record_command_open [OF assms this] obtain st where
    "delete_record env svc h (add_prefix t) n = (fst (map_step (Cmd_Delete (add_prefix t) n) P), svc\<lparr>ws_storages := st\<rparr>)"
    "holds env h (snd (map_step (Cmd_Delete (add_prefix t) n) P)) (svc\<lparr>ws_storages := st\<rparr>)"
    by auto
  moreover have "P (add_prefix t) n = None \<Longrightarrow> remove_object P t n = P" by (auto simp: remove_object_def fun_eq_iff)
  ultimately show ?thesis
    by (intro that [of st]) (auto simp: objects_def remove_object_def delete_indy_record_def change_item_def split: option.splits)
qed

lemma add_new_object:
  assumes "objects_ok env senv" and "holds env h P svc" and "object_ok rnd t n v" and "objects P t n = None"
  obtains svc' where "add_indy_object env rnd svc h t n (Some v) [] = (Ok v, svc')" "holds env h (put_object P t n v) svc'"
  by (rule add_indy_object_open [OF assms(1-3)], rule that) (simp_all add: assms(4))

lemma update_existing_object:
  assumes "objects_ok env senv" and "holds env h P svc" and "object_ok rnd t n v" and "objects P t n \<noteq> None"
  obtains svc' where "update_indy_object env rnd svc h t n (Some v) = (Ok v, svc')" "holds env h (put_object P t n v) svc'"
  by (rule update_indy_object_open [OF assms(1-3)], rule that) (simp_all add: assms(4))

lemma delete_existing_object:
  assumes "objects_ok env senv" and "holds env h P svc" and "objects P t n \<noteq> None"
  obtains svc' where "delete_indy_record env svc h t n = (Ok (), svc')" "holds env h (remove_object P t n) svc'"
  by (rule delete_indy_record_open [OF assms(1,2)], rule that) (simp_all add: assms(3))

text \<open>A search, and a search for all objects of a type; the listing has each record once.\<close>

lemma search_records_open:
  assumes "objects_ok env senv" and "holds env h P svc" and "sv_from_str env query = Some j" and "query_deserialize j = Inr q"
    and "or_operands_restrict q" and "optimise q = None \<or> sql_query (optimised q)"
    and "se_search_options senv options = Some so" and "so_retrieve_records so"
  shows "\<exists>it es recs. search_records env svc h t query options = Ok it \<and>
    lists_plain P (\<lambda>t' tm. t' = t \<and> query_matches (se_like senv) tm q) es \<and>
    iterator_total_count it = Ok (if so_retrieve_total_count so then Some (length es) else None) \<and>
    iterator_records (sv_crypto env) it = Ok recs \<and> list_all2 (record_shows (fetch_options so)) es recs"
proof -
  obtain ow s where ow: "hm_get (ws_wallets svc) h = Some ow" "ow_type ow = ty" "ws_storages svc (ow_path ow) = Some s" "invar s"
      "content_rel (sv_crypto env) (ow_keys ow) (content s) P"
    using assms(2) by (auto simp: wallet_open_def)
  have crypto: "crypto_ok (sv_crypto env)" using assms(1) by (simp add: objects_ok_def)
  have rel: "wallet_rel invar content (sv_crypto env) \<lparr>w_id = ow_id ow, w_storage = s, w_keys = ow_keys ow\<rparr> P" using ow by (simp add: wallet_rel_def)
  have "search_options senv (Some options) = Some so" using assms(7) by (simp add: search_options_def)
  from wallet_search_lists [where from_str = "sv_from_str env", OF crypto rel assms(3-6) this, of t] show ?thesis
    using ow assms(8) by (auto simp: search_records_def of_wallet_def on_wallet_def)
qed

lemma search_indy_records_open:
  assumes "objects_ok env senv" and "holds env h P svc" and "se_search_options senv options = Some so" and "so_retrieve_records so"
  shows "\<exists>it es recs. search_indy_records env svc h t ''{}'' options = Ok it \<and>
    lists_plain P (\<lambda>t' tm. t' = add_prefix t) es \<and> iterator_records (sv_crypto env) it = Ok recs \<and>
    list_all2 (record_shows (fetch_options so)) es recs"
proof -
  have query: "sv_from_str env ''{}'' = Some (Value_Object [])" using assms(1) by (simp add: objects_ok_def)
  have q: "query_deserialize (Value_Object []) = Inr (Q_And [])" by (simp add: parse_query_def)
  from search_records_open [OF assms(1,2) query q _ _ assms(3,4), of "add_prefix t"] show ?thesis
    by (auto simp: search_indy_records_def)
qed

lemma search_objects:
  assumes "objects_ok env senv" and "holds env h P svc" and "se_search_options senv options = Some so" and "so_retrieve_records so"
    and "so_retrieve_value so"
  obtains it ns recs where "search_indy_records env svc h t ''{}'' options = Ok it" "iterator_records (sv_crypto env) it = Ok recs"
    "distinct ns" "set ns = {n. objects P t n \<noteq> None}" "list_all2 (\<lambda>n r. wr_id r = n \<and> wr_value r = objects P t n) ns recs"
proof -
  obtain it es recs where s: "search_indy_records env svc h t ''{}'' options = Ok it" "lists_plain P (\<lambda>t' tm. t' = add_prefix t) es"
      "iterator_records (sv_crypto env) it = Ok recs" "list_all2 (record_shows (fetch_options so)) es recs"
    using search_indy_records_open [OF assms(1-4)] by blast
  let ?ns = "map (\<lambda>(_, n, _). n) es"
  have es: "distinct (map (\<lambda>(t, n, _). (t, n)) es)" "set es = {(t', n, v, tm). P t' n = Some (v, tm) \<and> t' = add_prefix t}"
    using s(2) by (simp_all add: lists_plain_def)
  have "distinct ?ns" using es by (auto simp: distinct_map inj_on_def)
  moreover have "set ?ns = {n. objects P t n \<noteq> None}" using es(2) by (auto simp: objects_def image_iff)
  moreover have "list_all2 (\<lambda>n r. wr_id r = n \<and> wr_value r = objects P t n) ?ns recs"
  proof -
    have "wr_id r = n \<and> wr_value r = objects P t n" if "e = (t', n, v, tm)" "e \<in> set es" "record_shows (fetch_options so) e r" for e t' n v tm r
      using that es(2) assms(5) by (auto simp: record_shows_def objects_def fetch_options_def)
    then have "list_all2 (\<lambda>e r. wr_id r = fst (snd e) \<and> wr_value r = objects P t (fst (snd e))) es recs"
      by (intro list.rel_mono_strong [OF s(4)]) auto
    then show ?thesis by (simp add: list.rel_map case_prod_beta)
  qed
  ultimately show ?thesis using s(1,3) by (intro that) auto
qed

lemma objects_text:
  assumes "objects_ok env senv" and "holds env h P svc" and "objects P t n = Some v"
  shows "rust_str n \<and> rust_str v"
proof -
  have crypto: "crypto_ok (sv_crypto env)" using assms(1) by (simp add: objects_ok_def)
  obtain ow :: "('p, 's) OpenWallet" and s where rel: "content_rel (sv_crypto env) (ow_keys ow) (content s) P" using assms(2) unfolding wallet_open_def by blast
  obtain tm where P: "P (add_prefix t) n = Some (v, tm)" using assms(3) by (auto simp: objects_def)
  show ?thesis using content_rel_rust_str [OF crypto rel P] content_rel_Some [OF rel P] by (auto simp: item_rel_def)
qed

end

section \<open>A sample instance\<close>

definition object_storage_env :: StorageEnv where
  "object_storage_env = (sample_storage_env True)\<lparr>
     se_record_options := (\<lambda>s. if s = RECORD_OPTIONS_ID then Some \<lparr>ro_retrieve_type = False, ro_retrieve_value = False, ro_retrieve_tags = False\<rparr>
       else if s = RECORD_OPTIONS_ID_VALUE then Some \<lparr>ro_retrieve_type = False, ro_retrieve_value = True, ro_retrieve_tags = False\<rparr> else None),
     se_search_options := (\<lambda>s. if s = SEARCH_OPTIONS_ID_VALUE then
         Some \<lparr>so_retrieve_records = True, so_retrieve_total_count = True, so_retrieve_type = True, so_retrieve_value = True, so_retrieve_tags = False\<rparr>
       else Some \<lparr>so_retrieve_records = True, so_retrieve_total_count = False, so_retrieve_type = False, so_retrieve_value = True, so_retrieve_tags = False\<rparr>)\<rparr>"

definition object_service_env :: ServiceEnv where
  "object_service_env = sample_service_env\<lparr>sv_from_str := \<lambda>_. Some (Value_Object [])\<rparr>"

definition object_type :: "(string \<times> string, SqliteDb) StorageType" where
  "object_type = sqlite_type object_storage_env \<lparr>parse_config = \<lambda>s. Some (Some s), home = ''home''\<rparr>"

definition object_service :: "(string \<times> string, SqliteDb) WalletService" where
  "object_service = (service_new object_type)\<lparr>
     ws_wallets := [(1, \<lparr>ow_id = ''w'', ow_path = (''home'', ''w''), ow_type = object_type, ow_keys = sample_wallet_keys\<rparr>)],
     ws_wallet_ids := {''w''}, ws_storages := [(''home'', ''w'') \<mapsto> sqlite_new []]\<rparr>"

lemma sample_objects_ok: "objects_ok object_service_env object_storage_env"
  using sample_service_env_ok
  by (simp add: objects_ok_def object_service_env_def object_storage_env_def sample_storage_env_def service_env_ok_def
      RECORD_OPTIONS_ID_def RECORD_OPTIONS_ID_VALUE_def SEARCH_OPTIONS_ID_VALUE_def)

lemma sample_wallet_open: "wallet_open sqlite_ok sqlite_content object_service_env object_type 1 (\<lambda>_ _. None) object_service"
  by (simp add: wallet_open_def object_service_def sqlite_new_empty content_rel_def)

end
