(* ===== verification/Crypto_Commands.thy ===== *)
theory Crypto_Commands
  imports Crypto_Service Wallet_Objects
begin

text \<open>
  The crypto commands (\<open>commands/crypto.rs\<close>, \<open>domain/crypto/pack.rs\<close>, \<open>domain/crypto/combo_box.rs\<close>): keys in the
  wallet, signatures, the older authenticated and anonymous encryption, and the packing of a message for
  several receivers. Serde's JSON and MessagePack codecs of the structures are the record \<open>MsgCodec\<close>.
\<close>

section \<open>Messages\<close>

record JWE =
  jwe_protected :: string
  jwe_iv :: string
  jwe_ciphertext :: string
  jwe_tag :: string

record Header =
  hd_kid :: string
  hd_iv :: "string option"
  hd_sender :: "string option"

record Recipient =
  rc_encrypted_key :: string
  rc_header :: Header

record Protected =
  pt_enc :: string
  pt_typ :: string
  pt_alg :: string
  pt_recipients :: "Recipient list"

record UnpackMessage =
  um_message :: string
  um_recipient_verkey :: string
  um_sender_verkey :: "string option"

definition PROTECTED_HEADER_ENC :: string where "PROTECTED_HEADER_ENC = ''xchacha20poly1305_ietf''"
definition PROTECTED_HEADER_TYP :: string where "PROTECTED_HEADER_TYP = ''JWM/1.0''"
definition PROTECTED_HEADER_ALG_AUTH :: string where "PROTECTED_HEADER_ALG_AUTH = ''Authcrypt''"
definition PROTECTED_HEADER_ALG_ANON :: string where "PROTECTED_HEADER_ALG_ANON = ''Anoncrypt''"

record MsgCodec =
  mc_key_to_string :: "Key \<Rightarrow> string option"
  mc_key_from_str :: "string \<Rightarrow> Key option"
  mc_metadata_to_string :: "string \<Rightarrow> string option"
  mc_metadata_from_str :: "string \<Rightarrow> string option"
  mc_combo_to_vec :: "ComboBox \<Rightarrow> bytes option"
  mc_combo_from_slice :: "bytes \<Rightarrow> ComboBox option"
  mc_protected_to_string :: "Protected \<Rightarrow> string option"
  mc_protected_from_str :: "string \<Rightarrow> Protected option"
  mc_jwe_to_vec :: "JWE \<Rightarrow> bytes option"
  mc_jwe_from_slice :: "bytes \<Rightarrow> JWE option"
  mc_unpacked_to_vec :: "UnpackMessage \<Rightarrow> bytes option"

text \<open>The services and libraries of an executor.\<close>

record CommandEnv =
  ce_crypto :: CryptoService
  ce_sodium :: SodiumEnv
  ce_text :: TextCodec
  ce_msg :: MsgCodec
  ce_wallet :: ServiceEnv

text \<open>Random values: for a key, for the encryption of a record, and for packing.\<close>

record PackDraws =
  pd_cek :: bytes
  pd_nonce :: bytes
  pd_box_nonce :: "nat \<Rightarrow> bytes"
  pd_seal_random :: "nat \<Rightarrow> bytes"

section \<open>Keys\<close>

definition load_key :: "CommandEnv \<Rightarrow> ('p, 's) WalletService \<Rightarrow> int \<Rightarrow> string \<Rightarrow> Key outcome" where
  "load_key ce svc h vk = get_indy_object (ce_wallet ce) (mc_key_from_str (ce_msg ce)) svc h ''Key'' vk RECORD_OPTIONS_ID_VALUE"

definition cmd_create_key ::
    "CommandEnv \<Rightarrow> bytes \<Rightarrow> random \<Rightarrow> ('p, 's) WalletService \<Rightarrow> int \<Rightarrow> KeyInfo \<Rightarrow> string outcome \<times> ('p, 's) WalletService" where
  "cmd_create_key ce random rnd svc h key_info =
     (case create_key (ce_crypto ce) (ce_text ce) random key_info of
        Err e \<Rightarrow> (Err e, svc)
      | Panic \<Rightarrow> (Panic, svc)
      | Ok key \<Rightarrow>
          (let (r, svc') = add_indy_object (ce_wallet ce) rnd svc h ''Key'' (k_verkey key) (mc_key_to_string (ce_msg ce) key) []
           in (map_ok (\<lambda>_. k_verkey key) r, svc')))"

definition cmd_set_key_metadata ::
    "CommandEnv \<Rightarrow> random \<Rightarrow> ('p, 's) WalletService \<Rightarrow> int \<Rightarrow> string \<Rightarrow> string \<Rightarrow> unit outcome \<times> ('p, 's) WalletService" where
  "cmd_set_key_metadata ce rnd svc h verkey metadata =
     (case validate_key (ce_crypto ce) (ce_text ce) verkey of
        Err e \<Rightarrow> (Err e, svc)
      | Panic \<Rightarrow> (Panic, svc)
      | Ok _ \<Rightarrow>
          (let (r, svc') = upsert_indy_object (ce_wallet ce) rnd svc h ''KeyMetadata'' verkey (mc_metadata_to_string (ce_msg ce) metadata)
           in (map_ok (\<lambda>_. ()) r, svc')))"

definition cmd_get_key_metadata :: "CommandEnv \<Rightarrow> ('p, 's) WalletService \<Rightarrow> int \<Rightarrow> string \<Rightarrow> string outcome" where
  "cmd_get_key_metadata ce svc h verkey =
     and_then (validate_key (ce_crypto ce) (ce_text ce) verkey) (\<lambda>_.
       get_indy_object (ce_wallet ce) (mc_metadata_from_str (ce_msg ce)) svc h ''KeyMetadata'' verkey RECORD_OPTIONS_ID_VALUE)"

definition cmd_crypto_sign :: "CommandEnv \<Rightarrow> ('p, 's) WalletService \<Rightarrow> int \<Rightarrow> string \<Rightarrow> bytes \<Rightarrow> bytes outcome" where
  "cmd_crypto_sign ce svc h my_vk msg =
     and_then (validate_key (ce_crypto ce) (ce_text ce) my_vk) (\<lambda>_.
     and_then (load_key ce svc h my_vk) (\<lambda>key.
       crypto_sign (ce_crypto ce) (ce_text ce) key msg))"

definition cmd_crypto_verify :: "CommandEnv \<Rightarrow> string \<Rightarrow> bytes \<Rightarrow> bytes \<Rightarrow> bool outcome" where
  "cmd_crypto_verify ce their_vk msg signature =
     and_then (validate_key (ce_crypto ce) (ce_text ce) their_vk) (\<lambda>_.
       crypto_verify (ce_crypto ce) (ce_text ce) their_vk msg signature)"

section \<open>Authenticated and anonymous encryption\<close>

definition authenticated_encrypt ::
    "CommandEnv \<Rightarrow> bytes \<Rightarrow> bytes \<Rightarrow> ('p, 's) WalletService \<Rightarrow> int \<Rightarrow> string \<Rightarrow> string \<Rightarrow> bytes \<Rightarrow> bytes outcome" where
  "authenticated_encrypt ce nonce random svc h my_vk their_vk msg =
     and_then (validate_key (ce_crypto ce) (ce_text ce) my_vk) (\<lambda>_.
     and_then (validate_key (ce_crypto ce) (ce_text ce) their_vk) (\<lambda>_.
     and_then (load_key ce svc h my_vk) (\<lambda>my_key.
     and_then (create_combo_box (ce_crypto ce) (ce_text ce) nonce my_key their_vk msg) (\<lambda>msg.
     and_then (ok_or InvalidState (mc_combo_to_vec (ce_msg ce) msg)) (\<lambda>msg.
       crypto_box_seal (ce_crypto ce) (ce_text ce) random their_vk msg)))))"

definition authenticated_decrypt ::
    "CommandEnv \<Rightarrow> ('p, 's) WalletService \<Rightarrow> int \<Rightarrow> string \<Rightarrow> bytes \<Rightarrow> (string \<times> bytes) outcome" where
  "authenticated_decrypt ce svc h my_vk msg =
     and_then (validate_key (ce_crypto ce) (ce_text ce) my_vk) (\<lambda>_.
     and_then (load_key ce svc h my_vk) (\<lambda>my_key.
     and_then (crypto_box_seal_open (ce_crypto ce) (ce_text ce) my_key msg) (\<lambda>decrypted_msg.
     and_then (ok_or InvalidStructure (mc_combo_from_slice (ce_msg ce) decrypted_msg)) (\<lambda>parsed_msg.
     and_then (base64_decode (ce_text ce) (cb_msg parsed_msg)) (\<lambda>doc.
     and_then (base64_decode (ce_text ce) (cb_nonce parsed_msg)) (\<lambda>nonce.
     and_then (crypto_box_open (ce_crypto ce) (ce_text ce) my_key (cb_sender parsed_msg) doc nonce) (\<lambda>decrypted_msg.
       Ok (cb_sender parsed_msg, decrypted_msg))))))))"

definition anonymous_encrypt :: "CommandEnv \<Rightarrow> bytes \<Rightarrow> string \<Rightarrow> bytes \<Rightarrow> bytes outcome" where
  "anonymous_encrypt ce random their_vk msg =
     and_then (validate_key (ce_crypto ce) (ce_text ce) their_vk) (\<lambda>_.
       crypto_box_seal (ce_crypto ce) (ce_text ce) random their_vk msg)"

definition anonymous_decrypt :: "CommandEnv \<Rightarrow> ('p, 's) WalletService \<Rightarrow> int \<Rightarrow> string \<Rightarrow> bytes \<Rightarrow> bytes outcome" where
  "anonymous_decrypt ce svc h my_vk encrypted_msg =
     and_then (validate_key (ce_crypto ce) (ce_text ce) my_vk) (\<lambda>_.
     and_then (load_key ce svc h my_vk) (\<lambda>my_key.
       crypto_box_seal_open (ce_crypto ce) (ce_text ce) my_key encrypted_msg))"

section \<open>Packing\<close>

definition base64_encode_protected :: "CommandEnv \<Rightarrow> Recipient list \<Rightarrow> bool \<Rightarrow> string outcome" where
  "base64_encode_protected ce recipients alg_is_authcrypt =
     (let alg_val = (if alg_is_authcrypt then PROTECTED_HEADER_ALG_AUTH else PROTECTED_HEADER_ALG_ANON);
          protected_struct = \<lparr>pt_enc = PROTECTED_HEADER_ENC, pt_typ = PROTECTED_HEADER_TYP, pt_alg = alg_val, pt_recipients = recipients\<rparr>
      in and_then (ok_or InvalidStructure (mc_protected_to_string (ce_msg ce) protected_struct)) (\<lambda>protected_encoded.
           Ok (encode_urlsafe (ce_text ce) (str_bytes protected_encoded))))"

text \<open>The loops over the receivers; \<open>i\<close> numbers them for the random values.\<close>

fun anon_recipients :: "CommandEnv \<Rightarrow> PackDraws \<Rightarrow> nat \<Rightarrow> string list \<Rightarrow> Recipient list outcome" where
  "anon_recipients ce d i [] = Ok []"
| "anon_recipients ce d i (their_vk # receiver_list) =
     and_then (crypto_box_seal (ce_crypto ce) (ce_text ce) (pd_seal_random d i) their_vk (pd_cek d)) (\<lambda>enc_cek.
     and_then (anon_recipients ce d (Suc i) receiver_list) (\<lambda>rest.
       Ok (\<lparr>rc_encrypted_key = encode_urlsafe (ce_text ce) enc_cek,
            rc_header = \<lparr>hd_kid = their_vk, hd_iv = None, hd_sender = None\<rparr>\<rparr> # rest)))"

fun auth_recipients :: "CommandEnv \<Rightarrow> PackDraws \<Rightarrow> Key \<Rightarrow> string \<Rightarrow> nat \<Rightarrow> string list \<Rightarrow> Recipient list outcome" where
  "auth_recipients ce d my_key sender_vk i [] = Ok []"
| "auth_recipients ce d my_key sender_vk i (their_vk # receiver_list) =
     and_then (crypto_box (ce_crypto ce) (ce_text ce) (pd_box_nonce d i) my_key their_vk (pd_cek d)) (\<lambda>(enc_cek, iv).
     and_then (crypto_box_seal (ce_crypto ce) (ce_text ce) (pd_seal_random d i) their_vk (str_bytes sender_vk)) (\<lambda>enc_sender.
     and_then (auth_recipients ce d my_key sender_vk (Suc i) receiver_list) (\<lambda>rest.
       Ok (\<lparr>rc_encrypted_key = encode_urlsafe (ce_text ce) enc_cek,
            rc_header = \<lparr>hd_kid = their_vk, hd_iv = Some (encode_urlsafe (ce_text ce) iv),
              hd_sender = Some (encode_urlsafe (ce_text ce) enc_sender)\<rparr>\<rparr> # rest))))"

definition prepare_protected_anoncrypt :: "CommandEnv \<Rightarrow> PackDraws \<Rightarrow> string list \<Rightarrow> string outcome" where
  "prepare_protected_anoncrypt ce d receiver_list =
     and_then (anon_recipients ce d 0 receiver_list) (\<lambda>recipients. base64_encode_protected ce recipients False)"

definition prepare_protected_authcrypt ::
    "CommandEnv \<Rightarrow> PackDraws \<Rightarrow> string list \<Rightarrow> string \<Rightarrow> ('p, 's) WalletService \<Rightarrow> int \<Rightarrow> string outcome" where
  "prepare_protected_authcrypt ce d receiver_list sender_vk svc h =
     and_then (load_key ce svc h sender_vk) (\<lambda>my_key.
     and_then (auth_recipients ce d my_key sender_vk 0 receiver_list) (\<lambda>recipients.
       base64_encode_protected ce recipients True))"

definition format_pack_message :: "CommandEnv \<Rightarrow> string \<Rightarrow> string \<Rightarrow> string \<Rightarrow> string \<Rightarrow> bytes outcome" where
  "format_pack_message ce base64_protected ciphertext iv tag =
     ok_or InvalidStructure (mc_jwe_to_vec (ce_msg ce)
       \<lparr>jwe_protected = base64_protected, jwe_iv = iv, jwe_ciphertext = ciphertext, jwe_tag = tag\<rparr>)"

definition pack_msg ::
    "CommandEnv \<Rightarrow> PackDraws \<Rightarrow> ('p, 's) WalletService \<Rightarrow> bytes \<Rightarrow> string list \<Rightarrow> string option \<Rightarrow> int \<Rightarrow> bytes outcome" where
  "pack_msg ce d svc message receiver_list sender_vk h =
     (if receiver_list = [] then Err InvalidStructure
      else and_then
        (case sender_vk of
           Some sender_vk \<Rightarrow>
             and_then (validate_key (ce_crypto ce) (ce_text ce) sender_vk) (\<lambda>_.
               prepare_protected_authcrypt ce d receiver_list sender_vk svc h)
         | None \<Rightarrow> prepare_protected_anoncrypt ce d receiver_list)
        (\<lambda>base64_protected.
          let (ciphertext, iv, tag) = encrypt_plaintext (ce_sodium ce) (ce_text ce) (pd_nonce d) message base64_protected (pd_cek d)
          in format_pack_message ce base64_protected ciphertext iv tag))"

section \<open>Unpacking\<close>

fun find_correct_recipient :: "CommandEnv \<Rightarrow> ('p, 's) WalletService \<Rightarrow> int \<Rightarrow> Recipient list \<Rightarrow> (Recipient \<times> bool) outcome" where
  "find_correct_recipient ce svc h [] = Err WalletItemNotFound"
| "find_correct_recipient ce svc h (recipient # recipients) =
     (case load_key ce svc h (hd_kid (rc_header recipient)) of
        Ok _ \<Rightarrow> Ok (recipient, hd_sender (rc_header recipient) \<noteq> None)
      | Err _ \<Rightarrow> find_correct_recipient ce svc h recipients
      | Panic \<Rightarrow> Panic)"

definition unwrap :: "'a option \<Rightarrow> 'a outcome" where
  "unwrap v = (case v of Some x \<Rightarrow> Ok x | None \<Rightarrow> Panic)"

definition unpack_cek_authcrypt ::
    "CommandEnv \<Rightarrow> ('p, 's) WalletService \<Rightarrow> int \<Rightarrow> Recipient \<Rightarrow> (string option \<times> bytes) outcome" where
  "unpack_cek_authcrypt ce svc h recipient =
     and_then (decode_urlsafe (ce_text ce) (rc_encrypted_key recipient)) (\<lambda>encrypted_key.
     and_then (and_then (unwrap (hd_iv (rc_header recipient))) (decode_urlsafe (ce_text ce))) (\<lambda>iv.
     and_then (and_then (unwrap (hd_sender (rc_header recipient))) (decode_urlsafe (ce_text ce))) (\<lambda>enc_sender_vk.
     and_then (load_key ce svc h (hd_kid (rc_header recipient))) (\<lambda>my_key.
     and_then (crypto_box_seal_open (ce_crypto ce) (ce_text ce) my_key enc_sender_vk) (\<lambda>sender_vk.
     and_then (ok_or InvalidStructure (from_utf8 sender_vk)) (\<lambda>sender_vk.
     and_then (crypto_box_open (ce_crypto ce) (ce_text ce) my_key sender_vk encrypted_key iv) (\<lambda>cek.
     and_then (from_slice KEYBYTES cek) (\<lambda>cek.
       Ok (Some sender_vk, cek)))))))))"

definition unpack_cek_anoncrypt ::
    "CommandEnv \<Rightarrow> ('p, 's) WalletService \<Rightarrow> int \<Rightarrow> Recipient \<Rightarrow> (string option \<times> bytes) outcome" where
  "unpack_cek_anoncrypt ce svc h recipient =
     and_then (decode_urlsafe (ce_text ce) (rc_encrypted_key recipient)) (\<lambda>encrypted_key.
     and_then (load_key ce svc h (hd_kid (rc_header recipient))) (\<lambda>my_key.
     and_then (crypto_box_seal_open (ce_crypto ce) (ce_text ce) my_key encrypted_key) (\<lambda>cek.
     and_then (from_slice KEYBYTES cek) (\<lambda>cek.
       Ok (None, cek)))))"

definition unpack_msg :: "CommandEnv \<Rightarrow> ('p, 's) WalletService \<Rightarrow> JWE \<Rightarrow> int \<Rightarrow> bytes outcome" where
  "unpack_msg ce svc jwe h =
     and_then (decode_urlsafe (ce_text ce) (jwe_protected jwe)) (\<lambda>protected_vec.
     and_then (ok_or InvalidStructure (from_utf8 protected_vec)) (\<lambda>protected_str.
     and_then (ok_or InvalidStructure (mc_protected_from_str (ce_msg ce) protected_str)) (\<lambda>protected_struct.
     and_then (find_correct_recipient ce svc h (pt_recipients protected_struct)) (\<lambda>(recipient, is_auth_recipient).
     and_then
       (if is_auth_recipient then unpack_cek_authcrypt ce svc h recipient else unpack_cek_anoncrypt ce svc h recipient)
       (\<lambda>(sender_verkey, cek).
     and_then (decrypt_ciphertext (ce_sodium ce) (ce_text ce) (jwe_ciphertext jwe) (jwe_protected jwe) (jwe_iv jwe) (jwe_tag jwe) cek)
       (\<lambda>message.
       ok_or InvalidStructure (mc_unpacked_to_vec (ce_msg ce)
         \<lparr>um_message = message, um_recipient_verkey = hd_kid (rc_header recipient), um_sender_verkey = sender_verkey\<rparr>)))))))"

section \<open>Dispatch\<close>

datatype CryptoCommand =
    CC_CreateKey int KeyInfo
  | CC_SetKeyMetadata int string string
  | CC_GetKeyMetadata int string
  | CC_CryptoSign int string bytes
  | CC_CryptoVerify string bytes bytes
  | CC_AuthenticatedEncrypt int string string bytes
  | CC_AuthenticatedDecrypt int string bytes
  | CC_AnonymousEncrypt string bytes
  | CC_AnonymousDecrypt int string bytes
  | CC_PackMessage bytes "string list" "string option" int
  | CC_UnpackMessage JWE int

datatype CryptoAnswer =
    CA_String "string outcome" | CA_Unit "unit outcome" | CA_Bytes "bytes outcome" | CA_Bool "bool outcome"
  | CA_Sender "(string \<times> bytes) outcome"

record CryptoDraws =
  cd_seed :: bytes
  cd_record :: random
  cd_nonce :: bytes
  cd_random :: bytes
  cd_pack :: PackDraws

text \<open>What the callback of a command is called with, and the wallet service after it.\<close>

fun crypto_execute ::
    "CommandEnv \<Rightarrow> CryptoDraws \<Rightarrow> CryptoCommand \<Rightarrow> ('p, 's) WalletService \<Rightarrow> CryptoAnswer \<times> ('p, 's) WalletService" where
  "crypto_execute ce d (CC_CreateKey h key_info) svc =
     (let (r, svc') = cmd_create_key ce (cd_seed d) (cd_record d) svc h key_info in (CA_String r, svc'))"
| "crypto_execute ce d (CC_SetKeyMetadata h verkey metadata) svc =
     (let (r, svc') = cmd_set_key_metadata ce (cd_record d) svc h verkey metadata in (CA_Unit r, svc'))"
| "crypto_execute ce d (CC_GetKeyMetadata h verkey) svc = (CA_String (cmd_get_key_metadata ce svc h verkey), svc)"
| "crypto_execute ce d (CC_CryptoSign h my_vk msg) svc = (CA_Bytes (cmd_crypto_sign ce svc h my_vk msg), svc)"
| "crypto_execute ce d (CC_CryptoVerify their_vk msg signature) svc = (CA_Bool (cmd_crypto_verify ce their_vk msg signature), svc)"
| "crypto_execute ce d (CC_AuthenticatedEncrypt h my_vk their_vk msg) svc =
     (CA_Bytes (authenticated_encrypt ce (cd_nonce d) (cd_random d) svc h my_vk their_vk msg), svc)"
| "crypto_execute ce d (CC_AuthenticatedDecrypt h my_vk msg) svc = (CA_Sender (authenticated_decrypt ce svc h my_vk msg), svc)"
| "crypto_execute ce d (CC_AnonymousEncrypt their_vk msg) svc = (CA_Bytes (anonymous_encrypt ce (cd_random d) their_vk msg), svc)"
| "crypto_execute ce d (CC_AnonymousDecrypt h my_vk msg) svc = (CA_Bytes (anonymous_decrypt ce svc h my_vk msg), svc)"
| "crypto_execute ce d (CC_PackMessage message receivers sender_vk h) svc =
     (CA_Bytes (pack_msg ce (cd_pack d) svc message receivers sender_vk h), svc)"
| "crypto_execute ce d (CC_UnpackMessage jwe h) svc = (CA_Bytes (unpack_msg ce svc jwe h), svc)"

section \<open>Laws of the codecs\<close>

definition msg_codec_ok :: "MsgCodec \<Rightarrow> bool" where
  "msg_codec_ok mc \<longleftrightarrow>
     (\<forall>k. \<exists>s. mc_key_to_string mc k = Some s \<and> mc_key_from_str mc s = Some k \<and> rust_str s) \<and>
     (\<forall>m. \<exists>s. mc_metadata_to_string mc m = Some s \<and> mc_metadata_from_str mc s = Some m \<and> rust_str s) \<and>
     (\<forall>c. \<exists>b. mc_combo_to_vec mc c = Some b \<and> mc_combo_from_slice mc b = Some c) \<and>
     (\<forall>p. \<exists>s. mc_protected_to_string mc p = Some s \<and> mc_protected_from_str mc s = Some p \<and> rust_str s) \<and>
     (\<forall>j. \<exists>b. mc_jwe_to_vec mc j = Some b \<and> mc_jwe_from_slice mc b = Some j) \<and>
     (\<forall>u. \<exists>b. mc_unpacked_to_vec mc u = Some b)"

text \<open>The default crypto service on libraries that keep their promises.\<close>

definition command_env_ok :: "CommandEnv \<Rightarrow> bool" where
  "command_env_ok ce \<longleftrightarrow> ce_crypto ce = crypto_service_new (ce_sodium ce) \<and> sodium_ok (ce_sodium ce) \<and> codec_ok (ce_text ce) \<and>
     msg_codec_ok (ce_msg ce)"

abbreviation agent_key :: "CommandEnv \<Rightarrow> Key \<Rightarrow> bool" where
  "agent_key ce key \<equiv> service_key (ce_sodium ce) (ce_text ce) key"

definition has_key :: "CommandEnv \<Rightarrow> plain_wallet \<Rightarrow> Key \<Rightarrow> bool" where
  "has_key ce P key \<longleftrightarrow> objects P ''Key'' (k_verkey key) = mc_key_to_string (ce_msg ce) key"

lemma b64url_roundtrip: "codec_ok tx \<Longrightarrow> decode_urlsafe tx (encode_urlsafe tx bs) = Ok bs"
  by (simp add: codec_ok_def decode_urlsafe_def encode_urlsafe_def ok_or_def)

lemma b64_roundtrip: "codec_ok tx \<Longrightarrow> base64_decode tx (base64_encode tx bs) = Ok bs"
  by (simp add: codec_ok_def base64_decode_def base64_encode_def ok_or_def)

lemma agent_verkey_text: "agent_key ce key \<Longrightarrow> rust_str (k_verkey key)"
proof -
  assume "agent_key ce key"
  then obtain vk where vk: "k_verkey key = tx_to_b58 (ce_text ce) vk" "base58_ok (tx_from_b58 (ce_text ce)) (tx_to_b58 (ce_text ce))"
    by (auto simp: key_ok_def named_verkey_def codec_ok_def)
  show ?thesis unfolding vk(1) by (rule base58_text [OF vk(2) base58_read [OF vk(2)]])
qed

section \<open>The recipients of a packed message\<close>

definition anon_for :: "CommandEnv \<Rightarrow> bytes \<Rightarrow> Key \<Rightarrow> Recipient \<Rightarrow> bool" where
  "anon_for ce cek key r \<longleftrightarrow> hd_kid (rc_header r) = k_verkey key \<and> hd_sender (rc_header r) = None \<and>
     (\<exists>c. rc_encrypted_key r = encode_urlsafe (ce_text ce) c \<and> crypto_box_seal_open (ce_crypto ce) (ce_text ce) key c = Ok cek)"

definition auth_for :: "CommandEnv \<Rightarrow> bytes \<Rightarrow> Key \<Rightarrow> Key \<Rightarrow> Recipient \<Rightarrow> bool" where
  "auth_for ce cek sender key r \<longleftrightarrow> hd_kid (rc_header r) = k_verkey key \<and>
     (\<exists>c iv es. rc_encrypted_key r = encode_urlsafe (ce_text ce) c \<and> hd_iv (rc_header r) = Some (encode_urlsafe (ce_text ce) iv) \<and>
        hd_sender (rc_header r) = Some (encode_urlsafe (ce_text ce) es) \<and>
        crypto_box_open (ce_crypto ce) (ce_text ce) key (k_verkey sender) c iv = Ok cek \<and>
        crypto_box_seal_open (ce_crypto ce) (ce_text ce) key es = Ok (str_bytes (k_verkey sender)))"

lemma recipient_kid:
  "anon_for ce cek key r \<Longrightarrow> hd_kid (rc_header r) = k_verkey key"
  "auth_for ce cek sender key r \<Longrightarrow> hd_kid (rc_header r) = k_verkey key"
  by (simp_all add: anon_for_def auth_for_def)

lemma anon_recipients_ok:
  assumes "ce_crypto ce = crypto_service_new (ce_sodium ce)" and "list_all (agent_key ce) ks"
  shows "\<exists>rs. anon_recipients ce d i (map k_verkey ks) = Ok rs \<and> list_all2 (anon_for ce (pd_cek d)) ks rs"
  using assms(2)
proof (induction ks arbitrary: i)
  case (Cons k ks)
  obtain rs where "anon_recipients ce d (Suc i) (map k_verkey ks) = Ok rs" "list_all2 (anon_for ce (pd_cek d)) ks rs"
    using Cons.IH [of "Suc i"] Cons.prems by auto
  moreover obtain c where "crypto_box_seal (ce_crypto ce) (ce_text ce) (pd_seal_random d i) (k_verkey k) (pd_cek d) = Ok c"
      "crypto_box_seal_open (ce_crypto ce) (ce_text ce) k c = Ok (pd_cek d)"
    using ed25519.seal_open [of "crypto_service_new (ce_sodium ce)" "ce_text ce" "ce_sodium ce" DEFAULT_CRYPTO_TYPE k] Cons.prems assms(1)
    by auto
  ultimately show ?case by (auto simp: anon_for_def [of ce _ k])
qed simp

lemma auth_recipients_ok:
  assumes "ce_crypto ce = crypto_service_new (ce_sodium ce)" and "agent_key ce sender" and "list_all (agent_key ce) ks"
    and "\<And>i. length (pd_box_nonce d i) = BOX_NONCEBYTES"
  shows "\<exists>rs. auth_recipients ce d sender (k_verkey sender) i (map k_verkey ks) = Ok rs \<and> list_all2 (auth_for ce (pd_cek d) sender) ks rs"
  using assms(3)
proof (induction ks arbitrary: i)
  case (Cons k ks)
  then have k: "agent_key ce k" by simp
  obtain rs where "auth_recipients ce d sender (k_verkey sender) (Suc i) (map k_verkey ks) = Ok rs" "list_all2 (auth_for ce (pd_cek d) sender) ks rs"
    using Cons.IH [of "Suc i"] Cons.prems by auto
  moreover obtain es where "crypto_box_seal (ce_crypto ce) (ce_text ce) (pd_seal_random d i) (k_verkey k) (str_bytes (k_verkey sender)) = Ok es"
      "crypto_box_seal_open (ce_crypto ce) (ce_text ce) k es = Ok (str_bytes (k_verkey sender))"
    using ed25519.seal_open [OF k] assms(1) by metis
  moreover obtain c where "crypto_box (ce_crypto ce) (ce_text ce) (pd_box_nonce d i) sender (k_verkey k) (pd_cek d) = Ok (c, pd_box_nonce d i)"
      "crypto_box_open (ce_crypto ce) (ce_text ce) k (k_verkey sender) c (pd_box_nonce d i) = Ok (pd_cek d)"
    using ed25519.box_open [OF assms(2) k assms(4)] assms(1) by metis
  ultimately show ?case by (auto simp: auth_for_def [of ce _ sender k])
qed simp

section \<open>Round trips\<close>

text \<open>A cipher text decrypts to the message if it is text; other bytes cannot be returned.\<close>

lemma decrypt_encrypted:
  assumes "sodium_ok so" and "codec_ok tx" and "length nonce = NONCEBYTES" and "length cek = KEYBYTES"
    and "encrypt_plaintext so tx nonce msg aad cek = (ciphertext, iv, tag)"
  shows "decrypt_ciphertext so tx ciphertext aad iv tag cek = ok_or InvalidStructure (from_utf8 msg)"
proof -
  obtain c t where c: "so_seal_detached so msg (str_bytes aad) nonce cek = (c, t)" by fastforce
  have "length t = TAGBYTES" "so_open_detached so c (str_bytes aad) t nonce cek = Some msg"
    using assms(1) [unfolded sodium_ok_def, THEN conjunct2, THEN conjunct2, rule_format, OF assms(3,4) c] by simp_all
  with c assms show ?thesis
    by (auto simp: encrypt_plaintext_def gen_nonce_and_encrypt_detached_def decrypt_ciphertext_def decrypt_detached_def
        b64url_roundtrip from_slice_def ok_or_def)
qed

context storage_type
begin

lemma load_key_open:
  assumes "objects_ok (ce_wallet ce) senv" and "holds (ce_wallet ce) h P svc"
  shows "load_key ce svc h vk = (case objects P ''Key'' vk of None \<Rightarrow> Err WalletItemNotFound
    | Some v \<Rightarrow> ok_or InvalidState (mc_key_from_str (ce_msg ce) v))"
  unfolding load_key_def by (rule get_indy_object_open [OF assms])

lemma load_key_has:
  assumes "command_env_ok ce" and "objects_ok (ce_wallet ce) senv" and "holds (ce_wallet ce) h P svc" and "has_key ce P key"
  shows "load_key ce svc h (k_verkey key) = Ok key"
proof -
  obtain s where "mc_key_to_string (ce_msg ce) key = Some s" "mc_key_from_str (ce_msg ce) s = Some key"
    using assms(1) unfolding command_env_ok_def msg_codec_ok_def by blast
  with assms(4) show ?thesis by (simp add: load_key_open [OF assms(2,3)] has_key_def ok_or_def)
qed

lemma find_recipient:
  assumes "command_env_ok ce" and "objects_ok (ce_wallet ce) senv" and "holds (ce_wallet ce) h P svc"
    and "list_all2 R (pre @ k # post) rs" and "\<And>k r. R k r \<Longrightarrow> hd_kid (rc_header r) = k_verkey k"
    and "\<forall>k \<in> set pre. objects P ''Key'' (k_verkey k) = None" and "has_key ce P k"
  shows "\<exists>r. R k r \<and> find_correct_recipient ce svc h rs = Ok (r, hd_sender (rc_header r) \<noteq> None)"
  using assms(4,6)
proof (induction pre arbitrary: rs)
  case Nil
  then obtain r rs' where "rs = r # rs'" "R k r" by (auto simp: list_all2_Cons1)
  with assms(5) [of k r] load_key_has [OF assms(1-3,7)] show ?case by auto
next
  case (Cons a pre)
  then obtain r rs' where rs: "rs = r # rs'" "R a r" "list_all2 R (pre @ k # post) rs'" by (auto simp: list_all2_Cons1)
  with Cons.IH [OF rs(3)] Cons.prems(2) assms(5) [OF rs(2)] show ?case by (auto simp: load_key_open [OF assms(2,3)])
qed

lemma unpack_packed:
  assumes "command_env_ok ce" and "objects_ok (ce_wallet ce) senv" and "holds (ce_wallet ce) h P svc" and "has_key ce P k"
    and "length (pd_nonce d) = NONCEBYTES" and "length (pd_cek d) = KEYBYTES"
    and "base64_encode_protected ce rs alg = Ok prot"
    and "encrypt_plaintext (ce_sodium ce) (ce_text ce) (pd_nonce d) msg prot (pd_cek d) = (ciphertext, iv, tag)"
    and "find_correct_recipient ce svc h rs = Ok (r, auth)"
    and "(if auth then unpack_cek_authcrypt ce svc h r else unpack_cek_anoncrypt ce svc h r) = Ok (sender, pd_cek d)"
  shows "unpack_msg ce svc \<lparr>jwe_protected = prot, jwe_iv = iv, jwe_ciphertext = ciphertext, jwe_tag = tag\<rparr> h =
    and_then (ok_or InvalidStructure (from_utf8 msg)) (\<lambda>text. ok_or InvalidStructure (mc_unpacked_to_vec (ce_msg ce)
      \<lparr>um_message = text, um_recipient_verkey = hd_kid (rc_header r), um_sender_verkey = sender\<rparr>))"
proof -
  let ?p = "\<lparr>pt_enc = PROTECTED_HEADER_ENC, pt_typ = PROTECTED_HEADER_TYP,
    pt_alg = (if alg then PROTECTED_HEADER_ALG_AUTH else PROTECTED_HEADER_ALG_ANON), pt_recipients = rs\<rparr>"
  obtain s where s: "mc_protected_to_string (ce_msg ce) ?p = Some s" "mc_protected_from_str (ce_msg ce) s = Some ?p" "rust_str s"
    using assms(1) unfolding command_env_ok_def msg_codec_ok_def by blast
  have env: "sodium_ok (ce_sodium ce)" "codec_ok (ce_text ce)" using assms(1) by (simp_all add: command_env_ok_def)
  have "prot = encode_urlsafe (ce_text ce) (str_bytes s)" using assms(7) s(1) by (simp add: base64_encode_protected_def ok_or_def)
  then have "decode_urlsafe (ce_text ce) prot = Ok (str_bytes s)" by (simp add: b64url_roundtrip [OF env(2)])
  with s(2,3) assms(9,10) decrypt_encrypted [OF env assms(5,6,8)] show ?thesis
    by (simp add: unpack_msg_def rust_str_from_utf8 ok_or_def)
qed

end


definition draws_ok :: "PackDraws \<Rightarrow> bool" where
  "draws_ok d \<longleftrightarrow> length (pd_cek d) = KEYBYTES \<and> length (pd_nonce d) = NONCEBYTES \<and> (\<forall>i. length (pd_box_nonce d i) = BOX_NONCEBYTES)"

context storage_type
begin

lemma unpack_cek_anon:
  assumes "command_env_ok ce" and "objects_ok (ce_wallet ce) senv" and "holds (ce_wallet ce) h P svc" and "has_key ce P k"
    and "anon_for ce cek k r" and "length cek = KEYBYTES"
  shows "unpack_cek_anoncrypt ce svc h r = Ok (None, cek)"
  using assms(1,5,6) load_key_has [OF assms(1-4)]
  by (auto simp: unpack_cek_anoncrypt_def anon_for_def command_env_ok_def b64url_roundtrip from_slice_def)

lemma unpack_cek_auth:
  assumes "command_env_ok ce" and "objects_ok (ce_wallet ce) senv" and "holds (ce_wallet ce) h P svc" and "has_key ce P k"
    and "auth_for ce cek sender k r" and "length cek = KEYBYTES" and "agent_key ce sender"
  shows "unpack_cek_authcrypt ce svc h r = Ok (Some (k_verkey sender), cek)"
  using assms(1,5,6) load_key_has [OF assms(1-4)] rust_str_from_utf8 [OF agent_verkey_text [OF assms(7)]]
  by (auto simp: unpack_cek_authcrypt_def auth_for_def command_env_ok_def b64url_roundtrip from_slice_def unwrap_def ok_or_def)

text \<open>The protected part for one receiver whose key the wallet has.\<close>

lemma protected_for:
  assumes "command_env_ok ce" and "objects_ok (ce_wallet ce) senv" and "holds (ce_wallet ce) hA PA svcA" and "holds (ce_wallet ce) hB PB svcB"
    and "draws_ok d" and "\<And>k. sender = Some k \<Longrightarrow> agent_key ce k \<and> has_key ce PA k"
    and "list_all (agent_key ce) (pre @ k # post)" and "\<forall>k \<in> set pre. objects PB ''Key'' (k_verkey k) = None" and "has_key ce PB k"
  obtains prot rs r auth where
    "(case map_option k_verkey sender of
        Some sender_vk \<Rightarrow> and_then (validate_key (ce_crypto ce) (ce_text ce) sender_vk)
          (\<lambda>_. prepare_protected_authcrypt ce d (map k_verkey (pre @ k # post)) sender_vk svcA hA)
      | None \<Rightarrow> prepare_protected_anoncrypt ce d (map k_verkey (pre @ k # post))) = Ok prot"
    "base64_encode_protected ce rs (sender \<noteq> None) = Ok prot" "find_correct_recipient ce svcB hB rs = Ok (r, auth)"
    "(if auth then unpack_cek_authcrypt ce svcB hB r else unpack_cek_anoncrypt ce svcB hB r) = Ok (map_option k_verkey sender, pd_cek d)"
    "hd_kid (rc_header r) = k_verkey k"
proof -
  have cs: "ce_crypto ce = crypto_service_new (ce_sodium ce)" using assms(1) by (simp add: command_env_ok_def)
  have d: "length (pd_cek d) = KEYBYTES" "\<And>i. length (pd_box_nonce d i) = BOX_NONCEBYTES" using assms(5) by (simp_all add: draws_ok_def)
  have enc: "\<exists>prot. base64_encode_protected ce rs alg = Ok prot" for rs alg
  proof -
    obtain s where "mc_protected_to_string (ce_msg ce) \<lparr>pt_enc = PROTECTED_HEADER_ENC, pt_typ = PROTECTED_HEADER_TYP,
        pt_alg = (if alg then PROTECTED_HEADER_ALG_AUTH else PROTECTED_HEADER_ALG_ANON), pt_recipients = rs\<rparr> = Some s"
      using assms(1) unfolding command_env_ok_def msg_codec_ok_def by blast
    then show ?thesis by (simp add: base64_encode_protected_def ok_or_def)
  qed
  note find = find_recipient [OF assms(1,2,4) _ _ assms(8,9)]
  show thesis
  proof (cases sender)
    case None
    obtain rs where rs: "anon_recipients ce d 0 (map k_verkey (pre @ k # post)) = Ok rs" "list_all2 (anon_for ce (pd_cek d)) (pre @ k # post) rs"
      using anon_recipients_ok [OF cs assms(7)] by blast
    obtain r where r: "anon_for ce (pd_cek d) k r" "find_correct_recipient ce svcB hB rs = Ok (r, hd_sender (rc_header r) \<noteq> None)"
      using find [OF rs(2)] recipient_kid(1) by blast
    obtain prot where "base64_encode_protected ce rs False = Ok prot" using enc by blast
    with None rs(1) r unpack_cek_anon [OF assms(1,2,4,9) r(1) d(1)] show thesis
      by (intro that [of prot rs r False]) (auto simp: prepare_protected_anoncrypt_def anon_for_def)
  next
    case (Some a)
    have a: "agent_key ce a" "has_key ce PA a" using assms(6) Some by simp_all
    obtain rs where rs: "auth_recipients ce d a (k_verkey a) 0 (map k_verkey (pre @ k # post)) = Ok rs"
        "list_all2 (auth_for ce (pd_cek d) a) (pre @ k # post) rs"
      using auth_recipients_ok [OF cs a(1) assms(7) d(2)] by blast
    obtain r where r: "auth_for ce (pd_cek d) a k r" "find_correct_recipient ce svcB hB rs = Ok (r, hd_sender (rc_header r) \<noteq> None)"
      using find [OF rs(2)] recipient_kid(2) by blast
    obtain prot where "base64_encode_protected ce rs True = Ok prot" using enc by blast
    with Some rs(1) r unpack_cek_auth [OF assms(1,2,4,9) r(1) d(1) a(1)] load_key_has [OF assms(1-3) a(2)] ed25519.validate_key_ok [OF a(1)] cs
    show thesis
      by (intro that [of prot rs r True]) (auto simp: prepare_protected_authcrypt_def auth_for_def)
  qed
qed

lemma pack_unpack:
  assumes "command_env_ok ce" and "objects_ok (ce_wallet ce) senv" and "holds (ce_wallet ce) hA PA svcA" and "holds (ce_wallet ce) hB PB svcB"
    and "draws_ok d" and "\<And>k. sender = Some k \<Longrightarrow> agent_key ce k \<and> has_key ce PA k"
    and "list_all (agent_key ce) (pre @ k # post)" and "\<forall>k \<in> set pre. objects PB ''Key'' (k_verkey k) = None" and "has_key ce PB k"
  shows "\<exists>packed jwe. pack_msg ce d svcA msg (map k_verkey (pre @ k # post)) (map_option k_verkey sender) hA = Ok packed \<and>
    mc_jwe_from_slice (ce_msg ce) packed = Some jwe \<and>
    unpack_msg ce svcB jwe hB = and_then (ok_or InvalidStructure (from_utf8 msg)) (\<lambda>text.
      ok_or InvalidStructure (mc_unpacked_to_vec (ce_msg ce)
        \<lparr>um_message = text, um_recipient_verkey = k_verkey k, um_sender_verkey = map_option k_verkey sender\<rparr>))"
proof -
  obtain prot rs r auth where p: "(case map_option k_verkey sender of
        Some sender_vk \<Rightarrow> and_then (validate_key (ce_crypto ce) (ce_text ce) sender_vk)
          (\<lambda>_. prepare_protected_authcrypt ce d (map k_verkey (pre @ k # post)) sender_vk svcA hA)
      | None \<Rightarrow> prepare_protected_anoncrypt ce d (map k_verkey (pre @ k # post))) = Ok prot"
    "base64_encode_protected ce rs (sender \<noteq> None) = Ok prot" "find_correct_recipient ce svcB hB rs = Ok (r, auth)"
    "(if auth then unpack_cek_authcrypt ce svcB hB r else unpack_cek_anoncrypt ce svcB hB r) = Ok (map_option k_verkey sender, pd_cek d)"
    "hd_kid (rc_header r) = k_verkey k"
    by (rule protected_for [OF assms])
  obtain ciphertext iv tag where e: "encrypt_plaintext (ce_sodium ce) (ce_text ce) (pd_nonce d) msg prot (pd_cek d) = (ciphertext, iv, tag)"
    by (cases "encrypt_plaintext (ce_sodium ce) (ce_text ce) (pd_nonce d) msg prot (pd_cek d)")
  let ?jwe = "\<lparr>jwe_protected = prot, jwe_iv = iv, jwe_ciphertext = ciphertext, jwe_tag = tag\<rparr>"
  obtain b where b: "mc_jwe_to_vec (ce_msg ce) ?jwe = Some b" "mc_jwe_from_slice (ce_msg ce) b = Some ?jwe"
    using assms(1) unfolding command_env_ok_def msg_codec_ok_def by blast
  have "pack_msg ce d svcA msg (map k_verkey (pre @ k # post)) (map_option k_verkey sender) hA = Ok b"
    unfolding pack_msg_def p(1) using e b(1) by (simp add: format_pack_message_def ok_or_def)
  moreover have "length (pd_nonce d) = NONCEBYTES" "length (pd_cek d) = KEYBYTES" using assms(5) by (simp_all add: draws_ok_def)
  ultimately show ?thesis
    using b(2) unpack_packed [OF assms(1,2,4,9) _ _ p(2) e p(3,4)] p(5) by auto
qed

end


section \<open>Panics\<close>

lemma no_panics [simp]:
  "ok_or e v \<noteq> Panic" "from_slice n bs \<noteq> Panic" "decode_urlsafe tx s \<noteq> Panic" "decode_b58 tx n s \<noteq> Panic"
  "find_crypto_type cs name \<noteq> Panic"
  by (simp_all add: ok_or_def from_slice_def decode_urlsafe_def decode_b58_def find_crypto_type_def and_then_Panic_iff split: option.split)

lemma found_type: "find_crypto_type (crypto_service_new so) name = Ok ct \<Longrightarrow> ct = ed25519_type so"
  using find_unknown find_default by (metis outcome.distinct(1) outcome.inject(1))

lemma ed25519_no_panic:
  "ct_crypto_box_open (ed25519_type so) sk vk doc nonce \<noteq> Panic" "ct_crypto_box_seal_open (ed25519_type so) vk sk doc \<noteq> Panic"
  by (simp_all add: ed25519_type_def and_then_Panic_iff sk_to_curve25519_def vk_to_curve25519_def ed25519_box_decrypt_def sealedbox_decrypt_def)

lemma opening_no_panic:
  "crypto_box_seal_open (crypto_service_new so) tx key c \<noteq> Panic"
  "crypto_box_open (crypto_service_new so) tx key vk c nonce \<noteq> Panic"
  "decrypt_ciphertext so' tx ciphertext aad iv tag cek \<noteq> Panic"
  by (auto simp: crypto_box_seal_open_def crypto_box_open_def decrypt_ciphertext_def decrypt_detached_def and_then_Panic_iff
      ed25519_no_panic Let_def split: prod.split if_splits outcome.splits dest!: found_type)

context storage_type
begin

lemma find_recipient_no_panic:
  assumes "objects_ok (ce_wallet ce) senv" and "holds (ce_wallet ce) h P svc"
  shows "find_correct_recipient ce svc h rs \<noteq> Panic"
  by (induction rs) (auto simp: load_key_open [OF assms] ok_or_def split: option.splits outcome.splits)

lemma unpack_panics:
  assumes "ce_crypto ce = crypto_service_new (ce_sodium ce)" and "objects_ok (ce_wallet ce) senv" and "holds (ce_wallet ce) h P svc"
  shows "unpack_msg ce svc jwe h = Panic \<longleftrightarrow>
    (\<exists>vec str prot r b. decode_urlsafe (ce_text ce) (jwe_protected jwe) = Ok vec \<and> from_utf8 vec = Some str \<and>
       mc_protected_from_str (ce_msg ce) str = Some prot \<and> find_correct_recipient ce svc h (pt_recipients prot) = Ok (r, True) \<and>
       decode_urlsafe (ce_text ce) (rc_encrypted_key r) = Ok b \<and> hd_iv (rc_header r) = None)"
proof -
  have load: "load_key ce svc h vk \<noteq> Panic" for vk by (simp add: load_key_open [OF assms(2,3)] split: option.split)
  have sender: "hd_sender (rc_header r) \<noteq> None" if "find_correct_recipient ce svc h rs = Ok (r, True)" for rs r
    using that by (induction rs) (auto split: outcome.splits)
  have anon: "unpack_cek_anoncrypt ce svc h r \<noteq> Panic" for r
    by (simp add: unpack_cek_anoncrypt_def and_then_Panic_iff load assms(1) opening_no_panic)
  have auth: "unpack_cek_authcrypt ce svc h r = Panic \<longleftrightarrow>
      hd_iv (rc_header r) = None \<and> (\<exists>b. decode_urlsafe (ce_text ce) (rc_encrypted_key r) = Ok b)" if "hd_sender (rc_header r) \<noteq> None" for r
    using that by (auto simp: unpack_cek_authcrypt_def and_then_Panic_iff load assms(1) opening_no_panic unwrap_def split: option.split)
  show ?thesis
    by (auto simp: unpack_msg_def and_then_Panic_iff find_recipient_no_panic [OF assms(2,3)] opening_no_panic anon ok_or_Ok_iff
        split: if_splits dest: sender) (use auth sender in \<open>blast+\<close>)
qed

end


context storage_type
begin

lemma authcrypt_roundtrip:
  assumes "command_env_ok ce" and "objects_ok (ce_wallet ce) senv" and "holds (ce_wallet ce) hA PA svcA" and "holds (ce_wallet ce) hB PB svcB"
    and "agent_key ce a" and "has_key ce PA a" and "agent_key ce b" and "has_key ce PB b" and "length nonce = BOX_NONCEBYTES"
  shows "\<exists>c. authenticated_encrypt ce nonce random svcA hA (k_verkey a) (k_verkey b) msg = Ok c \<and>
    authenticated_decrypt ce svcB hB (k_verkey b) c = Ok (k_verkey a, msg)"
proof -
  have env: "ce_crypto ce = crypto_service_new (ce_sodium ce)" "codec_ok (ce_text ce)" using assms(1) by (simp_all add: command_env_ok_def)
  note valid = ed25519.validate_key_ok [OF assms(5), folded env(1)] ed25519.validate_key_ok [OF assms(7), folded env(1)]
  obtain m where m: "crypto_box (ce_crypto ce) (ce_text ce) nonce a (k_verkey b) msg = Ok (m, nonce)"
      "crypto_box_open (ce_crypto ce) (ce_text ce) b (k_verkey a) m nonce = Ok msg"
    using ed25519.box_open [OF assms(5,7,9)] env(1) by auto
  let ?combo = "\<lparr>cb_msg = base64_encode (ce_text ce) m, cb_sender = k_verkey a, cb_nonce = base64_encode (ce_text ce) nonce\<rparr>"
  obtain v where v: "mc_combo_to_vec (ce_msg ce) ?combo = Some v" "mc_combo_from_slice (ce_msg ce) v = Some ?combo"
    using assms(1) unfolding command_env_ok_def msg_codec_ok_def by blast
  obtain c where c: "crypto_box_seal (ce_crypto ce) (ce_text ce) random (k_verkey b) v = Ok c" "crypto_box_seal_open (ce_crypto ce) (ce_text ce) b c = Ok v"
    using ed25519.seal_open [OF assms(7)] env(1) by auto
  show ?thesis
    using m v c valid load_key_has [OF assms(1-3,6)] load_key_has [OF assms(1,2,4,8)]
    by (auto simp: authenticated_encrypt_def authenticated_decrypt_def create_combo_box_def b64_roundtrip [OF env(2)] ok_or_def)
qed

lemma anoncrypt_roundtrip:
  assumes "command_env_ok ce" and "objects_ok (ce_wallet ce) senv" and "holds (ce_wallet ce) h P svc"
    and "agent_key ce b" and "has_key ce P b"
  shows "\<exists>c. anonymous_encrypt ce random (k_verkey b) msg = Ok c \<and> anonymous_decrypt ce svc h (k_verkey b) c = Ok msg"
proof -
  have env: "ce_crypto ce = crypto_service_new (ce_sodium ce)" using assms(1) by (simp add: command_env_ok_def)
  obtain c where "crypto_box_seal (ce_crypto ce) (ce_text ce) random (k_verkey b) msg = Ok c" "crypto_box_seal_open (ce_crypto ce) (ce_text ce) b c = Ok msg"
    using ed25519.seal_open [OF assms(4)] env by auto
  with ed25519.validate_key_ok [OF assms(4), folded env] load_key_has [OF assms(1-3,5)] show ?thesis
    by (auto simp: anonymous_encrypt_def anonymous_decrypt_def)
qed

lemma create_key_stored:
  assumes "command_env_ok ce" and "objects_ok (ce_wallet ce) senv" and "holds (ce_wallet ce) h P svc"
    and "length random = SEEDBYTES" and "fresh_ok rnd" and "ki_crypto_type info = None \<or> ki_crypto_type info = Some DEFAULT_CRYPTO_TYPE"
    and "convert_seed (tx_seed (ce_text ce)) (ki_seed info) = Ok s"
  obtains key json svc' where "create_key (ce_crypto ce) (ce_text ce) random info = Ok key" "agent_key ce key"
    "mc_key_to_string (ce_msg ce) key = Some json"
    "cmd_create_key ce random rnd svc h info =
      (if objects P ''Key'' (k_verkey key) = None then Ok (k_verkey key) else Err WalletItemAlreadyExists, svc')"
    "holds (ce_wallet ce) h (if objects P ''Key'' (k_verkey key) = None then put_object P ''Key'' (k_verkey key) json else P) svc'"
proof -
  have env: "ce_crypto ce = crypto_service_new (ce_sodium ce)" "sodium_ok (ce_sodium ce)" "codec_ok (ce_text ce)"
    using assms(1) by (simp_all add: command_env_ok_def)
  obtain key where key: "create_key (ce_crypto ce) (ce_text ce) random info = Ok key" "agent_key ce key"
    using create_key_ok [OF env(2,3) assms(4,6,7)] env(1) by metis
  obtain json where json: "mc_key_to_string (ce_msg ce) key = Some json" "rust_str json"
    using assms(1) unfolding command_env_ok_def msg_codec_ok_def by blast
  have "rust_str ''Key''" by (simp add: rust_str_def)
  then have ok: "object_ok rnd ''Key'' (k_verkey key) json"
    using assms(5) json(2) agent_verkey_text [OF key(2)] by (simp add: object_ok_def)
  obtain st where "add_indy_object (ce_wallet ce) rnd svc h ''Key'' (k_verkey key) (Some json) [] =
      (if objects P ''Key'' (k_verkey key) = None then Ok json else Err WalletItemAlreadyExists, svc\<lparr>ws_storages := st\<rparr>)"
    "holds (ce_wallet ce) h (if objects P ''Key'' (k_verkey key) = None then put_object P ''Key'' (k_verkey key) json else P) (svc\<lparr>ws_storages := st\<rparr>)"
    by (rule add_indy_object_open [OF assms(2,3) ok])
  with key json show ?thesis by (intro that [of key json "svc\<lparr>ws_storages := st\<rparr>"]) (simp_all add: cmd_create_key_def)
qed

end


section \<open>A sample codec\<close>

text \<open>Fields of text, each in the letters of the sample codec and ended by a dash.\<close>

definition sample_fields :: "string list \<Rightarrow> string" where
  "sample_fields ss = concat (map (\<lambda>s. sample_encode (str_bytes s) @ ''-'') ss)"

definition sample_unfields :: "string \<Rightarrow> string list option" where
  "sample_unfields s = those (map (\<lambda>p. map_option bytes_str (sample_decode p)) (butlast (split_on CHR ''-'' s)))"

lemma split_on_fields:
  assumes "\<And>s. CHR ''-'' \<notin> set (f s)"
  shows "split_on CHR ''-'' (concat (map (\<lambda>s. f s @ ''-'') ss)) = map f ss @ [[]]"
proof (induction ss)
  case (Cons s ss)
  have "split_on CHR ''-'' (w @ CHR ''-'' # r) = w # split_on CHR ''-'' r" if "CHR ''-'' \<notin> set w" for w r
    using that by (induction w) auto
  with Cons assms [of s] show ?case by simp
qed simp

lemma sample_unfields_fields: "sample_unfields (sample_fields ss) = Some ss"
proof -
  have "CHR ''-'' \<notin> set (sample_encode bs)" for bs using sample_encode_chars [of "CHR ''-''" bs] by auto
  then have "split_on CHR ''-'' (sample_fields ss) = map (\<lambda>s. sample_encode (str_bytes s)) ss @ [[]]"
    unfolding sample_fields_def by (intro split_on_fields)
  moreover have "those (map Some xs) = Some xs" for xs :: "string list" by (induction xs) auto
  ultimately show ?thesis by (simp add: sample_unfields_def sample_decode_encode comp_def)
qed

lemma sample_fields_text: "rust_str (sample_fields ss)"
proof (rule rust_str_ascii, rule ballI)
  fix c assume "c \<in> set (sample_fields ss)"
  then have "c = CHR ''-'' \<or> (\<exists>s. c \<in> set (sample_encode (str_bytes s)))" by (auto simp: sample_fields_def split: if_splits)
  then show "of_char c < (128 :: nat)" using sample_encode_chars [of c] by fastforce
qed

definition option_field :: "string option \<Rightarrow> string" where
  "option_field v = (case v of None \<Rightarrow> [] | Some s \<Rightarrow> CHR ''s'' # s)"

fun field_option :: "string \<Rightarrow> string option" where
  "field_option [] = None"
| "field_option (_ # s) = Some s"

fun recipient_fields :: "Recipient \<Rightarrow> string list" where
  "recipient_fields r = [rc_encrypted_key r, hd_kid (rc_header r), option_field (hd_iv (rc_header r)), option_field (hd_sender (rc_header r))]"

fun fields_recipients :: "string list \<Rightarrow> Recipient list" where
  "fields_recipients (a # b # c # d # ss) =
     \<lparr>rc_encrypted_key = a, rc_header = \<lparr>hd_kid = b, hd_iv = field_option c, hd_sender = field_option d\<rparr>\<rparr> # fields_recipients ss"
| "fields_recipients _ = []"

lemma field_option_field [simp]: "field_option (option_field v) = v"
  by (simp add: option_field_def split: option.split)

lemma fields_recipients_fields: "fields_recipients (concat (map recipient_fields rs)) = rs"
  by (induction rs) simp_all

definition sample_msg :: MsgCodec where
  "sample_msg =
     \<lparr>mc_key_to_string = \<lambda>k. Some (sample_fields [k_verkey k, k_signkey k]),
      mc_key_from_str = \<lambda>s. case sample_unfields s of Some [a, b] \<Rightarrow> Some \<lparr>k_verkey = a, k_signkey = b\<rparr> | _ \<Rightarrow> None,
      mc_metadata_to_string = \<lambda>m. Some (sample_fields [m]),
      mc_metadata_from_str = \<lambda>s. case sample_unfields s of Some [m] \<Rightarrow> Some m | _ \<Rightarrow> None,
      mc_combo_to_vec = \<lambda>c. Some (str_bytes (sample_fields [cb_msg c, cb_sender c, cb_nonce c])),
      mc_combo_from_slice = \<lambda>b. case sample_unfields (bytes_str b) of
        Some [m, s, n] \<Rightarrow> Some \<lparr>cb_msg = m, cb_sender = s, cb_nonce = n\<rparr> | _ \<Rightarrow> None,
      mc_protected_to_string = \<lambda>p. Some (sample_fields ([pt_enc p, pt_typ p, pt_alg p] @ concat (map recipient_fields (pt_recipients p)))),
      mc_protected_from_str = \<lambda>s. case sample_unfields s of
        Some (e # t # a # ss) \<Rightarrow> Some \<lparr>pt_enc = e, pt_typ = t, pt_alg = a, pt_recipients = fields_recipients ss\<rparr> | _ \<Rightarrow> None,
      mc_jwe_to_vec = \<lambda>j. Some (str_bytes (sample_fields [jwe_protected j, jwe_iv j, jwe_ciphertext j, jwe_tag j])),
      mc_jwe_from_slice = \<lambda>b. case sample_unfields (bytes_str b) of
        Some [p, i, c, t] \<Rightarrow> Some \<lparr>jwe_protected = p, jwe_iv = i, jwe_ciphertext = c, jwe_tag = t\<rparr> | _ \<Rightarrow> None,
      mc_unpacked_to_vec = \<lambda>u. Some (str_bytes (sample_fields [um_message u, um_recipient_verkey u, option_field (um_sender_verkey u)]))\<rparr>"

lemma sample_msg_ok: "msg_codec_ok sample_msg"
  by (simp add: msg_codec_ok_def sample_msg_def sample_unfields_fields sample_fields_text fields_recipients_fields
      del: recipient_fields.simps)

definition sample_ce :: CommandEnv where
  "sample_ce = \<lparr>ce_crypto = crypto_service_new sample_sodium, ce_sodium = sample_sodium, ce_text = sample_tx, ce_msg = sample_msg,
     ce_wallet = object_service_env\<rparr>"

lemma sample_ce_ok: "command_env_ok sample_ce" "objects_ok (ce_wallet sample_ce) object_storage_env"
  by (simp_all add: command_env_ok_def sample_ce_def sample_sodium_ok sample_tx_ok sample_msg_ok sample_objects_ok)

text \<open>A wallet in which a key made from a given seed was stored.\<close>

lemma sample_agent:
  assumes "length seed = SEEDBYTES"
  obtains key P svc where "agent_key sample_ce key" "has_key sample_ce P key"
    "wallet_open sqlite_ok sqlite_content (ce_wallet sample_ce) object_type 1 P svc" "k_verkey key = sample_encode seed"
    "fst (cmd_create_key sample_ce seed (replicate 32 1, replicate 12 1, replicate 12 2) object_service 1
      \<lparr>ki_seed = None, ki_crypto_type = None\<rparr>) = Ok (k_verkey key)"
    "\<forall>n. n \<noteq> k_verkey key \<longrightarrow> objects P ''Key'' n = None"
proof -
  let ?info = "\<lparr>ki_seed = None, ki_crypto_type = None\<rparr>" and ?rnd = "(replicate 32 1, replicate 12 1, replicate 12 2) :: random"
  have w: "wallet_open sqlite_ok sqlite_content (ce_wallet sample_ce) object_type 1 (\<lambda>_ _. None) object_service"
    using sample_wallet_open by (simp add: sample_ce_def)
  have rnd: "fresh_ok ?rnd" by (simp add: fresh_ok_def KEYBYTES_def NONCEBYTES_def)
  have seed: "convert_seed (tx_seed (ce_text sample_ce)) (ki_seed ?info) = Ok None" by (simp add: convert_seed_def)
  obtain key json svc' where k: "create_key (ce_crypto sample_ce) (ce_text sample_ce) seed ?info = Ok key" "agent_key sample_ce key"
    "mc_key_to_string (ce_msg sample_ce) key = Some json"
    "cmd_create_key sample_ce seed ?rnd object_service 1 ?info =
      (if objects (\<lambda>_ _. None) ''Key'' (k_verkey key) = None then Ok (k_verkey key) else Err WalletItemAlreadyExists, svc')"
    "wallet_open sqlite_ok sqlite_content (ce_wallet sample_ce) object_type 1
      (if objects (\<lambda>_ _. None) ''Key'' (k_verkey key) = None then put_object (\<lambda>_ _. None) ''Key'' (k_verkey key) json else (\<lambda>_ _. None)) svc'"
    using sqlite_ty.create_key_stored [OF sample_ce_ok w [unfolded object_type_def] assms rnd _ seed] unfolding object_type_def [symmetric] by auto
  have empty: "objects (\<lambda>_ _. None) t n = None" for t n by (simp add: objects_def)
  have "k_verkey key = sample_encode seed"
    using k(1) assms by (auto simp: create_key_def sample_ce_def find_default ed25519_type_def create_key_pair_for_signature_def convert_seed_def
        from_slice_def sample_sodium_def sample_tx_def named_verkey_def)
  with k show ?thesis by (intro that [of key "put_object (\<lambda>_ _. None) ''Key'' (k_verkey key) json" svc']) (simp_all add: has_key_def empty)
qed


section \<open>Properties\<close>

text \<open>
  C7: A packed message is unpacked by each of its receivers. Packing for any receivers with keys of the
  service, with a sender whose key is in the sender's wallet or without one, succeeds; unpacking with a wallet that has the key
  of one receiver, and of none listed before it, returns the message with that receiver's key and with the sender's key
  exactly if there is a sender. A message that is not UTF-8 packs in the same way and every unpacking of it fails
  with \<open>InvalidStructure\<close>.
\<close>

theorem pack_unpack_roundtrip:
  assumes "command_env_ok ce" and "objects_ok (ce_wallet ce) senv"
    and "wallet_open sqlite_ok sqlite_content (ce_wallet ce) (sqlite_type senv tenv) hA PA svcA"
    and "wallet_open sqlite_ok sqlite_content (ce_wallet ce) (sqlite_type senv tenv) hB PB svcB"
    and "draws_ok d" and "\<And>k. sender = Some k \<Longrightarrow> agent_key ce k \<and> has_key ce PA k"
    and "list_all (agent_key ce) (pre @ k # post)" and "\<forall>k \<in> set pre. objects PB ''Key'' (k_verkey k) = None" and "has_key ce PB k"
  shows "\<exists>packed jwe. pack_msg ce d svcA msg (map k_verkey (pre @ k # post)) (map_option k_verkey sender) hA = Ok packed \<and>
    mc_jwe_from_slice (ce_msg ce) packed = Some jwe \<and>
    unpack_msg ce svcB jwe hB = and_then (ok_or InvalidStructure (from_utf8 msg)) (\<lambda>text.
      ok_or InvalidStructure (mc_unpacked_to_vec (ce_msg ce)
        \<lparr>um_message = text, um_recipient_verkey = k_verkey k, um_sender_verkey = map_option k_verkey sender\<rparr>))"
  by (rule sqlite_ty.pack_unpack [OF assms])

definition sample_pack_draws :: PackDraws where
  "sample_pack_draws = \<lparr>pd_cek = replicate 32 5, pd_nonce = replicate 12 6, pd_box_nonce = \<lambda>i. replicate 24 (of_nat i), pd_seal_random = \<lambda>_. []\<rparr>"

theorem pack_unpack_roundtrip_witness:
  "\<exists>svcA svcB packed jwe vkA vkB. vkA \<noteq> vkB \<and>
     pack_msg sample_ce sample_pack_draws (svcA :: (string \<times> string, SqliteDb) WalletService) (str_bytes ''hi'') [vkA, vkB] (Some vkA) 1 = Ok packed \<and>
     mc_jwe_from_slice sample_msg packed = Some jwe \<and>
     unpack_msg sample_ce (svcB :: (string \<times> string, SqliteDb) WalletService) jwe 1 = Ok (str_bytes (sample_fields [''hi'', vkB, CHR ''s'' # vkA]))"
proof -
  obtain kA PA svcA where A: "agent_key sample_ce kA" "has_key sample_ce PA kA"
    "wallet_open sqlite_ok sqlite_content (ce_wallet sample_ce) object_type 1 PA svcA" "k_verkey kA = sample_encode (replicate 32 1)"
    by (rule sample_agent [of "replicate 32 1"]) (simp_all add: SEEDBYTES_def)
  obtain kB PB svcB where B: "agent_key sample_ce kB" "has_key sample_ce PB kB"
    "wallet_open sqlite_ok sqlite_content (ce_wallet sample_ce) object_type 1 PB svcB" "k_verkey kB = sample_encode (replicate 32 2)"
    "\<forall>n. n \<noteq> k_verkey kB \<longrightarrow> objects PB ''Key'' n = None"
    by (rule sample_agent [of "replicate 32 2"]) (simp_all add: SEEDBYTES_def)
  have "sample_decode (k_verkey kA) \<noteq> sample_decode (k_verkey kB)" by (simp add: A(4) B(4) sample_decode_encode)
  then have ne: "k_verkey kA \<noteq> k_verkey kB" by metis
  have "draws_ok sample_pack_draws" by (simp add: draws_ok_def sample_pack_draws_def KEYBYTES_def NONCEBYTES_def BOX_NONCEBYTES_def)
  from pack_unpack_roundtrip [OF sample_ce_ok A(3) [unfolded object_type_def] B(3) [unfolded object_type_def] this,
      of "Some kA" "[kA]" kB "[]" "str_bytes ''hi''"]
  obtain packed jwe where pj: "pack_msg sample_ce sample_pack_draws svcA (str_bytes ''hi'') [k_verkey kA, k_verkey kB] (Some (k_verkey kA)) 1 = Ok packed"
    "mc_jwe_from_slice (ce_msg sample_ce) packed = Some jwe"
    "unpack_msg sample_ce svcB jwe 1 = and_then (ok_or InvalidStructure (from_utf8 (str_bytes ''hi''))) (\<lambda>text.
      ok_or InvalidStructure (mc_unpacked_to_vec (ce_msg sample_ce)
        \<lparr>um_message = text, um_recipient_verkey = k_verkey kB, um_sender_verkey = Some (k_verkey kA)\<rparr>))"
    using A B ne by auto
  moreover have "from_utf8 (str_bytes ''hi'') = Some ''hi''" by (rule from_utf8_ascii) simp
  moreover have "ce_msg sample_ce = sample_msg" by (simp add: sample_ce_def)
  ultimately have "unpack_msg sample_ce svcB jwe 1 = Ok (str_bytes (sample_fields [''hi'', k_verkey kB, CHR ''s'' # k_verkey kA]))"
    by (simp add: sample_msg_def option_field_def)
  with pj(1,2) ne show ?thesis unfolding \<open>ce_msg sample_ce = sample_msg\<close> by blast
qed



text \<open>
  The older encryption is undone by its decryption: what \<open>authenticated_encrypt\<close> makes for a receiver, \<open>authenticated_decrypt\<close>
  with the receiver's wallet turns back into the message and the sender's key, and likewise without a sender.
\<close>

theorem authcrypt_anoncrypt_roundtrip:
  assumes "command_env_ok ce" and "objects_ok (ce_wallet ce) senv"
    and "wallet_open sqlite_ok sqlite_content (ce_wallet ce) (sqlite_type senv tenv) hA PA svcA"
    and "wallet_open sqlite_ok sqlite_content (ce_wallet ce) (sqlite_type senv tenv) hB PB svcB"
    and "agent_key ce a" and "has_key ce PA a" and "agent_key ce b" and "has_key ce PB b" and "length nonce = BOX_NONCEBYTES"
  shows "\<exists>c c'. authenticated_encrypt ce nonce random svcA hA (k_verkey a) (k_verkey b) msg = Ok c \<and>
    authenticated_decrypt ce svcB hB (k_verkey b) c = Ok (k_verkey a, msg) \<and>
    anonymous_encrypt ce random (k_verkey b) msg = Ok c' \<and> anonymous_decrypt ce svcB hB (k_verkey b) c' = Ok msg"
  using sqlite_ty.authcrypt_roundtrip [OF assms] sqlite_ty.anoncrypt_roundtrip [OF assms(1,2,4,7,8)] by blast

theorem authcrypt_anoncrypt_roundtrip_witness:
  "\<exists>svcA svcB vkA vkB c. vkA \<noteq> vkB \<and>
     authenticated_encrypt sample_ce (replicate 24 9) [] (svcA :: (string \<times> string, SqliteDb) WalletService) 1 vkA vkB [1, 2] = Ok c \<and>
     authenticated_decrypt sample_ce (svcB :: (string \<times> string, SqliteDb) WalletService) 1 vkB c = Ok (vkA, [1, 2])"
proof -
  obtain kA PA svcA where A: "agent_key sample_ce kA" "has_key sample_ce PA kA"
    "wallet_open sqlite_ok sqlite_content (ce_wallet sample_ce) object_type 1 PA svcA" "k_verkey kA = sample_encode (replicate 32 1)"
    by (rule sample_agent [of "replicate 32 1"]) (simp_all add: SEEDBYTES_def)
  obtain kB PB svcB where B: "agent_key sample_ce kB" "has_key sample_ce PB kB"
    "wallet_open sqlite_ok sqlite_content (ce_wallet sample_ce) object_type 1 PB svcB" "k_verkey kB = sample_encode (replicate 32 2)"
    by (rule sample_agent [of "replicate 32 2"]) (simp_all add: SEEDBYTES_def)
  have "sample_decode (k_verkey kA) \<noteq> sample_decode (k_verkey kB)" by (simp add: A(4) B(4) sample_decode_encode)
  then have "k_verkey kA \<noteq> k_verkey kB" by metis
  moreover have "length (replicate 24 9 :: bytes) = BOX_NONCEBYTES" by (simp add: BOX_NONCEBYTES_def)
  ultimately show ?thesis
    using authcrypt_anoncrypt_roundtrip [OF sample_ce_ok A(3) [unfolded object_type_def] B(3) [unfolded object_type_def] A(1,2) B(1,2),
      of "replicate 24 9" "[]" "[1, 2]"] by blast
qed

end
