(* ===== verification/Did_Commands.thy ===== *)
theory Did_Commands
  imports Crypto_Commands
begin

text \<open>
  The DID commands (\<open>commands/did.rs\<close>): own DIDs with their keys, the rotation of a key, DIDs and endpoints of others,
  which are fetched from the ledger when the wallet does not have them, metadata and the qualification of a DID. A command
  that needs the ledger is deferred: it waits under a new id and runs again when the reply was stored. A callback is a
  number; \<open>dx_called\<close> records what the callbacks were called with and \<open>dx_ledger\<close> the requests for the ledger component.
\<close>

section \<open>Data\<close>

record Endpoint =
  en_ha :: string
  en_verkey :: "string option"

record Pairwise =
  pw_my_did :: DidValue
  pw_their_did :: DidValue
  pw_metadata :: "string option"

text \<open>Replies of the ledger; only the fields the commands read. \<open>ReplyV1\<close> holds a list of results.\<close>

datatype 'a LedgerReply = LReplyV0 'a | LReplyV1 "'a list"

datatype GetNymReplyResult = GetNymReplyResultV0 "string option" | GetNymReplyResultV1 string "string option"

datatype GetAttrReplyResult = GetAttrReplyResultV0 string string | GetAttrReplyResultV1 string string

text \<open>\<open>Reply::result\<close>: \<open>remove(0)\<close> panics on an empty vector.\<close>

fun reply_result :: "'a LedgerReply \<Rightarrow> 'a outcome" where
  "reply_result (LReplyV0 r) = Ok r"
| "reply_result (LReplyV1 []) = Panic"
| "reply_result (LReplyV1 (r # _)) = Ok r"

text \<open>Serde's codecs of these structures.\<close>

record DidCodec =
  dc_did_to_string :: "Did \<Rightarrow> string option"
  dc_did_from_str :: "string \<Rightarrow> Did option"
  dc_metadata_to_string :: "string \<Rightarrow> string option"
  dc_metadata_from_str :: "string \<Rightarrow> string option"
  dc_endpoint_to_string :: "Endpoint \<Rightarrow> string option"
  dc_endpoint_from_str :: "string \<Rightarrow> Endpoint option"
  dc_pairwise_to_string :: "Pairwise \<Rightarrow> string option"
  dc_pairwise_from_str :: "string \<Rightarrow> Pairwise option"
  dc_with_meta_to_string :: "DidWithMeta \<Rightarrow> string option"
  dc_with_metas_to_string :: "DidWithMeta list \<Rightarrow> string option"
  dc_nym_reply_from_str :: "string \<Rightarrow> GetNymReplyResult LedgerReply option"
  dc_nym_data_from_str :: "string \<Rightarrow> (string \<times> string option) option"
  dc_attr_reply_from_str :: "string \<Rightarrow> GetAttrReplyResult LedgerReply option"
  dc_attrib_data_from_str :: "string \<Rightarrow> Endpoint option"

record DidEnv =
  dn_ce :: CommandEnv
  dn_codec :: DidCodec

section \<open>Sequences of wallet operations\<close>

fun then_do :: "'a outcome \<times> 'w \<Rightarrow> ('a \<Rightarrow> 'w \<Rightarrow> 'b outcome \<times> 'w) \<Rightarrow> 'b outcome \<times> 'w" where
  "then_do (Ok x, w) f = f x w"
| "then_do (Err e, w) f = (Err e, w)"
| "then_do (Panic, w) f = (Panic, w)"

definition load_did :: "DidEnv \<Rightarrow> ('p, 's) WalletService \<Rightarrow> int \<Rightarrow> string \<Rightarrow> DidValue \<Rightarrow> Did outcome" where
  "load_did dn svc h type did =
     get_indy_object (ce_wallet (dn_ce dn)) (dc_did_from_str (dn_codec dn)) svc h type did RECORD_OPTIONS_ID_VALUE"

abbreviation wallet_get_my_did :: "DidEnv \<Rightarrow> ('p, 's) WalletService \<Rightarrow> int \<Rightarrow> DidValue \<Rightarrow> Did outcome" where
  "wallet_get_my_did dn svc h did \<equiv> load_did dn svc h ''Did'' did"

abbreviation wallet_get_their_did :: "DidEnv \<Rightarrow> ('p, 's) WalletService \<Rightarrow> int \<Rightarrow> DidValue \<Rightarrow> Did outcome" where
  "wallet_get_their_did dn svc h did \<equiv> load_did dn svc h ''TheirDid'' did"

definition add_did ::
    "DidEnv \<Rightarrow> random \<Rightarrow> ('p, 's) WalletService \<Rightarrow> int \<Rightarrow> string \<Rightarrow> Did \<Rightarrow> string outcome \<times> ('p, 's) WalletService" where
  "add_did dn rnd svc h type did =
     add_indy_object (ce_wallet (dn_ce dn)) rnd svc h type (d_did did) (dc_did_to_string (dn_codec dn) did) []"

definition add_key ::
    "DidEnv \<Rightarrow> random \<Rightarrow> ('p, 's) WalletService \<Rightarrow> int \<Rightarrow> Key \<Rightarrow> string outcome \<times> ('p, 's) WalletService" where
  "add_key dn rnd svc h key =
     add_indy_object (ce_wallet (dn_ce dn)) rnd svc h ''Key'' (k_verkey key) (mc_key_to_string (ce_msg (dn_ce dn)) key) []"

section \<open>Own DIDs\<close>

text \<open>Random values: a seed, and for the records a command writes.\<close>

record DidDraws =
  dd_seed :: bytes
  dd_records :: "nat \<Rightarrow> random"

definition create_and_store_my_did ::
    "DidEnv \<Rightarrow> DidDraws \<Rightarrow> ('p, 's) WalletService \<Rightarrow> int \<Rightarrow> MyDidInfo \<Rightarrow> (string \<times> string) outcome \<times> ('p, 's) WalletService" where
  "create_and_store_my_did dn d svc h my_did_info =
     then_do (create_my_did (ce_crypto (dn_ce dn)) (ce_text (dn_ce dn)) (dd_seed d) my_did_info, svc) (\<lambda>(did, key) svc.
       case wallet_get_my_did dn svc h (d_did did) of
         Ok current_did \<Rightarrow>
           (if d_verkey did = d_verkey current_did then Ok (d_did did, d_verkey did) else Err DIDAlreadyExists, svc)
       | Panic \<Rightarrow> (Panic, svc)
       | Err _ \<Rightarrow>
           then_do (add_did dn (dd_records d 0) svc h ''Did'' did) (\<lambda>_ svc.
             case add_key dn (dd_records d 1) svc h key of
               (Panic, svc) \<Rightarrow> (Panic, svc)
             | (_, svc) \<Rightarrow> (Ok (d_did did, d_verkey did), svc)))"

definition replace_keys_start ::
    "DidEnv \<Rightarrow> DidDraws \<Rightarrow> ('p, 's) WalletService \<Rightarrow> int \<Rightarrow> KeyInfo \<Rightarrow> DidValue \<Rightarrow> string outcome \<times> ('p, 's) WalletService" where
  "replace_keys_start dn d svc h key_info my_did =
     then_do (and_then (validate_did my_did) (\<lambda>_. wallet_get_my_did dn svc h my_did), svc) (\<lambda>my_did svc.
     then_do (create_key (ce_crypto (dn_ce dn)) (ce_text (dn_ce dn)) (dd_seed d) key_info, svc) (\<lambda>temporary_key svc.
       let my_temporary_did = \<lparr>d_did = d_did my_did, d_verkey = k_verkey temporary_key\<rparr>
       in then_do (add_key dn (dd_records d 0) svc h temporary_key) (\<lambda>_ svc.
          then_do (add_did dn (dd_records d 1) svc h ''TemporaryDid'' my_temporary_did) (\<lambda>_ svc.
            (Ok (d_verkey my_temporary_did), svc)))))"

definition replace_keys_apply ::
    "DidEnv \<Rightarrow> DidDraws \<Rightarrow> ('p, 's) WalletService \<Rightarrow> int \<Rightarrow> DidValue \<Rightarrow> unit outcome \<times> ('p, 's) WalletService" where
  "replace_keys_apply dn d svc h my_did =
     then_do (and_then (validate_did my_did) (\<lambda>_. wallet_get_my_did dn svc h my_did), svc) (\<lambda>my_did svc.
     then_do (load_did dn svc h ''TemporaryDid'' (d_did my_did), svc) (\<lambda>my_did svc.
     then_do (update_indy_object (ce_wallet (dn_ce dn)) (dd_records d 0) svc h ''Did'' (d_did my_did)
         (dc_did_to_string (dn_codec dn) my_did)) (\<lambda>_ svc.
       delete_indy_record (ce_wallet (dn_ce dn)) svc h ''TemporaryDid'' (d_did my_did))))"

definition get_my_did_with_meta :: "DidEnv \<Rightarrow> ('p, 's) WalletService \<Rightarrow> int \<Rightarrow> DidValue \<Rightarrow> string outcome" where
  "get_my_did_with_meta dn svc h my_did =
     and_then (wallet_get_my_did dn svc h my_did) (\<lambda>did.
     and_then (get_indy_opt_object (ce_wallet (dn_ce dn)) (dc_metadata_from_str (dn_codec dn)) svc h ''DidMetadata'' (d_did did)
         RECORD_OPTIONS_ID_VALUE) (\<lambda>metadata.
     and_then (get_indy_opt_object (ce_wallet (dn_ce dn)) (dc_did_from_str (dn_codec dn)) svc h ''TemporaryDid'' (d_did did)
         RECORD_OPTIONS_ID_VALUE) (\<lambda>temp_verkey.
       ok_or InvalidState (dc_with_meta_to_string (dn_codec dn)
         \<lparr>dm_did = d_did did, dm_verkey = d_verkey did, dm_temp_verkey = map_option d_verkey temp_verkey, dm_metadata = metadata\<rparr>))))"

text \<open>A loop over the records of a search with \<open>fetch_next_record\<close>; the measure is the records left.\<close>

function fetch_loop :: "CryptoEnv \<Rightarrow> (WalletRecord \<Rightarrow> 'a \<Rightarrow> 'a outcome) \<Rightarrow> WalletIterator \<Rightarrow> 'a \<Rightarrow> 'a outcome" where
  "fetch_loop env f it a =
     (case iterator_next env it of
        (Ok None, _) \<Rightarrow> Ok a
      | (Ok (Some r), it') \<Rightarrow> (case f r a of Ok a' \<Rightarrow> fetch_loop env f it' a' | e \<Rightarrow> e)
      | (Err e, _) \<Rightarrow> Err e
      | (Panic, _) \<Rightarrow> Panic)"
  by pat_completeness auto

termination
  by (relation "measure (\<lambda>(_, _, it, _). length (si_records (wi_storage_iterator it)))")
    (auto simp: iterator_next_def split: list.splits)

declare fetch_loop.simps [simp del]

definition record_object :: "(string \<Rightarrow> 'o option) \<Rightarrow> WalletRecord \<Rightarrow> 'o outcome" where
  "record_object from_str r = and_then (ok_or InvalidState (wr_value r)) (\<lambda>json. ok_or InvalidState (from_str json))"

definition list_my_dids_with_meta :: "DidEnv \<Rightarrow> ('p, 's) WalletService \<Rightarrow> int \<Rightarrow> string outcome" where
  "list_my_dids_with_meta dn svc h =
     (let env = ce_wallet (dn_ce dn); search = \<lambda>type. search_indy_records env svc h type ''{}'' SEARCH_OPTIONS_ID_VALUE
      in and_then (search ''Did'') (\<lambda>did_search.
         and_then (search ''DidMetadata'') (\<lambda>metadata_search.
         and_then (search ''TemporaryDid'') (\<lambda>temporarydid_search.
         and_then (fetch_loop (sv_crypto env) (\<lambda>r m.
             and_then (record_object (dc_metadata_from_str (dn_codec dn)) r) (\<lambda>v. Ok (hm_insert m (wr_id r) v))) metadata_search []) (\<lambda>metadata_map.
         and_then (fetch_loop (sv_crypto env) (\<lambda>r m.
             and_then (record_object (dc_did_from_str (dn_codec dn)) r) (\<lambda>did. Ok (hm_insert m (d_did did) (d_verkey did)))) temporarydid_search [])
           (\<lambda>temporarydid_map.
         and_then (fetch_loop (sv_crypto env) (\<lambda>r (dids, temporarydid_map, metadata_map).
             and_then (record_object (dc_did_from_str (dn_codec dn)) r) (\<lambda>did.
               Ok (dids @ [\<lparr>dm_did = d_did did, dm_verkey = d_verkey did, dm_temp_verkey = hm_get temporarydid_map (d_did did),
                     dm_metadata = hm_get metadata_map (d_did did)\<rparr>],
                   hm_remove temporarydid_map (d_did did), hm_remove metadata_map (d_did did))))
             did_search ([], temporarydid_map, metadata_map)) (\<lambda>(dids, _, _).
           ok_or InvalidState (dc_with_metas_to_string (dn_codec dn) dids))))))))"

section \<open>DIDs of others, endpoints, metadata\<close>

definition store_their_did ::
    "DidEnv \<Rightarrow> DidDraws \<Rightarrow> ('p, 's) WalletService \<Rightarrow> int \<Rightarrow> TheirDidInfo \<Rightarrow> unit outcome \<times> ('p, 's) WalletService" where
  "store_their_did dn d svc h their_did_info =
     then_do (create_their_did (ce_crypto (dn_ce dn)) (ce_text (dn_ce dn)) their_did_info, svc) (\<lambda>their_did svc.
     then_do (upsert_indy_object (ce_wallet (dn_ce dn)) (dd_records d 0) svc h ''TheirDid'' (d_did their_did)
         (dc_did_to_string (dn_codec dn) their_did)) (\<lambda>_ svc. (Ok (), svc)))"

definition key_for_local_did :: "DidEnv \<Rightarrow> ('p, 's) WalletService \<Rightarrow> int \<Rightarrow> DidValue \<Rightarrow> string outcome" where
  "key_for_local_did dn svc h did =
     and_then (validate_did did) (\<lambda>_.
       case wallet_get_my_did dn svc h did of
         Ok my_did \<Rightarrow> Ok (d_verkey my_did)
       | Err e \<Rightarrow> if e = WalletItemNotFound then map_ok d_verkey (wallet_get_their_did dn svc h did) else Err e
       | Panic \<Rightarrow> Panic)"

definition set_endpoint_for_did ::
    "DidEnv \<Rightarrow> DidDraws \<Rightarrow> ('p, 's) WalletService \<Rightarrow> int \<Rightarrow> DidValue \<Rightarrow> Endpoint \<Rightarrow> unit outcome \<times> ('p, 's) WalletService" where
  "set_endpoint_for_did dn d svc h did endpoint =
     then_do (and_then (validate_did did) (\<lambda>_.
         case en_verkey endpoint of Some transport_key \<Rightarrow> validate_key (ce_crypto (dn_ce dn)) (ce_text (dn_ce dn)) transport_key | None \<Rightarrow> Ok ()), svc)
       (\<lambda>_ svc. then_do (upsert_indy_object (ce_wallet (dn_ce dn)) (dd_records d 0) svc h ''Endpoint'' did
         (dc_endpoint_to_string (dn_codec dn) endpoint)) (\<lambda>_ svc. (Ok (), svc)))"

definition set_did_metadata ::
    "DidEnv \<Rightarrow> DidDraws \<Rightarrow> ('p, 's) WalletService \<Rightarrow> int \<Rightarrow> DidValue \<Rightarrow> string \<Rightarrow> unit outcome \<times> ('p, 's) WalletService" where
  "set_did_metadata dn d svc h did metadata =
     then_do (validate_did did, svc) (\<lambda>_ svc.
     then_do (upsert_indy_object (ce_wallet (dn_ce dn)) (dd_records d 0) svc h ''DidMetadata'' did
         (dc_metadata_to_string (dn_codec dn) metadata)) (\<lambda>_ svc. (Ok (), svc)))"

definition get_did_metadata :: "DidEnv \<Rightarrow> ('p, 's) WalletService \<Rightarrow> int \<Rightarrow> DidValue \<Rightarrow> string outcome" where
  "get_did_metadata dn svc h did =
     and_then (validate_did did) (\<lambda>_.
       get_indy_object (ce_wallet (dn_ce dn)) (dc_metadata_from_str (dn_codec dn)) svc h ''DidMetadata'' did RECORD_OPTIONS_ID_VALUE)"

text \<open>\<open>split_at(16)\<close> panics on a shorter vector.\<close>

definition abbreviate_verkey :: "CryptoService \<Rightarrow> TextCodec \<Rightarrow> DidValue \<Rightarrow> string \<Rightarrow> string outcome" where
  "abbreviate_verkey cs tx did verkey =
     and_then (validate_did did) (\<lambda>_.
     and_then (validate_key cs tx verkey) (\<lambda>_.
       if \<not> is_abbreviatable did then Ok verkey
       else
         and_then (ok_or InvalidStructure (tx_from_b58 tx (to_unqualified did))) (\<lambda>did.
         and_then (ok_or InvalidStructure (tx_from_b58 tx verkey)) (\<lambda>dverkey.
           if length dverkey < 16 then Panic
           else Ok (if take 16 dverkey = did then ''~'' @ tx_to_b58 tx (drop 16 dverkey) else verkey)))))"

section \<open>Qualifying a DID\<close>

definition update_dependent_entity_reference ::
    "DidEnv \<Rightarrow> random \<Rightarrow> ('p, 's) WalletService \<Rightarrow> int \<Rightarrow> string \<Rightarrow> string \<Rightarrow> string \<Rightarrow> unit outcome \<times> ('p, 's) WalletService" where
  "update_dependent_entity_reference dn rnd svc h type name new_name =
     (case get_indy_record_value (ce_wallet (dn_ce dn)) svc h type name ''{}'' of
        Ok r \<Rightarrow>
          then_do (delete_indy_record (ce_wallet (dn_ce dn)) svc h type name) (\<lambda>_ svc.
            add_indy_record (ce_wallet (dn_ce dn)) rnd svc h type new_name r [])
      | Err _ \<Rightarrow> (Ok (), svc)
      | Panic \<Rightarrow> (Panic, svc))"

definition move_temporary_did ::
    "DidEnv \<Rightarrow> random \<Rightarrow> ('p, 's) WalletService \<Rightarrow> int \<Rightarrow> DidValue \<Rightarrow> DidValue \<Rightarrow> unit outcome \<times> ('p, 's) WalletService" where
  "move_temporary_did dn rnd svc h did new_did =
     (case load_did dn svc h ''TemporaryDid'' did of
        Ok temp_did \<Rightarrow>
          then_do (delete_indy_record (ce_wallet (dn_ce dn)) svc h ''TemporaryDid'' did) (\<lambda>_ svc.
          then_do (add_did dn rnd svc h ''TemporaryDid'' (temp_did\<lparr>d_did := new_did\<rparr>)) (\<lambda>_ svc. (Ok (), svc)))
      | Err _ \<Rightarrow> (Ok (), svc)
      | Panic \<Rightarrow> (Panic, svc))"

text \<open>The pairwise relations of the DID; the records were read when the search was opened.\<close>

fun move_pairwise ::
    "DidEnv \<Rightarrow> (nat \<Rightarrow> random) \<Rightarrow> int \<Rightarrow> DidValue \<Rightarrow> DidValue \<Rightarrow> nat \<Rightarrow> Keys \<Rightarrow> StorageRecord list \<Rightarrow> ('p, 's) WalletService \<Rightarrow>
     unit outcome \<times> ('p, 's) WalletService" where
  "move_pairwise dn rnds h did new_did i keys [] svc = (Ok (), svc)"
| "move_pairwise dn rnds h did new_did i keys (sr # srs) svc =
     then_do (and_then (decrypt_storage_record (sv_crypto (ce_wallet (dn_ce dn))) sr keys) (record_object (dc_pairwise_from_str (dn_codec dn))), svc)
       (\<lambda>pairwise svc.
         if pw_my_did pairwise = did then
           then_do (update_indy_object (ce_wallet (dn_ce dn)) (rnds i) svc h ''Pairwise'' (pw_their_did pairwise)
               (dc_pairwise_to_string (dn_codec dn) (pairwise\<lparr>pw_my_did := new_did\<rparr>))) (\<lambda>_ svc.
             move_pairwise dn rnds h did new_did (Suc i) keys srs svc)
         else move_pairwise dn rnds h did new_did (Suc i) keys srs svc)"

definition qualify_did ::
    "DidEnv \<Rightarrow> DidDraws \<Rightarrow> ('p, 's) WalletService \<Rightarrow> int \<Rightarrow> DidValue \<Rightarrow> string \<Rightarrow> string outcome \<times> ('p, 's) WalletService" where
  "qualify_did dn d svc h did method_name =
     then_do (and_then (validate_did did) (\<lambda>_. wallet_get_my_did dn svc h did), svc) (\<lambda>curr_did svc.
       let curr_did = curr_did\<lparr>d_did := did_new (did_to_short did) (Some method_name)\<rparr>
       in then_do (delete_indy_record (ce_wallet (dn_ce dn)) svc h ''Did'' did) (\<lambda>_ svc.
          then_do (add_did dn (dd_records d 0) svc h ''Did'' curr_did) (\<lambda>_ svc.
          then_do (move_temporary_did dn (dd_records d 1) svc h did (d_did curr_did)) (\<lambda>_ svc.
          then_do (update_dependent_entity_reference dn (dd_records d 2) svc h ''DidMetadata'' did (d_did curr_did)) (\<lambda>_ svc.
          then_do (update_dependent_entity_reference dn (dd_records d 3) svc h ''Endpoint'' did (d_did curr_did)) (\<lambda>_ svc.
          then_do (search_indy_records (ce_wallet (dn_ce dn)) svc h ''Pairwise'' ''{}'' RECORD_OPTIONS_ID_VALUE, svc) (\<lambda>it svc.
          then_do (move_pairwise dn (dd_records d) h did (d_did curr_did) 4 (wi_keys it) (si_records (wi_storage_iterator it)) svc) (\<lambda>_ svc.
            (Ok (d_did curr_did), svc)))))))))"

section \<open>The executor and deferred commands\<close>

type_synonym did_callback = nat

datatype DidCommand =
    DC_CreateAndStoreMyDid int MyDidInfo did_callback
  | DC_ReplaceKeysStart int KeyInfo DidValue did_callback
  | DC_ReplaceKeysApply int DidValue did_callback
  | DC_StoreTheirDid int TheirDidInfo did_callback
  | DC_GetMyDidWithMeta int DidValue did_callback
  | DC_ListMyDidsWithMeta int did_callback
  | DC_KeyForDid int int DidValue did_callback
  | DC_KeyForLocalDid int DidValue did_callback
  | DC_SetEndpointForDid int DidValue Endpoint did_callback
  | DC_GetEndpointForDid int int DidValue did_callback
  | DC_SetDidMetadata int DidValue string did_callback
  | DC_GetDidMetadata int DidValue did_callback
  | DC_AbbreviateVerkey DidValue string did_callback
  | DC_GetNymAck int DidValue "string outcome" int
  | DC_GetAttribAck int "string outcome" int
  | DC_QualifyDid int DidValue string did_callback

datatype DidAnswer =
    DA_Pair "(string \<times> string) outcome" | DA_String "string outcome" | DA_Unit "unit outcome"
  | DA_Endpoint "(string \<times> string option) outcome"

text \<open>A request sent to the ledger component, with what its callback sends back to this one.\<close>

datatype LedgerRequest =
    Get_Nym int string "string outcome \<Rightarrow> DidCommand"
  | Get_Attrib int string string "string outcome \<Rightarrow> DidCommand"

text \<open>\<open>dx_borrowed\<close>: the \<open>RefCell\<close> of the deferred commands is mutably borrowed.\<close>

record ('p, 's) DidExecutor =
  dx_service :: "('p, 's) WalletService"
  dx_deferred :: "(int \<times> DidCommand) list"
  dx_borrowed :: bool
  dx_ledger :: "LedgerRequest list"
  dx_called :: "(did_callback \<times> DidAnswer) list"

definition did_call :: "did_callback \<Rightarrow> DidAnswer \<Rightarrow> ('p, 's) DidExecutor \<Rightarrow> ('p, 's) DidExecutor" where
  "did_call cb a dx = dx\<lparr>dx_called := dx_called dx @ [(cb, a)]\<rparr>"

text \<open>A result passed to the callback; a panic stops the executor.\<close>

fun did_answer :: "did_callback \<Rightarrow> ('r outcome \<Rightarrow> DidAnswer) \<Rightarrow> 'r outcome \<times> ('p, 's) WalletService \<Rightarrow> ('p, 's) DidExecutor \<Rightarrow> ('p, 's) DidExecutor outcome" where
  "did_answer cb tag (Panic, svc) dx = Panic"
| "did_answer cb tag (r, svc) dx = Ok (did_call cb (tag r) (dx\<lparr>dx_service := svc\<rparr>))"

definition defer_command :: "DidCommand \<Rightarrow> ('p, 's) DidExecutor \<Rightarrow> (int \<times> ('p, 's) DidExecutor) outcome" where
  "defer_command cmd dx =
     (let (deferred_cmd_id, svc) = next_handle (dx_service dx)
      in if dx_borrowed dx then Panic
         else Ok (deferred_cmd_id, dx\<lparr>dx_service := svc, dx_deferred := hm_insert (dx_deferred dx) deferred_cmd_id cmd\<rparr>))"

definition fetch_their_did_from_ledger :: "int \<Rightarrow> int \<Rightarrow> DidValue \<Rightarrow> DidCommand \<Rightarrow> ('p, 's) DidExecutor \<Rightarrow> ('p, 's) DidExecutor outcome" where
  "fetch_their_did_from_ledger h pool_handle did deferred_cmd dx =
     and_then (defer_command deferred_cmd dx) (\<lambda>(deferred_cmd_id, dx).
       Ok (dx\<lparr>dx_ledger := dx_ledger dx @ [Get_Nym pool_handle (did_to_short did) (\<lambda>result. DC_GetNymAck h did result deferred_cmd_id)]\<rparr>))"

definition fetch_attrib_from_ledger :: "int \<Rightarrow> int \<Rightarrow> DidValue \<Rightarrow> DidCommand \<Rightarrow> ('p, 's) DidExecutor \<Rightarrow> ('p, 's) DidExecutor outcome" where
  "fetch_attrib_from_ledger h pool_handle did deferred_cmd dx =
     and_then (defer_command deferred_cmd dx) (\<lambda>(deferred_cmd_id, dx).
       Ok (dx\<lparr>dx_ledger := dx_ledger dx @
         [Get_Attrib pool_handle (did_to_short did) ''endpoint'' (\<lambda>result. DC_GetAttribAck h result deferred_cmd_id)]\<rparr>))"

definition key_for_did :: "DidEnv \<Rightarrow> int \<Rightarrow> int \<Rightarrow> DidValue \<Rightarrow> did_callback \<Rightarrow> ('p, 's) DidExecutor \<Rightarrow> ('p, 's) DidExecutor outcome" where
  "key_for_did dn pool_handle h did cb dx =
     (case and_then (validate_did did) (\<lambda>_. wallet_get_my_did dn (dx_service dx) h did) of
        Ok my_did \<Rightarrow> Ok (did_call cb (DA_String (Ok (d_verkey my_did))) dx)
      | Panic \<Rightarrow> Panic
      | Err e \<Rightarrow>
          if e \<noteq> WalletItemNotFound then Ok (did_call cb (DA_String (Err e)) dx)
          else
            (case wallet_get_their_did dn (dx_service dx) h did of
               Ok their_did \<Rightarrow> Ok (did_call cb (DA_String (Ok (d_verkey their_did))) dx)
             | Panic \<Rightarrow> Panic
             | Err e \<Rightarrow>
                 if e = WalletItemNotFound
                 then fetch_their_did_from_ledger h pool_handle did (DC_KeyForDid pool_handle h did cb) dx
                 else Ok (did_call cb (DA_String (Err e)) dx)))"

definition get_endpoint_for_did ::
    "DidEnv \<Rightarrow> int \<Rightarrow> int \<Rightarrow> DidValue \<Rightarrow> did_callback \<Rightarrow> ('p, 's) DidExecutor \<Rightarrow> ('p, 's) DidExecutor outcome" where
  "get_endpoint_for_did dn h pool_handle did cb dx =
     (case and_then (validate_did did) (\<lambda>_. get_indy_object (ce_wallet (dn_ce dn)) (dc_endpoint_from_str (dn_codec dn)) (dx_service dx) h
         ''Endpoint'' did RECORD_OPTIONS_ID_VALUE) of
        Ok endpoint \<Rightarrow> Ok (did_call cb (DA_Endpoint (Ok (en_ha endpoint, en_verkey endpoint))) dx)
      | Panic \<Rightarrow> Panic
      | Err e \<Rightarrow>
          if e = WalletItemNotFound
          then fetch_attrib_from_ledger h pool_handle did (DC_GetEndpointForDid h pool_handle did cb) dx
          else Ok (did_call cb (DA_Endpoint (Err e)) dx))"

definition nym_their_did_info :: "DidEnv \<Rightarrow> DidValue \<Rightarrow> GetNymReplyResult \<Rightarrow> TheirDidInfo outcome" where
  "nym_their_did_info dn did result =
     (case result of
        GetNymReplyResultV0 (Some data) \<Rightarrow>
          and_then (ok_or InvalidState (dc_nym_data_from_str (dn_codec dn) data)) (\<lambda>(dest, verkey).
            Ok \<lparr>ti_did = short_did_qualify dest (method_of did), ti_verkey = verkey\<rparr>)
      | GetNymReplyResultV0 None \<Rightarrow> Err WalletItemNotFound
      | GetNymReplyResultV1 dest verkey \<Rightarrow> Ok \<lparr>ti_did = short_did_qualify dest (method_of did), ti_verkey = verkey\<rparr>)"

text \<open>What a reply says: the DID of the other, or the DID and its endpoint.\<close>

definition fetched_their_did :: "DidEnv \<Rightarrow> DidValue \<Rightarrow> string outcome \<Rightarrow> Did outcome" where
  "fetched_their_did dn did get_nym_reply_result =
     and_then get_nym_reply_result (\<lambda>get_nym_reply.
     and_then (ok_or InvalidState (dc_nym_reply_from_str (dn_codec dn) get_nym_reply)) (\<lambda>response.
     and_then (reply_result response) (\<lambda>result.
     and_then (nym_their_did_info dn did result) (\<lambda>info.
       create_their_did (ce_crypto (dn_ce dn)) (ce_text (dn_ce dn)) info))))"

definition store_nym_reply ::
    "DidEnv \<Rightarrow> DidDraws \<Rightarrow> ('p, 's) WalletService \<Rightarrow> int \<Rightarrow> DidValue \<Rightarrow> string outcome \<Rightarrow> unit outcome \<times> ('p, 's) WalletService" where
  "store_nym_reply dn d svc h did get_nym_reply_result =
     then_do (fetched_their_did dn did get_nym_reply_result, svc) (\<lambda>their_did svc.
     then_do (add_did dn (dd_records d 0) svc h ''TheirDid'' their_did) (\<lambda>_ svc. (Ok (), svc)))"

definition fetched_endpoint :: "DidEnv \<Rightarrow> string outcome \<Rightarrow> (string \<times> Endpoint) outcome" where
  "fetched_endpoint dn get_attrib_reply_result =
     and_then get_attrib_reply_result (\<lambda>get_attrib_reply.
     and_then (ok_or InvalidState (dc_attr_reply_from_str (dn_codec dn) get_attrib_reply)) (\<lambda>response.
     and_then (reply_result response) (\<lambda>result.
       let (raw, did) = (case result of GetAttrReplyResultV0 data dest \<Rightarrow> (data, dest) | GetAttrReplyResultV1 raw did \<Rightarrow> (raw, did))
       in and_then (ok_or InvalidState (dc_attrib_data_from_str (dn_codec dn) raw)) (\<lambda>endpoint. Ok (did, endpoint)))))"

definition store_attrib_reply ::
    "DidEnv \<Rightarrow> DidDraws \<Rightarrow> ('p, 's) WalletService \<Rightarrow> int \<Rightarrow> string outcome \<Rightarrow> unit outcome \<times> ('p, 's) WalletService" where
  "store_attrib_reply dn d svc h get_attrib_reply_result =
     then_do (fetched_endpoint dn get_attrib_reply_result, svc) (\<lambda>(did, endpoint) svc.
     then_do (add_indy_object (ce_wallet (dn_ce dn)) (dd_records d 0) svc h ''Endpoint'' did (dc_endpoint_to_string (dn_codec dn) endpoint) [])
       (\<lambda>_ svc. (Ok (), svc)))"

fun call_error_cb :: "DidCommand \<Rightarrow> IndyErrorKind \<Rightarrow> ('p, 's) DidExecutor \<Rightarrow> ('p, 's) DidExecutor" where
  "call_error_cb (DC_CreateAndStoreMyDid _ _ cb) e dx = did_call cb (DA_Pair (Err e)) dx"
| "call_error_cb (DC_ReplaceKeysStart _ _ _ cb) e dx = did_call cb (DA_String (Err e)) dx"
| "call_error_cb (DC_ReplaceKeysApply _ _ cb) e dx = did_call cb (DA_Unit (Err e)) dx"
| "call_error_cb (DC_StoreTheirDid _ _ cb) e dx = did_call cb (DA_Unit (Err e)) dx"
| "call_error_cb (DC_KeyForDid _ _ _ cb) e dx = did_call cb (DA_String (Err e)) dx"
| "call_error_cb (DC_GetEndpointForDid _ _ _ cb) e dx = did_call cb (DA_Endpoint (Err e)) dx"
| "call_error_cb _ e dx = dx"

text \<open>
  \<open>execute\<close> runs a deferred command inside \<open>if let Some(cmd) = deferred_commands.borrow_mut().remove(..)\<close>: the
  borrow lasts until the end of that statement. A deferred command is not an acknowledgement, so that the
  nesting is one deep; \<open>execute_simple\<close> is \<open>execute\<close> on the other commands.
\<close>

fun execute_simple :: "DidEnv \<Rightarrow> DidDraws \<Rightarrow> DidCommand \<Rightarrow> ('p, 's) DidExecutor \<Rightarrow> ('p, 's) DidExecutor outcome" where
  "execute_simple dn d (DC_CreateAndStoreMyDid h info cb) dx = did_answer cb DA_Pair (create_and_store_my_did dn d (dx_service dx) h info) dx"
| "execute_simple dn d (DC_ReplaceKeysStart h info did cb) dx = did_answer cb DA_String (replace_keys_start dn d (dx_service dx) h info did) dx"
| "execute_simple dn d (DC_ReplaceKeysApply h did cb) dx = did_answer cb DA_Unit (replace_keys_apply dn d (dx_service dx) h did) dx"
| "execute_simple dn d (DC_StoreTheirDid h info cb) dx = did_answer cb DA_Unit (store_their_did dn d (dx_service dx) h info) dx"
| "execute_simple dn d (DC_GetMyDidWithMeta h did cb) dx = did_answer cb DA_String (get_my_did_with_meta dn (dx_service dx) h did, dx_service dx) dx"
| "execute_simple dn d (DC_ListMyDidsWithMeta h cb) dx = did_answer cb DA_String (list_my_dids_with_meta dn (dx_service dx) h, dx_service dx) dx"
| "execute_simple dn d (DC_KeyForDid pool_handle h did cb) dx = key_for_did dn pool_handle h did cb dx"
| "execute_simple dn d (DC_KeyForLocalDid h did cb) dx = did_answer cb DA_String (key_for_local_did dn (dx_service dx) h did, dx_service dx) dx"
| "execute_simple dn d (DC_SetEndpointForDid h did endpoint cb) dx = did_answer cb DA_Unit (set_endpoint_for_did dn d (dx_service dx) h did endpoint) dx"
| "execute_simple dn d (DC_GetEndpointForDid h pool_handle did cb) dx = get_endpoint_for_did dn h pool_handle did cb dx"
| "execute_simple dn d (DC_SetDidMetadata h did metadata cb) dx = did_answer cb DA_Unit (set_did_metadata dn d (dx_service dx) h did metadata) dx"
| "execute_simple dn d (DC_GetDidMetadata h did cb) dx = did_answer cb DA_String (get_did_metadata dn (dx_service dx) h did, dx_service dx) dx"
| "execute_simple dn d (DC_AbbreviateVerkey did verkey cb) dx =
     did_answer cb DA_String (abbreviate_verkey (ce_crypto (dn_ce dn)) (ce_text (dn_ce dn)) did verkey, dx_service dx) dx"
| "execute_simple dn d (DC_QualifyDid h did method_name cb) dx = did_answer cb DA_String (qualify_did dn d (dx_service dx) h did method_name) dx"
| "execute_simple dn d (DC_GetNymAck _ _ _ _) dx = Ok dx"
| "execute_simple dn d (DC_GetAttribAck _ _ _) dx = Ok dx"

definition execute_deferred_command ::
    "DidEnv \<Rightarrow> DidDraws \<Rightarrow> int \<Rightarrow> IndyErrorKind option \<Rightarrow> ('p, 's) DidExecutor \<Rightarrow> ('p, 's) DidExecutor outcome" where
  "execute_deferred_command dn d deferred_cmd_id err dx =
     (case hm_get (dx_deferred dx) deferred_cmd_id of
        None \<Rightarrow> Ok dx
      | Some cmd \<Rightarrow>
          (let dx' = dx\<lparr>dx_deferred := hm_remove (dx_deferred dx) deferred_cmd_id\<rparr>
           in case err of
                Some e \<Rightarrow> Ok (call_error_cb cmd e dx')
              | None \<Rightarrow> map_ok (\<lambda>dx. dx\<lparr>dx_borrowed := False\<rparr>) (execute_simple dn d cmd (dx'\<lparr>dx_borrowed := True\<rparr>))))"

definition after_reply ::
    "DidEnv \<Rightarrow> DidDraws \<Rightarrow> int \<Rightarrow> unit outcome \<times> ('p, 's) WalletService \<Rightarrow> ('p, 's) DidExecutor \<Rightarrow> ('p, 's) DidExecutor outcome" where
  "after_reply dn d deferred_cmd_id res dx =
     (case res of
        (Panic, _) \<Rightarrow> Panic
      | (Ok _, svc) \<Rightarrow> execute_deferred_command dn d deferred_cmd_id None (dx\<lparr>dx_service := svc\<rparr>)
      | (Err e, svc) \<Rightarrow> execute_deferred_command dn d deferred_cmd_id (Some e) (dx\<lparr>dx_service := svc\<rparr>))"

fun did_execute :: "DidEnv \<Rightarrow> DidDraws \<Rightarrow> DidCommand \<Rightarrow> ('p, 's) DidExecutor \<Rightarrow> ('p, 's) DidExecutor outcome" where
  "did_execute dn d (DC_GetNymAck h did result deferred_cmd_id) dx =
     after_reply dn d deferred_cmd_id (store_nym_reply dn d (dx_service dx) h did result) dx"
| "did_execute dn d (DC_GetAttribAck h result deferred_cmd_id) dx =
     after_reply dn d deferred_cmd_id (store_attrib_reply dn d (dx_service dx) h result) dx"
| "did_execute dn d cmd dx = execute_simple dn d cmd dx"

section \<open>Laws of the codecs\<close>

definition did_codec_ok :: "DidCodec \<Rightarrow> bool" where
  "did_codec_ok dc \<longleftrightarrow>
     (\<forall>x. \<exists>s. dc_did_to_string dc x = Some s \<and> dc_did_from_str dc s = Some x \<and> rust_str s) \<and>
     (\<forall>x. \<exists>s. dc_metadata_to_string dc x = Some s \<and> dc_metadata_from_str dc s = Some x \<and> rust_str s) \<and>
     (\<forall>x. \<exists>s. dc_endpoint_to_string dc x = Some s \<and> dc_endpoint_from_str dc s = Some x \<and> rust_str s) \<and>
     (\<forall>x. \<exists>s. dc_pairwise_to_string dc x = Some s \<and> dc_pairwise_from_str dc s = Some x \<and> rust_str s) \<and>
     (\<forall>x. \<exists>s. dc_with_meta_to_string dc x = Some s) \<and> (\<forall>x. \<exists>s. dc_with_metas_to_string dc x = Some s)"

definition did_env_ok :: "DidEnv \<Rightarrow> StorageEnv \<Rightarrow> bool" where
  "did_env_ok dn senv \<longleftrightarrow> command_env_ok (dn_ce dn) \<and> objects_ok (ce_wallet (dn_ce dn)) senv \<and> did_codec_ok (dn_codec dn)"

definition did_draws_ok :: "DidDraws \<Rightarrow> bool" where
  "did_draws_ok d \<longleftrightarrow> length (dd_seed d) = SEEDBYTES \<and> (\<forall>i. fresh_ok (dd_records d i))"

text \<open>The DID records of a wallet, by type (\<open>Did\<close>, \<open>TheirDid\<close>, \<open>TemporaryDid\<close>) and name.\<close>

definition did_at :: "DidEnv \<Rightarrow> plain_wallet \<Rightarrow> string \<Rightarrow> string \<Rightarrow> Did \<Rightarrow> bool" where
  "did_at dn P type name did \<longleftrightarrow> (\<exists>v. objects P type name = Some v \<and> dc_did_from_str (dn_codec dn) v = Some did)"

lemma rust_str_types [simp]:
  "rust_str ''Did''" "rust_str ''TheirDid''" "rust_str ''TemporaryDid''" "rust_str ''DidMetadata''" "rust_str ''Endpoint''"
  "rust_str ''Pairwise''" "rust_str ''Key''"
  by (simp_all add: rust_str_def)

context storage_type
begin

abbreviation has where "has dn h P svc \<equiv> wallet_open invar content (ce_wallet (dn_ce dn)) ty h P svc"

lemma load_did_open:
  assumes "did_env_ok dn senv" and "has dn h P svc"
  shows "load_did dn svc h type did = (case objects P type did of None \<Rightarrow> Err WalletItemNotFound
    | Some v \<Rightarrow> ok_or InvalidState (dc_did_from_str (dn_codec dn) v))"
  unfolding load_did_def using assms by (intro get_indy_object_open) (simp_all add: did_env_ok_def)

lemma load_did_at: "did_env_ok dn senv \<Longrightarrow> has dn h P svc \<Longrightarrow> did_at dn P type name did \<Longrightarrow> load_did dn svc h type name = Ok did"
  by (auto simp: load_did_open did_at_def)

lemma add_did_open:
  assumes "did_env_ok dn senv" and "has dn h P svc" and "fresh_ok rnd" and "rust_str type" and "rust_str (d_did did)"
  obtains json svc' where "dc_did_to_string (dn_codec dn) did = Some json" "dc_did_from_str (dn_codec dn) json = Some did"
    "add_did dn rnd svc h type did = (if objects P type (d_did did) = None then Ok json else Err WalletItemAlreadyExists, svc')"
    "has dn h (if objects P type (d_did did) = None then put_object P type (d_did did) json else P) svc'"
proof -
  obtain json where json: "dc_did_to_string (dn_codec dn) did = Some json" "dc_did_from_str (dn_codec dn) json = Some did" "rust_str json"
    using assms(1) unfolding did_env_ok_def did_codec_ok_def by blast
  have "object_ok rnd type (d_did did) json" using assms(3-5) json(3) by (simp add: object_ok_def)
  from add_indy_object_open [OF _ assms(2) this] assms(1) json show ?thesis using that unfolding add_did_def did_env_ok_def by metis
qed

lemma add_key_open:
  assumes "did_env_ok dn senv" and "has dn h P svc" and "fresh_ok rnd" and "agent_key (dn_ce dn) key"
  obtains json svc' where "mc_key_to_string (ce_msg (dn_ce dn)) key = Some json"
    "add_key dn rnd svc h key = (if objects P ''Key'' (k_verkey key) = None then Ok json else Err WalletItemAlreadyExists, svc')"
    "has dn h (if objects P ''Key'' (k_verkey key) = None then put_object P ''Key'' (k_verkey key) json else P) svc'"
proof -
  obtain json where json: "mc_key_to_string (ce_msg (dn_ce dn)) key = Some json" "rust_str json"
    using assms(1) unfolding did_env_ok_def command_env_ok_def msg_codec_ok_def by blast
  have "object_ok rnd ''Key'' (k_verkey key) json" using assms(3) json(2) agent_verkey_text [OF assms(4)] by (simp add: object_ok_def)
  from add_indy_object_open [OF _ assms(2) this] assms(1) json show ?thesis using that unfolding add_key_def did_env_ok_def by metis
qed

lemma key_for_local_did_at:
  assumes "did_env_ok dn senv" and "has dn h P svc" and "did_at dn P ''Did'' did x"
  shows "key_for_local_did dn svc h did = Ok (d_verkey x)"
  by (simp add: key_for_local_did_def validate_did_def load_did_at [OF assms])

section \<open>Rotation of a key\<close>

lemma replace_start:
  assumes "did_env_ok dn senv" and "has dn h P svc" and "did_draws_ok d" and "did_at dn P ''Did'' did \<lparr>d_did = did, d_verkey = vk\<rparr>" and "rust_str did"
    and "create_key (ce_crypto (dn_ce dn)) (ce_text (dn_ce dn)) (dd_seed d) info = Ok key" and "agent_key (dn_ce dn) key"
    and "objects P ''Key'' (k_verkey key) = None"
  obtains json key_json svc' where "dc_did_from_str (dn_codec dn) json = Some \<lparr>d_did = did, d_verkey = k_verkey key\<rparr>"
    "mc_key_to_string (ce_msg (dn_ce dn)) key = Some key_json"
    "replace_keys_start dn d svc h info did =
      (if objects P ''TemporaryDid'' did = None then Ok (k_verkey key) else Err WalletItemAlreadyExists, svc')"
    "has dn h (let P' = put_object P ''Key'' (k_verkey key) key_json in
      if objects P ''TemporaryDid'' did = None then put_object P' ''TemporaryDid'' did json else P') svc'"
proof -
  have fresh: "fresh_ok (dd_records d i)" for i using assms(3) by (simp add: did_draws_ok_def)
  obtain kj svc1 where k: "mc_key_to_string (ce_msg (dn_ce dn)) key = Some kj" "add_key dn (dd_records d 0) svc h key = (Ok kj, svc1)"
      "has dn h (put_object P ''Key'' (k_verkey key) kj) svc1"
    by (rule add_key_open [OF assms(1,2) fresh [of 0] assms(7)]) (simp add: assms(8))
  let ?P = "put_object P ''Key'' (k_verkey key) kj" and ?did = "\<lparr>d_did = did, d_verkey = k_verkey key\<rparr>"
  obtain json svc2 where j: "dc_did_to_string (dn_codec dn) ?did = Some json" "dc_did_from_str (dn_codec dn) json = Some ?did"
      "add_did dn (dd_records d 1) svc1 h ''TemporaryDid'' ?did =
        (if objects ?P ''TemporaryDid'' (d_did ?did) = None then Ok json else Err WalletItemAlreadyExists, svc2)"
      "has dn h (if objects ?P ''TemporaryDid'' (d_did ?did) = None then put_object ?P ''TemporaryDid'' (d_did ?did) json else ?P) svc2"
    by (rule add_did_open [OF assms(1) k(3) fresh [of 1], of "''TemporaryDid''" ?did]) (use assms(5) in simp_all)
  have keep: "objects ?P ''TemporaryDid'' did = objects P ''TemporaryDid'' did" by simp
  show ?thesis
    using j k(1,2) assms(6) load_did_at [OF assms(1,2,4)] unfolding Did.simps keep
    by (intro that [of json kj svc2]) (simp_all add: replace_keys_start_def validate_did_def Let_def)
qed

lemma replace_apply:
  assumes "did_env_ok dn senv" and "has dn h P svc" and "did_draws_ok d" and "did_at dn P ''Did'' did x" and "d_did x = did"
    and "did_at dn P ''TemporaryDid'' did y" and "d_did y = did" and "rust_str did"
  obtains json svc' where "dc_did_from_str (dn_codec dn) json = Some y" "replace_keys_apply dn d svc h did = (Ok (), svc')"
    "has dn h (remove_object (put_object P ''Did'' did json) ''TemporaryDid'' did) svc'"
proof -
  have env: "objects_ok (ce_wallet (dn_ce dn)) senv" using assms(1) by (simp add: did_env_ok_def)
  obtain json where json: "dc_did_to_string (dn_codec dn) y = Some json" "dc_did_from_str (dn_codec dn) json = Some y" "rust_str json"
    using assms(1) unfolding did_env_ok_def did_codec_ok_def by blast
  have "object_ok (dd_records d 0) ''Did'' did json" using assms(3,8) json(3) by (simp add: object_ok_def did_draws_ok_def)
  moreover have "objects P ''Did'' did \<noteq> None" using assms(4) by (auto simp: did_at_def)
  ultimately obtain svc1 where u: "update_indy_object (ce_wallet (dn_ce dn)) (dd_records d 0) svc h ''Did'' did (Some json) = (Ok json, svc1)"
      "has dn h (put_object P ''Did'' did json) svc1"
    by (rule update_existing_object [OF env assms(2)])
  have "objects (put_object P ''Did'' did json) ''TemporaryDid'' did \<noteq> None" using assms(6) by (auto simp: did_at_def)
  then obtain svc2 where d: "delete_indy_record (ce_wallet (dn_ce dn)) svc1 h ''TemporaryDid'' did = (Ok (), svc2)"
      "has dn h (remove_object (put_object P ''Did'' did json) ''TemporaryDid'' did) svc2"
    by (rule delete_existing_object [OF env u(2)])
  show ?thesis
    using that [OF json(2) _ d(2)] u(1) d(1) json(1) load_did_at [OF assms(1,2,4)] load_did_at [OF assms(1,2,6)] assms(5,7)
    by (simp add: replace_keys_apply_def validate_did_def)
qed

lemma replace_apply_idle:
  assumes "did_env_ok dn senv" and "has dn h P svc" and "did_at dn P ''Did'' did x" and "d_did x = did" and "objects P ''TemporaryDid'' did = None"
  shows "replace_keys_apply dn d svc h did = (Err WalletItemNotFound, svc)"
  using load_did_at [OF assms(1-3)] assms(4,5) by (simp add: replace_keys_apply_def validate_did_def load_did_open [OF assms(1,2)])

lemma rotate_key:
  assumes "did_env_ok dn senv" and "has dn h P svc" and "did_draws_ok d" and "did_draws_ok d'"
    and "did_at dn P ''Did'' did \<lparr>d_did = did, d_verkey = vk\<rparr>" and "rust_str did" and "objects P ''TemporaryDid'' did = None"
    and "create_key (ce_crypto (dn_ce dn)) (ce_text (dn_ce dn)) (dd_seed d) info = Ok key" and "agent_key (dn_ce dn) key"
    and "objects P ''Key'' (k_verkey key) = None"
  shows "\<exists>svc1 svc2. replace_keys_start dn d svc h info did = (Ok (k_verkey key), svc1) \<and> key_for_local_did dn svc1 h did = Ok vk \<and>
    replace_keys_apply dn d' svc1 h did = (Ok (), svc2) \<and> key_for_local_did dn svc2 h did = Ok (k_verkey key) \<and>
    replace_keys_apply dn d' svc2 h did = (Err WalletItemNotFound, svc2) \<and>
    (\<forall>msg. \<exists>signature. cmd_crypto_sign (dn_ce dn) svc2 h (k_verkey key) msg = Ok signature \<and>
       cmd_crypto_verify (dn_ce dn) (k_verkey key) msg signature = Ok True)"
proof -
  obtain json kj svc1 where s: "dc_did_from_str (dn_codec dn) json = Some \<lparr>d_did = did, d_verkey = k_verkey key\<rparr>"
      "mc_key_to_string (ce_msg (dn_ce dn)) key = Some kj" "replace_keys_start dn d svc h info did = (Ok (k_verkey key), svc1)"
      "has dn h (put_object (put_object P ''Key'' (k_verkey key) kj) ''TemporaryDid'' did json) svc1"
    by (rule replace_start [OF assms(1-3,5,6,8-10)]) (simp add: assms(7) Let_def)
  let ?P = "put_object (put_object P ''Key'' (k_verkey key) kj) ''TemporaryDid'' did json"
  have old: "did_at dn ?P ''Did'' did \<lparr>d_did = did, d_verkey = vk\<rparr>" using assms(5) by (simp add: did_at_def)
  have new: "did_at dn ?P ''TemporaryDid'' did \<lparr>d_did = did, d_verkey = k_verkey key\<rparr>" using s(1) by (simp add: did_at_def)
  obtain json' svc2 where a: "dc_did_from_str (dn_codec dn) json' = Some \<lparr>d_did = did, d_verkey = k_verkey key\<rparr>"
      "replace_keys_apply dn d' svc1 h did = (Ok (), svc2)" "has dn h (remove_object (put_object ?P ''Did'' did json') ''TemporaryDid'' did) svc2"
    by (rule replace_apply [OF assms(1) s(4) assms(4) old _ new _ assms(6)]) simp_all
  let ?P' = "remove_object (put_object ?P ''Did'' did json') ''TemporaryDid'' did"
  have now: "did_at dn ?P' ''Did'' did \<lparr>d_did = did, d_verkey = k_verkey key\<rparr>" using a(1) by (simp add: did_at_def)
  have "has_key (dn_ce dn) ?P' key" using s(2) by (simp add: has_key_def)
  then have load: "load_key (dn_ce dn) svc2 h (k_verkey key) = Ok key"
    using load_key_has [OF _ _ a(3)] assms(1) by (simp add: did_env_ok_def)
  have cs: "ce_crypto (dn_ce dn) = crypto_service_new (ce_sodium (dn_ce dn))" using assms(1) by (simp add: did_env_ok_def command_env_ok_def)
  have "\<forall>msg. \<exists>signature. cmd_crypto_sign (dn_ce dn) svc2 h (k_verkey key) msg = Ok signature \<and>
       cmd_crypto_verify (dn_ce dn) (k_verkey key) msg signature = Ok True"
    using ed25519.sign_verify [OF assms(9)] ed25519.validate_key_ok [OF assms(9)] load
    by (simp add: cmd_crypto_sign_def cmd_crypto_verify_def cs)
  with s(3) a(2) key_for_local_did_at [OF assms(1) s(4) old] key_for_local_did_at [OF assms(1) a(3) now]
    replace_apply_idle [OF assms(1) a(3) now]
  show ?thesis by simp
qed

end

section \<open>Keys and endpoints from the ledger\<close>

lemma next_handle_storages [simp]:
  "ws_wallets (snd (next_handle svc)) = ws_wallets svc" "ws_storages (snd (next_handle svc)) = ws_storages svc"
  by (simp_all add: next_handle_def)

lemma wallet_open_handle [simp]: "wallet_open ok con env ty h P (snd (next_handle svc)) = wallet_open ok con env ty h P svc"
  by (simp add: wallet_open_def)

lemma hm_get_insert_same [simp]: "hm_get (hm_insert m k v) k = Some v"
  by (induction m k v rule: hm_insert.induct) auto

text \<open>The executor after a command was deferred and its request was sent.\<close>

definition deferred_to :: "('p, 's) DidExecutor \<Rightarrow> DidCommand \<Rightarrow> (int \<Rightarrow> LedgerRequest) \<Rightarrow> ('p, 's) DidExecutor" where
  "deferred_to dx cmd request =
     (let (i, svc) = next_handle (dx_service dx)
      in dx\<lparr>dx_service := svc, dx_deferred := hm_insert (dx_deferred dx) i cmd, dx_ledger := dx_ledger dx @ [request i]\<rparr>)"

definition deferred_id :: "('p, 's) DidExecutor \<Rightarrow> int" where
  "deferred_id dx = fst (next_handle (dx_service dx))"

lemma deferred_to_simps [simp]:
  "dx_service (deferred_to dx cmd request) = snd (next_handle (dx_service dx))"
  "dx_deferred (deferred_to dx cmd request) = hm_insert (dx_deferred dx) (deferred_id dx) cmd"
  "dx_borrowed (deferred_to dx cmd request) = dx_borrowed dx"
  "dx_ledger (deferred_to dx cmd request) = dx_ledger dx @ [request (deferred_id dx)]"
  "dx_called (deferred_to dx cmd request) = dx_called dx"
  by (simp_all add: deferred_to_def deferred_id_def case_prod_beta)

lemma fetch_defers:
  assumes "\<not> dx_borrowed dx"
  shows "fetch_their_did_from_ledger h pool_handle did cmd dx =
      Ok (deferred_to dx cmd (\<lambda>i. Get_Nym pool_handle (did_to_short did) (\<lambda>result. DC_GetNymAck h did result i)))"
    "fetch_attrib_from_ledger h pool_handle did cmd dx =
      Ok (deferred_to dx cmd (\<lambda>i. Get_Attrib pool_handle (did_to_short did) ''endpoint'' (\<lambda>result. DC_GetAttribAck h result i)))"
  using assms by (simp_all add: fetch_their_did_from_ledger_def fetch_attrib_from_ledger_def defer_command_def deferred_to_def case_prod_beta)

lemma fetch_borrowed:
  assumes "dx_borrowed dx"
  shows "fetch_their_did_from_ledger h pool_handle did cmd dx = Panic" "fetch_attrib_from_ledger h pool_handle did cmd dx = Panic"
  using assms by (simp_all add: fetch_their_did_from_ledger_def fetch_attrib_from_ledger_def defer_command_def case_prod_beta)

context storage_type
begin

lemma key_for_did_unknown:
  assumes "did_env_ok dn senv" and "has dn h P (dx_service dx)" and "objects P ''Did'' did = None" and "objects P ''TheirDid'' did = None"
  shows "key_for_did dn pool h did cb dx = fetch_their_did_from_ledger h pool did (DC_KeyForDid pool h did cb) dx"
  using assms(3,4) by (simp add: key_for_did_def validate_did_def load_did_open [OF assms(1,2)])

lemma key_for_did_known:
  assumes "did_env_ok dn senv" and "has dn h P (dx_service dx)" and "objects P ''Did'' did = None" and "did_at dn P ''TheirDid'' did x"
  shows "key_for_did dn pool h did cb dx = Ok (did_call cb (DA_String (Ok (d_verkey x))) dx)"
  using assms(3,4) by (auto simp: key_for_did_def validate_did_def load_did_open [OF assms(1,2)] did_at_def)

lemma store_nym:
  assumes "did_env_ok dn senv" and "has dn h P svc" and "did_draws_ok d" and "fetched_their_did dn did result = Ok theirs" and "rust_str (d_did theirs)"
  obtains json svc' where "dc_did_from_str (dn_codec dn) json = Some theirs"
    "store_nym_reply dn d svc h did result = (if objects P ''TheirDid'' (d_did theirs) = None then Ok () else Err WalletItemAlreadyExists, svc')"
    "has dn h (if objects P ''TheirDid'' (d_did theirs) = None then put_object P ''TheirDid'' (d_did theirs) json else P) svc'"
proof -
  have fresh: "fresh_ok (dd_records d 0)" using assms(3) by (simp add: did_draws_ok_def)
  obtain json svc' where a: "dc_did_to_string (dn_codec dn) theirs = Some json" "dc_did_from_str (dn_codec dn) json = Some theirs"
    "add_did dn (dd_records d 0) svc h ''TheirDid'' theirs =
      (if objects P ''TheirDid'' (d_did theirs) = None then Ok json else Err WalletItemAlreadyExists, svc')"
    "has dn h (if objects P ''TheirDid'' (d_did theirs) = None then put_object P ''TheirDid'' (d_did theirs) json else P) svc'"
    by (rule add_did_open [OF assms(1,2) fresh rust_str_types(2) assms(5)])
  show ?thesis by (rule that [OF a(2) _ a(4)]) (simp add: store_nym_reply_def assms(4) a(3))
qed

text \<open>The reply to a deferred request for a key.\<close>

lemma nym_ack:
  assumes "did_env_ok dn senv" and "has dn h P (dx_service dx)" and "did_draws_ok d"
    and "hm_get (dx_deferred dx) i = Some (DC_KeyForDid pool h did cb)"
    and "objects P ''Did'' did = None" and "objects P ''TheirDid'' did = None"
    and "\<And>theirs. fetched_their_did dn did result = Ok theirs \<Longrightarrow> rust_str (d_did theirs)"
  shows "case fetched_their_did dn did result of
      Panic \<Rightarrow> did_execute dn d (DC_GetNymAck h did result i) dx = Panic
    | Err e \<Rightarrow> did_execute dn d (DC_GetNymAck h did result i) dx =
        Ok (did_call cb (DA_String (Err e)) (dx\<lparr>dx_deferred := hm_remove (dx_deferred dx) i\<rparr>))
    | Ok theirs \<Rightarrow>
        if objects P ''TheirDid'' (d_did theirs) \<noteq> None then
          \<exists>svc'. has dn h P svc' \<and> did_execute dn d (DC_GetNymAck h did result i) dx =
            Ok (did_call cb (DA_String (Err WalletItemAlreadyExists)) (dx\<lparr>dx_service := svc', dx_deferred := hm_remove (dx_deferred dx) i\<rparr>))
        else if d_did theirs = did then
          \<exists>svc' json. dc_did_from_str (dn_codec dn) json = Some theirs \<and> has dn h (put_object P ''TheirDid'' did json) svc' \<and>
            did_execute dn d (DC_GetNymAck h did result i) dx =
            Ok ((did_call cb (DA_String (Ok (d_verkey theirs))) (dx\<lparr>dx_service := svc', dx_deferred := hm_remove (dx_deferred dx) i\<rparr>))\<lparr>dx_borrowed := False\<rparr>)
        else did_execute dn d (DC_GetNymAck h did result i) dx = Panic"
proof (cases "fetched_their_did dn did result")
  case Panic
  then show ?thesis by (simp add: after_reply_def store_nym_reply_def)
next
  case (Err e)
  then show ?thesis using assms(4) by (simp add: after_reply_def store_nym_reply_def execute_deferred_command_def Let_def)
next
  case (Ok theirs)
  obtain json svc' where s: "dc_did_from_str (dn_codec dn) json = Some theirs"
    "store_nym_reply dn d (dx_service dx) h did result =
      (if objects P ''TheirDid'' (d_did theirs) = None then Ok () else Err WalletItemAlreadyExists, svc')"
    "has dn h (if objects P ''TheirDid'' (d_did theirs) = None then put_object P ''TheirDid'' (d_did theirs) json else P) svc'"
    by (rule store_nym [OF assms(1-3) Ok assms(7) [OF Ok]])
  show ?thesis
  proof (cases "objects P ''TheirDid'' (d_did theirs)")
    case (Some v)
    then have "has dn h P svc'" using s(3) by simp
    with Ok Some s(2) assms(4) show ?thesis by (auto simp: after_reply_def execute_deferred_command_def Let_def)
  next
    case None
    let ?P = "put_object P ''TheirDid'' (d_did theirs) json"
      and ?dx = "dx\<lparr>dx_service := svc', dx_deferred := hm_remove (dx_deferred dx) i, dx_borrowed := True\<rparr>"
    have w: "has dn h ?P (dx_service ?dx)" using s(3) None by simp
    have run: "did_execute dn d (DC_GetNymAck h did result i) dx = map_ok (\<lambda>dx. dx\<lparr>dx_borrowed := False\<rparr>) (key_for_did dn pool h did cb ?dx)"
      using None s(2) assms(4) by (simp add: after_reply_def execute_deferred_command_def Let_def)
    have mine: "objects ?P ''Did'' did = None" using assms(5) by simp
    show ?thesis
    proof (cases "d_did theirs = did")
      case True
      then have "did_at dn ?P ''TheirDid'' did theirs" using s(1) by (simp add: did_at_def)
      from key_for_did_known [OF assms(1) w mine this] True run Ok None w s(1) show ?thesis
        by (auto simp: did_call_def)
    next
      case False
      then have "objects ?P ''TheirDid'' did = None" using assms(6) by simp
      from key_for_did_unknown [OF assms(1) w mine this, of pool cb] fetch_borrowed [of ?dx] False run Ok None show ?thesis by simp
    qed
  qed
qed

lemma get_endpoint_unknown:
  assumes "did_env_ok dn senv" and "has dn h P (dx_service dx)" and "objects P ''Endpoint'' did = None"
  shows "get_endpoint_for_did dn h pool did cb dx = fetch_attrib_from_ledger h pool did (DC_GetEndpointForDid h pool did cb) dx"
  using assms by (simp add: get_endpoint_for_did_def validate_did_def did_env_ok_def get_indy_object_open)

lemma get_endpoint_known:
  assumes "did_env_ok dn senv" and "has dn h P (dx_service dx)" and "objects P ''Endpoint'' did = Some v" and "dc_endpoint_from_str (dn_codec dn) v = Some x"
  shows "get_endpoint_for_did dn h pool did cb dx = Ok (did_call cb (DA_Endpoint (Ok (en_ha x, en_verkey x))) dx)"
  using assms by (simp add: get_endpoint_for_did_def validate_did_def did_env_ok_def get_indy_object_open)

lemma attrib_ack:
  assumes "did_env_ok dn senv" and "has dn h P (dx_service dx)" and "did_draws_ok d"
    and "hm_get (dx_deferred dx) i = Some (DC_GetEndpointForDid h pool did cb)" and "objects P ''Endpoint'' did = None"
    and "\<And>dest x. fetched_endpoint dn result = Ok (dest, x) \<Longrightarrow> rust_str dest"
  shows "case fetched_endpoint dn result of
      Panic \<Rightarrow> did_execute dn d (DC_GetAttribAck h result i) dx = Panic
    | Err e \<Rightarrow> did_execute dn d (DC_GetAttribAck h result i) dx =
        Ok (did_call cb (DA_Endpoint (Err e)) (dx\<lparr>dx_deferred := hm_remove (dx_deferred dx) i\<rparr>))
    | Ok (dest, x) \<Rightarrow>
        if objects P ''Endpoint'' dest \<noteq> None then
          \<exists>svc'. has dn h P svc' \<and> did_execute dn d (DC_GetAttribAck h result i) dx =
            Ok (did_call cb (DA_Endpoint (Err WalletItemAlreadyExists)) (dx\<lparr>dx_service := svc', dx_deferred := hm_remove (dx_deferred dx) i\<rparr>))
        else if dest = did then
          \<exists>svc' json. dc_endpoint_from_str (dn_codec dn) json = Some x \<and> has dn h (put_object P ''Endpoint'' did json) svc' \<and>
            did_execute dn d (DC_GetAttribAck h result i) dx =
            Ok ((did_call cb (DA_Endpoint (Ok (en_ha x, en_verkey x))) (dx\<lparr>dx_service := svc', dx_deferred := hm_remove (dx_deferred dx) i\<rparr>))\<lparr>dx_borrowed := False\<rparr>)
        else did_execute dn d (DC_GetAttribAck h result i) dx = Panic"
proof (cases "fetched_endpoint dn result")
  case Panic
  then show ?thesis by (simp add: after_reply_def store_attrib_reply_def)
next
  case (Err e)
  then show ?thesis using assms(4) by (simp add: after_reply_def store_attrib_reply_def execute_deferred_command_def Let_def)
next
  case (Ok r)
  obtain dest x where r: "r = (dest, x)" by (cases r)
  have env: "objects_ok (ce_wallet (dn_ce dn)) senv" using assms(1) by (simp add: did_env_ok_def)
  obtain json where json: "dc_endpoint_to_string (dn_codec dn) x = Some json" "dc_endpoint_from_str (dn_codec dn) json = Some x" "rust_str json"
    using assms(1) unfolding did_env_ok_def did_codec_ok_def by blast
  have "object_ok (dd_records d 0) ''Endpoint'' dest json" using assms(3) assms(6) [OF Ok [unfolded r]] json(3) by (simp add: object_ok_def did_draws_ok_def)
  then obtain st where s: "add_indy_object (ce_wallet (dn_ce dn)) (dd_records d 0) (dx_service dx) h ''Endpoint'' dest (Some json) [] =
      (if objects P ''Endpoint'' dest = None then Ok json else Err WalletItemAlreadyExists, (dx_service dx)\<lparr>ws_storages := st\<rparr>)"
    "has dn h (if objects P ''Endpoint'' dest = None then put_object P ''Endpoint'' dest json else P) ((dx_service dx)\<lparr>ws_storages := st\<rparr>)"
    by (rule add_indy_object_open [OF env assms(2)])
  let ?svc = "(dx_service dx)\<lparr>ws_storages := st\<rparr>"
  show ?thesis
  proof (cases "objects P ''Endpoint'' dest")
    case (Some v)
    then have "has dn h P ?svc" using s(2) by simp
    with Ok r Some s(1) assms(4) json(1) show ?thesis
      by (auto simp: after_reply_def store_attrib_reply_def execute_deferred_command_def Let_def)
  next
    case None
    let ?P = "put_object P ''Endpoint'' dest json"
      and ?dx = "dx\<lparr>dx_service := ?svc, dx_deferred := hm_remove (dx_deferred dx) i, dx_borrowed := True\<rparr>"
    have w: "has dn h ?P (dx_service ?dx)" using s(2) None by simp
    have run: "did_execute dn d (DC_GetAttribAck h result i) dx = map_ok (\<lambda>dx. dx\<lparr>dx_borrowed := False\<rparr>) (get_endpoint_for_did dn h pool did cb ?dx)"
      using None s(1) assms(4) Ok r json(1) by (simp add: after_reply_def store_attrib_reply_def execute_deferred_command_def Let_def)
    show ?thesis
    proof (cases "dest = did")
      case True
      from get_endpoint_known [OF assms(1) w, of did json x] True run Ok r None w json(2) show ?thesis by (auto simp: did_call_def)
    next
      case False
      then have "objects ?P ''Endpoint'' did = None" using assms(5) by simp
      from get_endpoint_unknown [OF assms(1) w this, of pool cb] fetch_borrowed [of ?dx] False run Ok r None show ?thesis by simp
    qed
  qed
qed

end

section \<open>Abbreviated keys\<close>

lemma split_on_two: "CHR '':'' \<notin> set a \<Longrightarrow> CHR '':'' \<notin> set b \<Longrightarrow> split_on CHR '':'' (a @ CHR '':'' # b) = [a, b]"
proof -
  assume a: "CHR '':'' \<notin> set a" and b: "CHR '':'' \<notin> set b"
  have "split_on CHR '':'' w = [w]" if "CHR '':'' \<notin> set w" for w using that by (induction w) auto
  with b have "split_on CHR '':'' b = [b]" by blast
  with a show ?thesis by (induction a) auto
qed

text \<open>A key that the service accepts and that is not abbreviated has at most one colon.\<close>

lemma validated_plain:
  assumes "validate_key (crypto_service_new so) tx verkey = Ok ()" and "\<not> starts_with verkey ''~''" and "CHR '':'' \<notin> set verkey"
  obtains bs where "tx_from_b58 tx verkey = Some bs" "length bs = 32"
  using assms
  by (auto simp: validate_key_def split_verkey_plain find_default decode_b58_def from_slice_def SIG_PUBLICKEYBYTES_def split: if_splits)

lemma validated_typed:
  assumes "validate_key (crypto_service_new so) tx verkey = Ok ()" and "\<not> starts_with verkey ''~''" and "CHR '':'' \<in> set verkey"
  obtains vk suffix where "verkey = vk @ CHR '':'' # suffix" "CHR '':'' \<notin> set vk" "CHR '':'' \<notin> set suffix" "\<not> starts_with vk ''~''"
proof -
  let ?vk = "takeWhile (\<lambda>c. c \<noteq> CHR '':'') verkey"
  have "\<exists>suffix. dropWhile (\<lambda>c. c \<noteq> CHR '':'') verkey = CHR '':'' # suffix" using assms(3) by (induction verkey) auto
  then obtain suffix where drop: "dropWhile (\<lambda>c. c \<noteq> CHR '':'') verkey = CHR '':'' # suffix" ..
  have vk: "verkey = ?vk @ CHR '':'' # suffix" unfolding drop [symmetric] by simp
  have "snd (split_verkey verkey) = (if suffix \<noteq> [] then suffix else DEFAULT_CRYPTO_TYPE)" unfolding split_verkey_def drop by simp
  moreover have "snd (split_verkey verkey) = DEFAULT_CRYPTO_TYPE"
  proof (rule ccontr)
    assume "snd (split_verkey verkey) \<noteq> DEFAULT_CRYPTO_TYPE"
    from find_unknown [OF this, of so] assms(1) show False by (cases "split_verkey verkey") (simp add: validate_key_def)
  qed
  ultimately have "suffix = [] \<or> suffix = DEFAULT_CRYPTO_TYPE" by (auto split: if_splits)
  then have suffix: "CHR '':'' \<notin> set suffix" by (auto simp: DEFAULT_CRYPTO_TYPE_def)
  have pre: "CHR '':'' \<notin> set ?vk" by (auto dest: set_takeWhileD)
  have "\<not> starts_with ?vk ''~''" using assms(2) by (cases verkey) auto
  with vk pre suffix show ?thesis by (rule that)
qed

lemma abbreviate_no_panic:
  assumes "codec_ok tx"
  shows "abbreviate_verkey (crypto_service_new so) tx did verkey \<noteq> Panic"
proof -
  have b58: "base58_ok (tx_from_b58 tx) (tx_to_b58 tx)" using assms by (simp add: codec_ok_def)
  have "length bs = 32" if "validate_key (crypto_service_new so) tx verkey = Ok ()" "tx_from_b58 tx verkey = Some bs" for bs
  proof -
    note chars = base58_chars [OF b58 that(2)] and valid = that(1)
    then have "\<not> starts_with verkey ''~''" by (cases verkey) auto
    then obtain bs' where "tx_from_b58 tx verkey = Some bs'" "length bs' = 32" by (rule validated_plain [OF valid _ chars(1)])
    with that(2) show ?thesis by simp
  qed
  moreover have "validate_key (crypto_service_new so) tx verkey \<noteq> Panic"
    by (auto simp: validate_key_def and_then_Panic_iff map_ok_def ed25519_type_def dest!: found_type split: prod.split)
  ultimately show ?thesis
    by (auto simp: abbreviate_verkey_def validate_did_def and_then_Panic_iff split: if_splits)
qed

lemma abbreviate_expands:
  assumes "codec_ok tx" and "\<not> starts_with verkey ''~''" and "abbreviate_verkey (crypto_service_new so) tx did verkey = Ok r"
  shows "build_full_verkey (tx_from_b58 tx) (tx_to_b58 tx) (to_unqualified did) (Some r) = Ok verkey"
proof -
  have b58: "base58_ok (tx_from_b58 tx) (tx_to_b58 tx)" using assms(1) by (simp add: codec_ok_def)
  have valid: "validate_key (crypto_service_new so) tx verkey = Ok ()"
    using assms(3) by (auto simp: abbreviate_verkey_def)
  show ?thesis
  proof (cases "r = verkey")
    case True
    show ?thesis
    proof (cases "CHR '':'' \<in> set verkey")
      case colon: True
      obtain vk suffix where "verkey = vk @ CHR '':'' # suffix" "CHR '':'' \<notin> set vk" "CHR '':'' \<notin> set suffix" "\<not> starts_with vk ''~''"
        by (rule validated_typed [OF valid assms(2) colon])
      with True show ?thesis by (simp add: build_full_verkey_def split_on_two)
    qed (use True assms(2) in \<open>simp add: build_full_verkey_def\<close>)
  next
    case False
    then obtain db vb where ab: "tx_from_b58 tx (to_unqualified did) = Some db" "tx_from_b58 tx verkey = Some vb" "take 16 vb = db"
        "r = ''~'' @ tx_to_b58 tx (drop 16 vb)"
      using assms(3) by (auto simp: abbreviate_verkey_def split: if_splits)
    have "CHR '':'' \<notin> set r" using base58_chars [OF b58 base58_read [OF b58, of "drop 16 vb"]] by (simp add: ab(4))
    moreover have "db @ drop 16 vb = vb" unfolding ab(3) [symmetric] by simp
    ultimately show ?thesis
      using ab base58_read [OF b58, of "drop 16 vb"] base58_write [OF b58 ab(2)] by (simp add: build_full_verkey_def)
  qed
qed

section \<open>Qualification\<close>

text \<open>A record under its new name.\<close>

definition free_for :: "plain_wallet \<Rightarrow> string \<Rightarrow> string \<Rightarrow> string \<Rightarrow> bool" where
  "free_for P type old new \<longleftrightarrow> objects P type old = None \<or> new = old \<or> objects P type new = None"

definition pairwise_ok :: "DidEnv \<Rightarrow> plain_wallet \<Rightarrow> bool" where
  "pairwise_ok dn P \<longleftrightarrow> (\<forall>n v. objects P ''Pairwise'' n = Some v \<longrightarrow>
     (\<exists>pw. dc_pairwise_from_str (dn_codec dn) v = Some pw \<and> pw_their_did pw = n))"

context storage_type
begin

lemma move_record:
  assumes "did_env_ok dn senv" and "has dn h P svc" and "fresh_ok rnd" and "free_for P type old new" and "rust_str type" and "rust_str new"
  obtains P' svc' where "update_dependent_entity_reference dn rnd svc h type old new = (Ok (), svc')" "has dn h P' svc'"
    "\<forall>t n. objects P' t n = (if t = type \<and> objects P type old \<noteq> None
       then (if n = new then objects P type old else if n = old then None else objects P t n) else objects P t n)"
proof -
  have env: "objects_ok (ce_wallet (dn_ce dn)) senv" using assms(1) by (simp add: did_env_ok_def)
  note get = get_indy_record_value_open [OF env assms(2), of type old]
  show thesis
  proof (cases "objects P type old")
    case None
    with get assms(2) show thesis by (intro that [of svc P]) (simp_all add: update_dependent_entity_reference_def)
  next
    case (Some v)
    then obtain svc1 where d: "delete_indy_record (ce_wallet (dn_ce dn)) svc h type old = (Ok (), svc1)" "has dn h (remove_object P type old) svc1"
      using delete_existing_object [OF env assms(2), of type old] by auto
    have "object_ok rnd type new v" using assms(3,5,6) objects_text [OF env assms(2) Some] by (simp add: object_ok_def)
    moreover have "objects (remove_object P type old) type new = None" using assms(4) Some by (auto simp: free_for_def)
    ultimately obtain svc2 where a: "add_indy_object (ce_wallet (dn_ce dn)) rnd svc1 h type new (Some v) [] = (Ok v, svc2)"
        "has dn h (put_object (remove_object P type old) type new v) svc2"
      by (rule add_new_object [OF env d(2)])
    then have "add_indy_record (ce_wallet (dn_ce dn)) rnd svc1 h type new v [] = (Ok (), svc2)"
      by (auto simp: add_indy_object_def split: prod.splits)
    with get d(1) a(2) Some show thesis
      by (intro that [of svc2 "put_object (remove_object P type old) type new v"])
        (simp_all add: update_dependent_entity_reference_def)
  qed
qed

lemma move_temporary:
  assumes "did_env_ok dn senv" and "has dn h P svc" and "fresh_ok rnd" and "free_for P ''TemporaryDid'' old new" and "rust_str new"
    and "\<And>v. objects P ''TemporaryDid'' old = Some v \<Longrightarrow> dc_did_from_str (dn_codec dn) v \<noteq> None"
  obtains P' svc' where "move_temporary_did dn rnd svc h old new = (Ok (), svc')" "has dn h P' svc'"
    "\<forall>t n. t \<noteq> ''TemporaryDid'' \<or> objects P ''TemporaryDid'' old = None \<or> n \<noteq> old \<and> n \<noteq> new \<longrightarrow> objects P' t n = objects P t n"
    "\<forall>x. did_at dn P ''TemporaryDid'' old x \<longrightarrow> did_at dn P' ''TemporaryDid'' new (x\<lparr>d_did := new\<rparr>)"
    "new \<noteq> old \<longrightarrow> objects P' ''TemporaryDid'' old = None"
proof -
  have env: "objects_ok (ce_wallet (dn_ce dn)) senv" using assms(1) by (simp add: did_env_ok_def)
  show thesis
  proof (cases "objects P ''TemporaryDid'' old")
    case None
    with assms(2) show thesis
      by (intro that [of svc P]) (simp_all add: move_temporary_did_def load_did_open [OF assms(1,2)] did_at_def)
  next
    case (Some v)
    then obtain x where x: "dc_did_from_str (dn_codec dn) v = Some x" using assms(6) by blast
    obtain svc1 where d: "delete_indy_record (ce_wallet (dn_ce dn)) svc h ''TemporaryDid'' old = (Ok (), svc1)"
        "has dn h (remove_object P ''TemporaryDid'' old) svc1"
      using delete_existing_object [OF env assms(2), of "''TemporaryDid''" old] Some by auto
    let ?P = "remove_object P ''TemporaryDid'' old"
    have free: "objects ?P ''TemporaryDid'' new = None" using assms(4) Some by (auto simp: free_for_def)
    have valid: "rust_str (d_did (x\<lparr>d_did := new\<rparr>))" using assms(5) by simp
    obtain json svc2 where a: "dc_did_to_string (dn_codec dn) (x\<lparr>d_did := new\<rparr>) = Some json"
        "dc_did_from_str (dn_codec dn) json = Some (x\<lparr>d_did := new\<rparr>)"
        "add_did dn rnd svc1 h ''TemporaryDid'' (x\<lparr>d_did := new\<rparr>) =
          (if objects ?P ''TemporaryDid'' (d_did (x\<lparr>d_did := new\<rparr>)) = None then Ok json else Err WalletItemAlreadyExists, svc2)"
        "has dn h (if objects ?P ''TemporaryDid'' (d_did (x\<lparr>d_did := new\<rparr>)) = None
          then put_object ?P ''TemporaryDid'' (d_did (x\<lparr>d_did := new\<rparr>)) json else ?P) svc2"
      by (rule add_did_open [OF assms(1) d(2) assms(3) rust_str_types(3) valid])
    show thesis
      by (rule that [of svc2 "put_object ?P ''TemporaryDid'' new json"])
        (use a d(1) free Some x in \<open>auto simp: move_temporary_did_def load_did_open [OF assms(1,2)] did_at_def\<close>)
  qed
qed

text \<open>The loop over the pairwise records; \<open>ns\<close> are their names and \<open>V\<close> their values when the search was opened.\<close>

lemma move_pairwise_open:
  assumes "did_env_ok dn senv" and "\<And>i. fresh_ok (rnds i)"
    and "\<And>n. n \<in> set ns \<Longrightarrow> \<exists>v pw. V n = Some v \<and> dc_pairwise_from_str (dn_codec dn) v = Some pw \<and> pw_their_did pw = n \<and> rust_str n"
    and "map_outcome_list (\<lambda>r. decrypt_storage_record (sv_crypto (ce_wallet (dn_ce dn))) r keys) srs = Ok recs"
    and "list_all2 (\<lambda>n r. wr_id r = n \<and> wr_value r = V n) ns recs" and "distinct ns"
    and "has dn h P svc" and "\<And>n. n \<in> set ns \<Longrightarrow> objects P ''Pairwise'' n = V n"
  shows "\<exists>P' svc'. move_pairwise dn rnds h old new i keys srs svc = (Ok (), svc') \<and> has dn h P' svc' \<and>
    (\<forall>t n. t \<noteq> ''Pairwise'' \<or> n \<notin> set ns \<longrightarrow> objects P' t n = objects P t n) \<and>
    (\<forall>n v pw. n \<in> set ns \<longrightarrow> V n = Some v \<longrightarrow> dc_pairwise_from_str (dn_codec dn) v = Some pw \<longrightarrow>
       (\<exists>v'. objects P' ''Pairwise'' n = Some v' \<and>
         dc_pairwise_from_str (dn_codec dn) v' = Some (if pw_my_did pw = old then pw\<lparr>pw_my_did := new\<rparr> else pw)))"
  using assms(3-8)
proof (induction srs arbitrary: recs ns P svc i)
  case Nil
  then show ?case by auto
next
  case (Cons sr srs)
  have env: "objects_ok (ce_wallet (dn_ce dn)) senv" using assms(1) by (simp add: did_env_ok_def)
  obtain r recs' where dec: "decrypt_storage_record (sv_crypto (ce_wallet (dn_ce dn))) sr keys = Ok r" "recs = r # recs'"
      "map_outcome_list (\<lambda>r. decrypt_storage_record (sv_crypto (ce_wallet (dn_ce dn))) r keys) srs = Ok recs'"
    using Cons.prems(2) by auto
  obtain n ns' where ns: "ns = n # ns'" "wr_value r = V n" "list_all2 (\<lambda>n r. wr_id r = n \<and> wr_value r = V n) ns' recs'"
    using Cons.prems(3) dec(2) by (auto simp: list_all2_Cons2)
  obtain v pw where v: "V n = Some v" "dc_pairwise_from_str (dn_codec dn) v = Some pw" "pw_their_did pw = n" "rust_str n"
    using Cons.prems(1) [of n] ns(1) by auto
  define pw' where "pw' = (if pw_my_did pw = old then pw\<lparr>pw_my_did := new\<rparr> else pw)"
  have IH: "\<exists>P' svc'. move_pairwise dn rnds h old new (Suc i) keys srs svc1 = (Ok (), svc') \<and> has dn h P' svc' \<and>
      (\<forall>t m. t \<noteq> ''Pairwise'' \<or> m \<notin> set ns' \<longrightarrow> objects P' t m = objects P1 t m) \<and>
      (\<forall>m v pw. m \<in> set ns' \<longrightarrow> V m = Some v \<longrightarrow> dc_pairwise_from_str (dn_codec dn) v = Some pw \<longrightarrow>
         (\<exists>v'. objects P' ''Pairwise'' m = Some v' \<and>
           dc_pairwise_from_str (dn_codec dn) v' = Some (if pw_my_did pw = old then pw\<lparr>pw_my_did := new\<rparr> else pw)))"
    if "has dn h P1 svc1" "\<And>m. m \<in> set ns' \<Longrightarrow> objects P1 ''Pairwise'' m = V m" for P1 svc1
    using Cons.IH [of ns' recs' P1 svc1 "Suc i"] Cons.prems(1,4) dec(3) ns(1,3) that by auto
  have "\<exists>svc1 P1 v1. move_pairwise dn rnds h old new i keys (sr # srs) svc = move_pairwise dn rnds h old new (Suc i) keys srs svc1 \<and>
      has dn h P1 svc1 \<and> objects P1 ''Pairwise'' n = Some v1 \<and> dc_pairwise_from_str (dn_codec dn) v1 = Some pw' \<and>
      (\<forall>t m. t \<noteq> ''Pairwise'' \<or> m \<noteq> n \<longrightarrow> objects P1 t m = objects P t m)"
  proof (cases "pw_my_did pw = old")
    case False
    with dec(1) ns v Cons.prems(5,6) show ?thesis by (intro exI [of _ svc] exI [of _ P] exI [of _ v]) (simp add: record_object_def pw'_def)
  next
    case True
    obtain json where json: "dc_pairwise_to_string (dn_codec dn) pw' = Some json" "dc_pairwise_from_str (dn_codec dn) json = Some pw'" "rust_str json"
      using assms(1) unfolding did_env_ok_def did_codec_ok_def by blast
    have ok: "object_ok (rnds i) ''Pairwise'' n json" using assms(2) v(4) json(3) by (simp add: object_ok_def)
    have there: "objects P ''Pairwise'' n \<noteq> None" using Cons.prems(6) ns(1) v(1) by simp
    obtain svc1 where "update_indy_object (ce_wallet (dn_ce dn)) (rnds i) svc h ''Pairwise'' n (Some json) = (Ok json, svc1)"
        "has dn h (put_object P ''Pairwise'' n json) svc1"
      by (rule update_existing_object [OF env Cons.prems(5) ok there])
    with True dec(1) ns v json show ?thesis
      by (intro exI [of _ svc1] exI [of _ "put_object P ''Pairwise'' n json"] exI [of _ json]) (auto simp: record_object_def pw'_def)
  qed
  then obtain svc1 P1 v1 where one: "move_pairwise dn rnds h old new i keys (sr # srs) svc = move_pairwise dn rnds h old new (Suc i) keys srs svc1"
      "has dn h P1 svc1" "objects P1 ''Pairwise'' n = Some v1" "dc_pairwise_from_str (dn_codec dn) v1 = Some pw'"
      "\<forall>t m. t \<noteq> ''Pairwise'' \<or> m \<noteq> n \<longrightarrow> objects P1 t m = objects P t m"
    by blast
  have "objects P1 ''Pairwise'' m = V m" if "m \<in> set ns'" for m
    using that one(5) Cons.prems(4) Cons.prems(6) [of m] ns(1) by (cases "m = n") simp_all
  from IH [OF one(2) this] obtain P' svc' where rest: "move_pairwise dn rnds h old new (Suc i) keys srs svc1 = (Ok (), svc')" "has dn h P' svc'"
      "\<forall>t m. t \<noteq> ''Pairwise'' \<or> m \<notin> set ns' \<longrightarrow> objects P' t m = objects P1 t m"
      "\<forall>m v pw. m \<in> set ns' \<longrightarrow> V m = Some v \<longrightarrow> dc_pairwise_from_str (dn_codec dn) v = Some pw \<longrightarrow>
         (\<exists>v'. objects P' ''Pairwise'' m = Some v' \<and>
           dc_pairwise_from_str (dn_codec dn) v' = Some (if pw_my_did pw = old then pw\<lparr>pw_my_did := new\<rparr> else pw))"
    by auto
  moreover have "objects P' ''Pairwise'' n = Some v1" using rest(3) one(3) Cons.prems(4) ns(1) by simp
  ultimately show ?case using one v ns(1) unfolding one(1)
    by (intro exI [of _ P'] exI [of _ svc']) (auto simp: pw'_def)
qed

end

end
