(* ===== verification/Did_Protocol.thy ===== *)
theory Did_Protocol
  imports Did_Commands
begin

text \<open>
  What the DID commands promise on the default wallet storage: the rotation of a key, keys and endpoints that are
  fetched from the ledger, abbreviated keys and the qualification of a DID.
\<close>

section \<open>Qualification of a DID\<close>


text \<open>
  What the wallet holds after \<open>old\<close> became \<open>new\<close>: the records of the DID under the new name, the relations
  that named the old DID with the new one, everything else as it was.
\<close>

definition did_moved :: "DidEnv \<Rightarrow> DidValue \<Rightarrow> DidValue \<Rightarrow> plain_wallet \<Rightarrow> plain_wallet \<Rightarrow> bool" where
  "did_moved dn old new P P' \<longleftrightarrow>
     (\<forall>t \<in> {''Did'', ''TemporaryDid''}. \<forall>x. did_at dn P t old x \<longrightarrow> did_at dn P' t new (x\<lparr>d_did := new\<rparr>)) \<and>
     (\<forall>t \<in> {''DidMetadata'', ''Endpoint''}. objects P t old \<noteq> None \<longrightarrow> objects P' t new = objects P t old) \<and>
     (\<forall>t \<in> {''Did'', ''TemporaryDid'', ''DidMetadata'', ''Endpoint''}. new \<noteq> old \<longrightarrow> objects P' t old = None) \<and>
     (\<forall>n v pw. objects P ''Pairwise'' n = Some v \<longrightarrow> dc_pairwise_from_str (dn_codec dn) v = Some pw \<longrightarrow>
        (\<exists>v'. objects P' ''Pairwise'' n = Some v' \<and>
           dc_pairwise_from_str (dn_codec dn) v' = Some (if pw_my_did pw = old then pw\<lparr>pw_my_did := new\<rparr> else pw))) \<and>
     (\<forall>n. objects P ''Pairwise'' n = None \<longrightarrow> objects P' ''Pairwise'' n = None) \<and>
     (\<forall>t n. t \<notin> {''Did'', ''TemporaryDid'', ''DidMetadata'', ''Endpoint'', ''Pairwise''} \<or>
        t \<noteq> ''Pairwise'' \<and> n \<noteq> old \<and> n \<noteq> new \<longrightarrow> objects P' t n = objects P t n)"

definition movable :: "DidEnv \<Rightarrow> DidValue \<Rightarrow> DidValue \<Rightarrow> plain_wallet \<Rightarrow> bool" where
  "movable dn old new P \<longleftrightarrow>
     (\<forall>t \<in> {''Did'', ''TemporaryDid'', ''DidMetadata'', ''Endpoint''}. free_for P t old new) \<and> pairwise_ok dn P \<and>
     (\<forall>v. objects P ''TemporaryDid'' old = Some v \<longrightarrow> dc_did_from_str (dn_codec dn) v \<noteq> None)"

context storage_type
begin

lemma move_all_pairwise:
  assumes "did_env_ok dn senv" and "\<And>i. fresh_ok (rnds i)" and "has dn h P svc" and "pairwise_ok dn P"
  shows "\<exists>it P' svc'. search_indy_records (ce_wallet (dn_ce dn)) svc h ''Pairwise'' ''{}'' RECORD_OPTIONS_ID_VALUE = Ok it \<and>
    move_pairwise dn rnds h old new i (wi_keys it) (si_records (wi_storage_iterator it)) svc = (Ok (), svc') \<and> has dn h P' svc' \<and>
    (\<forall>t n. t \<noteq> ''Pairwise'' \<or> objects P ''Pairwise'' n = None \<longrightarrow> objects P' t n = objects P t n) \<and>
    (\<forall>n v pw. objects P ''Pairwise'' n = Some v \<longrightarrow> dc_pairwise_from_str (dn_codec dn) v = Some pw \<longrightarrow>
       (\<exists>v'. objects P' ''Pairwise'' n = Some v' \<and>
         dc_pairwise_from_str (dn_codec dn) v' = Some (if pw_my_did pw = old then pw\<lparr>pw_my_did := new\<rparr> else pw)))"
proof -
  have env: "objects_ok (ce_wallet (dn_ce dn)) senv" using assms(1) by (simp add: did_env_ok_def)
  have opts: "se_search_options senv RECORD_OPTIONS_ID_VALUE =
      Some \<lparr>so_retrieve_records = True, so_retrieve_total_count = False, so_retrieve_type = False, so_retrieve_value = True, so_retrieve_tags = False\<rparr>"
    using env by (simp add: objects_ok_def)
  obtain it ns recs where s: "search_indy_records (ce_wallet (dn_ce dn)) svc h ''Pairwise'' ''{}'' RECORD_OPTIONS_ID_VALUE = Ok it"
      "iterator_records (sv_crypto (ce_wallet (dn_ce dn))) it = Ok recs" "distinct ns" "set ns = {n. objects P ''Pairwise'' n \<noteq> None}"
      "list_all2 (\<lambda>n r. wr_id r = n \<and> wr_value r = objects P ''Pairwise'' n) ns recs"
    by (rule search_objects [OF env assms(3) opts, of "''Pairwise''"]) simp_all
  have known: "\<exists>v pw. objects P ''Pairwise'' n = Some v \<and> dc_pairwise_from_str (dn_codec dn) v = Some pw \<and> pw_their_did pw = n \<and> rust_str n"
    if "n \<in> set ns" for n
    using that s(4) assms(4) objects_text [OF env assms(3), of "''Pairwise''" n] unfolding pairwise_ok_def by auto
  from move_pairwise_open [where V = "objects P ''Pairwise''" and rnds = rnds and ns = ns and recs = recs and old = old and new = new and i = i,
      OF assms(1,2) known s(2) [unfolded iterator_records_map] s(5,3) assms(3)]
  obtain P' svc' where m: "move_pairwise dn rnds h old new i (wi_keys it) (si_records (wi_storage_iterator it)) svc = (Ok (), svc')" "has dn h P' svc'"
      "\<forall>t n. t \<noteq> ''Pairwise'' \<or> n \<notin> set ns \<longrightarrow> objects P' t n = objects P t n"
      "\<forall>n v pw. n \<in> set ns \<longrightarrow> objects P ''Pairwise'' n = Some v \<longrightarrow> dc_pairwise_from_str (dn_codec dn) v = Some pw \<longrightarrow>
       (\<exists>v'. objects P' ''Pairwise'' n = Some v' \<and>
         dc_pairwise_from_str (dn_codec dn) v' = Some (if pw_my_did pw = old then pw\<lparr>pw_my_did := new\<rparr> else pw))"
    by auto
  show ?thesis
    by (rule exI [of _ it], rule exI [of _ P'], rule exI [of _ svc']) (use s(1,4) m in auto)
qed

lemma move_did_record:
  assumes "did_env_ok dn senv" and "has dn h P svc" and "fresh_ok rnd" and "did_at dn P ''Did'' old x" and "free_for P ''Did'' old new" and "rust_str new"
  obtains svc1 json svc' P' where "delete_indy_record (ce_wallet (dn_ce dn)) svc h ''Did'' old = (Ok (), svc1)"
    "add_did dn rnd svc1 h ''Did'' (x\<lparr>d_did := new\<rparr>) = (Ok json, svc')" "has dn h P' svc'" "did_at dn P' ''Did'' new (x\<lparr>d_did := new\<rparr>)"
    "\<forall>t n. t \<noteq> ''Did'' \<or> n \<noteq> old \<and> n \<noteq> new \<longrightarrow> objects P' t n = objects P t n" "new \<noteq> old \<longrightarrow> objects P' ''Did'' old = None"
proof -
  have env: "objects_ok (ce_wallet (dn_ce dn)) senv" using assms(1) by (simp add: did_env_ok_def)
  have there: "objects P ''Did'' old \<noteq> None" using assms(4) by (auto simp: did_at_def)
  obtain svc1 where d: "delete_indy_record (ce_wallet (dn_ce dn)) svc h ''Did'' old = (Ok (), svc1)" "has dn h (remove_object P ''Did'' old) svc1"
    by (rule delete_existing_object [OF env assms(2) there])
  let ?P = "remove_object P ''Did'' old" and ?x = "x\<lparr>d_did := new\<rparr>"
  have free: "objects ?P ''Did'' new = None" using assms(5) there by (auto simp: free_for_def)
  have valid: "rust_str (d_did ?x)" using assms(6) by simp
  obtain json svc2 where a: "dc_did_to_string (dn_codec dn) ?x = Some json" "dc_did_from_str (dn_codec dn) json = Some ?x"
      "add_did dn rnd svc1 h ''Did'' ?x = (if objects ?P ''Did'' (d_did ?x) = None then Ok json else Err WalletItemAlreadyExists, svc2)"
      "has dn h (if objects ?P ''Did'' (d_did ?x) = None then put_object ?P ''Did'' (d_did ?x) json else ?P) svc2"
    by (rule add_did_open [OF assms(1) d(2) assms(3) rust_str_types(1) valid])
  show thesis
    by (rule that [of svc1 json svc2 "put_object ?P ''Did'' new json"]) (use a d(1) free in \<open>auto simp: did_at_def\<close>)
qed

lemma qualify_moves:
  assumes "did_env_ok dn senv" and "has dn h P svc" and "did_draws_ok d" and "did_at dn P ''Did'' did x" and "rust_str new"
    and "new = did_new (did_to_short did) (Some m)" and "movable dn did new P"
  shows "\<exists>P' svc'. qualify_did dn d svc h did m = (Ok new, svc') \<and> has dn h P' svc' \<and> did_moved dn did new P P'"
proof -
  have fresh: "fresh_ok (dd_records d i)" for i using assms(3) by (simp add: did_draws_ok_def)
  have free: "free_for P ''Did'' did new" "free_for P ''TemporaryDid'' did new" "free_for P ''DidMetadata'' did new" "free_for P ''Endpoint'' did new"
    and pairs: "pairwise_ok dn P" and temp: "\<And>v. objects P ''TemporaryDid'' did = Some v \<Longrightarrow> dc_did_from_str (dn_codec dn) v \<noteq> None"
    using assms(7) by (auto simp: movable_def)
  obtain svc0 json svc1 P1 where A: "delete_indy_record (ce_wallet (dn_ce dn)) svc h ''Did'' did = (Ok (), svc0)"
      "add_did dn (dd_records d 0) svc0 h ''Did'' (x\<lparr>d_did := new\<rparr>) = (Ok json, svc1)" "has dn h P1 svc1" "did_at dn P1 ''Did'' new (x\<lparr>d_did := new\<rparr>)"
      "\<forall>t n. t \<noteq> ''Did'' \<or> n \<noteq> did \<and> n \<noteq> new \<longrightarrow> objects P1 t n = objects P t n" "new \<noteq> did \<longrightarrow> objects P1 ''Did'' did = None"
    by (rule move_did_record [OF assms(1,2) fresh [of 0] assms(4) free(1) assms(5)])
  have temp1: "dc_did_from_str (dn_codec dn) v \<noteq> None" if "objects P1 ''TemporaryDid'' did = Some v" for v using that temp A(5) by simp
  have free1: "free_for P1 ''TemporaryDid'' did new" using free(2) A(5) by (simp add: free_for_def)
  obtain P2 svc2 where B: "move_temporary_did dn (dd_records d 1) svc1 h did new = (Ok (), svc2)" "has dn h P2 svc2"
    "\<forall>t n. t \<noteq> ''TemporaryDid'' \<or> objects P1 ''TemporaryDid'' did = None \<or> n \<noteq> did \<and> n \<noteq> new \<longrightarrow> objects P2 t n = objects P1 t n"
    "\<forall>x. did_at dn P1 ''TemporaryDid'' did x \<longrightarrow> did_at dn P2 ''TemporaryDid'' new (x\<lparr>d_did := new\<rparr>)"
    "new \<noteq> did \<longrightarrow> objects P2 ''TemporaryDid'' did = None"
    by (rule move_temporary [OF assms(1) A(3) fresh [of 1] free1 assms(5) temp1])
  have free2: "free_for P2 ''DidMetadata'' did new" using free(3) A(5) B(3) by (simp add: free_for_def)
  obtain P3 svc3 where C: "update_dependent_entity_reference dn (dd_records d 2) svc2 h ''DidMetadata'' did new = (Ok (), svc3)" "has dn h P3 svc3"
    "\<forall>t n. objects P3 t n = (if t = ''DidMetadata'' \<and> objects P2 ''DidMetadata'' did \<noteq> None
       then (if n = new then objects P2 ''DidMetadata'' did else if n = did then None else objects P2 t n) else objects P2 t n)"
    by (rule move_record [OF assms(1) B(2) fresh [of 2] free2 rust_str_types(4) assms(5)])
  have free3: "free_for P3 ''Endpoint'' did new" using free(4) A(5) B(3) C(3) by (simp add: free_for_def)
  obtain P4 svc4 where D: "update_dependent_entity_reference dn (dd_records d 3) svc3 h ''Endpoint'' did new = (Ok (), svc4)" "has dn h P4 svc4"
    "\<forall>t n. objects P4 t n = (if t = ''Endpoint'' \<and> objects P3 ''Endpoint'' did \<noteq> None
       then (if n = new then objects P3 ''Endpoint'' did else if n = did then None else objects P3 t n) else objects P3 t n)"
    by (rule move_record [OF assms(1) C(2) fresh [of 3] free3 rust_str_types(5) assms(5)])
  have other: "objects P4 t n = objects P t n" if "t \<notin> {''Did'', ''TemporaryDid'', ''DidMetadata'', ''Endpoint''} \<or> n \<noteq> did \<and> n \<noteq> new" for t n
  proof -
    have "objects P4 t n = objects P2 t n" using that by (auto simp: C(3) D(3))
    also have "\<dots> = objects P1 t n" using that B(3) by blast
    also have "\<dots> = objects P t n" using that A(5) by blast
    finally show ?thesis .
  qed
  have "pairwise_ok dn P4" using pairs other unfolding pairwise_ok_def by simp
  from move_all_pairwise [where rnds = "dd_records d" and old = did and new = new and i = 4, OF assms(1) fresh D(2) this] obtain it P5 svc5 where
    E: "search_indy_records (ce_wallet (dn_ce dn)) svc4 h ''Pairwise'' ''{}'' RECORD_OPTIONS_ID_VALUE = Ok it"
      "move_pairwise dn (dd_records d) h did new 4 (wi_keys it) (si_records (wi_storage_iterator it)) svc4 = (Ok (), svc5)" "has dn h P5 svc5"
      "\<forall>t n. t \<noteq> ''Pairwise'' \<or> objects P4 ''Pairwise'' n = None \<longrightarrow> objects P5 t n = objects P4 t n"
      "\<forall>n v pw. objects P4 ''Pairwise'' n = Some v \<longrightarrow> dc_pairwise_from_str (dn_codec dn) v = Some pw \<longrightarrow>
       (\<exists>v'. objects P5 ''Pairwise'' n = Some v' \<and>
         dc_pairwise_from_str (dn_codec dn) v' = Some (if pw_my_did pw = did then pw\<lparr>pw_my_did := new\<rparr> else pw))"
    by (elim exE conjE, intro that)
  have "qualify_did dn d svc h did m = (Ok new, svc5)"
    using A(1,2) B(1) C(1) D(1) E(1,2) load_did_at [OF assms(1,2,4)] by (simp add: qualify_did_def validate_did_def Let_def flip: assms(6))
  moreover have "did_moved dn did new P P5"
  proof -
    have keep: "objects P5 t n = objects P4 t n" if "t \<noteq> ''Pairwise''" for t n using E(4) that by blast
    have dids: "did_at dn P5 t n y \<longleftrightarrow> did_at dn P2 t n y" if "t \<in> {''Did'', ''TemporaryDid''}" for t n y
    proof -
      have "objects P5 t n = objects P2 t n" using that by (auto simp: keep C(3) D(3))
      then show ?thesis by (simp add: did_at_def)
    qed
    have 1: "did_at dn P5 ''Did'' new (y\<lparr>d_did := new\<rparr>)" if "did_at dn P ''Did'' did y" for y
      using that assms(4) A(4) dids B(3) [rule_format, of "''Did''"] by (auto simp: did_at_def)
    have 2: "did_at dn P5 ''TemporaryDid'' new (y\<lparr>d_did := new\<rparr>)" if "did_at dn P ''TemporaryDid'' did y" for y
      using that B(4) [rule_format, of y] A(5) [rule_format, of "''TemporaryDid''" did] dids by (simp add: did_at_def)
    have 3: "objects P5 t new = objects P t did" if "t \<in> {''DidMetadata'', ''Endpoint''}" "objects P t did \<noteq> None" for t
      using that B(3) [rule_format, of t did] A(5) [rule_format, of t did] by (auto simp: keep C(3) D(3))
    have 4: "objects P5 t did = None" if "t \<in> {''Did'', ''TemporaryDid'', ''DidMetadata'', ''Endpoint''}" "new \<noteq> did" for t
      using that B(3) [rule_format, of t did] A(5) [rule_format, of t did] A(6) B(5) by (auto simp: keep C(3) D(3))
    have 5: "objects P4 ''Pairwise'' n = objects P ''Pairwise'' n" for n by (rule other) simp
    have 6: "objects P5 t n = objects P t n" if "t \<notin> {''Did'', ''TemporaryDid'', ''DidMetadata'', ''Endpoint'', ''Pairwise''} \<or>
        t \<noteq> ''Pairwise'' \<and> n \<noteq> did \<and> n \<noteq> new" for t n
      using that keep [of t n] other [of t n] by auto
    have 7: "objects P5 ''Pairwise'' n = None" if "objects P ''Pairwise'' n = None" for n using that E(4) 5 by simp
    have 8: "\<forall>x. did_at dn P t did x \<longrightarrow> did_at dn P5 t new (x\<lparr>d_did := new\<rparr>)" if "t \<in> {''Did'', ''TemporaryDid''}" for t
      using that 1 2 by auto
    show ?thesis
      unfolding did_moved_def
      by (intro conjI ballI allI impI; (rule 8 [rule_format] 3 4 E(5) [unfolded 5, rule_format] 7 6; assumption))
  qed
  ultimately show ?thesis using E(3) by blast
qed

text \<open>The record of the DID is deleted before the new one is added.\<close>

lemma qualify_collides:
  assumes "did_env_ok dn senv" and "has dn h P svc" and "did_draws_ok d" and "did_at dn P ''Did'' did x" and "rust_str new"
    and "new = did_new (did_to_short did) (Some m)" and "new \<noteq> did" and "objects P ''Did'' new \<noteq> None"
  shows "\<exists>svc'. qualify_did dn d svc h did m = (Err WalletItemAlreadyExists, svc') \<and> has dn h (remove_object P ''Did'' did) svc'"
proof -
  have env: "objects_ok (ce_wallet (dn_ce dn)) senv" using assms(1) by (simp add: did_env_ok_def)
  have fresh: "fresh_ok (dd_records d 0)" using assms(3) by (simp add: did_draws_ok_def)
  have there: "objects P ''Did'' did \<noteq> None" using assms(4) by (auto simp: did_at_def)
  obtain svc1 where d: "delete_indy_record (ce_wallet (dn_ce dn)) svc h ''Did'' did = (Ok (), svc1)" "has dn h (remove_object P ''Did'' did) svc1"
    by (rule delete_existing_object [OF env assms(2) there])
  let ?P = "remove_object P ''Did'' did" and ?x = "x\<lparr>d_did := new\<rparr>"
  have valid: "rust_str (d_did ?x)" using assms(5) by simp
  obtain json svc2 where a: "dc_did_to_string (dn_codec dn) ?x = Some json" "dc_did_from_str (dn_codec dn) json = Some ?x"
      "add_did dn (dd_records d 0) svc1 h ''Did'' ?x = (if objects ?P ''Did'' (d_did ?x) = None then Ok json else Err WalletItemAlreadyExists, svc2)"
      "has dn h (if objects ?P ''Did'' (d_did ?x) = None then put_object ?P ''Did'' (d_did ?x) json else ?P) svc2"
    by (rule add_did_open [OF assms(1) d(2) fresh rust_str_types(1) valid])
  show ?thesis
    by (rule exI [of _ svc2])
      (use a(3,4) d(1) assms(7,8) load_did_at [OF assms(1,2,4)] in \<open>simp add: qualify_did_def validate_did_def Let_def flip: assms(6)\<close>)
qed

end

section \<open>A new DID\<close>

lemma created_agent_key:
  assumes "command_env_ok ce" and "length random = SEEDBYTES" and "create_key (ce_crypto ce) (ce_text ce) random info = Ok key"
  shows "agent_key ce key"
proof -
  have env: "ce_crypto ce = crypto_service_new (ce_sodium ce)" "sodium_ok (ce_sodium ce)" "codec_ok (ce_text ce)"
    using assms(1) by (simp_all add: command_env_ok_def)
  have type: "ki_crypto_type info = None \<or> ki_crypto_type info = Some DEFAULT_CRYPTO_TYPE"
  proof (rule ccontr)
    assume "\<not> ?thesis"
    then obtain n where "ki_crypto_type info = Some n" "n \<noteq> DEFAULT_CRYPTO_TYPE" by auto
    with assms(3) env(1) show False by (simp add: create_key_def find_unknown)
  qed
  obtain s where s: "convert_seed (tx_seed (ce_text ce)) (ki_seed info) = Ok s"
    using assms(3) by (auto simp: create_key_def Let_def)
  obtain key' where "create_key (ce_crypto ce) (ce_text ce) random info = Ok key'" "agent_key ce key'"
    unfolding env(1) by (rule create_key_ok [OF env(2,3) assms(2) type s])
  with assms(3) show ?thesis by simp
qed

lemma created_did_key:
  assumes "create_my_did cs tx random info = Ok (did, key)"
  shows "d_verkey did = k_verkey key \<and>
    create_key cs tx random \<lparr>ki_seed = mi_seed info, ki_crypto_type = mi_crypto_type info\<rparr> = Ok key"
  using assms by (auto simp: create_my_did_def create_key_def Let_def split: option.splits if_splits)

context storage_type
begin

lemma my_did_kept:
  assumes "did_env_ok dn senv" and "has dn h P svc" and "create_my_did (ce_crypto (dn_ce dn)) (ce_text (dn_ce dn)) (dd_seed d) info = Ok (did, key)"
    and "did_at dn P ''Did'' (d_did did) current"
  shows "create_and_store_my_did dn d svc h info =
    (if d_verkey did = d_verkey current then Ok (d_did did, d_verkey did) else Err DIDAlreadyExists, svc)"
  by (simp add: create_and_store_my_did_def assms(3) load_did_at [OF assms(1,2,4)])

lemma my_did_stored:
  assumes "did_env_ok dn senv" and "has dn h P svc" and "did_draws_ok d" and "create_my_did (ce_crypto (dn_ce dn)) (ce_text (dn_ce dn)) (dd_seed d) info = Ok (did, key)"
    and "rust_str (d_did did)" and "objects P ''Did'' (d_did did) = None" and "objects P ''Key'' (k_verkey key) = None"
  obtains P' svc' where "create_and_store_my_did dn d svc h info = (Ok (d_did did, d_verkey did), svc')" "has dn h P' svc'"
    "did_at dn P' ''Did'' (d_did did) did" "has_key (dn_ce dn) P' key"
    "\<forall>t n. (t, n) \<notin> {(''Did'', d_did did), (''Key'', k_verkey key)} \<longrightarrow> objects P' t n = objects P t n"
proof -
  have fresh: "fresh_ok (dd_records d i)" and seed: "length (dd_seed d) = SEEDBYTES" for i using assms(3) by (simp_all add: did_draws_ok_def)
  have "command_env_ok (dn_ce dn)" using assms(1) by (simp add: did_env_ok_def)
  then have key: "agent_key (dn_ce dn) key" using created_agent_key seed created_did_key [OF assms(4)] by blast
  obtain json svc1 where a: "dc_did_to_string (dn_codec dn) did = Some json" "dc_did_from_str (dn_codec dn) json = Some did"
      "add_did dn (dd_records d 0) svc h ''Did'' did = (if objects P ''Did'' (d_did did) = None then Ok json else Err WalletItemAlreadyExists, svc1)"
      "has dn h (if objects P ''Did'' (d_did did) = None then put_object P ''Did'' (d_did did) json else P) svc1"
    by (rule add_did_open [OF assms(1,2) fresh rust_str_types(1) assms(5)])
  let ?P = "put_object P ''Did'' (d_did did) json"
  have w1: "has dn h ?P svc1" using a(4) assms(6) by simp
  obtain kj svc2 where k: "mc_key_to_string (ce_msg (dn_ce dn)) key = Some kj"
      "add_key dn (dd_records d 1) svc1 h key = (if objects ?P ''Key'' (k_verkey key) = None then Ok kj else Err WalletItemAlreadyExists, svc2)"
      "has dn h (if objects ?P ''Key'' (k_verkey key) = None then put_object ?P ''Key'' (k_verkey key) kj else ?P) svc2"
    by (rule add_key_open [OF assms(1) w1 fresh key])
  have none: "load_did dn svc h ''Did'' (d_did did) = Err WalletItemNotFound" using assms(6) by (simp add: load_did_open [OF assms(1,2)])
  show ?thesis
    by (rule that [of svc2 "put_object ?P ''Key'' (k_verkey key) kj"])
      (use assms(4,6,7) a k none in \<open>auto simp: create_and_store_my_did_def did_at_def has_key_def\<close>)
qed

section \<open>A command that waits for the ledger\<close>

lemma key_for_did_waits:
  assumes "did_env_ok dn senv" and "has dn h P (dx_service dx)" and "\<not> dx_borrowed dx" and "objects P ''Did'' did = None" and "objects P ''TheirDid'' did = None"
  shows "\<exists>i dx1. did_execute dn d (DC_KeyForDid pool h did cb) dx = Ok dx1 \<and> has dn h P (dx_service dx1) \<and> dx_called dx1 = dx_called dx \<and>
    (hm_wf (dx_deferred dx) \<longrightarrow> hm_wf (dx_deferred dx1)) \<and> hm_get (dx_deferred dx1) i = Some (DC_KeyForDid pool h did cb) \<and>
    dx_ledger dx1 = dx_ledger dx @ [Get_Nym pool (did_to_short did) (\<lambda>result. DC_GetNymAck h did result i)]"
  using assms(2,3) by (intro exI) (auto simp: key_for_did_unknown [OF assms(1,2,4,5)] fetch_defers)

lemma endpoint_waits:
  assumes "did_env_ok dn senv" and "has dn h P (dx_service dx)" and "\<not> dx_borrowed dx" and "objects P ''Endpoint'' did = None"
  shows "\<exists>i dx1. did_execute dn d (DC_GetEndpointForDid h pool did cb) dx = Ok dx1 \<and> has dn h P (dx_service dx1) \<and> dx_called dx1 = dx_called dx \<and>
    (hm_wf (dx_deferred dx) \<longrightarrow> hm_wf (dx_deferred dx1)) \<and> hm_get (dx_deferred dx1) i = Some (DC_GetEndpointForDid h pool did cb) \<and>
    dx_ledger dx1 = dx_ledger dx @ [Get_Attrib pool (did_to_short did) ''endpoint'' (\<lambda>result. DC_GetAttribAck h result i)]"
  using assms(2,3) by (intro exI) (auto simp: get_endpoint_unknown [OF assms(1,2,4)] fetch_defers)

end

section \<open>A sample instance\<close>

definition sample_did_codec :: DidCodec where
  "sample_did_codec =
     \<lparr>dc_did_to_string = \<lambda>d. Some (sample_fields [d_did d, d_verkey d]),
      dc_did_from_str = \<lambda>s. case sample_unfields s of Some [a, b] \<Rightarrow> Some \<lparr>d_did = a, d_verkey = b\<rparr> | _ \<Rightarrow> None,
      dc_metadata_to_string = \<lambda>m. Some (sample_fields [m]),
      dc_metadata_from_str = \<lambda>s. case sample_unfields s of Some [m] \<Rightarrow> Some m | _ \<Rightarrow> None,
      dc_endpoint_to_string = \<lambda>e. Some (sample_fields [en_ha e, option_field (en_verkey e)]),
      dc_endpoint_from_str = \<lambda>s. case sample_unfields s of Some [a, v] \<Rightarrow> Some \<lparr>en_ha = a, en_verkey = field_option v\<rparr> | _ \<Rightarrow> None,
      dc_pairwise_to_string = \<lambda>p. Some (sample_fields [pw_my_did p, pw_their_did p, option_field (pw_metadata p)]),
      dc_pairwise_from_str = \<lambda>s. case sample_unfields s of
        Some [a, b, m] \<Rightarrow> Some \<lparr>pw_my_did = a, pw_their_did = b, pw_metadata = field_option m\<rparr> | _ \<Rightarrow> None,
      dc_with_meta_to_string = \<lambda>d. Some (dm_did d), dc_with_metas_to_string = \<lambda>ds. Some (concat (map dm_did ds)),
      dc_nym_reply_from_str = \<lambda>s. if s = [] then None else Some (LReplyV1 [GetNymReplyResultV1 s None]),
      dc_nym_data_from_str = \<lambda>s. Some (s, None),
      dc_attr_reply_from_str = \<lambda>s. Some (LReplyV0 (GetAttrReplyResultV0 ''ha'' s)),
      dc_attrib_data_from_str = \<lambda>s. Some \<lparr>en_ha = s, en_verkey = None\<rparr>\<rparr>"

definition sample_dn :: DidEnv where
  "sample_dn = \<lparr>dn_ce = sample_ce, dn_codec = sample_did_codec\<rparr>"

lemma sample_dn_ok: "did_env_ok sample_dn object_storage_env"
  by (simp add: did_env_ok_def sample_dn_def sample_ce_ok did_codec_ok_def sample_did_codec_def sample_unfields_fields sample_fields_text)

definition sample_did_draws :: "8 word \<Rightarrow> DidDraws" where
  "sample_did_draws b = \<lparr>dd_seed = replicate 32 b, dd_records = \<lambda>_. (replicate 32 1, replicate 12 1, replicate 12 2)\<rparr>"

lemma sample_did_draws_ok: "did_draws_ok (sample_did_draws b)"
  by (simp add: did_draws_ok_def sample_did_draws_def SEEDBYTES_def fresh_ok_def KEYBYTES_def NONCEBYTES_def)

abbreviation sample_has :: "plain_wallet \<Rightarrow> (string \<times> string, SqliteDb) WalletService \<Rightarrow> bool" where
  "sample_has P svc \<equiv> wallet_open sqlite_ok sqlite_content (ce_wallet (dn_ce sample_dn)) object_type 1 P svc"

lemma sample_has_empty: "sample_has (\<lambda>_ _. None) object_service"
  using sample_wallet_open by (simp add: sample_dn_def sample_ce_def)

lemma objects_empty [simp]: "objects (\<lambda>_ _. None) t n = None"
  by (simp add: objects_def)

text \<open>A wallet with one more DID.\<close>

lemma sample_with_did:
  assumes "sample_has P svc" and "rust_str did" and "objects P ''Did'' did = None"
  obtains json svc' where "dc_did_from_str sample_did_codec json = Some \<lparr>d_did = did, d_verkey = vk\<rparr>" "sample_has (put_object P ''Did'' did json) svc'"
proof -
  let ?did = "\<lparr>d_did = did, d_verkey = vk\<rparr>"
  have rnd: "fresh_ok (replicate 32 1, replicate 12 1, replicate 12 2)" by (simp add: fresh_ok_def KEYBYTES_def NONCEBYTES_def)
  have valid: "rust_str (d_did ?did)" using assms(2) by simp
  from sqlite_ty.add_did_open [OF sample_dn_ok assms(1) [unfolded object_type_def] rnd rust_str_types(1) valid, folded object_type_def] assms(3) that
  show ?thesis by (auto simp: sample_dn_def)
qed

lemma sample_encode_text: "rust_str (sample_encode bs)"
  using sample_encode_chars by (intro rust_str_ascii) force

section \<open>Properties\<close>

text \<open>
  C17: A key is rotated in two steps. For a DID of the wallet without a pending rotation and a new key that the wallet does not
  have, \<open>replace_keys_start\<close> returns the new key while the DID keeps its old one; \<open>replace_keys_apply\<close> then makes the new key the key of
  the DID, with which messages can be signed that verify, and a second \<open>replace_keys_apply\<close> finds nothing to apply and changes nothing.
\<close>

theorem key_rotation:
  assumes "did_env_ok dn senv" and "wallet_open sqlite_ok sqlite_content (ce_wallet (dn_ce dn)) (sqlite_type senv tenv) h P svc"
    and "did_draws_ok d" and "did_draws_ok d'"
    and "did_at dn P ''Did'' did \<lparr>d_did = did, d_verkey = vk\<rparr>" and "rust_str did" and "objects P ''TemporaryDid'' did = None"
    and "create_key (ce_crypto (dn_ce dn)) (ce_text (dn_ce dn)) (dd_seed d) info = Ok key" and "objects P ''Key'' (k_verkey key) = None"
  shows "\<exists>svc1 svc2. replace_keys_start dn d svc h info did = (Ok (k_verkey key), svc1) \<and> key_for_local_did dn svc1 h did = Ok vk \<and>
    replace_keys_apply dn d' svc1 h did = (Ok (), svc2) \<and> key_for_local_did dn svc2 h did = Ok (k_verkey key) \<and>
    replace_keys_apply dn d' svc2 h did = (Err WalletItemNotFound, svc2) \<and>
    (\<forall>msg. \<exists>signature. cmd_crypto_sign (dn_ce dn) svc2 h (k_verkey key) msg = Ok signature \<and>
       cmd_crypto_verify (dn_ce dn) (k_verkey key) msg signature = Ok True)"
proof -
  have "agent_key (dn_ce dn) key"
    by (rule created_agent_key [OF _ _ assms(8)]) (use assms(1,3) in \<open>simp_all add: did_env_ok_def did_draws_ok_def\<close>)
  then show ?thesis by (rule sqlite_ty.rotate_key [OF assms(1-8) _ assms(9)])
qed

theorem key_rotation_witness:
  "\<exists>svc svc1 svc2. key_for_local_did sample_dn (svc :: (string \<times> string, SqliteDb) WalletService) 1 ''d'' = Ok ''old'' \<and>
     replace_keys_start sample_dn (sample_did_draws 3) svc 1 \<lparr>ki_seed = None, ki_crypto_type = None\<rparr> ''d'' = (Ok (sample_encode (replicate 32 3)), svc1) \<and>
     replace_keys_apply sample_dn (sample_did_draws 4) svc1 1 ''d'' = (Ok (), svc2) \<and>
     key_for_local_did sample_dn svc2 1 ''d'' = Ok (sample_encode (replicate 32 3))"
proof -
  obtain json svc where s: "dc_did_from_str sample_did_codec json = Some \<lparr>d_did = ''d'', d_verkey = ''old''\<rparr>"
      "sample_has (put_object (\<lambda>_ _. None) ''Did'' ''d'' json) svc"
    by (rule sample_with_did [OF sample_has_empty, of "''d''"]) (simp_all add: rust_str_def)
  let ?P = "put_object (\<lambda>_ _. None) ''Did'' ''d'' json" and ?info = "\<lparr>ki_seed = None, ki_crypto_type = None\<rparr>"
  obtain sk where k: "create_key (ce_crypto (dn_ce sample_dn)) (ce_text (dn_ce sample_dn)) (dd_seed (sample_did_draws 3)) ?info =
      Ok \<lparr>k_verkey = sample_encode (replicate 32 3), k_signkey = sk\<rparr>"
    by (simp add: create_key_def sample_dn_def sample_ce_def find_default ed25519_type_def create_key_pair_for_signature_def convert_seed_def
        from_slice_def sample_sodium_def sample_tx_def named_verkey_def sample_did_draws_def SEEDBYTES_def)
  have at: "did_at sample_dn ?P ''Did'' ''d'' \<lparr>d_did = ''d'', d_verkey = ''old''\<rparr>" using s(1) by (simp add: did_at_def sample_dn_def)
  have "key_for_local_did sample_dn svc 1 ''d'' = Ok ''old''"
    using sqlite_ty.key_for_local_did_at [OF sample_dn_ok s(2) [unfolded object_type_def] at] by simp
  with key_rotation [OF sample_dn_ok s(2) [unfolded object_type_def] sample_did_draws_ok sample_did_draws_ok [of 4] at _ _ k]
  show ?thesis by - (rule exI [of _ svc], auto simp: rust_str_def)
qed




definition sample_dx :: "(string \<times> string, SqliteDb) DidExecutor" where
  "sample_dx = \<lparr>dx_service = object_service, dx_deferred = [], dx_borrowed = False, dx_ledger = [], dx_called = []\<rparr>"

lemma sample_dx_has: "sample_has (\<lambda>_ _. None) (dx_service sample_dx)" "\<not> dx_borrowed sample_dx" "hm_wf (dx_deferred sample_dx)"
  using sample_has_empty by (simp_all add: sample_dx_def hm_wf_def)

text \<open>The reply of the sample ledger for a DID that is its own key.\<close>

lemma sample_fetched:
  assumes "length bs = 32"
  shows "fetched_their_did sample_dn (sample_encode bs) (Ok (sample_encode bs)) = Ok \<lparr>d_did = sample_encode bs, d_verkey = sample_encode bs\<rparr>"
proof -
  have "codec_ok sample_tx" by (rule sample_tx_ok)
  then have b58: "base58_ok sample_decode sample_encode" by (simp add: codec_ok_def sample_tx_def)
  note chars = base58_chars [OF b58 sample_decode_encode, of bs]
  have none: "captures (sample_encode bs) = None" by (rule captures_no_colon [OF chars(1)])
  have "sample_encode bs \<noteq> []" using assms by (cases bs) auto
  moreover have "\<not> starts_with (sample_encode bs) ''~''" using chars by (cases "sample_encode bs") auto
  ultimately show ?thesis
    using assms chars(1)
    by (simp add: fetched_their_did_def sample_dn_def sample_did_codec_def nym_their_did_info_def short_did_qualify_def method_of_def none
        create_their_did_def validate_did_def to_unqualified_def build_full_verkey_def validate_key_def split_verkey_plain sample_ce_def find_default
        decode_b58_def sample_tx_def sample_decode_encode from_slice_def SIG_PUBLICKEYBYTES_def ed25519_type_def)
qed


text \<open>
  C40: The endpoint of a DID is fetched likewise, but the reply is stored under the short DID it names. So the command answers its callback once only for a
  short DID. For a fully qualified DID, the reply about its short form is stored, the deferred command does not find the endpoint, asks again
  and panics, since the table of deferred commands is borrowed while it runs.
\<close>

theorem endpoint_fetched_from_ledger:
  assumes "did_env_ok dn senv" and "wallet_open sqlite_ok sqlite_content (ce_wallet (dn_ce dn)) (sqlite_type senv tenv) h P (dx_service dx)"
    and "\<not> dx_borrowed dx" and "hm_wf (dx_deferred dx)" and "objects P ''Endpoint'' did = None" and "objects P ''Endpoint'' (did_to_short did) = None"
    and "did_draws_ok d'" and "fetched_endpoint dn result = Ok (did_to_short did, x)" and "rust_str (did_to_short did)"
  shows "\<exists>i dx1. did_execute dn d (DC_GetEndpointForDid h pool did cb) dx = Ok dx1 \<and> dx_called dx1 = dx_called dx \<and>
    dx_ledger dx1 = dx_ledger dx @ [Get_Attrib pool (did_to_short did) ''endpoint'' (\<lambda>result. DC_GetAttribAck h result i)] \<and>
    (if did_to_short did = did
     then \<exists>dx2. did_execute dn d' (DC_GetAttribAck h result i) dx1 = Ok dx2 \<and> hm_get (dx_deferred dx2) i = None \<and>
       dx_called dx2 = dx_called dx @ [(cb, DA_Endpoint (Ok (en_ha x, en_verkey x)))]
     else did_execute dn d' (DC_GetAttribAck h result i) dx1 = Panic)"
proof -
  obtain i dx1 where w: "did_execute dn d (DC_GetEndpointForDid h pool did cb) dx = Ok dx1"
      "wallet_open sqlite_ok sqlite_content (ce_wallet (dn_ce dn)) (sqlite_type senv tenv) h P (dx_service dx1)" "dx_called dx1 = dx_called dx"
      "hm_wf (dx_deferred dx1)" "hm_get (dx_deferred dx1) i = Some (DC_GetEndpointForDid h pool did cb)"
      "dx_ledger dx1 = dx_ledger dx @ [Get_Attrib pool (did_to_short did) ''endpoint'' (\<lambda>result. DC_GetAttribAck h result i)]"
    using sqlite_ty.endpoint_waits [OF assms(1,2,3,5)] assms(4) by blast
  from sqlite_ty.attrib_ack [where result = result, OF assms(1) w(2) assms(7) w(5) assms(5)] w show ?thesis
    by - (rule exI [of _ i], rule exI [of _ dx1], auto simp: assms(6,8,9) did_call_def hm_get_remove simp del: did_execute.simps split: if_splits)
qed

theorem endpoint_fetched_from_ledger_witness:
  "(\<exists>i dx1 dx2. did_execute sample_dn (sample_did_draws 1) (DC_GetEndpointForDid 1 5 ''x'' 7) sample_dx = Ok dx1 \<and>
     did_execute sample_dn (sample_did_draws 2) (DC_GetAttribAck 1 (Ok ''x'') i) dx1 = Ok dx2 \<and> dx_called dx2 = [(7, DA_Endpoint (Ok (''ha'', None)))]) \<and>
   (\<exists>i dx1. did_execute sample_dn (sample_did_draws 1) (DC_GetEndpointForDid 1 5 ''did:sov:x'' 7) sample_dx = Ok dx1 \<and>
     did_execute sample_dn (sample_did_draws 2) (DC_GetAttribAck 1 (Ok ''x'') i) dx1 = Panic)"
proof -
  have short: "did_to_short ''x'' = ''x''" "did_to_short ''did:sov:x'' = ''x''" by code_simp+
  have f: "fetched_endpoint sample_dn (Ok ''x'') = Ok (did_to_short ''x'', \<lparr>en_ha = ''ha'', en_verkey = None\<rparr>)"
      "fetched_endpoint sample_dn (Ok ''x'') = Ok (did_to_short ''did:sov:x'', \<lparr>en_ha = ''ha'', en_verkey = None\<rparr>)"
    by (simp_all add: short fetched_endpoint_def sample_dn_def sample_did_codec_def)
  have called: "dx_called sample_dx = []" by (simp add: sample_dx_def)
  note use = endpoint_fetched_from_ledger [OF sample_dn_ok sample_dx_has(1) [unfolded object_type_def] sample_dx_has(2,3) _ _ sample_did_draws_ok [of 2]]
  from use [OF _ _ f(1), of "sample_did_draws 1" 5 7] use [OF _ _ f(2), of "sample_did_draws 1" 5 7] show ?thesis
    by (simp add: short called rust_str_def del: did_execute.simps) blast
qed


text \<open>
  A key that was abbreviated with its DID is the key again when it is expanded. \<open>abbreviate_verkey\<close> never panics, and for a key that is not
  already abbreviated the result, put together with the short DID by \<open>build_full_verkey\<close> as the readers of NYM replies do, is the key.
\<close>

theorem abbreviated_key_expands:
  assumes "codec_ok tx"
  shows "abbreviate_verkey (crypto_service_new so) tx did verkey \<noteq> Panic \<and>
    (\<forall>r. abbreviate_verkey (crypto_service_new so) tx did verkey = Ok r \<longrightarrow> \<not> starts_with verkey ''~'' \<longrightarrow>
       build_full_verkey (tx_from_b58 tx) (tx_to_b58 tx) (did_to_short did) (Some r) = Ok verkey)"
  using abbreviate_no_panic [OF assms] abbreviate_expands [OF assms] by (simp add: did_to_short_def)

theorem abbreviated_key_expands_witness:
  "abbreviate_verkey (crypto_service_new sample_sodium) sample_tx (sample_encode (replicate 16 7)) (sample_encode (replicate 32 7)) =
     Ok (''~'' @ sample_encode (replicate 16 7)) \<and>
   build_full_verkey sample_decode sample_encode (did_to_short (sample_encode (replicate 16 7))) (Some (''~'' @ sample_encode (replicate 16 7))) =
     Ok (sample_encode (replicate 32 7))"
proof -
  define d v where "d = sample_encode (replicate 16 7)" and "v = sample_encode (replicate 32 7)"
  have dv: "sample_decode d = Some (replicate 16 7)" "sample_decode v = Some (replicate 32 7)" by (simp_all only: d_def v_def sample_decode_encode)
  have "codec_ok sample_tx" by (rule sample_tx_ok)
  then have b58: "base58_ok sample_decode sample_encode" by (simp add: codec_ok_def sample_tx_def)
  note cd = base58_chars [OF b58 dv(1)] and cv = base58_chars [OF b58 dv(2)]
  have none: "captures d = None" by (rule captures_no_colon [OF cd(1)])
  have tilde: "\<not> starts_with v ''~''" using cv by (cases v) auto
  have a: "abbreviate_verkey (crypto_service_new sample_sodium) sample_tx d v = Ok (''~'' @ d)"
    using dv tilde cv(1)
    by (simp add: abbreviate_verkey_def validate_did_def validate_key_def split_verkey_plain find_default decode_b58_def from_slice_def
        SIG_PUBLICKEYBYTES_def ed25519_type_def is_abbreviatable_def method_of_def none to_unqualified_def sample_tx_def flip: d_def)
  with abbreviated_key_expands [OF sample_tx_ok, of sample_sodium d v] tilde show ?thesis
    unfolding d_def [symmetric] v_def [symmetric] by (simp add: sample_tx_def)
qed

text \<open>
  C37: Qualifying a DID renames it everywhere. When the new name is free, \<open>qualify_did\<close> returns the fully qualified DID, and the wallet
  has the DID, its pending key, its metadata and its endpoint under the new name and not under the old, every pairwise relation of the old DID
  names the new one, and all other records are as they were; the key of the new DID is the key of the old.
\<close>

theorem qualify_did_renames:
  assumes "did_env_ok dn senv" and "wallet_open sqlite_ok sqlite_content (ce_wallet (dn_ce dn)) (sqlite_type senv tenv) h P svc"
    and "did_draws_ok d" and "did_at dn P ''Did'' did x" and "rust_str (did_new (did_to_short did) (Some m))"
    and "movable dn did (did_new (did_to_short did) (Some m)) P"
  shows "\<exists>P' svc'. qualify_did dn d svc h did m = (Ok (did_new (did_to_short did) (Some m)), svc') \<and>
    wallet_open sqlite_ok sqlite_content (ce_wallet (dn_ce dn)) (sqlite_type senv tenv) h P' svc' \<and>
    did_moved dn did (did_new (did_to_short did) (Some m)) P P' \<and>
    key_for_local_did dn svc' h (did_new (did_to_short did) (Some m)) = Ok (d_verkey x)"
proof -
  obtain P' svc' where q: "qualify_did dn d svc h did m = (Ok (did_new (did_to_short did) (Some m)), svc')"
      "wallet_open sqlite_ok sqlite_content (ce_wallet (dn_ce dn)) (sqlite_type senv tenv) h P' svc'"
      "did_moved dn did (did_new (did_to_short did) (Some m)) P P'"
    using sqlite_ty.qualify_moves [OF assms(1-5) refl assms(6)] by blast
  then have "did_at dn P' ''Did'' (did_new (did_to_short did) (Some m)) (x\<lparr>d_did := did_new (did_to_short did) (Some m)\<rparr>)"
    using assms(4) by (simp add: did_moved_def)
  from sqlite_ty.key_for_local_did_at [OF assms(1) q(2) this] q show ?thesis by auto
qed

lemma sample_qualified: "did_new (did_to_short ''d'') (Some ''sov'') = ''did:sov:d''" by code_simp

theorem qualify_did_renames_witness:
  "\<exists>svc svc'. key_for_local_did sample_dn (svc :: (string \<times> string, SqliteDb) WalletService) 1 ''d'' = Ok ''key'' \<and>
     qualify_did sample_dn (sample_did_draws 1) svc 1 ''d'' ''sov'' = (Ok ''did:sov:d'', svc') \<and>
     key_for_local_did sample_dn svc' 1 ''did:sov:d'' = Ok ''key''"
proof -
  obtain json svc where s: "dc_did_from_str sample_did_codec json = Some \<lparr>d_did = ''d'', d_verkey = ''key''\<rparr>"
      "sample_has (put_object (\<lambda>_ _. None) ''Did'' ''d'' json) svc"
    by (rule sample_with_did [OF sample_has_empty, of "''d''"]) (simp_all add: rust_str_def)
  let ?P = "put_object (\<lambda>_ _. None) ''Did'' ''d'' json"
  have at: "did_at sample_dn ?P ''Did'' ''d'' \<lparr>d_did = ''d'', d_verkey = ''key''\<rparr>" using s(1) by (simp add: did_at_def sample_dn_def)
  have old: "key_for_local_did sample_dn svc 1 ''d'' = Ok ''key''"
    using sqlite_ty.key_for_local_did_at [OF sample_dn_ok s(2) [unfolded object_type_def] at] by simp
  have "rust_str ''did:sov:d''" by (simp add: rust_str_def)
  moreover have "movable sample_dn ''d'' ''did:sov:d'' ?P" by (simp add: movable_def free_for_def pairwise_ok_def)
  ultimately obtain svc' where "qualify_did sample_dn (sample_did_draws 1) svc 1 ''d'' ''sov'' = (Ok ''did:sov:d'', svc')"
      "key_for_local_did sample_dn svc' 1 ''did:sov:d'' = Ok ''key''"
    using qualify_did_renames [OF sample_dn_ok s(2) [unfolded object_type_def] sample_did_draws_ok [of 1] at, of "''sov''", unfolded sample_qualified] by auto
  with old show ?thesis by blast
qed

text \<open>
  A DID is lost when its qualified name is taken. If the wallet has a DID with the name that \<open>qualify_did\<close> would give,
  the command fails with \<open>WalletItemAlreadyExists\<close> after it has deleted the old record: the key of the old DID is not found any more,
  and no other record has changed.
\<close>

theorem qualify_did_loses_on_collision:
  assumes "did_env_ok dn senv" and "wallet_open sqlite_ok sqlite_content (ce_wallet (dn_ce dn)) (sqlite_type senv tenv) h P svc"
    and "did_draws_ok d" and "did_at dn P ''Did'' did x" and "rust_str (did_new (did_to_short did) (Some m))"
    and "did_new (did_to_short did) (Some m) \<noteq> did" and "objects P ''Did'' (did_new (did_to_short did) (Some m)) \<noteq> None"
    and "objects P ''TheirDid'' did = None"
  shows "\<exists>svc'. qualify_did dn d svc h did m = (Err WalletItemAlreadyExists, svc') \<and>
    wallet_open sqlite_ok sqlite_content (ce_wallet (dn_ce dn)) (sqlite_type senv tenv) h (remove_object P ''Did'' did) svc' \<and>
    key_for_local_did dn svc h did = Ok (d_verkey x) \<and> key_for_local_did dn svc' h did = Err WalletItemNotFound"
proof -
  obtain svc' where q: "qualify_did dn d svc h did m = (Err WalletItemAlreadyExists, svc')"
      "wallet_open sqlite_ok sqlite_content (ce_wallet (dn_ce dn)) (sqlite_type senv tenv) h (remove_object P ''Did'' did) svc'"
    using sqlite_ty.qualify_collides [OF assms(1-5) refl assms(6,7)] by blast
  have "key_for_local_did dn svc' h did = Err WalletItemNotFound"
    using assms(8) by (simp add: key_for_local_did_def validate_did_def sqlite_ty.load_did_open [OF assms(1) q(2)])
  with q sqlite_ty.key_for_local_did_at [OF assms(1,2,4)] show ?thesis by blast
qed

theorem qualify_did_loses_on_collision_witness:
  "\<exists>svc svc'. key_for_local_did sample_dn (svc :: (string \<times> string, SqliteDb) WalletService) 1 ''d'' = Ok ''key'' \<and>
     qualify_did sample_dn (sample_did_draws 1) svc 1 ''d'' ''sov'' = (Err WalletItemAlreadyExists, svc') \<and>
     key_for_local_did sample_dn svc' 1 ''d'' = Err WalletItemNotFound"
proof -
  have ok: "rust_str ''d''" "rust_str ''did:sov:d''" by (simp_all add: rust_str_def)
  obtain json svc where s: "dc_did_from_str sample_did_codec json = Some \<lparr>d_did = ''d'', d_verkey = ''key''\<rparr>"
      "sample_has (put_object (\<lambda>_ _. None) ''Did'' ''d'' json) svc"
    by (rule sample_with_did [OF sample_has_empty ok(1)]) simp_all
  obtain json' svc1 where s1: "dc_did_from_str sample_did_codec json' = Some \<lparr>d_did = ''did:sov:d'', d_verkey = ''other''\<rparr>"
      "sample_has (put_object (put_object (\<lambda>_ _. None) ''Did'' ''d'' json) ''Did'' ''did:sov:d'' json') svc1"
    by (rule sample_with_did [OF s(2) ok(2)]) simp_all
  let ?P = "put_object (put_object (\<lambda>_ _. None) ''Did'' ''d'' json) ''Did'' ''did:sov:d'' json'"
  have at: "did_at sample_dn ?P ''Did'' ''d'' \<lparr>d_did = ''d'', d_verkey = ''key''\<rparr>" using s(1) by (simp add: did_at_def sample_dn_def)
  show ?thesis
    using qualify_did_loses_on_collision [OF sample_dn_ok s1(2) [unfolded object_type_def] sample_did_draws_ok [of 1] at, of "''sov''", unfolded sample_qualified] ok
    by auto
qed


text \<open>
  A DID is created once. When neither the DID nor its key is in the wallet, \<open>create_and_store_my_did\<close> returns them and stores both; the key is then
  the key of the DID and signs. The same request again returns the same and changes nothing, and a request that makes the same DID with another key is
  refused with \<open>DIDAlreadyExists\<close> and changes nothing.
\<close>

theorem my_did_created_once:
  assumes "did_env_ok dn senv" and "wallet_open sqlite_ok sqlite_content (ce_wallet (dn_ce dn)) (sqlite_type senv tenv) h P svc"
    and "did_draws_ok d" and "create_my_did (ce_crypto (dn_ce dn)) (ce_text (dn_ce dn)) (dd_seed d) info = Ok (did, key)"
    and "rust_str (d_did did)" and "objects P ''Did'' (d_did did) = None" and "objects P ''Key'' (k_verkey key) = None"
  shows "\<exists>svc'. create_and_store_my_did dn d svc h info = (Ok (d_did did, d_verkey did), svc') \<and>
    key_for_local_did dn svc' h (d_did did) = Ok (d_verkey did) \<and>
    (\<forall>msg. \<exists>signature. cmd_crypto_sign (dn_ce dn) svc' h (d_verkey did) msg = Ok signature \<and>
       cmd_crypto_verify (dn_ce dn) (d_verkey did) msg signature = Ok True) \<and>
    create_and_store_my_did dn d svc' h info = (Ok (d_did did, d_verkey did), svc') \<and>
    (\<forall>d2 info2 did2 key2. create_my_did (ce_crypto (dn_ce dn)) (ce_text (dn_ce dn)) (dd_seed d2) info2 = Ok (did2, key2) \<longrightarrow>
       d_did did2 = d_did did \<longrightarrow> d_verkey did2 \<noteq> d_verkey did \<longrightarrow> create_and_store_my_did dn d2 svc' h info2 = (Err DIDAlreadyExists, svc'))"
proof -
  obtain P' svc' where s: "create_and_store_my_did dn d svc h info = (Ok (d_did did, d_verkey did), svc')"
      "wallet_open sqlite_ok sqlite_content (ce_wallet (dn_ce dn)) (sqlite_type senv tenv) h P' svc'"
      "did_at dn P' ''Did'' (d_did did) did" "has_key (dn_ce dn) P' key"
    using sqlite_ty.my_did_stored [OF assms] by metis
  have ce: "command_env_ok (dn_ce dn)" "objects_ok (ce_wallet (dn_ce dn)) senv" using assms(1) by (simp_all add: did_env_ok_def)
  have "length (dd_seed d) = SEEDBYTES" using assms(3) by (simp add: did_draws_ok_def)
  then have key: "agent_key (dn_ce dn) key" using created_agent_key ce(1) created_did_key [OF assms(4)] by blast
  have kept: "create_and_store_my_did dn d2 svc' h info2 = (if d_verkey did2 = d_verkey did then Ok (d_did did2, d_verkey did2) else Err DIDAlreadyExists, svc')"
    if "create_my_did (ce_crypto (dn_ce dn)) (ce_text (dn_ce dn)) (dd_seed d2) info2 = Ok (did2, key2)" "d_did did2 = d_did did" for d2 info2 did2 key2
    by (rule sqlite_ty.my_did_kept [OF assms(1) s(2) that(1)]) (simp add: that(2) s(3))
  have has: "load_key (dn_ce dn) svc' h (k_verkey key) = Ok key" by (rule sqlite_ty.load_key_has [OF ce s(2,4)])
  have cs: "ce_crypto (dn_ce dn) = crypto_service_new (ce_sodium (dn_ce dn))" using ce(1) by (simp add: command_env_ok_def)
  have "\<exists>signature. cmd_crypto_sign (dn_ce dn) svc' h (d_verkey did) msg = Ok signature \<and>
      cmd_crypto_verify (dn_ce dn) (d_verkey did) msg signature = Ok True" for msg
    using has ed25519.sign_verify [OF key, of msg] ed25519.validate_key_ok [OF key] created_did_key [OF assms(4)] by (simp add: cmd_crypto_sign_def cmd_crypto_verify_def cs)
  with s(1) sqlite_ty.key_for_local_did_at [OF assms(1) s(2,3)] kept [OF assms(4)] kept show ?thesis by auto
qed

theorem my_did_created_once_witness:
  "\<exists>svc'. create_and_store_my_did sample_dn (sample_did_draws 7) object_service 1
       \<lparr>mi_did = None, mi_seed = None, mi_crypto_type = None, mi_cid = None, mi_method_name = None\<rparr> =
       (Ok (sample_encode (replicate 16 7), sample_encode (replicate 32 7)), svc') \<and>
     key_for_local_did sample_dn svc' 1 (sample_encode (replicate 16 7)) = Ok (sample_encode (replicate 32 7))"
proof -
  let ?info = "\<lparr>mi_did = None, mi_seed = None, mi_crypto_type = None, mi_cid = None, mi_method_name = None\<rparr>"
  obtain sk where "create_my_did (ce_crypto (dn_ce sample_dn)) (ce_text (dn_ce sample_dn)) (dd_seed (sample_did_draws 7)) ?info =
      Ok (\<lparr>d_did = sample_encode (replicate 16 7), d_verkey = sample_encode (replicate 32 7)\<rparr>, \<lparr>k_verkey = sample_encode (replicate 32 7), k_signkey = sk\<rparr>)"
    by (simp add: create_my_did_def Let_def sample_dn_def sample_ce_def find_default ed25519_type_def create_key_pair_for_signature_def convert_seed_def
        from_slice_def sample_sodium_def sample_tx_def named_verkey_def sample_did_draws_def SEEDBYTES_def did_new_def)
  from my_did_created_once [OF sample_dn_ok sample_has_empty [unfolded object_type_def] sample_did_draws_ok this] show ?thesis
    by (auto simp: sample_encode_text)
qed

end
