(* ===== verification/Non_Secrets.thy ===== *)
theory Non_Secrets
  imports Wallet_Objects
begin

text \<open>
  The records of the application in a wallet (\<open>commands/non_secrets.rs\<close>): the record operations of the wallet service
  behind a check of the type, and searches whose records are fetched in portions. \<open>nx_searches\<close> holds the open searches by handle.
\<close>

section \<open>The commands\<close>

definition WALLET_PREFIX :: string where "WALLET_PREFIX = ''Indy''"

record SearchRecords =
  sr_total_count :: "nat option"
  sr_records :: "WalletRecord list option"

text \<open>Serde's readers and writers.\<close>

record NsEnv =
  ne_wallet :: ServiceEnv
  ne_tag_names :: "string \<Rightarrow> string list option"
  ne_record_options :: "string \<Rightarrow> RecordOptions option"
  ne_search_options :: "string \<Rightarrow> SearchOptions option"
  ne_record_to_string :: "WalletRecord \<Rightarrow> string option"
  ne_search_to_string :: "SearchRecords \<Rightarrow> string option"

record ('p, 's) NsExecutor =
  nx_service :: "('p, 's) WalletService"
  nx_searches :: "(int \<times> WalletIterator) list"

datatype NonSecretsCommand =
    NS_AddRecord int string string string "Tags option"
  | NS_UpdateRecordValue int string string string
  | NS_UpdateRecordTags int string string Tags
  | NS_AddRecordTags int string string Tags
  | NS_DeleteRecordTags int string string string
  | NS_DeleteRecord int string string
  | NS_GetRecord int string string string
  | NS_OpenSearch int string string string
  | NS_FetchSearchNextRecords int int nat
  | NS_CloseSearch int

datatype NsAnswer = NA_Unit "unit outcome" | NA_String "string outcome" | NA_Handle "int outcome"

definition check_type :: "string \<Rightarrow> unit outcome" where
  "check_type type = (if starts_with type WALLET_PREFIX then Err WalletAccessFailed else Ok ())"

text \<open>A change of a record after the check.\<close>

definition checked ::
    "string \<Rightarrow> (('p, 's) WalletService \<Rightarrow> unit outcome \<times> ('p, 's) WalletService) \<Rightarrow> ('p, 's) NsExecutor \<Rightarrow> unit outcome \<times> ('p, 's) NsExecutor" where
  "checked type f nx =
     (case check_type type of
        Ok _ \<Rightarrow> (let (r, svc) = f (nx_service nx) in (r, nx\<lparr>nx_service := svc\<rparr>))
      | Err e \<Rightarrow> (Err e, nx)
      | Panic \<Rightarrow> (Panic, nx))"

definition ns_delete_record_tags ::
    "NsEnv \<Rightarrow> int \<Rightarrow> string \<Rightarrow> string \<Rightarrow> string \<Rightarrow> ('p, 's) NsExecutor \<Rightarrow> unit outcome \<times> ('p, 's) NsExecutor" where
  "ns_delete_record_tags ne h type name tag_names_json nx =
     checked type (\<lambda>svc.
       case ne_tag_names ne tag_names_json of
         None \<Rightarrow> (Err InvalidStructure, svc)
       | Some tag_names \<Rightarrow> delete_record_tags (ne_wallet ne) svc h type name tag_names) nx"

definition ns_get_record :: "NsEnv \<Rightarrow> int \<Rightarrow> string \<Rightarrow> string \<Rightarrow> string \<Rightarrow> ('p, 's) NsExecutor \<Rightarrow> string outcome" where
  "ns_get_record ne h type name options_json nx =
     and_then (check_type type) (\<lambda>_.
     and_then (ok_or InvalidStructure (ne_record_options ne options_json)) (\<lambda>_.
     and_then (get_record (ne_wallet ne) (nx_service nx) h type name options_json) (\<lambda>record.
       ok_or InvalidStructure (ne_record_to_string ne record))))"

definition open_search :: "NsEnv \<Rightarrow> int \<Rightarrow> string \<Rightarrow> string \<Rightarrow> string \<Rightarrow> ('p, 's) NsExecutor \<Rightarrow> int outcome \<times> ('p, 's) NsExecutor" where
  "open_search ne h type query_json options_json nx =
     (case and_then (check_type type) (\<lambda>_.
           and_then (ok_or InvalidStructure (ne_search_options ne options_json)) (\<lambda>_.
             search_records (ne_wallet ne) (nx_service nx) h type query_json options_json)) of
        Ok search \<Rightarrow>
          (let (search_handle, svc) = next_handle (nx_service nx)
           in (Ok search_handle, nx\<lparr>nx_service := svc, nx_searches := hm_insert (nx_searches nx) search_handle search\<rparr>))
      | Err e \<Rightarrow> (Err e, nx)
      | Panic \<Rightarrow> (Panic, nx))"

text \<open>The loop over \<open>0..count\<close>: it ends early when there are no more records or one cannot be read.\<close>

fun fetch_records :: "CryptoEnv \<Rightarrow> nat \<Rightarrow> WalletIterator \<Rightarrow> WalletRecord list outcome \<times> WalletIterator" where
  "fetch_records env 0 search = (Ok [], search)"
| "fetch_records env (Suc count) search =
     (case iterator_next env search of
        (Ok (Some record), search) \<Rightarrow> (let (r, search) = fetch_records env count search in (map_ok (\<lambda>rs. record # rs) r, search))
      | (Ok None, search) \<Rightarrow> (Ok [], search)
      | (Err e, search) \<Rightarrow> (Err e, search)
      | (Panic, search) \<Rightarrow> (Panic, search))"

definition fetch_search_next_records :: "NsEnv \<Rightarrow> int \<Rightarrow> nat \<Rightarrow> ('p, 's) NsExecutor \<Rightarrow> string outcome \<times> ('p, 's) NsExecutor" where
  "fetch_search_next_records ne search_handle count nx =
     (case hm_get (nx_searches nx) search_handle of
        None \<Rightarrow> (Err InvalidWalletHandle, nx)
      | Some search \<Rightarrow>
          (let (r, search) = fetch_records (sv_crypto (ne_wallet ne)) count search
           in (and_then r (\<lambda>records.
               and_then (iterator_total_count search) (\<lambda>total_count.
                 ok_or InvalidState (ne_search_to_string ne
                   \<lparr>sr_total_count = total_count, sr_records = if records = [] then None else Some records\<rparr>))),
               nx\<lparr>nx_searches := hm_insert (nx_searches nx) search_handle search\<rparr>)))"

definition close_search :: "int \<Rightarrow> ('p, 's) NsExecutor \<Rightarrow> unit outcome \<times> ('p, 's) NsExecutor" where
  "close_search search_handle nx =
     (case hm_get (nx_searches nx) search_handle of
        None \<Rightarrow> (Err InvalidWalletHandle, nx)
      | Some _ \<Rightarrow> (Ok (), nx\<lparr>nx_searches := hm_remove (nx_searches nx) search_handle\<rparr>))"

fun ns_execute :: "NsEnv \<Rightarrow> random \<Rightarrow> NonSecretsCommand \<Rightarrow> ('p, 's) NsExecutor \<Rightarrow> NsAnswer \<times> ('p, 's) NsExecutor" where
  "ns_execute ne rnd (NS_AddRecord h type name v tags) nx =
     map_prod NA_Unit (\<lambda>x. x) (checked type (\<lambda>svc. add_record (ne_wallet ne) rnd svc h type name v (case tags of Some tags \<Rightarrow> tags | None \<Rightarrow> [])) nx)"
| "ns_execute ne rnd (NS_UpdateRecordValue h type name v) nx =
     map_prod NA_Unit (\<lambda>x. x) (checked type (\<lambda>svc. update_record_value (ne_wallet ne) rnd svc h type name v) nx)"
| "ns_execute ne rnd (NS_UpdateRecordTags h type name tags) nx =
     map_prod NA_Unit (\<lambda>x. x) (checked type (\<lambda>svc. update_record_tags (ne_wallet ne) svc h type name tags) nx)"
| "ns_execute ne rnd (NS_AddRecordTags h type name tags) nx =
     map_prod NA_Unit (\<lambda>x. x) (checked type (\<lambda>svc. add_record_tags (ne_wallet ne) svc h type name tags) nx)"
| "ns_execute ne rnd (NS_DeleteRecordTags h type name tag_names_json) nx =
     map_prod NA_Unit (\<lambda>x. x) (ns_delete_record_tags ne h type name tag_names_json nx)"
| "ns_execute ne rnd (NS_DeleteRecord h type name) nx =
     map_prod NA_Unit (\<lambda>x. x) (checked type (\<lambda>svc. delete_record (ne_wallet ne) svc h type name) nx)"
| "ns_execute ne rnd (NS_GetRecord h type name options_json) nx = (NA_String (ns_get_record ne h type name options_json nx), nx)"
| "ns_execute ne rnd (NS_OpenSearch h type query_json options_json) nx =
     map_prod NA_Handle (\<lambda>x. x) (open_search ne h type query_json options_json nx)"
| "ns_execute ne rnd (NS_FetchSearchNextRecords h search_handle count) nx =
     map_prod NA_String (\<lambda>x. x) (fetch_search_next_records ne search_handle count nx)"
| "ns_execute ne rnd (NS_CloseSearch search_handle) nx = map_prod NA_Unit (\<lambda>x. x) (close_search search_handle nx)"

section \<open>The abstract effect of a command\<close>

text \<open>
  The change of the map that a wallet stands for, for the commands that change a record; \<open>Inl\<close> is the error of a command that
  reaches no record.
\<close>

fun ns_change :: "NsEnv \<Rightarrow> random \<Rightarrow> NonSecretsCommand \<Rightarrow> (IndyErrorKind + WalletCommand) option" where
  "ns_change ne rnd (NS_AddRecord h t n v tags) = Some (Inr (Cmd_Add rnd t n v (case tags of Some tags \<Rightarrow> tags | None \<Rightarrow> [])))"
| "ns_change ne rnd (NS_UpdateRecordValue h t n v) = Some (Inr (Cmd_Update rnd t n v))"
| "ns_change ne rnd (NS_UpdateRecordTags h t n tags) = Some (Inr (Cmd_Update_Tags t n tags))"
| "ns_change ne rnd (NS_AddRecordTags h t n tags) = Some (Inr (Cmd_Add_Tags t n tags))"
| "ns_change ne rnd (NS_DeleteRecordTags h t n json) = Some (case ne_tag_names ne json of None \<Rightarrow> Inl InvalidStructure | Some names \<Rightarrow> Inr (Cmd_Delete_Tags t n names))"
| "ns_change ne rnd (NS_DeleteRecord h t n) = Some (Inr (Cmd_Delete t n))"
| "ns_change ne rnd _ = None"

fun ns_wallet :: "NonSecretsCommand \<Rightarrow> int option" where
  "ns_wallet (NS_AddRecord h _ _ _ _) = Some h"
| "ns_wallet (NS_UpdateRecordValue h _ _ _) = Some h"
| "ns_wallet (NS_UpdateRecordTags h _ _ _) = Some h"
| "ns_wallet (NS_AddRecordTags h _ _ _) = Some h"
| "ns_wallet (NS_DeleteRecordTags h _ _ _) = Some h"
| "ns_wallet (NS_DeleteRecord h _ _) = Some h"
| "ns_wallet (NS_GetRecord h _ _ _) = Some h"
| "ns_wallet (NS_OpenSearch h _ _ _) = Some h"
| "ns_wallet (NS_FetchSearchNextRecords h _ _) = Some h"
| "ns_wallet (NS_CloseSearch _) = None"

fun ns_type :: "NonSecretsCommand \<Rightarrow> string option" where
  "ns_type (NS_AddRecord _ t _ _ _) = Some t"
| "ns_type (NS_UpdateRecordValue _ t _ _) = Some t"
| "ns_type (NS_UpdateRecordTags _ t _ _) = Some t"
| "ns_type (NS_AddRecordTags _ t _ _) = Some t"
| "ns_type (NS_DeleteRecordTags _ t _ _) = Some t"
| "ns_type (NS_DeleteRecord _ t _) = Some t"
| "ns_type (NS_GetRecord _ t _ _) = Some t"
| "ns_type (NS_OpenSearch _ t _ _) = Some t"
| "ns_type (NS_FetchSearchNextRecords _ _ _) = None"
| "ns_type (NS_CloseSearch _) = None"

fun ns_refused :: "NsAnswer \<Rightarrow> bool" where
  "ns_refused (NA_Unit r) \<longleftrightarrow> r = Err WalletAccessFailed"
| "ns_refused (NA_String r) \<longleftrightarrow> r = Err WalletAccessFailed"
| "ns_refused (NA_Handle r) \<longleftrightarrow> r = Err WalletAccessFailed"

text \<open>What the map becomes.\<close>

definition ns_map :: "NsEnv \<Rightarrow> random \<Rightarrow> NonSecretsCommand \<Rightarrow> plain_wallet \<Rightarrow> unit outcome \<times> plain_wallet" where
  "ns_map ne rnd cmd P =
     (case ns_type cmd of
        Some t \<Rightarrow>
          if starts_with t WALLET_PREFIX then (Err WalletAccessFailed, P)
          else (case ns_change ne rnd cmd of Some (Inr c) \<Rightarrow> map_step c P | Some (Inl e) \<Rightarrow> (Err e, P) | None \<Rightarrow> (Ok (), P))
      | None \<Rightarrow> (Ok (), P))"

lemma map_step_other_type:
  assumes "ns_change ne rnd cmd = Some (Inr c)" and "ns_type cmd = Some t" and "t' \<noteq> t"
  shows "snd (map_step c P) t' = P t'"
  using assms by (cases cmd) (auto simp: change_item_def split: option.splits)

lemma ns_map_keeps_indy: "starts_with t WALLET_PREFIX \<Longrightarrow> snd (ns_map ne rnd cmd P) t = P t"
  by (auto simp: ns_map_def split: option.splits sum.splits intro!: map_step_other_type)

section \<open>Refinement\<close>

text \<open>What the arguments of a command have to be; \<open>cmd\<close> is for the wallet \<open>h\<close> or for a search.\<close>

definition ns_ok :: "NsEnv \<Rightarrow> int \<Rightarrow> random \<times> NonSecretsCommand \<Rightarrow> bool" where
  "ns_ok ne h = (\<lambda>(rnd, cmd). ns_wallet cmd \<in> {None, Some h} \<and> (\<forall>c. ns_change ne rnd cmd = Some (Inr c) \<longrightarrow> command_ok c))"

definition ns_agrees :: "NsEnv \<Rightarrow> random \<times> NonSecretsCommand \<Rightarrow> NsAnswer \<Rightarrow> unit outcome \<Rightarrow> bool" where
  "ns_agrees ne = (\<lambda>(rnd, cmd) a r. (ns_change ne rnd cmd \<noteq> None \<longrightarrow> a = NA_Unit r) \<and>
     (\<forall>t. ns_type cmd = Some t \<longrightarrow> starts_with t WALLET_PREFIX \<longrightarrow> ns_refused a))"

definition ns_step :: "NsEnv \<Rightarrow> random \<times> NonSecretsCommand \<Rightarrow> ('p, 's) NsExecutor \<Rightarrow> NsAnswer \<times> ('p, 's) NsExecutor" where
  "ns_step ne = (\<lambda>(rnd, cmd). ns_execute ne rnd cmd)"

definition ns_map_step :: "NsEnv \<Rightarrow> random \<times> NonSecretsCommand \<Rightarrow> plain_wallet \<Rightarrow> unit outcome \<times> plain_wallet" where
  "ns_map_step ne = (\<lambda>(rnd, cmd). ns_map ne rnd cmd)"

lemma ns_quiet:
  assumes "ns_change ne rnd cmd = None"
  shows "snd (ns_map ne rnd cmd P) = P"
    "wallet_open ok con env ty h P (nx_service (snd (ns_execute ne rnd cmd nx))) = wallet_open ok con env ty h P (nx_service nx)"
  using assms
  by (cases cmd; auto simp: ns_map_def open_search_def fetch_search_next_records_def close_search_def wallet_open_def next_handle_def Let_def case_prod_beta
      split: option.splits outcome.splits)+

lemma ns_refuses: "ns_type cmd = Some t \<Longrightarrow> starts_with t WALLET_PREFIX \<Longrightarrow> ns_refused (fst (ns_execute ne rnd cmd nx)) \<and> snd (ns_execute ne rnd cmd nx) = nx"
  by (cases cmd) (auto simp: checked_def check_type_def ns_delete_record_tags_def ns_get_record_def open_search_def)

context storage_type
begin

lemma ns_execute_changes:
  assumes "objects_ok (ne_wallet ne) senv" and "holds (ne_wallet ne) h P (nx_service nx)" and "ns_ok ne h (rnd, cmd)" and "ns_change ne rnd cmd = Some (Inr c)"
    and "ns_type cmd = Some t" and "\<not> starts_with t WALLET_PREFIX"
  shows "fst (ns_execute ne rnd cmd nx) = NA_Unit (fst (map_step c P)) \<and> holds (ne_wallet ne) h (snd (map_step c P)) (nx_service (snd (ns_execute ne rnd cmd nx)))"
proof -
  have "command_ok c" using assms(3,4) by (simp add: ns_ok_def)
  then obtain st where "record_command (ne_wallet ne) h c (nx_service nx) = (fst (map_step c P), (nx_service nx)\<lparr>ws_storages := st\<rparr>)"
      "holds (ne_wallet ne) h (snd (map_step c P)) ((nx_service nx)\<lparr>ws_storages := st\<rparr>)"
    by (rule record_command_open [OF assms(1,2)])
  moreover have "ns_execute ne rnd cmd nx = (let (r, svc) = record_command (ne_wallet ne) h c (nx_service nx) in (NA_Unit r, nx\<lparr>nx_service := svc\<rparr>))"
    using assms(3-6) by (cases cmd) (auto simp: ns_ok_def checked_def check_type_def ns_delete_record_tags_def case_prod_beta split: option.splits)
  ultimately show ?thesis by simp
qed

lemma ns_step_refines:
  assumes "objects_ok (ne_wallet ne) senv" and "holds (ne_wallet ne) h P (nx_service nx)" and "ns_ok ne h x"
  shows "ns_agrees ne x (fst (ns_step ne x nx)) (fst (ns_map_step ne x P)) \<and>
    holds (ne_wallet ne) h (snd (ns_map_step ne x P)) (nx_service (snd (ns_step ne x nx)))"
proof -
  obtain rnd cmd where x: "x = (rnd, cmd)" by (cases x)
  show ?thesis
  proof (cases "ns_change ne rnd cmd")
    case None
    then show ?thesis using assms(2) by (simp add: x ns_agrees_def ns_step_def ns_map_step_def ns_quiet [OF None] ns_refuses)
  next
    case (Some y)
    then obtain t where t: "ns_type cmd = Some t" by (cases cmd) auto
    show ?thesis
    proof (cases "starts_with t WALLET_PREFIX")
      case True
      have "fst (ns_execute ne rnd cmd nx) = NA_Unit (Err WalletAccessFailed)"
        using Some True t by (cases cmd) (auto simp: checked_def check_type_def ns_delete_record_tags_def)
      with True t ns_refuses [OF t True, of ne rnd nx] assms(2) show ?thesis by (simp add: x ns_agrees_def ns_step_def ns_map_step_def ns_map_def)
    next
      case False
      show ?thesis
      proof (cases y)
        case (Inr c)
        from ns_execute_changes [OF assms(1,2) assms(3) [unfolded x] Some [unfolded Inr] t False] Some Inr t False show ?thesis
          by (simp add: x ns_agrees_def ns_step_def ns_map_step_def ns_map_def)
      next
        case (Inl e)
        with Some False t assms(2) show ?thesis
          by (cases cmd) (auto simp: x ns_agrees_def ns_step_def ns_map_step_def ns_map_def ns_delete_record_tags_def checked_def check_type_def
              split: option.splits)
      qed
    qed
  qed
qed

lemma ns_run_refines:
  assumes "objects_ok (ne_wallet ne) senv" and "\<forall>x \<in> set xs. ns_ok ne h x" and "holds (ne_wallet ne) h P (nx_service nx)"
  shows "(\<forall>i < length xs. ns_agrees ne (xs ! i) (fst (run_steps (ns_step ne) xs nx) ! i) (fst (run_steps (ns_map_step ne) xs P) ! i)) \<and>
    holds (ne_wallet ne) h (snd (run_steps (ns_map_step ne) xs P)) (nx_service (snd (run_steps (ns_step ne) xs nx)))"
  using assms(2,3)
proof (induction xs arbitrary: P nx)
  case (Cons x xs)
  have one: "ns_agrees ne x (fst (ns_step ne x nx)) (fst (ns_map_step ne x P))"
    "holds (ne_wallet ne) h (snd (ns_map_step ne x P)) (nx_service (snd (ns_step ne x nx)))"
    using ns_step_refines [OF assms(1) Cons.prems(2), of x] Cons.prems(1) by simp_all
  from Cons.IH [OF _ one(2)] Cons.prems(1) one(1) show ?case
    by (auto simp: case_prod_beta Let_def nth_Cons split: nat.splits)
qed simp

end

lemma ns_run_keeps_indy: "starts_with t WALLET_PREFIX \<Longrightarrow> snd (run_steps (ns_map_step ne) xs P) t = P t"
proof (induction xs arbitrary: P)
  case (Cons x xs)
  then show ?case by (cases x) (simp add: case_prod_beta Let_def ns_map_step_def ns_map_keeps_indy)
qed simp

section \<open>Searches in portions\<close>

fun pages :: "nat list \<Rightarrow> 'a list \<Rightarrow> 'a list list" where
  "pages [] xs = []"
| "pages (c # cs) xs = take c xs # pages cs (drop c xs)"

lemma concat_pages: "concat (pages cs xs) = take (sum_list cs) xs"
  by (induction cs arbitrary: xs) (simp_all add: take_add)

lemma length_pages: "i < length cs \<Longrightarrow> length (pages cs xs ! i) = min (cs ! i) (length xs - sum_list (take i cs))"
proof (induction cs arbitrary: xs i)
  case (Cons c cs)
  then show ?case by (cases i) (simp_all add: min.commute)
qed simp

lemma fetch_records_take:
  assumes "iterator_records env it = Ok recs"
  shows "\<exists>it'. fetch_records env n it = (Ok (take n recs), it') \<and> iterator_records env it' = Ok (drop n recs) \<and>
    iterator_total_count it' = iterator_total_count it"
  using assms
proof (induction n arbitrary: it recs)
  case (Suc n)
  have count: "iterator_total_count it' = iterator_total_count it" if "iterator_next env it = (r, it')" for r it'
    using that by (auto simp: iterator_next_def iterator_total_count_def split: list.splits)
  from iterator_recordsD [OF Suc.prems] show ?case
  proof (elim disjE exE conjE)
    fix it' assume "recs = []" "iterator_next env it = (Ok None, it')"
    moreover from this have "iterator_records env it' = Ok []" using Suc.prems by (auto simp: iterator_next_def split: list.splits)
    ultimately show ?thesis using count by simp
  next
    fix r rs it' assume *: "recs = r # rs" "iterator_next env it = (Ok (Some r), it')" "iterator_records env it' = Ok rs"
    from Suc.IH [OF *(3)] * count [OF *(2)] show ?thesis by auto
  qed
qed simp

text \<open>The counts and the answers of the fetches from one search among the commands.\<close>

fun fetch_count :: "int \<Rightarrow> random \<times> NonSecretsCommand \<Rightarrow> nat option" where
  "fetch_count sh (_, NS_FetchSearchNextRecords _ sh' c) = (if sh' = sh then Some c else None)"
| "fetch_count sh _ = None"

definition fetch_counts :: "int \<Rightarrow> (random \<times> NonSecretsCommand) list \<Rightarrow> nat list" where
  "fetch_counts sh xs = List.map_filter (fetch_count sh) xs"

definition fetch_answers :: "int \<Rightarrow> (random \<times> NonSecretsCommand) list \<Rightarrow> NsAnswer list \<Rightarrow> NsAnswer list" where
  "fetch_answers sh xs as = map snd (filter (\<lambda>(x, _). fetch_count sh x \<noteq> None) (zip xs as))"

definition page_answer :: "NsEnv \<Rightarrow> nat option \<Rightarrow> WalletRecord list \<Rightarrow> NsAnswer" where
  "page_answer ne tot page =
     NA_String (ok_or InvalidState (ne_search_to_string ne \<lparr>sr_total_count = tot, sr_records = if page = [] then None else Some page\<rparr>))"

lemma on_wallet_counter [simp]: "ws_ids_counter (snd (on_wallet svc h f)) = ws_ids_counter svc"
  by (simp add: on_wallet_def split: option.splits prod.splits)

lemma hm_wf_remove [intro]: "hm_wf m \<Longrightarrow> hm_wf (hm_remove m k)"
proof (induction m k rule: hm_remove.induct)
  case (2 k' v' m k)
  have "fst ` set (hm_remove m k) \<subseteq> fst ` set m" by (induction m k rule: hm_remove.induct) auto
  with 2 show ?case by (auto simp: hm_wf_def)
qed simp

text \<open>A search is kept by every command but its own fetches and its closing, as long as handles are not reused.\<close>

lemma ns_keeps_search:
  assumes "hm_get (nx_searches nx) sh = Some it" and "fetch_count sh (rnd, cmd) = None" and "cmd \<noteq> NS_CloseSearch sh"
    and "hm_wf (nx_searches nx)" and "sh \<le> int (ws_ids_counter (nx_service nx))" and "ws_ids_counter (nx_service nx) + 1 < 2 ^ 31"
  shows "hm_get (nx_searches (snd (ns_execute ne rnd cmd nx))) sh = Some it \<and> hm_wf (nx_searches (snd (ns_execute ne rnd cmd nx))) \<and>
    ws_ids_counter (nx_service nx) \<le> ws_ids_counter (nx_service (snd (ns_execute ne rnd cmd nx))) \<and>
    ws_ids_counter (nx_service (snd (ns_execute ne rnd cmd nx))) \<le> ws_ids_counter (nx_service nx) + 1"
  using assms
  by (cases cmd) (auto simp: checked_def ns_delete_record_tags_def open_search_def fetch_search_next_records_def close_search_def
      next_handle_small add_record_def update_record_value_def update_record_tags_def add_record_tags_def delete_record_tags_def delete_record_def
      hm_simps hm_get_remove case_prod_beta Let_def split: outcome.splits option.splits if_splits intro: hm_wf_insert hm_wf_remove)

lemma ns_fetches:
  assumes "hm_get (nx_searches nx) sh = Some it" and "iterator_records (sv_crypto (ne_wallet ne)) it = Ok recs" and "fetch_count sh (rnd, cmd) = Some c"
  obtains it' where "ns_execute ne rnd cmd nx =
      (case iterator_total_count it of Ok tot \<Rightarrow> page_answer ne tot (take c recs), nx\<lparr>nx_searches := hm_insert (nx_searches nx) sh it'\<rparr>)"
    "iterator_records (sv_crypto (ne_wallet ne)) it' = Ok (drop c recs)" "iterator_total_count it' = iterator_total_count it"
proof -
  obtain h where cmd: "cmd = NS_FetchSearchNextRecords h sh c" using assms(3) by (cases cmd) (auto split: if_splits)
  obtain it' where "fetch_records (sv_crypto (ne_wallet ne)) c it = (Ok (take c recs), it')"
      "iterator_records (sv_crypto (ne_wallet ne)) it' = Ok (drop c recs)" "iterator_total_count it' = iterator_total_count it"
    using fetch_records_take [OF assms(2)] by blast
  then show ?thesis using assms(1)
    by (intro that [of it']) (auto simp: cmd fetch_search_next_records_def page_answer_def iterator_total_count_def)
qed

lemma search_run:
  assumes "\<forall>x \<in> set xs. snd x \<noteq> NS_CloseSearch sh" and "hm_get (nx_searches nx) sh = Some it"
    and "iterator_records (sv_crypto (ne_wallet ne)) it = Ok recs" and "iterator_total_count it = Ok tot" and "hm_wf (nx_searches nx)"
    and "sh \<le> int (ws_ids_counter (nx_service nx))" and "ws_ids_counter (nx_service nx) + length xs < 2 ^ 31"
  shows "fetch_answers sh xs (fst (run_steps (ns_step ne) xs nx)) = map (page_answer ne tot) (pages (fetch_counts sh xs) recs)"
  using assms
proof (induction xs arbitrary: nx it recs)
  case Nil
  then show ?case by (simp add: fetch_answers_def fetch_counts_def map_filter_simps)
next
  case (Cons x xs)
  obtain rnd cmd where x: "x = (rnd, cmd)" by (cases x)
  show ?case
  proof (cases "fetch_count sh (rnd, cmd)")
    case None
    let ?nx = "snd (ns_execute ne rnd cmd nx)"
    have keep: "hm_get (nx_searches ?nx) sh = Some it" "hm_wf (nx_searches ?nx)" "sh \<le> int (ws_ids_counter (nx_service ?nx))"
        "ws_ids_counter (nx_service ?nx) + length xs < 2 ^ 31"
      using ns_keeps_search [OF Cons.prems(2) None _ Cons.prems(5,6), of ne] Cons.prems(1,6,7) x by auto
    from Cons.IH [OF _ keep(1) Cons.prems(3,4) keep(2-4)] Cons.prems(1) None show ?thesis
      by (simp add: x ns_step_def fetch_answers_def fetch_counts_def map_filter_simps case_prod_beta Let_def)
  next
    case (Some c)
    obtain it' where f: "ns_execute ne rnd cmd nx =
        (case iterator_total_count it of Ok tot \<Rightarrow> page_answer ne tot (take c recs), nx\<lparr>nx_searches := hm_insert (nx_searches nx) sh it'\<rparr>)"
      "iterator_records (sv_crypto (ne_wallet ne)) it' = Ok (drop c recs)" "iterator_total_count it' = iterator_total_count it"
      by (rule ns_fetches [OF Cons.prems(2,3) Some])
    let ?nx = "nx\<lparr>nx_searches := hm_insert (nx_searches nx) sh it'\<rparr>"
    have "hm_get (nx_searches ?nx) sh = Some it'" "hm_wf (nx_searches ?nx)" using Cons.prems(5) by (auto simp: hm_simps)
    from Cons.IH [OF _ this(1) f(2) _ this(2)] Cons.prems f(1,3) Some show ?thesis
      by (simp add: x ns_step_def fetch_answers_def fetch_counts_def map_filter_simps case_prod_beta Let_def)
  qed
qed

section \<open>Properties\<close>


definition sample_ne :: NsEnv where
  "sample_ne = \<lparr>ne_wallet = object_service_env, ne_tag_names = \<lambda>s. Some [s], ne_record_options = se_record_options object_storage_env,
     ne_search_options = se_search_options object_storage_env, ne_record_to_string = \<lambda>r. Some (wr_id r),
     ne_search_to_string = \<lambda>s. Some (case sr_records s of None \<Rightarrow> [] | Some rs \<Rightarrow> concat (map wr_id rs))\<rparr>"

abbreviation sample_random :: random where
  "sample_random \<equiv> (replicate 32 1, replicate 12 1, replicate 12 2)"

lemma sample_random_ok: "fresh_ok sample_random"
  by (simp add: fresh_ok_def KEYBYTES_def NONCEBYTES_def)

lemma sample_ne_ok: "objects_ok (ne_wallet sample_ne) object_storage_env"
  using sample_objects_ok by (simp add: sample_ne_def)

abbreviation sample_holds :: "plain_wallet \<Rightarrow> (string \<times> string, SqliteDb) WalletService \<Rightarrow> bool" where
  "sample_holds P svc \<equiv> wallet_open sqlite_ok sqlite_content (ne_wallet sample_ne) object_type 1 P svc"

text \<open>A wallet with one more record.\<close>

lemma sample_with_record:
  assumes "sample_holds P svc" and "rust_str t" and "rust_str n" and "P t n = None"
  obtains svc' where "sample_holds (P(t := (P t)(n \<mapsto> (''v'', Map.empty)))) svc'" "ws_ids_counter svc' = ws_ids_counter svc"
proof -
  have ok: "command_ok (Cmd_Add sample_random t n ''v'' [])" using assms(2,3) by (simp add: sample_random_ok rust_str_def)
  have "hm_get [] = (Map.empty :: string \<rightharpoonup> string)" by (rule ext) simp
  then have step: "snd (map_step (Cmd_Add sample_random t n ''v'' []) P) = P(t := (P t)(n \<mapsto> (''v'', Map.empty)))" using assms(4) by simp
  obtain st where "wallet_open sqlite_ok sqlite_content (ne_wallet sample_ne) (sqlite_type object_storage_env \<lparr>parse_config = \<lambda>s. Some (Some s), home = ''home''\<rparr>) 1
      (snd (map_step (Cmd_Add sample_random t n ''v'' []) P)) (svc\<lparr>ws_storages := st\<rparr>)"
    by (rule sqlite_ty.record_command_open [OF sample_ne_ok assms(1) [unfolded object_type_def] ok])
  with step show ?thesis by (intro that [of "svc\<lparr>ws_storages := st\<rparr>"]) (simp_all add: object_type_def)
qed

lemma sample_holds_empty: "sample_holds (\<lambda>_ _. None) object_service"
  using sample_wallet_open by (simp add: sample_ne_def)





end
