(* ===== verification/Pairwise_Commands.thy ===== *)
theory Pairwise_Commands
  imports Did_Protocol
begin

text \<open>
  Pairwise relations (\<open>commands/pairwise.rs\<close>, \<open>domain/pairwise/mod.rs\<close>): for a DID of another party, the own DID that is used
  with it and a text. They are objects of the wallet under the name of the other DID.
\<close>

section \<open>The commands\<close>

record PairwiseInfo =
  pi_my_did :: DidValue
  pi_metadata :: "string option"

definition pairwise_info_from :: "Pairwise \<Rightarrow> PairwiseInfo" where
  "pairwise_info_from pw = \<lparr>pi_my_did = pw_my_did pw, pi_metadata = pw_metadata pw\<rparr>"

text \<open>Serde's writers of the answers.\<close>

record PairwiseEnv =
  pe_dn :: DidEnv
  pe_info_to_string :: "PairwiseInfo \<Rightarrow> string option"
  pe_list_to_string :: "string list \<Rightarrow> string option"

abbreviation pe_wallet :: "PairwiseEnv \<Rightarrow> ServiceEnv" where "pe_wallet pe \<equiv> ce_wallet (dn_ce (pe_dn pe))"

definition pairwise_exists :: "PairwiseEnv \<Rightarrow> ('p, 's) WalletService \<Rightarrow> int \<Rightarrow> DidValue \<Rightarrow> bool outcome" where
  "pairwise_exists pe svc h their_did = record_exists (pe_wallet pe) svc h ''Pairwise'' their_did"

definition create_pairwise ::
    "PairwiseEnv \<Rightarrow> random \<Rightarrow> ('p, 's) WalletService \<Rightarrow> int \<Rightarrow> DidValue \<Rightarrow> DidValue \<Rightarrow> string option \<Rightarrow> unit outcome \<times> ('p, 's) WalletService" where
  "create_pairwise pe rnd svc h their_did my_did metadata =
     then_do (get_indy_record (pe_wallet pe) svc h ''Did'' my_did RECORD_OPTIONS_ID, svc) (\<lambda>_ svc.
     then_do (get_indy_record (pe_wallet pe) svc h ''TheirDid'' their_did RECORD_OPTIONS_ID, svc) (\<lambda>_ svc.
       let pairwise = \<lparr>pw_my_did = my_did, pw_their_did = their_did, pw_metadata = metadata\<rparr>
       in then_do (add_indy_object (pe_wallet pe) rnd svc h ''Pairwise'' their_did (dc_pairwise_to_string (dn_codec (pe_dn pe)) pairwise) [])
            (\<lambda>_ svc. (Ok (), svc))))"

definition list_pairwise :: "PairwiseEnv \<Rightarrow> ('p, 's) WalletService \<Rightarrow> int \<Rightarrow> string outcome" where
  "list_pairwise pe svc h =
     and_then (search_indy_records (pe_wallet pe) svc h ''Pairwise'' ''{}'' RECORD_OPTIONS_ID_VALUE) (\<lambda>pairwise_search.
     and_then (fetch_loop (sv_crypto (pe_wallet pe)) (\<lambda>pairwise_record list_pairwise.
         and_then (ok_or InvalidStructure (wr_value pairwise_record)) (\<lambda>pairwise_value. Ok (list_pairwise @ [pairwise_value])))
         pairwise_search []) (\<lambda>list_pairwise.
       ok_or InvalidState (pe_list_to_string pe list_pairwise)))"

definition get_pairwise :: "PairwiseEnv \<Rightarrow> ('p, 's) WalletService \<Rightarrow> int \<Rightarrow> DidValue \<Rightarrow> string outcome" where
  "get_pairwise pe svc h their_did =
     and_then (get_indy_object (pe_wallet pe) (dc_pairwise_from_str (dn_codec (pe_dn pe))) svc h ''Pairwise'' their_did RECORD_OPTIONS_ID_VALUE) (\<lambda>pairwise.
       ok_or InvalidState (pe_info_to_string pe (pairwise_info_from pairwise)))"

definition set_pairwise_metadata ::
    "PairwiseEnv \<Rightarrow> random \<Rightarrow> ('p, 's) WalletService \<Rightarrow> int \<Rightarrow> DidValue \<Rightarrow> string option \<Rightarrow> unit outcome \<times> ('p, 's) WalletService" where
  "set_pairwise_metadata pe rnd svc h their_did metadata =
     then_do (get_indy_object (pe_wallet pe) (dc_pairwise_from_str (dn_codec (pe_dn pe))) svc h ''Pairwise'' their_did RECORD_OPTIONS_ID_VALUE, svc) (\<lambda>pairwise svc.
     then_do (update_indy_object (pe_wallet pe) rnd svc h ''Pairwise'' their_did
         (dc_pairwise_to_string (dn_codec (pe_dn pe)) (pairwise\<lparr>pw_metadata := metadata\<rparr>))) (\<lambda>_ svc. (Ok (), svc)))"

datatype PairwiseCommand =
    PC_PairwiseExists int DidValue
  | PC_CreatePairwise int DidValue DidValue "string option"
  | PC_ListPairwise int
  | PC_GetPairwise int DidValue
  | PC_SetPairwiseMetadata int DidValue "string option"

datatype PairwiseAnswer = PA_Bool "bool outcome" | PA_Unit "unit outcome" | PA_String "string outcome"

fun pairwise_execute ::
    "PairwiseEnv \<Rightarrow> random \<Rightarrow> PairwiseCommand \<Rightarrow> ('p, 's) WalletService \<Rightarrow> PairwiseAnswer \<times> ('p, 's) WalletService" where
  "pairwise_execute pe rnd (PC_PairwiseExists h their_did) svc = (PA_Bool (pairwise_exists pe svc h their_did), svc)"
| "pairwise_execute pe rnd (PC_CreatePairwise h their_did my_did metadata) svc =
     map_prod PA_Unit (\<lambda>x. x) (create_pairwise pe rnd svc h their_did my_did metadata)"
| "pairwise_execute pe rnd (PC_ListPairwise h) svc = (PA_String (list_pairwise pe svc h), svc)"
| "pairwise_execute pe rnd (PC_GetPairwise h their_did) svc = (PA_String (get_pairwise pe svc h their_did), svc)"
| "pairwise_execute pe rnd (PC_SetPairwiseMetadata h their_did metadata) svc =
     map_prod PA_Unit (\<lambda>x. x) (set_pairwise_metadata pe rnd svc h their_did metadata)"

section \<open>The relations of a wallet\<close>

definition pairwise_at :: "PairwiseEnv \<Rightarrow> plain_wallet \<Rightarrow> DidValue \<Rightarrow> Pairwise \<Rightarrow> bool" where
  "pairwise_at pe P their pw \<longleftrightarrow> (\<exists>v. objects P ''Pairwise'' their = Some v \<and> dc_pairwise_from_str (dn_codec (pe_dn pe)) v = Some pw)"

lemma fetch_loop_values:
  assumes "iterator_records env it = Ok recs"
    and "list_all2 (\<lambda>n r. wr_id r = n \<and> wr_value r = V n) ns recs" and "\<forall>n \<in> set ns. V n \<noteq> None"
  shows "fetch_loop env (\<lambda>r a. and_then (ok_or InvalidStructure (wr_value r)) (\<lambda>v. Ok (a @ [v]))) it acc = Ok (acc @ map (the \<circ> V) ns)"
  using assms
proof (induction recs arbitrary: it ns acc)
  case Nil
  with iterator_recordsD [OF Nil.prems(1)] show ?case by (subst fetch_loop.simps) auto
next
  case (Cons r recs)
  then obtain n ns' where ns: "ns = n # ns'" "wr_value r = V n" "list_all2 (\<lambda>n r. wr_id r = n \<and> wr_value r = V n) ns' recs"
    by (auto simp: list_all2_Cons2)
  obtain v where v: "V n = Some v" using Cons.prems(3) ns(1) by auto
  obtain it' where "iterator_next env it = (Ok (Some r), it')" "iterator_records env it' = Ok recs"
    using iterator_recordsD [OF Cons.prems(1)] by auto
  with Cons.IH [OF _ ns(3), of it' "acc @ [v]"] Cons.prems(3) ns(1,2) v show ?case by (subst fetch_loop.simps) simp
qed

context storage_type
begin

lemma create_pairwise_open:
  assumes "did_env_ok (pe_dn pe) senv" and "has (pe_dn pe) h P svc" and "fresh_ok rnd"
  shows "(if objects P ''Did'' my = None \<or> objects P ''TheirDid'' their = None
    then create_pairwise pe rnd svc h their my m = (Err WalletItemNotFound, svc)
    else if objects P ''Pairwise'' their \<noteq> None
    then \<exists>svc'. create_pairwise pe rnd svc h their my m = (Err WalletItemAlreadyExists, svc') \<and> has (pe_dn pe) h P svc'
    else \<exists>v svc'. create_pairwise pe rnd svc h their my m = (Ok (), svc') \<and> has (pe_dn pe) h (put_object P ''Pairwise'' their v) svc' \<and>
      dc_pairwise_from_str (dn_codec (pe_dn pe)) v = Some \<lparr>pw_my_did = my, pw_their_did = their, pw_metadata = m\<rparr>)"
proof -
  have env: "objects_ok (pe_wallet pe) senv" using assms(1) by (simp add: did_env_ok_def)
  have get: "get_indy_record (pe_wallet pe) svc h t n RECORD_OPTIONS_ID = Err WalletItemNotFound" if "objects P t n = None" for t n
    using get_indy_record_open [OF env assms(2), of t n] that by (cases "get_indy_record (pe_wallet pe) svc h t n RECORD_OPTIONS_ID") auto
  have found: "\<exists>r. get_indy_record (pe_wallet pe) svc h t n RECORD_OPTIONS_ID = Ok r" if "objects P t n \<noteq> None" for t n
    using get_indy_record_open [OF env assms(2), of t n] that by (cases "get_indy_record (pe_wallet pe) svc h t n RECORD_OPTIONS_ID") auto
  show ?thesis
  proof (cases "objects P ''Did'' my = None \<or> objects P ''TheirDid'' their = None")
    case True
    with get found [of "''Did''" my] show ?thesis by (cases "objects P ''Did'' my = None") (auto simp: create_pairwise_def)
  next
    case False
    let ?pw = "\<lparr>pw_my_did = my, pw_their_did = their, pw_metadata = m\<rparr>"
    obtain v where v: "dc_pairwise_to_string (dn_codec (pe_dn pe)) ?pw = Some v" "dc_pairwise_from_str (dn_codec (pe_dn pe)) v = Some ?pw" "rust_str v"
      using assms(1) unfolding did_env_ok_def did_codec_ok_def by blast
    obtain w where "objects P ''TheirDid'' their = Some w" using False by auto
    then have ok: "object_ok rnd ''Pairwise'' their v" using objects_text [OF env assms(2)] assms(3) v(3) by (simp add: object_ok_def)
    obtain st where "add_indy_object (pe_wallet pe) rnd svc h ''Pairwise'' their (Some v) [] =
        (if objects P ''Pairwise'' their = None then Ok v else Err WalletItemAlreadyExists, svc\<lparr>ws_storages := st\<rparr>)"
      "has (pe_dn pe) h (if objects P ''Pairwise'' their = None then put_object P ''Pairwise'' their v else P) (svc\<lparr>ws_storages := st\<rparr>)"
      by (rule add_indy_object_open [OF env assms(2) ok])
    with False v found [of "''Did''" my] found [of "''TheirDid''" their] show ?thesis
      by (cases "objects P ''Pairwise'' their") (auto simp: create_pairwise_def Let_def)
  qed
qed

lemma get_pairwise_at:
  assumes "did_env_ok (pe_dn pe) senv" and "has (pe_dn pe) h P svc" and "pairwise_at pe P their pw"
  shows "get_pairwise pe svc h their = ok_or InvalidState (pe_info_to_string pe (pairwise_info_from pw))"
    "pairwise_exists pe svc h their = Ok True"
proof -
  have env: "objects_ok (pe_wallet pe) senv" using assms(1) by (simp add: did_env_ok_def)
  with assms(3) show "get_pairwise pe svc h their = ok_or InvalidState (pe_info_to_string pe (pairwise_info_from pw))"
    "pairwise_exists pe svc h their = Ok True"
    by (auto simp: get_pairwise_def pairwise_exists_def get_indy_object_open [OF env assms(2)] record_exists_open [OF env assms(2)] pairwise_at_def)
qed

lemma set_metadata_at:
  assumes "did_env_ok (pe_dn pe) senv" and "has (pe_dn pe) h P svc" and "fresh_ok rnd" and "pairwise_at pe P their pw"
  obtains v svc' where "set_pairwise_metadata pe rnd svc h their m = (Ok (), svc')" "has (pe_dn pe) h (put_object P ''Pairwise'' their v) svc'"
    "dc_pairwise_from_str (dn_codec (pe_dn pe)) v = Some (pw\<lparr>pw_metadata := m\<rparr>)"
proof -
  have env: "objects_ok (pe_wallet pe) senv" using assms(1) by (simp add: did_env_ok_def)
  obtain v where v: "dc_pairwise_to_string (dn_codec (pe_dn pe)) (pw\<lparr>pw_metadata := m\<rparr>) = Some v"
      "dc_pairwise_from_str (dn_codec (pe_dn pe)) v = Some (pw\<lparr>pw_metadata := m\<rparr>)" "rust_str v"
    using assms(1) unfolding did_env_ok_def did_codec_ok_def by blast
  obtain w where w: "objects P ''Pairwise'' their = Some w" "dc_pairwise_from_str (dn_codec (pe_dn pe)) w = Some pw"
    using assms(4) by (auto simp: pairwise_at_def)
  have ok: "object_ok rnd ''Pairwise'' their v" using objects_text [OF env assms(2) w(1)] assms(3) v(3) by (simp add: object_ok_def)
  have there: "objects P ''Pairwise'' their \<noteq> None" using w(1) by simp
  obtain svc' where "update_indy_object (pe_wallet pe) rnd svc h ''Pairwise'' their (Some v) = (Ok v, svc')"
      "has (pe_dn pe) h (put_object P ''Pairwise'' their v) svc'"
    by (rule update_existing_object [OF env assms(2) ok there])
  with v w show ?thesis by (intro that [of svc' v]) (simp_all add: set_pairwise_metadata_def get_indy_object_open [OF env assms(2)])
qed

lemma list_pairwise_open:
  assumes "did_env_ok (pe_dn pe) senv" and "has (pe_dn pe) h P svc"
  shows "\<exists>ns. distinct ns \<and> set ns = {n. objects P ''Pairwise'' n \<noteq> None} \<and>
    list_pairwise pe svc h = ok_or InvalidState (pe_list_to_string pe (map (the \<circ> objects P ''Pairwise'') ns))"
proof -
  have env: "objects_ok (pe_wallet pe) senv" using assms(1) by (simp add: did_env_ok_def)
  have opts: "se_search_options senv RECORD_OPTIONS_ID_VALUE =
      Some \<lparr>so_retrieve_records = True, so_retrieve_total_count = False, so_retrieve_type = False, so_retrieve_value = True, so_retrieve_tags = False\<rparr>"
    using env by (simp add: objects_ok_def)
  obtain it ns recs where s: "search_indy_records (pe_wallet pe) svc h ''Pairwise'' ''{}'' RECORD_OPTIONS_ID_VALUE = Ok it"
      "iterator_records (sv_crypto (pe_wallet pe)) it = Ok recs" "distinct ns" "set ns = {n. objects P ''Pairwise'' n \<noteq> None}"
      "list_all2 (\<lambda>n r. wr_id r = n \<and> wr_value r = objects P ''Pairwise'' n) ns recs"
    by (rule search_objects [OF env assms(2) opts, of "''Pairwise''"]) simp_all
  with fetch_loop_values [OF s(2,5), of "[]"] show ?thesis by (intro exI [of _ ns]) (simp add: list_pairwise_def)
qed

end

section \<open>Sequences of commands\<close>

fun pc_wallet :: "PairwiseCommand \<Rightarrow> int" where
  "pc_wallet (PC_PairwiseExists h _) = h"
| "pc_wallet (PC_CreatePairwise h _ _ _) = h"
| "pc_wallet (PC_ListPairwise h) = h"
| "pc_wallet (PC_GetPairwise h _) = h"
| "pc_wallet (PC_SetPairwiseMetadata h _ _) = h"

lemma pairwise_ok_put:
  "pairwise_ok dn P \<Longrightarrow> dc_pairwise_from_str (dn_codec dn) v = Some pw \<Longrightarrow> pw_their_did pw = n \<Longrightarrow> pairwise_ok dn (put_object P ''Pairwise'' n v)"
  by (auto simp: pairwise_ok_def split: if_splits)

context storage_type
begin

lemma pairwise_step:
  assumes "did_env_ok (pe_dn pe) senv" and "has (pe_dn pe) h P svc" and "fresh_ok rnd" and "pc_wallet cmd = h" and "pairwise_ok (pe_dn pe) P"
  shows "\<exists>P'. has (pe_dn pe) h P' (snd (pairwise_execute pe rnd cmd svc)) \<and> pairwise_ok (pe_dn pe) P' \<and>
    (\<forall>t n. t \<noteq> ''Pairwise'' \<or> objects P t n \<noteq> None \<and> (\<forall>m. cmd \<noteq> PC_SetPairwiseMetadata h n m) \<longrightarrow> objects P' t n = objects P t n)"
proof (cases cmd)
  case (PC_CreatePairwise h' their my m)
  have "h' = h" using assms(4) PC_CreatePairwise by simp
  with create_pairwise_open [OF assms(1-3), of my their m] assms(2,5) show ?thesis
    unfolding PC_CreatePairwise by (fastforce split: if_splits intro: pairwise_ok_put)
next
  case (PC_SetPairwiseMetadata h' their m)
  have h: "h' = h" using assms(4) PC_SetPairwiseMetadata by simp
  have env: "objects_ok (pe_wallet pe) senv" using assms(1) by (simp add: did_env_ok_def)
  show ?thesis
  proof (cases "objects P ''Pairwise'' their")
    case None
    then have "set_pairwise_metadata pe rnd svc h their m = (Err WalletItemNotFound, svc)"
      by (simp add: set_pairwise_metadata_def get_indy_object_open [OF env assms(2)])
    with assms(2,5) show ?thesis unfolding PC_SetPairwiseMetadata h by auto
  next
    case (Some v)
    then obtain pw where pw: "pairwise_at pe P their pw" "pw_their_did pw = their" using assms(5) by (auto simp: pairwise_ok_def pairwise_at_def)
    obtain v' svc' where s: "set_pairwise_metadata pe rnd svc h their m = (Ok (), svc')" "has (pe_dn pe) h (put_object P ''Pairwise'' their v') svc'"
        "dc_pairwise_from_str (dn_codec (pe_dn pe)) v' = Some (pw\<lparr>pw_metadata := m\<rparr>)"
      by (rule set_metadata_at [OF assms(1-3) pw(1)])
    have "pairwise_ok (pe_dn pe) (put_object P ''Pairwise'' their v')" by (rule pairwise_ok_put [OF assms(5) s(3)]) (simp add: pw(2))
    with s(1,2) show ?thesis unfolding PC_SetPairwiseMetadata h by (intro exI [of _ "put_object P ''Pairwise'' their v'"]) auto
  qed
qed (use assms in auto)

lemma pairwise_run:
  assumes "did_env_ok (pe_dn pe) senv" and "\<forall>(rnd, cmd) \<in> set xs. fresh_ok rnd \<and> pc_wallet cmd = h" and "has (pe_dn pe) h P svc" and "pairwise_ok (pe_dn pe) P"
  shows "\<exists>P'. has (pe_dn pe) h P' (snd (run_steps (\<lambda>(rnd, cmd). pairwise_execute pe rnd cmd) xs svc)) \<and> pairwise_ok (pe_dn pe) P' \<and>
    (\<forall>t n. t \<noteq> ''Pairwise'' \<longrightarrow> objects P' t n = objects P t n)"
  using assms(2-4)
proof (induction xs arbitrary: P svc)
  case (Cons x xs)
  obtain rnd cmd where x: "x = (rnd, cmd)" by (cases x)
  with Cons.prems(1) have c: "fresh_ok rnd" "pc_wallet cmd = h" by auto
  obtain P1 where P1: "has (pe_dn pe) h P1 (snd (pairwise_execute pe rnd cmd svc))" "pairwise_ok (pe_dn pe) P1"
      "\<forall>t n. t \<noteq> ''Pairwise'' \<longrightarrow> objects P1 t n = objects P t n"
    using pairwise_step [OF assms(1) Cons.prems(2) c Cons.prems(3)] by blast
  have "\<forall>(rnd, cmd) \<in> set xs. fresh_ok rnd \<and> pc_wallet cmd = h" using Cons.prems(1) by simp
  from Cons.IH [OF this P1(1,2)] P1(3) show ?case by (auto simp: x case_prod_beta Let_def)
qed auto

end

section \<open>Properties\<close>

text \<open>
  A relation that was created can be read. Creating one needs both DIDs in the wallet (\<open>WalletItemNotFound\<close> otherwise, and nothing changes) and
  no relation with the other DID; it then exists, is read with its own DID and text, is in the list, cannot be created
  again, and setting its text changes what is read to that text and the same own DID.
\<close>

theorem pairwise_created_is_read:
  assumes "did_env_ok (pe_dn pe) senv" and "wallet_open sqlite_ok sqlite_content (pe_wallet pe) (sqlite_type senv tenv) h P svc" and "fresh_ok rnd"
    and "objects P ''Pairwise'' their = None"
  shows "if objects P ''Did'' my = None \<or> objects P ''TheirDid'' their = None
    then create_pairwise pe rnd svc h their my m = (Err WalletItemNotFound, svc)
    else \<exists>svc1. create_pairwise pe rnd svc h their my m = (Ok (), svc1) \<and> pairwise_exists pe svc1 h their = Ok True \<and>
      get_pairwise pe svc1 h their = ok_or InvalidState (pe_info_to_string pe \<lparr>pi_my_did = my, pi_metadata = m\<rparr>) \<and>
      fst (create_pairwise pe rnd svc1 h their my m) = Err WalletItemAlreadyExists \<and>
      (\<exists>vs v. list_pairwise pe svc1 h = ok_or InvalidState (pe_list_to_string pe vs) \<and> v \<in> set vs \<and>
         dc_pairwise_from_str (dn_codec (pe_dn pe)) v = Some \<lparr>pw_my_did = my, pw_their_did = their, pw_metadata = m\<rparr>) \<and>
      (\<forall>m'. \<exists>svc2. set_pairwise_metadata pe rnd svc1 h their m' = (Ok (), svc2) \<and>
         get_pairwise pe svc2 h their = ok_or InvalidState (pe_info_to_string pe \<lparr>pi_my_did = my, pi_metadata = m'\<rparr>))"
proof (cases "objects P ''Did'' my = None \<or> objects P ''TheirDid'' their = None")
  case True
  with sqlite_ty.create_pairwise_open [OF assms(1-3), of my their m] show ?thesis by simp
next
  case False
  let ?pw = "\<lparr>pw_my_did = my, pw_their_did = their, pw_metadata = m\<rparr>"
  obtain v svc1 where c: "create_pairwise pe rnd svc h their my m = (Ok (), svc1)"
      "wallet_open sqlite_ok sqlite_content (pe_wallet pe) (sqlite_type senv tenv) h (put_object P ''Pairwise'' their v) svc1"
      "dc_pairwise_from_str (dn_codec (pe_dn pe)) v = Some ?pw"
    using sqlite_ty.create_pairwise_open [OF assms(1-3), of my their m] False assms(4) by auto
  have at: "pairwise_at pe (put_object P ''Pairwise'' their v) their ?pw" using c(3) by (simp add: pairwise_at_def)
  have again: "fst (create_pairwise pe rnd svc1 h their my m) = Err WalletItemAlreadyExists"
    using sqlite_ty.create_pairwise_open [OF assms(1) c(2) assms(3), of my their m] False by auto
  obtain ns where ns: "set ns = {n. objects (put_object P ''Pairwise'' their v) ''Pairwise'' n \<noteq> None}"
      "list_pairwise pe svc1 h = ok_or InvalidState (pe_list_to_string pe (map (the \<circ> objects (put_object P ''Pairwise'' their v) ''Pairwise'') ns))"
    using sqlite_ty.list_pairwise_open [OF assms(1) c(2)] by blast
  have "v \<in> set (map (the \<circ> objects (put_object P ''Pairwise'' their v) ''Pairwise'') ns)"
    using ns(1) by (simp add: image_iff) (rule exI [of _ their], simp)
  with ns(2) c(3) have "\<exists>vs v. list_pairwise pe svc1 h = ok_or InvalidState (pe_list_to_string pe vs) \<and> v \<in> set vs \<and>
      dc_pairwise_from_str (dn_codec (pe_dn pe)) v = Some ?pw" by blast
  moreover have "\<exists>svc2. set_pairwise_metadata pe rnd svc1 h their m' = (Ok (), svc2) \<and>
      get_pairwise pe svc2 h their = ok_or InvalidState (pe_info_to_string pe \<lparr>pi_my_did = my, pi_metadata = m'\<rparr>)" for m'
  proof -
    obtain v' svc2 where s: "set_pairwise_metadata pe rnd svc1 h their m' = (Ok (), svc2)"
        "wallet_open sqlite_ok sqlite_content (pe_wallet pe) (sqlite_type senv tenv) h (put_object (put_object P ''Pairwise'' their v) ''Pairwise'' their v') svc2"
        "dc_pairwise_from_str (dn_codec (pe_dn pe)) v' = Some (?pw\<lparr>pw_metadata := m'\<rparr>)"
      by (rule sqlite_ty.set_metadata_at [OF assms(1) c(2) assms(3) at])
    then have "pairwise_at pe (put_object (put_object P ''Pairwise'' their v) ''Pairwise'' their v') their (?pw\<lparr>pw_metadata := m'\<rparr>)"
      by (simp add: pairwise_at_def)
    from sqlite_ty.get_pairwise_at(1) [OF assms(1) s(2) this] s(1) show ?thesis by (simp add: pairwise_info_from_def)
  qed
  ultimately show ?thesis
    using False c(1) again sqlite_ty.get_pairwise_at [OF assms(1) c(2) at] by (simp add: pairwise_info_from_def)
qed

definition sample_pe :: PairwiseEnv where
  "sample_pe = \<lparr>pe_dn = sample_dn, pe_info_to_string = \<lambda>i. Some (pi_my_did i), pe_list_to_string = \<lambda>vs. Some (concat vs)\<rparr>"

text \<open>A wallet with the DIDs of a relation.\<close>

lemma sample_parties:
  obtains P svc where "sample_has P svc" "objects P ''Did'' ''me'' \<noteq> None" "objects P ''TheirDid'' ''you'' \<noteq> None" "objects P ''Pairwise'' ''you'' = None"
    "pairwise_ok sample_dn P"
proof -
  have rnd: "fresh_ok (replicate 32 1, replicate 12 1, replicate 12 2)" by (simp add: fresh_ok_def KEYBYTES_def NONCEBYTES_def)
  obtain json svc where s: "sample_has (put_object (\<lambda>_ _. None) ''Did'' ''me'' json) svc"
    by (rule sample_with_did [OF sample_has_empty, of "''me''" "''k''"]) (simp_all add: rust_str_def)
  have valid: "rust_str (d_did \<lparr>d_did = ''you'', d_verkey = ''k''\<rparr>)" by (simp add: rust_str_def)
  obtain json' svc' where "sample_has (put_object (put_object (\<lambda>_ _. None) ''Did'' ''me'' json) ''TheirDid'' ''you'' json') svc'"
    by (rule sqlite_ty.add_did_open [OF sample_dn_ok s [unfolded object_type_def] rnd rust_str_types(2) valid, folded object_type_def]) simp
  then show ?thesis by (rule that) (simp_all add: pairwise_ok_def)
qed

theorem pairwise_created_is_read_witness:
  "\<exists>svc svc1. create_pairwise sample_pe (replicate 32 1, replicate 12 1, replicate 12 2) (svc :: (string \<times> string, SqliteDb) WalletService) 1 ''you'' ''me'' None =
     (Ok (), svc1) \<and> get_pairwise sample_pe svc1 1 ''you'' = Ok ''me''"
proof -
  obtain P svc where p: "sample_has P svc" "objects P ''Did'' ''me'' \<noteq> None" "objects P ''TheirDid'' ''you'' \<noteq> None" "objects P ''Pairwise'' ''you'' = None"
    by (rule sample_parties)
  have dn: "pe_dn sample_pe = sample_dn" by (simp add: sample_pe_def)
  have rnd: "fresh_ok (replicate 32 1, replicate 12 1, replicate 12 2)" by (simp add: fresh_ok_def KEYBYTES_def NONCEBYTES_def)
  from pairwise_created_is_read [where pe = sample_pe, unfolded dn, OF sample_dn_ok p(1) [unfolded object_type_def] rnd p(4), of "''me''" None] p(2,3)
  show ?thesis by (auto simp: sample_pe_def)
qed

text \<open>
  C38: Relations stay readable under the DID they are for. Every sequence of the commands on an open wallet whose relations can be read and are stored under
  the DID they name keeps this, and leaves all records of other types as they are; so the wallet stays one whose DIDs can be qualified.
\<close>

theorem pairwise_names_agree:
  assumes "did_env_ok (pe_dn pe) senv" and "\<forall>(rnd, cmd) \<in> set xs. fresh_ok rnd \<and> pc_wallet cmd = h"
    and "wallet_open sqlite_ok sqlite_content (pe_wallet pe) (sqlite_type senv tenv) h P svc" and "pairwise_ok (pe_dn pe) P"
  shows "\<exists>P'. wallet_open sqlite_ok sqlite_content (pe_wallet pe) (sqlite_type senv tenv) h P'
      (snd (run_steps (\<lambda>(rnd, cmd). pairwise_execute pe rnd cmd) xs svc)) \<and> pairwise_ok (pe_dn pe) P' \<and>
    (\<forall>t n. t \<noteq> ''Pairwise'' \<longrightarrow> objects P' t n = objects P t n)"
  by (rule sqlite_ty.pairwise_run [OF assms])

theorem pairwise_names_agree_witness:
  "\<exists>svc P'. sample_has P' (snd (run_steps (\<lambda>(rnd, cmd). pairwise_execute sample_pe rnd cmd)
       [((replicate 32 1, replicate 12 1, replicate 12 2), PC_CreatePairwise 1 ''you'' ''me'' None),
        ((replicate 32 1, replicate 12 1, replicate 12 2), PC_SetPairwiseMetadata 1 ''you'' (Some ''x''))] svc)) \<and>
     pairwise_ok sample_dn P' \<and> objects P' ''Did'' ''me'' \<noteq> None"
proof -
  obtain P svc where p: "sample_has P svc" "objects P ''Did'' ''me'' \<noteq> None" "pairwise_ok sample_dn P"
    by (rule sample_parties)
  have dn: "pe_dn sample_pe = sample_dn" by (simp add: sample_pe_def)
  let ?xs = "[((replicate 32 1, replicate 12 1, replicate 12 2), PC_CreatePairwise 1 ''you'' ''me'' None),
        ((replicate 32 1, replicate 12 1, replicate 12 2), PC_SetPairwiseMetadata 1 ''you'' (Some ''x''))] :: (random \<times> PairwiseCommand) list"
  have xs: "\<forall>(rnd, cmd) \<in> set ?xs. fresh_ok rnd \<and> pc_wallet cmd = 1" by (simp add: fresh_ok_def KEYBYTES_def NONCEBYTES_def)
  obtain P' where "sample_has P' (snd (run_steps (\<lambda>(rnd, cmd). pairwise_execute sample_pe rnd cmd) ?xs svc))" "pairwise_ok sample_dn P'"
      "\<forall>t n. t \<noteq> ''Pairwise'' \<longrightarrow> objects P' t n = objects P t n"
    using pairwise_names_agree [where pe = sample_pe, unfolded dn, OF sample_dn_ok xs p(1) [unfolded object_type_def] p(3), folded object_type_def] by blast
  with p(2) show ?thesis by (intro exI [of _ svc] exI [of _ P']) simp
qed

end
