(* ===== verification/Anoncreds_Ids.thy ===== *)
theory Anoncreds_Ids
  imports Dids
begin

text \<open>
  Identifiers of the anonymous credentials: \<open>SchemaId\<close>, \<open>CredentialDefinitionId\<close> and
  \<open>RevocationRegistryId\<close> (\<open>domain/anoncreds/schema.rs\<close>, \<open>credential_definition.rs\<close> and
  \<open>revocation_registry_definition.rs\<close> of libindy). An identifier is text of fields between colons; \<open>new\<close>
  writes it, \<open>parts\<close> reads it, \<open>qualify\<close> and \<open>to_unqualified\<close> change the DID method of all its parts. The protocol
  version of the library (\<open>ProtocolVersion\<close>) is an argument.
\<close>

section \<open>Fields\<close>

definition DELIMITER :: string where "DELIMITER = '':''"

text \<open>\<open>str::split_terminator\<close>: an empty last field is not given.\<close>

definition split_terminator :: "char \<Rightarrow> string \<Rightarrow> string list" where
  "split_terminator c s = (let ps = split_on c s in if last ps = [] then butlast ps else ps)"

text \<open>\<open>[&str]::join\<close>.\<close>

fun join :: "string list \<Rightarrow> string \<Rightarrow> string" where
  "join [] sep = []"
| "join [p] sep = p"
| "join (p # ps) sep = p @ sep @ join ps sep"

section \<open>Schema identifiers\<close>

definition SCHEMA_PREFIX :: string where "SCHEMA_PREFIX = ''schema''"

definition SCHEMA_MARKER :: string where "SCHEMA_MARKER = ''2''"

type_synonym SchemaId = string

definition schema_id_new :: "DidValue \<Rightarrow> string \<Rightarrow> string \<Rightarrow> SchemaId" where
  "schema_id_new did name version =
     (let i = did @ DELIMITER @ SCHEMA_MARKER @ DELIMITER @ name @ DELIMITER @ version
      in case method_of did of Some m \<Rightarrow> set_method SCHEMA_PREFIX i m | None \<Rightarrow> i)"

definition schema_id_parts :: "SchemaId \<Rightarrow> (DidValue \<times> string \<times> string) option" where
  "schema_id_parts s =
     (let parts = split_terminator CHR '':'' s
      in if length parts = 1 then None
         else if length parts = 4 then Some (parts ! 0, parts ! 2, parts ! 3)
         else if length parts = 8 then Some (join (take 3 (drop 2 parts)) DELIMITER, parts ! 6, parts ! 7)
         else None)"

definition did_qualify :: "DidValue \<Rightarrow> string \<Rightarrow> DidValue" where
  "did_qualify did method_name = set_method DID_PREFIX did method_name"

definition did_to_unqualified :: "DidValue \<Rightarrow> DidValue" where
  "did_to_unqualified did = to_unqualified did"

definition schema_id_qualify :: "string \<Rightarrow> SchemaId \<Rightarrow> SchemaId" where
  "schema_id_qualify method_name s =
     (case schema_id_parts s of
        Some (did, name, version) \<Rightarrow> schema_id_new (did_qualify did method_name) name version
      | None \<Rightarrow> s)"

definition schema_id_to_unqualified :: "SchemaId \<Rightarrow> SchemaId" where
  "schema_id_to_unqualified s =
     (case schema_id_parts s of
        Some (did, name, version) \<Rightarrow> schema_id_new (did_to_unqualified did) name version
      | None \<Rightarrow> s)"

text \<open>\<open>str::parse::<i32>\<close>: a sign, at least one digit, and a value in the range of the type.\<close>

definition is_digit :: "char \<Rightarrow> bool" where
  "is_digit c \<longleftrightarrow> (let n = of_char c :: nat in 48 \<le> n \<and> n \<le> 57)"

definition digits_value :: "string \<Rightarrow> int" where
  "digits_value s = foldl (\<lambda>v c. 10 * v + (of_char c - 48)) 0 s"

definition parse_i32 :: "string \<Rightarrow> int option" where
  "parse_i32 s =
     (let negative = starts_with s ''-'';
          digits = (if negative \<or> starts_with s ''+'' then tl s else s);
          v = (if negative then - digits_value digits else digits_value digits)
      in if digits \<noteq> [] \<and> list_all is_digit digits \<and> - (2 ^ 31) \<le> v \<and> v < 2 ^ 31 then Some v else None)"

definition schema_id_validate :: "SchemaId \<Rightarrow> unit option" where
  "schema_id_validate s =
     (if parse_i32 s \<noteq> None then Some () else map_option (\<lambda>_. ()) (schema_id_parts s))"

section \<open>Schemas\<close>

definition MAX_ATTRIBUTES_COUNT :: nat where "MAX_ATTRIBUTES_COUNT = 125"

text \<open>A \<open>HashSet\<close> of names is a list of distinct names.\<close>

record SchemaV1 =
  sc_id :: SchemaId
  sc_name :: string
  sc_version :: string
  sc_attr_names :: "string list"
  sc_seq_no :: "nat option"

definition schema_to_unqualified :: "SchemaV1 \<Rightarrow> SchemaV1" where
  "schema_to_unqualified schema = schema\<lparr>sc_id := schema_id_to_unqualified (sc_id schema)\<rparr>"

definition attribute_names_validate :: "string list \<Rightarrow> unit option" where
  "attribute_names_validate names =
     (if names = [] then None else if length names > MAX_ATTRIBUTES_COUNT then None else Some ())"

definition schema_validate :: "SchemaV1 \<Rightarrow> unit option" where
  "schema_validate schema =
     Option.bind (attribute_names_validate (sc_attr_names schema)) (\<lambda>_.
     Option.bind (schema_id_validate (sc_id schema)) (\<lambda>_.
       case schema_id_parts (sc_id schema) of
         Some (_, name, version) \<Rightarrow>
           if name \<noteq> sc_name schema then None else if version \<noteq> sc_version schema then None else Some ()
       | None \<Rightarrow> Some ()))"

section \<open>Credential definition identifiers\<close>

definition CRED_DEF_PREFIX :: string where "CRED_DEF_PREFIX = ''creddef''"

definition CRED_DEF_MARKER :: string where "CRED_DEF_MARKER = ''3''"

definition is_node_1_3 :: "nat \<Rightarrow> bool" where
  "is_node_1_3 protocol \<longleftrightarrow> protocol = 1"

type_synonym CredentialDefinitionId = string

definition cred_def_id_new :: "nat \<Rightarrow> DidValue \<Rightarrow> SchemaId \<Rightarrow> string \<Rightarrow> string \<Rightarrow> CredentialDefinitionId" where
  "cred_def_id_new protocol did schema_id signature_type tag =
     (let i = (if is_node_1_3 protocol
               then did @ DELIMITER @ CRED_DEF_MARKER @ DELIMITER @ signature_type @ DELIMITER @ schema_id
               else (let tag' = (if tag = [] then [] else DELIMITER @ tag)
                     in did @ DELIMITER @ CRED_DEF_MARKER @ DELIMITER @ signature_type @ DELIMITER @ schema_id @ tag'))
      in case method_of did of Some m \<Rightarrow> set_method CRED_DEF_PREFIX i m | None \<Rightarrow> i)"

definition cred_def_id_parts :: "CredentialDefinitionId \<Rightarrow> (DidValue \<times> string \<times> SchemaId \<times> string) option" where
  "cred_def_id_parts s =
     (let parts = split_terminator CHR '':'' s
      in if length parts = 4 then Some (parts ! 0, parts ! 2, parts ! 3, [])
         else if length parts = 5 then Some (parts ! 0, parts ! 2, parts ! 3, parts ! 4)
         else if length parts = 7 then Some (parts ! 0, parts ! 2, join (take 4 (drop 3 parts)) DELIMITER, [])
         else if length parts = 8 then Some (parts ! 0, parts ! 2, join (take 4 (drop 3 parts)) DELIMITER, parts ! 7)
         else if length parts = 9 then Some (join (take 3 (drop 2 parts)) DELIMITER, parts ! 6, parts ! 7, parts ! 8)
         else if length parts = 16 then
           Some (join (take 3 (drop 2 parts)) DELIMITER, parts ! 6, join (take 8 (drop 7 parts)) DELIMITER, parts ! 15)
         else None)"

definition issuer_did :: "CredentialDefinitionId \<Rightarrow> DidValue option" where
  "issuer_did s = map_option fst (cred_def_id_parts s)"

definition cred_def_id_qualify :: "nat \<Rightarrow> string \<Rightarrow> CredentialDefinitionId \<Rightarrow> CredentialDefinitionId" where
  "cred_def_id_qualify protocol method_name s =
     (case cred_def_id_parts s of
        Some (did, signature_type, schema_id, tag) \<Rightarrow>
          cred_def_id_new protocol (did_qualify did method_name) (schema_id_qualify method_name schema_id)
            signature_type tag
      | None \<Rightarrow> s)"

definition cred_def_id_to_unqualified :: "nat \<Rightarrow> CredentialDefinitionId \<Rightarrow> CredentialDefinitionId" where
  "cred_def_id_to_unqualified protocol s =
     (case cred_def_id_parts s of
        Some (did, signature_type, schema_id, tag) \<Rightarrow>
          cred_def_id_new protocol (did_to_unqualified did) (schema_id_to_unqualified schema_id) signature_type tag
      | None \<Rightarrow> s)"

definition cred_def_id_validate :: "CredentialDefinitionId \<Rightarrow> unit option" where
  "cred_def_id_validate s = map_option (\<lambda>_. ()) (cred_def_id_parts s)"

section \<open>Revocation registry identifiers\<close>

definition REV_REG_PREFIX :: string where "REV_REG_PREFIX = ''revreg''"

definition REV_REG_DEG_MARKER :: string where "REV_REG_DEG_MARKER = ''4''"

type_synonym RevocationRegistryId = string

definition rev_reg_id_new :: "DidValue \<Rightarrow> CredentialDefinitionId \<Rightarrow> string \<Rightarrow> string \<Rightarrow> RevocationRegistryId" where
  "rev_reg_id_new did cred_def_id rev_reg_type tag =
     (let i = did @ DELIMITER @ REV_REG_DEG_MARKER @ DELIMITER @ cred_def_id @ DELIMITER @ rev_reg_type @ DELIMITER @ tag
      in case method_of did of Some m \<Rightarrow> qualify i REV_REG_PREFIX m | None \<Rightarrow> i)"

text \<open>
  The captures of \<open>(^revreg:(?P<method>[a-z0-9]+):)?(?P<did>.+):4:(?P<cred_def_id>.+):(?P<rev_reg_type>.+):(?P<tag>.+)$\<close>,
  by backtracking: a group \<open>.+\<close> is as long as the rest of the pattern allows. \<open>splits\<close> are the ways to match a group
  and the separator after it, the longest first. The pattern is not anchored and the dot does not match a newline,
  so that without the optional group the match begins after the last newline.
\<close>

definition splits :: "string \<Rightarrow> string \<Rightarrow> (string \<times> string) list" where
  "splits sep s =
     rev (List.map_filter (\<lambda>i. if 0 < i \<and> starts_with (drop i s) sep then Some (take i s, drop (i + length sep) s) else None)
       [0..<length s])"

fun first_some :: "('a \<Rightarrow> 'b option) \<Rightarrow> 'a list \<Rightarrow> 'b option" where
  "first_some f [] = None"
| "first_some f (x # xs) = (case f x of Some y \<Rightarrow> Some y | None \<Rightarrow> first_some f xs)"

definition match_tail :: "string \<Rightarrow> (string \<times> string) option" where
  "match_tail s = first_some (\<lambda>(rev_reg_type, tag). if tag \<noteq> [] then Some (rev_reg_type, tag) else None) (splits '':'' s)"

definition match_cred_def :: "string \<Rightarrow> (string \<times> string \<times> string) option" where
  "match_cred_def s = first_some (\<lambda>(cred_def_id, rest). map_option (Pair cred_def_id) (match_tail rest)) (splits '':'' s)"

definition match_did :: "string \<Rightarrow> (string \<times> string \<times> string \<times> string) option" where
  "match_did s = first_some (\<lambda>(did, rest). map_option (Pair did) (match_cred_def rest)) (splits '':4:'' s)"

definition rev_reg_id_parts :: "RevocationRegistryId \<Rightarrow> (DidValue \<times> CredentialDefinitionId \<times> string \<times> string) option" where
  "rev_reg_id_parts s =
     (let line = rev (takeWhile (\<lambda>c. c \<noteq> CHR 0x0A) (rev s));
          rest = drop 7 s;
          qualified = (if line = s \<and> starts_with s ''revreg:'' \<and> takeWhile is_method_char rest \<noteq> [] \<and>
                          starts_with (dropWhile is_method_char rest) '':''
                       then match_did (tl (dropWhile is_method_char rest)) else None)
      in case qualified of Some p \<Rightarrow> Some p | None \<Rightarrow> match_did line)"

definition rev_reg_id_to_unqualified :: "nat \<Rightarrow> RevocationRegistryId \<Rightarrow> RevocationRegistryId" where
  "rev_reg_id_to_unqualified protocol s =
     (case rev_reg_id_parts s of
        Some (did, cred_def_id, rev_reg_type, tag) \<Rightarrow>
          rev_reg_id_new (did_to_unqualified did) (cred_def_id_to_unqualified protocol cred_def_id) rev_reg_type tag
      | None \<Rightarrow> s)"

definition rev_reg_id_validate :: "RevocationRegistryId \<Rightarrow> unit option" where
  "rev_reg_id_validate s = map_option (\<lambda>_. ()) (rev_reg_id_parts s)"

section \<open>Credential definitions and revocation registry definitions\<close>

text \<open>An object of the cryptographic library is its serialised form.\<close>

type_synonym UrsaObject = string

record CredentialDefinitionData =
  cv_primary :: UrsaObject
  cv_revocation :: "UrsaObject option"

datatype SignatureType = CL

definition CL_SIGNATURE_TYPE :: string where "CL_SIGNATURE_TYPE = ''CL''"

definition signature_type_to_str :: "SignatureType \<Rightarrow> string" where
  "signature_type_to_str t = (case t of CL \<Rightarrow> CL_SIGNATURE_TYPE)"

record CredentialDefinitionV1 =
  cd_id :: CredentialDefinitionId
  cd_schema_id :: SchemaId
  cd_signature_type :: SignatureType
  cd_tag :: string
  cd_value :: CredentialDefinitionData

definition cred_def_to_unqualified :: "nat \<Rightarrow> CredentialDefinitionV1 \<Rightarrow> CredentialDefinitionV1" where
  "cred_def_to_unqualified protocol cred_def =
     cred_def\<lparr>cd_id := cred_def_id_to_unqualified protocol (cd_id cred_def),
       cd_schema_id := schema_id_to_unqualified (cd_schema_id cred_def)\<rparr>"

definition cred_def_validate :: "CredentialDefinitionV1 \<Rightarrow> unit option" where
  "cred_def_validate cred_def =
     Option.bind (cred_def_id_validate (cd_id cred_def)) (\<lambda>_. schema_id_validate (cd_schema_id cred_def))"

datatype IssuanceType = ISSUANCE_BY_DEFAULT | ISSUANCE_ON_DEMAND

definition issuance_type_to_bool :: "IssuanceType \<Rightarrow> bool" where
  "issuance_type_to_bool t \<longleftrightarrow> t = ISSUANCE_BY_DEFAULT"

datatype RegistryType = CL_ACCUM

definition registry_type_to_str :: "RegistryType \<Rightarrow> string" where
  "registry_type_to_str t = (case t of CL_ACCUM \<Rightarrow> ''CL_ACCUM'')"

record RevocationRegistryConfig =
  rc_issuance_type :: "IssuanceType option"
  rc_max_cred_num :: "nat option"

definition rev_reg_config_validate :: "RevocationRegistryConfig \<Rightarrow> unit option" where
  "rev_reg_config_validate config =
     (case rc_max_cred_num config of Some num \<Rightarrow> if num = 0 then None else Some () | None \<Rightarrow> Some ())"

record RevocationRegistryDefinitionValue =
  rv_issuance_type :: IssuanceType
  rv_max_cred_num :: nat
  rv_accum_key :: UrsaObject
  rv_tails_hash :: string
  rv_tails_location :: string

record RevocationRegistryDefinitionV1 =
  rd_id :: RevocationRegistryId
  rd_revoc_def_type :: RegistryType
  rd_tag :: string
  rd_cred_def_id :: CredentialDefinitionId
  rd_value :: RevocationRegistryDefinitionValue

definition rev_reg_def_to_unqualified :: "nat \<Rightarrow> RevocationRegistryDefinitionV1 \<Rightarrow> RevocationRegistryDefinitionV1" where
  "rev_reg_def_to_unqualified protocol rev_reg_def =
     rev_reg_def\<lparr>rd_id := rev_reg_id_to_unqualified protocol (rd_id rev_reg_def),
       rd_cred_def_id := cred_def_id_to_unqualified protocol (rd_cred_def_id rev_reg_def)\<rparr>"

definition rev_reg_def_validate :: "RevocationRegistryDefinitionV1 \<Rightarrow> unit option" where
  "rev_reg_def_validate rev_reg_def = rev_reg_id_validate (rd_id rev_reg_def)"

section \<open>Fields of a text\<close>

lemma split_on_not_Nil [simp]: "split_on c s \<noteq> []"
  by (cases s) (auto split: list.split)

lemma split_on_append [simp]: "split_on c (a @ c # b) = split_on c a @ split_on c b"
proof (induction a)
  case (Cons x a)
  then show ?case by (cases "split_on c a") (auto split: list.split)
qed simp

lemma split_on_plain: "c \<notin> set w \<Longrightarrow> split_on c w = [w]"
  by (induction w) auto

lemma split_on_field [simp]: "c \<notin> set w \<Longrightarrow> split_on c (w @ c # b) = w # split_on c b"
  by (simp add: split_on_plain)

text \<open>The fields of an identifier: texts without colon and newline.\<close>

definition field :: "string \<Rightarrow> bool" where
  "field w \<longleftrightarrow> CHR '':'' \<notin> set w \<and> CHR 0x0A \<notin> set w"

lemma field_simps [simp]:
  "field w \<Longrightarrow> CHR '':'' \<notin> set w" "field w \<Longrightarrow> CHR 0x0A \<notin> set w" "field w \<Longrightarrow> split_on CHR '':'' w = [w]"
  by (auto simp: field_def split_on_plain)

lemma method_name_field:
  assumes "did_method_validate m = Some ()"
  shows "field m" "m \<noteq> []" "list_all is_method_char m"
proof -
  show m: "m \<noteq> []" "list_all is_method_char m" using assms by (auto simp: did_method_validate_def split: if_splits)
  moreover have "\<not> is_method_char CHR 0x0A" by (simp add: is_method_char_def)
  ultimately show "field m" unfolding field_def list_all_iff by (metis method_colon)
qed

lemma short_did [simp]: "field did \<Longrightarrow> method_of did = None" "field did \<Longrightarrow> did_to_unqualified did = did"
  by (simp_all add: method_of_def did_to_unqualified_def to_unqualified_def captures_no_colon)

lemma qualified_did:
  assumes "field did" and "did_method_validate m = Some ()"
  shows "method_of (did_new did (Some m)) = Some m" "did_to_unqualified (did_new did (Some m)) = did"
    "did_qualify did m = did_new did (Some m)"
  using captures_qualify [OF did_prefix_ok assms(2), of did] assms(1)
  by (simp_all add: method_of_def did_to_unqualified_def to_unqualified_def did_new_def set_method_def did_qualify_def)

lemmas id_simps = Let_def split_terminator_def DELIMITER_def did_new_def set_method_def qualify_def DID_PREFIX_def
  SCHEMA_MARKER_def SCHEMA_PREFIX_def CRED_DEF_MARKER_def CRED_DEF_PREFIX_def REV_REG_DEG_MARKER_def REV_REG_PREFIX_def

section \<open>Round trips of identifiers\<close>

lemma schema_id_parts_new:
  assumes "field did" "field name" "field version" and "version \<noteq> []"
  shows "schema_id_parts (schema_id_new did name version) = Some (did, name, version)"
  using assms by (simp add: schema_id_parts_def schema_id_new_def id_simps)

lemma schema_id_parts_new_qualified:
  assumes "field did" "field name" "field version" and "version \<noteq> []" and "did_method_validate m = Some ()"
  shows "schema_id_parts (schema_id_new (did_new did (Some m)) name version) = Some (did_new did (Some m), name, version)"
  using assms qualified_did [OF assms(1,5)] method_name_field [OF assms(5)]
  by (simp add: schema_id_parts_def schema_id_new_def) (simp add: id_simps)

text \<open>
  A schema identifier gives back what it was made of, with a short DID and with a qualified one, and changing the
  method of its DID goes both ways.
\<close>

lemma schema_id_roundtrip:
  assumes "field did" "field name" "field version" and "version \<noteq> []" and "did_method_validate m = Some ()"
  shows "schema_id_parts (schema_id_new did name version) = Some (did, name, version) \<and>
    schema_id_parts (schema_id_new (did_new did (Some m)) name version) = Some (did_new did (Some m), name, version) \<and>
    schema_id_qualify m (schema_id_new did name version) = schema_id_new (did_new did (Some m)) name version \<and>
    schema_id_to_unqualified (schema_id_new (did_new did (Some m)) name version) = schema_id_new did name version \<and>
    schema_id_to_unqualified (schema_id_new did name version) = schema_id_new did name version"
  using assms schema_id_parts_new [OF assms(1-4)] schema_id_parts_new_qualified [OF assms] qualified_did [OF assms(1,5)]
  by (simp add: schema_id_qualify_def schema_id_to_unqualified_def)

lemma schema_id_fields:
  assumes "field did" "field name" "field version"
  shows "split_on CHR '':'' (schema_id_new did name version @ CHR '':'' # r) = [did, ''2'', name, version] @ split_on CHR '':'' r"
  using assms by (simp add: schema_id_new_def id_simps)

lemma schema_id_fields_qualified:
  assumes "field did" "field name" "field version" and "did_method_validate m = Some ()"
  shows "split_on CHR '':'' (schema_id_new (did_new did (Some m)) name version @ CHR '':'' # r) =
    [''schema'', m, ''did'', m, did, ''2'', name, version] @ split_on CHR '':'' r"
  using assms method_name_field [OF assms(4)]
  by (simp add: schema_id_new_def qualified_did [OF assms(1,4)]) (simp add: id_simps)

text \<open>The identifier of a credential definition, with a tag, for nodes after version 1.3.\<close>

lemma cred_def_id_parts_new:
  assumes "protocol \<noteq> 1" and "field did" "field sdid" "field name" "field version" "field sig" "field tag" and "tag \<noteq> []"
  shows "cred_def_id_parts (cred_def_id_new protocol did (schema_id_new sdid name version) sig tag) =
    Some (did, sig, schema_id_new sdid name version, tag)"
proof -
  have "split_on CHR '':'' (cred_def_id_new protocol did (schema_id_new sdid name version) sig tag) =
      [did, ''3'', sig, sdid, ''2'', name, version, tag]"
    using assms schema_id_fields [OF assms(3-5), of tag]
    by (simp add: cred_def_id_new_def is_node_1_3_def id_simps)
  then show ?thesis using assms by (simp add: cred_def_id_parts_def schema_id_new_def id_simps)
qed

lemma cred_def_id_parts_new_qualified:
  assumes "protocol \<noteq> 1" and "field did" "field sdid" "field name" "field version" "field sig" "field tag" and "tag \<noteq> []"
    and "did_method_validate m = Some ()"
  shows "cred_def_id_parts (cred_def_id_new protocol (did_new did (Some m)) (schema_id_new (did_new sdid (Some m)) name version) sig tag) =
    Some (did_new did (Some m), sig, schema_id_new (did_new sdid (Some m)) name version, tag)"
proof -
  have "split_on CHR '':'' (cred_def_id_new protocol (did_new did (Some m)) (schema_id_new (did_new sdid (Some m)) name version) sig tag) =
      [''creddef'', m, ''did'', m, did, ''3'', sig, ''schema'', m, ''did'', m, sdid, ''2'', name, version, tag]"
    using assms method_name_field [OF assms(9)] schema_id_fields_qualified [OF assms(3-5,9), of tag]
    by (simp add: cred_def_id_new_def qualified_did [OF assms(2,9)] is_node_1_3_def) (simp add: id_simps)
  then show ?thesis using assms
    by (simp add: cred_def_id_parts_def schema_id_new_def qualified_did [OF assms(3,9)] Let_def split_terminator_def) (simp add: id_simps)
qed

lemma cred_def_id_requalify:
  assumes "protocol \<noteq> 1" and "field did" "field sdid" "field name" "field version" "field sig" "field tag" and "tag \<noteq> []"
    and "version \<noteq> []" and "did_method_validate m = Some ()"
  shows "cred_def_id_qualify protocol m (cred_def_id_new protocol did (schema_id_new sdid name version) sig tag) =
      cred_def_id_new protocol (did_new did (Some m)) (schema_id_new (did_new sdid (Some m)) name version) sig tag"
    "cred_def_id_to_unqualified protocol (cred_def_id_new protocol (did_new did (Some m)) (schema_id_new (did_new sdid (Some m)) name version) sig tag) =
      cred_def_id_new protocol did (schema_id_new sdid name version) sig tag"
    "cred_def_id_to_unqualified protocol (cred_def_id_new protocol did (schema_id_new sdid name version) sig tag) =
      cred_def_id_new protocol did (schema_id_new sdid name version) sig tag"
  using cred_def_id_parts_new [OF assms(1-8)] cred_def_id_parts_new_qualified [OF assms(1-8,10)] assms
    schema_id_roundtrip [OF assms(3-5,9,10)] qualified_did [OF assms(2,10)]
  by (simp_all add: cred_def_id_qualify_def cred_def_id_to_unqualified_def)

text \<open>
  Without a tag the qualified identifier has one field less and is read as another form: the issuer is the text
  \<open>creddef\<close>.
\<close>

lemma cred_def_id_untagged_misread:
  assumes "field did" "field sno" "field sig" and "sno \<noteq> []" and "did_method_validate m = Some ()"
  shows "issuer_did (cred_def_id_new protocol (did_new did (Some m)) sno sig []) = Some ''creddef''"
proof -
  have "split_on CHR '':'' (cred_def_id_new protocol (did_new did (Some m)) sno sig []) =
      [''creddef'', m, ''did'', m, did, ''3'', sig, sno]"
    using assms method_name_field [OF assms(5)]
    by (simp add: cred_def_id_new_def qualified_did [OF assms(1,5)]) (simp add: id_simps)
  then show ?thesis using assms by (simp add: issuer_did_def cred_def_id_parts_def id_simps)
qed

section \<open>Reading a revocation registry identifier\<close>

lemma length_split_on: "length (split_on c s) = Suc (count_list s c)"
  by (induction s) (auto split: list.split)

lemma count_list_pos: "count_list (b @ [c] @ a) c \<ge> 1"
  by simp

lemma split_on_single: "length (split_on c s) = 1 \<Longrightarrow> c \<notin> set s"
  by (simp add: length_split_on count_list_0_iff)

lemma set_splits: "(b, a) \<in> set (splits sep s) \<Longrightarrow> b \<noteq> [] \<and> s = b @ sep @ a"
proof -
  assume "(b, a) \<in> set (splits sep s)"
  then obtain i where i: "i < length s" "0 < i" "starts_with (drop i s) sep" "b = take i s" "a = drop (i + length sep) s"
    by (auto simp: splits_def List.map_filter_def split: if_splits)
  then obtain z where z: "drop i s = sep @ z" by (auto simp: starts_with_iff)
  have "drop (i + length sep) s = drop (length sep) (drop i s)" by (simp add: add.commute)
  then have "a = z" using i(5) z by simp
  with z i have "s = b @ sep @ a" by (metis append_take_drop_id)
  moreover have "b \<noteq> []" using i by auto
  ultimately show ?thesis by blast
qed

lemma first_some_append:
  "first_some f (xs @ ys) = (case first_some f xs of Some y \<Rightarrow> Some y | None \<Rightarrow> first_some f ys)"
  by (induction xs) (auto split: option.split)

lemma first_some_None: "(\<And>x. x \<in> set xs \<Longrightarrow> f x = None) \<Longrightarrow> first_some f xs = None"
  by (induction xs) auto

lemma first_some_in: "first_some f xs = Some y \<Longrightarrow> \<exists>x \<in> set xs. f x = Some y"
  by (induction xs) (auto split: option.splits)

text \<open>The longest match whose continuation succeeds is the one taken.\<close>

lemma first_some_longest:
  assumes s: "s = b @ sep @ a" and "b \<noteq> []" and "sep \<noteq> []" and y: "f (b, a) = Some y"
    and longer: "\<And>b' a'. s = b' @ sep @ a' \<Longrightarrow> length b < length b' \<Longrightarrow> f (b', a') = None"
  shows "first_some f (splits sep s) = Some y"
proof -
  define g where "g i = (if 0 < i \<and> starts_with (drop i s) sep then Some (take i s, drop (i + length sep) s) else None)" for i
  have "length b < length s" using assms(3) s by (cases sep) auto
  then have "[0..<length s] = [0..<length b] @ length b # [Suc (length b)..<length s]"
    using upt_add_eq_append [of 0 "length b" "length s - length b"] upt_conv_Cons [of "length b" "length s"] by simp
  moreover have "g (length b) = Some (b, a)" using assms(2) s by (simp add: g_def)
  ultimately have eq: "splits sep s =
      rev (List.map_filter g [Suc (length b)..<length s]) @ (b, a) # rev (List.map_filter g [0..<length b])"
    unfolding splits_def g_def [symmetric] by (simp add: List.map_filter_def)
  have "first_some f (rev (List.map_filter g [Suc (length b)..<length s])) = None"
  proof (rule first_some_None)
    fix x
    assume mem: "x \<in> set (rev (List.map_filter g [Suc (length b)..<length s]))"
    then obtain i where i: "length b < i" "i < length s" "g i = Some x"
      by (auto simp: List.map_filter_def Suc_le_eq)
    then have x: "x = (take i s, drop (i + length sep) s)" by (auto simp: g_def split: if_splits)
    have "x \<in> set (splits sep s)" unfolding eq using mem by simp
    with x have "s = take i s @ sep @ drop (i + length sep) s" using set_splits by blast
    with i x longer [of "take i s" "drop (i + length sep) s"] show "f x = None" by simp
  qed
  with eq y show ?thesis by (simp add: first_some_append)
qed

lemma match_tail_ok:
  assumes "field tag" and "ty \<noteq> []" and "tag \<noteq> []"
  shows "match_tail (ty @ '':'' @ tag) = Some (ty, tag)"
  unfolding match_tail_def
proof (rule first_some_longest [where b = ty and a = tag])
  fix b' a' :: string
  assume eq: "ty @ '':'' @ tag = b' @ '':'' @ a'" and len: "length ty < length b'"
  then obtain x where x: "b' = ty @ CHR '':'' # x" "x @ CHR '':'' # a' = tag"
    by (auto simp: append_eq_append_conv2 append_eq_Cons_conv Cons_eq_append_conv)
  with assms(1) have False by (metis field_simps(1) in_set_conv_decomp)
  then show "(case (b', a') of (rev_reg_type, tag) \<Rightarrow> if tag \<noteq> [] then Some (rev_reg_type, tag) else None) = None" ..
qed (use assms in auto)

lemma match_tail_colon: "match_tail s = Some p \<Longrightarrow> count_list s CHR '':'' \<ge> 1"
proof -
  assume "match_tail s = Some p"
  then obtain b a where "(b, a) \<in> set (splits '':'' s)" unfolding match_tail_def by (auto dest!: first_some_in)
  then have "s = b @ '':'' @ a" using set_splits by blast
  then show ?thesis by simp
qed

lemma match_cred_def_colons: "match_cred_def s = Some p \<Longrightarrow> count_list s CHR '':'' \<ge> 2"
proof -
  assume "match_cred_def s = Some p"
  then obtain b a q where "(b, a) \<in> set (splits '':'' s)" "match_tail a = Some q"
    unfolding match_cred_def_def by (auto dest!: first_some_in)
  moreover from this have "s = b @ '':'' @ a" using set_splits by blast
  ultimately show ?thesis using match_tail_colon [of a q] by simp
qed

lemma match_cred_def_ok:
  assumes "field ty" "field tag" and "cd \<noteq> []" "ty \<noteq> []" "tag \<noteq> []"
  shows "match_cred_def (cd @ '':'' @ ty @ '':'' @ tag) = Some (cd, ty, tag)"
  unfolding match_cred_def_def
proof (rule first_some_longest [where b = cd and a = "ty @ '':'' @ tag"])
  show "(case (cd, ty @ '':'' @ tag) of (cred_def_id, rest) \<Rightarrow> map_option (Pair cred_def_id) (match_tail rest)) = Some (cd, ty, tag)"
    using match_tail_ok [OF assms(2,4,5)] by simp
next
  fix b' a' :: string
  assume eq: "cd @ '':'' @ ty @ '':'' @ tag = b' @ '':'' @ a'" and len: "length cd < length b'"
  then obtain x where x: "b' = cd @ CHR '':'' # x" "x @ CHR '':'' # a' = ty @ CHR '':'' # tag"
    by (auto simp: append_eq_append_conv2 append_eq_Cons_conv Cons_eq_append_conv)
  have "count_list (x @ CHR '':'' # a') CHR '':'' = 1"
    unfolding x(2) using assms(1,2) by (simp add: count_list_0_iff)
  then have "match_tail a' = None" using match_tail_colon [of a'] by (cases "match_tail a'") auto
  then show "(case (b', a') of (cred_def_id, rest) \<Rightarrow> map_option (Pair cred_def_id) (match_tail rest)) = None" by simp
qed (use assms in auto)

lemma match_did_ok:
  assumes "field ty" "field tag" and "did \<noteq> []" "cd \<noteq> []" "ty \<noteq> []" "tag \<noteq> []" and four: "''4'' \<notin> set (split_on CHR '':'' cd)"
  shows "match_did (did @ '':4:'' @ cd @ '':'' @ ty @ '':'' @ tag) = Some (did, cd, ty, tag)"
  unfolding match_did_def
proof (rule first_some_longest [where b = did and a = "cd @ '':'' @ ty @ '':'' @ tag"])
  show "(case (did, cd @ '':'' @ ty @ '':'' @ tag) of (did, rest) \<Rightarrow> map_option (Pair did) (match_cred_def rest)) = Some (did, cd, ty, tag)"
    using match_cred_def_ok [OF assms(1,2,4-6)] by simp
next
  fix b' a' :: string
  assume eq: "did @ '':4:'' @ cd @ '':'' @ ty @ '':'' @ tag = b' @ '':4:'' @ a'" and len: "length did < length b'"
  let ?f = "split_on CHR '':''"
  from eq len obtain x where x: "b' = did @ CHR '':'' # x"
    by (auto simp: append_eq_append_conv2 append_eq_Cons_conv Cons_eq_append_conv)
  have "?f (b' @ '':4:'' @ a') = ?f (did @ '':4:'' @ cd @ '':'' @ ty @ '':'' @ tag)" using eq by simp
  then have fields: "?f b' @ ''4'' # ?f a' = ?f did @ ''4'' # ?f cd @ [ty, tag]" using assms(1,2) by simp
  have more: "length (?f did) < length (?f b')" unfolding x by simp
  have "match_cred_def a' = None"
  proof (rule ccontr)
    assume "match_cred_def a' \<noteq> None"
    then have "length (?f a') \<ge> 3" using match_cred_def_colons [of a'] by (auto simp: length_split_on)
    moreover have "length (?f b') + length (?f a') = length (?f did) + length (?f cd) + 2"
      using arg_cong [OF fields, of length] by simp
    moreover define k where "k = length (?f b') - Suc (length (?f did))"
    ultimately have k: "length (?f b') = Suc (length (?f did)) + k" "k < length (?f cd)" using more by linarith+
    have "(?f b' @ ''4'' # ?f a') ! length (?f b') = ''4''" by simp
    then have "(?f did @ ''4'' # ?f cd @ [ty, tag]) ! length (?f b') = ''4''" by (simp only: fields)
    then have "?f cd ! k = ''4''" using k by (simp add: nth_append)
    with k four show False using nth_mem by metis
  qed
  then show "(case (b', a') of (did, rest) \<Rightarrow> map_option (Pair did) (match_cred_def rest)) = None" by simp
qed (use assms in auto)

lemma line_whole: "CHR 0x0A \<notin> set s \<Longrightarrow> rev (takeWhile (\<lambda>c. c \<noteq> CHR 0x0A) (rev s)) = s"
proof -
  assume "CHR 0x0A \<notin> set s"
  then have "takeWhile (\<lambda>c. c \<noteq> CHR 0x0A) (rev s) = rev s" by (intro takeWhile_eq_all_conv [THEN iffD2]) auto
  then show ?thesis by (simp only: rev_rev_ident)
qed

lemma rev_reg_id_parts_new:
  assumes "field did" "field ty" "field tag" and "did \<noteq> []" "cd \<noteq> []" "ty \<noteq> []" "tag \<noteq> []"
    and "did \<noteq> ''revreg''" and "CHR 0x0A \<notin> set cd" and "''4'' \<notin> set (split_on CHR '':'' cd)"
  shows "rev_reg_id_parts (rev_reg_id_new did cd ty tag) = Some (did, cd, ty, tag)"
proof -
  let ?s = "did @ '':4:'' @ cd @ '':'' @ ty @ '':'' @ tag"
  have s: "rev_reg_id_new did cd ty tag = ?s" using assms(1) by (simp add: rev_reg_id_new_def id_simps)
  have "\<not> starts_with ?s ''revreg:''"
  proof
    assume "starts_with ?s ''revreg:''"
    then obtain z where "?s = ''revreg:'' @ z" by (auto simp: starts_with_iff)
    then have "?s = ''revreg'' @ CHR '':'' # z" by simp
    then have "split_on CHR '':'' ?s = split_on CHR '':'' (''revreg'' @ CHR '':'' # z)" by (simp only:)
    then show False using assms(1,8) by simp
  qed
  moreover have "match_did ?s = Some (did, cd, ty, tag)" by (rule match_did_ok) (use assms in auto)
  moreover have "CHR 0x0A \<notin> set ?s" using assms by simp
  ultimately show ?thesis unfolding s rev_reg_id_parts_def Let_def line_whole [OF \<open>CHR 0x0A \<notin> set ?s\<close>] by simp
qed

lemma span_method: "list_all is_method_char w \<Longrightarrow> takeWhile is_method_char (w @ CHR '':'' # r) = w"
    "list_all is_method_char w \<Longrightarrow> dropWhile is_method_char (w @ CHR '':'' # r) = CHR '':'' # r"
  by (induction w) auto

lemma rev_reg_id_parts_new_qualified:
  assumes "field did" "field ty" "field tag" and "cd \<noteq> []" "ty \<noteq> []" "tag \<noteq> []"
    and "CHR 0x0A \<notin> set cd" and "''4'' \<notin> set (split_on CHR '':'' cd)" and m: "did_method_validate m = Some ()"
  shows "rev_reg_id_parts (rev_reg_id_new (did_new did (Some m)) cd ty tag) = Some (did_new did (Some m), cd, ty, tag)"
proof -
  let ?d = "did_new did (Some m)"
  let ?b = "?d @ '':4:'' @ cd @ '':'' @ ty @ '':'' @ tag"
  let ?s = "''revreg:'' @ m @ CHR '':'' # ?b"
  have s: "rev_reg_id_new ?d cd ty tag = ?s"
    using qualified_did [OF assms(1) m] by (simp add: rev_reg_id_new_def qualify_def REV_REG_PREFIX_def DELIMITER_def REV_REG_DEG_MARKER_def)
  have "match_did ?b = Some (?d, cd, ty, tag)"
    by (rule match_did_ok) (use assms in \<open>auto simp: did_new_def set_method_def qualify_def DID_PREFIX_def\<close>)
  moreover have nl: "CHR 0x0A \<notin> set ?s" using assms method_name_field [OF m] by (simp add: did_new_def set_method_def qualify_def DID_PREFIX_def)
  moreover have "drop 7 ?s = m @ CHR '':'' # ?b" by simp
  ultimately show ?thesis unfolding s rev_reg_id_parts_def Let_def line_whole [OF nl]
    using method_name_field [OF m] by (simp add: span_method)
qed

lemma cred_def_id_newline_free:
  assumes "field did" "field sdid" "field name" "field version" "field sig" "field tag" and "did_method_validate m = Some ()"
  shows "CHR 0x0A \<notin> set (cred_def_id_new protocol did (schema_id_new sdid name version) sig tag)"
    "CHR 0x0A \<notin> set (cred_def_id_new protocol (did_new did (Some m)) (schema_id_new (did_new sdid (Some m)) name version) sig tag)"
    "cred_def_id_new protocol did (schema_id_new sdid name version) sig tag \<noteq> []"
    "cred_def_id_new protocol (did_new did (Some m)) (schema_id_new (did_new sdid (Some m)) name version) sig tag \<noteq> []"
  using assms method_name_field [OF assms(7)]
  by (simp_all add: cred_def_id_new_def schema_id_new_def qualified_did [OF assms(1,7)] qualified_did [OF assms(2,7)])
    (simp_all add: id_simps)

lemma cred_def_id_four:
  assumes "field did" "field sdid" "field name" "field version" "field sig" "field tag" and "tag \<noteq> []" and "protocol \<noteq> 1"
    and m: "did_method_validate m = Some ()" and four: "''4'' \<notin> {did, sdid, name, version, sig, tag, m}"
  shows "''4'' \<notin> set (split_on CHR '':'' (cred_def_id_new protocol did (schema_id_new sdid name version) sig tag))"
    "''4'' \<notin> set (split_on CHR '':'' (cred_def_id_new protocol (did_new did (Some m)) (schema_id_new (did_new sdid (Some m)) name version) sig tag))"
proof -
  show "''4'' \<notin> set (split_on CHR '':'' (cred_def_id_new protocol did (schema_id_new sdid name version) sig tag))"
    using assms schema_id_fields [OF assms(2-4), of tag] by (simp add: cred_def_id_new_def is_node_1_3_def id_simps)
  show "''4'' \<notin> set (split_on CHR '':'' (cred_def_id_new protocol (did_new did (Some m)) (schema_id_new (did_new sdid (Some m)) name version) sig tag))"
    using assms method_name_field [OF m] schema_id_fields_qualified [OF assms(2-4) m, of tag]
    by (simp add: cred_def_id_new_def qualified_did [OF assms(1) m] is_node_1_3_def) (simp add: id_simps)
qed



text \<open>
  A part equal to the marker is taken for it: of the qualified identifier of a registry whose schema has the sequence
  number 4, the qualifiers of the credential definition are not removed.
\<close>

lemma rev_reg_id_marker_misread:
  "rev_reg_id_parts (rev_reg_id_new ''NcY'' (cred_def_id_new 2 ''NcY'' ''4'' ''CL'' ''tag'') ''CL_ACCUM'' ''TAG_1'') =
     Some (''NcY:4:NcY:3:CL'', ''tag'', ''CL_ACCUM'', ''TAG_1'') \<and>
   rev_reg_id_to_unqualified 2 (rev_reg_id_new ''did:sov:NcY'' (cred_def_id_new 2 ''did:sov:NcY'' ''4'' ''CL'' ''tag'') ''CL_ACCUM'' ''TAG_1'') =
     ''NcY:4:creddef:sov:did:sov:NcY:3:CL:4:tag:CL_ACCUM:TAG_1''"
  by (intro conjI) code_simp+

end
