(* ===== verification/Anoncreds_Verifier.thy ===== *)
theory Anoncreds_Verifier
  imports Anoncreds_Ids Wql
begin

text \<open>
  Proof requests, proofs and their verification: \<open>domain/anoncreds/proof_request.rs\<close>, \<open>domain/anoncreds/proof.rs\<close>,
  \<open>services/anoncreds/helpers.rs\<close> and \<open>services/anoncreds/verifier.rs\<close> of libindy. The cryptographic library is
  the parameter \<open>UrsaEnv\<close>: its objects are texts, its builders are functions of the calls made to them. The order
  in which a hash map built by the code is walked is a parameter too.
\<close>

section \<open>Proof requests\<close>

record NonRevocedInterval =
  nr_from :: "nat option"
  nr_to :: "nat option"

record AttributeInfo =
  ai_name :: "string option"
  ai_names :: "string list option"
  ai_restrictions :: "Query option"
  ai_non_revoked :: "NonRevocedInterval option"

datatype PredicateTypes = GE | LE | GT | LT

definition predicate_type_fmt :: "PredicateTypes \<Rightarrow> string" where
  "predicate_type_fmt t = (case t of GE \<Rightarrow> ''GE'' | GT \<Rightarrow> ''GT'' | LE \<Rightarrow> ''LE'' | LT \<Rightarrow> ''LT'')"

record PredicateInfo =
  pi_name :: string
  pi_p_type :: PredicateTypes
  pi_p_value :: int
  pi_restrictions :: "Query option"
  pi_non_revoked :: "NonRevocedInterval option"

record ProofRequestPayload =
  pr_nonce :: UrsaObject
  pr_name :: string
  pr_version :: string
  pr_requested_attributes :: "(string \<times> AttributeInfo) list"
  pr_requested_predicates :: "(string \<times> PredicateInfo) list"
  pr_non_revoked :: "NonRevocedInterval option"

datatype ProofRequest = ProofRequestV1 ProofRequestPayload | ProofRequestV2 ProofRequestPayload

datatype ProofRequestsVersion = PRV1 | PRV2

fun request_value :: "ProofRequest \<Rightarrow> ProofRequestPayload" where
  "request_value (ProofRequestV1 proof_req) = proof_req"
| "request_value (ProofRequestV2 proof_req) = proof_req"

fun request_version :: "ProofRequest \<Rightarrow> ProofRequestsVersion" where
  "request_version (ProofRequestV1 _) = PRV1"
| "request_version (ProofRequestV2 _) = PRV2"

definition QUALIFIABLE_TAGS :: "string list" where
  "QUALIFIABLE_TAGS = [''issuer_did'', ''cred_def_id'', ''schema_id'', ''schema_issuer_did'', ''rev_reg_id'']"

definition check_restriction :: "string \<Rightarrow> string \<Rightarrow> ProofRequestsVersion \<Rightarrow> unit option" where
  "check_restriction tag_name tag_value version =
     (if version = PRV1 \<and> tag_name \<in> set QUALIFIABLE_TAGS \<and> matches_qualified tag_value then None else Some ())"

definition all_some :: "('a \<Rightarrow> unit option) \<Rightarrow> 'a list \<Rightarrow> unit option" where
  "all_some f xs = (if list_all (\<lambda>x. f x = Some ()) xs then Some () else None)"

lemma all_some_cong [fundef_cong]: "xs = ys \<Longrightarrow> (\<And>x. x \<in> set ys \<Longrightarrow> f x = g x) \<Longrightarrow> all_some f xs = all_some g ys"
  by (simp add: all_some_def list_all_iff)

text \<open>\<open>_process_operator\<close> of \<open>proof_request.rs\<close>.\<close>

fun process_operator :: "ProofRequestsVersion \<Rightarrow> Query \<Rightarrow> unit option" where
  "process_operator version (Q_Eq tag_name tag_value) = check_restriction tag_name tag_value version"
| "process_operator version (Q_Neq tag_name tag_value) = check_restriction tag_name tag_value version"
| "process_operator version (Q_Gt tag_name tag_value) = check_restriction tag_name tag_value version"
| "process_operator version (Q_Gte tag_name tag_value) = check_restriction tag_name tag_value version"
| "process_operator version (Q_Lt tag_name tag_value) = check_restriction tag_name tag_value version"
| "process_operator version (Q_Lte tag_name tag_value) = check_restriction tag_name tag_value version"
| "process_operator version (Q_Like tag_name tag_value) = check_restriction tag_name tag_value version"
| "process_operator version (Q_In tag_name tag_values) =
     all_some (\<lambda>tag_value. check_restriction tag_name tag_value version) tag_values"
| "process_operator version (Q_And operators) = all_some (process_operator version) operators"
| "process_operator version (Q_Or operators) = all_some (process_operator version) operators"
| "process_operator version (Q_Not operator) = process_operator version operator"

definition check_attribute :: "ProofRequestsVersion \<Rightarrow> AttributeInfo \<Rightarrow> unit option" where
  "check_attribute version info =
     (let has_name = (case ai_name info of Some name \<Rightarrow> name \<noteq> [] | None \<Rightarrow> False);
          has_names = (case ai_names info of Some names \<Rightarrow> names \<noteq> [] | None \<Rightarrow> False)
      in if \<not> has_name \<and> \<not> has_names then None
         else if has_name \<and> has_names then None
         else (case ai_restrictions info of Some q \<Rightarrow> process_operator version q | None \<Rightarrow> Some ()))"

definition check_predicate :: "ProofRequestsVersion \<Rightarrow> PredicateInfo \<Rightarrow> unit option" where
  "check_predicate version info =
     (if pi_name info = [] then None
      else (case pi_restrictions info of Some q \<Rightarrow> process_operator version q | None \<Rightarrow> Some ()))"

definition proof_request_validate :: "ProofRequest \<Rightarrow> unit option" where
  "proof_request_validate req =
     (let v = request_value req; version = request_version req
      in if pr_requested_attributes v = [] \<and> pr_requested_predicates v = [] then None
         else Option.bind (all_some (\<lambda>(_, info). check_attribute version info) (pr_requested_attributes v)) (\<lambda>_.
           all_some (\<lambda>(_, info). check_predicate version info) (pr_requested_predicates v)))"

definition convert_value_to_unqualified :: "nat \<Rightarrow> string \<Rightarrow> string \<Rightarrow> string" where
  "convert_value_to_unqualified protocol tag_name tag_value =
     (if tag_name = ''issuer_did'' \<or> tag_name = ''schema_issuer_did'' then did_to_unqualified tag_value
      else if tag_name = ''schema_id'' then schema_id_to_unqualified tag_value
      else if tag_name = ''cred_def_id'' then cred_def_id_to_unqualified protocol tag_value
      else if tag_name = ''rev_reg_id'' then rev_reg_id_to_unqualified protocol tag_value
      else tag_value)"

fun convert_query_to_unqualified :: "nat \<Rightarrow> Query \<Rightarrow> Query" where
  "convert_query_to_unqualified p (Q_Eq tag_name tag_value) = Q_Eq tag_name (convert_value_to_unqualified p tag_name tag_value)"
| "convert_query_to_unqualified p (Q_Neq tag_name tag_value) = Q_Neq tag_name (convert_value_to_unqualified p tag_name tag_value)"
| "convert_query_to_unqualified p (Q_In tag_name tag_values) =
     Q_In tag_name (map (convert_value_to_unqualified p tag_name) tag_values)"
| "convert_query_to_unqualified p (Q_And queries) = Q_And (map (convert_query_to_unqualified p) queries)"
| "convert_query_to_unqualified p (Q_Or queries) = Q_Or (map (convert_query_to_unqualified p) queries)"
| "convert_query_to_unqualified p (Q_Not query) = convert_query_to_unqualified p query"
| "convert_query_to_unqualified p query = query"

definition convert_request :: "nat \<Rightarrow> ProofRequestPayload \<Rightarrow> ProofRequestPayload" where
  "convert_request p req =
     req\<lparr>pr_requested_attributes :=
           map (\<lambda>(r, info). (r, info\<lparr>ai_restrictions := map_option (convert_query_to_unqualified p) (ai_restrictions info)\<rparr>))
             (pr_requested_attributes req),
         pr_requested_predicates :=
           map (\<lambda>(r, info). (r, info\<lparr>pi_restrictions := map_option (convert_query_to_unqualified p) (pi_restrictions info)\<rparr>))
             (pr_requested_predicates req)\<rparr>"

definition proof_request_to_unqualified :: "nat \<Rightarrow> ProofRequest \<Rightarrow> ProofRequest" where
  "proof_request_to_unqualified p req =
     (case req of
        ProofRequestV2 proof_request \<Rightarrow> ProofRequestV2 (convert_request p proof_request)
      | ProofRequestV1 proof_request \<Rightarrow> ProofRequestV1 (convert_request p proof_request))"

section \<open>Proofs\<close>

record SubProofReferent =
  sp_sub_proof_index :: nat

record RevealedAttributeInfo =
  ra_sub_proof_index :: nat
  ra_raw :: string
  ra_encoded :: string

record AttributeValue =
  av_raw :: string
  av_encoded :: string

record RevealedAttributeGroupInfo =
  rg_sub_proof_index :: nat
  rg_values :: "(string \<times> AttributeValue) list"

record RequestedProof =
  rp_revealed_attrs :: "(string \<times> RevealedAttributeInfo) list"
  rp_revealed_attr_groups :: "(string \<times> RevealedAttributeGroupInfo) list"
  rp_self_attested_attrs :: "(string \<times> string) list"
  rp_unrevealed_attrs :: "(string \<times> SubProofReferent) list"
  rp_predicates :: "(string \<times> SubProofReferent) list"

definition requested_proof_default :: RequestedProof where
  "requested_proof_default = \<lparr>rp_revealed_attrs = [], rp_revealed_attr_groups = [], rp_self_attested_attrs = [],
     rp_unrevealed_attrs = [], rp_predicates = []\<rparr>"

record Identifier =
  id_schema_id :: SchemaId
  id_cred_def_id :: CredentialDefinitionId
  id_rev_reg_id :: "RevocationRegistryId option"
  id_timestamp :: "nat option"

record Proof =
  pf_proof :: UrsaObject
  pf_requested_proof :: RequestedProof
  pf_identifiers :: "Identifier list"

section \<open>The cryptographic library\<close>

text \<open>
  \<open>ur_proofs\<close> are the sub proofs of a proof, \<open>ur_revealed_attrs\<close> the revealed attributes of one with their values as
  decimal text, \<open>ur_from_dec\<close> reads such a text. The builders of a schema and of a sub proof request are functions of
  the names and predicates added to them. \<open>ur_add\<close> is \<open>add_sub_proof_request\<close> of the proof verifier.
  \<open>ur_lowercase\<close> is \<open>str::to_lowercase\<close> on text that is not ASCII, and \<open>ur_order\<close> the order of a hash map.
\<close>

record SubProofInput =
  si_request :: UrsaObject
  si_schema :: UrsaObject
  si_non_credential_schema :: UrsaObject
  si_pub_key :: UrsaObject
  si_rev_key :: "UrsaObject option"
  si_rev_reg :: "UrsaObject option"

record UrsaEnv =
  ur_proofs :: "UrsaObject \<Rightarrow> UrsaObject list"
  ur_revealed_attrs :: "UrsaObject \<Rightarrow> (string \<times> string) list outcome"
  ur_from_dec :: "string \<Rightarrow> int outcome"
  ur_credential_schema :: "string list \<Rightarrow> UrsaObject outcome"
  ur_non_credential_schema :: "string list \<Rightarrow> UrsaObject outcome"
  ur_sub_proof_request :: "string list \<Rightarrow> (string \<times> string \<times> int) list \<Rightarrow> UrsaObject outcome"
  ur_public_key :: "UrsaObject \<Rightarrow> UrsaObject option \<Rightarrow> UrsaObject outcome"
  ur_new_verifier :: "UrsaObject outcome"
  ur_add :: "UrsaObject \<Rightarrow> SubProofInput \<Rightarrow> UrsaObject outcome"
  ur_verify :: "UrsaObject \<Rightarrow> UrsaObject \<Rightarrow> UrsaObject \<Rightarrow> bool outcome"
  ur_lowercase :: "string \<Rightarrow> string"
  ur_order :: "(string \<times> string option) list \<Rightarrow> (string \<times> string option) list"

section \<open>Helpers\<close>

definition ascii_lower :: "char \<Rightarrow> char" where
  "ascii_lower c = (let n = of_char c :: nat in if 65 \<le> n \<and> n \<le> 90 then char_of (n + 32) else c)"

definition to_lowercase :: "'a UrsaEnv_scheme \<Rightarrow> string \<Rightarrow> string" where
  "to_lowercase env s = (if list_all (\<lambda>c. (of_char c :: nat) < 128) s then map ascii_lower s else ur_lowercase env s)"

definition attr_common_view :: "'a UrsaEnv_scheme \<Rightarrow> string \<Rightarrow> string" where
  "attr_common_view env attr = to_lowercase env (filter (\<lambda>c. c \<noteq> CHR '' '') attr)"

definition build_credential_schema :: "'a UrsaEnv_scheme \<Rightarrow> string list \<Rightarrow> UrsaObject outcome" where
  "build_credential_schema env attrs = ur_credential_schema env (map (attr_common_view env) attrs)"

definition build_non_credential_schema :: "'a UrsaEnv_scheme \<Rightarrow> UrsaObject outcome" where
  "build_non_credential_schema env = ur_non_credential_schema env [''master_secret'']"

fun requested_names :: "AttributeInfo list \<Rightarrow> string list outcome" where
  "requested_names [] = Ok []"
| "requested_names (attr # attrs) =
     and_then (case ai_name attr of
                 Some name \<Rightarrow> Ok [name]
               | None \<Rightarrow> (case ai_names attr of Some names \<Rightarrow> Ok names | None \<Rightarrow> Err InvalidStructure))
       (\<lambda>names. map_ok (\<lambda>rest. names @ rest) (requested_names attrs))"

definition build_sub_proof_request :: "'a UrsaEnv_scheme \<Rightarrow> AttributeInfo list \<Rightarrow> PredicateInfo list \<Rightarrow> UrsaObject outcome" where
  "build_sub_proof_request env attrs_for_credential predicates_for_credential =
     and_then (requested_names attrs_for_credential) (\<lambda>names.
       ur_sub_proof_request env (map (attr_common_view env) names)
         (map (\<lambda>p. (attr_common_view env (pi_name p), predicate_type_fmt (pi_p_type p), pi_p_value p)) predicates_for_credential))"

definition get_non_revoc_interval :: "NonRevocedInterval option \<Rightarrow> NonRevocedInterval option \<Rightarrow> NonRevocedInterval option" where
  "get_non_revoc_interval global_interval local_interval =
     (case (case local_interval of Some i \<Rightarrow> Some i | None \<Rightarrow> global_interval) of
        Some i \<Rightarrow> if nr_to i \<noteq> None \<or> nr_from i \<noteq> None then Some i else None
      | None \<Rightarrow> None)"

section \<open>What a proof contains\<close>

type_synonym Identifiers = "(string \<times> Identifier) list"

definition get_proof_identifier :: "Proof \<Rightarrow> nat \<Rightarrow> Identifier outcome" where
  "get_proof_identifier proof index =
     (if index < length (pf_identifiers proof) then Ok (pf_identifiers proof ! index) else Err InvalidStructure)"

fun insert_identifiers :: "Proof \<Rightarrow> (string \<times> nat) list \<Rightarrow> Identifiers \<Rightarrow> Identifiers outcome" where
  "insert_identifiers proof [] m = Ok m"
| "insert_identifiers proof ((referent, index) # rs) m =
     and_then (get_proof_identifier proof index) (\<lambda>i. insert_identifiers proof rs (hm_insert m referent i))"

definition received_revealed_attrs :: "Proof \<Rightarrow> Identifiers outcome" where
  "received_revealed_attrs proof =
     and_then (insert_identifiers proof (map (\<lambda>(r, info). (r, ra_sub_proof_index info)) (rp_revealed_attrs (pf_requested_proof proof))) [])
       (insert_identifiers proof (map (\<lambda>(r, infos). (r, rg_sub_proof_index infos)) (rp_revealed_attr_groups (pf_requested_proof proof))))"

definition received_unrevealed_attrs :: "Proof \<Rightarrow> Identifiers outcome" where
  "received_unrevealed_attrs proof =
     insert_identifiers proof (map (\<lambda>(r, info). (r, sp_sub_proof_index info)) (rp_unrevealed_attrs (pf_requested_proof proof))) []"

definition received_predicates :: "Proof \<Rightarrow> Identifiers outcome" where
  "received_predicates proof =
     insert_identifiers proof (map (\<lambda>(r, info). (r, sp_sub_proof_index info)) (rp_predicates (pf_requested_proof proof))) []"

definition received_self_attested_attrs :: "Proof \<Rightarrow> string set" where
  "received_self_attested_attrs proof = fst ` set (rp_self_attested_attrs (pf_requested_proof proof))"

definition compare_attr_from_proof_and_request ::
    "ProofRequestPayload \<Rightarrow> Identifiers \<Rightarrow> Identifiers \<Rightarrow> string set \<Rightarrow> Identifiers \<Rightarrow> unit outcome" where
  "compare_attr_from_proof_and_request proof_req revealed unrevealed self_attested predicates =
     (if fst ` set (pr_requested_attributes proof_req) \<noteq> fst ` set (revealed @ unrevealed) \<union> self_attested
      then Err InvalidStructure
      else if fst ` set (pr_requested_predicates proof_req) \<noteq> fst ` set predicates then Err InvalidStructure
      else Ok ())"

definition validate_timestamp ::
    "Identifiers \<Rightarrow> string \<Rightarrow> NonRevocedInterval option \<Rightarrow> NonRevocedInterval option \<Rightarrow> unit outcome" where
  "validate_timestamp received referent global_interval local_interval =
     (if get_non_revoc_interval global_interval local_interval = None then Ok ()
      else (case hm_get received referent of
              Some i \<Rightarrow> if id_timestamp i \<noteq> None then Ok () else Err InvalidStructure
            | None \<Rightarrow> Err InvalidStructure))"

definition or_else :: "'b outcome \<Rightarrow> 'b outcome \<Rightarrow> 'b outcome" where
  "or_else r s = (case r of Err _ \<Rightarrow> s | _ \<Rightarrow> r)"

definition for_all :: "('b \<Rightarrow> unit outcome) \<Rightarrow> 'b list \<Rightarrow> unit outcome" where
  "for_all f xs = map_ok (\<lambda>_. ()) (map_outcome_list f xs)"

lemma for_all_cong [fundef_cong]: "xs = ys \<Longrightarrow> (\<And>x. x \<in> set ys \<Longrightarrow> f x = g x) \<Longrightarrow> for_all f xs = for_all g ys"
  unfolding for_all_def by (metis map_outcome_list_cong)

definition compare_timestamps_from_proof_and_request ::
    "ProofRequestPayload \<Rightarrow> Identifiers \<Rightarrow> Identifiers \<Rightarrow> string set \<Rightarrow> Identifiers \<Rightarrow> unit outcome" where
  "compare_timestamps_from_proof_and_request proof_req revealed unrevealed self_attested predicates =
     and_then (for_all (\<lambda>(referent, info).
         or_else (validate_timestamp revealed referent (pr_non_revoked proof_req) (ai_non_revoked info))
          (or_else (validate_timestamp unrevealed referent (pr_non_revoked proof_req) (ai_non_revoked info))
             (if referent \<in> self_attested then Ok () else Err InvalidStructure)))
       (pr_requested_attributes proof_req)) (\<lambda>_.
     for_all (\<lambda>(referent, info). validate_timestamp predicates referent (pr_non_revoked proof_req) (pi_non_revoked info))
       (pr_requested_predicates proof_req))"

section \<open>Revealed values\<close>

definition verify_revealed_attribute_value :: "'a UrsaEnv_scheme \<Rightarrow> string \<Rightarrow> Proof \<Rightarrow> RevealedAttributeInfo \<Rightarrow> unit outcome" where
  "verify_revealed_attribute_value env attr_name proof attr_info =
     and_then (if ra_sub_proof_index attr_info < length (ur_proofs env (pf_proof proof))
               then Ok (ur_proofs env (pf_proof proof) ! ra_sub_proof_index attr_info) else Err ProofRejected) (\<lambda>sub_proof.
     and_then (ur_revealed_attrs env sub_proof) (\<lambda>attrs.
     and_then (ok_or ProofRejected (List.find (\<lambda>(key, _). attr_common_view env attr_name = attr_common_view env key) attrs)) (\<lambda>(_, encoded).
     and_then (ur_from_dec env (ra_encoded attr_info)) (\<lambda>revealed.
     and_then (ur_from_dec env encoded) (\<lambda>proved.
       if revealed \<noteq> proved then Err ProofRejected else Ok ())))))"

definition verify_revealed_attribute_values :: "'a UrsaEnv_scheme \<Rightarrow> ProofRequestPayload \<Rightarrow> Proof \<Rightarrow> unit outcome" where
  "verify_revealed_attribute_values env proof_req proof =
     and_then (for_all (\<lambda>(attr_referent, attr_info).
         and_then (ok_or ProofRejected (hm_get (pr_requested_attributes proof_req) attr_referent)) (\<lambda>info.
         and_then (ok_or ProofRejected (ai_name info)) (\<lambda>attr_name.
           verify_revealed_attribute_value env attr_name proof attr_info)))
       (rp_revealed_attrs (pf_requested_proof proof))) (\<lambda>_.
     for_all (\<lambda>(attr_referent, attr_infos).
         and_then (ok_or ProofRejected (hm_get (pr_requested_attributes proof_req) attr_referent)) (\<lambda>info.
         and_then (ok_or ProofRejected (ai_names info)) (\<lambda>attr_names.
           if length (rg_values attr_infos) \<noteq> length attr_names then Err InvalidStructure
           else for_all (\<lambda>attr_name.
             and_then (ok_or InvalidStructure (hm_get (rg_values attr_infos) attr_name)) (\<lambda>v.
               verify_revealed_attribute_value env attr_name proof
                 \<lparr>ra_sub_proof_index = rg_sub_proof_index attr_infos, ra_raw = av_raw v, ra_encoded = av_encoded v\<rparr>))
             attr_names)))
       (rp_revealed_attr_groups (pf_requested_proof proof)))"

section \<open>Restrictions\<close>

record Filter =
  fl_schema_id :: string
  fl_schema_issuer_did :: string
  fl_schema_name :: string
  fl_schema_version :: string
  fl_issuer_did :: string
  fl_cred_def_id :: string

text \<open>The patterns \<open>^attr::([^:]+)::value$\<close> and \<open>^attr::([^:]+)::marker$\<close>.\<close>

definition attr_request :: "string \<Rightarrow> string \<Rightarrow> string option" where
  "attr_request suffix key =
     (let rest = drop 6 key; name = takeWhile (\<lambda>c. c \<noteq> CHR '':'') rest
      in if starts_with key ''attr::'' \<and> name \<noteq> [] \<and> drop (length name) rest = ''::'' @ suffix then Some name else None)"

definition attr_request_by_value :: "string \<Rightarrow> string option" where
  "attr_request_by_value key = attr_request ''value'' key"

definition attr_request_by_marker :: "string \<Rightarrow> string option" where
  "attr_request_by_marker key = attr_request ''marker'' key"

type_synonym AttrValues = "(string \<times> string option) list"

definition is_attr_with_revealed_value :: "'a UrsaEnv_scheme \<Rightarrow> string \<Rightarrow> AttrValues \<Rightarrow> bool" where
  "is_attr_with_revealed_value env key attr_value_map =
     (case attr_request_by_value key of
        Some s \<Rightarrow> list_ex (\<lambda>(k, _). attr_common_view env k = attr_common_view env s) attr_value_map
      | None \<Rightarrow> False)"

definition check_internal_tag_revealed_value :: "'a UrsaEnv_scheme \<Rightarrow> string \<Rightarrow> string \<Rightarrow> AttrValues \<Rightarrow> unit outcome" where
  "check_internal_tag_revealed_value env key tag_value attr_value_map =
     and_then (ok_or InvalidState (attr_request_by_value key)) (\<lambda>attr_name.
       case List.find (\<lambda>(k, _). attr_common_view env k = attr_common_view env attr_name) (ur_order env attr_value_map) of
         Some (_, Some revealed_value) \<Rightarrow> if revealed_value \<noteq> tag_value then Err ProofRejected else Ok ()
       | _ \<Rightarrow> Err ProofRejected)"

definition is_attr_marker_operator :: "string \<Rightarrow> bool" where
  "is_attr_marker_operator key \<longleftrightarrow> attr_request_by_marker key \<noteq> None"

definition precess_filed :: "string \<Rightarrow> string \<Rightarrow> unit outcome" where
  "precess_filed filter_value tag_value = (if filter_value = tag_value then Ok () else Err ProofRejected)"

definition process_filter :: "'a UrsaEnv_scheme \<Rightarrow> AttrValues \<Rightarrow> string \<Rightarrow> string \<Rightarrow> Filter \<Rightarrow> unit outcome" where
  "process_filter env attr_value_map tag tag_value flt =
     (if tag = ''schema_id'' then precess_filed (fl_schema_id flt) tag_value
      else if tag = ''schema_issuer_did'' then precess_filed (fl_schema_issuer_did flt) tag_value
      else if tag = ''schema_name'' then precess_filed (fl_schema_name flt) tag_value
      else if tag = ''schema_version'' then precess_filed (fl_schema_version flt) tag_value
      else if tag = ''cred_def_id'' then precess_filed (fl_cred_def_id flt) tag_value
      else if tag = ''issuer_did'' then precess_filed (fl_issuer_did flt) tag_value
      else if is_attr_with_revealed_value env tag attr_value_map
      then check_internal_tag_revealed_value env tag tag_value attr_value_map
      else if is_attr_marker_operator tag then Ok ()
      else Err InvalidStructure)"

fun do_process_operator :: "'a UrsaEnv_scheme \<Rightarrow> AttrValues \<Rightarrow> Filter \<Rightarrow> Query \<Rightarrow> unit outcome" where
  "do_process_operator env m flt (Q_Eq tag_name tag_value) = process_filter env m tag_name tag_value flt"
| "do_process_operator env m flt (Q_Neq tag_name tag_value) =
     (if is_ok (process_filter env m tag_name tag_value flt) then Err ProofRejected else Ok ())"
| "do_process_operator env m flt (Q_In tag_name tag_values) =
     (if list_ex (\<lambda>v. is_ok (process_filter env m tag_name v flt)) tag_values then Ok () else Err ProofRejected)"
| "do_process_operator env m flt (Q_And operators) = for_all (do_process_operator env m flt) operators"
| "do_process_operator env m flt (Q_Or operators) =
     (if list_ex (\<lambda>q. is_ok (do_process_operator env m flt q)) operators then Ok () else Err ProofRejected)"
| "do_process_operator env m flt (Q_Not operator) =
     (if is_ok (do_process_operator env m flt operator) then Err ProofRejected else Ok ())"
| "do_process_operator env m flt q = Err ProofRejected"

definition gather_filter_info :: "string \<Rightarrow> Identifiers \<Rightarrow> Filter outcome" where
  "gather_filter_info referent identifiers =
     and_then (ok_or InvalidState (hm_get identifiers referent)) (\<lambda>i.
     and_then (ok_or InvalidState (schema_id_parts (id_schema_id i))) (\<lambda>(schema_issuer_did, schema_name, schema_version).
     and_then (ok_or InvalidState (issuer_did (id_cred_def_id i))) (\<lambda>issuer.
       Ok \<lparr>fl_schema_id = id_schema_id i, fl_schema_issuer_did = schema_issuer_did, fl_schema_name = schema_name,
           fl_schema_version = schema_version, fl_issuer_did = issuer, fl_cred_def_id = id_cred_def_id i\<rparr>)))"

definition is_self_attested :: "string \<Rightarrow> AttributeInfo \<Rightarrow> string set \<Rightarrow> bool" where
  "is_self_attested referent info self_attested_attrs \<longleftrightarrow>
     (case ai_restrictions info of
        Some (Q_And []) \<Rightarrow> referent \<in> self_attested_attrs
      | Some (Q_Or []) \<Rightarrow> referent \<in> self_attested_attrs
      | None \<Rightarrow> referent \<in> self_attested_attrs
      | Some _ \<Rightarrow> False)"

text \<open>The names and values that the restrictions of a requested attribute are checked with.\<close>

definition name_value_map :: "RequestedProof \<Rightarrow> string \<Rightarrow> AttributeInfo \<Rightarrow> AttrValues outcome" where
  "name_value_map requested_proof referent info =
     (case ai_name info of
        Some name \<Rightarrow> Ok [(name, map_option ra_raw (hm_get (rp_revealed_attrs requested_proof) referent))]
      | None \<Rightarrow>
          (case ai_names info of
             Some names \<Rightarrow>
               and_then (ok_or InvalidStructure (hm_get (rp_revealed_attr_groups requested_proof) referent)) (\<lambda>attrs.
                 Ok (fold (\<lambda>name m. hm_insert m name (map_option av_raw (hm_get (rg_values attrs) name))) names []))
           | None \<Rightarrow> Err InvalidStructure))"

text \<open>The revealed values of the credential that a predicate is proved with.\<close>

fun add_revealed :: "(string \<times> AttributeInfo) list \<Rightarrow> nat \<Rightarrow> (string \<times> RevealedAttributeInfo) list \<Rightarrow> AttrValues \<Rightarrow> AttrValues outcome" where
  "add_revealed requested_attrs index [] m = Ok m"
| "add_revealed requested_attrs index ((attr_referent, attr_info) # rs) m =
     (if index = ra_sub_proof_index attr_info then
        (case hm_get requested_attrs attr_referent of
           None \<Rightarrow> Panic
         | Some info \<Rightarrow>
             add_revealed requested_attrs index rs
               (case ai_name info of Some name \<Rightarrow> hm_insert m name (Some (ra_raw attr_info)) | None \<Rightarrow> m))
      else add_revealed requested_attrs index rs m)"

definition add_revealed_groups :: "nat \<Rightarrow> (string \<times> RevealedAttributeGroupInfo) list \<Rightarrow> AttrValues \<Rightarrow> AttrValues" where
  "add_revealed_groups index gs m =
     fold (\<lambda>(_, g) m. if index = rg_sub_proof_index g
                      then fold (\<lambda>(name, v) m. hm_insert m name (Some (av_raw v))) (rg_values g) m else m) gs m"

text \<open>The bodies of the two loops of \<open>_verify_requested_restrictions\<close>.\<close>

definition verify_attribute_restrictions :: "'a UrsaEnv_scheme \<Rightarrow> RequestedProof \<Rightarrow> Identifiers \<Rightarrow> string \<Rightarrow> AttributeInfo \<Rightarrow> unit outcome" where
  "verify_attribute_restrictions env requested_proof proof_attr_identifiers referent info =
     (case ai_restrictions info of
        None \<Rightarrow> Ok ()
      | Some query \<Rightarrow>
          and_then (gather_filter_info referent proof_attr_identifiers) (\<lambda>flt.
          and_then (name_value_map requested_proof referent info) (\<lambda>m.
            do_process_operator env m flt query)))"

definition verify_predicate_restrictions ::
    "'a UrsaEnv_scheme \<Rightarrow> RequestedProof \<Rightarrow> (string \<times> AttributeInfo) list \<Rightarrow> Identifiers \<Rightarrow> string \<Rightarrow> PredicateInfo \<Rightarrow> unit outcome" where
  "verify_predicate_restrictions env requested_proof requested_attrs predicates referent info =
     (case pi_restrictions info of
        None \<Rightarrow> Ok ()
      | Some query \<Rightarrow>
          and_then (gather_filter_info referent predicates) (\<lambda>flt.
            case hm_get (rp_predicates requested_proof) referent of
              None \<Rightarrow> Panic
            | Some p \<Rightarrow>
                and_then (add_revealed requested_attrs (sp_sub_proof_index p) (rp_revealed_attrs requested_proof) [(pi_name info, None)]) (\<lambda>m.
                  do_process_operator env
                    (add_revealed_groups (sp_sub_proof_index p) (rp_revealed_attr_groups requested_proof) m) flt query)))"

definition verify_requested_restrictions ::
    "'a UrsaEnv_scheme \<Rightarrow> ProofRequestPayload \<Rightarrow> RequestedProof \<Rightarrow> Identifiers \<Rightarrow> Identifiers \<Rightarrow> Identifiers \<Rightarrow> string set \<Rightarrow> unit outcome" where
  "verify_requested_restrictions env proof_req requested_proof revealed unrevealed predicates self_attested =
     (let proof_attr_identifiers = fold (\<lambda>(r, i) m. hm_insert m r i) (revealed @ unrevealed) [];
          requested_attrs = filter (\<lambda>(r, info). \<not> is_self_attested r info self_attested) (pr_requested_attributes proof_req)
      in and_then (for_all (\<lambda>(referent, info). verify_attribute_restrictions env requested_proof proof_attr_identifiers referent info)
           requested_attrs) (\<lambda>_.
         for_all (\<lambda>(referent, info). verify_predicate_restrictions env requested_proof requested_attrs predicates referent info)
           (pr_requested_predicates proof_req)))"

section \<open>Verification\<close>

definition get_revealed_attributes_for_credential :: "nat \<Rightarrow> RequestedProof \<Rightarrow> ProofRequestPayload \<Rightarrow> AttributeInfo list" where
  "get_revealed_attributes_for_credential sub_proof_index requested_proof proof_req =
     List.map_filter (\<lambda>(r, info). if sub_proof_index = ra_sub_proof_index info then hm_get (pr_requested_attributes proof_req) r else None)
       (rp_revealed_attrs requested_proof) @
     List.map_filter (\<lambda>(r, info). if sub_proof_index = rg_sub_proof_index info then hm_get (pr_requested_attributes proof_req) r else None)
       (rp_revealed_attr_groups requested_proof)"

definition get_predicates_for_credential :: "nat \<Rightarrow> RequestedProof \<Rightarrow> ProofRequestPayload \<Rightarrow> PredicateInfo list" where
  "get_predicates_for_credential sub_proof_index requested_proof proof_req =
     List.map_filter (\<lambda>(r, p). if sub_proof_index = sp_sub_proof_index p then hm_get (pr_requested_predicates proof_req) r else None)
       (rp_predicates requested_proof)"

text \<open>What the verifier is given: the public data, by identifier.\<close>

record PublicData =
  pd_schemas :: "(SchemaId \<times> SchemaV1) list"
  pd_cred_defs :: "(CredentialDefinitionId \<times> CredentialDefinitionV1) list"
  pd_rev_reg_defs :: "(RevocationRegistryId \<times> RevocationRegistryDefinitionV1) list"
  pd_rev_regs :: "(RevocationRegistryId \<times> (nat \<times> UrsaObject) list) list"

definition revocation_data :: "PublicData \<Rightarrow> Identifier \<Rightarrow> (UrsaObject option \<times> UrsaObject option) outcome" where
  "revocation_data pd i =
     (case id_timestamp i of
        None \<Rightarrow> Ok (None, None)
      | Some timestamp \<Rightarrow>
          and_then (ok_or InvalidStructure (id_rev_reg_id i)) (\<lambda>rev_reg_id.
          and_then (ok_or InvalidStructure (hm_get (pd_rev_reg_defs pd) rev_reg_id)) (\<lambda>rev_reg_def.
          and_then (ok_or InvalidStructure (hm_get (pd_rev_regs pd) rev_reg_id)) (\<lambda>rev_regs_for_cred.
          and_then (ok_or InvalidStructure (hm_get rev_regs_for_cred timestamp)) (\<lambda>rev_reg.
            Ok (Some (rv_accum_key (rd_value rev_reg_def)), Some rev_reg))))))"

definition sub_proof_input :: "'a UrsaEnv_scheme \<Rightarrow> PublicData \<Rightarrow> ProofRequestPayload \<Rightarrow> Proof \<Rightarrow> UrsaObject \<Rightarrow> nat \<Rightarrow> SubProofInput outcome" where
  "sub_proof_input env pd proof_req proof non_credential_schema sub_proof_index =
     (let i = pf_identifiers proof ! sub_proof_index
      in and_then (ok_or InvalidStructure (hm_get (pd_schemas pd) (id_schema_id i))) (\<lambda>schema.
         and_then (ok_or InvalidStructure (hm_get (pd_cred_defs pd) (id_cred_def_id i))) (\<lambda>cred_def.
         and_then (revocation_data pd i) (\<lambda>(rev_key, rev_reg).
         and_then (build_credential_schema env (sc_attr_names schema)) (\<lambda>credential_schema.
         and_then (build_sub_proof_request env (get_revealed_attributes_for_credential sub_proof_index (pf_requested_proof proof) proof_req)
             (get_predicates_for_credential sub_proof_index (pf_requested_proof proof) proof_req)) (\<lambda>sub_proof_request.
         and_then (ur_public_key env (cv_primary (cd_value cred_def)) (cv_revocation (cd_value cred_def))) (\<lambda>pub_key.
           Ok \<lparr>si_request = sub_proof_request, si_schema = credential_schema, si_non_credential_schema = non_credential_schema,
               si_pub_key = pub_key, si_rev_key = rev_key, si_rev_reg = rev_reg\<rparr>)))))))"

fun add_sub_proof_requests ::
    "'a UrsaEnv_scheme \<Rightarrow> PublicData \<Rightarrow> ProofRequestPayload \<Rightarrow> Proof \<Rightarrow> UrsaObject \<Rightarrow> nat list \<Rightarrow> UrsaObject \<Rightarrow> UrsaObject outcome" where
  "add_sub_proof_requests env pd proof_req proof ncs [] verifier = Ok verifier"
| "add_sub_proof_requests env pd proof_req proof ncs (i # indexes) verifier =
     and_then (sub_proof_input env pd proof_req proof ncs i) (\<lambda>sub_proof.
     and_then (ur_add env verifier sub_proof) (add_sub_proof_requests env pd proof_req proof ncs indexes))"

definition verify :: "'a UrsaEnv_scheme \<Rightarrow> Proof \<Rightarrow> ProofRequestPayload \<Rightarrow> PublicData \<Rightarrow> bool outcome" where
  "verify env full_proof proof_req pd =
     and_then (received_revealed_attrs full_proof) (\<lambda>revealed.
     and_then (received_unrevealed_attrs full_proof) (\<lambda>unrevealed.
     and_then (received_predicates full_proof) (\<lambda>predicates.
     let self_attested = received_self_attested_attrs full_proof
     in and_then (compare_attr_from_proof_and_request proof_req revealed unrevealed self_attested predicates) (\<lambda>_.
        and_then (verify_revealed_attribute_values env proof_req full_proof) (\<lambda>_.
        and_then (verify_requested_restrictions env proof_req (pf_requested_proof full_proof) revealed unrevealed predicates self_attested) (\<lambda>_.
        and_then (compare_timestamps_from_proof_and_request proof_req revealed unrevealed self_attested predicates) (\<lambda>_.
        and_then (ur_new_verifier env) (\<lambda>verifier.
        and_then (build_non_credential_schema env) (\<lambda>ncs.
        and_then (add_sub_proof_requests env pd proof_req full_proof ncs [0..<length (pf_identifiers full_proof)] verifier) (\<lambda>verifier.
          ur_verify env verifier (pf_proof full_proof) (pr_nonce proof_req)))))))))))"

section \<open>Loops that stop at the first error\<close>

lemma for_all_Ok [simp]: "for_all f xs = Ok () \<longleftrightarrow> (\<forall>x \<in> set xs. f x = Ok ())"
  unfolding for_all_def by (induction xs) auto

lemma or_else_Ok: "or_else r s = Ok x \<longleftrightarrow> r = Ok x \<or> (\<exists>e. r = Err e \<and> s = Ok x)"
  by (cases r) (auto simp: or_else_def)

section \<open>The identifiers of a proof\<close>

lemma get_proof_identifier_Ok [simp]:
  "get_proof_identifier proof i = Ok x \<longleftrightarrow> i < length (pf_identifiers proof) \<and> x = pf_identifiers proof ! i"
  by (auto simp: get_proof_identifier_def)

lemma insert_identifiers_get:
  assumes "insert_identifiers proof rs m = Ok m'" and "distinct (map fst rs)"
  shows "hm_get m' k = (case map_of rs k of Some i \<Rightarrow> Some (pf_identifiers proof ! i) | None \<Rightarrow> hm_get m k)"
  using assms
proof (induction rs arbitrary: m)
  case (Cons p rs)
  obtain r i where p: "p = (r, i)" by (cases p)
  then have rec: "hm_get m' k = (case map_of rs k of Some j \<Rightarrow> Some (pf_identifiers proof ! j)
      | None \<Rightarrow> hm_get (hm_insert m r (pf_identifiers proof ! i)) k)"
    using Cons.prems by (intro Cons.IH) auto
  have "map_of rs r = None" using Cons.prems(2) p by (auto simp: map_of_eq_None_iff)
  with rec p show ?case by (auto simp: hm_get_insert split: option.split)
qed simp

lemma insert_identifiers_keys:
  "insert_identifiers proof rs m = Ok m' \<Longrightarrow> fst ` set m' = fst ` set m \<union> fst ` set rs"
proof (induction rs arbitrary: m)
  case (Cons p rs)
  obtain r i where p: "p = (r, i)" by (cases p)
  with Cons.prems have "insert_identifiers proof rs (hm_insert m r (pf_identifiers proof ! i)) = Ok m'" by auto
  then have "fst ` set m' = fst ` set (hm_insert m r (pf_identifiers proof ! i)) \<union> fst ` set rs" by (rule Cons.IH)
  then show ?case by (simp add: p fst_hm_insert)
qed simp

lemma insert_identifiers_range:
  "insert_identifiers proof rs m = Ok m' \<Longrightarrow> (r, i) \<in> set rs \<Longrightarrow> i < length (pf_identifiers proof)"
  by (induction rs arbitrary: m) auto

lemma insert_identifiers_wf: "insert_identifiers proof rs m = Ok m' \<Longrightarrow> hm_wf m \<Longrightarrow> hm_wf m'"
proof (induction rs arbitrary: m)
  case (Cons p rs)
  obtain r i where p: "p = (r, i)" by (cases p)
  with Cons.prems have "insert_identifiers proof rs (hm_insert m r (pf_identifiers proof ! i)) = Ok m'" by auto
  then show ?case using Cons.IH hm_wf_insert [OF Cons.prems(2)] by blast
qed simp

lemma map_of_hm_get: "map_of m k = hm_get m k"
  by (induction m) auto

lemma hm_get_map: "hm_get (map (\<lambda>(r, x). (r, f x)) m) k = map_option f (hm_get m k)"
  by (induction m) auto

lemma map_of_rev_distinct: "distinct (map fst xs) \<Longrightarrow> map_of (rev xs) = map_of xs"
  by (rule map_of_inject_set [THEN iffD2]) (simp_all add: rev_map [symmetric])

definition proof_wf :: "Proof \<Rightarrow> bool" where
  "proof_wf proof \<longleftrightarrow>
     hm_wf (rp_revealed_attrs (pf_requested_proof proof)) \<and> hm_wf (rp_revealed_attr_groups (pf_requested_proof proof)) \<and>
     hm_wf (rp_self_attested_attrs (pf_requested_proof proof)) \<and> hm_wf (rp_unrevealed_attrs (pf_requested_proof proof)) \<and>
     hm_wf (rp_predicates (pf_requested_proof proof)) \<and>
     (\<forall>(_, g) \<in> set (rp_revealed_attr_groups (pf_requested_proof proof)). hm_wf (rg_values g))"

definition request_wf :: "ProofRequestPayload \<Rightarrow> bool" where
  "request_wf req \<longleftrightarrow> hm_wf (pr_requested_attributes req) \<and> hm_wf (pr_requested_predicates req)"

lemma distinct_keys_map: "hm_wf m \<Longrightarrow> distinct (map fst (map (\<lambda>(r, x). (r, f x)) m))"
  by (simp add: hm_wf_def comp_def case_prod_beta)

lemma received_predicates_get:
  assumes "received_predicates proof = Ok m" and "proof_wf proof"
  shows "hm_get m k = map_option (\<lambda>p. pf_identifiers proof ! sp_sub_proof_index p) (hm_get (rp_predicates (pf_requested_proof proof)) k)"
  using insert_identifiers_get [OF assms(1) [unfolded received_predicates_def] distinct_keys_map, of k] assms(2)
  by (simp add: proof_wf_def map_of_hm_get hm_get_map split: option.split)

lemma received_unrevealed_get:
  assumes "received_unrevealed_attrs proof = Ok m" and "proof_wf proof"
  shows "hm_get m k = map_option (\<lambda>u. pf_identifiers proof ! sp_sub_proof_index u) (hm_get (rp_unrevealed_attrs (pf_requested_proof proof)) k)"
  using insert_identifiers_get [OF assms(1) [unfolded received_unrevealed_attrs_def] distinct_keys_map, of k] assms(2)
  by (simp add: proof_wf_def map_of_hm_get hm_get_map split: option.split)

lemma received_revealed_get:
  assumes "received_revealed_attrs proof = Ok m" and "proof_wf proof"
  shows "hm_get m k = (case hm_get (rp_revealed_attr_groups (pf_requested_proof proof)) k of
      Some g \<Rightarrow> Some (pf_identifiers proof ! rg_sub_proof_index g)
    | None \<Rightarrow> map_option (\<lambda>a. pf_identifiers proof ! ra_sub_proof_index a) (hm_get (rp_revealed_attrs (pf_requested_proof proof)) k))"
proof -
  from assms(1) obtain m0
    where m0: "insert_identifiers proof (map (\<lambda>(r, info). (r, ra_sub_proof_index info)) (rp_revealed_attrs (pf_requested_proof proof))) [] = Ok m0"
      and m: "insert_identifiers proof (map (\<lambda>(r, infos). (r, rg_sub_proof_index infos)) (rp_revealed_attr_groups (pf_requested_proof proof))) m0 = Ok m"
    by (auto simp: received_revealed_attrs_def)
  show ?thesis
    using insert_identifiers_get [OF m0 distinct_keys_map, of k] insert_identifiers_get [OF m distinct_keys_map, of k] assms(2)
    by (simp add: proof_wf_def map_of_hm_get hm_get_map split: option.split)
qed

lemma received_keys:
  "received_revealed_attrs proof = Ok m \<Longrightarrow> fst ` set m =
     fst ` set (rp_revealed_attrs (pf_requested_proof proof)) \<union> fst ` set (rp_revealed_attr_groups (pf_requested_proof proof))"
  "received_unrevealed_attrs proof = Ok m \<Longrightarrow> fst ` set m = fst ` set (rp_unrevealed_attrs (pf_requested_proof proof))"
  "received_predicates proof = Ok m \<Longrightarrow> fst ` set m = fst ` set (rp_predicates (pf_requested_proof proof))"
  unfolding received_revealed_attrs_def received_unrevealed_attrs_def received_predicates_def
  by (clarsimp simp: case_prod_beta image_image dest!: insert_identifiers_keys)+

lemma received_range:
  "received_revealed_attrs proof = Ok m \<Longrightarrow> (r, a) \<in> set (rp_revealed_attrs (pf_requested_proof proof)) \<Longrightarrow>
     ra_sub_proof_index a < length (pf_identifiers proof)"
  "received_revealed_attrs proof = Ok m \<Longrightarrow> (r, g) \<in> set (rp_revealed_attr_groups (pf_requested_proof proof)) \<Longrightarrow>
     rg_sub_proof_index g < length (pf_identifiers proof)"
  "received_unrevealed_attrs proof = Ok m \<Longrightarrow> (r, u) \<in> set (rp_unrevealed_attrs (pf_requested_proof proof)) \<Longrightarrow>
     sp_sub_proof_index u < length (pf_identifiers proof)"
  "received_predicates proof = Ok m \<Longrightarrow> (r, u) \<in> set (rp_predicates (pf_requested_proof proof)) \<Longrightarrow>
     sp_sub_proof_index u < length (pf_identifiers proof)"
  unfolding received_revealed_attrs_def received_unrevealed_attrs_def received_predicates_def
  by (force dest: insert_identifiers_range)+

lemma attr_identifiers_get:
  assumes "hm_wf rm" "hm_wf um"
  shows "hm_get (fold (\<lambda>(r, i) m. hm_insert m r i) (rm @ um) []) k =
    (case hm_get um k of Some i \<Rightarrow> Some i | None \<Rightarrow> hm_get rm k)"
  using assms unfolding fold_hm_insert
  by (simp add: hm_wf_def map_of_rev_distinct map_add_def map_of_hm_get split: option.split)

lemma received_wf:
  "received_revealed_attrs proof = Ok m \<Longrightarrow> hm_wf m" "received_unrevealed_attrs proof = Ok m \<Longrightarrow> hm_wf m"
proof -
  have "hm_wf []" by (simp add: hm_wf_def)
  then show "received_revealed_attrs proof = Ok m \<Longrightarrow> hm_wf m" "received_unrevealed_attrs proof = Ok m \<Longrightarrow> hm_wf m"
    unfolding received_revealed_attrs_def received_unrevealed_attrs_def by (auto intro: insert_identifiers_wf)
qed

section \<open>What a restriction means\<close>

text \<open>
  \<open>restriction_holds\<close> is the meaning of a restriction, given which values of which tags a presented credential
  shows. \<open>tag_shown\<close> says it of the credential with an identifier, of which the values \<open>m\<close> are revealed.
\<close>

fun restriction_holds :: "(string \<Rightarrow> string \<Rightarrow> bool) \<Rightarrow> Query \<Rightarrow> bool" where
  "restriction_holds shown (Q_Eq n v) \<longleftrightarrow> shown n v"
| "restriction_holds shown (Q_Neq n v) \<longleftrightarrow> \<not> shown n v"
| "restriction_holds shown (Q_In n vs) \<longleftrightarrow> list_ex (shown n) vs"
| "restriction_holds shown (Q_And qs) \<longleftrightarrow> list_all (restriction_holds shown) qs"
| "restriction_holds shown (Q_Or qs) \<longleftrightarrow> list_ex (restriction_holds shown) qs"
| "restriction_holds shown (Q_Not q) \<longleftrightarrow> \<not> restriction_holds shown q"
| "restriction_holds shown q \<longleftrightarrow> False"

definition FACT_TAGS :: "string list" where
  "FACT_TAGS = [''schema_id'', ''schema_issuer_did'', ''schema_name'', ''schema_version'', ''cred_def_id'', ''issuer_did'']"

definition credential_fact :: "Identifier \<Rightarrow> string \<Rightarrow> string option" where
  "credential_fact i tag =
     (if tag = ''schema_id'' then Some (id_schema_id i)
      else if tag = ''schema_issuer_did'' then map_option fst (schema_id_parts (id_schema_id i))
      else if tag = ''schema_name'' then map_option (fst \<circ> snd) (schema_id_parts (id_schema_id i))
      else if tag = ''schema_version'' then map_option (snd \<circ> snd) (schema_id_parts (id_schema_id i))
      else if tag = ''cred_def_id'' then Some (id_cred_def_id i)
      else if tag = ''issuer_did'' then issuer_did (id_cred_def_id i)
      else None)"

definition tag_shown :: "'a UrsaEnv_scheme \<Rightarrow> Identifier \<Rightarrow> AttrValues \<Rightarrow> string \<Rightarrow> string \<Rightarrow> bool" where
  "tag_shown env i m tag v \<longleftrightarrow>
     (if tag \<in> set FACT_TAGS then credential_fact i tag = Some v
      else (case attr_request_by_value tag of
              Some x \<Rightarrow>
                (case List.find (\<lambda>(k, _). attr_common_view env k = attr_common_view env x) (ur_order env m) of
                   Some (_, Some raw) \<Rightarrow> raw = v
                 | _ \<Rightarrow> False)
            | None \<Rightarrow> attr_request_by_marker tag \<noteq> None))"

text \<open>The order of a hash map is an order of its entries.\<close>

definition order_ok :: "'a UrsaEnv_scheme \<Rightarrow> bool" where
  "order_ok env \<longleftrightarrow> (\<forall>m. set (ur_order env m) = set m \<and> length (ur_order env m) = length m)"

lemma is_ok_unit: "is_ok r \<longleftrightarrow> r = Ok ()"
  by (simp add: is_ok_iff)

lemma do_process_operator_iff:
  "do_process_operator env m flt q = Ok () \<longleftrightarrow> restriction_holds (\<lambda>t v. process_filter env m t v flt = Ok ()) q"
proof (induction q)
  case (Q_In n vs)
  then show ?case by (simp add: is_ok_unit list_ex_iff)
qed (auto simp: is_ok_unit list_all_iff list_ex_iff)

lemma value_not_marker: "attr_request_by_value tag = Some x \<Longrightarrow> attr_request_by_marker tag = None"
  by (auto simp: attr_request_by_value_def attr_request_by_marker_def attr_request_def Let_def split: if_splits)

lemma find_None_iff_ex: "List.find P xs = None \<longleftrightarrow> \<not> list_ex P xs"
  by (auto simp: find_None_iff list_ex_iff)

lemma process_filter_iff:
  assumes "gather_filter_info r ids = Ok flt" and "hm_get ids r = Some i" and "order_ok env"
  shows "process_filter env m tag v flt = Ok () \<longleftrightarrow> tag_shown env i m tag v"
proof (cases "tag \<in> set FACT_TAGS")
  case True
  from assms(1,2) obtain d n w iss where parts: "schema_id_parts (id_schema_id i) = Some (d, n, w)" "issuer_did (id_cred_def_id i) = Some iss"
    and flt: "flt = \<lparr>fl_schema_id = id_schema_id i, fl_schema_issuer_did = d, fl_schema_name = n,
      fl_schema_version = w, fl_issuer_did = iss, fl_cred_def_id = id_cred_def_id i\<rparr>"
    by (auto simp: gather_filter_info_def)
  from True have "tag = ''schema_id'' \<or> tag = ''schema_issuer_did'' \<or> tag = ''schema_name'' \<or> tag = ''schema_version'' \<or>
      tag = ''cred_def_id'' \<or> tag = ''issuer_did''"
    unfolding FACT_TAGS_def by (simp only: list.set insert_iff empty_iff simp_thms)
  then show ?thesis
    by (elim disjE) (simp_all add: parts flt process_filter_def tag_shown_def credential_fact_def FACT_TAGS_def precess_filed_def)
next
  case False
  then have *: "process_filter env m tag v flt = (if is_attr_with_revealed_value env tag m
      then check_internal_tag_revealed_value env tag v m else if is_attr_marker_operator tag then Ok () else Err InvalidStructure)"
    by (simp add: process_filter_def FACT_TAGS_def)
  show ?thesis
  proof (cases "attr_request_by_value tag")
    case None
    with False show ?thesis
      by (simp add: * tag_shown_def is_attr_with_revealed_value_def is_attr_marker_operator_def)
  next
    case (Some x)
    let ?P = "\<lambda>(k, _). attr_common_view env k = attr_common_view env x"
    have ex: "list_ex ?P (ur_order env m) = list_ex ?P m" using assms(3) by (simp add: list_ex_iff order_ok_def)
    have val: "is_attr_with_revealed_value env tag m \<longleftrightarrow> List.find ?P (ur_order env m) \<noteq> None"
      unfolding find_None_iff_ex [of ?P "ur_order env m"] ex using Some by (simp add: is_attr_with_revealed_value_def)
    show ?thesis
    proof (cases "List.find ?P (ur_order env m)")
      case None
      then show ?thesis using False Some val value_not_marker [OF Some]
        by (simp add: * tag_shown_def is_attr_marker_operator_def)
    next
      case (Some p)
      then show ?thesis using False \<open>attr_request_by_value tag = Some x\<close> val
        by (cases p) (simp add: * tag_shown_def check_internal_tag_revealed_value_def split: option.split)
    qed
  qed
qed

lemma restriction_checked:
  assumes "and_then (gather_filter_info r ids) (\<lambda>flt. do_process_operator env m flt q) = Ok ()" and "order_ok env"
  shows "\<exists>i. hm_get ids r = Some i \<and> restriction_holds (tag_shown env i m) q"
proof -
  from assms(1) obtain flt where flt: "gather_filter_info r ids = Ok flt" and q: "do_process_operator env m flt q = Ok ()" by auto
  from flt obtain i where i: "hm_get ids r = Some i" by (auto simp: gather_filter_info_def)
  have "(\<lambda>t v. process_filter env m t v flt = Ok ()) = tag_shown env i m"
    using process_filter_iff [OF flt i assms(2)] by (intro ext) simp
  with q i show ?thesis by (simp add: do_process_operator_iff)
qed

section \<open>What an accepted proof shows\<close>

lemma verify_steps:
  assumes "verify env proof req pd = Ok b"
  shows "\<exists>rm um pm v0 ncs v1. received_revealed_attrs proof = Ok rm \<and> received_unrevealed_attrs proof = Ok um \<and>
    received_predicates proof = Ok pm \<and>
    compare_attr_from_proof_and_request req rm um (received_self_attested_attrs proof) pm = Ok () \<and>
    verify_revealed_attribute_values env req proof = Ok () \<and>
    verify_requested_restrictions env req (pf_requested_proof proof) rm um pm (received_self_attested_attrs proof) = Ok () \<and>
    compare_timestamps_from_proof_and_request req rm um (received_self_attested_attrs proof) pm = Ok () \<and>
    ur_new_verifier env = Ok v0 \<and> build_non_credential_schema env = Ok ncs \<and>
    add_sub_proof_requests env pd req proof ncs [0..<length (pf_identifiers proof)] v0 = Ok v1 \<and>
    ur_verify env v1 (pf_proof proof) (pr_nonce req) = Ok b"
  using assms by (auto simp: verify_def Let_def)

lemma attribute_restriction:
  assumes ok: "verify_requested_restrictions env req rp rm um pm sa = Ok ()" and wf: "hm_wf rm" "hm_wf um" and "order_ok env"
    and info: "(r, info) \<in> set (pr_requested_attributes req)" and q: "ai_restrictions info = Some q"
    and own: "\<not> is_self_attested r info sa" and m: "name_value_map rp r info = Ok m"
  shows "\<exists>i. (case hm_get um r of Some i \<Rightarrow> Some i | None \<Rightarrow> hm_get rm r) = Some i \<and> restriction_holds (tag_shown env i m) q"
proof -
  let ?ids = "fold (\<lambda>(r, i) m. hm_insert m r i) (rm @ um) []"
  have "verify_attribute_restrictions env rp ?ids r info = Ok ()"
    using ok info own by (auto simp: verify_requested_restrictions_def Let_def)
  then have "and_then (gather_filter_info r ?ids) (\<lambda>flt. do_process_operator env m flt q) = Ok ()"
    using m q by (auto simp: verify_attribute_restrictions_def)
  from restriction_checked [OF this \<open>order_ok env\<close>] show ?thesis
    unfolding attr_identifiers_get [OF wf] .
qed

lemma revealed_value_proved:
  assumes "verify_revealed_attribute_value env name proof a = Ok ()"
  shows "\<exists>attrs key enc n. ra_sub_proof_index a < length (ur_proofs env (pf_proof proof)) \<and>
    ur_revealed_attrs env (ur_proofs env (pf_proof proof) ! ra_sub_proof_index a) = Ok attrs \<and> (key, enc) \<in> set attrs \<and>
    attr_common_view env key = attr_common_view env name \<and>
    ur_from_dec env (ra_encoded a) = Ok n \<and> ur_from_dec env enc = Ok n"
proof -
  from assms obtain attrs p n where "ra_sub_proof_index a < length (ur_proofs env (pf_proof proof))"
    "ur_revealed_attrs env (ur_proofs env (pf_proof proof) ! ra_sub_proof_index a) = Ok attrs"
    and p: "List.find (\<lambda>(key, _). attr_common_view env name = attr_common_view env key) attrs = Some p"
    "ur_from_dec env (ra_encoded a) = Ok n" "ur_from_dec env (snd p) = Ok n"
    by (auto simp: verify_revealed_attribute_value_def split: if_splits prod.splits)
  moreover from p(1) have "p \<in> set attrs" "attr_common_view env name = attr_common_view env (fst p)"
    by (auto simp: find_Some_iff) (metis nth_mem)
  ultimately show ?thesis by (metis prod.collapse)
qed

text \<open>
  C6: A revealed attribute of an accepted proof, whose referent is not also listed as unrevealed or as a group, answers the
  requested attribute of that referent: the sub proof it points to proves an attribute of the requested name with the
  encoded value, and the requested restrictions hold for the credential of that sub proof and the raw value.
\<close>

theorem accepted_attribute:
  assumes "verify env proof req pd = Ok True" and "proof_wf proof" and "order_ok env"
    and a: "hm_get (rp_revealed_attrs (pf_requested_proof proof)) r = Some a"
    and alone: "hm_get (rp_revealed_attr_groups (pf_requested_proof proof)) r = None" "hm_get (rp_unrevealed_attrs (pf_requested_proof proof)) r = None"
  shows "\<exists>info name attrs key enc n. hm_get (pr_requested_attributes req) r = Some info \<and> ai_name info = Some name \<and>
    ra_sub_proof_index a < length (pf_identifiers proof) \<and> ra_sub_proof_index a < length (ur_proofs env (pf_proof proof)) \<and>
    ur_revealed_attrs env (ur_proofs env (pf_proof proof) ! ra_sub_proof_index a) = Ok attrs \<and> (key, enc) \<in> set attrs \<and>
    attr_common_view env key = attr_common_view env name \<and>
    ur_from_dec env (ra_encoded a) = Ok n \<and> ur_from_dec env enc = Ok n \<and>
    (\<forall>q. ai_restrictions info = Some q \<and> q \<noteq> Q_Or [] \<longrightarrow>
       restriction_holds (tag_shown env (pf_identifiers proof ! ra_sub_proof_index a) [(name, Some (ra_raw a))]) q)"
proof -
  from verify_steps [OF assms(1)] obtain rm um pm v0 ncs v1 where rm: "received_revealed_attrs proof = Ok rm"
    and um: "received_unrevealed_attrs proof = Ok um" and vals: "verify_revealed_attribute_values env req proof = Ok ()"
    and restr: "verify_requested_restrictions env req (pf_requested_proof proof) rm um pm (received_self_attested_attrs proof) = Ok ()"
    by blast
  have mem: "(r, a) \<in> set (rp_revealed_attrs (pf_requested_proof proof))" using a by (rule hm_get_Some_in)
  with vals obtain info name where info: "hm_get (pr_requested_attributes req) r = Some info" "ai_name info = Some name"
    and val: "verify_revealed_attribute_value env name proof a = Ok ()"
    by (fastforce simp: verify_revealed_attribute_values_def)
  have "restriction_holds (tag_shown env (pf_identifiers proof ! ra_sub_proof_index a) [(name, Some (ra_raw a))]) q"
    if q: "ai_restrictions info = Some q" "q \<noteq> Q_Or []" for q
  proof (cases "q = Q_And []")
    case False
    with q have own: "\<not> is_self_attested r info (received_self_attested_attrs proof)"
      by (auto simp: is_self_attested_def split: Query.splits list.splits)
    have m: "name_value_map (pf_requested_proof proof) r info = Ok [(name, Some (ra_raw a))]"
      using info(2) a by (simp add: name_value_map_def)
    show ?thesis
      using attribute_restriction [OF restr received_wf(1) [OF rm] received_wf(2) [OF um] assms(3) hm_get_Some_in [OF info(1)] q(1) own m]
        received_revealed_get [OF rm assms(2), of r] received_unrevealed_get [OF um assms(2), of r] a alone by auto
  qed simp
  with info revealed_value_proved [OF val] received_range(1) [OF rm mem] show ?thesis by blast
qed

lemma hm_insert_mem: "(k', v') \<in> set (hm_insert m k v) \<Longrightarrow> (k', v') = (k, v) \<or> (k', v') \<in> set m"
  by (induction m k v rule: hm_insert.induct) (auto split: if_splits)

lemma add_revealed_values:
  "add_revealed ras index rs m = Ok m' \<Longrightarrow> (name, Some raw) \<in> set m' \<Longrightarrow>
     (name, Some raw) \<in> set m \<or> (\<exists>r a. (r, a) \<in> set rs \<and> ra_sub_proof_index a = index \<and> ra_raw a = raw)"
proof (induction ras index rs m rule: add_revealed.induct)
  case (2 ras index r a rs m)
  show ?case
  proof (cases "index = ra_sub_proof_index a")
    case True
    with 2(3) obtain info where info: "hm_get ras r = Some info"
      and rec: "add_revealed ras index rs (case ai_name info of Some n \<Rightarrow> hm_insert m n (Some (ra_raw a)) | None \<Rightarrow> m) = Ok m'"
      by (auto split: option.splits)
    from 2(1) [OF True info rec 2(4)] True show ?thesis
      by (auto split: option.splits dest!: hm_insert_mem)
  qed (use 2 in auto)
qed simp

lemma fold_values: "(name, Some raw) \<in> set (fold (\<lambda>(n, v) m. hm_insert m n (Some (av_raw v))) vs m) \<Longrightarrow>
    (name, Some raw) \<in> set m \<or> (\<exists>v. (name, v) \<in> set vs \<and> av_raw v = raw)"
  by (induction vs arbitrary: m) (auto dest!: hm_insert_mem)

lemma add_revealed_groups_values:
  "(name, Some raw) \<in> set (add_revealed_groups index gs m) \<Longrightarrow>
     (name, Some raw) \<in> set m \<or> (\<exists>r g v. (r, g) \<in> set gs \<and> rg_sub_proof_index g = index \<and> (name, v) \<in> set (rg_values g) \<and> av_raw v = raw)"
proof (induction gs arbitrary: m)
  case (Cons p gs)
  obtain r g where p: "p = (r, g)" by (cases p)
  let ?m = "if index = rg_sub_proof_index g then fold (\<lambda>(n, v) m. hm_insert m n (Some (av_raw v))) (rg_values g) m else m"
  have "(name, Some raw) \<in> set (add_revealed_groups index gs ?m)" using Cons.prems p by (simp add: add_revealed_groups_def)
  then consider "(name, Some raw) \<in> set ?m"
    | "\<exists>r g v. (r, g) \<in> set gs \<and> rg_sub_proof_index g = index \<and> (name, v) \<in> set (rg_values g) \<and> av_raw v = raw"
    using Cons.IH by blast
  then show ?case
  proof cases
    case 1
    then show ?thesis using p by (auto split: if_splits dest!: fold_values)
  qed (use p in auto)
qed (simp add: add_revealed_groups_def)


text \<open>\<open>answers\<close>: the sub proof with the index answers a requested attribute; \<open>registry_at\<close>: the registry at the time a credential names.\<close>

definition answers :: "RequestedProof \<Rightarrow> string \<Rightarrow> nat \<Rightarrow> bool" where
  "answers rp r k \<longleftrightarrow>
     map_option ra_sub_proof_index (hm_get (rp_revealed_attrs rp) r) = Some k \<or>
     map_option rg_sub_proof_index (hm_get (rp_revealed_attr_groups rp) r) = Some k \<or>
     map_option sp_sub_proof_index (hm_get (rp_unrevealed_attrs rp) r) = Some k"

definition registry_at :: "PublicData \<Rightarrow> Identifier \<Rightarrow> UrsaObject option" where
  "registry_at pd i =
     Option.bind (id_timestamp i) (\<lambda>timestamp. Option.bind (id_rev_reg_id i) (\<lambda>rev_reg_id.
       Option.bind (hm_get (pd_rev_regs pd) rev_reg_id) (\<lambda>regs. hm_get regs timestamp)))"

fun add_inputs :: "'a UrsaEnv_scheme \<Rightarrow> UrsaObject \<Rightarrow> SubProofInput list \<Rightarrow> UrsaObject outcome" where
  "add_inputs env v [] = Ok v"
| "add_inputs env v (x # xs) = and_then (ur_add env v x) (\<lambda>v. add_inputs env v xs)"

lemma add_sub_proof_requests_inputs:
  "add_sub_proof_requests env pd req proof ncs ks v = Ok v' \<Longrightarrow>
     \<exists>inputs. list_all2 (\<lambda>k x. sub_proof_input env pd req proof ncs k = Ok x) ks inputs \<and> add_inputs env v inputs = Ok v'"
proof (induction ks arbitrary: v)
  case (Cons k ks)
  then obtain x w where x: "sub_proof_input env pd req proof ncs k = Ok x" "ur_add env v x = Ok w"
    and rest: "add_sub_proof_requests env pd req proof ncs ks w = Ok v'" by auto
  from Cons.IH [OF rest] obtain inputs where "list_all2 (\<lambda>k x. sub_proof_input env pd req proof ncs k = Ok x) ks inputs"
    "add_inputs env w inputs = Ok v'" by blast
  with x show ?case by (intro exI [of _ "x # inputs"]) simp
qed simp

lemma sub_proof_input_registry:
  assumes "sub_proof_input env pd req proof ncs k = Ok x"
  shows "si_rev_reg x = registry_at pd (pf_identifiers proof ! k) \<and>
    (id_timestamp (pf_identifiers proof ! k) \<noteq> None \<longrightarrow> si_rev_reg x \<noteq> None \<and> si_rev_key x \<noteq> None)"
proof -
  have rd: "snd p = registry_at pd i \<and> (id_timestamp i \<noteq> None \<longrightarrow> fst p \<noteq> None \<and> snd p \<noteq> None)" if "revocation_data pd i = Ok p" for i p
    using that by (cases "id_timestamp i") (auto simp: revocation_data_def registry_at_def)
  from assms obtain p where "revocation_data pd (pf_identifiers proof ! k) = Ok p" "si_rev_key x = fst p" "si_rev_reg x = snd p"
    unfolding sub_proof_input_def Let_def by (auto split: prod.splits)
  then show ?thesis using rd by metis
qed

lemma revealed_answers:
  assumes "received_revealed_attrs proof = Ok rm" and "proof_wf proof" and i: "hm_get rm r = Some i"
  shows "\<exists>k < length (pf_identifiers proof). answers (pf_requested_proof proof) r k \<and> i = pf_identifiers proof ! k"
proof (cases "hm_get (rp_revealed_attr_groups (pf_requested_proof proof)) r")
  case (Some g)
  then show ?thesis using received_revealed_get [OF assms(1,2), of r] i received_range(2) [OF assms(1) hm_get_Some_in [OF Some]]
    by (intro exI [of _ "rg_sub_proof_index g"]) (simp add: answers_def)
next
  case None
  then obtain a where a: "hm_get (rp_revealed_attrs (pf_requested_proof proof)) r = Some a" "i = pf_identifiers proof ! ra_sub_proof_index a"
    using received_revealed_get [OF assms(1,2), of r] unfolding i by (auto simp: eq_commute [of "Some i"])
  then show ?thesis using received_range(1) [OF assms(1) hm_get_Some_in [OF a(1)]]
    by (intro exI [of _ "ra_sub_proof_index a"]) (simp add: answers_def)
qed

lemma unrevealed_answers:
  assumes "received_unrevealed_attrs proof = Ok um" and "proof_wf proof" and i: "hm_get um r = Some i"
  shows "\<exists>k < length (pf_identifiers proof). answers (pf_requested_proof proof) r k \<and> i = pf_identifiers proof ! k"
proof -
  obtain u where u: "hm_get (rp_unrevealed_attrs (pf_requested_proof proof)) r = Some u" "i = pf_identifiers proof ! sp_sub_proof_index u"
    using received_unrevealed_get [OF assms(1,2), of r] unfolding i by (auto simp: eq_commute [of "Some i"])
  then show ?thesis using received_range(3) [OF assms(1) hm_get_Some_in [OF u(1)]]
    by (intro exI [of _ "sp_sub_proof_index u"]) (simp add: answers_def)
qed

lemma answers_keys:
  assumes "received_revealed_attrs proof = Ok rm" and "received_unrevealed_attrs proof = Ok um" and "answers (pf_requested_proof proof) r k"
  shows "r \<in> fst ` set rm \<union> fst ` set um"
proof -
  have "r \<in> fst ` set m" if "hm_get m r = Some x" for m :: "(string \<times> 'c) list" and x
    using that hm_get_None_iff [of m r] by auto
  with assms(3) show ?thesis unfolding received_keys(1) [OF assms(1)] received_keys(2) [OF assms(2)] answers_def
    by (metis (no_types, lifting) Un_iff map_option_eq_Some hm_get_None_iff option.distinct(1))
qed

lemma timestamp_answered:
  assumes rm: "received_revealed_attrs proof = Ok rm" and um: "received_unrevealed_attrs proof = Ok um" and "proof_wf proof"
    and ts: "compare_timestamps_from_proof_and_request req rm um (received_self_attested_attrs proof) pm = Ok ()"
    and info: "(r, info) \<in> set (pr_requested_attributes req)" and iv: "get_non_revoc_interval (pr_non_revoked req) (ai_non_revoked info) \<noteq> None"
    and sa: "r \<notin> received_self_attested_attrs proof"
  shows "\<exists>k < length (pf_identifiers proof). answers (pf_requested_proof proof) r k \<and> id_timestamp (pf_identifiers proof ! k) \<noteq> None"
proof -
  let ?v = "\<lambda>m. validate_timestamp m r (pr_non_revoked req) (ai_non_revoked info)"
  have "or_else (?v rm) (or_else (?v um) (if r \<in> received_self_attested_attrs proof then Ok () else Err InvalidStructure)) = Ok ()"
    using ts info by (auto simp: compare_timestamps_from_proof_and_request_def)
  then have "?v rm = Ok () \<or> ?v um = Ok ()" using sa by (auto simp: or_else_Ok)
  moreover have "\<exists>i. hm_get m r = Some i \<and> id_timestamp i \<noteq> None" if "?v m = Ok ()" for m
    using that iv by (auto simp: validate_timestamp_def split: option.splits if_splits)
  ultimately consider i where "hm_get rm r = Some i" "id_timestamp i \<noteq> None" | i where "hm_get um r = Some i" "id_timestamp i \<noteq> None"
    by blast
  then show ?thesis
    by cases (use revealed_answers [OF rm assms(3), of r] unrevealed_answers [OF um assms(3), of r] in blast)+
qed


section \<open>A sample\<close>

text \<open>
  A cryptographic library whose proofs have two sub proofs, the first of which reveals the attribute \<open>name\<close>; the
  public data of two issuers; a request for a name from the issuer \<open>Gov\<close>.
\<close>

definition sample_ursa :: UrsaEnv where
  "sample_ursa = \<lparr>ur_proofs = (\<lambda>_. [''p0'', ''p1'']),
     ur_revealed_attrs = (\<lambda>p. Ok (if p = ''p0'' then [(''name'', ''17'')] else [])),
     ur_from_dec = (\<lambda>s. if s \<noteq> [] \<and> list_all is_digit s then Ok (digits_value s) else Err InvalidStructure),
     ur_credential_schema = (\<lambda>_. Ok ''schema''), ur_non_credential_schema = (\<lambda>_. Ok ''master''),
     ur_sub_proof_request = (\<lambda>_ _. Ok ''request''), ur_public_key = (\<lambda>p _. Ok p), ur_new_verifier = Ok [],
     ur_add = (\<lambda>v x. Ok (v @ si_pub_key x)), ur_verify = (\<lambda>_ p nonce. Ok (p = ''proof'' \<and> nonce = ''1'')),
     ur_lowercase = (\<lambda>s. s), ur_order = (\<lambda>m. m)\<rparr>"

definition sample_identifier :: "string \<Rightarrow> nat option \<Rightarrow> Identifier" where
  "sample_identifier issuer t = \<lparr>id_schema_id = ''Gov:2:gvt:1.0'', id_cred_def_id = issuer @ '':3:CL:7:tag'',
     id_rev_reg_id = Some ''reg'', id_timestamp = t\<rparr>"

definition sample_cred_def :: "string \<Rightarrow> CredentialDefinitionId \<times> CredentialDefinitionV1" where
  "sample_cred_def issuer = (issuer @ '':3:CL:7:tag'', \<lparr>cd_id = issuer @ '':3:CL:7:tag'', cd_schema_id = ''7'',
     cd_signature_type = CL, cd_tag = ''tag'', cd_value = \<lparr>cv_primary = issuer, cv_revocation = None\<rparr>\<rparr>)"

definition sample_public :: PublicData where
  "sample_public = \<lparr>
     pd_schemas = [(''Gov:2:gvt:1.0'', \<lparr>sc_id = ''Gov:2:gvt:1.0'', sc_name = ''gvt'', sc_version = ''1.0'', sc_attr_names = [''name'', ''age''], sc_seq_no = Some 7\<rparr>)],
     pd_cred_defs = [sample_cred_def ''Gov'', sample_cred_def ''Eve''],
     pd_rev_reg_defs = [(''reg'', \<lparr>rd_id = ''reg'', rd_revoc_def_type = CL_ACCUM, rd_tag = ''tag'', rd_cred_def_id = ''Gov:3:CL:7:tag'',
       rd_value = \<lparr>rv_issuance_type = ISSUANCE_BY_DEFAULT, rv_max_cred_num = 5, rv_accum_key = ''key'', rv_tails_hash = [], rv_tails_location = []\<rparr>\<rparr>)],
     pd_rev_regs = [(''reg'', [(100, ''accumulator'')])]\<rparr>"

definition sample_request :: "(string \<times> PredicateInfo) list \<Rightarrow> NonRevocedInterval option \<Rightarrow> ProofRequestPayload" where
  "sample_request preds interval = \<lparr>pr_nonce = ''1'', pr_name = ''job'', pr_version = ''1'',
     pr_requested_attributes = [(''r'', \<lparr>ai_name = Some ''Name'', ai_names = None,
       ai_restrictions = Some (Q_And [Q_Eq ''issuer_did'' ''Gov'', Q_Eq ''attr::name::value'' ''Alice'']), ai_non_revoked = None\<rparr>)],
     pr_requested_predicates = preds, pr_non_revoked = interval\<rparr>"

definition sample_age :: PredicateInfo where
  "sample_age = \<lparr>pi_name = ''age'', pi_p_type = GE, pi_p_value = 18, pi_restrictions = Some (Q_Eq ''schema_name'' ''gvt''), pi_non_revoked = None\<rparr>"

definition sample_proof ::
    "(string \<times> string) list \<Rightarrow> (string \<times> SubProofReferent) list \<Rightarrow> (string \<times> SubProofReferent) list \<Rightarrow> Identifier list \<Rightarrow> Proof" where
  "sample_proof self unrevealed preds ids = \<lparr>pf_proof = ''proof'',
     pf_requested_proof = \<lparr>rp_revealed_attrs = [(''r'', \<lparr>ra_sub_proof_index = 0, ra_raw = ''Alice'', ra_encoded = ''017''\<rparr>)],
       rp_revealed_attr_groups = [], rp_self_attested_attrs = self, rp_unrevealed_attrs = unrevealed, rp_predicates = preds\<rparr>,
     pf_identifiers = ids\<rparr>"

definition sample_interval :: NonRevocedInterval where
  "sample_interval = \<lparr>nr_from = None, nr_to = Some 100\<rparr>"

lemma sample_order: "order_ok sample_ursa"
  by (simp add: order_ok_def sample_ursa_def)

lemma sample_accepted:
  "verify sample_ursa (sample_proof [] [] [(''age'', \<lparr>sp_sub_proof_index = 0\<rparr>)] [sample_identifier ''Gov'' (Some 100)])
     (sample_request [(''age'', sample_age)] (Some sample_interval)) sample_public = Ok True"
  by code_simp

lemma sample_wf: "proof_wf (sample_proof [] [] [(''age'', \<lparr>sp_sub_proof_index = 0\<rparr>)] ids)"
  by (simp add: proof_wf_def sample_proof_def hm_wf_def)

theorem accepted_attribute_witness:
  "\<exists>enc. (''name'', enc) \<in> set [(''name'', ''17'')] \<and> ur_from_dec sample_ursa ''017'' = ur_from_dec sample_ursa enc \<and>
    restriction_holds (tag_shown sample_ursa (sample_identifier ''Gov'' (Some 100)) [(''Name'', Some ''Alice'')])
      (Q_And [Q_Eq ''issuer_did'' ''Gov'', Q_Eq ''attr::name::value'' ''Alice''])"
  using accepted_attribute [OF sample_accepted sample_wf sample_order, of "''r''"]
  by (auto simp: sample_proof_def sample_request_def sample_ursa_def)



section \<open>What the checks do not exclude\<close>

text \<open>
  The condition of \<open>accepted_attribute\<close> on the referent is needed: a proof that lists it as revealed, from a
  credential of the issuer \<open>Eve\<close>, and as unrevealed, from a credential of \<open>Gov\<close>, is accepted although the
  restriction on the issuer does not hold for the credential that the value comes from.
\<close>

lemma restriction_bypass:
  "verify sample_ursa (sample_proof [] [(''r'', \<lparr>sp_sub_proof_index = 1\<rparr>)] [] [sample_identifier ''Eve'' None, sample_identifier ''Gov'' None])
     (sample_request [] None) sample_public = Ok True"
  "\<not> restriction_holds (tag_shown sample_ursa (sample_identifier ''Eve'' None) [(''Name'', Some ''Alice'')])
     (Q_And [Q_Eq ''issuer_did'' ''Gov'', Q_Eq ''attr::name::value'' ''Alice''])"
  by code_simp+

text \<open>
  So is the condition on self attested attributes: a proof that lists the revealed referent as self attested too is
  accepted without any proof of non-revocation, for a request that asks for it.
\<close>

lemma non_revocation_bypass:
  "verify sample_ursa (sample_proof [(''r'', ''x'')] [] [] [sample_identifier ''Gov'' None]) (sample_request [] (Some sample_interval)) sample_public = Ok True"
  "verify sample_ursa (sample_proof [] [] [] [sample_identifier ''Gov'' None]) (sample_request [] (Some sample_interval)) sample_public = Err InvalidStructure"
  by code_simp+

text \<open>
  A revealed attribute without restrictions that is self attested too is dropped from the attributes that are looked up
  for the restrictions of a predicate on the same credential: the verifier panics.
\<close>

lemma self_attested_panic:
  "verify sample_ursa (sample_proof [(''r'', ''x'')] [] [(''age'', \<lparr>sp_sub_proof_index = 0\<rparr>)] [sample_identifier ''Gov'' None])
     ((sample_request [(''age'', sample_age)] None)
       \<lparr>pr_requested_attributes := [(''r'', \<lparr>ai_name = Some ''Name'', ai_names = None, ai_restrictions = None, ai_non_revoked = None\<rparr>)]\<rparr>)
     sample_public = Panic"
  by code_simp

text \<open>Removing the qualifiers of a request removes its negations.\<close>

lemma unqualified_request_loses_not:
  "query_matches like t (convert_query_to_unqualified p (Q_Not (Q_Eq ''schema_name'' v))) \<longleftrightarrow>
     \<not> query_matches like t (Q_Not (Q_Eq ''schema_name'' v))"
  by (simp add: convert_value_to_unqualified_def)

end
