(* ===== verification/Anoncreds_Prover.thy ===== *)
theory Anoncreds_Prover
  imports Anoncreds_Verifier
begin

text \<open>
  What a wallet offers for a proof request: \<open>domain/anoncreds/credential.rs\<close>, \<open>credential_attr_tag_policy.rs\<close> and the
  first half of \<open>services/anoncreds/prover.rs\<close> of libindy. The tags under which a credential is stored and the wallet
  query of a requested attribute; the query matches exactly the credentials whose proofs the verifier accepts.
\<close>

section \<open>Credentials\<close>

text \<open>\<open>AttributeValues\<close> has the fields of \<open>AttributeValue\<close>.\<close>

type_synonym AttributeValues = AttributeValue

record Credential =
  cr_schema_id :: SchemaId
  cr_cred_def_id :: CredentialDefinitionId
  cr_rev_reg_id :: "RevocationRegistryId option"
  cr_values :: "(string \<times> AttributeValues) list"
  cr_signature :: UrsaObject
  cr_signature_correctness_proof :: UrsaObject
  cr_rev_reg :: "UrsaObject option"
  cr_witness :: "UrsaObject option"

definition EXTRA_TAG_SUFFIX :: string where "EXTRA_TAG_SUFFIX = ''_short''"

definition add_extra_tag_suffix :: "string \<Rightarrow> string" where
  "add_extra_tag_suffix tag = tag @ EXTRA_TAG_SUFFIX"

definition credential_values_validate :: "(string \<times> AttributeValues) list \<Rightarrow> unit option" where
  "credential_values_validate values = (if values = [] then None else Some ())"

definition credential_validate :: "Credential \<Rightarrow> unit option" where
  "credential_validate c =
     Option.bind (schema_id_validate (cr_schema_id c)) (\<lambda>_.
     Option.bind (cred_def_id_validate (cr_cred_def_id c)) (\<lambda>_.
     Option.bind (credential_values_validate (cr_values c)) (\<lambda>_.
       if cr_rev_reg_id c \<noteq> None \<and> (cr_witness c = None \<or> cr_rev_reg c = None) then None
       else if cr_values c = [] then None else Some ())))"

text \<open>A policy is the list of the taggable names in common view.\<close>

definition policy_from :: "'a UrsaEnv_scheme \<Rightarrow> string list \<Rightarrow> string list" where
  "policy_from env taggables = map (\<lambda>a. to_lowercase env (filter (\<lambda>c. c \<noteq> CHR '' '') a)) taggables"

definition is_taggable :: "'a UrsaEnv_scheme \<Rightarrow> string list \<Rightarrow> string \<Rightarrow> bool" where
  "is_taggable env policy attr_name \<longleftrightarrow> to_lowercase env (filter (\<lambda>c. c \<noteq> CHR '' '') attr_name) \<in> set policy"

section \<open>Tags\<close>

definition ATTRIBUTE_EXISTENCE_MARKER :: string where "ATTRIBUTE_EXISTENCE_MARKER = ''1''"

definition build_attr_marker_tag :: "'a UrsaEnv_scheme \<Rightarrow> string \<Rightarrow> string" where
  "build_attr_marker_tag env attr = ''attr::'' @ attr_common_view env attr @ ''::marker''"

definition build_attr_value_tag :: "'a UrsaEnv_scheme \<Rightarrow> string \<Rightarrow> string" where
  "build_attr_value_tag env attr = ''attr::'' @ attr_common_view env attr @ ''::value''"

definition get_credential_values_for_attribute ::
    "'a UrsaEnv_scheme \<Rightarrow> (string \<times> AttributeValues) list \<Rightarrow> string \<Rightarrow> AttributeValues option" where
  "get_credential_values_for_attribute env credential_attrs requested_attr =
     map_option snd (List.find (\<lambda>(key, _). attr_common_view env key = attr_common_view env requested_attr) credential_attrs)"

definition insert_attr_tags ::
    "'a UrsaEnv_scheme \<Rightarrow> string list option \<Rightarrow> (string \<times> AttributeValues) list \<Rightarrow> (string \<times> string) list \<Rightarrow> (string \<times> string) list" where
  "insert_attr_tags env catpol values m =
     fold (\<lambda>(attr, v) m.
       if (case catpol of Some policy \<Rightarrow> is_taggable env policy attr | None \<Rightarrow> True)
       then hm_insert (hm_insert m (build_attr_marker_tag env attr) ATTRIBUTE_EXISTENCE_MARKER) (build_attr_value_tag env attr) (av_raw v)
       else m) values m"

text \<open>The tags for the identifiers, with those for the unqualified identifiers.\<close>

definition credential_id_tags :: "nat \<Rightarrow> Credential \<Rightarrow> DidValue \<Rightarrow> string \<Rightarrow> string \<Rightarrow> DidValue \<Rightarrow> (string \<times> string) list" where
  "credential_id_tags protocol c schema_issuer_did schema_name schema_version issuer =
     (let none = ''None'';
          res = fold (\<lambda>(k, v) m. hm_insert m k v)
            [(''schema_id'', cr_schema_id c), (''schema_issuer_did'', schema_issuer_did), (''schema_name'', schema_name),
             (''schema_version'', schema_version), (''issuer_did'', issuer), (''cred_def_id'', cr_cred_def_id c),
             (''rev_reg_id'', case cr_rev_reg_id c of Some r \<Rightarrow> r | None \<Rightarrow> none)] []
      in if is_fully_qualified CRED_DEF_PREFIX (cr_cred_def_id c)
         then fold (\<lambda>(k, v) m. hm_insert m k v)
           [(add_extra_tag_suffix ''schema_id'', schema_id_to_unqualified (cr_schema_id c)),
            (add_extra_tag_suffix ''schema_issuer_did'', did_to_unqualified schema_issuer_did),
            (add_extra_tag_suffix ''issuer_did'', did_to_unqualified issuer),
            (add_extra_tag_suffix ''cred_def_id'', cred_def_id_to_unqualified protocol (cr_cred_def_id c)),
            (add_extra_tag_suffix ''rev_reg_id'', case cr_rev_reg_id c of Some r \<Rightarrow> rev_reg_id_to_unqualified protocol r | None \<Rightarrow> none)] res
         else res)"

definition build_credential_tags ::
    "'a UrsaEnv_scheme \<Rightarrow> nat \<Rightarrow> Credential \<Rightarrow> string list option \<Rightarrow> (string \<times> string) list outcome" where
  "build_credential_tags env protocol c catpol =
     and_then (ok_or InvalidState (schema_id_parts (cr_schema_id c))) (\<lambda>(schema_issuer_did, schema_name, schema_version).
     and_then (ok_or InvalidState (issuer_did (cr_cred_def_id c))) (\<lambda>issuer.
       Ok (insert_attr_tags env catpol (cr_values c)
         (credential_id_tags protocol c schema_issuer_did schema_name schema_version issuer))))"

section \<open>The query of a requested attribute\<close>

text \<open>\<open>_make_restrictions_by_internal_tags_case_insensitive\<close> and its tag names.\<close>

definition insensitive_tag :: "'a UrsaEnv_scheme \<Rightarrow> string \<Rightarrow> string" where
  "insensitive_tag env tag_name =
     (case attr_request_by_value tag_name of
        Some name \<Rightarrow> build_attr_value_tag env name
      | None \<Rightarrow> (case attr_request_by_marker tag_name of Some name \<Rightarrow> build_attr_marker_tag env name | None \<Rightarrow> tag_name))"

fun make_insensitive :: "'a UrsaEnv_scheme \<Rightarrow> Query \<Rightarrow> Query outcome" where
  "make_insensitive env (Q_Eq tag_name tag_value) = Ok (Q_Eq (insensitive_tag env tag_name) tag_value)"
| "make_insensitive env (Q_Neq tag_name tag_value) = Ok (Q_Neq (insensitive_tag env tag_name) tag_value)"
| "make_insensitive env (Q_In tag_name tag_values) = Ok (Q_In (insensitive_tag env tag_name) tag_values)"
| "make_insensitive env (Q_And operators) = map_ok Q_And (map_outcome_list (make_insensitive env) operators)"
| "make_insensitive env (Q_Or operators) = map_ok Q_Or (map_outcome_list (make_insensitive env) operators)"
| "make_insensitive env (Q_Not operator) = map_ok Q_Not (make_insensitive env operator)"
| "make_insensitive env q = Err InvalidStructure"

fun double_restrictions :: "Query \<Rightarrow> Query outcome" where
  "double_restrictions (Q_Eq tag_name tag_value) =
     Ok (if tag_name \<in> set QUALIFIABLE_TAGS
         then Q_Or [Q_Eq tag_name tag_value, Q_Eq (add_extra_tag_suffix tag_name) tag_value] else Q_Eq tag_name tag_value)"
| "double_restrictions (Q_Neq tag_name tag_value) =
     Ok (if tag_name \<in> set QUALIFIABLE_TAGS
         then Q_And [Q_Neq tag_name tag_value, Q_Neq (add_extra_tag_suffix tag_name) tag_value] else Q_Neq tag_name tag_value)"
| "double_restrictions (Q_In tag_name tag_values) =
     Ok (if tag_name \<in> set QUALIFIABLE_TAGS
         then Q_Or [Q_In tag_name tag_values, Q_In (add_extra_tag_suffix tag_name) tag_values] else Q_In tag_name tag_values)"
| "double_restrictions (Q_And operators) = map_ok Q_And (map_outcome_list double_restrictions operators)"
| "double_restrictions (Q_Or operators) = map_ok Q_Or (map_outcome_list double_restrictions operators)"
| "double_restrictions (Q_Not operator) = map_ok Q_Not (double_restrictions operator)"
| "double_restrictions q = Err InvalidStructure"

definition process_proof_request_restrictions ::
    "'a UrsaEnv_scheme \<Rightarrow> ProofRequestsVersion \<Rightarrow> string option \<Rightarrow> string list option \<Rightarrow> string \<Rightarrow> Query option \<Rightarrow>
     (string \<times> Query) list option \<Rightarrow> Query outcome" where
  "process_proof_request_restrictions env version name names referent restrictions extra_query =
     and_then (case (case names of Some ns \<Rightarrow> Some ns | None \<Rightarrow> map_option (\<lambda>s. [s]) name) of
                 Some ns \<Rightarrow> Ok (map (\<lambda>n. Q_Eq (build_attr_marker_tag env n) ATTRIBUTE_EXISTENCE_MARKER) ns)
               | None \<Rightarrow> Err InvalidStructure) (\<lambda>attr_queries.
     and_then (case restrictions of
                 None \<Rightarrow> Ok []
               | Some r \<Rightarrow>
                   (case version of
                      PRV1 \<Rightarrow> and_then (make_insensitive env r) (\<lambda>r'. map_ok (\<lambda>q. [q]) (double_restrictions r'))
                    | PRV2 \<Rightarrow> map_ok (\<lambda>q. [q]) (make_insensitive env r))) (\<lambda>queries.
       Ok (Q_And (queries @ (case extra_query of Some eq \<Rightarrow> (case hm_get eq referent of Some q \<Rightarrow> [q] | None \<Rightarrow> []) | None \<Rightarrow> []) @ attr_queries))))"

section \<open>Predicates\<close>

definition attribute_satisfy_predicate :: "PredicateInfo \<Rightarrow> string \<Rightarrow> bool outcome" where
  "attribute_satisfy_predicate predicate attribute_value =
     and_then (ok_or InvalidStructure (parse_i32 attribute_value)) (\<lambda>v.
       Ok (case pi_p_type predicate of
             GE \<Rightarrow> v \<ge> pi_p_value predicate
           | GT \<Rightarrow> v > pi_p_value predicate
           | LE \<Rightarrow> v \<le> pi_p_value predicate
           | LT \<Rightarrow> v < pi_p_value predicate))"

section \<open>The identifier of a presented credential\<close>

definition proof_identifier :: "ProofRequestsVersion \<Rightarrow> nat \<Rightarrow> Credential \<Rightarrow> nat option \<Rightarrow> Identifier" where
  "proof_identifier version protocol c t =
     (case version of
        PRV1 \<Rightarrow> \<lparr>id_schema_id = schema_id_to_unqualified (cr_schema_id c),
          id_cred_def_id = cred_def_id_to_unqualified protocol (cr_cred_def_id c),
          id_rev_reg_id = map_option (rev_reg_id_to_unqualified protocol) (cr_rev_reg_id c), id_timestamp = t\<rparr>
      | PRV2 \<Rightarrow> \<lparr>id_schema_id = cr_schema_id c, id_cred_def_id = cr_cred_def_id c, id_rev_reg_id = cr_rev_reg_id c, id_timestamp = t\<rparr>)"

section \<open>The wallet offers what the verifier accepts\<close>

text \<open>\<open>restriction_over ok\<close>: the restrictions on tags and values that satisfy \<open>ok\<close>, with the operators the verifier knows.\<close>

fun restriction_over :: "(string \<Rightarrow> string \<Rightarrow> bool) \<Rightarrow> Query \<Rightarrow> bool" where
  "restriction_over ok (Q_Eq n v) \<longleftrightarrow> ok n v"
| "restriction_over ok (Q_Neq n v) \<longleftrightarrow> ok n v"
| "restriction_over ok (Q_In n vs) \<longleftrightarrow> list_all (ok n) vs"
| "restriction_over ok (Q_And qs) \<longleftrightarrow> list_all (restriction_over ok) qs"
| "restriction_over ok (Q_Or qs) \<longleftrightarrow> qs \<noteq> [] \<and> list_all (restriction_over ok) qs"
| "restriction_over ok (Q_Not q) \<longleftrightarrow> restriction_over ok q"
| "restriction_over ok q \<longleftrightarrow> False"

lemma translated_list:
  assumes "\<And>q. q \<in> set qs \<Longrightarrow> \<exists>q'. tr q = Ok q' \<and> (query_matches like t q' \<longleftrightarrow> restriction_holds shown q)"
  shows "\<exists>qs'. list_all2 (\<lambda>q q'. tr q = Ok q' \<and> (query_matches like t q' \<longleftrightarrow> restriction_holds shown q)) qs qs'"
  using assms
proof (induction qs)
  case (Cons q qs)
  then obtain q' qs' where "tr q = Ok q' \<and> (query_matches like t q' \<longleftrightarrow> restriction_holds shown q)"
    "list_all2 (\<lambda>q q'. tr q = Ok q' \<and> (query_matches like t q' \<longleftrightarrow> restriction_holds shown q)) qs qs'" by force
  then show ?case by (intro exI [of _ "q' # qs'"]) simp
qed (rule exI [of _ "[]"], simp)

lemma translated_all:
  "list_all2 (\<lambda>q q'. tr q = Ok q' \<and> (query_matches like t q' \<longleftrightarrow> restriction_holds shown q)) qs qs' \<Longrightarrow>
     list_all2 (\<lambda>q q'. tr q = Ok q') qs qs' \<and>
     (list_all (query_matches like t) qs' \<longleftrightarrow> list_all (restriction_holds shown) qs) \<and>
     (list_ex (query_matches like t) qs' \<longleftrightarrow> list_ex (restriction_holds shown) qs)"
  by (induction qs qs' rule: list_all2_induct) auto

text \<open>
  A translation of restrictions to wallet queries that goes through the connectives and keeps the meaning of atoms
  keeps the meaning of restrictions.
\<close>

lemma translation_agrees:
  assumes conj: "\<And>qs qs'. list_all2 (\<lambda>q q'. tr q = Ok q') qs qs' \<Longrightarrow> tr (Q_And qs) = Ok (Q_And qs')"
    and disj: "\<And>qs qs'. list_all2 (\<lambda>q q'. tr q = Ok q') qs qs' \<Longrightarrow> tr (Q_Or qs) = Ok (Q_Or qs')"
    and neg: "\<And>q q'. tr q = Ok q' \<Longrightarrow> tr (Q_Not q) = Ok (Q_Not q')"
    and eq: "\<And>n v. ok n v \<Longrightarrow> \<exists>q'. tr (Q_Eq n v) = Ok q' \<and> (query_matches like t q' \<longleftrightarrow> shown n v)"
    and neq: "\<And>n v. ok n v \<Longrightarrow> \<exists>q'. tr (Q_Neq n v) = Ok q' \<and> (query_matches like t q' \<longleftrightarrow> \<not> shown n v)"
    and elem: "\<And>n vs. list_all (ok n) vs \<Longrightarrow> \<exists>q'. tr (Q_In n vs) = Ok q' \<and> (query_matches like t q' \<longleftrightarrow> list_ex (shown n) vs)"
    and "restriction_over ok q"
  shows "\<exists>q'. tr q = Ok q' \<and> (query_matches like t q' \<longleftrightarrow> restriction_holds shown q)"
  using assms(7)
proof (induction q)
  case (Q_And qs)
  then have "\<exists>q'. tr q = Ok q' \<and> (query_matches like t q' \<longleftrightarrow> restriction_holds shown q)" if "q \<in> set qs" for q
    using that by (auto simp: list_all_iff)
  from translated_list [OF this] obtain qs'
    where "list_all2 (\<lambda>q q'. tr q = Ok q' \<and> (query_matches like t q' \<longleftrightarrow> restriction_holds shown q)) qs qs'" by blast
  note qs' = translated_all [OF this]
  with conj [of qs qs'] show ?case by (intro exI [of _ "Q_And qs'"]) simp
next
  case (Q_Or qs)
  then have "\<exists>q'. tr q = Ok q' \<and> (query_matches like t q' \<longleftrightarrow> restriction_holds shown q)" if "q \<in> set qs" for q
    using that by (auto simp: list_all_iff)
  from translated_list [OF this] obtain qs'
    where *: "list_all2 (\<lambda>q q'. tr q = Ok q' \<and> (query_matches like t q' \<longleftrightarrow> restriction_holds shown q)) qs qs'" by blast
  note qs' = translated_all [OF this]
  have "qs' \<noteq> []" using Q_Or.prems * by auto
  with qs' disj [of qs qs'] show ?case by (intro exI [of _ "Q_Or qs'"]) simp
next
  case (Q_Not q)
  then obtain q' where "tr q = Ok q'" "query_matches like t q' \<longleftrightarrow> restriction_holds shown q" by auto
  with neg show ?case by (intro exI [of _ "Q_Not q'"]) simp
qed (use eq neq elem in auto)


section \<open>Tags of a stored credential\<close>

lemma value_tag_inject [simp]: "a @ ''::value'' \<noteq> b @ ''::marker''"
proof
  assume "a @ ''::value'' = b @ ''::marker''"
  then have "rev (a @ ''::value'') = rev (b @ ''::marker'')" by (simp only:)
  then show False by simp
qed

lemma attr_tags_other:
  "\<not> starts_with k ''attr::'' \<Longrightarrow> hm_get (insert_attr_tags env catpol vs m) k = hm_get m k"
proof (induction vs arbitrary: m)
  case (Cons p vs)
  obtain a v where p: "p = (a, v)" by (cases p)
  have "k \<noteq> build_attr_marker_tag env a" "k \<noteq> build_attr_value_tag env a"
    using Cons.prems by (auto simp: build_attr_marker_tag_def build_attr_value_tag_def)
  with Cons show ?case by (simp add: p insert_attr_tags_def hm_get_insert)
qed (simp add: insert_attr_tags_def)

lemma attr_tags_value:
  assumes "distinct (map (\<lambda>(a, _). attr_common_view env a) vs)"
  shows "hm_get (insert_attr_tags env None vs m) (''attr::'' @ x @ ''::value'') =
    (case List.find (\<lambda>(a, _). attr_common_view env a = x) vs of
       Some (_, v) \<Rightarrow> Some (av_raw v) | None \<Rightarrow> hm_get m (''attr::'' @ x @ ''::value''))"
  using assms
proof (induction vs arbitrary: m)
  case (Cons p vs)
  obtain a v where p: "p = (a, v)" by (cases p)
  let ?m = "hm_insert (hm_insert m (build_attr_marker_tag env a) ATTRIBUTE_EXISTENCE_MARKER) (build_attr_value_tag env a) (av_raw v)"
  have m: "hm_get ?m (''attr::'' @ x @ ''::value'') = (if attr_common_view env a = x then Some (av_raw v) else hm_get m (''attr::'' @ x @ ''::value''))"
    by (auto simp: hm_get_insert build_attr_marker_tag_def build_attr_value_tag_def)
  have ih: "hm_get (insert_attr_tags env None vs ?m) (''attr::'' @ x @ ''::value'') =
      (case List.find (\<lambda>(a, _). attr_common_view env a = x) vs of
         Some (_, v) \<Rightarrow> Some (av_raw v) | None \<Rightarrow> hm_get ?m (''attr::'' @ x @ ''::value''))"
    using Cons.prems by (intro Cons.IH) simp
  have "List.find (\<lambda>(a, _). attr_common_view env a = x) vs = None" if "attr_common_view env a = x"
    using Cons.prems that p by (force simp: find_None_iff)
  with ih m show ?case by (auto simp: p insert_attr_tags_def split: option.split)
qed (simp add: insert_attr_tags_def)

lemma attr_tags_marker:
  "hm_get (insert_attr_tags env None vs m) (''attr::'' @ x @ ''::marker'') =
    (case List.find (\<lambda>(a, _). attr_common_view env a = x) vs of
       Some _ \<Rightarrow> Some ATTRIBUTE_EXISTENCE_MARKER | None \<Rightarrow> hm_get m (''attr::'' @ x @ ''::marker''))"
proof (induction vs arbitrary: m)
  case (Cons p vs)
  obtain a v where p: "p = (a, v)" by (cases p)
  let ?m = "hm_insert (hm_insert m (build_attr_marker_tag env a) ATTRIBUTE_EXISTENCE_MARKER) (build_attr_value_tag env a) (av_raw v)"
  have m: "hm_get ?m (''attr::'' @ x @ ''::marker'') = (if attr_common_view env a = x then Some ATTRIBUTE_EXISTENCE_MARKER else hm_get m (''attr::'' @ x @ ''::marker''))"
    by (auto simp: hm_get_insert build_attr_marker_tag_def build_attr_value_tag_def value_tag_inject [symmetric])
  have ih: "hm_get (insert_attr_tags env None vs ?m) (''attr::'' @ x @ ''::marker'') =
      (case List.find (\<lambda>(a, _). attr_common_view env a = x) vs of
         Some _ \<Rightarrow> Some ATTRIBUTE_EXISTENCE_MARKER | None \<Rightarrow> hm_get ?m (''attr::'' @ x @ ''::marker''))"
    by (rule Cons.IH)
  show ?case using ih m by (auto simp: p insert_attr_tags_def split: option.split)
qed (simp add: insert_attr_tags_def)

lemma fact_tag_cases:
  assumes "tag \<in> set FACT_TAGS"
  shows "tag = ''schema_id'' \<or> tag = ''schema_issuer_did'' \<or> tag = ''schema_name'' \<or> tag = ''schema_version'' \<or>
    tag = ''cred_def_id'' \<or> tag = ''issuer_did''"
  using assms unfolding FACT_TAGS_def by (simp only: list.set insert_iff empty_iff simp_thms)

lemma fact_tag_plain:
  assumes "tag \<in> set FACT_TAGS"
  shows "\<not> starts_with tag ''attr::''" "attr_request_by_value tag = None" "attr_request_by_marker tag = None"
  using fact_tag_cases [OF assms]
  by (elim disjE; simp add: attr_request_by_value_def attr_request_by_marker_def attr_request_def Let_def)+

lemma short_tag_plain: "tag \<in> set QUALIFIABLE_TAGS \<Longrightarrow> \<not> starts_with (add_extra_tag_suffix tag) ''attr::''"
  by (auto simp: QUALIFIABLE_TAGS_def add_extra_tag_suffix_def)

lemmas id_tags_simps = credential_id_tags_def add_extra_tag_suffix_def EXTRA_TAG_SUFFIX_def hm_get_insert Let_def

lemma credential_id_tags_get:
  "hm_get (credential_id_tags protocol c d n w iss) ''schema_id'' = Some (cr_schema_id c)"
  "hm_get (credential_id_tags protocol c d n w iss) ''schema_issuer_did'' = Some d"
  "hm_get (credential_id_tags protocol c d n w iss) ''schema_name'' = Some n"
  "hm_get (credential_id_tags protocol c d n w iss) ''schema_version'' = Some w"
  "hm_get (credential_id_tags protocol c d n w iss) ''issuer_did'' = Some iss"
  "hm_get (credential_id_tags protocol c d n w iss) ''cred_def_id'' = Some (cr_cred_def_id c)"
  "hm_get (credential_id_tags protocol c d n w iss) (''attr::'' @ s) = None"
  by (cases "is_fully_qualified CRED_DEF_PREFIX (cr_cred_def_id c)"; simp add: id_tags_simps)+

lemma credential_id_tags_short:
  assumes "is_fully_qualified CRED_DEF_PREFIX (cr_cred_def_id c)"
  shows "hm_get (credential_id_tags protocol c d n w iss) (add_extra_tag_suffix ''schema_id'') = Some (schema_id_to_unqualified (cr_schema_id c))"
    "hm_get (credential_id_tags protocol c d n w iss) (add_extra_tag_suffix ''schema_issuer_did'') = Some (did_to_unqualified d)"
    "hm_get (credential_id_tags protocol c d n w iss) (add_extra_tag_suffix ''issuer_did'') = Some (did_to_unqualified iss)"
    "hm_get (credential_id_tags protocol c d n w iss) (add_extra_tag_suffix ''cred_def_id'') = Some (cred_def_id_to_unqualified protocol (cr_cred_def_id c))"
  using assms by (simp_all add: id_tags_simps)

lemma credential_id_tags_no_short:
  assumes "\<not> is_fully_qualified CRED_DEF_PREFIX (cr_cred_def_id c)" and "tag \<in> set QUALIFIABLE_TAGS"
  shows "hm_get (credential_id_tags protocol c d n w iss) (add_extra_tag_suffix tag) = None"
  using assms by (auto simp: id_tags_simps QUALIFIABLE_TAGS_def)

text \<open>The tag of a fact about the credential has the value that the verifier reads from the identifier.\<close>

lemma tags_fact:
  assumes "build_credential_tags env protocol c None = Ok tags" and tag: "tag \<in> set FACT_TAGS"
  shows "\<exists>w. hm_get tags tag = Some w \<and> credential_fact (proof_identifier PRV2 protocol c t) tag = Some w"
proof -
  from assms(1) obtain d n w iss where parts: "schema_id_parts (cr_schema_id c) = Some (d, n, w)" "issuer_did (cr_cred_def_id c) = Some iss"
    and tags: "tags = insert_attr_tags env None (cr_values c) (credential_id_tags protocol c d n w iss)"
    by (auto simp: build_credential_tags_def)
  show ?thesis unfolding tags attr_tags_other [OF fact_tag_plain(1) [OF tag]]
    using fact_tag_cases [OF tag]
    by (elim disjE) (simp_all add: credential_id_tags_get credential_fact_def proof_identifier_def parts)
qed

lemma tags_attr:
  assumes "build_credential_tags env protocol c None = Ok tags" and "distinct (map (\<lambda>(a, _). attr_common_view env a) (cr_values c))"
  shows "hm_get tags (build_attr_value_tag env name) = map_option av_raw (get_credential_values_for_attribute env (cr_values c) name)"
    "hm_get tags (build_attr_marker_tag env name) =
       map_option (\<lambda>_. ATTRIBUTE_EXISTENCE_MARKER) (get_credential_values_for_attribute env (cr_values c) name)"
proof -
  from assms(1) obtain d n w iss where tags: "tags = insert_attr_tags env None (cr_values c) (credential_id_tags protocol c d n w iss)"
    by (auto simp: build_credential_tags_def)
  show "hm_get tags (build_attr_value_tag env name) = map_option av_raw (get_credential_values_for_attribute env (cr_values c) name)"
    unfolding tags build_attr_value_tag_def attr_tags_value [OF assms(2)] credential_id_tags_get(7) get_credential_values_for_attribute_def
    by (auto split: option.split)
  show "hm_get tags (build_attr_marker_tag env name) =
      map_option (\<lambda>_. ATTRIBUTE_EXISTENCE_MARKER) (get_credential_values_for_attribute env (cr_values c) name)"
    unfolding tags build_attr_marker_tag_def attr_tags_marker credential_id_tags_get(7) get_credential_values_for_attribute_def
    by (auto split: option.split)
qed

section \<open>Agreement of search and verification\<close>

text \<open>The tags that a restriction on an attribute may name: facts about the credential, and the value of the attribute.\<close>

definition concerns :: "'a UrsaEnv_scheme \<Rightarrow> string \<Rightarrow> string \<Rightarrow> bool" where
  "concerns env name tag \<longleftrightarrow> tag \<in> set FACT_TAGS \<or>
     (case attr_request_by_value tag of Some x \<Rightarrow> attr_common_view env x = attr_common_view env name | None \<Rightarrow> False)"

lemma order_single: "order_ok env \<Longrightarrow> ur_order env [x] = [x]"
proof -
  assume "order_ok env"
  then have "set (ur_order env [x]) = {x}" "length (ur_order env [x]) = 1" by (auto simp: order_ok_def)
  then show ?thesis by (cases "ur_order env [x]") auto
qed

lemma value_shown:
  assumes "order_ok env" and "attr_request_by_value tag = Some x" and "attr_common_view env x = attr_common_view env name"
  shows "tag_shown env i [(name, Some raw)] tag v \<longleftrightarrow> raw = v"
proof -
  have "tag \<notin> set FACT_TAGS" using fact_tag_plain(2) [of tag] assms(2) by auto
  then show ?thesis using assms by (simp add: tag_shown_def order_single)
qed

lemma fact_shown: "tag \<in> set FACT_TAGS \<Longrightarrow> tag_shown env i m tag v \<longleftrightarrow> credential_fact i tag = Some v"
  by (simp add: tag_shown_def)

lemma insensitive_fact: "tag \<in> set FACT_TAGS \<Longrightarrow> insensitive_tag env tag = tag"
  by (simp add: insensitive_tag_def fact_tag_plain)

lemma insensitive_value:
  "attr_request_by_value tag = Some x \<Longrightarrow> attr_common_view env x = attr_common_view env name \<Longrightarrow>
     insensitive_tag env tag = build_attr_value_tag env name"
  by (simp add: insensitive_tag_def build_attr_value_tag_def)

lemma concerned_tag:
  assumes tags: "build_credential_tags env protocol c None = Ok tags" and dist: "distinct (map (\<lambda>(a, _). attr_common_view env a) (cr_values c))"
    and "order_ok env" and v0: "get_credential_values_for_attribute env (cr_values c) name = Some v0" and "concerns env name tag"
  shows "\<exists>w. hm_get tags (insensitive_tag env tag) = Some w \<and>
    (\<forall>v. tag_shown env (proof_identifier PRV2 protocol c t) [(name, Some (av_raw v0))] tag v \<longleftrightarrow> w = v)"
proof (cases "tag \<in> set FACT_TAGS")
  case True
  then show ?thesis using tags_fact [OF tags True, of t] by (auto simp: insensitive_fact fact_shown)
next
  case False
  with assms(5) obtain x where "attr_request_by_value tag = Some x" "attr_common_view env x = attr_common_view env name"
    by (auto simp: concerns_def split: option.splits)
  then show ?thesis using tags_attr(1) [OF tags dist, of name] v0 value_shown [OF assms(3)]
    by (simp add: insensitive_value)
qed

lemma insensitive_list:
  "list_all2 (\<lambda>q q'. make_insensitive env q = Ok q') qs qs' \<Longrightarrow> map_outcome_list (make_insensitive env) qs = Ok qs'"
  by (simp add: map_outcome_list_Ok_iff)

lemma atoms_agree:
  assumes "\<exists>w. t n' = Some w \<and> (\<forall>v. shown n v \<longleftrightarrow> w = v)"
  shows "query_matches like t (Q_Eq n' v) \<longleftrightarrow> shown n v" "query_matches like t (Q_Neq n' v) \<longleftrightarrow> \<not> shown n v"
    "query_matches like t (Q_In n' vs) \<longleftrightarrow> list_ex (shown n) vs"
proof -
  from assms obtain w where w: "t n' = Some w" "\<And>v. shown n v \<longleftrightarrow> w = v" by blast
  show "query_matches like t (Q_Eq n' v) \<longleftrightarrow> shown n v" "query_matches like t (Q_Neq n' v) \<longleftrightarrow> \<not> shown n v"
    by (simp_all add: w tag_holds_iff)
  show "query_matches like t (Q_In n' vs) \<longleftrightarrow> list_ex (shown n) vs"
    by (auto simp: w tag_holds_iff list_ex_iff)
qed

text \<open>
  The query that the wallet is searched with for a requested attribute matches the tags of a stored credential exactly
  when the credential has the attribute and the restrictions, as the verifier checks them on the identifier and the
  revealed value of a proof from this credential, hold. The restrictions are on the facts that the verifier knows
  and on the value of the attribute itself.
\<close>

theorem offered_credential_verifies:
  assumes "build_credential_tags env protocol c None = Ok tags" and "distinct (map (\<lambda>(a, _). attr_common_view env a) (cr_values c))"
    and "order_ok env" and "restriction_over (\<lambda>tag _. concerns env name tag) q"
    and query: "process_proof_request_restrictions env PRV2 (Some name) None r (Some q) None = Ok query"
  shows "query_matches like (hm_get tags) query \<longleftrightarrow>
    (\<exists>v. get_credential_values_for_attribute env (cr_values c) name = Some v \<and>
       restriction_holds (tag_shown env (proof_identifier PRV2 protocol c t) [(name, Some (av_raw v))]) q)"
proof -
  from query obtain q' where q': "make_insensitive env q = Ok q'"
    and qs: "query = Q_And [q', Q_Eq (build_attr_marker_tag env name) ATTRIBUTE_EXISTENCE_MARKER]"
    by (auto simp: process_proof_request_restrictions_def)
  show ?thesis
  proof (cases "get_credential_values_for_attribute env (cr_values c) name")
    case None
    then show ?thesis using tags_attr(2) [OF assms(1,2), of name] by (simp add: qs)
  next
    case (Some v0)
    note tag = concerned_tag [OF assms(1-3) Some, of _ t]
    let ?shown = "tag_shown env (proof_identifier PRV2 protocol c t) [(name, Some (av_raw v0))]"
    have agree: "query_matches like (hm_get tags) (Q_Eq (insensitive_tag env n) v) \<longleftrightarrow> ?shown n v"
      "query_matches like (hm_get tags) (Q_Neq (insensitive_tag env n) v) \<longleftrightarrow> \<not> ?shown n v"
      "query_matches like (hm_get tags) (Q_In (insensitive_tag env n) vs) \<longleftrightarrow> list_ex (?shown n) vs" if "concerns env name n" for n v vs
      using atoms_agree [where t = "hm_get tags" and n' = "insensitive_tag env n" and shown = ?shown and n = n, OF tag [OF that]]
      by blast+
    have "\<exists>q'. make_insensitive env q = Ok q' \<and> (query_matches like (hm_get tags) q' \<longleftrightarrow> restriction_holds ?shown q)"
    proof (rule translation_agrees [OF _ _ _ _ _ _ assms(4)])
      fix n :: string and vs :: "string list"
      assume n: "list_all (\<lambda>_. concerns env name n) vs"
      show "\<exists>q'. make_insensitive env (Q_In n vs) = Ok q' \<and> (query_matches like (hm_get tags) q' \<longleftrightarrow> list_ex (?shown n) vs)"
      proof (cases vs)
        case (Cons v vs')
        with n have "concerns env name n" by simp
        then show ?thesis by (simp only: make_insensitive.simps outcome.inject ex_simps simp_thms agree(3))
      qed (simp add: tag_holds_iff)
    next
      fix n v :: string
      assume "concerns env name n"
      then show "\<exists>q'. make_insensitive env (Q_Eq n v) = Ok q' \<and> (query_matches like (hm_get tags) q' \<longleftrightarrow> ?shown n v)"
        "\<exists>q'. make_insensitive env (Q_Neq n v) = Ok q' \<and> (query_matches like (hm_get tags) q' \<longleftrightarrow> \<not> ?shown n v)"
        by (simp_all only: make_insensitive.simps outcome.inject ex_simps simp_thms agree(1,2))
    qed (simp_all add: insensitive_list)
    with q' Some show ?thesis using tags_attr(2) [OF assms(1,2), of name] by (simp add: qs)
  qed
qed

section \<open>Requests of the first version\<close>

lemma matches_qualify:
  "prefix \<noteq> [] \<Longrightarrow> list_all is_method_char prefix \<Longrightarrow> did_method_validate m = Some () \<Longrightarrow> CHR 0x0A \<notin> set s \<Longrightarrow>
     matches_qualified (qualify s prefix m)"
  by (simp add: matches_qualified_def captures_qualify)

lemma did_new_qualified: "field did \<Longrightarrow> did_method_validate m = Some () \<Longrightarrow> matches_qualified (did_new did (Some m))"
  unfolding did_new_def option.case set_method_def by (rule matches_qualify) (simp_all add: did_prefix_ok)

lemma schema_id_qualified:
  assumes "field sdid" "field sname" "field sversion" and m: "did_method_validate m = Some ()"
  shows "matches_qualified (schema_id_new (did_new sdid (Some m)) sname sversion)"
proof -
  let ?i = "did_new sdid (Some m) @ DELIMITER @ SCHEMA_MARKER @ DELIMITER @ sname @ DELIMITER @ sversion"
  have "schema_id_new (did_new sdid (Some m)) sname sversion = qualify ?i SCHEMA_PREFIX m"
    using qualified_did(1) [OF assms(1) m] by (simp add: schema_id_new_def set_method_def)
  moreover have "CHR 0x0A \<notin> set ?i" using assms method_name_field [OF m]
    by (simp add: did_new_def set_method_def qualify_def DID_PREFIX_def DELIMITER_def SCHEMA_MARKER_def)
  ultimately show ?thesis using m matches_qualify [of SCHEMA_PREFIX m ?i] by (simp add: SCHEMA_PREFIX_def is_method_char_def)
qed

lemma cred_def_id_qualified:
  assumes "field did" "field sig" "field tag" and nl: "CHR 0x0A \<notin> set sid" and m: "did_method_validate m = Some ()"
  shows "matches_qualified (cred_def_id_new protocol (did_new did (Some m)) sid sig tag)"
    "is_fully_qualified CRED_DEF_PREFIX (cred_def_id_new protocol (did_new did (Some m)) sid sig tag)"
proof -
  let ?i = "did_new did (Some m) @ DELIMITER @ CRED_DEF_MARKER @ DELIMITER @ sig @ DELIMITER @ sid @
    (if is_node_1_3 protocol \<or> tag = [] then [] else DELIMITER @ tag)"
  have eq: "cred_def_id_new protocol (did_new did (Some m)) sid sig tag = qualify ?i CRED_DEF_PREFIX m"
    using qualified_did(1) [OF assms(1) m] by (simp add: cred_def_id_new_def set_method_def)
  moreover have "CHR 0x0A \<notin> set ?i" using assms method_name_field [OF m]
    by (simp add: did_new_def set_method_def qualify_def DID_PREFIX_def DELIMITER_def CRED_DEF_MARKER_def)
  ultimately show mq: "matches_qualified (cred_def_id_new protocol (did_new did (Some m)) sid sig tag)"
    using m matches_qualify [of CRED_DEF_PREFIX m ?i] by (simp add: CRED_DEF_PREFIX_def is_method_char_def)
  have "starts_with (qualify ?i CRED_DEF_PREFIX m) CRED_DEF_PREFIX" by (simp add: qualify_def)
  with mq show "is_fully_qualified CRED_DEF_PREFIX (cred_def_id_new protocol (did_new did (Some m)) sid sig tag)"
    by (simp add: is_fully_qualified_def eq)
qed

text \<open>A credential whose issuer and schema issuer have DIDs with the method \<open>m\<close>.\<close>

definition qualified_credential :: "string \<Rightarrow> nat \<Rightarrow> Credential \<Rightarrow> bool" where
  "qualified_credential m protocol c \<longleftrightarrow>
     (\<exists>did sdid sname sversion sig tag. field did \<and> field sdid \<and> field sname \<and> field sversion \<and> field sig \<and> field tag \<and>
        sversion \<noteq> [] \<and> tag \<noteq> [] \<and> cr_schema_id c = schema_id_new (did_new sdid (Some m)) sname sversion \<and>
        cr_cred_def_id c = cred_def_id_new protocol (did_new did (Some m)) (cr_schema_id c) sig tag)"

text \<open>The two tags of a qualifiable fact: one with the qualified value, one with the value that the proof shows.\<close>

lemma qualified_fact:
  assumes tags: "build_credential_tags env protocol c None = Ok tags" and c: "qualified_credential m protocol c"
    and p: "protocol \<noteq> 1" and m: "did_method_validate m = Some ()" and tag: "tag \<in> set FACT_TAGS"
  shows "if tag \<in> set QUALIFIABLE_TAGS
    then \<exists>wq w. hm_get tags tag = Some wq \<and> matches_qualified wq \<and> hm_get tags (add_extra_tag_suffix tag) = Some w \<and>
      credential_fact (proof_identifier PRV1 protocol c t) tag = Some w
    else \<exists>w. hm_get tags tag = Some w \<and> credential_fact (proof_identifier PRV1 protocol c t) tag = Some w"
proof -
  from c obtain did sdid sname sversion sig tg where f: "field did" "field sdid" "field sname" "field sversion" "field sig" "field tg"
    and ne: "sversion \<noteq> []" "tg \<noteq> []" and sid: "cr_schema_id c = schema_id_new (did_new sdid (Some m)) sname sversion"
    and cid: "cr_cred_def_id c = cred_def_id_new protocol (did_new did (Some m)) (schema_id_new (did_new sdid (Some m)) sname sversion) sig tg"
    unfolding qualified_credential_def by auto
  note schema = schema_id_roundtrip [OF f(2-4) ne(1) m]
  have nl: "CHR 0x0A \<notin> set (schema_id_new (did_new sdid (Some m)) sname sversion)"
    using f method_name_field [OF m] by (simp add: schema_id_new_def qualified_did [OF f(2) m]) (simp add: id_simps)
  have iss: "issuer_did (cr_cred_def_id c) = Some (did_new did (Some m))"
    using cred_def_id_parts_new_qualified [OF p f ne(2) m] by (simp add: issuer_did_def cid)
  have iss': "issuer_did (cred_def_id_to_unqualified protocol (cr_cred_def_id c)) = Some did"
    using cred_def_id_parts_new [OF p f ne(2)] cred_def_id_requalify(2) [OF p f ne(2,1) m] by (simp add: issuer_did_def cid)
  from tags schema iss have tg: "tags = insert_attr_tags env None (cr_values c)
      (credential_id_tags protocol c (did_new sdid (Some m)) sname sversion (did_new did (Some m)))"
    by (simp add: build_credential_tags_def sid)
  have fq: "is_fully_qualified CRED_DEF_PREFIX (cr_cred_def_id c)" using cred_def_id_qualified(2) [OF f(1,5,6) nl m] by (simp add: cid)
  note mq = schema_id_qualified [OF f(2-4) m] cred_def_id_qualified(1) [OF f(1,5,6) nl m] did_new_qualified [OF f(1) m] did_new_qualified [OF f(2) m]
  have short: "hm_get tags (add_extra_tag_suffix k) =
      hm_get (credential_id_tags protocol c (did_new sdid (Some m)) sname sversion (did_new did (Some m))) (add_extra_tag_suffix k)"
    if "k \<in> set QUALIFIABLE_TAGS" for k
    unfolding tg by (rule attr_tags_other [OF short_tag_plain [OF that]])
  have long: "hm_get tags k = hm_get (credential_id_tags protocol c (did_new sdid (Some m)) sname sversion (did_new did (Some m))) k"
    if "k \<in> set FACT_TAGS" for k
    unfolding tg by (rule attr_tags_other [OF fact_tag_plain(1) [OF that]])
  from fact_tag_cases [OF tag] show ?thesis
    by (elim disjE; simp add: QUALIFIABLE_TAGS_def FACT_TAGS_def long short credential_id_tags_get credential_id_tags_short [OF fq] credential_fact_def
        proof_identifier_def iss' schema sid cid mq qualified_did [OF f(1) m] qualified_did [OF f(2) m] iss' [unfolded cid])
qed

lemma doubled_atoms_agree:
  assumes t: "t n = Some wq" "matches_qualified wq" "t (add_extra_tag_suffix n) = Some w" and shown: "\<And>v. shown n v \<longleftrightarrow> w = v"
  shows "\<not> matches_qualified v \<Longrightarrow> query_matches like t (Q_Or [Q_Eq n v, Q_Eq (add_extra_tag_suffix n) v]) \<longleftrightarrow> shown n v"
    "\<not> matches_qualified v \<Longrightarrow> query_matches like t (Q_And [Q_Neq n v, Q_Neq (add_extra_tag_suffix n) v]) \<longleftrightarrow> \<not> shown n v"
    "list_all (\<lambda>v. \<not> matches_qualified v) vs \<Longrightarrow>
       query_matches like t (Q_Or [Q_In n vs, Q_In (add_extra_tag_suffix n) vs]) \<longleftrightarrow> list_ex (shown n) vs"
proof -
  show "\<not> matches_qualified v \<Longrightarrow> query_matches like t (Q_Or [Q_Eq n v, Q_Eq (add_extra_tag_suffix n) v]) \<longleftrightarrow> shown n v"
    "\<not> matches_qualified v \<Longrightarrow> query_matches like t (Q_And [Q_Neq n v, Q_Neq (add_extra_tag_suffix n) v]) \<longleftrightarrow> \<not> shown n v"
    using t by (auto simp: shown tag_holds_iff)
  show "query_matches like t (Q_Or [Q_In n vs, Q_In (add_extra_tag_suffix n) vs]) \<longleftrightarrow> list_ex (shown n) vs"
    if "list_all (\<lambda>v. \<not> matches_qualified v) vs"
    using t that by (auto simp: shown tag_holds_iff list_ex_iff list_all_iff)
qed

lemma value_tag_not_qualifiable: "build_attr_value_tag env name \<notin> set QUALIFIABLE_TAGS"
  by (simp add: build_attr_value_tag_def QUALIFIABLE_TAGS_def)

definition first_version_query :: "'a UrsaEnv_scheme \<Rightarrow> Query \<Rightarrow> Query outcome" where
  "first_version_query env q = and_then (make_insensitive env q) double_restrictions"

lemma first_version_query_conn:
  "list_all2 (\<lambda>q q'. first_version_query env q = Ok q') qs qs' \<Longrightarrow> first_version_query env (Q_And qs) = Ok (Q_And qs')"
  "list_all2 (\<lambda>q q'. first_version_query env q = Ok q') qs qs' \<Longrightarrow> first_version_query env (Q_Or qs) = Ok (Q_Or qs')"
  "first_version_query env q = Ok q' \<Longrightarrow> first_version_query env (Q_Not q) = Ok (Q_Not q')"
proof -
  have "\<exists>ms. map_outcome_list (make_insensitive env) qs = Ok ms \<and> map_outcome_list double_restrictions ms = Ok qs'"
    if "list_all2 (\<lambda>q q'. first_version_query env q = Ok q') qs qs'"
    using that by (induction qs qs' rule: list_all2_induct) (auto simp: first_version_query_def)
  then show "list_all2 (\<lambda>q q'. first_version_query env q = Ok q') qs qs' \<Longrightarrow> first_version_query env (Q_And qs) = Ok (Q_And qs')"
    "list_all2 (\<lambda>q q'. first_version_query env q = Ok q') qs qs' \<Longrightarrow> first_version_query env (Q_Or qs) = Ok (Q_Or qs')"
    by (auto simp: first_version_query_def)
qed (auto simp: first_version_query_def)

text \<open>\<open>valid_restriction\<close>: the values of qualifiable tags are unqualified, as the validation of such a request demands.\<close>

lemma valid_restriction:
  assumes "process_operator PRV1 q = Some ()" and "restriction_over (\<lambda>tag _. P tag) q"
  shows "restriction_over (\<lambda>tag v. P tag \<and> (tag \<in> set QUALIFIABLE_TAGS \<longrightarrow> \<not> matches_qualified v)) q"
  using assms
proof (induction q)
  case (Q_In n vs)
  then show ?case by (auto simp: all_some_def list_all_iff check_restriction_def split: if_splits)
qed (auto simp: all_some_def list_all_iff check_restriction_def split: if_splits)

text \<open>
  A concerned tag is stored once, with the value that the proof shows, or twice: with its qualified value and, under the
  name with a suffix, with the value that the proof shows.
\<close>

lemma first_version_tag:
  assumes tags: "build_credential_tags env protocol c None = Ok tags" and dist: "distinct (map (\<lambda>(a, _). attr_common_view env a) (cr_values c))"
    and "order_ok env" and c: "qualified_credential m protocol c" "protocol \<noteq> 1" "did_method_validate m = Some ()"
    and v0: "get_credential_values_for_attribute env (cr_values c) name = Some v0" and n: "concerns env name n"
    and shown: "shown = tag_shown env (proof_identifier PRV1 protocol c t) [(name, Some (av_raw v0))]"
  shows "(\<exists>w. hm_get tags (insensitive_tag env n) = Some w \<and> (\<forall>v. shown n v \<longleftrightarrow> w = v)) \<and> insensitive_tag env n \<notin> set QUALIFIABLE_TAGS \<or>
      (\<exists>wq w. hm_get tags n = Some wq \<and> matches_qualified wq \<and> hm_get tags (add_extra_tag_suffix n) = Some w \<and> (\<forall>v. shown n v \<longleftrightarrow> w = v)) \<and>
        insensitive_tag env n = n \<and> n \<in> set QUALIFIABLE_TAGS"
proof (cases "n \<in> set FACT_TAGS")
  case True
  then show ?thesis using qualified_fact [OF tags c True, of t]
    by (auto simp: insensitive_fact fact_shown shown split: if_splits)
next
  case False
  with n obtain x where "attr_request_by_value n = Some x" "attr_common_view env x = attr_common_view env name"
    by (auto simp: concerns_def split: option.splits)
  then show ?thesis using tags_attr(1) [OF tags dist, of name] v0 value_shown [OF assms(3)] value_tag_not_qualifiable [of env name]
    by (simp add: insensitive_value shown)
qed

lemma first_version_atoms:
  assumes tags: "build_credential_tags env protocol c None = Ok tags" and dist: "distinct (map (\<lambda>(a, _). attr_common_view env a) (cr_values c))"
    and "order_ok env" and c: "qualified_credential m protocol c" "protocol \<noteq> 1" "did_method_validate m = Some ()"
    and v0: "get_credential_values_for_attribute env (cr_values c) name = Some v0" and n: "concerns env name n"
    and shown: "shown = tag_shown env (proof_identifier PRV1 protocol c t) [(name, Some (av_raw v0))]"
  shows "(n \<in> set QUALIFIABLE_TAGS \<longrightarrow> \<not> matches_qualified v) \<Longrightarrow>
      \<exists>q'. first_version_query env (Q_Eq n v) = Ok q' \<and> (query_matches like (hm_get tags) q' \<longleftrightarrow> shown n v)"
    "(n \<in> set QUALIFIABLE_TAGS \<longrightarrow> \<not> matches_qualified v) \<Longrightarrow>
      \<exists>q'. first_version_query env (Q_Neq n v) = Ok q' \<and> (query_matches like (hm_get tags) q' \<longleftrightarrow> \<not> shown n v)"
    "list_all (\<lambda>v. n \<in> set QUALIFIABLE_TAGS \<longrightarrow> \<not> matches_qualified v) vs \<Longrightarrow>
      \<exists>q'. first_version_query env (Q_In n vs) = Ok q' \<and> (query_matches like (hm_get tags) q' \<longleftrightarrow> list_ex (shown n) vs)"
proof -
  from first_version_tag [OF assms] consider (single) "\<exists>w. hm_get tags (insensitive_tag env n) = Some w \<and> (\<forall>v. shown n v \<longleftrightarrow> w = v)" "insensitive_tag env n \<notin> set QUALIFIABLE_TAGS"
    | (doubled) wq w where "hm_get tags n = Some wq" "matches_qualified wq" "hm_get tags (add_extra_tag_suffix n) = Some w"
      "\<And>v. shown n v \<longleftrightarrow> w = v" "insensitive_tag env n = n" "n \<in> set QUALIFIABLE_TAGS" by blast
  note kinds = this
  have fv: "first_version_query env (Q_Eq n v) = double_restrictions (Q_Eq (insensitive_tag env n) v)"
    "first_version_query env (Q_Neq n v) = double_restrictions (Q_Neq (insensitive_tag env n) v)"
    "first_version_query env (Q_In n vs) = double_restrictions (Q_In (insensitive_tag env n) vs)"
    by (simp_all add: first_version_query_def)
  from kinds show "\<exists>q'. first_version_query env (Q_Eq n v) = Ok q' \<and> (query_matches like (hm_get tags) q' \<longleftrightarrow> shown n v)"
    if ok: "n \<in> set QUALIFIABLE_TAGS \<longrightarrow> \<not> matches_qualified v"
  proof cases
    case single
    note agree = atoms_agree(1) [where t = "hm_get tags" and n' = "insensitive_tag env n" and shown = shown and n = n, OF single(1)]
    show ?thesis by (simp only: fv double_restrictions.simps single(2) if_False outcome.inject ex_simps simp_thms agree)
  next
    case doubled
    note agree = doubled_atoms_agree(1) [where t = "hm_get tags" and shown = shown, OF doubled(1-4)]
    from ok doubled show ?thesis
      by (simp only: fv double_restrictions.simps doubled(5,6) if_True outcome.inject ex_simps simp_thms agree)
  qed
  from kinds show "\<exists>q'. first_version_query env (Q_Neq n v) = Ok q' \<and> (query_matches like (hm_get tags) q' \<longleftrightarrow> \<not> shown n v)"
    if ok: "n \<in> set QUALIFIABLE_TAGS \<longrightarrow> \<not> matches_qualified v"
  proof cases
    case single
    note agree = atoms_agree(2) [where t = "hm_get tags" and n' = "insensitive_tag env n" and shown = shown and n = n, OF single(1)]
    show ?thesis by (simp only: fv double_restrictions.simps single(2) if_False outcome.inject ex_simps simp_thms agree)
  next
    case doubled
    note agree = doubled_atoms_agree(2) [where t = "hm_get tags" and shown = shown, OF doubled(1-4)]
    from ok doubled show ?thesis
      by (simp only: fv double_restrictions.simps doubled(5,6) if_True outcome.inject ex_simps simp_thms agree)
  qed
  from kinds show "\<exists>q'. first_version_query env (Q_In n vs) = Ok q' \<and> (query_matches like (hm_get tags) q' \<longleftrightarrow> list_ex (shown n) vs)"
    if ok: "list_all (\<lambda>v. n \<in> set QUALIFIABLE_TAGS \<longrightarrow> \<not> matches_qualified v) vs"
  proof cases
    case single
    note agree = atoms_agree(3) [where t = "hm_get tags" and n' = "insensitive_tag env n" and shown = shown and n = n, OF single(1)]
    show ?thesis by (simp only: fv double_restrictions.simps single(2) if_False outcome.inject ex_simps simp_thms agree)
  next
    case doubled
    note agree = doubled_atoms_agree(3) [where t = "hm_get tags" and shown = shown, OF doubled(1-4)]
    from ok doubled(6) have "list_all (\<lambda>v. \<not> matches_qualified v) vs" by simp
    from agree [OF this] show ?thesis
      by (simp only: fv double_restrictions.simps doubled(5,6) if_True outcome.inject ex_simps simp_thms)
  qed
qed

text \<open>
  The same for a request of the first version, whose restrictions are on unqualified identifiers: the search finds a
  credential with qualified identifiers exactly when the proof from it, which shows them unqualified, is accepted.
\<close>

theorem offered_credential_verifies_v1:
  assumes "build_credential_tags env protocol c None = Ok tags" and "distinct (map (\<lambda>(a, _). attr_common_view env a) (cr_values c))"
    and "order_ok env" and "qualified_credential m protocol c" "protocol \<noteq> 1" "did_method_validate m = Some ()"
    and "process_operator PRV1 q = Some ()" and "restriction_over (\<lambda>tag _. concerns env name tag) q"
    and query: "process_proof_request_restrictions env PRV1 (Some name) None r (Some q) None = Ok query"
  shows "query_matches like (hm_get tags) query \<longleftrightarrow>
    (\<exists>v. get_credential_values_for_attribute env (cr_values c) name = Some v \<and>
       restriction_holds (tag_shown env (proof_identifier PRV1 protocol c t) [(name, Some (av_raw v))]) q)"
proof -
  from query obtain q' where q': "first_version_query env q = Ok q'"
    and qs: "query = Q_And [q', Q_Eq (build_attr_marker_tag env name) ATTRIBUTE_EXISTENCE_MARKER]"
    by (auto simp: process_proof_request_restrictions_def first_version_query_def)
  show ?thesis
  proof (cases "get_credential_values_for_attribute env (cr_values c) name")
    case None
    then show ?thesis using tags_attr(2) [OF assms(1,2), of name] by (simp add: qs)
  next
    case (Some v0)
    let ?ok = "\<lambda>tag v. concerns env name tag \<and> (tag \<in> set QUALIFIABLE_TAGS \<longrightarrow> \<not> matches_qualified v)"
    let ?shown = "tag_shown env (proof_identifier PRV1 protocol c t) [(name, Some (av_raw v0))]"
    note atoms = first_version_atoms [where t = t, OF assms(1-6) Some _ refl]
    have "\<exists>q'. first_version_query env q = Ok q' \<and> (query_matches like (hm_get tags) q' \<longleftrightarrow> restriction_holds ?shown q)"
    proof (rule translation_agrees [OF first_version_query_conn _ _ _ valid_restriction [OF assms(7,8)]])
      fix n :: string and vs :: "string list"
      assume n: "list_all (?ok n) vs"
      show "\<exists>q'. first_version_query env (Q_In n vs) = Ok q' \<and> (query_matches like (hm_get tags) q' \<longleftrightarrow> list_ex (?shown n) vs)"
      proof (cases vs)
        case Nil
        then show ?thesis by (auto simp: first_version_query_def tag_holds_iff)
      next
        case (Cons v vs')
        with n have "concerns env name n" "list_all (\<lambda>v. n \<in> set QUALIFIABLE_TAGS \<longrightarrow> \<not> matches_qualified v) vs" by (auto simp: list_all_iff)
        then show ?thesis by (rule atoms(3))
      qed
    qed (use atoms(1,2) in blast)+
    with q' Some show ?thesis using tags_attr(2) [OF assms(1,2), of name] by (simp add: qs)
  qed
qed

text \<open>
  For a credential without qualified identifiers the second half of a doubled inequality has no tag to look at: a
  request of the first version with such a restriction finds no credential of this kind, also where the verifier
  would accept it.
\<close>

lemma v1_inequality_offers_nothing:
  assumes "build_credential_tags env protocol c None = Ok tags" and "\<not> is_fully_qualified CRED_DEF_PREFIX (cr_cred_def_id c)"
    and tag: "tag \<in> set QUALIFIABLE_TAGS" "tag \<in> set FACT_TAGS"
    and query: "process_proof_request_restrictions env PRV1 (Some name) None r (Some (Q_Neq tag v)) None = Ok query"
  shows "\<not> query_matches like (hm_get tags) query"
proof -
  from assms(1) obtain d n w iss where tags: "tags = insert_attr_tags env None (cr_values c) (credential_id_tags protocol c d n w iss)"
    by (auto simp: build_credential_tags_def)
  have "hm_get tags (add_extra_tag_suffix tag) = None"
    unfolding tags attr_tags_other [OF short_tag_plain [OF tag(1)]] by (rule credential_id_tags_no_short [OF assms(2) tag(1)])
  with query tag show ?thesis
    by (auto simp: process_proof_request_restrictions_def insensitive_fact tag_holds_iff)
qed

end
