(* ===== verification/Anoncreds_Proofs.thy ===== *)
theory Anoncreds_Proofs
  imports Anoncreds_Prover
begin

text \<open>
  Credential offers and requests, and the making of a proof: \<open>credential_offer.rs\<close>, \<open>credential_request.rs\<close>,
  \<open>requested_credential.rs\<close> and \<open>revocation_state.rs\<close> of \<open>domain/anoncreds\<close>, and \<open>new_credential_request\<close>,
  \<open>process_credential\<close> and \<open>create_proof\<close> of \<open>services/anoncreds/prover.rs\<close>. The prover of the cryptographic library
  extends its verifier, as \<open>ProverEnv\<close>.
\<close>

section \<open>Offers and requests\<close>

record CredentialOffer =
  co_schema_id :: SchemaId
  co_cred_def_id :: CredentialDefinitionId
  co_key_correctness_proof :: UrsaObject
  co_nonce :: UrsaObject
  co_method_name :: "string option"

definition credential_offer_to_unqualified :: "nat \<Rightarrow> CredentialOffer \<Rightarrow> CredentialOffer" where
  "credential_offer_to_unqualified protocol offer =
     offer\<lparr>co_method_name := (if is_fully_qualified CRED_DEF_PREFIX (co_cred_def_id offer) then method_of (co_cred_def_id offer) else None),
       co_schema_id := schema_id_to_unqualified (co_schema_id offer),
       co_cred_def_id := cred_def_id_to_unqualified protocol (co_cred_def_id offer)\<rparr>"

definition credential_offer_validate :: "CredentialOffer \<Rightarrow> unit option" where
  "credential_offer_validate offer =
     Option.bind (schema_id_validate (co_schema_id offer)) (\<lambda>_. cred_def_id_validate (co_cred_def_id offer))"

record CredentialRequest =
  cq_prover_did :: DidValue
  cq_cred_def_id :: CredentialDefinitionId
  cq_blinded_ms :: UrsaObject
  cq_blinded_ms_correctness_proof :: UrsaObject
  cq_nonce :: UrsaObject

record CredentialRequestMetadata =
  cm_master_secret_blinding_data :: UrsaObject
  cm_nonce :: UrsaObject
  cm_master_secret_name :: string

definition credential_request_to_unqualified :: "nat \<Rightarrow> CredentialRequest \<Rightarrow> CredentialRequest" where
  "credential_request_to_unqualified protocol req =
     req\<lparr>cq_prover_did := did_to_unqualified (cq_prover_did req),
       cq_cred_def_id := cred_def_id_to_unqualified protocol (cq_cred_def_id req)\<rparr>"

definition credential_request_validate :: "(string \<Rightarrow> bytes option) \<Rightarrow> CredentialRequest \<Rightarrow> unit option" where
  "credential_request_validate from_b58 req =
     Option.bind (cred_def_id_validate (cq_cred_def_id req)) (\<lambda>_. did_validate from_b58 (cq_prover_did req))"

record RevocationState =
  rs_witness :: UrsaObject
  rs_rev_reg :: UrsaObject
  rs_timestamp :: nat

definition revocation_state_validate :: "RevocationState \<Rightarrow> unit option" where
  "revocation_state_validate s = (if rs_timestamp s = 0 then None else Some ())"

section \<open>Selected credentials\<close>

record RequestedAttribute =
  rq_cred_id :: string
  rq_timestamp :: "nat option"
  rq_revealed :: bool

record ProvingCredentialKey =
  pk_cred_id :: string
  pk_timestamp :: "nat option"

record RequestedCredentials =
  rc_self_attested_attributes :: "(string \<times> string) list"
  rc_requested_attributes :: "(string \<times> RequestedAttribute) list"
  rc_requested_predicates :: "(string \<times> ProvingCredentialKey) list"

definition requested_credentials_validate :: "RequestedCredentials \<Rightarrow> unit option" where
  "requested_credentials_validate rc =
     (if rc_self_attested_attributes rc = [] \<and> rc_requested_attributes rc = [] \<and> rc_requested_predicates rc = [] then None else Some ())"

record RequestedAttributeInfo =
  ri_attr_referent :: string
  ri_attr_info :: AttributeInfo
  ri_revealed :: bool

record RequestedPredicateInfo =
  rj_predicate_referent :: string
  rj_predicate_info :: PredicateInfo

type_synonym ForProving = "(ProvingCredentialKey \<times> RequestedAttributeInfo list \<times> RequestedPredicateInfo list) list"

fun prepare_attributes :: "ProofRequestPayload \<Rightarrow> (string \<times> RequestedAttribute) list \<Rightarrow> ForProving \<Rightarrow> ForProving outcome" where
  "prepare_attributes req [] m = Ok m"
| "prepare_attributes req ((referent, a) # rest) m =
     and_then (ok_or InvalidStructure (hm_get (pr_requested_attributes req) referent)) (\<lambda>info.
       let x = \<lparr>ri_attr_referent = referent, ri_attr_info = info, ri_revealed = rq_revealed a\<rparr>;
           key = \<lparr>pk_cred_id = rq_cred_id a, pk_timestamp = rq_timestamp a\<rparr>
       in prepare_attributes req rest
            (hm_insert m key (case hm_get m key of Some (attrs, preds) \<Rightarrow> (attrs @ [x], preds) | None \<Rightarrow> ([x], []))))"

fun prepare_predicates :: "ProofRequestPayload \<Rightarrow> (string \<times> ProvingCredentialKey) list \<Rightarrow> ForProving \<Rightarrow> ForProving outcome" where
  "prepare_predicates req [] m = Ok m"
| "prepare_predicates req ((referent, key) # rest) m =
     and_then (ok_or InvalidStructure (hm_get (pr_requested_predicates req) referent)) (\<lambda>info.
       let x = \<lparr>rj_predicate_referent = referent, rj_predicate_info = info\<rparr>
       in prepare_predicates req rest
            (hm_insert m key (case hm_get m key of Some (attrs, preds) \<Rightarrow> (attrs, preds @ [x]) | None \<Rightarrow> ([], [x]))))"

definition prepare_credentials_for_proving :: "RequestedCredentials \<Rightarrow> ProofRequestPayload \<Rightarrow> ForProving outcome" where
  "prepare_credentials_for_proving rc req =
     and_then (prepare_attributes req (rc_requested_attributes rc) []) (prepare_predicates req (rc_requested_predicates rc))"

section \<open>The cryptographic prover\<close>

record ProverInput =
  px_request :: UrsaObject
  px_schema :: UrsaObject
  px_non_credential_schema :: UrsaObject
  px_signature :: UrsaObject
  px_values :: UrsaObject
  px_pub_key :: UrsaObject
  px_rev_reg :: "UrsaObject option"
  px_witness :: "UrsaObject option"

text \<open>
  \<open>up_credential_values\<close> is the builder of credential values, a function of the known values and of the hidden ones;
  \<open>up_process_signature\<close> gives the signature it has changed; \<open>up_entries\<close> is the order of the map of the credentials
  to prove.
\<close>

record ProverEnv = UrsaEnv +
  up_master_secret_value :: "UrsaObject \<Rightarrow> UrsaObject outcome"
  up_credential_values :: "(string \<times> string) list \<Rightarrow> (string \<times> UrsaObject) list \<Rightarrow> UrsaObject outcome"
  up_blind_credential_secrets :: "UrsaObject \<Rightarrow> UrsaObject \<Rightarrow> UrsaObject \<Rightarrow> UrsaObject \<Rightarrow> (UrsaObject \<times> UrsaObject \<times> UrsaObject) outcome"
  up_process_signature :: "UrsaObject \<Rightarrow> UrsaObject \<Rightarrow> UrsaObject \<Rightarrow> UrsaObject \<Rightarrow> UrsaObject \<Rightarrow> UrsaObject \<Rightarrow>
     UrsaObject option \<Rightarrow> UrsaObject option \<Rightarrow> UrsaObject option \<Rightarrow> UrsaObject outcome"
  up_new_builder :: "UrsaObject outcome"
  up_add_common_attribute :: "UrsaObject \<Rightarrow> string \<Rightarrow> UrsaObject outcome"
  up_add_sub_proof :: "UrsaObject \<Rightarrow> ProverInput \<Rightarrow> UrsaObject outcome"
  up_finalize :: "UrsaObject \<Rightarrow> UrsaObject \<Rightarrow> UrsaObject outcome"
  up_entries :: "ForProving \<Rightarrow> ForProving"

definition build_credential_values :: "'a ProverEnv_scheme \<Rightarrow> (string \<times> AttributeValues) list \<Rightarrow> UrsaObject option \<Rightarrow> UrsaObject outcome" where
  "build_credential_values env credential_values master_secret =
     and_then (case master_secret of
                 Some ms \<Rightarrow> map_ok (\<lambda>v. [(''master_secret'', v)]) (up_master_secret_value env ms)
               | None \<Rightarrow> Ok []) (\<lambda>hidden.
       up_credential_values env (map (\<lambda>(attr, v). (attr_common_view env attr, av_encoded v)) credential_values) hidden)"

definition new_credential_request ::
    "'a ProverEnv_scheme \<Rightarrow> CredentialDefinitionV1 \<Rightarrow> UrsaObject \<Rightarrow> CredentialOffer \<Rightarrow> (UrsaObject \<times> UrsaObject \<times> UrsaObject) outcome" where
  "new_credential_request env cred_def master_secret offer =
     and_then (ur_public_key env (cv_primary (cd_value cred_def)) (cv_revocation (cd_value cred_def))) (\<lambda>pub_key.
     and_then (up_master_secret_value env master_secret) (\<lambda>ms.
     and_then (up_credential_values env [] [(''master_secret'', ms)]) (\<lambda>cred_values.
       up_blind_credential_secrets env pub_key (co_key_correctness_proof offer) cred_values (co_nonce offer))))"

definition process_credential ::
    "'a ProverEnv_scheme \<Rightarrow> Credential \<Rightarrow> CredentialRequestMetadata \<Rightarrow> UrsaObject \<Rightarrow> CredentialDefinitionV1 \<Rightarrow>
     RevocationRegistryDefinitionV1 option \<Rightarrow> Credential outcome" where
  "process_credential env c metadata master_secret cred_def rev_reg_def =
     and_then (ur_public_key env (cv_primary (cd_value cred_def)) (cv_revocation (cd_value cred_def))) (\<lambda>pub_key.
     and_then (build_credential_values env (cr_values c) (Some master_secret)) (\<lambda>values.
     and_then (up_process_signature env (cr_signature c) values (cr_signature_correctness_proof c)
         (cm_master_secret_blinding_data metadata) pub_key (cm_nonce metadata)
         (map_option (\<lambda>d. rv_accum_key (rd_value d)) rev_reg_def) (cr_rev_reg c) (cr_witness c)) (\<lambda>signature.
       Ok (c\<lparr>cr_signature := signature\<rparr>))))"

section \<open>Making a proof\<close>

definition sub_proof_names :: "RequestedAttributeInfo list \<Rightarrow> string list" where
  "sub_proof_names attrs =
     concat (map (\<lambda>a. if ri_revealed a
                      then (case ai_name (ri_attr_info a) of
                              Some name \<Rightarrow> [name]
                            | None \<Rightarrow> (case ai_names (ri_attr_info a) of Some names \<Rightarrow> names | None \<Rightarrow> []))
                      else []) attrs)"

definition prover_sub_proof_request :: "'a ProverEnv_scheme \<Rightarrow> RequestedAttributeInfo list \<Rightarrow> RequestedPredicateInfo list \<Rightarrow> UrsaObject outcome" where
  "prover_sub_proof_request env attrs preds =
     ur_sub_proof_request env (map (attr_common_view env) (sub_proof_names attrs))
       (map (\<lambda>p. (attr_common_view env (pi_name (rj_predicate_info p)), predicate_type_fmt (pi_p_type (rj_predicate_info p)),
                  pi_p_value (rj_predicate_info p))) preds)"

fun group_values :: "'a ProverEnv_scheme \<Rightarrow> Credential \<Rightarrow> string list \<Rightarrow> (string \<times> AttributeValue) list \<Rightarrow> (string \<times> AttributeValue) list outcome" where
  "group_values env c [] m = Ok m"
| "group_values env c (name # names) m =
     and_then (ok_or InvalidStructure (get_credential_values_for_attribute env (cr_values c) name)) (\<lambda>v.
       group_values env c names (hm_insert m name v))"

text \<open>One round of the first loop of \<open>_update_requested_proof\<close>; indexing the request with an unknown referent panics.\<close>

definition update_attribute ::
    "'a ProverEnv_scheme \<Rightarrow> ProofRequestPayload \<Rightarrow> Credential \<Rightarrow> nat \<Rightarrow> RequestedAttributeInfo \<Rightarrow> RequestedProof \<Rightarrow> RequestedProof outcome" where
  "update_attribute env req c index a rp =
     (if ri_revealed a then
        (case hm_get (pr_requested_attributes req) (ri_attr_referent a) of
           None \<Rightarrow> Panic
         | Some attribute \<Rightarrow>
             (case ai_name attribute of
                Some name \<Rightarrow>
                  and_then (ok_or InvalidStructure (get_credential_values_for_attribute env (cr_values c) name)) (\<lambda>v.
                    Ok (rp\<lparr>rp_revealed_attrs := hm_insert (rp_revealed_attrs rp) (ri_attr_referent a)
                         \<lparr>ra_sub_proof_index = index, ra_raw = av_raw v, ra_encoded = av_encoded v\<rparr>\<rparr>))
              | None \<Rightarrow>
                  (case ai_names attribute of
                     Some names \<Rightarrow>
                       and_then (group_values env c names []) (\<lambda>values.
                         Ok (rp\<lparr>rp_revealed_attr_groups := hm_insert (rp_revealed_attr_groups rp) (ri_attr_referent a)
                              \<lparr>rg_sub_proof_index = index, rg_values = values\<rparr>\<rparr>))
                   | None \<Rightarrow> Ok rp)))
      else Ok (rp\<lparr>rp_unrevealed_attrs := hm_insert (rp_unrevealed_attrs rp) (ri_attr_referent a) \<lparr>sp_sub_proof_index = index\<rparr>\<rparr>))"

fun update_attributes ::
    "'a ProverEnv_scheme \<Rightarrow> ProofRequestPayload \<Rightarrow> Credential \<Rightarrow> nat \<Rightarrow> RequestedAttributeInfo list \<Rightarrow> RequestedProof \<Rightarrow> RequestedProof outcome" where
  "update_attributes env req c index [] rp = Ok rp"
| "update_attributes env req c index (a # as) rp =
     and_then (update_attribute env req c index a rp) (update_attributes env req c index as)"

definition update_requested_proof ::
    "'a ProverEnv_scheme \<Rightarrow> RequestedAttributeInfo list \<Rightarrow> RequestedPredicateInfo list \<Rightarrow> ProofRequestPayload \<Rightarrow> Credential \<Rightarrow> nat \<Rightarrow>
     RequestedProof \<Rightarrow> RequestedProof outcome" where
  "update_requested_proof env attrs preds req c index rp =
     map_ok (\<lambda>rp. rp\<lparr>rp_predicates := fold (\<lambda>p m. hm_insert m (rj_predicate_referent p) \<lparr>sp_sub_proof_index = index\<rparr>) preds (rp_predicates rp)\<rparr>)
       (update_attributes env req c index attrs rp)"

record ProverData =
  pv_credentials :: "(string \<times> Credential) list"
  pv_schemas :: "(SchemaId \<times> SchemaV1) list"
  pv_cred_defs :: "(CredentialDefinitionId \<times> CredentialDefinitionV1) list"
  pv_rev_states :: "(string \<times> (nat \<times> RevocationState) list) list"

definition revocation_state_for :: "ProverData \<Rightarrow> ProvingCredentialKey \<Rightarrow> Credential \<Rightarrow> RevocationState option outcome" where
  "revocation_state_for pv key c =
     (case pk_timestamp key of
        None \<Rightarrow> Ok None
      | Some timestamp \<Rightarrow>
          and_then (ok_or InvalidStructure (cr_rev_reg_id c)) (\<lambda>rev_reg_id.
          and_then (ok_or InvalidStructure
              (case hm_get (pv_rev_states pv) rev_reg_id of Some s \<Rightarrow> Some s | None \<Rightarrow> hm_get (pv_rev_states pv) (pk_cred_id key))) (\<lambda>states.
          and_then (ok_or InvalidStructure (hm_get states timestamp)) (\<lambda>s. Ok (Some s)))))"

definition prover_input ::
    "'a ProverEnv_scheme \<Rightarrow> ProverData \<Rightarrow> UrsaObject \<Rightarrow> UrsaObject \<Rightarrow> ProvingCredentialKey \<Rightarrow> RequestedAttributeInfo list \<Rightarrow>
     RequestedPredicateInfo list \<Rightarrow> Credential \<Rightarrow> ProverInput outcome" where
  "prover_input env pv master_secret ncs key attrs preds c =
     and_then (ok_or InvalidStructure (hm_get (pv_schemas pv) (cr_schema_id c))) (\<lambda>schema.
     and_then (ok_or InvalidStructure (hm_get (pv_cred_defs pv) (cr_cred_def_id c))) (\<lambda>cred_def.
     and_then (revocation_state_for pv key c) (\<lambda>rev_state.
     and_then (ur_public_key env (cv_primary (cd_value cred_def)) (cv_revocation (cd_value cred_def))) (\<lambda>pub_key.
     and_then (build_credential_schema env (sc_attr_names schema)) (\<lambda>credential_schema.
     and_then (build_credential_values env (cr_values c) (Some master_secret)) (\<lambda>values.
     and_then (prover_sub_proof_request env attrs preds) (\<lambda>request.
       Ok \<lparr>px_request = request, px_schema = credential_schema, px_non_credential_schema = ncs, px_signature = cr_signature c,
           px_values = values, px_pub_key = pub_key, px_rev_reg = map_option rs_rev_reg rev_state,
           px_witness = map_option rs_witness rev_state\<rparr>)))))))"

text \<open>The loop of \<open>create_proof\<close>: the builder, the identifiers pushed so far and the requested proof.\<close>

fun prove_credentials ::
    "'a ProverEnv_scheme \<Rightarrow> nat \<Rightarrow> ProverData \<Rightarrow> ProofRequest \<Rightarrow> UrsaObject \<Rightarrow> UrsaObject \<Rightarrow> ForProving \<Rightarrow>
     UrsaObject \<Rightarrow> Identifier list \<Rightarrow> RequestedProof \<Rightarrow> (UrsaObject \<times> Identifier list \<times> RequestedProof) outcome" where
  "prove_credentials env protocol pv req master_secret ncs [] builder ids rp = Ok (builder, ids, rp)"
| "prove_credentials env protocol pv req master_secret ncs ((key, attrs, preds) # rest) builder ids rp =
     and_then (ok_or InvalidStructure (hm_get (pv_credentials pv) (pk_cred_id key))) (\<lambda>c.
     and_then (prover_input env pv master_secret ncs key attrs preds c) (\<lambda>x.
     and_then (up_add_sub_proof env builder x) (\<lambda>builder.
     and_then (update_requested_proof env attrs preds (request_value req) c (length ids) rp) (\<lambda>rp.
       prove_credentials env protocol pv req master_secret ncs rest builder
         (ids @ [proof_identifier (request_version req) protocol c (pk_timestamp key)]) rp))))"

definition create_proof ::
    "'a ProverEnv_scheme \<Rightarrow> nat \<Rightarrow> ProverData \<Rightarrow> ProofRequest \<Rightarrow> RequestedCredentials \<Rightarrow> UrsaObject \<Rightarrow> Proof outcome" where
  "create_proof env protocol pv req rc master_secret =
     and_then (up_new_builder env) (\<lambda>builder.
     and_then (up_add_common_attribute env builder ''master_secret'') (\<lambda>builder.
     and_then (prepare_credentials_for_proving rc (request_value req)) (\<lambda>for_proving.
     and_then (build_non_credential_schema env) (\<lambda>ncs.
     and_then (prove_credentials env protocol pv req master_secret ncs (up_entries env for_proving) builder []
         (requested_proof_default\<lparr>rp_self_attested_attrs := rc_self_attested_attributes rc\<rparr>)) (\<lambda>(builder, ids, rp).
     and_then (up_finalize env builder (pr_nonce (request_value req))) (\<lambda>proof.
       Ok \<lparr>pf_proof = proof, pf_requested_proof = rp, pf_identifiers = ids\<rparr>))))))"

section \<open>What is prepared\<close>

definition key_of :: "RequestedAttribute \<Rightarrow> ProvingCredentialKey" where
  "key_of s = \<lparr>pk_cred_id = rq_cred_id s, pk_timestamp = rq_timestamp s\<rparr>"

definition attrs_at :: "ForProving \<Rightarrow> ProvingCredentialKey \<Rightarrow> RequestedAttributeInfo set" where
  "attrs_at m k = (case hm_get m k of Some (attrs, _) \<Rightarrow> set attrs | None \<Rightarrow> {})"

definition preds_at :: "ForProving \<Rightarrow> ProvingCredentialKey \<Rightarrow> RequestedPredicateInfo set" where
  "preds_at m k = (case hm_get m k of Some (_, preds) \<Rightarrow> set preds | None \<Rightarrow> {})"

lemma prepare_attributes_at:
  "prepare_attributes req sels m = Ok m' \<Longrightarrow> hm_wf m \<Longrightarrow>
     hm_wf m' \<and> (\<forall>k. preds_at m' k = preds_at m k) \<and> (\<forall>(r, s) \<in> set sels. hm_get (pr_requested_attributes req) r \<noteq> None) \<and>
     (\<forall>k. attrs_at m' k = attrs_at m k \<union>
       {x. \<exists>s. (ri_attr_referent x, s) \<in> set sels \<and> hm_get (pr_requested_attributes req) (ri_attr_referent x) = Some (ri_attr_info x) \<and>
           k = key_of s \<and> ri_revealed x = rq_revealed s})"
proof (induction sels arbitrary: m)
  case (Cons p sels)
  obtain r s where p: "p = (r, s)" by (cases p)
  from Cons.prems(1) obtain info where info: "hm_get (pr_requested_attributes req) r = Some info"
    by (auto simp: p)
  define x where "x = \<lparr>ri_attr_referent = r, ri_attr_info = info, ri_revealed = rq_revealed s\<rparr>"
  define m1 where "m1 = hm_insert m (key_of s) (case hm_get m (key_of s) of Some (attrs, preds) \<Rightarrow> (attrs @ [x], preds) | None \<Rightarrow> ([x], []))"
  have "prepare_attributes req sels m1 = Ok m'" using Cons.prems(1) info unfolding m1_def x_def key_of_def by (simp add: p Let_def)
  moreover have "hm_wf m1" unfolding m1_def using Cons.prems(2) by (rule hm_wf_insert)
  ultimately have ih: "hm_wf m' \<and> (\<forall>k. preds_at m' k = preds_at m1 k) \<and> (\<forall>(r, s) \<in> set sels. hm_get (pr_requested_attributes req) r \<noteq> None) \<and>
      (\<forall>k. attrs_at m' k = attrs_at m1 k \<union>
        {x. \<exists>s. (ri_attr_referent x, s) \<in> set sels \<and> hm_get (pr_requested_attributes req) (ri_attr_referent x) = Some (ri_attr_info x) \<and>
            k = key_of s \<and> ri_revealed x = rq_revealed s})" by (rule Cons.IH)
  have x: "y = x \<longleftrightarrow> ri_attr_referent y = r \<and> hm_get (pr_requested_attributes req) (ri_attr_referent y) = Some (ri_attr_info y) \<and> ri_revealed y = rq_revealed s"
    for y using info by (cases y) (auto simp: x_def)
  have m1: "attrs_at m1 k = attrs_at m k \<union> {y. k = key_of s \<and> y = x}" "preds_at m1 k = preds_at m k" for k
    by (auto simp: attrs_at_def preds_at_def m1_def hm_get_insert split: option.split)
  show ?case using ih info unfolding m1 x p by auto
qed simp

lemma prepare_predicates_at:
  "prepare_predicates req sels m = Ok m' \<Longrightarrow> hm_wf m \<Longrightarrow>
     hm_wf m' \<and> (\<forall>k. attrs_at m' k = attrs_at m k) \<and> (\<forall>(r, s) \<in> set sels. hm_get (pr_requested_predicates req) r \<noteq> None) \<and>
     (\<forall>k. preds_at m' k = preds_at m k \<union>
       {x. (rj_predicate_referent x, k) \<in> set sels \<and> hm_get (pr_requested_predicates req) (rj_predicate_referent x) = Some (rj_predicate_info x)})"
proof (induction sels arbitrary: m)
  case (Cons p sels)
  obtain r s where p: "p = (r, s)" by (cases p)
  from Cons.prems(1) obtain info where info: "hm_get (pr_requested_predicates req) r = Some info"
    by (auto simp: p)
  define x where "x = \<lparr>rj_predicate_referent = r, rj_predicate_info = info\<rparr>"
  define m1 where "m1 = hm_insert m s (case hm_get m s of Some (attrs, preds) \<Rightarrow> (attrs, preds @ [x]) | None \<Rightarrow> ([], [x]))"
  have "prepare_predicates req sels m1 = Ok m'" using Cons.prems(1) info unfolding m1_def x_def by (simp add: p Let_def)
  moreover have "hm_wf m1" unfolding m1_def using Cons.prems(2) by (rule hm_wf_insert)
  ultimately have ih: "hm_wf m' \<and> (\<forall>k. attrs_at m' k = attrs_at m1 k) \<and> (\<forall>(r, s) \<in> set sels. hm_get (pr_requested_predicates req) r \<noteq> None) \<and>
      (\<forall>k. preds_at m' k = preds_at m1 k \<union>
        {x. (rj_predicate_referent x, k) \<in> set sels \<and> hm_get (pr_requested_predicates req) (rj_predicate_referent x) = Some (rj_predicate_info x)})"
    by (rule Cons.IH)
  have x: "y = x \<longleftrightarrow> rj_predicate_referent y = r \<and> hm_get (pr_requested_predicates req) (rj_predicate_referent y) = Some (rj_predicate_info y)"
    for y using info by (cases y) (auto simp: x_def)
  have m1: "preds_at m1 k = preds_at m k \<union> {y. k = s \<and> y = x}" "attrs_at m1 k = attrs_at m k" for k
    by (auto simp: attrs_at_def preds_at_def m1_def hm_get_insert split: option.split)
  show ?case using ih info unfolding m1 x p by auto
qed simp

section \<open>What is proved\<close>

text \<open>
  \<open>selected\<close>: the sub proof with index \<open>k\<close> is the one of the credential \<open>c\<close> that was selected for the requested attribute \<open>r\<close>.
  \<open>proof_from\<close>: every entry of the requested proof comes from the credential selected for its referent.
\<close>

definition selected ::
    "nat \<Rightarrow> ProverData \<Rightarrow> ProofRequest \<Rightarrow> RequestedCredentials \<Rightarrow> Identifier list \<Rightarrow> bool \<Rightarrow> string \<Rightarrow> nat \<Rightarrow> Credential \<Rightarrow> AttributeInfo \<Rightarrow> bool" where
  "selected protocol pv req rc ids revealed r k c info \<longleftrightarrow>
     (\<exists>s. (r, s) \<in> set (rc_requested_attributes rc) \<and> rq_revealed s = revealed \<and>
        hm_get (pr_requested_attributes (request_value req)) r = Some info \<and> hm_get (pv_credentials pv) (rq_cred_id s) = Some c \<and>
        k < length ids \<and> ids ! k = proof_identifier (request_version req) protocol c (rq_timestamp s))"

definition revealed_from ::
    "'a UrsaEnv_scheme \<Rightarrow> nat \<Rightarrow> ProverData \<Rightarrow> ProofRequest \<Rightarrow> RequestedCredentials \<Rightarrow> Identifier list \<Rightarrow> string \<Rightarrow> RevealedAttributeInfo \<Rightarrow> bool" where
  "revealed_from env protocol pv req rc ids r a \<longleftrightarrow>
     (\<exists>c info name v. selected protocol pv req rc ids True r (ra_sub_proof_index a) c info \<and> ai_name info = Some name \<and>
        get_credential_values_for_attribute env (cr_values c) name = Some v \<and> ra_raw a = av_raw v \<and> ra_encoded a = av_encoded v)"

definition group_from ::
    "'a UrsaEnv_scheme \<Rightarrow> nat \<Rightarrow> ProverData \<Rightarrow> ProofRequest \<Rightarrow> RequestedCredentials \<Rightarrow> Identifier list \<Rightarrow> string \<Rightarrow> RevealedAttributeGroupInfo \<Rightarrow> bool" where
  "group_from env protocol pv req rc ids r g \<longleftrightarrow>
     (\<exists>c info names. selected protocol pv req rc ids True r (rg_sub_proof_index g) c info \<and> ai_name info = None \<and> ai_names info = Some names \<and>
        fst ` set (rg_values g) = set names \<and>
        (\<forall>name \<in> set names. hm_get (rg_values g) name = get_credential_values_for_attribute env (cr_values c) name))"

definition hidden_from ::
    "nat \<Rightarrow> ProverData \<Rightarrow> ProofRequest \<Rightarrow> RequestedCredentials \<Rightarrow> Identifier list \<Rightarrow> string \<Rightarrow> SubProofReferent \<Rightarrow> bool" where
  "hidden_from protocol pv req rc ids r u \<longleftrightarrow> (\<exists>c info. selected protocol pv req rc ids False r (sp_sub_proof_index u) c info)"

definition predicate_from ::
    "nat \<Rightarrow> ProverData \<Rightarrow> ProofRequest \<Rightarrow> RequestedCredentials \<Rightarrow> Identifier list \<Rightarrow> string \<Rightarrow> SubProofReferent \<Rightarrow> bool" where
  "predicate_from protocol pv req rc ids r p \<longleftrightarrow>
     (\<exists>c key info. (r, key) \<in> set (rc_requested_predicates rc) \<and> hm_get (pr_requested_predicates (request_value req)) r = Some info \<and>
        hm_get (pv_credentials pv) (pk_cred_id key) = Some c \<and> sp_sub_proof_index p < length ids \<and>
        ids ! sp_sub_proof_index p = proof_identifier (request_version req) protocol c (pk_timestamp key))"

definition proof_from ::
    "'a UrsaEnv_scheme \<Rightarrow> nat \<Rightarrow> ProverData \<Rightarrow> ProofRequest \<Rightarrow> RequestedCredentials \<Rightarrow> Identifier list \<Rightarrow> RequestedProof \<Rightarrow> bool" where
  "proof_from env protocol pv req rc ids rp \<longleftrightarrow>
     (\<forall>(r, a) \<in> set (rp_revealed_attrs rp). revealed_from env protocol pv req rc ids r a) \<and>
     (\<forall>(r, g) \<in> set (rp_revealed_attr_groups rp). group_from env protocol pv req rc ids r g) \<and>
     (\<forall>(r, u) \<in> set (rp_unrevealed_attrs rp). hidden_from protocol pv req rc ids r u) \<and>
     (\<forall>(r, p) \<in> set (rp_predicates rp). predicate_from protocol pv req rc ids r p)"

lemma selected_more: "selected protocol pv req rc ids b r k c info \<Longrightarrow> selected protocol pv req rc (ids @ xs) b r k c info"
  by (auto simp: selected_def nth_append)

lemma proof_from_more: "proof_from env protocol pv req rc ids rp \<Longrightarrow> proof_from env protocol pv req rc (ids @ xs) rp"
proof -
  have "revealed_from env protocol pv req rc (ids @ xs) r a" if "revealed_from env protocol pv req rc ids r a" for r a
    using that unfolding revealed_from_def by (blast intro: selected_more)
  moreover have "group_from env protocol pv req rc (ids @ xs) r g" if "group_from env protocol pv req rc ids r g" for r g
    using that unfolding group_from_def by (blast intro: selected_more)
  moreover have "predicate_from protocol pv req rc (ids @ xs) r p" if "predicate_from protocol pv req rc ids r p" for r p
    using that unfolding predicate_from_def by (auto simp: nth_append)
  moreover have "hidden_from protocol pv req rc (ids @ xs) r u" if "hidden_from protocol pv req rc ids r u" for r u
    using that unfolding hidden_from_def by (blast intro: selected_more)
  ultimately show "proof_from env protocol pv req rc ids rp \<Longrightarrow> proof_from env protocol pv req rc (ids @ xs) rp"
    unfolding proof_from_def by fast
qed

lemma group_values_get:
  "group_values env c names m = Ok m' \<Longrightarrow>
     fst ` set m' = fst ` set m \<union> set names \<and>
     (\<forall>n. hm_get m' n = (if n \<in> set names then get_credential_values_for_attribute env (cr_values c) n else hm_get m n))"
proof (induction names arbitrary: m)
  case (Cons name names)
  then obtain v where v: "get_credential_values_for_attribute env (cr_values c) name = Some v"
    and rest: "group_values env c names (hm_insert m name v) = Ok m'" by auto
  from Cons.IH [OF rest] v show ?case by (auto simp: hm_get_insert fst_hm_insert)
qed simp

text \<open>The entries of the map of credentials to prove, as they are prepared.\<close>

definition entry_ok :: "ProofRequest \<Rightarrow> RequestedCredentials \<Rightarrow> ProvingCredentialKey \<Rightarrow> RequestedAttributeInfo list \<Rightarrow> RequestedPredicateInfo list \<Rightarrow> bool" where
  "entry_ok req rc key attrs preds \<longleftrightarrow>
     (\<forall>x \<in> set attrs. \<exists>s. (ri_attr_referent x, s) \<in> set (rc_requested_attributes rc) \<and> key = key_of s \<and> ri_revealed x = rq_revealed s \<and>
        hm_get (pr_requested_attributes (request_value req)) (ri_attr_referent x) = Some (ri_attr_info x)) \<and>
     (\<forall>x \<in> set preds. (rj_predicate_referent x, key) \<in> set (rc_requested_predicates rc) \<and>
        hm_get (pr_requested_predicates (request_value req)) (rj_predicate_referent x) = Some (rj_predicate_info x))"

definition attr_referents :: "RequestedProof \<Rightarrow> string set" where
  "attr_referents rp = fst ` set (rp_revealed_attrs rp) \<union> fst ` set (rp_revealed_attr_groups rp) \<union> fst ` set (rp_unrevealed_attrs rp)"

lemma update_attribute_from:
  assumes "update_attribute env (request_value req) c k x rp = Ok rp'" and "proof_from env protocol pv req rc ids rp"
    and s: "(ri_attr_referent x, s) \<in> set (rc_requested_attributes rc)" "ri_revealed x = rq_revealed s"
    and c: "hm_get (pv_credentials pv) (rq_cred_id s) = Some c" "k < length ids" "ids ! k = proof_identifier (request_version req) protocol c (rq_timestamp s)"
    and info: "hm_get (pr_requested_attributes (request_value req)) (ri_attr_referent x) = Some info"
    and has: "ai_name info \<noteq> None \<or> ai_names info \<noteq> None"
  shows "proof_from env protocol pv req rc ids rp'" "attr_referents rp' = insert (ri_attr_referent x) (attr_referents rp)"
    "rp_predicates rp' = rp_predicates rp" "rp_self_attested_attrs rp' = rp_self_attested_attrs rp"
proof -
  have sel: "selected protocol pv req rc ids (ri_revealed x) (ri_attr_referent x) k c info"
    using s c info unfolding selected_def by auto
  note from_simps = proof_from_def attr_referents_def fst_hm_insert
  consider (named) name v where "ri_revealed x" "ai_name info = Some name" "get_credential_values_for_attribute env (cr_values c) name = Some v"
      "rp' = rp\<lparr>rp_revealed_attrs := hm_insert (rp_revealed_attrs rp) (ri_attr_referent x) \<lparr>ra_sub_proof_index = k, ra_raw = av_raw v, ra_encoded = av_encoded v\<rparr>\<rparr>"
    | (group) names vs where "ri_revealed x" "ai_name info = None" "ai_names info = Some names" "group_values env c names [] = Ok vs"
      "rp' = rp\<lparr>rp_revealed_attr_groups := hm_insert (rp_revealed_attr_groups rp) (ri_attr_referent x) \<lparr>rg_sub_proof_index = k, rg_values = vs\<rparr>\<rparr>"
    | (hidden) "\<not> ri_revealed x" "rp' = rp\<lparr>rp_unrevealed_attrs := hm_insert (rp_unrevealed_attrs rp) (ri_attr_referent x) \<lparr>sp_sub_proof_index = k\<rparr>\<rparr>"
    using assms(1) info has by (auto simp: update_attribute_def split: if_splits option.splits)
  then have "proof_from env protocol pv req rc ids rp' \<and> attr_referents rp' = insert (ri_attr_referent x) (attr_referents rp) \<and>
      rp_predicates rp' = rp_predicates rp \<and> rp_self_attested_attrs rp' = rp_self_attested_attrs rp"
  proof cases
    case named
    then have "revealed_from env protocol pv req rc ids (ri_attr_referent x) \<lparr>ra_sub_proof_index = k, ra_raw = av_raw v, ra_encoded = av_encoded v\<rparr>"
      using sel unfolding revealed_from_def by auto
    with named(4) assms(2) show ?thesis by (auto simp: from_simps dest!: hm_insert_mem)
  next
    case group
    then have "group_from env protocol pv req rc ids (ri_attr_referent x) \<lparr>rg_sub_proof_index = k, rg_values = vs\<rparr>"
      using sel group_values_get [OF group(4)] unfolding group_from_def by auto
    with group(5) assms(2) show ?thesis by (auto simp: from_simps dest!: hm_insert_mem)
  next
    case hidden
    then have "hidden_from protocol pv req rc ids (ri_attr_referent x) \<lparr>sp_sub_proof_index = k\<rparr>"
      using sel unfolding hidden_from_def by auto
    with hidden(2) assms(2) show ?thesis by (auto simp: from_simps dest!: hm_insert_mem)
  qed
  then show "proof_from env protocol pv req rc ids rp'" "attr_referents rp' = insert (ri_attr_referent x) (attr_referents rp)"
    "rp_predicates rp' = rp_predicates rp" "rp_self_attested_attrs rp' = rp_self_attested_attrs rp" by blast+
qed

lemma update_attributes_from:
  assumes "update_attributes env (request_value req) c k xs rp = Ok rp'" and "proof_from env protocol pv req rc ids rp"
    and c: "hm_get (pv_credentials pv) (pk_cred_id key) = Some c" "k < length ids" "ids ! k = proof_identifier (request_version req) protocol c (pk_timestamp key)"
    and ok: "entry_ok req rc key xs preds"
    and has: "\<forall>(r, info) \<in> set (pr_requested_attributes (request_value req)). ai_name info \<noteq> None \<or> ai_names info \<noteq> None"
  shows "proof_from env protocol pv req rc ids rp' \<and> attr_referents rp' = ri_attr_referent ` set xs \<union> attr_referents rp \<and>
    rp_predicates rp' = rp_predicates rp \<and> rp_self_attested_attrs rp' = rp_self_attested_attrs rp"
  using assms(1,2) ok
proof (induction xs arbitrary: rp)
  case (Cons x xs)
  from Cons.prems(1) obtain rp1 where rp1: "update_attribute env (request_value req) c k x rp = Ok rp1"
    and rest: "update_attributes env (request_value req) c k xs rp1 = Ok rp'" by auto
  from Cons.prems(3) obtain s where s: "(ri_attr_referent x, s) \<in> set (rc_requested_attributes rc)" "ri_revealed x = rq_revealed s"
    and key: "key = key_of s" and info: "hm_get (pr_requested_attributes (request_value req)) (ri_attr_referent x) = Some (ri_attr_info x)"
    by (auto simp: entry_ok_def)
  have named: "ai_name (ri_attr_info x) \<noteq> None \<or> ai_names (ri_attr_info x) \<noteq> None" using has hm_get_Some_in [OF info] by auto
  have c': "hm_get (pv_credentials pv) (rq_cred_id s) = Some c" "ids ! k = proof_identifier (request_version req) protocol c (rq_timestamp s)"
    using c key by (simp_all add: key_of_def)
  note step = update_attribute_from [OF rp1 Cons.prems(2) s c'(1) c(2) c'(2) info named]
  have "entry_ok req rc key xs preds" using Cons.prems(3) by (simp add: entry_ok_def)
  from Cons.IH [OF rest step(1) this] step show ?case by auto
qed simp

lemma update_requested_proof_from:
  assumes "update_requested_proof env xs preds (request_value req) c k rp = Ok rp'" and "proof_from env protocol pv req rc ids rp"
    and c: "hm_get (pv_credentials pv) (pk_cred_id key) = Some c" "k < length ids" "ids ! k = proof_identifier (request_version req) protocol c (pk_timestamp key)"
    and ok: "entry_ok req rc key xs preds"
    and has: "\<forall>(r, info) \<in> set (pr_requested_attributes (request_value req)). ai_name info \<noteq> None \<or> ai_names info \<noteq> None"
  shows "proof_from env protocol pv req rc ids rp' \<and> attr_referents rp' = ri_attr_referent ` set xs \<union> attr_referents rp \<and>
    fst ` set (rp_predicates rp') = rj_predicate_referent ` set preds \<union> fst ` set (rp_predicates rp) \<and>
    rp_self_attested_attrs rp' = rp_self_attested_attrs rp"
proof -
  let ?ins = "fold (\<lambda>p m. hm_insert m (rj_predicate_referent p) \<lparr>sp_sub_proof_index = k\<rparr>)"
  from assms(1) obtain rp1 where rp1: "update_attributes env (request_value req) c k xs rp = Ok rp1"
    and rp': "rp' = rp1\<lparr>rp_predicates := ?ins preds (rp_predicates rp1)\<rparr>" by (auto simp: update_requested_proof_def)
  note attrs = update_attributes_from [OF rp1 assms(2) c ok has]
  have keys: "fst ` set (?ins ps m) = rj_predicate_referent ` set ps \<union> fst ` set m" for ps m
    by (induction ps arbitrary: m) (auto simp: fst_hm_insert)
  have mem: "(r, p) \<in> set (?ins ps m) \<Longrightarrow> (r, p) \<in> set m \<or> r \<in> rj_predicate_referent ` set ps \<and> p = \<lparr>sp_sub_proof_index = k\<rparr>" for ps m r p
    by (induction ps arbitrary: m) (auto dest!: hm_insert_mem)
  have new: "predicate_from protocol pv req rc ids r \<lparr>sp_sub_proof_index = k\<rparr>" if "r \<in> rj_predicate_referent ` set preds" for r
  proof -
    from that ok obtain info where "(r, key) \<in> set (rc_requested_predicates rc)" "hm_get (pr_requested_predicates (request_value req)) r = Some info"
      by (auto simp: entry_ok_def)
    with c show ?thesis unfolding predicate_from_def by auto
  qed
  have old: "predicate_from protocol pv req rc ids r p" if "(r, p) \<in> set (rp_predicates rp1)" for r p
    using that attrs by (auto simp: proof_from_def)
  have "predicate_from protocol pv req rc ids r p" if "(r, p) \<in> set (?ins preds (rp_predicates rp1))" for r p
    using mem [OF that] old new by auto
  with attrs show ?thesis by (auto simp: rp' proof_from_def keys attr_referents_def)
qed

lemma prove_credentials_from:
  assumes "prove_credentials env protocol pv req master_secret ncs entries builder ids rp = Ok (builder', ids', rp')"
    and "proof_from env protocol pv req rc ids rp" and "\<forall>(key, attrs, preds) \<in> set entries. entry_ok req rc key attrs preds"
    and has: "\<forall>(r, info) \<in> set (pr_requested_attributes (request_value req)). ai_name info \<noteq> None \<or> ai_names info \<noteq> None"
  shows "proof_from env protocol pv req rc ids' rp' \<and>
    attr_referents rp' = attr_referents rp \<union> (\<Union>(key, attrs, preds) \<in> set entries. ri_attr_referent ` set attrs) \<and>
    fst ` set (rp_predicates rp') = fst ` set (rp_predicates rp) \<union> (\<Union>(key, attrs, preds) \<in> set entries. rj_predicate_referent ` set preds) \<and>
    rp_self_attested_attrs rp' = rp_self_attested_attrs rp"
  using assms(1-3)
proof (induction entries arbitrary: builder ids rp)
  case (Cons e entries)
  obtain key attrs preds where e: "e = (key, attrs, preds)" by (cases e) auto
  from Cons.prems(1) obtain c b1 rp1 where c: "hm_get (pv_credentials pv) (pk_cred_id key) = Some c"
    and rp1: "update_requested_proof env attrs preds (request_value req) c (length ids) rp = Ok rp1"
    and rest: "prove_credentials env protocol pv req master_secret ncs entries b1
      (ids @ [proof_identifier (request_version req) protocol c (pk_timestamp key)]) rp1 = Ok (builder', ids', rp')"
    by (auto simp: e)
  let ?ids = "ids @ [proof_identifier (request_version req) protocol c (pk_timestamp key)]"
  have "entry_ok req rc key attrs preds" using Cons.prems(3) by (simp add: e)
  from update_requested_proof_from [where ids = ?ids, OF rp1 proof_from_more [OF Cons.prems(2)] c _ _ this has]
  have step: "proof_from env protocol pv req rc ?ids rp1" "attr_referents rp1 = ri_attr_referent ` set attrs \<union> attr_referents rp"
    "fst ` set (rp_predicates rp1) = rj_predicate_referent ` set preds \<union> fst ` set (rp_predicates rp)"
    "rp_self_attested_attrs rp1 = rp_self_attested_attrs rp" by simp_all
  from Cons.IH [OF rest step(1)] Cons.prems(3) step(2-4) show ?case by (simp add: e Un_ac)
qed simp

lemma prepared_at:
  assumes "prepare_credentials_for_proving rc req = Ok m"
  shows "attrs_at m k = {x. \<exists>s. (ri_attr_referent x, s) \<in> set (rc_requested_attributes rc) \<and>
      hm_get (pr_requested_attributes req) (ri_attr_referent x) = Some (ri_attr_info x) \<and> k = key_of s \<and> ri_revealed x = rq_revealed s}"
    "preds_at m k = {x. (rj_predicate_referent x, k) \<in> set (rc_requested_predicates rc) \<and>
      hm_get (pr_requested_predicates req) (rj_predicate_referent x) = Some (rj_predicate_info x)}"
    "(r, s) \<in> set (rc_requested_attributes rc) \<Longrightarrow> hm_get (pr_requested_attributes req) r \<noteq> None"
    "(r, k) \<in> set (rc_requested_predicates rc) \<Longrightarrow> hm_get (pr_requested_predicates req) r \<noteq> None"
    "hm_wf m"
proof -
  from assms obtain m0 where m0: "prepare_attributes req (rc_requested_attributes rc) [] = Ok m0"
    and m: "prepare_predicates req (rc_requested_predicates rc) m0 = Ok m"
    by (auto simp: prepare_credentials_for_proving_def)
  have "hm_wf ([] :: ForProving)" by (simp add: hm_wf_def)
  note a = prepare_attributes_at [OF m0 this]
  note p = prepare_predicates_at [OF m, OF conjunct1 [OF a]]
  from a p show "attrs_at m k = {x. \<exists>s. (ri_attr_referent x, s) \<in> set (rc_requested_attributes rc) \<and>
      hm_get (pr_requested_attributes req) (ri_attr_referent x) = Some (ri_attr_info x) \<and> k = key_of s \<and> ri_revealed x = rq_revealed s}"
    "preds_at m k = {x. (rj_predicate_referent x, k) \<in> set (rc_requested_predicates rc) \<and>
      hm_get (pr_requested_predicates req) (rj_predicate_referent x) = Some (rj_predicate_info x)}"
    by (simp_all add: attrs_at_def [of "[]"] preds_at_def [of "[]"])
  from a p show "(r, s) \<in> set (rc_requested_attributes rc) \<Longrightarrow> hm_get (pr_requested_attributes req) r \<noteq> None"
    "(r, k) \<in> set (rc_requested_predicates rc) \<Longrightarrow> hm_get (pr_requested_predicates req) r \<noteq> None" "hm_wf m" by blast+
qed

lemma entry_at: "hm_wf m \<Longrightarrow> (key, attrs, preds) \<in> set m \<Longrightarrow> set attrs = attrs_at m key \<and> set preds = preds_at m key"
  by (drule (1) hm_get_member) (simp add: attrs_at_def preds_at_def)

lemma at_entry:
  assumes "x \<in> attrs_at m k \<or> y \<in> preds_at m k"
  shows "\<exists>attrs preds. (k, attrs, preds) \<in> set m \<and> set attrs = attrs_at m k \<and> set preds = preds_at m k"
proof (cases "hm_get m k")
  case (Some e)
  obtain attrs preds where "e = (attrs, preds)" by (cases e)
  with Some hm_get_Some_in [OF Some] show ?thesis by (auto simp: attrs_at_def preds_at_def)
qed (use assms in \<open>simp add: attrs_at_def preds_at_def\<close>)

lemma prepared_entries:
  assumes "prepare_credentials_for_proving rc (request_value req) = Ok m"
  shows "\<forall>(key, attrs, preds) \<in> set m. entry_ok req rc key attrs preds"
    "(\<Union>(key, attrs, preds) \<in> set m. ri_attr_referent ` set attrs) = fst ` set (rc_requested_attributes rc)"
    "(\<Union>(key, attrs, preds) \<in> set m. rj_predicate_referent ` set preds) = fst ` set (rc_requested_predicates rc)"
proof -
  note at = prepared_at [OF assms]
  have entry: "set attrs = attrs_at m key" "set preds = preds_at m key" if "(key, attrs, preds) \<in> set m" for key attrs preds
    using entry_at [OF at(5) that] by simp_all
  show "\<forall>(key, attrs, preds) \<in> set m. entry_ok req rc key attrs preds"
    by (auto simp: entry_ok_def entry at(1,2))
  show "(\<Union>(key, attrs, preds) \<in> set m. ri_attr_referent ` set attrs) = fst ` set (rc_requested_attributes rc)" (is "?l = ?r")
  proof
    show "?l \<subseteq> ?r" by (force simp: entry at(1,2))
    show "?r \<subseteq> ?l"
    proof
      fix r assume "r \<in> ?r"
      then obtain s where s: "(r, s) \<in> set (rc_requested_attributes rc)" by auto
      then obtain info where "hm_get (pr_requested_attributes (request_value req)) r = Some info" using at(3) by blast
      with s have x: "\<lparr>ri_attr_referent = r, ri_attr_info = info, ri_revealed = rq_revealed s\<rparr> \<in> attrs_at m (key_of s)" by (auto simp: at(1))
      with at_entry obtain attrs preds where "(key_of s, attrs, preds) \<in> set m" "set attrs = attrs_at m (key_of s)" by blast
      with x show "r \<in> ?l" by (force simp: image_iff)
    qed
  qed
  show "(\<Union>(key, attrs, preds) \<in> set m. rj_predicate_referent ` set preds) = fst ` set (rc_requested_predicates rc)" (is "?l = ?r")
  proof
    show "?l \<subseteq> ?r" by (force simp: entry at(1,2))
    show "?r \<subseteq> ?l"
    proof
      fix r assume "r \<in> ?r"
      then obtain k where k: "(r, k) \<in> set (rc_requested_predicates rc)" by auto
      then obtain info where "hm_get (pr_requested_predicates (request_value req)) r = Some info" using at(4) by blast
      with k have x: "\<lparr>rj_predicate_referent = r, rj_predicate_info = info\<rparr> \<in> preds_at m k" by (auto simp: at(2))
      with at_entry obtain attrs preds where "(k, attrs, preds) \<in> set m" "set preds = preds_at m k" by blast
      with x show "r \<in> ?l" by (force simp: image_iff)
    qed
  qed
qed

lemma created_proof_from:
  assumes "create_proof env protocol pv req rc master_secret = Ok proof" and "proof_request_validate req = Some ()"
    and "\<forall>m. set (up_entries env m) = set m"
  shows "proof_from env protocol pv req rc (pf_identifiers proof) (pf_requested_proof proof) \<and>
    attr_referents (pf_requested_proof proof) = fst ` set (rc_requested_attributes rc) \<and>
    fst ` set (rp_predicates (pf_requested_proof proof)) = fst ` set (rc_requested_predicates rc) \<and>
    rp_self_attested_attrs (pf_requested_proof proof) = rc_self_attested_attributes rc"
proof -
  let ?rp0 = "requested_proof_default\<lparr>rp_self_attested_attrs := rc_self_attested_attributes rc\<rparr>"
  from assms(1) obtain b m ncs b' ids rp where m: "prepare_credentials_for_proving rc (request_value req) = Ok m"
    and run: "prove_credentials env protocol pv req master_secret ncs (up_entries env m) b [] ?rp0 = Ok (b', ids, rp)"
    and pf: "pf_requested_proof proof = rp" "pf_identifiers proof = ids"
    by (auto simp: create_proof_def)
  have has: "\<forall>(r, info) \<in> set (pr_requested_attributes (request_value req)). ai_name info \<noteq> None \<or> ai_names info \<noteq> None"
    using assms(2) by (fastforce simp: proof_request_validate_def Let_def all_some_def list_all_iff check_attribute_def
        split: if_splits option.splits bind_splits)
  have rp0: "proof_from env protocol pv req rc [] ?rp0" "attr_referents ?rp0 = {}" "rp_predicates ?rp0 = []"
    "rp_self_attested_attrs ?rp0 = rc_self_attested_attributes rc"
    by (simp_all add: proof_from_def requested_proof_default_def attr_referents_def)
  have "\<forall>(key, attrs, preds) \<in> set (up_entries env m). entry_ok req rc key attrs preds"
    using assms(3) prepared_entries(1) [OF m] by simp
  from prove_credentials_from [OF run rp0(1) this has] prepared_entries(2,3) [OF m] show ?thesis
    unfolding rp0 pf using assms(3) by simp
qed

section \<open>From selection to verification\<close>

text \<open>
  C23: A created proof answers exactly the attributes and predicates for which credentials were selected: each entry of
  the requested proof points to the sub proof of the credential selected for its referent, which the identifier at
  that place names, and shows the values of that credential for the requested name.
\<close>

theorem created_proof_answers:
  assumes "create_proof env protocol pv req rc master_secret = Ok proof" and "proof_request_validate req = Some ()"
    and "\<forall>m. set (up_entries env m) = set m"
  shows "proof_from env protocol pv req rc (pf_identifiers proof) (pf_requested_proof proof) \<and>
    attr_referents (pf_requested_proof proof) = fst ` set (rc_requested_attributes rc) \<and>
    fst ` set (rp_predicates (pf_requested_proof proof)) = fst ` set (rc_requested_predicates rc) \<and>
    rp_self_attested_attrs (pf_requested_proof proof) = rc_self_attested_attributes rc"
  by (rule created_proof_from [OF assms])

lemma insert_identifiers_total:
  "\<forall>(r, i) \<in> set rs. i < length (pf_identifiers proof) \<Longrightarrow> \<exists>m'. insert_identifiers proof rs m = Ok m'"
  by (induction rs arbitrary: m) (auto simp: get_proof_identifier_def)

lemma proof_from_received:
  assumes "proof_from env protocol pv req rc (pf_identifiers proof) (pf_requested_proof proof)"
  shows "\<exists>rm um pm. received_revealed_attrs proof = Ok rm \<and> received_unrevealed_attrs proof = Ok um \<and> received_predicates proof = Ok pm"
proof -
  let ?rp = "pf_requested_proof proof" and ?n = "length (pf_identifiers proof)"
  have range: "\<forall>(r, a) \<in> set (rp_revealed_attrs ?rp). ra_sub_proof_index a < ?n" "\<forall>(r, g) \<in> set (rp_revealed_attr_groups ?rp). rg_sub_proof_index g < ?n"
    "\<forall>(r, u) \<in> set (rp_unrevealed_attrs ?rp). sp_sub_proof_index u < ?n" "\<forall>(r, p) \<in> set (rp_predicates ?rp). sp_sub_proof_index p < ?n"
    using assms unfolding proof_from_def revealed_from_def group_from_def hidden_from_def predicate_from_def selected_def by fast+
  from range have "\<forall>(r, i) \<in> set (map (\<lambda>(r, info). (r, ra_sub_proof_index info)) (rp_revealed_attrs ?rp)). i < ?n"
    "\<forall>(r, i) \<in> set (map (\<lambda>(r, infos). (r, rg_sub_proof_index infos)) (rp_revealed_attr_groups ?rp)). i < ?n"
    "\<forall>(r, i) \<in> set (map (\<lambda>(r, info). (r, sp_sub_proof_index info)) (rp_unrevealed_attrs ?rp)). i < ?n"
    "\<forall>(r, i) \<in> set (map (\<lambda>(r, info). (r, sp_sub_proof_index info)) (rp_predicates ?rp)). i < ?n" by auto
  note total = this [THEN insert_identifiers_total]
  from total(1) [of "[]"] obtain rm0 where
    rm0: "insert_identifiers proof (map (\<lambda>(r, info). (r, ra_sub_proof_index info)) (rp_revealed_attrs ?rp)) [] = Ok rm0" by blast
  with total(2) [of rm0] total(3,4) [of "[]"] show ?thesis
    by (auto simp: received_revealed_attrs_def received_unrevealed_attrs_def received_predicates_def)
qed

lemma selected_once:
  assumes "hm_wf (rc_requested_attributes rc)" and "selected protocol pv req rc ids b r k c info" "selected protocol pv req rc ids b' r k' c' info'"
  shows "b = b' \<and> info = info'"
proof -
  from assms(2,3) obtain s s' where s: "(r, s) \<in> set (rc_requested_attributes rc)" "(r, s') \<in> set (rc_requested_attributes rc)"
    "rq_revealed s = b" "rq_revealed s' = b'" "Some info = Some info'" by (auto simp: selected_def)
  with hm_get_member [OF assms(1) s(1)] hm_get_member [OF assms(1) s(2)] show ?thesis by simp
qed

lemma referents_selected:
  assumes "proof_from env protocol pv req rc ids rp"
  shows "r \<in> fst ` set (rp_revealed_attrs rp) \<Longrightarrow> \<exists>k c info. selected protocol pv req rc ids True r k c info \<and> ai_name info \<noteq> None"
    "r \<in> fst ` set (rp_revealed_attr_groups rp) \<Longrightarrow> \<exists>k c info. selected protocol pv req rc ids True r k c info \<and> ai_name info = None"
    "r \<in> fst ` set (rp_unrevealed_attrs rp) \<Longrightarrow> \<exists>k c info. selected protocol pv req rc ids False r k c info"
proof -
  assume "r \<in> fst ` set (rp_revealed_attrs rp)"
  then obtain a where "revealed_from env protocol pv req rc ids r a" using assms by (auto simp: proof_from_def)
  then obtain c info name where "selected protocol pv req rc ids True r (ra_sub_proof_index a) c info" "ai_name info = Some name"
    unfolding revealed_from_def by blast
  then show "\<exists>k c info. selected protocol pv req rc ids True r k c info \<and> ai_name info \<noteq> None" by (metis option.distinct(1))
next
  assume "r \<in> fst ` set (rp_revealed_attr_groups rp)"
  then obtain g where "group_from env protocol pv req rc ids r g" using assms by (auto simp: proof_from_def)
  then show "\<exists>k c info. selected protocol pv req rc ids True r k c info \<and> ai_name info = None"
    unfolding group_from_def by blast
next
  assume "r \<in> fst ` set (rp_unrevealed_attrs rp)"
  then obtain u where "hidden_from protocol pv req rc ids r u" using assms by (auto simp: proof_from_def)
  then show "\<exists>k c info. selected protocol pv req rc ids False r k c info" unfolding hidden_from_def by blast
qed

lemma disjoint_referents:
  assumes wf: "hm_wf (rc_requested_attributes rc)" and src: "proof_from env protocol pv req rc ids rp"
  shows "fst ` set (rp_revealed_attrs rp) \<inter> fst ` set (rp_unrevealed_attrs rp) = {}"
    "fst ` set (rp_revealed_attr_groups rp) \<inter> fst ` set (rp_unrevealed_attrs rp) = {}"
    "fst ` set (rp_revealed_attrs rp) \<inter> fst ` set (rp_revealed_attr_groups rp) = {}"
  using referents_selected [OF src] selected_once [OF wf] by (metis (no_types, lifting) disjoint_iff)+

text \<open>
  A proof that is created from a complete selection is a complete answer for the verifier: the received attributes and
  predicates are those of the request, and no referent is listed both as revealed and as unrevealed.
\<close>

theorem created_proof_covers_request:
  assumes "create_proof env protocol pv req rc master_secret = Ok proof" and "proof_request_validate req = Some ()"
    and "\<forall>m. set (up_entries env m) = set m" and wf: "hm_wf (rc_requested_attributes rc)"
    and "fst ` set (pr_requested_attributes (request_value req)) = fst ` set (rc_requested_attributes rc) \<union> fst ` set (rc_self_attested_attributes rc)"
    and "fst ` set (pr_requested_predicates (request_value req)) = fst ` set (rc_requested_predicates rc)"
  shows "\<exists>rm um pm. received_revealed_attrs proof = Ok rm \<and> received_unrevealed_attrs proof = Ok um \<and> received_predicates proof = Ok pm \<and>
    compare_attr_from_proof_and_request (request_value req) rm um (received_self_attested_attrs proof) pm = Ok () \<and>
    fst ` set rm \<inter> fst ` set um = {} \<and>
    fst ` set (rp_revealed_attrs (pf_requested_proof proof)) \<inter> fst ` set (rp_revealed_attr_groups (pf_requested_proof proof)) = {}"
proof -
  let ?rp = "pf_requested_proof proof"
  note created = created_proof_from [OF assms(1-3)]
  then have src: "proof_from env protocol pv req rc (pf_identifiers proof) ?rp" by blast
  from proof_from_received [OF src] obtain rm um pm where
    r: "received_revealed_attrs proof = Ok rm" "received_unrevealed_attrs proof = Ok um" "received_predicates proof = Ok pm" by blast
  note keys = received_keys(1) [OF r(1)] received_keys(2) [OF r(2)] received_keys(3) [OF r(3)]
  have "fst ` set (pr_requested_attributes (request_value req)) = fst ` set (rm @ um) \<union> received_self_attested_attrs proof"
    "fst ` set (pr_requested_predicates (request_value req)) = fst ` set pm"
    using created assms(5,6) by (simp_all add: image_Un keys attr_referents_def received_self_attested_attrs_def Un_ac)
  then have "compare_attr_from_proof_and_request (request_value req) rm um (received_self_attested_attrs proof) pm = Ok ()"
    by (simp add: compare_attr_from_proof_and_request_def)
  moreover note disjoint_referents [OF wf src]
  ultimately show ?thesis using r by (intro exI [of _ rm] exI [of _ um] exI [of _ pm]) (auto simp: keys)
qed


section \<open>A sample of the whole path\<close>

definition sample_prover :: ProverEnv where
  "sample_prover = \<lparr>ur_proofs = ur_proofs sample_ursa, ur_revealed_attrs = ur_revealed_attrs sample_ursa, ur_from_dec = ur_from_dec sample_ursa,
     ur_credential_schema = (\<lambda>_. Ok ''schema''), ur_non_credential_schema = (\<lambda>_. Ok ''master''),
     ur_sub_proof_request = (\<lambda>_ _. Ok ''request''), ur_public_key = (\<lambda>p _. Ok p), ur_new_verifier = Ok [],
     ur_add = (\<lambda>v x. Ok (v @ si_pub_key x)), ur_verify = (\<lambda>_ p nonce. Ok (p = ''proof'' \<and> nonce = ''1'')),
     ur_lowercase = (\<lambda>s. s), ur_order = (\<lambda>m. m),
     up_master_secret_value = Ok, up_credential_values = (\<lambda>_ _. Ok ''values''),
     up_blind_credential_secrets = (\<lambda>_ _ _ _. Ok (''b'', ''f'', ''p'')), up_process_signature = (\<lambda>s _ _ _ _ _ _ _ _. Ok s),
     up_new_builder = Ok [], up_add_common_attribute = (\<lambda>b _. Ok b), up_add_sub_proof = (\<lambda>b _. Ok b),
     up_finalize = (\<lambda>_ _. Ok ''proof''), up_entries = (\<lambda>m. m)\<rparr>"

definition sample_credential :: Credential where
  "sample_credential = \<lparr>cr_schema_id = ''Gov:2:gvt:1.0'', cr_cred_def_id = ''Gov:3:CL:7:tag'', cr_rev_reg_id = None,
     cr_values = [(''name'', \<lparr>av_raw = ''Alice'', av_encoded = ''17''\<rparr>), (''age'', \<lparr>av_raw = ''28'', av_encoded = ''28''\<rparr>)],
     cr_signature = ''signature'', cr_signature_correctness_proof = ''correct'', cr_rev_reg = None, cr_witness = None\<rparr>"

definition sample_data :: ProverData where
  "sample_data = \<lparr>pv_credentials = [(''c1'', sample_credential)], pv_schemas = pd_schemas sample_public, pv_cred_defs = pd_cred_defs sample_public, pv_rev_states = []\<rparr>"

definition sample_selection :: RequestedCredentials where
  "sample_selection = \<lparr>rc_self_attested_attributes = [],
     rc_requested_attributes = [(''r'', \<lparr>rq_cred_id = ''c1'', rq_timestamp = None, rq_revealed = True\<rparr>)],
     rc_requested_predicates = [(''age'', \<lparr>pk_cred_id = ''c1'', pk_timestamp = None\<rparr>)]\<rparr>"

definition sample_created_proof :: Proof where
  "sample_created_proof = \<lparr>pf_proof = ''proof'', pf_requested_proof =
     \<lparr>rp_revealed_attrs = [(''r'', \<lparr>ra_sub_proof_index = 0, ra_raw = ''Alice'', ra_encoded = ''17''\<rparr>)], rp_revealed_attr_groups = [],
      rp_self_attested_attrs = [], rp_unrevealed_attrs = [], rp_predicates = [(''age'', \<lparr>sp_sub_proof_index = 0\<rparr>)]\<rparr>,
     pf_identifiers = [\<lparr>id_schema_id = ''Gov:2:gvt:1.0'', id_cred_def_id = ''Gov:3:CL:7:tag'', id_rev_reg_id = None, id_timestamp = None\<rparr>]\<rparr>"

abbreviation sample_asked :: ProofRequestPayload where
  "sample_asked \<equiv> sample_request [(''age'', sample_age)] None"

lemma sample_create:
  "create_proof sample_prover 2 sample_data (ProofRequestV2 sample_asked) sample_selection ''secret'' = Ok sample_created_proof"
  "proof_request_validate (ProofRequestV2 sample_asked) = Some ()"
  by code_simp+

lemma sample_prover_orders: "\<forall>m. set (up_entries sample_prover m) = set m" "order_ok sample_prover"
  by (simp_all add: sample_prover_def order_ok_def)

text \<open>The created proof is accepted by the verifier.\<close>

lemma sample_path: "verify sample_prover sample_created_proof sample_asked sample_public = Ok True"
  by code_simp

theorem created_proof_answers_witness:
  "attr_referents (pf_requested_proof sample_created_proof) = {''r''} \<and>
   proof_from sample_prover 2 sample_data (ProofRequestV2 sample_asked) sample_selection (pf_identifiers sample_created_proof) (pf_requested_proof sample_created_proof)"
  using created_proof_answers [OF sample_create sample_prover_orders(1)] by (simp add: sample_selection_def)

theorem created_proof_covers_request_witness:
  "\<exists>rm um pm. compare_attr_from_proof_and_request sample_asked rm um (received_self_attested_attrs sample_created_proof) pm = Ok () \<and>
     received_revealed_attrs sample_created_proof = Ok rm \<and> fst ` set rm \<inter> fst ` set um = {}"
  using created_proof_covers_request [OF sample_create sample_prover_orders(1)]
  by (auto simp: sample_selection_def sample_request_def hm_wf_def)

lemma sample_offered:
  "\<exists>tags query. build_credential_tags sample_prover 2 sample_credential None = Ok tags \<and>
     process_proof_request_restrictions sample_prover PRV2 (Some ''Name'') None ''r''
       (Some (Q_And [Q_Eq ''issuer_did'' ''Gov'', Q_Eq ''attr::name::value'' ''Alice''])) None = Ok query \<and>
     query_matches like (hm_get tags) query"
proof -
  let ?tags = "[(''schema_id'', ''Gov:2:gvt:1.0''), (''schema_issuer_did'', ''Gov''), (''schema_name'', ''gvt''), (''schema_version'', ''1.0''),
    (''issuer_did'', ''Gov''), (''cred_def_id'', ''Gov:3:CL:7:tag''), (''rev_reg_id'', ''None''), (''attr::name::marker'', ''1''),
    (''attr::name::value'', ''Alice''), (''attr::age::marker'', ''1''), (''attr::age::value'', ''28'')]"
  let ?query = "Q_And [Q_And [Q_Eq ''issuer_did'' ''Gov'', Q_Eq ''attr::name::value'' ''Alice''], Q_Eq ''attr::name::marker'' ''1'']"
  have "build_credential_tags sample_prover 2 sample_credential None = Ok ?tags" by code_simp
  moreover have "process_proof_request_restrictions sample_prover PRV2 (Some ''Name'') None ''r''
       (Some (Q_And [Q_Eq ''issuer_did'' ''Gov'', Q_Eq ''attr::name::value'' ''Alice''])) None = Ok ?query" by code_simp
  moreover have "query_matches like (hm_get ?tags) ?query" by simp
  ultimately show ?thesis by blast
qed

lemma sample_concerns:
  "distinct (map (\<lambda>(a, _). attr_common_view sample_prover a) (cr_values sample_credential))"
  "restriction_over (\<lambda>tag _. concerns sample_prover ''Name'' tag) (Q_And [Q_Eq ''issuer_did'' ''Gov'', Q_Eq ''attr::name::value'' ''Alice''])"
  by code_simp+

theorem offered_credential_verifies_witness:
  "\<exists>tags query. query_matches like (hm_get tags) query \<and>
    (\<exists>v. get_credential_values_for_attribute sample_prover (cr_values sample_credential) ''Name'' = Some v \<and>
      restriction_holds (tag_shown sample_prover (proof_identifier PRV2 2 sample_credential None) [(''Name'', Some (av_raw v))])
        (Q_And [Q_Eq ''issuer_did'' ''Gov'', Q_Eq ''attr::name::value'' ''Alice'']))"
  using sample_offered [of like] offered_credential_verifies [OF _ sample_concerns(1) sample_prover_orders(2) sample_concerns(2), of 2] by blast


end
