(* ===== verification/Spec2Isabelle.thy ===== *)
theory Spec2Isabelle
  imports Merkle_Inclusion Pool_Catchup Wallet_Commands Crypto_Commands Did_Protocol Non_Secrets Pairwise_Commands Anoncreds_Proofs
begin

text \<open>
  Verification of libindy, the client library of Hyperledger Indy (\<open>src/libindy\<close>): how a client
  trusts a pool of nodes, and how it keeps its secrets in a wallet.

  \<^bold>\<open>The program.\<close> An open pool is a state machine (\<open>services/pool/pool.rs\<close>) that first brings its copy
  of the pool ledger up to date (\<open>catchup.rs\<close>, the Merkle trees of \<open>services/ledger/merkletree\<close>, files
  of \<open>merkle_tree_factory.rs\<close>) and then runs one request handler per request
  (\<open>request_handler.rs\<close>). A handler sends the request to nodes and accepts an answer that comes with a
  state proof (\<open>state_proof/\<close>: Patricia tries, audit paths, BLS multi-signatures) or from enough nodes.
  A wallet (\<open>indy-wallet/src\<close>) encrypts records and tags, translates queries of its query language
  (\<open>indy-utils/src/wql.rs\<close>) to encrypted queries, and keeps everything in a storage, by default an
  SQLite database. On top of the wallet, executors run the commands of the application one after the other
  (\<open>commands/\<close>): wallets, keys and messages, DIDs, pairwise relations, and records of the application. Anonymous
  credentials (\<open>services/anoncreds\<close>) are kept in the wallet under tags; a prover answers a proof request with a proof from
  selected credentials, which a verifier checks against the request and the public data of the ledger.

  \<^bold>\<open>Theories and sources.\<close>
  \<^item> \<open>Indy_Prelude\<close>, \<open>Rust_Std\<close>, \<open>Json_Value\<close>: bytes, error kinds, the results \<open>Ok\<close>, \<open>Err\<close> and
    \<open>Panic\<close>, hash maps as association lists, \<open>usize\<close> arithmetic with and without overflow checks, the
    parts of Rust's standard library that are used, JSON values.
  \<^item> \<open>Crypto_Hash\<close>, \<open>Merkle_Tree\<close>, \<open>Merkle_Consistency\<close>, \<open>Merkle_Inclusion\<close>, with the interface
    \<open>Ledger_Log\<close>: \<open>services/ledger/merkletree\<close>. The trees are those of RFC 6962, \<open>append\<close> agrees with
    \<open>from_vec\<close>, accepted consistency and inclusion proofs are sound up to collisions of SHA-256, and
    honest proofs are accepted.
  \<^item> \<open>Patricia_Trie\<close>, \<open>State_Proof\<close>: \<open>services/pool/state_proof\<close>. An accepted proof binds the answer to
    a root signed by a quorum; lookups end.
  \<^item> \<open>Ledger_Constants\<close>, \<open>Pool_Ledger\<close>, \<open>Catchup\<close>: genesis and cache files, node state, votes on a
    catch-up target, replay of transactions.
  \<^item> \<open>Pool_Events\<close>, \<open>Request_Handler\<close>, \<open>Request_Protocol\<close>: \<open>events.rs\<close>, \<open>request_handler.rs\<close>.
    Every command is acknowledged at most once, an accepted answer has its votes or its proof, a request
    completes when enough nodes answer.
  \<^item> \<open>Pool_SM\<close>, \<open>Pool_Protocol\<close>, \<open>Pool_Catchup\<close>: \<open>pool.rs\<close> over any handler that keeps the contract
    \<open>request_handler\<close>, interpreted by \<open>RequestHandlerImpl\<close>. No command is answered twice or lost,
    except where findings say so, and a pool is activated only after a voted target was reached.
  \<^item> \<open>Wql\<close>, \<open>Wallet_Crypto\<close>, \<open>Wallet_Query\<close>: \<open>wql.rs\<close>, \<open>encryption.rs\<close>, \<open>language.rs\<close>,
    \<open>query_encryption.rs\<close>, \<open>storage/default/query.rs\<close>. Round trips of queries and records; the SQL
    condition of an encrypted query holds on encrypted tags iff the query holds on the tags.
  \<^item> \<open>Sql_Engine\<close>, \<open>Wallet_Storage\<close>, \<open>Sqlite_Storage\<close>, \<open>Wallet\<close>: the tables and the reading of the
    search statement, the trait \<open>WalletStorage\<close> with its contract (locale \<open>wallet_storage\<close>), the
    default storage that meets it, and \<open>wallet.rs\<close> over any storage that does. A wallet behaves like a
    map from type and id to value and tags, and a search returns exactly the matching records.
  \<^item> \<open>Chacha_Stream\<close>, \<open>Export_Import\<close>: the chunked cipher stream of
    \<open>indy-utils/src/crypto/chacha20poly1305_ietf\<close> and \<open>export_import.rs\<close>. What is written in any portions
    is read back in any portions, and importing an exported wallet gives a wallet with the same records.
  \<^item> \<open>Wallet_Service\<close>: \<open>WalletService\<close> of \<open>indy-wallet/src/lib.rs\<close>. Registered storage types, open wallets,
    locked ids, openings and imports that wait for a key, record operations by handle, export and import. An
    inductive step relation with every operation; handles stay distinct and drawn, and open wallets are locked
    as long as openings of one id do not overlap.
  \<^item> \<open>Wallet_Sessions\<close>: the contract of a storage type as a locale (SQLite is its instance), and sessions that open, use
    and close a wallet, with or without a new key; across all sessions the wallet answers as one map.
  \<^item> \<open>Wallet_Commands\<close>: \<open>libindy/src/commands/wallet.rs\<close> with the queue of \<open>commands/mod.rs\<close> and the thread pool. Every
    callback is called exactly once in every interleaving, and the executor comes to rest.
  \<^item> \<open>Wallet_Objects\<close>: what the other components may rely on when they keep objects in an open wallet, for every
    storage type of the contract: each object operation answers and acts as on the map the wallet stands for.
  \<^item> \<open>Dids\<close>, \<open>Crypto_Service\<close>, \<open>Crypto_Commands\<close>: \<open>utils/qualifier.rs\<close>, \<open>domain/crypto\<close>, \<open>services/crypto\<close>,
    \<open>commands/crypto.rs\<close>. A crypto type is an interface (locale \<open>crypto_type\<close>) that Ed25519 meets; new DIDs are well formed, and what
    is signed, boxed or packed is verified, opened or unpacked by the holder of the key.
  \<^item> \<open>Did_Commands\<close>, \<open>Did_Protocol\<close>: \<open>commands/did.rs\<close>. Creation and rotation of keys, commands that are deferred until the
    ledger replied, abbreviated keys, and the qualification of a DID, on any storage of the contract.
  \<^item> \<open>Non_Secrets\<close>, \<open>Pairwise_Commands\<close>: \<open>commands/non_secrets.rs\<close>, \<open>commands/pairwise.rs\<close>. Records of the application
    behave like a map and never touch those of the library, searches are read in portions, relations stay readable.
  \<^item> \<open>Anoncreds_Ids\<close>, \<open>Anoncreds_Verifier\<close>, \<open>Anoncreds_Prover\<close>, \<open>Anoncreds_Proofs\<close>: \<open>domain/anoncreds\<close>,
    \<open>services/anoncreds\<close> (\<open>helpers.rs\<close>, \<open>verifier.rs\<close>, \<open>prover.rs\<close>), around the crate \<open>ursa\<close> (\<open>UrsaEnv\<close>, \<open>ProverEnv\<close>). Identifiers are
    qualified and unqualified without loss; an accepted proof answers the request, its restrictions hold, and its revealed values
    are proved; a created proof answers the selection, and what the wallet search offers satisfies the verifier.

  \<^bold>\<open>Conventions.\<close> A struct is a record, an enum a datatype, a method a function of its receiver and
  arguments that returns the result and the receiver after it. A panic is the result \<open>Panic\<close>. Messages
  to the network and acknowledgements to the caller are returned as lists of effects in the order of the
  code. Third-party code is a parameter: hashes, ciphers, BLS, RLP, base58, base64, MessagePack, serde's
  text formats, the anonymous credentials of \<open>ursa\<close>; what a theorem needs of it (lengths, that a codec reads what it wrote, that opening
  inverts sealing) is a named hypothesis, and the witnesses instantiate it with concrete functions.
  Random values are arguments of the call that draws them.

  \<^bold>\<open>Fuel and bounds.\<close> The lookup in a trie takes fuel because a proof database may be cyclic only if
  SHA3 has a collision; the number of nodes in the proof plus the length of the path is shown to
  suffice. The reader of an SQL condition takes the length of its text as fuel, which is shown to
  suffice for every condition. \<open>usize\<close> is 64 bits wide.

  \<^bold>\<open>Not modelled.\<close> Threads, sockets and timers of the pool (\<open>Pool\<close>, \<open>PoolThread::_poll\<close>,
  \<open>networker.rs\<close>); the requests of the ledger service, which are JSON text that serde writes from the fields
  of the caller, and the executors that pass them on (\<open>ledger\<close>, \<open>pool\<close>, \<open>cache\<close>, \<open>payments\<close>, \<open>blob_storage\<close>,
  \<open>anoncreds\<close> under \<open>commands/\<close>); the C interface (\<open>api/\<close>); the issuer of credentials, which calls the crate \<open>ursa\<close>, and the
  mathematics of that crate; plugged storages (calls through C function pointers); the command line client, the wrappers, vcx and
  the plugins, which are programs of their own on top of the library. Failures of the operating system are not
  modelled, nor is the clearing of memory.
\<close>

end
